(* ===== verification/Relay_Prelude.thy ===== *)
theory Relay_Prelude
  imports Complex_Main "HOL-Library.AList" "HOL-Library.Sublist"
    "HOL-Library.Char_ord" "HOL-Library.List_Lexorder" "HOL-Library.Product_Lexorder"
begin

text \<open>
  What every component of the relay shares: the Python values the code handles (time stamps,
  strings, dictionaries, decoded JSON documents), the errors a handler answers with, and two
  interfaces that several components rely on, stated as locales: a transition system with an
  invariant, and a table of counted slots.

  Floating point numbers (time stamps, hours, progress) are exact rationals; rounding is not
  modelled. Strings are lists of characters; \<^verbatim>\<open>lower\<close>, \<^verbatim>\<open>strip\<close> and \<^verbatim>\<open>casefold\<close> act on ASCII and leave
  every other character alone.
\<close>

named_theorems relay_defs \<open>definitions of the handlers, unfolded together\<close>
named_theorems frame_simps \<open>what an operation leaves unchanged\<close>

type_synonym time = rat

section \<open>Python strings\<close>

definition is_space :: "char \<Rightarrow> bool" where
  "is_space c \<longleftrightarrow> (let n = of_char c :: nat in (9 \<le> n \<and> n \<le> 13) \<or> (28 \<le> n \<and> n \<le> 32))"

definition strip :: "string \<Rightarrow> string" where
  "strip s = rev (dropWhile is_space (rev (dropWhile is_space s)))"

definition lower_char :: "char \<Rightarrow> char" where
  "lower_char c = (let n = of_char c :: nat in if 65 \<le> n \<and> n \<le> 90 then char_of (n + 32) else c)"

definition lower :: "string \<Rightarrow> string" where
  "lower s = map lower_char s"

fun contains :: "string \<Rightarrow> string \<Rightarrow> bool" where
  "contains needle [] \<longleftrightarrow> needle = []"
| "contains needle (c # cs) \<longleftrightarrow> prefix needle (c # cs) \<or> contains needle cs"

text \<open>\<^verbatim>\<open>s.split(c)\<close> and \<^verbatim>\<open>s.split(c, 1)\<close> for a one-character separator.\<close>

fun split_on :: "char \<Rightarrow> string \<Rightarrow> string list" where
  "split_on c [] = [[]]"
| "split_on c (x # xs) =
     (if x = c then [] # split_on c xs
      else (case split_on c xs of [] \<Rightarrow> [[x]] | y # ys \<Rightarrow> (x # y) # ys))"

definition split_once :: "char \<Rightarrow> string \<Rightarrow> string list" where
  "split_once c s =
     (if c \<in> set s then [takeWhile (\<lambda>x. x \<noteq> c) s, tl (dropWhile (\<lambda>x. x \<noteq> c) s)] else [s])"

fun join :: "string \<Rightarrow> string list \<Rightarrow> string" where
  "join sep [] = []"
| "join sep [x] = x"
| "join sep (x # y # zs) = x @ sep @ join sep (y # zs)"

text \<open>\<^verbatim>\<open>s[-n:]\<close> for a positive \<^term>\<open>n\<close>: the last characters of a string.\<close>

definition last_chars :: "nat \<Rightarrow> string \<Rightarrow> string" where
  "last_chars n s = drop (length s - n) s"

lemma split_on_nonempty [simp]: "split_on c s \<noteq> []"
  by (induction s) (auto split: list.splits)

lemma join_split_on: "join [c] (split_on c s) = s"
proof (induction s)
  case (Cons x xs)
  obtain y ys where ys: "split_on c xs = y # ys"
    using split_on_nonempty [of c xs] by (cases "split_on c xs") auto
  show ?case
  proof (cases "x = c")
    case True
    with Cons ys show ?thesis by simp
  next
    case False
    with Cons ys show ?thesis by (cases ys) auto
  qed
qed simp

lemma contains_iff: "contains needle s \<longleftrightarrow> (\<exists>us vs. s = us @ needle @ vs)"
proof (induction s)
  case (Cons c cs)
  have "(\<exists>us vs. c # cs = us @ needle @ vs) \<longleftrightarrow>
      prefix needle (c # cs) \<or> (\<exists>us vs. cs = us @ needle @ vs)"
  proof
    assume "\<exists>us vs. c # cs = us @ needle @ vs"
    then obtain us vs where eq: "c # cs = us @ needle @ vs" by blast
    then show "prefix needle (c # cs) \<or> (\<exists>us vs. cs = us @ needle @ vs)"
    proof (cases us)
      case Nil
      with eq have "c # cs = needle @ vs" by simp
      then have "prefix needle (c # cs)" unfolding prefix_def by blast
      then show ?thesis by blast
    next
      case (Cons u us')
      with eq have "cs = us' @ needle @ vs" by simp
      then show ?thesis by blast
    qed
  next
    assume "prefix needle (c # cs) \<or> (\<exists>us vs. cs = us @ needle @ vs)"
    then show "\<exists>us vs. c # cs = us @ needle @ vs"
    proof
      assume "prefix needle (c # cs)"
      then obtain vs where "c # cs = [] @ needle @ vs" unfolding prefix_def by auto
      then show ?thesis by blast
    next
      assume "\<exists>us vs. cs = us @ needle @ vs"
      then obtain us vs where "c # cs = (c # us) @ needle @ vs" by auto
      then show ?thesis by blast
    qed
  qed
  with Cons show ?case by simp
qed auto

lemma length_last_chars: "length (last_chars n s) \<le> n"
  by (simp add: last_chars_def)

section \<open>Python dictionaries and decoded JSON\<close>

text \<open>
  A dictionary is an association list in insertion order with one entry per key;
  \<^const>\<open>map_of\<close> is \<^verbatim>\<open>d.get(k)\<close> and \<^const>\<open>AList.update\<close> is \<^verbatim>\<open>d[k] = v\<close>, which keeps
  the place of an existing key and appends a new one.
\<close>

type_synonym 'v dict = "(string \<times> 'v) list"

definition setdefault :: "string \<Rightarrow> 'v \<Rightarrow> 'v dict \<Rightarrow> 'v dict" where
  "setdefault k v d = (if map_of d k = None then d @ [(k, v)] else d)"

definition dict_update :: "'v dict \<Rightarrow> 'v dict \<Rightarrow> 'v dict" where
  "dict_update d e = fold (\<lambda>(k, v). AList.update k v) e d"

lemma map_of_setdefault:
  "map_of (setdefault k v d) x = (if x = k \<and> map_of d k = None then Some v else map_of d x)"
  by (simp add: setdefault_def map_add_def split: option.splits)

datatype json = JNull | JBool bool | JInt int | JFloat rat | JNonFinite | JStr string
  | JArr "json list" | JObj "(string \<times> json) list"

text \<open>
  A TEXT column that the code fills either with \<^verbatim>\<open>json.dumps\<close> of a document or with other text
  (a command's output). \<^verbatim>\<open>json.loads\<close> on the other text is a parameter, \<open>loads\<close>.
\<close>

datatype json_text = Raw string | Doc json

definition loads_text :: "(string \<Rightarrow> json option) \<Rightarrow> json_text \<Rightarrow> json option" where
  "loads_text loads t = (case t of Raw s \<Rightarrow> loads s | Doc j \<Rightarrow> Some j)"

text \<open>Python's truth value of a decoded JSON value, \<^verbatim>\<open>None\<close> for a missing key.\<close>

fun truthy :: "json option \<Rightarrow> bool" where
  "truthy None \<longleftrightarrow> False"
| "truthy (Some JNull) \<longleftrightarrow> False"
| "truthy (Some (JBool b)) \<longleftrightarrow> b"
| "truthy (Some (JInt i)) \<longleftrightarrow> i \<noteq> 0"
| "truthy (Some (JFloat r)) \<longleftrightarrow> r \<noteq> 0"
| "truthy (Some JNonFinite) \<longleftrightarrow> True"
| "truthy (Some (JStr t)) \<longleftrightarrow> t \<noteq> []"
| "truthy (Some (JArr xs)) \<longleftrightarrow> xs \<noteq> []"
| "truthy (Some (JObj d)) \<longleftrightarrow> d \<noteq> []"

definition py_or :: "json option \<Rightarrow> json option \<Rightarrow> json option" where
  "py_or x y = (if truthy x then x else y)"

text \<open>The text of a column, \<open>dumps\<close> standing for \<^verbatim>\<open>json.dumps\<close>.\<close>

definition text_of :: "(json \<Rightarrow> string) \<Rightarrow> json_text \<Rightarrow> string" where
  "text_of dumps t = (case t of Raw s \<Rightarrow> s | Doc j \<Rightarrow> dumps j)"

fun dict_of :: "json option \<Rightarrow> json dict" where
  "dict_of (Some (JObj d)) = d"
| "dict_of _ = []"

section \<open>Answers of the HTTP handlers\<close>

datatype http_error = HTTPException (status_code: int) (detail: string)

type_synonym 'a reply = "http_error + 'a"

section \<open>Transition systems with an invariant\<close>

text \<open>
  A component that changes its state in steps promises that its invariant holds at the start and
  that every step keeps it; its clients may then rely on the invariant in every reachable state.
\<close>

locale transition_system =
  fixes start :: "'s \<Rightarrow> bool"
    and step :: "'s \<Rightarrow> 's \<Rightarrow> bool"
    and inv :: "'s \<Rightarrow> bool"
  assumes start_inv: "start s \<Longrightarrow> inv s"
    and step_inv: "step s t \<Longrightarrow> inv s \<Longrightarrow> inv t"
begin

lemma steps_inv: "step\<^sup>*\<^sup>* s t \<Longrightarrow> inv s \<Longrightarrow> inv t"
  by (induction rule: rtranclp_induct) (auto intro: step_inv)

lemma run_inv: "start s \<Longrightarrow> step\<^sup>*\<^sup>* s t \<Longrightarrow> inv t"
  by (blast intro: steps_inv start_inv)

end

section \<open>Counted slots\<close>

text \<open>
  The relay counts what is in use per key in dictionaries: upload streams per token and per job,
  running jobs per account. The provider promises how acquiring and releasing move the counts;
  the lemmas say that the table counts exactly the holders of slots.
\<close>

locale slot_table =
  fixes count :: "'t \<Rightarrow> 'k \<Rightarrow> nat"
    and acquire :: "'k \<Rightarrow> 't \<Rightarrow> 't"
    and release :: "'k \<Rightarrow> 't \<Rightarrow> 't"
  assumes count_acquire: "count (acquire k t) x = (if x = k then Suc (count t k) else count t x)"
    and count_release: "0 < count t k \<Longrightarrow>
      count (release k t) x = (if x = k then count t k - 1 else count t x)"
begin

definition holds :: "'t \<Rightarrow> 'h list \<Rightarrow> ('h \<Rightarrow> 'k) \<Rightarrow> bool" where
  "holds t hs key \<longleftrightarrow> (\<forall>x. count t x = length (filter (\<lambda>h. key h = x) hs))"

lemma holds_acquire: "holds t hs key \<Longrightarrow> holds (acquire (key h) t) (h # hs) key"
  by (auto simp: holds_def count_acquire)

lemma filter_remove1_length:
  "h \<in> set hs \<Longrightarrow> length (filter P (remove1 h hs)) =
     (if P h then length (filter P hs) - 1 else length (filter P hs))"
proof (induction hs)
  case (Cons a hs)
  show ?case
  proof (cases "a = h")
    case False
    with Cons.prems have "h \<in> set hs" by simp
    then have "P h \<Longrightarrow> 0 < length (filter P hs)"
      by (auto simp: filter_empty_conv)
    with Cons.IH [OF \<open>h \<in> set hs\<close>] False show ?thesis by auto
  qed simp
qed simp

lemma holds_pos: "holds t hs key \<Longrightarrow> h \<in> set hs \<Longrightarrow> 0 < count t (key h)"
  by (auto simp: holds_def filter_empty_conv intro!: Nat.gr0I)

lemma holds_release:
  assumes "holds t hs key" and "h \<in> set hs"
  shows "holds (release (key h) t) (remove1 h hs) key"
  unfolding holds_def
  using assms holds_pos [OF assms]
  by (auto simp: holds_def count_release filter_remove1_length)

lemma acquire_release: "count (release k (acquire k t)) x = count t x"
  by (simp add: count_release count_acquire)

end

text \<open>
  \<^verbatim>\<open>counts[k] = counts.get(k, 0) + 1\<close> and the matching \<^verbatim>\<open>-= 1\<close> that drops the key at zero, as the
  upload handler writes them.
\<close>

definition dict_count :: "nat dict \<Rightarrow> string \<Rightarrow> nat" where
  "dict_count d k = (case map_of d k of None \<Rightarrow> 0 | Some n \<Rightarrow> n)"

definition dict_incr :: "string \<Rightarrow> nat dict \<Rightarrow> nat dict" where
  "dict_incr k d = AList.update k (dict_count d k + 1) d"

definition dict_decr :: "string \<Rightarrow> nat dict \<Rightarrow> nat dict" where
  "dict_decr k d = AList.update k (dict_count d k - 1) d"

definition dict_decr_pop :: "string \<Rightarrow> nat dict \<Rightarrow> nat dict" where
  "dict_decr_pop k d =
     (let n = dict_count d k - 1 in if n = 0 then AList.delete k d else AList.update k n d)"

lemma dict_count_incr: "dict_count (dict_incr k d) x = (if x = k then Suc (dict_count d k) else dict_count d x)"
  by (simp add: dict_count_def dict_incr_def update_conv')

lemma dict_count_decr: "dict_count (dict_decr k d) x = (if x = k then dict_count d k - 1 else dict_count d x)"
  by (simp add: dict_count_def dict_decr_def update_conv')

lemma dict_count_decr_pop:
  "dict_count (dict_decr_pop k d) x = (if x = k then dict_count d k - 1 else dict_count d x)"
  by (simp add: dict_count_def dict_decr_pop_def update_conv' delete_conv' Let_def)

interpretation counters: slot_table dict_count dict_incr dict_decr
  by unfold_locales (auto simp: dict_count_incr dict_count_decr)

interpretation popping: slot_table dict_count dict_incr dict_decr_pop
  by unfold_locales (auto simp: dict_count_incr dict_count_decr_pop)

section \<open>Facts about lists\<close>

lemma find_map_same_key:
  "(\<And>x. key (f x) = key x) \<Longrightarrow>
   find (\<lambda>x. key x = k) (map f xs) = map_option f (find (\<lambda>x. key x = k) xs)"
  by (induction xs) auto

lemma length_filter_le_1:
  "distinct (map key xs) \<Longrightarrow> length (filter (\<lambda>x. key x = k \<and> P x) xs) \<le> 1"
proof (induction xs)
  case (Cons a xs)
  show ?case
  proof (cases "key a = k \<and> P a")
    case True
    with Cons.prems have "\<forall>x \<in> set xs. key x \<noteq> k"
      by (metis distinct.simps(2) imageI list.map(2) set_map)
    then have "filter (\<lambda>x. key x = k \<and> P x) xs = []"
      by (simp add: filter_empty_conv)
    with True show ?thesis by simp
  next
    case False
    with Cons show ?thesis by auto
  qed
qed simp

lemma find_key_filter:
  "distinct (map key xs) \<Longrightarrow>
   filter (\<lambda>x. key x = k \<and> P x) xs =
     (case find (\<lambda>x. key x = k) xs of Some x \<Rightarrow> if P x then [x] else [] | None \<Rightarrow> [])"
proof (induction xs)
  case (Cons a xs)
  show ?case
  proof (cases "key a = k")
    case True
    with Cons.prems have "\<forall>x \<in> set xs. key x \<noteq> k"
      by (metis distinct.simps(2) imageI list.map(2) set_map)
    then have "filter (\<lambda>x. key x = k \<and> P x) xs = []"
      by (simp add: filter_empty_conv)
    with True show ?thesis by simp
  next
    case False
    with Cons show ?thesis by auto
  qed
qed simp

lemma find_SomeD: "find P xs = Some x \<Longrightarrow> x \<in> set xs \<and> P x"
  by (auto simp: find_Some_iff)

lemma map_of_update_ne [simp]: "x \<noteq> k \<Longrightarrow> map_of (AList.update k v d) x = map_of d x"
  by (simp add: update_conv')

lemma map_of_update_eq [simp]: "map_of (AList.update k v d) k = Some v"
  by (simp add: update_conv')

end
