(* ===== verification/Submission_Lock.thy ===== *)
theory Submission_Lock
  imports Relay_Prelude
begin

text \<open>
  The locks that keep two workers from submitting the same dataset at a time (\<^verbatim>\<open>dataset_submission_lock\<close> of
  \<^verbatim>\<open>app/worker.py\<close>). An entry of the shared dictionary is a lock and the number of threads that use it; it
  is made on first use and dropped by its last user. Each access to the dictionary runs under a guard and
  so is one step; waiting for the lock, holding it and leaving are separate steps of \<open>lock_step\<close>, so any
  interleaving of threads is a sequence of its steps. An entry is identified by the order of its making.
\<close>

section \<open>State and steps\<close>

datatype phase = Waiting | Inside | Leaving

record visit =
  thread :: nat
  at_key :: string
  at_entry :: nat
  phase :: phase

record lock_table =
  entries :: "nat dict"
  users :: "nat \<Rightarrow> nat"
  taken :: "nat \<Rightarrow> bool"
  made :: nat
  visits :: "visit list"

definition no_locks :: lock_table where
  "no_locks = \<lparr>entries = [], users = (\<lambda>_. 0), taken = (\<lambda>_. False), made = 0, visits = []\<rparr>"

definition add_user :: "nat \<Rightarrow> (nat \<Rightarrow> nat) \<Rightarrow> nat \<Rightarrow> nat" where
  "add_user e u = u(e := u e + 1)"

definition drop_user :: "nat \<Rightarrow> (nat \<Rightarrow> nat) \<Rightarrow> nat \<Rightarrow> nat" where
  "drop_user e u = u(e := u e - 1)"

definition lock_key :: "string \<Rightarrow> string" where
  "lock_key dataset_ref = lower (strip dataset_ref)"

definition entry_for :: "string \<Rightarrow> lock_table \<Rightarrow> nat \<times> lock_table" where
  "entry_for key s =
     (case map_of (entries s) key of
        Some e \<Rightarrow> (e, s)
      | None \<Rightarrow> (made s, s\<lparr>entries := AList.update key (made s) (entries s), made := made s + 1\<rparr>))"

definition enter_lock :: "nat \<Rightarrow> string \<Rightarrow> lock_table \<Rightarrow> lock_table" where
  "enter_lock t dataset_ref s =
     (let key = lock_key dataset_ref; (e, s') = entry_for key s
      in s'\<lparr>users := add_user e (users s'),
            visits := \<lparr>thread = t, at_key = key, at_entry = e, phase = Waiting\<rparr> # visits s'\<rparr>)"

definition move_to :: "phase \<Rightarrow> visit \<Rightarrow> visit list \<Rightarrow> visit list" where
  "move_to p v vs = map (\<lambda>w. if thread w = thread v then w\<lparr>phase := p\<rparr> else w) vs"

text \<open>\<^verbatim>\<open>lock.acquire\<close>, once it answers true.\<close>

definition take_lock :: "visit \<Rightarrow> lock_table \<Rightarrow> lock_table" where
  "take_lock v s = s\<lparr>taken := (taken s)(at_entry v := True), visits := move_to Inside v (visits s)\<rparr>"

text \<open>The shutdown was seen before the lock was had: the exception passes through the \<^verbatim>\<open>finally\<close>.\<close>

definition give_up :: "visit \<Rightarrow> lock_table \<Rightarrow> lock_table" where
  "give_up v s = s\<lparr>visits := move_to Leaving v (visits s)\<rparr>"

definition release_lock :: "visit \<Rightarrow> lock_table \<Rightarrow> lock_table" where
  "release_lock v s = s\<lparr>taken := (taken s)(at_entry v := False), visits := move_to Leaving v (visits s)\<rparr>"

definition leave_lock :: "visit \<Rightarrow> lock_table \<Rightarrow> lock_table" where
  "leave_lock v s =
     (let u = drop_user (at_entry v) (users s)
      in s\<lparr>users := u,
           entries := (if u (at_entry v) = 0 \<and> map_of (entries s) (at_key v) = Some (at_entry v)
                       then AList.delete (at_key v) (entries s) else entries s),
           visits := remove1 v (visits s)\<rparr>)"

inductive lock_step :: "lock_table \<Rightarrow> lock_table \<Rightarrow> bool" where
  entering: "t \<notin> thread ` set (visits s) \<Longrightarrow> lock_step s (enter_lock t dataset_ref s)"
| taking: "v \<in> set (visits s) \<Longrightarrow> phase v = Waiting \<Longrightarrow> \<not> taken s (at_entry v) \<Longrightarrow> lock_step s (take_lock v s)"
| giving_up: "v \<in> set (visits s) \<Longrightarrow> phase v = Waiting \<Longrightarrow> lock_step s (give_up v s)"
| releasing: "v \<in> set (visits s) \<Longrightarrow> phase v = Inside \<Longrightarrow> lock_step s (release_lock v s)"
| leaving: "v \<in> set (visits s) \<Longrightarrow> phase v = Leaving \<Longrightarrow> lock_step s (leave_lock v s)"

section \<open>The invariant\<close>

interpretation lock_users: slot_table "\<lambda>u e. u e" add_user drop_user
  by unfold_locales (auto simp: add_user_def drop_user_def)

text \<open>The users of an entry are counted, an entry in use stays in the dictionary, and a lock has one owner.\<close>

definition lock_inv :: "lock_table \<Rightarrow> bool" where
  "lock_inv s \<longleftrightarrow>
     lock_users.holds (users s) (visits s) at_entry \<and> distinct (map thread (visits s))
     \<and> (\<forall>v \<in> set (visits s). map_of (entries s) (at_key v) = Some (at_entry v))
     \<and> (\<forall>k e. map_of (entries s) k = Some e \<longrightarrow> e < made s \<and> 0 < users s e)
     \<and> (\<forall>k k' e. map_of (entries s) k = Some e \<longrightarrow> map_of (entries s) k' = Some e \<longrightarrow> k = k')
     \<and> (\<forall>v \<in> set (visits s). phase v = Inside \<longrightarrow> taken s (at_entry v))
     \<and> (\<forall>v \<in> set (visits s). \<forall>w \<in> set (visits s).
          phase v = Inside \<longrightarrow> phase w = Inside \<longrightarrow> at_entry v = at_entry w \<longrightarrow> thread v = thread w)"

lemma lock_invD:
  assumes "lock_inv s"
  shows "lock_users.holds (users s) (visits s) at_entry" and "distinct (map thread (visits s))"
    and "v \<in> set (visits s) \<Longrightarrow> map_of (entries s) (at_key v) = Some (at_entry v)"
    and "map_of (entries s) k = Some e \<Longrightarrow> e < made s"
    and "map_of (entries s) k = Some e \<Longrightarrow> 0 < users s e"
    and "map_of (entries s) k = Some e \<Longrightarrow> map_of (entries s) k' = Some e \<Longrightarrow> k = k'"
    and "v \<in> set (visits s) \<Longrightarrow> phase v = Inside \<Longrightarrow> taken s (at_entry v)"
    and "v \<in> set (visits s) \<Longrightarrow> w \<in> set (visits s) \<Longrightarrow> phase v = Inside \<Longrightarrow> phase w = Inside
      \<Longrightarrow> at_entry v = at_entry w \<Longrightarrow> thread v = thread w"
  using assms unfolding lock_inv_def by blast+

lemma lock_invI:
  assumes "lock_users.holds (users s) (visits s) at_entry" and "distinct (map thread (visits s))"
    and "\<And>v. v \<in> set (visits s) \<Longrightarrow> map_of (entries s) (at_key v) = Some (at_entry v)"
    and "\<And>k e. map_of (entries s) k = Some e \<Longrightarrow> e < made s \<and> 0 < users s e"
    and "\<And>k k' e. map_of (entries s) k = Some e \<Longrightarrow> map_of (entries s) k' = Some e \<Longrightarrow> k = k'"
    and "\<And>v. v \<in> set (visits s) \<Longrightarrow> phase v = Inside \<Longrightarrow> taken s (at_entry v)"
    and "\<And>v w. v \<in> set (visits s) \<Longrightarrow> w \<in> set (visits s) \<Longrightarrow> phase v = Inside \<Longrightarrow> phase w = Inside
      \<Longrightarrow> at_entry v = at_entry w \<Longrightarrow> thread v = thread w"
  shows "lock_inv s"
  unfolding lock_inv_def by (intro conjI ballI allI impI) (use assms in blast)+

lemma holds_map:
  assumes "lock_users.holds u vs at_entry" and "\<And>v. at_entry (f v) = at_entry v"
  shows "lock_users.holds u (map f vs) at_entry"
  using assms by (simp add: lock_users.holds_def filter_map comp_def)

lemma move_to_simps [simp]:
  "map thread (move_to p v vs) = map thread vs"
  "lock_users.holds u vs at_entry \<Longrightarrow> lock_users.holds u (move_to p v vs) at_entry"
  by (auto simp: move_to_def intro: holds_map)

lemma move_to_set:
  "w \<in> set (move_to p v vs) \<longleftrightarrow> (\<exists>x \<in> set vs. w = (if thread x = thread v then x\<lparr>phase := p\<rparr> else x))"
  by (auto simp: move_to_def)

lemma same_thread:
  "lock_inv s \<Longrightarrow> v \<in> set (visits s) \<Longrightarrow> w \<in> set (visits s) \<Longrightarrow> thread v = thread w \<Longrightarrow> v = w"
  using lock_invD(2) [of s] by (auto simp: distinct_map dest: inj_onD)

lemma user_visits:
  assumes "lock_inv s" and "map_of (entries s) k = Some e"
  shows "\<exists>v \<in> set (visits s). at_entry v = e \<and> at_key v = k"
proof -
  have "0 < length (filter (\<lambda>h. at_entry h = e) (visits s))"
    using lock_invD(1,5) [OF assms(1)] assms(2) by (auto simp: lock_users.holds_def)
  then obtain v where "v \<in> set (visits s)" "at_entry v = e" by (auto simp: filter_empty_conv)
  with lock_invD(3,6) [OF assms(1)] assms(2) show ?thesis by blast
qed

section \<open>Every step keeps it\<close>

lemma enter_inv:
  assumes "lock_inv s" and "t \<notin> thread ` set (visits s)"
  shows "lock_inv (enter_lock t dataset_ref s)"
proof (cases "map_of (entries s) (lock_key dataset_ref)")
  case None
  note I = lock_invD [OF assms(1)]
  define new where "new = \<lparr>thread = t, at_key = lock_key dataset_ref, at_entry = made s, phase = Waiting\<rparr>"
  have e: "enter_lock t dataset_ref s = s\<lparr>entries := AList.update (lock_key dataset_ref) (made s) (entries s), made := made s + 1,
      users := add_user (made s) (users s), visits := new # visits s\<rparr>"
    using None by (simp add: enter_lock_def entry_for_def new_def Let_def)
  have h: "lock_users.holds (add_user (made s) (users s)) (new # visits s) at_entry"
    using lock_users.holds_acquire [OF I(1), of new] by (simp add: new_def)
  have old: "e \<noteq> made s" if "map_of (entries s) k = Some e" for k e using I(4) [OF that] by simp
  show ?thesis
  proof (rule lock_invI; unfold e; simp)
    show "lock_users.holds (add_user (made s) (users s)) (new # visits s) at_entry" by (rule h)
    show "thread new \<notin> thread ` set (visits s) \<and> distinct (map thread (visits s))" using I(2) assms(2) by (simp add: new_def)
    show "map_of (AList.update (lock_key dataset_ref) (made s) (entries s)) (at_key v) = Some (at_entry v)"
      if "v = new \<or> v \<in> set (visits s)" for v
      using that None I(3) [of v] by (cases "v = new") (auto simp: update_conv' new_def)
    show "e < Suc (made s) \<and> 0 < add_user (made s) (users s) e"
      if "map_of (AList.update (lock_key dataset_ref) (made s) (entries s)) k = Some e" for k e
      using that I(4,5) [of k e] by (auto simp: update_conv' add_user_def split: if_splits)
    show "k = k'" if "map_of (AList.update (lock_key dataset_ref) (made s) (entries s)) k = Some e"
      "map_of (AList.update (lock_key dataset_ref) (made s) (entries s)) k' = Some e" for k k' e
      using that I(6) [of k e k'] old [of k "made s"] old [of k' "made s"] by (auto simp: update_conv' split: if_splits)
    show "taken s (at_entry v)" if "v = new \<or> v \<in> set (visits s)" "phase v = Inside" for v
    proof -
      from that have "v \<in> set (visits s)" by (auto simp: new_def)
      then show ?thesis using that(2) by (rule I(7))
    qed
    show "thread v = thread w" if "v = new \<or> v \<in> set (visits s)" "w = new \<or> w \<in> set (visits s)"
      "phase v = Inside" "phase w = Inside" "at_entry v = at_entry w" for v w
    proof -
      from that have "v \<in> set (visits s)" "w \<in> set (visits s)" by (auto simp: new_def)
      then show ?thesis using that(3-5) by (rule I(8))
    qed
  qed
next
  case (Some e)
  note I = lock_invD [OF assms(1)]
  define new where "new = \<lparr>thread = t, at_key = lock_key dataset_ref, at_entry = e, phase = Waiting\<rparr>"
  have e: "enter_lock t dataset_ref s = s\<lparr>users := add_user e (users s), visits := new # visits s\<rparr>"
    using Some by (simp add: enter_lock_def entry_for_def new_def Let_def)
  have h: "lock_users.holds (add_user e (users s)) (new # visits s) at_entry"
    using lock_users.holds_acquire [OF I(1), of new] by (simp add: new_def)
  show ?thesis
  proof (rule lock_invI; unfold e; simp)
    show "lock_users.holds (add_user e (users s)) (new # visits s) at_entry" by (rule h)
    show "thread new \<notin> thread ` set (visits s) \<and> distinct (map thread (visits s))" using I(2) assms(2) by (simp add: new_def)
    show "map_of (entries s) (at_key v) = Some (at_entry v)" if "v = new \<or> v \<in> set (visits s)" for v
      using that Some I(3) by (auto simp: new_def)
    show "e' < made s \<and> 0 < add_user e (users s) e'" if "map_of (entries s) k = Some e'" for k e'
      using I(4,5) [OF that] by (simp add: add_user_def)
    show "k = k'" if "map_of (entries s) k = Some e'" "map_of (entries s) k' = Some e'" for k k' e' using I(6) that .
    show "taken s (at_entry v)" if "v = new \<or> v \<in> set (visits s)" "phase v = Inside" for v
    proof -
      from that have "v \<in> set (visits s)" by (auto simp: new_def)
      then show ?thesis using that(2) by (rule I(7))
    qed
    show "thread v = thread w" if "v = new \<or> v \<in> set (visits s)" "w = new \<or> w \<in> set (visits s)"
      "phase v = Inside" "phase w = Inside" "at_entry v = at_entry w" for v w
    proof -
      from that have "v \<in> set (visits s)" "w \<in> set (visits s)" by (auto simp: new_def)
      then show ?thesis using that(3-5) by (rule I(8))
    qed
  qed
qed

lemma move_inv:
  assumes "lock_inv s" and "v \<in> set (visits s)" and "p = Inside \<Longrightarrow> \<not> taken s (at_entry v)"
    and "\<And>w. w \<in> set (visits s) \<Longrightarrow> thread w \<noteq> thread v \<Longrightarrow> phase w = Inside \<Longrightarrow> b (at_entry w)"
    and "p = Inside \<Longrightarrow> b (at_entry v)"
  shows "lock_inv (s\<lparr>taken := b, visits := move_to p v (visits s)\<rparr>)"
proof -
  note I = lock_invD [OF assms(1)]
  have alone: "at_entry w \<noteq> at_entry v" if "p = Inside" "w \<in> set (visits s)" "phase w = Inside" for w
    using assms(3) I(7) that by metis
  have owner: "w = v" if "w \<in> set (visits s)" "thread w = thread v" for w
    using same_thread [OF assms(1)] assms(2) that by blast
  let ?f = "\<lambda>w. if thread w = thread v then w\<lparr>phase := p\<rparr> else w"
  have f: "at_entry (?f w) = at_entry w" "at_key (?f w) = at_key w" "thread (?f w) = thread w" for w by simp_all
  have inside: "p = Inside \<and> w = v \<or> thread w \<noteq> thread v \<and> phase w = Inside" if "w \<in> set (visits s)" "phase (?f w) = Inside" for w
    using that owner by (auto split: if_splits)
  show ?thesis
  proof (rule lock_invI; simp add: I(1,2))
    show "map_of (entries s) (at_key w) = Some (at_entry w)" if w: "w \<in> set (move_to p v (visits s))" for w
    proof -
      obtain x where x: "x \<in> set (visits s)" "w = ?f x" using w by (auto simp only: move_to_set)
      show ?thesis unfolding x(2) f by (rule I(3) [OF x(1)])
    qed
    show "e < made s \<and> 0 < users s e" if "map_of (entries s) k = Some e" for k e using I(4,5) [OF that] by simp
    show "k = k'" if "map_of (entries s) k = Some e'" "map_of (entries s) k' = Some e'" for k k' e' using I(6) that .
    show "b (at_entry w)" if w: "w \<in> set (move_to p v (visits s))" "phase w = Inside" for w
    proof -
      obtain x where x: "x \<in> set (visits s)" "w = ?f x" using w(1) by (auto simp only: move_to_set)
      have "p = Inside \<and> x = v \<or> thread x \<noteq> thread v \<and> phase x = Inside" using inside [OF x(1)] w(2) x(2) by blast
      then have "b (at_entry x)" using assms(4) [OF x(1)] assms(5) by blast
      then show ?thesis by (simp only: x(2) f)
    qed
    show "thread w = thread w'" if w: "w \<in> set (move_to p v (visits s))" "w' \<in> set (move_to p v (visits s))"
      "phase w = Inside" "phase w' = Inside" "at_entry w = at_entry w'" for w w'
    proof -
      obtain x where x: "x \<in> set (visits s)" "w = ?f x" using w(1) by (auto simp only: move_to_set)
      obtain y where y: "y \<in> set (visits s)" "w' = ?f y" using w(2) by (auto simp only: move_to_set)
      have e: "at_entry x = at_entry y" using w(5) x(2) y(2) by (simp only: f)
      have ix: "p = Inside \<and> x = v \<or> thread x \<noteq> thread v \<and> phase x = Inside" using inside [OF x(1)] w(3) x(2) by blast
      have iy: "p = Inside \<and> y = v \<or> thread y \<noteq> thread v \<and> phase y = Inside" using inside [OF y(1)] w(4) y(2) by blast
      have "x = y \<or> phase x = Inside \<and> phase y = Inside"
        using ix iy alone [OF _ x(1)] alone [OF _ y(1)] e by auto
      then have "thread x = thread y" using I(8) [OF x(1) y(1)] e by blast
      then show ?thesis unfolding x(2) y(2) f .
    qed
  qed
qed

lemma leave_inv:
  assumes "lock_inv s" and "v \<in> set (visits s)"
  shows "lock_inv (leave_lock v s)"
proof -
  note I = lock_invD [OF assms(1)]
  let ?u = "drop_user (at_entry v) (users s)"
  have h: "lock_users.holds ?u (remove1 v (visits s)) at_entry"
    by (rule lock_users.holds_release [OF I(1) assms(2)])
  have d: "distinct (visits s)" using I(2) by (simp add: distinct_map)
  have rest: "set (remove1 v (visits s)) = set (visits s) - {v}" using d by (rule set_remove1_eq)
  have last_user: "at_entry w \<noteq> at_entry v" if "?u (at_entry v) = 0" "w \<in> set (visits s)" "w \<noteq> v" for w
  proof
    assume "at_entry w = at_entry v"
    moreover have "w \<in> set (remove1 v (visits s))" using that rest by simp
    ultimately show False using h that(1) lock_users.holds_pos [OF h] by fastforce
  qed
  have keys: "at_key w \<noteq> at_key v" if "?u (at_entry v) = 0" "w \<in> set (visits s)" "w \<noteq> v" for w
    using last_user [OF that] I(3) [OF that(2)] I(3) [OF assms(2)] by auto
  have kept: "0 < ?u e" if "map_of (entries s) k = Some e" "?u (at_entry v) \<noteq> 0 \<or> k \<noteq> at_key v" for k e
    using that I(3) [OF assms(2)] I(5) [OF that(1)] I(6) [of k e "at_key v"] by (auto simp: drop_user_def)
  have dist: "distinct (map thread (remove1 v (visits s)))"
    using I(2) d rest by (simp add: distinct_map distinct_remove1 inj_on_diff)
  define u where "u = ?u"
  define es where "es = (if u (at_entry v) = 0 \<and> map_of (entries s) (at_key v) = Some (at_entry v)
    then AList.delete (at_key v) (entries s) else entries s)"
  have old: "map_of (entries s) k = Some e \<and> (u (at_entry v) \<noteq> 0 \<or> k \<noteq> at_key v)" if "map_of es k = Some e" for k e
    using that I(3) [OF assms(2)] by (auto simp: es_def delete_conv' split: if_splits)
  have stays: "map_of es (at_key w) = map_of (entries s) (at_key w)" if "w \<in> set (visits s)" "w \<noteq> v" for w
    using keys [OF _ that] by (auto simp: es_def u_def delete_conv')
  have l: "leave_lock v s = s\<lparr>users := u, entries := es, visits := remove1 v (visits s)\<rparr>"
    by (simp add: leave_lock_def Let_def u_def es_def)
  show ?thesis unfolding l
  proof (rule lock_invI; simp add: rest)
    show "lock_users.holds u (remove1 v (visits s)) at_entry" unfolding u_def by (rule h)
    show "distinct (map thread (remove1 v (visits s)))" by (rule dist)
    show "map_of es (at_key w) = Some (at_entry w)" if "w \<in> set (visits s) \<and> w \<noteq> v" for w
      using that stays I(3) by auto
    show "e < made s \<and> 0 < u e" if "map_of es k = Some e" for k e
      using old [OF that] I(4) kept unfolding u_def by blast
    show "k = k'" if "map_of es k = Some e" "map_of es k' = Some e" for k k' e
      using old [OF that(1)] old [OF that(2)] I(6) by blast
    show "taken s (at_entry w)" if "w \<in> set (visits s) \<and> w \<noteq> v" "phase w = Inside" for w using that I(7) by blast
    show "thread w = thread w'" if "w \<in> set (visits s) \<and> w \<noteq> v" "w' \<in> set (visits s) \<and> w' \<noteq> v"
      "phase w = Inside" "phase w' = Inside" "at_entry w = at_entry w'" for w w'
      using that I(8) [of w w'] by blast
  qed
qed

lemma lock_step_inv: "lock_step s s' \<Longrightarrow> lock_inv s \<Longrightarrow> lock_inv s'"
proof (induction rule: lock_step.induct)
  case (taking v s)
  show ?case unfolding take_lock_def
    by (rule move_inv [OF taking(4,1)]) (use taking(3) lock_invD(7) [OF taking(4)] in auto)
next
  case (giving_up v s)
  have "lock_inv (s\<lparr>taken := taken s, visits := move_to Leaving v (visits s)\<rparr>)"
    by (rule move_inv [OF giving_up(3,1)]) (use lock_invD(7) [OF giving_up(3)] in auto)
  then show ?case by (simp add: give_up_def)
next
  case (releasing v s)
  have other: "at_entry w \<noteq> at_entry v" if "w \<in> set (visits s)" "thread w \<noteq> thread v" "phase w = Inside" for w
    using lock_invD(8) [OF releasing(3,1) that(1) releasing(2) that(3)] that(2) by metis
  show ?case unfolding release_lock_def
    by (rule move_inv [OF releasing(3,1)]) (use other lock_invD(7) [OF releasing(3)] in auto)
qed (auto intro: enter_inv leave_inv)

lemma no_locks_inv: "lock_inv no_locks"
  by (simp add: lock_inv_def no_locks_def lock_users.holds_def)

interpretation submission_locks: transition_system "\<lambda>s. s = no_locks" lock_step lock_inv
  by unfold_locales (auto intro: no_locks_inv lock_step_inv)

section \<open>What the locks promise\<close>

definition submitting :: "lock_table \<Rightarrow> nat \<Rightarrow> string \<Rightarrow> bool" where
  "submitting s t key \<longleftrightarrow> (\<exists>v \<in> set (visits s). thread v = t \<and> at_key v = key \<and> phase v = Inside)"

lemma inside_alone:
  assumes "lock_inv s" and "submitting s t k" and "submitting s t' k"
  shows "t = t'"
  using assms lock_invD(3,8) [OF assms(1)] unfolding submitting_def by (metis option.inject)

text \<open>
  C29: Whatever threads come, wait, are interrupted and leave, at most one at a time is inside the
  submission of a dataset, refs that differ in case or surrounding space being the same dataset.
\<close>

theorem one_submission_per_dataset:
  assumes "lock_step\<^sup>*\<^sup>* no_locks s" and "submitting s t (lock_key r)" and "submitting s t' (lock_key r')"
    and "lower (strip r) = lower (strip r')"
  shows "t = t'"
  using submission_locks.run_inv [OF refl assms(1)] assms(2-4) by (auto simp: lock_key_def intro: inside_alone)

text \<open>
  The dictionary of locks holds exactly the datasets that some thread submits, waits for or is
  leaving: no entry is dropped under a waiting thread and none is left behind.
\<close>

theorem locks_match_users:
  assumes "lock_step\<^sup>*\<^sup>* no_locks s"
  shows "dom (map_of (entries s)) = at_key ` set (visits s)"
proof -
  have I: "lock_inv s" by (rule submission_locks.run_inv [OF refl assms])
  show ?thesis using user_visits [OF I] lock_invD(3) [OF I] by (fastforce simp: dom_def)
qed

definition two_waiting :: lock_table where
  "two_waiting = enter_lock 2 '' Ann/Cats'' (enter_lock 1 ''ann/cats'' no_locks)"

definition first_visit :: visit where
  "first_visit = \<lparr>thread = 1, at_key = ''ann/cats'', at_entry = 0, phase = Waiting\<rparr>"

lemma two_waiting_simps:
  "visits two_waiting = [first_visit\<lparr>thread := 2\<rparr>, first_visit]" "taken two_waiting 0 = False"
  "entries two_waiting = [(''ann/cats'', 0)]"
  by code_simp+

lemma two_waiting_steps: "lock_step\<^sup>*\<^sup>* no_locks two_waiting"
proof -
  have "lock_step no_locks (enter_lock 1 ''ann/cats'' no_locks)" by (rule entering) (simp add: no_locks_def)
  moreover have "lock_step (enter_lock 1 ''ann/cats'' no_locks) two_waiting"
    unfolding two_waiting_def by (rule entering) (simp add: enter_lock_def entry_for_def no_locks_def Let_def)
  ultimately show ?thesis by (meson converse_rtranclp_into_rtranclp r_into_rtranclp)
qed

lemma one_inside_steps: "lock_step\<^sup>*\<^sup>* no_locks (take_lock first_visit two_waiting)"
proof -
  have "lock_step two_waiting (take_lock first_visit two_waiting)"
    by (rule taking) (simp_all add: two_waiting_simps, simp_all add: first_visit_def two_waiting_simps)
  with two_waiting_steps show ?thesis by (rule rtranclp.rtrancl_into_rtrancl)
qed

lemma inside_example: "submitting (take_lock first_visit two_waiting) 1 (lock_key ''Ann/Cats'')"
  unfolding submitting_def by code_simp

lemma one_submission_per_dataset_witness:
  "submitting (take_lock first_visit two_waiting) 1 (lock_key ''Ann/Cats'')
   \<and> \<not> submitting (take_lock first_visit two_waiting) 2 (lock_key ''Ann/Cats'')"
  using one_submission_per_dataset [OF one_inside_steps inside_example _ refl, of 2] inside_example by auto

lemma locks_match_users_witness:
  "dom (map_of (entries two_waiting)) = {''ann/cats''}"
  using locks_match_users [OF two_waiting_steps] by (auto simp: two_waiting_simps first_visit_def)

end
