(* ===== verification/Security.thy ===== *)
theory Security
  imports Relay_Prelude
begin

text \<open>
  \<^verbatim>\<open>app/security.py\<close>: redaction of secrets in everything the relay logs or stores, the limiter of
  failed authentications, the source a request is counted under, and the same-origin check. The
  registered secrets are a list, every regular expression is a scanner that says how long a match
  at the head of a text is and how much of it is kept, and \<^verbatim>\<open>urlsplit\<close> and \<^verbatim>\<open>ip_address\<close> of the
  standard library are parameters: a split URL is a record, a normalised address an option.
\<close>

section \<open>Substitution of matches\<close>

text \<open>
  A matcher answers, for a text that may start with a match, how many characters the substitution
  keeps and how long the whole match is.
\<close>

type_synonym matcher = "string \<Rightarrow> (nat \<times> nat) option"

fun sub_matches :: "matcher \<Rightarrow> string \<Rightarrow> string" where
  "sub_matches m [] = []"
| "sub_matches m (c # cs) =
     (case m (c # cs) of
        None \<Rightarrow> c # sub_matches m cs
      | Some (g, n) \<Rightarrow> take g (c # cs) @ ''***'' @ sub_matches m (drop (n - 1) cs))"

definition match_literal :: "string \<Rightarrow> matcher" where
  "match_literal secret s = (if prefix secret s then Some (0, length secret) else None)"

text \<open>\<^verbatim>\<open>value.replace(secret, "***")\<close> for a secret that is not empty.\<close>

definition replace_all :: "string \<Rightarrow> string \<Rightarrow> string" where
  "replace_all secret s = sub_matches (match_literal secret) s"

definition eat :: "string \<Rightarrow> string \<Rightarrow> string option" where
  "eat lit s = (if prefix lit s then Some (drop (length lit) s) else None)"

definition eat_ci :: "string \<Rightarrow> string \<Rightarrow> string option" where
  "eat_ci lit s = (if prefix (lower lit) (lower s) then Some (drop (length lit) s) else None)"

definition eat_spaces :: "bool \<Rightarrow> string \<Rightarrow> string option" where
  "eat_spaces required s =
     (if required \<and> takeWhile is_space s = [] then None else Some (dropWhile is_space s))"

definition head_then :: "(string \<Rightarrow> string option) \<Rightarrow> (char \<Rightarrow> bool) \<Rightarrow> bool \<Rightarrow> matcher" where
  "head_then head cls keep s =
     (case head s of
        None \<Rightarrow> None
      | Some rest \<Rightarrow>
          if takeWhile cls rest = [] then None
          else Some (if keep then length s - length rest else 0,
                     length s - length rest + length (takeWhile cls rest)))"

definition is_alnum :: "char \<Rightarrow> bool" where
  "is_alnum c \<longleftrightarrow> (let n = of_char c :: nat in
     (48 \<le> n \<and> n \<le> 57) \<or> (65 \<le> n \<and> n \<le> 90) \<or> (97 \<le> n \<and> n \<le> 122))"

definition authorization_head :: "string \<Rightarrow> string option" where
  "authorization_head s =
     Option.bind (eat_ci ''Authorization:'' s) (\<lambda>r.
     Option.bind (eat_spaces False r) (\<lambda>r.
     Option.bind (eat_ci ''Bearer'' r) (eat_spaces True)))"

definition bearer_head :: "string \<Rightarrow> string option" where
  "bearer_head s = Option.bind (eat_ci ''Bearer'' s) (eat_spaces True)"

definition kaggle_head :: "string \<Rightarrow> string option" where
  "kaggle_head s =
     Option.bind (eat_ci ''KAGGLE_'' s) (\<lambda>r.
       Option.bind
         (case eat_ci ''API_TOKEN'' r of
            Some r \<Rightarrow> Some r
          | None \<Rightarrow> (case eat_ci ''KEY'' r of Some r \<Rightarrow> Some r | None \<Rightarrow> eat_ci ''USERNAME'' r))
         (eat ''=''))"

definition kgat_class :: "char \<Rightarrow> bool" where
  "kgat_class c \<longleftrightarrow> is_alnum c \<or> c = CHR ''_'' \<or> c = CHR ''-''"

definition token_patterns :: "matcher list" where
  "token_patterns =
     [head_then authorization_head (\<lambda>c. \<not> is_space c) True,
      head_then bearer_head (\<lambda>c. is_alnum c \<or> c \<in> set ''._-'') True,
      head_then (eat ''KGAT_'') kgat_class False,
      head_then kaggle_head (\<lambda>c. \<not> is_space c) True]"

definition register_secret :: "string \<Rightarrow> string list \<Rightarrow> string list" where
  "register_secret v secrets =
     (let secret = strip v in if secret = [] then secrets else List.insert secret secrets)"

definition redact_secrets :: "string list \<Rightarrow> string \<Rightarrow> string" where
  "redact_secrets secrets text =
     fold sub_matches token_patterns
       (fold replace_all (sort_key (\<lambda>s. - int (length s)) secrets) text)"

section \<open>What redaction removes\<close>

lemma prefix_starfree_append:
  "CHR ''*'' \<notin> set s \<Longrightarrow> prefix s (a @ CHR ''*'' # b) \<Longrightarrow> prefix s a"
proof (induction a arbitrary: s)
  case Nil
  then show ?case by (cases s) auto
next
  case (Cons x a)
  then show ?case by (cases s) auto
qed

lemma contains_starfree_append:
  "CHR ''*'' \<notin> set s \<Longrightarrow> s \<noteq> [] \<Longrightarrow> contains s (a @ CHR ''*'' # b) \<Longrightarrow> contains s a \<or> contains s b"
proof (induction a)
  case Nil
  then show ?case by (cases s) auto
next
  case (Cons x a)
  then show ?case
    using prefix_starfree_append [of s "x # a" b] by auto
qed

lemma contains_appendI: "contains s a \<Longrightarrow> contains s (a @ b)" "contains s b \<Longrightarrow> contains s (a @ b)"
  unfolding contains_iff by (metis append.assoc)+

lemma contains_drop: "contains s (drop n a) \<Longrightarrow> contains s a"
  by (metis append_take_drop_id contains_appendI(2))

lemma contains_take: "contains s (take n a) \<Longrightarrow> contains s a"
  by (metis append_take_drop_id contains_appendI(1))

lemma prefix_take: "prefix s (take n a) \<Longrightarrow> prefix s a"
  by (meson prefix_order.trans take_is_prefix)

lemma prefix_contains: "prefix s a \<Longrightarrow> contains s a"
  by (cases a) auto

lemma prefix_sub_matches:
  "CHR ''*'' \<notin> set s \<Longrightarrow> prefix s (sub_matches m t) \<Longrightarrow> prefix s t"
proof (induction m t arbitrary: s rule: sub_matches.induct)
  case (2 m c cs)
  show ?case
  proof (cases "m (c # cs)")
    case None
    with 2 show ?thesis by (cases s) auto
  next
    case (Some gn)
    then obtain g n where gn: "m (c # cs) = Some (g, n)" by (cases gn) auto
    with 2(4) have "prefix s (take g (c # cs) @ CHR ''*'' # ''**'' @ sub_matches m (drop (n - 1) cs))"
      by simp
    from prefix_starfree_append [OF 2(3) this] show ?thesis by (rule prefix_take)
  qed
qed simp

text \<open>No text without a star appears that was not there before.\<close>

lemma contains_sub_matches:
  "CHR ''*'' \<notin> set s \<Longrightarrow> s \<noteq> [] \<Longrightarrow> contains s (sub_matches m t) \<Longrightarrow> contains s t"
proof (induction m t rule: sub_matches.induct)
  case (2 m c cs)
  show ?case
  proof (cases "m (c # cs)")
    case None
    with 2 prefix_sub_matches [of s m "c # cs"] show ?thesis by auto
  next
    case (Some gn)
    then obtain g n where gn: "m (c # cs) = Some (g, n)" by (cases gn) auto
    let ?r = "sub_matches m (drop (n - 1) cs)"
    from gn 2(5) have "contains s (take g (c # cs) @ CHR ''*'' # ''**'' @ ?r)"
      by simp
    then have "contains s (take g (c # cs)) \<or> contains s (''**'' @ ?r)"
      using contains_starfree_append 2(3,4) by blast
    moreover have "contains s (''**'' @ ?r) \<Longrightarrow> contains s ?r"
      using 2(3,4) by (cases s) auto
    ultimately have "contains s (take g (c # cs)) \<or> contains s (drop (n - 1) cs)"
      using 2(2) [OF gn refl 2(3,4)] by blast
    then show ?thesis
      using contains_take [of s g "c # cs"] contains_drop [of s "n - 1" cs] by auto
  qed
qed simp

lemma replace_all_gone:
  "CHR ''*'' \<notin> set s \<Longrightarrow> s \<noteq> [] \<Longrightarrow> \<not> contains s (replace_all s t)"
  unfolding replace_all_def
proof (induction "match_literal s" t rule: sub_matches.induct)
  case (2 c cs)
  show ?case
  proof (cases "prefix s (c # cs)")
    case False
    then have "match_literal s (c # cs) = None" by (simp add: match_literal_def)
    then show ?thesis
      using 2 False prefix_sub_matches [of s "match_literal s" "c # cs"] by auto
  next
    case True
    then have "match_literal s (c # cs) = Some (0, length s)" by (simp add: match_literal_def)
    then show ?thesis
      using 2(2) [OF _ refl 2(3,4)] 2(3,4) by (cases s) auto
  qed
qed simp

lemma contains_fold_sub:
  "CHR ''*'' \<notin> set s \<Longrightarrow> s \<noteq> [] \<Longrightarrow> contains s (fold sub_matches ms t) \<Longrightarrow> contains s t"
  by (induction ms arbitrary: t) (auto dest: contains_sub_matches)

lemma contains_fold_replace:
  "CHR ''*'' \<notin> set s \<Longrightarrow> s \<noteq> [] \<Longrightarrow> contains s (fold replace_all ss t) \<Longrightarrow> contains s t"
  by (induction ss arbitrary: t) (auto simp: replace_all_def dest: contains_sub_matches)

lemma fold_replace_gone:
  "CHR ''*'' \<notin> set s \<Longrightarrow> s \<noteq> [] \<Longrightarrow> s \<in> set ss \<Longrightarrow> \<not> contains s (fold replace_all ss t)"
proof (induction ss arbitrary: t)
  case (Cons r ss)
  then show ?case
    using contains_fold_replace [of s ss "replace_all s t"] replace_all_gone [of s t]
    by (cases "s = r") auto
qed simp

lemma kgat_gone:
  assumes "kgat_class x"
  shows "\<not> contains (''KGAT_'' @ [x]) (sub_matches (head_then (eat ''KGAT_'') kgat_class False) t)"
proof (induction "head_then (eat ''KGAT_'') kgat_class False" t rule: sub_matches.induct)
  case (2 c cs)
  have star: "CHR ''*'' \<notin> set (''KGAT_'' @ [x])"
    using assms by (auto simp: kgat_class_def is_alnum_def)
  let ?m = "head_then (eat ''KGAT_'') kgat_class False"
  show ?case
  proof (cases "?m (c # cs)")
    case None
    have "\<not> prefix (''KGAT_'' @ [x]) (c # cs)"
    proof
      assume "prefix (''KGAT_'' @ [x]) (c # cs)"
      then obtain r where "c # cs = ''KGAT_'' @ x # r" by (auto simp: prefix_def)
      with assms None show False by (simp add: head_then_def eat_def)
    qed
    with 2(1) [OF None] None prefix_sub_matches [OF star, of ?m "c # cs"] show ?thesis by auto
  next
    case (Some gn)
    then obtain n where gn: "?m (c # cs) = Some (0, n)"
      by (auto simp: head_then_def split: option.splits if_splits)
    with 2(2) [OF gn refl] show ?thesis by simp
  qed
qed simp

section \<open>Failed authentications\<close>

record limiter =
  failure_limit :: nat
  window_seconds :: rat
  lockout_seconds :: int
  failures :: "string \<Rightarrow> time list option"
  blocked_until :: "string \<Rightarrow> time option"

definition new_limiter :: "nat \<Rightarrow> rat \<Rightarrow> int \<Rightarrow> limiter" where
  "new_limiter limit win lock = \<lparr>failure_limit = limit, window_seconds = win, lockout_seconds = lock,
     failures = (\<lambda>_. None), blocked_until = (\<lambda>_. None)\<rparr>"

definition blocked_at :: "limiter \<Rightarrow> string \<Rightarrow> time" where
  "blocked_at l key = (case blocked_until l key of None \<Rightarrow> 0 | Some t \<Rightarrow> t)"

definition retry_after :: "time \<Rightarrow> string \<Rightarrow> limiter \<Rightarrow> limiter \<times> int" where
  "retry_after now key l =
     (if blocked_at l key \<le> now then (l\<lparr>blocked_until := (blocked_until l)(key := None)\<rparr>, 0)
      else (l, max 1 \<lceil>blocked_at l key - now\<rceil>))"

definition recent :: "limiter \<Rightarrow> time \<Rightarrow> string \<Rightarrow> time list" where
  "recent l now key =
     dropWhile (\<lambda>t. t \<le> now - window_seconds l)
       (case failures l key of None \<Rightarrow> [] | Some ts \<Rightarrow> ts) @ [now]"

definition record_failure :: "time \<Rightarrow> string \<Rightarrow> limiter \<Rightarrow> limiter \<times> int" where
  "record_failure now key l =
     (if blocked_at l key > now then (l, max 1 \<lceil>blocked_at l key - now\<rceil>)
      else
        let ts = recent l now key
        in if length ts < failure_limit l
           then (l\<lparr>failures := (failures l)(key := Some ts)\<rparr>, 0)
           else (l\<lparr>failures := (failures l)(key := None),
                   blocked_until := (blocked_until l)(key := Some (now + of_int (lockout_seconds l)))\<rparr>,
                 lockout_seconds l))"

definition clear_failures :: "string \<Rightarrow> limiter \<Rightarrow> limiter" where
  "clear_failures key l =
     l\<lparr>failures := (failures l)(key := None), blocked_until := (blocked_until l)(key := None)\<rparr>"

inductive limiter_step :: "limiter \<Rightarrow> limiter \<Rightarrow> bool" where
  Retry: "limiter_step l (fst (retry_after now key l))"
| Failure: "limiter_step l (fst (record_failure now key l))"
| Clear: "limiter_step l (clear_failures key l)"

inductive_cases limiter_stepE: "limiter_step l l'"

definition below_limit :: "limiter \<Rightarrow> bool" where
  "below_limit l \<longleftrightarrow> (\<forall>key ts. failures l key = Some ts \<longrightarrow> length ts < failure_limit l)"

interpretation limiter: transition_system "\<lambda>l. \<exists>limit win lock. l = new_limiter limit win lock" limiter_step below_limit
proof unfold_locales
  fix l l' assume "limiter_step l l'" and "below_limit l"
  then show "below_limit l'"
    by (elim limiter_stepE)
      (auto simp: below_limit_def retry_after_def record_failure_def clear_failures_def Let_def split: if_splits)
qed (auto simp: below_limit_def new_limiter_def)

section \<open>Where a request comes from\<close>

text \<open>
  \<open>ip_norm\<close> is \<^verbatim>\<open>ipaddress.ip_address(..).compressed\<close>, \<open>None\<close> when it raises. The peer is \<open>None\<close> when the
  server does not know it.
\<close>

definition last_forwarded :: "string \<Rightarrow> string" where
  "last_forwarded header = strip (last (split_on (CHR '','') header))"

definition normalized_peer :: "(string \<Rightarrow> string option) \<Rightarrow> string option \<Rightarrow> string" where
  "normalized_peer ip_norm peer =
     (let peer = (case peer of None \<Rightarrow> ''unknown'' | Some p \<Rightarrow> if p = [] then ''unknown'' else p)
      in case ip_norm peer of None \<Rightarrow> peer | Some p \<Rightarrow> p)"

definition auth_source ::
  "(string \<Rightarrow> string option) \<Rightarrow> string option \<Rightarrow> string \<Rightarrow> string set \<Rightarrow> string" where
  "auth_source ip_norm peer forwarded trusted =
     (let normalized = normalized_peer ip_norm peer
      in if normalized \<notin> trusted then normalized
         else (case ip_norm (last_forwarded forwarded) of None \<Rightarrow> normalized | Some p \<Rightarrow> p))"

record split_url =
  url_scheme :: string
  url_hostname :: string
  url_port :: "int option"
  url_username :: string
  url_password :: string
  url_path :: string
  url_query :: string
  url_fragment :: string

definition strip_dots :: "string \<Rightarrow> string" where
  "strip_dots s = rev (dropWhile (\<lambda>c. c = CHR ''.'') (rev s))"

text \<open>\<open>urlsplit\<close> is \<open>None\<close> when the split or its port raises \<^verbatim>\<open>ValueError\<close>.\<close>

definition origin_key ::
  "(string \<Rightarrow> split_url option) \<Rightarrow> string \<Rightarrow> bool \<Rightarrow> (string \<times> string \<times> int) option" where
  "origin_key urlsplit v require_shape =
     (case urlsplit v of
        None \<Rightarrow> None
      | Some u \<Rightarrow>
          let scheme = lower (url_scheme u); hostname = strip_dots (lower (url_hostname u))
          in if scheme \<notin> {''http'', ''https''} \<or> hostname = [] then None
             else if require_shape
               \<and> (url_username u \<noteq> [] \<or> url_password u \<noteq> [] \<or> url_query u \<noteq> [] \<or> url_fragment u \<noteq> []
                 \<or> url_path u \<notin> {[], ''/''})
             then None
             else Some (scheme, hostname,
               (case url_port u of Some p \<Rightarrow> p | None \<Rightarrow> if scheme = ''https'' then 443 else 80)))"

definition is_same_origin_request ::
  "(string \<Rightarrow> split_url option) \<Rightarrow> string \<Rightarrow> string \<Rightarrow> string \<Rightarrow> bool" where
  "is_same_origin_request urlsplit origin_header request_url public_origin =
     (let origin = strip origin_header
      in if origin = [] then False
         else
           let expected = (if strip public_origin \<noteq> [] then strip public_origin else request_url)
           in origin_key urlsplit origin True = origin_key urlsplit expected False)"

section \<open>Properties\<close>

text \<open>
  Whatever text is redacted, no registered secret is left in the result (the mask itself
  consists of stars, so the secret must not contain one), and neither is any Kaggle API token.
\<close>

theorem redaction_removes_secrets:
  assumes "secret \<in> set secrets" and "secret \<noteq> []" and "CHR ''*'' \<notin> set secret" and "kgat_class x"
  shows "\<not> contains secret (redact_secrets secrets text)
    \<and> \<not> contains (''KGAT_'' @ [x]) (redact_secrets secrets text)"
proof
  let ?t = "fold replace_all (sort_key (\<lambda>s. - int (length s)) secrets) text"
  have "\<not> contains secret ?t"
    using assms(1-3) by (intro fold_replace_gone) simp_all
  then show "\<not> contains secret (redact_secrets secrets text)"
    using contains_fold_sub [OF assms(3,2)] by (auto simp: redact_secrets_def)
  have star: "CHR ''*'' \<notin> set (''KGAT_'' @ [x])"
    using assms(4) by (auto simp: kgat_class_def is_alnum_def)
  show "\<not> contains (''KGAT_'' @ [x]) (redact_secrets secrets text)"
    using kgat_gone [OF assms(4)] contains_sub_matches [OF star]
    by (auto simp: redact_secrets_def token_patterns_def simp del: append_Cons append_Nil)
qed

lemma redaction_removes_secrets_witness:
  "\<not> contains ''hunter2'' (redact_secrets [''hunter2''] ''pw=hunter2 KGAT_9'')"
  using redaction_removes_secrets [of "''hunter2''" "[''hunter2'']" "CHR ''9''" "''pw=hunter2 KGAT_9''"]
  by (simp add: kgat_class_def is_alnum_def)

fun fail_run :: "string \<Rightarrow> time list \<Rightarrow> limiter \<Rightarrow> limiter" where
  "fail_run key [] l = l"
| "fail_run key (t # ts) l = fail_run key ts (fst (record_failure t key l))"

fun never_locked :: "string \<Rightarrow> time list \<Rightarrow> limiter \<Rightarrow> bool" where
  "never_locked key [] l \<longleftrightarrow> True"
| "never_locked key (t # ts) l \<longleftrightarrow>
     snd (record_failure t key l) = 0 \<and> never_locked key ts (fst (record_failure t key l))"

definition window :: "rat \<Rightarrow> time \<Rightarrow> time list \<Rightarrow> time list" where
  "window w now ts = filter (\<lambda>t. now - w < t) ts"

lemma dropWhile_window:
  "sorted ts \<Longrightarrow> dropWhile (\<lambda>t. t \<le> now - w) ts = window w now ts"
  unfolding window_def
proof (induction ts)
  case (Cons t ts)
  show ?case
  proof (cases "t \<le> now - w")
    case True
    with Cons show ?thesis by simp
  next
    case False
    with Cons.prems have "\<forall>u \<in> set (t # ts). now - w < u" by auto
    with False show ?thesis by (simp add: filter_id_conv)
  qed
qed simp

lemma window_window: "now \<le> now' \<Longrightarrow> window w now' (window w now ts) = window w now' ts"
  by (auto simp: window_def intro: filter_cong)

lemma sorted_window: "sorted ts \<Longrightarrow> sorted (window w now ts)"
  by (simp add: window_def sorted_wrt_filter)

lemma record_failure_config [simp]:
  "failure_limit (fst (record_failure t key l)) = failure_limit l"
  "window_seconds (fst (record_failure t key l)) = window_seconds l"
  "lockout_seconds (fst (record_failure t key l)) = lockout_seconds l"
  by (simp_all add: record_failure_def Let_def)

definition tracks :: "string \<Rightarrow> time list \<Rightarrow> limiter \<Rightarrow> bool" where
  "tracks key ts l \<longleftrightarrow> sorted ts \<and> blocked_until l key = None
     \<and> (case failures l key of None \<Rightarrow> ts = [] | Some fs \<Rightarrow> ts \<noteq> [] \<and> fs = window (window_seconds l) (last ts) ts)"

lemma tracks_recent:
  assumes "tracks key ts l" and "\<forall>t \<in> set ts. t \<le> now" and "0 < window_seconds l"
  shows "recent l now key = window (window_seconds l) now (ts @ [now])"
proof (cases "failures l key")
  case None
  with assms show ?thesis by (simp add: tracks_def recent_def window_def)
next
  case (Some fs)
  with assms have fs: "fs = window (window_seconds l) (last ts) ts" and "sorted ts" "ts \<noteq> []"
    by (simp_all add: tracks_def)
  then have "dropWhile (\<lambda>t. t \<le> now - window_seconds l) fs = window (window_seconds l) now ts"
    using assms(2) by (simp add: dropWhile_window sorted_window window_window)
  with assms(3) show ?thesis by (simp add: recent_def Some window_def)
qed

lemma tracks_step:
  assumes "tracks key ts l" and "\<forall>t \<in> set ts. t \<le> now" and "0 < window_seconds l"
    and "0 \<le> now" and "0 < lockout_seconds l"
  shows "snd (record_failure now key l) =
      (if length (window (window_seconds l) now (ts @ [now])) < failure_limit l then 0 else lockout_seconds l)
    \<and> (snd (record_failure now key l) = 0 \<longrightarrow> tracks key (ts @ [now]) (fst (record_failure now key l)))"
  using assms tracks_recent [OF assms(1-3)]
  by (auto simp: tracks_def record_failure_def blocked_at_def Let_def sorted_append)

lemma tracks_run:
  assumes "tracks key ts l" and "sorted (ts @ us)" and "\<forall>t \<in> set us. 0 \<le> t"
    and "0 < window_seconds l" and "0 < lockout_seconds l" and "never_locked key us l"
  shows "tracks key (ts @ us) (fail_run key us l)
    \<and> failure_limit (fail_run key us l) = failure_limit l
    \<and> window_seconds (fail_run key us l) = window_seconds l
    \<and> lockout_seconds (fail_run key us l) = lockout_seconds l"
  using assms
proof (induction us arbitrary: ts l)
  case (Cons u us)
  have "tracks key (ts @ [u]) (fst (record_failure u key l))"
    using tracks_step [of key ts l u] Cons.prems by (auto simp: sorted_append)
  from Cons.IH [OF this] Cons.prems show ?case by simp
qed simp

text \<open>
  The limiter counts exactly the failures inside its window: while a source was never locked,
  its next failure locks it, for the lockout time, if and only if the failures of the last window,
  this one included, reach the limit.
\<close>

theorem limiter_counts_window:
  assumes "sorted (ts @ [now])" and "\<forall>t \<in> set (ts @ [now]). 0 \<le> t"
    and "0 < win" and "0 < lock" and "never_locked key ts (new_limiter limit win lock)"
  shows "snd (record_failure now key (fail_run key ts (new_limiter limit win lock))) =
    (if length (window win now (ts @ [now])) < limit then 0 else lock)"
proof -
  let ?l = "new_limiter limit win lock"
  have "tracks key [] ?l" by (simp add: tracks_def new_limiter_def)
  from tracks_run [OF this, of ts] assms
  have "tracks key ts (fail_run key ts ?l)" and "failure_limit (fail_run key ts ?l) = limit"
    and "window_seconds (fail_run key ts ?l) = win" and "lockout_seconds (fail_run key ts ?l) = lock"
    by (auto simp: sorted_append new_limiter_def)
  with tracks_step [of key ts "fail_run key ts ?l" now] assms show ?thesis
    by (auto simp: sorted_append)
qed

lemma limiter_counts_window_witness:
  "snd (record_failure 50 ''ip'' (fail_run ''ip'' [0, 1] (new_limiter 3 60 300))) = 300"
proof -
  have "never_locked ''ip'' [0, 1] (new_limiter 3 60 300)"
    by (simp add: record_failure_def new_limiter_def blocked_at_def recent_def Let_def)
  from limiter_counts_window [of "[0, 1]" 50 60 300 "''ip''" 3, OF _ _ _ _ this]
  show ?thesis by (simp add: window_def)
qed

datatype limiter_op = Op_retry time string | Op_failure time string | Op_clear string

fun run_op :: "limiter_op \<Rightarrow> limiter \<Rightarrow> limiter" where
  "run_op (Op_retry t key) l = fst (retry_after t key l)"
| "run_op (Op_failure t key) l = fst (record_failure t key l)"
| "run_op (Op_clear key) l = clear_failures key l"

fun op_before :: "string \<Rightarrow> time \<Rightarrow> limiter_op \<Rightarrow> bool" where
  "op_before key limit (Op_retry t k) \<longleftrightarrow> t < limit"
| "op_before key limit (Op_failure t k) \<longleftrightarrow> t < limit"
| "op_before key limit (Op_clear k) \<longleftrightarrow> k \<noteq> key"

lemma run_op_keeps_block:
  "blocked_until l key = Some b \<Longrightarrow> op_before key b x \<Longrightarrow> blocked_until (run_op x l) key = Some b"
  by (cases x)
    (auto simp: retry_after_def record_failure_def clear_failures_def blocked_at_def Let_def)

text \<open>
  A lockout holds: once a failure has locked a source, no further failure or query by anybody,
  and no success of another source, lets it through before the lockout has elapsed.
\<close>

theorem lockout_holds:
  assumes "snd (record_failure now key l) \<noteq> 0" and "blocked_at l key \<le> now"
    and "\<forall>x \<in> set xs. op_before key (now + of_int (lockout_seconds l)) x"
    and "later < now + of_int (lockout_seconds l)"
  shows "0 < snd (retry_after later key (fold run_op xs (fst (record_failure now key l))))"
proof -
  let ?b = "now + of_int (lockout_seconds l)" and ?l = "fst (record_failure now key l)"
  have "blocked_until ?l key = Some ?b"
    using assms(1,2) by (auto simp: record_failure_def Let_def split: if_splits)
  moreover have "blocked_until (fold run_op xs l') key = Some ?b"
    if "blocked_until l' key = Some ?b" for l'
    using assms(3) that
    by (induction xs arbitrary: l') (auto dest: run_op_keeps_block)
  ultimately have "blocked_at (fold run_op xs ?l) key = ?b"
    by (simp add: blocked_at_def)
  with assms(4) show ?thesis by (simp add: retry_after_def)
qed

lemma lockout_holds_witness:
  "0 < snd (retry_after 100 ''ip'' (fold run_op [Op_failure 50 ''ip'', Op_clear ''other'', Op_retry 60 ''ip'']
      (fst (record_failure 0 ''ip'' (new_limiter 1 60 300)))))"
  by (rule lockout_holds) (simp_all add: record_failure_def new_limiter_def blocked_at_def recent_def Let_def)

text \<open>
  In every reachable state of the limiter each source has fewer pending failures than the limit,
  so the memory kept for a source is bounded.
\<close>

theorem limiter_bounded:
  "limiter_step\<^sup>*\<^sup>* (new_limiter limit win lock) l \<Longrightarrow> failures l key = Some ts \<Longrightarrow> length ts < failure_limit l"
  using limiter.run_inv [of "new_limiter limit win lock" l] by (auto simp: below_limit_def)

lemma limiter_bounded_witness:
  "length [0 :: time] < failure_limit (fst (record_failure 0 ''ip'' (new_limiter 2 60 300)))"
proof (rule limiter_bounded)
  show "limiter_step\<^sup>*\<^sup>* (new_limiter 2 60 300) (fst (record_failure 0 ''ip'' (new_limiter 2 60 300)))"
    by (rule r_into_rtranclp) (rule limiter_step.Failure)
qed (simp add: record_failure_def new_limiter_def blocked_at_def recent_def Let_def)

lemma split_on_app: "split_on c (xs @ c # ys) = split_on c xs @ split_on c ys"
proof (induction xs)
  case (Cons x xs)
  obtain z zs where "split_on c xs = z # zs"
    using split_on_nonempty [of c xs] by (cases "split_on c xs") auto
  with Cons show ?case by simp
qed simp

lemma last_forwarded_app: "last_forwarded (xs @ CHR '','' # ys) = last_forwarded ys"
  by (simp add: last_forwarded_def split_on_app)

text \<open>
  A peer that is not a trusted proxy cannot choose the source its failures are counted under:
  the forwarding header has no influence. Behind a trusted proxy only its last entry, the one the
  proxy itself appended, counts.
\<close>

theorem source_unspoofable:
  "(if normalized_peer ip_norm peer \<notin> trusted
    then auth_source ip_norm peer h1 trusted = auth_source ip_norm peer h2 trusted else True)
   \<and> auth_source ip_norm peer (h1 @ CHR '','' # entry) trusted = auth_source ip_norm peer (h2 @ CHR '','' # entry) trusted"
  by (simp add: auth_source_def Let_def last_forwarded_app)

text \<open>
  A request passes the same-origin check only with an origin of the bare shape
  scheme://host:port, and then exactly when scheme, host and port, defaults filled in, are those of
  the expected address, whatever the case of the letters; an expected address that is no HTTP
  address with a host is the exception the hypothesis excludes.
\<close>

theorem same_origin_exact:
  assumes "origin_key urlsplit (if strip public \<noteq> [] then strip public else url) False = Some expected"
  shows "is_same_origin_request urlsplit header url public \<longleftrightarrow>
    (\<exists>u. strip header \<noteq> [] \<and> urlsplit (strip header) = Some u
      \<and> url_username u = [] \<and> url_password u = [] \<and> url_query u = [] \<and> url_fragment u = []
      \<and> url_path u \<in> {[], ''/''}
      \<and> lower (url_scheme u) \<in> {''http'', ''https''}
      \<and> expected = (lower (url_scheme u), strip_dots (lower (url_hostname u)),
           (case url_port u of Some p \<Rightarrow> p | None \<Rightarrow> if lower (url_scheme u) = ''https'' then 443 else 80)))"
proof -
  have host: "fst (snd expected) \<noteq> []"
    using assms by (auto simp: origin_key_def Let_def split: option.splits if_splits)
  have "origin_key urlsplit (strip header) True = Some expected \<longleftrightarrow>
      (\<exists>u. urlsplit (strip header) = Some u
      \<and> url_username u = [] \<and> url_password u = [] \<and> url_query u = [] \<and> url_fragment u = []
      \<and> url_path u \<in> {[], ''/''} \<and> lower (url_scheme u) \<in> {''http'', ''https''}
      \<and> expected = (lower (url_scheme u), strip_dots (lower (url_hostname u)),
           (case url_port u of Some p \<Rightarrow> p | None \<Rightarrow> if lower (url_scheme u) = ''https'' then 443 else 80)))"
    using host by (cases "urlsplit (strip header)") (auto simp: origin_key_def Let_def)
  then show ?thesis
    using assms by (auto simp: is_same_origin_request_def Let_def)
qed

lemma same_origin_exact_witness:
  "is_same_origin_request
     (\<lambda>s. Some \<lparr>url_scheme = ''https'', url_hostname = ''h'', url_port = (if s = ''a'' then None else Some 443),
        url_username = [], url_password = [], url_path = [], url_query = [], url_fragment = []\<rparr>)
     ''a'' ''b'' []"
proof -
  have s: "strip ''a'' = ''a''" and l: "lower ''https'' = ''https''" "strip_dots (lower ''h'') = ''h''"
    and e: "strip [] = []"
    by code_simp+
  show ?thesis
    by (subst same_origin_exact [where expected = "(''https'', ''h'', 443)"])
      (simp_all add: origin_key_def Let_def s l e)
qed

end
