(* ===== verification/Auth_Config.thy ===== *)
theory Auth_Config
  imports Security
begin

text \<open>
  \<^verbatim>\<open>app/auth_config.py\<close>: the parsing of the access configuration, the store of relay tokens and
  Kaggle accounts, authentication, and the choice of an account for a principal. A configuration
  file is its decoded content; a parameter \<open>show\<close> is \<^verbatim>\<open>str\<close> on a JSON value that is no string.
  \<^verbatim>\<open>hmac.compare_digest\<close> raises for a string that is not ASCII, so comparing may fail. The set of
  registered secrets is threaded through the parsing.
\<close>

section \<open>Accounts, principals, errors\<close>

record credentials =
  cred_id :: string
  username :: string
  key_value :: string
  api_token :: string
  config_dir :: string
  enabled :: bool
  disabled_reason :: string

record principal =
  principal_id :: string
  allowed_keys :: "string set option"
  legacy :: bool
  management_admin :: bool
  view_keys :: bool

record auth_store =
  store_legacy :: bool
  kaggle_keys :: "credentials dict"
  tokens :: "(string \<times> principal) list"
  management_token_configured :: bool

datatype config_error =
    Unreadable_config | Config_not_json | Config_not_object
  | Bad_keys_list | Key_not_object | Key_without_id | Duplicate_key string | Bad_enabled string
  | Key_without_credentials string
  | Bad_tokens_list | Token_not_object | Token_without_id | Token_without_value string
  | Duplicate_token_id string | Duplicate_token_value string | No_allowed_keys string
  | Unknown_allowed_keys string | Bad_allowed_keys string
  | Bad_retired_ids | Retired_id_reused | Bad_can_view
  | Admin_token_in_legacy | Admin_token_short | Reserved_id | Admin_token_not_distinct
  | Token_required | Compare_type_error

datatype selection_error = SelectionError (sel_detail: string) (sel_status: int)

definition can_view_keys :: "principal \<Rightarrow> bool" where
  "can_view_keys p \<longleftrightarrow> management_admin p \<or> view_keys p"

definition allow_all_keys :: "principal \<Rightarrow> bool" where
  "allow_all_keys p \<longleftrightarrow> allowed_keys p = None"

definition allows_key :: "principal \<Rightarrow> string \<Rightarrow> bool" where
  "allows_key p key =
     (if legacy p then key = []
      else case allowed_keys p of None \<Rightarrow> True | Some ks \<Rightarrow> key \<in> ks)"

definition apply_to_env :: "credentials \<Rightarrow> string dict \<Rightarrow> string dict" where
  "apply_to_env c env =
     (let env = fold AList.delete [''KAGGLE_USERNAME'', ''KAGGLE_KEY'', ''KAGGLE_API_TOKEN'', ''KAGGLE_CONFIG_DIR''] env;
          put = (\<lambda>name v env. if v = [] then env else AList.update name v env)
      in put ''KAGGLE_API_TOKEN'' (api_token c)
           (put ''KAGGLE_KEY'' (key_value c)
             (put ''KAGGLE_USERNAME'' (username c) (put ''KAGGLE_CONFIG_DIR'' (config_dir c) env))))"

section \<open>Parsing\<close>

definition str_of :: "(json \<Rightarrow> string) \<Rightarrow> json \<Rightarrow> string" where
  "str_of show j = (case j of JStr s \<Rightarrow> s | _ \<Rightarrow> show j)"

text \<open>\<^verbatim>\<open>str(item.get(f, "")).strip()\<close> and \<^verbatim>\<open>str(item.get(f, "") or "").strip()\<close>.\<close>

definition get_str :: "(json \<Rightarrow> string) \<Rightarrow> json dict \<Rightarrow> string \<Rightarrow> string" where
  "get_str show d f = strip (case map_of d f of None \<Rightarrow> [] | Some j \<Rightarrow> str_of show j)"

definition get_str_or :: "(json \<Rightarrow> string) \<Rightarrow> json dict \<Rightarrow> string \<Rightarrow> string" where
  "get_str_or show d f =
     strip (case map_of d f of None \<Rightarrow> [] | Some j \<Rightarrow> if truthy (Some j) then str_of show j else [])"

definition parse_credentials :: "(json \<Rightarrow> string) \<Rightarrow> string \<Rightarrow> bool \<Rightarrow> json dict \<Rightarrow> credentials" where
  "parse_credentials show kid en d =
     \<lparr>cred_id = kid, username = get_str_or show d ''username'', key_value = get_str_or show d ''key'',
      api_token = get_str_or show d ''api_token'', config_dir = get_str_or show d ''config_dir'',
      enabled = en, disabled_reason = get_str_or show d ''disabled_reason''\<rparr>"

definition has_credentials :: "credentials \<Rightarrow> bool" where
  "has_credentials c \<longleftrightarrow>
     (username c \<noteq> [] \<and> key_value c \<noteq> []) \<or> api_token c \<noteq> [] \<or> config_dir c \<noteq> []"

fun enabled_flag :: "json option \<Rightarrow> bool option" where
  "enabled_flag None = Some True"
| "enabled_flag (Some (JBool b)) = Some b"
| "enabled_flag (Some _) = None"

definition parse_key :: "(json \<Rightarrow> string) \<Rightarrow> credentials dict \<Rightarrow> json \<Rightarrow> config_error + credentials" where
  "parse_key show known item =
     (case item of
        JObj d \<Rightarrow>
          let kid = get_str show d ''id''
          in if kid = [] then Inl Key_without_id
             else if map_of known kid \<noteq> None then Inl (Duplicate_key kid)
             else (case enabled_flag (map_of d ''enabled'') of
                 None \<Rightarrow> Inl (Bad_enabled kid)
               | Some en \<Rightarrow>
                   let c = parse_credentials show kid en d
                   in if has_credentials c then Inr c else Inl (Key_without_credentials kid))
      | _ \<Rightarrow> Inl Key_not_object)"

fun parse_keys_from ::
  "(json \<Rightarrow> string) \<Rightarrow> json list \<Rightarrow> credentials dict \<Rightarrow> string list
   \<Rightarrow> (config_error + credentials dict) \<times> string list" where
  "parse_keys_from show [] known secrets = (Inr known, secrets)"
| "parse_keys_from show (item # items) known secrets =
     (case parse_key show known item of
        Inl e \<Rightarrow> (Inl e, secrets)
      | Inr c \<Rightarrow>
          parse_keys_from show items (known @ [(cred_id c, c)])
            (register_secret (api_token c) (register_secret (key_value c) secrets)))"

definition parse_kaggle_keys ::
  "(json \<Rightarrow> string) \<Rightarrow> json option \<Rightarrow> string list \<Rightarrow> (config_error + credentials dict) \<times> string list" where
  "parse_kaggle_keys show raw secrets =
     (case raw of
        Some (JArr items) \<Rightarrow>
          if items = [] then (Inl Bad_keys_list, secrets) else parse_keys_from show items [] secrets
      | _ \<Rightarrow> (Inl Bad_keys_list, secrets))"

type_synonym relay_token = "string \<times> string \<times> string set option"

definition parse_allowed ::
  "(json \<Rightarrow> string) \<Rightarrow> string set \<Rightarrow> string \<Rightarrow> json option \<Rightarrow> config_error + string set option" where
  "parse_allowed show known tid raw =
     (case raw of
        Some (JArr items) \<Rightarrow>
          if items = [] then Inl (Bad_allowed_keys tid)
          else
            let ids = filter (\<lambda>s. s \<noteq> []) (map (\<lambda>j. strip (str_of show j)) items)
            in if ids = [] then Inl (No_allowed_keys tid)
               else if list_ex (\<lambda>k. k \<notin> known) ids then Inl (Unknown_allowed_keys tid)
               else Inr (Some (set ids))
      | Some (JStr s) \<Rightarrow> if s = ''*'' then Inr None else Inl (Bad_allowed_keys tid)
      | _ \<Rightarrow> Inl (Bad_allowed_keys tid))"

definition parse_token ::
  "(json \<Rightarrow> string) \<Rightarrow> string set \<Rightarrow> relay_token list \<Rightarrow> json \<Rightarrow> config_error + relay_token" where
  "parse_token show known seen item =
     (case item of
        JObj d \<Rightarrow>
          let tid = get_str show d ''id''; token = get_str_or show d ''token''
          in if tid = [] then Inl Token_without_id
             else if token = [] then Inl (Token_without_value tid)
             else if tid \<in> set (map fst seen) then Inl (Duplicate_token_id tid)
             else if token \<in> set (map (fst \<circ> snd) seen) then Inl (Duplicate_token_value tid)
             else (case parse_allowed show known tid (map_of d ''allowed_kaggle_key_ids'') of
                 Inl e \<Rightarrow> Inl e
               | Inr allowed \<Rightarrow> Inr (tid, token, allowed))
      | _ \<Rightarrow> Inl Token_not_object)"

fun parse_tokens_from ::
  "(json \<Rightarrow> string) \<Rightarrow> string set \<Rightarrow> json list \<Rightarrow> relay_token list \<Rightarrow> string list
   \<Rightarrow> (config_error + relay_token list) \<times> string list" where
  "parse_tokens_from show known [] seen secrets = (Inr seen, secrets)"
| "parse_tokens_from show known (item # items) seen secrets =
     (case parse_token show known seen item of
        Inl e \<Rightarrow> (Inl e, secrets)
      | Inr (tid, token, allowed) \<Rightarrow>
          parse_tokens_from show known items (seen @ [(tid, token, allowed)]) (register_secret token secrets))"

definition parse_relay_tokens ::
  "(json \<Rightarrow> string) \<Rightarrow> json option \<Rightarrow> string set \<Rightarrow> bool \<Rightarrow> string list
   \<Rightarrow> (config_error + relay_token list) \<times> string list" where
  "parse_relay_tokens show raw known allow_empty secrets =
     (case raw of
        Some (JArr items) \<Rightarrow>
          if items = [] \<and> \<not> allow_empty then (Inl Bad_tokens_list, secrets)
          else parse_tokens_from show known items [] secrets
      | _ \<Rightarrow> (Inl Bad_tokens_list, secrets))"

section \<open>The store\<close>

definition is_ascii :: "string \<Rightarrow> bool" where
  "is_ascii s \<longleftrightarrow> list_all (\<lambda>c. (of_char c :: nat) < 128) s"

text \<open>\<^verbatim>\<open>hmac.compare_digest\<close> on strings: \<open>None\<close> is its \<^verbatim>\<open>TypeError\<close>.\<close>

definition compare_digest :: "string \<Rightarrow> string \<Rightarrow> bool option" where
  "compare_digest a b = (if is_ascii a \<and> is_ascii b then Some (a = b) else None)"

fun any_equal :: "string \<Rightarrow> string list \<Rightarrow> bool option" where
  "any_equal a [] = Some False"
| "any_equal a (b # bs) =
     (case compare_digest a b of None \<Rightarrow> None | Some True \<Rightarrow> Some True | Some False \<Rightarrow> any_equal a bs)"

definition min_admin_token_length :: nat where
  "min_admin_token_length = 8"

definition management_principal_id :: string where
  "management_principal_id = ''management-key''"

definition token_principal :: "bool \<Rightarrow> bool \<Rightarrow> string set \<Rightarrow> relay_token \<Rightarrow> string \<times> principal" where
  "token_principal leg admins viewers t =
     (case t of (tid, token, allowed) \<Rightarrow>
        (token, \<lparr>principal_id = tid, allowed_keys = allowed, legacy = leg,
           management_admin = (admins \<and> allowed = None), view_keys = (tid \<in> viewers)\<rparr>))"

definition admin_principal :: principal where
  "admin_principal = \<lparr>principal_id = management_principal_id, allowed_keys = None, legacy = False,
     management_admin = True, view_keys = False\<rparr>"

definition new_store ::
  "relay_token list \<Rightarrow> credentials dict \<Rightarrow> bool \<Rightarrow> string \<Rightarrow> string set \<Rightarrow> string list
   \<Rightarrow> (config_error + auth_store) \<times> string list" where
  "new_store relay keys leg admin viewers secrets =
     (let admin = strip admin in
      if admin \<noteq> [] \<and> leg then (Inl Admin_token_in_legacy, secrets)
      else if admin \<noteq> [] \<and> length admin < min_admin_token_length then (Inl Admin_token_short, secrets)
      else
        let toks = map (token_principal leg (\<not> leg \<and> admin = []) viewers) relay;
            s = \<lparr>store_legacy = leg, kaggle_keys = keys, tokens = toks, management_token_configured = (admin \<noteq> [])\<rparr>
        in if admin = [] then (Inr s, secrets)
           else if list_ex (\<lambda>t. principal_id (snd t) = management_principal_id) toks then (Inl Reserved_id, secrets)
           else (case any_equal admin (map fst toks) of
               None \<Rightarrow> (Inl Compare_type_error, secrets)
             | Some True \<Rightarrow> (Inl Admin_token_not_distinct, secrets)
             | Some False \<Rightarrow>
                 (Inr (s\<lparr>tokens := (admin, admin_principal) # toks\<rparr>), register_secret admin secrets)))"

datatype config_file = Unreadable | Not_json | Config json

fun retired_ids :: "json option \<Rightarrow> string list option" where
  "retired_ids None = Some []"
| "retired_ids (Some (JArr items)) =
     (if list_all (\<lambda>j. case j of JStr s \<Rightarrow> strip s \<noteq> [] | _ \<Rightarrow> False) items
      then Some (map (\<lambda>j. case j of JStr s \<Rightarrow> strip s | _ \<Rightarrow> []) items) else None)"
| "retired_ids (Some _) = None"

definition can_view_flag :: "json \<Rightarrow> bool option" where
  "can_view_flag item =
     (case map_of (dict_of (Some item)) ''can_view_keys'' of
        None \<Rightarrow> Some False | Some (JBool b) \<Rightarrow> Some b | Some _ \<Rightarrow> None)"

fun json_list :: "json option \<Rightarrow> json list" where
  "json_list (Some (JArr items)) = items"
| "json_list _ = []"

definition from_file ::
  "(json \<Rightarrow> string) \<Rightarrow> config_file \<Rightarrow> string \<Rightarrow> string list \<Rightarrow> (config_error + auth_store) \<times> string list" where
  "from_file show file admin secrets =
     (case file of
        Unreadable \<Rightarrow> (Inl Unreadable_config, secrets)
      | Not_json \<Rightarrow> (Inl Config_not_json, secrets)
      | Config (JObj data) \<Rightarrow>
          (case parse_kaggle_keys show (map_of data ''kaggle_keys'') secrets of
             (Inl e, secrets) \<Rightarrow> (Inl e, secrets)
           | (Inr keys, secrets) \<Rightarrow>
               (case parse_relay_tokens show (map_of data ''relay_tokens'') (set (map fst keys)) (admin \<noteq> []) secrets of
                  (Inl e, secrets) \<Rightarrow> (Inl e, secrets)
                | (Inr relay, secrets) \<Rightarrow>
                    (case retired_ids (map_of data ''retired_relay_token_ids'') of
                       None \<Rightarrow> (Inl Bad_retired_ids, secrets)
                     | Some retired \<Rightarrow>
                         if list_ex (\<lambda>t. fst t \<in> set retired) relay then (Inl Retired_id_reused, secrets)
                         else
                           let items = json_list (map_of data ''relay_tokens'')
                           in if list_ex (\<lambda>i. can_view_flag i = None) items then (Inl Bad_can_view, secrets)
                              else new_store relay keys False admin
                                (set (map (\<lambda>i. get_str show (dict_of (Some i)) ''id'')
                                  (filter (\<lambda>i. can_view_flag i = Some True) items))) secrets)))
      | Config _ \<Rightarrow> (Inl Config_not_object, secrets))"

definition from_settings ::
  "(json \<Rightarrow> string) \<Rightarrow> config_file option \<Rightarrow> string \<Rightarrow> string \<Rightarrow> string list
   \<Rightarrow> (config_error + auth_store) \<times> string list" where
  "from_settings show file admin api secrets =
     (let admin = strip admin; api = strip api in
      case file of
        Some f \<Rightarrow> from_file show f admin secrets
      | None \<Rightarrow>
          if admin \<noteq> [] then (Inl Admin_token_in_legacy, secrets)
          else if api = [] then (Inl Token_required, secrets)
          else new_store [(''legacy'', api, Some {[]})] [] True [] {} (register_secret api secrets))"

section \<open>Authentication and account selection\<close>

datatype 'a outcome = Raised_type_error | Returned 'a

fun authenticate_in :: "(string \<times> principal) list \<Rightarrow> string \<Rightarrow> principal option outcome" where
  "authenticate_in [] token = Returned None"
| "authenticate_in ((expected, p) # ts) token =
     (case compare_digest token expected of
        None \<Rightarrow> Raised_type_error
      | Some True \<Rightarrow> Returned (Some p)
      | Some False \<Rightarrow> authenticate_in ts token)"

definition authenticate_token :: "auth_store \<Rightarrow> string \<Rightarrow> principal option outcome" where
  "authenticate_token s token = (if token = [] then Returned None else authenticate_in (tokens s) token)"

definition bearer_token :: "string \<Rightarrow> string" where
  "bearer_token authorization =
     (if prefix ''Bearer '' authorization then strip (drop 7 authorization) else [])"

definition authenticate_authorization :: "auth_store \<Rightarrow> string \<Rightarrow> principal option outcome" where
  "authenticate_authorization s authorization =
     (let token = bearer_token authorization
      in if token = [] then Returned None else authenticate_token s token)"

definition compatibility_admin_token :: "auth_store \<Rightarrow> string" where
  "compatibility_admin_token s =
     (case find (\<lambda>t. management_admin (snd t)) (tokens s) of None \<Rightarrow> [] | Some t \<Rightarrow> fst t)"

definition key_enabled :: "auth_store \<Rightarrow> string \<Rightarrow> bool" where
  "key_enabled s k = (case map_of (kaggle_keys s) k of None \<Rightarrow> False | Some c \<Rightarrow> enabled c)"

definition allowed_key_ids :: "auth_store \<Rightarrow> principal \<Rightarrow> bool \<Rightarrow> string list" where
  "allowed_key_ids s p include_disabled =
     (if store_legacy s then [[]]
      else sort (filter (\<lambda>k. (case allowed_keys p of None \<Rightarrow> True | Some ks \<Rightarrow> k \<in> ks)
                    \<and> (include_disabled \<or> key_enabled s k)) (map fst (kaggle_keys s))))"

definition resolve_kaggle_key_id :: "auth_store \<Rightarrow> principal \<Rightarrow> string \<Rightarrow> selection_error + string" where
  "resolve_kaggle_key_id s p requested =
     (let requested = strip requested in
      if store_legacy s
      then (if requested \<noteq> [] then Inl (SelectionError ''kaggle_key_id is not available in legacy mode'' 400)
            else Inr [])
      else if requested \<noteq> []
      then (if map_of (kaggle_keys s) requested = None then Inl (SelectionError ''unknown kaggle_key_id'' 400)
            else if \<not> allows_key p requested
            then Inl (SelectionError ''kaggle_key_id is not allowed for this token'' 403)
            else if \<not> key_enabled s requested then Inl (SelectionError ''kaggle_key_id is disabled'' 409)
            else Inr requested)
      else (case allowed_key_ids s p False of
          [] \<Rightarrow> Inl (SelectionError ''no enabled kaggle key is available for this token'' 409)
        | [k] \<Rightarrow> Inr k
        | _ \<Rightarrow> Inl (SelectionError ''kaggle_key_id is required for this token'' 400)))"

definition credentials_for :: "auth_store \<Rightarrow> string \<Rightarrow> selection_error + credentials option" where
  "credentials_for s key =
     (let k = strip key in
      if k = [] then Inr None
      else case map_of (kaggle_keys s) k of
             None \<Rightarrow> Inl (SelectionError ''unknown kaggle_key_id'' 400)
           | Some c \<Rightarrow> Inr (Some c))"

definition can_access_key :: "principal \<Rightarrow> string \<Rightarrow> bool" where
  "can_access_key p key = allows_key p (strip key)"

section \<open>What parsing establishes\<close>

definition wf_keys :: "credentials dict \<Rightarrow> bool" where
  "wf_keys ks \<longleftrightarrow> distinct (map fst ks)
     \<and> (\<forall>(k, c) \<in> set ks. k = cred_id c \<and> k \<noteq> [] \<and> strip k = k \<and> has_credentials c)"

definition keys_registered :: "credentials dict \<Rightarrow> string list \<Rightarrow> bool" where
  "keys_registered ks secrets \<longleftrightarrow>
     (\<forall>c \<in> snd ` set ks. \<forall>v \<in> {key_value c, api_token c}. v = [] \<or> v \<in> set secrets)"

definition wf_tokens :: "string set \<Rightarrow> relay_token list \<Rightarrow> bool" where
  "wf_tokens known ts \<longleftrightarrow> distinct (map fst ts) \<and> distinct (map (fst \<circ> snd) ts)
     \<and> (\<forall>(tid, token, allowed) \<in> set ts. tid \<noteq> [] \<and> strip tid = tid \<and> token \<noteq> []
          \<and> (case allowed of None \<Rightarrow> True | Some ids \<Rightarrow> ids \<noteq> {} \<and> ids \<subseteq> known))"

definition tokens_registered :: "relay_token list \<Rightarrow> string list \<Rightarrow> bool" where
  "tokens_registered ts secrets \<longleftrightarrow> (\<forall>(tid, token, allowed) \<in> set ts. token \<in> set secrets)"

lemma strip_strip [simp]: "strip (strip s) = strip s"
proof -
  have drop: "dropWhile is_space (dropWhile is_space xs) = dropWhile is_space xs" for xs by simp
  have rev: "dropWhile is_space (rev (dropWhile is_space (rev ys))) = rev (dropWhile is_space (rev ys))"
    if ys: "dropWhile is_space ys = ys" for ys
  proof (cases ys)
    case (Cons y zs)
    with ys have y: "\<not> is_space y" by (metis dropWhile.simps(2) dropWhile_eq_self_iff list.distinct(1) list.sel(1))
    have "dropWhile is_space (rev zs @ [y]) = dropWhile is_space (rev zs) @ [y]"
      using y by (metis dropWhile.simps(2) dropWhile_append1 dropWhile_append3)
    then show ?thesis using y by (simp add: Cons)
  qed simp
  show ?thesis by (simp add: strip_def rev)
qed

lemma register_secret_in [simp]: "strip v = v \<Longrightarrow> v \<noteq> [] \<Longrightarrow> v \<in> set (register_secret v secrets)"
  by (simp add: register_secret_def Let_def)

lemma register_secret_mono: "x \<in> set secrets \<Longrightarrow> x \<in> set (register_secret v secrets)"
  by (simp add: register_secret_def Let_def)

lemma strip_get_str_or [simp]: "strip (get_str_or show d f) = get_str_or show d f"
  by (simp only: get_str_or_def strip_strip)

lemma strip_get_str [simp]: "strip (get_str show d f) = get_str show d f"
  by (simp only: get_str_def strip_strip)

lemma parse_keyD:
  assumes "parse_key show known item = Inr c"
  shows "cred_id c \<noteq> [] \<and> strip (cred_id c) = cred_id c \<and> cred_id c \<notin> set (map fst known) \<and> has_credentials c
    \<and> strip (key_value c) = key_value c \<and> strip (api_token c) = api_token c"
proof -
  obtain d where item: "item = JObj d"
    using assms by (cases item) (auto simp: parse_key_def)
  obtain en where "get_str show d ''id'' \<noteq> []" "map_of known (get_str show d ''id'') = None"
    and "has_credentials c" and c: "c = parse_credentials show (get_str show d ''id'') en d"
    using assms by (auto simp: parse_key_def item Let_def split: if_splits option.splits)
  then show ?thesis by (simp add: parse_credentials_def map_of_eq_None_iff)
qed

lemma parse_keys_from_wf:
  assumes "parse_keys_from show items known secrets = (Inr keys, secrets')"
    and "wf_keys known" and "keys_registered known secrets"
  shows "wf_keys keys \<and> keys_registered keys secrets' \<and> set secrets \<subseteq> set secrets'"
  using assms
proof (induction items arbitrary: known secrets)
  case (Cons item items)
  then obtain c where c: "parse_key show known item = Inr c"
    by (cases "parse_key show known item") auto
  let ?s = "register_secret (api_token c) (register_secret (key_value c) secrets)"
  note d = parse_keyD [OF c]
  have "wf_keys (known @ [(cred_id c, c)])"
    using Cons.prems(2) d by (auto simp: wf_keys_def)
  moreover have "keys_registered (known @ [(cred_id c, c)]) ?s"
    using Cons.prems(3) d register_secret_in [of "key_value c" secrets]
    by (auto simp: keys_registered_def register_secret_mono)
  ultimately have "wf_keys keys \<and> keys_registered keys secrets' \<and> set ?s \<subseteq> set secrets'"
    using Cons.IH Cons.prems(1) c by simp
  then show ?case by (auto intro: register_secret_mono)
qed simp

lemma parse_tokenD:
  assumes "parse_token show known seen item = Inr (tid, token, allowed)"
  shows "tid \<noteq> [] \<and> strip tid = tid \<and> token \<noteq> [] \<and> tid \<notin> set (map fst seen) \<and> token \<notin> set (map (fst \<circ> snd) seen)
    \<and> strip token = token \<and> (case allowed of None \<Rightarrow> True | Some ids \<Rightarrow> ids \<noteq> {} \<and> ids \<subseteq> known)"
proof -
  obtain d where item: "item = JObj d" and
    tid: "tid = get_str show d ''id''" and token: "token = get_str_or show d ''token''"
    and ok: "tid \<noteq> []" "token \<noteq> []" "tid \<notin> set (map fst seen)" "token \<notin> set (map (fst \<circ> snd) seen)"
    and al: "parse_allowed show known tid (map_of d ''allowed_kaggle_key_ids'') = Inr allowed"
    using assms by (auto simp: parse_token_def Let_def split: json.splits if_splits sum.splits)
  have "case allowed of None \<Rightarrow> True | Some ids \<Rightarrow> ids \<noteq> {} \<and> ids \<subseteq> known"
    using al by (auto simp: parse_allowed_def Let_def list_ex_iff filter_empty_conv
        split: option.splits json.splits if_splits)
  with ok show ?thesis by (simp add: token tid)
qed

lemma parse_tokens_from_wf:
  assumes "parse_tokens_from show known items seen secrets = (Inr ts, secrets')"
    and "wf_tokens known seen" and "tokens_registered seen secrets"
  shows "wf_tokens known ts \<and> tokens_registered ts secrets' \<and> set secrets \<subseteq> set secrets'"
  using assms
proof (induction items arbitrary: seen secrets)
  case (Cons item items)
  then obtain tid token allowed where t: "parse_token show known seen item = Inr (tid, token, allowed)"
    by (cases "parse_token show known seen item") auto
  let ?s = "register_secret token secrets"
  note d = parse_tokenD [OF t]
  have "wf_tokens known (seen @ [(tid, token, allowed)])"
    using Cons.prems(2) d by (auto simp: wf_tokens_def)
  moreover have "tokens_registered (seen @ [(tid, token, allowed)]) ?s"
    using Cons.prems(3) d by (auto simp: tokens_registered_def intro: register_secret_mono)
  ultimately have "wf_tokens known ts \<and> tokens_registered ts secrets' \<and> set ?s \<subseteq> set secrets'"
    using Cons.IH Cons.prems(1) t by simp
  then show ?case by (auto intro: register_secret_mono)
qed simp

lemma strip_management [simp]:
  "strip management_principal_id = management_principal_id" "management_principal_id \<noteq> []"
  by code_simp+

lemma any_equal_False: "any_equal a bs = Some False \<Longrightarrow> a \<notin> set bs"
  by (induction bs) (auto simp: compare_digest_def split: option.splits bool.splits if_splits)

section \<open>A well-formed store\<close>

definition secrets_of_store :: "auth_store \<Rightarrow> string set" where
  "secrets_of_store s =
     fst ` set (tokens s) \<union> (key_value ` snd ` set (kaggle_keys s) \<union> api_token ` snd ` set (kaggle_keys s)) - {[]}"

definition wf_store :: "auth_store \<Rightarrow> bool" where
  "wf_store s \<longleftrightarrow> wf_keys (kaggle_keys s)
     \<and> distinct (map fst (tokens s)) \<and> distinct (map (principal_id \<circ> snd) (tokens s))
     \<and> (\<forall>(t, p) \<in> set (tokens s). t \<noteq> [] \<and> principal_id p \<noteq> [] \<and> strip (principal_id p) = principal_id p \<and> \<not> legacy p
          \<and> (case allowed_keys p of None \<Rightarrow> True | Some ids \<Rightarrow> ids \<noteq> {} \<and> ids \<subseteq> fst ` set (kaggle_keys s)))"

lemma token_principal_simps [simp]:
  "fst (token_principal leg admins viewers t) = fst (snd t)"
  "principal_id (snd (token_principal leg admins viewers t)) = fst t"
  "allowed_keys (snd (token_principal leg admins viewers t)) = snd (snd t)"
  "legacy (snd (token_principal leg admins viewers t)) = leg"
  "management_admin (snd (token_principal leg admins viewers t)) \<longleftrightarrow> admins \<and> snd (snd t) = None"
  by (simp_all add: token_principal_def split: prod.splits)

lemma new_store_wf:
  assumes "new_store relay keys False admin viewers secrets = (Inr s, secrets')"
    and "wf_keys keys" and "wf_tokens (set (map fst keys)) relay"
    and "keys_registered keys secrets" and "tokens_registered relay secrets"
  shows "wf_store s \<and> secrets_of_store s \<subseteq> set secrets'
    \<and> kaggle_keys s = keys \<and> \<not> store_legacy s
    \<and> (\<forall>(t, p) \<in> set (tokens s). management_admin p \<longrightarrow>
         (if strip admin = [] then allowed_keys p = None else t = strip admin))"
proof -
  let ?admin = "strip admin"
  define toks where "toks = map (token_principal False (?admin = []) viewers) relay"
  have tf: "map fst toks = map (fst \<circ> snd) relay"
    and ti: "map (principal_id \<circ> snd) toks = map fst relay" by (simp_all add: toks_def)
  have wf: "distinct (map fst toks)" "distinct (map (principal_id \<circ> snd) toks)"
    using assms(3) unfolding tf ti wf_tokens_def by blast+
  have each: "t \<noteq> [] \<and> principal_id p \<noteq> [] \<and> strip (principal_id p) = principal_id p \<and> \<not> legacy p
      \<and> (case allowed_keys p of None \<Rightarrow> True | Some ids \<Rightarrow> ids \<noteq> {} \<and> ids \<subseteq> fst ` set keys)
      \<and> (management_admin p \<longrightarrow> ?admin = [] \<and> allowed_keys p = None) \<and> t \<in> set secrets"
    if tp: "(t, p) \<in> set toks" for t p
  proof -
    from tp obtain tid tok al where r: "(tid, tok, al) \<in> set relay"
      and eq: "(t, p) = token_principal False (?admin = []) viewers (tid, tok, al)" by (auto simp: toks_def)
    from eq have t: "t = tok" and p: "principal_id p = tid" "allowed_keys p = al" "\<not> legacy p"
      "management_admin p \<longleftrightarrow> ?admin = [] \<and> al = None"
      by (auto simp: token_principal_def)
    from r assms(3) have "tid \<noteq> []" "strip tid = tid" "tok \<noteq> []" "case al of None \<Rightarrow> True | Some ids \<Rightarrow> ids \<noteq> {} \<and> ids \<subseteq> fst ` set keys"
      by (auto simp: wf_tokens_def)
    moreover from r assms(5) have "tok \<in> set secrets" by (auto simp: tokens_registered_def)
    ultimately show ?thesis using t p by simp
  qed
  have ks: "key_value c \<in> insert [] (set secrets) \<and> api_token c \<in> insert [] (set secrets)"
    if "c \<in> snd ` set keys" for c
    using assms(4) that by (auto simp: keys_registered_def)
  have secs: "secrets_of_store s \<subseteq> set secrets'"
    if tok: "fst ` set (tokens s) \<subseteq> set secrets'" and kk: "kaggle_keys s = keys"
      and mono: "set secrets \<subseteq> set secrets'"
  proof
    fix v assume v: "v \<in> secrets_of_store s"
    show "v \<in> set secrets'"
    proof (cases "v \<in> fst ` set (tokens s)")
      case True
      then show ?thesis using tok by (rule rev_subsetD)
    next
      case False
      with v obtain c where c: "c \<in> snd ` set keys" and "v = key_value c \<or> v = api_token c" and "v \<noteq> []"
        unfolding secrets_of_store_def kk by auto
      with ks [OF c] have "v \<in> set secrets" by auto
      then show ?thesis using mono by (rule rev_subsetD)
    qed
  qed
  show ?thesis
  proof (cases "?admin = []")
    case True
    then have s: "s = \<lparr>store_legacy = False, kaggle_keys = keys, tokens = toks, management_token_configured = False\<rparr>"
      and sec: "secrets' = secrets"
      using assms(1) by (simp_all add: new_store_def Let_def toks_def)
    have "wf_store s"
      using wf assms(2) each by (auto simp: wf_store_def s cong: option.case_cong)
    moreover have "secrets_of_store s \<subseteq> set secrets'"
      by (rule secs) (use each in \<open>auto simp: s sec\<close>)
    moreover have "\<forall>(t, p) \<in> set (tokens s). management_admin p \<longrightarrow> allowed_keys p = None"
      using each by (auto simp: s simp del: set_map)
    ultimately show ?thesis using True by (simp add: s)
  next
    case False
    then have s: "s = \<lparr>store_legacy = False, kaggle_keys = keys, tokens = (?admin, admin_principal) # toks,
        management_token_configured = True\<rparr>"
      and sec: "secrets' = register_secret ?admin secrets"
      and id: "management_principal_id \<notin> set (map (principal_id \<circ> snd) toks)"
      and eq: "any_equal ?admin (map fst toks) = Some False"
      using assms(1)
      by (auto simp: new_store_def Let_def toks_def list_ex_iff o_def split: if_splits option.splits bool.splits)
    from any_equal_False [OF eq] have nin: "?admin \<notin> set (map fst toks)" .
    have "wf_store s"
      unfolding wf_store_def
    proof (intro conjI)
      show "wf_keys (kaggle_keys s)" using assms(2) by (simp add: s)
      show "distinct (map fst (tokens s))" using nin wf(1) by (simp only: s select_convs list.map distinct.simps fst_conv) simp
      show "distinct (map (principal_id \<circ> snd) (tokens s))"
        using id wf(2) by (simp add: s admin_principal_def)
      show "\<forall>(t, p) \<in> set (tokens s). t \<noteq> [] \<and> principal_id p \<noteq> [] \<and> strip (principal_id p) = principal_id p \<and> \<not> legacy p
          \<and> (case allowed_keys p of None \<Rightarrow> True | Some ids \<Rightarrow> ids \<noteq> {} \<and> ids \<subseteq> fst ` set (kaggle_keys s))"
        using each False
        by (auto simp: s admin_principal_def cong: option.case_cong)
    qed
    moreover have "secrets_of_store s \<subseteq> set secrets'"
      by (rule secs) (use each False in \<open>auto simp: s sec register_secret_mono simp del: set_map\<close>)
    moreover have "\<forall>(t, p) \<in> set (tokens s). management_admin p \<longrightarrow> t = ?admin"
      using each False by (auto simp: s simp del: set_map)
    ultimately show ?thesis using False by (simp add: s)
  qed
qed

lemma from_file_new_store:
  assumes "from_file show file admin secrets = (Inr s, secrets')"
  shows "\<exists>relay keys viewers secrets0. new_store relay keys False admin viewers secrets0 = (Inr s, secrets')
    \<and> wf_keys keys \<and> wf_tokens (set (map fst keys)) relay
    \<and> keys_registered keys secrets0 \<and> tokens_registered relay secrets0"
proof -
  obtain data where doc: "file = Config (JObj data)"
    using assms by (auto simp: from_file_def split: config_file.splits json.splits)
  obtain keys s1 where k: "parse_kaggle_keys show (map_of data ''kaggle_keys'') secrets = (Inr keys, s1)"
    using assms by (auto simp: from_file_def doc split: prod.splits sum.splits)
  obtain relay s2 where r: "parse_relay_tokens show (map_of data ''relay_tokens'') (fst ` set keys) (admin \<noteq> []) s1
      = (Inr relay, s2)"
    using assms by (auto simp: from_file_def doc k split: prod.splits sum.splits)
  obtain viewers where n: "new_store relay keys False admin viewers s2 = (Inr s, secrets')"
    using assms by (auto simp: from_file_def doc k r Let_def split: option.splits if_splits)
  obtain items where "parse_keys_from show items [] secrets = (Inr keys, s1)"
    using k by (auto simp: parse_kaggle_keys_def split: option.splits json.splits if_splits)
  then have wk: "wf_keys keys" "keys_registered keys s1"
    using parse_keys_from_wf by (fastforce simp: wf_keys_def keys_registered_def)+
  obtain items' where "parse_tokens_from show (set (map fst keys)) items' [] s1 = (Inr relay, s2)"
    using r by (auto simp: parse_relay_tokens_def split: option.splits json.splits if_splits)
  then have wt: "wf_tokens (set (map fst keys)) relay \<and> tokens_registered relay s2 \<and> set s1 \<subseteq> set s2"
    by (rule parse_tokens_from_wf) (simp_all add: wf_tokens_def tokens_registered_def)
  with wk(2) have "keys_registered keys s2" by (fastforce simp: keys_registered_def)
  with n wk(1) wt show ?thesis by blast
qed

lemma from_file_sound:
  assumes "from_file show content admin secrets = (Inr s, secrets')"
  shows "wf_store s \<and> secrets_of_store s \<subseteq> set secrets' \<and> \<not> store_legacy s
    \<and> (\<forall>(t, p) \<in> set (tokens s). management_admin p \<longrightarrow>
         (if strip admin = [] then allowed_keys p = None else t = strip admin))"
proof -
  obtain relay keys viewers secrets0 where "new_store relay keys False admin viewers secrets0 = (Inr s, secrets')"
    and "wf_keys keys" "wf_tokens (set (map fst keys)) relay"
    and "keys_registered keys secrets0" "tokens_registered relay secrets0"
    using from_file_new_store [OF assms] by blast
  from new_store_wf [OF this] show ?thesis by blast
qed

lemma loaded_config_sound_aux:
  "from_file show content admin secrets = (Inr s, secrets') \<Longrightarrow> wf_store s"
  using from_file_sound by blast

section \<open>Selection\<close>

lemma key_enabled_known: "key_enabled s k \<Longrightarrow> map_of (kaggle_keys s) k \<noteq> None"
  by (auto simp: key_enabled_def split: option.splits)

lemma set_allowed_key_ids:
  "\<not> store_legacy s \<Longrightarrow> set (allowed_key_ids s p include_disabled) =
     {k \<in> fst ` set (kaggle_keys s). (case allowed_keys p of None \<Rightarrow> True | Some ks \<Rightarrow> k \<in> ks)
        \<and> (include_disabled \<or> key_enabled s k)}"
  by (auto simp: allowed_key_ids_def)

lemma enabled_allowed:
  "\<not> store_legacy s \<Longrightarrow> \<not> legacy p \<Longrightarrow> k \<in> set (allowed_key_ids s p False) \<Longrightarrow>
   allows_key p k \<and> key_enabled s k"
  by (auto simp: set_allowed_key_ids allows_key_def split: option.splits)

section \<open>Properties\<close>

text \<open>
  C36: A configuration that loads is sound: account ids, token ids and token values are unique and
  not empty, every token is restricted to a non-empty set of configured accounts or to none, only
  the administrator token manages the configuration when one is set (and only unrestricted tokens
  otherwise), and every token and credential of it is registered for redaction.
\<close>

theorem loaded_config_sound:
  assumes "from_file show content admin secrets = (Inr s, secrets')"
  shows "wf_store s \<and> secrets_of_store s \<subseteq> set secrets' \<and> \<not> store_legacy s
    \<and> (\<forall>(t, p) \<in> set (tokens s). management_admin p \<longrightarrow>
         (if strip admin = [] then allowed_keys p = None else t = strip admin))"
  using from_file_sound [OF assms] .

definition sample_config :: config_file where
  "sample_config = Config (JObj
     [(''kaggle_keys'', JArr [JObj [(''id'', JStr ''acct''), (''username'', JStr ''u''), (''key'', JStr ''kv'')]]),
      (''relay_tokens'', JArr [JObj [(''id'', JStr ''alice''), (''token'', JStr ''tok''), (''allowed_kaggle_key_ids'', JStr ''*'')],
         JObj [(''id'', JStr ''bob''), (''token'', JStr ''kot''), (''allowed_kaggle_key_ids'', JArr [JStr ''acct''])]])])"

definition sample_key :: credentials where
  "sample_key = \<lparr>cred_id = ''acct'', username = ''u'', key_value = ''kv'', api_token = [], config_dir = [],
     enabled = True, disabled_reason = []\<rparr>"

definition sample_store :: auth_store where
  "sample_store = \<lparr>store_legacy = False, kaggle_keys = [(''acct'', sample_key)],
     tokens = [(''tok'', \<lparr>principal_id = ''alice'', allowed_keys = None, legacy = False, management_admin = True, view_keys = False\<rparr>),
       (''kot'', \<lparr>principal_id = ''bob'', allowed_keys = Some {''acct''}, legacy = False, management_admin = False, view_keys = False\<rparr>)],
     management_token_configured = False\<rparr>"

lemma sample_config_loads:
  "from_file (\<lambda>_. []) sample_config [] [] = (Inr sample_store, [''kot'', ''tok'', ''kv''])"
  by code_simp

lemma loaded_config_sound_witness: "wf_store sample_store \<and> secrets_of_store sample_store \<subseteq> {''kot'', ''tok'', ''kv''}"
  using loaded_config_sound [OF sample_config_loads] by simp

text \<open>
  Authentication is exact: with credentials in ASCII, a presented token authenticates as the
  principal configured for exactly that token, and as nobody otherwise.
\<close>

theorem authentication_exact:
  assumes "is_ascii token" and "\<forall>(t, p) \<in> set (tokens s). is_ascii t \<and> t \<noteq> []"
  shows "authenticate_token s token = Returned (map_of (tokens s) token)"
proof -
  have "\<forall>(t, p) \<in> set ts. is_ascii t \<Longrightarrow> authenticate_in ts token = Returned (map_of ts token)" for ts
    by (induction ts) (auto simp: compare_digest_def assms(1))
  moreover have "map_of (tokens s) [] = None"
    using assms(2) by (auto simp: map_of_eq_None_iff)
  ultimately show ?thesis
    using assms(2) by (auto simp: authenticate_token_def)
qed

lemma authentication_exact_witness:
  "authenticate_token sample_store ''kot'' = Returned (Some (snd (tokens sample_store ! 1)))"
  by (subst authentication_exact) (simp_all add: sample_store_def is_ascii_def)

text \<open>
  A bearer token with a character outside ASCII is not refused but raises: the comparison of
  the standard library does not accept it, so the request fails with an internal error.
\<close>

theorem non_ascii_token_raises:
  assumes "\<not> is_ascii token" and "tokens s \<noteq> []"
  shows "authenticate_token s token = Raised_type_error"
proof -
  obtain t p ts where "tokens s = (t, p) # ts" using assms(2) by (cases "tokens s") auto
  moreover have "token \<noteq> []" using assms(1) by (auto simp: is_ascii_def)
  ultimately show ?thesis using assms(1) by (simp add: authenticate_token_def compare_digest_def)
qed

lemma non_ascii_token_raises_witness:
  "authenticate_token sample_store [CHR 0xE9] = Raised_type_error"
  by (rule non_ascii_token_raises) (simp_all add: is_ascii_def sample_store_def)

text \<open>
  The account chosen for a request is one the principal may use: configured, enabled and
  within its grant; a requested account is never replaced by another one.
\<close>

theorem resolved_account_granted:
  assumes "resolve_kaggle_key_id s p requested = Inr key" and "\<not> store_legacy s" and "\<not> legacy p"
  shows "map_of (kaggle_keys s) key \<noteq> None \<and> key_enabled s key \<and> allows_key p key
    \<and> (strip requested \<noteq> [] \<longrightarrow> key = strip requested)"
proof (cases "strip requested = []")
  case True
  then have "allowed_key_ids s p False = [key]"
    using assms(1,2) by (auto simp: resolve_kaggle_key_id_def Let_def split: list.splits)
  then have "key \<in> set (allowed_key_ids s p False)" by simp
  from enabled_allowed [OF assms(2,3) this] True key_enabled_known show ?thesis by blast
next
  case False
  then show ?thesis
    using assms by (auto simp: resolve_kaggle_key_id_def Let_def split: if_splits)
qed

lemma resolved_account_granted_witness:
  "resolve_kaggle_key_id sample_store (snd (tokens sample_store ! 1)) [] = Inr ''acct''
   \<and> key_enabled sample_store ''acct''"
proof -
  have r: "resolve_kaggle_key_id sample_store (snd (tokens sample_store ! 1)) [] = Inr ''acct''"
    by (simp add: resolve_kaggle_key_id_def sample_store_def allowed_key_ids_def strip_def key_enabled_def sample_key_def)
  from resolved_account_granted [OF this] r show ?thesis
    by (simp add: sample_store_def)
qed

end
