(* ===== verification/Job_Store.thy ===== *)
theory Job_Store
  imports Relay_Prelude
begin

text \<open>
  The SQLite store of jobs (\<^verbatim>\<open>app/database.py\<close>): the row of a job with its columns, the tables of
  the database, and the operations that write job rows: \<^verbatim>\<open>create_job\<close>, \<^verbatim>\<open>update_job\<close>,
  \<^verbatim>\<open>update_job_if_status\<close>, \<^verbatim>\<open>finalize_job\<close>, and the row migration of \<^verbatim>\<open>init\<close>. A table is the list of its
  rows in rowid order. The keyword arguments of an update are a list of column assignments.
  Every operation takes the reading of the clock it stamps its rows with.
\<close>

section \<open>Rows and tables\<close>

datatype job_status = Receiving | Assembling | Queued | Uploading_dataset | Waiting_dataset
  | Pushing_kernel | Waiting_kernel | Cancel_requested | Downloading_output
  | Complete | Canceled | Failed

definition terminal :: "job_status \<Rightarrow> bool" where
  "terminal s \<longleftrightarrow> s \<in> {Complete, Failed, Canceled}"

datatype scheduling_mode = Fixed | Dynamic
datatype assignment_state = Pending | Bound
datatype recheck_state = No_recheck | Scheduled | Checking | Exhausted | Blocked

record job =
  job_id :: string
  dataset_ref :: string
  kernel_ref :: string
  dataset_archive_sha256 :: string
  kernel_archive_sha256 :: string
  dataset_size :: int
  kernel_size :: int
  chunk_size :: int
  status :: job_status
  progress :: rat
  dataset_status :: string
  kernel_status :: json_text
  kaggle_output :: string
  error :: string
  payload_hash :: string
  dataset_id :: string
  identity_sha256 :: string
  run_id :: string
  run_identity_sha256 :: string
  artifact_contract :: string
  callback_token_sha256 :: string
  relay_token_id :: string
  kaggle_key_id :: string
  artifact_path :: string
  cancel_requested_at :: "time option"
  cancel_reason :: string
  created_at :: time
  updated_at :: time
  completed_at :: "time option"
  stop_details :: json_text
  dataset_recheck_state :: recheck_state
  dataset_recheck_at :: "time option"
  dataset_recheck_started_at :: "time option"
  dataset_recheck_count :: int
  dataset_recheck_failures :: int
  upload_activity_at :: "time option"
  cleaned_at :: "time option"
  cleanup_due_at :: "time option"
  reserved_bytes :: int
  queue_reason :: string
  scheduling_mode :: scheduling_mode
  assignment_state :: assignment_state
  eligible_accounts :: "string dict"
  callback_kernel_ref :: string

datatype archive_type = Dataset_archive | Kernel_archive

record chunk =
  chunk_job :: string
  chunk_type :: archive_type
  chunk_index :: int
  chunk_bytes :: int
  chunk_sha256 :: string
  chunk_created :: time

record log_row =
  log_id :: nat
  log_job :: string
  log_created :: time
  log_message :: string

record cache_row =
  cache_key :: string
  cache_ref :: string
  cache_hash :: string
  cache_status :: string
  cache_dataset_status :: string
  cache_source :: string
  cache_created :: time
  cache_updated :: time

record last_row =
  last_key :: string
  last_ref :: string
  last_hash :: string
  last_dataset_status :: string
  last_job :: string
  last_created :: time
  last_updated :: time

record relay_db =
  jobs :: "job list"
  chunks :: "chunk list"
  logs :: "log_row list"
  next_log_id :: nat
  dataset_cache :: "cache_row list"
  last_jobs :: "last_row list"
  max_logs_per_job :: nat

definition get_job :: "relay_db \<Rightarrow> string \<Rightarrow> job option" where
  "get_job db jid = find (\<lambda>j. job_id j = jid) (jobs db)"

text \<open>The primary key of the jobs table.\<close>

definition jobs_keyed :: "relay_db \<Rightarrow> bool" where
  "jobs_keyed db \<longleftrightarrow> distinct (map job_id (jobs db))"

section \<open>Column assignments\<close>

datatype assignment =
    Set_status job_status | Set_progress rat | Set_dataset_status string
  | Set_kernel_status json_text | Set_kaggle_output string | Set_error string
  | Set_dataset_ref string | Set_kernel_ref string | Set_kaggle_key_id string
  | Set_assignment_state assignment_state | Set_artifact_path string
  | Set_cancel_requested_at time | Set_cancel_reason string
  | Set_updated_at time | Set_completed_at time | Set_stop_details json_text
  | Set_recheck_state recheck_state | Set_recheck_at "time option"
  | Set_recheck_started_at time | Set_recheck_count int | Set_recheck_failures int
  | Set_cleaned_at time | Set_cleanup_due_at "time option" | Set_reserved_bytes int
  | Set_queue_reason string

fun assign :: "assignment \<Rightarrow> job \<Rightarrow> job" where
  "assign (Set_status v) j = j\<lparr>status := v\<rparr>"
| "assign (Set_progress v) j = j\<lparr>progress := v\<rparr>"
| "assign (Set_dataset_status v) j = j\<lparr>dataset_status := v\<rparr>"
| "assign (Set_kernel_status v) j = j\<lparr>kernel_status := v\<rparr>"
| "assign (Set_kaggle_output v) j = j\<lparr>kaggle_output := v\<rparr>"
| "assign (Set_error v) j = j\<lparr>error := v\<rparr>"
| "assign (Set_dataset_ref v) j = j\<lparr>dataset_ref := v\<rparr>"
| "assign (Set_kernel_ref v) j = j\<lparr>kernel_ref := v\<rparr>"
| "assign (Set_kaggle_key_id v) j = j\<lparr>kaggle_key_id := v\<rparr>"
| "assign (Set_assignment_state v) j = j\<lparr>assignment_state := v\<rparr>"
| "assign (Set_artifact_path v) j = j\<lparr>artifact_path := v\<rparr>"
| "assign (Set_cancel_requested_at v) j = j\<lparr>cancel_requested_at := Some v\<rparr>"
| "assign (Set_cancel_reason v) j = j\<lparr>cancel_reason := v\<rparr>"
| "assign (Set_updated_at v) j = j\<lparr>updated_at := v\<rparr>"
| "assign (Set_completed_at v) j = j\<lparr>completed_at := Some v\<rparr>"
| "assign (Set_stop_details v) j = j\<lparr>stop_details := v\<rparr>"
| "assign (Set_recheck_state v) j = j\<lparr>dataset_recheck_state := v\<rparr>"
| "assign (Set_recheck_at v) j = j\<lparr>dataset_recheck_at := v\<rparr>"
| "assign (Set_recheck_started_at v) j = j\<lparr>dataset_recheck_started_at := Some v\<rparr>"
| "assign (Set_recheck_count v) j = j\<lparr>dataset_recheck_count := v\<rparr>"
| "assign (Set_recheck_failures v) j = j\<lparr>dataset_recheck_failures := v\<rparr>"
| "assign (Set_cleaned_at v) j = j\<lparr>cleaned_at := Some v\<rparr>"
| "assign (Set_cleanup_due_at v) j = j\<lparr>cleanup_due_at := v\<rparr>"
| "assign (Set_reserved_bytes v) j = j\<lparr>reserved_bytes := v\<rparr>"
| "assign (Set_queue_reason v) j = j\<lparr>queue_reason := v\<rparr>"

fun assigned_status :: "assignment list \<Rightarrow> job_status option" where
  "assigned_status [] = None"
| "assigned_status (v # vs) = (case v of Set_status s \<Rightarrow> Some s | _ \<Rightarrow> assigned_status vs)"

fun assigns_completed :: "assignment list \<Rightarrow> bool" where
  "assigns_completed [] \<longleftrightarrow> False"
| "assigns_completed (v # vs) \<longleftrightarrow>
     (case v of Set_completed_at t \<Rightarrow> True | _ \<Rightarrow> assigns_completed vs)"

definition apply_values :: "assignment list \<Rightarrow> job \<Rightarrow> job" where
  "apply_values vs j = fold assign vs j"

text \<open>
  What \<^verbatim>\<open>update_job\<close> and \<^verbatim>\<open>update_job_if_status\<close> add to the assignments they are given: the time stamp,
  and for a terminal status the completion time (unless given), no reservation, no queue reason.
\<close>

definition prepare_values :: "time \<Rightarrow> assignment list \<Rightarrow> assignment list" where
  "prepare_values now vs =
     (let vs = vs @ [Set_updated_at now] in
      case assigned_status vs of
        None \<Rightarrow> vs
      | Some s \<Rightarrow>
          if terminal s
          then (if assigns_completed vs then vs else vs @ [Set_completed_at now])
               @ [Set_reserved_bytes 0, Set_queue_reason []]
          else vs)"

section \<open>Writing job rows\<close>

definition update_rows :: "(job \<Rightarrow> bool) \<Rightarrow> (job \<Rightarrow> job) \<Rightarrow> relay_db \<Rightarrow> relay_db" where
  "update_rows hit f db = db\<lparr>jobs := map (\<lambda>j. if hit j then f j else j) (jobs db)\<rparr>"

definition update_job :: "relay_db \<Rightarrow> time \<Rightarrow> string \<Rightarrow> assignment list \<Rightarrow> relay_db" where
  "update_job db now jid vs =
     (if vs = [] then db
      else update_rows (\<lambda>j. job_id j = jid) (apply_values (prepare_values now vs)) db)"

definition status_guard :: "job_status set \<Rightarrow> bool \<Rightarrow> json_text option \<Rightarrow> job \<Rightarrow> bool" where
  "status_guard expected not_canceled kstatus j \<longleftrightarrow>
     status j \<in> expected
     \<and> (case kstatus of None \<Rightarrow> True | Some k \<Rightarrow> kernel_status j = k)
     \<and> (if not_canceled then cancel_requested_at j = None else True)"

text \<open>
  One guarded UPDATE statement: the row with the key is rewritten if it satisfies the WHERE clause,
  and the row count says whether it was.
\<close>

definition cas_row ::
  "relay_db \<Rightarrow> string \<Rightarrow> (job \<Rightarrow> bool) \<Rightarrow> (job \<Rightarrow> job) \<Rightarrow> relay_db \<times> bool" where
  "cas_row db jid g f =
     (let hit = (\<lambda>j. job_id j = jid \<and> g j)
      in (update_rows hit f db, length (filter hit (jobs db)) = 1))"

definition update_job_if_status ::
  "relay_db \<Rightarrow> time \<Rightarrow> string \<Rightarrow> job_status set \<Rightarrow> bool \<Rightarrow> json_text option \<Rightarrow> assignment list
   \<Rightarrow> relay_db \<times> bool" where
  "update_job_if_status db now jid expected not_canceled kstatus vs =
     (if expected = {} \<or> vs = [] then (db, False)
      else cas_row db jid (status_guard expected not_canceled kstatus)
             (apply_values (prepare_values now vs)))"

definition insert_log :: "relay_db \<Rightarrow> time \<Rightarrow> string \<Rightarrow> string \<Rightarrow> relay_db" where
  "insert_log db now jid msg =
     db\<lparr>logs := logs db @ [\<lparr>log_id = next_log_id db, log_job = jid, log_created = now, log_message = msg\<rparr>],
        next_log_id := Suc (next_log_id db)\<rparr>"

text \<open>The details \<^verbatim>\<open>finalize_job\<close> writes for a job that ends without an observed stop reason.\<close>

definition fallback_reason :: "job_status \<Rightarrow> string" where
  "fallback_reason outcome =
     (if outcome = Complete then ''completed_unknown''
      else if outcome = Failed then ''relay_failed'' else ''user_canceled'')"

definition fallback_details :: "job_status \<Rightarrow> json" where
  "fallback_details outcome = JObj
     [(''reason'', JStr (fallback_reason outcome)), (''source'', JStr ''relay''),
      (''confidence'', JStr ''unknown''),
      (''message'', JStr ''Relay processing ended; a specific training stop reason was not observed.'')]"

definition no_details :: "json_text \<Rightarrow> bool" where
  "no_details t \<longleftrightarrow> t = Raw [] \<or> t = Raw ''{}'' \<or> t = Doc (JObj [])"

definition cancel_pending :: "job \<Rightarrow> bool" where
  "cancel_pending j \<longleftrightarrow> cancel_requested_at j \<noteq> None \<or> status j = Cancel_requested"

datatype finalize_error = Invalid_terminal_status | Status_in_values

definition finalize_status :: "job_status \<Rightarrow> job \<Rightarrow> job_status" where
  "finalize_status preferred j = (if cancel_pending j then Canceled else preferred)"

definition final_values :: "time \<Rightarrow> assignment list \<Rightarrow> assignment list" where
  "final_values now vs =
     vs @ [Set_updated_at now, Set_completed_at now, Set_reserved_bytes 0, Set_queue_reason []]"

definition final_row :: "job_status \<Rightarrow> assignment list \<Rightarrow> job \<Rightarrow> job" where
  "final_row preferred vs j = (apply_values vs j)\<lparr>status := finalize_status preferred j\<rparr>"

definition put_details :: "json_text \<Rightarrow> job \<Rightarrow> job" where
  "put_details d j = j\<lparr>stop_details := d\<rparr>"

definition record_fallback ::
  "(json \<Rightarrow> string) \<Rightarrow> time \<Rightarrow> string \<Rightarrow> job_status \<Rightarrow> relay_db \<Rightarrow> relay_db" where
  "record_fallback dumps now jid preferred db =
     (case get_job db jid of
        None \<Rightarrow> db
      | Some j \<Rightarrow>
          if \<not> terminal (status j) \<and> no_details (stop_details j)
          then let details = fallback_details (finalize_status preferred j)
            in insert_log
              (update_rows (\<lambda>r. job_id r = jid) (put_details (Doc details)) db)
              now jid (''STOP_DETAILS '' @ dumps details)
          else db)"

definition finalize_job ::
  "(json \<Rightarrow> string) \<Rightarrow> relay_db \<Rightarrow> time \<Rightarrow> string \<Rightarrow> job_status \<Rightarrow> assignment list
   \<Rightarrow> finalize_error + (relay_db \<times> job_status option)" where
  "finalize_job dumps db now jid preferred vs =
     (if \<not> terminal preferred then Inl Invalid_terminal_status
      else if assigned_status vs \<noteq> None then Inl Status_in_values
      else
        let db' = update_rows (\<lambda>r. job_id r = jid \<and> \<not> terminal (status r))
                    (final_row preferred (final_values now vs))
                    (record_fallback dumps now jid preferred db)
        in Inr (db', map_option status (get_job db' jid)))"

section \<open>Creating jobs\<close>

text \<open>
  The dictionary given to \<^verbatim>\<open>create_job\<close>; the entries it reads with a default are options.
\<close>

record job_values =
  v_job_id :: string
  v_dataset_ref :: string
  v_kernel_ref :: string
  v_dataset_archive_sha256 :: string
  v_kernel_archive_sha256 :: string
  v_dataset_size :: int
  v_kernel_size :: int
  v_chunk_size :: int
  v_payload_hash :: "string option"
  v_dataset_id :: "string option"
  v_identity_sha256 :: "string option"
  v_run_id :: "string option"
  v_run_identity_sha256 :: "string option"
  v_artifact_contract :: "string option"
  v_callback_token_sha256 :: "string option"
  v_relay_token_id :: "string option"
  v_kaggle_key_id :: "string option"
  v_reserved_bytes :: "int option"
  v_scheduling_mode :: "scheduling_mode option"
  v_assignment_state :: "assignment_state option"
  v_eligible_accounts :: "string dict option"
  v_callback_kernel_ref :: "string option"

definition or_default :: "'a \<Rightarrow> 'a option \<Rightarrow> 'a" where
  "or_default d x = (case x of None \<Rightarrow> d | Some v \<Rightarrow> v)"

definition default_contract :: "string \<Rightarrow> string \<Rightarrow> string \<Rightarrow> string \<Rightarrow> string" where
  "default_contract dsid ident rid rident =
     (if dsid \<noteq> [] \<and> ident \<noteq> [] \<and> rid \<noteq> [] \<and> rident \<noteq> [] then ''patchcore'' else ''yolo'')"

definition new_job :: "time \<Rightarrow> job_values \<Rightarrow> job" where
  "new_job stamp v = \<lparr>
     job_id = v_job_id v, dataset_ref = v_dataset_ref v, kernel_ref = v_kernel_ref v,
     dataset_archive_sha256 = v_dataset_archive_sha256 v,
     kernel_archive_sha256 = v_kernel_archive_sha256 v,
     dataset_size = v_dataset_size v, kernel_size = v_kernel_size v, chunk_size = v_chunk_size v,
     status = Receiving, progress = 0, dataset_status = [], kernel_status = Raw [],
     kaggle_output = [], error = [], payload_hash = or_default [] (v_payload_hash v),
     dataset_id = or_default [] (v_dataset_id v),
     identity_sha256 = or_default [] (v_identity_sha256 v),
     run_id = or_default [] (v_run_id v),
     run_identity_sha256 = or_default [] (v_run_identity_sha256 v),
     artifact_contract =
       (if or_default [] (v_artifact_contract v) \<noteq> [] then or_default [] (v_artifact_contract v)
        else default_contract (or_default [] (v_dataset_id v)) (or_default [] (v_identity_sha256 v))
               (or_default [] (v_run_id v)) (or_default [] (v_run_identity_sha256 v))),
     callback_token_sha256 = or_default [] (v_callback_token_sha256 v),
     relay_token_id = or_default [] (v_relay_token_id v),
     kaggle_key_id = or_default [] (v_kaggle_key_id v), artifact_path = [],
     cancel_requested_at = None, cancel_reason = [], created_at = stamp, updated_at = stamp,
     completed_at = None, stop_details = Doc (JObj []), dataset_recheck_state = No_recheck,
     dataset_recheck_at = None, dataset_recheck_started_at = None,
     dataset_recheck_count = 0, dataset_recheck_failures = 0,
     upload_activity_at = Some stamp, cleaned_at = None, cleanup_due_at = None,
     reserved_bytes = or_default 0 (v_reserved_bytes v), queue_reason = [],
     scheduling_mode = or_default Fixed (v_scheduling_mode v),
     assignment_state = or_default Bound (v_assignment_state v),
     eligible_accounts = or_default [] (v_eligible_accounts v),
     callback_kernel_ref = or_default [] (v_callback_kernel_ref v)\<rparr>"

datatype db_error = IntegrityError

definition create_job :: "relay_db \<Rightarrow> time \<Rightarrow> job_values \<Rightarrow> db_error + relay_db" where
  "create_job db now v =
     (if get_job db (v_job_id v) \<noteq> None then Inl IntegrityError
      else Inr (db\<lparr>jobs := jobs db @ [new_job now v]\<rparr>))"

section \<open>The row migration of init\<close>

definition known_contracts :: "string list" where
  "known_contracts = [''yolo'', ''patchcore'', ''patchcore_dinov2_v3'',
     ''patchcore_dinov2_251_onnx_v1'', ''patchcore_dinov2_251_onnx_v2'']"

definition migrate_contract :: "job \<Rightarrow> job" where
  "migrate_contract j =
     (if artifact_contract j \<in> set known_contracts then j
      else j\<lparr>artifact_contract :=
        default_contract (dataset_id j) (identity_sha256 j) (run_id j) (run_identity_sha256 j)\<rparr>)"

definition migrate_activity :: "time \<Rightarrow> job \<Rightarrow> job" where
  "migrate_activity now j =
     (if upload_activity_at j = None then j\<lparr>upload_activity_at := Some now\<rparr> else j)"

definition uploaded_bytes :: "chunk list \<Rightarrow> string \<Rightarrow> int" where
  "uploaded_bytes cs jid = sum_list (map chunk_bytes (filter (\<lambda>c. chunk_job c = jid) cs))"

definition migrate_reserved :: "chunk list \<Rightarrow> job \<Rightarrow> job" where
  "migrate_reserved cs j =
     (if status j = Receiving \<and> reserved_bytes j = 0
      then j\<lparr>reserved_bytes :=
        max 0 (3 * (dataset_size j + kernel_size j) - uploaded_bytes cs (job_id j))\<rparr>
      else j)"

definition migrate_row :: "time \<Rightarrow> chunk list \<Rightarrow> job \<Rightarrow> job" where
  "migrate_row now cs j = migrate_reserved cs (migrate_activity now (migrate_contract j))"

definition migrate :: "time \<Rightarrow> relay_db \<Rightarrow> relay_db" where
  "migrate now db = db\<lparr>jobs := map (migrate_row now (chunks db)) (jobs db)\<rparr>"

section \<open>What assignments do to a row\<close>

text \<open>
  The columns no update ever writes: what the client froze at creation. They identify the job, its
  inputs, its owner and its account pool.
\<close>

definition frozen :: "job \<Rightarrow> job" where
  "frozen j = j\<lparr>status := Receiving, progress := 0, dataset_status := [], kernel_status := Raw [],
     kaggle_output := [], error := [], dataset_ref := [], kernel_ref := [], kaggle_key_id := [],
     assignment_state := Bound, artifact_path := [], cancel_requested_at := None, cancel_reason := [],
     updated_at := 0, completed_at := None, stop_details := Raw [], dataset_recheck_state := No_recheck,
     dataset_recheck_at := None, dataset_recheck_started_at := None, dataset_recheck_count := 0,
     dataset_recheck_failures := 0, upload_activity_at := None, cleaned_at := None,
     cleanup_due_at := None, reserved_bytes := 0, queue_reason := []\<rparr>"

lemma frozen_assign [frame_simps]: "frozen (assign v j) = frozen j"
  by (cases v) (simp_all add: frozen_def)

lemma frozen_apply_values [frame_simps]: "frozen (apply_values vs j) = frozen j"
  unfolding apply_values_def
  by (induction vs arbitrary: j) (simp_all add: frozen_assign)

lemma frozen_job_id: "frozen j = frozen k \<Longrightarrow> job_id j = job_id k"
  by (cases j; cases k) (simp add: frozen_def)

lemma job_id_assign [simp]: "job_id (assign v j) = job_id j"
  by (cases v) simp_all

lemma job_id_apply_values [simp]: "job_id (apply_values vs j) = job_id j"
  unfolding apply_values_def by (induction vs arbitrary: j) simp_all

lemma apply_values_Nil [simp]: "apply_values [] j = j"
  by (simp add: apply_values_def)

lemma apply_values_Cons [simp]: "apply_values (v # vs) j = apply_values vs (assign v j)"
  by (simp add: apply_values_def)

lemma apply_values_append [simp]: "apply_values (us @ vs) j = apply_values vs (apply_values us j)"
  by (simp add: apply_values_def)

lemma status_apply_values: "assigned_status vs = None \<Longrightarrow> status (apply_values vs j) = status j"
proof (induction vs arbitrary: j)
  case (Cons v vs)
  then show ?case by (cases v) simp_all
qed simp

lemma assigned_status_append:
  "assigned_status (us @ vs) =
     (case assigned_status us of None \<Rightarrow> assigned_status vs | Some s \<Rightarrow> Some s)"
  by (induction us) (auto split: assignment.splits)

lemma completed_at_assign: "completed_at j \<noteq> None \<Longrightarrow> completed_at (assign v j) \<noteq> None"
  by (cases v) simp_all

lemma completed_at_apply: "completed_at j \<noteq> None \<Longrightarrow> completed_at (apply_values vs j) \<noteq> None"
proof (induction vs arbitrary: j)
  case (Cons v vs)
  have "completed_at (assign v j) \<noteq> None" by (rule completed_at_assign [OF Cons.prems])
  from Cons.IH [OF this] show ?case by simp
qed simp

lemma completed_at_assigned: "assigns_completed vs \<Longrightarrow> completed_at (apply_values vs j) \<noteq> None"
proof (induction vs arbitrary: j)
  case (Cons v vs)
  show ?case
  proof (cases "\<exists>t. v = Set_completed_at t")
    case True
    then obtain t where "v = Set_completed_at t" by blast
    then show ?thesis using completed_at_apply [of "assign v j" vs] by simp
  next
    case False
    with Cons.prems have "assigns_completed vs" by (cases v) auto
    from Cons.IH [OF this] show ?thesis by simp
  qed
qed simp

text \<open>A row that has ended holds no storage, waits for nothing and knows when it ended.\<close>

definition settled :: "job \<Rightarrow> bool" where
  "settled j \<longleftrightarrow> reserved_bytes j = 0 \<and> queue_reason j = [] \<and> completed_at j \<noteq> None"

lemma settled_prepare:
  assumes "assigned_status vs = Some s" and "terminal s"
  shows "settled (apply_values (prepare_values now vs) j)"
proof -
  let ?us = "vs @ [Set_updated_at now]"
  have "assigned_status ?us = Some s"
    using assms(1) by (simp add: assigned_status_append)
  then have eq: "prepare_values now vs =
      (if assigns_completed ?us then ?us else ?us @ [Set_completed_at now])
      @ [Set_reserved_bytes 0, Set_queue_reason []]"
    using assms(2) by (simp add: prepare_values_def Let_def)
  show ?thesis
  proof (cases "assigns_completed ?us")
    case True
    from completed_at_assigned [OF this, of j] True show ?thesis
      by (simp add: eq settled_def)
  next
    case False
    then show ?thesis by (simp add: eq settled_def)
  qed
qed

section \<open>The store as a guarded table\<close>

text \<open>
  The contract the handlers rely on: reading a row after a guarded update gives the updated row if
  the guard held and the old one otherwise, other rows are untouched, and the answer says whether
  the guard held.
\<close>

locale guarded_store =
  fixes get :: "'db \<Rightarrow> 'k \<Rightarrow> 'r option"
    and cas :: "'db \<Rightarrow> 'k \<Rightarrow> ('r \<Rightarrow> bool) \<Rightarrow> ('r \<Rightarrow> 'r) \<Rightarrow> 'db \<times> bool"
    and keeps :: "('r \<Rightarrow> 'r) \<Rightarrow> bool"
    and wf :: "'db \<Rightarrow> bool"
  assumes get_same: "keeps f \<Longrightarrow>
      get (fst (cas db k g f)) k = map_option (\<lambda>r. if g r then f r else r) (get db k)"
    and get_other: "keeps f \<Longrightarrow> k' \<noteq> k \<Longrightarrow> get (fst (cas db k g f)) k' = get db k'"
    and succeeds: "wf db \<Longrightarrow> snd (cas db k g f) \<longleftrightarrow> (\<exists>r. get db k = Some r \<and> g r)"
    and wf_cas: "wf db \<Longrightarrow> keeps f \<Longrightarrow> wf (fst (cas db k g f))"
begin

lemma fresh:
  "keeps f \<Longrightarrow> wf db \<Longrightarrow> get db k = Some r \<Longrightarrow> g r \<Longrightarrow>
   snd (cas db k g f) \<and> get (fst (cas db k g f)) k = Some (f r)"
  by (simp add: get_same succeeds)

lemma sticky:
  "keeps f \<Longrightarrow> get db k = Some r \<Longrightarrow> \<not> g r \<Longrightarrow> get (fst (cas db k g f)) k = Some r"
  by (simp add: get_same)

lemma lost:
  assumes "keeps f" and "wf db" and "\<not> snd (cas db k g f)"
  shows "get (fst (cas db k g f)) x = get db x"
proof (cases "x = k")
  case True
  from assms(2,3) have "\<forall>r. get db k = Some r \<longrightarrow> \<not> g r" by (simp add: succeeds)
  with True assms(1) show ?thesis by (cases "get db k") (simp_all add: get_same)
qed (simp add: assms(1) get_other)

text \<open>A predicate that excludes the guard is stable for the rows that satisfy it.\<close>

lemma stable:
  assumes "keeps f" and "\<And>r. S r \<Longrightarrow> \<not> g r" and "get db x = Some r" and "S r"
  shows "get (fst (cas db k g f)) x = Some r"
  using assms by (cases "x = k") (simp_all add: get_same get_other)

end

definition keeps_key :: "(job \<Rightarrow> job) \<Rightarrow> bool" where
  "keeps_key f \<longleftrightarrow> (\<forall>j. job_id (f j) = job_id j)"

lemma keeps_key_apply [simp, intro]: "keeps_key (apply_values vs)"
  by (simp add: keeps_key_def)

lemma get_update_rows:
  "keeps_key f \<Longrightarrow> get_job (update_rows hit f db) jid =
     map_option (\<lambda>j. if hit j then f j else j) (get_job db jid)"
  by (simp add: get_job_def update_rows_def keeps_key_def find_map_same_key [where key = job_id])

lemma jobs_keyed_update_rows [frame_simps]:
  "keeps_key f \<Longrightarrow> jobs_keyed (update_rows hit f db) = jobs_keyed db"
proof -
  assume "keeps_key f"
  then have "job_id \<circ> (\<lambda>j. if hit j then f j else j) = job_id"
    by (auto simp: keeps_key_def)
  then show ?thesis by (simp add: jobs_keyed_def update_rows_def)
qed

lemma get_job_SomeD: "get_job db jid = Some j \<Longrightarrow> j \<in> set (jobs db) \<and> job_id j = jid"
  by (auto simp: get_job_def dest: find_SomeD)

interpretation store: guarded_store get_job cas_row keeps_key jobs_keyed
proof unfold_locales
  fix f db k g
  assume f: "keeps_key f"
  have "map_option (\<lambda>j. if job_id j = k \<and> g j then f j else j) (get_job db k)
      = map_option (\<lambda>j. if g j then f j else j) (get_job db k)"
    by (cases "get_job db k") (auto dest: get_job_SomeD)
  with f show "get_job (fst (cas_row db k g f)) k
      = map_option (\<lambda>r. if g r then f r else r) (get_job db k)"
    by (simp add: cas_row_def Let_def get_update_rows)
next
  fix f db k g k'
  assume "keeps_key f" and "k' \<noteq> (k :: string)"
  then show "get_job (fst (cas_row db k g f)) k' = get_job db k'"
    by (cases "get_job db k'") (auto simp: cas_row_def Let_def get_update_rows dest: get_job_SomeD)
next
  fix db k g f
  assume "jobs_keyed db"
  then show "snd (cas_row db k g f) \<longleftrightarrow> (\<exists>r. get_job db k = Some r \<and> g r)"
    by (auto simp: cas_row_def Let_def jobs_keyed_def get_job_def
        find_key_filter [where key = job_id] split: option.splits)
next
  fix db f k g
  assume "jobs_keyed db" and "keeps_key f"
  then show "jobs_keyed (fst (cas_row db k g f))"
    by (simp add: cas_row_def Let_def jobs_keyed_update_rows)
qed

section \<open>Reading after a write\<close>

lemma get_update_job:
  "get_job (update_job db now jid vs) k =
     (if k = jid \<and> vs \<noteq> []
      then map_option (apply_values (prepare_values now vs)) (get_job db k) else get_job db k)"
  by (cases "get_job db k") (auto simp: update_job_def get_update_rows dest: get_job_SomeD)

lemma get_update_job_if_status:
  "get_job (fst (update_job_if_status db now jid expected nc ks vs)) k =
     (if k = jid \<and> expected \<noteq> {} \<and> vs \<noteq> []
      then map_option (\<lambda>j. if status_guard expected nc ks j
             then apply_values (prepare_values now vs) j else j) (get_job db k)
      else get_job db k)"
  by (auto simp: update_job_if_status_def store.get_same store.get_other)

lemma update_job_if_status_ok:
  "jobs_keyed db \<Longrightarrow> snd (update_job_if_status db now jid expected nc ks vs) \<longleftrightarrow>
     vs \<noteq> [] \<and> (\<exists>j. get_job db jid = Some j \<and> status_guard expected nc ks j)"
  by (auto simp: update_job_if_status_def store.succeeds status_guard_def)

lemma get_insert_log [simp]: "get_job (insert_log db now jid msg) k = get_job db k"
  by (simp add: insert_log_def get_job_def)

lemma keyed_insert_log [simp]: "jobs_keyed (insert_log db now jid msg) = jobs_keyed db"
  by (simp add: insert_log_def jobs_keyed_def)

lemma keyed_update_job [simp]: "jobs_keyed (update_job db now jid vs) = jobs_keyed db"
  by (simp add: update_job_def jobs_keyed_update_rows)

lemma keyed_update_job_if_status [simp]:
  "jobs_keyed (fst (update_job_if_status db now jid expected nc ks vs)) = jobs_keyed db"
  by (simp add: update_job_if_status_def cas_row_def Let_def jobs_keyed_update_rows)

lemma put_details_simps [simp]:
  "keeps_key (put_details d)" "job_id (put_details d j) = job_id j"
  "status (put_details d j) = status j"
  "cancel_requested_at (put_details d j) = cancel_requested_at j"
  "stop_details (put_details d j) = d"
  by (simp_all add: keeps_key_def put_details_def)

lemma final_row_simps [simp]:
  "keeps_key (final_row preferred vs)" "job_id (final_row preferred vs j) = job_id j"
  "status (final_row preferred vs j) = finalize_status preferred j"
  by (simp_all add: keeps_key_def final_row_def)

lemma finalize_status_put [simp]: "finalize_status preferred (put_details d j) = finalize_status preferred j"
  by (simp add: finalize_status_def cancel_pending_def)

lemma frozen_put_details [frame_simps]: "frozen (put_details d j) = frozen j"
  by (simp add: put_details_def frozen_def)

lemma frozen_final_row [frame_simps]: "frozen (final_row preferred vs j) = frozen j"
proof -
  have "frozen (r\<lparr>status := s\<rparr>) = frozen r" for r s by (simp add: frozen_def)
  then show ?thesis by (simp add: final_row_def frozen_apply_values)
qed

lemma settled_final_row [simp]: "settled (final_row preferred (final_values now vs) j)"
  by (simp add: settled_def final_row_def final_values_def)

lemma completed_final_row [simp]:
  "completed_at (final_row preferred (final_values now vs) j) = Some now"
  by (simp add: final_row_def final_values_def)

lemma stop_details_apply_values:
  "\<forall>v \<in> set vs. \<forall>d. v \<noteq> Set_stop_details d \<Longrightarrow> stop_details (apply_values vs j) = stop_details j"
proof (induction vs arbitrary: j)
  case (Cons v vs)
  then have "stop_details (assign v j) = stop_details j" by (cases v) auto
  with Cons show ?case by simp
qed simp

lemma stop_details_final_row:
  assumes "\<forall>v \<in> set vs. \<forall>d. v \<noteq> Set_stop_details d"
  shows "stop_details (final_row preferred (final_values now vs) j) = stop_details j"
proof -
  have "stop_details (apply_values (final_values now vs) j) = stop_details j"
    by (rule stop_details_apply_values) (use assms in \<open>auto simp: final_values_def\<close>)
  then show ?thesis by (simp add: final_row_def)
qed

text \<open>The row after \<^verbatim>\<open>finalize_job\<close>, on the row before.\<close>

definition finalized :: "time \<Rightarrow> job_status \<Rightarrow> assignment list \<Rightarrow> job \<Rightarrow> job" where
  "finalized now preferred vs j =
     (if terminal (status j) then j
      else final_row preferred (final_values now vs)
        (if no_details (stop_details j)
         then put_details (Doc (fallback_details (finalize_status preferred j))) j else j))"

lemma job_id_finalized [simp]: "job_id (finalized now preferred vs j) = job_id j"
  by (simp add: finalized_def)

lemma frozen_finalized [frame_simps]: "frozen (finalized now preferred vs j) = frozen j"
  by (simp add: finalized_def frozen_final_row frozen_put_details)

lemma get_record_fallback:
  "get_job (record_fallback dumps now jid preferred db) k =
     map_option (\<lambda>j. if k = jid \<and> \<not> terminal (status j) \<and> no_details (stop_details j)
       then put_details (Doc (fallback_details (finalize_status preferred j))) j else j) (get_job db k)"
proof (cases "get_job db k")
  case (Some r)
  then have id: "job_id r = k" by (auto dest: get_job_SomeD)
  show ?thesis
  proof (cases "k = jid")
    case True
    with Some id show ?thesis by (simp add: record_fallback_def Let_def get_update_rows)
  next
    case False
    with Some id show ?thesis
      by (cases "get_job db jid") (simp_all add: record_fallback_def Let_def get_update_rows)
  qed
qed (cases "get_job db jid"; simp add: record_fallback_def Let_def get_update_rows)

lemma keyed_record_fallback [simp]:
  "jobs_keyed (record_fallback dumps now jid preferred db) = jobs_keyed db"
  by (simp add: record_fallback_def Let_def jobs_keyed_update_rows split: option.splits)

lemma finalize_ok_iff:
  "(\<exists>r. finalize_job dumps db now jid preferred vs = Inr r) \<longleftrightarrow>
     terminal preferred \<and> assigned_status vs = None"
  by (simp add: finalize_job_def Let_def)

lemma finalize_db:
  "finalize_job dumps db now jid preferred vs = Inr (db', st) \<Longrightarrow>
   db' = update_rows (\<lambda>r. job_id r = jid \<and> \<not> terminal (status r))
      (final_row preferred (final_values now vs)) (record_fallback dumps now jid preferred db)
   \<and> st = map_option status (get_job db' jid)"
  by (auto simp: finalize_job_def Let_def split: if_splits)

lemma get_finalize:
  assumes "finalize_job dumps db now jid preferred vs = Inr (db', st)"
  shows "get_job db' k = (if k = jid then map_option (finalized now preferred vs) (get_job db k)
      else get_job db k)"
proof (cases "get_job db k")
  case (Some r)
  then have "job_id r = k" by (auto dest: get_job_SomeD)
  with Some finalize_db [OF assms] show ?thesis
    by (cases "k = jid") (auto simp: get_update_rows get_record_fallback finalized_def)
qed (use finalize_db [OF assms] in \<open>auto simp: get_update_rows get_record_fallback\<close>)

lemmas finalize_status_result = finalize_db [THEN conjunct2]

lemma finalize_keyed:
  "finalize_job dumps db now jid preferred vs = Inr (db', st) \<Longrightarrow> jobs_keyed db' = jobs_keyed db"
  using finalize_db [of dumps db now jid preferred vs db' st] by (simp add: jobs_keyed_update_rows)

section \<open>A sample job\<close>

text \<open>Concrete rows on which the witnesses evaluate the operations.\<close>

definition sample_values :: job_values where
  "sample_values = \<lparr>
     v_job_id = ''j'', v_dataset_ref = ''u/d'', v_kernel_ref = ''u/k'',
     v_dataset_archive_sha256 = ''aa'', v_kernel_archive_sha256 = ''bb'',
     v_dataset_size = 10, v_kernel_size = 4, v_chunk_size = 4,
     v_payload_hash = None, v_dataset_id = None, v_identity_sha256 = None, v_run_id = None,
     v_run_identity_sha256 = None, v_artifact_contract = None, v_callback_token_sha256 = None,
     v_relay_token_id = Some ''t'', v_kaggle_key_id = Some ''acct'', v_reserved_bytes = Some 42,
     v_scheduling_mode = None, v_assignment_state = None, v_eligible_accounts = None,
     v_callback_kernel_ref = None\<rparr>"

definition sample_job :: job where
  "sample_job = new_job 0 sample_values"

definition sample_db :: "job list \<Rightarrow> relay_db" where
  "sample_db js = \<lparr>jobs = js, chunks = [], logs = [], next_log_id = 0, dataset_cache = [],
     last_jobs = [], max_logs_per_job = 2000\<rparr>"

lemma sample_job_simps [simp]:
  "job_id sample_job = ''j''" "status sample_job = Receiving" "stop_details sample_job = Doc (JObj [])"
  "cancel_requested_at sample_job = None" "kaggle_key_id sample_job = ''acct''"
  "relay_token_id sample_job = ''t''" "assignment_state sample_job = Bound"
  "scheduling_mode sample_job = Fixed" "reserved_bytes sample_job = 42"
  "dataset_ref sample_job = ''u/d''" "kernel_ref sample_job = ''u/k''" "error sample_job = []"
  "created_at sample_job = 0" "dataset_size sample_job = 10" "kernel_size sample_job = 4"
  "eligible_accounts sample_job = []" "completed_at sample_job = None"
  by (simp_all add: sample_job_def new_job_def sample_values_def or_default_def)

lemma get_sample [simp]:
  "get_job (sample_db (j # js)) k = (if job_id j = k then Some j else get_job (sample_db js) k)"
  "get_job (sample_db []) k = None" "jobs (sample_db js) = js"
  by (simp_all add: get_job_def sample_db_def)

section \<open>Properties\<close>

text \<open>
  A job that has reached a terminal status keeps its whole row through \<^verbatim>\<open>finalize_job\<close>,
  whatever outcome is asked for, and the caller is told the status the job already has.
\<close>

theorem finalize_keeps_terminal:
  assumes "finalize_job dumps db now jid preferred vs = Inr (db', st)"
    and "get_job db jid = Some j" and "terminal (status j)"
  shows "get_job db' jid = Some j \<and> st = Some (status j)"
  using get_finalize [OF assms(1), of jid] finalize_status_result [OF assms(1)] assms(2,3)
  by (simp add: finalized_def)

lemma finalize_keeps_terminal_witness:
  "\<exists>db' st. finalize_job (\<lambda>_. []) (sample_db [sample_job\<lparr>status := Complete\<rparr>]) 9 ''j'' Failed
        [Set_error ''late''] = Inr (db', st)
     \<and> get_job db' ''j'' = Some (sample_job\<lparr>status := Complete\<rparr>) \<and> st = Some Complete"
proof -
  let ?db = "sample_db [sample_job\<lparr>status := Complete\<rparr>]"
  obtain db' st where fin: "finalize_job (\<lambda>_. []) ?db 9 ''j'' Failed [Set_error ''late''] = Inr (db', st)"
    using finalize_ok_iff [of "\<lambda>_. []" ?db 9 "''j''" Failed "[Set_error ''late'']"]
    by (auto simp: terminal_def)
  show ?thesis
    using finalize_keeps_terminal [OF fin, of "sample_job\<lparr>status := Complete\<rparr>"] fin
    by (simp add: terminal_def)
qed

text \<open>
  A job that has not ended is ended by \<^verbatim>\<open>finalize_job\<close>: as canceled if a cancellation was
  requested and otherwise as asked for; its storage is released, its queue reason cleared, its
  completion stamped, and it carries stop details. Every other job keeps its row.
\<close>

theorem finalize_settles:
  assumes "finalize_job dumps db now jid preferred vs = Inr (db', st)"
    and "get_job db jid = Some j" and "\<not> terminal (status j)"
    and "\<forall>v \<in> set vs. \<forall>d. v \<noteq> Set_stop_details d"
  shows "(\<exists>j'. get_job db' jid = Some j' \<and> settled j'
        \<and> status j' = (if cancel_pending j then Canceled else preferred)
        \<and> completed_at j' = Some now \<and> \<not> no_details (stop_details j') \<and> frozen j' = frozen j
        \<and> st = Some (status j'))
    \<and> (\<forall>k. k \<noteq> jid \<longrightarrow> get_job db' k = get_job db k)"
proof -
  have some: "\<not> no_details (Doc (fallback_details s))" for s
    by (simp add: no_details_def fallback_details_def)
  let ?j = "finalized now preferred vs j"
  have j': "get_job db' jid = Some ?j"
    using get_finalize [OF assms(1), of jid] assms(2) by simp
  have "status ?j = (if cancel_pending j then Canceled else preferred)"
    using assms(3) by (simp add: finalized_def) (simp add: finalize_status_def)
  moreover have "settled ?j" and "completed_at ?j = Some now"
    using assms(3) by (simp_all add: finalized_def)
  moreover have "\<not> no_details (stop_details ?j)"
    using assms(3) some by (simp add: finalized_def stop_details_final_row [OF assms(4)])
  moreover have "k \<noteq> jid \<Longrightarrow> get_job db' k = get_job db k" for k
    using get_finalize [OF assms(1), of k] by simp
  ultimately show ?thesis
    using j' finalize_status_result [OF assms(1)] by (auto simp: frozen_finalized)
qed

lemma finalize_settles_witness:
  "\<exists>db' st j'. finalize_job (\<lambda>_. []) (sample_db [sample_job\<lparr>status := Cancel_requested\<rparr>]) 9 ''j''
        Complete [Set_progress 1] = Inr (db', st)
     \<and> get_job db' ''j'' = Some j' \<and> settled j' \<and> status j' = Canceled \<and> st = Some Canceled"
proof -
  let ?j = "sample_job\<lparr>status := Cancel_requested\<rparr>"
  let ?db = "sample_db [?j]"
  obtain db' st where fin: "finalize_job (\<lambda>_. []) ?db 9 ''j'' Complete [Set_progress 1] = Inr (db', st)"
    using finalize_ok_iff [of "\<lambda>_. []" ?db 9 "''j''" Complete "[Set_progress 1]"]
    by (auto simp: terminal_def)
  show ?thesis
    using finalize_settles [OF fin, of ?j] fin
    by (auto simp: terminal_def cancel_pending_def)
qed

datatype update =
    Update_job time string "assignment list"
  | Update_if time string "job_status set" bool "json_text option" "assignment list"
  | Finalize time string job_status "assignment list"

fun run_update :: "(json \<Rightarrow> string) \<Rightarrow> update \<Rightarrow> relay_db \<Rightarrow> relay_db" where
  "run_update dumps (Update_job now jid vs) db = update_job db now jid vs"
| "run_update dumps (Update_if now jid expected nc ks vs) db =
     fst (update_job_if_status db now jid expected nc ks vs)"
| "run_update dumps (Finalize now jid preferred vs) db =
     (case finalize_job dumps db now jid preferred vs of Inl _ \<Rightarrow> db | Inr (db', _) \<Rightarrow> db')"

lemma frozen_update_if:
  "map_option frozen (get_job (fst (update_job_if_status db now jid expected nc ks vs)) k) =
     map_option frozen (get_job db k)"
proof -
  have "map_option frozen (map_option (\<lambda>j. if g j then apply_values us j else j) r) = map_option frozen r"
    for g us and r :: "job option"
    by (cases r) (simp_all add: frozen_apply_values)
  then show ?thesis by (simp add: get_update_job_if_status)
qed

lemma frozen_run_update:
  "map_option frozen (get_job (run_update dumps u db) k) = map_option frozen (get_job db k)"
proof (cases u)
  case (Update_job now jid vs)
  then show ?thesis
    by (cases "get_job db k") (auto simp: get_update_job frozen_apply_values)
next
  case (Update_if now jid expected nc ks vs)
  then show ?thesis
    by (simp add: frozen_update_if)
next
  case (Finalize now jid preferred vs)
  then show ?thesis
    by (cases "finalize_job dumps db now jid preferred vs"; cases "get_job db k")
      (auto simp: get_finalize frozen_finalized)
qed

text \<open>
  What the client froze when it created the job (its id, input digests and sizes, run identity,
  artifact contract, callback secret, owner, scheduling mode and account pool) is the same after
  any sequence of the store's updates.
\<close>

theorem updates_keep_frozen:
  "map_option frozen (get_job (fold (run_update dumps) us db) k) = map_option frozen (get_job db k)"
  by (induction us arbitrary: db) (simp_all add: frozen_run_update)

lemma default_contract_known: "default_contract a b c d \<in> set known_contracts"
  by (simp add: default_contract_def known_contracts_def)

lemma migrate_contract_known: "artifact_contract (migrate_contract j) \<in> set known_contracts"
  using default_contract_known by (simp add: migrate_contract_def)

lemma migrate_keeps_contract [simp]:
  "artifact_contract (migrate_activity now j) = artifact_contract j"
  "artifact_contract (migrate_reserved cs j) = artifact_contract j"
  by (simp_all add: migrate_activity_def migrate_reserved_def)

lemma migrate_known_contract: "artifact_contract j \<in> set known_contracts \<Longrightarrow> migrate_contract j = j"
  by (simp add: migrate_contract_def)

lemma migrate_activity_some: "upload_activity_at j \<noteq> None \<Longrightarrow> migrate_activity now j = j"
  by (simp add: migrate_activity_def)

lemma migrate_reserved_activity: "upload_activity_at (migrate_reserved cs j) = upload_activity_at j"
  by (simp add: migrate_reserved_def)

lemma migrate_activity_stamped: "upload_activity_at (migrate_activity now j) \<noteq> None"
  by (simp add: migrate_activity_def)

lemma migrate_reserved_twice: "migrate_reserved cs (migrate_reserved cs j) = migrate_reserved cs j"
  by (simp add: migrate_reserved_def)

lemma migrate_row_twice: "migrate_row later cs (migrate_row now cs j) = migrate_row now cs j"
proof -
  let ?j = "migrate_activity now (migrate_contract j)"
  have "migrate_contract (migrate_reserved cs ?j) = migrate_reserved cs ?j"
    by (rule migrate_known_contract) (simp add: migrate_contract_known)
  moreover have "migrate_activity later (migrate_reserved cs ?j) = migrate_reserved cs ?j"
    by (rule migrate_activity_some) (simp only: migrate_reserved_activity migrate_activity_stamped not_False_eq_True)
  ultimately show ?thesis
    by (simp only: migrate_row_def migrate_reserved_twice)
qed

text \<open>
  The row migration that runs at every start is idempotent: once the rows have been migrated,
  another start leaves the database as it is, at whatever time.
\<close>

theorem migrate_idempotent: "migrate later (migrate now db) = migrate now db"
  by (simp add: migrate_def migrate_row_twice)

end
