(* ===== verification/Store_Queries.thy ===== *)
theory Store_Queries
  imports Job_Store
begin

text \<open>
  The remaining operations of the store (\<^verbatim>\<open>app/database.py\<close>): the listing of jobs under an
  account's visibility, chunks and the upload reservation, the bounded log of a job, the merge of
  stop evidence, the two tables of remembered datasets, and the deletion of a job's records. A
  query that the code sorts is sorted stably, so ties stay in row order.
\<close>

section \<open>Listing jobs\<close>

definition visible :: "string set option \<Rightarrow> string option \<Rightarrow> bool \<Rightarrow> job \<Rightarrow> bool" where
  "visible keys token include_unowned j \<longleftrightarrow>
     (case keys of
        None \<Rightarrow> True
      | Some ks \<Rightarrow>
          if ks = {} then False
          else kaggle_key_id j \<in> ks
            \<or> (scheduling_mode j = Dynamic \<and> assignment_state j = Pending
               \<and> list_ex (\<lambda>a. fst a \<in> ks) (eligible_accounts j)))
     \<and> (case token of
          None \<Rightarrow> True
        | Some t \<Rightarrow>
            if include_unowned then relay_token_id j = t \<or> relay_token_id j = []
            else relay_token_id j = t)"

definition job_status_counts :: "relay_db \<Rightarrow> string set option \<Rightarrow> string option \<Rightarrow> (job_status \<times> nat) list" where
  "job_status_counts db keys token =
     (let rows = filter (visible keys token False) (jobs db)
      in map (\<lambda>s. (s, length (filter (\<lambda>j. status j = s) rows))) (remdups (map status rows)))"

definition newest_first :: "job list \<Rightarrow> job list" where
  "newest_first js = sort_key (\<lambda>j. - created_at j) js"

definition search_match :: "string \<Rightarrow> job \<Rightarrow> bool" where
  "search_match search j \<longleftrightarrow>
     strip search = []
     \<or> list_ex (\<lambda>field. contains (lower (strip search)) (lower field))
         [job_id j, dataset_ref j, kernel_ref j, kaggle_key_id j, error j]"

definition safe_limit :: "int \<Rightarrow> nat" where
  "safe_limit limit = nat (max 1 (min limit 200))"

definition listing_match ::
  "string set option \<Rightarrow> string option \<Rightarrow> job_status set option \<Rightarrow> bool \<Rightarrow> string \<Rightarrow> job \<Rightarrow> bool" where
  "listing_match keys token statuses include_unowned search j \<longleftrightarrow>
     visible keys token include_unowned j \<and> search_match search j
     \<and> (case statuses of None \<Rightarrow> True | Some st \<Rightarrow> status j \<in> st)"

definition list_jobs ::
  "relay_db \<Rightarrow> string set option \<Rightarrow> string option \<Rightarrow> job_status set option \<Rightarrow> bool \<Rightarrow> int \<Rightarrow> string
   \<Rightarrow> job list" where
  "list_jobs db keys token statuses include_unowned limit search =
     take (safe_limit limit)
       (newest_first
         (filter (listing_match keys token statuses include_unowned search) (jobs db)))"

definition get_jobs_by_kernel_ref ::
  "relay_db \<Rightarrow> string \<Rightarrow> string set option \<Rightarrow> string option \<Rightarrow> bool \<Rightarrow> nat \<Rightarrow> bool \<Rightarrow> job list" where
  "get_jobs_by_kernel_ref db ref keys token include_unowned limit include_callback_alias =
     take limit
       (newest_first
         (filter (\<lambda>j.
              (kernel_ref j = ref
               \<or> (include_callback_alias \<and> scheduling_mode j = Dynamic \<and> callback_kernel_ref j = ref))
              \<and> (case keys of None \<Rightarrow> True | Some ks \<Rightarrow> kaggle_key_id j \<in> ks)
              \<and> (case token of
                   None \<Rightarrow> True
                 | Some t \<Rightarrow>
                     if include_unowned then relay_token_id j = t \<or> relay_token_id j = []
                     else relay_token_id j = t)) (jobs db)))"

definition get_latest_job_by_kernel_ref ::
  "relay_db \<Rightarrow> string \<Rightarrow> string set option \<Rightarrow> string option \<Rightarrow> bool \<Rightarrow> job option" where
  "get_latest_job_by_kernel_ref db ref keys token include_unowned =
     (case get_jobs_by_kernel_ref db ref keys token include_unowned 1 False of
        [] \<Rightarrow> None | j # _ \<Rightarrow> Some j)"

definition list_jobs_by_status :: "relay_db \<Rightarrow> job_status set \<Rightarrow> job list" where
  "list_jobs_by_status db statuses = sort_key created_at (filter (\<lambda>j. status j \<in> statuses) (jobs db))"

lemma set_newest_first [simp]: "set (newest_first js) = set js"
  by (simp add: newest_first_def)

lemma length_newest_first [simp]: "length (newest_first js) = length js"
  by (simp add: newest_first_def)

lemma set_list_jobs_by_status [simp]:
  "set (list_jobs_by_status db statuses) = {j \<in> set (jobs db). status j \<in> statuses}"
  by (auto simp: list_jobs_by_status_def)

section \<open>Chunks and the upload reservation\<close>

definition is_chunk :: "string \<Rightarrow> archive_type \<Rightarrow> int \<Rightarrow> chunk \<Rightarrow> bool" where
  "is_chunk jid ty i c \<longleftrightarrow> chunk_job c = jid \<and> chunk_type c = ty \<and> chunk_index c = i"

definition get_chunk :: "relay_db \<Rightarrow> string \<Rightarrow> archive_type \<Rightarrow> int \<Rightarrow> chunk option" where
  "get_chunk db jid ty i = find (is_chunk jid ty i) (chunks db)"

definition chunks_for :: "relay_db \<Rightarrow> string \<Rightarrow> archive_type \<Rightarrow> chunk list" where
  "chunks_for db jid ty =
     sort_key chunk_index (filter (\<lambda>c. chunk_job c = jid \<and> chunk_type c = ty) (chunks db))"

definition accepted_chunks :: "relay_db \<Rightarrow> string \<Rightarrow> int list \<times> int list" where
  "accepted_chunks db jid =
     (map chunk_index (chunks_for db jid Dataset_archive),
      map chunk_index (chunks_for db jid Kernel_archive))"

text \<open>The primary key of the chunks table.\<close>

definition chunks_keyed :: "relay_db \<Rightarrow> bool" where
  "chunks_keyed db \<longleftrightarrow> distinct (map (\<lambda>c. (chunk_job c, chunk_type c, chunk_index c)) (chunks db))"

definition growth :: "relay_db \<Rightarrow> string \<Rightarrow> archive_type \<Rightarrow> int \<Rightarrow> int \<Rightarrow> int" where
  "growth db jid ty i sz =
     max 0 (sz - (case get_chunk db jid ty i of None \<Rightarrow> 0 | Some c \<Rightarrow> chunk_bytes c))"

definition consume_reservation :: "time \<Rightarrow> int \<Rightarrow> job \<Rightarrow> job" where
  "consume_reservation now n j =
     j\<lparr>upload_activity_at := Some now, updated_at := now, reserved_bytes := max 0 (reserved_bytes j - n)\<rparr>"

definition add_chunk ::
  "relay_db \<Rightarrow> time \<Rightarrow> string \<Rightarrow> archive_type \<Rightarrow> int \<Rightarrow> int \<Rightarrow> string \<Rightarrow> relay_db" where
  "add_chunk db now jid ty i sz sha =
     update_rows (\<lambda>j. job_id j = jid) (consume_reservation now (growth db jid ty i sz))
       (db\<lparr>chunks := filter (\<lambda>c. \<not> is_chunk jid ty i c) (chunks db)
          @ [\<lparr>chunk_job = jid, chunk_type = ty, chunk_index = i, chunk_bytes = sz, chunk_sha256 = sha,
              chunk_created = now\<rparr>]\<rparr>)"

definition touch_upload :: "relay_db \<Rightarrow> time \<Rightarrow> string \<Rightarrow> relay_db" where
  "touch_upload db now jid =
     update_rows (\<lambda>j. job_id j = jid \<and> status j = Receiving) (\<lambda>j. j\<lparr>upload_activity_at := Some now\<rparr>) db"

definition total_reserved_bytes :: "relay_db \<Rightarrow> string \<Rightarrow> int" where
  "total_reserved_bytes db excluding =
     sum_list (map reserved_bytes (filter (\<lambda>j. job_id j \<noteq> excluding) (jobs db)))"

definition stale_receiving :: "relay_db \<Rightarrow> time \<Rightarrow> time \<Rightarrow> string list" where
  "stale_receiving db cutoff created_cutoff =
     map job_id (filter (\<lambda>j. status j = Receiving
        \<and> ((case upload_activity_at j of None \<Rightarrow> False | Some t \<Rightarrow> t < cutoff)
           \<or> created_at j \<le> created_cutoff)) (jobs db))"

definition completed_before :: "relay_db \<Rightarrow> time \<Rightarrow> string list" where
  "completed_before db cutoff =
     map job_id (filter (\<lambda>j.
        (case completed_at j of None \<Rightarrow> False | Some t \<Rightarrow> t < cutoff \<or> cleanup_due_at j \<noteq> None)
        \<and> cleaned_at j = None) (jobs db))"

section \<open>The bounded log of a job\<close>

definition job_logs :: "relay_db \<Rightarrow> string \<Rightarrow> log_row list" where
  "job_logs db jid = filter (\<lambda>l. log_job l = jid) (logs db)"

definition oldest_kept :: "relay_db \<Rightarrow> string \<Rightarrow> nat option" where
  "oldest_kept db jid =
     (case drop (max_logs_per_job db - 1) (rev (sort (map log_id (job_logs db jid)))) of
        [] \<Rightarrow> None | i # _ \<Rightarrow> Some i)"

definition trim_job_logs :: "string \<Rightarrow> relay_db \<Rightarrow> relay_db" where
  "trim_job_logs jid db =
     (case oldest_kept db jid of
        None \<Rightarrow> db
      | Some i \<Rightarrow> db\<lparr>logs := filter (\<lambda>l. \<not> (log_job l = jid \<and> log_id l < i)) (logs db)\<rparr>)"

definition append_log :: "relay_db \<Rightarrow> time \<Rightarrow> string \<Rightarrow> string \<Rightarrow> relay_db" where
  "append_log db now jid msg = trim_job_logs jid (insert_log db now jid msg)"

definition trim_logs :: "relay_db \<Rightarrow> relay_db" where
  "trim_logs db = fold trim_job_logs (remdups (map log_job (logs db))) db"

definition recent_logs :: "relay_db \<Rightarrow> string \<Rightarrow> nat \<Rightarrow> string list" where
  "recent_logs db jid limit =
     rev (map log_message (take limit (rev (sort_key log_id (job_logs db jid)))))"

section \<open>The tables of remembered datasets\<close>

definition cache_key_of :: "cache_row \<Rightarrow> string \<times> string \<times> string" where
  "cache_key_of r = (cache_key r, cache_ref r, cache_hash r)"

definition get_dataset_cache :: "relay_db \<Rightarrow> string \<Rightarrow> string \<Rightarrow> string \<Rightarrow> cache_row option" where
  "get_dataset_cache db ref ph key =
     (if ph = [] then None else find (\<lambda>r. cache_key_of r = (key, ref, ph)) (dataset_cache db))"

definition latest :: "('r \<Rightarrow> time) \<Rightarrow> 'r list \<Rightarrow> 'r option" where
  "latest stamp rows =
     (case rev (sort_key stamp rows) of [] \<Rightarrow> None | r # _ \<Rightarrow> Some r)"

definition get_current_dataset_cache :: "relay_db \<Rightarrow> string \<Rightarrow> string \<Rightarrow> cache_row option" where
  "get_current_dataset_cache db ref key =
     latest cache_updated (filter (\<lambda>r. cache_key r = key \<and> cache_ref r = ref) (dataset_cache db))"

definition upsert :: "('r \<Rightarrow> bool) \<Rightarrow> 'r \<Rightarrow> ('r \<Rightarrow> 'r) \<Rightarrow> 'r list \<Rightarrow> 'r list" where
  "upsert same fresh merge rows =
     (if list_ex same rows then map (\<lambda>r. if same r then merge r else r) rows else rows @ [fresh])"

definition upsert_dataset_cache ::
  "relay_db \<Rightarrow> time \<Rightarrow> string \<Rightarrow> string \<Rightarrow> string \<Rightarrow> string \<Rightarrow> string \<Rightarrow> string \<Rightarrow> relay_db" where
  "upsert_dataset_cache db now ref ph st ds_status source key =
     (if ph = [] then db
      else db\<lparr>dataset_cache :=
        upsert (\<lambda>r. cache_key_of r = (key, ref, ph))
          \<lparr>cache_key = key, cache_ref = ref, cache_hash = ph, cache_status = st,
           cache_dataset_status = ds_status, cache_source = source, cache_created = now, cache_updated = now\<rparr>
          (\<lambda>r. r\<lparr>cache_status := st, cache_dataset_status := ds_status, cache_source := source,
             cache_updated := now\<rparr>)
          (dataset_cache db)\<rparr>)"

definition last_key_of :: "last_row \<Rightarrow> string \<times> string \<times> string" where
  "last_key_of r = (last_key r, last_ref r, last_hash r)"

definition get_last_dataset_job :: "relay_db \<Rightarrow> string \<Rightarrow> string \<Rightarrow> string \<Rightarrow> last_row option" where
  "get_last_dataset_job db ref ph key =
     (if ph = [] then None else find (\<lambda>r. last_key_of r = (key, ref, ph)) (last_jobs db))"

definition get_current_last_dataset_job :: "relay_db \<Rightarrow> string \<Rightarrow> string \<Rightarrow> last_row option" where
  "get_current_last_dataset_job db ref key =
     latest last_updated (filter (\<lambda>r. last_key r = key \<and> last_ref r = ref) (last_jobs db))"

definition upsert_last_dataset_job ::
  "relay_db \<Rightarrow> time \<Rightarrow> string \<Rightarrow> string \<Rightarrow> string \<Rightarrow> string \<Rightarrow> string \<Rightarrow> relay_db" where
  "upsert_last_dataset_job db now ref ph ds_status jid key =
     (if ph = [] then db
      else db\<lparr>last_jobs :=
        upsert (\<lambda>r. last_key_of r = (key, ref, ph))
          \<lparr>last_key = key, last_ref = ref, last_hash = ph, last_dataset_status = ds_status, last_job = jid,
           last_created = now, last_updated = now\<rparr>
          (\<lambda>r. r\<lparr>last_dataset_status := ds_status, last_job := jid, last_updated := now\<rparr>)
          (last_jobs db)\<rparr>)"

section \<open>Deleting a job\<close>

definition delete_job_record :: "relay_db \<Rightarrow> string \<Rightarrow> relay_db" where
  "delete_job_record db jid =
     db\<lparr>chunks := filter (\<lambda>c. chunk_job c \<noteq> jid) (chunks db),
        logs := filter (\<lambda>l. log_job l \<noteq> jid) (logs db),
        last_jobs := filter (\<lambda>r. last_job r \<noteq> jid) (last_jobs db),
        dataset_cache := map (\<lambda>r. if cache_source r = jid then r\<lparr>cache_source := []\<rparr> else r) (dataset_cache db),
        jobs := filter (\<lambda>j. job_id j \<noteq> jid) (jobs db)\<rparr>"

section \<open>Stop evidence\<close>

definition training_reasons :: "json option set" where
  "training_reasons = {Some (JStr ''early_stopping''), Some (JStr ''epochs_completed''), Some (JStr ''time_budget'')}"

definition evidence_fields :: "string list" where
  "evidence_fields = [''epoch'', ''epochs'', ''best_epoch'', ''patience'', ''elapsed_seconds'']"

definition default_fields :: "json dict \<Rightarrow> json dict \<Rightarrow> json dict" where
  "default_fields source d =
     fold (\<lambda>f d. case map_of source f of None \<Rightarrow> d | Some v \<Rightarrow> setdefault f v d) evidence_fields d"

definition training_of :: "json dict \<Rightarrow> json option" where
  "training_of d = py_or (map_of d ''training_reason'') (map_of d ''reason'')"

definition late_report :: "json dict \<Rightarrow> json dict \<Rightarrow> bool" where
  "late_report previous details \<longleftrightarrow>
     map_of details ''reason'' = Some (JStr ''training_stopped'') \<and> previous \<noteq> []
     \<and> map_of previous ''reason'' \<notin>
         {Some (JStr ''training_stopped''), Some (JStr ''unknown''), Some (JStr ''monitoring_timeout''),
          Some (JStr ''status_unavailable'')}"

definition enrich_previous :: "json dict \<Rightarrow> json dict \<Rightarrow> json dict" where
  "enrich_previous previous incoming =
     (case map_of incoming ''training_reason'' of
        None \<Rightarrow> previous
      | Some t \<Rightarrow>
          if Some t \<in> training_reasons
          then default_fields incoming (setdefault ''training_reason'' t previous)
          else previous)"

definition keep_training :: "json \<Rightarrow> json dict \<Rightarrow> json dict \<Rightarrow> json dict" where
  "keep_training t previous details =
     (let details = default_fields previous (AList.update ''training_reason'' t details)
      in if map_of details ''reason'' = Some (JStr ''completed_unknown'')
            \<and> map_of previous ''confidence'' = Some (JStr ''confirmed'')
            \<and> map_of previous ''source'' \<in> {Some (JStr ''runtime''), Some (JStr ''logs'')}
         then dict_update details
           [(''reason'', t), (''source'', (case map_of previous ''source'' of Some s \<Rightarrow> s | None \<Rightarrow> JNull)),
            (''confidence'', JStr ''confirmed''),
            (''message'', JStr ''Kaggle completed; the previously recorded training stop reason is retained.'')]
         else details)"

definition merge_details :: "json dict \<Rightarrow> json dict \<Rightarrow> json dict" where
  "merge_details previous incoming =
     (let details = (if late_report previous incoming then enrich_previous previous incoming else incoming);
          training = training_of previous;
          details = (if training \<in> training_reasons \<and> training_of details = training
                     then default_fields previous details else details)
      in case training of
           None \<Rightarrow> details
         | Some t \<Rightarrow>
             if training \<in> training_reasons \<and> \<not> truthy (map_of details ''training_reason'')
                \<and> map_of details ''reason'' \<notin> training_reasons
             then keep_training t previous details
             else details)"

definition stamp_details :: "time \<Rightarrow> string \<Rightarrow> job \<Rightarrow> job" where
  "stamp_details now encoded j = j\<lparr>stop_details := Raw encoded, updated_at := now\<rparr>"

definition write_details :: "relay_db \<Rightarrow> time \<Rightarrow> string \<Rightarrow> string \<Rightarrow> job_status set option \<Rightarrow> relay_db" where
  "write_details db now jid encoded expected =
     (let r = cas_row db jid (\<lambda>j. case expected of None \<Rightarrow> True | Some st \<Rightarrow> status j \<in> st)
                (stamp_details now encoded)
      in if snd r then insert_log (fst r) now jid (''STOP_DETAILS '' @ encoded) else fst r)"

text \<open>
  \<open>dumps\<close> is \<^verbatim>\<open>json.dumps\<close>, \<open>dumps_sorted\<close> the same with sorted keys and no ASCII escapes, and \<open>redact\<close>
  is \<^verbatim>\<open>redact_secrets\<close> of \<^verbatim>\<open>app/security.py\<close>, modelled in the theory on redaction.
\<close>

definition record_stop_details ::
  "(string \<Rightarrow> json option) \<Rightarrow> (json \<Rightarrow> string) \<Rightarrow> (json \<Rightarrow> string) \<Rightarrow> (string \<Rightarrow> string) \<Rightarrow>
   relay_db \<Rightarrow> time \<Rightarrow> string \<Rightarrow> json dict \<Rightarrow> job_status set option \<Rightarrow> relay_db" where
  "record_stop_details loads dumps dumps_sorted redact db now jid incoming expected =
     (case get_job db jid of
        None \<Rightarrow> db
      | Some j \<Rightarrow>
          let previous = (if text_of dumps (stop_details j) = [] then []
                else dict_of (loads_text loads (stop_details j)));
              encoded = redact (dumps_sorted (JObj (merge_details previous incoming)))
          in if text_of dumps (stop_details j) = encoded then db
             else if expected = Some {} then db
             else write_details db now jid encoded expected)"

definition response_details :: "(string \<Rightarrow> json option) \<Rightarrow> (json \<Rightarrow> string) \<Rightarrow> job \<Rightarrow> json dict" where
  "response_details loads dumps j =
     (if text_of dumps (stop_details j) = [] then []
      else dict_of (loads_text loads (stop_details j)))"

section \<open>What the operations keep\<close>

lemma keeps_key_consume [simp]: "keeps_key (consume_reservation now n)"
  by (simp add: keeps_key_def consume_reservation_def)

lemma keeps_key_touch [simp]: "keeps_key (\<lambda>j. j\<lparr>upload_activity_at := t\<rparr>)"
  by (simp add: keeps_key_def)

lemma stamp_details_simps [simp]:
  "keeps_key (stamp_details now t)" "job_id (stamp_details now t j) = job_id j"
  "status (stamp_details now t j) = status j" "stop_details (stamp_details now t j) = Raw t"
  "cancel_requested_at (stamp_details now t j) = cancel_requested_at j"
  by (simp_all add: keeps_key_def stamp_details_def)

lemma frozen_stamp_details [frame_simps]: "frozen (stamp_details now t j) = frozen j"
  by (simp add: stamp_details_def frozen_def)

lemma get_job_same_jobs: "jobs db = jobs db' \<Longrightarrow> get_job db k = get_job db' k"
  by (simp add: get_job_def)

lemma get_job_with [simp]:
  "get_job (db\<lparr>chunks := cs\<rparr>) k = get_job db k" "get_job (db\<lparr>logs := ls\<rparr>) k = get_job db k"
  "get_job (db\<lparr>dataset_cache := ds\<rparr>) k = get_job db k" "get_job (db\<lparr>last_jobs := js\<rparr>) k = get_job db k"
  by (simp_all add: get_job_def)

lemma update_rows_tables [simp]:
  "chunks (update_rows hit f db) = chunks db" "logs (update_rows hit f db) = logs db"
  "dataset_cache (update_rows hit f db) = dataset_cache db" "last_jobs (update_rows hit f db) = last_jobs db"
  by (simp_all add: update_rows_def)

lemma get_trim [simp]: "get_job (trim_job_logs jid db) k = get_job db k"
  by (simp add: trim_job_logs_def split: option.splits)

lemma get_append_log [simp]: "get_job (append_log db now jid msg) k = get_job db k"
  by (simp add: append_log_def)

lemma jobs_append_log [simp]: "jobs (append_log db now jid msg) = jobs db"
  by (simp add: append_log_def trim_job_logs_def insert_log_def split: option.splits)

lemma keyed_append_log [simp]: "jobs_keyed (append_log db now jid msg) = jobs_keyed db"
  by (simp add: jobs_keyed_def)

lemma get_add_chunk:
  "get_job (add_chunk db now jid ty i sz sha) k =
     map_option (\<lambda>j. if job_id j = jid then consume_reservation now (growth db jid ty i sz) j else j)
       (get_job db k)"
  by (simp add: add_chunk_def get_update_rows)

lemma get_touch_upload:
  "get_job (touch_upload db now jid) k =
     map_option (\<lambda>j. if job_id j = jid \<and> status j = Receiving then j\<lparr>upload_activity_at := Some now\<rparr> else j)
       (get_job db k)"
  by (simp add: touch_upload_def get_update_rows)

lemma get_write_details:
  "get_job (write_details db now jid encoded expected) k =
     map_option (\<lambda>j. if k = jid \<and> (case expected of None \<Rightarrow> True | Some st \<Rightarrow> status j \<in> st)
        then stamp_details now encoded j else j) (get_job db k)"
  by (cases "k = jid"; cases "get_job db k")
    (auto simp: write_details_def Let_def store.get_same store.get_other)

definition details_text ::
  "(string \<Rightarrow> json option) \<Rightarrow> (json \<Rightarrow> string) \<Rightarrow> (json \<Rightarrow> string) \<Rightarrow> (string \<Rightarrow> string)
   \<Rightarrow> json dict \<Rightarrow> job \<Rightarrow> string" where
  "details_text loads dumps dumps_sorted redact incoming j =
     redact (dumps_sorted (JObj (merge_details (response_details loads dumps j) incoming)))"

lemma get_record_stop_details:
  "get_job (record_stop_details loads dumps dumps_sorted redact db now jid incoming expected) k =
     map_option (\<lambda>j. let encoded = details_text loads dumps dumps_sorted redact incoming j
        in if k = jid \<and> text_of dumps (stop_details j) \<noteq> encoded
              \<and> (case expected of None \<Rightarrow> True | Some st \<Rightarrow> status j \<in> st)
           then stamp_details now encoded j else j) (get_job db k)"
proof (cases "get_job db k")
  case None
  then show ?thesis
    by (cases "get_job db jid") (auto simp: record_stop_details_def Let_def get_write_details)
next
  case (Some j)
  show ?thesis
  proof (cases "k = jid")
    case True
    let ?e = "details_text loads dumps dumps_sorted redact incoming j"
    have "record_stop_details loads dumps dumps_sorted redact db now jid incoming expected =
        (if text_of dumps (stop_details j) = ?e \<or> expected = Some {} then db
         else write_details db now jid ?e expected)"
      using Some True by (simp add: record_stop_details_def details_text_def response_details_def Let_def)
    with Some True show ?thesis
      by (auto simp: get_write_details Let_def split: option.splits)
  next
    case False
    with Some show ?thesis
      by (cases "get_job db jid") (auto simp: record_stop_details_def Let_def get_write_details)
  qed
qed

section \<open>Chunk accounting\<close>

lemma sum_uploaded_other:
  "uploaded_bytes (filter (\<lambda>c. \<not> is_chunk jid ty i c) cs) jid
     = uploaded_bytes cs jid - sum_list (map chunk_bytes (filter (is_chunk jid ty i) cs))"
  by (induction cs) (auto simp: uploaded_bytes_def is_chunk_def)

lemma only_chunk:
  assumes "chunks_keyed db"
  shows "filter (is_chunk jid ty i) (chunks db) =
      (case get_chunk db jid ty i of None \<Rightarrow> [] | Some c \<Rightarrow> [c])"
proof -
  have "is_chunk jid ty i = (\<lambda>c. (chunk_job c, chunk_type c, chunk_index c) = (jid, ty, i))"
    by (auto simp: is_chunk_def)
  then show ?thesis
    using find_key_filter [where P = "\<lambda>c. True" and k = "(jid, ty, i)", OF assms [unfolded chunks_keyed_def]]
    by (simp add: get_chunk_def split: option.splits)
qed

lemma uploaded_add_chunk:
  assumes "chunks_keyed db"
  shows "uploaded_bytes (chunks (add_chunk db now jid ty i sz sha)) jid
     = uploaded_bytes (chunks db) jid + sz
       - (case get_chunk db jid ty i of None \<Rightarrow> 0 | Some c \<Rightarrow> chunk_bytes c)"
proof -
  have "uploaded_bytes (cs @ [c]) jid = uploaded_bytes cs jid + (if chunk_job c = jid then chunk_bytes c else 0)"
    for cs c by (simp add: uploaded_bytes_def)
  then show ?thesis
    by (simp add: add_chunk_def sum_uploaded_other only_chunk [OF assms] split: option.splits)
qed

section \<open>Log trimming\<close>

text \<open>Log rows are inserted with increasing ids.\<close>

definition logs_ordered :: "relay_db \<Rightarrow> bool" where
  "logs_ordered db \<longleftrightarrow> sorted_wrt (<) (map log_id (logs db)) \<and> (\<forall>l \<in> set (logs db). log_id l < next_log_id db)"

lemma logs_ordered_insert: "logs_ordered db \<Longrightarrow> logs_ordered (insert_log db now jid msg)"
  by (auto simp: logs_ordered_def insert_log_def sorted_wrt_append less_Suc_eq)

lemma logs_ordered_job: "logs_ordered db \<Longrightarrow> sorted_wrt (<) (map log_id (job_logs db jid))"
  by (simp add: logs_ordered_def job_logs_def sorted_wrt_map sorted_wrt_filter)

lemma filter_from_nth:
  assumes "sorted_wrt (<) (map log_id ls)" and "n < length ls"
  shows "filter (\<lambda>l. \<not> log_id l < log_id (ls ! n)) ls = drop n ls"
proof -
  have lt: "log_id l < log_id (ls ! n)" if "l \<in> set (take n ls)" for l
    using that assms by (auto simp: in_set_conv_nth sorted_wrt_iff_nth_less)
  have ge: "\<not> log_id l < log_id (ls ! n)" if l: "l \<in> set (drop n ls)" for l
  proof -
    from l obtain m where "m < length ls - n" and l': "l = ls ! (n + m)"
      using assms(2) by (auto simp: in_set_conv_nth)
    then have "log_id (ls ! n) < log_id (ls ! (n + m))" if "0 < m"
      using assms that by (auto simp: sorted_wrt_iff_nth_less)
    with l' show ?thesis by (cases m) auto
  qed
  have "filter P ls = filter P (take n ls) @ filter P (drop n ls)" for P
    by (metis append_take_drop_id filter_append)
  moreover have "filter (\<lambda>l. \<not> log_id l < log_id (ls ! n)) (take n ls) = []"
    using lt by (auto simp: filter_empty_conv)
  moreover have "filter (\<lambda>l. \<not> log_id l < log_id (ls ! n)) (drop n ls) = drop n ls"
    using ge by (simp add: filter_id_conv)
  ultimately show ?thesis by simp
qed

lemma oldest_kept_nth:
  assumes "logs_ordered db" and "0 < max_logs_per_job db"
  shows "oldest_kept db jid =
     (if length (job_logs db jid) < max_logs_per_job db then None
      else Some (log_id (job_logs db jid ! (length (job_logs db jid) - max_logs_per_job db))))"
proof -
  let ?ids = "map log_id (job_logs db jid)"
  have sort: "sort ?ids = ?ids"
    using logs_ordered_job [OF assms(1)] by (simp add: sorted_sort_id strict_sorted_imp_sorted)
  let ?n = "max_logs_per_job db" and ?l = "length (job_logs db jid)"
  have drop: "drop (?n - 1) (rev ?ids) = rev (take (?l - (?n - 1)) ?ids)"
    by (simp only: drop_rev length_map)
  show ?thesis
  proof (cases "?l < ?n")
    case True
    then show ?thesis using assms(2) by (simp add: oldest_kept_def sort)
  next
    case False
    then have "?l - (?n - 1) = Suc (?l - ?n)" and lt: "?l - ?n < ?l" using assms(2) by auto
    then have "rev (take (?l - (?n - 1)) ?ids) = ?ids ! (?l - ?n) # rev (take (?l - ?n) ?ids)"
      by (simp add: take_Suc_conv_app_nth)
    with drop False lt show ?thesis by (simp add: oldest_kept_def sort)
  qed
qed

lemma trim_keeps_newest:
  assumes "logs_ordered db" and "0 < max_logs_per_job db"
  shows "job_logs (trim_job_logs jid db) jid =
     drop (length (job_logs db jid) - max_logs_per_job db) (job_logs db jid)"
proof (cases "length (job_logs db jid) < max_logs_per_job db")
  case True
  then show ?thesis by (simp add: trim_job_logs_def oldest_kept_nth [OF assms])
next
  case False
  let ?ls = "job_logs db jid" and ?n = "length (job_logs db jid) - max_logs_per_job db"
  have "?n < length ?ls" using False assms(2) by linarith
  from filter_from_nth [OF logs_ordered_job [OF assms(1)] this]
  have "filter (\<lambda>l. \<not> log_id l < log_id (?ls ! ?n)) ?ls = drop ?n ?ls" .
  moreover have "job_logs (trim_job_logs jid db) jid = filter (\<lambda>l. \<not> log_id l < log_id (?ls ! ?n)) ?ls"
    using False unfolding trim_job_logs_def oldest_kept_nth [OF assms]
    by (auto simp: job_logs_def intro: filter_cong)
  ultimately show ?thesis by simp
qed

lemma trim_other_jobs:
  "k \<noteq> jid \<Longrightarrow> job_logs (trim_job_logs jid db) k = job_logs db k"
  by (auto simp: trim_job_logs_def job_logs_def intro: filter_cong split: option.splits)

section \<open>The remembered datasets as an upsert table\<close>

text \<open>
  The worker relies on the two tables to give back what was stored last under a key; entries
  without a payload hash are never stored.
\<close>

locale upsert_table =
  fixes lookup :: "'t \<Rightarrow> 'k \<Rightarrow> 'v option"
    and put :: "'k \<Rightarrow> 'v \<Rightarrow> 't \<Rightarrow> 't"
    and storable :: "'k \<Rightarrow> bool"
  assumes lookup_put: "storable k \<Longrightarrow> lookup (put k v t) x = (if x = k then Some v else lookup t x)"
    and put_unstorable: "\<not> storable k \<Longrightarrow> put k v t = t"
    and lookup_unstorable: "\<not> storable k \<Longrightarrow> lookup t k = None"
begin

lemma lookup_fold:
  "storable k \<Longrightarrow> lookup (fold (\<lambda>(k, v). put k v) kvs t) k =
     (case map_of (rev kvs) k of Some v \<Rightarrow> Some v | None \<Rightarrow> lookup t k)"
proof (induction kvs arbitrary: t)
  case (Cons kv kvs)
  obtain k' v where kv: "kv = (k', v)" by (cases kv)
  show ?case
  proof (cases "storable k'")
    case True
    with Cons show ?thesis
      by (auto simp: kv lookup_put map_add_def split: option.splits)
  next
    case False
    with Cons show ?thesis
      by (auto simp: kv put_unstorable map_add_def split: option.splits)
  qed
qed simp

end

lemma find_upsert:
  assumes "\<And>r. key (merge r) = key r" and "key fresh = k"
  shows "find (\<lambda>r. key r = k') (upsert (\<lambda>r. key r = k) fresh merge rows) =
    (if k' = k then Some (case find (\<lambda>r. key r = k) rows of Some r \<Rightarrow> merge r | None \<Rightarrow> fresh)
     else find (\<lambda>r. key r = k') rows)"
proof -
  have map: "find (\<lambda>r. key r = k') (map (\<lambda>r. if key r = k then merge r else r) rs) =
      (if k' = k then map_option merge (find (\<lambda>r. key r = k) rs) else find (\<lambda>r. key r = k') rs)" for rs
    by (induction rs) (auto simp: assms)
  have ex: "list_ex (\<lambda>r. key r = k) rs \<longleftrightarrow> find (\<lambda>r. key r = k) rs \<noteq> None" for rs
    by (induction rs) auto
  have app: "find P (xs @ [x]) = (case find P xs of Some y \<Rightarrow> Some y | None \<Rightarrow> if P x then Some x else None)"
    for P :: "'a \<Rightarrow> bool" and xs x by (induction xs) auto
  show ?thesis
  proof (cases "find (\<lambda>r. key r = k) rows")
    case None
    then show ?thesis by (auto simp: upsert_def ex app assms(2) split: option.splits)
  next
    case (Some r)
    then show ?thesis by (auto simp: upsert_def ex map)
  qed
qed

lemma cache_key_of_simps [simp]:
  "cache_key_of (r\<lparr>cache_status := a, cache_dataset_status := b, cache_source := c, cache_updated := d\<rparr>) = cache_key_of r"
  "cache_key_of \<lparr>cache_key = key, cache_ref = ref, cache_hash = ph, cache_status = a, cache_dataset_status = b,
     cache_source = c, cache_created = d, cache_updated = e\<rparr> = (key, ref, ph)"
  by (simp_all add: cache_key_of_def)

lemma last_key_of_simps [simp]:
  "last_key_of (r\<lparr>last_dataset_status := a, last_job := b, last_updated := c\<rparr>) = last_key_of r"
  "last_key_of \<lparr>last_key = key, last_ref = ref, last_hash = ph, last_dataset_status = a, last_job = b,
     last_created = c, last_updated = d\<rparr> = (key, ref, ph)"
  by (simp_all add: last_key_of_def)

type_synonym dataset_key = "string \<times> string \<times> string"

definition hashed :: "dataset_key \<Rightarrow> bool" where
  "hashed k = (case k of (_, _, ph) \<Rightarrow> ph \<noteq> [])"

definition cached_value :: "relay_db \<Rightarrow> dataset_key \<Rightarrow> (string \<times> string \<times> string) option" where
  "cached_value db k = (case k of (key, ref, ph) \<Rightarrow>
     map_option (\<lambda>r. (cache_status r, cache_dataset_status r, cache_source r)) (get_dataset_cache db ref ph key))"

definition put_cached :: "time \<Rightarrow> dataset_key \<Rightarrow> string \<times> string \<times> string \<Rightarrow> relay_db \<Rightarrow> relay_db" where
  "put_cached now k v db = (case k of (key, ref, ph) \<Rightarrow> case v of (st, ds_status, source) \<Rightarrow>
     upsert_dataset_cache db now ref ph st ds_status source key)"

interpretation cached: upsert_table cached_value "put_cached now" hashed
proof unfold_locales
  fix k :: dataset_key and v :: "string \<times> string \<times> string" and db :: relay_db and x :: dataset_key
  assume "hashed k"
  obtain key ref ph where k: "k = (key, ref, ph)" by (cases k)
  obtain st ds source where v: "v = (st, ds, source)" by (cases v)
  obtain key' ref' ph' where x: "x = (key', ref', ph')" by (cases x)
  have "find (\<lambda>r. cache_key_of r = x) (dataset_cache (put_cached now k v db)) =
    (if x = k then Some (case find (\<lambda>r. cache_key_of r = k) (dataset_cache db) of
        Some r \<Rightarrow> r\<lparr>cache_status := st, cache_dataset_status := ds, cache_source := source, cache_updated := now\<rparr>
      | None \<Rightarrow> \<lparr>cache_key = key, cache_ref = ref, cache_hash = ph, cache_status = st,
          cache_dataset_status = ds, cache_source = source, cache_created = now, cache_updated = now\<rparr>)
     else find (\<lambda>r. cache_key_of r = x) (dataset_cache db))"
    using \<open>hashed k\<close> unfolding put_cached_def k v hashed_def
    by (simp add: upsert_dataset_cache_def find_upsert [where key = cache_key_of])
  then show "cached_value (put_cached now k v db) x = (if x = k then Some v else cached_value db x)"
    using \<open>hashed k\<close>
    by (auto simp: cached_value_def get_dataset_cache_def x k v hashed_def split: option.splits)
qed (auto simp: put_cached_def cached_value_def hashed_def upsert_dataset_cache_def get_dataset_cache_def
  split: prod.splits)

definition last_value :: "relay_db \<Rightarrow> dataset_key \<Rightarrow> (string \<times> string) option" where
  "last_value db k = (case k of (key, ref, ph) \<Rightarrow>
     map_option (\<lambda>r. (last_dataset_status r, last_job r)) (get_last_dataset_job db ref ph key))"

definition put_last :: "time \<Rightarrow> dataset_key \<Rightarrow> string \<times> string \<Rightarrow> relay_db \<Rightarrow> relay_db" where
  "put_last now k v db = (case k of (key, ref, ph) \<Rightarrow> case v of (ds_status, jid) \<Rightarrow>
     upsert_last_dataset_job db now ref ph ds_status jid key)"

interpretation last: upsert_table last_value "put_last now" hashed
proof unfold_locales
  fix k :: dataset_key and v :: "string \<times> string" and db :: relay_db and x :: dataset_key
  assume "hashed k"
  obtain key ref ph where k: "k = (key, ref, ph)" by (cases k)
  obtain ds jid where v: "v = (ds, jid)" by (cases v)
  obtain key' ref' ph' where x: "x = (key', ref', ph')" by (cases x)
  have "find (\<lambda>r. last_key_of r = x) (last_jobs (put_last now k v db)) =
    (if x = k then Some (case find (\<lambda>r. last_key_of r = k) (last_jobs db) of
        Some r \<Rightarrow> r\<lparr>last_dataset_status := ds, last_job := jid, last_updated := now\<rparr>
      | None \<Rightarrow> \<lparr>last_key = key, last_ref = ref, last_hash = ph, last_dataset_status = ds, last_job = jid,
          last_created = now, last_updated = now\<rparr>)
     else find (\<lambda>r. last_key_of r = x) (last_jobs db))"
    using \<open>hashed k\<close> unfolding put_last_def k v hashed_def
    by (simp add: upsert_last_dataset_job_def find_upsert [where key = last_key_of])
  then show "last_value (put_last now k v db) x = (if x = k then Some v else last_value db x)"
    using \<open>hashed k\<close>
    by (auto simp: last_value_def get_last_dataset_job_def x k v hashed_def split: option.splits)
qed (auto simp: put_last_def last_value_def hashed_def upsert_last_dataset_job_def get_last_dataset_job_def
  split: prod.splits)

section \<open>Properties\<close>

text \<open>
  A listing returns only jobs of the table that are visible to the caller and match the search
  and the status filter, newest first, at most the clamped limit of them (never more than 200), and
  a matching job is left out only when the page is full and every listed job is at least as new.
\<close>

theorem list_jobs_spec:
  assumes "listed = list_jobs db keys token statuses uo limit search"
    and "match = listing_match keys token statuses uo search"
  shows "set listed \<subseteq> {j \<in> set (jobs db). match j}
    \<and> sorted_wrt (\<lambda>a b. created_at b \<le> created_at a) listed
    \<and> length listed = min (safe_limit limit) (length (filter match (jobs db)))
    \<and> safe_limit limit \<le> 200
    \<and> (\<forall>j \<in> {j \<in> set (jobs db). match j} - set listed.
        length listed = safe_limit limit \<and> (\<forall>k \<in> set listed. created_at j \<le> created_at k))"
proof -
  let ?n = "safe_limit limit" and ?s = "newest_first (filter match (jobs db))"
  have l: "listed = take ?n ?s"
    by (simp add: list_jobs_def assms)
  have "sorted (map (\<lambda>j. - created_at j) ?s)" by (simp add: newest_first_def)
  then have sorted: "sorted_wrt (\<lambda>a b. created_at b \<le> created_at a) ?s"
    by (simp add: sorted_wrt_map)
  have left: "length (take ?n ?s) = ?n \<and> (\<forall>k \<in> set (take ?n ?s). created_at j \<le> created_at k)"
    if j: "j \<in> set (jobs db)" "match j" "j \<notin> set (take ?n ?s)" for j
  proof -
    from j(1,2) have "j \<in> set ?s" by simp
    moreover have "set ?s = set (take ?n ?s) \<union> set (drop ?n ?s)"
      by (metis append_take_drop_id set_append)
    ultimately have d: "j \<in> set (drop ?n ?s)"
      using j(3) by blast
    then have "?n < length ?s" by (cases "?n < length ?s") auto
    moreover have "sorted_wrt (\<lambda>a b. created_at b \<le> created_at a) (take ?n ?s @ drop ?n ?s)"
      using sorted by simp
    then have "\<forall>k \<in> set (take ?n ?s). created_at j \<le> created_at k"
      using d unfolding sorted_wrt_append by blast
    ultimately show ?thesis by simp
  qed
  show ?thesis
    unfolding l
  proof (intro conjI ballI)
    show "set (take ?n ?s) \<subseteq> {j \<in> set (jobs db). match j}"
      using set_take_subset [of ?n ?s] by auto
  qed (use left sorted in \<open>auto simp: safe_limit_def sorted_wrt_take min.commute\<close>)
qed

lemma list_jobs_spec_witness:
  "\<exists>listed. listed = list_jobs (sample_db [sample_job]) (Some {''acct''}) (Some ''t'') None False 0 ''U/D''
     \<and> length listed = 1 \<and> set listed \<subseteq> {sample_job}"
proof -
  have "lower (strip ''U/D'') = ''u/d''" and "lower ''u/d'' = ''u/d''"
    by code_simp+
  then have "listing_match (Some {''acct''}) (Some ''t'') None False ''U/D'' sample_job"
    by (simp add: listing_match_def visible_def search_match_def)
  then show ?thesis
    using list_jobs_spec [OF refl refl, of "sample_db [sample_job]" "Some {''acct''}" "Some ''t''" None False 0 "''U/D''"]
    by (auto simp: safe_limit_def)
qed

lemma map_of_setdefault_other [simp]: "x \<noteq> k \<Longrightarrow> map_of (setdefault k v d) x = map_of d x"
  by (simp add: map_of_setdefault)

lemma default_fields_other:
  assumes "x \<notin> set evidence_fields"
  shows "map_of (default_fields source d) x = map_of d x"
proof -
  have "map_of (fold (\<lambda>f d. case map_of source f of None \<Rightarrow> d | Some v \<Rightarrow> setdefault f v d) fs d) x = map_of d x"
    if "x \<notin> set fs" for fs
    using that
  proof (induction fs arbitrary: d)
    case (Cons f fs)
    then show ?case by (cases "map_of source f") auto
  qed simp
  with assms show ?thesis by (simp add: default_fields_def)
qed

lemma default_fields_le: "map_of d \<subseteq>\<^sub>m map_of (default_fields source d)"
proof -
  have step: "map_of d \<subseteq>\<^sub>m map_of (setdefault f v d)" for f v and d :: "json dict"
    by (auto simp: map_le_def map_of_setdefault)
  have "map_of d \<subseteq>\<^sub>m map_of (fold (\<lambda>f d. case map_of source f of None \<Rightarrow> d | Some v \<Rightarrow> setdefault f v d) fs d)" for fs
  proof (induction fs arbitrary: d)
    case (Cons f fs)
    then show ?case
      by (cases "map_of source f") (auto intro: map_le_trans [OF step])
  qed simp
  then show ?thesis by (simp add: default_fields_def)
qed

lemma evidence_simps [simp]:
  "map_of (default_fields source d) ''reason'' = map_of d ''reason''"
  "map_of (default_fields source d) ''training_reason'' = map_of d ''training_reason''"
  by (simp_all add: default_fields_other evidence_fields_def)

lemma training_of_default [simp]: "training_of (default_fields source d) = training_of d"
  by (simp add: training_of_def)

lemma training_truthy: "t \<in> training_reasons \<Longrightarrow> truthy t"
  by (auto simp: training_reasons_def)

lemma setdefault_reason [simp]: "map_of (setdefault ''training_reason'' t d) ''reason'' = map_of d ''reason''"
  by simp

lemma keep_training_training:
  assumes "Some t \<in> training_reasons"
  shows "training_of (keep_training t previous details) = Some t"
proof -
  have "truthy (Some t)" using assms by (rule training_truthy)
  then show ?thesis
    by (simp add: keep_training_def Let_def training_of_def py_or_def dict_update_def)
qed

text \<open>
  Once a training stop has been recorded for a job, no later report makes the relay forget that
  training stopped for a known reason, whether it is an API failure, a user cancellation or a bare
  completion; a report may only name another known training reason.
\<close>

theorem training_evidence_kept:
  assumes "training_of previous \<in> training_reasons"
    and "\<not> truthy (map_of incoming ''training_reason'') \<or> map_of incoming ''training_reason'' \<in> training_reasons"
  shows "training_of (merge_details previous incoming) \<in> training_reasons"
proof -
  obtain t where t: "training_of previous = Some t" and "Some t \<in> training_reasons"
    using assms(1) by (auto simp: training_reasons_def)
  define details where "details = (if late_report previous incoming then enrich_previous previous incoming else incoming)"
  define details' where "details' = (if training_of details = Some t then default_fields previous details else details)"
  have merge: "merge_details previous incoming =
      (if \<not> truthy (map_of details' ''training_reason'') \<and> map_of details' ''reason'' \<notin> training_reasons
       then keep_training t previous details' else details')"
    using \<open>Some t \<in> training_reasons\<close>
    by (simp add: merge_details_def Let_def t details_def [symmetric] details'_def [symmetric])
  have known: "\<not> truthy (map_of details ''training_reason'') \<or> map_of details ''training_reason'' \<in> training_reasons"
  proof (cases "late_report previous incoming")
    case True
    have "\<not> truthy (map_of previous ''training_reason'') \<or> map_of previous ''training_reason'' \<in> training_reasons"
      using assms(1) by (auto simp: training_of_def py_or_def split: if_splits)
    then show ?thesis
      using True by (auto simp: details_def enrich_previous_def map_of_setdefault split: option.splits)
  qed (use assms(2) in \<open>simp add: details_def\<close>)
  then have known': "\<not> truthy (map_of details' ''training_reason'')
      \<or> map_of details' ''training_reason'' \<in> training_reasons"
    by (simp add: details'_def)
  show ?thesis
  proof (cases "\<not> truthy (map_of details' ''training_reason'') \<and> map_of details' ''reason'' \<notin> training_reasons")
    case True
    then show ?thesis
      using \<open>Some t \<in> training_reasons\<close> by (simp add: merge keep_training_training)
  next
    case False
    then show ?thesis
      using known' by (auto simp: merge training_of_def py_or_def)
  qed
qed

lemma training_evidence_kept_witness:
  "training_of (merge_details [(''reason'', JStr ''early_stopping''), (''confidence'', JStr ''confirmed''), (''source'', JStr ''logs'')]
      [(''reason'', JStr ''completed_unknown'')]) \<in> training_reasons"
  by (rule training_evidence_kept)
    (simp_all add: training_of_def py_or_def training_reasons_def)

text \<open>
  A late runtime report that training stopped only adds evidence to an outcome that is already
  recorded: every entry of the recorded details, reason included, keeps its value.
\<close>

theorem late_report_only_enriches:
  assumes "late_report previous incoming"
  shows "map_of previous \<subseteq>\<^sub>m map_of (merge_details previous incoming)"
proof -
  let ?e = "enrich_previous previous incoming"
  have le: "map_of previous \<subseteq>\<^sub>m map_of ?e"
  proof (cases "map_of incoming ''training_reason''")
    case (Some t)
    have "map_of previous \<subseteq>\<^sub>m map_of (setdefault ''training_reason'' t previous)"
      by (auto simp: map_le_def map_of_setdefault)
    then show ?thesis
      using map_le_trans [OF _ default_fields_le] by (simp add: enrich_previous_def Some)
  qed (simp add: enrich_previous_def)
  have reason: "map_of ?e ''reason'' = map_of previous ''reason''"
    by (simp add: enrich_previous_def split: option.splits)
  have kept: "training_of previous \<in> training_reasons \<Longrightarrow> truthy (map_of ?e ''training_reason'')
      \<or> map_of ?e ''reason'' \<in> training_reasons"
    using le by (auto simp: reason training_of_def py_or_def map_le_def dom_def split: if_splits)
      (metis option.exhaust truthy.simps(1))
  show ?thesis
    using assms kept le map_le_trans [OF le default_fields_le]
    by (auto simp: merge_details_def Let_def split: option.splits)
qed

lemma late_report_only_enriches_witness:
  "map_of (merge_details [(''reason'', JStr ''user_canceled'')]
      [(''reason'', JStr ''training_stopped''), (''training_reason'', JStr ''time_budget'')]) ''reason''
     = Some (JStr ''user_canceled'')"
  using late_report_only_enriches [of "[(''reason'', JStr ''user_canceled'')]"
      "[(''reason'', JStr ''training_stopped''), (''training_reason'', JStr ''time_budget'')]"]
  by (simp add: late_report_def map_le_def)

text \<open>
  Accepting a chunk moves exactly its new bytes from the reservation of the upload to its
  uploaded bytes: for a reservation that covers the growth, their sum is unchanged. The row stays
  otherwise as the client created it, and no other job changes.
\<close>

theorem add_chunk_conserves:
  assumes "chunks_keyed db" and "get_job db jid = Some j"
    and "(case get_chunk db jid ty i of None \<Rightarrow> 0 | Some c \<Rightarrow> chunk_bytes c) \<le> sz"
    and "growth db jid ty i sz \<le> reserved_bytes j"
  shows "\<exists>j'. get_job (add_chunk db now jid ty i sz sha) jid = Some j'
      \<and> reserved_bytes j' + uploaded_bytes (chunks (add_chunk db now jid ty i sz sha)) jid
        = reserved_bytes j + uploaded_bytes (chunks db) jid
      \<and> 0 \<le> reserved_bytes j' \<and> status j' = status j \<and> frozen j' = frozen j
      \<and> (\<forall>k. k \<noteq> jid \<longrightarrow> get_job (add_chunk db now jid ty i sz sha) k = get_job db k)"
proof -
  have id: "job_id j = jid" using assms(2) by (auto dest: get_job_SomeD)
  let ?j = "consume_reservation now (growth db jid ty i sz) j"
  have "get_job (add_chunk db now jid ty i sz sha) jid = Some ?j"
    using assms(2) id by (simp add: get_add_chunk)
  moreover have "reserved_bytes ?j = reserved_bytes j - growth db jid ty i sz"
    using assms(4) by (simp add: consume_reservation_def)
  moreover have "status ?j = status j" and "frozen ?j = frozen j"
    by (simp_all add: consume_reservation_def frozen_def)
  moreover have "k \<noteq> jid \<Longrightarrow> get_job (add_chunk db now jid ty i sz sha) k = get_job db k" for k
    by (cases "get_job db k") (auto simp: get_add_chunk dest: get_job_SomeD)
  ultimately show ?thesis
    using assms(3,4) by (simp add: uploaded_add_chunk [OF assms(1)] growth_def split: option.splits)
qed

lemma add_chunk_conserves_witness:
  "\<exists>j'. get_job (add_chunk (sample_db [sample_job]) 5 ''j'' Kernel_archive 0 4 ''bb'') ''j'' = Some j'
     \<and> reserved_bytes j' + 4 = 42"
  using add_chunk_conserves [of "sample_db [sample_job]" "''j''" sample_job Kernel_archive 0 4 5 "''bb''"]
  by (auto simp: chunks_keyed_def get_chunk_def sample_db_def get_job_def growth_def add_chunk_def
      uploaded_bytes_def update_rows_def is_chunk_def)

lemma logs_ordered_trim: "logs_ordered db \<Longrightarrow> logs_ordered (trim_job_logs jid db)"
  by (auto simp: logs_ordered_def trim_job_logs_def sorted_wrt_map sorted_wrt_filter split: option.splits)

text \<open>
  Appending to a job's log keeps the newest \<^verbatim>\<open>max_logs_per_job\<close> messages of that job, the new one
  last, in order; the logs of other jobs are untouched and log ids stay ordered.
\<close>

theorem append_log_keeps_newest:
  assumes "logs_ordered db" and "0 < max_logs_per_job db"
  shows "map log_message (job_logs (append_log db now jid msg) jid) =
      drop (Suc (length (job_logs db jid)) - max_logs_per_job db)
        (map log_message (job_logs db jid) @ [msg])
    \<and> (\<forall>k. k \<noteq> jid \<longrightarrow> job_logs (append_log db now jid msg) k = job_logs db k)
    \<and> logs_ordered (append_log db now jid msg)"
proof -
  let ?db = "insert_log db now jid msg"
  have o: "logs_ordered ?db" using assms(1) by (rule logs_ordered_insert)
  have m: "max_logs_per_job ?db = max_logs_per_job db" by (simp add: insert_log_def)
  have "job_logs ?db jid = job_logs db jid @ [\<lparr>log_id = next_log_id db, log_job = jid, log_created = now, log_message = msg\<rparr>]"
    and other: "k \<noteq> jid \<Longrightarrow> job_logs ?db k = job_logs db k" for k
    by (simp_all add: insert_log_def job_logs_def)
  with trim_keeps_newest [OF o, of jid] assms(2) m
  show ?thesis
    using logs_ordered_trim [OF o, of jid] trim_other_jobs [of _ jid ?db] other
    by (simp add: append_log_def drop_map)
qed

lemma append_log_keeps_newest_witness:
  "map log_message (job_logs (append_log ((sample_db [])\<lparr>max_logs_per_job := 1,
      logs := [\<lparr>log_id = 0, log_job = ''j'', log_created = 0, log_message = ''old''\<rparr>], next_log_id := 1\<rparr>) 1 ''j'' ''new'') ''j'')
    = [''new'']"
  using append_log_keeps_newest [of "(sample_db [])\<lparr>max_logs_per_job := 1,
      logs := [\<lparr>log_id = 0, log_job = ''j'', log_created = 0, log_message = ''old''\<rparr>], next_log_id := 1\<rparr>" 1 "''j''" "''new''"]
  by (simp add: logs_ordered_def job_logs_def)

text \<open>
  The dataset cache answers a lookup with what was stored last under the same account,
  dataset reference and payload hash, whatever else was stored before or after.
\<close>

theorem dataset_cache_last_write:
  "ph \<noteq> [] \<Longrightarrow>
   cached_value (fold (\<lambda>(k, v). put_cached now k v) writes db) (key, ref, ph) =
     (case map_of (rev writes) (key, ref, ph) of
        Some v \<Rightarrow> Some v | None \<Rightarrow> cached_value db (key, ref, ph))"
  by (rule cached.lookup_fold) (simp add: hashed_def)

lemma dataset_cache_last_write_witness:
  "cached_value (fold (\<lambda>(k, v). put_cached 1 k v)
      [((''a'', ''u/d'', ''h''), (''pending'', [], ''j1'')), ((''a'', ''u/d'', ''h''), (''ready'', ''ready'', ''j2''))]
      (sample_db [])) (''a'', ''u/d'', ''h'') = Some (''ready'', ''ready'', ''j2'')"
  by (subst dataset_cache_last_write) simp_all

end
