(* ===== verification/Access.thy ===== *)
theory Access
  imports Auth_Config Store_Queries
begin

text \<open>
  Who may do what (\<^verbatim>\<open>app/main.py\<close>): authentication of a request behind the failure limiter, access
  to jobs, job callbacks, and the handlers that edit the access configuration. The state is what the
  application keeps: the configuration file, the loaded store, the registered secrets and the
  limiter. A handler runs under the configuration lock, so it is one step; an exception that no
  clause catches is the server's own answer, status 500.
\<close>

section \<open>State and requests\<close>

record access_state =
  has_config_path :: bool
  admin_token :: string
  config :: config_file
  store :: auth_store
  secrets :: "string list"
  auth_limiter :: limiter

text \<open>
  What a handler reads of a request: the authorization header, the principal the session cookie
  stands for under a store, the source it is counted under, its method, and whether it passes the
  same-origin check.
\<close>

record request =
  authorization :: string
  session :: "auth_store \<Rightarrow> principal option"
  source :: string
  unsafe_method :: bool
  same_origin :: bool

definition internal_error :: http_error where
  "internal_error = HTTPException 500 ''Internal Server Error''"

definition unauthorized :: http_error where
  "unauthorized = HTTPException 401 ''unauthorized''"

definition blocked :: http_error where
  "blocked = HTTPException 429 ''too many authentication failures''"

definition reject_if_auth_blocked :: "time \<Rightarrow> string \<Rightarrow> limiter \<Rightarrow> limiter \<times> bool" where
  "reject_if_auth_blocked now key l = (let (l, n) = retry_after now key l in (l, n \<noteq> 0))"

definition auth_limit_key :: "string \<Rightarrow> request \<Rightarrow> string" where
  "auth_limit_key channel r = channel @ '':'' @ source r"

definition require_auth :: "time \<Rightarrow> request \<Rightarrow> access_state \<Rightarrow> principal reply \<times> access_state" where
  "require_auth now r st =
     (let token = bearer_token (authorization r); key = auth_limit_key ''bearer'' r in
      if token \<noteq> []
      then
        let (l, out) = reject_if_auth_blocked now key (auth_limiter st);
            st = st\<lparr>auth_limiter := l\<rparr>
        in if out then (Inl blocked, st)
           else (case authenticate_token (store st) token of
               Raised_type_error \<Rightarrow> (Inl internal_error, st)
             | Returned (Some p) \<Rightarrow> (Inr p, st\<lparr>auth_limiter := clear_failures key l\<rparr>)
             | Returned None \<Rightarrow>
                 let (l, n) = record_failure now key l
                 in (Inl (if n \<noteq> 0 then blocked else unauthorized), st\<lparr>auth_limiter := l\<rparr>))
      else (case session r (store st) of
          None \<Rightarrow> (Inl unauthorized, st)
        | Some p \<Rightarrow>
            if unsafe_method r \<and> \<not> same_origin r
            then (Inl (HTTPException 403 ''same-origin request required''), st)
            else (Inr p, st)))"

definition current_request_principal :: "request \<Rightarrow> access_state \<Rightarrow> principal reply" where
  "current_request_principal r st =
     (let token = bearer_token (authorization r) in
      case (if token \<noteq> [] then authenticate_token (store st) token else Returned (session r (store st))) of
        Raised_type_error \<Rightarrow> Inl internal_error
      | Returned None \<Rightarrow> Inl unauthorized
      | Returned (Some p) \<Rightarrow> Inr p)"

section \<open>Access to jobs\<close>

text \<open>\<^verbatim>\<open>awaiting_assignment\<close> of \<^verbatim>\<open>app/scheduler.py\<close>.\<close>

definition awaiting_assignment :: "job \<Rightarrow> bool" where
  "awaiting_assignment j \<longleftrightarrow> scheduling_mode j = Dynamic \<and> assignment_state j = Pending"

definition can_access_job :: "job \<Rightarrow> principal \<Rightarrow> auth_store \<Rightarrow> bool" where
  "can_access_job j p s \<longleftrightarrow>
     (if awaiting_assignment j then list_ex (\<lambda>a. can_access_key p (fst a)) (eligible_accounts j)
      else can_access_key p (kaggle_key_id j))
     \<and> (let owner = strip (relay_token_id j) in
        if store_legacy s then owner = [] \<or> owner = principal_id p
        else if owner \<noteq> [] then allow_all_keys p \<or> owner = principal_id p
        else allow_all_keys p)"

definition job_not_found :: http_error where
  "job_not_found = HTTPException 404 ''job not found''"

definition get_authorized_job :: "relay_db \<Rightarrow> string \<Rightarrow> principal \<Rightarrow> auth_store \<Rightarrow> job reply" where
  "get_authorized_job db jid p s =
     (case get_job db jid of
        None \<Rightarrow> Inl job_not_found
      | Some j \<Rightarrow> if can_access_job j p s then Inr j else Inl job_not_found)"

text \<open>\<open>sha256\<close> is the hexadecimal digest of a text.\<close>

definition authorize_job_callback ::
  "(string \<Rightarrow> string) \<Rightarrow> job \<Rightarrow> string \<Rightarrow> auth_store \<Rightarrow> bool outcome" where
  "authorize_job_callback sha256 j auth s =
     (let token = bearer_token auth in
      if token = [] then Returned False
      else case authenticate_token s token of
          Raised_type_error \<Rightarrow> Raised_type_error
        | Returned p \<Rightarrow>
            if (case p of None \<Rightarrow> False | Some p \<Rightarrow> can_access_job j p s) then Returned True
            else
              let expected = lower (strip (callback_token_sha256 j))
              in if expected = [] then Returned False
                 else (case compare_digest (sha256 token) expected of
                     None \<Rightarrow> Raised_type_error | Some b \<Rightarrow> Returned b))"

definition split_query_values :: "string list \<Rightarrow> string list" where
  "split_query_values vs =
     remdups (filter (\<lambda>s. s \<noteq> []) (map strip (concat (map (split_on (CHR '','')) vs))))"

definition status_name :: "job_status \<Rightarrow> string" where
  "status_name s = (case s of
       Receiving \<Rightarrow> ''receiving'' | Assembling \<Rightarrow> ''assembling'' | Queued \<Rightarrow> ''queued''
     | Uploading_dataset \<Rightarrow> ''uploading_dataset'' | Waiting_dataset \<Rightarrow> ''waiting_dataset''
     | Pushing_kernel \<Rightarrow> ''pushing_kernel'' | Waiting_kernel \<Rightarrow> ''waiting_kernel''
     | Cancel_requested \<Rightarrow> ''cancel_requested'' | Downloading_output \<Rightarrow> ''downloading_output''
     | Complete \<Rightarrow> ''complete'' | Canceled \<Rightarrow> ''canceled'' | Failed \<Rightarrow> ''failed'')"

definition all_statuses :: "job_status list" where
  "all_statuses = [Receiving, Assembling, Queued, Uploading_dataset, Waiting_dataset, Pushing_kernel,
     Waiting_kernel, Cancel_requested, Downloading_output, Complete, Canceled, Failed]"

definition active_statuses :: "job_status set" where
  "active_statuses = set (filter (\<lambda>s. \<not> terminal s) all_statuses)"

definition running_statuses :: "job_status set" where
  "running_statuses = {Assembling, Queued, Uploading_dataset, Waiting_dataset, Pushing_kernel,
     Waiting_kernel, Cancel_requested, Downloading_output}"

definition status_filter_for_list :: "string list \<Rightarrow> bool \<Rightarrow> job_status set option reply" where
  "status_filter_for_list vs active =
     (let names = split_query_values vs;
          unknown = filter (\<lambda>n. n \<notin> set (map status_name all_statuses)) names;
          statuses = set (filter (\<lambda>s. status_name s \<in> set names) all_statuses)
      in if unknown \<noteq> []
         then Inl (HTTPException 400 (''unknown job status: '' @ join '', '' (sort unknown)))
         else if active
         then Inr (Some (if names \<noteq> [] then statuses \<inter> active_statuses else active_statuses))
         else Inr (if names = [] then None else Some statuses))"

text \<open>
  \<^verbatim>\<open>GET /v1/jobs\<close>: a principal without restrictions lists every job, any other its own jobs on the
  enabled accounts of its grant; only the administrator may ask for the jobs of another owner.
\<close>

definition list_jobs_handler ::
  "relay_db \<Rightarrow> auth_store \<Rightarrow> principal \<Rightarrow> string option \<Rightarrow> string list \<Rightarrow> bool \<Rightarrow> int \<Rightarrow> string
   \<Rightarrow> job list reply" where
  "list_jobs_handler db s p owner status_values active limit search =
     (let keys = (if allow_all_keys p then None else Some (set (allowed_key_ids s p False)));
          own = (if store_legacy s \<or> allow_all_keys p then None else Some (principal_id p))
      in if owner \<noteq> None \<and> \<not> management_admin p
         then Inl (HTTPException 403 ''admin permission is required'')
         else (case status_filter_for_list status_values active of
             Inl e \<Rightarrow> Inl e
           | Inr statuses \<Rightarrow>
               Inr (list_jobs db keys (case owner of None \<Rightarrow> own | Some ow \<Rightarrow> Some ow) statuses False limit search)))"

section \<open>Summaries of the configuration\<close>

definition credential_source :: "credentials \<Rightarrow> string" where
  "credential_source c =
     (if config_dir c \<noteq> [] then ''config_dir''
      else if api_token c \<noteq> [] then ''api_token''
      else if username c \<noteq> [] \<and> key_value c \<noteq> [] then ''username_key'' else ''unknown'')"

record key_summary =
  ks_id :: string
  ks_username :: string
  ks_source :: string
  ks_enabled :: bool
  ks_disabled_reason :: string

definition public_kaggle_keys :: "auth_store \<Rightarrow> principal \<Rightarrow> key_summary list" where
  "public_kaggle_keys s p =
     (if \<not> can_view_keys p then []
      else if store_legacy s
      then [\<lparr>ks_id = [], ks_username = [], ks_source = ''environment'', ks_enabled = True, ks_disabled_reason = []\<rparr>]
      else concat (map (\<lambda>k. case map_of (kaggle_keys s) k of
             None \<Rightarrow> []
           | Some c \<Rightarrow> [\<lparr>ks_id = cred_id c, ks_username = username c, ks_source = credential_source c,
               ks_enabled = enabled c, ks_disabled_reason = disabled_reason c\<rparr>])
           (allowed_key_ids s p True)))"

record token_summary =
  ts_id :: string
  ts_allowed :: "string set option"
  ts_can_view :: bool
  ts_current :: bool
  ts_management :: bool

definition public_relay_tokens :: "auth_store \<Rightarrow> principal \<Rightarrow> token_summary list" where
  "public_relay_tokens s p =
     map (\<lambda>t. let q = snd t in
         \<lparr>ts_id = principal_id q,
          ts_allowed = (if can_view_keys p then allowed_keys q else Some {}),
          ts_can_view = can_view_keys q, ts_current = (principal_id q = principal_id p),
          ts_management = management_admin q\<rparr>)
       (filter (\<lambda>t. management_admin p \<or> principal_id (snd t) = principal_id p) (tokens s))"

definition public_allowed_key_ids :: "auth_store \<Rightarrow> principal \<Rightarrow> string list" where
  "public_allowed_key_ids s p = allowed_key_ids s p False"

record auth_summary =
  as_legacy :: bool
  as_principal :: string
  as_allowed :: "string list"
  as_can_manage :: bool
  as_can_view :: bool
  as_management_configured :: bool
  as_tokens :: "token_summary list"
  as_keys :: "key_summary list"

definition auth_config_summary :: "auth_store \<Rightarrow> principal \<Rightarrow> auth_summary" where
  "auth_config_summary s p =
     \<lparr>as_legacy = store_legacy s, as_principal = principal_id p,
      as_allowed = (if can_view_keys p then public_allowed_key_ids s p else []),
      as_can_manage = (management_admin p \<and> \<not> store_legacy s), as_can_view = can_view_keys p,
      as_management_configured = management_token_configured s,
      as_tokens = public_relay_tokens s p, as_keys = public_kaggle_keys s p\<rparr>"

definition reveal_relay_token :: "auth_store \<Rightarrow> principal \<Rightarrow> string \<Rightarrow> string reply" where
  "reveal_relay_token s p tid =
     (if \<not> management_admin p \<and> principal_id p \<noteq> tid
      then Inl (HTTPException 403 ''cannot view another user's token'')
      else case find (\<lambda>t. principal_id (snd t) = tid) (tokens s) of
          None \<Rightarrow> Inl (HTTPException 404 ''relay token id not found'')
        | Some (v, owner) \<Rightarrow>
            if management_admin owner \<or> legacy owner
            then Inl (HTTPException 403 ''management and legacy credentials cannot be revealed'')
            else Inr v)"

section \<open>Reading and editing the configuration\<close>

definition require_config_admin :: "access_state \<Rightarrow> principal \<Rightarrow> http_error option" where
  "require_config_admin st p =
     (if \<not> has_config_path st then Some (HTTPException 400 ''RELAY_AUTH_CONFIG is required'')
      else if \<not> management_admin p then Some (HTTPException 403 ''admin permission is required'')
      else None)"

definition read_auth_config :: "config_file \<Rightarrow> json dict reply" where
  "read_auth_config cfg =
     (case cfg of
        Unreadable \<Rightarrow> Inl (HTTPException 500 ''failed to read auth config'')
      | Not_json \<Rightarrow> Inl (HTTPException 500 ''auth config is not valid JSON'')
      | Config (JObj data) \<Rightarrow>
          let data = setdefault ''kaggle_keys'' (JArr []) (setdefault ''relay_tokens'' (JArr []) data)
          in (case (map_of data ''relay_tokens'', map_of data ''kaggle_keys'') of
                (Some (JArr _), Some (JArr _)) \<Rightarrow> Inr data
              | _ \<Rightarrow> Inl (HTTPException 500 ''auth config lists are invalid''))
      | Config _ \<Rightarrow> Inl (HTTPException 500 ''auth config must be a JSON object''))"

text \<open>\<open>message\<close> is the text of a configuration error.\<close>

definition validate_and_write ::
  "(json \<Rightarrow> string) \<Rightarrow> (config_error \<Rightarrow> string) \<Rightarrow> json dict \<Rightarrow> access_state
   \<Rightarrow> auth_store reply \<times> access_state" where
  "validate_and_write sh message data st =
     (case from_file sh (Config (JObj data)) (admin_token st) (secrets st) of
        (Inl e, secs) \<Rightarrow>
          (Inl (if e = Compare_type_error then internal_error else HTTPException 400 (message e)),
           st\<lparr>secrets := secs\<rparr>)
      | (Inr s, secs) \<Rightarrow> (Inr s, st\<lparr>config := Config (JObj data), secrets := secs\<rparr>))"

definition username_char :: "char \<Rightarrow> bool" where
  "username_char c \<longleftrightarrow> is_alnum c \<or> c = CHR ''_'' \<or> c = CHR ''-''"

definition validate_kaggle_username :: "string \<Rightarrow> string reply" where
  "validate_kaggle_username u =
     (let u = strip u in
      if u = [] then Inl (HTTPException 400 ''kaggle username is required'')
      else if \<not> list_all username_char u
      then Inl (HTTPException 400
        ''kaggle username must be the profile slug from kaggle.com, not the display name'')
      else Inr u)"

definition with_admin ::
  "principal \<Rightarrow> access_state \<Rightarrow> (access_state \<Rightarrow> auth_store reply \<times> access_state)
   \<Rightarrow> auth_store reply \<times> access_state" where
  "with_admin p st act = (case require_config_admin st p of Some e \<Rightarrow> (Inl e, st) | None \<Rightarrow> act st)"

definition with_config ::
  "access_state \<Rightarrow> (json dict \<Rightarrow> auth_store reply \<times> access_state) \<Rightarrow> auth_store reply \<times> access_state" where
  "with_config st act = (case read_auth_config (config st) of Inl e \<Rightarrow> (Inl e, st) | Inr data \<Rightarrow> act data)"

text \<open>\<^verbatim>\<open>str(item.get("id", "")).strip()\<close> of an entry that is an object.\<close>

definition entry_is :: "(json \<Rightarrow> string) \<Rightarrow> string \<Rightarrow> string \<Rightarrow> json \<Rightarrow> bool" where
  "entry_is sh f v item = (case item of JObj d \<Rightarrow> get_str sh d f = v | _ \<Rightarrow> False)"

fun is_object :: "json \<Rightarrow> bool" where
  "is_object (JObj d) \<longleftrightarrow> True"
| "is_object _ \<longleftrightarrow> False"

definition entries :: "string \<Rightarrow> json dict \<Rightarrow> json list" where
  "entries f data = json_list (map_of data f)"

definition opt_field :: "string \<Rightarrow> string \<Rightarrow> json dict \<Rightarrow> json dict" where
  "opt_field f v d = (if v = [] then d else AList.update f (JStr v) d)"

definition kgat_error :: http_error where
  "kgat_error = HTTPException 400 ''KGAT token must be provided as api_token, not key''"

record key_payload =
  pk_id :: string
  pk_username :: string
  pk_key :: string
  pk_api_token :: string
  pk_config_dir :: string

definition add_kaggle_key_config ::
  "(json \<Rightarrow> string) \<Rightarrow> (config_error \<Rightarrow> string) \<Rightarrow> principal \<Rightarrow> key_payload \<Rightarrow> access_state
   \<Rightarrow> auth_store reply \<times> access_state" where
  "add_kaggle_key_config sh message p payload st =
     with_admin p st (\<lambda>st.
       let kid = strip (pk_id payload); key = strip (pk_key payload);
           api = strip (pk_api_token payload); dir = strip (pk_config_dir payload)
       in case validate_kaggle_username (pk_username payload) of
            Inl e \<Rightarrow> (Inl e, st)
          | Inr uname \<Rightarrow>
              if prefix ''kgat_'' (lower key) then (Inl kgat_error, st)
              else if key = [] \<and> api = [] \<and> dir = []
              then (Inl (HTTPException 400 ''kaggle credentials are required''), st)
              else with_config st (\<lambda>data.
                if list_ex (entry_is sh ''id'' kid) (entries ''kaggle_keys'' data)
                then (Inl (HTTPException 409 ''kaggle key id already exists''), st)
                else
                  let entry = opt_field ''config_dir'' dir (opt_field ''api_token'' api (opt_field ''key'' key
                        [(''id'', JStr kid), (''username'', JStr uname)]))
                  in validate_and_write sh message
                       (AList.update ''kaggle_keys'' (JArr (entries ''kaggle_keys'' data @ [JObj entry])) data) st))"

record key_update =
  up_username :: "string option"
  up_key :: string
  up_api_token :: string
  up_config_dir :: string
  up_enabled :: "bool option"
  up_disabled_reason :: "string option"

definition update_entry ::
  "(json \<Rightarrow> string) \<Rightarrow> string \<Rightarrow> string option \<Rightarrow> string \<Rightarrow> string \<Rightarrow> string \<Rightarrow> key_update \<Rightarrow> json dict \<Rightarrow> json dict" where
  "update_entry sh kid uname key api dir u d =
     (let d = AList.update ''id'' (JStr kid) d;
          d = (case uname of None \<Rightarrow> d | Some n \<Rightarrow> AList.update ''username'' (JStr n) d);
          d = (case up_enabled u of
                Some True \<Rightarrow> AList.delete ''disabled_reason'' (AList.update ''enabled'' (JBool True) d)
              | Some False \<Rightarrow>
                  AList.update ''disabled_reason''
                    (JStr (case up_disabled_reason u of
                        None \<Rightarrow> ''disabled by administrator''
                      | Some r \<Rightarrow> if r = [] then ''disabled by administrator'' else r))
                    (AList.update ''enabled'' (JBool False) d)
              | None \<Rightarrow>
                  (case up_disabled_reason u of
                     Some r \<Rightarrow>
                       if map_of d ''enabled'' \<noteq> None \<and> \<not> truthy (map_of d ''enabled'')
                       then AList.update ''disabled_reason'' (JStr r) d else d
                   | None \<Rightarrow> d))
      in if key \<noteq> [] \<or> api \<noteq> [] \<or> dir \<noteq> []
         then opt_field ''config_dir'' dir (opt_field ''api_token'' api (opt_field ''key'' key
                (fold AList.delete [''key'', ''api_token'', ''config_dir''] d)))
         else d)"

fun find_index :: "('a \<Rightarrow> bool) \<Rightarrow> 'a list \<Rightarrow> nat option" where
  "find_index P [] = None"
| "find_index P (x # xs) = (if P x then Some 0 else map_option Suc (find_index P xs))"

definition update_kaggle_key_config ::
  "(json \<Rightarrow> string) \<Rightarrow> (config_error \<Rightarrow> string) \<Rightarrow> principal \<Rightarrow> string \<Rightarrow> key_update \<Rightarrow> access_state
   \<Rightarrow> auth_store reply \<times> access_state" where
  "update_kaggle_key_config sh message p kid u st =
     with_admin p st (\<lambda>st.
       let kid = strip kid; key = strip (up_key u); api = strip (up_api_token u); dir = strip (up_config_dir u) in
       if kid = [] then (Inl (HTTPException 400 ''kaggle key id is required''), st)
       else case (case up_username u of None \<Rightarrow> Inr None | Some n \<Rightarrow>
                   (case validate_kaggle_username n of Inl e \<Rightarrow> Inl e | Inr n \<Rightarrow> Inr (Some n))) of
         Inl e \<Rightarrow> (Inl e, st)
       | Inr uname \<Rightarrow>
           if prefix ''kgat_'' (lower key) then (Inl kgat_error, st)
           else with_config st (\<lambda>data.
             let items = entries ''kaggle_keys'' data in
             case find_index (entry_is sh ''id'' kid) items of
               None \<Rightarrow> (Inl (HTTPException 404 ''kaggle key id not found''), st)
             | Some i \<Rightarrow>
                 let d = update_entry sh kid uname key api dir u (dict_of (Some (items ! i)))
                 in if get_str_or sh d ''key'' = [] \<and> get_str_or sh d ''api_token'' = []
                       \<and> get_str_or sh d ''config_dir'' = []
                    then (Inl (HTTPException 400 ''kaggle credentials are required''), st)
                    else validate_and_write sh message
                      (AList.update ''kaggle_keys'' (JArr (items[i := JObj d])) data) st))"

record token_payload =
  pt_id :: string
  pt_token :: string
  pt_allowed :: "string list"
  pt_allow_all :: bool
  pt_can_view :: bool

definition add_relay_token_config ::
  "(json \<Rightarrow> string) \<Rightarrow> (config_error \<Rightarrow> string) \<Rightarrow> principal \<Rightarrow> token_payload \<Rightarrow> access_state
   \<Rightarrow> auth_store reply \<times> access_state" where
  "add_relay_token_config sh message p payload st =
     with_admin p st (\<lambda>st.
       let tid = strip (pt_id payload); token = strip (pt_token payload);
           ids = filter (\<lambda>s. s \<noteq> []) (map strip (pt_allowed payload));
           allowed = (if pt_allow_all payload then JStr ''*'' else JArr (map JStr ids))
       in if \<not> pt_allow_all payload \<and> ids = []
          then (Inl (HTTPException 400 ''allowed_kaggle_key_ids is required''), st)
          else with_config st (\<lambda>data.
            if JStr tid \<in> set (entries ''retired_relay_token_ids'' data)
            then (Inl (HTTPException 409 ''retired relay token id cannot be reused''), st)
            else if list_ex (entry_is sh ''id'' tid) (entries ''relay_tokens'' data)
            then (Inl (HTTPException 409 ''relay token id already exists''), st)
            else if list_ex (entry_is sh ''token'' token) (entries ''relay_tokens'' data)
            then (Inl (HTTPException 409 ''relay token already exists''), st)
            else validate_and_write sh message
              (AList.update ''relay_tokens''
                (JArr (entries ''relay_tokens'' data @
                  [JObj [(''id'', JStr tid), (''token'', JStr token), (''allowed_kaggle_key_ids'', allowed),
                         (''can_view_keys'', JBool (pt_can_view payload))]])) data) st))"

definition update_relay_token_permissions ::
  "(json \<Rightarrow> string) \<Rightarrow> (config_error \<Rightarrow> string) \<Rightarrow> principal \<Rightarrow> string \<Rightarrow> bool \<Rightarrow> access_state
   \<Rightarrow> auth_store reply \<times> access_state" where
  "update_relay_token_permissions sh message p tid can_view st =
     with_admin p st (\<lambda>st. with_config st (\<lambda>data.
       let items = entries ''relay_tokens'' data;
           before = takeWhile (\<lambda>i. map_of (dict_of (Some i)) ''id'' \<noteq> Some (JStr tid)) items
       in if list_ex (\<lambda>i. \<not> is_object i) before then (Inl internal_error, st)
          else case find_index (\<lambda>i. map_of (dict_of (Some i)) ''id'' = Some (JStr tid)) items of
            None \<Rightarrow> (Inl (HTTPException 404 ''relay token id not found''), st)
          | Some i \<Rightarrow>
              validate_and_write sh message
                (AList.update ''relay_tokens''
                  (JArr (items[i := JObj (AList.update ''can_view_keys'' (JBool can_view)
                     (dict_of (Some (items ! i))))])) data) st))"

definition active_job_count :: "relay_db \<Rightarrow> string \<Rightarrow> nat" where
  "active_job_count db tid =
     sum_list (map snd (filter (\<lambda>(s, n). \<not> terminal s) (job_status_counts db None (Some tid))))"

definition retire :: "string \<Rightarrow> json list \<Rightarrow> json list" where
  "retire tid retired = map JStr (sort (remdups (tid # map (\<lambda>j. case j of JStr s \<Rightarrow> s | _ \<Rightarrow> []) retired)))"

definition delete_relay_token_config ::
  "(json \<Rightarrow> string) \<Rightarrow> (config_error \<Rightarrow> string) \<Rightarrow> relay_db \<Rightarrow> principal \<Rightarrow> string \<Rightarrow> access_state
   \<Rightarrow> auth_store reply \<times> access_state" where
  "delete_relay_token_config sh message db p tid st =
     with_admin p st (\<lambda>st.
       case find (\<lambda>t. principal_id (snd t) = tid) (tokens (store st)) of
         None \<Rightarrow> (Inl (HTTPException 404 ''relay token id not found''), st)
       | Some (_, owner) \<Rightarrow>
           if management_admin owner \<or> legacy owner
           then (Inl (HTTPException 403 ''management credentials cannot be deleted''), st)
           else if active_job_count db tid \<noteq> 0
           then (Inl (HTTPException 409 ''user_has_active_jobs''), st)
           else with_config st (\<lambda>data.
             if list_ex (\<lambda>i. \<not> is_object i) (entries ''relay_tokens'' data) then (Inl internal_error, st)
             else validate_and_write sh message
               (AList.update ''retired_relay_token_ids'' (JArr (retire tid (entries ''retired_relay_token_ids'' data)))
                 (AList.update ''relay_tokens''
                   (JArr (filter (\<lambda>i. \<not> entry_is sh ''id'' tid i) (entries ''relay_tokens'' data))) data)) st))"

definition require_key_view :: "principal \<Rightarrow> http_error option" where
  "require_key_view p =
     (if can_view_keys p then None else Some (HTTPException 403 ''key viewing permission is required''))"

text \<open>
  The five edits as requests. A handler checks the principal again, runs the edit and installs the
  store it returns; the deletion of a token also looks at the jobs.
\<close>

datatype edit =
    Add_key key_payload
  | Update_key string key_update
  | Add_token token_payload
  | Set_permissions string bool
  | Delete_token string

fun perform_edit ::
  "(json \<Rightarrow> string) \<Rightarrow> (config_error \<Rightarrow> string) \<Rightarrow> relay_db \<Rightarrow> principal \<Rightarrow> edit \<Rightarrow> access_state
   \<Rightarrow> auth_store reply \<times> access_state" where
  "perform_edit sh message db p (Add_key x) st = add_kaggle_key_config sh message p x st"
| "perform_edit sh message db p (Update_key k x) st = update_kaggle_key_config sh message p k x st"
| "perform_edit sh message db p (Add_token x) st = add_relay_token_config sh message p x st"
| "perform_edit sh message db p (Set_permissions t b) st = update_relay_token_permissions sh message p t b st"
| "perform_edit sh message db p (Delete_token t) st = delete_relay_token_config sh message db p t st"

definition install :: "auth_store reply \<times> access_state \<Rightarrow> auth_store reply \<times> access_state" where
  "install r = (case r of (Inl e, st) \<Rightarrow> (Inl e, st) | (Inr s, st) \<Rightarrow> (Inr s, st\<lparr>store := s\<rparr>))"

definition edit_handler ::
  "(json \<Rightarrow> string) \<Rightarrow> (config_error \<Rightarrow> string) \<Rightarrow> relay_db \<Rightarrow> request \<Rightarrow> edit \<Rightarrow> access_state
   \<Rightarrow> auth_store reply \<times> access_state" where
  "edit_handler sh message db r e st =
     (case current_request_principal r st of
        Inl err \<Rightarrow> (Inl err, st)
      | Inr p \<Rightarrow> install (perform_edit sh message db p e st))"

inductive edit_step :: "(json \<Rightarrow> string) \<Rightarrow> (config_error \<Rightarrow> string) \<Rightarrow> access_state \<Rightarrow> access_state \<Rightarrow> bool"
  for sh message where
  Edit: "edit_step sh message st (snd (edit_handler sh message db r e st))"
| Auth: "edit_step sh message st (snd (require_auth now r st))"

section \<open>What an edit does to the state\<close>

definition is_retired :: "string \<Rightarrow> json dict \<Rightarrow> bool" where
  "is_retired tid data \<longleftrightarrow> JStr tid \<in> set (entries ''retired_relay_token_ids'' data)"

text \<open>The outcome every edit has: a refusal, or a file that loads and whose store is returned.\<close>

definition edit_result ::
  "(json \<Rightarrow> string) \<Rightarrow> access_state \<Rightarrow> auth_store reply \<times> access_state \<Rightarrow> bool" where
  "edit_result sh st r \<longleftrightarrow>
     (case r of
        (Inl e, st') \<Rightarrow> \<exists>secs. st' = st\<lparr>secrets := secs\<rparr>
      | (Inr s, st') \<Rightarrow> \<exists>old data secs.
          read_auth_config (config st) = Inr old \<and> (\<forall>t. is_retired t old \<longrightarrow> is_retired t data)
          \<and> from_file sh (Config (JObj data)) (admin_token st) (secrets st) = (Inr s, secs)
          \<and> st' = st\<lparr>config := Config (JObj data), secrets := secs\<rparr>)"

lemma edit_result_refused [simp]: "edit_result sh st (Inl e, st)"
  unfolding edit_result_def by (simp add: exI [of _ "secrets st"])

lemma edit_result_write:
  assumes "read_auth_config (config st) = Inr old" and "\<And>t. is_retired t old \<Longrightarrow> is_retired t data"
  shows "edit_result sh st (validate_and_write sh message data st)"
  using assms by (auto simp: validate_and_write_def edit_result_def split: prod.splits sum.splits)

lemma edit_result_with_config:
  assumes "\<And>data. read_auth_config (config st) = Inr data \<Longrightarrow> edit_result sh st (act data)"
  shows "edit_result sh st (with_config st act)"
  using assms by (auto simp: with_config_def split: sum.splits)

lemma edit_result_with_admin:
  "edit_result sh st (act st) \<Longrightarrow> edit_result sh st (with_admin p st act)"
  by (simp add: with_admin_def split: option.splits)

lemma is_retired_update [simp]:
  "f \<noteq> ''retired_relay_token_ids'' \<Longrightarrow> is_retired t (AList.update f v data) = is_retired t data"
  by (simp add: is_retired_def entries_def)

lemma is_retired_retire:
  assumes "is_retired t data \<or> t = tid"
  shows "is_retired t (AList.update ''retired_relay_token_ids''
     (JArr (retire tid (entries ''retired_relay_token_ids'' data))) data')"
proof -
  let ?f = "\<lambda>j. case j of JStr s \<Rightarrow> s | _ \<Rightarrow> []" and ?r = "entries ''retired_relay_token_ids'' data"
  have "t = tid \<or> t \<in> ?f ` set ?r"
    using assms by (auto simp: is_retired_def intro: rev_image_eqI)
  then have "JStr t \<in> set (retire tid ?r)"
    by (auto simp: retire_def)
  then show ?thesis by (simp add: is_retired_def entries_def)
qed

lemmas edit_result_intros = edit_result_with_admin edit_result_with_config

lemma perform_edit_result: "edit_result sh st (perform_edit sh message db p e st)"
proof (cases e)
  case (Add_key x)
  then show ?thesis
    by (auto simp: add_kaggle_key_config_def Let_def split: sum.splits intro!: edit_result_intros)
      (rule edit_result_write, assumption, simp)+
next
  case (Update_key k x)
  then show ?thesis
    by (auto simp: update_kaggle_key_config_def Let_def split: sum.splits option.splits intro!: edit_result_intros)
      (rule edit_result_write, assumption, simp)+
next
  case (Add_token x)
  then show ?thesis
    by (auto simp: add_relay_token_config_def Let_def intro!: edit_result_intros)
      (rule edit_result_write, assumption, simp)+
next
  case (Set_permissions t b)
  then show ?thesis
    by (auto simp: update_relay_token_permissions_def Let_def split: option.splits intro!: edit_result_intros)
      (rule edit_result_write, assumption, simp)+
next
  case (Delete_token t)
  then show ?thesis
    by (auto simp: delete_relay_token_config_def Let_def split: option.splits intro!: edit_result_intros)
      (rule edit_result_write, assumption, simp add: is_retired_retire)+
qed

lemma require_auth_state:
  "\<exists>l. snd (require_auth now r st) = st\<lparr>auth_limiter := l\<rparr>"
  by (auto simp: require_auth_def Let_def split: prod.splits option.splits outcome.splits
      intro: exI [of _ "auth_limiter st"])

lemma perform_edit_admin:
  "fst (perform_edit sh message db p e st) = Inr s \<Longrightarrow> management_admin p"
  by (cases e)
    (auto simp: add_kaggle_key_config_def update_kaggle_key_config_def add_relay_token_config_def
      update_relay_token_permissions_def delete_relay_token_config_def with_admin_def require_config_admin_def
      split: if_splits option.splits)

lemma edit_handler_cases:
  obtains (Refused) err secs where "edit_handler sh message db r e st = (Inl err, st\<lparr>secrets := secs\<rparr>)"
  | (Done) p s data old secs where
      "edit_handler sh message db r e st = (Inr s, st\<lparr>config := Config (JObj data), secrets := secs, store := s\<rparr>)"
      and "current_request_principal r st = Inr p" and "management_admin p"
      and "fst (perform_edit sh message db p e st) = Inr s"
      and "config (snd (perform_edit sh message db p e st)) = Config (JObj data)"
      and "read_auth_config (config st) = Inr old" and "\<And>t. is_retired t old \<Longrightarrow> is_retired t data"
      and "from_file sh (Config (JObj data)) (admin_token st) (secrets st) = (Inr s, secs)"
proof (cases "current_request_principal r st")
  case (Inl err)
  then have "edit_handler sh message db r e st = (Inl err, st\<lparr>secrets := secrets st\<rparr>)"
    by (simp add: edit_handler_def)
  then show thesis by (rule Refused)
next
  case (Inr p)
  obtain res st' where res: "perform_edit sh message db p e st = (res, st')"
    by (cases "perform_edit sh message db p e st")
  have er: "edit_result sh st (res, st')"
    using perform_edit_result [of sh st message db p e] by (simp add: res)
  show thesis
  proof (cases res)
    case (Inl err)
    with er obtain secs where "st' = st\<lparr>secrets := secs\<rparr>" by (auto simp: edit_result_def)
    with Inl Inr res show thesis by (intro Refused) (simp add: edit_handler_def install_def)
  next
    case (Inr s)
    note s = this
    from er obtain old data secs where e: "read_auth_config (config st) = Inr old"
      "\<And>t. is_retired t old \<Longrightarrow> is_retired t data"
      "from_file sh (Config (JObj data)) (admin_token st) (secrets st) = (Inr s, secs)"
      "st' = st\<lparr>config := Config (JObj data), secrets := secs\<rparr>"
      by (auto simp: edit_result_def s)
    have "edit_handler sh message db r e st = (Inr s, st\<lparr>config := Config (JObj data), secrets := secs, store := s\<rparr>)"
      using \<open>current_request_principal r st = Inr p\<close> res s e(4) by (simp add: edit_handler_def install_def)
    moreover have "management_admin p"
      using perform_edit_admin [of sh message db p e st s] res s by simp
    ultimately show thesis
      using Done \<open>current_request_principal r st = Inr p\<close> res s e by simp
  qed
qed

section \<open>The file and the store agree\<close>

definition consistent :: "(json \<Rightarrow> string) \<Rightarrow> access_state \<Rightarrow> bool" where
  "consistent sh st \<longleftrightarrow>
     (\<exists>secs secs'. from_file sh (config st) (admin_token st) secs = (Inr (store st), secs'))"

interpretation edits: transition_system "consistent sh" "edit_step sh message" "consistent sh"
proof unfold_locales
  fix st st' assume "edit_step sh message st st'" and c: "consistent sh st"
  then show "consistent sh st'"
  proof (cases rule: edit_step.cases)
    case (Edit db r e)
    then show ?thesis
      using c by (cases sh message db r e st rule: edit_handler_cases) (auto simp: consistent_def)
  next
    case (Auth now r)
    then obtain l where "st' = st\<lparr>auth_limiter := l\<rparr>" using require_auth_state [of now r st] by auto
    with c show ?thesis by (simp add: consistent_def)
  qed
qed

text \<open>A retired id stays in the file.\<close>

definition retired :: "(json \<Rightarrow> string) \<Rightarrow> string \<Rightarrow> access_state \<Rightarrow> bool" where
  "retired sh tid st \<longleftrightarrow> consistent sh st \<and> (\<exists>data. config st = Config (JObj data) \<and> is_retired tid data)
     \<and> (strip (admin_token st) = [] \<or> tid \<noteq> management_principal_id)"

lemma read_auth_config_retired:
  "read_auth_config (Config (JObj data)) = Inr old \<Longrightarrow> is_retired t data \<Longrightarrow> is_retired t old"
  by (auto simp: read_auth_config_def Let_def is_retired_def entries_def split: option.splits json.splits)

interpretation retirement: transition_system "retired sh tid" "edit_step sh message" "retired sh tid"
proof unfold_locales
  fix st st' assume step: "edit_step sh message st st'" and c: "retired sh tid st"
  from c have "consistent sh st" by (simp add: retired_def)
  with step have con: "consistent sh st'" by (rule edits.step_inv)
  from c obtain data where data: "config st = Config (JObj data)" "is_retired tid data"
    "strip (admin_token st) = [] \<or> tid \<noteq> management_principal_id"
    by (auto simp: retired_def)
  show "retired sh tid st'"
    using step
  proof (cases rule: edit_step.cases)
    case (Edit db r e)
    then show ?thesis
      using con data read_auth_config_retired [of data]
      by (cases sh message db r e st rule: edit_handler_cases) (auto simp: retired_def)
  next
    case (Auth now r)
    then obtain l where "st' = st\<lparr>auth_limiter := l\<rparr>" using require_auth_state [of now r st] by auto
    with con data show ?thesis by (simp add: retired_def)
  qed
qed

lemma retired_ids_strip:
  "retired_ids (map_of data ''retired_relay_token_ids'') = Some rs \<Longrightarrow> is_retired tid data \<Longrightarrow> strip tid \<in> set rs"
  by (cases "map_of data ''retired_relay_token_ids''")
    (auto simp: is_retired_def entries_def list_all_iff split: if_splits elim!: retired_ids.elims,
      rule rev_image_eqI, assumption, simp)

lemma from_file_retired:
  assumes "from_file sh (Config (JObj data)) admin secs = (Inr s, secs')"
    and "is_retired tid data" and "strip tid = tid" and "(t, p) \<in> set (tokens s)" and "principal_id p = tid"
  shows "strip admin \<noteq> [] \<and> p = admin_principal"
proof -
  obtain keys s1 where k: "parse_kaggle_keys sh (map_of data ''kaggle_keys'') secs = (Inr keys, s1)"
    using assms(1) by (auto simp: from_file_def split: prod.splits sum.splits)
  obtain relay s2 where r: "parse_relay_tokens sh (map_of data ''relay_tokens'') (fst ` set keys) (admin \<noteq> []) s1
      = (Inr relay, s2)"
    using assms(1) by (auto simp: from_file_def k split: prod.splits sum.splits)
  obtain rs where rs: "retired_ids (map_of data ''retired_relay_token_ids'') = Some rs"
    using assms(1) by (auto simp: from_file_def k r split: option.splits)
  have nin: "\<forall>x \<in> set relay. fst x \<notin> set rs"
    using assms(1) by (auto simp: from_file_def k r rs list_ex_iff split: if_splits)
  obtain viewers where n: "new_store relay keys False admin viewers s2 = (Inr s, secs')"
    using assms(1) by (auto simp: from_file_def k r rs Let_def split: if_splits)
  have "strip admin \<noteq> [] \<and> p = admin_principal \<or> (\<exists>x \<in> set relay. principal_id p = fst x)"
    using n assms(4)
    by (auto simp: new_store_def Let_def split: if_splits option.splits bool.splits)
      (auto dest!: arg_cong [where f = "\<lambda>x. principal_id (snd x)"] intro: rev_bexI)
  with nin retired_ids_strip [OF rs assms(2)] assms(3,5) show ?thesis by auto
qed

lemma from_file_management:
  assumes "from_file sh content admin secs = (Inr s, secs')" and "strip admin \<noteq> []"
    and "(t, p) \<in> set (tokens s)" and "principal_id p = management_principal_id"
  shows "management_admin p"
proof -
  obtain relay keys viewers secs0 where "new_store relay keys False admin viewers secs0 = (Inr s, secs')"
    using from_file_new_store [OF assms(1)] by blast
  with assms(2-4) show ?thesis
    by (auto simp: new_store_def Let_def list_ex_iff admin_principal_def split: if_splits option.splits bool.splits)
      (auto dest!: arg_cong [where f = "\<lambda>x. principal_id (snd x)"])
qed

section \<open>Properties\<close>

text \<open>
  An edit of the access configuration is all or nothing and reserved to administrators: either
  it is refused and neither the file nor the loaded store changes, or the caller authenticates as an
  administrator under the current store, and the new file loads to exactly the store installed.
\<close>

theorem edit_all_or_nothing:
  "case edit_handler sh message db r e st of
     (Inl err, st') \<Rightarrow> config st' = config st \<and> store st' = store st
   | (Inr s, st') \<Rightarrow>
       store st' = s \<and> (\<exists>p. current_request_principal r st = Inr p \<and> management_admin p)
       \<and> (\<exists>secs. from_file sh (config st') (admin_token st') (secrets st) = (Inr s, secs))"
  by (cases sh message db r e st rule: edit_handler_cases) auto

text \<open>
  C34: Deleting a relay token is final: after the deletion, whatever authentications and edits
  follow, no principal but the administrator ever carries the deleted id again, so the jobs the id
  owned cannot pass to a new user.
\<close>

theorem deleted_token_never_returns:
  assumes "consistent sh st" and "edit_handler sh message db r (Delete_token tid) st = (Inr s, st1)"
    and "(edit_step sh message)\<^sup>*\<^sup>* st1 st2"
  shows "tid \<notin> set (map (principal_id \<circ> snd) (tokens (store st2)))"
proof -
  obtain owner data where st1: "config st1 = Config (JObj data)" "is_retired tid data" "admin_token st1 = admin_token st"
    and ow: "owner \<in> set (tokens (store st))" "principal_id (snd owner) = tid" "\<not> management_admin (snd owner)"
  proof -
    obtain q where q: "current_request_principal r st = Inr q"
      and r1: "install (delete_relay_token_config sh message db q tid st) = (Inr s, st1)"
      using assms(2) by (auto simp: edit_handler_def split: sum.splits)
    obtain st0 where d: "delete_relay_token_config sh message db q tid st = (Inr s, st0)"
      and st1: "st1 = st0\<lparr>store := s\<rparr>"
      using r1 by (auto simp: install_def split: prod.splits sum.splits)
    obtain v owner where f: "find (\<lambda>t. principal_id (snd t) = tid) (tokens (store st)) = Some (v, owner)"
      using d by (auto simp: delete_relay_token_config_def with_admin_def split: option.splits)
    obtain data where data: "read_auth_config (config st) = Inr data"
      and v: "validate_and_write sh message
         (AList.update ''retired_relay_token_ids'' (JArr (retire tid (entries ''retired_relay_token_ids'' data)))
           (AList.update ''relay_tokens''
             (JArr (filter (\<lambda>i. \<not> entry_is sh ''id'' tid i) (entries ''relay_tokens'' data))) data)) st
         = (Inr s, st0)"
      and mo: "\<not> management_admin owner"
      using d by (auto simp: delete_relay_token_config_def with_admin_def f with_config_def
          split: option.splits if_splits sum.splits)
    from v have "admin_token st0 = admin_token st"
      by (auto simp: validate_and_write_def split: prod.splits sum.splits)
    moreover from v have "config st0 = Config (JObj (AList.update ''retired_relay_token_ids''
        (JArr (retire tid (entries ''retired_relay_token_ids'' data)))
        (AList.update ''relay_tokens''
             (JArr (filter (\<lambda>i. \<not> entry_is sh ''id'' tid i) (entries ''relay_tokens'' data))) data)))"
      by (auto simp: validate_and_write_def split: prod.splits sum.splits)
    ultimately show thesis
      using that [of _ "(v, owner)"] find_SomeD [OF f] st1 mo by (simp add: is_retired_retire)
  qed
  have "edit_step sh message st st1"
    using edit_step.Edit [of sh message st db r "Delete_token tid"] by (simp add: assms(2))
  with assms(1) have "consistent sh st1" by (blast intro: edits.step_inv)
  obtain secs secs' where load: "from_file sh (config st) (admin_token st) secs = (Inr (store st), secs')"
    using assms(1) by (auto simp: consistent_def)
  have "wf_store (store st)" using load by (rule loaded_config_sound_aux)
  with ow have tid: "strip tid = tid" by (auto simp: wf_store_def)
  have "strip (admin_token st) = [] \<or> tid \<noteq> management_principal_id"
    using from_file_management [OF load, of "fst owner" "snd owner"] ow by auto
  with st1 \<open>consistent sh st1\<close> have "retired sh tid st1" by (auto simp: retired_def)
  with assms(3) have "retired sh tid st2" by (rule retirement.steps_inv)
  then obtain data' secs secs' where d: "is_retired tid data'"
    and f: "from_file sh (Config (JObj data')) (admin_token st2) secs = (Inr (store st2), secs')"
    and a: "strip (admin_token st2) = [] \<or> tid \<noteq> management_principal_id"
    by (auto simp: retired_def consistent_def)
  show ?thesis
  proof
    assume "tid \<in> set (map (principal_id \<circ> snd) (tokens (store st2)))"
    then obtain t p where "(t, p) \<in> set (tokens (store st2))" and p: "principal_id p = tid" by auto
    from from_file_retired [OF f d tid this] a p show False by (auto simp: admin_principal_def)
  qed
qed

definition sample_request :: request where
  "sample_request = \<lparr>authorization = ''Bearer tok'', session = (\<lambda>_. None), source = ''ip'',
     unsafe_method = True, same_origin = True\<rparr>"

definition sample_access :: access_state where
  "sample_access = \<lparr>has_config_path = True, admin_token = [], config = sample_config, store = sample_store,
     secrets = [], auth_limiter = new_limiter 3 60 300\<rparr>"

lemma sample_delete:
  "\<exists>s st1. edit_handler (\<lambda>_. []) (\<lambda>_. []) (sample_db []) sample_request (Delete_token ''bob'') sample_access = (Inr s, st1)"
proof -
  have "\<not> isl (fst (edit_handler (\<lambda>_. []) (\<lambda>_. []) (sample_db []) sample_request (Delete_token ''bob'') sample_access))"
    by code_simp
  then show ?thesis
    by (cases "edit_handler (\<lambda>_. []) (\<lambda>_. []) (sample_db []) sample_request (Delete_token ''bob'') sample_access";
        cases "fst (edit_handler (\<lambda>_. []) (\<lambda>_. []) (sample_db []) sample_request (Delete_token ''bob'') sample_access)")
      auto
qed

lemma deleted_token_never_returns_witness:
  "\<exists>s st1. edit_handler (\<lambda>_. []) (\<lambda>_. []) (sample_db []) sample_request (Delete_token ''bob'') sample_access = (Inr s, st1)
     \<and> ''bob'' \<notin> set (map (principal_id \<circ> snd) (tokens (store st1)))"
proof -
  have "consistent (\<lambda>_. []) sample_access"
    using sample_config_loads by (auto simp: consistent_def sample_access_def)
  moreover obtain s st1 where e: "edit_handler (\<lambda>_. []) (\<lambda>_. []) (sample_db []) sample_request (Delete_token ''bob'') sample_access
      = (Inr s, st1)"
    using sample_delete by blast
  ultimately have "''bob'' \<notin> set (map (principal_id \<circ> snd) (tokens (store st1)))"
    by (rule deleted_token_never_returns) (rule rtranclp.rtrancl_refl)
  with e show ?thesis by blast
qed

text \<open>
  The job listing shows a principal nothing it could not open: every job it returns without an
  owner filter passes the access check of the single-job handlers. A job that waits for an account
  carries a provisional one out of its pool.
\<close>

theorem listing_within_access:
  assumes "wf_store s" and "\<not> store_legacy s" and "(t, p) \<in> set (tokens s)"
    and "\<forall>j \<in> set (jobs db). awaiting_assignment j \<longrightarrow> kaggle_key_id j \<in> fst ` set (eligible_accounts j)"
    and "list_jobs_handler db s p None statuses active limit search = Inr js" and "j \<in> set js"
  shows "can_access_job j p s"
proof -
  from assms(1,3) have p: "\<not> legacy p" "principal_id p \<noteq> []" "strip (principal_id p) = principal_id p"
    by (auto simp: wf_store_def)
  have k: "k \<noteq> [] \<and> strip k = k \<and> allows_key p k" if "k \<in> set (allowed_key_ids s p False)" for k
    using that enabled_allowed [OF assms(2) p(1) that] assms(1,2)
    by (auto simp: wf_store_def wf_keys_def set_allowed_key_ids)
  let ?keys = "if allow_all_keys p then None else Some (set (allowed_key_ids s p False))"
  let ?own = "if allow_all_keys p then None else Some (principal_id p)"
  obtain st where js: "js = list_jobs db ?keys ?own st False limit search"
    using assms(2,5) by (auto simp: list_jobs_handler_def Let_def split: sum.splits)
  then have "j \<in> set (jobs db)" and v: "visible ?keys ?own False j"
    using assms(6) by (auto simp: list_jobs_def listing_match_def dest!: in_set_takeD)
  with assms(4) have w: "awaiting_assignment j \<Longrightarrow> kaggle_key_id j \<in> fst ` set (eligible_accounts j)" by blast
  show ?thesis
  proof (cases "allow_all_keys p")
    case True
    then have "can_access_key p k" for k
      using p by (simp add: can_access_key_def allows_key_def allow_all_keys_def)
    moreover from this have "awaiting_assignment j \<Longrightarrow> list_ex (\<lambda>a. can_access_key p (fst a)) (eligible_accounts j)"
      using w by (auto simp: list_ex_iff)
    ultimately show ?thesis
      using True assms(2) by (simp add: can_access_job_def Let_def)
  next
    case False
    with v have own: "relay_token_id j = principal_id p"
      and key: "kaggle_key_id j \<in> set (allowed_key_ids s p False)
        \<or> awaiting_assignment j \<and> list_ex (\<lambda>a. fst a \<in> set (allowed_key_ids s p False)) (eligible_accounts j)"
      by (auto simp: visible_def awaiting_assignment_def split: if_splits)
    have "if awaiting_assignment j then list_ex (\<lambda>a. can_access_key p (fst a)) (eligible_accounts j)
        else can_access_key p (kaggle_key_id j)"
    proof (cases "awaiting_assignment j")
      case True
      with key w obtain a where "a \<in> set (eligible_accounts j)" "fst a \<in> set (allowed_key_ids s p False)"
        by (auto simp: list_ex_iff)
      with k [of "fst a"] have "list_ex (\<lambda>a. can_access_key p (fst a)) (eligible_accounts j)"
        by (auto simp: can_access_key_def list_ex_iff intro!: bexI [of _ a])
      with True show ?thesis by simp
    next
      case False
      with key k show ?thesis by (auto simp: can_access_key_def)
    qed
    with own p assms(2) show ?thesis by (simp add: can_access_job_def Let_def)
  qed
qed

lemma listing_within_access_witness:
  "\<exists>js. list_jobs_handler (sample_db [sample_job\<lparr>relay_token_id := ''bob''\<rparr>]) sample_store
       (snd (tokens sample_store ! 1)) None [] False 50 [] = Inr js
     \<and> (\<forall>j \<in> set js. can_access_job j (snd (tokens sample_store ! 1)) sample_store) \<and> length js = 1"
proof -
  let ?j = "sample_job\<lparr>relay_token_id := ''bob''\<rparr>" and ?p = "snd (tokens sample_store ! 1)"
  have wf: "wf_store sample_store" using sample_config_loads by (rule loaded_config_sound_aux)
  define p where "p = ?p"
  have keys: "allowed_key_ids sample_store p False = [''acct'']"
    by (simp add: p_def allowed_key_ids_def sample_store_def key_enabled_def sample_key_def)
  have p: "\<not> store_legacy sample_store" "\<not> allow_all_keys p" "principal_id p = ''bob''"
    "(fst (tokens sample_store ! 1), p) \<in> set (tokens sample_store)"
    by (simp_all add: p_def sample_store_def allow_all_keys_def)
  have "strip [] = []" by (simp add: strip_def)
  then have js: "list_jobs_handler (sample_db [?j]) sample_store p None [] False 50 [] = Inr [?j]"
    by (simp add: list_jobs_handler_def keys p Let_def status_filter_for_list_def split_query_values_def
        list_jobs_def listing_match_def visible_def search_match_def newest_first_def safe_limit_def)
  moreover have "\<forall>j \<in> set [?j]. can_access_job j p sample_store"
    using listing_within_access [OF wf p(1,4) _ js]
    by (simp add: awaiting_assignment_def)
  ultimately have "\<exists>js. list_jobs_handler (sample_db [?j]) sample_store p None [] False 50 [] = Inr js
     \<and> (\<forall>j \<in> set js. can_access_job j p sample_store) \<and> length js = 1" by auto
  then show ?thesis by (simp only: p_def)
qed

end
