(* ===== verification/Admission.thy ===== *)
theory Admission
  imports Access
begin

text \<open>
  Admission of a job: Kaggle references and their owners (\<^verbatim>\<open>app/worker.py\<close>, \<^verbatim>\<open>app/main.py\<close>), the
  choice of an account by quota and load, the storage budget (\<^verbatim>\<open>app/capacity.py\<close>), the validation
  of a creation request (\<^verbatim>\<open>app/schemas.py\<close>) and the handler that creates the job. What the remote
  quota service answers for an account is a parameter, \<open>lookup\<close>, with \<open>Inl\<close> for an exception; the free
  bytes of the disk and the fresh identifier of the job are arguments.
\<close>

section \<open>Kaggle references\<close>

datatype archive_error = ArchiveError string

definition split_kaggle_ref :: "string \<Rightarrow> string \<Rightarrow> archive_error + (string \<times> string)" where
  "split_kaggle_ref v nm =
     (case split_once (CHR ''/'') (strip v) of
        [a, b] \<Rightarrow>
          if strip a = [] \<or> strip b = [] then Inl (ArchiveError (nm @ '' must be in owner/slug format''))
          else Inr (strip a, strip b)
      | _ \<Rightarrow> Inl (ArchiveError (nm @ '' must be in owner/slug format'')))"

definition kaggle_ref_slug :: "string \<Rightarrow> string" where
  "kaggle_ref_slug v =
     (case split_on (CHR ''/'') (strip v) of a # b # _ \<Rightarrow> strip b | _ \<Rightarrow> [])"

definition rewrite_ref_owner :: "string \<Rightarrow> string \<Rightarrow> archive_error + string" where
  "rewrite_ref_owner v owner =
     (let owner = strip owner in
      if owner = [] then Inr (strip v)
      else case split_kaggle_ref v ''kaggle ref'' of
             Inl e \<Rightarrow> Inl e
           | Inr (_, slug) \<Rightarrow> Inr (owner @ ''/'' @ slug))"

definition ref_owner :: "string \<Rightarrow> string" where
  "ref_owner v = (case split_once (CHR ''/'') (strip v) of [a, b] \<Rightarrow> strip a | _ \<Rightarrow> [])"

definition requested_owner_from_refs :: "string \<Rightarrow> string \<Rightarrow> string reply" where
  "requested_owner_from_refs dref kref =
     (let d = ref_owner dref; k = ref_owner kref
      in if d \<noteq> [] \<and> k \<noteq> [] \<and> lower d \<noteq> lower k
         then Inl (HTTPException 400 (''dataset_ref owner '' @ d @ '' does not match kernel_ref owner '' @ k))
         else Inr (if d \<noteq> [] then d else k))"

definition final_job_refs :: "string \<Rightarrow> string \<Rightarrow> string \<Rightarrow> (string \<times> string) reply" where
  "final_job_refs dref kref uname =
     (let uname = strip uname in
      if uname = [] then Inr (dref, kref)
      else case rewrite_ref_owner dref uname of
          Inl (ArchiveError m) \<Rightarrow> Inl (HTTPException 400 m)
        | Inr d \<Rightarrow>
            (case rewrite_ref_owner kref uname of
               Inl (ArchiveError m) \<Rightarrow> Inl (HTTPException 400 m)
             | Inr k \<Rightarrow> Inr (d, k)))"

section \<open>Quota\<close>

record accelerator =
  acc_resource :: string
  acc_remaining :: rat

record quota =
  quota_available :: bool
  accelerators :: "accelerator list"
  identity_verified :: bool
  identity_error :: string

type_synonym quota_lookup = "string \<Rightarrow> string + quota"

text \<open>Upper case of ASCII names is compared as lower case.\<close>

definition same_resource :: "string \<Rightarrow> accelerator \<Rightarrow> bool" where
  "same_resource r a \<longleftrightarrow> lower (acc_resource a) = lower r"

definition quota_remaining_hours :: "quota \<Rightarrow> string \<Rightarrow> rat option" where
  "quota_remaining_hours q preferred =
     (if \<not> quota_available q then None
      else case find (same_resource preferred) (accelerators q) of
          Some a \<Rightarrow> Some (acc_remaining a)
        | None \<Rightarrow>
            if accelerators q = [] then Some 0
            else Some (foldr max (map acc_remaining (tl (accelerators q))) (acc_remaining (hd (accelerators q)))))"

record key_quotas =
  candidates :: "(rat \<times> string) list"
  exhausted :: "string list"
  unavailable :: "string list"

definition classify_key :: "string list \<Rightarrow> quota_lookup \<Rightarrow> string \<Rightarrow> key_quotas \<Rightarrow> key_quotas" where
  "classify_key secs lookup k r =
     (case lookup k of
        Inl err \<Rightarrow> r\<lparr>unavailable := unavailable r @ [k @ '': '' @ last_chars 300 (redact_secrets secs err)]\<rparr>
      | Inr q \<Rightarrow>
          if \<not> identity_verified q
          then r\<lparr>unavailable := unavailable r @ [k @ '': owner identity unverified'']\<rparr>
          else case quota_remaining_hours q ''GPU'' of
              None \<Rightarrow> r\<lparr>unavailable := unavailable r @ [k @ '': quota unavailable'']\<rparr>
            | Some h \<Rightarrow>
                if 0 < h then r\<lparr>candidates := candidates r @ [(h, k)]\<rparr>
                else r\<lparr>exhausted := exhausted r @ [k]\<rparr>)"

definition no_quotas :: key_quotas where
  "no_quotas = \<lparr>candidates = [], exhausted = [], unavailable = []\<rparr>"

definition quota_key_candidates :: "string list \<Rightarrow> quota_lookup \<Rightarrow> string list \<Rightarrow> key_quotas" where
  "quota_key_candidates secs lookup keys = fold (classify_key secs lookup) keys no_quotas"

definition key_username :: "auth_store \<Rightarrow> string \<Rightarrow> string" where
  "key_username s k = (case map_of (kaggle_keys s) k of None \<Rightarrow> [] | Some c \<Rightarrow> strip (username c))"

definition quota_reply :: "key_quotas \<Rightarrow> string list \<Rightarrow> string list \<Rightarrow> (rat \<times> string) list reply" where
  "quota_reply r exh unav =
     (if candidates r \<noteq> [] then Inr (candidates r)
      else if exh @ exhausted r \<noteq> []
      then Inl (HTTPException 409 ''no allowed kaggle key has remaining GPU quota'')
      else Inl (HTTPException 503
        (''unable to read quota for allowed kaggle keys''
         @ (if unav @ unavailable r = [] then [] else '': '' @ join ''; '' (unav @ unavailable r)))))"

definition select_kaggle_key_candidates ::
  "string list \<Rightarrow> quota_lookup \<Rightarrow> auth_store \<Rightarrow> principal \<Rightarrow> string \<Rightarrow> (rat \<times> string) list reply" where
  "select_kaggle_key_candidates secs lookup s p owner =
     (let allowed = public_allowed_key_ids s p; owner = strip owner in
      if owner = [] then quota_reply (quota_key_candidates secs lookup allowed) [] []
      else
        let preferred = filter (\<lambda>k. lower (key_username s k) = lower owner) allowed;
            fallback = filter (\<lambda>k. lower (key_username s k) \<noteq> lower owner \<and> key_username s k \<noteq> []) allowed;
            nameless = map (\<lambda>k. k @ '': username required to rewrite owner'')
              (filter (\<lambda>k. lower (key_username s k) \<noteq> lower owner \<and> key_username s k = []) allowed);
            r = quota_key_candidates secs lookup preferred
        in if candidates r \<noteq> [] then Inr (candidates r)
           else quota_reply (quota_key_candidates secs lookup fallback)
                  (exhausted r) (nameless @ unavailable r))"

definition selection_reply :: "selection_error + 'a \<Rightarrow> 'a reply" where
  "selection_reply r = (case r of Inl (SelectionError m st) \<Rightarrow> Inl (HTTPException st m) | Inr v \<Rightarrow> Inr v)"

definition resolve_job_kaggle_candidates ::
  "string list \<Rightarrow> quota_lookup \<Rightarrow> auth_store \<Rightarrow> principal \<Rightarrow> string \<Rightarrow> string \<Rightarrow> string
   \<Rightarrow> (rat \<times> string) list reply" where
  "resolve_job_kaggle_candidates secs lookup s p requested dref kref =
     (let requested = strip requested in
      if requested \<noteq> [] \<or> store_legacy s \<or> length (public_allowed_key_ids s p) \<le> 1
      then (case resolve_kaggle_key_id s p requested of
              Inl (SelectionError m st) \<Rightarrow> Inl (HTTPException st m) | Inr k \<Rightarrow> Inr [(0, k)])
      else case requested_owner_from_refs dref kref of
          Inl e \<Rightarrow> Inl e
        | Inr owner \<Rightarrow> select_kaggle_key_candidates secs lookup s p owner)"

fun max_candidate :: "(rat \<times> string) list \<Rightarrow> (rat \<times> string) option" where
  "max_candidate [] = None"
| "max_candidate (c # cs) = Some (foldl max c cs)"

section \<open>Load\<close>

text \<open>Jobs are counted per remote user, so two keys of one user share a load.\<close>

definition account_key :: "auth_store \<Rightarrow> string \<Rightarrow> string" where
  "account_key s k =
     (let uname = (case credentials_for s k of Inr (Some c) \<Rightarrow> lower (strip (username c)) | _ \<Rightarrow> [])
      in if uname \<noteq> [] then ''user:'' @ uname else ''key:'' @ k)"

definition account_load :: "relay_db \<Rightarrow> auth_store \<Rightarrow> string \<Rightarrow> nat" where
  "account_load db s acct =
     length (filter (\<lambda>j. account_key s (kaggle_key_id j) = acct) (list_jobs_by_status db active_statuses))"

definition load_rank :: "relay_db \<Rightarrow> auth_store \<Rightarrow> rat \<times> string \<Rightarrow> nat \<times> rat \<times> string" where
  "load_rank db s c = (account_load db s (account_key s (snd c)), - fst c, snd c)"

fun least_by :: "('a \<Rightarrow> 'b::linorder) \<Rightarrow> 'a \<Rightarrow> 'a list \<Rightarrow> 'a" where
  "least_by f x [] = x"
| "least_by f x (y # ys) = least_by f (if f y < f x then y else x) ys"

text \<open>\<^verbatim>\<open>min\<close> of an empty list raises; \<open>None\<close> stands for it.\<close>

definition least_loaded_key :: "relay_db \<Rightarrow> auth_store \<Rightarrow> (rat \<times> string) list \<Rightarrow> string option" where
  "least_loaded_key db s cs =
     (case cs of [] \<Rightarrow> None | c # cs \<Rightarrow> Some (snd (least_by (load_rank db s) c cs)))"

section \<open>The storage budget\<close>

record settings =
  max_active_jobs :: nat
  max_active_jobs_per_user :: nat
  min_free_bytes :: int
  max_archive_bytes :: int
  setting_chunk_size :: int
  account_concurrency :: nat
  max_parallel_uploads :: nat
  max_parallel_uploads_per_user :: nat
  receiving_retention_hours :: rat
  receiving_timeout_hours :: rat
  retention_hours :: rat

datatype capacity_error = Storage_full | Job_limit

definition check_free :: "settings \<Rightarrow> int \<Rightarrow> int \<Rightarrow> capacity_error option" where
  "check_free cfg disk_free needed =
     (if disk_free < min_free_bytes cfg + needed then Some Storage_full else None)"

definition live_jobs :: "relay_db \<Rightarrow> job list" where
  "live_jobs db = filter (\<lambda>j. \<not> terminal (status j)) (jobs db)"

definition check_admission ::
  "settings \<Rightarrow> relay_db \<Rightarrow> int \<Rightarrow> string \<Rightarrow> int \<Rightarrow> capacity_error option" where
  "check_admission cfg db disk_free owner reserved =
     (if max_active_jobs cfg \<le> length (live_jobs db)
         \<or> max_active_jobs_per_user cfg \<le> length (filter (\<lambda>j. relay_token_id j = owner) (live_jobs db))
      then Some Job_limit
      else check_free cfg disk_free (total_reserved_bytes db [] + reserved))"

definition reserve ::
  "settings \<Rightarrow> relay_db \<Rightarrow> int \<Rightarrow> time \<Rightarrow> string \<Rightarrow> int \<Rightarrow> capacity_error + relay_db" where
  "reserve cfg db disk_free now jid needed =
     (case check_free cfg disk_free (total_reserved_bytes db jid + needed) of
        Some e \<Rightarrow> Inl e
      | None \<Rightarrow> Inr (update_job db now jid [Set_reserved_bytes needed]))"

definition consume_bytes :: "relay_db \<Rightarrow> string \<Rightarrow> int \<Rightarrow> relay_db" where
  "consume_bytes db jid n =
     update_rows (\<lambda>j. job_id j = jid) (\<lambda>j. j\<lparr>reserved_bytes := max 0 (reserved_bytes j - n)\<rparr>) db"

text \<open>
  \<^verbatim>\<open>max(1, math.ceil(total / chunk))\<close>; the code divides in floating point, which gives the same number for the
  sizes a request may have (up to the limits of the configuration, far below \<^verbatim>\<open>2 ** 53\<close> bytes).
\<close>

definition expected_chunk_count :: "int \<Rightarrow> int \<Rightarrow> archive_error + int" where
  "expected_chunk_count sz chunk =
     (if sz < 0 \<or> chunk \<le> 0 then Inl (ArchiveError ''invalid archive size or chunk size'')
      else Inr (max 1 (- ((- sz) div chunk))))"

text \<open>The digits of a number.\<close>

fun nat_text :: "nat \<Rightarrow> string" where
  "nat_text n = (if n < 10 then [] else nat_text (n div 10)) @ [char_of (48 + n mod 10)]"

declare nat_text.simps [simp del]

definition int_text :: "int \<Rightarrow> string" where
  "int_text n = (if n < 0 then ''-'' @ nat_text (nat (- n)) else nat_text (nat n))"

definition validate_chunk_index :: "int \<Rightarrow> int \<Rightarrow> int \<Rightarrow> archive_error option" where
  "validate_chunk_index i sz chunk =
     (case expected_chunk_count sz chunk of
        Inl e \<Rightarrow> Some e
      | Inr n \<Rightarrow> if i < 0 \<or> n \<le> i then
          Some (ArchiveError (''chunk index '' @ int_text i @ '' out of range 0..'' @ int_text (n - 1))) else None)"

section \<open>The creation request\<close>

record create_request =
  r_kaggle_key_id :: string
  r_scheduling_mode :: scheduling_mode
  r_dataset_ref :: string
  r_kernel_ref :: string
  r_dataset_sha :: string
  r_kernel_sha :: string
  r_dataset_size :: int
  r_kernel_size :: int
  r_chunk_size :: int
  r_payload_hash :: string
  r_callback_sha :: string
  r_dataset_id :: string
  r_identity_sha256 :: string
  r_run_id :: string
  r_run_identity_sha256 :: string
  r_artifact_contract :: string

datatype validation_error = Identity_incomplete | Contract_needs_identity | Yolo_with_identity

definition frozen_fields :: "create_request \<Rightarrow> string list" where
  "frozen_fields r = [r_dataset_id r, r_identity_sha256 r, r_run_id r, r_run_identity_sha256 r]"

definition patchcore_contracts :: "string set" where
  "patchcore_contracts = {''patchcore'', ''patchcore_dinov2_v3'', ''patchcore_dinov2_251_onnx_v1'',
     ''patchcore_dinov2_251_onnx_v2''}"

definition validate_frozen_identity :: "create_request \<Rightarrow> validation_error + create_request" where
  "validate_frozen_identity r =
     (let r = r\<lparr>r_dataset_id := strip (r_dataset_id r), r_identity_sha256 := strip (r_identity_sha256 r),
               r_run_id := strip (r_run_id r), r_run_identity_sha256 := strip (r_run_identity_sha256 r)\<rparr>;
          any = list_ex (\<lambda>v. v \<noteq> []) (frozen_fields r); all = list_all (\<lambda>v. v \<noteq> []) (frozen_fields r)
      in if any \<and> \<not> all then Inl Identity_incomplete
         else
           let c = lower (strip (r_artifact_contract r));
               c = (if c \<noteq> [] then c else if all then ''patchcore'' else ''yolo'')
           in if c \<in> patchcore_contracts \<and> \<not> all then Inl Contract_needs_identity
              else if c = ''yolo'' \<and> any then Inl Yolo_with_identity
              else Inr (r\<lparr>r_artifact_contract := c\<rparr>))"

section \<open>Creating a job\<close>

definition job_values_of ::
  "create_request \<Rightarrow> string \<Rightarrow> string \<Rightarrow> string \<Rightarrow> string \<Rightarrow> string \<Rightarrow> int \<Rightarrow> bool \<Rightarrow> string dict \<Rightarrow> job_values" where
  "job_values_of r jid dref kref owner key reserved dynamic accounts = \<lparr>
     v_job_id = jid, v_dataset_ref = dref, v_kernel_ref = kref,
     v_dataset_archive_sha256 = r_dataset_sha r, v_kernel_archive_sha256 = r_kernel_sha r,
     v_dataset_size = r_dataset_size r, v_kernel_size = r_kernel_size r, v_chunk_size = r_chunk_size r,
     v_payload_hash = Some (r_payload_hash r), v_dataset_id = Some (r_dataset_id r),
     v_identity_sha256 = Some (r_identity_sha256 r), v_run_id = Some (r_run_id r),
     v_run_identity_sha256 = Some (r_run_identity_sha256 r),
     v_artifact_contract = Some (r_artifact_contract r),
     v_callback_token_sha256 = Some (r_callback_sha r), v_relay_token_id = Some owner,
     v_kaggle_key_id = Some key, v_reserved_bytes = Some reserved,
     v_scheduling_mode = Some (if dynamic then Dynamic else Fixed),
     v_assignment_state = Some (if dynamic then Pending else Bound),
     v_eligible_accounts = Some accounts,
     v_callback_kernel_ref = Some (if dynamic then r_kernel_ref r else [])\<rparr>"

definition named_accounts :: "auth_store \<Rightarrow> principal \<Rightarrow> string dict" where
  "named_accounts s p =
     map (\<lambda>k. (k, (case map_of (kaggle_keys s) k of None \<Rightarrow> [] | Some c \<Rightarrow> username c)))
       (filter (\<lambda>k. (case map_of (kaggle_keys s) k of None \<Rightarrow> False | Some c \<Rightarrow> username c \<noteq> []))
         (allowed_key_ids s p False))"

definition job_candidates ::
  "string list \<Rightarrow> quota_lookup \<Rightarrow> auth_store \<Rightarrow> principal \<Rightarrow> create_request
   \<Rightarrow> (bool \<times> string dict \<times> (rat \<times> string) list) reply" where
  "job_candidates secs lookup s p r =
     (if r_scheduling_mode r = Dynamic \<and> r_kaggle_key_id r = [] \<and> \<not> store_legacy s
      then (case requested_owner_from_refs (r_dataset_ref r) (r_kernel_ref r) of
              Inl e \<Rightarrow> Inl e
            | Inr _ \<Rightarrow>
                let accounts = named_accounts s p
                in if accounts = []
                   then Inl (HTTPException 409 ''dynamic scheduling requires an allowed account with a username'')
                   else Inr (True, accounts, map (\<lambda>a. (0, fst a)) accounts))
      else (case resolve_job_kaggle_candidates secs lookup s p (r_kaggle_key_id r) (r_dataset_ref r) (r_kernel_ref r) of
              Inl e \<Rightarrow> Inl e | Inr cs \<Rightarrow> Inr (False, [], cs)))"

definition size_limits :: "settings \<Rightarrow> create_request \<Rightarrow> http_error option" where
  "size_limits cfg r =
     (if max_archive_bytes cfg < max (r_dataset_size r) (r_kernel_size r)
         \<or> setting_chunk_size cfg < r_chunk_size r
      then Some (HTTPException 413 ''archive or chunk exceeds the configured size limit'')
      else case (expected_chunk_count (r_dataset_size r) (r_chunk_size r),
                 expected_chunk_count (r_kernel_size r) (r_chunk_size r)) of
          (Inr d, Inr k) \<Rightarrow>
            if 65536 < max d k
            then Some (HTTPException 413 ''archive has too many chunks; use a larger chunk size'') else None
        | _ \<Rightarrow> Some internal_error)"

definition reservation :: "create_request \<Rightarrow> int" where
  "reservation r = 3 * (r_dataset_size r + r_kernel_size r)"

text \<open>
  The handler of \<^verbatim>\<open>POST /v1/jobs\<close>. The candidates are chosen under the store \<open>s\<close> and principal \<open>p\<close>
  of the request; under the budget lock the caller is authenticated again (\<open>recheck\<close>), and the
  request is refused if the store was replaced meanwhile.
\<close>

definition capacity_reply :: "capacity_error \<Rightarrow> http_error" where
  "capacity_reply e =
     (case e of
        Storage_full \<Rightarrow> HTTPException 503 ''relay storage is full or below its reserved free-space limit; retry later''
      | Job_limit \<Rightarrow> HTTPException 503 ''relay active job limit reached; finish or cancel an existing job'')"

definition create_job_handler ::
  "settings \<Rightarrow> string list \<Rightarrow> quota_lookup \<Rightarrow> auth_store \<Rightarrow> principal \<Rightarrow> principal reply \<Rightarrow> bool \<Rightarrow> int
   \<Rightarrow> string \<Rightarrow> time \<Rightarrow> create_request \<Rightarrow> relay_db \<Rightarrow> string reply \<times> relay_db" where
  "create_job_handler cfg secs lookup s p recheck same_store disk_free jid now r db =
     (case job_candidates secs lookup s p r of
        Inl e \<Rightarrow> (Inl e, db)
      | Inr (dynamic, accounts, cs) \<Rightarrow>
          (case size_limits cfg r of
             Some e \<Rightarrow> (Inl e, db)
           | None \<Rightarrow>
               (case recheck of
                  Inl e \<Rightarrow> (Inl e, db)
                | Inr owner \<Rightarrow>
                    if \<not> same_store
                    then (Inl (HTTPException 409 ''auth configuration changed; retry job creation''), db)
                    else (case least_loaded_key db s cs of
                        None \<Rightarrow> (Inl internal_error, db)
                      | Some key \<Rightarrow>
                          (case credentials_for s key of
                             Inl _ \<Rightarrow> (Inl internal_error, db)
                           | Inr c \<Rightarrow>
                               (case final_job_refs (r_dataset_ref r) (r_kernel_ref r)
                                       (case c of None \<Rightarrow> [] | Some c \<Rightarrow> username c) of
                                  Inl e \<Rightarrow> (Inl e, db)
                                | Inr (dref, kref) \<Rightarrow>
                                    let reserved = reservation r in
                                    (case check_admission cfg db disk_free (principal_id owner) reserved of
                                       Some e \<Rightarrow> (Inl (capacity_reply e), db)
                                     | None \<Rightarrow>
                                         (case create_job db now (job_values_of r jid dref kref
                                                 (principal_id owner) key reserved dynamic accounts) of
                                            Inl _ \<Rightarrow> (Inl internal_error, db)
                                          | Inr db' \<Rightarrow> (Inr jid, db')))))))))"

section \<open>Facts about references\<close>

lemma split_once_app:
  "c \<notin> set a \<Longrightarrow> split_once c (a @ c # b) = [a, b]"
  by (simp add: split_once_def takeWhile_append2 dropWhile_append2)
     (induction a, auto)

lemma strip_nonempty_head: "strip s = s \<Longrightarrow> s \<noteq> [] \<Longrightarrow> \<not> is_space (hd s) \<and> \<not> is_space (last s)"
proof -
  assume s: "strip s = s" "s \<noteq> []"
  let ?t = "dropWhile is_space s"
  have r: "rev (dropWhile is_space (rev ?t)) = s" using s(1) by (simp add: strip_def)
  have "length (dropWhile is_space (rev ?t)) \<le> length ?t" by (metis length_dropWhile_le length_rev)
  with r have "length s \<le> length ?t" by (metis length_rev)
  then have t: "?t = s"
    by (metis append_self_conv2 le_eq_less_or_eq length_append length_dropWhile_le length_greater_0_conv
        less_add_same_cancel2 not_less takeWhile_dropWhile_id)
  then have "\<not> is_space (hd s)" using s(2) by (metis hd_dropWhile)
  moreover have "dropWhile is_space (rev s) = rev s"
    using r t by (metis rev_rev_ident)
  then have "\<not> is_space (hd (rev s))" using s(2) by (metis hd_dropWhile rev_is_Nil_conv)
  ultimately show ?thesis using s(2) by (simp add: hd_rev)
qed

lemma strip_id:
  assumes "s = [] \<or> (\<not> is_space (hd s) \<and> \<not> is_space (last s))"
  shows "strip s = s"
proof -
  have "dropWhile is_space s = s" using assms by (auto simp: dropWhile_eq_self_iff)
  moreover have "dropWhile is_space (rev s) = rev s" using assms by (auto simp: dropWhile_eq_self_iff hd_rev)
  ultimately show ?thesis by (simp add: strip_def)
qed

lemma strip_owner_slug:
  assumes "strip a = a" "a \<noteq> []" "strip b = b" "b \<noteq> []"
  shows "strip (a @ CHR ''/'' # b) = a @ CHR ''/'' # b"
  using strip_nonempty_head [OF assms(1,2)] strip_nonempty_head [OF assms(3,4)] assms(2,4)
  by (intro strip_id) simp

section \<open>Facts about candidates\<close>

lemma least_by_in: "least_by f x ys \<in> set (x # ys)"
  by (induction ys arbitrary: x) auto

lemma least_by_le: "y \<in> set (x # ys) \<Longrightarrow> f (least_by f x ys) \<le> f y"
proof (induction ys arbitrary: x y)
  case (Cons z zs)
  let ?w = "if f z < f x then z else x"
  have w: "f (least_by f ?w zs) \<le> f ?w" using Cons.IH [of ?w ?w] by simp
  show ?case
  proof (cases "y \<in> set zs")
    case True
    with Cons.IH [of y ?w] show ?thesis by simp
  next
    case False
    with Cons.prems have "f ?w \<le> f y" by auto
    with w show ?thesis by simp
  qed
qed simp

lemma candidates_from:
  "set (map snd (candidates (fold (classify_key secs lookup) keys r))) \<subseteq> set (map snd (candidates r)) \<union> set keys"
proof (induction keys arbitrary: r)
  case (Cons k ks)
  have "set (map snd (candidates (classify_key secs lookup k r))) \<subseteq> insert k (set (map snd (candidates r)))"
    by (auto simp: classify_key_def split: sum.splits option.splits)
  then show ?case
    using Cons.IH [of "classify_key secs lookup k r"] by (simp del: set_map) (blast dest: subset_trans)
qed simp

lemma quota_candidates_from: "snd ` set (candidates (quota_key_candidates secs lookup keys)) \<subseteq> set keys"
  using candidates_from [of secs lookup keys no_quotas] by (simp add: quota_key_candidates_def no_quotas_def)

lemma selected_from_allowed:
  assumes "select_kaggle_key_candidates secs lookup s p owner = Inr cs"
  shows "snd ` set cs \<subseteq> set (public_allowed_key_ids s p)"
proof -
  let ?allowed = "public_allowed_key_ids s p"
  have sub: "set keys \<subseteq> set ?allowed \<Longrightarrow> snd ` set (candidates (quota_key_candidates secs lookup keys)) \<subseteq> set ?allowed"
    for keys using quota_candidates_from [of secs lookup keys] by blast
  have reply: "quota_reply q e u = Inr cs \<Longrightarrow> cs = candidates q" for q e u
    by (auto simp: quota_reply_def split: if_splits)
  from assms have "\<exists>keys. set keys \<subseteq> set ?allowed \<and> cs = candidates (quota_key_candidates secs lookup keys)"
    unfolding select_kaggle_key_candidates_def Let_def
    by (auto split: if_splits dest!: reply intro: exI [of _ ?allowed]
        exI [of _ "filter (\<lambda>k. lower (key_username s k) = lower (strip owner)) ?allowed"]
        exI [of _ "filter (\<lambda>k. lower (key_username s k) \<noteq> lower (strip owner) \<and> key_username s k \<noteq> []) ?allowed"])
  with sub show ?thesis by blast
qed

text \<open>A candidate account is one the principal may use now.\<close>

lemma resolve_granted:
  assumes "resolve_kaggle_key_id s p requested = Inr key" and "\<not> store_legacy s" and "\<not> legacy p"
  shows "allows_key p key \<and> key_enabled s key"
proof (cases "strip requested = []")
  case True
  then have "allowed_key_ids s p False = [key]"
    using assms(1,2) by (auto simp: resolve_kaggle_key_id_def Let_def split: list.splits)
  then show ?thesis using enabled_allowed [OF assms(2,3), of key] by simp
next
  case False
  then show ?thesis
    using assms by (auto simp: resolve_kaggle_key_id_def Let_def split: if_splits)
qed

lemma job_candidates_granted:
  assumes "job_candidates secs lookup s p r = Inr (dynamic, accounts, cs)"
    and "\<not> store_legacy s" and "\<not> legacy p" and "k \<in> snd ` set cs"
  shows "allows_key p k \<and> key_enabled s k \<and> (dynamic \<longrightarrow> k \<in> fst ` set accounts)"
proof (cases "r_scheduling_mode r = Dynamic \<and> r_kaggle_key_id r = [] \<and> \<not> store_legacy s")
  case True
  with assms(1) have "accounts = named_accounts s p" "cs = map (\<lambda>a. (0, fst a)) accounts"
    by (auto simp: job_candidates_def Let_def split: sum.splits if_splits)
  moreover from this assms(4) have "k \<in> fst ` set accounts" by (simp add: image_image)
  ultimately have "k \<in> set (allowed_key_ids s p False)" by (auto simp: named_accounts_def)
  with enabled_allowed [OF assms(2,3) this] \<open>k \<in> fst ` set accounts\<close> show ?thesis by simp
next
  case False
  with assms(1) have dyn: "\<not> dynamic"
    and res: "resolve_job_kaggle_candidates secs lookup s p (r_kaggle_key_id r) (r_dataset_ref r) (r_kernel_ref r) = Inr cs"
    by (auto simp: job_candidates_def split: sum.splits)
  show ?thesis
  proof (cases "\<exists>req key. resolve_kaggle_key_id s p req = Inr key \<and> cs = [(0, key)]")
    case True
    then obtain req key where "resolve_kaggle_key_id s p req = Inr key" and "cs = [(0, key)]" by blast
    with resolve_granted [OF _ assms(2,3)] assms(4) dyn show ?thesis by auto
  next
    case False
    with res obtain owner where "select_kaggle_key_candidates secs lookup s p owner = Inr cs"
      by (auto simp: resolve_job_kaggle_candidates_def Let_def split: if_splits sum.splits selection_error.splits)
    from selected_from_allowed [OF this] assms(4)
    have "k \<in> set (allowed_key_ids s p False)" by (auto simp: public_allowed_key_ids_def)
    with enabled_allowed [OF assms(2,3) this] dyn show ?thesis by simp
  qed
qed

text \<open>What a successful creation did.\<close>

lemma create_job_handler_ok:
  assumes "create_job_handler cfg secs lookup s p recheck same disk jid now r db = (Inr j, db')"
  obtains dynamic accounts cs owner key dref kref where
    "job_candidates secs lookup s p r = Inr (dynamic, accounts, cs)" and "size_limits cfg r = None"
    and "recheck = Inr owner" and "key \<in> snd ` set cs"
    and "least_loaded_key db s cs = Some key"
    and "final_job_refs (r_dataset_ref r) (r_kernel_ref r)
          (case credentials_for s key of Inr (Some c) \<Rightarrow> username c | _ \<Rightarrow> []) = Inr (dref, kref)"
    and "check_admission cfg db disk (principal_id owner) (reservation r) = None"
    and "create_job db now (job_values_of r jid dref kref (principal_id owner) key
          (reservation r) dynamic accounts) = Inr db'" and "j = jid"
proof -
  obtain dynamic accounts cs where c: "job_candidates secs lookup s p r = Inr (dynamic, accounts, cs)"
    using assms by (auto simp: create_job_handler_def split: sum.splits)
  have sz: "size_limits cfg r = None"
    using assms by (auto simp: create_job_handler_def c split: option.splits)
  obtain owner where o: "recheck = Inr owner"
    using assms by (auto simp: create_job_handler_def c sz split: sum.splits)
  have same using assms by (auto simp: create_job_handler_def c sz o split: if_splits)
  obtain key where k: "least_loaded_key db s cs = Some key"
    using assms by (auto simp: create_job_handler_def c sz o \<open>same\<close> split: option.splits)
  obtain cr where cr: "credentials_for s key = Inr cr"
    using assms by (auto simp: create_job_handler_def c sz o k \<open>same\<close> split: sum.splits)
  obtain dref kref where f: "final_job_refs (r_dataset_ref r) (r_kernel_ref r)
      (case cr of None \<Rightarrow> [] | Some c \<Rightarrow> username c) = Inr (dref, kref)"
    using assms by (auto simp: create_job_handler_def c sz o k cr \<open>same\<close> split: sum.splits)
  have a: "check_admission cfg db disk (principal_id owner) (reservation r) = None"
    using assms by (auto simp: create_job_handler_def c sz o k cr f \<open>same\<close> Let_def split: option.splits)
  have d: "create_job db now (job_values_of r jid dref kref (principal_id owner) key
      (reservation r) dynamic accounts) = Inr db' \<and> j = jid"
    using assms by (auto simp: create_job_handler_def c sz o k cr f a \<open>same\<close> Let_def split: sum.splits)
  have "key \<in> snd ` set cs"
    using k least_by_in [of "load_rank db s" "hd cs" "tl cs"]
    by (cases cs) (auto simp: least_loaded_key_def)
  moreover have "final_job_refs (r_dataset_ref r) (r_kernel_ref r)
      (case credentials_for s key of Inr (Some c) \<Rightarrow> username c | _ \<Rightarrow> []) = Inr (dref, kref)"
    using f by (cases cr) (simp_all add: cr)
  ultimately show thesis using that c sz o k a d by blast
qed

lemma new_job_simps [simp]:
  "job_id (new_job now v) = v_job_id v" "status (new_job now v) = Receiving"
  "relay_token_id (new_job now v) = or_default [] (v_relay_token_id v)"
  "kaggle_key_id (new_job now v) = or_default [] (v_kaggle_key_id v)"
  "reserved_bytes (new_job now v) = or_default 0 (v_reserved_bytes v)"
  "eligible_accounts (new_job now v) = or_default [] (v_eligible_accounts v)"
  "scheduling_mode (new_job now v) = or_default Fixed (v_scheduling_mode v)"
  "assignment_state (new_job now v) = or_default Bound (v_assignment_state v)"
  "dataset_ref (new_job now v) = v_dataset_ref v" "kernel_ref (new_job now v) = v_kernel_ref v"
  by (simp_all add: new_job_def)

lemma or_default_Some [simp]: "or_default d (Some v) = v"
  by (simp add: or_default_def)

lemma find_snoc: "find P (xs @ [x]) = (case find P xs of Some y \<Rightarrow> Some y | None \<Rightarrow> if P x then Some x else None)"
  by (induction xs) auto

lemma create_jobD:
  assumes "create_job db now v = Inr db'"
  shows "get_job db (v_job_id v) = None \<and> jobs db' = jobs db @ [new_job now v]
    \<and> get_job db' k = (if k = v_job_id v then Some (new_job now v) else get_job db k)"
  using assms
  by (auto simp: create_job_def get_job_def find_snoc split: if_splits option.splits)


section \<open>Properties\<close>

text \<open>
  C2: A job is admitted only within its bounds: the new row belongs to the authenticated caller, runs
  on (or, waiting, provisionally names out of its pool) an enabled account the caller may use; its
  full reservation fits on the disk above the reserve beside all others, and neither the relay's nor
  the owner's limit of live jobs is exceeded. Every other job keeps its row.
\<close>

theorem creation_admits:
  assumes "create_job_handler cfg secs lookup s p (Inr owner) same disk jid now r db = (Inr j, db')"
    and "\<not> store_legacy s" and "\<not> legacy p" and "jid \<noteq> []"
  shows "\<exists>row. get_job db' jid = Some row \<and> get_job db jid = None \<and> j = jid
    \<and> status row = Receiving \<and> relay_token_id row = principal_id owner
    \<and> allows_key p (kaggle_key_id row) \<and> key_enabled s (kaggle_key_id row)
    \<and> (awaiting_assignment row \<longrightarrow> kaggle_key_id row \<in> fst ` set (eligible_accounts row))
    \<and> reserved_bytes row = 3 * (r_dataset_size r + r_kernel_size r)
    \<and> min_free_bytes cfg + total_reserved_bytes db' [] \<le> disk
    \<and> length (live_jobs db') \<le> max_active_jobs cfg
    \<and> length (filter (\<lambda>j. relay_token_id j = principal_id owner) (live_jobs db')) \<le> max_active_jobs_per_user cfg
    \<and> (\<forall>k. k \<noteq> jid \<longrightarrow> get_job db' k = get_job db k)"
proof -
  from assms(1) obtain dynamic accounts cs key dref kref where
    c: "job_candidates secs lookup s p r = Inr (dynamic, accounts, cs)" and k: "key \<in> snd ` set cs"
    and a: "check_admission cfg db disk (principal_id owner) (reservation r) = None"
    and d: "create_job db now (job_values_of r jid dref kref (principal_id owner) key (reservation r)
          dynamic accounts) = Inr db'" and j: "j = jid"
    by (rule create_job_handler_ok) simp
  let ?v = "job_values_of r jid dref kref (principal_id owner) key (reservation r) dynamic accounts"
  let ?row = "new_job now ?v"
  have v: "v_job_id ?v = jid" "v_relay_token_id ?v = Some (principal_id owner)" "v_kaggle_key_id ?v = Some key"
    "v_reserved_bytes ?v = Some (reservation r)" "v_eligible_accounts ?v = Some accounts"
    "v_scheduling_mode ?v = Some (if dynamic then Dynamic else Fixed)"
    by (simp_all add: job_values_of_def)
  note db' = create_jobD [OF d, unfolded v]
  have g: "allows_key p key \<and> key_enabled s key \<and> (dynamic \<longrightarrow> key \<in> fst ` set accounts)"
    using job_candidates_granted [OF c assms(2,3) k] .
  have "live_jobs db' = live_jobs db @ [?row]"
    using db' by (simp add: live_jobs_def terminal_def)
  moreover have "total_reserved_bytes db' [] = total_reserved_bytes db [] + reservation r"
    using db' assms(4) v by (simp add: total_reserved_bytes_def)
  ultimately have "min_free_bytes cfg + total_reserved_bytes db' [] \<le> disk"
    "length (live_jobs db') \<le> max_active_jobs cfg"
    "length (filter (\<lambda>j. relay_token_id j = principal_id owner) (live_jobs db')) \<le> max_active_jobs_per_user cfg"
    using a v by (auto simp: check_admission_def check_free_def split: if_splits)
  moreover have "get_job db' jid = Some ?row" "get_job db jid = None"
    and "\<forall>k. k \<noteq> jid \<longrightarrow> get_job db' k = get_job db k" using db' by auto
  moreover have "awaiting_assignment ?row \<longrightarrow> kaggle_key_id ?row \<in> fst ` set (eligible_accounts ?row)"
    using g v by (auto simp: awaiting_assignment_def split: if_splits)
  ultimately show ?thesis
    using g v j by (intro exI [of _ ?row]) (simp add: reservation_def)
qed

definition sample_settings :: settings where
  "sample_settings = \<lparr>max_active_jobs = 10, max_active_jobs_per_user = 2, min_free_bytes = 100,
     max_archive_bytes = 1000, setting_chunk_size = 64, account_concurrency = 1, max_parallel_uploads = 40,
     max_parallel_uploads_per_user = 8, receiving_retention_hours = 168, receiving_timeout_hours = 3,
     retention_hours = 168\<rparr>"

definition sample_create :: create_request where
  "sample_create = \<lparr>r_kaggle_key_id = [], r_scheduling_mode = Dynamic, r_dataset_ref = ''u/d'',
     r_kernel_ref = ''u/k'', r_dataset_sha = ''aa'', r_kernel_sha = ''bb'', r_dataset_size = 10,
     r_kernel_size = 4, r_chunk_size = 4, r_payload_hash = [], r_callback_sha = [], r_dataset_id = [],
     r_identity_sha256 = [], r_run_id = [], r_run_identity_sha256 = [], r_artifact_contract = ''yolo''\<rparr>"

definition sample_bob :: principal where
  "sample_bob = \<lparr>principal_id = ''bob'', allowed_keys = Some {''acct''}, legacy = False,
     management_admin = False, view_keys = False\<rparr>"

lemma creation_admits_witness:
  "\<exists>db' row. create_job_handler sample_settings [] (\<lambda>_. Inl []) sample_store sample_bob (Inr sample_bob) True
       1000 ''n'' 5 sample_create (sample_db []) = (Inr ''n'', db')
     \<and> get_job db' ''n'' = Some row \<and> kaggle_key_id row \<in> fst ` set (eligible_accounts row)
     \<and> reserved_bytes row = 42"
proof -
  let ?h = "create_job_handler sample_settings [] (\<lambda>_. Inl []) sample_store sample_bob (Inr sample_bob) True
       1000 ''n'' 5 sample_create (sample_db [])"
  have "\<not> isl (fst ?h)" and aw: "list_all awaiting_assignment (jobs (snd ?h))" by code_simp+
  then obtain j db' where h: "?h = (Inr j, db')"
    by (cases "fst ?h") (auto simp: prod_eq_iff)
  from creation_admits [OF h] obtain row where row: "get_job db' ''n'' = Some row" "j = ''n''"
    "awaiting_assignment row \<longrightarrow> kaggle_key_id row \<in> fst ` set (eligible_accounts row)"
    "reserved_bytes row = 42"
    by (auto simp: sample_store_def sample_bob_def sample_create_def)
  moreover have "awaiting_assignment row"
    using aw get_job_SomeD [OF row(1)] by (auto simp: h list_all_iff)
  ultimately show ?thesis using h by blast
qed

text \<open>
  Of the candidate accounts the one with the fewest live jobs of its remote user is taken, and
  among those one with the most remaining quota.
\<close>

theorem least_loaded_minimal:
  assumes "least_loaded_key db s cs = Some k"
  shows "\<exists>h. (h, k) \<in> set cs \<and> (\<forall>(h', k') \<in> set cs.
    account_load db s (account_key s k) \<le> account_load db s (account_key s k')
    \<and> (account_load db s (account_key s k') = account_load db s (account_key s k) \<longrightarrow> h' \<le> h))"
proof -
  obtain c ds where cs: "cs = c # ds" and k: "k = snd (least_by (load_rank db s) c ds)"
    using assms by (auto simp: least_loaded_key_def split: list.splits)
  let ?m = "least_by (load_rank db s) c ds"
  have "?m \<in> set cs" using least_by_in [of "load_rank db s" c ds] by (simp add: cs)
  moreover have "load_rank db s ?m \<le> load_rank db s d" if "d \<in> set cs" for d
    using that least_by_le [of d c ds] by (simp add: cs)
  ultimately show ?thesis
    by (intro exI [of _ "fst ?m"]) (fastforce simp: k load_rank_def less_eq_prod_def)
qed

lemma least_loaded_minimal_witness:
  "least_loaded_key (sample_db [sample_job]) sample_store [(5, ''acct''), (3, ''other'')] = Some ''other''
   \<and> account_load (sample_db [sample_job]) sample_store (account_key sample_store ''other'') \<le> 1"
proof -
  have l: "least_loaded_key (sample_db [sample_job]) sample_store [(5, ''acct''), (3, ''other'')] = Some ''other''"
    and a: "account_load (sample_db [sample_job]) sample_store (account_key sample_store ''acct'') = 1"
    by code_simp+
  from least_loaded_minimal [OF l] l a show ?thesis by auto
qed

text \<open>
  The chunk count of an archive is the smallest number of chunks that holds it, and at least one.
\<close>

theorem chunk_count_covers:
  assumes "expected_chunk_count sz chunk = Inr n"
  shows "1 \<le> n \<and> sz \<le> n * chunk \<and> (1 < n \<longrightarrow> (n - 1) * chunk < sz)"
proof -
  from assms have c: "0 < chunk" "0 \<le> sz" and n: "n = max 1 (- ((- sz) div chunk))"
    by (auto simp: expected_chunk_count_def split: if_splits)
  let ?q = "- ((- sz) div chunk)"
  define d where "d = (- sz) div chunk"
  define m where "m = (- sz) mod chunk"
  have "chunk * d + m = - sz" unfolding d_def m_def by (rule mult_div_mod_eq)
  moreover have "0 \<le> m" "m < chunk" using c by (simp_all add: m_def)
  ultimately have q: "sz \<le> ?q * chunk" "(?q - 1) * chunk < sz"
    unfolding d_def [symmetric] by (auto simp: algebra_simps)
  show ?thesis
  proof (cases "1 \<le> ?q")
    case True
    then show ?thesis using q n by simp
  next
    case False
    then have "?q * chunk \<le> 1 * chunk" using c by (intro mult_right_mono) auto
    then show ?thesis using False q n by simp
  qed
qed

lemma chunk_count_covers_witness: "expected_chunk_count 10 4 = Inr 3 \<and> (10::int) \<le> 3 * 4 \<and> (3 - 1) * 4 < (10::int)"
  using chunk_count_covers [of 10 4 3] by (simp add: expected_chunk_count_def)

definition strip_identity :: "create_request \<Rightarrow> create_request" where
  "strip_identity r = r\<lparr>r_dataset_id := strip (r_dataset_id r), r_identity_sha256 := strip (r_identity_sha256 r),
     r_run_id := strip (r_run_id r), r_run_identity_sha256 := strip (r_run_identity_sha256 r)\<rparr>"

lemma known_contract_norm: "c \<in> set known_contracts \<Longrightarrow> lower (strip c) = c \<and> c \<noteq> []"
proof -
  have "list_all (\<lambda>c. lower (strip c) = c \<and> c \<noteq> []) known_contracts" by code_simp
  then show "c \<in> set known_contracts \<Longrightarrow> ?thesis" by (simp add: list_all_iff)
qed

lemma patchcore_known: "c \<in> patchcore_contracts \<longleftrightarrow> c \<in> set known_contracts \<and> c \<noteq> ''yolo''"
  by (auto simp: patchcore_contracts_def known_contracts_def)

lemma strip_identity_contract [simp]:
  "strip_identity (strip_identity r\<lparr>r_artifact_contract := c\<rparr>) = strip_identity r\<lparr>r_artifact_contract := c\<rparr>"
  "frozen_fields (r\<lparr>r_artifact_contract := c\<rparr>) = frozen_fields r"
  by (simp_all add: strip_identity_def frozen_fields_def)

text \<open>
  A validated creation request names a contract and carries either the whole frozen identity,
  as the PatchCore contracts require, or none of it; validating it again changes nothing.
\<close>

theorem validated_identity:
  assumes "validate_frozen_identity r = Inr r'" and "r_artifact_contract r \<in> insert [] (set known_contracts)"
  shows "r_artifact_contract r' \<in> set known_contracts
    \<and> (if r_artifact_contract r' = ''yolo'' then list_all (\<lambda>v. v = []) (frozen_fields r')
       else list_all (\<lambda>v. v \<noteq> []) (frozen_fields r'))
    \<and> validate_frozen_identity r' = Inr r'"
proof -
  let ?r = "strip_identity r" and ?c0 = "lower (strip (r_artifact_contract r))"
  let ?any = "list_ex (\<lambda>v. v \<noteq> []) (frozen_fields ?r)" and ?all = "list_all (\<lambda>v. v \<noteq> []) (frozen_fields ?r)"
  define c where "c = (if ?c0 \<noteq> [] then ?c0 else if ?all then ''patchcore'' else ''yolo'')"
  have con: "r_artifact_contract ?r = r_artifact_contract r" by (simp add: strip_identity_def)
  have val: "validate_frozen_identity x =
      (let x = strip_identity x; any = list_ex (\<lambda>v. v \<noteq> []) (frozen_fields x); all = list_all (\<lambda>v. v \<noteq> []) (frozen_fields x)
       in if any \<and> \<not> all then Inl Identity_incomplete
          else let c = lower (strip (r_artifact_contract x)); c = (if c \<noteq> [] then c else if all then ''patchcore'' else ''yolo'')
            in if c \<in> patchcore_contracts \<and> \<not> all then Inl Contract_needs_identity
               else if c = ''yolo'' \<and> any then Inl Yolo_with_identity else Inr (x\<lparr>r_artifact_contract := c\<rparr>))" for x
    by (simp only: validate_frozen_identity_def strip_identity_def)
  from assms(1) have ok: "\<not> (?any \<and> \<not> ?all)" "\<not> (c \<in> patchcore_contracts \<and> \<not> ?all)" "\<not> (c = ''yolo'' \<and> ?any)"
    and r': "r' = ?r\<lparr>r_artifact_contract := c\<rparr>"
    unfolding val Let_def con c_def [symmetric] by (auto split: if_splits)
  have "c \<in> set known_contracts"
    using assms(2) known_contract_norm [of "r_artifact_contract r"]
    by (auto simp: c_def known_contracts_def lower_def strip_def)
  moreover have "lower (strip c) = c \<and> c \<noteq> []" using known_contract_norm [OF calculation] .
  moreover have "if c = ''yolo'' then list_all (\<lambda>v. v = []) (frozen_fields ?r) else ?all"
    using ok calculation(1) by (auto simp: patchcore_known list_ex_iff list_all_iff)
  moreover have "validate_frozen_identity r' = Inr r'"
    unfolding val r' Let_def strip_identity_contract using ok calculation(2) by simp
  ultimately show ?thesis by (simp add: r')
qed

lemma validated_identity_witness:
  "\<exists>r'. validate_frozen_identity (sample_create\<lparr>r_artifact_contract := []\<rparr>) = Inr r'
     \<and> r_artifact_contract r' \<in> set known_contracts"
proof -
  have "\<not> isl (validate_frozen_identity (sample_create\<lparr>r_artifact_contract := []\<rparr>))" by code_simp
  then obtain r' where v: "validate_frozen_identity (sample_create\<lparr>r_artifact_contract := []\<rparr>) = Inr r'"
    by (cases "validate_frozen_identity (sample_create\<lparr>r_artifact_contract := []\<rparr>)") auto
  from validated_identity [OF v] v show ?thesis by simp
qed

lemma split_owner_slug:
  assumes "strip a = a" "a \<noteq> []" "strip b = b" "b \<noteq> []" "CHR ''/'' \<notin> set a"
  shows "split_kaggle_ref (a @ CHR ''/'' # b) nm = Inr (a, b) \<and> ref_owner (a @ CHR ''/'' # b) = a"
  using assms by (simp add: split_kaggle_ref_def ref_owner_def strip_owner_slug split_once_app)

lemma set_strip: "set (strip s) \<subseteq> set s"
  by (auto simp: strip_def dest!: set_dropWhileD)

lemma split_kaggle_refD:
  "split_kaggle_ref v nm = Inr (a, b) \<Longrightarrow> a \<noteq> [] \<and> b \<noteq> [] \<and> strip a = a \<and> strip b = b"
  by (auto simp: split_kaggle_ref_def split: list.splits if_splits)

text \<open>
  Rewriting a reference to an account's user keeps its slug and makes the user its owner, so it
  can be rewritten again to another user: only the last one counts.
\<close>

theorem rewrite_owner_law:
  assumes "rewrite_ref_owner v a = Inr ref" and "strip a \<noteq> []" and "CHR ''/'' \<notin> set a"
  shows "ref_owner ref = strip a \<and> rewrite_ref_owner ref b = (if strip b = [] then Inr ref else rewrite_ref_owner v b)"
proof -
  obtain o' slug where v: "split_kaggle_ref v ''kaggle ref'' = Inr (o', slug)" and ref: "ref = strip a @ CHR ''/'' # slug"
    using assms(1,2) by (auto simp: rewrite_ref_owner_def Let_def split: sum.splits)
  from split_kaggle_refD [OF v] have slug: "strip slug = slug" "slug \<noteq> []" by auto
  have "CHR ''/'' \<notin> set (strip a)" using assms(3) set_strip by blast
  then have "split_kaggle_ref ref ''kaggle ref'' = Inr (strip a, slug)" "ref_owner ref = strip a"
    using split_owner_slug [of "strip a" slug] slug assms(2) by (simp_all add: ref)
  moreover have "strip ref = ref" using strip_owner_slug [of "strip a" slug] slug assms(2) by (simp add: ref)
  ultimately show ?thesis using v by (simp add: rewrite_ref_owner_def Let_def)
qed

lemma rewrite_owner_law_witness:
  "rewrite_ref_owner ''old/slug'' ''me'' = Inr ''me/slug'' \<and> ref_owner ''me/slug'' = ''me''"
proof -
  have r: "rewrite_ref_owner ''old/slug'' ''me'' = Inr ''me/slug''" and s: "strip ''me'' = ''me''" by code_simp+
  from rewrite_owner_law [OF r] r s show ?thesis by simp
qed

end
