(* ===== verification/Stop_Reason.thy ===== *)
theory Stop_Reason
  imports Security
begin

text \<open>
  The classification of how a remote run ended (\<^verbatim>\<open>app/stop_reason.py\<close>): the canonical provider state,
  the training evidence found in the log (a marker of the runtime, the early-stopping line, the final
  epoch), and the details made of both. Regular expressions are written out as deterministic
  readers; \<^verbatim>\<open>json.loads\<close> on text is the parameter \<open>loads\<close>. Numbers of a dictionary keep the JSON kind they
  were read with, since the code tests \<^verbatim>\<open>type(value) is int\<close>.
\<close>

section \<open>Text\<close>

definition upper_char :: "char \<Rightarrow> char" where
  "upper_char c = (let n = of_char c :: nat in if 97 \<le> n \<and> n \<le> 122 then char_of (n - 32) else c)"

definition upper :: "string \<Rightarrow> string" where
  "upper s = map upper_char s"

definition is_digit :: "char \<Rightarrow> bool" where
  "is_digit c \<longleftrightarrow> (let n = of_char c :: nat in 48 \<le> n \<and> n \<le> 57)"

definition is_word :: "char \<Rightarrow> bool" where
  "is_word c \<longleftrightarrow> is_alnum c \<or> c = CHR ''_''"

definition digits_value :: "string \<Rightarrow> int" where
  "digits_value s = foldl (\<lambda>a c. 10 * a + (of_char c - 48)) 0 s"

text \<open>A maximal run of characters, and what follows it.\<close>

definition run_of :: "(char \<Rightarrow> bool) \<Rightarrow> string \<Rightarrow> string \<times> string" where
  "run_of P s = (takeWhile P s, dropWhile P s)"

text \<open>\<^verbatim>\<open>\d{1,10}\<close> where no digit may follow.\<close>

definition ten_digits :: "string \<Rightarrow> (string \<times> string) option" where
  "ten_digits s = (let (d, r) = run_of is_digit s in if d \<noteq> [] \<and> length d \<le> 10 then Some (d, r) else None)"

text \<open>\<^verbatim>\<open>\d+(?:\.\d+)?\<close>, as much as there is.\<close>

definition decimal :: "string \<Rightarrow> (rat \<times> string) option" where
  "decimal s =
     (let (d, r) = run_of is_digit s in
      if d = [] then None
      else case r of
          [] \<Rightarrow> Some (of_int (digits_value d), r)
        | c # r' \<Rightarrow>
            let (f, r'') = run_of is_digit r' in
            if c = CHR ''.'' \<and> f \<noteq> []
            then Some (of_int (digits_value d) + of_int (digits_value f) / 10 ^ length f, r'')
            else Some (of_int (digits_value d), r))"

text \<open>\<^verbatim>\<open>str.splitlines\<close> on ASCII text.\<close>

definition line_break :: "char \<Rightarrow> bool" where
  "line_break c \<longleftrightarrow> (let n = of_char c :: nat in (10 \<le> n \<and> n \<le> 13) \<or> (28 \<le> n \<and> n \<le> 30))"

fun lines_from :: "string \<Rightarrow> string \<Rightarrow> string list" where
  "lines_from acc [] = (if acc = [] then [] else [rev acc])"
| "lines_from acc (c # cs) =
     (if of_char c = (13::nat) \<and> cs \<noteq> [] \<and> of_char (hd cs) = (10::nat) then rev acc # lines_from [] (tl cs)
      else if line_break c then rev acc # lines_from [] cs
      else lines_from (c # acc) cs)"

definition splitlines :: "string \<Rightarrow> string list" where
  "splitlines s = lines_from [] s"

text \<open>\<^verbatim>\<open>_ANSI\<close>: the escape character, \<^verbatim>\<open>[\<close>, parameter bytes, intermediate bytes and a final byte.\<close>

definition char_in :: "nat \<Rightarrow> nat \<Rightarrow> char \<Rightarrow> bool" where
  "char_in a b c \<longleftrightarrow> (let n = of_char c :: nat in a \<le> n \<and> n \<le> b)"

definition ansi_rest :: "string \<Rightarrow> string option" where
  "ansi_rest s =
     (if \<not> prefix [char_of (27::nat), CHR ''[''] s then None
      else case dropWhile (char_in 32 47) (dropWhile (char_in 48 63) (drop 2 s)) of
          [] \<Rightarrow> None
        | c # r \<Rightarrow> if char_in 64 126 c then Some r else None)"

lemma ansi_rest_shorter [termination_simp]: "ansi_rest s = Some r \<Longrightarrow> length r < length s"
  using length_dropWhile_le [of "char_in 32 47" "dropWhile (char_in 48 63) (drop 2 s)"]
    length_dropWhile_le [of "char_in 48 63" "drop 2 s"]
  by (auto simp: ansi_rest_def split: if_splits list.splits)

function strip_ansi :: "string \<Rightarrow> string" where
  "strip_ansi s =
     (case s of
        [] \<Rightarrow> []
      | c # cs \<Rightarrow> (case ansi_rest s of Some r \<Rightarrow> strip_ansi r | None \<Rightarrow> c # strip_ansi cs))"
  by pat_completeness auto

termination strip_ansi
  by (relation "measure length") (auto dest: ansi_rest_shorter)

declare strip_ansi.simps [simp del]

definition lstrip_set :: "string \<Rightarrow> string \<Rightarrow> string" where
  "lstrip_set cs s = dropWhile (\<lambda>c. c \<in> set cs) s"

definition rstrip_set :: "string \<Rightarrow> string \<Rightarrow> string" where
  "rstrip_set cs s = rev (dropWhile (\<lambda>c. c \<in> set cs) (rev s))"

definition removeprefix :: "string \<Rightarrow> string \<Rightarrow> string" where
  "removeprefix p s = (if prefix p s then drop (length p) s else s)"

section \<open>The provider state\<close>

datatype run_state = Run_complete | Run_error | Run_canceled | Run_running | Run_queued | Run_unknown

definition state_table :: "(string \<times> run_state) list" where
  "state_table =
     [(''COMPLETE'', Run_complete), (''COMPLETED'', Run_complete), (''SUCCESS'', Run_complete),
      (''SUCCEEDED'', Run_complete), (''ERROR'', Run_error), (''FAILED'', Run_error), (''FAILURE'', Run_error),
      (''CANCEL_ACKNOWLEDGED'', Run_canceled), (''CANCELED'', Run_canceled), (''CANCELLED'', Run_canceled),
      (''RUNNING'', Run_running), (''QUEUED'', Run_queued), (''PENDING'', Run_queued),
      (''NEW'', Run_queued), (''INITIALIZING'', Run_queued), (''CANCEL_REQUESTED'', Run_running)]"

definition ref_char :: "char \<Rightarrow> bool" where
  "ref_char c \<longleftrightarrow> is_word c \<or> c = CHR ''.'' \<or> c = CHR ''-''"

definition ascii_space :: "char \<Rightarrow> bool" where
  "ascii_space c \<longleftrightarrow> char_in 9 13 c \<or> c = CHR '' ''"

definition spaces :: "string \<Rightarrow> string option" where
  "spaces s = (case s of [] \<Rightarrow> None | c # r \<Rightarrow> if ascii_space c then Some (dropWhile ascii_space r) else None)"

definition ref_run :: "string \<Rightarrow> string option" where
  "ref_run s = (let (d, r) = run_of ref_char s in if d = [] then None else Some r)"

definition quoted_status :: "string \<Rightarrow> string option" where
  "quoted_status s =
     (case s of
        [] \<Rightarrow> None
      | q # r \<Rightarrow>
          let (body, r) = run_of (\<lambda>c. c \<notin> {CHR 0x22, CHR 0x27, CHR 0x0D, CHR 0x0A}) r in
          if q \<in> {CHR 0x22, CHR 0x27} \<and> body \<noteq> [] \<and> (r = [q] \<or> r = [q, CHR ''.'']) then Some body else None)"

text \<open>\<^verbatim>\<open>_CLI_STATUS.fullmatch(text)\<close>, with its second group.\<close>

definition cli_status :: "string \<Rightarrow> string option" where
  "cli_status s =
     Option.bind (ref_run s) (\<lambda>r.
     Option.bind (eat ''/'' r) (\<lambda>r.
     Option.bind (ref_run r) (\<lambda>r.
     Option.bind (spaces r) (\<lambda>r.
     Option.bind (eat ''has status'' r) (\<lambda>r.
     Option.bind (spaces r) quoted_status)))))"

definition decoded_status :: "(string \<Rightarrow> json option) \<Rightarrow> string \<Rightarrow> string option" where
  "decoded_status loads text =
     (if text \<noteq> [] \<and> hd text \<in> {CHR ''{'', CHR ''['', CHR 0x22}
      then (case (case loads text of Some (JObj d) \<Rightarrow> map_of d ''status'' | other \<Rightarrow> other) of
              Some (JStr t) \<Rightarrow> Some (strip t) | _ \<Rightarrow> None)
      else Some text)"

definition status_token :: "(string \<Rightarrow> json option) \<Rightarrow> string \<Rightarrow> string" where
  "status_token loads st =
     (case decoded_status loads (strip st) of
        None \<Rightarrow> ''UNKNOWN''
      | Some text \<Rightarrow>
          let text = (case cli_status text of Some body \<Rightarrow> strip body | None \<Rightarrow> text);
              text = (if prefix ''kernelworkerstatus.'' (lower text) then drop 19 text else text);
              token = upper text
          in if token \<in> set (map fst state_table) then token else ''UNKNOWN'')"

definition state_of :: "string \<Rightarrow> run_state" where
  "state_of token = (case map_of state_table token of Some s \<Rightarrow> s | None \<Rightarrow> Run_unknown)"

fun state_name :: "run_state \<Rightarrow> string" where
  "state_name Run_complete = ''COMPLETE''"
| "state_name Run_error = ''ERROR''"
| "state_name Run_canceled = ''CANCEL_ACKNOWLEDGED''"
| "state_name Run_running = ''RUNNING''"
| "state_name Run_queued = ''QUEUED''"
| "state_name Run_unknown = []"

definition provider_state :: "(string \<Rightarrow> json option) \<Rightarrow> string \<Rightarrow> string" where
  "provider_state loads st = state_name (state_of (status_token loads st))"

section \<open>Numbers of a report\<close>

definition number_names :: "string list" where
  "number_names = [''epoch'', ''epochs'', ''best_epoch'', ''patience'', ''elapsed_seconds'']"

definition valid_number :: "string \<Rightarrow> json option \<Rightarrow> bool" where
  "valid_number name v =
     (if name = ''elapsed_seconds''
      then (case v of Some (JInt i) \<Rightarrow> 0 \<le> i \<and> i \<le> 10 ^ 12 | Some (JFloat r) \<Rightarrow> 0 \<le> r \<and> r \<le> 10 ^ 12 | _ \<Rightarrow> False)
      else (case v of Some (JInt i) \<Rightarrow> (if name = ''patience'' then 0 else 1) \<le> i \<and> i \<le> 1000000000 | _ \<Rightarrow> False))"

definition int_or :: "int \<Rightarrow> json option \<Rightarrow> int" where
  "int_or d v = (case v of Some (JInt i) \<Rightarrow> i | _ \<Rightarrow> d)"

definition numeric_fields :: "bool \<Rightarrow> json dict \<Rightarrow> json dict option" where
  "numeric_fields allow_epoch_overrun payload =
     (let names = filter (\<lambda>n. map_of payload n \<noteq> None) number_names in
      if list_ex (\<lambda>n. \<not> valid_number n (map_of payload n)) names then None
      else
        let r = map (\<lambda>n. (n, the (map_of payload n))) names in
        if \<not> allow_epoch_overrun \<and> int_or 0 (map_of r ''epoch'') > int_or 1000000000 (map_of r ''epochs'') then None
        else if int_or 0 (map_of r ''best_epoch'')
            > int_or (int_or 1000000000 (map_of r ''epochs'')) (map_of r ''epoch'') then None
        else Some r)"

section \<open>Log lines\<close>

record log_scan =
  scan_lines :: "string list"
  scan_elapsed :: "json option"

definition record_time :: "json option \<Rightarrow> json option" where
  "record_time v =
     (case v of
        Some (JStr s) \<Rightarrow> (case decimal s of Some (r, []) \<Rightarrow> Some (JFloat r) | _ \<Rightarrow> v)
      | _ \<Rightarrow> v)"

text \<open>\<^verbatim>\<open>append_record\<close>: the scan it leaves, or \<^const>\<open>None\<close> for \<^verbatim>\<open>False\<close>.\<close>

definition append_record :: "json option \<Rightarrow> log_scan \<Rightarrow> log_scan option" where
  "append_record rec s =
     (case rec of
        Some (JObj d) \<Rightarrow>
          (case map_of d ''data'' of
             Some (JStr t) \<Rightarrow>
               let v = record_time (map_of d ''time'') in
               Some (s\<lparr>scan_lines := scan_lines s @ splitlines (strip_ansi t),
                       scan_elapsed := (if valid_number ''elapsed_seconds'' v then v else scan_elapsed s)\<rparr>)
           | _ \<Rightarrow> None)
      | _ \<Rightarrow> None)"

definition append_or_keep :: "json option \<Rightarrow> log_scan \<Rightarrow> log_scan" where
  "append_or_keep rec s = (case append_record rec s of Some s' \<Rightarrow> s' | None \<Rightarrow> s)"

definition scan_line :: "(string \<Rightarrow> json option) \<Rightarrow> string \<Rightarrow> log_scan \<Rightarrow> log_scan" where
  "scan_line loads line s =
     (case append_record (loads (strip (rstrip_set '',]'' (lstrip_set ''[,'' (strip line))))) s of
        Some s' \<Rightarrow> s'
      | None \<Rightarrow> s\<lparr>scan_lines := scan_lines s @ [strip_ansi line]\<rparr>)"

definition log_lines :: "(string \<Rightarrow> json option) \<Rightarrow> string \<Rightarrow> log_scan" where
  "log_lines loads text =
     (let s = \<lparr>scan_lines = [], scan_elapsed = None\<rparr> in
      case loads text of
        Some (JArr rs) \<Rightarrow> fold (\<lambda>r. append_or_keep (Some r)) rs s
      | decoded \<Rightarrow>
          (case append_record decoded s of
             Some s' \<Rightarrow> s'
           | None \<Rightarrow> fold (scan_line loads) (splitlines text) s))"

section \<open>Training evidence\<close>

definition event :: "(string \<Rightarrow> json option) \<Rightarrow> string \<Rightarrow> string \<Rightarrow> json dict option" where
  "event loads line tag =
     (case eat tag line of
        None \<Rightarrow> None
      | Some rest \<Rightarrow>
          if rest = [] \<or> hd rest \<notin> {CHR '' '', CHR 0x09, CHR '':''} then None
          else case loads (strip (removeprefix '':'' (dropWhile is_space rest))) of
              Some (JObj d) \<Rightarrow> Some d | _ \<Rightarrow> None)"

definition early_stop :: "string \<Rightarrow> json dict option" where
  "early_stop line =
     Option.bind (eat ''EarlyStopping:'' line) (\<lambda>r.
     Option.bind (eat ''Training stopped early as no improvement observed in last '' (dropWhile is_space r)) (\<lambda>r.
     Option.bind (ten_digits r) (\<lambda>(p, r).
     Option.bind (eat '' epochs.'' r) (\<lambda>r.
     Option.bind (eat ''Best results observed at epoch '' (dropWhile is_space r)) (\<lambda>r.
     Option.bind (ten_digits r) (\<lambda>(b, r).
       if r \<noteq> [] \<and> is_word (hd r) then None
       else Some [(''patience'', JInt (digits_value p)), (''best_epoch'', JInt (digits_value b))]))))))"

definition completed_line :: "string \<Rightarrow> json dict option" where
  "completed_line line =
     Option.bind (ten_digits line) (\<lambda>(e, r).
     Option.bind (eat '' epochs completed in '' r) (\<lambda>r.
     Option.bind (decimal r) (\<lambda>(h, r).
       if r = '' hours'' \<or> r = '' hours.''
       then Some [(''epoch'', JInt (digits_value e)), (''elapsed_seconds'', JFloat (h * 3600))] else None)))"

fun full_percent :: "bool \<Rightarrow> string \<Rightarrow> bool" where
  "full_percent boundary [] \<longleftrightarrow> False"
| "full_percent boundary (c # cs) \<longleftrightarrow> (boundary \<and> prefix ''100%'' (c # cs)) \<or> full_percent (\<not> is_word c) cs"

definition final_progress :: "string \<Rightarrow> json dict option" where
  "final_progress line =
     Option.bind (ten_digits line) (\<lambda>(a, r).
     Option.bind (eat ''/'' r) (\<lambda>r.
     Option.bind (ten_digits r) (\<lambda>(b, r).
       if a = b \<and> r \<noteq> [] \<and> is_space (hd r) \<and> full_percent True (tl r)
       then Some [(''epoch'', JInt (digits_value a)), (''epochs'', JInt (digits_value b))] else None)))"

record evidence =
  marker :: "json dict option"
  early :: "json dict option"
  completed :: "json dict option"
  epoch_progress :: "json dict"

definition reason_names :: "string list" where
  "reason_names = [''early_stopping'', ''epochs_completed'', ''time_budget'', ''unknown'']"

definition evidence_of :: "string \<Rightarrow> string \<Rightarrow> string \<Rightarrow> json dict \<Rightarrow> json dict" where
  "evidence_of r source confidence ns =
     [(''reason'', JStr r), (''source'', JStr source), (''confidence'', JStr confidence)] @ ns"

definition stop_marker :: "json dict \<Rightarrow> evidence \<Rightarrow> evidence" where
  "stop_marker p e =
     (case map_of p ''reason'' of
        Some (JStr r) \<Rightarrow>
          if r \<in> set reason_names \<and> map_of p ''source'' = Some (JStr ''runtime'')
             \<and> map_of p ''confidence'' = Some (JStr ''confirmed'')
          then (case numeric_fields (r = ''time_budget'') p of
                  None \<Rightarrow> e
                | Some ns \<Rightarrow>
                    if r \<noteq> ''epochs_completed''
                       \<or> map_of ns ''epoch'' \<noteq> None \<and> map_of ns ''epochs'' = map_of ns ''epoch''
                    then e\<lparr>marker := Some (evidence_of r ''runtime'' ''confirmed'' ns)\<rparr>
                    else e\<lparr>epoch_progress := dict_update (epoch_progress e) ns\<rparr>)
          else e
      | _ \<Rightarrow> e)"

definition progress_event :: "bool \<Rightarrow> json dict \<Rightarrow> evidence \<Rightarrow> evidence" where
  "progress_event finished p e =
     (case numeric_fields False p of
        None \<Rightarrow> e
      | Some ns \<Rightarrow>
          if map_of ns ''epoch'' \<noteq> None \<and> map_of ns ''epochs'' \<noteq> None
          then let e = e\<lparr>epoch_progress := ns\<rparr> in
            if finished \<and> map_of ns ''epoch'' = map_of ns ''epochs''
            then e\<lparr>completed := Some (evidence_of ''epochs_completed'' ''logs'' ''inferred'' ns)\<rparr> else e
          else e)"

definition completion_lines :: "string \<Rightarrow> evidence \<Rightarrow> evidence" where
  "completion_lines line e =
     (let e = (case completed_line line of
            Some ns \<Rightarrow> if numeric_fields False ns \<noteq> None then e\<lparr>epoch_progress := dict_update (epoch_progress e) ns\<rparr> else e
          | None \<Rightarrow> e)
      in case final_progress line of
          Some ns \<Rightarrow> if numeric_fields False ns \<noteq> None
            then e\<lparr>completed := Some (evidence_of ''epochs_completed'' ''logs'' ''inferred'' ns)\<rparr> else e
        | None \<Rightarrow> e)"

definition read_line :: "(string \<Rightarrow> json option) \<Rightarrow> bool \<Rightarrow> string \<Rightarrow> evidence \<Rightarrow> evidence" where
  "read_line loads finished raw e =
     (let line = strip raw in
      case event loads line ''TRAINING_PLATFORM_STOP'' of
        Some p \<Rightarrow> stop_marker p e
      | None \<Rightarrow>
          (case event loads line ''TRAINING_PLATFORM_PROGRESS'' of
             Some p \<Rightarrow> progress_event finished p e
           | None \<Rightarrow>
               (case early_stop line of
                  Some ns \<Rightarrow>
                    if numeric_fields False ns \<noteq> None
                    then e\<lparr>early := Some (evidence_of ''early_stopping'' ''logs'' ''confirmed'' ns)\<rparr> else e
                | None \<Rightarrow> if finished then completion_lines line e else e)))"

definition training_evidence ::
  "(string \<Rightarrow> json option) \<Rightarrow> bool \<Rightarrow> string list \<Rightarrow> json dict option \<times> json dict" where
  "training_evidence loads finished ls =
     (let e = fold (read_line loads finished) ls
          \<lparr>marker = None, early = None, completed = None, epoch_progress = []\<rparr>
      in (if marker e \<noteq> None then marker e else if early e \<noteq> None then early e else completed e,
          epoch_progress e))"

section \<open>The classification\<close>

definition time_limit_window :: "json option \<Rightarrow> bool" where
  "time_limit_window v =
     (case v of Some (JInt i) \<Rightarrow> 42900 \<le> i \<and> i \<le> 43800 | Some (JFloat r) \<Rightarrow> 42900 \<le> r \<and> r \<le> 43800 | _ \<Rightarrow> False)"

definition informative :: "json dict option \<Rightarrow> bool" where
  "informative training = (case training of None \<Rightarrow> False | Some t \<Rightarrow> map_of t ''reason'' \<noteq> Some (JStr ''unknown''))"

text \<open>What the provider state adds to the result, and the message.\<close>

definition state_fields ::
  "run_state \<Rightarrow> bool \<Rightarrow> json dict option \<Rightarrow> json option \<Rightarrow> json dict \<times> string" where
  "state_fields state cancel_requested training elapsed =
     (case state of
        Run_canceled \<Rightarrow>
          let suspected = \<not> cancel_requested \<and> time_limit_window elapsed in
          ([(''reason'', JStr (if cancel_requested then ''user_canceled'' else ''provider_canceled'')),
            (''source'', JStr (if cancel_requested then ''relay'' else ''provider'')), (''confidence'', JStr ''confirmed'')]
            @ (if suspected then [(''suspected_reason'', JStr ''time_limit'')] else []),
           (if cancel_requested then ''Kaggle confirmed cancellation requested through Relay.''
            else ''Kaggle confirmed cancellation; the cause was not supplied.'')
           @ (if suspected
              then '' Last log timing is consistent with a 12-hour limit, but does not prove it.'' else []))
      | Run_error \<Rightarrow>
          ([(''reason'', JStr ''provider_failed''), (''confidence'', JStr ''confirmed'')],
           (if informative training
            then ''Kaggle reported failure after a training stop was logged; later processing may have failed.''
            else ''Kaggle reported kernel failure; the failing stage is not established.''))
      | Run_complete \<Rightarrow>
          (case training of
             Some t \<Rightarrow>
               if informative training
               then ((''reason'', JStr ''completed_unknown'') # t,
                 (if map_of t ''reason'' = Some (JStr ''early_stopping'')
                  then ''Training stopped after no improvement within the patience window.''
                  else if map_of t ''reason'' = Some (JStr ''epochs_completed'')
                  then ''Training epoch completion was recorded and Kaggle completed successfully.''
                  else ''The runtime reported stopping at its configured training time budget.''))
               else ([(''reason'', JStr ''completed_unknown'')],
                 ''Kaggle completed successfully; the training stop reason is unavailable.'')
           | None \<Rightarrow> ([(''reason'', JStr ''completed_unknown'')],
               ''Kaggle completed successfully; the training stop reason is unavailable.''))
      | Run_unknown \<Rightarrow> ([], ''No authoritative terminal provider status has been observed.'')
      | _ \<Rightarrow> ([], ''Kaggle has not reported a terminal state; the kernel is still running or queued.''))"

definition classify_stop_reason ::
  "(string \<Rightarrow> json option) \<Rightarrow> string list \<Rightarrow> string \<Rightarrow> string \<Rightarrow> bool \<Rightarrow> json dict" where
  "classify_stop_reason loads secrets provider_status logs cancel_requested =
     (let token = status_token loads provider_status;
          state = state_of token;
          scan = log_lines loads logs;
          (training, progress) = training_evidence loads (state = Run_complete) (scan_lines scan);
          details = (case scan_elapsed scan of None \<Rightarrow> progress | Some v \<Rightarrow> AList.update ''elapsed_seconds'' v progress);
          details = (case training of None \<Rightarrow> details
             | Some t \<Rightarrow> dict_update details (filter (\<lambda>kv. fst kv \<in> set number_names) t));
          result = [(''reason'', JStr ''unknown''), (''source'', JStr ''provider''), (''confidence'', JStr ''unknown''),
             (''provider_status'', JStr token)] @ details;
          result = (case training of None \<Rightarrow> result
             | Some t \<Rightarrow> if state \<noteq> Run_complete
                 then AList.update ''training_reason'' (the (map_of t ''reason'')) result else result);
          (fs, message) = state_fields state cancel_requested training (scan_elapsed scan)
      in AList.update ''message'' (JStr (redact_secrets secrets message)) (dict_update result fs))"


section \<open>What a report can hold\<close>

lemma map_of_dict_update: "map_of (dict_update d e) = map_of d ++ map_of (rev e)"
proof (induction e arbitrary: d)
  case (Cons kv e)
  then show ?case by (cases kv) (auto simp: dict_update_def update_conv' fun_eq_iff map_add_def split: option.splits)
qed (simp add: dict_update_def)

lemma set_update_subset: "set (AList.update k v d) \<subseteq> insert (k, v) (set d)"
  by (induction d) auto

lemma set_dict_update_subset: "set (dict_update d e) \<subseteq> set d \<union> set e"
proof (induction e arbitrary: d)
  case (Cons kv e)
  obtain k v where kv: "kv = (k, v)" by (cases kv)
  have "dict_update d (kv # e) = dict_update (AList.update k v d) e" by (simp add: dict_update_def kv)
  then show ?case using Cons.IH [of "AList.update k v d"] set_update_subset [of k v d] kv by auto
qed (simp add: dict_update_def)

text \<open>Numbers of a report carry a known name and lie within bounds.\<close>

definition numbers_ok :: "json dict \<Rightarrow> bool" where
  "numbers_ok d \<longleftrightarrow> (\<forall>(k, v) \<in> set d. k \<in> set number_names \<and> valid_number k (Some v))"

lemma numeric_fieldsD:
  assumes "numeric_fields over p = Some ns"
  shows "n \<in> set number_names \<Longrightarrow> map_of p n = Some v \<Longrightarrow> valid_number n (Some v)"
    and "ns = map (\<lambda>n. (n, the (map_of p n))) (filter (\<lambda>n. map_of p n \<noteq> None) number_names)"
proof -
  have all: "\<not> list_ex (\<lambda>n. \<not> valid_number n (map_of p n)) (filter (\<lambda>n. map_of p n \<noteq> None) number_names)"
    using assms unfolding numeric_fields_def Let_def by (metis option.distinct(1))
  then show "n \<in> set number_names \<Longrightarrow> map_of p n = Some v \<Longrightarrow> valid_number n (Some v)"
    by (metis (mono_tags, lifting) list_ex_iff mem_Collect_eq option.distinct(1) set_filter)
  show "ns = map (\<lambda>n. (n, the (map_of p n))) (filter (\<lambda>n. map_of p n \<noteq> None) number_names)"
    using assms all unfolding numeric_fields_def Let_def by (simp split: if_splits)
qed

lemma numeric_fields_ok: "numeric_fields over p = Some ns \<Longrightarrow> numbers_ok ns"
  using numeric_fieldsD(1) [of over p ns] unfolding numbers_ok_def numeric_fieldsD(2) [of over p ns] by auto

text \<open>Numbers read from a line of text, when they are valid.\<close>

lemma valid_numbers_ok:
  assumes "numeric_fields over ns \<noteq> None" and "set (map fst ns) \<subseteq> set number_names" and "distinct (map fst ns)"
  shows "numbers_ok ns"
proof -
  obtain r where r: "numeric_fields over ns = Some r" using assms(1) by blast
  show ?thesis
    unfolding numbers_ok_def
  proof (intro ballI, clarify)
    fix k v assume kv: "(k, v) \<in> set ns"
    then have "k \<in> set number_names" using assms(2) by force
    moreover have "map_of ns k = Some v" using kv assms(3) by simp
    ultimately show "k \<in> set number_names \<and> valid_number k (Some v)" using numeric_fieldsD(1) [OF r] by blast
  qed
qed

lemma numbers_ok_Nil [simp]: "numbers_ok []"
  by (simp add: numbers_ok_def)

lemma numbers_ok_update: "numbers_ok d \<Longrightarrow> numbers_ok ns \<Longrightarrow> numbers_ok (dict_update d ns)"
  using set_dict_update_subset [of d ns] by (auto simp: numbers_ok_def)

definition training_ok :: "json dict \<Rightarrow> bool" where
  "training_ok t \<longleftrightarrow> (\<exists>r source confidence ns. t = evidence_of r source confidence ns \<and> r \<in> set reason_names
     \<and> source \<in> {''runtime'', ''logs''} \<and> confidence \<in> {''confirmed'', ''inferred''} \<and> numbers_ok ns)"

lemma training_okI:
  "r \<in> set reason_names \<Longrightarrow> source \<in> {''runtime'', ''logs''} \<Longrightarrow> confidence \<in> {''confirmed'', ''inferred''}
   \<Longrightarrow> numbers_ok ns \<Longrightarrow> training_ok (evidence_of r source confidence ns)"
  unfolding training_ok_def by blast

definition evidence_ok :: "evidence \<Rightarrow> bool" where
  "evidence_ok e \<longleftrightarrow> pred_option training_ok (marker e) \<and> pred_option training_ok (early e)
     \<and> pred_option training_ok (completed e) \<and> numbers_ok (epoch_progress e)"

lemma completed_line_names: "completed_line line = Some ns \<Longrightarrow> map fst ns = [''epoch'', ''elapsed_seconds'']"
  by (clarsimp simp: completed_line_def bind_eq_Some_conv split: if_splits) (elim disjE conjE; clarsimp)?

lemma final_progress_names: "final_progress line = Some ns \<Longrightarrow> map fst ns = [''epoch'', ''epochs'']"
  by (clarsimp simp: final_progress_def bind_eq_Some_conv split: if_splits) (elim disjE conjE; clarsimp)?

lemma early_stop_names: "early_stop line = Some ns \<Longrightarrow> map fst ns = [''patience'', ''best_epoch'']"
  by (clarsimp simp: early_stop_def bind_eq_Some_conv split: if_splits) (elim disjE conjE; clarsimp)?

lemma line_numbers_ok:
  assumes "numeric_fields False ns \<noteq> None"
  shows "completed_line line = Some ns \<Longrightarrow> numbers_ok ns"
    and "final_progress line = Some ns \<Longrightarrow> numbers_ok ns"
    and "early_stop line = Some ns \<Longrightarrow> numbers_ok ns"
  using completed_line_names [of line ns] final_progress_names [of line ns] early_stop_names [of line ns]
  by (intro valid_numbers_ok [OF assms]; simp add: number_names_def)+

lemma stop_marker_ok: "evidence_ok e \<Longrightarrow> evidence_ok (stop_marker p e)"
  using numeric_fields_ok
  by (auto simp: stop_marker_def evidence_ok_def intro!: training_okI numbers_ok_update
      split: option.splits json.splits if_splits)

lemma progress_event_ok: "evidence_ok e \<Longrightarrow> evidence_ok (progress_event finished p e)"
  using numeric_fields_ok
  by (auto simp: progress_event_def evidence_ok_def reason_names_def Let_def intro!: training_okI split: option.splits)

lemma completion_lines_ok: "evidence_ok e \<Longrightarrow> evidence_ok (completion_lines line e)"
  using line_numbers_ok(1,2)
  by (auto simp: completion_lines_def evidence_ok_def reason_names_def Let_def
      intro!: training_okI numbers_ok_update split: option.splits)

lemma read_line_ok: "evidence_ok e \<Longrightarrow> evidence_ok (read_line loads finished line e)"
  using stop_marker_ok [of e] progress_event_ok [of e] completion_lines_ok [of e] line_numbers_ok(3)
  by (auto simp: read_line_def Let_def evidence_ok_def reason_names_def intro!: training_okI split: option.splits)

lemma fold_read_ok: "evidence_ok e \<Longrightarrow> evidence_ok (fold (read_line loads finished) ls e)"
  by (induction ls arbitrary: e) (auto intro: read_line_ok)

lemma training_evidence_ok:
  assumes "training_evidence loads finished ls = (training, progress)"
  shows "pred_option training_ok training \<and> numbers_ok progress"
proof -
  define e where "e = fold (read_line loads finished) ls
      \<lparr>marker = None, early = None, completed = None, epoch_progress = []\<rparr>"
  have "evidence_ok e" unfolding e_def by (rule fold_read_ok) (simp add: evidence_ok_def)
  then show ?thesis
    using assms unfolding training_evidence_def e_def [symmetric]
    by (auto simp: Let_def evidence_ok_def split: if_splits)
qed

lemma append_record_elapsed:
  "append_record rec s = Some s' \<Longrightarrow> scan_elapsed s' = scan_elapsed s \<or> valid_number ''elapsed_seconds'' (scan_elapsed s')"
  by (auto simp: append_record_def Let_def split: option.splits json.splits if_splits)

definition elapsed_ok :: "log_scan \<Rightarrow> bool" where
  "elapsed_ok s \<longleftrightarrow> scan_elapsed s = None \<or> valid_number ''elapsed_seconds'' (scan_elapsed s)"

lemma append_record_ok: "elapsed_ok s \<Longrightarrow> append_record rec s = Some s' \<Longrightarrow> elapsed_ok s'"
  using append_record_elapsed [of rec s s'] by (auto simp: elapsed_ok_def)

lemma append_or_keep_ok: "elapsed_ok s \<Longrightarrow> elapsed_ok (append_or_keep rec s)"
  by (auto simp: append_or_keep_def intro: append_record_ok split: option.splits)

lemma scan_line_ok: "elapsed_ok s \<Longrightarrow> elapsed_ok (scan_line loads line s)"
  using append_record_ok [of s] by (auto simp: scan_line_def elapsed_ok_def split: option.splits)

lemma fold_scan_ok:
  "elapsed_ok s \<Longrightarrow> elapsed_ok (fold (scan_line loads) ls s)"
  "elapsed_ok s \<Longrightarrow> elapsed_ok (fold (\<lambda>r. append_or_keep (Some r)) rs s)"
proof -
  show "elapsed_ok s \<Longrightarrow> elapsed_ok (fold (scan_line loads) ls s)"
    by (induction ls arbitrary: s) (auto intro: scan_line_ok)
  show "elapsed_ok s \<Longrightarrow> elapsed_ok (fold (\<lambda>r. append_or_keep (Some r)) rs s)"
    by (induction rs arbitrary: s) (auto intro: append_or_keep_ok)
qed

lemma log_lines_ok: "elapsed_ok (log_lines loads text)"
proof -
  have "elapsed_ok \<lparr>scan_lines = [], scan_elapsed = None\<rparr>" by (simp add: elapsed_ok_def)
  note start = fold_scan_ok [OF this] append_record_ok [OF this]
  show ?thesis
  proof (cases "loads text")
    case None
    with start show ?thesis by (auto simp: log_lines_def Let_def split: option.split)
  next
    case (Some j)
    with start show ?thesis by (cases j) (auto simp: log_lines_def Let_def split: option.split)
  qed
qed


section \<open>Properties\<close>

lemma map_of_numbers:
  "numbers_ok d \<Longrightarrow> k \<notin> set number_names \<Longrightarrow> map_of d k = None"
  by (auto simp: numbers_ok_def map_of_eq_None_iff)

lemma classify_parts:
  obtains training progress details where
    "training_evidence loads (state_of (status_token loads ps) = Run_complete) (scan_lines (log_lines loads logs))
       = (training, progress)"
    and "pred_option training_ok training" and "numbers_ok details"
    and "classify_stop_reason loads secrets ps logs c =
      (let result = [(''reason'', JStr ''unknown''), (''source'', JStr ''provider''), (''confidence'', JStr ''unknown''),
             (''provider_status'', JStr (status_token loads ps))] @ details;
          result = (case training of None \<Rightarrow> result
             | Some t \<Rightarrow> if state_of (status_token loads ps) \<noteq> Run_complete
                 then AList.update ''training_reason'' (the (map_of t ''reason'')) result else result);
          (fs, message) = state_fields (state_of (status_token loads ps)) c training (scan_elapsed (log_lines loads logs))
      in AList.update ''message'' (JStr (redact_secrets secrets message)) (dict_update result fs))"
proof -
  let ?tok = "status_token loads ps" and ?scan = "log_lines loads logs"
  obtain training progress where t: "training_evidence loads (state_of ?tok = Run_complete) (scan_lines ?scan) = (training, progress)"
    by (cases "training_evidence loads (state_of ?tok = Run_complete) (scan_lines ?scan)")
  note ok = training_evidence_ok [OF t]
  define d where "d = (case scan_elapsed ?scan of None \<Rightarrow> progress | Some v \<Rightarrow> AList.update ''elapsed_seconds'' v progress)"
  have d: "numbers_ok d"
    using ok log_lines_ok [of loads logs] set_update_subset [of "''elapsed_seconds''" _ progress]
    by (fastforce simp: d_def numbers_ok_def elapsed_ok_def number_names_def split: option.splits)
  define d' where "d' = (case training of None \<Rightarrow> d | Some t \<Rightarrow> dict_update d (filter (\<lambda>kv. fst kv \<in> set number_names) t))"
  have d': "numbers_ok d'"
  proof (cases training)
    case (Some t)
    then obtain r source confidence ns where e: "t = evidence_of r source confidence ns" "numbers_ok ns"
      using ok by (auto simp: training_ok_def)
    then have "numbers_ok (filter (\<lambda>kv. fst kv \<in> set number_names) t)"
      by (auto simp: numbers_ok_def evidence_of_def number_names_def)
    with d Some show ?thesis by (simp add: d'_def numbers_ok_update)
  qed (simp add: d'_def d)
  have "pred_option training_ok training" using ok by simp
  then show thesis
    by (rule that [OF t _ d'])
      (simp only: classify_stop_reason_def Let_def t case_prod_conv d_def d'_def)
qed

lemma status_token_known: "status_token loads ps \<in> set (''UNKNOWN'' # map fst state_table)"
  by (auto simp: status_token_def Let_def split: option.splits)

lemma map_of_evidence:
  assumes "numbers_ok ns"
  shows "map_of (evidence_of r source confidence ns) ''reason'' = Some (JStr r)"
    and "map_of (rev (evidence_of r source confidence ns)) ''reason'' = Some (JStr r)"
    and "map_of (rev (evidence_of r source confidence ns)) ''provider_status'' = None"
proof -
  have "numbers_ok (rev ns)" using assms by (simp add: numbers_ok_def)
  from map_of_numbers [OF this] show "map_of (rev (evidence_of r source confidence ns)) ''reason'' = Some (JStr r)"
    and "map_of (rev (evidence_of r source confidence ns)) ''provider_status'' = None"
    by (simp_all add: evidence_of_def number_names_def map_add_def)
qed (simp add: evidence_of_def)

lemma state_fields_reason:
  assumes "pred_option training_ok training" and "state_fields st c training v = (fs, message)"
  shows "(case map_of (rev fs) ''reason'' of
       None \<Rightarrow> st \<in> {Run_running, Run_queued, Run_unknown}
     | Some x \<Rightarrow> x \<in> JStr ` (case st of
         Run_canceled \<Rightarrow> {if c then ''user_canceled'' else ''provider_canceled''}
       | Run_error \<Rightarrow> {''provider_failed''}
       | Run_complete \<Rightarrow> {''completed_unknown'', ''early_stopping'', ''epochs_completed'', ''time_budget''}
       | _ \<Rightarrow> {}))
    \<and> map_of (rev fs) ''provider_status'' = None"
proof (cases st)
  case Run_complete
  show ?thesis
  proof (cases training)
    case (Some t)
    then obtain r source confidence ns where e: "t = evidence_of r source confidence ns" "r \<in> set reason_names" "numbers_ok ns"
      using assms(1) by (auto simp: training_ok_def)
    with Some Run_complete assms(2) map_of_evidence [OF e(3), of r source confidence] show ?thesis
      by (auto simp: state_fields_def informative_def reason_names_def)
  qed (use Run_complete assms(2) in \<open>auto simp: state_fields_def\<close>)
qed (use assms(2) in \<open>auto simp: state_fields_def Let_def split: if_splits\<close>)

text \<open>
  The classification is conservative. A run is reported canceled by the user only if the provider
  confirmed a cancellation the relay had asked for, failed only on a provider error, and ended by itself
  (early stopping, all epochs, time budget, or unknown) only if the provider said it completed; in any
  other state the reason stays unknown, whatever the log claims. The recorded provider status is one of
  the known tokens.
\<close>

theorem classification_conservative:
  "\<exists>x. map_of (classify_stop_reason loads secrets ps logs c) ''reason'' = Some (JStr x)
     \<and> x \<in> (case state_of (status_token loads ps) of
         Run_canceled \<Rightarrow> {if c then ''user_canceled'' else ''provider_canceled''}
       | Run_error \<Rightarrow> {''provider_failed''}
       | Run_complete \<Rightarrow> {''completed_unknown'', ''early_stopping'', ''epochs_completed'', ''time_budget''}
       | _ \<Rightarrow> {''unknown''})
     \<and> map_of (classify_stop_reason loads secrets ps logs c) ''provider_status'' = Some (JStr (status_token loads ps))
     \<and> status_token loads ps \<in> set (''UNKNOWN'' # map fst state_table)"
proof -
  let ?st = "state_of (status_token loads ps)"
  obtain training progress details where ok: "pred_option training_ok training" "numbers_ok details"
    and r: "classify_stop_reason loads secrets ps logs c =
      (let result = [(''reason'', JStr ''unknown''), (''source'', JStr ''provider''), (''confidence'', JStr ''unknown''),
             (''provider_status'', JStr (status_token loads ps))] @ details;
          result = (case training of None \<Rightarrow> result
             | Some t \<Rightarrow> if ?st \<noteq> Run_complete then AList.update ''training_reason'' (the (map_of t ''reason'')) result else result);
          (fs, message) = state_fields ?st c training (scan_elapsed (log_lines loads logs))
      in AList.update ''message'' (JStr (redact_secrets secrets message)) (dict_update result fs))"
    by (rule classify_parts)
  obtain fs message where f: "state_fields ?st c training (scan_elapsed (log_lines loads logs)) = (fs, message)"
    by (cases "state_fields ?st c training (scan_elapsed (log_lines loads logs))")
  define result where "result = (let result = [(''reason'', JStr ''unknown''), (''source'', JStr ''provider''),
         (''confidence'', JStr ''unknown''), (''provider_status'', JStr (status_token loads ps))] @ details
      in case training of None \<Rightarrow> result
         | Some t \<Rightarrow> if ?st \<noteq> Run_complete then AList.update ''training_reason'' (the (map_of t ''reason'')) result else result)"
  have res: "map_of result ''reason'' = Some (JStr ''unknown'')"
    "map_of result ''provider_status'' = Some (JStr (status_token loads ps))"
    by (simp_all add: result_def Let_def split: option.split)
  have c: "classify_stop_reason loads secrets ps logs c
      = AList.update ''message'' (JStr (redact_secrets secrets message)) (dict_update result fs)"
    by (simp only: r f Let_def result_def case_prod_conv)
  note sf = state_fields_reason [OF ok(1) f]
  have p: "map_of (classify_stop_reason loads secrets ps logs c) ''provider_status'' = Some (JStr (status_token loads ps))"
    using sf res by (simp add: c map_of_dict_update map_add_def)
  have m: "map_of (classify_stop_reason loads secrets ps logs c) ''reason''
      = (case map_of (rev fs) ''reason'' of None \<Rightarrow> Some (JStr ''unknown'') | Some x \<Rightarrow> Some x)"
    using res by (cases "map_of (rev fs) ''reason''") (simp_all add: c map_of_dict_update map_add_def)
  show ?thesis
  proof (cases "map_of (rev fs) ''reason''")
    case None
    with sf have "?st \<in> {Run_running, Run_queued, Run_unknown}" by simp
    with m None p status_token_known [of loads ps] show ?thesis by auto
  next
    case (Some x)
    with sf obtain y where y: "x = JStr y" "y \<in> (case ?st of
         Run_canceled \<Rightarrow> {if c then ''user_canceled'' else ''provider_canceled''}
       | Run_error \<Rightarrow> {''provider_failed''}
       | Run_complete \<Rightarrow> {''completed_unknown'', ''early_stopping'', ''epochs_completed'', ''time_budget''}
       | _ \<Rightarrow> {})" by auto
    then have "y \<in> (case ?st of
         Run_canceled \<Rightarrow> {if c then ''user_canceled'' else ''provider_canceled''}
       | Run_error \<Rightarrow> {''provider_failed''}
       | Run_complete \<Rightarrow> {''completed_unknown'', ''early_stopping'', ''epochs_completed'', ''time_budget''}
       | _ \<Rightarrow> {''unknown''})" by (cases ?st) simp_all
    with m Some y(1) p status_token_known [of loads ps] show ?thesis
      by (intro exI [of _ y] conjI) simp_all
  qed
qed

section \<open>The closed vocabulary of a report\<close>

definition report_texts :: "string list" where
  "report_texts = ''UNKNOWN'' # map fst state_table @ reason_names
     @ [''provider'', ''relay'', ''runtime'', ''logs'', ''confirmed'', ''inferred'', ''user_canceled'',
        ''provider_canceled'', ''provider_failed'', ''completed_unknown'', ''time_limit'']"

definition report_messages :: "string list" where
  "report_messages =
     [''No authoritative terminal provider status has been observed.'',
      ''Kaggle confirmed cancellation requested through Relay.'',
      ''Kaggle confirmed cancellation; the cause was not supplied.'',
      ''Kaggle confirmed cancellation; the cause was not supplied.''
        @ '' Last log timing is consistent with a 12-hour limit, but does not prove it.'',
      ''Kaggle reported failure after a training stop was logged; later processing may have failed.'',
      ''Kaggle reported kernel failure; the failing stage is not established.'',
      ''Kaggle completed successfully; the training stop reason is unavailable.'',
      ''Training stopped after no improvement within the patience window.'',
      ''Training epoch completion was recorded and Kaggle completed successfully.'',
      ''The runtime reported stopping at its configured training time budget.'',
      ''Kaggle has not reported a terminal state; the kernel is still running or queued.'']"

definition report_field :: "(string \<times> json) \<Rightarrow> bool" where
  "report_field kv \<longleftrightarrow> fst kv \<in> set number_names \<and> valid_number (fst kv) (Some (snd kv))
     \<or> snd kv \<in> JStr ` set report_texts"

lemma report_numbers: "numbers_ok d \<Longrightarrow> kv \<in> set d \<Longrightarrow> report_field kv"
  by (cases kv) (auto simp: numbers_ok_def report_field_def)

lemma report_text: "t \<in> set report_texts \<Longrightarrow> report_field (k, JStr t)"
  by (simp add: report_field_def)

lemma fixed_words:
  "set reason_names \<subseteq> set report_texts"
  "{''provider'', ''relay'', ''runtime'', ''logs'', ''confirmed'', ''inferred'', ''user_canceled'', ''unknown'',
    ''provider_canceled'', ''provider_failed'', ''completed_unknown'', ''time_limit''} \<subseteq> set report_texts"
  by (auto simp: report_texts_def reason_names_def)

lemma report_training: "training_ok t \<Longrightarrow> kv \<in> set t \<Longrightarrow> report_field kv"
  using fixed_words
  by (auto simp: training_ok_def evidence_of_def intro: report_numbers intro!: report_text)

lemma state_fields_report:
  assumes "pred_option training_ok training" and "state_fields st c training v = (fs, message)"
  shows "(\<forall>kv \<in> set fs. report_field kv) \<and> message \<in> set report_messages"
  using assms report_training
  by (cases st; cases training)
    (auto simp: state_fields_def Let_def report_messages_def report_texts_def informative_def
      intro!: report_text split: if_splits)


lemma evidence_reason_text:
  "training_ok t \<Longrightarrow> \<exists>r \<in> set report_texts. map_of t ''reason'' = Some (JStr r)"
  using fixed_words(1) by (auto simp: training_ok_def evidence_of_def)

text \<open>
  A report carries no text of the log. Every entry is a bounded number under one of the five known
  names, a word of a fixed vocabulary, or the message, which is one of eleven fixed sentences.
\<close>

theorem report_is_closed:
  "\<forall>(k, v) \<in> set (classify_stop_reason loads secrets ps logs c).
     k \<in> set number_names \<and> valid_number k (Some v)
     \<or> v \<in> JStr ` set report_texts
     \<or> k = ''message'' \<and> v \<in> (\<lambda>m. JStr (redact_secrets secrets m)) ` set report_messages"
proof -
  let ?st = "state_of (status_token loads ps)"
  obtain training progress details where ok: "pred_option training_ok training" "numbers_ok details"
    and r: "classify_stop_reason loads secrets ps logs c =
      (let result = [(''reason'', JStr ''unknown''), (''source'', JStr ''provider''), (''confidence'', JStr ''unknown''),
             (''provider_status'', JStr (status_token loads ps))] @ details;
          result = (case training of None \<Rightarrow> result
             | Some t \<Rightarrow> if ?st \<noteq> Run_complete then AList.update ''training_reason'' (the (map_of t ''reason'')) result else result);
          (fs, message) = state_fields ?st c training (scan_elapsed (log_lines loads logs))
      in AList.update ''message'' (JStr (redact_secrets secrets message)) (dict_update result fs))"
    by (rule classify_parts)
  obtain fs message where f: "state_fields ?st c training (scan_elapsed (log_lines loads logs)) = (fs, message)"
    by (cases "state_fields ?st c training (scan_elapsed (log_lines loads logs))")
  define base where "base = [(''reason'', JStr ''unknown''), (''source'', JStr ''provider''),
         (''confidence'', JStr ''unknown''), (''provider_status'', JStr (status_token loads ps))] @ details"
  define result where "result = (case training of None \<Rightarrow> base
         | Some t \<Rightarrow> if ?st \<noteq> Run_complete then AList.update ''training_reason'' (the (map_of t ''reason'')) base else base)"
  have "status_token loads ps \<in> set report_texts"
    using status_token_known [of loads ps] by (auto simp: report_texts_def)
  then have base: "report_field kv" if "kv \<in> set base" for kv
    using that fixed_words(2) report_numbers [OF ok(2), of kv] by (auto simp: base_def intro!: report_text)
  have result: "report_field kv" if kv: "kv \<in> set result" for kv
  proof (cases "kv \<in> set base")
    case False
    with kv obtain t where t: "training = Some t" and u: "kv \<in> set (AList.update ''training_reason'' (the (map_of t ''reason'')) base)"
      by (auto simp: result_def split: option.splits if_splits)
    from set_update_subset u False have "kv = (''training_reason'', the (map_of t ''reason''))" by fastforce
    moreover obtain x where "x \<in> set report_texts" "map_of t ''reason'' = Some (JStr x)"
      using evidence_reason_text [of t] ok(1) t by auto
    ultimately show ?thesis by (simp add: report_text)
  qed (rule base)
  note sf = state_fields_report [OF ok(1) f]
  have c: "classify_stop_reason loads secrets ps logs c
      = AList.update ''message'' (JStr (redact_secrets secrets message)) (dict_update result fs)"
    by (simp only: r f Let_def result_def base_def case_prod_conv)
  show ?thesis
  proof (intro ballI case_prodI2)
    fix kv k v assume "kv \<in> set (classify_stop_reason loads secrets ps logs c)" and "kv = (k, v)"
    then have "(k, v) \<in> set (classify_stop_reason loads secrets ps logs c)" by simp
    then consider "k = ''message'' \<and> v = JStr (redact_secrets secrets message)" | "(k, v) \<in> set result \<union> set fs"
      using set_update_subset [of "''message''" "JStr (redact_secrets secrets message)" "dict_update result fs"]
        set_dict_update_subset [of result fs] unfolding c by blast
    then show "k \<in> set number_names \<and> valid_number k (Some v) \<or> v \<in> JStr ` set report_texts
        \<or> k = ''message'' \<and> v \<in> (\<lambda>m. JStr (redact_secrets secrets m)) ` set report_messages"
    proof cases
      case 1
      with sf show ?thesis by blast
    next
      case 2
      then have "report_field (k, v)" using result sf by blast
      then show ?thesis by (auto simp: report_field_def)
    qed
  qed
qed

definition sample_run_log :: string where
  "sample_run_log = ''5/5 12it 100%''"

lemma sample_parts:
  "status_token (\<lambda>_. None) ''COMPLETE'' = ''COMPLETE''" "state_of ''COMPLETE'' = Run_complete"
  "log_lines (\<lambda>_. None) sample_run_log = \<lparr>scan_lines = [sample_run_log], scan_elapsed = None\<rparr>"
  "training_evidence (\<lambda>_. None) True [sample_run_log] =
     (Some (evidence_of ''epochs_completed'' ''logs'' ''inferred'' [(''epoch'', JInt 5), (''epochs'', JInt 5)]), [])"
  by code_simp+

lemma sample_report:
  "classify_stop_reason (\<lambda>_. None) [] ''COMPLETE'' sample_run_log False =
     [(''reason'', JStr ''epochs_completed''), (''source'', JStr ''logs''), (''confidence'', JStr ''inferred''),
      (''provider_status'', JStr ''COMPLETE''), (''epoch'', JInt 5), (''epochs'', JInt 5),
      (''message'', JStr (redact_secrets [] ''Training epoch completion was recorded and Kaggle completed successfully.''))]"
  by (simp add: classify_stop_reason_def sample_parts state_fields_def informative_def evidence_of_def
      dict_update_def number_names_def Let_def)

lemma report_is_closed_witness:
  "(''epochs'', JInt 5) \<in> set (classify_stop_reason (\<lambda>_. None) [] ''COMPLETE'' sample_run_log False)
   \<and> valid_number ''epochs'' (Some (JInt 5))"
proof -
  have e: "(''epochs'', JInt 5) \<in> set (classify_stop_reason (\<lambda>_. None) [] ''COMPLETE'' sample_run_log False)"
    by (simp add: sample_report)
  from report_is_closed [of "\<lambda>_. None" "[]" "''COMPLETE''" sample_run_log False] e
  have "''epochs'' \<in> set number_names \<and> valid_number ''epochs'' (Some (JInt 5))
     \<or> JInt 5 \<in> JStr ` set report_texts" by fastforce
  with e show ?thesis by auto
qed


section \<open>The command line's spelling of a status\<close>

definition spelled :: "string \<Rightarrow> string \<Rightarrow> string \<Rightarrow> string" where
  "spelled owner slug token =
     owner @ ''/'' @ slug @ '' has status '' @ [CHR 0x22] @ ''KernelWorkerStatus.'' @ token @ [CHR 0x22]"

lemma eat_append [simp]: "eat a (a @ b) = Some b"
  by (simp add: eat_def)

lemma strip_ends:
  "xs \<noteq> [] \<Longrightarrow> \<not> is_space (hd xs) \<Longrightarrow> \<not> is_space (last xs) \<Longrightarrow> strip xs = xs"
  by (simp add: strip_def dropWhile_eq_self_iff [THEN iffD2] hd_rev)

lemma ref_run_append:
  "xs \<noteq> [] \<Longrightarrow> list_all ref_char xs \<Longrightarrow> ys = [] \<or> \<not> ref_char (hd ys) \<Longrightarrow> ref_run (xs @ ys) = Some ys"
proof -
  assume a: "xs \<noteq> []" "list_all ref_char xs" "ys = [] \<or> \<not> ref_char (hd ys)"
  have "takeWhile ref_char (xs @ ys) = xs \<and> dropWhile ref_char (xs @ ys) = ys"
    using a(2,3) by (cases ys) (simp_all add: list_all_iff takeWhile_append2 dropWhile_append2)
  with a(1) show ?thesis by (simp add: ref_run_def run_of_def)
qed

lemma ref_char_facts: "ref_char c \<Longrightarrow> \<not> is_space c \<and> c \<notin> {CHR ''{'', CHR ''['', CHR 0x22}"
  by (auto simp: ref_char_def is_word_def is_alnum_def is_space_def Let_def)

lemma token_chars:
  "list_all (\<lambda>t. t \<noteq> [] \<and> upper t = t \<and> hd t \<noteq> CHR ''K'' \<and> list_all (\<lambda>c. is_word c \<and> c \<noteq> CHR ''/'') t)
     (map fst state_table)"
  by code_simp

lemma word_facts: "is_word c \<Longrightarrow> ref_char c \<and> \<not> is_space c \<and> c \<notin> {CHR 0x22, CHR 0x27, CHR 0x0D, CHR 0x0A}"
  by (auto simp: ref_char_def is_word_def is_alnum_def is_space_def Let_def)

lemma enum_prefix:
  "lower ''KernelWorkerStatus.'' = ''kernelworkerstatus.''" "\<not> is_space (hd ''KernelWorkerStatus.'')"
  "list_all (\<lambda>c. c \<notin> {CHR 0x22, CHR 0x27, CHR 0x0D, CHR 0x0A}) ''KernelWorkerStatus.''"
  by code_simp+

lemma upper_lower_k: "lower_char c = CHR ''k'' \<Longrightarrow> upper_char c = c \<Longrightarrow> c = CHR ''K''"
proof (cases "65 \<le> (of_char c :: nat) \<and> (of_char c :: nat) \<le> 90")
  case True
  assume "lower_char c = CHR ''k''"
  with True have "char_of ((of_char c :: nat) + 32) = CHR ''k''" by (simp add: lower_char_def)
  then have "(of_char (char_of ((of_char c :: nat) + 32) :: char) :: nat) = of_char (CHR ''k'')" by simp
  with True have "of_char c = (75 :: nat)" by simp
  then have "c = char_of (75 :: nat)" by (metis char_of_char)
  moreover have "char_of (75 :: nat) = CHR ''K''" by code_simp
  ultimately show ?thesis by simp
next
  case False
  assume k: "lower_char c = CHR ''k''" "upper_char c = c"
  from False have "lower_char c = c" by (auto simp: lower_char_def Let_def)
  with k have "upper_char CHR ''k'' = CHR ''k''" by simp
  moreover have "upper_char CHR ''k'' \<noteq> CHR ''k''" by code_simp
  ultimately show ?thesis by contradiction
qed

lemma token_facts:
  assumes "t \<in> set (map fst state_table)"
  shows "cli_status t = None" "upper t = t" "strip t = t" "t \<noteq> []"
    "\<not> prefix ''kernelworkerstatus.'' (lower t)" "hd t \<notin> {CHR ''{'', CHR ''['', CHR 0x22}"
    "strip (''KernelWorkerStatus.'' @ t) = ''KernelWorkerStatus.'' @ t"
    "list_all (\<lambda>c. c \<notin> {CHR 0x22, CHR 0x27, CHR 0x0D, CHR 0x0A}) (''KernelWorkerStatus.'' @ t)"
proof -
  have t: "t \<noteq> []" "upper t = t" "hd t \<noteq> CHR ''K''" and w: "\<And>c. c \<in> set t \<Longrightarrow> is_word c"
    using token_chars assms unfolding list_all_iff by blast+
  then have hl: "is_word (hd t)" "is_word (last t)" by simp_all
  show "upper t = t" "t \<noteq> []" by (rule t)+
  show "strip t = t" using t hl word_facts by (intro strip_ends) auto
  show "strip (''KernelWorkerStatus.'' @ t) = ''KernelWorkerStatus.'' @ t"
    using t hl word_facts by (intro strip_ends) (auto simp: is_space_def)
  show "hd t \<notin> {CHR ''{'', CHR ''['', CHR 0x22}" using hl(1) word_facts ref_char_facts by blast
  have "ref_run t = Some []" using ref_run_append [of t "[]"] t w word_facts by (simp add: list_all_iff)
  then show "cli_status t = None" by (simp add: cli_status_def eat_def)
  show "list_all (\<lambda>c. c \<notin> {CHR 0x22, CHR 0x27, CHR 0x0D, CHR 0x0A}) (''KernelWorkerStatus.'' @ t)"
    using enum_prefix(3) w word_facts unfolding list_all_append by (simp only: list_all_iff) blast
  show "\<not> prefix ''kernelworkerstatus.'' (lower t)"
  proof
    assume "prefix ''kernelworkerstatus.'' (lower t)"
    then obtain z where "lower t = ''kernelworkerstatus.'' @ z" unfolding prefix_def by blast
    then have "lower_char (hd t) = CHR ''k''" using t(1) by (cases t) (simp_all add: lower_def)
    moreover have "upper_char (hd t) = hd t" using t(1,2) by (cases t) (simp_all add: upper_def)
    ultimately show False using t(3) upper_lower_k [of "hd t"] by blast
  qed
qed

lemma cli_status_spelled:
  assumes "owner \<noteq> []" "list_all ref_char owner" "slug \<noteq> []" "list_all ref_char slug" "token \<in> set (map fst state_table)"
  shows "cli_status (spelled owner slug token) = Some (''KernelWorkerStatus.'' @ token)"
proof -
  let ?body = "''KernelWorkerStatus.'' @ token"
  have b: "list_all (\<lambda>c. c \<notin> {CHR 0x22, CHR 0x27, CHR 0x0D, CHR 0x0A}) ?body"
    by (rule token_facts(8) [OF assms(5)])
  have body: "run_of (\<lambda>c. c \<notin> {CHR 0x22, CHR 0x27, CHR 0x0D, CHR 0x0A}) (?body @ [CHR 0x22]) = (?body, [CHR 0x22])"
    using b by (simp only: run_of_def list_all_iff takeWhile_append2 dropWhile_append2) simp
  have q: "quoted_status (CHR 0x22 # ?body @ [CHR 0x22]) = Some ?body"
    by (simp only: quoted_status_def list.case body Let_def case_prod_conv) simp
  have "ref_run (owner @ ''/'' @ z) = Some (''/'' @ z)" for z
    by (rule ref_run_append) (use assms in \<open>simp_all add: ref_char_def is_word_def is_alnum_def\<close>)
  moreover have "ref_run (slug @ '' has status '' @ z) = Some ('' has status '' @ z)" for z
    by (rule ref_run_append) (use assms in \<open>simp_all add: ref_char_def is_word_def is_alnum_def\<close>)
  moreover have "spaces ('' has status '' @ z) = Some (''has status '' @ z)" for z
    by (simp add: spaces_def ascii_space_def char_in_def)
  moreover have "eat ''has status'' (''has status '' @ z) = Some ('' '' @ z)" for z by (simp add: eat_def)
  moreover have "spaces ('' '' @ [CHR 0x22] @ z) = Some ([CHR 0x22] @ z)" for z
    by (simp add: spaces_def ascii_space_def char_in_def)
  moreover have "eat ''/'' (''/'' @ z) = Some z" for z by (rule eat_append)
  ultimately show ?thesis
    unfolding cli_status_def spelled_def using q by (simp only: bind.simps append_Cons append_Nil)
qed

text \<open>
  However Kaggle spells a status, it is understood: the whole line the command prints for any kernel,
  with the enumeration's prefix, gives the same provider state as the bare token.
\<close>

theorem cli_line_understood:
  assumes "owner \<noteq> []" "list_all ref_char owner" "slug \<noteq> []" "list_all ref_char slug" "token \<in> set (map fst state_table)"
  shows "provider_state loads (spelled owner slug token) = provider_state loads token
    \<and> status_token loads token = token"
proof -
  note t = token_facts [OF assms(5)]
  have tok: "status_token loads token = token"
    using t assms(5) by (simp add: status_token_def decoded_status_def)
  have h: "ref_char (hd owner)" using assms(1,2) by (cases owner) auto
  have st: "strip (spelled owner slug token) = spelled owner slug token"
    using assms(1) ref_char_facts [OF h] by (intro strip_ends) (simp_all add: spelled_def is_space_def)
  have d: "decoded_status loads (spelled owner slug token) = Some (spelled owner slug token)"
    using assms(1) ref_char_facts [OF h] by (simp add: decoded_status_def spelled_def)
  have p: "prefix ''kernelworkerstatus.'' (lower (''KernelWorkerStatus.'' @ token))"
    using enum_prefix(1) by (simp add: lower_def del: append.simps)
  have "status_token loads (spelled owner slug token) = token"
    using cli_status_spelled [OF assms] t p assms(5)
    by (simp add: status_token_def st d del: append_Cons)
  with tok show ?thesis by (simp add: provider_state_def)
qed

lemma cli_line_understood_witness:
  "provider_state (\<lambda>_. None) (spelled ''me'' ''k-1'' ''ERROR'') = ''ERROR'' \<and> ''ERROR'' \<in> set (map fst state_table)"
proof -
  have "list_all ref_char ''me''" "list_all ref_char ''k-1''" "''ERROR'' \<in> set (map fst state_table)" by code_simp+
  from cli_line_understood [OF _ this(1) _ this(2,3), of "\<lambda>_. None"] this(3) show ?thesis
    by (simp add: provider_state_def state_of_def state_table_def)
qed

end
