(* ===== verification/Progress.thy ===== *)
theory Progress
  imports Stop_Reason Access
begin

text \<open>
  Progress reports of a running job: the validation of startup observations and the order in which they
  may replace each other (\<^verbatim>\<open>app/startup_progress.py\<close>), and what a callback makes of a report
  (\<^verbatim>\<open>progress_from_callback\<close> and \<^verbatim>\<open>callback_log_message\<close> of \<^verbatim>\<open>app/main.py\<close>). A report is the dictionary
  that validation hands over; \<^verbatim>\<open>int\<close> and \<^verbatim>\<open>float\<close> of a JSON value are written out, on ASCII digits.
\<close>

section \<open>Numbers\<close>

text \<open>Digits with single underscores between them.\<close>

fun digit_run :: "bool \<Rightarrow> string \<Rightarrow> bool" where
  "digit_run after_digit [] \<longleftrightarrow> after_digit"
| "digit_run after_digit (c # cs) \<longleftrightarrow>
     (if is_digit c then digit_run True cs else c = CHR ''_'' \<and> after_digit \<and> digit_run False cs)"

definition run_value :: "string \<Rightarrow> int" where
  "run_value s = digits_value (filter is_digit s)"

definition split_sign :: "string \<Rightarrow> int \<times> string" where
  "split_sign s =
     (case s of
        [] \<Rightarrow> (1, [])
      | c # r \<Rightarrow> if c = CHR ''-'' then (-1, r) else if c = CHR ''+'' then (1, r) else (1, s))"

definition signed_run :: "string \<Rightarrow> int option" where
  "signed_run s = (let (sign, r) = split_sign s in if digit_run False r then Some (sign * run_value r) else None)"

definition ten_to :: "int \<Rightarrow> rat" where
  "ten_to e = (if 0 \<le> e then 10 ^ nat e else 1 / 10 ^ nat (- e))"

definition mantissa :: "string \<Rightarrow> rat option" where
  "mantissa s =
     (let (ip, r) = run_of (\<lambda>c. c \<noteq> CHR ''.'') s; fp = drop 1 r in
      if (ip = [] \<or> digit_run False ip) \<and> (fp = [] \<or> digit_run False fp) \<and> (ip \<noteq> [] \<or> fp \<noteq> [])
      then Some (of_int (run_value ip) + of_int (run_value fp) / 10 ^ length (filter is_digit fp))
      else None)"

text \<open>\<^verbatim>\<open>int(v)\<close>; \<^const>\<open>None\<close> when it raises.\<close>

definition py_int :: "json \<Rightarrow> int option" where
  "py_int v =
     (case v of
        JInt i \<Rightarrow> Some i
      | JBool b \<Rightarrow> Some (if b then 1 else 0)
      | JFloat r \<Rightarrow> Some (if 0 \<le> r then \<lfloor>r\<rfloor> else \<lceil>r\<rceil>)
      | JStr s \<Rightarrow> signed_run (strip s)
      | _ \<Rightarrow> None)"

text \<open>\<^verbatim>\<open>float(v)\<close>; \<^const>\<open>None\<close> when it raises or the value is not finite, which the code rejects alike.\<close>

definition py_float :: "json \<Rightarrow> rat option" where
  "py_float v =
     (case v of
        JInt i \<Rightarrow> Some (of_int i)
      | JBool b \<Rightarrow> Some (if b then 1 else 0)
      | JFloat r \<Rightarrow> Some r
      | JStr s \<Rightarrow>
          let (sign, r) = split_sign (strip s);
              (m, e) = run_of (\<lambda>c. c \<noteq> CHR ''e'' \<and> c \<noteq> CHR ''E'') r
          in (case (mantissa m, if e = [] then Some 0 else signed_run (tl e)) of
                (Some x, Some n) \<Rightarrow> Some (of_int sign * x * ten_to n)
              | _ \<Rightarrow> None)
      | _ \<Rightarrow> None)"

section \<open>Startup observations\<close>

definition nonblank :: "json option \<Rightarrow> bool" where
  "nonblank v = (case v of Some (JStr s) \<Rightarrow> strip s \<noteq> [] | _ \<Rightarrow> False)"

definition startup_times :: "string list" where
  "startup_times = [''startup_elapsed_seconds'', ''stage_elapsed_seconds'', ''reported_at'']"

definition startup_keys :: "string list" where
  "startup_keys = [''event_type'', ''backend'', ''startup_id'', ''startup_stage'', ''startup_status'', ''message'', ''error_code'']"

definition entries_of :: "json dict \<Rightarrow> string list \<Rightarrow> json dict" where
  "entries_of p ks = concat (map (\<lambda>k. case map_of p k of None \<Rightarrow> [] | Some v \<Rightarrow> [(k, v)]) ks)"

definition startup_shape :: "json dict \<Rightarrow> bool" where
  "startup_shape p \<longleftrightarrow>
     map_of p ''event_type'' = Some (JStr ''startup'')
     \<and> map_of p ''backend'' \<in> {Some (JStr ''yolo''), Some (JStr ''patchcore'')}
     \<and> map_of p ''startup_status'' \<in> {Some (JStr ''running''), Some (JStr ''ready''), Some (JStr ''restarting''), Some (JStr ''failed'')}
     \<and> nonblank (map_of p ''startup_id'') \<and> nonblank (map_of p ''startup_stage'') \<and> nonblank (map_of p ''message'')"

definition startup_numbers :: "json dict \<Rightarrow> (int \<times> rat list) option" where
  "startup_numbers p =
     (case (Option.bind (map_of p ''startup_sequence'') py_int,
            those (map (\<lambda>k. Option.bind (map_of p k) py_float) startup_times)) of
        (Some n, Some ts) \<Rightarrow> if n < 1 \<or> list_ex (\<lambda>t. t < 0) ts then None else Some (n, ts)
      | _ \<Rightarrow> None)"

text \<open>The empty dictionary stands for an observation that is not valid.\<close>

definition parse_startup_progress :: "json dict \<Rightarrow> json dict" where
  "parse_startup_progress p =
     (if \<not> startup_shape p then []
      else case startup_numbers p of
          None \<Rightarrow> []
        | Some (n, ts) \<Rightarrow>
            entries_of p startup_keys @ zip startup_times (map JFloat ts)
            @ [(''startup_sequence'', JInt n), (''heartbeat'', JBool (map_of p ''heartbeat'' = Some (JBool True))),
               (''progress_source'', JStr ''startup'')])"

definition sequence_of :: "json dict \<Rightarrow> int" where
  "sequence_of e = int_or 0 (map_of e ''startup_sequence'')"

definition reported_of :: "json dict \<Rightarrow> rat" where
  "reported_of e = (case map_of e ''reported_at'' of Some (JFloat r) \<Rightarrow> r | _ \<Rightarrow> 0)"

definition not_newer :: "json dict \<Rightarrow> json dict \<Rightarrow> bool" where
  "not_newer old ev \<longleftrightarrow>
     (if map_of old ''startup_id'' = map_of ev ''startup_id'' then sequence_of ev \<le> sequence_of old
      else reported_of ev \<le> reported_of old)"

text \<open>The report a job's column holds: empty for no text or text that does not decode, \<^const>\<open>None\<close> for no dictionary.\<close>

definition stored_report :: "(string \<Rightarrow> json option) \<Rightarrow> json_text \<Rightarrow> json dict option" where
  "stored_report loads t =
     (if t = Raw [] then Some []
      else case loads_text loads t of None \<Rightarrow> Some [] | Some (JObj d) \<Rightarrow> Some d | Some _ \<Rightarrow> None)"

text \<open>\<^const>\<open>None\<close>: a phase that cannot be hashed makes the set test raise.\<close>

definition past_preparation :: "json option \<Rightarrow> bool option" where
  "past_preparation phase =
     (if \<not> truthy phase then Some False
      else case phase of
          Some (JArr _) \<Rightarrow> None
        | Some (JObj _) \<Rightarrow> None
        | _ \<Rightarrow> Some (phase \<notin> {Some (JStr ''prepare''), Some (JStr ''input'')}))"

definition ignore_startup_progress :: "(string \<Rightarrow> json option) \<Rightarrow> job \<Rightarrow> json dict \<Rightarrow> bool option" where
  "ignore_startup_progress loads j incoming =
     (if map_of incoming ''event_type'' \<noteq> Some (JStr ''startup'') then Some False
      else let ev = parse_startup_progress incoming in
        if ev = [] \<or> status j \<notin> {Pushing_kernel, Waiting_kernel, Cancel_requested} then Some True
        else case stored_report loads (kernel_status j) of
            None \<Rightarrow> Some False
          | Some previous \<Rightarrow>
              let old = parse_startup_progress previous in
              if old \<noteq> [] then Some (not_newer old ev)
              else if map_of previous ''epoch'' \<notin> {None, Some JNull} then Some True
              else past_preparation (map_of previous ''phase''))"

section \<open>Callback reports\<close>

definition rat_field :: "json dict \<Rightarrow> string \<Rightarrow> rat option" where
  "rat_field d k = (case map_of d k of Some (JFloat r) \<Rightarrow> Some r | Some (JInt i) \<Rightarrow> Some (of_int i) | _ \<Rightarrow> None)"

definition str_field :: "json dict \<Rightarrow> string \<Rightarrow> string" where
  "str_field d k = (case map_of d k of Some (JStr s) \<Rightarrow> s | _ \<Rightarrow> [])"

definition remote_percent :: "json dict \<Rightarrow> rat option" where
  "remote_percent d =
     (case rat_field d ''remote_progress'' of
        Some r \<Rightarrow> Some r
      | None \<Rightarrow>
          (case (rat_field d ''epoch'', rat_field d ''epochs'') of
             (Some e, Some n) \<Rightarrow> if n = 0 then None else Some (min 100 (max 0 (e / n * 100)))
           | _ \<Rightarrow> None))"

definition progress_from_callback :: "job \<Rightarrow> json dict \<Rightarrow> rat" where
  "progress_from_callback j d =
     (case remote_percent d of
        None \<Rightarrow> progress j
      | Some r \<Rightarrow> max (progress j) (min 80 (60 + r / 100 * 20)))"

definition callback_log_message :: "(json \<Rightarrow> string) \<Rightarrow> json dict \<Rightarrow> string" where
  "callback_log_message dumps_sorted d =
     (let message = strip (if str_field d ''message'' \<noteq> [] then str_field d ''message'' else str_field d ''log'')
      in if message \<noteq> [] then message else dumps_sorted (JObj d))"

section \<open>What is known of a parsed observation\<close>

lemma startup_numbersD:
  assumes "startup_numbers p = Some (n, ts)"
  shows "1 \<le> n \<and> length ts = 3 \<and> (\<forall>t \<in> set ts. 0 \<le> t)"
  using assms
  by (auto simp: startup_numbers_def startup_times_def list_ex_iff not_less split: option.splits if_splits)

lemma map_of_entries:
  "map_of (entries_of p ks) k = (if k \<in> set ks then map_of p k else None)"
  unfolding entries_of_def
  by (induction ks) (auto simp: map_add_def split: option.splits)

lemma parse_nonempty:
  "parse_startup_progress p \<noteq> [] \<longleftrightarrow> startup_shape p \<and> startup_numbers p \<noteq> None"
  by (auto simp: parse_startup_progress_def split: option.splits)

lemma map_of_parsed:
  assumes "startup_shape p" and "startup_numbers p = Some (n, [a, b, c])"
  shows "map_of (parse_startup_progress p) k =
    (if k \<in> set startup_keys then map_of p k
     else map_of [(''startup_elapsed_seconds'', JFloat a), (''stage_elapsed_seconds'', JFloat b), (''reported_at'', JFloat c),
        (''startup_sequence'', JInt n), (''heartbeat'', JBool (map_of p ''heartbeat'' = Some (JBool True))),
        (''progress_source'', JStr ''startup'')] k)"
proof -
  have e: "parse_startup_progress p = entries_of p startup_keys @ [(''startup_elapsed_seconds'', JFloat a),
      (''stage_elapsed_seconds'', JFloat b), (''reported_at'', JFloat c), (''startup_sequence'', JInt n),
      (''heartbeat'', JBool (map_of p ''heartbeat'' = Some (JBool True))), (''progress_source'', JStr ''startup'')]"
    using assms by (simp add: parse_startup_progress_def startup_times_def)
  have none: "k \<in> set startup_keys \<Longrightarrow> map_of [(''startup_elapsed_seconds'', JFloat a),
      (''stage_elapsed_seconds'', JFloat b), (''reported_at'', JFloat c), (''startup_sequence'', JInt n),
      (''heartbeat'', JBool (map_of p ''heartbeat'' = Some (JBool True))), (''progress_source'', JStr ''startup'')] k = None"
    by (auto simp: startup_keys_def)
  show ?thesis
  proof (cases "k \<in> set startup_keys")
    case True
    with none show ?thesis
      unfolding e map_of_append by (cases "map_of p k") (simp_all add: map_add_def map_of_entries)
  next
    case False
    then show ?thesis unfolding e map_of_append by (simp only: map_add_def map_of_entries if_False) (simp split: option.split)
  qed
qed

text \<open>An accepted observation is stored in its parsed form, over the rest of the report.\<close>

definition startup_data :: "json dict \<Rightarrow> json dict" where
  "startup_data d =
     dict_update d (parse_startup_progress d @ [(''epoch'', JNull), (''epochs'', JNull), (''remote_progress'', JNull)])"


lemma those_three: "those (map f [x, y, z]) = Some ts \<Longrightarrow> \<exists>a b c. ts = [a, b, c] \<and> f x = Some a \<and> f y = Some b \<and> f z = Some c"
  by (auto split: option.splits)

lemma startup_numbers_parts:
  assumes "startup_numbers p = Some (n, ts)"
  obtains a b c where "ts = [a, b, c]" and "0 \<le> a" "0 \<le> b" "0 \<le> c" "1 \<le> n"
    and "Option.bind (map_of p ''startup_sequence'') py_int = Some n"
    and "Option.bind (map_of p ''reported_at'') py_float = Some c"
  using assms those_three [of "\<lambda>k. Option.bind (map_of p k) py_float" "''startup_elapsed_seconds''" "''stage_elapsed_seconds''"
      "''reported_at''" ts]
  by (auto simp: startup_numbers_def startup_times_def not_less split: option.splits if_splits)

lemma parse_cong:
  assumes "\<And>k. k \<in> set startup_keys \<Longrightarrow> map_of p k = map_of q k" and "startup_numbers p = startup_numbers q"
    and "map_of p ''heartbeat'' = Some (JBool True) \<longleftrightarrow> map_of q ''heartbeat'' = Some (JBool True)"
  shows "parse_startup_progress p = parse_startup_progress q"
proof -
  have "entries_of p startup_keys = entries_of q startup_keys"
    unfolding entries_of_def using assms(1) by (intro arg_cong [where f = concat] map_cong) simp_all
  moreover have "startup_shape p = startup_shape q"
    using assms(1) by (simp add: startup_shape_def startup_keys_def)
  moreover have "JBool (map_of p ''heartbeat'' = Some (JBool True)) = JBool (map_of q ''heartbeat'' = Some (JBool True))"
    using assms(3) by simp
  ultimately show ?thesis using assms(2) by (simp only: parse_startup_progress_def)
qed

text \<open>Storing an observation does not change what it says.\<close>

lemma map_of_overlay:
  assumes "distinct (map fst e)"
  shows "map_of (dict_update d e) k = (case map_of e k of None \<Rightarrow> map_of d k | Some v \<Rightarrow> Some v)"
proof -
  have "map_of (rev e) = map_of e"
    using assms by (intro map_of_inject_set [THEN iffD2]) (simp_all add: rev_map [symmetric])
  then show ?thesis by (simp add: map_of_dict_update map_add_def)
qed

lemma entries_names: "map fst (entries_of p ks) = filter (\<lambda>k. map_of p k \<noteq> None) ks"
  unfolding entries_of_def by (induction ks) (auto split: option.splits)

definition nulls :: "json dict" where
  "nulls = [(''epoch'', JNull), (''epochs'', JNull), (''remote_progress'', JNull)]"

lemma distinct_overlay:
  assumes "startup_shape d" and "startup_numbers d = Some (n, [a, b, c])"
  shows "distinct (map fst (parse_startup_progress d @ nulls))"
proof -
  have k: "distinct (startup_keys @ [''startup_elapsed_seconds'', ''stage_elapsed_seconds'', ''reported_at'',
      ''startup_sequence'', ''heartbeat'', ''progress_source'', ''epoch'', ''epochs'', ''remote_progress''])"
    by code_simp
  have "map fst (parse_startup_progress d @ nulls) = filter (\<lambda>k. map_of d k \<noteq> None) startup_keys
      @ [''startup_elapsed_seconds'', ''stage_elapsed_seconds'', ''reported_at'',
      ''startup_sequence'', ''heartbeat'', ''progress_source'', ''epoch'', ''epochs'', ''remote_progress'']"
    using assms by (simp add: parse_startup_progress_def startup_times_def entries_names nulls_def)
  moreover have "set (filter (\<lambda>k. map_of d k \<noteq> None) startup_keys) \<subseteq> set startup_keys" by auto
  ultimately show ?thesis using k by (simp only: distinct_append distinct_filter) blast
qed

lemma map_of_stored:
  assumes "startup_shape d" and "startup_numbers d = Some (n, [a, b, c])"
  shows "k \<in> set startup_keys \<Longrightarrow> map_of (startup_data d) k = map_of d k"
    and "map_of (startup_data d) ''startup_elapsed_seconds'' = Some (JFloat a)"
    and "map_of (startup_data d) ''stage_elapsed_seconds'' = Some (JFloat b)"
    and "map_of (startup_data d) ''reported_at'' = Some (JFloat c)"
    and "map_of (startup_data d) ''startup_sequence'' = Some (JInt n)"
    and "map_of (startup_data d) ''heartbeat'' = Some (JBool (map_of d ''heartbeat'' = Some (JBool True)))"
proof -
  have o: "map_of (startup_data d) k = (case map_of (parse_startup_progress d @ nulls) k of None \<Rightarrow> map_of d k | Some v \<Rightarrow> Some v)" for k
    unfolding startup_data_def nulls_def [symmetric] by (rule map_of_overlay [OF distinct_overlay [OF assms]])
  have p: "map_of (parse_startup_progress d @ nulls) k
      = (case map_of (parse_startup_progress d) k of None \<Rightarrow> map_of nulls k | Some v \<Rightarrow> Some v)" for k
    by (simp add: map_add_def)
  note m = map_of_parsed [OF assms]
  show "map_of (startup_data d) k = map_of d k" if "k \<in> set startup_keys"
  proof -
    have "map_of nulls k = None" using that by (auto simp: nulls_def startup_keys_def)
    with that show ?thesis unfolding o p m by (simp split: option.split)
  qed
  show "map_of (startup_data d) ''startup_elapsed_seconds'' = Some (JFloat a)"
    "map_of (startup_data d) ''stage_elapsed_seconds'' = Some (JFloat b)"
    "map_of (startup_data d) ''reported_at'' = Some (JFloat c)"
    "map_of (startup_data d) ''startup_sequence'' = Some (JInt n)"
    "map_of (startup_data d) ''heartbeat'' = Some (JBool (map_of d ''heartbeat'' = Some (JBool True)))"
    unfolding o p m by (simp_all add: startup_keys_def)
qed

lemma parse_stored:
  assumes "parse_startup_progress d \<noteq> []"
  shows "parse_startup_progress (startup_data d) = parse_startup_progress d"
proof -
  from assms obtain n ts where d: "startup_shape d" "startup_numbers d = Some (n, ts)"
    by (auto simp: parse_nonempty)
  from d(2) obtain a b c where ts: "ts = [a, b, c]" and pos: "0 \<le> a" "0 \<le> b" "0 \<le> c" "1 \<le> n"
    by (rule startup_numbers_parts)
  note m = map_of_stored [OF d(1) d(2) [unfolded ts]]
  have "startup_numbers (startup_data d) = Some (n, ts)"
    using pos by (simp add: startup_numbers_def startup_times_def m py_int_def py_float_def ts)
  with d show ?thesis by (intro parse_cong) (simp_all add: m)
qed


section \<open>Properties\<close>

lemma parsed_id:
  "parse_startup_progress d \<noteq> [] \<Longrightarrow> map_of (parse_startup_progress d) ''startup_id'' = map_of d ''startup_id''"
proof -
  assume "parse_startup_progress d \<noteq> []"
  then obtain n ts where d: "startup_shape d" "startup_numbers d = Some (n, ts)" by (auto simp: parse_nonempty)
  from d(2) obtain a b c where ts: "ts = [a, b, c]" by (rule startup_numbers_parts)
  show ?thesis using map_of_parsed [OF d(1) d(2) [unfolded ts], of "''startup_id''"] by (simp add: startup_keys_def)
qed

text \<open>One observation reaching the row of a job.\<close>

definition deliver :: "(string \<Rightarrow> json option) \<Rightarrow> json dict \<Rightarrow> job \<Rightarrow> job" where
  "deliver loads d j =
     (if ignore_startup_progress loads j d = Some False then j\<lparr>kernel_status := Doc (JObj (startup_data d))\<rparr> else j)"

lemma ignore_after_stored:
  assumes "status j \<in> {Pushing_kernel, Waiting_kernel, Cancel_requested}"
    and "kernel_status j = Doc (JObj (startup_data old))" and "parse_startup_progress old \<noteq> []"
    and "parse_startup_progress d \<noteq> []"
  shows "ignore_startup_progress loads j d = Some (not_newer (parse_startup_progress old) (parse_startup_progress d))"
proof -
  have "map_of d ''event_type'' = Some (JStr ''startup'')"
    using assms(4) by (simp add: parse_nonempty startup_shape_def)
  with assms show ?thesis
    by (auto simp: ignore_startup_progress_def Let_def stored_report_def loads_text_def parse_stored)
qed

lemma status_deliver [simp]: "status (deliver loads d j) = status j"
  by (simp add: deliver_def)

lemma status_delivered [simp]: "status (fold (deliver loads) ds j) = status j"
  by (induction ds arbitrary: j) simp_all

text \<open>
  The observations of one startup attempt may reach the relay in any order and any number of times:
  the row of a job being started then holds one with the greatest sequence number, so a late or
  repeated observation never replaces a newer one.
\<close>

theorem startup_order_free:
  assumes "ds \<noteq> []" and "\<forall>d \<in> set ds. parse_startup_progress d \<noteq> [] \<and> map_of d ''startup_id'' = Some i"
    and "status j \<in> {Pushing_kernel, Waiting_kernel, Cancel_requested}" and "kernel_status j = Raw []"
  shows "\<exists>d \<in> set ds. kernel_status (fold (deliver loads) ds j) = Doc (JObj (startup_data d))
    \<and> (\<forall>d' \<in> set ds. sequence_of (parse_startup_progress d') \<le> sequence_of (parse_startup_progress d))"
  using assms(1,2)
proof (induction ds rule: rev_induct)
  case (snoc e ds)
  let ?j = "fold (deliver loads) ds j"
  have st: "status ?j \<in> {Pushing_kernel, Waiting_kernel, Cancel_requested}" using assms(3) by simp
  have e: "parse_startup_progress e \<noteq> []" using snoc.prems(2) by simp
  show ?case
  proof (cases "ds = []")
    case True
    have "map_of e ''event_type'' = Some (JStr ''startup'')" using e by (simp add: parse_nonempty startup_shape_def)
    then have "ignore_startup_progress loads j e = Some False"
      using e assms(3,4) by (auto simp: ignore_startup_progress_def Let_def stored_report_def parse_startup_progress_def
          startup_shape_def past_preparation_def)
    with True show ?thesis by (simp add: deliver_def)
  next
    case False
    from snoc.IH [OF False] snoc.prems(2) obtain d where d: "d \<in> set ds"
      "kernel_status ?j = Doc (JObj (startup_data d))"
      "\<forall>d' \<in> set ds. sequence_of (parse_startup_progress d') \<le> sequence_of (parse_startup_progress d)" by auto
    have pd: "parse_startup_progress d \<noteq> []" and ids: "map_of d ''startup_id'' = map_of e ''startup_id''"
      using snoc.prems(2) d(1) by auto
    from ignore_after_stored [OF st d(2) pd e]
    have ig: "ignore_startup_progress loads ?j e
        = Some (sequence_of (parse_startup_progress e) \<le> sequence_of (parse_startup_progress d))"
      by (simp add: not_newer_def parsed_id pd e ids)
    show ?thesis
    proof (cases "sequence_of (parse_startup_progress e) \<le> sequence_of (parse_startup_progress d)")
      case True
      with ig have "fold (deliver loads) (ds @ [e]) j = ?j" by (simp add: deliver_def [of loads e ?j])
      with True d show ?thesis by (intro bexI [of _ d]) auto
    next
      case False
      with ig have "kernel_status (fold (deliver loads) (ds @ [e]) j) = Doc (JObj (startup_data e))"
        by (simp add: deliver_def [of loads e ?j])
      moreover have "sequence_of (parse_startup_progress d') \<le> sequence_of (parse_startup_progress e)"
        if "d' \<in> set (ds @ [e])" for d'
        using that d(3) False by fastforce
      ultimately show ?thesis by (intro bexI [of _ e]) auto
    qed
  qed
qed simp

definition sample_startup :: "int \<Rightarrow> json dict" where
  "sample_startup n =
     [(''event_type'', JStr ''startup''), (''backend'', JStr ''yolo''), (''startup_id'', JStr ''s''),
      (''startup_stage'', JStr ''pip''), (''startup_status'', JStr ''running''), (''message'', JStr ''m''),
      (''startup_sequence'', JInt n), (''startup_elapsed_seconds'', JInt 1), (''stage_elapsed_seconds'', JStr ''0.5''),
      (''reported_at'', JInt n)]"

lemma startup_order_free_witness:
  "kernel_status (fold (deliver (\<lambda>_. None)) [sample_startup 2, sample_startup 1] (sample_job\<lparr>status := Waiting_kernel\<rparr>))
     = Doc (JObj (startup_data (sample_startup 2)))"
proof -
  have p: "parse_startup_progress (sample_startup 1) \<noteq> []" "parse_startup_progress (sample_startup 2) \<noteq> []"
    "sequence_of (parse_startup_progress (sample_startup 1)) = 1" "sequence_of (parse_startup_progress (sample_startup 2)) = 2"
    by code_simp+
  have "kernel_status sample_job = Raw []" by (simp add: sample_job_def new_job_def)
  with p have "\<exists>d \<in> set [sample_startup 2, sample_startup 1].
      kernel_status (fold (deliver (\<lambda>_. None)) [sample_startup 2, sample_startup 1] (sample_job\<lparr>status := Waiting_kernel\<rparr>))
        = Doc (JObj (startup_data d))
      \<and> (\<forall>d' \<in> set [sample_startup 2, sample_startup 1].
          sequence_of (parse_startup_progress d') \<le> sequence_of (parse_startup_progress d))"
    by (intro startup_order_free [where i = "JStr ''s''"]) (auto simp: sample_startup_def)
  with p(3,4) show ?thesis by auto
qed

text \<open>
  A report never lowers the progress of a job and moves it at most to 80 percent: finishing is left to
  the relay itself. A report that names no progress leaves it.
\<close>

theorem callback_progress_bounded:
  "progress j \<le> progress_from_callback j d
   \<and> (remote_percent d = None \<longrightarrow> progress_from_callback j d = progress j)
   \<and> progress_from_callback j d \<le> max (progress j) 80"
  by (auto simp: progress_from_callback_def split: option.split)

lemma callback_progress_bounded_witness:
  "progress_from_callback sample_job [(''epoch'', JInt 1), (''epochs'', JInt 2)] = 70
   \<and> progress_from_callback sample_job [] = progress sample_job"
  using callback_progress_bounded [of sample_job "[]"]
  by (simp add: progress_from_callback_def remote_percent_def rat_field_def sample_job_def new_job_def)

end
