(* ===== verification/Scheduler.thy ===== *)
theory Scheduler
  imports Admission
begin

text \<open>
  The scheduler of dynamic jobs (\<^verbatim>\<open>app/scheduler.py\<close>): uploaded jobs wait in the queued status until
  an account of their pool is authorised, enabled, idle and has GPU quota; then the job is bound to it
  once and handed to the workers. A job is treated under the budget lock, so its treatment is one step
  on the state of that moment; \<open>quotas\<close> are the quota lookups that finished in this pass. The pass over
  all waiting jobs raises if rewriting a reference raises, and the loop then starts over.
\<close>

section \<open>Work items\<close>

datatype action = Process | Recheck_dataset | Resume_kernel "job_status option"

record work =
  work_action :: action
  work_job :: string

record app_state =
  app_db :: relay_db
  app_auth :: auth_store
  work_queue :: "work list"

section \<open>Accounts of a job\<close>

definition occupied_statuses :: "job_status set" where
  "occupied_statuses = {Queued, Uploading_dataset, Waiting_dataset, Pushing_kernel, Waiting_kernel,
     Cancel_requested, Downloading_output}"

definition current_accounts :: "job \<Rightarrow> auth_store \<Rightarrow> bool \<Rightarrow> string dict" where
  "current_accounts j s include_disabled =
     (case find (\<lambda>t. principal_id (snd t) = relay_token_id j) (tokens s) of
        None \<Rightarrow> []
      | Some (_, p) \<Rightarrow>
          filter (\<lambda>(k, uname).
              k \<in> set (allowed_key_ids s p include_disabled)
              \<and> (case map_of (kaggle_keys s) k of
                   None \<Rightarrow> False | Some c \<Rightarrow> lower (username c) = lower uname))
            (eligible_accounts j))"

definition account_user :: "auth_store \<Rightarrow> string \<Rightarrow> string" where
  "account_user s k = (case map_of (kaggle_keys s) k of None \<Rightarrow> [] | Some c \<Rightarrow> lower (username c))"

definition occupies :: "auth_store \<Rightarrow> string \<Rightarrow> job \<Rightarrow> bool" where
  "occupies s uname j \<longleftrightarrow>
     status j \<in> occupied_statuses \<and> \<not> awaiting_assignment j
     \<and> account_user s (kaggle_key_id j) = uname \<and> uname \<noteq> []"

text \<open>\<^verbatim>\<open>occupied_accounts(app).get(user, 0)\<close>.\<close>

definition occupied_accounts :: "relay_db \<Rightarrow> auth_store \<Rightarrow> string \<Rightarrow> nat" where
  "occupied_accounts db s uname = length (filter (occupies s uname) (list_jobs_by_status db occupied_statuses))"

section \<open>One job\<close>

definition gpu_hours :: "quota \<Rightarrow> rat" where
  "gpu_hours q =
     (case find (same_resource ''GPU'') (accelerators q) of None \<Rightarrow> 0 | Some a \<Rightarrow> acc_remaining a)"

definition idle :: "settings \<Rightarrow> relay_db \<Rightarrow> auth_store \<Rightarrow> string \<Rightarrow> bool" where
  "idle cfg db s uname \<longleftrightarrow> occupied_accounts db s (lower uname) < account_concurrency cfg"

definition usable ::
  "settings \<Rightarrow> relay_db \<Rightarrow> auth_store \<Rightarrow> (string \<Rightarrow> quota option) \<Rightarrow> string \<times> string \<Rightarrow> bool" where
  "usable cfg db s quotas a \<longleftrightarrow>
     idle cfg db s (snd a)
     \<and> (case quotas (fst a) of
          None \<Rightarrow> False
        | Some q \<Rightarrow> identity_verified q \<and> quota_available q \<and> 0 < gpu_hours q)"

definition identity_errors ::
  "settings \<Rightarrow> relay_db \<Rightarrow> auth_store \<Rightarrow> (string \<Rightarrow> quota option) \<Rightarrow> string dict \<Rightarrow> string list" where
  "identity_errors cfg db s quotas accounts =
     concat (map (\<lambda>a. case quotas (fst a) of
         None \<Rightarrow> []
       | Some q \<Rightarrow> if idle cfg db s (snd a) \<and> \<not> identity_verified q
           then [fst a @ '': '' @ identity_error q] else []) accounts)"

definition account_rank :: "(string \<Rightarrow> quota option) \<Rightarrow> string \<times> string \<Rightarrow> rat \<times> string \<times> string" where
  "account_rank quotas a =
     (- (case quotas (fst a) of None \<Rightarrow> 0 | Some q \<Rightarrow> gpu_hours q), fst a, snd a)"

definition blocked_reason :: "string list \<Rightarrow> string" where
  "blocked_reason errs =
     (if errs \<noteq> [] then ''account identity blocked: '' @ join ''; '' errs
      else ''waiting for an idle authorized account with GPU quota'')"

definition bind_values :: "string \<Rightarrow> string \<Rightarrow> string \<Rightarrow> assignment list" where
  "bind_values key dref kref =
     [Set_kaggle_key_id key, Set_assignment_state Bound, Set_dataset_ref dref, Set_kernel_ref kref,
      Set_queue_reason ''waiting for an available worker'']"

definition with_db :: "app_state \<Rightarrow> relay_db \<Rightarrow> app_state" where
  "with_db st db = st\<lparr>app_db := db\<rparr>"

text \<open>The second component of the answer says whether the step raised.\<close>

definition schedule_job ::
  "settings \<Rightarrow> time \<Rightarrow> (string \<Rightarrow> quota option) \<Rightarrow> string \<Rightarrow> app_state \<Rightarrow> app_state \<times> bool" where
  "schedule_job cfg now quotas jid st =
     (let db = app_db st; s = app_auth st in
      case get_job db jid of
        None \<Rightarrow> (st, False)
      | Some j \<Rightarrow>
          if status j \<noteq> Queued \<or> \<not> awaiting_assignment j then (st, False)
          else
            let allowed = current_accounts j s False in
            if allowed = []
            then
              (if current_accounts j s True \<noteq> []
               then (with_db st (fst (update_job_if_status db now jid {Queued} False None
                      [Set_queue_reason ''waiting for an enabled authorized account''])), False)
               else (with_db st (fst (update_job_if_status db now jid {Queued} False None
                      [Set_status Failed, Set_error ''no originally allowed Kaggle account remains authorized''])), False))
            else
              case filter (usable cfg db s quotas) allowed of
                [] \<Rightarrow>
                  (with_db st (fst (update_job_if_status db now jid {Queued} False None
                    [Set_queue_reason (blocked_reason (identity_errors cfg db s quotas allowed))])), False)
              | a # as \<Rightarrow>
                  let (key, uname) = least_by (account_rank quotas) a as in
                  (case (rewrite_ref_owner (dataset_ref j) uname, rewrite_ref_owner (kernel_ref j) uname) of
                     (Inr dref, Inr kref) \<Rightarrow>
                       let (db', bound) = update_job_if_status db now jid {Queued} True None (bind_values key dref kref)
                       in if bound
                          then (st\<lparr>app_db := append_log db' now jid (''scheduler bound job to idle account '' @ key),
                                   work_queue := work_queue st @ [\<lparr>work_action = Process, work_job = jid\<rparr>]\<rparr>, False)
                          else (with_db st db', False)
                   | _ \<Rightarrow> (st, True)))"

section \<open>The pass over all waiting jobs\<close>

definition pending_jobs :: "relay_db \<Rightarrow> job list" where
  "pending_jobs db = filter awaiting_assignment (list_jobs_by_status db {Queued})"

definition lookup_keys :: "settings \<Rightarrow> relay_db \<Rightarrow> auth_store \<Rightarrow> string set" where
  "lookup_keys cfg db s =
     set (concat (map (\<lambda>j. map fst (filter (\<lambda>a. idle cfg db s (snd a)) (current_accounts j s False)))
       (pending_jobs db)))"

fun schedule_all ::
  "settings \<Rightarrow> time \<Rightarrow> (string \<Rightarrow> quota option) \<Rightarrow> string list \<Rightarrow> app_state \<Rightarrow> app_state \<times> bool" where
  "schedule_all cfg now quotas [] st = (st, False)"
| "schedule_all cfg now quotas (jid # jids) st =
     (case schedule_job cfg now quotas jid st of
        (st', True) \<Rightarrow> (st', True)
      | (st', False) \<Rightarrow> schedule_all cfg now quotas jids st')"

text \<open>\<open>answers\<close> is what the quota service said, in time, for the accounts it was asked about.\<close>

definition schedule_pending_jobs ::
  "settings \<Rightarrow> time \<Rightarrow> (string \<Rightarrow> quota option) \<Rightarrow> app_state \<Rightarrow> app_state \<times> bool" where
  "schedule_pending_jobs cfg now answers st =
     (let keys = lookup_keys cfg (app_db st) (app_auth st)
      in schedule_all cfg now (\<lambda>k. if k \<in> keys then answers k else None)
           (map job_id (pending_jobs (app_db st))) st)"

section \<open>What a step does\<close>

lemma usable_filterD:
  assumes "filter (usable cfg db s quotas) allowed = a # as" and "least_by (account_rank quotas) a as = (k, u)"
  shows "(k, u) \<in> set allowed \<and> usable cfg db s quotas (k, u)"
proof -
  have "(k, u) \<in> set (filter (usable cfg db s quotas) allowed)"
    using least_by_in [of "account_rank quotas" a as] by (simp add: assms)
  then show ?thesis by auto
qed

lemma current_accountsD:
  assumes "(key, uname) \<in> set (current_accounts j s d)"
  shows "\<exists>p. p \<in> snd ` set (tokens s) \<and> principal_id p = relay_token_id j
    \<and> (key, uname) \<in> set (eligible_accounts j) \<and> key \<in> set (allowed_key_ids s p d)
    \<and> account_user s key = lower uname"
proof (cases "find (\<lambda>t. principal_id (snd t) = relay_token_id j) (tokens s)")
  case None
  with assms show ?thesis by (simp add: current_accounts_def)
next
  case (Some t)
  then have "t \<in> set (tokens s)" "principal_id (snd t) = relay_token_id j"
    by (auto simp: find_Some_iff in_set_conv_nth)
  with Some assms show ?thesis
    by (intro exI [of _ "snd t"])
      (auto simp: current_accounts_def account_user_def split: option.splits prod.splits)
qed

text \<open>The row after binding.\<close>

lemma bind_row:
  "status (apply_values (prepare_values now (bind_values key dref kref)) j) = status j
   \<and> kaggle_key_id (apply_values (prepare_values now (bind_values key dref kref)) j) = key
   \<and> assignment_state (apply_values (prepare_values now (bind_values key dref kref)) j) = Bound
   \<and> dataset_ref (apply_values (prepare_values now (bind_values key dref kref)) j) = dref
   \<and> kernel_ref (apply_values (prepare_values now (bind_values key dref kref)) j) = kref
   \<and> scheduling_mode (apply_values (prepare_values now (bind_values key dref kref)) j) = scheduling_mode j
   \<and> cancel_requested_at (apply_values (prepare_values now (bind_values key dref kref)) j) = cancel_requested_at j"
  by (simp add: bind_values_def prepare_values_def)

text \<open>The only step that binds, with what it requires.\<close>

definition binds ::
  "settings \<Rightarrow> (string \<Rightarrow> quota option) \<Rightarrow> app_state \<Rightarrow> job \<Rightarrow> string \<Rightarrow> string \<Rightarrow> bool" where
  "binds cfg quotas st j key uname \<longleftrightarrow>
     status j = Queued \<and> awaiting_assignment j \<and> cancel_requested_at j = None
     \<and> (key, uname) \<in> set (current_accounts j (app_auth st) False)
     \<and> usable cfg (app_db st) (app_auth st) quotas (key, uname)"

lemma schedule_job_cases:
  assumes "jobs_keyed (app_db st)"
  obtains (Same) raised where "schedule_job cfg now quotas jid st = (st, raised)"
  | (Updated) vs where "schedule_job cfg now quotas jid st
        = (with_db st (fst (update_job_if_status (app_db st) now jid {Queued} False None vs)), False)"
      and "vs \<in> {[Set_queue_reason r] | r. True} \<union> {[Set_status Failed, Set_error e] | e. True}"
      and "\<exists>j. get_job (app_db st) jid = Some j \<and> status j = Queued \<and> awaiting_assignment j"
  | (Bound) j key uname dref kref where
      "get_job (app_db st) jid = Some j" and "binds cfg quotas st j key uname"
      and "rewrite_ref_owner (dataset_ref j) uname = Inr dref" and "rewrite_ref_owner (kernel_ref j) uname = Inr kref"
      and "schedule_job cfg now quotas jid st =
        (st\<lparr>app_db := append_log (fst (update_job_if_status (app_db st) now jid {Queued} True None (bind_values key dref kref)))
               now jid (''scheduler bound job to idle account '' @ key),
           work_queue := work_queue st @ [\<lparr>work_action = Process, work_job = jid\<rparr>]\<rparr>, False)"
proof (cases "get_job (app_db st) jid")
  case None
  then show thesis by (intro Same [of False]) (simp add: schedule_job_def)
next
  case (Some j)
  show thesis
  proof (cases "status j \<noteq> Queued \<or> \<not> awaiting_assignment j")
    case True
    with Some show thesis by (intro Same [of False]) (simp add: schedule_job_def)
  next
    case False
    note q = this
    let ?s = "app_auth st" and ?db = "app_db st"
    let ?allowed = "current_accounts j ?s False"
    show thesis
    proof (cases "?allowed = []")
      case True
      with Some q show thesis
        by (intro Updated [of "if current_accounts j ?s True \<noteq> []
              then [Set_queue_reason ''waiting for an enabled authorized account'']
              else [Set_status Failed, Set_error ''no originally allowed Kaggle account remains authorized'']"])
          (auto simp: schedule_job_def Let_def)
    next
      case False
      show thesis
      proof (cases "filter (usable cfg ?db ?s quotas) ?allowed")
        case Nil
        with Some q False show thesis
          by (intro Updated [of "[Set_queue_reason (blocked_reason (identity_errors cfg ?db ?s quotas ?allowed))]"])
            (auto simp: schedule_job_def Let_def)
      next
        case (Cons a as)
        obtain key uname where l: "least_by (account_rank quotas) a as = (key, uname)"
          by (cases "least_by (account_rank quotas) a as")
        show thesis
        proof (cases "\<exists>dref kref. rewrite_ref_owner (dataset_ref j) uname = Inr dref
            \<and> rewrite_ref_owner (kernel_ref j) uname = Inr kref")
          case True
          then obtain dref kref where r: "rewrite_ref_owner (dataset_ref j) uname = Inr dref"
            "rewrite_ref_owner (kernel_ref j) uname = Inr kref" by blast
          let ?u = "update_job_if_status ?db now jid {Queued} True None (bind_values key dref kref)"
          have ok: "snd ?u \<longleftrightarrow> cancel_requested_at j = None"
            using assms q Some by (simp add: update_job_if_status_ok status_guard_def bind_values_def)
          have step: "schedule_job cfg now quotas jid st = (let (db', bound) = ?u
               in if bound
                  then (st\<lparr>app_db := append_log db' now jid (''scheduler bound job to idle account '' @ key),
                           work_queue := work_queue st @ [\<lparr>work_action = Process, work_job = jid\<rparr>]\<rparr>, False)
                  else (with_db st db', False))"
            using Some q False Cons l r by (simp add: schedule_job_def Let_def)
          show thesis
          proof (cases "cancel_requested_at j = None")
            case True
            moreover have "binds cfg quotas st j key uname"
              using usable_filterD [OF Cons l] q True by (simp add: binds_def)
            ultimately show thesis
              using Bound [OF Some _ r] step ok by (simp add: case_prod_beta)
          next
            case False
            then have "fst ?u = ?db"
            proof -
              have "map (\<lambda>x. if job_id x = jid \<and> status_guard {Queued} True None x
                    then apply_values (prepare_values now (bind_values key dref kref)) x else x) (jobs ?db) = jobs ?db"
              proof (rule map_idI)
                fix x assume x: "x \<in> set (jobs ?db)"
                have "job_id x = jid \<Longrightarrow> x = j"
                  using x get_job_SomeD [OF Some] assms by (auto simp: jobs_keyed_def inj_on_def distinct_map)
                with False show "(if job_id x = jid \<and> status_guard {Queued} True None x
                    then apply_values (prepare_values now (bind_values key dref kref)) x else x) = x"
                  by (auto simp: status_guard_def)
              qed
              moreover have "bind_values key dref kref \<noteq> []" by (simp add: bind_values_def)
              ultimately show ?thesis
                by (simp add: update_job_if_status_def cas_row_def Let_def update_rows_def)
            qed
            then show thesis
              using step ok False by (intro Same [of False]) (simp add: case_prod_beta with_db_def)
          qed
        next
          case False
          then show thesis
            using Some q \<open>?allowed \<noteq> []\<close> Cons l
            by (intro Same [of True]) (auto simp: schedule_job_def Let_def split: sum.splits)
        qed
      qed
    qed
  qed
qed

section \<open>Occupancy\<close>

text \<open>
  How many rows occupy a user, as a count over the table.
\<close>

lemma occupied_count: "occupied_accounts db s u = length (filter (occupies s u) (jobs db))"
proof -
  have len: "length (filter P (sort_key f xs)) = length (filter P xs)" for P :: "job \<Rightarrow> bool" and f :: "job \<Rightarrow> time" and xs
    by (metis filter_sort length_sort)
  have "filter (occupies s u) (filter (\<lambda>j. status j \<in> occupied_statuses) (jobs db)) = filter (occupies s u) (jobs db)"
    by (auto simp: occupies_def intro: filter_cong)
  then show ?thesis
    by (simp add: occupied_accounts_def list_jobs_by_status_def len)
qed

lemma length_filter_map_le:
  assumes "\<And>x. x \<in> set xs \<Longrightarrow> P (f x) \<Longrightarrow> P x"
  shows "length (filter P (map f xs)) \<le> length (filter P xs)"
  using assms by (induction xs) auto

lemma length_filter_map_one:
  assumes "distinct (map key xs)" and "\<And>x. x \<in> set xs \<Longrightarrow> key x \<noteq> k \<Longrightarrow> P (f x) \<Longrightarrow> P x"
  shows "length (filter P (map f xs)) \<le> Suc (length (filter P xs))"
  using assms
proof (induction xs)
  case (Cons a xs)
  show ?case
  proof (cases "key a = k")
    case True
    have "length (filter P (map f xs)) \<le> length (filter P xs)"
    proof (rule length_filter_map_le)
      fix x assume "x \<in> set xs" and "P (f x)"
      moreover from this True Cons.prems(1) have "key x \<noteq> k" by (metis distinct.simps(2) imageI list.map(2) set_map)
      ultimately show "P x" using Cons.prems(2) by simp
    qed
    then show ?thesis by simp
  next
    case False
    with Cons show ?thesis by auto
  qed
qed simp

lemma jobs_update_if:
  "\<exists>g. jobs (fst (update_job_if_status db now jid expected nc ks vs)) =
     map (\<lambda>j. if job_id j = jid \<and> g j then apply_values (prepare_values now vs) j else j) (jobs db)
   \<and> (\<forall>j. g j \<longrightarrow> status j \<in> expected)"
proof (cases "expected = {} \<or> vs = []")
  case True
  then have "jobs (fst (update_job_if_status db now jid expected nc ks vs)) = jobs db"
    by (auto simp: update_job_if_status_def)
  then show ?thesis by (intro exI [of _ "\<lambda>_. False"]) simp
next
  case False
  then show ?thesis
    by (intro exI [of _ "status_guard expected nc ks"])
      (simp add: update_job_if_status_def cas_row_def Let_def update_rows_def status_guard_def)
qed

text \<open>A step that binds adds at most the bound job to its own user; any other step adds nothing.\<close>

lemma schedule_job_occupancy:
  assumes "jobs_keyed (app_db st)" and "schedule_job cfg now quotas jid st = (st', raised)"
  shows "occupied_accounts (app_db st') (app_auth st) u
     \<le> max (occupied_accounts (app_db st) (app_auth st) u) (account_concurrency cfg)"
  using assms(1)
proof (cases rule: schedule_job_cases [where cfg = cfg and now = now and quotas = quotas and jid = jid])
  case (Same r)
  with assms(2) show ?thesis by simp
next
  case (Updated vs)
  from jobs_update_if [of "app_db st" now jid "{Queued}" False None vs]
  obtain g where js: "jobs (app_db st') =
      map (\<lambda>j. if job_id j = jid \<and> g j then apply_values (prepare_values now vs) j else j) (jobs (app_db st))"
    using Updated(1) assms(2) by (auto simp: with_db_def)
  from Updated(3) obtain j where j: "get_job (app_db st) jid = Some j" "awaiting_assignment j" by blast
  have only: "x = j" if "x \<in> set (jobs (app_db st))" "job_id x = jid" for x
    using that get_job_SomeD [OF j(1)] assms(1) by (auto simp: jobs_keyed_def inj_on_def distinct_map)
  have aw: "awaiting_assignment (apply_values (prepare_values now vs) j)"
    using Updated(2) j(2) by (auto simp: prepare_values_def awaiting_assignment_def terminal_def)
  have "length (filter (occupies (app_auth st) u) (jobs (app_db st'))) \<le> length (filter (occupies (app_auth st) u) (jobs (app_db st)))"
    unfolding js
  proof (rule length_filter_map_le)
    fix x assume "x \<in> set (jobs (app_db st))"
      and "occupies (app_auth st) u (if job_id x = jid \<and> g x then apply_values (prepare_values now vs) x else x)"
    then show "occupies (app_auth st) u x"
      using only [of x] aw by (auto simp: occupies_def split: if_splits)
  qed
  then show ?thesis by (simp add: occupied_count)
next
  case (Bound j key uname dref kref)
  let ?f = "apply_values (prepare_values now (bind_values key dref kref))" and ?s = "app_auth st"
  from jobs_update_if [of "app_db st" now jid "{Queued}" True None "bind_values key dref kref"]
  obtain g where js: "jobs (app_db st') = map (\<lambda>j. if job_id j = jid \<and> g j then ?f j else j) (jobs (app_db st))"
    using Bound(5) assms(2) by auto
  have lt: "occupied_accounts (app_db st) ?s (lower uname) < account_concurrency cfg"
    and user: "account_user ?s key = lower uname"
    using Bound(2) by (auto simp: binds_def usable_def idle_def current_accounts_def account_user_def
        split: option.splits)
  show ?thesis
  proof (cases "u = lower uname")
    case True
    have "length (filter (occupies ?s u) (jobs (app_db st'))) \<le> Suc (length (filter (occupies ?s u) (jobs (app_db st))))"
      unfolding js
      using assms(1) by (intro length_filter_map_one [where key = job_id and k = jid]) (auto simp: jobs_keyed_def)
    with lt True show ?thesis by (simp add: occupied_count)
  next
    case False
    have "length (filter (occupies ?s u) (jobs (app_db st'))) \<le> length (filter (occupies ?s u) (jobs (app_db st)))"
      unfolding js
    proof (rule length_filter_map_le)
      fix x assume "occupies ?s u (if job_id x = jid \<and> g x then ?f x else x)"
      with False user show "occupies ?s u x"
        using bind_row [of now key dref kref x] by (auto simp: occupies_def split: if_splits)
    qed
    then show ?thesis by (simp add: occupied_count)
  qed
qed

lemma schedule_job_keeps:
  assumes "jobs_keyed (app_db st)" and "schedule_job cfg now quotas jid st = (st', raised)"
  shows "jobs_keyed (app_db st') \<and> app_auth st' = app_auth st
    \<and> (\<forall>k. k \<noteq> jid \<longrightarrow> get_job (app_db st') k = get_job (app_db st) k)
    \<and> (work_queue st' = work_queue st
       \<or> work_queue st' = work_queue st @ [\<lparr>work_action = Process, work_job = jid\<rparr>]
         \<and> (\<exists>j. get_job (app_db st') jid = Some j \<and> \<not> awaiting_assignment j))"
  using assms(1)
proof (cases rule: schedule_job_cases [where cfg = cfg and now = now and quotas = quotas and jid = jid])
  case (Same r)
  with assms show ?thesis by simp
next
  case (Updated vs)
  with assms show ?thesis by (auto simp: with_db_def get_update_job_if_status)
next
  case (Bound j key uname dref kref)
  let ?f = "apply_values (prepare_values now (bind_values key dref kref))"
  have "get_job (app_db st') jid = Some (?f j)"
    using Bound assms(2) by (auto simp: get_update_job_if_status status_guard_def binds_def bind_values_def)
  moreover have "\<not> awaiting_assignment (?f j)"
    using bind_row [of now key dref kref j] by (simp add: awaiting_assignment_def)
  ultimately show ?thesis
    using Bound assms by (auto simp: get_update_job_if_status)
qed

text \<open>A pass treats each job at most once, so its items are distinct.\<close>

lemma schedule_all_result:
  assumes "jobs_keyed (app_db st)" and "distinct jids" and "schedule_all cfg now quotas jids st = (st', raised)"
  shows "(\<exists>bound. work_queue st' = work_queue st @ map (\<lambda>k. \<lparr>work_action = Process, work_job = k\<rparr>) bound
        \<and> distinct bound \<and> set bound \<subseteq> set jids
        \<and> (\<forall>k \<in> set bound. \<exists>j. get_job (app_db st') k = Some j \<and> \<not> awaiting_assignment j))
    \<and> (\<forall>u. occupied_accounts (app_db st') (app_auth st) u
          \<le> max (occupied_accounts (app_db st) (app_auth st) u) (account_concurrency cfg))
    \<and> (\<forall>k. k \<notin> set jids \<longrightarrow> get_job (app_db st') k = get_job (app_db st) k)"
  using assms
proof (induction jids arbitrary: st)
  case (Cons jid jids)
  obtain st1 r1 where s1: "schedule_job cfg now quotas jid st = (st1, r1)"
    by (cases "schedule_job cfg now quotas jid st")
  note k1 = schedule_job_keeps [OF Cons.prems(1) s1] and o1 = schedule_job_occupancy [OF Cons.prems(1) s1]
  show ?case
  proof (cases r1)
    case True
    with Cons.prems(3) s1 have st': "st' = st1" by simp
    from k1 consider "work_queue st1 = work_queue st"
      | "work_queue st1 = work_queue st @ [\<lparr>work_action = Process, work_job = jid\<rparr>]"
        "\<exists>j. get_job (app_db st1) jid = Some j \<and> \<not> awaiting_assignment j" by blast
    then show ?thesis
    proof cases
      case 1
      with k1 o1 st' show ?thesis by (auto intro!: exI [of _ "[]"])
    next
      case 2
      with k1 o1 st' show ?thesis by (auto intro!: exI [of _ "[jid]"])
    qed
  next
    case False
    with Cons.prems(3) s1 have rest: "schedule_all cfg now quotas jids st1 = (st', raised)" by simp
    from Cons.IH [OF _ _ rest] k1 Cons.prems(2) obtain bound where
      b: "work_queue st' = work_queue st1 @ map (\<lambda>k. \<lparr>work_action = Process, work_job = k\<rparr>) bound"
      "distinct bound" "set bound \<subseteq> set jids"
      "\<forall>k \<in> set bound. \<exists>j. get_job (app_db st') k = Some j \<and> \<not> awaiting_assignment j"
      and o: "\<And>u. occupied_accounts (app_db st') (app_auth st) u
          \<le> max (occupied_accounts (app_db st1) (app_auth st) u) (account_concurrency cfg)"
      and oth: "\<And>k. k \<notin> set jids \<Longrightarrow> get_job (app_db st') k = get_job (app_db st1) k"
      by auto
    have occ: "occupied_accounts (app_db st') (app_auth st) u
          \<le> max (occupied_accounts (app_db st) (app_auth st) u) (account_concurrency cfg)" for u
      using o [of u] o1 [of u] by linarith
    have jid: "jid \<notin> set jids" using Cons.prems(2) by simp
    from k1 consider "work_queue st1 = work_queue st"
      | "work_queue st1 = work_queue st @ [\<lparr>work_action = Process, work_job = jid\<rparr>]"
        "\<exists>j. get_job (app_db st1) jid = Some j \<and> \<not> awaiting_assignment j" by blast
    then show ?thesis
    proof cases
      case 1
      with b occ oth k1 show ?thesis by (auto intro!: exI [of _ bound])
    next
      case 2
      with b occ oth k1 jid show ?thesis by (auto intro!: exI [of _ "jid # bound"])
    qed
  qed
qed (auto intro: exI [of _ "[]"])

section \<open>Properties\<close>

definition waiting_job :: job where
  "waiting_job = (new_job 0 (sample_values\<lparr>v_relay_token_id := Some ''bob'', v_kaggle_key_id := None,
     v_scheduling_mode := Some Dynamic, v_assignment_state := Some Pending,
     v_eligible_accounts := Some [(''acct'', ''u'')]\<rparr>))\<lparr>status := Queued\<rparr>"

definition waiting_state :: app_state where
  "waiting_state = \<lparr>app_db = sample_db [waiting_job], app_auth = sample_store, work_queue = []\<rparr>"

definition gpu_quota :: quota where
  "gpu_quota = \<lparr>quota_available = True, accelerators = [\<lparr>acc_resource = ''GPU'', acc_remaining = 30\<rparr>],
     identity_verified = True, identity_error = []\<rparr>"

lemma waiting_keyed: "jobs_keyed (app_db waiting_state)"
  by (simp add: jobs_keyed_def waiting_state_def sample_db_def)

lemma binding_fact:
  "snd (schedule_job sample_settings 5 (\<lambda>_. Some gpu_quota) ''j'' waiting_state) = False"
  "map_option (\<lambda>j. (kaggle_key_id j, awaiting_assignment j))
     (get_job (app_db (fst (schedule_job sample_settings 5 (\<lambda>_. Some gpu_quota) ''j'' waiting_state))) ''j'')
     = Some (''acct'', False)"
  "get_job (app_db waiting_state) ''j'' = Some waiting_job" "awaiting_assignment waiting_job"
  by code_simp+



text \<open>
  C13: A pass of the scheduler over all waiting jobs respects the concurrency of every remote user:
  no user that was within the limit is taken above it, and no user above it gets another job. Each
  waiting job is handed to the workers at most once, only after it was bound, and jobs that were not
  waiting keep their rows.
\<close>

theorem pass_respects_concurrency:
  assumes "jobs_keyed (app_db st)" and "schedule_pending_jobs cfg now answers st = (st', raised)"
  shows "(\<forall>u. occupied_accounts (app_db st') (app_auth st) u
          \<le> max (occupied_accounts (app_db st) (app_auth st) u) (account_concurrency cfg))
    \<and> (\<exists>bound. work_queue st' = work_queue st @ map (\<lambda>k. \<lparr>work_action = Process, work_job = k\<rparr>) bound
        \<and> distinct bound \<and> set bound \<subseteq> set (map job_id (pending_jobs (app_db st)))
        \<and> (\<forall>k \<in> set bound. \<exists>j. get_job (app_db st') k = Some j \<and> \<not> awaiting_assignment j))
    \<and> (\<forall>k. k \<notin> set (map job_id (pending_jobs (app_db st))) \<longrightarrow> get_job (app_db st') k = get_job (app_db st) k)"
proof -
  have "distinct (map job_id (pending_jobs (app_db st)))"
  proof -
    have "distinct (map job_id (list_jobs_by_status (app_db st) {Queued}))"
    proof -
      have "distinct (map job_id (filter (\<lambda>j. status j \<in> {Queued}) (jobs (app_db st))))"
        using assms(1) by (simp add: jobs_keyed_def distinct_map_filter)
      then show ?thesis
        unfolding list_jobs_by_status_def
        by (metis distinct_map distinct_sort set_sort)
    qed
    then show ?thesis by (simp add: pending_jobs_def distinct_map_filter)
  qed
  from schedule_all_result [OF assms(1) this] assms(2) show ?thesis
    unfolding schedule_pending_jobs_def Let_def by blast
qed

lemma pass_respects_concurrency_witness:
  "\<exists>st'. schedule_pending_jobs sample_settings 5 (\<lambda>_. Some gpu_quota) waiting_state = (st', False)
     \<and> occupied_accounts (app_db st') sample_store ''u'' \<le> 1"
proof -
  let ?r = "schedule_pending_jobs sample_settings 5 (\<lambda>_. Some gpu_quota) waiting_state"
  have auth: "app_auth waiting_state = sample_store" and c: "account_concurrency sample_settings = 1"
    by (simp_all add: waiting_state_def sample_settings_def)
  have "snd ?r = False" and z: "occupied_accounts (app_db waiting_state) sample_store ''u'' = 0" by code_simp+
  then have r: "?r = (fst ?r, False)" by (simp add: prod_eq_iff)
  from pass_respects_concurrency [OF waiting_keyed r]
  have "occupied_accounts (app_db (fst ?r)) (app_auth waiting_state) ''u''
      \<le> max (occupied_accounts (app_db waiting_state) (app_auth waiting_state) ''u'') (account_concurrency sample_settings)"
    by blast
  then have "occupied_accounts (app_db (fst ?r)) sample_store ''u'' \<le> 1"
    unfolding auth z c by simp
  with r show ?thesis by blast
qed

end
