(* ===== verification/Job_Lifecycle.thy ===== *)
theory Job_Lifecycle
  imports Progress
begin

text \<open>
  The writers of a running job's row that race with each other: the progress callback and the
  cancellation of \<^verbatim>\<open>app/main.py\<close>, the transitions of the worker (\<^verbatim>\<open>app/worker.py\<close>), and the handling of a
  failed worker action. Each reads the row, computes the new columns and writes them with a guarded
  update, up to five times. \<open>env n\<close> is what the other threads do to the database between the read and
  the write when \<open>n\<close> attempts remain after this one. The relation \<open>write_step\<close> has one rule per kind of
  write, with the row it was computed from; \<open>any_write\<close> adds the one write that has no guard (\<^verbatim>\<open>process_job\<close>
  keeps an unverified candidate) and what a handler may write after it. The loops are sequences of these steps, and
  the invariants of the row are proved over any interleaving. Rows that are created or deleted are no matter here.
\<close>

section \<open>The progress callback\<close>

definition callback_values :: "job \<Rightarrow> json dict \<Rightarrow> string \<Rightarrow> assignment list" where
  "callback_values current d clean =
     (if terminal (status current) then []
      else [Set_status (if cancel_requested_at current \<noteq> None then Cancel_requested else Waiting_kernel)])
     @ [Set_kernel_status (Doc (JObj d)), Set_kaggle_output (last_chars 4000 clean),
        Set_progress (progress_from_callback current d)]"

fun callback_loop ::
  "(string \<Rightarrow> json option) \<Rightarrow> (nat \<Rightarrow> relay_db \<Rightarrow> relay_db) \<Rightarrow> time \<Rightarrow> string \<Rightarrow> json dict \<Rightarrow> string \<Rightarrow>
   nat \<Rightarrow> relay_db \<Rightarrow> unit reply \<times> relay_db" where
  "callback_loop loads env now jid d clean 0 db = (Inl internal_error, db)"
| "callback_loop loads env now jid d clean (Suc n) db =
     (case get_job db jid of
        None \<Rightarrow> (Inr (), db)
      | Some current \<Rightarrow>
          (case ignore_startup_progress loads current d of
             None \<Rightarrow> (Inl internal_error, db)
           | Some True \<Rightarrow> (Inr (), db)
           | Some False \<Rightarrow>
               let (db', done) = update_job_if_status (env n db) now jid {status current} False
                     (Some (kernel_status current)) (callback_values current d clean)
               in if done then (Inr (), db') else callback_loop loads env now jid d clean n db'))"

definition stop_report_statuses :: "job_status set" where
  "stop_report_statuses = {Pushing_kernel, Waiting_kernel, Cancel_requested, Downloading_output, Complete, Failed, Canceled}"

definition not_submitted :: "job \<Rightarrow> bool" where
  "not_submitted j \<longleftrightarrow> scheduling_mode j = Dynamic
     \<and> (awaiting_assignment j \<or> status j \<in> {Receiving, Assembling, Queued})"

definition bound_refs :: "job \<Rightarrow> json dict \<Rightarrow> json dict" where
  "bound_refs j d =
     fold (\<lambda>(k, v) d. if map_of d k \<noteq> None then AList.update k v d else d)
       [(''kernel_ref'', JStr (kernel_ref j)), (''dataset_ref'', JStr (dataset_ref j))] d"

definition runtime_stop :: "json dict" where
  "runtime_stop =
     [(''reason'', JStr ''training_stopped''), (''source'', JStr ''runtime''), (''confidence'', JStr ''confirmed''),
      (''provider_status'', JStr ''UNKNOWN''),
      (''message'', JStr ''The runtime reported training ended; Kaggle completion and artifact delivery are still pending.'')]"

definition apply_progress_callback ::
  "(string \<Rightarrow> json option) \<Rightarrow> (json \<Rightarrow> string) \<Rightarrow> (json \<Rightarrow> string) \<Rightarrow> string list \<Rightarrow> (nat \<Rightarrow> relay_db \<Rightarrow> relay_db) \<Rightarrow>
   time \<Rightarrow> job \<Rightarrow> json dict \<Rightarrow> relay_db \<Rightarrow> unit reply \<times> relay_db" where
  "apply_progress_callback loads dumps dumps_sorted known env now j payload db =
     (if not_submitted j then (Inl (HTTPException 409 ''job has not been submitted to Kaggle''), db)
      else
        let startup = map_of payload ''event_type'' = Some (JStr ''startup'') in
        if startup \<and> parse_startup_progress payload = []
        then (Inl (HTTPException 422 ''invalid startup progress''), db)
        else
          let d = bound_refs j (if startup then startup_data payload else payload);
              clean = last_chars 8000 (redact_secrets known (callback_log_message dumps_sorted d));
              db = (if clean \<noteq> [] then append_log db now (job_id j) clean else db)
          in if map_of payload ''event_type'' = Some (JStr ''training_stop'')
             then let details = classify_stop_reason loads known ''RUNNING'' clean False in
               (Inr (), if truthy (map_of details ''training_reason'')
                  then record_stop_details loads dumps dumps_sorted (redact_secrets known) db now (job_id j)
                         (dict_update details runtime_stop) (Some stop_report_statuses)
                  else db)
             else callback_loop loads env now (job_id j) d clean 5 db)"

section \<open>Cancellation\<close>

definition relay_cancel_details :: json where
  "relay_cancel_details = JObj
     [(''reason'', JStr ''user_canceled''), (''source'', JStr ''relay''), (''confidence'', JStr ''confirmed''),
      (''message'', JStr ''Canceled by user before Kaggle submission; training did not start.'')]"

definition cancel_values :: "time \<Rightarrow> job_status \<Rightarrow> assignment list" where
  "cancel_values now s =
     (if s \<in> {Receiving, Assembling, Queued}
      then [Set_status Canceled, Set_cancel_requested_at now, Set_cancel_reason ''cancel requested'',
            Set_error ''canceled before submission'', Set_stop_details (Doc relay_cancel_details)]
      else [Set_status Cancel_requested, Set_cancel_requested_at now, Set_cancel_reason ''cancel requested'', Set_error []])"

fun cancel_loop ::
  "(nat \<Rightarrow> relay_db \<Rightarrow> relay_db) \<Rightarrow> time \<Rightarrow> string \<Rightarrow> nat \<Rightarrow> job \<Rightarrow> relay_db \<Rightarrow> unit reply \<times> relay_db" where
  "cancel_loop env now jid 0 j db = (Inl (HTTPException 409 ''job status changed; retry cancellation''), db)"
| "cancel_loop env now jid (Suc n) j db =
     (if status j \<in> {Complete, Failed}
      then (Inl (HTTPException 409 (''job is already '' @ status_name (status j))), db)
      else if status j \<in> {Cancel_requested, Canceled} then (Inr (), db)
      else
        let (db', done) = update_job_if_status (env n db) now jid {status j} False None (cancel_values now (status j))
        in if done then (Inr (), append_log db' now jid ''cancel requested'')
           else case get_job db' jid of
               None \<Rightarrow> (Inl (HTTPException 404 ''job not found''), db')
             | Some j' \<Rightarrow> cancel_loop env now jid n j' db')"

lemma cancel_values_nonempty [simp]: "cancel_values now s \<noteq> []"
  by (simp add: cancel_values_def)

definition request_job_cancel ::
  "(nat \<Rightarrow> relay_db \<Rightarrow> relay_db) \<Rightarrow> time \<Rightarrow> job \<Rightarrow> relay_db \<Rightarrow> unit reply \<times> relay_db" where
  "request_job_cancel env now j db = cancel_loop env now (job_id j) 5 j db"

section \<open>Transitions of the worker\<close>

definition job_cancel_requested :: "job \<Rightarrow> bool" where
  "job_cancel_requested j \<longleftrightarrow> cancel_requested_at j \<noteq> None \<or> status j = Cancel_requested"

fun kernel_report :: "assignment list \<Rightarrow> json dict option" where
  "kernel_report [] = None"
| "kernel_report (v # vs) = (case v of Set_kernel_status (Doc (JObj d)) \<Rightarrow> Some d | _ \<Rightarrow> kernel_report vs)"

definition finish_values :: "job_status \<Rightarrow> job \<Rightarrow> assignment list \<Rightarrow> assignment list" where
  "finish_values running current vs =
     Set_status (if job_cancel_requested current then Cancel_requested else running) # vs"

datatype finish_error = Changed_repeatedly | Unhashable_phase

text \<open>\<^verbatim>\<open>update_finish_status\<close>; the answer is the row it returns, \<^const>\<open>None\<close> for the empty dictionary.\<close>

fun finish_loop ::
  "(string \<Rightarrow> json option) \<Rightarrow> (nat \<Rightarrow> relay_db \<Rightarrow> relay_db) \<Rightarrow> time \<Rightarrow> string \<Rightarrow> job_status \<Rightarrow> (job \<Rightarrow> assignment list)
   \<Rightarrow> nat \<Rightarrow> relay_db \<Rightarrow> (finish_error + job option) \<times> relay_db" where
  "finish_loop loads env now jid running values 0 db = (Inl Changed_repeatedly, db)"
| "finish_loop loads env now jid running values (Suc n) db =
     (case get_job db jid of
        None \<Rightarrow> (Inr None, db)
      | Some current \<Rightarrow>
          if terminal (status current) then (Inr (Some current), db)
          else
            let vs = values current; report = kernel_report vs in
            case (case report of None \<Rightarrow> Some False | Some d \<Rightarrow> ignore_startup_progress loads current d) of
              None \<Rightarrow> (Inl Unhashable_phase, db)
            | Some True \<Rightarrow> (Inr (Some current), db)
            | Some False \<Rightarrow>
                let (db', done) = update_job_if_status (env n db) now jid {status current} False
                      (if report = None then None else Some (kernel_status current))
                      (finish_values running current vs)
                in if done then (Inr (get_job db' jid), db')
                   else finish_loop loads env now jid running values n db')"

definition update_finish_status ::
  "(string \<Rightarrow> json option) \<Rightarrow> (nat \<Rightarrow> relay_db \<Rightarrow> relay_db) \<Rightarrow> time \<Rightarrow> string \<Rightarrow> job_status \<Rightarrow> (job \<Rightarrow> assignment list)
   \<Rightarrow> relay_db \<Rightarrow> (finish_error + job option) \<times> relay_db" where
  "update_finish_status loads env now jid running values db = finish_loop loads env now jid running values 5 db"

text \<open>The columns the three calls of \<^verbatim>\<open>finish_kernel_job\<close> write.\<close>

definition truncated :: "rat \<Rightarrow> int" where
  "truncated r = (if 0 \<le> r then \<lfloor>r\<rfloor> else \<lceil>r\<rceil>)"

definition poll_values :: "json dict \<Rightarrow> job \<Rightarrow> assignment list" where
  "poll_values d current =
     [Set_progress (max (progress current)
        (min 80 (60 + of_int (truncated ((case rat_field d ''remote_progress'' of Some r \<Rightarrow> r | None \<Rightarrow> 0) / 100 * 20))))),
      Set_kernel_status (Doc (JObj d))]"

definition wait_values :: "job \<Rightarrow> assignment list" where
  "wait_values current = [Set_progress (max (progress current) 60), Set_error []]"

definition download_values :: "job \<Rightarrow> assignment list" where
  "download_values current = [Set_progress (max (progress current) 85)]"

datatype submission_error = Job_canceled string | Job_changed string

definition transition_before_submission ::
  "time \<Rightarrow> string \<Rightarrow> job_status set \<Rightarrow> job_status \<Rightarrow> rat \<Rightarrow> job \<Rightarrow> relay_db \<Rightarrow> (submission_error + unit) \<times> relay_db" where
  "transition_before_submission now jid expected s p j db =
     (let (db', done) = update_job_if_status db now jid expected True None [Set_status s, Set_progress p];
          latest = (case get_job db' jid of None \<Rightarrow> j | Some j' \<Rightarrow> j')
      in if done then (Inr (), db')
         else if job_cancel_requested latest then (Inl (Job_canceled ''canceled before Kaggle kernel submission''), db')
         else (Inl (Job_changed (status_name (status latest))), db'))"

definition job_log :: "string list \<Rightarrow> time \<Rightarrow> string \<Rightarrow> string \<Rightarrow> relay_db \<Rightarrow> relay_db" where
  "job_log known now jid message db =
     (let clean = redact_secrets known message
      in update_job (append_log db now jid clean) now jid [Set_kaggle_output (last_chars 4000 clean)])"

section \<open>A worker action that failed\<close>

datatype worker_error = Kernel_status_unavailable string | Other_error string

definition mark_worker_exception ::
  "(json \<Rightarrow> string) \<Rightarrow> string list \<Rightarrow> time \<Rightarrow> string \<Rightarrow> worker_error \<Rightarrow> relay_db \<Rightarrow> relay_db" where
  "mark_worker_exception dumps known now jid e db =
     (case e of
        Kernel_status_unavailable m \<Rightarrow>
          let message = ''kernel_status_unknown: '' @ redact_secrets known m in
          append_log (case get_job db jid of
              None \<Rightarrow> db
            | Some j \<Rightarrow> if terminal (status j) then db else update_job db now jid [Set_error message]) now jid message
      | Other_error m \<Rightarrow>
          let message = redact_secrets known m;
              db = append_log db now jid (''worker action failed: '' @ message)
          in case get_job db jid of
               None \<Rightarrow> db
             | Some j \<Rightarrow>
                 if terminal (status j) then db
                 else (case finalize_job dumps db now jid Failed [Set_progress 0, Set_error message] of
                         Inr (db', _) \<Rightarrow> db' | Inl _ \<Rightarrow> db))"

text \<open>What the handler of \<^verbatim>\<open>process_job\<close> writes to keep an uploaded candidate whose outcome is unknown.\<close>

definition retain_candidate :: "time \<Rightarrow> string \<Rightarrow> string \<Rightarrow> relay_db \<Rightarrow> relay_db" where
  "retain_candidate now jid message db =
     append_log (update_job db now jid [Set_status Waiting_dataset, Set_error message]) now jid message"


section \<open>Rows under interleaved writers\<close>

text \<open>
  A requested cancellation is visible: the job waits for it or has ended. This is what lets every writer
  see it in the status it compares.
\<close>

definition cancel_visible :: "job \<Rightarrow> bool" where
  "cancel_visible j \<longleftrightarrow> (cancel_requested_at j \<noteq> None \<longrightarrow> status j = Cancel_requested \<or> terminal (status j))
     \<and> (status j = Cancel_requested \<longrightarrow> cancel_requested_at j \<noteq> None)"

definition row_step :: "job \<Rightarrow> job \<Rightarrow> bool" where
  "row_step r r' \<longleftrightarrow> cancel_visible r'
     \<and> (cancel_requested_at r \<noteq> None \<longrightarrow> cancel_requested_at r' \<noteq> None)
     \<and> (terminal (status r) \<longrightarrow> status r' = status r)"

definition lifecycle_inv :: "relay_db \<Rightarrow> bool" where
  "lifecycle_inv db \<longleftrightarrow> jobs_keyed db \<and> (\<forall>k j. get_job db k = Some j \<longrightarrow> cancel_visible j)"

definition neutral :: "assignment list \<Rightarrow> bool" where
  "neutral vs \<longleftrightarrow> list_all (\<lambda>v. case v of Set_status _ \<Rightarrow> False | Set_cancel_requested_at _ \<Rightarrow> False | _ \<Rightarrow> True) vs"

text \<open>
  The writes that look at the status, one rule each: a callback, a cancellation, the three transitions of the
  worker, the steps of an upload and of a recheck, the scheduler (binding, reasons, and a job whose accounts are
  gone), finalising, what a restart writes for a row before anything else runs, plain updates of other columns,
  stop details and log lines. \<open>current\<close> is the row the writer had read.
\<close>

inductive write_step :: "relay_db \<Rightarrow> relay_db \<Rightarrow> bool" where
  by_callback: "cancel_visible current \<Longrightarrow> write_step db
     (fst (update_job_if_status db now jid {status current} False (Some (kernel_status current)) (callback_values current d clean)))"
| by_cancel: "\<not> terminal (status (current :: job)) \<Longrightarrow> status current \<noteq> Cancel_requested \<Longrightarrow> write_step db
     (fst (update_job_if_status db now jid {status current} False None (cancel_values now (status current))))"
| by_finish: "cancel_visible current \<Longrightarrow> \<not> terminal (status current) \<Longrightarrow> running \<in> {Waiting_kernel, Downloading_output}
     \<Longrightarrow> neutral vs \<Longrightarrow> write_step db
     (fst (update_job_if_status db now jid {status current} False ks (finish_values running current vs)))"
| by_submission: "\<not> terminal s \<Longrightarrow> s \<noteq> Cancel_requested \<Longrightarrow> \<forall>x \<in> expected. \<not> terminal x \<Longrightarrow> neutral vs \<Longrightarrow> write_step db
     (fst (update_job_if_status db now jid expected True None (Set_status s # vs)))"
| by_transition: "\<not> terminal s \<Longrightarrow> s \<noteq> Cancel_requested \<Longrightarrow> \<forall>x \<in> expected. \<not> terminal x \<and> x \<noteq> Cancel_requested \<Longrightarrow> neutral vs
     \<Longrightarrow> write_step db (fst (update_job_if_status db now jid expected nc ks (Set_status s # vs)))"
| by_restart: "get_job db jid = Some current \<Longrightarrow> \<not> terminal (status current)
     \<Longrightarrow> terminal s \<or> s \<noteq> Cancel_requested \<and> cancel_requested_at current = None \<Longrightarrow> neutral vs
     \<Longrightarrow> write_step db (update_job db now jid (Set_status s # vs))"
| by_scheduler: "neutral vs \<Longrightarrow> write_step db (fst (update_job_if_status db now jid expected nc ks vs))"
| by_removal: "terminal s \<Longrightarrow> \<forall>x \<in> expected. \<not> terminal x \<and> x \<noteq> Cancel_requested \<Longrightarrow> neutral vs \<Longrightarrow> write_step db
     (fst (update_job_if_status db now jid expected nc ks (Set_status s # vs)))"
| by_finalize: "neutral vs \<Longrightarrow> finalize_job dumps db now jid preferred vs = Inr (db', st) \<Longrightarrow> write_step db db'"
| by_update: "neutral vs \<Longrightarrow> write_step db (update_job db now jid vs)"
| by_details: "write_step db (record_stop_details loads dumps dumps_sorted redact db now jid incoming expected)"
| by_log: "write_step db (append_log db now jid m)"

lemma neutral_simps [simp]: "neutral []"
  "neutral (v # vs) \<longleftrightarrow> (case v of Set_status _ \<Rightarrow> False | Set_cancel_requested_at _ \<Rightarrow> False | _ \<Rightarrow> True) \<and> neutral vs"
  "neutral (us @ vs) \<longleftrightarrow> neutral us \<and> neutral vs"
  by (simp_all add: neutral_def)

lemma neutral_no_status: "neutral vs \<Longrightarrow> assigned_status vs = None"
  by (induction vs) (auto split: assignment.splits)

lemma neutral_apply:
  "neutral vs \<Longrightarrow> status (apply_values vs j) = status j \<and> cancel_requested_at (apply_values vs j) = cancel_requested_at j"
proof (induction vs arbitrary: j)
  case (Cons v vs)
  then show ?case by (cases v) auto
qed simp

lemma neutral_prepare: "neutral vs \<Longrightarrow> prepare_values now vs = vs @ [Set_updated_at now]"
  by (simp add: prepare_values_def neutral_no_status assigned_status_append)

lemma neutral_row:
  assumes "neutral vs"
  shows "status (apply_values (prepare_values now vs) j) = status j
    \<and> cancel_requested_at (apply_values (prepare_values now vs) j) = cancel_requested_at j"
  using neutral_apply [of "vs @ [Set_updated_at now]" j] assms by (simp add: neutral_prepare)

text \<open>A write that sets the status first, whatever other columns follow.\<close>

lemma status_row:
  assumes "neutral vs"
  shows "status (apply_values (prepare_values now (Set_status s # vs)) j) = s
    \<and> cancel_requested_at (apply_values (prepare_values now (Set_status s # vs)) j) = cancel_requested_at j"
proof -
  have "\<exists>ws. neutral ws \<and> prepare_values now (Set_status s # vs) = Set_status s # ws"
    using assms by (auto simp: prepare_values_def Let_def)
  then obtain ws where "neutral ws" "prepare_values now (Set_status s # vs) = Set_status s # ws" by blast
  with neutral_apply [of ws "j\<lparr>status := s\<rparr>"] show ?thesis by simp
qed

lemma cancel_row:
  "status (apply_values (prepare_values now (cancel_values now s)) j) = (if s \<in> {Receiving, Assembling, Queued} then Canceled else Cancel_requested)
   \<and> cancel_requested_at (apply_values (prepare_values now (cancel_values now s)) j) = Some now"
  by (simp add: cancel_values_def prepare_values_def terminal_def)

lemma row_step_refl [simp]: "row_step r r \<longleftrightarrow> cancel_visible r"
  by (simp add: row_step_def)

lemma row_step_trans: "row_step a b \<Longrightarrow> row_step b c \<Longrightarrow> row_step a c"
  by (auto simp: row_step_def)

lemma row_step_neutral:
  "cancel_visible r \<Longrightarrow> neutral vs \<Longrightarrow> row_step r (apply_values (prepare_values now vs) r)"
  using neutral_row [of vs now r] by (simp add: row_step_def cancel_visible_def)

text \<open>What each write does to a row it hits.\<close>

lemma visible_live:
  "cancel_visible j \<Longrightarrow> \<not> terminal (status j) \<Longrightarrow> cancel_requested_at j \<noteq> None \<longleftrightarrow> status j = Cancel_requested"
  unfolding cancel_visible_def by blast

lemma live_cancel [simp]: "\<not> terminal Cancel_requested" "\<not> terminal Waiting_kernel" "\<not> terminal Downloading_output"
  by (simp_all add: terminal_def)

lemma row_step_status:
  assumes "\<not> terminal (status r)" and "neutral vs"
    and "cancel_requested_at r \<noteq> None \<longrightarrow> s = Cancel_requested \<or> terminal s"
    and "s = Cancel_requested \<longrightarrow> cancel_requested_at r \<noteq> None"
  shows "row_step r (apply_values (prepare_values now (Set_status s # vs)) r)"
proof -
  define r' where "r' = apply_values (prepare_values now (Set_status s # vs)) r"
  have "status r' = s" "cancel_requested_at r' = cancel_requested_at r"
    using status_row [OF assms(2), of now s r] by (simp_all add: r'_def)
  with assms(1,3,4) show ?thesis unfolding r'_def [symmetric] by (simp add: row_step_def cancel_visible_def)
qed

lemma row_step_callback:
  assumes "cancel_visible current" and "cancel_visible r" and "status r = status current"
  shows "row_step r (apply_values (prepare_values now (callback_values current d clean)) r)"
proof (cases "terminal (status current)")
  case True
  then show ?thesis by (intro row_step_neutral assms) (simp add: callback_values_def)
next
  case False
  have same: "cancel_requested_at current \<noteq> None \<longleftrightarrow> cancel_requested_at r \<noteq> None"
    using visible_live [OF assms(1)] visible_live [OF assms(2)] assms(3) False by simp
  have v: "callback_values current d clean = Set_status (if cancel_requested_at current \<noteq> None then Cancel_requested else Waiting_kernel)
      # [Set_kernel_status (Doc (JObj d)), Set_kaggle_output (last_chars 4000 clean), Set_progress (progress_from_callback current d)]"
    using False by (simp add: callback_values_def)
  show ?thesis unfolding v using False assms(3) same by (intro row_step_status) auto
qed

lemma row_step_cancel:
  assumes "cancel_visible r" and "status r = s" and "\<not> terminal s" and "s \<noteq> Cancel_requested"
  shows "row_step r (apply_values (prepare_values now (cancel_values now s)) r)"
  using assms cancel_row [of now s r] by (auto simp: row_step_def cancel_visible_def terminal_def)

lemma row_step_finish:
  assumes "cancel_visible current" and "\<not> terminal (status current)" and "running \<in> {Waiting_kernel, Downloading_output}"
    and "neutral vs" and "cancel_visible r" and "status r = status current"
  shows "row_step r (apply_values (prepare_values now (finish_values running current vs)) r)"
proof -
  have "job_cancel_requested current \<longleftrightarrow> cancel_requested_at r \<noteq> None"
    using visible_live [OF assms(1,2)] visible_live [OF assms(5)] assms(2,6)
    by (auto simp: job_cancel_requested_def)
  then show ?thesis
    unfolding finish_values_def using assms by (intro row_step_status) auto
qed

lemma row_step_finalize:
  assumes "cancel_visible r" and "neutral vs" and "terminal preferred"
  shows "row_step r (finalized now preferred vs r)"
proof -
  have n: "neutral (final_values now vs)" using assms(2) by (simp add: final_values_def)
  have c: "cancel_requested_at (apply_values (final_values now vs) x) = cancel_requested_at x" for x
    using neutral_apply [OF n] by blast
  show ?thesis
    using assms(1,3)
    by (auto simp: finalized_def row_step_def cancel_visible_def final_row_def finalize_status_def cancel_pending_def
        terminal_def c put_details_def)
qed


section \<open>The database under interleaved writers\<close>

text \<open>
  What a write may do to any row: it keeps the record of a request, and to a row in which a request is visible it
  does a \<^const>\<open>row_step\<close>.
\<close>

definition row_move :: "job \<Rightarrow> job \<Rightarrow> bool" where
  "row_move r r' \<longleftrightarrow> (cancel_requested_at r \<noteq> None \<longrightarrow> cancel_requested_at r' \<noteq> None) \<and> (cancel_visible r \<longrightarrow> row_step r r')"

definition db_move :: "relay_db \<Rightarrow> relay_db \<Rightarrow> bool" where
  "db_move db db' \<longleftrightarrow> jobs_keyed db' \<and> (\<forall>k. rel_option row_move (get_job db k) (get_job db' k))"

definition db_step :: "relay_db \<Rightarrow> relay_db \<Rightarrow> bool" where
  "db_step db db' \<longleftrightarrow> jobs_keyed db' \<and> (\<forall>k. rel_option row_step (get_job db k) (get_job db' k))"

lemma db_move_step:
  assumes "lifecycle_inv db" and "db_move db db'"
  shows "db_step db db'"
  unfolding db_step_def
proof (intro conjI allI)
  show "jobs_keyed db'" using assms(2) by (simp add: db_move_def)
  fix k
  have "rel_option row_move (get_job db k) (get_job db' k)" using assms(2) by (simp add: db_move_def)
  moreover have "row_step r r'" if "get_job db k = Some r" "row_move r r'" for r r'
    using that assms(1) by (auto simp: row_move_def lifecycle_inv_def)
  ultimately show "rel_option row_step (get_job db k) (get_job db' k)"
    by (cases "get_job db k"; cases "get_job db' k") simp_all
qed

lemma rel_option_map: "(\<And>r. x = Some r \<Longrightarrow> R r (f r)) \<Longrightarrow> rel_option R x (map_option f x)"
  by (cases x) simp_all

lemma db_move_rows:
  assumes "jobs_keyed db'" and "\<And>k r. get_job db k = Some r \<Longrightarrow> row_move r (f k r)"
    and "\<And>k. get_job db' k = map_option (f k) (get_job db k)"
  shows "db_move db db'"
  unfolding db_move_def assms(3) using assms(1,2) by (auto intro: rel_option_map)

lemma row_move_refl [simp]: "row_move r r"
  by (simp add: row_move_def)

lemma row_move_written:
  "cancel_requested_at r' = cancel_requested_at r \<Longrightarrow> (cancel_visible r \<Longrightarrow> row_step r r') \<Longrightarrow> row_move r r'"
  by (simp add: row_move_def)

lemma db_move_cas:
  assumes "jobs_keyed db"
    and "\<And>r. status_guard expected nc ks r \<Longrightarrow> row_move r (apply_values (prepare_values now vs) r)"
  shows "db_move db (fst (update_job_if_status db now jid expected nc ks vs))"
proof (rule db_move_rows)
  show "jobs_keyed (fst (update_job_if_status db now jid expected nc ks vs))" using assms(1) by simp
  show "get_job (fst (update_job_if_status db now jid expected nc ks vs)) k = map_option (\<lambda>r.
      if expected \<noteq> {} \<and> vs \<noteq> [] \<and> k = jid \<and> status_guard expected nc ks r then apply_values (prepare_values now vs) r else r)
      (get_job db k)" for k
    by (cases "get_job db k") (auto simp: get_update_job_if_status)
  show "row_move r (if expected \<noteq> {} \<and> vs \<noteq> [] \<and> k = jid \<and> status_guard expected nc ks r
      then apply_values (prepare_values now vs) r else r)" for k r using assms(2) [of r] by simp
qed

lemma db_move_status:
  assumes "jobs_keyed db" and "neutral vs"
    and "\<And>r. status_guard expected nc ks r \<Longrightarrow> cancel_visible r \<Longrightarrow> row_step r (apply_values (prepare_values now (Set_status s # vs)) r)"
  shows "db_move db (fst (update_job_if_status db now jid expected nc ks (Set_status s # vs)))"
  using assms status_row [OF assms(2)] by (intro db_move_cas row_move_written) auto

lemma db_move_same:
  assumes "jobs_keyed db'"
    and "\<And>k. map_option status (get_job db' k) = map_option status (get_job db k)
      \<and> map_option cancel_requested_at (get_job db' k) = map_option cancel_requested_at (get_job db k)"
  shows "db_move db db'"
proof -
  have "rel_option row_move (get_job db k) (get_job db' k)" for k
  proof (cases "get_job db k")
    case None
    then show ?thesis using assms(2) [of k] by simp
  next
    case (Some r)
    then obtain r' where r': "get_job db' k = Some r'" "status r' = status r" "cancel_requested_at r' = cancel_requested_at r"
      using assms(2) [of k] by (cases "get_job db' k") auto
    then have "row_move r r'" by (simp add: row_move_def row_step_def cancel_visible_def)
    with Some r' show ?thesis by simp
  qed
  with assms(1) show ?thesis by (simp add: db_move_def)
qed

lemma db_step_same:
  assumes "lifecycle_inv db" and "jobs_keyed db'"
    and "\<And>k. map_option status (get_job db' k) = map_option status (get_job db k)
      \<and> map_option cancel_requested_at (get_job db' k) = map_option cancel_requested_at (get_job db k)"
  shows "db_step db db'"
  by (rule db_move_step [OF assms(1) db_move_same [OF assms(2,3)]])

lemma keyed_record_stop_details [simp]:
  "jobs_keyed (record_stop_details loads dumps dumps_sorted redact db now jid incoming expected) = jobs_keyed db"
proof -
  have "keeps_key (stamp_details now e)" for e by (simp add: keeps_key_def stamp_details_def)
  then show ?thesis
    by (simp add: record_stop_details_def write_details_def cas_row_def Let_def jobs_keyed_update_rows split: option.splits)
qed

lemma callback_keeps_request:
  "cancel_requested_at (apply_values (prepare_values now (callback_values current d clean)) r) = cancel_requested_at r"
  using status_row [of "[Set_kernel_status (Doc (JObj d)), Set_kaggle_output (last_chars 4000 clean), Set_progress (progress_from_callback current d)]"]
    neutral_row [of "[Set_kernel_status (Doc (JObj d)), Set_kaggle_output (last_chars 4000 clean), Set_progress (progress_from_callback current d)]"]
  by (simp add: callback_values_def)

lemma row_move_finalized:
  assumes "neutral vs" and "terminal preferred"
  shows "row_move r (finalized now preferred vs r)"
proof -
  have "neutral (final_values now vs)" using assms(1) by (simp add: final_values_def)
  then have "cancel_requested_at (apply_values (final_values now vs) x) = cancel_requested_at x" for x
    using neutral_apply by blast
  then have "cancel_requested_at (finalized now preferred vs r) = cancel_requested_at r"
    by (simp add: finalized_def final_row_def put_details_def)
  then show ?thesis using row_step_finalize [OF _ assms] by (intro row_move_written)
qed

lemma write_step_moves:
  assumes "jobs_keyed db" and "write_step db db'"
  shows "db_move db db'"
  using assms(2,1)
proof cases
  case (by_callback current now jid d clean)
  then show ?thesis unfolding by_callback(1) using assms(1)
    by (intro db_move_cas row_move_written callback_keeps_request row_step_callback) (auto simp: status_guard_def)
next
  case (by_cancel current now jid)
  have "row_move r (apply_values (prepare_values now (cancel_values now (status current))) r)" if "status r = status current" for r
    using row_step_cancel [of r "status current" now] by_cancel(2,3) that cancel_row by (auto simp: row_move_def)
  then show ?thesis unfolding by_cancel(1) using assms(1) by (intro db_move_cas) (auto simp: status_guard_def)
next
  case (by_finish current running vs now jid ks)
  show ?thesis unfolding by_finish(1) finish_values_def using assms(1)
    by (intro db_move_status by_finish row_step_finish [unfolded finish_values_def])
      (use by_finish in \<open>auto simp: status_guard_def\<close>)
next
  case (by_submission s expected vs now jid)
  then show ?thesis unfolding by_submission(1) using assms(1)
    by (intro db_move_status row_step_status) (auto simp: status_guard_def)
next
  case (by_transition s expected vs now jid nc ks)
  then show ?thesis unfolding by_transition(1) using assms(1)
    by (intro db_move_status row_step_status) (auto simp: status_guard_def cancel_visible_def)
next
  case (by_restart jid current s vs now)
  have r: "row_move current (apply_values (prepare_values now (Set_status s # vs)) current)"
    using status_row [OF by_restart(5)] row_step_status [OF by_restart(3,5), of s now] by_restart(4)
    by (intro row_move_written) (auto simp: terminal_def)
  show ?thesis
  proof (rule db_move_rows [where f = "\<lambda>k r. if k = jid then apply_values (prepare_values now (Set_status s # vs)) r else r"])
    show "jobs_keyed db'" using assms(1) by (simp add: by_restart(1))
    show "get_job db' k = map_option (\<lambda>r. if k = jid then apply_values (prepare_values now (Set_status s # vs)) r else r) (get_job db k)" for k
      by (cases "get_job db k") (auto simp: by_restart(1) get_update_job)
    show "row_move r' (if k = jid then apply_values (prepare_values now (Set_status s # vs)) r' else r')" if "get_job db k = Some r'" for k r'
      using r that by_restart(2) by auto
  qed
next
  case (by_scheduler vs now jid expected nc ks)
  then show ?thesis unfolding by_scheduler(1) using assms(1) neutral_row [OF by_scheduler(2)]
    by (intro db_move_cas row_move_written row_step_neutral) auto
next
  case (by_removal s expected vs now jid nc ks)
  then show ?thesis unfolding by_removal(1) using assms(1)
    by (intro db_move_status row_step_status) (auto simp: status_guard_def terminal_def)
next
  case (by_finalize vs dumps now jid preferred st)
  have t: "terminal preferred" using by_finalize(2) finalize_ok_iff by blast
  show ?thesis
  proof (rule db_move_rows [where f = "\<lambda>k r. if k = jid then finalized now preferred vs r else r"])
    show "jobs_keyed db'" using finalize_keyed [OF by_finalize(2)] assms(1) by simp
    show "get_job db' k = map_option (\<lambda>r. if k = jid then finalized now preferred vs r else r) (get_job db k)" for k
      using get_finalize [OF by_finalize(2), of k] by (cases "get_job db k") auto
    show "row_move r (if k = jid then finalized now preferred vs r else r)" for k r
      using row_move_finalized [OF by_finalize(1) t] by simp
  qed
next
  case (by_update vs now jid)
  show ?thesis
  proof (rule db_move_same)
    show "jobs_keyed db'" using assms(1) by (simp add: by_update(1))
    show "map_option status (get_job db' k) = map_option status (get_job db k)
      \<and> map_option cancel_requested_at (get_job db' k) = map_option cancel_requested_at (get_job db k)" for k
      using neutral_row [OF by_update(2), of now]
      by (cases "get_job db k") (auto simp: by_update(1) get_update_job)
  qed
next
  case (by_details loads dumps dumps_sorted redact now jid incoming expected)
  show ?thesis
  proof (rule db_move_same)
    show "jobs_keyed db'" using assms(1) by (simp add: by_details)
    show "map_option status (get_job db' k) = map_option status (get_job db k)
      \<and> map_option cancel_requested_at (get_job db' k) = map_option cancel_requested_at (get_job db k)" for k
      by (cases "get_job db k") (auto simp: by_details get_record_stop_details stamp_details_def Let_def)
  qed
next
  case (by_log now jid m)
  then show ?thesis using assms(1) by (intro db_move_same) auto
qed

lemma write_step_db:
  assumes "lifecycle_inv db" and "write_step db db'"
  shows "db_step db db'"
  using db_move_step [OF assms(1) write_step_moves [OF _ assms(2)]] assms(1) by (simp add: lifecycle_inv_def)

lemma db_step_inv: "db_step db db' \<Longrightarrow> lifecycle_inv db'"
proof -
  assume s: "db_step db db'"
  have "cancel_visible j" if "get_job db' k = Some j" for k j
  proof -
    have "rel_option row_step (get_job db k) (Some j)" using s that by (metis db_step_def)
    then show ?thesis by (cases "get_job db k") (auto simp: row_step_def)
  qed
  with s show ?thesis by (auto simp: lifecycle_inv_def db_step_def)
qed

lemma db_step_refl: "lifecycle_inv db \<Longrightarrow> db_step db db"
  by (intro db_step_same) (simp_all add: lifecycle_inv_def)

lemma db_step_row: "db_step db db' \<Longrightarrow> get_job db k = Some r \<Longrightarrow> \<exists>r'. get_job db' k = Some r' \<and> row_step r r'"
  unfolding db_step_def by (metis option_rel_Some1)

lemma db_step_none: "db_step db db' \<Longrightarrow> get_job db k = None \<Longrightarrow> get_job db' k = None"
  unfolding db_step_def by (metis option.rel_distinct(1) not_None_eq)

lemma db_step_trans:
  assumes "db_step a b" and "db_step b c"
  shows "db_step a c"
  unfolding db_step_def
proof (intro conjI allI)
  show "jobs_keyed c" using assms(2) by (simp add: db_step_def)
  fix k
  show "rel_option row_step (get_job a k) (get_job c k)"
  proof (cases "get_job a k")
    case None
    with db_step_none [OF assms(1)] db_step_none [OF assms(2)] show ?thesis by simp
  next
    case (Some r)
    with db_step_row [OF assms(1)] obtain r' where r': "get_job b k = Some r'" "row_step r r'" by blast
    with db_step_row [OF assms(2)] obtain r'' where "get_job c k = Some r''" "row_step r' r''" by blast
    with Some r' show ?thesis using row_step_trans by auto
  qed
qed

interpretation lifecycle: transition_system lifecycle_inv write_step lifecycle_inv
  by unfold_locales (auto intro: db_step_inv write_step_db)

lemma write_steps_db:
  assumes "lifecycle_inv db" and "write_step\<^sup>*\<^sup>* db db'"
  shows "db_step db db'"
  using assms(2)
proof (induction rule: rtranclp_induct)
  case (step y z)
  have "lifecycle_inv y" by (rule lifecycle.steps_inv [OF step.hyps(1) assms(1)])
  from write_step_db [OF this step.hyps(2)] step.IH show ?case by (blast intro: db_step_trans)
qed (rule db_step_refl [OF assms(1)])


section \<open>The write that looks at nothing\<close>

text \<open>
  Keeping an unverified candidate sets the status without a guard, so a request that arrives after the worker read
  the row is no longer visible in it. The whole system therefore has a state with the jobs whose candidate was kept
  that way so far; of their rows a handler may have read any version.
\<close>

inductive any_write :: "string set \<times> relay_db \<Rightarrow> string set \<times> relay_db \<Rightarrow> bool" where
  guarded_write: "write_step db db' \<Longrightarrow> any_write (H, db) (H, db')"
| keeping_write: "any_write (H, db) (insert jid H, retain_candidate now jid m db)"
| hidden_callback: "jid \<in> H \<Longrightarrow> any_write (H, db) (H,
     fst (update_job_if_status db now jid {status current} False (Some (kernel_status current)) (callback_values current d clean)))"
| hidden_finish: "jid \<in> H \<Longrightarrow> neutral vs \<Longrightarrow> any_write (H, db) (H,
     fst (update_job_if_status db now jid {status current} False ks (finish_values running current vs)))"

definition any_inv :: "string set \<times> relay_db \<Rightarrow> bool" where
  "any_inv x \<longleftrightarrow> jobs_keyed (snd x) \<and> (\<forall>k j. k \<notin> fst x \<longrightarrow> get_job (snd x) k = Some j \<longrightarrow> cancel_visible j)"

definition hidden_move :: "bool \<Rightarrow> job \<Rightarrow> job \<Rightarrow> bool" where
  "hidden_move hidden r r' \<longleftrightarrow> (cancel_requested_at r \<noteq> None \<longrightarrow> cancel_requested_at r' \<noteq> None)
     \<and> (\<not> hidden \<longrightarrow> cancel_visible r \<longrightarrow> row_step r r')"

definition kept_rows :: "string set \<Rightarrow> relay_db \<Rightarrow> relay_db \<Rightarrow> bool" where
  "kept_rows H db db' \<longleftrightarrow> jobs_keyed db' \<and> (\<forall>k. rel_option (hidden_move (k \<in> H)) (get_job db k) (get_job db' k))"

lemma hidden_move_refl [simp]: "hidden_move h r r"
  by (simp add: hidden_move_def)

lemma hidden_move_trans: "hidden_move h r r1 \<Longrightarrow> hidden_move h' r1 r2 \<Longrightarrow> h \<longrightarrow> h' \<Longrightarrow> hidden_move h' r r2"
  unfolding hidden_move_def using row_step_trans by (metis row_step_def)

lemma db_move_kept:
  assumes "db_move db db'"
  shows "kept_rows H db db'"
proof -
  have "rel_option (hidden_move (k \<in> H)) (get_job db k) (get_job db' k)" for k
    by (rule option.rel_mono_strong [of row_move]) (use assms in \<open>auto simp: db_move_def hidden_move_def row_move_def\<close>)
  with assms show ?thesis by (simp add: kept_rows_def db_move_def)
qed

lemma kept_rowsI:
  assumes "jobs_keyed db'" and "jid \<in> H" and "\<And>r. cancel_requested_at (f r) = cancel_requested_at r"
    and "\<And>k. get_job db' k = map_option (\<lambda>r. if k = jid \<and> P r then f r else r) (get_job db k)"
  shows "kept_rows H db db'"
  unfolding kept_rows_def assms(4) using assms(1-3) by (auto intro!: rel_option_map simp: hidden_move_def)

lemma kept_cas:
  assumes "jobs_keyed db" and "jid \<in> H"
    and "\<And>r. cancel_requested_at (apply_values (prepare_values now vs) r) = cancel_requested_at r"
  shows "kept_rows H db (fst (update_job_if_status db now jid expected nc ks vs))"
proof (rule kept_rowsI [OF _ assms(2,3), where P = "\<lambda>r. expected \<noteq> {} \<and> vs \<noteq> [] \<and> status_guard expected nc ks r"])
  show "get_job (fst (update_job_if_status db now jid expected nc ks vs)) k = map_option (\<lambda>r.
      if k = jid \<and> expected \<noteq> {} \<and> vs \<noteq> [] \<and> status_guard expected nc ks r then apply_values (prepare_values now vs) r else r)
      (get_job db k)" for k
    by (cases "get_job db k") (auto simp: get_update_job_if_status)
qed (use assms(1) in simp)

lemma any_write_rows:
  assumes "any_write x y" and "jobs_keyed (snd x)"
  shows "fst x \<subseteq> fst y \<and> kept_rows (fst y) (snd x) (snd y)"
  using assms
proof cases
  case (guarded_write db db' H)
  then have "db_move db db'" using write_step_moves assms(2) by simp
  then show ?thesis using db_move_kept guarded_write(1,2) by simp
next
  case (keeping_write H db jid now m)
  have "kept_rows (insert jid H) db (retain_candidate now jid m db)"
  proof (rule kept_rowsI [where P = "\<lambda>_. True"])
    show "jobs_keyed (retain_candidate now jid m db)" using assms(2) keeping_write(1) by (simp add: retain_candidate_def)
    show "cancel_requested_at (apply_values (prepare_values now [Set_status Waiting_dataset, Set_error m]) r) = cancel_requested_at r" for r
      using status_row [of "[Set_error m]" now Waiting_dataset r] by simp
    show "get_job (retain_candidate now jid m db) k = map_option (\<lambda>r. if k = jid \<and> True
        then apply_values (prepare_values now [Set_status Waiting_dataset, Set_error m]) r else r) (get_job db k)" for k
      by (cases "get_job db k") (auto simp: retain_candidate_def get_update_job)
  qed simp
  with keeping_write show ?thesis by auto
next
  case (hidden_callback jid H db now current d clean)
  then show ?thesis using kept_cas [of db jid H] callback_keeps_request assms(2) by simp
next
  case (hidden_finish jid H vs db now current ks running)
  then show ?thesis using kept_cas [of db jid H] status_row [OF hidden_finish(4)] assms(2) by (simp add: finish_values_def)
qed

lemma kept_rows_row: "kept_rows H a b \<Longrightarrow> get_job a k = Some r \<Longrightarrow> \<exists>r'. get_job b k = Some r' \<and> hidden_move (k \<in> H) r r'"
  unfolding kept_rows_def by (metis option_rel_Some1)

lemma kept_rows_none: "kept_rows H a b \<Longrightarrow> get_job a k = None \<Longrightarrow> get_job b k = None"
  unfolding kept_rows_def by (metis option.rel_distinct(1) not_None_eq)

lemma kept_rows_trans:
  assumes "kept_rows H a b" and "kept_rows H' b c" and "H \<subseteq> H'"
  shows "kept_rows H' a c"
  unfolding kept_rows_def
proof (intro conjI allI)
  show "jobs_keyed c" using assms(2) by (simp add: kept_rows_def)
  fix k
  show "rel_option (hidden_move (k \<in> H')) (get_job a k) (get_job c k)"
  proof (cases "get_job a k")
    case None
    with kept_rows_none [OF assms(1)] kept_rows_none [OF assms(2)] show ?thesis by simp
  next
    case (Some r)
    with kept_rows_row [OF assms(1)] obtain r1 where r1: "get_job b k = Some r1" "hidden_move (k \<in> H) r r1" by blast
    with kept_rows_row [OF assms(2)] obtain r2 where "get_job c k = Some r2" "hidden_move (k \<in> H') r1 r2" by blast
    with Some hidden_move_trans [OF r1(2)] assms(3) show ?thesis by auto
  qed
qed

lemma any_writes_rows:
  assumes "any_write\<^sup>*\<^sup>* x y" and "jobs_keyed (snd x)"
  shows "fst x \<subseteq> fst y \<and> kept_rows (fst y) (snd x) (snd y)"
  using assms(1)
proof (induction rule: rtranclp_induct)
  case base
  show ?case using assms(2) by (simp add: kept_rows_def option.rel_refl)
next
  case (step y z)
  then have "jobs_keyed (snd y)" by (simp add: kept_rows_def)
  from any_write_rows [OF step(2) this] step.IH show ?case using kept_rows_trans by blast
qed

lemma kept_rows_inv:
  assumes "any_inv x" and "fst x \<subseteq> H" and "kept_rows H (snd x) db"
  shows "any_inv (H, db)"
  unfolding any_inv_def fst_conv snd_conv
proof (intro conjI allI impI)
  show "jobs_keyed db" using assms(3) by (simp add: kept_rows_def)
  fix k j assume k: "k \<notin> H" "get_job db k = Some j"
  then obtain r where r: "get_job (snd x) k = Some r" using kept_rows_none [OF assms(3)] by (cases "get_job (snd x) k") auto
  have "hidden_move False r j" using kept_rows_row [OF assms(3) r] k by simp
  moreover have "cancel_visible r" using r assms(1,2) k(1) by (auto simp: any_inv_def)
  ultimately show "cancel_visible j" by (simp add: hidden_move_def row_step_def)
qed

interpretation writers: transition_system any_inv any_write any_inv
proof unfold_locales
  show "any_inv y" if "any_write x y" "any_inv x" for x y
  proof -
    have "jobs_keyed (snd x)" using that(2) by (simp add: any_inv_def)
    with any_write_rows [OF that(1)] have "any_inv (fst y, snd y)" using kept_rows_inv [OF that(2)] by blast
    then show ?thesis by simp
  qed
qed

text \<open>Without such a write the system is the one of the guarded writes.\<close>

lemma any_writes_guarded: "any_write\<^sup>*\<^sup>* x y \<Longrightarrow> fst x \<subseteq> fst y \<and> (fst y = {} \<longrightarrow> write_step\<^sup>*\<^sup>* (snd x) (snd y))"
proof (induction rule: rtranclp_induct)
  case (step y z)
  from step(2) show ?case
    by cases (use step.IH in \<open>auto intro: rtranclp.rtrancl_into_rtrancl\<close>)
qed simp

lemma guarded_writes: "write_step\<^sup>*\<^sup>* db db' \<Longrightarrow> any_write\<^sup>*\<^sup>* (H, db) (H, db')"
  by (induction rule: rtranclp_induct) (auto intro: rtranclp.rtrancl_into_rtrancl guarded_write)

section \<open>The loops are sequences of writes\<close>

text \<open>
  What the other threads do is made of writes as well: of any writes, where \<open>H\<close> are the jobs whose candidate is kept
  by an unguarded one, or of guarded writes only.
\<close>

definition open_env :: "string set \<Rightarrow> (nat \<Rightarrow> relay_db \<Rightarrow> relay_db) \<Rightarrow> bool" where
  "open_env H env \<longleftrightarrow> (\<forall>n db. any_write\<^sup>*\<^sup>* (H, db) (H, env n db))"

definition fair_env :: "(nat \<Rightarrow> relay_db \<Rightarrow> relay_db) \<Rightarrow> bool" where
  "fair_env env \<longleftrightarrow> (\<forall>n db. write_step\<^sup>*\<^sup>* db (env n db))"

lemma fair_open: "fair_env env \<Longrightarrow> open_env H env"
  by (simp add: fair_env_def open_env_def guarded_writes)

lemma any_inv_guarded: "lifecycle_inv db \<Longrightarrow> any_inv (H, db)"
  by (simp add: any_inv_def lifecycle_inv_def)

lemma only_guarded_writes: "any_write\<^sup>*\<^sup>* ({}, db) ({}, db') \<Longrightarrow> write_step\<^sup>*\<^sup>* db db'"
  using any_writes_guarded by fastforce

lemma env_then:
  "open_env H env \<Longrightarrow> any_write (H, env n db) (H, db') \<Longrightarrow> any_write\<^sup>*\<^sup>* (H, db) (H, db')"
  unfolding open_env_def by (meson rtranclp.rtrancl_into_rtrancl)

text \<open>A row that was read is visible, or of a job in \<open>H\<close>; so the write computed from it is one of the system.\<close>

lemma read_visible: "any_inv (H, db) \<Longrightarrow> get_job db jid = Some j \<Longrightarrow> jid \<in> H \<or> cancel_visible j"
  by (auto simp: any_inv_def)

lemma callback_loop_writes:
  "any_inv (H, db) \<Longrightarrow> open_env H env \<Longrightarrow> any_write\<^sup>*\<^sup>* (H, db) (H, snd (callback_loop loads env now jid d clean n db))"
proof (induction n arbitrary: db)
  case (Suc n)
  show ?case
  proof (cases "get_job db jid")
    case (Some current)
    obtain db' ok where u: "update_job_if_status (env n db) now jid {status current} False
        (Some (kernel_status current)) (callback_values current d clean) = (db', ok)" by fastforce
    have "any_write (H, env n db) (H, db')"
      using read_visible [OF Suc.prems(1) Some] hidden_callback [where db = "env n db" and H = H and jid = jid and now = now and current = current and d = d and clean = clean]
        guarded_write [OF by_callback [of current "env n db" now jid d clean]] by (auto simp: u)
    then have s: "any_write\<^sup>*\<^sup>* (H, db) (H, db')" by (rule env_then [OF Suc.prems(2)])
    then have "any_write\<^sup>*\<^sup>* (H, db) (H, snd (callback_loop loads env now jid d clean n db'))"
      using Suc.IH [OF writers.steps_inv [OF s Suc.prems(1)] Suc.prems(2)] by (rule rtranclp_trans)
    with Some s show ?thesis by (auto simp: u split: option.splits bool.splits)
  qed simp
qed simp

lemma cancel_loop_writes:
  "open_env H env \<Longrightarrow> any_write\<^sup>*\<^sup>* (H, db) (H, snd (cancel_loop env now jid n j db))"
proof (induction n arbitrary: j db)
  case (Suc n)
  show ?case
  proof (cases "terminal (status j) \<or> status j = Cancel_requested")
    case True
    then show ?thesis by (auto simp: terminal_def)
  next
    case False
    obtain db' ok where u: "update_job_if_status (env n db) now jid {status j} False None (cancel_values now (status j)) = (db', ok)"
      by fastforce
    have s: "any_write\<^sup>*\<^sup>* (H, db) (H, db')"
      using env_then [OF Suc.prems guarded_write [OF by_cancel [of j "env n db" now jid]]] False by (simp add: u)
    have "any_write\<^sup>*\<^sup>* (H, db) (H, append_log db' now jid m)" for m
      using s guarded_write [OF by_log] by (rule rtranclp.rtrancl_into_rtrancl)
    moreover have "any_write\<^sup>*\<^sup>* (H, db) (H, snd (cancel_loop env now jid n j' db'))" for j'
      using s Suc.IH [OF Suc.prems] by (rule rtranclp_trans)
    ultimately show ?thesis using False s by (auto simp: u terminal_def split: option.split)
  qed
qed simp

lemma finish_loop_writes:
  assumes "running \<in> {Waiting_kernel, Downloading_output}" and "\<And>j. neutral (values j)" and "open_env H env"
  shows "any_inv (H, db) \<Longrightarrow> any_write\<^sup>*\<^sup>* (H, db) (H, snd (finish_loop loads env now jid running values n db))"
proof (induction n arbitrary: db)
  case (Suc n)
  show ?case
  proof (cases "get_job db jid")
    case (Some current)
    show ?thesis
    proof (cases "terminal (status current)")
      case False
      let ?ks = "if kernel_report (values current) = None then None else Some (kernel_status current)"
      obtain db' ok where u: "update_job_if_status (env n db) now jid {status current} False ?ks
          (finish_values running current (values current)) = (db', ok)" by fastforce
      have "any_write (H, env n db) (H, db')"
        using read_visible [OF Suc.prems Some] hidden_finish [OF _ assms(2) [of current], where db = "env n db" and H = H and jid = jid and now = now
            and current = current and ks = ?ks and running = running]
          guarded_write [OF by_finish [OF _ False assms(1) assms(2) [of current], of "env n db" now jid ?ks]] by (auto simp: u)
      then have s: "any_write\<^sup>*\<^sup>* (H, db) (H, db')" by (rule env_then [OF assms(3)])
      then have "any_write\<^sup>*\<^sup>* (H, db) (H, snd (finish_loop loads env now jid running values n db'))"
        using Suc.IH [OF writers.steps_inv [OF s Suc.prems]] by (rule rtranclp_trans)
      with Some False s show ?thesis
        by (cases "kernel_report (values current)") (use u in \<open>auto simp: Let_def split: option.splits bool.splits\<close>)
    qed (simp add: Some)
  qed simp
qed simp

lemma apply_progress_writes:
  assumes "any_inv (H, db)" and "open_env H env"
  shows "any_write\<^sup>*\<^sup>* (H, db) (H, snd (apply_progress_callback loads dumps dumps_sorted known env now j payload db))"
proof -
  have log: "any_write\<^sup>*\<^sup>* (H, db) (H, if c then append_log db now k m else db)" for c k m
    using guarded_write [OF by_log] by auto
  have inv: "any_inv (H, if c then append_log db now k m else db)" for c k m
    using writers.steps_inv [OF log assms(1)] .
  have det: "any_write\<^sup>*\<^sup>* (H, db) (H, if b then record_stop_details loads dumps dumps_sorted r
      (if c then append_log db now k m else db) now k x e else (if c then append_log db now k m else db))" for b c k m r x e
    using log [of c k m] guarded_write [OF by_details] by (auto intro: rtranclp.rtrancl_into_rtrancl)
  show ?thesis
    unfolding apply_progress_callback_def Let_def
    using rtranclp_trans [OF log callback_loop_writes [OF inv assms(2)]] det by auto
qed

text \<open>Among guarded writers the loop of the worker is made of guarded writes.\<close>

lemma finish_loop_steps:
  assumes "running \<in> {Waiting_kernel, Downloading_output}" and "\<And>j. neutral (values j)" and "fair_env env" and "lifecycle_inv db"
  shows "write_step\<^sup>*\<^sup>* db (snd (finish_loop loads env now jid running values n db))"
  by (rule only_guarded_writes, rule finish_loop_writes [OF assms(1,2) fair_open [OF assms(3)] any_inv_guarded [OF assms(4)]])

lemma mark_worker_steps: "write_step\<^sup>*\<^sup>* db (mark_worker_exception dumps known now jid e db)"
proof (cases e)
  case (Kernel_status_unavailable m)
  let ?m = "''kernel_status_unknown: '' @ redact_secrets known m"
  have u: "write_step db (update_job db now jid [Set_error ?m])" by (rule by_update) simp
  have l: "write_step x (append_log x now jid ?m)" for x by (rule by_log)
  have "write_step\<^sup>*\<^sup>* db (append_log (update_job db now jid [Set_error ?m]) now jid ?m)"
    "write_step\<^sup>*\<^sup>* db (append_log db now jid ?m)"
    using u l by (meson converse_rtranclp_into_rtranclp r_into_rtranclp)+
  then show ?thesis
    by (simp only: mark_worker_exception_def Kernel_status_unavailable worker_error.case Let_def)
      (cases "get_job db jid"; simp)
next
  case (Other_error m)
  let ?m = "redact_secrets known m"
  let ?db = "append_log db now jid (''worker action failed: '' @ ?m)"
  have l: "write_step db ?db" by (rule by_log)
  have f: "write_step ?db db'" if "finalize_job dumps ?db now jid Failed [Set_progress 0, Set_error ?m] = Inr (db', st)" for db' st
    by (rule by_finalize [OF _ that]) simp
  have "write_step\<^sup>*\<^sup>* db (case finalize_job dumps ?db now jid Failed [Set_progress 0, Set_error ?m] of
      Inr (db', _) \<Rightarrow> db' | Inl _ \<Rightarrow> ?db)"
    using l f by (cases "finalize_job dumps ?db now jid Failed [Set_progress 0, Set_error ?m]")
      (auto intro: converse_rtranclp_into_rtranclp split: prod.splits)
  with l show ?thesis
    by (simp only: mark_worker_exception_def Other_error worker_error.case Let_def)
      (cases "get_job ?db jid"; auto intro: r_into_rtranclp simp del: append.simps)
qed

lemma submission_steps:
  assumes "\<not> terminal s" and "s \<noteq> Cancel_requested" and "\<forall>x \<in> expected. \<not> terminal x"
  shows "write_step\<^sup>*\<^sup>* db (snd (transition_before_submission now jid expected s p j db))"
proof -
  have "snd (transition_before_submission now jid expected s p j db)
      = fst (update_job_if_status db now jid expected True None [Set_status s, Set_progress p])"
    by (simp add: transition_before_submission_def Let_def split: prod.split)
  with by_submission [OF assms, of "[Set_progress p]" db now jid] show ?thesis by auto
qed

lemma cancel_loop_effect:
  assumes "fair_env env"
  shows "lifecycle_inv db \<Longrightarrow> get_job db jid = Some j \<Longrightarrow> cancel_loop env now jid n j db = (Inr (), db') \<Longrightarrow>
    \<exists>j'. get_job db' jid = Some j' \<and> status j' \<in> {Cancel_requested, Canceled}"
proof (induction n arbitrary: j db)
  case (Suc n)
  show ?case
  proof (cases "status j \<in> {Complete, Failed, Cancel_requested, Canceled}")
    case True
    with Suc.prems show ?thesis by (auto split: if_splits)
  next
    case False
    obtain d ok where u: "update_job_if_status (env n db) now jid {status j} False None (cancel_values now (status j)) = (d, ok)"
      by fastforce
    have e: "write_step\<^sup>*\<^sup>* db (env n db)" using assms by (simp add: fair_env_def)
    have inv: "lifecycle_inv (env n db)" by (rule lifecycle.steps_inv [OF e Suc.prems(1)])
    have s: "write_step (env n db) d"
      using by_cancel [of j "env n db" now jid] False by (simp add: u terminal_def)
    show ?thesis
    proof (cases ok)
      case True
      with False Suc.prems(3) have db': "db' = append_log d now jid ''cancel requested''" by (simp add: u)
      obtain r where "get_job (env n db) jid = Some r" "status_guard {status j} False None r"
        using inv True update_job_if_status_ok [of "env n db" now jid "{status j}" False None "cancel_values now (status j)"]
        by (auto simp: u lifecycle_inv_def)
      then have "get_job d jid = Some (apply_values (prepare_values now (cancel_values now (status j))) r)"
        using get_update_job_if_status [of "env n db" now jid "{status j}" False None "cancel_values now (status j)" jid]
        by (simp add: u)
      with db' cancel_row [of now "status j" r] show ?thesis by simp
    next
      case no: False
      obtain j2 where "get_job d jid = Some j2" "cancel_loop env now jid n j2 d = (Inr (), db')"
        using Suc.prems(3) False no by (auto simp: u split: option.splits)
      with Suc.IH [OF lifecycle.step_inv [OF s inv]] show ?thesis by blast
    qed
  qed
qed simp

section \<open>Properties\<close>

text \<open>
  C15: A cancellation that is answered takes effect: the job is then waiting for its cancellation or
  canceled, whatever the other threads wrote meanwhile. Undisturbed, the request of a job that has not
  ended is answered at once.
\<close>

theorem answered_cancel_takes_effect:
  assumes "lifecycle_inv db" and "get_job db (job_id j) = Some j"
  shows "(fair_env env \<longrightarrow> request_job_cancel env now j db = (Inr (), db') \<longrightarrow>
      (\<exists>j'. get_job db' (job_id j) = Some j' \<and> status j' \<in> {Cancel_requested, Canceled}))
    \<and> (status j \<notin> {Complete, Failed} \<longrightarrow> fst (request_job_cancel (\<lambda>_ x. x) now j db) = Inr ())"
proof (intro conjI)
  show "fair_env env \<longrightarrow> request_job_cancel env now j db = (Inr (), db') \<longrightarrow>
      (\<exists>j'. get_job db' (job_id j) = Some j' \<and> status j' \<in> {Cancel_requested, Canceled})"
    using cancel_loop_effect [OF _ assms] by (auto simp: request_job_cancel_def)
  have ok: "snd (update_job_if_status db now (job_id j) {status j} False None (cancel_values now (status j)))"
    using assms by (simp add: update_job_if_status_ok lifecycle_inv_def status_guard_def)
  have five: "cancel_loop env now jid 5 j db = cancel_loop env now jid (Suc 4) j db" for env jid
    by (simp add: numeral_eq_Suc)
  show "status j \<notin> {Complete, Failed} \<longrightarrow> fst (request_job_cancel (\<lambda>_ x. x) now j db) = Inr ()"
    unfolding request_job_cancel_def five cancel_loop.simps(2) using ok by (auto simp: case_prod_beta)
qed

lemma answered_cancel_takes_effect_witness:
  "fst (request_job_cancel (\<lambda>_ x. x) 7 (sample_job\<lparr>status := Waiting_kernel\<rparr>) (sample_db [sample_job\<lparr>status := Waiting_kernel\<rparr>])) = Inr ()"
proof -
  have "lifecycle_inv (sample_db [sample_job\<lparr>status := Waiting_kernel\<rparr>])"
    by (auto simp: lifecycle_inv_def jobs_keyed_def cancel_visible_def)
  from answered_cancel_takes_effect [OF this, of "sample_job\<lparr>status := Waiting_kernel\<rparr>" "\<lambda>_ x. x" 7]
  show ?thesis by simp
qed

text \<open>
  What the write that looks at nothing does to a cancellation that arrives after the worker read the row: the
  request is recorded, but no longer visible in the status.
\<close>

lemma retained_write_hides_cancel:
  assumes "get_job db jid = Some j" and "status j = Cancel_requested" and "cancel_requested_at j \<noteq> None"
  shows "\<exists>j'. get_job (retain_candidate now jid m db) jid = Some j' \<and> status j' = Waiting_dataset
    \<and> cancel_requested_at j' \<noteq> None \<and> \<not> cancel_visible j'"
  using assms status_row [of "[Set_error m]" now Waiting_dataset j]
  by (auto simp: retain_candidate_def get_update_job cancel_visible_def terminal_def)

text \<open>
  C1: A requested cancellation is never lost. Whatever callbacks, cancellations, worker transitions,
  scheduler writes, restarts and finalisations interleave, each computed from a row read earlier, a job with a
  cancellation request keeps the request, and the worker's test for it answers yes; the job waits for its
  cancellation or has ended, and a job that has ended keeps its outcome. The last two hold for every job whose
  unverified candidate was not kept by the unguarded write, which is one of the writers: \<open>H\<close> are the jobs for
  which it was.
\<close>

theorem cancellation_never_lost:
  assumes "lifecycle_inv db" and "any_write\<^sup>*\<^sup>* ({}, db) (H, db')" and "get_job db k = Some j"
  shows "\<exists>j'. get_job db' k = Some j'
    \<and> (cancel_requested_at j \<noteq> None \<longrightarrow> cancel_requested_at j' \<noteq> None \<and> job_cancel_requested j')
    \<and> (k \<notin> H \<longrightarrow>
        (cancel_requested_at j \<noteq> None \<longrightarrow> status j' = Cancel_requested \<or> terminal (status j'))
      \<and> (terminal (status j) \<longrightarrow> status j' = status j))"
proof -
  have "kept_rows H db db'" using any_writes_rows [OF assms(2)] assms(1) by (simp add: lifecycle_inv_def)
  from kept_rows_row [OF this assms(3)]
  obtain j' where "get_job db' k = Some j'" "hidden_move (k \<in> H) j j'" by blast
  moreover have "cancel_visible j" using assms(1,3) by (simp add: lifecycle_inv_def)
  ultimately show ?thesis by (auto simp: hidden_move_def row_step_def cancel_visible_def job_cancel_requested_def)
qed

definition running_job :: job where
  "running_job = sample_job\<lparr>status := Waiting_kernel\<rparr>"

lemma running_inv: "lifecycle_inv (sample_db [running_job])"
  by (auto simp: lifecycle_inv_def jobs_keyed_def running_job_def cancel_visible_def)

text \<open>A cancellation that races with a callback computed from the row before it.\<close>

definition raced_db :: relay_db where
  "raced_db = fst (update_job_if_status (fst (update_job_if_status (sample_db [running_job]) 5 ''j'' {Waiting_kernel} False None
     (cancel_values 5 Waiting_kernel))) 6 ''j'' {Waiting_kernel} False (Some (Raw [])) (callback_values running_job [] ''m''))"

lemma raced_steps: "write_step\<^sup>*\<^sup>* (fst (update_job_if_status (sample_db [running_job]) 5 ''j'' {Waiting_kernel} False None
     (cancel_values 5 Waiting_kernel))) raced_db"
proof -
  have r: "cancel_visible running_job" "status running_job = Waiting_kernel" "kernel_status running_job = Raw []"
    by (simp_all add: running_job_def cancel_visible_def sample_job_def new_job_def)
  show ?thesis
    unfolding raced_db_def using by_callback [OF r(1)] by (auto simp: r(2,3) intro: r_into_rtranclp)
qed

lemma cancellation_never_lost_witness:
  "\<exists>j'. get_job raced_db ''j'' = Some j' \<and> job_cancel_requested j' \<and> status j' \<noteq> Waiting_kernel"
proof -
  let ?db = "fst (update_job_if_status (sample_db [running_job]) 5 ''j'' {Waiting_kernel} False None (cancel_values 5 Waiting_kernel))"
  have "write_step (sample_db [running_job]) ?db"
    using by_cancel [of running_job "sample_db [running_job]" 5 "''j''"] by (simp add: running_job_def)
  from lifecycle.step_inv [OF this running_inv] have inv: "lifecycle_inv ?db" .
  obtain j where j: "get_job ?db ''j'' = Some j" "cancel_requested_at j \<noteq> None"
    by (simp add: get_update_job_if_status running_job_def status_guard_def cancel_row)
  from cancellation_never_lost [OF inv guarded_writes [OF raced_steps] j(1)] j(2) show ?thesis
    by (auto simp: terminal_def)
qed


lemma quiet_fair: "fair_env (\<lambda>_ x. x)"
  by (simp add: fair_env_def)


end
