(* ===== verification/Worker_Queue.thy ===== *)
theory Worker_Queue
  imports Scheduler Job_Lifecycle
begin

text \<open>
  The pool of workers (\<^verbatim>\<open>worker_loop\<close> of \<^verbatim>\<open>app/main.py\<close>): which items of the queue are started, how the slots
  of a remote account are counted, and how items wait for a slot and are woken. Between two items a worker
  runs one operation in a thread; what it and every other handler do to the database and the queue in the
  meantime is a step of its own that may change both in any way. \<open>running_items\<close> holds the local variables of
  the workers that are inside their \<^verbatim>\<open>try\<close> block: the item and the account it was started on.
\<close>

section \<open>The state of the pool\<close>

record pool =
  pool_app :: app_state
  active_ids :: "string list"
  active_accounts :: "nat dict"
  account_pending :: "work dict dict"
  running_items :: "(work \<times> string) list"

definition new_pool :: "app_state \<Rightarrow> pool" where
  "new_pool a = \<lparr>pool_app = a, active_ids = [], active_accounts = [], account_pending = [], running_items = []\<rparr>"

definition queue_item_expected_statuses :: "work \<Rightarrow> job_status set" where
  "queue_item_expected_statuses item =
     (case work_action item of
        Resume_kernel _ \<Rightarrow> {Pushing_kernel, Waiting_kernel, Downloading_output, Cancel_requested}
      | _ \<Rightarrow> {Queued})"

definition is_resume :: "work \<Rightarrow> bool" where
  "is_resume item = (case work_action item of Resume_kernel _ \<Rightarrow> True | _ \<Rightarrow> False)"

definition pool_db :: "pool \<Rightarrow> relay_db" where
  "pool_db p = app_db (pool_app p)"

definition set_reason :: "time \<Rightarrow> string \<Rightarrow> string \<Rightarrow> pool \<Rightarrow> pool" where
  "set_reason now jid reason p =
     p\<lparr>pool_app := (pool_app p)\<lparr>app_db := update_job (pool_db p) now jid [Set_queue_reason reason]\<rparr>\<rparr>"

section \<open>A worker takes an item\<close>

definition waiting_on :: "string \<Rightarrow> pool \<Rightarrow> work dict" where
  "waiting_on account p = (case map_of (account_pending p) account of None \<Rightarrow> [] | Some d \<Rightarrow> d)"

definition park :: "time \<Rightarrow> string \<Rightarrow> work \<Rightarrow> pool \<Rightarrow> pool" where
  "park now account item p =
     set_reason now (work_job item) ''waiting for an available Kaggle account slot''
       (p\<lparr>account_pending := AList.update account (AList.update (work_job item) item (waiting_on account p)) (account_pending p)\<rparr>)"

definition start_item :: "time \<Rightarrow> string \<Rightarrow> work \<Rightarrow> pool \<Rightarrow> pool" where
  "start_item now account item p =
     set_reason now (work_job item) []
       (p\<lparr>active_ids := List.insert (work_job item) (active_ids p),
          active_accounts := dict_incr account (active_accounts p),
          running_items := (item, account) # running_items p\<rparr>)"

definition treat_item :: "settings \<Rightarrow> time \<Rightarrow> work \<Rightarrow> pool \<Rightarrow> pool" where
  "treat_item cfg now item p =
     (case get_job (pool_db p) (work_job item) of
        None \<Rightarrow> p
      | Some j \<Rightarrow>
          if status j \<notin> queue_item_expected_statuses item then p
          else if work_job item \<in> set (active_ids p) then p
          else if awaiting_assignment j then p
          else
            let account = account_key (app_auth (pool_app p)) (kaggle_key_id j) in
            if \<not> is_resume item \<and> account_concurrency cfg \<le> dict_count (active_accounts p) account
            then park now account item p
            else start_item now account item p)"

definition take_item :: "settings \<Rightarrow> time \<Rightarrow> pool \<Rightarrow> pool" where
  "take_item cfg now p =
     (case work_queue (pool_app p) of
        [] \<Rightarrow> p
      | item # rest \<Rightarrow> treat_item cfg now item (p\<lparr>pool_app := (pool_app p)\<lparr>work_queue := rest\<rparr>\<rparr>))"

section \<open>A worker is done with an item\<close>

definition mark_failure ::
  "(json \<Rightarrow> string) \<Rightarrow> string list \<Rightarrow> time \<Rightarrow> string \<Rightarrow> worker_error option \<Rightarrow> pool \<Rightarrow> pool" where
  "mark_failure dumps known now jid err p =
     (case err of
        None \<Rightarrow> p
      | Some e \<Rightarrow> p\<lparr>pool_app := (pool_app p)\<lparr>app_db := mark_worker_exception dumps known now jid e (pool_db p)\<rparr>\<rparr>)"

definition release_account :: "work \<Rightarrow> string \<Rightarrow> pool \<Rightarrow> pool" where
  "release_account item account p =
     p\<lparr>active_ids := removeAll (work_job item) (active_ids p),
       active_accounts := dict_decr account (active_accounts p),
       account_pending := AList.delete account (account_pending p),
       pool_app := (pool_app p)\<lparr>work_queue := work_queue (pool_app p) @ map snd (waiting_on account p)\<rparr>,
       running_items := remove1 (item, account) (running_items p)\<rparr>"

definition finish_item ::
  "(json \<Rightarrow> string) \<Rightarrow> string list \<Rightarrow> time \<Rightarrow> worker_error option \<Rightarrow> work \<times> string \<Rightarrow> pool \<Rightarrow> pool" where
  "finish_item dumps known now err r p =
     release_account (fst r) (snd r) (mark_failure dumps known now (work_job (fst r)) err p)"

section \<open>Steps\<close>

inductive pool_step :: "settings \<Rightarrow> pool \<Rightarrow> pool \<Rightarrow> bool" for cfg where
  taking: "pool_step cfg p (take_item cfg now p)"
| finishing: "r \<in> set (running_items p) \<Longrightarrow> pool_step cfg p (finish_item dumps known now err r p)"
| elsewhere: "pool_step cfg p (p\<lparr>pool_app := a\<rparr>)"

text \<open>
  The invariant: no job is run twice at a time, the counters count the running items of each account,
  items that are not resumed remote runs respect the concurrency, and whatever waits for an account
  waits for a running item of it.
\<close>

definition started_on :: "string \<Rightarrow> pool \<Rightarrow> work list" where
  "started_on account p = map fst (filter (\<lambda>r. snd r = account \<and> \<not> is_resume (fst r)) (running_items p))"

definition pool_inv :: "settings \<Rightarrow> pool \<Rightarrow> bool" where
  "pool_inv cfg p \<longleftrightarrow>
     distinct (map (work_job \<circ> fst) (running_items p))
     \<and> set (active_ids p) = (work_job \<circ> fst) ` set (running_items p)
     \<and> counters.holds (active_accounts p) (running_items p) snd
     \<and> (\<forall>a. length (started_on a p) \<le> account_concurrency cfg)
     \<and> (\<forall>a. waiting_on a p \<noteq> [] \<longrightarrow> 0 < dict_count (active_accounts p) a)"

lemma set_reason_simps [simp]:
  "active_ids (set_reason now jid m p) = active_ids p" "active_accounts (set_reason now jid m p) = active_accounts p"
  "account_pending (set_reason now jid m p) = account_pending p" "running_items (set_reason now jid m p) = running_items p"
  "work_queue (pool_app (set_reason now jid m p)) = work_queue (pool_app p)"
  "waiting_on a (set_reason now jid m p) = waiting_on a p"
  by (simp_all add: set_reason_def waiting_on_def)

lemma mark_failure_simps [simp]:
  "active_ids (mark_failure dumps known now jid e p) = active_ids p"
  "active_accounts (mark_failure dumps known now jid e p) = active_accounts p"
  "account_pending (mark_failure dumps known now jid e p) = account_pending p"
  "running_items (mark_failure dumps known now jid e p) = running_items p"
  "work_queue (pool_app (mark_failure dumps known now jid e p)) = work_queue (pool_app p)"
  "waiting_on a (mark_failure dumps known now jid e p) = waiting_on a p"
  by (simp_all add: mark_failure_def waiting_on_def split: option.split)

lemma pool_inv_cong:
  assumes "active_ids q = active_ids p" "active_accounts q = active_accounts p" "account_pending q = account_pending p"
    "running_items q = running_items p"
  shows "pool_inv cfg q = pool_inv cfg p"
  using assms by (simp add: pool_inv_def started_on_def waiting_on_def)

lemma pool_inv_elsewhere [simp]: "pool_inv cfg (p\<lparr>pool_app := a\<rparr>) = pool_inv cfg p"
  by (rule pool_inv_cong) simp_all

lemma pool_inv_reason [simp]: "pool_inv cfg (set_reason now jid m p) = pool_inv cfg p"
  by (rule pool_inv_cong) simp_all

lemma pool_inv_mark [simp]: "pool_inv cfg (mark_failure dumps known now jid e p) = pool_inv cfg p"
  by (rule pool_inv_cong) simp_all

lemma started_le_count:
  "pool_inv cfg p \<Longrightarrow> length (started_on a p) \<le> dict_count (active_accounts p) a"
proof -
  assume "pool_inv cfg p"
  then have "dict_count (active_accounts p) a = length (filter (\<lambda>r. snd r = a) (running_items p))"
    by (simp add: pool_inv_def counters.holds_def)
  moreover have "length (filter (\<lambda>r. snd r = a \<and> \<not> is_resume (fst r)) rs) \<le> length (filter (\<lambda>r. snd r = a) rs)" for rs
    by (induction rs) auto
  ultimately show ?thesis by (simp add: started_on_def)
qed

lemma pool_inv_park:
  assumes "pool_inv cfg p" and "0 < dict_count (active_accounts p) account"
  shows "pool_inv cfg (park now account item p)"
  using assms by (auto simp: park_def pool_inv_def started_on_def waiting_on_def update_conv')

lemma pool_inv_start:
  assumes "pool_inv cfg p" and "work_job item \<notin> set (active_ids p)"
    and "is_resume item \<or> dict_count (active_accounts p) account < account_concurrency cfg"
  shows "pool_inv cfg (start_item now account item p)"
proof -
  let ?q = "p\<lparr>active_ids := List.insert (work_job item) (active_ids p),
          active_accounts := dict_incr account (active_accounts p), running_items := (item, account) # running_items p\<rparr>"
  have h: "counters.holds (dict_incr account (active_accounts p)) ((item, account) # running_items p) snd"
    using counters.holds_acquire [of "active_accounts p" "running_items p" snd "(item, account)"] assms(1)
    by (simp add: pool_inv_def)
  have s: "length (started_on a ?q) \<le> account_concurrency cfg" for a
    using started_le_count [OF assms(1), of a] assms(1,3) by (auto simp: started_on_def pool_inv_def)
  have w: "waiting_on a ?q = waiting_on a p" for a by (simp add: waiting_on_def)
  have "pool_inv cfg ?q"
    using assms(1,2) h s unfolding pool_inv_def w by (auto simp: dict_count_incr)
  then show ?thesis by (simp add: start_item_def)
qed

lemma pool_inv_release:
  assumes "pool_inv cfg p" and "r \<in> set (running_items p)"
  shows "pool_inv cfg (release_account (fst r) (snd r) p)"
proof -
  let ?q = "release_account (fst r) (snd r) p"
  have d: "distinct (map (work_job \<circ> fst) (running_items p))" using assms(1) by (simp add: pool_inv_def)
  then have dr: "distinct (running_items p)" by (simp add: distinct_map)
  have other: "work_job (fst x) \<noteq> work_job (fst r)" if "x \<in> set (remove1 r (running_items p))" for x
    using that d assms(2) dr by (auto simp: distinct_map inj_on_def)
  have "counters.holds (active_accounts ?q) (running_items ?q) snd"
    using counters.holds_release [of "active_accounts p" "running_items p" snd r] assms
    by (simp add: pool_inv_def release_account_def)
  moreover have "set (active_ids ?q) = (work_job \<circ> fst) ` set (running_items ?q)"
    using assms other dr by (auto simp: release_account_def pool_inv_def)
  moreover have "distinct (map (work_job \<circ> fst) (running_items ?q))"
    using d by (simp add: release_account_def distinct_map inj_on_def dr)
  moreover have "length (started_on a ?q) \<le> account_concurrency cfg" for a
  proof -
    have "length (filter P (remove1 r rs)) \<le> length (filter P rs)" for P rs
      by (induction rs) auto
    then have "length (started_on a ?q) \<le> length (started_on a p)"
      by (simp add: started_on_def release_account_def)
    also have "\<dots> \<le> account_concurrency cfg" using assms(1) by (simp add: pool_inv_def)
    finally show ?thesis .
  qed
  moreover have "0 < dict_count (active_accounts ?q) a" if "waiting_on a ?q \<noteq> []" for a
    using that assms(1) by (auto simp: release_account_def waiting_on_def pool_inv_def dict_count_decr delete_conv' split: if_splits)
  ultimately show ?thesis by (simp add: pool_inv_def)
qed

lemma pool_inv_treat:
  assumes "pool_inv cfg p" and "0 < account_concurrency cfg"
  shows "pool_inv cfg (treat_item cfg now item p)"
  using assms pool_inv_park [OF assms(1)] pool_inv_start [OF assms(1)]
  by (auto simp: treat_item_def Let_def not_le split: option.split)

lemma pool_inv_step:
  assumes "pool_step cfg p q" and "pool_inv cfg p" and "0 < account_concurrency cfg"
  shows "pool_inv cfg q"
  using assms(1)
proof cases
  case (taking now)
  then show ?thesis using assms(2,3) pool_inv_treat by (auto simp: take_item_def split: list.split)
next
  case (finishing r dumps known now err)
  then show ?thesis using assms(2) by (auto simp: finish_item_def intro!: pool_inv_release)
next
  case (elsewhere a)
  then show ?thesis using assms(2) by simp
qed


lemma pool_inv_new: "pool_inv cfg (new_pool a)"
  by (simp add: pool_inv_def new_pool_def started_on_def waiting_on_def counters.holds_def dict_count_def)

interpretation worker_pool: transition_system "\<lambda>p. \<exists>a. p = new_pool a" "pool_step cfg"
  "\<lambda>p. 0 < account_concurrency cfg \<longrightarrow> pool_inv cfg p" for cfg
  by unfold_locales (auto simp: pool_inv_new intro: pool_inv_step)

section \<open>Properties\<close>

text \<open>
  C17: In every state the pool of workers can reach, no job is run by two workers at once, the counter of
  every account is the number of items running on it, and at most the configured number of them were
  started anew; only resumed remote runs, which occupy their slot at Kaggle already, may exceed it.
\<close>

theorem pool_respects_slots:
  assumes "0 < account_concurrency cfg" and "(pool_step cfg)\<^sup>*\<^sup>* (new_pool a) p"
  shows "distinct (map (work_job \<circ> fst) (running_items p))
    \<and> set (active_ids p) = (work_job \<circ> fst) ` set (running_items p)
    \<and> (\<forall>k. dict_count (active_accounts p) k = length (filter (\<lambda>r. snd r = k) (running_items p)))
    \<and> (\<forall>k. length (filter (\<lambda>r. snd r = k \<and> \<not> is_resume (fst r)) (running_items p)) \<le> account_concurrency cfg)"
proof -
  have "pool_inv cfg p" using worker_pool.run_inv [OF _ assms(2)] assms(1) by blast
  then show ?thesis by (simp add: pool_inv_def counters.holds_def started_on_def)
qed

definition sample_pool :: pool where
  "sample_pool = new_pool \<lparr>app_db = sample_db [sample_job\<lparr>status := Queued\<rparr>], app_auth = sample_store,
     work_queue = [\<lparr>work_action = Process, work_job = ''j''\<rparr>]\<rparr>"

lemma sample_taken:
  "map (work_job \<circ> fst) (running_items (take_item sample_settings 5 sample_pool)) = [''j'']"
  "account_concurrency sample_settings = 1"
  by (simp_all add: take_item_def treat_item_def sample_pool_def new_pool_def pool_db_def start_item_def
      queue_item_expected_statuses_def dict_count_def sample_settings_def awaiting_assignment_def Let_def)

lemma pool_respects_slots_witness:
  "(pool_step sample_settings)\<^sup>*\<^sup>* sample_pool (take_item sample_settings 5 sample_pool)
   \<and> set (active_ids (take_item sample_settings 5 sample_pool)) = {''j''}"
proof -
  have s: "(pool_step sample_settings)\<^sup>*\<^sup>* sample_pool (take_item sample_settings 5 sample_pool)"
    by (rule r_into_rtranclp) (rule taking)
  have "set (active_ids (take_item sample_settings 5 sample_pool))
      = set (map (work_job \<circ> fst) (running_items (take_item sample_settings 5 sample_pool)))"
    using pool_respects_slots [OF _ s [unfolded sample_pool_def]] sample_taken(2) by (simp add: sample_pool_def)
  with s sample_taken(1) show ?thesis by simp
qed

text \<open>
  C19: An item that waits for a slot of its account is not forgotten: some item is running on that
  account, and whichever of them finishes, and however it ends, puts every item that waits for the account
  back into the queue.
\<close>

theorem parked_items_wake:
  assumes "0 < account_concurrency cfg" and "(pool_step cfg)\<^sup>*\<^sup>* (new_pool a) p"
    and "map_of (account_pending p) account = Some d" and "(jid, item) \<in> set d"
  shows "(\<exists>r \<in> set (running_items p). snd r = account)
    \<and> (\<forall>r \<in> set (running_items p). snd r = account \<longrightarrow>
        item \<in> set (work_queue (pool_app (finish_item dumps known now err r p)))
        \<and> map_of (account_pending (finish_item dumps known now err r p)) account = None)"
proof -
  have inv: "pool_inv cfg p" using worker_pool.run_inv [OF _ assms(2)] assms(1) by blast
  have w: "waiting_on account p = d" using assms(3) by (simp add: waiting_on_def)
  with assms(4) have "waiting_on account p \<noteq> []" by auto
  then have "0 < dict_count (active_accounts p) account" using inv by (simp add: pool_inv_def)
  then have "filter (\<lambda>r. snd r = account) (running_items p) \<noteq> []"
    using inv by (auto simp: pool_inv_def counters.holds_def)
  then have "\<exists>r \<in> set (running_items p). snd r = account" by (auto simp: filter_empty_conv)
  moreover have "item \<in> snd ` set d" using assms(4) by force
  ultimately show ?thesis
    by (auto simp: finish_item_def release_account_def w delete_conv')
qed

definition busy_app :: app_state where
  "busy_app = \<lparr>app_db = sample_db [sample_job\<lparr>status := Queued\<rparr>, sample_job\<lparr>job_id := ''i'', status := Queued\<rparr>],
     app_auth = sample_store,
     work_queue = [\<lparr>work_action = Process, work_job = ''j''\<rparr>, \<lparr>work_action = Process, work_job = ''i''\<rparr>]\<rparr>"

definition busy_pool :: pool where
  "busy_pool = take_item sample_settings 6 (take_item sample_settings 5 (new_pool busy_app))"

lemma busy_facts:
  "map_of (account_pending busy_pool) ''user:u'' = Some [(''i'', \<lparr>work_action = Process, work_job = ''i''\<rparr>)]"
  "running_items busy_pool = [(\<lparr>work_action = Process, work_job = ''j''\<rparr>, ''user:u'')]"
  by code_simp+

lemma parked_items_wake_witness:
  "\<lparr>work_action = Process, work_job = ''i''\<rparr> \<in> set (work_queue (pool_app
     (finish_item (\<lambda>_. []) [] 9 None (\<lparr>work_action = Process, work_job = ''j''\<rparr>, ''user:u'') busy_pool)))"
proof -
  have s: "(pool_step sample_settings)\<^sup>*\<^sup>* (new_pool busy_app) busy_pool"
    unfolding busy_pool_def using taking by (meson converse_rtranclp_into_rtranclp rtranclp.rtrancl_refl)
  have "0 < account_concurrency sample_settings" by (simp add: sample_settings_def)
  from parked_items_wake [OF this s busy_facts(1), of "''i''" "\<lparr>work_action = Process, work_job = ''i''\<rparr>" "\<lambda>_. []" "[]" 9 None]
  show ?thesis by (simp add: busy_facts(2))
qed

end
