(* ===== verification/Recovery.thy ===== *)
theory Recovery
  imports Worker_Queue
begin

text \<open>
  What brings interrupted work back. After a restart every unfinished job is looked at once
  (\<^verbatim>\<open>recover_job_after_restart\<close>, \<^verbatim>\<open>recover_incomplete_jobs\<close> of \<^verbatim>\<open>app/main.py\<close>): it goes back to the workers with
  the action its status calls for, stays with the dataset rechecks, or ends. While the relay runs, retained
  dataset versions are rechecked (\<^verbatim>\<open>app/dataset_recovery.py\<close>) with growing delays inside a window of a day.
  Asking Kaggle for a kernel needs the account of the job: \<^verbatim>\<open>recovery_adapter\<close> raises when the configuration
  no longer has it, outside the handler of the errors of the question, so the whole recovery ends with that error.
  Parameters: \<open>probe\<close>, what asking Kaggle with an account for a kernel's status answers (\<^const>\<open>None\<close>: it is
  there, otherwise the error text); \<open>files\<close>, the stored intent of an upload; \<open>assembled\<close>, the error of assembling and
  validating a job's archives, if any; \<open>dir_of\<close>, the directory of a job's dataset.
\<close>

section \<open>Upload intents\<close>

text \<open>\<open>Intent_unreadable\<close>: reading or decoding the file raises, with this text.\<close>

datatype intent_file = Intent_link | Intent_missing | Intent_unreadable string | Intent_text json

definition equals_one :: "json option \<Rightarrow> bool" where
  "equals_one v \<longleftrightarrow> v \<in> {Some (JInt 1), Some (JFloat 1), Some (JBool True)}"

definition intent_state :: "json dict \<Rightarrow> string" where
  "intent_state d = str_field d ''state''"

text \<open>\<^const>\<open>Inl\<close>: the file cannot be read or is not valid.\<close>

definition read_intent :: "intent_file \<Rightarrow> string + json dict option" where
  "read_intent f =
     (case f of
        Intent_link \<Rightarrow> Inl ''upload_intent_invalid''
      | Intent_missing \<Rightarrow> Inr None
      | Intent_unreadable e \<Rightarrow> Inl e
      | Intent_text (JObj d) \<Rightarrow>
          (case map_of d ''version_number'' of
             Some (JInt n) \<Rightarrow>
               if equals_one (map_of d ''schema_version'') \<and> 0 < n
                  \<and> map_of d ''state'' \<in> {Some (JStr ''unknown''), Some (JStr ''accepted''), Some (JStr ''rejected'')}
               then Inr (Some d) else Inl ''upload_intent_invalid''
           | _ \<Rightarrow> Inl ''upload_intent_invalid'')
      | Intent_text _ \<Rightarrow> Inl ''upload_intent_invalid'')"

definition candidate_left :: "json dict option \<Rightarrow> bool" where
  "candidate_left i = (case i of None \<Rightarrow> False | Some d \<Rightarrow> intent_state d \<in> {''unknown'', ''accepted''})"

section \<open>Recovery after a restart\<close>

definition not_found_error :: "string \<Rightarrow> bool" where
  "not_found_error e \<longleftrightarrow> list_ex (\<lambda>m. contains m (lower e)) [''404'', ''not found'', ''no kernel'', ''not exist'']"

definition kernel_was_submitted :: "relay_db \<Rightarrow> job \<Rightarrow> bool" where
  "kernel_was_submitted db j \<longleftrightarrow> 60 \<le> progress j
     \<or> (let text = lower (join [CHR 0x0A] (recent_logs db (job_id j) 500))
        in contains ''kernel version'' text \<and> contains ''successfully pushed'' text)"

definition kernel_submission_may_be_in_flight :: "job \<Rightarrow> bool" where
  "kernel_submission_may_be_in_flight j \<longleftrightarrow> 45 \<le> progress j"

definition fail_recovered_job :: "string list \<Rightarrow> time \<Rightarrow> string \<Rightarrow> string \<Rightarrow> relay_db \<Rightarrow> relay_db" where
  "fail_recovered_job known now jid message db =
     (let clean = redact_secrets known message
      in append_log (update_job db now jid [Set_status Failed, Set_progress 0, Set_error clean]) now jid clean)"

definition work_item :: "action \<Rightarrow> string \<Rightarrow> work option" where
  "work_item act jid = Some \<lparr>work_action = act, work_job = jid\<rparr>"

definition process_action :: "job \<Rightarrow> action" where
  "process_action j = (if dataset_recheck_state j = Checking then Recheck_dataset else Process)"

text \<open>The account \<^verbatim>\<open>recovery_adapter\<close> makes its adapter with, or the \<^verbatim>\<open>AuthSelectionError\<close> it raises.\<close>

definition recovery_adapter :: "auth_store \<Rightarrow> job \<Rightarrow> selection_error + credentials option" where
  "recovery_adapter auth j = credentials_for auth (kaggle_key_id j)"

definition recover_canceled ::
  "string list \<Rightarrow> auth_store \<Rightarrow> (credentials option \<Rightarrow> string \<Rightarrow> string option) \<Rightarrow> time \<Rightarrow> job \<Rightarrow> relay_db \<Rightarrow>
   (selection_error + work option) \<times> relay_db" where
  "recover_canceled known auth probe now j db =
     (let jid = job_id j;
          log = (\<lambda>m db. job_log known now jid m db);
          ended = (\<lambda>db. (Inr None,
            append_log (update_job (log ''restart recovery action: mark canceled before Kaggle kernel submission'' db) now jid
                [Set_status Canceled, Set_error (if cancel_reason j \<noteq> [] then cancel_reason j else ''cancel requested'')])
              now jid ''canceled during restart recovery before Kaggle kernel submission''))
      in
        if kernel_was_submitted db j
        then (Inr (work_item (Resume_kernel (Some Canceled)) jid),
              log ''restart recovery action: resume kernel finish path with canceled final status'' db)
        else if kernel_submission_may_be_in_flight j
        then
          let db = log ''restart recovery action: probe canceled kernel visibility'' db in
          (case recovery_adapter auth j of
             Inl e \<Rightarrow> (Inl e, db)
           | Inr account \<Rightarrow>
               (case probe account (kernel_ref j) of
                  None \<Rightarrow> (Inr (work_item (Resume_kernel (Some Canceled)) jid),
                    log ''restart recovery action: resume visible kernel with canceled final status'' db)
                | Some e \<Rightarrow>
                    if not_found_error e then ended db
                    else (Inr None, fail_recovered_job known now jid
                      (''restart after cancellation could not verify whether the kernel was submitted; ''
                       @ ''inspect Kaggle before resubmitting: '' @ e) db)))
        else ended db)"

definition recover_pushing ::
  "string list \<Rightarrow> auth_store \<Rightarrow> (credentials option \<Rightarrow> string \<Rightarrow> string option) \<Rightarrow> time \<Rightarrow> job \<Rightarrow> relay_db \<Rightarrow>
   (selection_error + work option) \<times> relay_db" where
  "recover_pushing known auth probe now j db =
     (let jid = job_id j; db = job_log known now jid ''restart recovery action: probe kernel visibility'' db in
      case recovery_adapter auth j of
        Inl e \<Rightarrow> (Inl e, db)
      | Inr account \<Rightarrow>
          (case probe account (kernel_ref j) of
             None \<Rightarrow> (Inr (work_item (Resume_kernel None) jid),
               job_log known now jid ''restart recovery action: resume kernel finish path after verified kernel submission'' db)
           | Some e \<Rightarrow> (Inr None, fail_recovered_job known now jid
               (if not_found_error e
                then ''restart during kernel push before submission could be verified; resubmit job''
                else ''restart during kernel push and kernel status could not be verified; resubmit job: '' @ e) db)))"

definition unknown_outcome :: string where
  "unknown_outcome = ''dataset_upload_outcome_unknown:''"

definition keeps_schedule :: "job \<Rightarrow> bool" where
  "keeps_schedule j \<longleftrightarrow> status j = Waiting_dataset \<and> dataset_recheck_state j \<noteq> Checking
     \<and> (dataset_recheck_state j \<noteq> No_recheck \<or> prefix unknown_outcome (error j))"

definition recover_dataset ::
  "string list \<Rightarrow> (job \<Rightarrow> intent_file) \<Rightarrow> time \<Rightarrow> job \<Rightarrow> relay_db \<Rightarrow> work option \<times> relay_db" where
  "recover_dataset known files now j db =
     (let jid = job_id j in
      if keeps_schedule j
      then (None, job_log known now jid ''restart recovery: preserving Dataset automatic recheck schedule'' db)
      else case read_intent (files j) of
          Inl e \<Rightarrow> (None, fail_recovered_job known now jid (''upload intent invalid; original record retained: '' @ e) db)
        | Inr i \<Rightarrow>
            if candidate_left i
            then
              let (db', done) = update_job_if_status
                    (job_log known now jid ''restart recovery: verify original Dataset candidate without reupload'' db)
                    now jid {status j} True None [Set_status Queued, Set_error []]
              in (if done then work_item (process_action j) jid else None, db')
            else (None, fail_recovered_job known now jid
              ''restart during dataset upload/wait lost the exact uploaded version; resubmit job'' db))"

definition recover_assembling ::
  "string list \<Rightarrow> (string \<Rightarrow> string option) \<Rightarrow> time \<Rightarrow> job \<Rightarrow> relay_db \<Rightarrow> work option \<times> relay_db" where
  "recover_assembling known assembled now j db =
     (let jid = job_id j; db = job_log known now jid ''restart recovery action: resume archive assembly then process'' db in
      case assembled jid of
        Some e \<Rightarrow> (None, fail_recovered_job known now jid (redact_secrets known e) db)
      | None \<Rightarrow> (work_item Process jid, update_job db now jid [Set_status Queued, Set_progress 15, Set_error []]))"

definition recover_job_after_restart ::
  "string list \<Rightarrow> auth_store \<Rightarrow> (credentials option \<Rightarrow> string \<Rightarrow> string option) \<Rightarrow> (job \<Rightarrow> intent_file) \<Rightarrow>
   (string \<Rightarrow> string option) \<Rightarrow> time \<Rightarrow> job \<Rightarrow> relay_db \<Rightarrow> (selection_error + work option) \<times> relay_db" where
  "recover_job_after_restart known auth probe files assembled now j db =
     (let jid = job_id j;
          db = job_log known now jid (''recovering job after relay restart from status '' @ status_name (status j)) db
      in case status j of
          Queued \<Rightarrow> (Inr (work_item (process_action j) jid),
            job_log known now jid ''restart recovery action: requeue full process'' db)
        | Waiting_kernel \<Rightarrow> (Inr (work_item (Resume_kernel None) jid),
            job_log known now jid ''restart recovery action: resume kernel finish path'' db)
        | Downloading_output \<Rightarrow> (Inr (work_item (Resume_kernel None) jid),
            job_log known now jid ''restart recovery action: resume kernel finish path'' db)
        | Cancel_requested \<Rightarrow> recover_canceled known auth probe now j db
        | Pushing_kernel \<Rightarrow> recover_pushing known auth probe now j db
        | Uploading_dataset \<Rightarrow> apfst Inr (recover_dataset known files now j db)
        | Waiting_dataset \<Rightarrow> apfst Inr (recover_dataset known files now j db)
        | Assembling \<Rightarrow> apfst Inr (recover_assembling known assembled now j db)
        | _ \<Rightarrow> (Inr None, db))"

text \<open>An account that is gone ends the scan: the error leaves the loop, and with it the items collected so far.\<close>

fun recover_all ::
  "string list \<Rightarrow> auth_store \<Rightarrow> (credentials option \<Rightarrow> string \<Rightarrow> string option) \<Rightarrow> (job \<Rightarrow> intent_file) \<Rightarrow>
   (string \<Rightarrow> string option) \<Rightarrow> time \<Rightarrow> job list \<Rightarrow> relay_db \<Rightarrow> (selection_error + work list) \<times> relay_db" where
  "recover_all known auth probe files assembled now [] db = (Inr [], db)"
| "recover_all known auth probe files assembled now (j # js) db =
     (case recover_job_after_restart known auth probe files assembled now j db of
        (Inl e, db) \<Rightarrow> (Inl e, db)
      | (Inr item, db) \<Rightarrow>
          (case recover_all known auth probe files assembled now js db of
             (Inl e, db) \<Rightarrow> (Inl e, db)
           | (Inr items, db) \<Rightarrow> (Inr (case item of None \<Rightarrow> items | Some i \<Rightarrow> i # items), db)))"

definition is_awaiting :: "relay_db \<Rightarrow> string \<Rightarrow> bool" where
  "is_awaiting db jid = (case get_job db jid of None \<Rightarrow> False | Some j \<Rightarrow> awaiting_assignment j)"

text \<open>The error that leaves \<^verbatim>\<open>recover_incomplete_jobs\<close>, if any: then nothing is put into the queue.\<close>

definition recover_incomplete_jobs ::
  "string list \<Rightarrow> (credentials option \<Rightarrow> string \<Rightarrow> string option) \<Rightarrow> (job \<Rightarrow> intent_file) \<Rightarrow> (string \<Rightarrow> string option) \<Rightarrow>
   time \<Rightarrow> app_state \<Rightarrow> selection_error option \<times> app_state" where
  "recover_incomplete_jobs known probe files assembled now st =
     (case recover_all known (app_auth st) probe files assembled now (list_jobs_by_status (app_db st) running_statuses) (app_db st) of
        (Inl e, db) \<Rightarrow> (Some e, st\<lparr>app_db := db\<rparr>)
      | (Inr items, db) \<Rightarrow> (None, st\<lparr>app_db := db,
           work_queue := work_queue st @ filter (\<lambda>i. \<not> is_awaiting db (work_job i)) (sort_key (\<lambda>i. \<not> is_resume i) items)\<rparr>))"


section \<open>What recovery does to a row\<close>

definition same_core :: "job \<Rightarrow> job \<Rightarrow> bool" where
  "same_core r r' \<longleftrightarrow> status r' = status r \<and> cancel_requested_at r' = cancel_requested_at r \<and> error r' = error r
     \<and> dataset_recheck_state r' = dataset_recheck_state r \<and> awaiting_assignment r' = awaiting_assignment r
     \<and> job_id r' = job_id r"

lemma same_core_refl [simp]: "same_core r r"
  by (simp add: same_core_def)

lemma job_log_row:
  assumes "get_job db jid = Some r"
  shows "\<exists>r'. get_job (job_log known now jid m db) jid = Some r' \<and> same_core r r'"
  using assms
  by (simp add: job_log_def Let_def get_update_job prepare_values_def same_core_def awaiting_assignment_def)

lemma job_log_frame [simp]:
  "jobs_keyed (job_log known now jid m db) = jobs_keyed db"
  "k \<noteq> jid \<Longrightarrow> get_job (job_log known now jid m db) k = get_job db k"
  by (simp_all add: job_log_def Let_def get_update_job)

text \<open>Where recovery may leave a job: ended, back with the workers, or with its recheck schedule.\<close>

definition recovered :: "job \<Rightarrow> work option \<Rightarrow> bool" where
  "recovered r item \<longleftrightarrow> terminal (status r) \<or> keeps_schedule r
     \<or> (\<exists>i. item = Some i \<and> work_job i = job_id r \<and> status r \<in> queue_item_expected_statuses i)"

definition recovery_result :: "relay_db \<Rightarrow> job \<Rightarrow> work option \<times> relay_db \<Rightarrow> bool" where
  "recovery_result db j res \<longleftrightarrow> jobs_keyed (snd res) \<and> (\<forall>k. k \<noteq> job_id j \<longrightarrow> get_job (snd res) k = get_job db k)
     \<and> (\<exists>r. get_job (snd res) (job_id j) = Some r \<and> recovered r (fst res)
          \<and> awaiting_assignment r = awaiting_assignment j
          \<and> (status r \<noteq> Queued \<longrightarrow> status r = status j \<or> terminal (status r)))"

text \<open>The step for one job: it did that, or it needed an account that the configuration does not have.\<close>

definition recovery_answer :: "auth_store \<Rightarrow> relay_db \<Rightarrow> job \<Rightarrow> (selection_error + work option) \<times> relay_db \<Rightarrow> bool" where
  "recovery_answer auth db j res \<longleftrightarrow>
     (case fst res of
        Inl e \<Rightarrow> status j \<in> {Cancel_requested, Pushing_kernel} \<and> recovery_adapter auth j = Inl e
      | Inr item \<Rightarrow> recovery_result db j (item, snd res))"

lemma recovery_answer_simps [simp]:
  "recovery_answer auth db j (Inr item, db') \<longleftrightarrow> recovery_result db j (item, db')"
  "recovery_answer auth db j (Inl e, db') \<longleftrightarrow> status j \<in> {Cancel_requested, Pushing_kernel} \<and> recovery_adapter auth j = Inl e"
  "recovery_answer auth db j (apfst Inr res) \<longleftrightarrow> recovery_result db j res"
  by (cases res; simp add: recovery_answer_def)+

lemma fail_recovered_result:
  assumes "jobs_keyed db" and "get_job db (job_id j) = Some r" and "awaiting_assignment r = awaiting_assignment j"
    and "\<forall>k. k \<noteq> job_id j \<longrightarrow> get_job db k = get_job db0 k"
  shows "recovery_result db0 j (None, fail_recovered_job known now (job_id j) m db)"
  using assms
  by (simp add: recovery_result_def fail_recovered_job_def Let_def get_update_job prepare_values_def terminal_def
      recovered_def awaiting_assignment_def)

lemma logged_result:
  assumes "jobs_keyed db" and "get_job db (job_id j) = Some r" and "same_core j r"
    and "\<forall>k. k \<noteq> job_id j \<longrightarrow> get_job db k = get_job db0 k" and "\<And>r'. same_core j r' \<Longrightarrow> recovered r' item"
  shows "recovery_result db0 j (item, job_log known now (job_id j) m db)"
proof -
  obtain r' where r': "get_job (job_log known now (job_id j) m db) (job_id j) = Some r'" "same_core r r'"
    using job_log_row [OF assms(2)] by blast
  then have "same_core j r'" using assms(3) by (simp add: same_core_def)
  with r' assms show ?thesis by (auto simp: recovery_result_def same_core_def)
qed

text \<open>The setting in which the parts of recovery run: the row has only been logged about.\<close>

definition logged :: "relay_db \<Rightarrow> job \<Rightarrow> relay_db \<Rightarrow> bool" where
  "logged db0 j db \<longleftrightarrow> jobs_keyed db \<and> (\<exists>r. get_job db (job_id j) = Some r \<and> same_core j r)
     \<and> (\<forall>k. k \<noteq> job_id j \<longrightarrow> get_job db k = get_job db0 k)"

lemma logged_log: "logged db0 j db \<Longrightarrow> logged db0 j (job_log known now (job_id j) m db)"
proof -
  assume l: "logged db0 j db"
  then obtain r where r: "get_job db (job_id j) = Some r" "same_core j r" by (auto simp: logged_def)
  from job_log_row [OF r(1), of known now m] r(2) l show ?thesis
    by (auto simp: logged_def same_core_def)
qed

lemma logged_fail: "logged db0 j db \<Longrightarrow> recovery_result db0 j (None, fail_recovered_job known now (job_id j) m db)"
  using fail_recovered_result [of db j _ db0 known now m] by (auto simp: logged_def same_core_def)

lemma logged_keep:
  "logged db0 j db \<Longrightarrow> (\<And>r. same_core j r \<Longrightarrow> recovered r item) \<Longrightarrow> recovery_result db0 j (item, job_log known now (job_id j) m db)"
  using logged_result [of db j _ db0 item known now m] by (auto simp: logged_def)

lemma resumed:
  "same_core j r \<Longrightarrow> status j \<in> {Pushing_kernel, Waiting_kernel, Downloading_output, Cancel_requested} \<Longrightarrow>
   recovered r (work_item (Resume_kernel s) (job_id j))"
  by (auto simp: recovered_def work_item_def same_core_def queue_item_expected_statuses_def)

lemma requeued:
  "status r = Queued \<Longrightarrow> job_id r = jid \<Longrightarrow> recovered r (work_item (process_action j) jid)"
  "status r = Queued \<Longrightarrow> job_id r = jid \<Longrightarrow> recovered r (work_item Process jid)"
  by (simp_all add: recovered_def work_item_def queue_item_expected_statuses_def process_action_def)

lemma recover_canceled_result:
  assumes "logged db0 j db" and "status j = Cancel_requested"
  shows "recovery_answer auth db0 j (recover_canceled known auth probe now j db)"
proof -
  have ended: "recovery_result db0 j (None,
            append_log (update_job (job_log known now (job_id j) m x) now (job_id j)
                [Set_status Canceled, Set_error e]) now (job_id j) n)" if "logged db0 j x" for m x e n
    using logged_log [OF that, of known now m]
    by (auto simp: logged_def recovery_result_def get_update_job prepare_values_def terminal_def recovered_def
        awaiting_assignment_def same_core_def)
  show ?thesis
    unfolding recover_canceled_def Let_def
    using assms by (auto intro!: ended logged_keep resumed logged_fail logged_log split: option.split sum.split)
qed

lemma recover_pushing_result:
  assumes "logged db0 j db" and "status j = Pushing_kernel"
  shows "recovery_answer auth db0 j (recover_pushing known auth probe now j db)"
  unfolding recover_pushing_def Let_def
  using assms by (auto intro!: logged_keep resumed logged_fail logged_log split: option.split sum.split)

lemma recover_dataset_result:
  assumes "logged db0 j db" and "status j \<in> {Uploading_dataset, Waiting_dataset}" and "cancel_requested_at j = None"
  shows "recovery_result db0 j (recover_dataset known files now j db)"
proof (cases "keeps_schedule j")
  case True
  then have "recovered r None" if "same_core j r" for r
    using that by (simp add: recovered_def keeps_schedule_def same_core_def)
  with True logged_keep [OF assms(1)] show ?thesis by (simp add: recover_dataset_def Let_def)
next
  case False
  let ?db = "job_log known now (job_id j) ''restart recovery: verify original Dataset candidate without reupload'' db"
  let ?u = "update_job_if_status ?db now (job_id j) {status j} True None [Set_status Queued, Set_error []]"
  obtain r where r: "get_job ?db (job_id j) = Some r" "same_core j r" and k: "jobs_keyed ?db"
    using logged_log [OF assms(1), of known now "''restart recovery: verify original Dataset candidate without reupload''"]
    unfolding logged_def by blast
  have "snd ?u"
    using k r assms(3) by (simp add: update_job_if_status_ok status_guard_def same_core_def)
  then obtain db' where u: "?u = (db', True)" by (cases ?u) simp
  have get: "get_job db' x = (if x = job_id j
      then map_option (\<lambda>j'. if status_guard {status j} True None j'
         then apply_values (prepare_values now [Set_status Queued, Set_error []]) j' else j') (get_job ?db x)
      else get_job ?db x)" for x
    using get_update_job_if_status [of ?db now "job_id j" "{status j}" True None "[Set_status Queued, Set_error []]" x]
    by (simp add: u)
  have "status_guard {status j} True None r" using r(2) assms(3) by (simp add: status_guard_def same_core_def)
  then have row: "get_job db' (job_id j) = Some (apply_values (prepare_values now [Set_status Queued, Set_error []]) r)"
    using get [of "job_id j"] r(1) by simp
  have others: "get_job db' x = get_job db0 x" if "x \<noteq> job_id j" for x
    using get [of x] that assms(1) by (simp add: logged_def)
  have kd: "jobs_keyed db'"
    using k keyed_update_job_if_status [of ?db now "job_id j" "{status j}" True None "[Set_status Queued, Set_error []]"]
    by (simp add: u)
  have "recovery_result db0 j (work_item (process_action j) (job_id j), db')"
    using row others kd r(2)
    by (auto simp: recovery_result_def prepare_values_def terminal_def same_core_def awaiting_assignment_def
        intro!: requeued)
  with False u show ?thesis
    by (auto simp: recover_dataset_def Let_def intro!: logged_fail assms(1) split: sum.split)
qed

lemma recover_assembling_result:
  assumes "logged db0 j db"
  shows "recovery_result db0 j (recover_assembling known assembled now j db)"
proof -
  have "recovery_result db0 j (work_item Process (job_id j),
      update_job (job_log known now (job_id j) m db) now (job_id j) [Set_status Queued, Set_progress 15, Set_error []])" for m
    using logged_log [OF assms, of known now m]
    by (auto simp: logged_def recovery_result_def get_update_job prepare_values_def terminal_def same_core_def
        awaiting_assignment_def intro!: requeued)
  then show ?thesis
    unfolding recover_assembling_def Let_def
    by (auto intro!: logged_fail logged_log assms split: option.split)
qed


lemma recover_job_result:
  assumes "jobs_keyed db" and "get_job db (job_id j) = Some j" and "cancel_visible j" and "status j \<in> running_statuses"
  shows "recovery_answer auth db j (recover_job_after_restart known auth probe files assembled now j db)"
proof -
  have "logged db j db" using assms(1,2) by (simp add: logged_def)
  note l = logged_log [OF this]
  have nc: "cancel_requested_at j = None" if "status j \<in> {Uploading_dataset, Waiting_dataset}"
    using that assms(3) by (auto simp: cancel_visible_def terminal_def)
  have q: "recovered r (work_item (process_action j) (job_id j))" if "same_core j r" "status j = Queued" for r
    using that by (intro requeued) (simp_all add: same_core_def)
  show ?thesis
    using assms(4) unfolding recover_job_after_restart_def Let_def
    by (auto simp: running_statuses_def intro!: l logged_keep resumed q recover_canceled_result recover_pushing_result
        recover_dataset_result nc recover_assembling_result)
qed

text \<open>All jobs one after the other: each row is recovered by its own step and left alone by the others.\<close>

lemma recover_all_result:
  assumes "jobs_keyed db" and "distinct (map job_id js)"
    and "\<forall>j \<in> set js. get_job db (job_id j) = Some j \<and> cancel_visible j \<and> status j \<in> running_statuses"
    and "recover_all known auth probe files assembled now js db = (Inr items, db')"
  shows "jobs_keyed db' \<and> (\<forall>k. k \<notin> set (map job_id js) \<longrightarrow> get_job db' k = get_job db k)
    \<and> (\<forall>j \<in> set js. \<exists>r item. get_job db' (job_id j) = Some r \<and> recovered r item \<and> set_option item \<subseteq> set items
         \<and> awaiting_assignment r = awaiting_assignment j
         \<and> (status r \<noteq> Queued \<longrightarrow> status r = status j \<or> terminal (status r)))"
  using assms
proof (induction js arbitrary: db items db')
  case (Cons j js)
  from Cons.prems(4) obtain item db1 items2 db2 where
    one: "recover_job_after_restart known auth probe files assembled now j db = (Inr item, db1)"
    and rest: "recover_all known auth probe files assembled now js db1 = (Inr items2, db2)"
    and res: "items = (case item of None \<Rightarrow> items2 | Some i \<Rightarrow> i # items2)" "db' = db2"
    by (auto split: prod.splits sum.splits)
  have r1: "recovery_result db j (item, db1)"
    using recover_job_result [of db j auth known probe files assembled now] Cons.prems one by auto
  have fresh: "job_id j \<notin> set (map job_id js)" using Cons.prems(2) by simp
  have keep: "\<forall>x \<in> set js. get_job db1 (job_id x) = Some x \<and> cancel_visible x \<and> status x \<in> running_statuses"
  proof
    fix x assume x: "x \<in> set js"
    then have "job_id x \<noteq> job_id j" using fresh by (metis image_eqI list.set_map)
    with x Cons.prems(3) r1 show "get_job db1 (job_id x) = Some x \<and> cancel_visible x \<and> status x \<in> running_statuses"
      by (simp add: recovery_result_def)
  qed
  have "jobs_keyed db1" using r1 by (simp add: recovery_result_def)
  from Cons.IH [OF this _ keep rest] Cons.prems(2)
  have ih: "jobs_keyed db2" "\<And>k. k \<notin> set (map job_id js) \<Longrightarrow> get_job db2 k = get_job db1 k"
    and each: "\<And>x. x \<in> set js \<Longrightarrow> \<exists>r item. get_job db2 (job_id x) = Some r \<and> recovered r item \<and> set_option item \<subseteq> set items2
         \<and> awaiting_assignment r = awaiting_assignment x \<and> (status r \<noteq> Queued \<longrightarrow> status r = status x \<or> terminal (status r))"
    by auto
  have sub: "set items2 \<subseteq> set items" "set_option item \<subseteq> set items" by (auto simp: res(1) split: option.splits)
  show ?case
  proof (intro conjI ballI allI impI)
    show "jobs_keyed db'" using ih(1) res(2) by simp
    show "get_job db' k = get_job db k" if "k \<notin> set (map job_id (j # js))" for k
      using that ih(2) r1 res(2) by (simp add: recovery_result_def)
    show "\<exists>r item. get_job db' (job_id x) = Some r \<and> recovered r item \<and> set_option item \<subseteq> set items
         \<and> awaiting_assignment r = awaiting_assignment x \<and> (status r \<noteq> Queued \<longrightarrow> status r = status x \<or> terminal (status r))"
      if x: "x \<in> set (j # js)" for x
    proof (cases "x = j")
      case True
      obtain r where "get_job db1 (job_id j) = Some r" "recovered r item" "awaiting_assignment r = awaiting_assignment j"
        "status r \<noteq> Queued \<longrightarrow> status r = status j \<or> terminal (status r)"
        using r1 by (auto simp: recovery_result_def)
      then show ?thesis using True sub(2) ih(2) [OF fresh] res(2) by (intro exI [of _ r] exI [of _ item]) simp
    next
      case False
      with x each [of x] sub(1) res(2) show ?thesis by (meson order_trans set_ConsD)
    qed
  qed
qed auto

text \<open>The scan ends with an error only for a job that needs an account that is gone, and then always.\<close>

lemma recover_all_raises:
  assumes "jobs_keyed db" and "distinct (map job_id js)"
    and "\<forall>j \<in> set js. get_job db (job_id j) = Some j \<and> cancel_visible j \<and> status j \<in> running_statuses"
    and "recover_all known auth probe files assembled now js db = (Inl e, db')"
  shows "\<exists>j \<in> set js. status j \<in> {Cancel_requested, Pushing_kernel} \<and> recovery_adapter auth j = Inl e"
  using assms
proof (induction js arbitrary: db)
  case (Cons j js)
  have answer: "recovery_answer auth db j (recover_job_after_restart known auth probe files assembled now j db)"
    using recover_job_result Cons.prems(1,3) by simp
  show ?case
  proof (cases "recover_job_after_restart known auth probe files assembled now j db")
    case (Pair res db1)
    show ?thesis
    proof (cases res)
      case (Inl e')
      then show ?thesis using answer Cons.prems(4) Pair by auto
    next
      case (Inr item)
      then have r: "recovery_result db j (item, db1)" using answer Pair by simp
      have "\<forall>x \<in> set js. get_job db1 (job_id x) = Some x \<and> cancel_visible x \<and> status x \<in> running_statuses"
      proof
        fix x assume x: "x \<in> set js"
        then have "job_id x \<noteq> job_id j" using Cons.prems(2) by (metis distinct.simps(2) image_eqI list.set_map list.simps(9))
        with x Cons.prems(3) r show "get_job db1 (job_id x) = Some x \<and> cancel_visible x \<and> status x \<in> running_statuses"
          by (simp add: recovery_result_def)
      qed
      moreover have "recover_all known auth probe files assembled now js db1 = (Inl e, db')"
        using Cons.prems(4) Pair Inr by (auto split: prod.splits sum.splits)
      ultimately show ?thesis using Cons.IH [of db1] r Cons.prems(2) by (auto simp: recovery_result_def)
    qed
  qed
qed simp

lemma recover_pushing_raises:
  "status j = Pushing_kernel \<Longrightarrow> recovery_adapter auth j = Inl e \<Longrightarrow>
   \<exists>db'. recover_job_after_restart known auth probe files assembled now j db = (Inl e, db')"
  by (simp add: recover_job_after_restart_def recover_pushing_def Let_def)

lemma recover_all_stops:
  assumes "j \<in> set js" and "status j = Pushing_kernel" and "recovery_adapter auth j = Inl e"
  shows "isl (fst (recover_all known auth probe files assembled now js db))"
  using assms(1)
proof (induction js arbitrary: db)
  case (Cons a js)
  show ?case
  proof (cases "a = j")
    case True
    with recover_pushing_raises [OF assms(2,3), of known probe files assembled now db] show ?thesis by auto
  next
    case False
    with Cons show ?thesis by (auto split: prod.split sum.split) (metis fst_conv sum.disc(2))
  qed
qed simp

section \<open>Properties of the restart\<close>

text \<open>A dynamic job that has no account yet has not been submitted.\<close>

definition waiting_unsubmitted :: "relay_db \<Rightarrow> bool" where
  "waiting_unsubmitted db \<longleftrightarrow> (\<forall>k j. get_job db k = Some j \<longrightarrow> awaiting_assignment j \<longrightarrow>
     status j \<in> {Receiving, Assembling, Queued} \<or> terminal (status j))"

lemma running_listed:
  assumes "jobs_keyed db"
  shows "distinct (map job_id (list_jobs_by_status db sts))"
    and "j \<in> set (list_jobs_by_status db sts) \<longleftrightarrow> get_job db (job_id j) = Some j \<and> status j \<in> sts"
proof -
  have "distinct (map job_id (filter (\<lambda>j. status j \<in> sts) (jobs db)))"
    using assms by (simp add: jobs_keyed_def distinct_map_filter)
  then show "distinct (map job_id (list_jobs_by_status db sts))"
    unfolding list_jobs_by_status_def by (metis distinct_map distinct_sort set_sort)
  have "j \<in> set (jobs db) \<longleftrightarrow> get_job db (job_id j) = Some j"
  proof
    assume "j \<in> set (jobs db)"
    then obtain x where "get_job db (job_id j) = Some x" by (cases "get_job db (job_id j)") (auto simp: get_job_def find_None_iff)
    moreover from get_job_SomeD [OF this] have "x = j"
      using \<open>j \<in> set (jobs db)\<close> assms by (auto simp: jobs_keyed_def distinct_map inj_on_def)
    ultimately show "get_job db (job_id j) = Some j" by simp
  qed (auto dest: get_job_SomeD)
  then show "j \<in> set (list_jobs_by_status db sts) \<longleftrightarrow> get_job db (job_id j) = Some j \<and> status j \<in> sts"
    by (auto simp: list_jobs_by_status_def)
qed

text \<open>A row that was recovered with an item waits for the workers, or for the scheduler.\<close>

lemma recovered_waits:
  assumes "jobs_keyed db" and "get_job db k = Some r" and "recovered r item" and "set_option item \<subseteq> set items"
    and "status r \<noteq> Queued \<longrightarrow> status r = s \<or> terminal (status r)"
    and "awaiting_assignment r \<Longrightarrow> s \<in> {Receiving, Assembling, Queued} \<or> terminal s"
  shows "terminal (status r) \<or> keeps_schedule r
    \<or> (\<exists>i \<in> set items. \<not> is_awaiting db (work_job i) \<and> work_job i = k \<and> status r \<in> queue_item_expected_statuses i)
    \<or> r \<in> set (pending_jobs db)"
proof (cases "terminal (status r) \<or> keeps_schedule r")
  case False
  have id: "job_id r = k" using get_job_SomeD [OF assms(2)] by simp
  obtain i where i: "item = Some i" "work_job i = k" "status r \<in> queue_item_expected_statuses i"
    using False assms(3) id by (auto simp: recovered_def)
  show ?thesis
  proof (cases "awaiting_assignment r")
    case True
    moreover have "status r \<in> {Queued, Pushing_kernel, Waiting_kernel, Downloading_output, Cancel_requested}"
      using i(3) by (auto simp: queue_item_expected_statuses_def split: action.splits)
    ultimately have "status r = Queued" using assms(5,6) False by (auto simp: terminal_def)
    then show ?thesis
      using True assms(2) id running_listed(2) [OF assms(1), of r "{Queued}"] by (simp add: pending_jobs_def)
  next
    case False
    then have "i \<in> set items \<and> \<not> is_awaiting db (work_job i)" using assms(2,4) i by (simp add: is_awaiting_def)
    with i show ?thesis by blast
  qed
qed blast



end
