(* ===== verification/Verification_State.thy ===== *)
theory Verification_State
  imports Relay_Prelude
begin

text \<open>
  The durable state of dataset verification (\<^verbatim>\<open>app/dataset_verification_state.py\<close>): one checkpoint per
  candidate version, with the files verified so far, and one row per remote account with the time its
  next request may start and the end of its cooldown. Both tables are shared by processes; every
  operation is one transaction and reads the clock once. \<open>scope_of\<close> stands for the hash of a dataset's
  reference and directory. A JSON text that was written with sorted keys is the dictionary sorted by key.
\<close>

section \<open>Tables\<close>

type_synonym file_value = "int \<times> string"

record candidate =
  cand_scope :: string
  cand_binding :: "string \<times> int \<times> string \<times> string"
  cand_expected :: "file_value dict"
  cand_verified :: "file_value dict"
  total_files :: nat
  total_bytes :: int
  verified_files :: nat
  verified_bytes :: int
  finished_flag :: int
  cand_updated :: time

record account_row =
  acct_owner :: string
  next_request_at :: rat
  cooldown_until :: rat

record verification_db =
  candidates :: "candidate list"
  accounts :: "account_row list"

datatype checkpoint_error = Scope_mismatch | Checkpoint_invalid | File_mismatch | Checkpoint_incomplete | No_row

definition byte_sum :: "file_value dict \<Rightarrow> int" where
  "byte_sum d = sum_list (map (fst \<circ> snd) d)"

definition encode_files :: "file_value dict \<Rightarrow> file_value dict" where
  "encode_files d = sort_key fst d"

definition find_candidate :: "verification_db \<Rightarrow> string \<Rightarrow> candidate option" where
  "find_candidate db sc = find (\<lambda>c. cand_scope c = sc) (candidates db)"

definition update_candidate :: "string \<Rightarrow> (candidate \<Rightarrow> candidate) \<Rightarrow> verification_db \<Rightarrow> verification_db" where
  "update_candidate sc f db = db\<lparr>candidates := map (\<lambda>c. if cand_scope c = sc then f c else c) (candidates db)\<rparr>"

section \<open>Checkpoints\<close>

definition new_candidate ::
  "time \<Rightarrow> string \<Rightarrow> string \<times> int \<times> string \<times> string \<Rightarrow> file_value dict \<Rightarrow> candidate" where
  "new_candidate now sc binding expected =
     \<lparr>cand_scope = sc, cand_binding = binding, cand_expected = encode_files expected, cand_verified = [],
      total_files = length expected, total_bytes = byte_sum expected, verified_files = 0, verified_bytes = 0,
      finished_flag = 0, cand_updated = now\<rparr>"

definition checkpoint_valid :: "file_value dict \<Rightarrow> candidate \<Rightarrow> bool" where
  "checkpoint_valid expected c \<longleftrightarrow>
     list_all (\<lambda>(name, v). map_of expected name = Some v) (cand_verified c)
     \<and> verified_files c = length (cand_verified c) \<and> verified_bytes c = byte_sum (cand_verified c)
     \<and> total_files c = length expected \<and> total_bytes c = byte_sum expected
     \<and> finished_flag c \<in> {0, 1} \<and> (finished_flag c \<noteq> 0 \<longrightarrow> length (cand_verified c) = length expected)"

definition load ::
  "(string \<Rightarrow> string \<Rightarrow> string) \<Rightarrow> time \<Rightarrow> string \<Rightarrow> int \<Rightarrow> string \<Rightarrow> string \<Rightarrow> file_value dict \<Rightarrow> verification_db
   \<Rightarrow> (checkpoint_error + string \<times> file_value dict) \<times> verification_db" where
  "load scope_of now dref version dir sha expected db =
     (let sc = scope_of dref dir; binding = (dref, version, dir, sha) in
      case find_candidate db sc of
        None \<Rightarrow> (Inr (sc, []), db\<lparr>candidates := candidates db @ [new_candidate now sc binding expected]\<rparr>)
      | Some c \<Rightarrow>
          (if cand_binding c \<noteq> binding \<or> cand_expected c \<noteq> encode_files expected then Inl Scope_mismatch
           else if \<not> checkpoint_valid expected c then Inl Checkpoint_invalid
           else Inr (sc, cand_verified c), db))"

definition note_file :: "time \<Rightarrow> string \<Rightarrow> file_value \<Rightarrow> candidate \<Rightarrow> candidate" where
  "note_file now name v c =
     (let verified = AList.update name v (cand_verified c)
      in c\<lparr>cand_verified := encode_files verified, verified_files := length verified,
           verified_bytes := byte_sum verified, cand_updated := now\<rparr>)"

definition mark_file ::
  "time \<Rightarrow> string \<Rightarrow> string \<Rightarrow> file_value \<Rightarrow> verification_db \<Rightarrow> (checkpoint_error + unit) \<times> verification_db" where
  "mark_file now sc name v db =
     (case find_candidate db sc of
        None \<Rightarrow> (Inl No_row, db)
      | Some c \<Rightarrow>
          if map_of (cand_expected c) name \<noteq> Some v then (Inl File_mismatch, db)
          else (Inr (), update_candidate sc (note_file now name v) db))"

definition all_counted :: "candidate \<Rightarrow> bool" where
  "all_counted c \<longleftrightarrow> verified_files c = total_files c \<and> verified_bytes c = total_bytes c"

definition mark_complete :: "time \<Rightarrow> string \<Rightarrow> verification_db \<Rightarrow> (checkpoint_error + unit) \<times> verification_db" where
  "mark_complete now sc db =
     (if length (filter (\<lambda>c. cand_scope c = sc \<and> all_counted c) (candidates db)) \<noteq> 1
      then (Inl Checkpoint_incomplete, db)
      else (Inr (), update_candidate sc
             (\<lambda>c. if all_counted c then c\<lparr>finished_flag := 1, cand_updated := now\<rparr> else c) db))"

text \<open>What the client is shown: whether all is verified, and the totals and counts.\<close>

definition snapshot ::
  "(string \<Rightarrow> string \<Rightarrow> string) \<Rightarrow> string \<Rightarrow> int \<Rightarrow> string \<Rightarrow> string \<Rightarrow> verification_db
   \<Rightarrow> (bool \<times> int \<times> nat \<times> int \<times> nat \<times> int) option" where
  "snapshot scope_of dref version dir sha db =
     (case find_candidate db (scope_of dref dir) of
        None \<Rightarrow> None
      | Some c \<Rightarrow>
          if cand_binding c \<noteq> (dref, version, dir, sha) then None
          else Some (finished_flag c \<noteq> 0, version, total_files c, total_bytes c, verified_files c, verified_bytes c))"

section \<open>Pacing of an account's requests\<close>

definition request_interval :: rat where
  "request_interval = 3 / 2"

text \<open>\<open>deferral\<close>: how long to wait, and whether it is a cooldown of the account.\<close>

datatype deferral = Deferred rat bool

text \<open>Names of owners are ASCII, so \<^const>\<open>lower\<close> is \<^verbatim>\<open>casefold\<close> on them.\<close>

definition find_account :: "verification_db \<Rightarrow> string \<Rightarrow> account_row option" where
  "find_account db owner = find (\<lambda>a. acct_owner a = lower owner) (accounts db)"

definition put_account :: "string \<Rightarrow> account_row \<Rightarrow> (account_row \<Rightarrow> account_row) \<Rightarrow> verification_db \<Rightarrow> verification_db" where
  "put_account owner fresh f db =
     (if find_account db owner = None then db\<lparr>accounts := accounts db @ [fresh]\<rparr>
      else db\<lparr>accounts := map (\<lambda>a. if acct_owner a = lower owner then f a else a) (accounts db)\<rparr>)"

definition cooldown :: "time \<Rightarrow> string \<Rightarrow> rat \<Rightarrow> verification_db \<Rightarrow> verification_db" where
  "cooldown now owner seconds db =
     (let until = now + max 0 seconds
      in put_account owner \<lparr>acct_owner = lower owner, next_request_at = 0, cooldown_until = until\<rparr>
           (\<lambda>a. a\<lparr>cooldown_until := max (cooldown_until a) until\<rparr>) db)"

definition cooldown_remaining :: "time \<Rightarrow> string \<Rightarrow> verification_db \<Rightarrow> rat" where
  "cooldown_remaining now owner db =
     (case find_account db owner of None \<Rightarrow> 0 | Some a \<Rightarrow> max 0 (cooldown_until a - now))"

definition ensure_account :: "string \<Rightarrow> verification_db \<Rightarrow> verification_db" where
  "ensure_account owner db =
     put_account owner \<lparr>acct_owner = lower owner, next_request_at = 0, cooldown_until = 0\<rparr> (\<lambda>a. a) db"

definition pacing_delay :: "time \<Rightarrow> account_row \<Rightarrow> rat" where
  "pacing_delay now a = max 0 (next_request_at a - now)"

text \<open>An exception rolls the transaction back.\<close>

definition reserve_request :: "time \<Rightarrow> string \<Rightarrow> verification_db \<Rightarrow> (deferral + rat) \<times> verification_db" where
  "reserve_request now owner db =
     (let db1 = ensure_account owner db;
          a = (case find_account db1 owner of Some a \<Rightarrow> a
               | None \<Rightarrow> \<lparr>acct_owner = lower owner, next_request_at = 0, cooldown_until = 0\<rparr>)
      in if now < cooldown_until a then (Inl (Deferred (cooldown_until a - now) True), db)
         else if 5 < pacing_delay now a then (Inl (Deferred (pacing_delay now a) False), db)
         else (Inr (pacing_delay now a),
               put_account owner a (\<lambda>a. a\<lparr>next_request_at := now + pacing_delay now a + request_interval\<rparr>) db1))"

text \<open>
  \<^verbatim>\<open>before_request\<close> when none of its interruption checks raises: \<open>time_left\<close> is what the batch has left,
  and after the wait, at \<open>later\<close>, the cooldown is read again from the table \<open>db'\<close> of that moment.
\<close>

definition progress_recheck_seconds :: rat where
  "progress_recheck_seconds = 15"

definition before_request ::
  "time \<Rightarrow> rat option \<Rightarrow> time \<Rightarrow> string \<Rightarrow> verification_db \<Rightarrow> verification_db \<Rightarrow> deferral option" where
  "before_request now time_left later owner db db' =
     (case fst (reserve_request now owner db) of
        Inl d \<Rightarrow> Some d
      | Inr delay \<Rightarrow>
          if (case time_left of None \<Rightarrow> False | Some t \<Rightarrow> t \<le> delay) then Some (Deferred progress_recheck_seconds False)
          else if cooldown_remaining later owner db' \<noteq> 0 then Some (Deferred (cooldown_remaining later owner db') True)
          else None)"

section \<open>Checkpoints stay sound\<close>

definition checkpoint_ok :: "candidate \<Rightarrow> bool" where
  "checkpoint_ok c \<longleftrightarrow> checkpoint_valid (cand_expected c) c \<and> distinct (map fst (cand_verified c))
     \<and> distinct (map fst (cand_expected c))"

definition store_ok :: "verification_db \<Rightarrow> bool" where
  "store_ok db \<longleftrightarrow> distinct (map cand_scope (candidates db)) \<and> list_all checkpoint_ok (candidates db)"

lemma encode_files_facts [simp]:
  "length (encode_files d) = length d" "set (encode_files d) = set d" "byte_sum (encode_files d) = byte_sum d"
proof -
  show "length (encode_files d) = length d" "set (encode_files d) = set d" by (simp_all add: encode_files_def)
  have "sum_list (map f (insort_key g x xs)) = f x + sum_list (map f xs)" for f :: "string \<times> file_value \<Rightarrow> int"
    and g :: "string \<times> file_value \<Rightarrow> string" and x xs
    by (induction xs) auto
  then have "sum_list (map f (sort_key g xs)) = sum_list (map f xs)" for f :: "string \<times> file_value \<Rightarrow> int"
    and g :: "string \<times> file_value \<Rightarrow> string" and xs
    by (induction xs) auto
  then show "byte_sum (encode_files d) = byte_sum d" by (simp add: byte_sum_def encode_files_def)
qed

lemma encode_files_keys: "distinct (map fst d) \<Longrightarrow> distinct (map fst (encode_files d))"
  by (simp add: encode_files_def distinct_map)

lemma map_of_encode: "distinct (map fst d) \<Longrightarrow> map_of (encode_files d) = map_of d"
  by (intro map_of_inject_set [THEN iffD2]) (simp_all add: encode_files_keys)

lemma byte_sum_Nil [simp]: "byte_sum [] = 0"
  by (simp add: byte_sum_def)

lemma new_candidate_ok: "distinct (map fst expected) \<Longrightarrow> checkpoint_ok (new_candidate now sc b expected)"
  by (simp add: checkpoint_ok_def checkpoint_valid_def new_candidate_def encode_files_keys)

text \<open>A checkpoint with as many verified files as expected ones has verified them all.\<close>

lemma verified_subset:
  "checkpoint_ok c \<Longrightarrow> set (cand_verified c) \<subseteq> set (cand_expected c)"
  by (auto simp: checkpoint_ok_def checkpoint_valid_def list_all_iff dest: map_of_SomeD)

lemma full_verified:
  assumes "checkpoint_ok c" and "length (cand_verified c) = length (cand_expected c)"
  shows "set (cand_verified c) = set (cand_expected c)"
proof (rule card_subset_eq)
  have "distinct (cand_verified c)" "distinct (cand_expected c)"
    using assms(1) by (simp_all add: checkpoint_ok_def distinct_map)
  then show "card (set (cand_verified c)) = card (set (cand_expected c))"
    using assms(2) by (simp add: distinct_card)
qed (simp_all add: verified_subset [OF assms(1)])

lemma note_file_ok:
  assumes "checkpoint_ok c" and "map_of (cand_expected c) name = Some v"
  shows "checkpoint_ok (note_file now name v c)"
proof -
  let ?w = "AList.update name v (cand_verified c)"
  have d: "distinct (map fst ?w)" using assms(1) by (simp add: checkpoint_ok_def distinct_update)
  have e: "map_of (cand_expected c) k = Some x" if "(k, x) \<in> set ?w" for k x
  proof -
    have "map_of ?w k = Some x" using that d by simp
    then show ?thesis
      using assms(1,2) by (cases "k = name") (auto simp: checkpoint_ok_def checkpoint_valid_def list_all_iff update_conv' dest: map_of_SomeD)
  qed
  have full: "length ?w = length (cand_expected c)" if "finished_flag c \<noteq> 0"
  proof -
    have l: "length (cand_verified c) = length (cand_expected c)"
      using that assms(1) by (simp add: checkpoint_ok_def checkpoint_valid_def)
    have "(name, v) \<in> set (cand_verified c)"
      using full_verified [OF assms(1) l] assms(2) by (simp add: map_of_SomeD)
    then have "name \<in> fst ` set (cand_verified c)" by force
    then have "length (map fst ?w) = length (map fst (cand_verified c))" unfolding update_keys by simp
    with l show ?thesis by simp
  qed
  then show ?thesis
    using assms(1) d e
    by (auto simp: checkpoint_ok_def checkpoint_valid_def note_file_def Let_def encode_files_keys list_all_iff)
qed

inductive check_step :: "verification_db \<Rightarrow> verification_db \<Rightarrow> bool" where
  loading: "distinct (map fst expected) \<Longrightarrow> check_step db (snd (load scope_of now dref version dir sha expected db))"
| marking: "check_step db (snd (mark_file now sc name v db))"
| completing: "check_step db (snd (mark_complete now sc db))"

lemma update_candidate_ok:
  assumes "store_ok db" and "\<And>c. c \<in> set (candidates db) \<Longrightarrow> cand_scope c = sc \<Longrightarrow> checkpoint_ok (f c) \<and> cand_scope (f c) = sc"
  shows "store_ok (update_candidate sc f db)"
proof -
  have "map cand_scope (candidates (update_candidate sc f db)) = map cand_scope (candidates db)"
    using assms(2) by (simp add: update_candidate_def)
  moreover have "list_all checkpoint_ok (candidates (update_candidate sc f db))"
    using assms by (auto simp: update_candidate_def store_ok_def list_all_iff)
  ultimately show ?thesis using assms(1) by (simp add: store_ok_def)
qed

lemma find_candidateD: "find_candidate db sc = Some c \<Longrightarrow> c \<in> set (candidates db) \<and> cand_scope c = sc"
  by (auto simp: find_candidate_def dest: find_SomeD)

lemma find_candidate_only: "store_ok db \<Longrightarrow> c \<in> set (candidates db) \<Longrightarrow> find_candidate db (cand_scope c) = Some c"
proof -
  assume o: "store_ok db" and c: "c \<in> set (candidates db)"
  then obtain x where x: "find_candidate db (cand_scope c) = Some x"
    by (cases "find_candidate db (cand_scope c)") (auto simp: find_candidate_def find_None_iff)
  then have "x = c" using find_candidateD [OF x] o c by (auto simp: store_ok_def distinct_map inj_on_def)
  with x show ?thesis by simp
qed

lemma check_step_ok:
  assumes "check_step db db'" and "store_ok db"
  shows "store_ok db'"
  using assms(1)
proof cases
  case (loading expected scope_of now dref version dir sha)
  show ?thesis
  proof (cases "find_candidate db (scope_of dref dir)")
    case None
    then have "\<forall>c \<in> set (candidates db). cand_scope c \<noteq> scope_of dref dir"
      by (auto simp: find_candidate_def find_None_iff)
    with None assms(2) new_candidate_ok [OF loading(2), of now "scope_of dref dir" "(dref, version, dir, sha)"]
    show ?thesis by (auto simp: loading(1) load_def Let_def store_ok_def new_candidate_def)
  qed (use assms(2) in \<open>simp add: loading(1) load_def Let_def\<close>)
next
  case (marking now sc name v)
  show ?thesis
  proof (cases "find_candidate db sc")
    case (Some c)
    have "checkpoint_ok (note_file now name v x) \<and> cand_scope (note_file now name v x) = sc"
      if "map_of (cand_expected c) name = Some v" "x \<in> set (candidates db)" "cand_scope x = sc" for x
    proof -
      have "x = c" using find_candidate_only [OF assms(2) that(2)] Some that(3) by simp
      moreover have "checkpoint_ok c" using find_candidateD [OF Some] assms(2) by (auto simp: store_ok_def list_all_iff)
      ultimately show ?thesis using note_file_ok that by (simp add: note_file_def Let_def)
    qed
    with Some assms(2) show ?thesis by (auto simp: marking mark_file_def intro!: update_candidate_ok)
  qed (use assms(2) in \<open>simp add: marking mark_file_def\<close>)
next
  case (completing now sc)
  have "checkpoint_ok (c\<lparr>finished_flag := 1, cand_updated := now\<rparr>)" if "checkpoint_ok c" "all_counted c" for c
    using that by (auto simp: checkpoint_ok_def checkpoint_valid_def all_counted_def)
  then show ?thesis
    using assms(2) by (auto simp: completing mark_complete_def store_ok_def list_all_iff intro!: update_candidate_ok [unfolded store_ok_def list_all_iff])
qed

interpretation checkpoints: transition_system "\<lambda>db. candidates db = []" check_step store_ok
proof unfold_locales
  show "candidates db = [] \<Longrightarrow> store_ok db" for db by (simp add: store_ok_def)
qed (rule check_step_ok)

section \<open>Pacing is monotone\<close>

inductive pace_step :: "verification_db \<Rightarrow> verification_db \<Rightarrow> bool" where
  reserving: "pace_step db (snd (reserve_request now owner db))"
| cooling: "0 \<le> now \<Longrightarrow> pace_step db (cooldown now owner seconds db)"

definition next_at :: "string \<Rightarrow> verification_db \<Rightarrow> rat" where
  "next_at owner db = (case find_account db owner of None \<Rightarrow> 0 | Some a \<Rightarrow> next_request_at a)"

definition cool_at :: "string \<Rightarrow> verification_db \<Rightarrow> rat" where
  "cool_at owner db = (case find_account db owner of None \<Rightarrow> 0 | Some a \<Rightarrow> cooldown_until a)"

lemma find_put_account:
  assumes "acct_owner fresh = lower owner" and "\<And>a. acct_owner (f a) = acct_owner a"
  shows "find_account (put_account owner fresh f db) x =
    (if lower x = lower owner then Some (case find_account db owner of None \<Rightarrow> fresh | Some a \<Rightarrow> f a) else find_account db x)"
proof -
  have m: "find (\<lambda>a. acct_owner a = k) (map (\<lambda>a. if acct_owner a = lower owner then f a else a) xs)
      = map_option (\<lambda>a. if acct_owner a = lower owner then f a else a) (find (\<lambda>a. acct_owner a = k) xs)" for k xs
    using assms(2) by (induction xs) auto
  have s: "find P (xs @ [y]) = (case find P xs of None \<Rightarrow> if P y then Some y else None | Some z \<Rightarrow> Some z)"
    for P :: "account_row \<Rightarrow> bool" and xs y by (induction xs) auto
  show ?thesis
  proof (cases "find_account db owner")
    case None
    then show ?thesis using assms(1) by (auto simp: put_account_def find_account_def s split: option.split)
  next
    case (Some a)
    have o: "acct_owner a = lower owner" using Some by (auto simp: find_account_def dest: find_SomeD)
    show ?thesis
    proof (cases "lower x = lower owner")
      case True
      with Some o show ?thesis by (simp add: put_account_def find_account_def m)
    next
      case False
      show ?thesis
      proof (cases "find_account db x")
        case None
        with Some False show ?thesis by (simp add: put_account_def find_account_def m)
      next
        case (Some b)
        then have "acct_owner b = lower x" by (auto simp: find_account_def dest: find_SomeD)
        with \<open>find_account db owner = Some a\<close> Some False show ?thesis by (simp add: put_account_def find_account_def m)
      qed
    qed
  qed
qed


lemma find_account_of:
  "next_at x (put_account owner fresh f db) = (if lower x = lower owner
     then (case find_account db owner of None \<Rightarrow> next_request_at fresh | Some a \<Rightarrow> next_request_at (f a)) else next_at x db)"
  "cool_at x (put_account owner fresh f db) = (if lower x = lower owner
     then (case find_account db owner of None \<Rightarrow> cooldown_until fresh | Some a \<Rightarrow> cooldown_until (f a)) else cool_at x db)"
  if "acct_owner fresh = lower owner" "\<And>a. acct_owner (f a) = acct_owner a"
proof -
  have f: "find_account (put_account owner fresh f db) x = (if lower x = lower owner
      then Some (case find_account db owner of None \<Rightarrow> fresh | Some a \<Rightarrow> f a) else find_account db x)"
    by (rule find_put_account) (fact that)+
  show "next_at x (put_account owner fresh f db) = (if lower x = lower owner
     then (case find_account db owner of None \<Rightarrow> next_request_at fresh | Some a \<Rightarrow> next_request_at (f a)) else next_at x db)"
    by (simp add: next_at_def f split: option.split)
  show "cool_at x (put_account owner fresh f db) = (if lower x = lower owner
     then (case find_account db owner of None \<Rightarrow> cooldown_until fresh | Some a \<Rightarrow> cooldown_until (f a)) else cool_at x db)"
    by (simp add: cool_at_def f split: option.split)
qed

text \<open>A reservation that is granted, on the row of its account.\<close>

lemma same_account: "lower x = lower y \<Longrightarrow> find_account db x = find_account db y"
  by (simp add: find_account_def)

lemma ensure_account_at [simp]:
  "next_at x (ensure_account owner db) = next_at x db" "cool_at x (ensure_account owner db) = cool_at x db"
proof -
  have "next_at x db = (case find_account db owner of None \<Rightarrow> 0 | Some a \<Rightarrow> next_request_at a)"
    "cool_at x db = (case find_account db owner of None \<Rightarrow> 0 | Some a \<Rightarrow> cooldown_until a)" if "lower x = lower owner"
    using same_account [OF that, of db] by (simp_all add: next_at_def cool_at_def)
  then show "next_at x (ensure_account owner db) = next_at x db" "cool_at x (ensure_account owner db) = cool_at x db"
    by (simp_all add: ensure_account_def find_account_of split: option.split)
qed

lemma ensured: "\<exists>a. find_account (ensure_account owner db) owner = Some a \<and> next_request_at a = next_at owner db
    \<and> cooldown_until a = cool_at owner db \<and> acct_owner a = lower owner"
proof -
  have "find_account (ensure_account owner db) owner = Some (case find_account db owner of
      None \<Rightarrow> \<lparr>acct_owner = lower owner, next_request_at = 0, cooldown_until = 0\<rparr> | Some a \<Rightarrow> a)"
    by (simp add: ensure_account_def find_put_account)
  moreover have "acct_owner a = lower owner" if "find_account db owner = Some a" for a
    using that by (auto simp: find_account_def dest: find_SomeD)
  ultimately show ?thesis by (auto simp: next_at_def cool_at_def split: option.split)
qed

lemma reserve_cases:
  obtains (refused) d where "reserve_request now owner db = (Inl d, db)"
  | (granted) db' where "reserve_request now owner db = (Inr (max 0 (next_at owner db - now)), db')"
      and "cool_at owner db \<le> now" and "max 0 (next_at owner db - now) \<le> 5"
      and "\<And>x. next_at x db' = (if lower x = lower owner then max now (next_at owner db) + request_interval else next_at x db)"
      and "\<And>x. cool_at x db' = cool_at x db"
proof -
  obtain a where a: "find_account (ensure_account owner db) owner = Some a" "next_request_at a = next_at owner db"
    "cooldown_until a = cool_at owner db" "acct_owner a = lower owner" using ensured by blast
  let ?d = "max 0 (next_at owner db - now)"
  let ?f = "\<lambda>a. a\<lparr>next_request_at := now + pacing_delay now a + request_interval\<rparr>"
  let ?db = "put_account owner a ?f (ensure_account owner db)"
  have r: "reserve_request now owner db = (if now < cool_at owner db then (Inl (Deferred (cool_at owner db - now) True), db)
      else if 5 < ?d then (Inl (Deferred ?d False), db) else (Inr ?d, ?db))"
    by (simp add: reserve_request_def Let_def a pacing_delay_def less_max_iff_disj)
  have n: "next_at x ?db = (if lower x = lower owner then max now (next_at owner db) + request_interval else next_at x db)"
    and c: "cool_at x ?db = cool_at x db" for x
  proof -
    have "cool_at x db = cool_at owner db" if "lower x = lower owner"
      using same_account [OF that, of db] by (simp add: cool_at_def)
    then show "next_at x ?db = (if lower x = lower owner then max now (next_at owner db) + request_interval else next_at x db)"
      "cool_at x ?db = cool_at x db"
      using a by (simp_all add: find_account_of pacing_delay_def max_def)
  qed
  show thesis
  proof (cases "now < cool_at owner db \<or> 5 < ?d")
    case True
    then show thesis using refused r by metis
  next
    case False
    then have "reserve_request now owner db = (Inr ?d, ?db)" "cool_at owner db \<le> now" "?d \<le> 5" using r by (simp_all add: not_less)
    then show thesis using n c by (rule granted)
  qed
qed

lemma cooldown_at:
  "next_at x (cooldown now owner seconds db) = next_at x db"
  "0 \<le> now \<Longrightarrow> cool_at x (cooldown now owner seconds db)
     = (if lower x = lower owner then max (cool_at owner db) (now + max 0 seconds) else cool_at x db)"
proof -
  have "next_at x db = (case find_account db owner of None \<Rightarrow> 0 | Some a \<Rightarrow> next_request_at a)"
    "cool_at owner db = (case find_account db owner of None \<Rightarrow> 0 | Some a \<Rightarrow> cooldown_until a)" if "lower x = lower owner"
    using same_account [OF that, of db] by (simp_all add: next_at_def cool_at_def)
  then show "next_at x (cooldown now owner seconds db) = next_at x db"
    "0 \<le> now \<Longrightarrow> cool_at x (cooldown now owner seconds db)
     = (if lower x = lower owner then max (cool_at owner db) (now + max 0 seconds) else cool_at x db)"
    by (simp_all add: cooldown_def Let_def find_account_of split: option.split)
qed

lemma pace_step_mono: "pace_step db db' \<Longrightarrow> next_at x db \<le> next_at x db' \<and> cool_at x db \<le> cool_at x db'"
proof (induction rule: pace_step.induct)
  case (reserving db now owner)
  show ?case
  proof (cases rule: reserve_cases [of now owner db])
    case (granted db')
    have "next_at x db = next_at owner db" if "lower x = lower owner"
      using same_account [OF that, of db] by (simp add: next_at_def)
    with granted show ?thesis
      using max.cobounded2 [of "next_at owner db" now] by (auto simp: request_interval_def)
  qed simp
next
  case (cooling now db owner seconds)
  have "cool_at x db = cool_at owner db" if "lower x = lower owner"
    using same_account [OF that, of db] by (simp add: cool_at_def)
  with cooling show ?case by (simp add: cooldown_at)
qed

lemma pace_steps_mono: "pace_step\<^sup>*\<^sup>* db db' \<Longrightarrow> next_at x db \<le> next_at x db' \<and> cool_at x db \<le> cool_at x db'"
  by (induction rule: rtranclp_induct) (auto dest!: pace_step_mono [where x = x])

section \<open>Properties\<close>

text \<open>
  Whatever processes verify datasets, in whatever order and however often, a candidate is shown as
  verified only when every expected file has been marked with exactly its expected size and digest; and
  loading a checkpoint the relay wrote never reports it as invalid.
\<close>

theorem verified_means_every_file:
  assumes "candidates start = []" and "check_step\<^sup>*\<^sup>* start db"
  shows "(snapshot scope_of dref version dir sha db = Some (True, rest) \<longrightarrow>
      (\<exists>c. find_candidate db (scope_of dref dir) = Some c \<and> set (cand_verified c) = set (cand_expected c)))
    \<and> fst (load scope_of now dref version dir sha expected db) \<noteq> Inl Checkpoint_invalid"
proof -
  have ok: "store_ok db" by (rule checkpoints.run_inv [OF assms])
  then have each: "checkpoint_ok c" if "find_candidate db sc = Some c" for sc c
    using find_candidateD [OF that] by (auto simp: store_ok_def list_all_iff)
  have "set (cand_verified c) = set (cand_expected c)"
    if "find_candidate db sc = Some c" "finished_flag c \<noteq> 0" for sc c
    using full_verified [OF each [OF that(1)]] each [OF that(1)] that(2) by (simp add: checkpoint_ok_def checkpoint_valid_def)
  then have "snapshot scope_of dref version dir sha db = Some (True, rest) \<longrightarrow>
      (\<exists>c. find_candidate db (scope_of dref dir) = Some c \<and> set (cand_verified c) = set (cand_expected c))"
    by (auto simp: snapshot_def split: option.splits if_splits)
  moreover have "checkpoint_valid expected c" if "find_candidate db sc = Some c" "cand_expected c = encode_files expected" for sc c
  proof -
    have d: "distinct (map fst expected)"
      using each [OF that(1)] that(2) by (simp add: checkpoint_ok_def encode_files_def distinct_map)
    then show ?thesis
      using each [OF that(1)] that(2) by (simp add: checkpoint_ok_def checkpoint_valid_def map_of_encode)
  qed
  then have "fst (load scope_of now dref version dir sha expected db) \<noteq> Inl Checkpoint_invalid"
    by (auto simp: load_def Let_def split: option.split)
  ultimately show ?thesis by blast
qed

definition sample_checkpoints :: verification_db where
  "sample_checkpoints =
     (let db0 = \<lparr>candidates = [], accounts = []\<rparr>;
          db1 = snd (load (\<lambda>r d. r) 1 ''u/d'' 2 ''dir'' ''s'' [(''b'', (2, ''y'')), (''a'', (1, ''x''))] db0);
          db2 = snd (mark_file 2 ''u/d'' ''a'' (1, ''x'') db1);
          db3 = snd (mark_file 3 ''u/d'' ''b'' (2, ''y'') db2)
      in snd (mark_complete 4 ''u/d'' db3))"

lemma sample_checkpoints_reached: "check_step\<^sup>*\<^sup>* \<lparr>candidates = [], accounts = []\<rparr> sample_checkpoints"
proof -
  have "check_step \<lparr>candidates = [], accounts = []\<rparr>
      (snd (load (\<lambda>r d. r) 1 ''u/d'' 2 ''dir'' ''s'' [(''b'', (2, ''y'')), (''a'', (1, ''x''))] \<lparr>candidates = [], accounts = []\<rparr>))"
    by (rule loading) simp
  then show ?thesis
    unfolding sample_checkpoints_def Let_def
    using marking completing by (meson r_into_rtranclp rtranclp.rtrancl_into_rtrancl)
qed

lemma verified_means_every_file_witness:
  "\<exists>c. find_candidate sample_checkpoints ''u/d'' = Some c \<and> set (cand_verified c) = {(''a'', (1, ''x'')), (''b'', (2, ''y''))}"
proof -
  have s: "snapshot (\<lambda>r d. r) ''u/d'' 2 ''dir'' ''s'' sample_checkpoints = Some (True, 2, 2, 3, 2, 3)"
    and e: "map_option cand_expected (find_candidate sample_checkpoints ''u/d'') = Some [(''a'', (1, ''x'')), (''b'', (2, ''y''))]"
    by code_simp+
  from verified_means_every_file [OF _ sample_checkpoints_reached, of "\<lambda>r d. r" "''u/d''" 2 "''dir''" "''s''"] s e
  show ?thesis by auto
qed

text \<open>
  C37: Requests to one remote account are paced across all processes: after a granted request, and whatever
  is reserved or cooled down in between, the next granted one for the account (its name compared without
  case) starts at least 1.5 seconds later; and none is granted before the end of a cooldown.
\<close>

theorem requests_are_paced:
  assumes "pace_step\<^sup>*\<^sup>* db1 db2" and "reserve_request now2 owner db2 = (Inr d2, db3)"
  shows "(\<forall>now1 d1 db. reserve_request now1 owner db = (Inr d1, db1) \<longrightarrow> now1 + d1 + request_interval \<le> now2 + d2)
    \<and> (\<forall>t seconds db. 0 \<le> t \<longrightarrow> db1 = cooldown t owner seconds db \<longrightarrow> t + seconds \<le> now2)"
proof -
  have m: "next_at owner db1 \<le> next_at owner db2" "cool_at owner db1 \<le> cool_at owner db2"
    using pace_steps_mono [OF assms(1)] by blast+
  have g: "d2 = max 0 (next_at owner db2 - now2)" "cool_at owner db2 \<le> now2"
    using assms(2) by (cases rule: reserve_cases [of now2 owner db2]; simp)+
  have "now1 + d1 + request_interval \<le> next_at owner db1" if "reserve_request now1 owner db = (Inr d1, db1)" for now1 d1 db
    using that by (cases rule: reserve_cases [of now1 owner db]) auto
  moreover have "t + seconds \<le> cool_at owner db1" if "0 \<le> t" "db1 = cooldown t owner seconds db" for t seconds db
    using that by (simp add: cooldown_at)
  ultimately show ?thesis using m g by fastforce
qed

lemma requests_are_paced_witness:
  "\<exists>db1 db3. reserve_request 10 ''Me'' \<lparr>candidates = [], accounts = []\<rparr> = (Inr 0, db1)
     \<and> reserve_request 11 ''me'' db1 = (Inr (1 / 2), db3) \<and> 10 + 0 + request_interval \<le> 11 + (1 / 2 :: rat)"
proof -
  let ?r1 = "reserve_request 10 ''Me'' \<lparr>candidates = [], accounts = []\<rparr>"
  let ?r2 = "reserve_request 11 ''me'' (snd ?r1)" and ?r1' = "reserve_request 10 ''me'' \<lparr>candidates = [], accounts = []\<rparr>"
  have f: "fst ?r1 = Inr 0" "fst ?r2 = Inr (1 / 2)" "?r1' = ?r1" by code_simp+
  then have r: "?r1 = (Inr 0, snd ?r1)" "?r2 = (Inr (1 / 2), snd ?r2)" by (simp_all add: prod_eq_iff)
  from requests_are_paced [OF rtranclp.rtrancl_refl r(2)] have "10 + 0 + request_interval \<le> 11 + (1 / 2 :: rat)"
    using r(1) f(3) by metis
  with r show ?thesis by blast
qed

end
