(* ===== verification/Dataset_Recheck.thy ===== *)
theory Dataset_Recheck
  imports Recovery Verification_State
begin

text \<open>
  Rechecks of retained dataset versions while the relay runs (\<^verbatim>\<open>app/dataset_recovery.py\<close>, with the classes
  of misses of \<^verbatim>\<open>app/dataset_verification_process.py\<close>). A job whose uploaded version could not be
  verified waits; a recheck is scheduled with a growing delay, inside a window of a day from the first
  failure, and hands the job back to the workers with an action that never uploads. \<open>due_text\<close> prints a
  time, \<open>files\<close> and \<open>dir_of\<close> are as for the restart.
\<close>

section \<open>Classes of misses\<close>

datatype category = Fatal | Publication | Transport | In_progress | Http | Integrity

text \<open>
  The exceptions as the classification tells them apart: a deferral (a cooldown or not), an error of the
  verification with its own class, a version that is not ready, a response with a status, a TLS error, a
  transport error, and any other, with whether it is a \<^verbatim>\<open>ValueError\<close>. Times in a header are given in seconds.
\<close>

datatype verify_exc =
    Verify_deferred bool rat
  | Verify_error category "int option" "rat option"
  | Verify_not_ready
  | Verify_response int "rat option"
  | Verify_tls
  | Verify_transport
  | Verify_other bool string

record failure =
  fail_category :: category
  fail_http :: "int option"
  fail_retry :: "rat option"

definition verification_error :: "verify_exc \<Rightarrow> failure" where
  "verification_error e =
     (case e of
        Verify_deferred cool r \<Rightarrow>
          \<lparr>fail_category = (if cool then Http else In_progress), fail_http = (if cool then Some 429 else None), fail_retry = Some r\<rparr>
      | Verify_error c h r \<Rightarrow> \<lparr>fail_category = c, fail_http = h, fail_retry = r\<rparr>
      | Verify_not_ready \<Rightarrow> \<lparr>fail_category = Publication, fail_http = None, fail_retry = None\<rparr>
      | Verify_response h r \<Rightarrow> \<lparr>fail_category = Http, fail_http = Some h, fail_retry = r\<rparr>
      | Verify_tls \<Rightarrow> \<lparr>fail_category = Fatal, fail_http = None, fail_retry = None\<rparr>
      | Verify_transport \<Rightarrow> \<lparr>fail_category = Transport, fail_http = None, fail_retry = None\<rparr>
      | Verify_other value_error text \<Rightarrow>
          \<lparr>fail_category = (if value_error \<and> prefix ''payload_'' text then Integrity else Fatal), fail_http = None, fail_retry = None\<rparr>)"

definition retryable_verification :: "verify_exc \<Rightarrow> bool" where
  "retryable_verification e \<longleftrightarrow>
     (let f = verification_error e in
      fail_category f \<in> {Publication, Transport, In_progress}
      \<or> fail_category f = Http \<and> fail_http f \<in> Some ` {408, 409, 429, 500, 502, 503, 504})"

section \<open>Scheduling\<close>

definition recheck_window :: rat where "recheck_window = 24 * 3600"

definition recheck_delay :: "rat option \<Rightarrow> bool \<Rightarrow> int \<Rightarrow> rat" where
  "recheck_delay asked in_progress misses =
     max (case asked of None \<Rightarrow> 0 | Some r \<Rightarrow> r)
       (if in_progress then progress_recheck_seconds else min 1800 (300 * power_int 2 (min misses 4)))"

text \<open>Python's \<^verbatim>\<open>:.0f\<close>: the nearest whole number, the even one of two.\<close>

definition round_half_even :: "rat \<Rightarrow> int" where
  "round_half_even x =
     (let low = floor x; part = x - of_int low
      in if part < 1 / 2 \<or> part = 1 / 2 \<and> even low then low else low + 1)"

text \<open>A stored time that is missing or zero does not count.\<close>

definition set_time :: "time option \<Rightarrow> time option" where
  "set_time t = (if t = Some 0 then None else t)"

definition first_failure :: "time \<Rightarrow> job \<Rightarrow> time" where
  "first_failure now j = (case set_time (dataset_recheck_started_at j) of None \<Rightarrow> now | Some t \<Rightarrow> t)"

definition recheck_message :: "(time \<Rightarrow> string) \<Rightarrow> bool \<Rightarrow> time \<Rightarrow> rat \<Rightarrow> string" where
  "recheck_message due_text out_of_time due delay =
     (if out_of_time
      then ''Dataset automatic recheck window exhausted; original version retained; manual recovery required''
      else ''Dataset automatic recheck scheduled at '' @ due_text due @ '' (in '' @ int_text (round_half_even delay)
           @ ''s); original version retained, no reupload'')"

definition recheck_values ::
  "(time \<Rightarrow> string) \<Rightarrow> time \<Rightarrow> time \<Rightarrow> bool \<Rightarrow> int \<Rightarrow> rat \<Rightarrow> assignment list" where
  "recheck_values due_text now started in_progress misses delay =
     (let due = now + delay; out_of_time = (started + recheck_window \<le> due) in
      [Set_recheck_started_at started, Set_recheck_state (if out_of_time then Exhausted else Scheduled),
       Set_recheck_failures (if in_progress then 0 else misses + 1),
       Set_recheck_at (if out_of_time then None else Some due),
       Set_queue_reason (recheck_message due_text out_of_time due delay)])"

definition log_if :: "time \<Rightarrow> string \<Rightarrow> string \<Rightarrow> relay_db \<times> bool \<Rightarrow> relay_db" where
  "log_if now jid message r = (if snd r then append_log (fst r) now jid message else fst r)"

definition schedule_recheck ::
  "(time \<Rightarrow> string) \<Rightarrow> time \<Rightarrow> string \<Rightarrow> rat option \<Rightarrow> bool \<Rightarrow> relay_db \<Rightarrow> relay_db" where
  "schedule_recheck due_text now jid asked in_progress db =
     (case get_job db jid of
        None \<Rightarrow> db
      | Some j \<Rightarrow>
          if status j \<noteq> Waiting_dataset \<or> cancel_requested_at j \<noteq> None then db
          else
            let started = first_failure now j;
                delay = recheck_delay asked in_progress (dataset_recheck_failures j)
            in log_if now jid (recheck_message due_text (started + recheck_window \<le> now + delay) (now + delay) delay)
                 (update_job_if_status db now jid {Waiting_dataset} True None
                    (recheck_values due_text now started in_progress (dataset_recheck_failures j) delay)))"

definition block_recheck :: "time \<Rightarrow> string \<Rightarrow> string \<Rightarrow> relay_db \<Rightarrow> relay_db" where
  "block_recheck now jid reason db =
     (let message = ''Dataset automatic recheck blocked; manual inspection required: '' @ reason
      in log_if now jid message
           (update_job_if_status db now jid {Waiting_dataset} True None
              [Set_recheck_state Blocked, Set_recheck_at None, Set_queue_reason message]))"

section \<open>The pass over the waiting versions\<close>

definition transient_codes :: "string list" where
  "transient_codes = [''dataset_verification_retry_exhausted:'', ''payload_publication_timeout:'']"

definition account_allowed :: "auth_store \<Rightarrow> job \<Rightarrow> bool" where
  "account_allowed s j \<longleftrightarrow> store_legacy s \<or>
     (case (find (\<lambda>t. principal_id (snd t) = relay_token_id j) (tokens s), map_of (kaggle_keys s) (kaggle_key_id j)) of
        (Some (_, p), Some c) \<Rightarrow> enabled c \<and> can_access_key p (kaggle_key_id j)
      | _ \<Rightarrow> False)"

text \<open>The version the intent names, when it is this job's own candidate.\<close>

definition retained_version :: "(job \<Rightarrow> intent_file) \<Rightarrow> (string \<Rightarrow> string) \<Rightarrow> job \<Rightarrow> int option" where
  "retained_version files dir_of j =
     (case read_intent (files j) of
        Inr (Some d) \<Rightarrow>
          if intent_state d \<in> {''accepted'', ''unknown''}
             \<and> map_of d ''dataset_ref'' = Some (JStr (dataset_ref j))
             \<and> map_of d ''dataset_dir'' = Some (JStr (dir_of (job_id j)))
          then (case map_of d ''version_number'' of Some (JInt n) \<Rightarrow> Some n | _ \<Rightarrow> None)
          else None
      | _ \<Rightarrow> None)"

definition owner_part :: "string \<Rightarrow> string" where
  "owner_part r = takeWhile (\<lambda>c. c \<noteq> CHR ''/'') r"

definition recheck_start_values :: "job \<Rightarrow> assignment list" where
  "recheck_start_values j =
     [Set_status Queued, Set_error [], Set_recheck_state Checking, Set_recheck_at None,
      Set_recheck_count (dataset_recheck_count j + 1), Set_queue_reason ''waiting for a Dataset recheck worker'']"

definition start_recheck :: "time \<Rightarrow> int \<Rightarrow> job \<Rightarrow> app_state \<Rightarrow> app_state" where
  "start_recheck now version j st =
     (let (db, done) = update_job_if_status (app_db st) now (job_id j) {Waiting_dataset} True None (recheck_start_values j)
      in if done
         then st\<lparr>app_db := append_log db now (job_id j) (''Dataset automatic recheck '' @ int_text (dataset_recheck_count j + 1)
                   @ '': queued original version '' @ int_text version @ ''; no reupload''),
                 work_queue := work_queue st @ [\<lparr>work_action = Recheck_dataset, work_job = job_id j\<rparr>]\<rparr>
         else with_db st db)"

text \<open>The second component says whether the step raised.\<close>

definition recheck_due ::
  "(time \<Rightarrow> string) \<Rightarrow> (job \<Rightarrow> intent_file) \<Rightarrow> (string \<Rightarrow> string) \<Rightarrow> verification_db option \<Rightarrow> time \<Rightarrow>
   job \<Rightarrow> app_state \<Rightarrow> app_state \<times> bool" where
  "recheck_due due_text files dir_of vstore now j st =
     (case dataset_recheck_started_at j of
        None \<Rightarrow> (st, True)
      | Some started \<Rightarrow>
          if started + recheck_window \<le> now
          then (with_db st (schedule_recheck due_text now (job_id j) None False (app_db st)), False)
          else
            let cool = (case vstore of None \<Rightarrow> 0 | Some v \<Rightarrow> cooldown_remaining now (owner_part (dataset_ref j)) v) in
            if cool \<noteq> 0
            then (with_db st (fst (update_job_if_status (app_db st) now (job_id j) {Waiting_dataset} True None
                    [Set_recheck_at (Some (now + cool))])), False)
            else if \<not> account_allowed (app_auth st) j
            then (with_db st (block_recheck now (job_id j) ''original account is disabled or no longer authorized'' (app_db st)), False)
            else (case retained_version files dir_of j of
                None \<Rightarrow>
                  (with_db st (block_recheck now (job_id j) ''original upload intent is missing, invalid or rejected'' (app_db st)), False)
              | Some version \<Rightarrow> (start_recheck now version j st, False)))"

definition recheck_one ::
  "(time \<Rightarrow> string) \<Rightarrow> (job \<Rightarrow> intent_file) \<Rightarrow> (string \<Rightarrow> string) \<Rightarrow> verification_db option \<Rightarrow> string set \<Rightarrow> time \<Rightarrow>
   string \<Rightarrow> app_state \<Rightarrow> app_state \<times> bool" where
  "recheck_one due_text files dir_of vstore active now jid st =
     (case get_job (app_db st) jid of
        None \<Rightarrow> (st, False)
      | Some j \<Rightarrow>
          if status j \<noteq> Waiting_dataset \<or> jid \<in> active \<or> cancel_requested_at j \<noteq> None \<or> \<not> prefix unknown_outcome (error j)
          then (st, False)
          else (case dataset_recheck_state j of
              No_recheck \<Rightarrow>
                (with_db st
                  (if list_ex (\<lambda>m. contains m (error j)) transient_codes
                   then schedule_recheck due_text now jid None False (app_db st)
                   else block_recheck now jid ''previous failure is not a classified transient verification error'' (app_db st)),
                 False)
            | Scheduled \<Rightarrow>
                (case set_time (dataset_recheck_at j) of
                   None \<Rightarrow> (st, False)
                 | Some due \<Rightarrow> if now < due then (st, False) else recheck_due due_text files dir_of vstore now j st)
            | _ \<Rightarrow> (st, False)))"

fun recheck_all ::
  "(time \<Rightarrow> string) \<Rightarrow> (job \<Rightarrow> intent_file) \<Rightarrow> (string \<Rightarrow> string) \<Rightarrow> verification_db option \<Rightarrow> string set \<Rightarrow> time \<Rightarrow>
   string list \<Rightarrow> app_state \<Rightarrow> app_state \<times> bool" where
  "recheck_all due_text files dir_of vstore active now [] st = (st, False)"
| "recheck_all due_text files dir_of vstore active now (jid # jids) st =
     (case recheck_one due_text files dir_of vstore active now jid st of
        (st', True) \<Rightarrow> (st', True)
      | (st', False) \<Rightarrow> recheck_all due_text files dir_of vstore active now jids st')"

definition schedule_dataset_rechecks ::
  "(time \<Rightarrow> string) \<Rightarrow> (job \<Rightarrow> intent_file) \<Rightarrow> (string \<Rightarrow> string) \<Rightarrow> verification_db option \<Rightarrow> string set \<Rightarrow> time \<Rightarrow>
   app_state \<Rightarrow> app_state \<times> bool" where
  "schedule_dataset_rechecks due_text files dir_of vstore active now st =
     recheck_all due_text files dir_of vstore active now
       (map job_id (list_jobs_by_status (app_db st) {Waiting_dataset})) st"

section \<open>Properties\<close>

lemma keyed_log_if [simp]: "jobs_keyed (log_if now jid m r) = jobs_keyed (fst r)"
  by (simp add: log_if_def)

lemma get_log_if [simp]: "get_job (log_if now jid m r) k = get_job (fst r) k"
  by (simp add: log_if_def)

lemma recheck_delay_bounds:
  assumes "0 \<le> misses"
  shows "15 \<le> recheck_delay asked in_progress misses"
    and "\<not> in_progress \<Longrightarrow> 300 \<le> recheck_delay asked in_progress misses"
    and "asked = Some s \<Longrightarrow> s \<le> recheck_delay asked in_progress misses"
proof -
  have "(1::rat) \<le> power_int 2 (min misses 4)" using assms by (simp add: one_le_power_int)
  then show "15 \<le> recheck_delay asked in_progress misses"
    and "\<not> in_progress \<Longrightarrow> 300 \<le> recheck_delay asked in_progress misses"
    by (auto simp: recheck_delay_def progress_recheck_seconds_def le_max_iff_disj)
  show "asked = Some s \<Longrightarrow> s \<le> recheck_delay asked in_progress misses" by (simp add: recheck_delay_def)
qed

lemma schedule_recheck_row:
  assumes "get_job db jid = Some j" and "status j = Waiting_dataset" and "cancel_requested_at j = None"
  shows "get_job (schedule_recheck due_text now jid asked in_progress db) jid
    = Some (apply_values (prepare_values now (recheck_values due_text now (first_failure now j) in_progress
        (dataset_recheck_failures j) (recheck_delay asked in_progress (dataset_recheck_failures j)))) j)"
  using assms
  by (simp add: schedule_recheck_def get_update_job_if_status status_guard_def Let_def)
    (simp add: recheck_values_def Let_def)

lemma recheck_values_due:
  "dataset_recheck_at (apply_values (prepare_values now (recheck_values due_text now started in_progress misses delay)) j)
     = (if started + recheck_window \<le> now + delay then None else Some (now + delay))"
  by (simp add: recheck_values_def Let_def prepare_values_def)

text \<open>
  A failed verification is rechecked inside its window only: scheduling gives the job a due time that is
  at least 15 seconds away (five minutes unless the verification was merely interrupted, and no earlier than
  the provider asked), and before the end of the day that began with the first failure; otherwise automatic
  rechecks end. Nothing else of the row that identifies the job or its outcome changes.
\<close>

theorem recheck_within_window:
  assumes "get_job db jid = Some j" and "status j = Waiting_dataset" and "cancel_requested_at j = None"
    and "0 \<le> dataset_recheck_failures j" and "started = first_failure now j"
  shows "\<exists>r. get_job (schedule_recheck due_text now jid asked in_progress db) jid = Some r
    \<and> status r = Waiting_dataset \<and> dataset_recheck_started_at r = Some started \<and> error r = error j
    \<and> dataset_ref r = dataset_ref j \<and> dataset_recheck_count r = dataset_recheck_count j
    \<and> (case dataset_recheck_at r of
         None \<Rightarrow> dataset_recheck_state r = Exhausted
       | Some due \<Rightarrow> dataset_recheck_state r = Scheduled \<and> due < started + recheck_window \<and> now + 15 \<le> due
           \<and> (\<not> in_progress \<longrightarrow> now + 300 \<le> due)
           \<and> (case asked of None \<Rightarrow> True | Some s \<Rightarrow> now + s \<le> due))"
proof -
  note bounds = recheck_delay_bounds [OF assms(4), where asked = asked and in_progress = in_progress]
  show ?thesis
    unfolding schedule_recheck_row [OF assms(1-3)] assms(5)
    using bounds(1,2) bounds(3) assms(2)
    by (cases asked) (simp_all add: recheck_values_def Let_def prepare_values_def not_le)
qed

text \<open>
  The rechecks of one version: \<open>recheck_chain jid started t n\<close> says that the \<open>n\<close>-th one starts at \<open>t\<close>. After it,
  a failure is scheduled on whatever state the relay is in by then, and the next one starts when that is due.
\<close>

inductive recheck_chain :: "string \<Rightarrow> time \<Rightarrow> time \<Rightarrow> nat \<Rightarrow> bool" for jid started where
  first: "recheck_chain jid started started 0"
| again: "recheck_chain jid started t n \<Longrightarrow> t \<le> now \<Longrightarrow>
     get_job db jid = Some j \<Longrightarrow> status j = Waiting_dataset \<Longrightarrow> cancel_requested_at j = None \<Longrightarrow>
     0 \<le> dataset_recheck_failures j \<Longrightarrow> first_failure now j = started \<Longrightarrow>
     get_job (schedule_recheck due_text now jid asked in_progress db) jid = Some r \<Longrightarrow>
     dataset_recheck_at r = Some due \<Longrightarrow> due \<le> t' \<Longrightarrow> recheck_chain jid started t' (Suc n)"

lemma scheduled_later:
  assumes "get_job db jid = Some j" and "status j = Waiting_dataset" and "cancel_requested_at j = None"
    and "0 \<le> dataset_recheck_failures j"
    and "get_job (schedule_recheck due_text now jid asked in_progress db) jid = Some r" and "dataset_recheck_at r = Some due"
  shows "now + 15 \<le> due \<and> due < first_failure now j + recheck_window"
  using assms(5,6) recheck_delay_bounds(1) [OF assms(4)]
  by (auto simp: schedule_recheck_row [OF assms(1-3)] recheck_values_due not_le split: if_splits)

lemma recheck_chain_time: "recheck_chain jid s t n \<Longrightarrow> s + 15 * of_nat n \<le> t"
proof (induction rule: recheck_chain.induct)
  case (again t n now db j due_text asked in_progress r due t')
  from scheduled_later [OF again.hyps(3-6,8,9)] again.hyps(2,10) again.IH show ?case by simp
qed simp

text \<open>
  Automatic rechecks end: however the failures come and whatever delays the provider asks for, one
  version is rechecked at most 5760 times before the relay gives up and asks for manual recovery.
\<close>

theorem rechecks_end:
  assumes "recheck_chain jid started t n"
  shows "n \<le> 5760"
  using assms
proof cases
  case (again t' m now db j due_text asked in_progress r due)
  have "started + 15 * of_nat m \<le> t'" by (rule recheck_chain_time [OF again(2)])
  with scheduled_later [OF again(4-7,9,10)] again(3,8) have "15 * rat_of_nat (Suc m) < recheck_window" by simp
  then have "rat_of_nat (Suc m) < of_nat 5760" by (simp add: recheck_window_def)
  then show ?thesis unfolding again(1) of_nat_less_iff by simp
qed simp

definition unverified_job :: job where
  "unverified_job = sample_job\<lparr>status := Waiting_dataset, error := unknown_outcome\<rparr>"

lemma unverified_facts:
  "get_job (sample_db [unverified_job]) ''j'' = Some unverified_job" "status unverified_job = Waiting_dataset"
  "cancel_requested_at unverified_job = None" "0 \<le> dataset_recheck_failures unverified_job"
  "first_failure 100 unverified_job = 100" "dataset_recheck_failures unverified_job = 0"
  by (simp_all add: unverified_job_def first_failure_def set_time_def sample_db_def get_job_def sample_job_def
      sample_values_def new_job_def)

lemma rechecks_end_witness: "recheck_chain ''j'' 100 400 1 \<and> (1::nat) \<le> 5760"
proof -
  note row = schedule_recheck_row [OF unverified_facts(1-3), of "\<lambda>_. []" 100 None False]
  have "recheck_chain ''j'' 100 400 (Suc 0)"
    by (rule again [OF first _ unverified_facts(1-5) row, where due = 400])
      (simp_all add: recheck_values_due recheck_delay_def recheck_window_def unverified_facts)
  then have c: "recheck_chain ''j'' 100 400 1" by simp
  with rechecks_end [OF c] show ?thesis by simp
qed

lemma recheck_within_window_witness:
  "\<exists>r. get_job (schedule_recheck (\<lambda>_. []) 100 ''j'' (Some 900) False (sample_db [unverified_job])) ''j'' = Some r
     \<and> dataset_recheck_started_at r = Some 100"
proof -
  from recheck_within_window [OF unverified_facts(1-4) unverified_facts(5) [symmetric], of "\<lambda>_. []" "Some 900" False] show ?thesis by blast
qed

section \<open>What a pass hands to the workers\<close>

definition recheck_ready ::
  "(job \<Rightarrow> intent_file) \<Rightarrow> (string \<Rightarrow> string) \<Rightarrow> verification_db option \<Rightarrow> string set \<Rightarrow> time \<Rightarrow> auth_store \<Rightarrow> job \<Rightarrow> bool" where
  "recheck_ready files dir_of vstore active now auth j \<longleftrightarrow>
     status j = Waiting_dataset \<and> job_id j \<notin> active \<and> cancel_requested_at j = None \<and> prefix unknown_outcome (error j)
     \<and> dataset_recheck_state j = Scheduled \<and> (\<exists>due. dataset_recheck_at j = Some due \<and> due \<le> now)
     \<and> (\<exists>s. dataset_recheck_started_at j = Some s \<and> now < s + recheck_window)
     \<and> (\<forall>v. vstore = Some v \<longrightarrow> cooldown_remaining now (owner_part (dataset_ref j)) v = 0)
     \<and> account_allowed auth j \<and> retained_version files dir_of j \<noteq> None"

text \<open>The row an accepted recheck leaves.\<close>

definition recheck_started :: "relay_db \<Rightarrow> string \<Rightarrow> bool" where
  "recheck_started db jid \<longleftrightarrow> (\<exists>r. get_job db jid = Some r \<and> status r = Queued
     \<and> dataset_recheck_state r = Checking \<and> dataset_recheck_at r = None)"

abbreviation recheck_item :: "string \<Rightarrow> work" where
  "recheck_item jid \<equiv> \<lparr>work_action = Recheck_dataset, work_job = jid\<rparr>"

lemma get_schedule_recheck_other:
  "k \<noteq> jid \<Longrightarrow> get_job (schedule_recheck due_text now jid ra ip db) k = get_job db k"
  by (simp add: schedule_recheck_def Let_def get_update_job_if_status split: option.split)

lemma get_block_recheck_other:
  "k \<noteq> jid \<Longrightarrow> get_job (block_recheck now jid reason db) k = get_job db k"
  by (simp add: block_recheck_def Let_def get_update_job_if_status)

lemma keyed_recheck [simp]:
  "jobs_keyed (schedule_recheck due_text now jid ra ip db) = jobs_keyed db"
  "jobs_keyed (block_recheck now jid reason db) = jobs_keyed db"
  by (simp_all add: schedule_recheck_def block_recheck_def Let_def split: option.split)

lemmas recheck_others = get_schedule_recheck_other get_block_recheck_other get_update_job_if_status

lemma with_db_simps [simp]:
  "app_db (with_db st db) = db" "app_auth (with_db st db) = app_auth st"
  "work_queue (with_db st db) = work_queue st"
  by (simp_all add: with_db_def)

lemma start_recheck_frame:
  "jobs_keyed (app_db (start_recheck now v j st)) = jobs_keyed (app_db st)"
  "app_auth (start_recheck now v j st) = app_auth st"
  "k \<noteq> job_id j \<Longrightarrow> get_job (app_db (start_recheck now v j st)) k = get_job (app_db st) k"
  using get_update_job_if_status [of "app_db st" now "job_id j" "{Waiting_dataset}" True None "recheck_start_values j" k]
    keyed_update_job_if_status [of "app_db st" now "job_id j" "{Waiting_dataset}" True None "recheck_start_values j"]
  by (simp_all add: start_recheck_def case_prod_beta)

lemma recheck_write:
  assumes "jobs_keyed (app_db st)" and "get_job (app_db st) jid = Some j" and "status j = Waiting_dataset"
    and "cancel_requested_at j = None"
  shows "\<exists>db. update_job_if_status (app_db st) now jid {Waiting_dataset} True None (recheck_start_values j) = (db, True)
    \<and> get_job db jid = Some (apply_values (prepare_values now (recheck_start_values j)) j)"
proof (intro exI conjI)
  let ?u = "update_job_if_status (app_db st) now jid {Waiting_dataset} True None (recheck_start_values j)"
  have "snd ?u" using assms by (simp add: update_job_if_status_ok status_guard_def recheck_start_values_def)
  then show "?u = (fst ?u, True)" by (simp add: prod_eq_iff)
  show "get_job (fst ?u) jid = Some (apply_values (prepare_values now (recheck_start_values j)) j)"
    using assms(2-4) by (simp add: get_update_job_if_status status_guard_def recheck_start_values_def)
qed

lemma start_recheck_queue:
  assumes "jobs_keyed (app_db st)" and "get_job (app_db st) jid = Some j" and "status j = Waiting_dataset"
    and "cancel_requested_at j = None"
  shows "work_queue (start_recheck now v j st) = work_queue st @ [recheck_item jid]
    \<and> recheck_started (app_db (start_recheck now v j st)) jid"
proof -
  have id: "job_id j = jid" using get_job_SomeD [OF assms(2)] by simp
  from recheck_write [OF assms] obtain db where
    "update_job_if_status (app_db st) now jid {Waiting_dataset} True None (recheck_start_values j) = (db, True)"
    "get_job db jid = Some (apply_values (prepare_values now (recheck_start_values j)) j)" by blast
  with id show ?thesis
    by (simp add: start_recheck_def recheck_started_def) (simp add: recheck_start_values_def prepare_values_def Let_def)
qed

text \<open>One step of the pass: it writes its own job only, and appends nothing or its own item.\<close>

lemma recheck_one_step:
  assumes "jobs_keyed (app_db st)" and "recheck_one due_text files dir_of vstore active now jid st = (st', raised)"
  shows "app_auth st' = app_auth st \<and> jobs_keyed (app_db st')
    \<and> (\<forall>k. k \<noteq> jid \<longrightarrow> get_job (app_db st') k = get_job (app_db st) k)
    \<and> (work_queue st' = work_queue st
       \<or> (\<exists>j. get_job (app_db st) jid = Some j \<and> recheck_ready files dir_of vstore active now (app_auth st) j
            \<and> work_queue st' = work_queue st @ [recheck_item jid] \<and> recheck_started (app_db st') jid))"
proof (cases "get_job (app_db st) jid")
  case None
  with assms show ?thesis by (simp add: recheck_one_def)
next
  case (Some j)
  have id: "job_id j = jid" using get_job_SomeD [OF Some] by simp
  show ?thesis
  proof (cases "\<exists>v. st' = start_recheck now v j st \<and> recheck_ready files dir_of vstore active now (app_auth st) j")
    case True
    then obtain v where v: "st' = start_recheck now v j st" "recheck_ready files dir_of vstore active now (app_auth st) j" by blast
    then have "status j = Waiting_dataset" "cancel_requested_at j = None" by (auto simp: recheck_ready_def)
    from start_recheck_queue [OF assms(1) Some this, where now = now and v = v] Some v id start_recheck_frame [where now = now and v = v and j = j and st = st] assms(1)
    show ?thesis by auto
  next
    case False
    with assms Some id show ?thesis
      by (auto simp: recheck_one_def recheck_due_def Let_def recheck_ready_def recheck_others set_time_def not_le not_less
          split: if_splits recheck_state.splits option.splits)
  qed
qed

lemma recheck_all_items:
  assumes "jobs_keyed (app_db st)" and "distinct jids"
    and "recheck_all due_text files dir_of vstore active now jids st = (st', raised)"
  shows "\<exists>ready. work_queue st' = work_queue st @ map recheck_item ready \<and> distinct ready \<and> set ready \<subseteq> set jids
    \<and> (\<forall>k. k \<notin> set jids \<longrightarrow> get_job (app_db st') k = get_job (app_db st) k)
    \<and> (\<forall>k. k \<in> set ready \<longrightarrow> recheck_started (app_db st') k
          \<and> (\<exists>j. get_job (app_db st) k = Some j \<and> recheck_ready files dir_of vstore active now (app_auth st) j))"
  using assms
proof (induction jids arbitrary: st)
  case Nil
  then show ?case by simp
next
  case (Cons jid jids)
  obtain st1 b where one: "recheck_one due_text files dir_of vstore active now jid st = (st1, b)" by force
  note step = recheck_one_step [OF Cons.prems(1) one]
  have "\<exists>first. work_queue st1 = work_queue st @ map recheck_item first \<and> distinct first \<and> set first \<subseteq> {jid}
     \<and> (\<forall>k. k \<in> set first \<longrightarrow> recheck_started (app_db st1) k
          \<and> (\<exists>j. get_job (app_db st) k = Some j \<and> recheck_ready files dir_of vstore active now (app_auth st) j))"
    using step by (elim conjE disjE exE) (rule exI [of _ "[]"], simp, rule exI [of _ "[jid]"], simp)
  then obtain first where first: "work_queue st1 = work_queue st @ map recheck_item first" "distinct first" "set first \<subseteq> {jid}"
    "\<And>k. k \<in> set first \<Longrightarrow> recheck_started (app_db st1) k
          \<and> (\<exists>j. get_job (app_db st) k = Some j \<and> recheck_ready files dir_of vstore active now (app_auth st) j)" by blast
  show ?case
  proof (cases b)
    case True
    with Cons.prems(3) one have "st' = st1" by simp
    with first step show ?thesis by (intro exI [of _ first]) auto
  next
    case False
    with Cons.prems(3) one have "recheck_all due_text files dir_of vstore active now jids st1 = (st', raised)" by simp
    with Cons.IH [of st1] step Cons.prems(2) obtain later where later:
      "work_queue st' = work_queue st1 @ map recheck_item later" "distinct later" "set later \<subseteq> set jids"
      "\<And>k. k \<notin> set jids \<Longrightarrow> get_job (app_db st') k = get_job (app_db st1) k"
      "\<And>k. k \<in> set later \<Longrightarrow> recheck_started (app_db st') k
          \<and> (\<exists>j. get_job (app_db st1) k = Some j \<and> recheck_ready files dir_of vstore active now (app_auth st1) j)" by auto
    show ?thesis
    proof (intro exI [of _ "first @ later"] conjI allI impI)
      show "work_queue st' = work_queue st @ map recheck_item (first @ later)" using first(1) later(1) by simp
      show "distinct (first @ later)" using first(2,3) later(2,3) Cons.prems(2) by auto
      show "set (first @ later) \<subseteq> set (jid # jids)" using first(3) later(3) by auto
    next
      fix k assume "k \<notin> set (jid # jids)"
      then show "get_job (app_db st') k = get_job (app_db st) k" using later(4) [of k] step by simp
    next
      fix k assume k: "k \<in> set (first @ later)"
      show "recheck_started (app_db st') k"
      proof (cases "k \<in> set first")
        case True
        with first(3) Cons.prems(2) have "k \<notin> set jids" by auto
        with later(4) [of k] first(4) [OF True] show ?thesis by (simp add: recheck_started_def)
      next
        case False
        with k later(5) [of k] show ?thesis by simp
      qed
      show "\<exists>j. get_job (app_db st) k = Some j \<and> recheck_ready files dir_of vstore active now (app_auth st) j"
      proof (cases "k \<in> set first")
        case True
        with first(4) show ?thesis by blast
      next
        case False
        with k have l: "k \<in> set later" by simp
        with later(3) Cons.prems(2) have "k \<noteq> jid" by auto
        with later(5) [OF l] step show ?thesis by simp
      qed
    qed
  qed
qed

text \<open>
  A pass over the waiting versions hands the workers only rechecks that are due: everything it appends
  to the queue is a recheck (an action that never uploads), each of another job, and that job waited for its
  version with a scheduled time that has come, inside its window, not canceled, owned by no worker, under an
  account that is still authorised and in no cooldown, and with an intact record of the exact version; its
  row is queued for checking.
\<close>

theorem rechecks_are_due:
  assumes "jobs_keyed (app_db st)"
    and "schedule_dataset_rechecks due_text files dir_of vstore active now st = (st', raised)"
  shows "\<exists>ready. work_queue st' = work_queue st @ map (\<lambda>k. \<lparr>work_action = Recheck_dataset, work_job = k\<rparr>) ready
    \<and> distinct ready
    \<and> (\<forall>k. k \<in> set ready \<longrightarrow> recheck_started (app_db st') k
          \<and> (\<exists>j. get_job (app_db st) k = Some j \<and> recheck_ready files dir_of vstore active now (app_auth st) j))"
proof -
  have "distinct (map job_id (list_jobs_by_status (app_db st) {Waiting_dataset}))"
    using assms(1) by (rule running_listed(1))
  from recheck_all_items [OF assms(1) this assms(2) [unfolded schedule_dataset_rechecks_def]] show ?thesis by blast
qed

text \<open>The state of the witness: one version whose recheck is due, and its intent.\<close>

definition due_state :: app_state where
  "due_state = \<lparr>app_db = sample_db [unverified_job\<lparr>dataset_recheck_state := Scheduled,
       dataset_recheck_at := Some 400, dataset_recheck_started_at := Some 100\<rparr>],
     app_auth = sample_store, work_queue = []\<rparr>"

definition retained_intent :: intent_file where
  "retained_intent = Intent_text (JObj [(''schema_version'', JInt 1), (''version_number'', JInt 7),
     (''state'', JStr ''unknown''), (''dataset_ref'', JStr (dataset_ref sample_job)), (''dataset_dir'', JStr ''/d'')])"

lemma rechecks_are_due_witness:
  "\<exists>ready. work_queue (fst (schedule_dataset_rechecks (\<lambda>_. []) (\<lambda>_. retained_intent) (\<lambda>_. ''/d'') None {} 500 due_state))
     = work_queue due_state @ map recheck_item ready"
proof -
  obtain st' r where run: "schedule_dataset_rechecks (\<lambda>_. []) (\<lambda>_. retained_intent) (\<lambda>_. ''/d'') None {} 500 due_state = (st', r)"
    by force
  have "jobs_keyed (app_db due_state)" by (simp add: due_state_def jobs_keyed_def sample_db_def)
  from rechecks_are_due [OF this run] run show ?thesis by auto
qed

lemma rechecks_start_example:
  "work_queue (fst (schedule_dataset_rechecks (\<lambda>_. []) (\<lambda>_. retained_intent) (\<lambda>_. ''/d'') None {} 500
     (due_state\<lparr>app_auth := sample_store\<lparr>store_legacy := True\<rparr>\<rparr>))) = [recheck_item ''j'']"
  by code_simp

end
