(* ===== verification/Provider_Text.thy ===== *)
theory Provider_Text
  imports Progress Dataset_Recheck
begin

text \<open>
  What the relay reads out of the texts the remote command line prints (parsers of
  \<^verbatim>\<open>app/kaggle_adapter.py\<close>): whether a failed status query is worth a retry, the status and version of a
  dataset, durations of a quota, and the progress reports in the log of a run; and the cache of verified
  dataset versions that rests on them (\<^verbatim>\<open>app/worker.py\<close>). \<open>loads\<close> stands for \<^verbatim>\<open>json.loads\<close> (\<^const>\<open>None\<close> when it raises),
  \<open>decode_first\<close> for \<^verbatim>\<open>raw_decode\<close>, \<open>render\<close> for \<^verbatim>\<open>str\<close> of a value that is no string; texts are ASCII and floats rationals.
\<close>

section \<open>Failed queries\<close>

fun has_word :: "bool \<Rightarrow> (string \<Rightarrow> bool) \<Rightarrow> string list \<Rightarrow> string \<Rightarrow> bool" where
  "has_word inside after words [] \<longleftrightarrow> False"
| "has_word inside after words (c # cs) \<longleftrightarrow>
     \<not> inside \<and> list_ex (\<lambda>w. prefix w (c # cs) \<and> after (drop (length w) (c # cs))) words
     \<or> has_word (is_word c) after words cs"

definition word_end :: "string \<Rightarrow> bool" where
  "word_end s = (case s of [] \<Rightarrow> True | c # _ \<Rightarrow> \<not> is_word c)"

definition after_spaces :: "string \<Rightarrow> string option" where
  "after_spaces s = (case s of [] \<Rightarrow> None | c # _ \<Rightarrow> if is_space c then Some (dropWhile is_space s) else None)"

definition error_follows :: "string \<Rightarrow> bool" where
  "error_follows s =
     (case after_spaces s of
        None \<Rightarrow> False
      | Some r \<Rightarrow> (prefix ''client'' r \<or> prefix ''server'' r) \<and>
          (case after_spaces (drop 6 r) of None \<Rightarrow> False | Some e \<Rightarrow> prefix ''error'' e \<and> word_end (drop 5 e)))"

definition permanent_words :: "string list" where
  "permanent_words = [''unauthorized'', ''forbidden'', ''not found'', ''sslerror'', ''certificate_verify_failed'', ''permission denied'']"

definition transient_words :: "string list" where
  "transient_words = [''connecttimeouterror'', ''readtimeouterror'', ''connectionerror'', ''newconnectionerror'',
     ''connectionreseterror'', ''remotedisconnected'', ''nameresolutionerror'',
     ''connection to api.kaggle.com timed out'', ''temporary failure in name resolution'']"

definition transient_kernel_query_output :: "string \<Rightarrow> bool" where
  "transient_kernel_query_output output =
     (let text = lower output in
      if list_ex (\<lambda>w. contains w text) permanent_words then False
      else if has_word False word_end [''401'', ''403'', ''404''] text then False
      else list_ex (\<lambda>w. contains w text) transient_words
        \<or> has_word False error_follows [''408'', ''429'', ''500'', ''502'', ''503'', ''504''] text)"

section \<open>The status of a dataset\<close>

definition ready_statuses :: "string list" where
  "ready_statuses = [''ready'', ''complete'', ''ok'']"

definition kaggle_status_lines :: "string \<Rightarrow> string list" where
  "kaggle_status_lines output = map (lower \<circ> strip) (filter (\<lambda>l. strip l \<noteq> []) (splitlines output))"

text \<open>\<^verbatim>\<open>text[text.find("{") : text.rfind("}") + 1]\<close>, when the first brace opens before the last one closes.\<close>

definition braced :: "string \<Rightarrow> string option" where
  "braced text =
     (let opened = dropWhile (\<lambda>c. c \<noteq> CHR ''{'') text;
          body = rev (dropWhile (\<lambda>c. c \<noteq> CHR ''}'') (rev opened))
      in if body = [] then None else Some body)"

definition str_or_empty :: "(json \<Rightarrow> string) \<Rightarrow> json option \<Rightarrow> string" where
  "str_or_empty render v = (if \<not> truthy v then [] else case v of Some (JStr s) \<Rightarrow> s | Some j \<Rightarrow> render j | None \<Rightarrow> [])"

definition version_of :: "json dict \<Rightarrow> int option" where
  "version_of d =
     Option.bind (case map_of d ''current_version_number'' of None \<Rightarrow> map_of d ''currentVersionNumber'' | Some v \<Rightarrow> Some v) py_int"

definition status_line :: "string list \<Rightarrow> string" where
  "status_line lines =
     (case find (\<lambda>l. l \<in> set ready_statuses \<or> l \<in> {''failed'', ''error'', ''deleted''}) (rev lines) of
        Some l \<Rightarrow> l
      | None \<Rightarrow> (if lines = [] then [] else last lines))"

definition parse_kaggle_dataset_status ::
  "(string \<Rightarrow> json option) \<Rightarrow> (json \<Rightarrow> string) \<Rightarrow> string \<Rightarrow> string \<times> int option" where
  "parse_kaggle_dataset_status loads render output =
     (let text = strip output in
      case Option.bind (braced text) loads of
        Some (JObj d) \<Rightarrow> (lower (strip (str_or_empty render (map_of d ''status''))), version_of d)
      | _ \<Rightarrow> (status_line (kaggle_status_lines text), None))"

definition is_ready_kaggle_status :: "(string \<Rightarrow> json option) \<Rightarrow> (json \<Rightarrow> string) \<Rightarrow> string \<Rightarrow> bool" where
  "is_ready_kaggle_status loads render output \<longleftrightarrow> fst (parse_kaggle_dataset_status loads render output) \<in> set ready_statuses"

definition ready_dataset_version :: "(string \<Rightarrow> json option) \<Rightarrow> (json \<Rightarrow> string) \<Rightarrow> string \<Rightarrow> int option" where
  "ready_dataset_version loads render st =
     (case parse_kaggle_dataset_status loads render st of
        (name, Some v) \<Rightarrow> if name \<in> set ready_statuses \<and> 0 < v then Some v else None
      | (_, None) \<Rightarrow> None)"

section \<open>The cache of ready versions\<close>

text \<open>\<open>ready\<close> says whether the status text of a row names a ready version.\<close>

definition get_ready_dataset_cache ::
  "(string \<Rightarrow> bool) \<Rightarrow> time \<Rightarrow> string \<Rightarrow> string \<Rightarrow> string \<Rightarrow> relay_db \<Rightarrow> cache_row option \<times> relay_db" where
  "get_ready_dataset_cache ready now ref ph key db =
     (if ph = [] then (None, db)
      else case get_current_dataset_cache db ref key of
          Some c \<Rightarrow>
            (if cache_hash c = ph \<and> cache_status c = ''ready'' \<and> ready (cache_dataset_status c) then Some c else None, db)
        | None \<Rightarrow>
            (case get_current_last_dataset_job db ref key of
               None \<Rightarrow> (None, db)
             | Some l \<Rightarrow>
                 if last_hash l = ph \<and> ready (last_dataset_status l)
                 then let db' = upsert_dataset_cache db now ref ph ''ready'' (last_dataset_status l) (last_job l) key
                      in (get_dataset_cache db' ref ph key, db')
                 else (None, db)))"

definition has_ready_dataset_cache ::
  "(string \<Rightarrow> bool) \<Rightarrow> time \<Rightarrow> string \<Rightarrow> string \<Rightarrow> string \<Rightarrow> relay_db \<Rightarrow> bool \<times> relay_db" where
  "has_ready_dataset_cache ready now ref ph key db =
     (let (c, db') = get_ready_dataset_cache ready now ref ph key db in (c \<noteq> None, db'))"

section \<open>Durations of a quota\<close>

text \<open>Whole seconds and microseconds; \<^const>\<open>None\<close> when the seconds are no number.\<close>

definition parse_kaggle_duration :: "string \<Rightarrow> (int \<times> int) option" where
  "parse_kaggle_duration value =
     (let text = strip value;
          text = (if text \<noteq> [] \<and> last text = CHR ''s'' then butlast text else text);
          (secs, rest) = run_of (\<lambda>c. c \<noteq> CHR ''.'') text;
          frac = filter is_digit (drop 1 rest);
          nanos = (if frac = [] then 0 else digits_value (take 9 (frac @ replicate 9 (CHR ''0''))))
      in map_option (\<lambda>n. (n, nanos div 1000)) (if secs = [] then Some 0 else signed_run (strip secs)))"

section \<open>Progress reports in a log\<close>

text \<open>The strings under \<^verbatim>\<open>data\<close> in a decoded value and the lists it holds.\<close>

fun data_texts :: "json \<Rightarrow> string list" where
  "data_texts (JArr xs) = concat (map data_texts xs)"
| "data_texts (JObj d) = (case map_of d ''data'' of Some (JStr s) \<Rightarrow> [s] | _ \<Rightarrow> [])"
| "data_texts _ = []"

definition data_lines :: "json option \<Rightarrow> string list" where
  "data_lines v = (case v of None \<Rightarrow> [] | Some j \<Rightarrow> concat (map splitlines (data_texts j)))"

definition drop_first :: "char \<Rightarrow> string \<Rightarrow> string" where
  "drop_first c s = (if s \<noteq> [] \<and> hd s = c then dropWhile is_space (tl s) else s)"

definition drop_last :: "char \<Rightarrow> string \<Rightarrow> string" where
  "drop_last c s = rev (drop_first c (rev s))"

definition log_record_text :: "string \<Rightarrow> string" where
  "log_record_text line = drop_last CHR '','' (drop_last CHR '']'' (drop_first CHR '','' (drop_first CHR ''['' (strip line))))"

definition wrapped_kaggle_log_lines :: "(string \<Rightarrow> json option) \<Rightarrow> string \<Rightarrow> string list" where
  "wrapped_kaggle_log_lines loads output =
     (let raw = splitlines output in
      if (case loads output of None \<Rightarrow> False | Some j \<Rightarrow> data_texts j \<noteq> []) then raw @ data_lines (loads output)
      else raw @ concat (map (\<lambda>c. data_lines (loads c)) (filter (\<lambda>c. c \<noteq> []) (map log_record_text raw))))"

definition progress_marker :: string where
  "progress_marker = ''TRAINING_PLATFORM_PROGRESS''"

text \<open>What follows the first occurrence of a text.\<close>

fun after_first :: "string \<Rightarrow> string \<Rightarrow> string option" where
  "after_first needle [] = (if needle = [] then Some [] else None)"
| "after_first needle (c # cs) =
     (if prefix needle (c # cs) then Some (drop (length needle) (c # cs)) else after_first needle cs)"

definition payload_text :: "string \<Rightarrow> string option" where
  "payload_text line =
     map_option (\<lambda>r. let t = strip r in if t \<noteq> [] \<and> hd t = CHR '':'' then strip (tl t) else t) (after_first progress_marker line)"

definition round2 :: "rat \<Rightarrow> rat" where
  "round2 x = of_int (round_half_even (100 * x)) / 100"

definition clamp_percent :: "rat \<Rightarrow> rat" where
  "clamp_percent x = round2 (min 100 (max 0 x))"

definition text_or_absent :: "json option \<Rightarrow> bool" where
  "text_or_absent v = (case v of None \<Rightarrow> True | Some (JStr _) \<Rightarrow> True | _ \<Rightarrow> False)"

definition phase_event :: "json dict \<Rightarrow> json dict option" where
  "phase_event p =
     (if map_of p ''backend'' \<noteq> Some (JStr ''patchcore'') \<or> \<not> nonblank (map_of p ''phase'') then None
      else case (Option.bind (map_of p ''overall_progress'') py_float, Option.bind (map_of p ''phase_current'') py_int,
                 Option.bind (map_of p ''phase_total'') py_int) of
          (Some overall, Some cur, Some tot) \<Rightarrow>
            if cur < 0 \<or> tot < 0 \<or> (0 < tot \<and> tot < cur)
               \<or> \<not> text_or_absent (map_of p ''status'') \<or> \<not> text_or_absent (map_of p ''error_code'') then None
            else Some (AList.update ''remote_progress'' (JFloat (clamp_percent overall))
                   (AList.update ''phase_total'' (JInt tot) (AList.update ''phase_current'' (JInt cur)
                     (AList.update ''phase'' (JStr (strip (str_field p ''phase''))) p))))
        | _ \<Rightarrow> None)"

definition epoch_event :: "json dict \<Rightarrow> json dict option" where
  "epoch_event p =
     (case (Option.bind (map_of p ''epoch'') py_int, Option.bind (map_of p ''epochs'') py_int) of
        (Some e, Some n) \<Rightarrow>
          if e \<le> 0 \<or> n \<le> 0 then None
          else Some (AList.update ''remote_progress'' (JFloat (clamp_percent (of_int e / of_int n * 100)))
                 (AList.update ''epochs'' (JInt n) (AList.update ''epoch'' (JInt e) p)))
      | _ \<Rightarrow> None)"

definition progress_event_of :: "json dict \<Rightarrow> json dict option" where
  "progress_event_of p =
     (if map_of p ''event_type'' = Some (JStr ''startup'')
      then (case parse_startup_progress p of [] \<Rightarrow> None | e \<Rightarrow> Some e)
      else if truthy (map_of p ''phase'') then phase_event p
      else epoch_event p)"

definition line_event :: "(string \<Rightarrow> json option) \<Rightarrow> string \<Rightarrow> json dict option" where
  "line_event decode_first line =
     (case Option.bind (payload_text line) decode_first of Some (JObj p) \<Rightarrow> progress_event_of p | _ \<Rightarrow> None)"

definition parse_training_progress_logs ::
  "(string \<Rightarrow> json option) \<Rightarrow> (string \<Rightarrow> json option) \<Rightarrow> string \<Rightarrow> json dict list" where
  "parse_training_progress_logs loads decode_first output =
     List.map_filter (line_event decode_first) (wrapped_kaggle_log_lines loads output)"

text \<open>The key under which two reports count as the same.\<close>

definition training_progress_key :: "json dict \<Rightarrow> json option list" where
  "training_progress_key p =
     (if map_of p ''event_type'' = Some (JStr ''startup'')
      then [Some (JStr ''startup''), map_of p ''startup_id'', map_of p ''startup_sequence'']
      else if truthy (map_of p ''phase'')
      then Some (JStr ''patchcore'')
        # map (map_of p) [''phase'', ''phase_current'', ''phase_total'', ''status'', ''error_code'']
        @ (if map_of p ''heartbeat'' = Some (JBool True) then [map_of p ''reported_at''] else [])
      else [Some (JStr ''epoch''), map_of p ''epoch'', map_of p ''epochs''])"

section \<open>Properties of the reports\<close>

lemma round_half_even_bounds:
  assumes "of_int a \<le> x" and "x \<le> of_int b"
  shows "a \<le> round_half_even x" and "round_half_even x \<le> b"
proof -
  have f: "a \<le> \<lfloor>x\<rfloor>" "\<lfloor>x\<rfloor> \<le> b" using assms by (simp_all add: le_floor_iff floor_le_iff)
  then show "a \<le> round_half_even x" by (auto simp: round_half_even_def Let_def)
  show "round_half_even x \<le> b"
  proof (cases "\<lfloor>x\<rfloor> = b")
    case True
    with assms(2) have "x - of_int \<lfloor>x\<rfloor> \<le> 0" by simp
    then have "x - of_int \<lfloor>x\<rfloor> < 1 / 2" by linarith
    with True show ?thesis by (simp add: round_half_even_def)
  next
    case False
    with f show ?thesis by (auto simp: round_half_even_def Let_def)
  qed
qed

lemma clamp_percent_bounds: "0 \<le> clamp_percent x" "clamp_percent x \<le> 100"
proof -
  let ?y = "100 * min 100 (max 0 x)"
  have "of_int 0 \<le> ?y" "?y \<le> of_int 10000" by auto
  from round_half_even_bounds [OF this] show "0 \<le> clamp_percent x" "clamp_percent x \<le> 100"
    by (simp_all add: clamp_percent_def round2_def)
qed

definition sound_report :: "json dict \<Rightarrow> bool" where
  "sound_report p \<longleftrightarrow>
     (if map_of p ''event_type'' = Some (JStr ''startup'')
      then (\<exists>n. map_of p ''startup_sequence'' = Some (JInt n) \<and> 1 \<le> n)
      else (\<exists>r. map_of p ''remote_progress'' = Some (JFloat r) \<and> 0 \<le> r \<and> r \<le> 100)
        \<and> (if truthy (map_of p ''phase'')
           then \<exists>c t. map_of p ''phase_current'' = Some (JInt c) \<and> map_of p ''phase_total'' = Some (JInt t)
                 \<and> 0 \<le> c \<and> 0 \<le> t \<and> (0 < t \<longrightarrow> c \<le> t)
           else \<exists>e n. map_of p ''epoch'' = Some (JInt e) \<and> map_of p ''epochs'' = Some (JInt n) \<and> 0 < e \<and> 0 < n))"

lemma phase_event_sound:
  assumes "phase_event p = Some e" and "map_of p ''event_type'' \<noteq> Some (JStr ''startup'')"
  shows "sound_report e"
proof -
  obtain w where w: "map_of p ''phase'' = Some (JStr w)" "strip w \<noteq> []"
    using assms(1) by (auto simp: phase_event_def nonblank_def split: if_splits option.splits json.splits)
  from assms clamp_percent_bounds w show ?thesis
    by (auto simp: phase_event_def sound_report_def update_conv' str_field_def split: if_splits option.splits)
qed

lemma epoch_event_sound:
  assumes "epoch_event p = Some e" and "map_of p ''event_type'' \<noteq> Some (JStr ''startup'')" and "\<not> truthy (map_of p ''phase'')"
  shows "sound_report e"
  using assms clamp_percent_bounds
  by (auto simp: epoch_event_def sound_report_def update_conv' split: if_splits option.splits)

lemma startup_event_sound:
  assumes "parse_startup_progress p = e" and "e \<noteq> []"
  shows "sound_report e"
proof -
  from assms obtain n ts where p: "startup_shape p" "startup_numbers p = Some (n, ts)"
    using parse_nonempty [of p] by auto
  from startup_numbers_parts [OF p(2)] obtain a b c where ts: "ts = [a, b, c]" "1 \<le> n" by metis
  from p(2) ts have "startup_numbers p = Some (n, [a, b, c])" by simp
  note m = map_of_parsed [OF p(1) this, unfolded assms(1)]
  have "map_of e ''event_type'' = Some (JStr ''startup'')"
    using p(1) by (simp add: m startup_keys_def startup_shape_def)
  moreover have "map_of e ''startup_sequence'' = Some (JInt n)" by (simp add: m startup_keys_def)
  ultimately show ?thesis using ts(2) by (simp add: sound_report_def)
qed

lemma progress_event_sound: "progress_event_of p = Some e \<Longrightarrow> sound_report e"
  unfolding progress_event_of_def
  by (auto split: if_splits list.splits intro: startup_event_sound phase_event_sound epoch_event_sound)

lemma raw_lines_kept: "set (splitlines output) \<subseteq> set (wrapped_kaggle_log_lines loads output)"
  by (auto simp: wrapped_kaggle_log_lines_def Let_def)

text \<open>
  Reading the log of a run loses no report and invents none: a report on a line of its own is found, and
  whatever is found is a startup observation with a positive sequence number or has a progress from 0 to 100
  and counters in range, no matter what else the log holds.
\<close>

theorem progress_reports_sound:
  "(\<forall>p. p \<in> set (parse_training_progress_logs loads decode_first output) \<longrightarrow> sound_report p)
   \<and> (\<forall>l e. l \<in> set (splitlines output) \<longrightarrow> line_event decode_first l = Some e \<longrightarrow>
        e \<in> set (parse_training_progress_logs loads decode_first output))"
proof (intro conjI allI impI)
  fix p assume "p \<in> set (parse_training_progress_logs loads decode_first output)"
  then obtain l where "line_event decode_first l = Some p"
    by (auto simp: parse_training_progress_logs_def List.map_filter_def)
  then show "sound_report p"
    by (auto simp: line_event_def split: option.splits json.splits intro: progress_event_sound)
next
  fix l e assume "l \<in> set (splitlines output)" and "line_event decode_first l = Some e"
  with subsetD [OF raw_lines_kept] show "e \<in> set (parse_training_progress_logs loads decode_first output)"
    by (force simp: parse_training_progress_logs_def List.map_filter_def)
qed

lemma progress_reports_sound_witness:
  "sound_report [(''epoch'', JInt 3), (''epochs'', JInt 4), (''remote_progress'', JFloat 75)]"
proof -
  let ?dec = "\<lambda>t. if t = ''x'' then Some (JObj [(''epoch'', JInt 3), (''epochs'', JInt 4)]) else None"
  have "parse_training_progress_logs (\<lambda>_. None) ?dec ''TRAINING_PLATFORM_PROGRESS x''
     = [[(''epoch'', JInt 3), (''epochs'', JInt 4), (''remote_progress'', JFloat 75)]]" by code_simp
  with progress_reports_sound [of "\<lambda>_. None" ?dec "''TRAINING_PLATFORM_PROGRESS x''"] show ?thesis
    by (metis list.set_intros(1))
qed

section \<open>Reuse of a version\<close>

lemma latest_max:
  assumes "latest stamp rows = Some r"
  shows "r \<in> set rows" and "x \<in> set rows \<Longrightarrow> stamp x \<le> stamp r"
proof -
  obtain xs where xs: "sort_key stamp rows = xs @ [r]"
    using assms by (auto simp: latest_def rev_eq_Cons_iff split: list.splits)
  then have "r \<in> set (sort_key stamp rows)" by simp
  then show "r \<in> set rows" by simp
  have "sorted (map stamp (xs @ [r]))" by (metis sorted_sort_key xs)
  moreover assume "x \<in> set rows"
  then have "x \<in> set (xs @ [r])" by (metis set_sort xs)
  ultimately show "stamp x \<le> stamp r" by (auto simp: sorted_append)
qed

lemma latest_None: "latest stamp rows = None \<longleftrightarrow> rows = []"
  by (auto simp: latest_def split: list.splits) (metis length_0_conv length_sort)

text \<open>
  An upload is skipped only for the current version: when the relay reuses a cached version of a dataset,
  the row it uses is of exactly the requested payload, is marked as verified and names a ready version, and
  no row the cache held for this dataset and account is newer; a row taken over from an earlier job is taken
  only when the cache held none, and from the newest such job.
\<close>

theorem reused_version_is_current:
  assumes "get_ready_dataset_cache ready now ref ph key db = (Some c, db')"
  shows "ph \<noteq> [] \<and> cache_key_of c = (key, ref, ph) \<and> cache_status c = ''ready'' \<and> ready (cache_dataset_status c)
    \<and> (let held = filter (\<lambda>r. cache_key r = key \<and> cache_ref r = ref) (dataset_cache db) in
        if held = [] then
          \<exists>l \<in> set (last_jobs db). last_key_of l = (key, ref, ph) \<and> last_dataset_status l = cache_dataset_status c
            \<and> (\<forall>x. x \<in> set (last_jobs db) \<longrightarrow> last_key x = key \<longrightarrow> last_ref x = ref \<longrightarrow> last_updated x \<le> last_updated l)
        else c \<in> set held \<and> (\<forall>x. x \<in> set held \<longrightarrow> cache_updated x \<le> cache_updated c))"
proof (cases "get_current_dataset_cache db ref key")
  case (Some r)
  then have l: "latest cache_updated (filter (\<lambda>r. cache_key r = key \<and> cache_ref r = ref) (dataset_cache db)) = Some r"
    by (simp add: get_current_dataset_cache_def)
  from assms Some have c: "c = r" "ph \<noteq> []" "cache_hash r = ph" "cache_status r = ''ready''" "ready (cache_dataset_status r)"
    by (auto simp: get_ready_dataset_cache_def split: if_splits)
  from latest_max(1) [OF l] have "r \<in> set (dataset_cache db)" "cache_key r = key" "cache_ref r = ref" by auto
  with c latest_max(2) [OF l] show ?thesis by (auto simp: cache_key_of_def Let_def filter_empty_conv)
next
  case None
  then have held: "filter (\<lambda>r. cache_key r = key \<and> cache_ref r = ref) (dataset_cache db) = []"
    by (simp add: get_current_dataset_cache_def latest_None)
  from assms None obtain l where l: "get_current_last_dataset_job db ref key = Some l" "ph \<noteq> []" "last_hash l = ph"
    "ready (last_dataset_status l)"
    and row: "get_dataset_cache (upsert_dataset_cache db now ref ph ''ready'' (last_dataset_status l) (last_job l) key) ref ph key = Some c"
    by (auto simp: get_ready_dataset_cache_def Let_def split: if_splits option.splits)
  then have m: "latest last_updated (filter (\<lambda>r. last_key r = key \<and> last_ref r = ref) (last_jobs db)) = Some l"
    by (simp add: get_current_last_dataset_job_def)
  have "find (\<lambda>r. cache_key_of r = (key, ref, ph)) (dataset_cache db) = None"
    using held by (auto simp: find_None_iff filter_empty_conv cache_key_of_def)
  then have c: "cache_key_of c = (key, ref, ph)" "cache_status c = ''ready''" "cache_dataset_status c = last_dataset_status l"
    using row l(2) by (simp_all add: get_dataset_cache_def upsert_dataset_cache_def find_upsert) (auto simp: cache_key_of_def)
  from latest_max(1) [OF m] have "l \<in> set (last_jobs db)" "last_key l = key" "last_ref l = ref" by auto
  with c l(2-4) latest_max(2) [OF m] held show ?thesis
    by (auto simp: last_key_of_def Let_def intro!: bexI [of _ l])
qed

lemma reused_version_is_current_witness:
  "\<exists>c db'. get_ready_dataset_cache (\<lambda>t. t = ''ready'') 9 ''u/d'' ''h'' ''k''
      (upsert_dataset_cache (sample_db []) 5 ''u/d'' ''h'' ''ready'' ''ready'' ''j'' ''k'') = (Some c, db')
     \<and> cache_key_of c = (''k'', ''u/d'', ''h'')"
proof -
  have "fst (get_ready_dataset_cache (\<lambda>t. t = ''ready'') 9 ''u/d'' ''h'' ''k''
      (upsert_dataset_cache (sample_db []) 5 ''u/d'' ''h'' ''ready'' ''ready'' ''j'' ''k'')) \<noteq> None"
    by code_simp
  then obtain c db' where r: "get_ready_dataset_cache (\<lambda>t. t = ''ready'') 9 ''u/d'' ''h'' ''k''
      (upsert_dataset_cache (sample_db []) 5 ''u/d'' ''h'' ''ready'' ''ready'' ''j'' ''k'') = (Some c, db')"
    by (metis option.exhaust prod.collapse)
  from reused_version_is_current [OF r] r show ?thesis by blast
qed

end
