(* ===== verification/Payload_Metadata.thy ===== *)
theory Payload_Metadata
  imports Admission Provider_Text
begin

text \<open>
  The two metadata files of a submission (\<^verbatim>\<open>app/worker.py\<close>): they are rewritten to the references the job
  was given, checked against the account that submits, and the kernel's sources are pinned to the version
  of the dataset that was verified. A directory holds the JSON documents by name and says of any other
  relative path whether it is a file; a file that was just written decodes to what was written. \<open>render\<close> is
  \<^verbatim>\<open>str\<close> of a JSON value that is no string. An error is the text of the exception.
\<close>

section \<open>Files\<close>

text \<open>A document that decodes, one that is not JSON, or one whose bytes cannot be read as text.\<close>

datatype doc = Decoded json | Not_json | Undecodable string

record payload_dir =
  docs :: "doc dict"
  other_file :: "string \<Rightarrow> bool"

definition require_file :: "payload_dir \<Rightarrow> string \<Rightarrow> string + unit" where
  "require_file d path =
     (if map_of (docs d) path \<noteq> None \<or> other_file d path then Inr () else Inl (''required file missing: '' @ path))"

definition read_metadata_json :: "payload_dir \<Rightarrow> string \<Rightarrow> string + json dict" where
  "read_metadata_json d name =
     (case map_of (docs d) name of
        Some (Decoded (JObj m)) \<Rightarrow> Inr m
      | Some (Decoded _) \<Rightarrow> Inl (name @ '' must be a JSON object'')
      | Some (Undecodable e) \<Rightarrow> Inl e
      | _ \<Rightarrow> Inl (name @ '' is not valid JSON''))"

definition write_metadata_json :: "string \<Rightarrow> json dict \<Rightarrow> payload_dir \<Rightarrow> payload_dir" where
  "write_metadata_json name m d = d\<lparr>docs := AList.update name (Decoded (JObj m)) (docs d)\<rparr>"

abbreviation kernel_file :: string where "kernel_file \<equiv> ''kernel-metadata.json''"

abbreviation dataset_file :: string where "dataset_file \<equiv> ''dataset-metadata.json''"

section \<open>References inside the metadata\<close>

definition same_slug :: "string \<Rightarrow> json \<Rightarrow> bool" where
  "same_slug slug j \<longleftrightarrow> (case j of JStr s \<Rightarrow> lower (kaggle_ref_slug s) = slug | _ \<Rightarrow> False)"

definition bind_source :: "string \<Rightarrow> json \<Rightarrow> json" where
  "bind_source ref j = (if same_slug (lower (kaggle_ref_slug ref)) j then JStr ref else j)"

text \<open>\<^const>\<open>None\<close> when nothing changes; otherwise the metadata with its new sources.\<close>

definition rewrite_dataset_sources :: "json dict \<Rightarrow> string \<Rightarrow> json dict option" where
  "rewrite_dataset_sources m ref =
     (if lower (kaggle_ref_slug ref) = [] then None
      else case map_of m ''dataset_sources'' of
          Some (JArr xs) \<Rightarrow>
            (if list_ex (\<lambda>j. same_slug (lower (kaggle_ref_slug ref)) j \<and> j \<noteq> JStr ref) xs
             then Some (AList.update ''dataset_sources'' (JArr (map (bind_source ref) xs)) m) else None)
        | _ \<Rightarrow> None)"

definition pin_kernel_dataset_version :: "string \<Rightarrow> int option \<Rightarrow> payload_dir \<Rightarrow> (string + unit) \<times> payload_dir" where
  "pin_kernel_dataset_version ref version d =
     (case version of
        None \<Rightarrow> (Inr (), d)
      | Some v \<Rightarrow>
          if v \<le> 0 then (Inr (), d)
          else case require_file d kernel_file of
              Inl e \<Rightarrow> (Inl e, d)
            | Inr _ \<Rightarrow>
                (case read_metadata_json d kernel_file of
                   Inl e \<Rightarrow> (Inl e, d)
                 | Inr m \<Rightarrow>
                     (case rewrite_dataset_sources m (ref @ ''/'' @ int_text v) of
                        None \<Rightarrow> (Inr (), d)
                      | Some m' \<Rightarrow> (Inr (), write_metadata_json kernel_file m' d))))"

definition metadata_id :: "(json \<Rightarrow> string) \<Rightarrow> json dict \<Rightarrow> string" where
  "metadata_id render m = strip (str_or_empty render (map_of m ''id''))"

text \<open>The new identifier: \<^const>\<open>None\<close> when the stored one stays.\<close>

definition new_id :: "string \<Rightarrow> string \<Rightarrow> string \<Rightarrow> string + string option" where
  "new_id name current expected =
     (if expected = [] then Inr None
      else if current = [] then Inr (Some expected)
      else case split_kaggle_ref current (name @ '' id'') of
          Inl (ArchiveError e) \<Rightarrow> Inl e
        | Inr (_, slug) \<Rightarrow>
            (case split_kaggle_ref expected (name @ '' requested ref'') of
               Inl (ArchiveError e) \<Rightarrow> Inl e
             | Inr (_, slug') \<Rightarrow>
                 if lower slug \<noteq> lower slug'
                 then Inl (name @ '' id '' @ current @ '' does not match requested ref '' @ expected)
                 else Inr (if current = expected then None else Some expected)))"

definition prepare_metadata_ref ::
  "(json \<Rightarrow> string) \<Rightarrow> string \<Rightarrow> string \<Rightarrow> string \<Rightarrow> payload_dir \<Rightarrow> (string + json dict) \<times> payload_dir" where
  "prepare_metadata_ref render name expected dref d =
     (case read_metadata_json d name of
        Inl e \<Rightarrow> (Inl e, d)
      | Inr m \<Rightarrow>
          (case new_id name (metadata_id render m) expected of
             Inl e \<Rightarrow> (Inl e, d)
           | Inr i \<Rightarrow>
               let m1 = (case i of None \<Rightarrow> m | Some r \<Rightarrow> AList.update ''id'' (JStr r) m);
                   bound = (if name = kernel_file then rewrite_dataset_sources m1 dref else None);
                   m2 = (case bound of None \<Rightarrow> m1 | Some m' \<Rightarrow> m')
               in (Inr m2, if i \<noteq> None \<or> bound \<noteq> None then write_metadata_json name m2 d else d)))"

text \<open>\<open>user\<close> is the user name of the credentials, empty when there are none.\<close>

definition validate_metadata_ref ::
  "(json \<Rightarrow> string) \<Rightarrow> json dict \<Rightarrow> string \<Rightarrow> string \<Rightarrow> string \<Rightarrow> string + unit" where
  "validate_metadata_ref render m name expected user =
     (let ref = metadata_id render m; user = strip user in
      if ref = [] then Inl (name @ '' requires id'')
      else case split_kaggle_ref ref (name @ '' id'') of
          Inl (ArchiveError e) \<Rightarrow> Inl e
        | Inr (owner, _) \<Rightarrow>
            if expected \<noteq> [] \<and> lower ref \<noteq> lower expected
            then Inl (name @ '' id '' @ ref @ '' does not match requested ref '' @ expected)
            else if user \<noteq> [] \<and> lower owner \<noteq> lower user
            then Inl (name @ '' owner '' @ owner @ '' does not match Kaggle key username '' @ user)
            else Inr ())"

section \<open>The checks before a submission\<close>

definition check_metadata ::
  "(json \<Rightarrow> string) \<Rightarrow> string \<Rightarrow> string \<Rightarrow> string \<Rightarrow> string \<Rightarrow> payload_dir \<Rightarrow> (string + json dict) \<times> payload_dir" where
  "check_metadata render name expected dref user d =
     (case require_file d name of
        Inl e \<Rightarrow> (Inl e, d)
      | Inr _ \<Rightarrow>
          (case prepare_metadata_ref render name expected dref d of
             (Inl e, d') \<Rightarrow> (Inl e, d')
           | (Inr m, d') \<Rightarrow>
               (case validate_metadata_ref render m name expected user of
                  Inl e \<Rightarrow> (Inl e, d')
                | Inr _ \<Rightarrow> (Inr m, d'))))"

definition code_file_of :: "(json \<Rightarrow> string) \<Rightarrow> json dict \<Rightarrow> string" where
  "code_file_of render m =
     (let s = str_or_empty render (map_of m ''code_file'') in if s = [] then ''train.py'' else s)"

definition validate_kernel_payload ::
  "(json \<Rightarrow> string) \<Rightarrow> string \<Rightarrow> string \<Rightarrow> string \<Rightarrow> payload_dir \<Rightarrow> (string + string) \<times> payload_dir" where
  "validate_kernel_payload render kref user dref d =
     (case check_metadata render kernel_file kref dref user d of
        (Inl e, d') \<Rightarrow> (Inl e, d')
      | (Inr m, d') \<Rightarrow>
          (case require_file d' (code_file_of render m) of
             Inl e \<Rightarrow> (Inl e, d')
           | Inr _ \<Rightarrow> (Inr (code_file_of render m), d')))"

definition validate_payloads ::
  "(json \<Rightarrow> string) \<Rightarrow> string \<Rightarrow> string \<Rightarrow> string \<Rightarrow> payload_dir \<times> payload_dir
   \<Rightarrow> (string + string) \<times> payload_dir \<times> payload_dir" where
  "validate_payloads render dref kref user dirs =
     (case check_metadata render dataset_file dref [] user (fst dirs) of
        (Inl e, d) \<Rightarrow> (Inl e, d, snd dirs)
      | (Inr _, d) \<Rightarrow>
          (case validate_kernel_payload render kref user dref (snd dirs) of (r, k) \<Rightarrow> (r, d, k)))"

section \<open>What a checked submission is bound to\<close>

text \<open>A metadata file names the reference, and its owner is the submitting user.\<close>

definition names_ref :: "(json \<Rightarrow> string) \<Rightarrow> string \<Rightarrow> string \<Rightarrow> string \<Rightarrow> payload_dir \<Rightarrow> bool" where
  "names_ref render name ref user d \<longleftrightarrow>
     (case read_metadata_json d name of
        Inl _ \<Rightarrow> False
      | Inr m \<Rightarrow> metadata_id render m = ref \<and> (strip user \<noteq> [] \<longrightarrow> lower (ref_owner ref) = lower (strip user)))"

definition dataset_sources :: "payload_dir \<Rightarrow> json list" where
  "dataset_sources d =
     (case read_metadata_json d kernel_file of
        Inr m \<Rightarrow> (case map_of m ''dataset_sources'' of Some (JArr xs) \<Rightarrow> xs | _ \<Rightarrow> [])
      | Inl _ \<Rightarrow> [])"

lemma read_written [simp]:
  "read_metadata_json (write_metadata_json n m d) k = (if k = n then Inr m else read_metadata_json d k)"
  by (simp add: read_metadata_json_def write_metadata_json_def)

lemma require_written [simp]: "require_file d k = Inr () \<Longrightarrow> require_file (write_metadata_json n m d) k = Inr ()"
  by (auto simp: require_file_def write_metadata_json_def update_conv' split: if_splits)

text \<open>The list of sources after a rewriting, changed or not.\<close>

definition sources_in :: "json dict \<Rightarrow> json list" where
  "sources_in m = (case map_of m ''dataset_sources'' of Some (JArr xs) \<Rightarrow> xs | _ \<Rightarrow> [])"

lemma bind_source_id: "\<not> (same_slug (lower (kaggle_ref_slug ref)) j \<and> j \<noteq> JStr ref) \<Longrightarrow> bind_source ref j = j"
  by (auto simp: bind_source_def)

lemma rewritten_sources:
  assumes "kaggle_ref_slug ref \<noteq> []"
  shows "sources_in (case rewrite_dataset_sources m ref of None \<Rightarrow> m | Some m' \<Rightarrow> m') = map (bind_source ref) (sources_in m)"
  using assms
  by (auto simp: rewrite_dataset_sources_def sources_in_def lower_def list_ex_iff bind_source_id map_idI
      split: option.splits json.splits if_splits)

lemma rewritten_other:
  "k \<noteq> ''dataset_sources'' \<Longrightarrow> map_of (case rewrite_dataset_sources m ref of None \<Rightarrow> m | Some m' \<Rightarrow> m') k = map_of m k"
  by (auto simp: rewrite_dataset_sources_def split: option.splits json.splits)

lemma dataset_sources_in: "read_metadata_json d kernel_file = Inr m \<Longrightarrow> dataset_sources d = sources_in m"
  by (simp add: dataset_sources_def sources_in_def)

text \<open>Slugs of a plain reference and of one with a version.\<close>

lemma split_on_append: "c \<notin> set a \<Longrightarrow> split_on c (a @ c # b) = a # split_on c b"
  by (induction a) auto

lemma split_on_plain: "c \<notin> set a \<Longrightarrow> split_on c a = [a]"
  by (induction a) auto

lemma decimal_char:
  assumes "d < 10"
  shows "\<not> is_space (char_of (48 + d :: nat)) \<and> char_of (48 + d :: nat) \<noteq> CHR ''/''"
proof
  have v: "(of_char (char_of (48 + d) :: char) :: nat) = 48 + d" using assms by simp
  then show "\<not> is_space (char_of (48 + d))" by (simp add: is_space_def Let_def)
  show "char_of (48 + d :: nat) \<noteq> CHR ''/''"
  proof
    assume e: "char_of (48 + d :: nat) = CHR ''/''"
    have "(of_char (CHR ''/'') :: nat) = 48 + d" using v unfolding e .
    then show False by simp
  qed
qed

lemma nat_text_digits: "c \<in> set (nat_text n) \<Longrightarrow> \<not> is_space c \<and> c \<noteq> CHR ''/''"
proof (induction n rule: nat_text.induct)
  case (1 n)
  have last_digit: "\<not> is_space (char_of (48 + n mod 10)) \<and> (char_of (48 + n mod 10) :: char) \<noteq> CHR ''/''"
    using decimal_char [of "n mod 10"] by simp
  have "nat_text n = (if n < 10 then [] else nat_text (n div 10)) @ [char_of (48 + n mod 10)]" by (rule nat_text.simps)
  with 1 last_digit show ?case by (auto split: if_splits)
qed

lemma strip_no_space: "\<forall>c \<in> set s. \<not> is_space c \<Longrightarrow> strip s = s"
proof -
  assume s: "\<forall>c \<in> set s. \<not> is_space c"
  have drop: "dropWhile is_space xs = xs" if "\<forall>c \<in> set xs. \<not> is_space c" for xs using that by (cases xs) auto
  show ?thesis using s drop [of s] drop [of "rev s"] by (simp add: strip_def)
qed

lemma nat_text_nonempty [simp]: "nat_text n \<noteq> []"
  by (subst nat_text.simps) simp

lemma version_text: "0 < v \<Longrightarrow> strip (int_text v) = int_text v \<and> int_text v \<noteq> [] \<and> CHR ''/'' \<notin> set (int_text v)"
  using nat_text_digits by (fastforce simp: int_text_def intro: strip_no_space)

definition plain_ref :: "string \<Rightarrow> bool" where
  "plain_ref ref \<longleftrightarrow>
     (case split_on (CHR ''/'') ref of [a, b] \<Rightarrow> strip a = a \<and> strip b = b \<and> a \<noteq> [] \<and> b \<noteq> [] | _ \<Rightarrow> False)"

lemma split_on_notin: "x \<in> set (split_on c s) \<Longrightarrow> c \<notin> set x"
  by (induction s arbitrary: x) (auto split: if_splits list.splits)

lemma plain_refD:
  assumes "plain_ref ref"
  obtains a b where "ref = a @ CHR ''/'' # b" "strip a = a" "strip b = b" "a \<noteq> []" "b \<noteq> []"
    "CHR ''/'' \<notin> set a" "CHR ''/'' \<notin> set b"
proof -
  from assms obtain a b where s: "split_on (CHR ''/'') ref = [a, b]"
    and ab: "strip a = a" "strip b = b" "a \<noteq> []" "b \<noteq> []"
    by (auto simp: plain_ref_def split: list.splits)
  have "ref = a @ CHR ''/'' # b" using join_split_on [of "CHR ''/''" ref] by (simp add: s)
  moreover have "CHR ''/'' \<notin> set a" "CHR ''/'' \<notin> set b" using split_on_notin [of _ "CHR ''/''" ref] by (auto simp: s)
  ultimately show thesis using ab by (intro that)
qed

lemma plain_slugs:
  assumes "plain_ref ref" and "0 < v"
  shows "kaggle_ref_slug ref \<noteq> []" and "kaggle_ref_slug (ref @ ''/'' @ int_text v) = kaggle_ref_slug ref"
proof -
  from assms(1) obtain a b where r: "ref = a @ CHR ''/'' # b" "strip a = a" "strip b = b" "a \<noteq> []" "b \<noteq> []"
    "CHR ''/'' \<notin> set a" "CHR ''/'' \<notin> set b" by (rule plain_refD)
  note t = version_text [OF assms(2)]
  have "strip ref = ref" using r by (simp add: strip_owner_slug)
  moreover have "strip (ref @ ''/'' @ int_text v) = ref @ ''/'' @ int_text v"
    using strip_owner_slug [OF r(2,4), of "b @ CHR ''/'' # int_text v"] strip_owner_slug [OF r(3,5), of "int_text v"] t r(1) by simp
  ultimately show "kaggle_ref_slug ref \<noteq> []" "kaggle_ref_slug (ref @ ''/'' @ int_text v) = kaggle_ref_slug ref"
    using r by (simp_all add: kaggle_ref_slug_def split_on_append split_on_plain)
qed

lemma strip_same_length: "length (strip s) = length s \<Longrightarrow> strip s = s"
proof -
  assume l: "length (strip s) = length s"
  have "length (strip s) \<le> length (dropWhile is_space s)"
    unfolding strip_def by (metis length_dropWhile_le length_rev)
  then have "dropWhile is_space s = s"
    using l length_dropWhile_le [of is_space s]
    by (metis dropWhile_eq_drop drop_eq_Nil2 le_antisym length_drop diff_is_0_eq' drop0 length_takeWhile_le diff_diff_cancel)
  with l show ?thesis
    unfolding strip_def
    by (metis dropWhile_eq_drop drop0 length_drop length_rev length_takeWhile_le diff_diff_cancel rev_rev_ident diff_self_eq_0)
qed

lemma lower_length: "lower a = lower b \<Longrightarrow> length a = length b"
  by (metis length_map lower_def)

lemma split_ref_owner: "split_kaggle_ref v nm = Inr (a, b) \<Longrightarrow> ref_owner v = a"
  by (auto simp: split_kaggle_ref_def ref_owner_def split: list.splits if_splits)

lemma prepared:
  assumes "prepare_metadata_ref render name expected dref d = (Inr m, d')" and "expected \<noteq> []"
  shows "read_metadata_json d' name = Inr m" and "metadata_id render m \<in> {expected, strip expected}"
    and "name = kernel_file \<Longrightarrow> kaggle_ref_slug dref \<noteq> [] \<Longrightarrow> sources_in m = map (bind_source dref) (dataset_sources d)"
proof -
  from assms(1) obtain m0 i where r: "read_metadata_json d name = Inr m0" and i: "new_id name (metadata_id render m0) expected = Inr i"
    by (auto simp: prepare_metadata_ref_def Let_def split: sum.splits)
  define m1 where "m1 = (case i of None \<Rightarrow> m0 | Some r \<Rightarrow> AList.update ''id'' (JStr r) m0)"
  define b where "b = (if name = kernel_file then rewrite_dataset_sources m1 dref else None)"
  have m: "m = (case b of None \<Rightarrow> m1 | Some m' \<Rightarrow> m')"
    and d': "d' = (if i \<noteq> None \<or> b \<noteq> None then write_metadata_json name m d else d)"
    using assms(1) r i unfolding prepare_metadata_ref_def Let_def m1_def b_def by auto
  show "read_metadata_json d' name = Inr m"
    using r by (auto simp: d' m m1_def split: option.splits)
  have i1: "metadata_id render m1 \<in> {expected, strip expected}"
    using i assms(2)
    by (auto simp: m1_def new_id_def metadata_id_def str_or_empty_def split: if_splits sum.splits archive_error.splits)
  have "map_of m ''id'' = map_of m1 ''id''"
    using rewritten_other [of "''id''" m1 dref] by (auto simp: m b_def)
  then show "metadata_id render m \<in> {expected, strip expected}" using i1 by (simp add: metadata_id_def)
  assume n: "name = kernel_file" "kaggle_ref_slug dref \<noteq> []"
  have "sources_in m1 = sources_in m0" by (auto simp: m1_def sources_in_def split: option.splits)
  with rewritten_sources [OF n(2), of m1] show "sources_in m = map (bind_source dref) (dataset_sources d)"
    using n(1) r by (simp add: m b_def dataset_sources_in)
qed

lemma checked:
  assumes "check_metadata render name expected dref user d = (Inr m, d')" and "expected \<noteq> []"
  shows "names_ref render name expected user d'" and "read_metadata_json d' name = Inr m"
    and "name = kernel_file \<Longrightarrow> kaggle_ref_slug dref \<noteq> [] \<Longrightarrow> dataset_sources d' = map (bind_source dref) (dataset_sources d)"
proof -
  from assms(1) have p: "prepare_metadata_ref render name expected dref d = (Inr m, d')"
    and v: "validate_metadata_ref render m name expected user = Inr ()"
    by (auto simp: check_metadata_def split: sum.splits prod.splits)
  note P = prepared [OF p assms(2)]
  from v assms(2) obtain a b where sp: "split_kaggle_ref (metadata_id render m) (name @ '' id'') = Inr (a, b)"
    and low: "lower (metadata_id render m) = lower expected" and own: "strip user = [] \<or> lower a = lower (strip user)"
    by (auto simp: validate_metadata_ref_def Let_def split: if_splits sum.splits archive_error.splits)
  have "metadata_id render m = expected"
    using P(2) lower_length [OF low] strip_same_length by auto
  with sp own P(1) show "names_ref render name expected user d'"
    by (auto simp: names_ref_def dest: split_ref_owner)
  show "read_metadata_json d' name = Inr m" by (rule P(1))
  show "name = kernel_file \<Longrightarrow> kaggle_ref_slug dref \<noteq> [] \<Longrightarrow> dataset_sources d' = map (bind_source dref) (dataset_sources d)"
    using P(1,3) by (auto simp: dataset_sources_in)
qed

lemma kernel_checked:
  assumes "validate_kernel_payload render kref user dref k = (Inr code, k')" and "kref \<noteq> []"
  shows "names_ref render kernel_file kref user k'" and "require_file k' code = Inr ()"
    and "kaggle_ref_slug dref \<noteq> [] \<Longrightarrow> dataset_sources k' = map (bind_source dref) (dataset_sources k)"
  using assms checked [of render kernel_file kref dref user k]
  by (auto simp: validate_kernel_payload_def split: sum.splits prod.splits)

definition bound_submission ::
  "(json \<Rightarrow> string) \<Rightarrow> string \<Rightarrow> string \<Rightarrow> string \<Rightarrow> string \<Rightarrow> payload_dir \<times> payload_dir \<Rightarrow> bool" where
  "bound_submission render dref kref user code dirs \<longleftrightarrow>
     names_ref render dataset_file dref user (fst dirs) \<and> names_ref render kernel_file kref user (snd dirs)
     \<and> require_file (snd dirs) code = Inr ()"

text \<open>
  A submission that passes the checks is bound to its job: after them both metadata files name exactly
  the references of the job, owned by the user of the account that submits, and the script exists.
\<close>

theorem checked_submission_bound:
  assumes "validate_payloads render dref kref user (d, k) = (Inr code, d', k')" and "dref \<noteq> []" and "kref \<noteq> []"
  shows "bound_submission render dref kref user code (d', k')"
proof -
  from assms(1) obtain m where d: "check_metadata render dataset_file dref [] user d = (Inr m, d')"
    and k: "validate_kernel_payload render kref user dref k = (Inr code, k')"
    by (auto simp: validate_payloads_def split: sum.splits prod.splits)
  show ?thesis
    using checked(1) [OF d assms(2)] kernel_checked(1,2) [OF k assms(3)] by (simp add: bound_submission_def)
qed

section \<open>The version a kernel reads\<close>

lemma pinned_sources:
  assumes "plain_ref ref" and "0 < v" and "pin_kernel_dataset_version ref (Some v) d = (Inr (), d')"
  shows "dataset_sources d' = map (bind_source (ref @ ''/'' @ int_text v)) (dataset_sources d)"
proof -
  let ?ref = "ref @ ''/'' @ int_text v"
  have slug: "kaggle_ref_slug ?ref \<noteq> []" using plain_slugs [OF assms(1,2)] by simp
  from assms(2,3) obtain m where m: "read_metadata_json d kernel_file = Inr m"
    and d': "d' = (case rewrite_dataset_sources m ?ref of None \<Rightarrow> d | Some m' \<Rightarrow> write_metadata_json kernel_file m' d)"
    by (auto simp: pin_kernel_dataset_version_def split: sum.splits option.splits)
  have "dataset_sources d' = sources_in (case rewrite_dataset_sources m ?ref of None \<Rightarrow> m | Some m' \<Rightarrow> m')"
    using m by (auto simp: d' intro!: dataset_sources_in split: option.splits)
  with rewritten_sources [OF slug, of m] m show ?thesis by (simp add: dataset_sources_in)
qed

lemma bind_twice:
  assumes "plain_ref ref" and "0 < v"
  shows "bind_source (ref @ ''/'' @ int_text v) (bind_source ref j) = bind_source (ref @ ''/'' @ int_text v) j"
  using plain_slugs [OF assms] by (simp add: bind_source_def same_slug_def)

text \<open>
  A kernel that is checked and then pinned reads the verified version of the job's dataset: every
  source with its slug, whatever its owner or version was, is exactly that version, the other sources are
  untouched and none is added or dropped.
\<close>

theorem kernel_reads_verified_version:
  assumes "validate_kernel_payload render kref user ref k = (Inr code, k')" and "kref \<noteq> []"
    and "pin_kernel_dataset_version ref (Some v) k' = (Inr (), k'')" and "plain_ref ref" and "0 < v"
  shows "dataset_sources k'' = map (bind_source (ref @ ''/'' @ int_text v)) (dataset_sources k)"
  using pinned_sources [OF assms(4,5,3)] kernel_checked(3) [OF assms(1,2)] plain_slugs(1) [OF assms(4,5)]
  by (simp add: bind_twice [OF assms(4,5), simplified] comp_def)

definition sample_kernel :: payload_dir where
  "sample_kernel = \<lparr>docs = [(kernel_file, Decoded (JObj [(''id'', JStr ''me/run''), (''code_file'', JStr ''run.py''),
      (''dataset_sources'', JArr [JStr ''old/Cats/3'', JStr ''x/dogs''])]))], other_file = (\<lambda>p. p = ''run.py'')\<rparr>"

definition sample_dataset :: payload_dir where
  "sample_dataset = \<lparr>docs = [(dataset_file, Decoded (JObj [(''id'', JStr ''old/cats'')]))], other_file = (\<lambda>_. False)\<rparr>"

definition no_text :: "json \<Rightarrow> string" where "no_text j = []"

lemma checked_submission_bound_witness:
  "\<exists>d' k'. validate_payloads no_text ''me/cats'' ''me/run'' ''Me'' (sample_dataset, sample_kernel) = (Inr ''run.py'', d', k')
     \<and> bound_submission no_text ''me/cats'' ''me/run'' ''Me'' ''run.py'' (d', k')"
proof -
  have "fst (validate_payloads no_text ''me/cats'' ''me/run'' ''Me'' (sample_dataset, sample_kernel)) = Inr ''run.py''" by code_simp
  then obtain d' k' where v: "validate_payloads no_text ''me/cats'' ''me/run'' ''Me'' (sample_dataset, sample_kernel) = (Inr ''run.py'', d', k')"
    by (metis prod.collapse)
  from checked_submission_bound [OF v] v show ?thesis by simp
qed

lemma kernel_reads_verified_version_witness:
  "\<exists>k'. fst (validate_kernel_payload no_text ''me/run'' ''Me'' ''me/cats'' sample_kernel) = Inr ''run.py''
     \<and> dataset_sources k' = [JStr ''me/cats/7'', JStr ''x/dogs'']"
proof -
  let ?v = "validate_kernel_payload no_text ''me/run'' ''Me'' ''me/cats'' sample_kernel"
  have f: "fst ?v = Inr ''run.py''" by code_simp
  obtain k' where v: "?v = (Inr ''run.py'', k')" using f by (metis prod.collapse)
  have "fst (pin_kernel_dataset_version ''me/cats'' (Some 7) (snd ?v)) = Inr ()" by code_simp
  then obtain k'' where p: "pin_kernel_dataset_version ''me/cats'' (Some 7) k' = (Inr (), k'')" by (metis prod.collapse snd_conv v)
  have r: "plain_ref ''me/cats''" by code_simp
  have b: "map (bind_source (''me/cats'' @ ''/'' @ int_text 7)) (dataset_sources sample_kernel) = [JStr ''me/cats/7'', JStr ''x/dogs'']"
    by code_simp
  from kernel_reads_verified_version [OF v _ p r] b f show ?thesis by auto
qed

end
