(* ===== verification/Kernel_Wait.thy ===== *)
theory Kernel_Wait
  imports Provider_Text
begin

text \<open>
  Watching a submitted run until its end (\<open>kernel_status\<close> and \<open>wait_kernel\<close> of \<^verbatim>\<open>app/kaggle_adapter.py\<close>). One
  round of the loop is the function \<open>poll\<close> of what the clock and the remote command line said in it, the
  \<open>look\<close>; it either asks to sleep or ends. The loop is the recursion \<open>watch\<close> over the looks of its rounds. How
  long it may take is a theorem: when every sleep lasts at least as long as it was asked to, the deadline ends it.
\<close>

section \<open>One query\<close>

datatype command = Timed_out | Ran int string

datatype watch_error = Query_error string bool | Unavailable string | Run_failed string | Interrupted

text \<open>\<^const>\<open>Inl\<close>: the text of the error and whether it is transient.\<close>

definition kernel_status_query :: "command \<Rightarrow> (string \<times> bool) + string" where
  "kernel_status_query c =
     (case c of
        Timed_out \<Rightarrow> Inl (''Kernel status query timed out'', True)
      | Ran code out \<Rightarrow>
          (let text = (if strip out \<noteq> [] then strip out else ''returncode='' @ int_text code)
           in if code \<noteq> 0 then Inl (''Kernel status failed:'' @ [CHR 0x0A] @ text, transient_kernel_query_output text)
              else Inr text))"

section \<open>One round\<close>

record look =
  stopping :: bool
  at_check :: time
  status_query :: command
  at_retry :: time
  log_query :: command
  at_sleep :: time

record watch_state =
  seen_key :: "json option list option"
  query_failures :: nat
  last_status :: string
  told :: "json dict list"
  said :: "string list"
  stop_record :: "json dict"

definition new_watch :: watch_state where
  "new_watch = \<lparr>seen_key = None, query_failures = 0, last_status = ''Kernel terminal status has not been observed'',
     told = [], said = [], stop_record = []\<rparr>"

definition relay_stop :: "string \<Rightarrow> json dict \<Rightarrow> string \<Rightarrow> json dict" where
  "relay_stop reason extra message =
     [(''reason'', JStr reason), (''source'', JStr ''relay''), (''confidence'', JStr ''unknown'')] @ extra @ [(''message'', JStr message)]"

definition say :: "string \<Rightarrow> watch_state \<Rightarrow> watch_state" where
  "say m w = w\<lparr>said := said w @ [m]\<rparr>"

definition backoff :: "nat \<Rightarrow> rat \<Rightarrow> rat" where
  "backoff n remaining = min 60 (min (5 * 2 ^ min (n - 1) 4) remaining)"

definition completed_states :: "string set" where
  "completed_states = {''COMPLETE'', ''COMPLETED'', ''SUCCEEDED'', ''SUCCESS''}"

definition failed_states :: "string set" where
  "failed_states = {''ERROR'', ''FAILED'', ''FAILURE'', ''CANCELED'', ''CANCELLED'', ''CANCEL_ACKNOWLEDGED''}"

definition note_progress :: "json dict list \<Rightarrow> watch_state \<Rightarrow> watch_state" where
  "note_progress events w =
     (if events = [] then w
      else let p = last events; key = training_progress_key p
           in if Some key = seen_key w then w else w\<lparr>seen_key := Some key, told := told w @ [p]\<rparr>)"

definition retry_round :: "string list \<Rightarrow> time \<Rightarrow> look \<Rightarrow> string \<Rightarrow> watch_state \<Rightarrow> (rat + watch_error) \<times> watch_state" where
  "retry_round known deadline o1 e w =
     (let n = query_failures w + 1; remaining = max 0 (deadline - at_retry o1); w = w\<lparr>query_failures := n\<rparr> in
      if remaining = 0
      then (Inr (Unavailable e),
            w\<lparr>stop_record := relay_stop ''monitoring_timeout'' []
                ''Relay status-query retry budget exhausted; training termination is unconfirmed.''\<rparr>)
      else let delay = backoff n remaining
           in (Inl delay, say (''Kernel status temporarily unavailable; retry '' @ int_text (int n) @ '' in ''
                @ int_text (round_half_even delay) @ ''s: '' @ redact_secrets known e) w))"

definition observed_round ::
  "(string \<Rightarrow> json option) \<Rightarrow> (string \<Rightarrow> json option) \<Rightarrow> string list \<Rightarrow> rat \<Rightarrow> time \<Rightarrow> look \<Rightarrow> string \<Rightarrow> watch_state
   \<Rightarrow> (rat + watch_error + string) \<times> watch_state" where
  "observed_round loads decode_first known every deadline o1 out w =
     (let w = w\<lparr>last_status := out\<rparr>;
          w = (if query_failures w \<noteq> 0
               then say ''Kernel status query recovered; continuing original run'' w\<lparr>query_failures := 0\<rparr> else w);
          w = (if log_query o1 = Timed_out then say ''Kernel log query timed out; preserving last training progress'' w else w);
          logs = (case log_query o1 of Timed_out \<Rightarrow> [] | Ran code text \<Rightarrow> if code = 0 then text else []);
          w = note_progress (parse_training_progress_logs loads decode_first logs) w;
          state = provider_state loads out
      in if state \<in> completed_states
         then (Inr (Inr out), w\<lparr>stop_record := classify_stop_reason loads known out logs False\<rparr>)
         else if state \<in> failed_states
         then (Inr (Inl (Run_failed (''Kernel failed:'' @ [CHR 0x0A] @ out))),
               w\<lparr>stop_record := classify_stop_reason loads known out logs False\<rparr>)
         else (Inl (min every (max 0 (deadline - at_sleep o1))), w))"

definition poll ::
  "(string \<Rightarrow> json option) \<Rightarrow> (string \<Rightarrow> json option) \<Rightarrow> string list \<Rightarrow> rat \<Rightarrow> time \<Rightarrow> look \<Rightarrow> watch_state
   \<Rightarrow> (rat + watch_error + string) \<times> watch_state" where
  "poll loads decode_first known every deadline o1 w =
     (if stopping o1 then (Inr (Inl Interrupted), w)
      else if deadline \<le> at_check o1
      then (Inr (Inl (Unavailable (''Kernel monitoring deadline exceeded; retained original run:'' @ [CHR 0x0A] @ last_status w))),
            w\<lparr>stop_record := relay_stop ''monitoring_timeout'' [(''provider_status'', JStr (provider_state loads (last_status w)))]
                ''Relay monitoring deadline exceeded; the original run is retained and its terminal state is unknown.''\<rparr>)
      else case kernel_status_query (status_query o1) of
          Inl (e, False) \<Rightarrow>
            (Inr (Inl (Query_error e False)),
             w\<lparr>stop_record := relay_stop ''status_unavailable'' [] (last_chars 2000 (redact_secrets known e))\<rparr>)
        | Inl (e, True) \<Rightarrow>
            (case retry_round known deadline o1 e w of
               (Inl delay, w) \<Rightarrow> (Inl delay, w)
             | (Inr err, w) \<Rightarrow> (Inr (Inl err), w))
        | Inr out \<Rightarrow> observed_round loads decode_first known every deadline o1 out w)"

text \<open>The loop: \<^const>\<open>None\<close> while it is still running after the given rounds.\<close>

fun watch ::
  "(string \<Rightarrow> json option) \<Rightarrow> (string \<Rightarrow> json option) \<Rightarrow> string list \<Rightarrow> rat \<Rightarrow> time \<Rightarrow> look list \<Rightarrow> watch_state
   \<Rightarrow> (watch_error + string) option \<times> watch_state" where
  "watch loads decode_first known every deadline [] w = (None, w)"
| "watch loads decode_first known every deadline (o1 # os) w =
     (case poll loads decode_first known every deadline o1 w of
        (Inl delay, w') \<Rightarrow> watch loads decode_first known every deadline os w'
      | (Inr r, w') \<Rightarrow> (Some r, w'))"

definition wait_kernel ::
  "(string \<Rightarrow> json option) \<Rightarrow> (string \<Rightarrow> json option) \<Rightarrow> string list \<Rightarrow> rat \<Rightarrow> rat \<Rightarrow> time \<Rightarrow> look list
   \<Rightarrow> (watch_error + string) option \<times> watch_state" where
  "wait_kernel loads decode_first known every longest start looks =
     watch loads decode_first known every (start + longest) looks new_watch"

section \<open>The loop ends\<close>

definition slept_from :: "look \<Rightarrow> time" where
  "slept_from o1 = (case kernel_status_query (status_query o1) of Inl _ \<Rightarrow> at_retry o1 | Inr _ \<Rightarrow> at_sleep o1)"

text \<open>The clock does not run backwards within a round, and no sleep ends before its time.\<close>

fun timely ::
  "(string \<Rightarrow> json option) \<Rightarrow> (string \<Rightarrow> json option) \<Rightarrow> string list \<Rightarrow> rat \<Rightarrow> time \<Rightarrow> look list \<Rightarrow> watch_state \<Rightarrow> bool" where
  "timely loads decode_first known every deadline [] w \<longleftrightarrow> True"
| "timely loads decode_first known every deadline (o1 # os) w \<longleftrightarrow>
     at_check o1 \<le> at_retry o1 \<and> at_check o1 \<le> at_sleep o1 \<and>
     (case poll loads decode_first known every deadline o1 w of
        (Inl delay, w') \<Rightarrow>
          (case os of [] \<Rightarrow> True | o2 # _ \<Rightarrow> slept_from o1 + delay \<le> at_check o2)
          \<and> timely loads decode_first known every deadline os w'
      | (Inr _, _) \<Rightarrow> True)"

lemma backoff_least:
  assumes "0 < remaining"
  shows "min 5 remaining \<le> backoff n remaining"
proof -
  have "min 5 remaining \<le> min 60 (min (5 * p) remaining)" if "1 \<le> p" for p :: rat
    using that assms by (auto simp: min_def)
  then show ?thesis by (simp add: backoff_def)
qed

lemma observed_sleep:
  "observed_round loads decode_first known every deadline o1 out w = (Inl delay, w') \<Longrightarrow>
     delay = min every (max 0 (deadline - at_sleep o1))"
  by (auto simp: observed_round_def Let_def split: if_splits)

lemma retry_sleep:
  assumes "retry_round known deadline o1 e w = (Inl delay, w')"
  shows "min 5 (deadline - at_retry o1) \<le> delay"
proof -
  from assms have "0 < deadline - at_retry o1" "\<exists>n. delay = backoff n (deadline - at_retry o1)"
    by (auto simp: retry_round_def Let_def max_def split: if_splits)
  with backoff_least show ?thesis by blast
qed

lemma poll_sleeps:
  assumes "poll loads decode_first known every deadline o1 w = (Inl delay, w')" and "0 < every"
  shows "at_check o1 < deadline \<and> min (slept_from o1 + min 5 every) deadline \<le> slept_from o1 + delay"
proof -
  from assms(1) have c: "at_check o1 < deadline" by (auto simp: poll_def split: if_splits)
  from assms(1) consider
      e where "kernel_status_query (status_query o1) = Inl (e, True)" "retry_round known deadline o1 e w = (Inl delay, w')"
    | out where "kernel_status_query (status_query o1) = Inr out"
        "observed_round loads decode_first known every deadline o1 out w = (Inl delay, w')"
    by (auto simp: poll_def split: if_splits sum.splits prod.splits bool.splits)
  then show ?thesis
  proof cases
    case (1 e)
    with c retry_sleep [OF 1(2)] show ?thesis by (auto simp: slept_from_def min_def split: if_splits)
  next
    case (2 out)
    with c observed_sleep [OF 2(2)] assms(2) show ?thesis by (auto simp: slept_from_def min_def max_def)
  qed
qed

lemma watch_progresses:
  assumes "0 < every"
  shows "fst (watch loads decode_first known every deadline looks w) = None \<Longrightarrow> looks \<noteq> [] \<Longrightarrow>
    timely loads decode_first known every deadline looks w \<Longrightarrow>
    at_check (hd looks) + of_nat (length looks - 1) * min 5 every < deadline"
proof (induction looks arbitrary: w)
  case (Cons o1 os)
  then obtain delay w' where p: "poll loads decode_first known every deadline o1 w = (Inl delay, w')"
    by (auto split: prod.splits sum.splits)
  note step = poll_sleeps [OF p assms]
  show ?case
  proof (cases os)
    case Nil
    with step show ?thesis by simp
  next
    case (Cons o2 os2)
    with Cons.prems p have t: "timely loads decode_first known every deadline os w'" "slept_from o1 + delay \<le> at_check o2"
      "at_check o1 \<le> slept_from o1"
      by (auto simp: slept_from_def split: sum.splits)
    from Cons.prems(1) p have "fst (watch loads decode_first known every deadline os w') = None" by simp
    with Cons.IH [of w'] t(1) Cons have ih: "at_check o2 + of_nat (length os - 1) * min 5 every < deadline" by simp
    moreover have nn: "0 \<le> of_nat (length os - 1) * min 5 every" using assms by simp
    ultimately have "at_check o2 < deadline" by linarith
    with step t have "at_check o1 + min 5 every \<le> at_check o2" by linarith
    moreover have "of_nat (length (o1 # os) - 1) * min 5 every = min 5 every + of_nat (length os - 1) * min 5 every"
      using Cons by (simp add: algebra_simps)
    ultimately show ?thesis using ih by simp
  qed
qed simp

text \<open>
  C21: The relay never watches a run forever. Whatever the provider answers - errors without end, a status it
  does not know, a run that never finishes - the loop returns or raises within a bounded number of rounds: with a
  poll interval above zero and sleeps that last, once the rounds, at the shorter of five seconds and the poll
  interval each, cover the longest wait that is configured.
\<close>

theorem watch_ends:
  assumes "0 < every" and "timely loads decode_first known every (start + longest) looks new_watch"
    and "looks \<noteq> []" and "start \<le> at_check (hd looks)" and "longest \<le> of_nat (length looks - 1) * min 5 every"
  shows "\<exists>r. fst (wait_kernel loads decode_first known every longest start looks) = Some r"
proof (rule ccontr)
  assume "\<not> ?thesis"
  then have "fst (watch loads decode_first known every (start + longest) looks new_watch) = None"
    by (simp add: wait_kernel_def)
  from watch_progresses [OF assms(1) this assms(3,2)] assms(4,5) show False by linarith
qed

section \<open>What is reported\<close>

definition watch_ok :: "watch_state \<Rightarrow> bool" where
  "watch_ok w \<longleftrightarrow> distinct_adj (map training_progress_key (told w))
     \<and> seen_key w = (if told w = [] then None else Some (training_progress_key (last (told w))))"

lemma watch_ok_note: "watch_ok w \<Longrightarrow> watch_ok (note_progress events w)"
  by (auto simp: watch_ok_def note_progress_def Let_def distinct_adj_append_iff last_map split: if_splits)

lemma watch_ok_fields [simp]:
  "watch_ok (w\<lparr>last_status := a\<rparr>) = watch_ok w" "watch_ok (w\<lparr>query_failures := n\<rparr>) = watch_ok w"
  "watch_ok (w\<lparr>stop_record := d\<rparr>) = watch_ok w" "watch_ok (say m w) = watch_ok w"
  by (simp_all add: watch_ok_def say_def)

definition unconfirmed :: "watch_state \<Rightarrow> bool" where
  "unconfirmed w \<longleftrightarrow> map_of (stop_record w) ''confidence'' = Some (JStr ''unknown'')
     \<and> map_of (stop_record w) ''reason'' \<in> {Some (JStr ''monitoring_timeout''), Some (JStr ''status_unavailable'')}"

definition verdict ::
  "(string \<Rightarrow> json option) \<Rightarrow> string list \<Rightarrow> look list \<Rightarrow> watch_error + string \<Rightarrow> watch_state \<Rightarrow> bool" where
  "verdict loads known looks r w =
     (case r of
        Inr out \<Rightarrow> (\<exists>l \<in> set looks. kernel_status_query (status_query l) = Inr out) \<and> provider_state loads out \<in> completed_states
          \<and> (\<exists>logs. stop_record w = classify_stop_reason loads known out logs False)
      | Inl (Run_failed e) \<Rightarrow> \<exists>out. (\<exists>l \<in> set looks. kernel_status_query (status_query l) = Inr out)
          \<and> e = ''Kernel failed:'' @ [CHR 0x0A] @ out \<and> provider_state loads out \<in> failed_states
          \<and> (\<exists>logs. stop_record w = classify_stop_reason loads known out logs False)
      | Inl Interrupted \<Rightarrow> \<exists>l \<in> set looks. stopping l
      | Inl _ \<Rightarrow> unconfirmed w)"

lemma poll_verdict:
  assumes "poll loads decode_first known every deadline o1 w = (x, w')"
  shows "(watch_ok w \<longrightarrow> watch_ok w') \<and> (case x of Inl _ \<Rightarrow> True | Inr r \<Rightarrow> verdict loads known [o1] r w')"
proof (cases "kernel_status_query (status_query o1)")
  case (Inl q)
  obtain e b where q: "q = (e, b)" by force
  from assms Inl q show ?thesis
    by (auto simp: poll_def retry_round_def verdict_def unconfirmed_def relay_stop_def Let_def split: if_splits bool.splits)
next
  case (Inr out)
  from assms Inr show ?thesis
    by (auto simp: poll_def observed_round_def verdict_def unconfirmed_def relay_stop_def Let_def watch_ok_note
        split: if_splits)
qed

lemma verdict_more: "verdict loads known os r w \<Longrightarrow> set os \<subseteq> set ls \<Longrightarrow> verdict loads known ls r w"
  by (auto simp: verdict_def split: sum.splits watch_error.splits)

lemma watch_verdict_all:
  "watch loads decode_first known every deadline looks w = (res, w') \<Longrightarrow> watch_ok w \<Longrightarrow>
     watch_ok w' \<and> (\<forall>r. res = Some r \<longrightarrow> verdict loads known looks r w')"
proof (induction looks arbitrary: w)
  case (Cons o1 os)
  obtain x w1 where p: "poll loads decode_first known every deadline o1 w = (x, w1)" by force
  note v = poll_verdict [OF p]
  show ?case
  proof (cases x)
    case (Inl delay)
    with Cons.prems p have "watch loads decode_first known every deadline os w1 = (res, w')" by simp
    with Cons.IH [of w1] v Cons.prems(2) show ?thesis by (auto intro: verdict_more)
  next
    case (Inr r)
    with Cons.prems p v show ?thesis by (auto intro: verdict_more)
  qed
qed simp

text \<open>
  The end of a run is what the provider said, never what the relay failed to see: success is reported only
  for a status the provider gave and that means completion, failure only for one that means an error or a
  cancellation; when the deadline passes or the status cannot be read, the record says that the end is
  unconfirmed. On the way no two reports in a row that are told to the job are the same.
\<close>

theorem watch_verdict:
  assumes "wait_kernel loads decode_first known every longest start looks = (res, w)"
  shows "distinct_adj (map training_progress_key (told w))
    \<and> (\<forall>r. res = Some r \<longrightarrow> verdict loads known looks r w)"
proof -
  have "watch_ok new_watch" by (simp add: watch_ok_def new_watch_def)
  from watch_verdict_all [OF assms [unfolded wait_kernel_def] this] show ?thesis by (simp add: watch_ok_def)
qed

section \<open>Witnesses\<close>

definition sample_look :: "time \<Rightarrow> string \<Rightarrow> look" where
  "sample_look t out = \<lparr>stopping = False, at_check = t, status_query = Ran 0 out, at_retry = t, log_query = Ran 0 [], at_sleep = t\<rparr>"

lemma sample_looks:
  "kernel_status_query (Ran 0 ''COMPLETE'') = Inr ''COMPLETE''" "kernel_status_query (Ran 0 ''RUNNING'') = Inr ''RUNNING''"
  "provider_state (\<lambda>_. None) ''COMPLETE'' = ''COMPLETE''" "provider_state (\<lambda>_. None) ''RUNNING'' = ''RUNNING''"
  "parse_training_progress_logs (\<lambda>_. None) (\<lambda>_. None) [] = []"
  by code_simp+

lemmas round_simps = wait_kernel_def poll_def observed_round_def sample_look_def sample_looks new_watch_def note_progress_def
  completed_states_def failed_states_def Let_def

lemma watch_verdict_witness:
  "\<exists>w. wait_kernel (\<lambda>_. None) (\<lambda>_. None) [] 10 100 0 [sample_look 0 ''RUNNING'', sample_look 10 ''COMPLETE''] = (Some (Inr ''COMPLETE''), w)
     \<and> verdict (\<lambda>_. None) [] [sample_look 0 ''RUNNING'', sample_look 10 ''COMPLETE''] (Inr ''COMPLETE'') w"
proof -
  have "fst (wait_kernel (\<lambda>_. None) (\<lambda>_. None) [] 10 100 0 [sample_look 0 ''RUNNING'', sample_look 10 ''COMPLETE''])
      = Some (Inr ''COMPLETE'')"
    by (simp add: round_simps)
  then obtain w where w: "wait_kernel (\<lambda>_. None) (\<lambda>_. None) [] 10 100 0 [sample_look 0 ''RUNNING'', sample_look 10 ''COMPLETE'']
      = (Some (Inr ''COMPLETE''), w)" by (metis prod.collapse)
  from watch_verdict [OF w] w show ?thesis by blast
qed

lemma watch_ends_witness:
  "\<exists>r. fst (wait_kernel (\<lambda>_. None) (\<lambda>_. None) [] 5 10 0 [sample_look 0 ''RUNNING'', sample_look 5 ''RUNNING'', sample_look 10 ''RUNNING'']) = Some r"
proof (rule watch_ends)
  show "timely (\<lambda>_. None) (\<lambda>_. None) [] 5 (0 + 10) [sample_look 0 ''RUNNING'', sample_look 5 ''RUNNING'', sample_look 10 ''RUNNING''] new_watch"
    by (simp add: round_simps slept_from_def)
qed (simp_all add: sample_look_def)

end
