(* ===== verification/Worker_Task.thy ===== *)
theory Worker_Task
  imports Payload_Metadata Kernel_Wait
begin

text \<open>
  What a worker does with a job is a long sequence of calls, database writes and log lines that any of
  them may end with an exception. Such a sequence is a \<open>task\<close>: a function of the run (the database, the
  remote calls made so far, the job's directory) that answers an exception or a value. Here are the
  exceptions, the tasks, and what is kept by every step of a task. The second half is the path after
  submission, \<^verbatim>\<open>finish_kernel_job\<close> and \<^verbatim>\<open>resume_kernel_job\<close> of \<^verbatim>\<open>app/worker.py\<close>.

  What a remote call answers is a field of \<open>world\<close>, as are the clock and the other threads: at moment \<open>k\<close>
  they do \<open>w_env k 0\<close> around a remote call and \<open>w_env k (Suc n)\<close> between the read and the write of a guarded
  update with \<open>n\<close> attempts left. \<open>moment\<close> counts both kinds of occasions.
\<close>

section \<open>Runs and tasks\<close>

text \<open>The exceptions the handlers tell apart; the others carry what a recheck would make of them.\<close>

datatype exc =
    Status_unavailable string
  | Interrupted_exc string
  | Canceled_exc string
  | Upload_unknown string
  | Raised verify_exc string

abbreviation value_error :: "string \<Rightarrow> exc" where "value_error t \<equiv> Raised (Verify_other True t) t"

abbreviation runtime_error :: "string \<Rightarrow> exc" where "runtime_error t \<equiv> Raised (Verify_other False t) t"

fun exc_text :: "exc \<Rightarrow> string" where
  "exc_text (Status_unavailable t) = t"
| "exc_text (Interrupted_exc t) = t"
| "exc_text (Canceled_exc t) = t"
| "exc_text (Upload_unknown t) = t"
| "exc_text (Raised _ t) = t"

record receipt =
  expected_version :: "int option"
  receipt_dir :: string
  receipt_digest :: string

text \<open>The remote calls, with what the relay asks for.\<close>

datatype call =
    Check_identity string
  | Upload_dataset string
  | Await_dataset string "receipt option" bool
  | Push_kernel
  | Watch_kernel string
  | Download_output string
  | Download_exact string
  | Package_output

record run =
  run_db :: relay_db
  calls :: "call list"
  moment :: nat
  dirs :: "payload_dir \<times> payload_dir"

type_synonym 'a task = "run \<Rightarrow> (exc + 'a) \<times> run"

definition give :: "'a \<Rightarrow> 'a task" where
  "give x s = (Inr x, s)"

definition fail_with :: "exc \<Rightarrow> 'a task" where
  "fail_with e s = (Inl e, s)"

definition andthen :: "'a task \<Rightarrow> ('a \<Rightarrow> 'b task) \<Rightarrow> 'b task" where
  "andthen m f s = (case m s of (Inl e, s') \<Rightarrow> (Inl e, s') | (Inr x, s') \<Rightarrow> f x s')"

definition afterwards :: "'a task \<Rightarrow> 'b task \<Rightarrow> 'b task" where
  "afterwards m n = andthen m (\<lambda>_. n)"

definition check_that :: "bool \<Rightarrow> exc \<Rightarrow> unit task" where
  "check_that b e = (if b then give () else fail_with e)"

definition lift :: "exc + 'a \<Rightarrow> 'a task" where
  "lift r s = (r, s)"

definition raise_if :: "exc option \<Rightarrow> unit task" where
  "raise_if e = (case e of None \<Rightarrow> give () | Some e \<Rightarrow> fail_with e)"

definition read_db :: "(relay_db \<Rightarrow> 'a) \<Rightarrow> 'a task" where
  "read_db f s = (Inr (f (run_db s)), s)"

definition on_db :: "(relay_db \<Rightarrow> (exc + 'a) \<times> relay_db) \<Rightarrow> 'a task" where
  "on_db f s = (case f (run_db s) of (r, db) \<Rightarrow> (r, s\<lparr>run_db := db\<rparr>))"

definition write_db :: "(relay_db \<Rightarrow> relay_db) \<Rightarrow> unit task" where
  "write_db f = on_db (\<lambda>db. (Inr (), f db))"

definition on_dirs :: "(payload_dir \<times> payload_dir \<Rightarrow> (string + 'a) \<times> payload_dir \<times> payload_dir) \<Rightarrow> 'a task" where
  "on_dirs f s = (case f (dirs s) of
      (Inl e, d) \<Rightarrow> (Inl (value_error e), s\<lparr>dirs := d\<rparr>)
    | (Inr x, d) \<Rightarrow> (Inr x, s\<lparr>dirs := d\<rparr>))"

section \<open>The world of a run\<close>

record world =
  w_at :: "nat \<Rightarrow> time"
  w_env :: "nat \<Rightarrow> nat \<Rightarrow> relay_db \<Rightarrow> relay_db"
  w_loads :: "string \<Rightarrow> json option"
  w_dumps :: "json \<Rightarrow> string"
  w_dumps_sorted :: "json \<Rightarrow> string"
  w_render :: "json \<Rightarrow> string"
  w_known :: "string list"
  w_due_text :: "time \<Rightarrow> string"
  w_training :: "exc option"
  w_lock :: "exc option"
  w_identity :: "exc + unit"
  w_intent :: intent_file
  w_intent_after :: intent_file
  w_digest :: "string \<Rightarrow> exc + string"
  w_is_dir :: "string \<Rightarrow> bool"
  w_dir_of :: "string \<Rightarrow> string"
  w_upload :: "exc + receipt option"
  w_await :: "exc + string"
  w_gpu_policy :: "exc + string option"
  w_threshold_policy :: "exc + string option"
  w_push :: "exc + string"
  w_reports :: "json dict list"
  w_watched :: "exc + string"
  w_stop :: "json dict"
  w_output :: "exc + string"
  w_p6_output :: "exc + unit"
  w_task_file :: "exc + json dict"
  w_package :: "exc + unit"
  w_receipt :: "exc option"
  w_artifact :: string

definition now_at :: "world \<Rightarrow> run \<Rightarrow> time" where
  "now_at w s = w_at w (moment s)"

text \<open>A remote call: it is made, the others run meanwhile, then it answers.\<close>

definition remote :: "world \<Rightarrow> call \<Rightarrow> (exc + 'a) \<Rightarrow> 'a task" where
  "remote w c answer s =
     (answer, s\<lparr>calls := calls s @ [c], run_db := w_env w (moment s) 0 (run_db s), moment := Suc (moment s)\<rparr>)"

definition timed :: "world \<Rightarrow> (time \<Rightarrow> relay_db \<Rightarrow> (exc + 'a) \<times> relay_db) \<Rightarrow> 'a task" where
  "timed w f s = on_db (f (now_at w s)) s"

definition timed_write :: "world \<Rightarrow> (time \<Rightarrow> relay_db \<Rightarrow> relay_db) \<Rightarrow> unit task" where
  "timed_write w f s = write_db (f (now_at w s)) s"

definition log_line :: "world \<Rightarrow> string \<Rightarrow> string \<Rightarrow> unit task" where
  "log_line w jid message = timed_write w (\<lambda>now. job_log (w_known w) now jid message)"

definition finish_text :: "string \<Rightarrow> job_status \<Rightarrow> finish_error \<Rightarrow> exc" where
  "finish_text jid running e =
     (case e of
        Changed_repeatedly \<Rightarrow>
          runtime_error (''job '' @ jid @ '' status changed repeatedly during '' @ status_name running @ '' transition'')
      | Unhashable_phase \<Rightarrow> runtime_error ''unhashable type'')"

definition finish_status :: "world \<Rightarrow> string \<Rightarrow> job_status \<Rightarrow> (job \<Rightarrow> assignment list) \<Rightarrow> job option task" where
  "finish_status w jid running values s =
     (case update_finish_status (w_loads w) (\<lambda>n. w_env w (moment s) (Suc n)) (now_at w s) jid running values (run_db s) of
        (Inl e, db) \<Rightarrow> (Inl (finish_text jid running e), s\<lparr>run_db := db, moment := Suc (moment s)\<rparr>)
      | (Inr r, db) \<Rightarrow> (Inr r, s\<lparr>run_db := db, moment := Suc (moment s)\<rparr>))"

section \<open>Watching and collecting\<close>

definition progress_report :: "world \<Rightarrow> string \<Rightarrow> json dict \<Rightarrow> unit task" where
  "progress_report w jid d = afterwards (finish_status w jid Waiting_kernel (poll_values d)) (give ())"

fun progress_reports :: "world \<Rightarrow> string \<Rightarrow> json dict list \<Rightarrow> unit task" where
  "progress_reports w jid [] = give ()"
| "progress_reports w jid (d # ds) = afterwards (progress_report w jid d) (progress_reports w jid ds)"

definition stop_details_for :: "job option \<Rightarrow> json dict \<Rightarrow> json dict" where
  "stop_details_for current d =
     (if map_of d ''reason'' = Some (JStr ''provider_canceled'')
         \<and> (case current of None \<Rightarrow> False | Some j \<Rightarrow> job_cancel_requested j)
      then dict_update d [(''reason'', JStr ''user_canceled''), (''source'', JStr ''relay_and_provider''),
             (''message'', JStr ''Relay cancellation was requested and Kaggle confirmed cancellation.'')]
      else d)"

definition record_details :: "world \<Rightarrow> string \<Rightarrow> json dict \<Rightarrow> unit task" where
  "record_details w jid d =
     (if d = [] then give ()
      else timed_write w (\<lambda>now db. record_stop_details (w_loads w) (w_dumps w) (w_dumps_sorted w) (redact_secrets (w_known w))
             db now jid (stop_details_for (get_job db jid) d) None))"

definition note_unavailable :: "world \<Rightarrow> string \<Rightarrow> string \<Rightarrow> unit task" where
  "note_unavailable w jid m =
     timed_write w (\<lambda>now db. case get_job db jid of
         None \<Rightarrow> db
       | Some j \<Rightarrow> if terminal (status j) then db
                   else update_job db now jid [Set_error (''kernel_status_unknown: '' @ redact_secrets (w_known w) m)])"

text \<open>
  \<^verbatim>\<open>wait_kernel\<close> with its callback, its \<^verbatim>\<open>except\<close> and its \<^verbatim>\<open>finally\<close>: an exception of the callback leaves
  the loop before any stop details are set.
\<close>

definition watch_kernel :: "world \<Rightarrow> string \<Rightarrow> string \<Rightarrow> string task" where
  "watch_kernel w jid kref s =
     (case afterwards (remote w (Watch_kernel kref) (Inr ())) (progress_reports w jid (w_reports w)) s of
        (Inl e, s') \<Rightarrow> (Inl e, s')
      | (Inr _, s') \<Rightarrow>
          (case w_watched w of
             Inl (Status_unavailable m) \<Rightarrow>
               afterwards (afterwards (note_unavailable w jid m) (record_details w jid (w_stop w)))
                 (fail_with (Status_unavailable m)) s'
           | r \<Rightarrow> afterwards (record_details w jid (w_stop w)) (lift r) s'))"

section \<open>The artifact\<close>

definition p6_contracts :: "string set" where
  "p6_contracts = {''patchcore_dinov2_251_onnx_v1'', ''patchcore_dinov2_251_onnx_v2''}"

definition identity_values :: "job \<Rightarrow> string dict" where
  "identity_values j = [(''dataset_id'', dataset_id j), (''identity_sha256'', identity_sha256 j), (''run_id'', run_id j),
     (''run_identity_sha256'', run_identity_sha256 j)]"

definition check_task :: "job \<Rightarrow> string \<Rightarrow> json dict \<Rightarrow> unit task" where
  "check_task j contract t =
     (case (case map_of t ''identity'' of None \<Rightarrow> Some [] | Some (JObj d) \<Rightarrow> Some d | _ \<Rightarrow> None) of
        None \<Rightarrow> fail_with (runtime_error ''object has no attribute get'')
      | Some d \<Rightarrow>
          afterwards (check_that (list_all (\<lambda>(k, v). map_of d k = Some (JStr v)) (identity_values j))
              (value_error ''P6 frozen submission identity mismatch''))
            (check_that (map_of t ''format'' = Some (JStr (if contract = ''patchcore_dinov2_251_onnx_v2''
                then ''dino_cloud_task_p6_v2'' else ''dino_cloud_task_p6_v1'')))
              (value_error ''P6 task/artifact version mismatch'')))"

definition contract_of :: "job option \<Rightarrow> string" where
  "contract_of current =
     (case current of None \<Rightarrow> ''yolo'' | Some j \<Rightarrow> if artifact_contract j = [] then ''yolo'' else artifact_contract j)"

text \<open>Of a result of the sixth protocol the exact version is downloaded and compared with the frozen task.\<close>

definition collect_output :: "world \<Rightarrow> string \<Rightarrow> string \<Rightarrow> job option \<Rightarrow> unit task" where
  "collect_output w jid kref current =
     (case (if contract_of current \<in> p6_contracts then current else None) of
        Some j \<Rightarrow>
          afterwards (remote w (Download_exact kref) (w_p6_output w))
          (afterwards (log_line w jid ''P6 exact-version output downloaded'')
          (andthen (lift (w_task_file w)) (\<lambda>t.
           afterwards (check_task j (contract_of current) t)
          (afterwards (remote w Package_output (w_package w)) (raise_if (w_receipt w))))))
      | None \<Rightarrow>
          andthen (remote w (Download_output kref) (w_output w)) (\<lambda>out.
          afterwards (log_line w jid out) (remote w Package_output (w_package w))))"

definition complete_run :: "world \<Rightarrow> string \<Rightarrow> job_status option \<Rightarrow> unit task" where
  "complete_run w jid final_status =
     timed w (\<lambda>now db. case finalize_job (w_dumps w) db now jid (case final_status of None \<Rightarrow> Complete | Some s \<Rightarrow> s)
         [Set_progress 100, Set_artifact_path (w_artifact w), Set_error []] of
           Inl _ \<Rightarrow> (Inl (value_error ''invalid terminal job status''), db)
         | Inr (db', _) \<Rightarrow> (Inr (), db'))"

definition finish_kernel_job :: "world \<Rightarrow> string \<Rightarrow> job_status option \<Rightarrow> unit task" where
  "finish_kernel_job w jid final_status =
     andthen (finish_status w jid Waiting_kernel wait_values) (\<lambda>current.
     let kref = (case current of None \<Rightarrow> [] | Some j \<Rightarrow> kernel_ref j) in
     afterwards (check_that (kref \<noteq> []) (runtime_error (''job '' @ jid @ '' is missing kernel_ref'')))
     (andthen (watch_kernel w jid kref) (\<lambda>out.
      afterwards (timed_write w (\<lambda>now db. update_job db now jid
          [Set_kernel_status (Raw out), Set_progress (max (case get_job db jid of None \<Rightarrow> 0 | Some j \<Rightarrow> progress j) 82)]))
     (andthen (finish_status w jid Downloading_output download_values) (\<lambda>current.
      afterwards (collect_output w jid kref current) (complete_run w jid final_status))))))"

text \<open>\<^verbatim>\<open>credentials_for\<close> of the store, which gives the adapter its user.\<close>

definition submitting_user :: "auth_store option \<Rightarrow> string \<Rightarrow> string task" where
  "submitting_user auth key =
     (case auth of
        None \<Rightarrow> give []
      | Some st \<Rightarrow>
          (case credentials_for st key of
             Inl e \<Rightarrow> fail_with (value_error (sel_detail e))
           | Inr None \<Rightarrow> give []
           | Inr (Some c) \<Rightarrow> give (username c)))"

definition resume_kernel_job :: "world \<Rightarrow> auth_store option \<Rightarrow> string \<Rightarrow> job_status option \<Rightarrow> unit task" where
  "resume_kernel_job w auth jid final_status =
     andthen (read_db (\<lambda>db. get_job db jid)) (\<lambda>job.
       case job of
         None \<Rightarrow> give ()
       | Some j \<Rightarrow> afterwards (submitting_user auth (kaggle_key_id j)) (finish_kernel_job w jid final_status))"

section \<open>What every step of a task keeps\<close>

text \<open>A relation between runs that is reflexive and transitive is kept by a task when each of its steps keeps it.\<close>

locale kept_relation =
  fixes R :: "run \<Rightarrow> run \<Rightarrow> bool"
  assumes same: "R s s"
    and chain: "R s t \<Longrightarrow> R t u \<Longrightarrow> R s u"
begin

definition keeps :: "'a task \<Rightarrow> bool" where
  "keeps m \<longleftrightarrow> (\<forall>s. R s (snd (m s)))"

lemma keeps_andthen: "keeps m \<Longrightarrow> (\<And>x. keeps (f x)) \<Longrightarrow> keeps (andthen m f)"
  unfolding keeps_def andthen_def
  by (auto split: sum.split prod.split) (metis chain snd_conv)+

lemma keeps_afterwards: "keeps m \<Longrightarrow> keeps n \<Longrightarrow> keeps (afterwards m n)"
  unfolding afterwards_def by (rule keeps_andthen)

lemma keeps_pure:
  "keeps (give x)" "keeps (fail_with e)" "keeps (check_that b e)" "keeps (lift r)" "keeps (raise_if o1)" "keeps (read_db f)"
  by (simp_all add: keeps_def give_def fail_with_def check_that_def lift_def raise_if_def read_db_def same split: option.split)

lemma keeps_result: "keeps m \<Longrightarrow> m s = (r, s') \<Longrightarrow> R s s'"
  unfolding keeps_def by (metis snd_conv)

end

text \<open>Tasks that make no remote call.\<close>

interpretation quiet: kept_relation "\<lambda>s t. calls t = calls s"
  by unfold_locales auto

lemma on_db_quiet: "quiet.keeps (on_db f)" "quiet.keeps (write_db f')" "quiet.keeps (timed w g)" "quiet.keeps (timed_write w h)"
  "quiet.keeps (on_dirs d)"
  by (auto simp: quiet.keeps_def on_db_def write_db_def timed_def timed_write_def on_dirs_def split: prod.splits sum.splits)

lemma finish_quiet: "quiet.keeps (finish_status w jid running values)"
  by (auto simp: quiet.keeps_def finish_status_def split: prod.splits sum.splits)

lemmas quiet_steps = quiet.keeps_pure on_db_quiet finish_quiet

lemma log_quiet: "quiet.keeps (log_line w jid m)" "quiet.keeps (record_details w jid d)" "quiet.keeps (note_unavailable w jid m)"
  "quiet.keeps (check_task j c t)" "quiet.keeps (complete_run w jid f)" "quiet.keeps (submitting_user auth key)"
  unfolding log_line_def record_details_def note_unavailable_def check_task_def complete_run_def submitting_user_def
  by (auto intro!: quiet_steps quiet.keeps_afterwards split: option.split json.split sum.split)

lemma reports_quiet: "quiet.keeps (progress_reports w jid ds)"
  by (induction ds) (auto intro!: quiet_steps quiet.keeps_afterwards simp: progress_report_def)

text \<open>What a task makes of the rows of the database.\<close>

interpretation rows: kept_relation "\<lambda>s t. lifecycle_inv (run_db s) \<longrightarrow> db_step (run_db s) (run_db t)"
  by unfold_locales (auto intro: db_step_refl dest: db_step_inv db_step_trans)

definition fair_world :: "world \<Rightarrow> bool" where
  "fair_world w \<longleftrightarrow> (\<forall>k. fair_env (w_env w k))"

lemma on_db_rows:
  assumes "\<And>db. lifecycle_inv db \<Longrightarrow> write_step\<^sup>*\<^sup>* db (snd (f db))"
  shows "rows.keeps (on_db f)"
  using assms by (auto simp: rows.keeps_def on_db_def split: prod.split intro!: write_steps_db) (metis snd_conv)

lemma timed_rows:
  assumes "\<And>now db. lifecycle_inv db \<Longrightarrow> write_step\<^sup>*\<^sup>* db (snd (f now db))"
  shows "rows.keeps (timed w f)"
  using on_db_rows [of "f now" for now] assms unfolding rows.keeps_def timed_def by blast

lemma timed_write_rows:
  assumes "\<And>now db. lifecycle_inv db \<Longrightarrow> write_step\<^sup>*\<^sup>* db (f now db)"
  shows "rows.keeps (timed_write w f)"
  using on_db_rows [of "\<lambda>db. (Inr (), f now db)" for now] assms
  unfolding rows.keeps_def timed_write_def write_db_def by fastforce

lemma on_dirs_rows: "rows.keeps (on_dirs f)"
  by (auto simp: rows.keeps_def on_dirs_def db_step_refl split: prod.splits sum.splits)

lemma remote_rows: "fair_world w \<Longrightarrow> rows.keeps (remote w c a)"
  by (auto simp: rows.keeps_def remote_def fair_world_def fair_env_def intro!: write_steps_db)

lemma finish_rows:
  assumes "fair_world w" and "running \<in> {Waiting_kernel, Downloading_output}" and "\<And>j. neutral (values j)"
  shows "rows.keeps (finish_status w jid running values)"
proof -
  have "fair_env (\<lambda>n. w_env w k (Suc n))" for k using assms(1) by (simp add: fair_world_def fair_env_def)
  from finish_loop_steps [OF assms(2,3) this]
  have "lifecycle_inv db \<Longrightarrow> write_step\<^sup>*\<^sup>* db (snd (update_finish_status (w_loads w) (\<lambda>n. w_env w k (Suc n)) now jid running values db))"
    for db k now by (simp add: update_finish_status_def)
  then show ?thesis
    unfolding rows.keeps_def finish_status_def
    by (auto split: prod.split sum.split intro!: write_steps_db) (metis snd_conv)+
qed

lemma job_log_steps: "write_step\<^sup>*\<^sup>* db (job_log known now jid m db)"
proof -
  have "write_step db (append_log db now jid (redact_secrets known m))" by (rule by_log)
  moreover have "write_step (append_log db now jid (redact_secrets known m)) (job_log known now jid m db)"
    unfolding job_log_def Let_def by (rule by_update) simp
  ultimately show ?thesis by (meson converse_rtranclp_into_rtranclp r_into_rtranclp)
qed

lemma log_rows: "rows.keeps (log_line w jid m)" "rows.keeps (record_details w jid d)" "rows.keeps (note_unavailable w jid t)"
proof -
  show "rows.keeps (log_line w jid m)" unfolding log_line_def by (intro timed_write_rows job_log_steps)
  show "rows.keeps (record_details w jid d)"
    unfolding record_details_def by (auto intro!: rows.keeps_pure timed_write_rows r_into_rtranclp by_details)
  have "write_step\<^sup>*\<^sup>* db (update_job db now jid [Set_error x])" for db now x by (auto intro!: r_into_rtranclp by_update)
  then show "rows.keeps (note_unavailable w jid t)"
    unfolding note_unavailable_def by (auto intro!: timed_write_rows split: option.split)
qed

lemma update_rows_kept:
  assumes "\<And>db. neutral (vs db)"
  shows "rows.keeps (timed_write w (\<lambda>now db. update_job db now jid (vs db)))"
  by (intro timed_write_rows r_into_rtranclp by_update assms)

lemma finalize_steps:
  "neutral vs \<Longrightarrow> write_step\<^sup>*\<^sup>* db (case finalize_job dumps db now jid s vs of Inr (db', _) \<Rightarrow> db' | Inl _ \<Rightarrow> db)"
  by (auto split: sum.split intro!: r_into_rtranclp by_finalize)

lemma complete_rows: "rows.keeps (complete_run w jid f)"
  unfolding complete_run_def
  by (rule timed_rows) (auto split: sum.split option.split intro!: r_into_rtranclp by_finalize)

lemma pure_rows: "rows.keeps (check_task j c t)" "rows.keeps (submitting_user auth key)"
  unfolding check_task_def submitting_user_def
  by (auto intro!: rows.keeps_pure rows.keeps_afterwards split: option.split json.split sum.split)

lemmas rows_steps = rows.keeps_pure rows.keeps_afterwards rows.keeps_andthen remote_rows log_rows complete_rows pure_rows on_dirs_rows

lemma reports_rows: "fair_world w \<Longrightarrow> rows.keeps (progress_reports w jid ds)"
  by (induction ds) (auto intro!: rows_steps finish_rows simp: progress_report_def poll_values_def)

lemma watch_kernel_task:
  "watch_kernel w jid kref = afterwards (afterwards (remote w (Watch_kernel kref) (Inr ())) (progress_reports w jid (w_reports w)))
     (case w_watched w of
        Inl (Status_unavailable m) \<Rightarrow>
          afterwards (afterwards (note_unavailable w jid m) (record_details w jid (w_stop w))) (fail_with (Status_unavailable m))
      | r \<Rightarrow> afterwards (record_details w jid (w_stop w)) (lift r))"
  by (rule ext) (auto simp: watch_kernel_def afterwards_def andthen_def split: sum.split prod.split exc.split)

lemma watch_rows: "fair_world w \<Longrightarrow> rows.keeps (watch_kernel w jid kref)"
  unfolding watch_kernel_task by (auto intro!: rows_steps reports_rows split: sum.split exc.split)

lemma collect_rows: "fair_world w \<Longrightarrow> rows.keeps (collect_output w jid kref current)"
  unfolding collect_output_def by (auto intro!: rows_steps split: option.split)

lemma finish_job_rows: "fair_world w \<Longrightarrow> rows.keeps (finish_kernel_job w jid f)"
  unfolding finish_kernel_job_def Let_def
  by (intro rows_steps finish_rows watch_rows update_rows_kept collect_rows) (auto simp: wait_values_def download_values_def)

end
