(* ===== verification/Dataset_Upload.thy ===== *)
theory Dataset_Upload
  imports Worker_Task
begin

text \<open>
  The upload of a dataset version (\<^verbatim>\<open>upload_dataset\<close> of \<^verbatim>\<open>app/kaggle_adapter.py\<close>, with the identity and the
  inventory it asks for). Before the remote side is asked to change anything, the intent is written to disk;
  it is never removed. An attempt is given by what the files and the remote side answer; it yields its
  durable effects in order and a result, so that a crash at any point leaves a prefix of the effects.
\<close>

section \<open>Identity\<close>

record identity =
  identity_verified :: bool
  auth_method :: string
  identity_source :: string
  identity_error :: string

text \<open>What the client library says: its configuration, the introspection of a token, a listing with the key.\<close>

record principal_claims =
  claim_method :: string
  claim_username :: string
  introspected :: "exc + string"
  key_listing :: "exc + unit"
  credential_owner :: string

definition last_part :: "string \<Rightarrow> string" where
  "last_part s = last (split_on (CHR ''.'') s)"

definition source_of :: "string \<Rightarrow> string" where
  "source_of m =
     (if m = ''access_token'' then ''token_introspection''
      else if m = ''oauth'' then ''oauth_token_introspection''
      else if m = ''legacy_api_key'' then ''validated_basic_principal'' else ''unverified'')"

definition identity_problem :: "string \<Rightarrow> string \<Rightarrow> string \<Rightarrow> string \<Rightarrow> string" where
  "identity_problem basis actual configured owner =
     (if basis = ''unverified'' then ''unsupported_auth_method''
      else if actual = [] then ''authenticated_owner_missing''
      else if configured = [] then ''configured_owner_missing''
      else if lower actual \<noteq> lower (strip configured) \<or> owner \<noteq> [] \<and> lower actual \<noteq> lower (strip owner)
      then ''configured_owner_identity_mismatch'' else [])"

definition authenticated_identity :: "principal_claims \<Rightarrow> string \<Rightarrow> exc + identity" where
  "authenticated_identity c configured =
     (let m = lower (last_part (claim_method c)); basis = source_of m in
      case (if m = ''oauth'' then introspected c else Inr (claim_username c)) of
        Inl e \<Rightarrow> Inl e
      | Inr name \<Rightarrow>
          (case (if m = ''legacy_api_key'' then key_listing c else Inr ()) of
             Inl e \<Rightarrow> Inl e
           | Inr _ \<Rightarrow>
               let err = identity_problem basis (strip name) configured (credential_owner c)
               in Inr \<lparr>identity_verified = (err = []), auth_method = m, identity_source = basis, identity_error = err\<rparr>))"

definition rejected_identity :: "string \<Rightarrow> exc" where
  "rejected_identity e = runtime_error (''Kaggle owner identity rejected: '' @ e)"

definition require_identity :: "principal_claims \<Rightarrow> string \<Rightarrow> exc + identity" where
  "require_identity c owner =
     (case authenticated_identity c owner of
        Inl e \<Rightarrow> Inl e
      | Inr i \<Rightarrow> if identity_verified i then Inr i else Inl (rejected_identity (identity_error i)))"

section \<open>The inventory of the account\<close>

text \<open>A page of the listing: a failure, no list, or the references of its rows (\<^const>\<open>None\<close> when it is no text).\<close>

datatype page = Page_failed exc | No_list | Rows "string option list"

definition plain_parts :: "string \<Rightarrow> bool" where
  "plain_parts ref \<longleftrightarrow> (case split_on (CHR ''/'') ref of [a, b] \<Rightarrow> a \<noteq> [] \<and> b \<noteq> [] | _ \<Rightarrow> False)"

fun owned_from :: "(nat \<Rightarrow> page) \<Rightarrow> string \<Rightarrow> nat \<Rightarrow> nat \<Rightarrow> string set \<Rightarrow> exc + bool" where
  "owned_from pages ref 0 p seen = Inl (runtime_error ''Dataset owner inventory pagination limit reached'')"
| "owned_from pages ref (Suc n) p seen =
     (case pages p of
        Page_failed e \<Rightarrow> Inl e
      | No_list \<Rightarrow> Inl (runtime_error ''Dataset owner inventory is incomplete'')
      | Rows rows \<Rightarrow>
          if rows = [] then Inr False
          else if \<not> list_all (\<lambda>r. case r of None \<Rightarrow> False | Some t \<Rightarrow> plain_parts t) rows
          then Inl (runtime_error ''Dataset owner inventory contains invalid refs'')
          else let refs = map the rows in
            if \<not> distinct refs \<or> list_ex (\<lambda>r. r \<in> seen) refs
            then Inl (runtime_error ''Dataset owner inventory pagination repeated'')
            else if ref \<in> set refs then Inr True
            else owned_from pages ref n (p + 1) (seen \<union> set refs))"

definition owned_dataset_exists :: "(nat \<Rightarrow> page) \<Rightarrow> string \<Rightarrow> exc + bool" where
  "owned_dataset_exists pages ref = owned_from pages ref 1000 1 {}"

definition dataset_version_number ::
  "(string \<Rightarrow> json option) \<Rightarrow> (json \<Rightarrow> string) \<Rightarrow> exc + string \<Rightarrow> string \<Rightarrow> exc + int" where
  "dataset_version_number loads render status_answer ref =
     (case status_answer of
        Inl e \<Rightarrow> Inl (runtime_error (''Unable to read current Dataset version for '' @ ref @ '': '' @ exc_text e))
      | Inr text \<Rightarrow>
          (case snd (parse_kaggle_dataset_status loads render text) of
             Some v \<Rightarrow> if 0 < v then Inr v
               else Inl (runtime_error (''Kaggle did not return a valid current Dataset version for '' @ ref))
           | None \<Rightarrow> Inl (runtime_error (''Kaggle did not return a valid current Dataset version for '' @ ref))))"

section \<open>An attempt\<close>

text \<open>The change asked of the remote side.\<close>

record mutation =
  new_version :: bool
  of_ref :: string
  expects :: int
  content :: string

datatype durable_effect = Write_intent "json dict" | Ask_remote mutation

text \<open>An answer: whether it has any of the known fields, its error (the first that is set, as text), its status.\<close>

record upload_reply =
  has_fields :: bool
  reply_error :: string
  reply_status :: string

text \<open>The file is replaced as a whole; what follows the replacement can still raise.\<close>

datatype write_outcome = Written | Write_failed bool exc

text \<open>A receipt also lists the files with their sizes.\<close>

record full_receipt = receipt + expected_files :: "(string \<times> int) list"

record attempt =
  a_interrupted :: "exc option"
  a_inventory :: "exc + (string \<times> int) list"
  a_dir :: string
  a_digest :: "exc + string"
  a_claims :: principal_claims
  a_exact_download :: bool
  a_metadata :: "exc + json dict option"
  a_pages :: "nat \<Rightarrow> page"
  a_status :: "exc + string"
  a_first_write :: write_outcome
  a_reply :: "exc + upload_reply"
  a_second_write :: write_outcome
  a_digest_after :: "exc + string"

type_synonym 'a effectful = "durable_effect list \<times> (exc + 'a)"

definition next_step :: "'a effectful \<Rightarrow> ('a \<Rightarrow> 'b effectful) \<Rightarrow> 'b effectful" where
  "next_step m f = (case m of (es, Inl e) \<Rightarrow> (es, Inl e) | (es, Inr x) \<Rightarrow> (case f x of (es', r) \<Rightarrow> (es @ es', r)))"

definition pure_step :: "exc + 'a \<Rightarrow> 'a effectful" where
  "pure_step r = ([], r)"

definition refuse_if :: "bool \<Rightarrow> string \<Rightarrow> unit effectful" where
  "refuse_if b m = ([], if b then Inl (runtime_error m) else Inr ())"

definition write_intent :: "write_outcome \<Rightarrow> json dict \<Rightarrow> unit effectful" where
  "write_intent outcome d =
     (case outcome of
        Written \<Rightarrow> ([Write_intent d], Inr ())
      | Write_failed replaced e \<Rightarrow> (if replaced then [Write_intent d] else [], Inl e))"

definition identity_fields :: "identity \<Rightarrow> json dict" where
  "identity_fields i = [(''identity_verified'', JBool (identity_verified i)), (''auth_method'', JStr (auth_method i)),
     (''identity_source'', JStr (identity_source i)), (''identity_error'', JStr (identity_error i))]"

definition new_intent :: "attempt \<Rightarrow> string \<Rightarrow> string \<Rightarrow> int \<Rightarrow> bool \<Rightarrow> identity \<Rightarrow> json dict" where
  "new_intent a ref digest v exists i =
     [(''schema_version'', JInt 1), (''dataset_ref'', JStr ref), (''dataset_dir'', JStr (a_dir a)),
      (''content_sha256'', JStr digest), (''version_number'', JInt v),
      (''operation'', JStr (if exists then ''version'' else ''create'')), (''state'', JStr ''unknown''),
      (''existence_basis'', JStr ''authenticated_mine_inventory'')] @ identity_fields i"

definition in_state :: "string \<Rightarrow> json dict \<Rightarrow> json dict" where
  "in_state s d = AList.update ''state'' (JStr s) d"

definition intent_version :: "json dict \<Rightarrow> int" where
  "intent_version d = (case map_of d ''version_number'' of Some (JInt n) \<Rightarrow> n | _ \<Rightarrow> 0)"

definition receipt_for :: "attempt \<Rightarrow> int \<Rightarrow> (string \<times> int) list \<Rightarrow> string \<Rightarrow> full_receipt" where
  "receipt_for a v files digest =
     \<lparr>expected_version = Some v, receipt_dir = a_dir a, receipt_digest = digest, expected_files = files\<rparr>"

definition reuse_intent :: "attempt \<Rightarrow> string \<Rightarrow> (string \<times> int) list \<Rightarrow> string \<Rightarrow> json dict \<Rightarrow> full_receipt effectful" where
  "reuse_intent a ref files digest d =
     next_step (refuse_if (map_of d ''dataset_ref'' \<noteq> Some (JStr ref) \<or> map_of d ''content_sha256'' \<noteq> Some (JStr digest)
        \<or> map_of d ''dataset_dir'' \<noteq> Some (JStr (a_dir a))) ''upload_intent_scope_or_content_mismatch'') (\<lambda>_.
     next_step (refuse_if (intent_state d = ''rejected'') ''Dataset upload was rejected; retained original intent'') (\<lambda>_.
     next_step (pure_step (require_identity (a_claims a) (owner_part ref))) (\<lambda>_.
     pure_step (Inr (receipt_for a (intent_version d) files digest)))))"

definition lost :: "string \<Rightarrow> exc + 'a" where
  "lost m = Inl (Upload_unknown (m @ ''; original candidate retained''))"

definition judge_reply :: "string list \<Rightarrow> attempt \<Rightarrow> string \<Rightarrow> json dict \<Rightarrow> unit effectful" where
  "judge_reply known a digest intent =
     (case a_reply a of
        Inl _ \<Rightarrow> pure_step (lost ''Dataset upload outcome unknown'')
      | Inr r \<Rightarrow>
          if \<not> has_fields r then pure_step (lost ''Dataset response missing'')
          else let st = lower (reply_status r) in
            if reply_error r \<noteq> [] \<or> st \<noteq> [] \<and> st \<notin> set ready_statuses
            then next_step (write_intent (a_second_write a) (in_state ''rejected'' intent)) (\<lambda>_.
              pure_step (Inl (runtime_error (''Dataset business response rejected: ''
                @ redact_secrets known (if reply_error r \<noteq> [] then reply_error r else st)))))
            else next_step (pure_step (a_digest_after a)) (\<lambda>after.
              if after \<noteq> digest then pure_step (lost ''Dataset source changed after upload'')
              else write_intent (a_second_write a) (in_state ''accepted'' intent)))"

text \<open>Record, ask, record the answer.\<close>

definition commit_upload ::
  "string list \<Rightarrow> attempt \<Rightarrow> string \<Rightarrow> json dict \<Rightarrow> mutation \<Rightarrow> full_receipt \<Rightarrow> full_receipt effectful" where
  "commit_upload known a digest intent m receipt =
     next_step (write_intent (a_first_write a) intent) (\<lambda>_.
     next_step ([Ask_remote m], Inr ()) (\<lambda>_.
     next_step (judge_reply known a digest intent) (\<lambda>_.
     pure_step (Inr receipt))))"

definition first_upload ::
  "(string \<Rightarrow> json option) \<Rightarrow> (json \<Rightarrow> string) \<Rightarrow> string list \<Rightarrow> attempt \<Rightarrow> string \<Rightarrow> (string \<times> int) list \<Rightarrow> string
   \<Rightarrow> full_receipt effectful" where
  "first_upload loads render known a ref files digest =
     next_step (pure_step (require_identity (a_claims a) (owner_part ref))) (\<lambda>i.
     next_step (refuse_if (\<not> a_exact_download a) ''Kaggle API cannot verify exact Dataset content; upgrade explicitly'') (\<lambda>_.
     next_step (pure_step (a_metadata a)) (\<lambda>metadata.
     next_step (refuse_if (case metadata of None \<Rightarrow> False | Some m \<Rightarrow> map_of m ''id'' \<noteq> Some (JStr ref))
        ''Dataset metadata owner/ref binding mismatch'') (\<lambda>_.
     next_step (pure_step (owned_dataset_exists (a_pages a) ref)) (\<lambda>exists.
     next_step (pure_step (if exists then dataset_version_number loads render (a_status a) ref else Inr 0)) (\<lambda>current.
     commit_upload known a digest (new_intent a ref digest (current + 1) exists i)
       \<lparr>new_version = exists, of_ref = ref, expects = current + 1, content = digest\<rparr>
       (receipt_for a (current + 1) files digest)))))))"

definition upload_dataset ::
  "(string \<Rightarrow> json option) \<Rightarrow> (json \<Rightarrow> string) \<Rightarrow> string list \<Rightarrow> attempt \<Rightarrow> string \<Rightarrow> intent_file \<Rightarrow> full_receipt effectful" where
  "upload_dataset loads render known a ref stored =
     next_step (pure_step (case a_interrupted a of None \<Rightarrow> Inr () | Some e \<Rightarrow> Inl e)) (\<lambda>_.
     next_step (pure_step (a_inventory a)) (\<lambda>files.
     next_step (pure_step (a_digest a)) (\<lambda>digest.
     next_step (pure_step (case read_intent stored of Inl e \<Rightarrow> Inl (value_error e) | Inr i \<Rightarrow> Inr i)) (\<lambda>intent.
     case intent of
       Some d \<Rightarrow> reuse_intent a ref files digest d
     | None \<Rightarrow> first_upload loads render known a ref files digest))))"

section \<open>What an attempt does\<close>

lemma next_step_cases:
  "fst (next_step m f) = fst m @ (case snd m of Inl _ \<Rightarrow> [] | Inr x \<Rightarrow> fst (f x))"
  "snd (next_step m f) = (case snd m of Inl e \<Rightarrow> Inl e | Inr x \<Rightarrow> snd (f x))"
  by (simp_all add: next_step_def split: prod.split sum.split)

lemma pure_step_simps [simp]: "next_step (pure_step (Inr x)) f = f x" "next_step (pure_step (Inl e)) f = ([], Inl e)"
  "fst (pure_step r) = []" "snd (pure_step r) = r"
  by (simp_all add: next_step_def pure_step_def split: prod.split)

lemma refuse_if_simps [simp]: "next_step (refuse_if False m) f = f ()" "next_step (refuse_if True m) f = ([], Inl (runtime_error m))"
  by (simp_all add: next_step_def refuse_if_def split: prod.split)

text \<open>The record of a change: it is valid and names the version, the content and the reference.\<close>

definition records :: "json dict \<Rightarrow> mutation \<Rightarrow> bool" where
  "records d m \<longleftrightarrow> read_intent (Intent_text (JObj d)) = Inr (Some d)
     \<and> map_of d ''version_number'' = Some (JInt (expects m)) \<and> map_of d ''content_sha256'' = Some (JStr (content m))
     \<and> map_of d ''dataset_ref'' = Some (JStr (of_ref m))
     \<and> map_of d ''operation'' = Some (JStr (if new_version m then ''version'' else ''create''))"

lemma new_intent_records:
  "0 \<le> current \<Longrightarrow> records (new_intent a ref digest (current + 1) exists i)
     \<lparr>new_version = exists, of_ref = ref, expects = current + 1, content = digest\<rparr>"
  by (simp add: records_def new_intent_def read_intent_def equals_one_def)

lemma in_state_records: "records d m \<Longrightarrow> s \<in> {''accepted'', ''rejected''} \<Longrightarrow> records (in_state s d) m"
  by (auto simp: records_def in_state_def read_intent_def equals_one_def update_conv' split: option.splits json.splits if_splits)

lemma judge_effects:
  "fst (judge_reply known a digest d) \<in> {[], [Write_intent (in_state ''rejected'' d)], [Write_intent (in_state ''accepted'' d)]}"
  by (auto simp: judge_reply_def write_intent_def Let_def lost_def next_step_cases split: sum.split option.split write_outcome.split)

text \<open>The effects of an attempt are a prefix of: record, ask, record the answer.\<close>

definition upload_effects :: "durable_effect list \<Rightarrow> bool" where
  "upload_effects es \<longleftrightarrow> (\<exists>d m s. records d m \<and> s \<in> {''accepted'', ''rejected''}
     \<and> prefix es [Write_intent d, Ask_remote m, Write_intent (in_state s d)])"

lemma version_nonneg: "dataset_version_number loads render st ref = Inr v \<Longrightarrow> 0 \<le> v"
  by (auto simp: dataset_version_number_def split: sum.splits option.splits if_splits)

lemma reuse_effects: "fst (reuse_intent a ref files digest d) = []"
  by (auto simp: reuse_intent_def refuse_if_def next_step_cases split: sum.split)

lemma no_effects: "upload_effects []"
  unfolding upload_effects_def using new_intent_records [of 0] by fastforce

lemma asked_effects:
  assumes "records d m" and "es \<in> {[], [Write_intent (in_state ''rejected'' d)], [Write_intent (in_state ''accepted'' d)]}"
  shows "upload_effects (Write_intent d # Ask_remote m # es)"
  using assms unfolding upload_effects_def by fastforce

lemma upload_effects_prefix: "upload_effects es \<Longrightarrow> prefix es' es \<Longrightarrow> upload_effects es'"
  unfolding upload_effects_def using prefix_order.trans by blast

lemma commit_effects:
  assumes "records d m"
  shows "upload_effects (fst (commit_upload known a digest d m r))"
proof -
  note all = asked_effects [OF assms judge_effects [of known a digest d]]
  from upload_effects_prefix [OF all, of "[Write_intent d]"] all show ?thesis
    by (auto simp: commit_upload_def write_intent_def next_step_cases no_effects split: write_outcome.split sum.split)
qed

lemma effects_after:
  "(\<And>x. r = Inr x \<Longrightarrow> upload_effects (fst (f x))) \<Longrightarrow> upload_effects (fst (next_step (pure_step r) f))"
  "(\<not> b \<Longrightarrow> upload_effects (fst (g ()))) \<Longrightarrow> upload_effects (fst (next_step (refuse_if b t) g))"
  by (auto simp: next_step_cases refuse_if_def no_effects split: sum.split)

lemma first_upload_effects: "upload_effects (fst (first_upload loads render known a ref files digest))"
  unfolding first_upload_def
  by (intro effects_after commit_effects new_intent_records) (auto dest: version_nonneg split: if_splits)

lemma upload_effects:
  "upload_effects (fst (upload_dataset loads render known a ref stored))
   \<and> (read_intent stored \<noteq> Inr None \<longrightarrow> fst (upload_dataset loads render known a ref stored) = [])"
  by (auto simp: upload_dataset_def next_step_cases reuse_effects first_upload_effects no_effects split: sum.split option.split)

section \<open>Attempts that may stop anywhere\<close>

text \<open>The intent's file and the changes asked of the remote side so far, for one reference and directory.\<close>

record candidate_state =
  cs_stored :: intent_file
  cs_asked :: "mutation list"

definition apply_effect :: "durable_effect \<Rightarrow> candidate_state \<Rightarrow> candidate_state" where
  "apply_effect e st =
     (case e of
        Write_intent d \<Rightarrow> st\<lparr>cs_stored := Intent_text (JObj d)\<rparr>
      | Ask_remote m \<Rightarrow> st\<lparr>cs_asked := cs_asked st @ [m]\<rparr>)"

inductive attempted ::
  "(string \<Rightarrow> json option) \<Rightarrow> (json \<Rightarrow> string) \<Rightarrow> string list \<Rightarrow> string \<Rightarrow> candidate_state \<Rightarrow> bool"
  for loads render known ref where
  untouched: "attempted loads render known ref \<lparr>cs_stored = Intent_missing, cs_asked = []\<rparr>"
| next_attempt: "attempted loads render known ref st
     \<Longrightarrow> prefix es (fst (upload_dataset loads render known a ref (cs_stored st)))
     \<Longrightarrow> attempted loads render known ref (fold apply_effect es st)"

text \<open>Nothing asked, or one change, which the stored intent records.\<close>

definition candidate_ok :: "candidate_state \<Rightarrow> bool" where
  "candidate_ok st \<longleftrightarrow>
     (cs_asked st = [] \<and> (cs_stored st = Intent_missing \<or> read_intent (cs_stored st) \<noteq> Inr None))
     \<or> (\<exists>m d. cs_asked st = [m] \<and> cs_stored st = Intent_text (JObj d) \<and> records d m)"

lemma records_stored: "records d m \<Longrightarrow> read_intent (Intent_text (JObj d)) = Inr (Some d)"
  by (simp add: records_def)

lemma effects_ok:
  assumes "upload_effects es" and "cs_stored st = Intent_missing" and "cs_asked st = []"
  shows "candidate_ok (fold apply_effect es st)"
proof -
  from assms(1) obtain d m s where r: "records d m" "s \<in> {''accepted'', ''rejected''}"
    and p: "prefix es [Write_intent d, Ask_remote m, Write_intent (in_state s d)]" unfolding upload_effects_def by blast
  have "es \<in> {[], [Write_intent d], [Write_intent d, Ask_remote m], [Write_intent d, Ask_remote m, Write_intent (in_state s d)]}"
    using p by (auto simp: prefix_Cons)
  with assms(2,3) r records_stored [OF r(1)] in_state_records [OF r] show ?thesis
    by (auto simp: candidate_ok_def apply_effect_def)
qed

lemma attempted_ok: "attempted loads render known ref st \<Longrightarrow> candidate_ok st"
proof (induction rule: attempted.induct)
  case untouched
  then show ?case by (simp add: candidate_ok_def)
next
  case (next_attempt st es a)
  note u = upload_effects [of loads render known a ref "cs_stored st"]
  show ?case
  proof (cases "read_intent (cs_stored st) = Inr None")
    case False
    with u next_attempt.hyps(2) have "es = []" by simp
    with next_attempt.IH show ?thesis by simp
  next
    case True
    with next_attempt.IH have "cs_stored st = Intent_missing" "cs_asked st = []"
      by (auto simp: candidate_ok_def dest: records_stored)
    with effects_ok upload_effects_prefix u next_attempt.hyps(2) show ?thesis by blast
  qed
qed

text \<open>
  C8: A candidate is never uploaded twice: over any number of attempts to upload a dataset directory, each
  stopped anywhere (a crash included) and whatever the remote side and the disk answer, at most one change is
  asked of the remote side, and from then on the intent on disk is valid and records its version, content,
  reference and kind.
\<close>

theorem never_uploaded_twice:
  assumes "attempted loads render known ref st"
  shows "length (cs_asked st) \<le> 1
    \<and> (\<forall>m \<in> set (cs_asked st). \<exists>d. cs_stored st = Intent_text (JObj d) \<and> records d m)"
  using attempted_ok [OF assms] by (auto simp: candidate_ok_def)

section \<open>What a change is asked for\<close>

text \<open>The pages up to an empty one, none of which lists the reference; or a page that lists it.\<close>

definition listed_on :: "(nat \<Rightarrow> page) \<Rightarrow> string \<Rightarrow> nat \<Rightarrow> bool" where
  "listed_on pages ref p \<longleftrightarrow> (\<exists>rows. pages p = Rows rows \<and> Some ref \<in> set rows)"

lemma owned_from_sound:
  assumes "owned_from pages ref n p seen = Inr b"
  shows "\<exists>q. p \<le> q \<and> q < p + n \<and> (if b then listed_on pages ref q else pages q = Rows [])
    \<and> (\<forall>i. p \<le> i \<and> i < q \<longrightarrow> \<not> listed_on pages ref i)"
  using assms
proof (induction pages ref n p seen rule: owned_from.induct)
  case (2 pages ref n p seen)
  from "2.prems" obtain rows where rows: "pages p = Rows rows" by (auto split: page.splits)
  show ?case
  proof (cases "rows = []")
    case True
    with "2.prems" rows show ?thesis by (auto intro!: exI [of _ p])
  next
    case False
    with "2.prems" rows have texts: "list_all (\<lambda>r. case r of None \<Rightarrow> False | Some t \<Rightarrow> plain_parts t) rows"
      and fine: "distinct (map the rows)" "\<not> list_ex (\<lambda>r. r \<in> seen) (map the rows)"
      by (auto simp: Let_def split: if_splits)
    have here: "listed_on pages ref p \<longleftrightarrow> ref \<in> set (map the rows)"
      using texts rows by (force simp: listed_on_def list_all_iff split: option.splits)
    show ?thesis
    proof (cases "ref \<in> set (map the rows)")
      case True
      with "2.prems" rows False texts fine here show ?thesis by (auto simp: Let_def intro!: exI [of _ p])
    next
      case out: False
      with "2.prems" rows False texts fine
      have "owned_from pages ref n (p + 1) (seen \<union> set (map the rows)) = Inr b" by (simp add: Let_def)
      from "2.IH" [OF rows False _ refl _ out this] texts fine obtain q where
        q: "p + 1 \<le> q" "q < p + 1 + n" "if b then listed_on pages ref q else pages q = Rows []"
          "\<forall>i. p + 1 \<le> i \<and> i < q \<longrightarrow> \<not> listed_on pages ref i" by auto
      have "\<not> listed_on pages ref i" if "p \<le> i" "i < q" for i
        using q(4) here out that by (cases "i = p") auto
      with q(1-3) show ?thesis by (intro exI [of _ q]) auto
    qed
  qed
qed simp


definition current_version_of :: "(string \<Rightarrow> json option) \<Rightarrow> (json \<Rightarrow> string) \<Rightarrow> attempt \<Rightarrow> string \<Rightarrow> int option" where
  "current_version_of loads render a ref =
     (case dataset_version_number loads render (a_status a) ref of Inl _ \<Rightarrow> None | Inr v \<Rightarrow> Some v)"

text \<open>What must hold when a change is asked.\<close>

definition asked_rightly :: "(string \<Rightarrow> json option) \<Rightarrow> (json \<Rightarrow> string) \<Rightarrow> attempt \<Rightarrow> string \<Rightarrow> mutation \<Rightarrow> bool" where
  "asked_rightly loads render a ref m \<longleftrightarrow>
     of_ref m = ref \<and> a_digest a = Inr (content m)
     \<and> (\<exists>i. authenticated_identity (a_claims a) (owner_part ref) = Inr i \<and> identity_verified i)
     \<and> a_exact_download a
     \<and> (\<exists>q \<le> 1000. (if new_version m then listed_on (a_pages a) ref q else a_pages a q = Rows [])
          \<and> (\<forall>i. 1 \<le> i \<and> i < q \<longrightarrow> \<not> listed_on (a_pages a) ref i))
     \<and> (if new_version m then current_version_of loads render a ref = Some (expects m - 1) \<and> 1 < expects m
        else expects m = 1)"

lemma next_step_ask:
  "Ask_remote m \<in> set (fst (next_step s f)) \<longleftrightarrow>
     Ask_remote m \<in> set (fst s) \<or> (\<exists>x. snd s = Inr x \<and> Ask_remote m \<in> set (fst (f x)))"
  by (auto simp: next_step_cases split: sum.split)

lemma not_asked [simp]:
  "Ask_remote m \<notin> set (fst (refuse_if b t))" "Ask_remote m \<notin> set (fst (write_intent w d))"
  "Ask_remote m \<notin> set (fst (judge_reply known a digest d))"
  using judge_effects [of known a digest d] by (auto simp: refuse_if_def write_intent_def split: write_outcome.split)

lemma refuse_if_passed: "snd (refuse_if b t) = Inr x \<longleftrightarrow> \<not> b"
  by (simp add: refuse_if_def)

lemma require_identity_passed:
  "require_identity c owner = Inr i \<longleftrightarrow> authenticated_identity c owner = Inr i \<and> identity_verified i"
  by (auto simp: require_identity_def split: sum.split)

text \<open>
  A change is asked of the remote side only when there was no intent of this candidate, for the digested
  content, by the verified owner of the reference, with a client that can verify the version afterwards; a new
  version only of a dataset that the account's own inventory lists, numbered one above its current version,
  and a creation only when the whole inventory, to its empty page, does not list it.
\<close>

theorem asked_only_rightly:
  assumes "Ask_remote m \<in> set (fst (upload_dataset loads render known a ref stored))"
  shows "read_intent stored = Inr None \<and> asked_rightly loads render a ref m"
proof -
  from assms obtain files digest where intent: "read_intent stored = Inr None" and digest: "a_digest a = Inr digest"
    and f: "Ask_remote m \<in> set (fst (first_upload loads render known a ref files digest))"
    by (auto simp: upload_dataset_def next_step_ask reuse_effects split: sum.splits option.splits)
  from f obtain i ex current where
    i: "require_identity (a_claims a) (owner_part ref) = Inr i" and d: "a_exact_download a"
    and ex: "owned_dataset_exists (a_pages a) ref = Inr ex"
    and c: "(if ex then dataset_version_number loads render (a_status a) ref else Inr 0) = Inr current"
    and m: "m = \<lparr>new_version = ex, of_ref = ref, expects = current + 1, content = digest\<rparr>"
    by (auto simp: first_upload_def commit_upload_def next_step_ask refuse_if_passed)
  from owned_from_sound [OF ex [unfolded owned_dataset_exists_def]] obtain q where
    q: "q < 1001" "if ex then listed_on (a_pages a) ref q else a_pages a q = Rows []"
      "\<forall>i. 1 \<le> i \<and> i < q \<longrightarrow> \<not> listed_on (a_pages a) ref i" by auto
  have "if ex then current_version_of loads render a ref = Some current \<and> 0 < current else current = 0"
    using c by (auto simp: current_version_of_def dataset_version_number_def split: if_splits sum.splits option.splits)
  with intent digest i d m q show ?thesis
    by (auto simp: asked_rightly_def require_identity_passed intro!: exI [of _ q])
qed

section \<open>Witnesses\<close>

definition sample_attempt :: attempt where
  "sample_attempt =
     \<lparr>a_interrupted = None, a_inventory = Inr [(''train.csv'', 7)], a_dir = ''/data/u'', a_digest = Inr ''d1'',
      a_claims = \<lparr>claim_method = ''AuthMethod.ACCESS_TOKEN'', claim_username = '' Alice '', introspected = Inr [],
        key_listing = Inr (), credential_owner = ''alice''\<rparr>,
      a_exact_download = True, a_metadata = Inr (Some [(''id'', JStr ''alice/set'')]),
      a_pages = (\<lambda>p. if p = 1 then Rows [Some ''alice/other''] else Rows []), a_status = Inr [],
      a_first_write = Written, a_reply = Inr \<lparr>has_fields = True, reply_error = [], reply_status = ''ok''\<rparr>,
      a_second_write = Write_failed False (runtime_error ''disk''), a_digest_after = Inr ''d1''\<rparr>"

definition sample_effects :: "durable_effect list" where
  "sample_effects = fst (upload_dataset (\<lambda>_. None) (\<lambda>_. []) [] sample_attempt ''alice/set'' Intent_missing)"

definition sample_change :: mutation where
  "sample_change = \<lparr>new_version = False, of_ref = ''alice/set'', expects = 1, content = ''d1''\<rparr>"

lemma sample_asks: "Ask_remote sample_change \<in> set sample_effects"
  by code_simp

lemma never_uploaded_twice_witness:
  "\<exists>st d. attempted (\<lambda>_. None) (\<lambda>_. []) [] ''alice/set'' st \<and> cs_asked st = [sample_change]
     \<and> cs_stored st = Intent_text (JObj d) \<and> records d sample_change"
proof -
  let ?st0 = "\<lparr>cs_stored = Intent_missing, cs_asked = []\<rparr>"
  let ?st = "fold apply_effect sample_effects ?st0"
  have a: "attempted (\<lambda>_. None) (\<lambda>_. []) [] ''alice/set'' ?st"
    by (rule attempted.next_attempt [where a = sample_attempt, OF attempted.untouched]) (simp add: sample_effects_def)
  have "cs_asked ?st = [sample_change]" by code_simp
  with never_uploaded_twice [OF a] a show ?thesis by auto
qed

lemma asked_only_rightly_witness:
  "Ask_remote sample_change \<in> set sample_effects \<and> asked_rightly (\<lambda>_. None) (\<lambda>_. []) sample_attempt ''alice/set'' sample_change"
  using sample_asks asked_only_rightly [OF sample_asks [unfolded sample_effects_def]] by simp

end
