(* ===== verification/Pipeline.thy ===== *)
theory Pipeline
  imports Worker_Task
begin

text \<open>
  What a worker does with a queued job (\<^verbatim>\<open>process_job\<close> and \<^verbatim>\<open>recheck_dataset_job\<close> of \<^verbatim>\<open>app/worker.py\<close>): it
  checks the account, reuses, rechecks or uploads the dataset, waits until the version is verified, pins
  the kernel to it, submits the kernel, follows it and packs the result. Every exception ends in the
  handler, which decides whether the job ends, waits for a restart, or keeps its uploaded version. The
  lock around the submission is \<^verbatim>\<open>Submission_Lock\<close>; here only its interruption is seen.
\<close>

section \<open>Before submission\<close>

definition latest_job :: "job \<Rightarrow> relay_db \<Rightarrow> job" where
  "latest_job j db = (case get_job db (job_id j) of None \<Rightarrow> j | Some r \<Rightarrow> r)"

definition stop_if_canceled :: "job \<Rightarrow> unit task" where
  "stop_if_canceled j = andthen (read_db (latest_job j)) (\<lambda>r.
     check_that (\<not> job_cancel_requested r) (Canceled_exc ''canceled before Kaggle kernel submission''))"

definition move_to_status :: "world \<Rightarrow> job \<Rightarrow> job_status set \<Rightarrow> job_status \<Rightarrow> rat \<Rightarrow> unit task" where
  "move_to_status w j expected s p =
     timed w (\<lambda>now db. case transition_before_submission now (job_id j) expected s p j db of
         (Inl (Job_canceled m), db') \<Rightarrow> (Inl (Canceled_exc m), db')
       | (Inl (Job_changed current), db') \<Rightarrow>
           (Inl (runtime_error (''job '' @ job_id j @ '' changed to '' @ current @ '' before '' @ status_name s @ '' transition'')), db')
       | (Inr u, db') \<Rightarrow> (Inr u, db'))"

definition ready_version :: "world \<Rightarrow> string \<Rightarrow> int option" where
  "ready_version w st = ready_dataset_version (w_loads w) (w_render w) st"

definition find_ready_cache :: "world \<Rightarrow> job \<Rightarrow> cache_row option task" where
  "find_ready_cache w j =
     timed w (\<lambda>now db. case get_ready_dataset_cache (\<lambda>st. ready_version w st \<noteq> None) now (dataset_ref j) (payload_hash j)
         (kaggle_key_id j) db of (c, db') \<Rightarrow> (Inr c, db'))"

definition load_intent :: "world \<Rightarrow> json dict option task" where
  "load_intent w = (case read_intent (w_intent w) of Inl e \<Rightarrow> fail_with (value_error e) | Inr i \<Rightarrow> give i)"

definition own_dir :: "world \<Rightarrow> job \<Rightarrow> string" where
  "own_dir w j = w_dir_of w (job_id j)"

text \<open>The digest is computed only when everything else about the stored intent is right.\<close>

definition check_retained :: "world \<Rightarrow> job \<Rightarrow> json dict option \<Rightarrow> unit task" where
  "check_retained w j intent =
     (let wrong = fail_with (value_error ''upload_intent_scope_or_content_mismatch: automatic recheck cannot upload'') in
      case intent of
        None \<Rightarrow> wrong
      | Some d \<Rightarrow>
          if intent_state d \<in> {''accepted'', ''unknown''} \<and> map_of d ''dataset_ref'' = Some (JStr (dataset_ref j))
             \<and> map_of d ''dataset_dir'' = Some (JStr (own_dir w j))
          then andthen (lift (w_digest w (own_dir w j))) (\<lambda>digest.
                 if map_of d ''content_sha256'' = Some (JStr digest) then give () else wrong)
          else wrong)"

definition pin_version :: "job \<Rightarrow> int option \<Rightarrow> unit task" where
  "pin_version j v = on_dirs (\<lambda>(d, k). case pin_kernel_dataset_version (dataset_ref j) v k of (r, k') \<Rightarrow> (r, d, k'))"

definition await_dataset :: "world \<Rightarrow> job \<Rightarrow> receipt option \<Rightarrow> bool \<Rightarrow> string task" where
  "await_dataset w j r background = remote w (Await_dataset (dataset_ref j) r background) (w_await w)"

section \<open>A version that is ready already\<close>

definition cached_source :: "world \<Rightarrow> job \<Rightarrow> cache_row \<Rightarrow> string task" where
  "cached_source w j c =
     (if w_is_dir w (own_dir w j) then give (own_dir w j)
      else if w_is_dir w (w_dir_of w (cache_source c)) then give (w_dir_of w (cache_source c))
      else fail_with (value_error ''Cached Dataset source unavailable for byte verification''))"

definition reuse_dataset :: "world \<Rightarrow> job \<Rightarrow> string \<Rightarrow> cache_row \<Rightarrow> unit task" where
  "reuse_dataset w j user c =
     andthen (cached_source w j c) (\<lambda>source.
     andthen (on_dirs (\<lambda>(d, k). case validate_kernel_payload (w_render w) (kernel_ref j) user (dataset_ref j) k of
        (r, k') \<Rightarrow> (r, d, k'))) (\<lambda>_.
     andthen (lift (w_digest w source)) (\<lambda>digest.
     andthen (await_dataset w j (Some \<lparr>expected_version = ready_version w (cache_dataset_status c), receipt_dir = source,
        receipt_digest = digest\<rparr>) False) (\<lambda>st.
     afterwards (pin_version j (ready_version w (cache_dataset_status c)))
     (afterwards (timed_write w (\<lambda>now db. update_job db now (job_id j) [Set_dataset_status st, Set_progress 40]))
     (log_line w (job_id j) (''Reusing ready dataset cache for '' @ dataset_ref j)))))))"

section \<open>A version that is uploaded or rechecked\<close>

definition saved_receipt :: "world \<Rightarrow> job \<Rightarrow> json dict \<Rightarrow> receipt" where
  "saved_receipt w j d =
     \<lparr>expected_version = (case map_of d ''version_number'' of Some (JInt n) \<Rightarrow> Some n | _ \<Rightarrow> None),
      receipt_dir = own_dir w j, receipt_digest = str_field d ''content_sha256''\<rparr>"

definition obtain_dataset :: "world \<Rightarrow> job \<Rightarrow> bool \<Rightarrow> json dict option \<Rightarrow> receipt option task" where
  "obtain_dataset w j retained intent =
     (if retained
      then afterwards (move_to_status w j {Queued} Waiting_dataset 35)
             (give (map_option (saved_receipt w j) intent))
      else afterwards (move_to_status w j {Queued, Uploading_dataset, Waiting_dataset} Uploading_dataset 20)
          (andthen (remote w (Upload_dataset (dataset_ref j)) (w_upload w)) (\<lambda>r.
           afterwards (move_to_status w j {Uploading_dataset} Waiting_dataset 35) (give r))))"

definition remember_ready :: "world \<Rightarrow> job \<Rightarrow> string \<Rightarrow> unit task" where
  "remember_ready w j st =
     (if is_ready_kaggle_status (w_loads w) (w_render w) st
      then timed_write w (\<lambda>now db.
        upsert_last_dataset_job (upsert_dataset_cache db now (dataset_ref j) (payload_hash j) ''ready'' st (job_id j) (kaggle_key_id j))
          now (dataset_ref j) (payload_hash j) st (job_id j) (kaggle_key_id j))
      else give ())"

text \<open>The exception class named after the wait is not imported, so a missing version raises a \<^verbatim>\<open>NameError\<close>.\<close>

definition submit_dataset :: "world \<Rightarrow> job \<Rightarrow> bool \<Rightarrow> string \<Rightarrow> json dict option \<Rightarrow> unit task" where
  "submit_dataset w j retained user intent =
     afterwards (stop_if_canceled j)
     (andthen (on_dirs (validate_payloads (w_render w) (dataset_ref j) (kernel_ref j) user)) (\<lambda>_.
      andthen (obtain_dataset w j retained intent) (\<lambda>r.
      andthen (await_dataset w j r retained) (\<lambda>st.
      afterwards (timed_write w (\<lambda>now db. update_job db now (job_id j) [Set_dataset_status st, Set_progress 40,
          Set_recheck_state No_recheck, Set_recheck_at None, Set_queue_reason [], Set_error []]))
      (afterwards (stop_if_canceled j)
      (afterwards (check_that (r = None \<or> ready_version w st \<noteq> None)
          (runtime_error ''name 'KaggleAdapterError' is not defined''))
      (afterwards (pin_version j (ready_version w st)) (remember_ready w j st))))))))"

section \<open>The whole action\<close>

definition log_policy :: "world \<Rightarrow> job \<Rightarrow> string option \<Rightarrow> unit task" where
  "log_policy w j m = (case m of None \<Rightarrow> give () | Some t \<Rightarrow> if t = [] then give () else log_line w (job_id j) t)"

definition push_kernel :: "world \<Rightarrow> job \<Rightarrow> unit task" where
  "push_kernel w j =
     andthen (lift (w_gpu_policy w)) (\<lambda>m.
     afterwards (log_policy w j m)
     (andthen (lift (w_threshold_policy w)) (\<lambda>m'.
      afterwards (log_policy w j m')
     (afterwards (move_to_status w j {Queued, Waiting_dataset} Pushing_kernel 45)
     (andthen (remote w Push_kernel (w_push w)) (\<lambda>out. log_line w (job_id j) out))))))"

definition prepare_dataset :: "world \<Rightarrow> job \<Rightarrow> bool \<Rightarrow> string \<Rightarrow> unit task" where
  "prepare_dataset w j retained user =
     andthen (find_ready_cache w j) (\<lambda>cache.
     andthen (load_intent w) (\<lambda>intent.
     afterwards (if retained then check_retained w j intent else give ())
     (case (if intent = None then cache else None) of
        Some c \<Rightarrow> reuse_dataset w j user c
      | None \<Rightarrow> submit_dataset w j retained user intent)))"

definition submission :: "world \<Rightarrow> job \<Rightarrow> bool \<Rightarrow> string \<Rightarrow> unit task" where
  "submission w j retained user =
     afterwards (raise_if (w_lock w))
     (afterwards (stop_if_canceled j)
     (afterwards (check_that (owner_part (kernel_ref j) = owner_part (dataset_ref j))
        (value_error ''Dataset and Kernel owner binding mismatch''))
     (afterwards (remote w (Check_identity (owner_part (dataset_ref j))) (w_identity w))
     (afterwards (prepare_dataset w j retained user) (push_kernel w j)))))"

definition process_body :: "world \<Rightarrow> auth_store option \<Rightarrow> job \<Rightarrow> bool \<Rightarrow> unit task" where
  "process_body w auth j retained =
     andthen (submitting_user auth (kaggle_key_id j)) (\<lambda>user.
     afterwards (raise_if (w_training w))
     (afterwards (submission w j retained user) (finish_kernel_job w (job_id j) None)))"

section \<open>The handler\<close>

definition structured_failures :: "string set" where
  "structured_failures = {''failed'', ''error'', ''canceled''}"

definition structured_kernel_failure_error :: "(string \<Rightarrow> json option) \<Rightarrow> (json \<Rightarrow> string) \<Rightarrow> json_text \<Rightarrow> string" where
  "structured_kernel_failure_error loads render ks =
     (case loads_text loads ks of
        Some (JObj d) \<Rightarrow>
          (let field = (\<lambda>k. strip (str_or_empty render (map_of d k))) in
           if lower (field ''status'') \<notin> structured_failures then []
           else if field ''error'' \<noteq> [] then field ''error''
           else if field ''error_code'' \<noteq> [] \<and> field ''message'' \<noteq> []
           then field ''error_code'' @ '': '' @ field ''message''
           else if field ''error_code'' \<noteq> [] then field ''error_code'' else field ''message'')
      | _ \<Rightarrow> [])"

definition integrity_texts :: "string list" where
  "integrity_texts = [''payload_'', ''identity rejected'', ''intent_scope_or_content_mismatch'', ''frozen content changed'']"

definition integrity_failure :: "exc \<Rightarrow> bool" where
  "integrity_failure e \<longleftrightarrow>
     (let named = list_ex (\<lambda>c. contains c (exc_text e)) integrity_texts in
      case e of
        Raised (Verify_error c _ _) _ \<Rightarrow> c = Integrity \<or> c = Fatal \<and> named
      | _ \<Rightarrow> named)"

fun as_verification :: "exc \<Rightarrow> verify_exc" where
  "as_verification (Raised v _) = v"
| "as_verification e = Verify_other False (exc_text e)"

definition worth_rechecking :: "exc \<Rightarrow> bool" where
  "worth_rechecking e \<longleftrightarrow> \<not> integrity_failure e
     \<and> (retryable_verification (as_verification e) \<or> (case e of Upload_unknown _ \<Rightarrow> True | _ \<Rightarrow> False))"

definition candidate_kept :: "world \<Rightarrow> exc \<Rightarrow> bool" where
  "candidate_kept w e \<longleftrightarrow>
     (case read_intent (w_intent_after w) of
        Inr (Some d) \<Rightarrow> intent_state d = ''unknown'' \<or> intent_state d = ''accepted'' \<and> \<not> integrity_failure e
      | _ \<Rightarrow> False)"

definition keep_candidate :: "world \<Rightarrow> time \<Rightarrow> string \<Rightarrow> exc \<Rightarrow> relay_db \<Rightarrow> relay_db" where
  "keep_candidate w now jid e db =
     (let db = retain_candidate now jid
            (''dataset_upload_outcome_unknown: original candidate retained; '' @ redact_secrets (w_known w) (exc_text e)) db
      in if worth_rechecking e
         then let f = verification_error (as_verification e)
              in schedule_recheck (w_due_text w) now jid (fail_retry f) (fail_category f = In_progress) db
         else block_recheck now jid ''failure is not a transient publication or transport error'' db)"

datatype action_outcome = Finished | Left_for_restart | Ended_canceled | Ended_failed | Candidate_retained

definition end_job :: "world \<Rightarrow> time \<Rightarrow> string \<Rightarrow> job_status \<Rightarrow> assignment list \<Rightarrow> string \<Rightarrow> relay_db \<Rightarrow> relay_db" where
  "end_job w now jid s vs message db =
     append_log (case finalize_job (w_dumps w) db now jid s (vs @ [Set_error message]) of Inr (db', _) \<Rightarrow> db' | Inl _ \<Rightarrow> db)
       now jid message"

definition handle_exception :: "world \<Rightarrow> time \<Rightarrow> job \<Rightarrow> exc \<Rightarrow> relay_db \<Rightarrow> action_outcome \<times> relay_db" where
  "handle_exception w now j e db =
     (let redact = redact_secrets (w_known w); jid = job_id j in
      case e of
        Status_unavailable m \<Rightarrow> (Left_for_restart, append_log db now jid (''kernel_status_unknown: '' @ redact m))
      | Interrupted_exc m \<Rightarrow> (Left_for_restart, append_log db now jid (redact m))
      | Canceled_exc m \<Rightarrow>
          (Ended_canceled, end_job w now jid Canceled []
             (redact (if m \<noteq> [] then m
                else let r = cancel_reason (latest_job j db) in if r = [] then ''cancel requested'' else r)) db)
      | _ \<Rightarrow>
          (let current = latest_job j db in
           if status current \<in> {Uploading_dataset, Waiting_dataset} \<and> candidate_kept w e
           then (Candidate_retained, keep_candidate w now jid e db)
           else let known_error = structured_kernel_failure_error (w_loads w) (w_render w) (kernel_status current)
                in (Ended_failed, end_job w now jid Failed [Set_progress 0]
                      (redact (if known_error \<noteq> [] then known_error else exc_text e)) db)))"

text \<open>\<^const>\<open>None\<close> when the job is gone.\<close>

definition process_job :: "world \<Rightarrow> auth_store option \<Rightarrow> string \<Rightarrow> bool \<Rightarrow> run \<Rightarrow> action_outcome option \<times> run" where
  "process_job w auth jid retained s =
     (case get_job (run_db s) jid of
        None \<Rightarrow> (None, s)
      | Some j \<Rightarrow>
          (case process_body w auth j retained s of
             (Inr _, s') \<Rightarrow> (Some Finished, s')
           | (Inl e, s') \<Rightarrow>
               (case handle_exception w (now_at w s') j e (run_db s') of (r, db) \<Rightarrow> (Some r, s'\<lparr>run_db := db\<rparr>))))"

definition recheck_dataset_job :: "world \<Rightarrow> auth_store option \<Rightarrow> string \<Rightarrow> run \<Rightarrow> action_outcome option \<times> run" where
  "recheck_dataset_job w auth jid s = process_job w auth jid True s"

section \<open>The order of remote calls\<close>

definition answered :: "world \<Rightarrow> call \<Rightarrow> bool" where
  "answered w c =
     (case c of
        Check_identity _ \<Rightarrow> \<not> isl (w_identity w)
      | Upload_dataset _ \<Rightarrow> \<not> isl (w_upload w)
      | Await_dataset _ _ _ \<Rightarrow> \<not> isl (w_await w)
      | Push_kernel \<Rightarrow> \<not> isl (w_push w)
      | Watch_kernel _ \<Rightarrow> \<not> isl (w_watched w)
      | Download_output _ \<Rightarrow> \<not> isl (w_output w)
      | Download_exact _ \<Rightarrow> \<not> isl (w_p6_output w)
      | Package_output \<Rightarrow> \<not> isl (w_package w))"

fun until_failure :: "('a \<Rightarrow> bool) \<Rightarrow> 'a list \<Rightarrow> 'a list" where
  "until_failure ok [] = []"
| "until_failure ok (c # cs) = c # (if ok c then until_failure ok cs else [])"

text \<open>The candidate a recheck may ask for: this job's own, with the content it was uploaded with.\<close>

definition retained_candidate :: "world \<Rightarrow> job \<Rightarrow> receipt option" where
  "retained_candidate w j =
     (case read_intent (w_intent w) of
        Inr (Some d) \<Rightarrow>
          if intent_state d \<in> {''accepted'', ''unknown''} \<and> map_of d ''dataset_ref'' = Some (JStr (dataset_ref j))
             \<and> map_of d ''dataset_dir'' = Some (JStr (own_dir w j))
             \<and> (case w_digest w (own_dir w j) of Inr digest \<Rightarrow> map_of d ''content_sha256'' = Some (JStr digest) | _ \<Rightarrow> False)
          then Some (saved_receipt w j d) else None
      | _ \<Rightarrow> None)"

definition collecting_calls :: "call list \<Rightarrow> bool" where
  "collecting_calls cs \<longleftrightarrow> (\<exists>k dl. cs = [Watch_kernel k, dl, Package_output] \<and> dl \<in> {Download_output k, Download_exact k})"

definition dataset_calls :: "world \<Rightarrow> job \<Rightarrow> bool \<Rightarrow> call list \<Rightarrow> bool" where
  "dataset_calls w j retained cs \<longleftrightarrow>
     (if retained then (\<exists>r. retained_candidate w j = Some r \<and> cs = [Await_dataset (dataset_ref j) (Some r) True])
      else (\<exists>r up. cs = up @ [Await_dataset (dataset_ref j) r False] \<and> up \<in> {[], [Upload_dataset (dataset_ref j)]}))"

text \<open>The calls of an action that meets no error; a recheck without a candidate only checks the account.\<close>

definition protocol :: "world \<Rightarrow> job \<Rightarrow> bool \<Rightarrow> call list \<Rightarrow> bool" where
  "protocol w j retained cs \<longleftrightarrow>
     (if retained \<and> retained_candidate w j = None then cs = [Check_identity (owner_part (dataset_ref j))]
      else (\<exists>ds ks. cs = Check_identity (owner_part (dataset_ref j)) # ds @ Push_kernel # ks
              \<and> dataset_calls w j retained ds \<and> collecting_calls ks))"

text \<open>A task issues a full list of calls that satisfies \<open>F\<close>, cut where it fails.\<close>

definition issues :: "world \<Rightarrow> 'a task \<Rightarrow> (call list \<Rightarrow> bool) \<Rightarrow> bool" where
  "issues w m F \<longleftrightarrow> (\<forall>s. \<exists>cs full. calls (snd (m s)) = calls s @ cs \<and> F full
     \<and> prefix cs (until_failure (answered w) full)
     \<and> (\<not> isl (fst (m s)) \<longrightarrow> cs = full \<and> list_all (answered w) full))"

lemma issuesD:
  "issues w m F \<Longrightarrow> \<exists>cs full. calls (snd (m s)) = calls s @ cs \<and> F full \<and> prefix cs (until_failure (answered w) full)
     \<and> (\<not> isl (fst (m s)) \<longrightarrow> cs = full \<and> list_all (answered w) full)"
  unfolding issues_def by blast

lemma until_failure_append:
  "until_failure ok (xs @ ys) = until_failure ok xs @ (if list_all ok xs then until_failure ok ys else [])"
  by (induction xs) auto

lemma until_failure_all: "list_all ok xs \<Longrightarrow> until_failure ok xs = xs"
  by (induction xs) auto

lemma issues_mono: "issues w m F \<Longrightarrow> (\<And>cs. F cs \<Longrightarrow> G cs) \<Longrightarrow> issues w m G"
  unfolding issues_def by blast

lemma issues_andthen:
  assumes "issues w m F" and "\<And>x. issues w (f x) G" and "\<And>a b. F a \<Longrightarrow> G b \<Longrightarrow> H (a @ b)"
  shows "issues w (andthen m f) H"
  unfolding issues_def
proof
  fix s
  obtain cs full where m: "calls (snd (m s)) = calls s @ cs" "F full" "prefix cs (until_failure (answered w) full)"
    "\<not> isl (fst (m s)) \<longrightarrow> cs = full \<and> list_all (answered w) full" using issuesD [OF assms(1), of s] by blast
  obtain r s' where ms: "m s = (r, s')" by fastforce
  show "\<exists>cs full. calls (snd (andthen m f s)) = calls s @ cs \<and> H full \<and> prefix cs (until_failure (answered w) full)
     \<and> (\<not> isl (fst (andthen m f s)) \<longrightarrow> cs = full \<and> list_all (answered w) full)"
  proof (cases r)
    case (Inl e)
    obtain b where "G b" using issuesD [OF assms(2), of undefined s] by blast
    then have "H (full @ b)" by (rule assms(3) [OF m(2)])
    moreover have "prefix cs (until_failure (answered w) (full @ b))"
      using m(3) by (simp add: until_failure_append prefix_append)
    ultimately show ?thesis using m(1) by (auto simp: andthen_def ms Inl)
  next
    case (Inr x)
    obtain cs' full' where n: "calls (snd (f x s')) = calls s' @ cs'" "G full'" "prefix cs' (until_failure (answered w) full')"
      "\<not> isl (fst (f x s')) \<longrightarrow> cs' = full' \<and> list_all (answered w) full'" using issuesD [OF assms(2), of x s'] by blast
    have full: "cs = full" "list_all (answered w) full" using m(4) by (simp_all add: ms Inr)
    have "prefix (full @ cs') (until_failure (answered w) (full @ full'))"
      using n(3) full(2) by (simp add: until_failure_append until_failure_all)
    moreover have "H (full @ full')" using assms(3) [OF m(2) n(2)] .
    ultimately show ?thesis using m(1) n(1,4) full by (intro exI [of _ "full @ cs'"] exI [of _ "full @ full'"]) (auto simp: andthen_def ms Inr)
  qed
qed

lemma issues_afterwards:
  "issues w m F \<Longrightarrow> issues w n G \<Longrightarrow> (\<And>a b. F a \<Longrightarrow> G b \<Longrightarrow> H (a @ b)) \<Longrightarrow> issues w (afterwards m n) H"
  unfolding afterwards_def by (rule issues_andthen)

lemma issues_quiet: "quiet.keeps m \<Longrightarrow> issues w m (\<lambda>cs. cs = [])"
  by (simp add: issues_def quiet.keeps_def)

lemma issues_fail: "F full \<Longrightarrow> issues w (fail_with e) F"
  by (auto simp: issues_def fail_with_def)

lemma issues_remote: "answered w c \<longleftrightarrow> \<not> isl a \<Longrightarrow> issues w (remote w c a) (\<lambda>cs. cs = [c])"
  by (auto simp: issues_def remote_def)

lemma quiet_then:
  "quiet.keeps m \<Longrightarrow> (\<And>x. issues w (f x) G) \<Longrightarrow> issues w (andthen m f) G"
  by (rule issues_andthen [OF issues_quiet]) auto

lemma quiet_afterwards: "quiet.keeps m \<Longrightarrow> issues w n G \<Longrightarrow> issues w (afterwards m n) G"
  unfolding afterwards_def by (rule quiet_then)

lemma then_quiet:
  "issues w m F \<Longrightarrow> (\<And>x. quiet.keeps (f x)) \<Longrightarrow> issues w (andthen m f) F"
  by (rule issues_andthen [OF _ issues_quiet]) auto

lemma afterwards_quiet: "issues w m F \<Longrightarrow> quiet.keeps n \<Longrightarrow> issues w (afterwards m n) F"
  unfolding afterwards_def by (rule then_quiet)

lemma afterwards_assoc: "afterwards (afterwards a b) c = afterwards a (afterwards b c)"
  by (rule ext) (auto simp: afterwards_def andthen_def split: sum.split prod.split)

lemma remote_quiet: "quiet.keeps n \<Longrightarrow> calls (snd (afterwards (remote w c a) n s)) = calls s @ [c]"
  by (cases a) (auto simp: afterwards_def andthen_def remote_def quiet.keeps_def)

lemma watch_calls: "issues w (watch_kernel w jid k) (\<lambda>cs. cs = [Watch_kernel k])"
proof (cases "w_watched w")
  case (Inl e)
  have calls: "calls (snd (watch_kernel w jid k s)) = calls s @ [Watch_kernel k]" for s
    unfolding watch_kernel_task afterwards_assoc Inl
    by (intro remote_quiet quiet.keeps_afterwards reports_quiet)
      (auto intro!: quiet.keeps_afterwards quiet_steps log_quiet split: exc.split)
  have "isl (fst (watch_kernel w jid k s))" for s
    unfolding watch_kernel_task Inl
    by (auto simp: afterwards_def andthen_def fail_with_def lift_def split: exc.split sum.split prod.split)
  with calls show ?thesis by (simp add: issues_def)
next
  case (Inr out)
  have "issues w (remote w (Watch_kernel k) (Inr ()) :: unit task) (\<lambda>cs. cs = [Watch_kernel k])"
    by (rule issues_remote) (simp add: answered_def Inr)
  then show ?thesis
    unfolding watch_kernel_task
    by (auto simp: Inr intro!: afterwards_quiet reports_quiet quiet.keeps_afterwards quiet_steps log_quiet)
qed

lemma collect_calls:
  "issues w (collect_output w jid k current) (\<lambda>cs. \<exists>dl. cs = [dl, Package_output] \<and> dl \<in> {Download_output k, Download_exact k})"
proof -
  have pack: "issues w (remote w Package_output (w_package w)) (\<lambda>cs. cs = [Package_output])"
    by (rule issues_remote) (simp add: answered_def)
  have plain: "issues w (andthen (remote w (Download_output k) (w_output w)) (\<lambda>out.
      afterwards (log_line w jid out) (remote w Package_output (w_package w)))) (\<lambda>cs. cs = [Download_output k, Package_output])"
    by (rule issues_andthen [OF issues_remote quiet_afterwards [OF _ pack]]) (auto simp: answered_def intro: log_quiet)
  have exact: "issues w (afterwards (remote w (Download_exact k) (w_p6_output w)) (afterwards (log_line w jid m)
      (andthen (lift (w_task_file w)) (\<lambda>t. afterwards (check_task j c t)
        (afterwards (remote w Package_output (w_package w)) (raise_if (w_receipt w)))))))
      (\<lambda>cs. cs = [Download_exact k, Package_output])" for m j c
    by (rule issues_afterwards [OF issues_remote
          quiet_afterwards [OF log_quiet(1) quiet_then [OF quiet.keeps_pure(4)
            quiet_afterwards [OF log_quiet(4) afterwards_quiet [OF pack quiet.keeps_pure(5)]]]]])
      (simp_all add: answered_def)
  show ?thesis
    unfolding collect_output_def using issues_mono [OF plain] issues_mono [OF exact] by (auto split: option.split)
qed

lemma finish_calls: "issues w (finish_kernel_job w jid f) collecting_calls"
  unfolding finish_kernel_job_def Let_def
  apply (rule quiet_then [OF finish_quiet])
  apply (rule quiet_afterwards [OF quiet.keeps_pure(3)])
  apply (rule issues_andthen [OF watch_calls])
   apply (rule quiet_afterwards [OF on_db_quiet(4)])
   apply (rule quiet_then [OF finish_quiet])
   apply (rule afterwards_quiet [OF collect_calls log_quiet(5)])
  apply (auto simp: collecting_calls_def)
  done

lemma push_calls: "issues w (push_kernel w j) (\<lambda>cs. cs = [Push_kernel])"
proof -
  have "quiet.keeps (log_policy w j m)" for m
    by (auto simp: log_policy_def intro!: quiet_steps log_quiet split: option.split)
  moreover have "issues w (remote w Push_kernel (w_push w)) (\<lambda>cs. cs = [Push_kernel])"
    by (rule issues_remote) (simp add: answered_def)
  ultimately show ?thesis
    unfolding push_kernel_def move_to_status_def
    by (intro quiet_then quiet_afterwards then_quiet) (auto intro: quiet_steps log_quiet)
qed

lemma await_calls: "issues w (await_dataset w j r b) (\<lambda>cs. cs = [Await_dataset (dataset_ref j) r b])"
  unfolding await_dataset_def by (rule issues_remote) (simp add: answered_def)

lemma stop_quiet: "quiet.keeps (stop_if_canceled j)" "quiet.keeps (move_to_status w j e p x)" "quiet.keeps (pin_version j v)"
  "quiet.keeps (remember_ready w j st)" "quiet.keeps (cached_source w j c)" "quiet.keeps (find_ready_cache w j)"
  unfolding stop_if_canceled_def move_to_status_def pin_version_def remember_ready_def cached_source_def find_ready_cache_def
  by (auto intro!: quiet.keeps_andthen quiet_steps)

lemma reuse_calls: "issues w (reuse_dataset w j user c) (dataset_calls w j False)"
  unfolding reuse_dataset_def
  by (intro quiet_then quiet_steps stop_quiet issues_mono [OF then_quiet [OF await_calls]] quiet.keeps_afterwards log_quiet)
    (auto simp: dataset_calls_def)

lemma after_await:
  "quiet.keeps (afterwards (timed_write w u) (afterwards (stop_if_canceled j) (afterwards (check_that b e)
     (afterwards (pin_version j v) (remember_ready w j st)))))"
  by (intro quiet.keeps_afterwards stop_quiet quiet_steps)

lemma obtain_calls:
  "issues w (obtain_dataset w j False intent) (\<lambda>cs. cs = [Upload_dataset (dataset_ref j)])"
proof -
  have "issues w (remote w (Upload_dataset (dataset_ref j)) (w_upload w)) (\<lambda>cs. cs = [Upload_dataset (dataset_ref j)])"
    by (rule issues_remote) (simp add: answered_def)
  then show ?thesis
    by (auto simp: obtain_dataset_def intro!: quiet_afterwards then_quiet quiet.keeps_afterwards stop_quiet quiet_steps)
qed

lemma submit_calls:
  assumes "retained \<Longrightarrow> retained_candidate w j = map_option (saved_receipt w j) intent \<and> intent \<noteq> None"
  shows "issues w (submit_dataset w j retained user intent) (dataset_calls w j retained)"
proof -
  have rest: "issues w (andthen (await_dataset w j r retained) (\<lambda>st.
      afterwards (timed_write w (u st)) (afterwards (stop_if_canceled j) (afterwards (check_that (b st) e)
       (afterwards (pin_version j (v st)) (remember_ready w j st)))))) (\<lambda>cs. cs = [Await_dataset (dataset_ref j) r retained])"
    for r u b e v by (rule then_quiet [OF await_calls after_await])
  show ?thesis
  proof (cases retained)
    case True
    then obtain d where d: "intent = Some d" "retained_candidate w j = Some (saved_receipt w j d)" using assms by auto
    have "obtain_dataset w j True intent = andthen (move_to_status w j {Queued} Waiting_dataset 35) (\<lambda>_. give (Some (saved_receipt w j d)))"
      by (simp add: obtain_dataset_def d(1) afterwards_def)
    then have split: "andthen (obtain_dataset w j True intent) f
        = afterwards (move_to_status w j {Queued} Waiting_dataset 35) (f (Some (saved_receipt w j d)))" for f :: "receipt option \<Rightarrow> unit task"
      by (auto simp: afterwards_def andthen_def give_def fun_eq_iff split: sum.split prod.split)
    have "issues w (submit_dataset w j True user intent) (dataset_calls w j True)"
      unfolding submit_dataset_def split
      by (rule quiet_afterwards [OF stop_quiet(1) quiet_then [OF on_db_quiet(5)
            quiet_afterwards [OF stop_quiet(2) issues_mono [OF rest [unfolded eqTrueI [OF True]]]]]])
        (auto simp: dataset_calls_def d)
    with True show ?thesis by simp
  next
    case False
    have "issues w (andthen (obtain_dataset w j False intent) (\<lambda>r. andthen (await_dataset w j r False) (\<lambda>st.
      afterwards (timed_write w (u st)) (afterwards (stop_if_canceled j) (afterwards (check_that (b r st) e)
       (afterwards (pin_version j (v st)) (remember_ready w j st))))))) (dataset_calls w j False)" for u b e v
    proof (rule issues_andthen [OF obtain_calls, where G = "\<lambda>cs. \<exists>r. cs = [Await_dataset (dataset_ref j) r False]"])
      show "issues w (andthen (await_dataset w j r False) (\<lambda>st.
        afterwards (timed_write w (u st)) (afterwards (stop_if_canceled j) (afterwards (check_that (b r st) e)
         (afterwards (pin_version j (v st)) (remember_ready w j st)))))) (\<lambda>cs. \<exists>r. cs = [Await_dataset (dataset_ref j) r False])" for r
        by (rule issues_mono [OF then_quiet [OF await_calls after_await]]) auto
    qed (auto simp: dataset_calls_def)
    note later = this
    have "issues w (submit_dataset w j False user intent) (dataset_calls w j False)"
      unfolding submit_dataset_def
      by (rule quiet_afterwards [OF stop_quiet(1) quiet_then [OF on_db_quiet(5) later]])
    with False show ?thesis by simp
  qed
qed

lemma andthen_give [simp]: "andthen (give x) f = f x"
  by (rule ext) (simp add: andthen_def give_def)

lemma andthen_fail [simp]: "andthen (fail_with e) f = fail_with e"
  by (rule ext) (simp add: andthen_def fail_with_def)

lemma check_retained_result:
  "check_retained w j intent = give () \<and> intent \<noteq> None \<or> (\<exists>e. check_retained w j intent = fail_with e)"
  by (auto simp: check_retained_def Let_def lift_def give_def fail_with_def andthen_def fun_eq_iff split: option.split sum.split)

lemma check_retained_candidate:
  assumes "read_intent (w_intent w) = Inr intent"
  shows "check_retained w j intent = give () \<and> retained_candidate w j = map_option (saved_receipt w j) intent \<and> intent \<noteq> None
    \<or> (\<exists>e. check_retained w j intent = fail_with e) \<and> retained_candidate w j = None"
proof (cases intent)
  case None
  then show ?thesis using assms by (auto simp: check_retained_def retained_candidate_def)
next
  case (Some d)
  have lift: "andthen (lift (Inl e)) f = fail_with e" "andthen (lift (Inr x)) f = f x" for e x and f :: "string \<Rightarrow> unit task"
    by (rule ext; simp add: andthen_def lift_def fail_with_def)+
  show ?thesis
    using assms Some
    by (cases "w_digest w (own_dir w j)") (auto simp: check_retained_def retained_candidate_def Let_def lift)
qed

lemma prepare_calls:
  assumes "\<not> (retained \<and> retained_candidate w j = None)"
  shows "issues w (prepare_dataset w j retained user) (dataset_calls w j retained)"
proof -
  have full: "\<exists>cs. dataset_calls w j retained cs" using assms by (auto simp: dataset_calls_def)
  show ?thesis
  proof (cases "read_intent (w_intent w)")
    case (Inl e)
    then have "\<not> retained" using assms by (auto simp: retained_candidate_def)
    then show ?thesis
      using full Inl by (auto simp: prepare_dataset_def load_intent_def intro!: quiet_then stop_quiet issues_fail)
  next
    case (Inr intent)
    have rest: "issues w (afterwards (if retained then check_retained w j intent else give ())
        (case (if intent = None then cache else None) of Some c \<Rightarrow> reuse_dataset w j user c
         | None \<Rightarrow> submit_dataset w j retained user intent)) (dataset_calls w j retained)" for cache
    proof (cases retained)
      case True
      with check_retained_candidate [OF Inr, of j] assms
      have "check_retained w j intent = give ()" "retained_candidate w j = map_option (saved_receipt w j) intent" "intent \<noteq> None"
        by auto
      then show ?thesis using submit_calls [of retained w j intent user] True by (auto simp: afterwards_def)
    next
      case False
      then show ?thesis using submit_calls [of False w j intent user] reuse_calls [of w j user]
        by (auto simp: afterwards_def split: option.split)
    qed
    then show ?thesis
      using Inr by (auto simp: prepare_dataset_def load_intent_def intro!: quiet_then stop_quiet)
  qed
qed

lemma prepare_without_candidate:
  assumes "retained" and "retained_candidate w j = None"
  shows "issues w (prepare_dataset w j retained user) (\<lambda>cs. cs = []) \<and> (\<forall>s. isl (fst (prepare_dataset w j retained user s)))"
proof -
  have fails: "quiet.keeps m \<Longrightarrow> issues w (andthen m (\<lambda>_. fail_with e :: unit task)) (\<lambda>cs. cs = [])
    \<and> (\<forall>s. isl (fst (andthen m (\<lambda>_. fail_with e :: unit task) s)))" for m :: "cache_row option task" and e
    by (auto intro!: quiet_then issues_fail simp: andthen_def fail_with_def split: sum.split prod.split)
  show ?thesis
  proof (cases "read_intent (w_intent w)")
    case (Inl e)
    then show ?thesis using fails [OF stop_quiet(6)] by (simp add: prepare_dataset_def load_intent_def)
  next
    case (Inr intent)
    with check_retained_candidate [OF Inr, of j] assms obtain e where "check_retained w j intent = fail_with e" by auto
    then show ?thesis using fails [OF stop_quiet(6)] assms(1) Inr by (simp add: prepare_dataset_def load_intent_def afterwards_def)
  qed
qed

lemma issues_stuck:
  "issues w m F \<Longrightarrow> \<forall>s. isl (fst (m s)) \<Longrightarrow> issues w (andthen m f) F \<and> (\<forall>s. isl (fst (andthen m f s)))"
proof -
  assume m: "issues w m F" "\<forall>s. isl (fst (m s))"
  have "isl (fst (andthen m f s)) \<and> snd (andthen m f s) = snd (m s)" for s
    using m(2) [THEN spec, of s] by (auto simp: andthen_def split: sum.split prod.split)
  with m show ?thesis by (simp add: issues_def)
qed

lemma stuck_later: "(\<And>s. isl (fst (n s))) \<Longrightarrow> isl (fst (afterwards m n s))"
  by (simp add: afterwards_def andthen_def split: sum.split prod.split)

lemma identity_calls:
  "issues w (remote w (Check_identity p) (w_identity w)) (\<lambda>cs. cs = [Check_identity p])"
  by (rule issues_remote) (simp add: answered_def)

lemma body_calls: "issues w (process_body w auth j retained) (protocol w j retained)"
proof -
  have sub: "issues w (afterwards (submission w j retained user) (finish_kernel_job w (job_id j) None)) (protocol w j retained)" for user
  proof (cases "retained \<and> retained_candidate w j = None")
    case False
    have "issues w (afterwards (prepare_dataset w j retained user) (push_kernel w j))
        (\<lambda>cs. \<exists>ds. cs = ds @ [Push_kernel] \<and> dataset_calls w j retained ds)"
      by (rule issues_afterwards [OF prepare_calls [OF False] push_calls]) auto
    then have "issues w (submission w j retained user)
        (\<lambda>cs. \<exists>ds. cs = Check_identity (owner_part (dataset_ref j)) # ds @ [Push_kernel] \<and> dataset_calls w j retained ds)"
      unfolding submission_def
      by (intro quiet_afterwards [OF quiet.keeps_pure(5)] quiet_afterwards [OF stop_quiet(1)] quiet_afterwards [OF quiet.keeps_pure(3)])
        (rule issues_afterwards [OF identity_calls], auto)
    then show ?thesis
    proof (rule issues_afterwards [OF _ finish_calls])
      fix a b
      assume "\<exists>ds. a = Check_identity (owner_part (dataset_ref j)) # ds @ [Push_kernel] \<and> dataset_calls w j retained ds"
        and b: "collecting_calls b"
      then obtain ds where ds: "a = Check_identity (owner_part (dataset_ref j)) # ds @ [Push_kernel]" "dataset_calls w j retained ds" by blast
      then have "a @ b = Check_identity (owner_part (dataset_ref j)) # ds @ Push_kernel # b" by simp
      with False ds(2) b show "protocol w j retained (a @ b)" unfolding protocol_def by auto
    qed
  next
    case True
    note P = prepare_without_candidate [OF True [THEN conjunct1] True [THEN conjunct2], of user]
    have inner: "issues w (afterwards (prepare_dataset w j retained user) (push_kernel w j)) (\<lambda>cs. cs = [])
        \<and> (\<forall>s. isl (fst (afterwards (prepare_dataset w j retained user) (push_kernel w j) s)))"
      unfolding afterwards_def using P by (intro issues_stuck) auto
    let ?c = "Check_identity (owner_part (dataset_ref j))"
    have "issues w (submission w j retained user) (\<lambda>cs. cs = [?c])"
      unfolding submission_def
      by (intro quiet_afterwards [OF quiet.keeps_pure(5)] quiet_afterwards [OF stop_quiet(1)] quiet_afterwards [OF quiet.keeps_pure(3)])
        (rule issues_afterwards [OF identity_calls inner [THEN conjunct1]], simp)
    moreover have "isl (fst (submission w j retained user s))" for s
      unfolding submission_def
      by (rule stuck_later, rule stuck_later, rule stuck_later, rule stuck_later) (use inner in blast)
    ultimately have "issues w (afterwards (submission w j retained user) (finish_kernel_job w (job_id j) None)) (\<lambda>cs. cs = [?c])"
      unfolding afterwards_def using issues_stuck by blast
    with True show ?thesis by (auto simp: protocol_def elim!: issues_mono)
  qed
  then show ?thesis
    unfolding process_body_def by (intro quiet_then [OF log_quiet(6)] quiet_afterwards [OF quiet.keeps_pure(5)])
qed

lemma andthen_success:
  "andthen m f s = (Inr y, s') \<Longrightarrow> \<exists>x s1. m s = (Inr x, s1) \<and> f x s1 = (Inr y, s')"
  by (auto simp: andthen_def split: sum.splits prod.splits)

lemma process_job_cases:
  assumes "process_job w auth jid retained s = (Some out, s')" and "get_job (run_db s) jid = Some j"
  obtains (ok) "process_body w auth j retained s = (Inr (), s')" "out = Finished"
  | (raised) e s1 db where "process_body w auth j retained s = (Inl e, s1)"
      "handle_exception w (now_at w s1) j e (run_db s1) = (out, db)" "s' = s1\<lparr>run_db := db\<rparr>"
  using assms by (auto simp: process_job_def split: sum.splits prod.splits)

lemma handler_not_finished: "handle_exception w now j e db = (out, db') \<Longrightarrow> out \<noteq> Finished"
  by (auto simp: handle_exception_def Let_def split: exc.splits if_splits)

text \<open>
  C6: Whatever is in the database and whatever the remote side answers, the remote calls of an action come
  in the order of the protocol and stop at the first that fails: a kernel is pushed only after the account
  was checked and the version of the dataset was awaited, a recheck never uploads and awaits only the
  version of its own unchanged candidate, and an action that finishes has made every call.
\<close>

theorem submission_protocol:
  assumes "process_job w auth jid retained s = (Some out, s')" and "get_job (run_db s) jid = Some j" and "calls s = []"
  shows "\<exists>full. protocol w j retained full \<and> prefix (calls s') (until_failure (answered w) full)
    \<and> (out = Finished \<longrightarrow> calls s' = full)"
  using assms(1,2)
proof (cases rule: process_job_cases)
  case ok
  then show ?thesis using issuesD [OF body_calls, of w auth j retained s] assms(3) by auto
next
  case (raised e s1 db)
  then show ?thesis
    using issuesD [OF body_calls, of w auth j retained s] assms(3) handler_not_finished [OF raised(2)] by auto
qed

section \<open>What an action leaves of its job\<close>

lemma timed_step:
  assumes "\<And>now db. lifecycle_inv db \<Longrightarrow> db_step db (snd (f now db))"
  shows "rows.keeps (timed w f)"
  using assms by (auto simp: rows.keeps_def timed_def on_db_def split: prod.split) (metis snd_conv)

lemma timed_write_step:
  assumes "\<And>now db. lifecycle_inv db \<Longrightarrow> db_step db (f now db)"
  shows "rows.keeps (timed_write w f)"
  using timed_step [of "\<lambda>now db. (Inr (), f now db)" w] assms
  by (simp add: rows.keeps_def timed_def timed_write_def write_db_def)

lemma same_rows: "lifecycle_inv db \<Longrightarrow> jobs db' = jobs db \<Longrightarrow> db_step db db'"
  by (intro db_step_same) (auto simp: lifecycle_inv_def jobs_keyed_def get_job_def)

lemma cache_rows [simp]:
  "jobs (upsert_dataset_cache db now ref ph st ds src key) = jobs db"
  "jobs (upsert_last_dataset_job db now ref ph ds jid key) = jobs db"
  by (simp_all add: upsert_dataset_cache_def upsert_last_dataset_job_def Let_def)

lemma ready_cache_rows: "jobs (snd (get_ready_dataset_cache ready now ref ph key db)) = jobs db"
  by (auto simp: get_ready_dataset_cache_def Let_def split: option.split)

lemma before_rows:
  "rows.keeps (stop_if_canceled j)" "rows.keeps (pin_version j v)" "rows.keeps (cached_source w j c)"
  "rows.keeps (find_ready_cache w j)" "rows.keeps (remember_ready w j st)" "rows.keeps (load_intent w)"
  "rows.keeps (check_retained w j i)" "rows.keeps (log_policy w j m)"
  unfolding stop_if_canceled_def pin_version_def cached_source_def find_ready_cache_def remember_ready_def load_intent_def
    check_retained_def Let_def log_policy_def
  by (auto intro!: rows_steps timed_step timed_write_step same_rows simp: ready_cache_rows split: prod.split option.split sum.split)
    (metis ready_cache_rows snd_conv)

lemma move_rows:
  assumes "\<not> terminal p" and "p \<noteq> Cancel_requested" and "\<forall>x \<in> expected. \<not> terminal x"
  shows "rows.keeps (move_to_status w j expected p x)"
proof -
  have "snd (case transition_before_submission now (job_id j) expected p x j db of
         (Inl (Job_canceled m), db') \<Rightarrow> (Inl (Canceled_exc m), db')
       | (Inl (Job_changed current), db') \<Rightarrow> (Inl (f current), db')
       | (Inr u, db') \<Rightarrow> (Inr u, db')) = snd (transition_before_submission now (job_id j) expected p x j db)" for now db f
    by (auto split: prod.split sum.split submission_error.split)
  then show ?thesis unfolding move_to_status_def using submission_steps [OF assms] by (intro timed_rows) simp
qed

lemma body_rows: "fair_world w \<Longrightarrow> rows.keeps (process_body w auth j retained)"
proof -
  assume w: "fair_world w"
  have moves: "rows.keeps (move_to_status w j {Queued} Waiting_dataset x)"
    "rows.keeps (move_to_status w j {Queued, Uploading_dataset, Waiting_dataset} Uploading_dataset x)"
    "rows.keeps (move_to_status w j {Uploading_dataset} Waiting_dataset x)"
    "rows.keeps (move_to_status w j {Queued, Waiting_dataset} Pushing_kernel x)" for x
    by (intro move_rows; simp add: terminal_def)+
  have got: "rows.keeps (obtain_dataset w j retained i)" for i
    unfolding obtain_dataset_def using w by (auto intro!: rows_steps moves)
  have reuse: "rows.keeps (reuse_dataset w j user c)" for user c
    unfolding reuse_dataset_def await_dataset_def using w
    by (intro rows_steps before_rows update_rows_kept) auto
  have submit: "rows.keeps (submit_dataset w j retained user i)" for user i
    unfolding submit_dataset_def await_dataset_def using w
    by (intro rows_steps before_rows got update_rows_kept) auto
  have push: "rows.keeps (push_kernel w j)"
    unfolding push_kernel_def using w by (intro rows_steps before_rows moves)
  have "rows.keeps (prepare_dataset w j retained user)" for user
    unfolding prepare_dataset_def using reuse submit by (auto intro!: rows_steps before_rows split: option.split)
  then show ?thesis
    unfolding process_body_def submission_def using w push
    by (intro rows_steps before_rows finish_job_rows) auto
qed

lemma end_job_steps: "neutral vs \<Longrightarrow> write_step\<^sup>*\<^sup>* db (end_job w now jid p vs m db)"
  unfolding end_job_def
  by (rule rtranclp.rtrancl_into_rtrancl [OF finalize_steps by_log]) simp

lemma handler_steps:
  assumes "handle_exception w now j e db = (out, db')" and "out \<noteq> Candidate_retained"
  shows "write_step\<^sup>*\<^sup>* db db'"
  using assms end_job_steps [of "[]"] end_job_steps [of "[Set_progress 0]"] by_log
  by (auto simp: handle_exception_def Let_def split: exc.splits if_splits intro: r_into_rtranclp)

text \<open>
  C16: Unless it keeps an uploaded candidate, an action treats the rows of the database as its rivals do:
  whatever they write meanwhile, a requested cancellation stays visible and an ended job keeps its outcome.
\<close>

theorem action_respects_rows:
  assumes "process_job w auth jid retained s = (Some out, s')" and "fair_world w" and "lifecycle_inv (run_db s)"
    and "out \<noteq> Candidate_retained"
  shows "db_step (run_db s) (run_db s')"
proof -
  obtain j where j: "get_job (run_db s) jid = Some j" using assms(1) by (auto simp: process_job_def split: option.splits)
  show ?thesis
    using assms(1) j
  proof (cases rule: process_job_cases)
    case ok
    then show ?thesis using rows.keeps_result [OF body_rows [OF assms(2)] ok(1)] assms(3) by simp
  next
    case (raised e s1 db)
    have s1: "db_step (run_db s) (run_db s1)" using rows.keeps_result [OF body_rows [OF assms(2)] raised(1)] assms(3) by simp
    have "db_step (run_db s1) db"
      using write_steps_db [OF db_step_inv [OF s1] handler_steps [OF raised(2) assms(4)]] .
    with s1 show ?thesis using db_step_trans by (auto simp: raised(3))
  qed
qed

text \<open>What the row of the job shows for each outcome.\<close>

definition outcome_shown :: "action_outcome \<Rightarrow> job \<Rightarrow> bool" where
  "outcome_shown out r \<longleftrightarrow>
     (case out of
        Left_for_restart \<Rightarrow> True
      | Candidate_retained \<Rightarrow> status r = Waiting_dataset
      | _ \<Rightarrow> terminal (status r))"

lemma finalized_terminal: "terminal preferred \<Longrightarrow> terminal (status (finalized now preferred vs r))"
  by (auto simp: finalized_def finalize_status_def terminal_def)

text \<open>A task that succeeds only with the job ended.\<close>

definition ends :: "string \<Rightarrow> 'a task \<Rightarrow> bool" where
  "ends jid m \<longleftrightarrow> (\<forall>s u s' r. m s = (Inr u, s') \<longrightarrow> get_job (run_db s') jid = Some r \<longrightarrow> terminal (status r))"

lemma ends_later: "(\<And>x. ends jid (f x)) \<Longrightarrow> ends jid (andthen m f)" "ends jid n \<Longrightarrow> ends jid (afterwards m' n)"
  unfolding ends_def afterwards_def by (blast dest: andthen_success)+

lemma complete_run_ends: "ends jid (complete_run w jid f)"
  unfolding ends_def
proof (intro allI impI)
  fix s u s' r
  assume run: "complete_run w jid f s = (Inr u, s')" and row: "get_job (run_db s') jid = Some r"
  let ?p = "case f of None \<Rightarrow> Complete | Some p \<Rightarrow> p"
  from run obtain db' st where fin: "finalize_job (w_dumps w) (run_db s) (now_at w s) jid ?p
      [Set_progress 100, Set_artifact_path (w_artifact w), Set_error []] = Inr (db', st)" and s': "run_db s' = db'"
    by (auto simp: complete_run_def timed_def on_db_def split: sum.splits prod.splits)
  have "terminal ?p" using fin finalize_ok_iff by blast
  with get_finalize [OF fin, of jid] row s' finalized_terminal show "terminal (status r)" by auto
qed

lemma body_ends: "ends (job_id j) (process_body w auth j retained)"
  unfolding process_body_def finish_kernel_job_def Let_def by (intro ends_later complete_run_ends)

lemma end_job_ends:
  assumes "get_job db jid = Some r" and "terminal p" and "assigned_status vs = None"
  shows "\<exists>r'. get_job (end_job w now jid p vs m db) jid = Some r' \<and> terminal (status r')"
proof -
  have "assigned_status (vs @ [Set_error m]) = None" using assms(3) by (simp add: assigned_status_append)
  then obtain db' st where fin: "finalize_job (w_dumps w) db now jid p (vs @ [Set_error m]) = Inr (db', st)"
    using finalize_ok_iff assms(2) by (metis prod.collapse)
  have "get_job db' jid = Some (finalized now p (vs @ [Set_error m]) r)" using get_finalize [OF fin, of jid] assms(1) by simp
  then show ?thesis using finalized_terminal [OF assms(2)] by (simp add: end_job_def fin)
qed

lemma kept_row:
  assumes "get_job db jid = Some r"
  shows "\<exists>r'. get_job (keep_candidate w now jid e db) jid = Some r' \<and> status r' = Waiting_dataset"
proof -
  have waiting: "\<exists>r'. get_job (schedule_recheck due now jid ra ip d) jid = Some r' \<and> status r' = Waiting_dataset"
    "\<exists>r'. get_job (block_recheck now jid reason d) jid = Some r' \<and> status r' = Waiting_dataset"
    if d: "get_job d jid = Some x" "status x = Waiting_dataset" for d x due ra ip reason
  proof -
    have "neutral (recheck_values due now st ip n dl)" for st n dl by (simp add: recheck_values_def Let_def)
    then show "\<exists>r'. get_job (schedule_recheck due now jid ra ip d) jid = Some r' \<and> status r' = Waiting_dataset"
      using d by (auto simp: schedule_recheck_def Let_def get_update_job_if_status neutral_row)
    show "\<exists>r'. get_job (block_recheck now jid reason d) jid = Some r' \<and> status r' = Waiting_dataset"
      using d by (auto simp: block_recheck_def Let_def get_update_job_if_status neutral_row)
  qed
  have "get_job (retain_candidate now jid m db) jid
      = Some (apply_values (prepare_values now (Set_status Waiting_dataset # [Set_error m])) r)" for m
    using assms by (simp add: retain_candidate_def get_update_job)
  moreover have "status (apply_values (prepare_values now (Set_status Waiting_dataset # [Set_error m])) r) = Waiting_dataset" for m
    using status_row [of "[Set_error m]" now Waiting_dataset r] by simp
  ultimately show ?thesis by (simp add: keep_candidate_def Let_def waiting del: prepare_values_def)
qed

lemma handler_shows:
  assumes "handle_exception w now j e db = (out, db')" and "get_job db (job_id j) = Some r"
  shows "\<exists>r'. get_job db' (job_id j) = Some r' \<and> outcome_shown out r'"
proof -
  have t: "terminal Canceled" "terminal Failed" by (simp_all add: terminal_def)
  show ?thesis
    using assms end_job_ends [OF assms(2) t(1), of "[]"] end_job_ends [OF assms(2) t(2), of "[Set_progress 0]"]
      kept_row [OF assms(2)]
    by (auto simp: handle_exception_def Let_def outcome_shown_def split: exc.splits if_splits)
qed

text \<open>
  C9: An action accounts for its job: when it finishes, was canceled or failed the job has ended, and when
  it keeps an uploaded candidate the job waits for its dataset; otherwise only a stop of the relay or an
  unreadable status of a submitted kernel leaves it as it is, for the restart.
\<close>

theorem action_accounts_for_job:
  assumes "process_job w auth jid retained s = (Some out, s')" and "fair_world w" and "lifecycle_inv (run_db s)"
  shows "\<exists>r. get_job (run_db s') jid = Some r \<and> outcome_shown out r"
proof -
  obtain j where j: "get_job (run_db s) jid = Some j" using assms(1) by (auto simp: process_job_def split: option.splits)
  then have id: "job_id j = jid" by (rule get_job_SomeD [THEN conjunct2])
  show ?thesis
    using assms(1) j
  proof (cases rule: process_job_cases)
    case ok
    have "db_step (run_db s) (run_db s')" using rows.keeps_result [OF body_rows [OF assms(2)] ok(1)] assms(3) by simp
    then obtain r where r: "get_job (run_db s') jid = Some r" using db_step_row j by blast
    with body_ends [of j w auth retained] ok id show ?thesis by (auto simp: ends_def outcome_shown_def)
  next
    case (raised e s1 db)
    have "db_step (run_db s) (run_db s1)" using rows.keeps_result [OF body_rows [OF assms(2)] raised(1)] assms(3) by simp
    then obtain r where "get_job (run_db s1) jid = Some r" using db_step_row j by blast
    with handler_shows [OF raised(2)] id show ?thesis by (simp add: raised(3))
  qed
qed

section \<open>The version a pushed kernel reads\<close>

text \<open>The version the wait confirmed: the one of its answer, or the one it was asked for.\<close>

definition confirmed :: "world \<Rightarrow> call list \<Rightarrow> int \<Rightarrow> bool" where
  "confirmed w cs v \<longleftrightarrow>
     (case w_await w of
        Inl _ \<Rightarrow> False
      | Inr st \<Rightarrow> ready_version w st = Some v
          \<or> (\<exists>ref r b. Await_dataset ref (Some r) b \<in> set cs \<and> expected_version r = Some v))"

definition reads_version :: "string \<Rightarrow> int \<Rightarrow> payload_dir \<Rightarrow> bool" where
  "reads_version ref v k \<longleftrightarrow>
     (\<forall>x \<in> set (dataset_sources k). same_slug (lower (kaggle_ref_slug ref)) x \<longrightarrow> x = JStr (ref @ ''/'' @ int_text v))"

definition unpushed :: "run \<Rightarrow> bool" where
  "unpushed s \<longleftrightarrow> Push_kernel \<notin> set (calls s)"

definition bound_run :: "world \<Rightarrow> job \<Rightarrow> run \<Rightarrow> bool" where
  "bound_run w j s \<longleftrightarrow> (\<exists>v. confirmed w (calls s) v \<and> reads_version (dataset_ref j) v (snd (dirs s)))"

text \<open>\<open>Q\<close> holds of the answer and the run when the task succeeds, \<open>E\<close> of the run when it raises.\<close>

definition leads :: "(run \<Rightarrow> bool) \<Rightarrow> 'a task \<Rightarrow> ('a \<Rightarrow> run \<Rightarrow> bool) \<Rightarrow> (run \<Rightarrow> bool) \<Rightarrow> bool" where
  "leads P m Q E \<longleftrightarrow> (\<forall>s. P s \<longrightarrow> (case m s of (Inl e, s') \<Rightarrow> E s' | (Inr x, s') \<Rightarrow> Q x s'))"

lemma leads_andthen:
  "leads P m Q E \<Longrightarrow> (\<And>x. leads (Q x) (f x) R E) \<Longrightarrow> leads P (andthen m f) R E"
  unfolding leads_def andthen_def by (fastforce split: sum.splits prod.splits)

lemma leads_afterwards:
  "leads P m (\<lambda>_. Q) E \<Longrightarrow> leads Q n R E \<Longrightarrow> leads P (afterwards m n) R E"
  unfolding afterwards_def by (rule leads_andthen)

lemma leads_mono:
  "leads P m Q E \<Longrightarrow> (\<And>s. P' s \<Longrightarrow> P s) \<Longrightarrow> (\<And>x s. Q x s \<Longrightarrow> Q' x s) \<Longrightarrow> (\<And>s. E s \<Longrightarrow> E' s) \<Longrightarrow> leads P' m Q' E'"
  unfolding leads_def by (fastforce split: sum.splits prod.splits)

interpretation pushes: kept_relation "\<lambda>s t. unpushed s \<longrightarrow> unpushed t"
  by unfold_locales auto

interpretation bound: kept_relation "\<lambda>s t. snd (dirs t) = snd (dirs s) \<and> set (calls s) \<subseteq> set (calls t)"
  by unfold_locales auto

lemma pushes_quiet: "quiet.keeps m \<Longrightarrow> pushes.keeps m"
  unfolding quiet.keeps_def pushes.keeps_def by (simp add: unpushed_def)

lemma pushes_remote: "c \<noteq> Push_kernel \<Longrightarrow> pushes.keeps (remote w c a)"
  unfolding pushes.keeps_def by (simp add: unpushed_def remote_def)

lemma unpushed_leads: "pushes.keeps m \<Longrightarrow> leads unpushed m (\<lambda>_. unpushed) unpushed"
  unfolding pushes.keeps_def leads_def by (auto split: sum.split prod.split)

lemma bound_leads:
  assumes "bound.keeps m"
  shows "leads (bound_run w j) m (\<lambda>_. bound_run w j) (bound_run w j)"
proof -
  have "bound_run w j (snd (m s))" if "bound_run w j s" for s
  proof -
    have "snd (dirs (snd (m s))) = snd (dirs s)" "set (calls s) \<subseteq> set (calls (snd (m s)))"
      using assms by (auto simp: bound.keeps_def)
    with that show ?thesis unfolding bound_run_def confirmed_def by (auto split: sum.splits) blast+
  qed
  then show ?thesis by (auto simp: leads_def split: sum.split prod.split) (metis snd_conv)+
qed

lemma bound_steps:
  "bound.keeps (on_db f)" "bound.keeps (timed w g)" "bound.keeps (timed_write w h)" "bound.keeps (remote w c a)"
  "bound.keeps (finish_status w jid running values)"
  by (auto simp: bound.keeps_def on_db_def timed_def timed_write_def write_db_def remote_def finish_status_def
      split: prod.splits sum.splits)

lemmas bound_rules = bound_steps bound.keeps_pure bound.keeps_andthen bound.keeps_afterwards

lemma bound_logs:
  "bound.keeps (log_line w jid m)" "bound.keeps (record_details w jid d)" "bound.keeps (note_unavailable w jid t)"
  "bound.keeps (check_task j c tf)" "bound.keeps (complete_run w jid f)"
  unfolding log_line_def record_details_def note_unavailable_def check_task_def complete_run_def
  by (auto intro!: bound_rules split: option.split json.split)

lemma bound_before:
  "bound.keeps (stop_if_canceled j)" "bound.keeps (move_to_status w j e p x)" "bound.keeps (remember_ready w j st)"
  "bound.keeps (log_policy w j pm)"
  unfolding stop_if_canceled_def move_to_status_def remember_ready_def log_policy_def
  by (auto intro!: bound_rules bound_logs split: option.split)

lemma bound_reports: "bound.keeps (progress_reports w jid ds)"
  by (induction ds) (auto intro!: bound_rules simp: progress_report_def)

lemma bound_finish: "bound.keeps (finish_kernel_job w jid f)"
proof -
  have "bound.keeps (watch_kernel w jid k)" for k
    unfolding watch_kernel_task by (auto intro!: bound_rules bound_logs bound_reports split: sum.split exc.split)
  moreover have "bound.keeps (collect_output w jid k current)" for k current
    unfolding collect_output_def by (auto intro!: bound_rules bound_logs split: option.split)
  ultimately show ?thesis unfolding finish_kernel_job_def Let_def by (intro bound_rules bound_logs)
qed

lemma bound_push: "bound.keeps (push_kernel w j)"
  unfolding push_kernel_def by (intro bound_rules bound_logs bound_before)

lemma ready_cache_version:
  assumes "get_ready_dataset_cache ready now ref ph key db = (Some c, db')"
  shows "ready (cache_dataset_status c)"
proof (cases "get_current_dataset_cache db ref key")
  case (Some c')
  then show ?thesis using assms by (auto simp: get_ready_dataset_cache_def split: if_splits)
next
  case None
  then obtain l where l: "get_current_last_dataset_job db ref key = Some l" "ph \<noteq> []" "ready (last_dataset_status l)"
    and row: "get_dataset_cache (upsert_dataset_cache db now ref ph ''ready'' (last_dataset_status l) (last_job l) key) ref ph key = Some c"
    using assms by (auto simp: get_ready_dataset_cache_def Let_def split: option.splits if_splits)
  have "cache_dataset_status c = last_dataset_status l"
    using row l(2) by (simp add: get_dataset_cache_def upsert_dataset_cache_def find_upsert)
      (auto simp: cache_key_of_def split: option.split)
  with l show ?thesis by simp
qed

lemma ready_version_positive: "ready_version w st = Some v \<Longrightarrow> 0 < v"
  by (auto simp: ready_version_def ready_dataset_version_def split: prod.splits option.splits if_splits)

lemma pin_leads:
  assumes "plain_ref (dataset_ref j)" and "0 < v"
  shows "leads (\<lambda>s. unpushed s \<and> confirmed w (calls s) v) (pin_version j (Some v))
    (\<lambda>_ s. unpushed s \<and> bound_run w j s) unpushed"
  unfolding leads_def
proof (intro allI impI)
  fix s assume s: "unpushed s \<and> confirmed w (calls s) v"
  obtain r k where p: "pin_kernel_dataset_version (dataset_ref j) (Some v) (snd (dirs s)) = (r, k)" by fastforce
  have "reads_version (dataset_ref j) v k" if "r = Inr ()"
    using pinned_sources [OF assms p [unfolded that]] plain_slugs [OF assms]
    by (auto simp: reads_version_def bind_source_def)
  with s p show "case pin_version j (Some v) s of (Inl e, s') \<Rightarrow> unpushed s'
      | (Inr x, s') \<Rightarrow> unpushed s' \<and> bound_run w j s'"
    by (cases r) (auto simp: pin_version_def on_dirs_def unpushed_def bound_run_def case_prod_beta)
qed

lemma confirmed_later: "confirmed w cs v \<Longrightarrow> set cs \<subseteq> set cs' \<Longrightarrow> confirmed w cs' v"
  by (auto simp: confirmed_def split: sum.splits)

lemma await_leads:
  "leads unpushed (await_dataset w j r b)
     (\<lambda>st s. unpushed s \<and> w_await w = Inr st \<and> Await_dataset (dataset_ref j) r b \<in> set (calls s)) unpushed"
  by (auto simp: leads_def await_dataset_def remote_def unpushed_def split: sum.split)

lemma quiet_leads: "quiet.keeps m \<Longrightarrow> leads unpushed m (\<lambda>_. unpushed) unpushed"
  by (intro unpushed_leads pushes_quiet)

text \<open>After the pin the rest of the preparation keeps both facts.\<close>

lemma settled_leads:
  assumes "quiet.keeps m" and "bound.keeps m"
  shows "leads (\<lambda>s. unpushed s \<and> bound_run w j s) m (\<lambda>_ s. unpushed s \<and> bound_run w j s) unpushed"
  using quiet_leads [OF assms(1)] bound_leads [OF assms(2), of w j]
  unfolding leads_def by (fastforce split: sum.splits prod.splits)

lemma reuse_leads:
  assumes "plain_ref (dataset_ref j)" and "ready_version w (cache_dataset_status c) = Some v"
  shows "leads unpushed (reuse_dataset w j user c) (\<lambda>_ s. unpushed s \<and> bound_run w j s) unpushed"
proof -
  note pin = pin_leads [OF assms(1) ready_version_positive [OF assms(2)], of w]
  have rest: "leads (\<lambda>s. unpushed s \<and> bound_run w j s)
      (afterwards (timed_write w u) (log_line w (job_id j) m)) (\<lambda>_ s. unpushed s \<and> bound_run w j s) unpushed" for u m
    by (intro settled_leads quiet.keeps_afterwards bound.keeps_afterwards quiet_steps log_quiet bound_steps bound_logs)
  show ?thesis
    unfolding reuse_dataset_def
    apply (rule leads_andthen [OF quiet_leads [OF stop_quiet(5)]])
    apply (rule leads_andthen [OF quiet_leads [OF on_db_quiet(5)]])
    apply (rule leads_andthen [OF quiet_leads [OF quiet.keeps_pure(4)]])
    apply (rule leads_andthen [OF await_leads])
    apply (unfold assms(2))
    apply (rule leads_afterwards [OF leads_mono [OF pin] rest])
      apply (fastforce simp: confirmed_def)
     apply simp_all
    done
qed

lemma submit_leads:
  assumes "plain_ref (dataset_ref j)" and "w_upload w \<noteq> Inr None" and "retained \<Longrightarrow> intent \<noteq> None"
  shows "leads unpushed (submit_dataset w j retained user intent) (\<lambda>_ s. unpushed s \<and> bound_run w j s) unpushed"
proof -
  have got: "leads unpushed (obtain_dataset w j retained intent) (\<lambda>r s. unpushed s \<and> r \<noteq> None) unpushed"
  proof (cases retained)
    case True
    then have "leads unpushed (give (map_option (saved_receipt w j) intent)) (\<lambda>r s. unpushed s \<and> r \<noteq> None) unpushed"
      using assms(3) by (simp add: leads_def give_def)
    with True show ?thesis by (simp add: obtain_dataset_def leads_afterwards [OF quiet_leads [OF stop_quiet(2)]])
  next
    case False
    have up: "leads unpushed (remote w (Upload_dataset (dataset_ref j)) (w_upload w)) (\<lambda>r s. unpushed s \<and> r \<noteq> None) unpushed"
      using assms(2) by (auto simp: leads_def remote_def unpushed_def split: sum.split)
    have "leads (\<lambda>s. unpushed s \<and> r \<noteq> None) (afterwards (move_to_status w j {Uploading_dataset} Waiting_dataset 35) (give r))
        (\<lambda>r s. unpushed s \<and> r \<noteq> None) unpushed" for r :: "receipt option"
      by (rule leads_afterwards [where Q = "\<lambda>s. unpushed s \<and> r \<noteq> None"])
        (use quiet_leads [OF stop_quiet(2)] in \<open>fastforce simp: leads_def give_def split: sum.splits prod.splits\<close>)+
    with False up show ?thesis
      by (simp add: obtain_dataset_def leads_afterwards [OF quiet_leads [OF stop_quiet(2)] leads_andthen [OF up]])
  qed
  have pinned: "leads (\<lambda>s. unpushed s \<and> w_await w = Inr st \<and> ready_version w st \<noteq> None)
      (afterwards (pin_version j (ready_version w st)) (remember_ready w j st)) (\<lambda>_ s. unpushed s \<and> bound_run w j s) unpushed" for st
  proof (cases "ready_version w st")
    case (Some v)
    have "leads (\<lambda>s. unpushed s \<and> w_await w = Inr st \<and> ready_version w st \<noteq> None) (pin_version j (Some v))
        (\<lambda>_ s. unpushed s \<and> bound_run w j s) unpushed"
      by (rule leads_mono [OF pin_leads [OF assms(1) ready_version_positive [OF Some]]]) (auto simp: confirmed_def Some)
    from leads_afterwards [OF this settled_leads [OF stop_quiet(4) bound_before(3)]] Some show ?thesis by simp
  qed (simp add: leads_def)
  have keep: "leads (\<lambda>s. unpushed s \<and> A) m (\<lambda>_ s. unpushed s \<and> A) unpushed" if "quiet.keeps m" for m :: "unit task" and A
    using quiet_leads [OF that] unfolding leads_def by (fastforce split: sum.splits prod.splits)
  have checked: "leads (\<lambda>s. unpushed s \<and> w_await w = Inr st \<and> r \<noteq> None) (check_that (r = None \<or> ready_version w st \<noteq> None) e)
      (\<lambda>_ s. unpushed s \<and> w_await w = Inr st \<and> ready_version w st \<noteq> None) unpushed" for r :: "receipt option" and st e
    by (auto simp: leads_def check_that_def give_def fail_with_def)
  have after: "leads (\<lambda>s. unpushed s \<and> w_await w = Inr st \<and> r \<noteq> None)
      (afterwards (timed_write w u) (afterwards (stop_if_canceled j) (afterwards (check_that (r = None \<or> ready_version w st \<noteq> None) e)
        (afterwards (pin_version j (ready_version w st)) (remember_ready w j st)))))
      (\<lambda>_ s. unpushed s \<and> bound_run w j s) unpushed" for r :: "receipt option" and st u e
    by (rule leads_afterwards [OF keep [OF on_db_quiet(4)] leads_afterwards [OF keep [OF stop_quiet(1)]
          leads_afterwards [OF checked pinned]]])
  have waited: "leads (\<lambda>s. unpushed s \<and> r \<noteq> None) (await_dataset w j r retained)
      (\<lambda>st s. unpushed s \<and> w_await w = Inr st \<and> r \<noteq> None) unpushed" for r
    using await_leads [of w j r retained] unfolding leads_def by (fastforce split: sum.splits prod.splits)
  show ?thesis
    unfolding submit_dataset_def
    by (rule leads_afterwards [OF quiet_leads [OF stop_quiet(1)] leads_andthen [OF quiet_leads [OF on_db_quiet(5)]
          leads_andthen [OF got leads_andthen [OF waited after]]]])
qed

lemma prepare_leads:
  assumes "plain_ref (dataset_ref j)" and "w_upload w \<noteq> Inr None"
  shows "leads unpushed (prepare_dataset w j retained user) (\<lambda>_ s. unpushed s \<and> bound_run w j s) unpushed"
proof -
  have found: "leads unpushed (find_ready_cache w j)
      (\<lambda>c s. unpushed s \<and> (\<forall>x. c = Some x \<longrightarrow> (\<exists>v. ready_version w (cache_dataset_status x) = Some v))) unpushed"
    unfolding leads_def find_ready_cache_def timed_def on_db_def
    by (auto simp: unpushed_def split: prod.splits dest!: ready_cache_version)
  show ?thesis
    unfolding prepare_dataset_def
  proof (rule leads_andthen [OF found])
    fix cache :: "cache_row option"
    let ?P = "\<lambda>s. unpushed s \<and> (\<forall>x. cache = Some x \<longrightarrow> (\<exists>v. ready_version w (cache_dataset_status x) = Some v))"
    show "leads ?P (andthen (load_intent w) (\<lambda>intent. afterwards (if retained then check_retained w j intent else give ())
        (case (if intent = None then cache else None) of Some c \<Rightarrow> reuse_dataset w j user c
         | None \<Rightarrow> submit_dataset w j retained user intent))) (\<lambda>_ s. unpushed s \<and> bound_run w j s) unpushed"
    proof (cases "read_intent (w_intent w)")
      case (Inl e)
      then show ?thesis by (simp add: load_intent_def leads_def fail_with_def)
    next
      case (Inr intent)
      have main: "leads ?P (case (if intent = None then cache else None) of Some c \<Rightarrow> reuse_dataset w j user c
         | None \<Rightarrow> submit_dataset w j retained user intent) (\<lambda>_ s. unpushed s \<and> bound_run w j s) unpushed"
        if "retained \<Longrightarrow> intent \<noteq> None"
      proof (cases "if intent = None then cache else None")
        case None
        with submit_leads [OF assms that] show ?thesis by (auto simp: leads_def)
      next
        case (Some c)
        then have "cache = Some c" by (auto split: if_splits)
        show ?thesis
        proof (cases "ready_version w (cache_dataset_status c)")
          case None
          with \<open>cache = Some c\<close> show ?thesis by (simp add: leads_def)
        next
          case v: (Some v)
          have "leads ?P (reuse_dataset w j user c) (\<lambda>_ s. unpushed s \<and> bound_run w j s) unpushed"
            by (rule leads_mono [OF reuse_leads [OF assms(1) v]]) auto
          with Some show ?thesis by simp
        qed
      qed
      show ?thesis
      proof (cases retained)
        case True
        from check_retained_result [of w j intent] show ?thesis
        proof
          assume "check_retained w j intent = give () \<and> intent \<noteq> None"
          with main True Inr show ?thesis by (auto simp: load_intent_def afterwards_def)
        next
          assume "\<exists>e. check_retained w j intent = fail_with e"
          with True Inr show ?thesis by (auto simp: load_intent_def afterwards_def leads_def fail_with_def)
        qed
      next
        case False
        with main Inr show ?thesis by (simp add: load_intent_def afterwards_def)
      qed
    qed
  qed
qed

text \<open>
  C5: A kernel is pushed only when its sources of the job's dataset name, exactly, the version that the
  wait confirmed; that the remote side names a version after an upload is the one assumption. The sources
  stay bound for the rest of the action.
\<close>

theorem pushed_kernel_is_bound:
  assumes "process_job w auth jid retained s = (Some out, s')" and "get_job (run_db s) jid = Some j"
    and "unpushed s" and "plain_ref (dataset_ref j)" and "w_upload w \<noteq> Inr None" and "\<not> unpushed s'"
  shows "\<exists>v. confirmed w (calls s') v \<and> reads_version (dataset_ref j) v (snd (dirs s'))"
proof -
  let ?E = "\<lambda>s. unpushed s \<or> bound_run w j s"
  have pre: "leads unpushed m (\<lambda>_. unpushed) ?E" if "pushes.keeps m" for m :: "'x task"
    by (rule leads_mono [OF unpushed_leads [OF that]]) auto
  have prepared: "leads unpushed (prepare_dataset w j retained user) (\<lambda>_. bound_run w j) ?E" for user
    by (rule leads_mono [OF prepare_leads [OF assms(4,5)]]) auto
  have pushed: "leads (bound_run w j) m (\<lambda>_. bound_run w j) ?E" if "bound.keeps m" for m :: "unit task"
    by (rule leads_mono [OF bound_leads [OF that]]) auto
  have "leads unpushed (submission w j retained user) (\<lambda>_. bound_run w j) ?E" for user
    unfolding submission_def
    by (intro leads_afterwards [OF pre [OF pushes_quiet [OF quiet.keeps_pure(5)]]] leads_afterwards [OF pre [OF pushes_quiet [OF stop_quiet(1)]]]
        leads_afterwards [OF pre [OF pushes_quiet [OF quiet.keeps_pure(3)]]] leads_afterwards [OF pre [OF pushes_remote]]
        leads_afterwards [OF prepared pushed [OF bound_push]]) simp
  then have whole: "leads unpushed (process_body w auth j retained) (\<lambda>_. bound_run w j) ?E"
    unfolding process_body_def
    by (intro leads_andthen [OF pre [OF pushes_quiet [OF log_quiet(6)]]] leads_afterwards [OF pre [OF pushes_quiet [OF quiet.keeps_pure(5)]]]
        leads_afterwards [OF _ pushed [OF bound_finish]])
  note body = whole [unfolded leads_def, THEN spec, THEN mp, OF assms(3)]
  show ?thesis
    using assms(1,2)
  proof (cases rule: process_job_cases)
    case ok
    with body show ?thesis by (simp add: bound_run_def)
  next
    case (raised e s1 db)
    with body assms(6) show ?thesis by (auto simp: bound_run_def unpushed_def)
  qed
qed

section \<open>A run that ends well\<close>

definition ready_world :: world where
  "ready_world = \<lparr>w_at = (\<lambda>k. 100 + of_nat k), w_env = (\<lambda>_ _ db. db), w_loads = (\<lambda>_. None), w_dumps = no_text,
     w_dumps_sorted = no_text, w_render = no_text, w_known = [], w_due_text = (\<lambda>_. []), w_training = None, w_lock = None,
     w_identity = Inr (), w_intent = Intent_missing, w_intent_after = Intent_missing, w_digest = (\<lambda>_. Inr ''d1''),
     w_is_dir = (\<lambda>_. True), w_dir_of = (\<lambda>jid. jid), w_upload = Inr None, w_await = Inr ''ready'',
     w_gpu_policy = Inr None, w_threshold_policy = Inr None, w_push = Inr [], w_reports = [], w_watched = Inr ''COMPLETE'',
     w_stop = [], w_output = Inr [], w_p6_output = Inr (), w_task_file = Inr [], w_package = Inr (), w_receipt = None,
     w_artifact = ''artifacts.zip''\<rparr>"

definition queued_run :: run where
  "queued_run = \<lparr>run_db = sample_db [sample_job\<lparr>status := Queued\<rparr>], calls = [], moment = 0,
     dirs = (sample_dataset\<lparr>docs := [(dataset_file, Decoded (JObj [(''id'', JStr ''u/d'')]))]\<rparr>,
       sample_kernel\<lparr>docs := [(kernel_file, Decoded (JObj [(''id'', JStr ''u/k''), (''code_file'', JStr ''run.py''),
         (''dataset_sources'', JArr [JStr ''u/d''])]))]\<rparr>)\<rparr>"

definition denied_world :: world where
  "denied_world = ready_world\<lparr>w_identity := Inl (runtime_error ''denied'')\<rparr>"

lemma denied_outcome: "map_prod id calls (process_job denied_world None ''j'' False queued_run) = (Some Ended_failed, [Check_identity ''u''])"
  by code_simp

definition lost_world :: world where
  "lost_world = ready_world\<lparr>w_upload := Inl (Upload_unknown ''lost''),
     w_intent_after := Intent_text (JObj [(''schema_version'', JInt 1), (''version_number'', JInt 3), (''state'', JStr ''unknown'')])\<rparr>"

lemma lost_outcome: "map_prod id calls (process_job lost_world None ''j'' False queued_run)
    = (Some Candidate_retained, [Check_identity ''u'', Upload_dataset ''u/d''])"
  by code_simp

definition refused_world :: world where
  "refused_world = ready_world\<lparr>w_loads := (\<lambda>_. Some (JObj [(''status'', JStr ''ready''), (''current_version_number'', JInt 3)])),
     w_await := Inr ''{}'', w_push := Inl (runtime_error ''refused''),
     w_upload := Inr (Some \<lparr>expected_version = Some 3, receipt_dir = ''j'', receipt_digest = ''d1''\<rparr>)\<rparr>"

lemma refused_outcome: "map_prod id (\<lambda>s. (unpushed s, dataset_sources (snd (dirs s)))) (process_job refused_world None ''j'' False queued_run)
    = (Some Ended_failed, False, [JStr ''u/d/3''])"
  by code_simp

lemma ready_facts:
  "calls queued_run = []" "get_job (run_db queued_run) ''j'' = Some (sample_job\<lparr>status := Queued\<rparr>)"
  "fair_world lost_world" "fair_world denied_world" "lifecycle_inv (run_db queued_run)"
  by (simp_all add: queued_run_def fair_world_def ready_world_def denied_world_def lost_world_def quiet_fair get_job_def)
    (auto simp: lifecycle_inv_def jobs_keyed_def get_job_def cancel_visible_def split: if_splits)

lemma submission_protocol_witness:
  "\<exists>s' full. process_job lost_world None ''j'' False queued_run = (Some Candidate_retained, s')
     \<and> protocol lost_world (sample_job\<lparr>status := Queued\<rparr>) False full
     \<and> prefix [Check_identity ''u'', Upload_dataset ''u/d''] (until_failure (answered lost_world) full)"
proof -
  obtain s' where s': "process_job lost_world None ''j'' False queued_run = (Some Candidate_retained, s')"
    and c: "calls s' = [Check_identity ''u'', Upload_dataset ''u/d'']"
    using lost_outcome by (cases "process_job lost_world None ''j'' False queued_run") auto
  from submission_protocol [OF s' ready_facts(2,1)] s' c show ?thesis by auto
qed

lemma action_respects_rows_witness:
  "\<exists>s'. process_job denied_world None ''j'' False queued_run = (Some Ended_failed, s') \<and> lifecycle_inv (run_db s')"
proof -
  obtain s' where s': "process_job denied_world None ''j'' False queued_run = (Some Ended_failed, s')"
    using denied_outcome by (cases "process_job denied_world None ''j'' False queued_run") auto
  from db_step_inv [OF action_respects_rows [OF s' ready_facts(4,5)]] s' show ?thesis by blast
qed

lemma action_accounts_for_job_witness:
  "\<exists>s' r. process_job lost_world None ''j'' False queued_run = (Some Candidate_retained, s')
     \<and> get_job (run_db s') ''j'' = Some r \<and> status r = Waiting_dataset"
proof -
  obtain s' where s': "process_job lost_world None ''j'' False queued_run = (Some Candidate_retained, s')"
    using lost_outcome by (cases "process_job lost_world None ''j'' False queued_run") auto
  from action_accounts_for_job [OF s' ready_facts(3,5)] s' show ?thesis by (auto simp: outcome_shown_def)
qed

lemma pushed_kernel_is_bound_witness:
  "\<exists>s' v. process_job refused_world None ''j'' False queued_run = (Some Ended_failed, s') \<and> \<not> unpushed s'
     \<and> confirmed refused_world (calls s') v \<and> reads_version ''u/d'' v (snd (dirs s'))"
proof -
  obtain s' where s': "process_job refused_world None ''j'' False queued_run = (Some Ended_failed, s')" "\<not> unpushed s'"
    using refused_outcome by (cases "process_job refused_world None ''j'' False queued_run") auto
  have d: "dataset_ref (sample_job\<lparr>status := Queued\<rparr>) = ''u/d''" "plain_ref ''u/d''" by code_simp+
  have u: "w_upload refused_world \<noteq> Inr None" "unpushed queued_run"
    by (simp_all add: refused_world_def unpushed_def queued_run_def)
  from pushed_kernel_is_bound [OF s'(1) ready_facts(2) u(2) _ u(1) s'(2)] d s' show ?thesis by auto
qed

end
