(* ===== verification/Payload_Contract.thy ===== *)
theory Payload_Contract
  imports Relay_Prelude "HOL-Library.AList"
begin

text \<open>
  Byte verification of an uploaded payload (\<^verbatim>\<open>app/payload_contract.py\<close>): which members of an archive are
  accepted, what the relay expects to find of a payload, expanded by the remote side or not, and the
  comparison. Bytes are strings; \<open>sha256\<close> is their digest and \<open>unzip\<close> the members of an archive held in
  bytes. Names are folded by \<^const>\<open>lower\<close>. An error is the text of the exception.
\<close>

section \<open>Archives\<close>

text \<open>A member as the library lists it; \<^const>\<open>None\<close> when its bytes cannot be read.\<close>

record member =
  filename :: string
  orig_filename :: string
  encrypted :: bool
  external_attr :: int
  file_size :: int
  member_bytes :: "string option"

text \<open>An archive that cannot be opened, or its members in order.\<close>

datatype archive = Bad_archive string | Archive "member list"

type_synonym inventory = "(int \<times> string) dict"

definition is_dir :: "member \<Rightarrow> bool" where
  "is_dir m \<longleftrightarrow> filename m \<noteq> [] \<and> last (filename m) = CHR ''/''"

definition rstrip_slash :: "string \<Rightarrow> string" where
  "rstrip_slash s = rev (dropWhile (\<lambda>c. c = CHR ''/'') (rev s))"

text \<open>\<^verbatim>\<open>stat.S_IFMT\<close> of the mode in the upper half of the attributes, and the two kinds that are accepted.\<close>

definition file_kind :: "member \<Rightarrow> int" where
  "file_kind m = external_attr m div 2 ^ 16 div 2 ^ 12 mod 16"

definition regular_kind :: int where "regular_kind = 8"

definition dir_kind :: int where "dir_kind = 4"

definition unsafe_member :: "member \<Rightarrow> bool" where
  "unsafe_member m \<longleftrightarrow>
     (let name = rstrip_slash (filename m) in
      name = [] \<or> filename m \<noteq> orig_filename m \<or> CHR 0x5C \<in> set name \<or> CHR '':'' \<in> set name
      \<or> list_ex (\<lambda>p. p \<in> {[], ''.'', ''..''}) (split_on (CHR ''/'') name) \<or> encrypted m
      \<or> file_kind m \<notin> {0, regular_kind, dir_kind} \<or> \<not> is_dir m \<and> file_kind m = dir_kind)"

fun scan_members :: "member list \<Rightarrow> string list \<Rightarrow> member dict \<Rightarrow> string + member dict" where
  "scan_members [] seen files = Inr files"
| "scan_members (m # ms) seen files =
     (let name = rstrip_slash (filename m) in
      if unsafe_member m \<or> lower name \<in> set seen then Inl ''payload_unsafe_member''
      else scan_members ms (lower name # seen) (if is_dir m then files else AList.update name m files))"

definition parents :: "string \<Rightarrow> string list" where
  "parents name =
     (let parts = split_on (CHR ''/'') name in map (\<lambda>i. join ''/'' (take i parts)) [1..<length parts])"

definition zip_members :: "archive \<Rightarrow> string + member dict" where
  "zip_members a =
     (case a of
        Bad_archive e \<Rightarrow> Inl e
      | Archive ms \<Rightarrow>
          (case scan_members ms [] [] of
             Inl e \<Rightarrow> Inl e
           | Inr files \<Rightarrow>
               if list_ex (\<lambda>name. list_ex (\<lambda>p. map_of files p \<noteq> None) (parents name)) (map fst files)
               then Inl ''payload_path_conflict'' else Inr files))"

fun archive_inventory :: "(string \<Rightarrow> string) \<Rightarrow> member dict \<Rightarrow> string + inventory" where
  "archive_inventory sha256 [] = Inr []"
| "archive_inventory sha256 ((name, m) # ms) =
     (case member_bytes m of
        None \<Rightarrow> Inl ''bad member''
      | Some b \<Rightarrow>
          (case archive_inventory sha256 ms of Inl e \<Rightarrow> Inl e | Inr r \<Rightarrow> Inr ((name, file_size m, sha256 b) # r)))"

section \<open>What is expected of a payload\<close>

definition max_runtime_bytes :: int where "max_runtime_bytes = 4 * 1024 * 1024"

definition runtime_paths :: "(string \<times> nat) list" where
  "runtime_paths = [(''model_source/kaggle_runtime/runtime.zip'', 32), (''model_source/p6_runtime/runtime.zip'', 128)]"

fun add_expanded :: "string \<Rightarrow> inventory \<Rightarrow> inventory \<Rightarrow> string + inventory" where
  "add_expanded prefixed [] expected = Inr expected"
| "add_expanded prefixed ((name, v) # xs) expected =
     (if map_of expected (prefixed @ name) \<noteq> None then Inl ''payload_path_conflict''
      else add_expanded prefixed xs (AList.update (prefixed @ name) v expected))"

text \<open>One of the two runtimes that the remote side unpacks.\<close>

definition expand_runtime ::
  "(string \<Rightarrow> string) \<Rightarrow> (string \<Rightarrow> archive) \<Rightarrow> member dict \<Rightarrow> string list \<Rightarrow> string \<times> nat \<Rightarrow> inventory \<Rightarrow> string + inventory" where
  "expand_runtime sha256 unzip members actual rt expected =
     (case rt of (path, max_files) \<Rightarrow>
        case map_of members path of
          None \<Rightarrow> Inr expected
        | Some runtime \<Rightarrow>
            if path \<in> set actual then Inr expected
            else if max_runtime_bytes < file_size runtime then Inl ''runtime_expansion_limit''
            else case member_bytes runtime of
                None \<Rightarrow> Inl ''bad member''
              | Some b \<Rightarrow>
                  (case zip_members (unzip b) of
                     Inl e \<Rightarrow> Inl e
                   | Inr sources \<Rightarrow>
                       if max_files < length sources \<or> max_runtime_bytes < sum_list (map (file_size \<circ> snd) sources)
                       then Inl ''runtime_expansion_limit''
                       else case archive_inventory sha256 sources of
                           Inl e \<Rightarrow> Inl e
                         | Inr expanded \<Rightarrow>
                             add_expanded (take (length path - 4) path @ ''/'') expanded (AList.delete path expected)))"

definition expanded_payload_inventory ::
  "(string \<Rightarrow> string) \<Rightarrow> (string \<Rightarrow> archive) \<Rightarrow> archive \<Rightarrow> string list \<Rightarrow> string + inventory" where
  "expanded_payload_inventory sha256 unzip original actual =
     (case zip_members original of
        Inl e \<Rightarrow> Inl e
      | Inr members \<Rightarrow>
          (case archive_inventory sha256 members of
             Inl e \<Rightarrow> Inl e
           | Inr expected \<Rightarrow>
               fold (\<lambda>rt r. case r of Inl e \<Rightarrow> Inl e | Inr x \<Rightarrow> expand_runtime sha256 unzip members actual rt x)
                 runtime_paths (Inr expected)))"

text \<open>A dataset directory: its payload archive, if that is a file, and the other entries below it.\<close>

record entry =
  entry_path :: string
  entry_name :: string
  entry_link :: bool
  entry_file :: bool
  entry_bytes :: string

record dataset_tree =
  root_link :: bool
  payload_link :: bool
  payload :: "string option"
  entries :: "entry list"

definition size_of :: "string \<Rightarrow> int" where
  "size_of b = int (length b)"

fun loose_inventory :: "(string \<Rightarrow> string) \<Rightarrow> entry list \<Rightarrow> inventory \<Rightarrow> string + inventory" where
  "loose_inventory sha256 [] expected = Inr expected"
| "loose_inventory sha256 (e # es) expected =
     (if entry_link e then Inl ''payload_unsafe_member''
      else loose_inventory sha256 es
             (if entry_file e \<and> entry_name e \<noteq> ''dataset-metadata.json''
              then AList.update (entry_path e) (size_of (entry_bytes e), sha256 (entry_bytes e)) expected else expected))"

definition upload_content_inventory ::
  "(string \<Rightarrow> string) \<Rightarrow> (string \<Rightarrow> archive) \<Rightarrow> dataset_tree \<Rightarrow> string list \<Rightarrow> string + inventory" where
  "upload_content_inventory sha256 unzip d actual =
     (if payload_link d \<or> root_link d then Inl ''payload_unsafe_member''
      else case payload d of
          Some b \<Rightarrow>
            if ''payload.zip'' \<in> set actual then Inr [(''payload.zip'', size_of b, sha256 b)]
            else expanded_payload_inventory sha256 unzip (unzip b) actual
        | None \<Rightarrow> loose_inventory sha256 (entries d) [])"

section \<open>The comparison\<close>

fun same_members :: "(string \<Rightarrow> string) \<Rightarrow> member dict \<Rightarrow> inventory \<Rightarrow> string + unit" where
  "same_members sha256 actual [] = Inr ()"
| "same_members sha256 actual ((name, v) # xs) =
     (case map_of actual name of
        None \<Rightarrow> Inl ''payload_inventory_mismatch''
      | Some m \<Rightarrow>
          if file_size m \<noteq> fst v then Inl ''payload_size_mismatch''
          else case member_bytes m of
              None \<Rightarrow> Inl ''bad member''
            | Some b \<Rightarrow> if sha256 b \<noteq> snd v then Inl ''payload_digest_mismatch'' else same_members sha256 actual xs)"

definition verify_inventory :: "(string \<Rightarrow> string) \<Rightarrow> member dict \<Rightarrow> inventory \<Rightarrow> string + unit" where
  "verify_inventory sha256 actual expected =
     (if set (map fst actual) \<noteq> set (map fst expected) then Inl ''payload_inventory_mismatch''
      else same_members sha256 actual expected)"

definition verify_payload_archive ::
  "(string \<Rightarrow> string) \<Rightarrow> (string \<Rightarrow> archive) \<Rightarrow> string \<Rightarrow> archive \<Rightarrow> string + unit" where
  "verify_payload_archive sha256 unzip original remote =
     (case zip_members remote of
        Inl e \<Rightarrow> Inl e
      | Inr actual \<Rightarrow>
          (case map_of actual ''payload.zip'' of
             Some m \<Rightarrow>
               if set (map fst actual) \<noteq> {''payload.zip''} \<or> file_size m \<noteq> size_of original
               then Inl ''payload_inventory_mismatch''
               else (case member_bytes m of
                   None \<Rightarrow> Inl ''bad member''
                 | Some b \<Rightarrow> if sha256 b \<noteq> sha256 original then Inl ''payload_digest_mismatch'' else Inr ())
           | None \<Rightarrow>
               (case expanded_payload_inventory sha256 unzip (unzip original) (map fst actual) of
                  Inl e \<Rightarrow> Inl e
                | Inr expected \<Rightarrow> verify_inventory sha256 actual expected)))"

definition verify_upload_archive ::
  "(string \<Rightarrow> string) \<Rightarrow> (string \<Rightarrow> archive) \<Rightarrow> dataset_tree \<Rightarrow> archive \<Rightarrow> string + unit" where
  "verify_upload_archive sha256 unzip d remote =
     (case payload d of
        Some b \<Rightarrow> verify_payload_archive sha256 unzip b remote
      | None \<Rightarrow>
          (case loose_inventory sha256 (entries d) [] of
             Inl e \<Rightarrow> Inl e
           | Inr expected \<Rightarrow>
               (case zip_members remote of Inl e \<Rightarrow> Inl e | Inr actual \<Rightarrow> verify_inventory sha256 actual expected)))"

section \<open>Accepted members\<close>

text \<open>Names that stay below the directory they are unpacked in, on any system.\<close>

definition safe_name :: "string \<Rightarrow> bool" where
  "safe_name name \<longleftrightarrow> name \<noteq> [] \<and> CHR 0x5C \<notin> set name \<and> CHR '':'' \<notin> set name
     \<and> (\<forall>p \<in> set (split_on (CHR ''/'') name). p \<notin> {[], ''.'', ''..''})"

definition safe_files :: "member dict \<Rightarrow> bool" where
  "safe_files files \<longleftrightarrow> distinct (map (\<lambda>f. lower (fst f)) files)
     \<and> (\<forall>(name, m) \<in> set files. safe_name name \<and> file_kind m \<in> {0, regular_kind} \<and> \<not> encrypted m)
     \<and> (\<forall>a \<in> fst ` set files. \<forall>b \<in> fst ` set files. a \<notin> set (parents b))"

lemma keys_update: "fst ` set (AList.update k v d) = insert k (fst ` set d)"
  using dom_update [of k v d] by (simp add: dom_map_of_conv_image_fst)

lemma update_fresh: "k \<notin> fst ` set d \<Longrightarrow> AList.update k v d = d @ [(k, v)]"
  by (induction d) auto

lemma scan_safe:
  assumes "scan_members ms seen files = Inr files'" and "distinct (map (\<lambda>f. lower (fst f)) files)"
    and "\<forall>(name, m) \<in> set files. lower name \<in> set seen \<and> safe_name name \<and> file_kind m \<in> {0, regular_kind} \<and> \<not> encrypted m"
  shows "distinct (map (\<lambda>f. lower (fst f)) files')
     \<and> (\<forall>(name, m) \<in> set files'. safe_name name \<and> file_kind m \<in> {0, regular_kind} \<and> \<not> encrypted m)"
  using assms
proof (induction ms seen files rule: scan_members.induct)
  case (2 m ms seen files)
  let ?n = "rstrip_slash (filename m)"
  have ok: "\<not> unsafe_member m" "lower ?n \<notin> set seen"
    and r: "scan_members ms (lower ?n # seen) (if is_dir m then files else AList.update ?n m files) = Inr files'"
    using "2.prems"(1) by (auto simp: Let_def split: if_splits)
  have fresh: "lower ?n \<notin> lower ` fst ` set files" using ok(2) "2.prems"(3) by auto
  then have new: "?n \<notin> fst ` set files" by blast
  have name: "safe_name ?n" "\<not> encrypted m" "\<not> is_dir m \<Longrightarrow> file_kind m \<in> {0, regular_kind}"
    using ok(1) by (auto simp: unsafe_member_def safe_name_def Let_def list_ex_iff)
  show ?case
  proof (cases "is_dir m")
    case True
    with "2.IH" [OF refl] ok r "2.prems"(2,3) show ?thesis by auto
  next
    case False
    have "distinct (map (\<lambda>f. lower (fst f)) (files @ [(?n, m)]))" using "2.prems"(2) fresh by (simp add: image_image)
    moreover have "\<forall>(name, x) \<in> set (files @ [(?n, m)]). lower name \<in> set (lower ?n # seen) \<and> safe_name name
        \<and> file_kind x \<in> {0, regular_kind} \<and> \<not> encrypted x"
      using "2.prems"(3) name False by auto
    ultimately show ?thesis using "2.IH" [OF refl] ok r False by (auto simp: update_fresh [OF new])
  qed
qed auto

lemma accepted_scan:
  assumes "zip_members a = Inr files"
  shows "\<exists>ms. scan_members ms [] [] = Inr files"
  using assms by (auto simp: zip_members_def split: archive.splits sum.splits if_splits)

lemma accepted_distinct: "zip_members a = Inr files \<Longrightarrow> distinct (map (\<lambda>f. lower (fst f)) files)"
  using accepted_scan scan_safe by fastforce

text \<open>
  Accepted members can be unpacked safely on any system: every name stays below its directory, no two
  differ only in case, none is a parent of another, and none is a link, a device or encrypted.
\<close>

theorem accepted_members_safe:
  assumes "zip_members a = Inr files"
  shows "safe_files files"
proof -
  from assms obtain ms where s: "scan_members ms [] [] = Inr files"
    and c: "\<not> list_ex (\<lambda>name. list_ex (\<lambda>p. map_of files p \<noteq> None) (parents name)) (map fst files)"
    by (auto simp: zip_members_def split: archive.splits sum.splits if_splits)
  have "map_of files x = None" if "x \<in> set (parents b)" "b \<in> fst ` set files" for x b
    using c that by (auto simp: list_ex_iff)
  then have "x \<notin> fst ` set files" if "x \<in> set (parents b)" "b \<in> fst ` set files" for x b
    using that by (simp add: map_of_eq_None_iff)
  with scan_safe [OF s] show ?thesis unfolding safe_files_def by auto
qed

section \<open>The two verifications agree\<close>

definition inventory_of :: "(string \<Rightarrow> string) \<Rightarrow> member dict \<Rightarrow> string \<Rightarrow> (int \<times> string) option" where
  "inventory_of sha256 files name =
     (case map_of files name of
        None \<Rightarrow> None
      | Some m \<Rightarrow> (case member_bytes m of None \<Rightarrow> None | Some b \<Rightarrow> Some (file_size m, sha256 b)))"

lemma same_members_iff:
  "same_members sha256 actual xs = Inr () \<longleftrightarrow> (\<forall>(name, v) \<in> set xs. inventory_of sha256 actual name = Some v)"
  by (induction xs) (auto simp: inventory_of_def split: option.splits if_splits)

text \<open>The remote archive holds exactly the expected files with the expected bytes.\<close>

definition archive_matches :: "(string \<Rightarrow> string) \<Rightarrow> member dict \<Rightarrow> inventory \<Rightarrow> bool" where
  "archive_matches sha256 actual expected \<longleftrightarrow>
     fst ` set actual = fst ` set expected \<and> (\<forall>name. inventory_of sha256 actual name = map_of expected name)"

lemma inventory_absent: "n \<notin> fst ` set files \<Longrightarrow> inventory_of sha256 files n = None"
  by (simp add: inventory_of_def map_of_eq_None_iff [THEN iffD2])

lemma verify_inventory_iff:
  assumes "distinct (map fst expected)"
  shows "verify_inventory sha256 actual expected = Inr () \<longleftrightarrow> archive_matches sha256 actual expected"
proof -
  show ?thesis
  proof
    assume v: "verify_inventory sha256 actual expected = Inr ()"
    then have names: "fst ` set actual = fst ` set expected" and m: "\<forall>(name, v) \<in> set expected. inventory_of sha256 actual name = Some v"
      by (auto simp: verify_inventory_def same_members_iff split: if_splits)
    have "inventory_of sha256 actual n = map_of expected n" for n
    proof (cases "map_of expected n")
      case None
      then show ?thesis using inventory_absent names by (metis map_of_eq_None_iff)
    next
      case (Some v)
      with m map_of_SomeD [OF Some] show ?thesis by auto
    qed
    with names show "archive_matches sha256 actual expected" by (simp add: archive_matches_def)
  next
    assume "archive_matches sha256 actual expected"
    with assms show "verify_inventory sha256 actual expected = Inr ()"
      by (auto simp: archive_matches_def verify_inventory_def same_members_iff)
  qed
qed

lemma inventory_keys: "archive_inventory sha256 ms = Inr r \<Longrightarrow> map fst r = map fst ms"
  by (induction ms arbitrary: r) (auto split: option.splits sum.splits)

lemma zip_members_distinct: "zip_members a = Inr files \<Longrightarrow> distinct (map fst files)"
  using accepted_distinct [of a files] distinct_map [of lower "map fst files"] by (simp add: o_def)

lemma archive_inventory_distinct:
  "zip_members a = Inr files \<Longrightarrow> archive_inventory sha256 files = Inr r \<Longrightarrow> distinct (map fst r)"
  using zip_members_distinct inventory_keys by metis

lemma add_expanded_distinct:
  "add_expanded q xs expected = Inr r \<Longrightarrow> distinct (map fst expected) \<Longrightarrow> distinct (map fst r)"
  by (induction q xs expected rule: add_expanded.induct) (auto simp: distinct_update split: if_splits)

lemma expand_runtime_distinct:
  assumes "expand_runtime sha256 unzip members actual rt expected = Inr r" and "distinct (map fst expected)"
  shows "distinct (map fst r)"
  using assms
  by (cases rt) (auto simp: expand_runtime_def distinct_delete dest: add_expanded_distinct
      split: option.splits if_splits sum.splits)

lemma expanded_distinct:
  "expanded_payload_inventory sha256 unzip a actual = Inr r \<Longrightarrow> distinct (map fst r)"
  by (auto simp: expanded_payload_inventory_def runtime_paths_def dest: archive_inventory_distinct expand_runtime_distinct
      split: sum.splits)

lemma loose_distinct: "loose_inventory sha256 es expected = Inr r \<Longrightarrow> distinct (map fst expected) \<Longrightarrow> distinct (map fst r)"
  by (induction sha256 es expected rule: loose_inventory.induct) (auto simp: distinct_update split: if_splits)

lemma upload_inventory_distinct: "upload_content_inventory sha256 unzip d actual = Inr r \<Longrightarrow> distinct (map fst r)"
  by (auto simp: upload_content_inventory_def dest: expanded_distinct loose_distinct split: if_splits option.splits)

lemma preserved_payload:
  "archive_matches sha256 actual [(''payload.zip'', v)]
   \<longleftrightarrow> fst ` set actual = {''payload.zip''} \<and> inventory_of sha256 actual ''payload.zip'' = Some v" (is "?l \<longleftrightarrow> ?r")
proof
  assume l: ?l
  then have "inventory_of sha256 actual ''payload.zip'' = map_of [(''payload.zip'', v)] ''payload.zip''"
    unfolding archive_matches_def by blast
  with l show ?r by (simp add: archive_matches_def)
next
  assume r: ?r
  then have "inventory_of sha256 actual n = None" if "n \<noteq> ''payload.zip''" for n
    using that by (intro inventory_absent) simp
  with r show ?l by (simp add: archive_matches_def)
qed

lemma verify_payload_iff:
  assumes "zip_members remote = Inr actual" and "payload d = Some b" and "\<not> payload_link d" "\<not> root_link d"
  shows "verify_payload_archive sha256 unzip b remote = Inr ()
     \<longleftrightarrow> (\<exists>expected. upload_content_inventory sha256 unzip d (map fst actual) = Inr expected
        \<and> archive_matches sha256 actual expected)"
proof (cases "map_of actual ''payload.zip''")
  case None
  then have "''payload.zip'' \<notin> fst ` set actual" by (simp add: map_of_eq_None_iff)
  with None assms show ?thesis
    by (auto simp: verify_payload_archive_def upload_content_inventory_def verify_inventory_iff [OF expanded_distinct]
        split: sum.split)
next
  case (Some m)
  then have "''payload.zip'' \<in> fst ` set actual" by (metis map_of_eq_None_iff option.distinct(1))
  with Some assms show ?thesis
    by (auto simp: verify_payload_archive_def upload_content_inventory_def preserved_payload inventory_of_def split: option.split)
qed

text \<open>
  C20: The check of a downloaded archive accepts it exactly when its members are safe and are, names, sizes and
  digests, the inventory that the file by file check expects of the same dataset directory: the two
  verification paths agree, whichever layout the remote side chose (payload kept, expanded, with its inner
  runtimes expanded, or loose files).
\<close>

theorem verifications_agree:
  assumes "\<not> payload_link d" and "\<not> root_link d"
  shows "verify_upload_archive sha256 unzip d remote = Inr ()
     \<longleftrightarrow> (\<exists>actual expected. zip_members remote = Inr actual
        \<and> upload_content_inventory sha256 unzip d (map fst actual) = Inr expected
        \<and> fst ` set actual = fst ` set expected
        \<and> (\<forall>name. inventory_of sha256 actual name = map_of expected name))"
proof (cases "zip_members remote")
  case (Inl e)
  then show ?thesis
    by (auto simp: verify_upload_archive_def verify_payload_archive_def split: option.split sum.split)
next
  case (Inr actual)
  show ?thesis
  proof (cases "payload d")
    case None
    with Inr assms show ?thesis
      by (auto simp: verify_upload_archive_def upload_content_inventory_def verify_inventory_iff [OF loose_distinct]
          archive_matches_def split: sum.split)
  next
    case (Some b)
    with Inr verify_payload_iff [OF Inr Some assms] show ?thesis
      by (simp add: verify_upload_archive_def archive_matches_def)
  qed
qed

section \<open>Witnesses\<close>

text \<open>A payload with one runtime, unpacked by the remote side, and a digest that keeps the bytes.\<close>

definition plain_member :: "string \<Rightarrow> string \<Rightarrow> member" where
  "plain_member name b = \<lparr>filename = name, orig_filename = name, encrypted = False, external_attr = 2147483648 + 27525120,
     file_size = size_of b, member_bytes = Some b\<rparr>"

definition sample_unzip :: "string \<Rightarrow> archive" where
  "sample_unzip b =
     (if b = ''outer'' then Archive [plain_member ''train.py'' ''x'', plain_member ''model_source/kaggle_runtime/runtime.zip'' ''inner'']
      else if b = ''inner'' then Archive [plain_member ''run.py'' ''y''] else Bad_archive ''File is not a zip file'')"

definition sample_tree :: dataset_tree where
  "sample_tree = \<lparr>root_link = False, payload_link = False, payload = Some ''outer'', entries = []\<rparr>"

definition sample_remote :: archive where
  "sample_remote = Archive [plain_member ''train.py'' ''x'', plain_member ''model_source/kaggle_runtime/runtime/run.py'' ''y'']"

lemmas sample_simps = plain_member_def sample_unzip_def sample_tree_def sample_remote_def zip_members_def is_dir_def
  rstrip_slash_def unsafe_member_def file_kind_def regular_kind_def dir_kind_def parents_def size_of_def Let_def

lemma accepted_members_safe_witness:
  "\<exists>files. zip_members sample_remote = Inr files \<and> length files = 2 \<and> safe_files files"
proof -
  have "map_sum (\<lambda>e. e) (map fst) (zip_members sample_remote)
      = Inr [''train.py'', ''model_source/kaggle_runtime/runtime/run.py'']" by code_simp
  then obtain files where f: "zip_members sample_remote = Inr files"
      "map fst files = [''train.py'', ''model_source/kaggle_runtime/runtime/run.py'']"
    by (cases "zip_members sample_remote") auto
  from arg_cong [OF f(2), of length] accepted_members_safe [OF f(1)] f(1) show ?thesis by auto
qed

lemma verifications_agree_witness:
  "verify_upload_archive (\<lambda>b. b) sample_unzip sample_tree sample_remote = Inr ()
   \<and> (\<exists>actual expected. zip_members sample_remote = Inr actual
        \<and> upload_content_inventory (\<lambda>b. b) sample_unzip sample_tree (map fst actual) = Inr expected
        \<and> fst ` set actual = fst ` set expected \<and> (\<forall>name. inventory_of (\<lambda>b. b) actual name = map_of expected name))"
proof -
  have links: "\<not> payload_link sample_tree" "\<not> root_link sample_tree" by (simp_all add: sample_tree_def)
  have "verify_upload_archive (\<lambda>b. b) sample_unzip sample_tree sample_remote = Inr ()" by code_simp
  with verifications_agree [OF links] show ?thesis by blast
qed

end
