(* ===== verification/File_Verification.thy ===== *)
theory File_Verification
  imports Dataset_Recheck Payload_Contract
begin

text \<open>
  The verification of an immutable dataset version (\<^verbatim>\<open>app/dataset_file_verification.py\<close> and
  \<^verbatim>\<open>verify_dataset_content\<close> of \<^verbatim>\<open>app/kaggle_adapter.py\<close>): the archive of the version is downloaded and compared,
  or, when the remote side has no archive, each file of the version, with a durable checkpoint per file. What
  the remote side answers, at each request, is an argument; a failing check (cancellation, deadline) is the end of
  what it answers.
\<close>

section \<open>The listing of a version\<close>

record listed =
  li_name :: "string option"
  li_size :: "int option"

text \<open>The continuation: none (or an empty one), a text, or anything else.\<close>

datatype token = No_token | Token string | Bad_token

record file_page =
  page_error :: bool
  page_files :: "listed list option"
  page_next :: token

datatype listing = Page_raised verify_exc | Page file_page

definition payload_error :: "string \<Rightarrow> verify_exc" where
  "payload_error m = Verify_other True m"

definition bad_listed :: "string \<Rightarrow> int \<Rightarrow> bool" where
  "bad_listed name bytes \<longleftrightarrow> name = [] \<or> CHR 0x5C \<in> set name \<or> CHR '':'' \<in> set name
     \<or> list_ex (\<lambda>p. p \<in> {[], ''.'', ''..''}) (split_on (CHR ''/'') name) \<or> bytes < 0"

fun add_listed :: "listed list \<Rightarrow> string list \<Rightarrow> int dict \<Rightarrow> verify_exc + string list \<times> int dict" where
  "add_listed [] names found = Inr (names, found)"
| "add_listed (x # xs) names found =
     (case (li_name x, li_size x) of
        (Some name, Some bytes) \<Rightarrow>
          if bad_listed name bytes \<or> lower name \<in> set names then Inl (payload_error ''payload_file_listing_invalid'')
          else add_listed xs (lower name # names) (AList.update name bytes found)
      | _ \<Rightarrow> Inl (payload_error ''payload_file_listing_invalid''))"

definition listing_limit :: int where "listing_limit = 100000"

definition read_page :: "file_page \<Rightarrow> string list \<times> int dict \<Rightarrow> verify_exc + string list \<times> int dict" where
  "read_page p st =
     (if page_error p then Inl (payload_error ''payload_file_listing_failed'')
      else case page_files p of
          None \<Rightarrow> Inl (payload_error ''payload_file_listing_missing'')
        | Some items \<Rightarrow>
            (case add_listed items (fst st) (snd st) of
               Inl e \<Rightarrow> Inl e
             | Inr st' \<Rightarrow> if listing_limit < int (length (snd st')) then Inl (payload_error ''payload_file_listing_limit'') else Inr st'))"

text \<open>
  \<open>api k t\<close> answers the request number \<open>k\<close> with continuation \<open>t\<close>. The loop has no bound of its own: \<^const>\<open>None\<close>
  is a listing that never ends.
\<close>

partial_function (option) list_from ::
  "(nat \<Rightarrow> string option \<Rightarrow> listing) \<Rightarrow> nat \<Rightarrow> string option \<Rightarrow> string list \<Rightarrow> string list \<times> int dict
   \<Rightarrow> (verify_exc + int dict) option" where
  [code]: "list_from api k t used st =
     (case api k t of
        Page_raised e \<Rightarrow> Some (Inl e)
      | Page p \<Rightarrow>
          (case read_page p st of
             Inl e \<Rightarrow> Some (Inl e)
           | Inr st' \<Rightarrow>
               (case page_next p of
                  No_token \<Rightarrow> Some (if snd st' = [] then Inl Verify_not_ready else Inr (snd st'))
                | Bad_token \<Rightarrow> Some (Inl (payload_error ''payload_file_listing_pagination_loop''))
                | Token t' \<Rightarrow>
                    if t' \<in> set used then Some (Inl (payload_error ''payload_file_listing_pagination_loop''))
                    else list_from api (k + 1) (Some t') (t' # used) st')))"

definition version_file_inventory :: "(nat \<Rightarrow> string option \<Rightarrow> listing) \<Rightarrow> (verify_exc + int dict) option" where
  "version_file_inventory api = list_from api 0 None [] ([], [])"

section \<open>The files of a version\<close>

record file_request =
  rq_owner :: string
  rq_slug :: string
  rq_version :: int
  rq_file :: string

text \<open>
  What happens at a file: a failing check before it, the batch's time is over, the blocks received and the
  failure that ended them, and the clock when the checkpoint is written.
\<close>

record fetched =
  f_interrupted :: "verify_exc option"
  f_out_of_time :: bool
  f_blocks :: "string list"
  f_failure :: "verify_exc option"
  f_marked :: time

fun read_stream :: "int \<Rightarrow> string \<Rightarrow> string list \<Rightarrow> verify_exc option \<Rightarrow> verify_exc + string" where
  "read_stream bytes acc [] failure =
     (case failure of
        Some e \<Rightarrow> Inl e
      | None \<Rightarrow> if size_of acc \<noteq> bytes then Inl (payload_error ''payload_size_mismatch'') else Inr acc)"
| "read_stream bytes acc (b # bs) failure =
     (if bytes < size_of (acc @ b) then Inl (payload_error ''payload_size_mismatch'')
      else read_stream bytes (acc @ b) bs failure)"

definition checkpoint_exc :: "checkpoint_error \<Rightarrow> verify_exc" where
  "checkpoint_exc e =
     (case e of
        Scope_mismatch \<Rightarrow> payload_error ''payload_checkpoint_scope_or_inventory_mismatch''
      | Checkpoint_invalid \<Rightarrow> payload_error ''payload_checkpoint_invalid''
      | File_mismatch \<Rightarrow> payload_error ''payload_checkpoint_file_mismatch''
      | Checkpoint_incomplete \<Rightarrow> payload_error ''payload_checkpoint_incomplete''
      | No_row \<Rightarrow> Verify_other False ''NoneType'')"

definition file_batch_limit :: nat where "file_batch_limit = 64"

definition batch_pending :: verify_exc where
  "batch_pending = Verify_deferred False progress_recheck_seconds"

text \<open>One file: its bytes are received, compared, and its checkpoint written.\<close>

definition verify_file ::
  "(string \<Rightarrow> string) \<Rightarrow> string \<Rightarrow> string \<Rightarrow> file_value \<Rightarrow> fetched \<Rightarrow> verification_db \<Rightarrow> (verify_exc + unit) \<times> verification_db" where
  "verify_file sha256 sc name v f db =
     (case read_stream (fst v) [] (f_blocks f) (f_failure f) of
        Inl e \<Rightarrow> (Inl e, db)
      | Inr b \<Rightarrow>
          if sha256 b \<noteq> snd v then (Inl (payload_error ''payload_digest_mismatch''), db)
          else (case mark_file (f_marked f) sc name v db of
              (Inl e, db') \<Rightarrow> (Inl (checkpoint_exc e), db')
            | (Inr _, db') \<Rightarrow> (Inr (), db')))"

text \<open>The loop over the expected files in order of name; \<open>n\<close> files were received in this pass.\<close>

fun verify_files ::
  "(string \<Rightarrow> string) \<Rightarrow> bool \<Rightarrow> string \<Rightarrow> (string \<Rightarrow> fetched) \<Rightarrow> file_value dict \<Rightarrow> nat \<Rightarrow> file_value dict
   \<Rightarrow> verification_db \<Rightarrow> (verify_exc + unit) \<times> verification_db" where
  "verify_files sha256 background sc fetch known n [] db = (Inr (), db)"
| "verify_files sha256 background sc fetch known n ((name, v) # xs) db =
     (let f = fetch name in
      case f_interrupted f of
        Some e \<Rightarrow> (Inl e, db)
      | None \<Rightarrow>
          if map_of known name \<noteq> None then verify_files sha256 background sc fetch known n xs db
          else if background \<and> (file_batch_limit \<le> n \<or> f_out_of_time f) then (Inl batch_pending, db)
          else (case verify_file sha256 sc name v f db of
              (Inl e, db') \<Rightarrow> (Inl e, db')
            | (Inr _, db') \<Rightarrow> verify_files sha256 background sc fetch known (n + 1) xs db'))"

text \<open>What the remote side answers during a pass: the first listing, the files, the last listing.\<close>

record pass =
  ps_first :: "string \<Rightarrow> nat \<Rightarrow> string option \<Rightarrow> listing"
  ps_loaded :: time
  ps_fetch :: "file_request \<Rightarrow> fetched"
  ps_last :: "string \<Rightarrow> nat \<Rightarrow> string option \<Rightarrow> listing"

record bound_version =
  bv_ref :: string
  bv_version :: int
  bv_dir :: string
  bv_digest :: string

definition wrong_sizes :: "int dict \<Rightarrow> file_value dict \<Rightarrow> bool" where
  "wrong_sizes actual expected \<longleftrightarrow> list_ex (\<lambda>(name, v). map_of actual name \<noteq> Some (fst v)) expected"

definition target_ref :: "bound_version \<Rightarrow> string" where
  "target_ref w = bv_ref w @ ''/'' @ int_text (bv_version w)"

definition request_of :: "bound_version \<Rightarrow> string \<Rightarrow> file_request" where
  "request_of w name =
     (case split_on (CHR ''/'') (bv_ref w) of
        owner # slug # _ \<Rightarrow> \<lparr>rq_owner = owner, rq_slug = slug, rq_version = bv_version w, rq_file = name\<rparr>
      | _ \<Rightarrow> \<lparr>rq_owner = [], rq_slug = [], rq_version = bv_version w, rq_file = name\<rparr>)"

text \<open>Two inventories are equal as dictionaries.\<close>

definition same_dict :: "int dict \<Rightarrow> int dict \<Rightarrow> bool" where
  "same_dict a b \<longleftrightarrow> set (map fst a) = set (map fst b) \<and> list_all (\<lambda>(k, _). map_of a k = map_of b k) a"

definition verify_listed_files ::
  "(string \<Rightarrow> string \<Rightarrow> string) \<Rightarrow> (string \<Rightarrow> string) \<Rightarrow> bool \<Rightarrow> bound_version \<Rightarrow> pass \<Rightarrow> int dict \<Rightarrow> file_value dict
   \<Rightarrow> verification_db \<Rightarrow> ((verify_exc + string) \<times> verification_db) option" where
  "verify_listed_files scope_of sha256 background w p actual expected db =
     (case load scope_of (ps_loaded p) (bv_ref w) (bv_version w) (bv_dir w) (bv_digest w) expected db of
        (Inl e, db1) \<Rightarrow> Some (Inl (checkpoint_exc e), db1)
      | (Inr (sc, known), db1) \<Rightarrow>
          (case verify_files sha256 background sc (\<lambda>name. ps_fetch p (request_of w name)) known 0 (encode_files expected) db1 of
             (Inl e, db2) \<Rightarrow> Some (Inl e, db2)
           | (Inr _, db2) \<Rightarrow>
               (case version_file_inventory (ps_last p (target_ref w)) of
                  None \<Rightarrow> None
                | Some (Inl e) \<Rightarrow> Some (Inl e, db2)
                | Some (Inr again) \<Rightarrow> Some (if same_dict again actual then Inr sc else Inl Verify_not_ready, db2))))"

definition verify_version_files ::
  "(string \<Rightarrow> string \<Rightarrow> string) \<Rightarrow> (string \<Rightarrow> string) \<Rightarrow> (string \<Rightarrow> archive) \<Rightarrow> dataset_tree \<Rightarrow> bool \<Rightarrow> bound_version \<Rightarrow> pass
   \<Rightarrow> verification_db \<Rightarrow> ((verify_exc + string) \<times> verification_db) option" where
  "verify_version_files scope_of sha256 unzip tree background w p db =
     (if bv_version w \<le> 0 then Some (Inl (payload_error ''payload_version_invalid''), db)
      else if length (split_on (CHR ''/'') (bv_ref w)) \<noteq> 2 then Some (Inl (Verify_other True ''values to unpack''), db)
      else case version_file_inventory (ps_first p (target_ref w)) of
          None \<Rightarrow> None
        | Some (Inl e) \<Rightarrow> Some (Inl e, db)
        | Some (Inr actual) \<Rightarrow>
            (case upload_content_inventory sha256 unzip tree (map fst actual) of
               Inl e \<Rightarrow> Some (Inl (payload_error e), db)
             | Inr expected \<Rightarrow>
                 if set (map fst actual) \<noteq> set (map fst expected) \<or> wrong_sizes actual expected
                 then Some (Inl Verify_not_ready, db)
                 else verify_listed_files scope_of sha256 background w p actual expected db))"

section \<open>The content of a version\<close>

text \<open>The response of a failed download: its status and its decoded body, if that is readable.\<close>

definition archive_url_missing :: "(int \<times> json option) option \<Rightarrow> bool" where
  "archive_url_missing response =
     (case response of
        Some (code, Some (JObj body)) \<Rightarrow>
          code = 404 \<and> (case map_of body ''error'' of
            Some (JObj err) \<Rightarrow> map_of err ''message'' = Some (JStr ''No gcs url found'')
          | _ \<Rightarrow> False)
      | _ \<Rightarrow> False)"

datatype download =
    Download_failed verify_exc "(int \<times> json option) option"
  | Downloaded "archive option"

record check_run =
  cr_digest :: "verify_exc + string"
  cr_identity :: "verify_exc + bool"
  cr_download :: download
  cr_pass :: pass
  cr_digest_after :: "verify_exc + string"
  cr_interrupted :: "verify_exc option"
  cr_completed :: time

definition adapter_error :: "string \<Rightarrow> verify_exc" where
  "adapter_error m = Verify_other False m"

definition verify_download ::
  "(string \<Rightarrow> string \<Rightarrow> string) \<Rightarrow> (string \<Rightarrow> string) \<Rightarrow> (string \<Rightarrow> archive) \<Rightarrow> dataset_tree \<Rightarrow> bool \<Rightarrow> bool \<Rightarrow> bound_version
   \<Rightarrow> check_run \<Rightarrow> verification_db \<Rightarrow> ((verify_exc + string option) \<times> verification_db) option" where
  "verify_download scope_of sha256 unzip tree archive_only background w r db =
     (case cr_download r of
        Download_failed e response \<Rightarrow>
          if \<not> archive_url_missing response then Some (Inl e, db)
          else if archive_only then Some (Inl (Verify_error Publication None None), db)
          else (case verify_version_files scope_of sha256 unzip tree background w (cr_pass r) db of
              None \<Rightarrow> None
            | Some (Inl e', db') \<Rightarrow> Some (Inl e', db')
            | Some (Inr sc, db') \<Rightarrow> Some (Inr (Some sc), db'))
      | Downloaded None \<Rightarrow> Some (Inl (adapter_error ''Dataset version archive missing''), db)
      | Downloaded (Some a) \<Rightarrow>
          (case verify_upload_archive sha256 unzip tree a of
             Inl e \<Rightarrow> Some (Inl (payload_error e), db)
           | Inr _ \<Rightarrow> Some (Inr None, db)))"

definition finish_check ::
  "bound_version \<Rightarrow> check_run \<Rightarrow> string option \<Rightarrow> verification_db \<Rightarrow> (verify_exc + unit) \<times> verification_db" where
  "finish_check w r scope db =
     (case cr_digest_after r of
        Inl e \<Rightarrow> (Inl e, db)
      | Inr digest \<Rightarrow>
          if digest \<noteq> bv_digest w then (Inl (adapter_error ''Dataset frozen content changed during verification''), db)
          else case cr_interrupted r of
              Some e \<Rightarrow> (Inl e, db)
            | None \<Rightarrow>
                (case scope of
                   None \<Rightarrow> (Inr (), db)
                 | Some sc \<Rightarrow>
                     (case mark_complete (cr_completed r) sc db of
                        (Inl e, db') \<Rightarrow> (Inl (checkpoint_exc e), db')
                      | (Inr _, db') \<Rightarrow> (Inr (), db'))))"

text \<open>The whole check of a version; the directory it is compared with does not change meanwhile.\<close>

definition verify_dataset_content ::
  "(string \<Rightarrow> string \<Rightarrow> string) \<Rightarrow> (string \<Rightarrow> string) \<Rightarrow> (string \<Rightarrow> archive) \<Rightarrow> dataset_tree \<Rightarrow> bool \<Rightarrow> bool \<Rightarrow> bound_version
   \<Rightarrow> check_run \<Rightarrow> verification_db \<Rightarrow> ((verify_exc + unit) \<times> verification_db) option" where
  "verify_dataset_content scope_of sha256 unzip tree archive_only background w r db =
     (if bv_version w \<le> 0 then Some (Inl (adapter_error ''Dataset exact version must be a positive integer''), db)
      else case cr_digest r of
          Inl e \<Rightarrow> Some (Inl e, db)
        | Inr digest \<Rightarrow>
            if digest \<noteq> bv_digest w then Some (Inl (adapter_error ''Dataset frozen content changed''), db)
            else case cr_identity r of
                Inl e \<Rightarrow> Some (Inl e, db)
              | Inr False \<Rightarrow> Some (Inl (adapter_error ''Kaggle owner identity rejected''), db)
              | Inr True \<Rightarrow>
                  (case verify_download scope_of sha256 unzip tree archive_only background w r db of
                     None \<Rightarrow> None
                   | Some (Inl e, db') \<Rightarrow> Some (Inl e, db')
                   | Some (Inr scope, db') \<Rightarrow> Some (finish_check w r scope db')))"

section \<open>Listings end\<close>

definition listed_ok :: "string list \<times> int dict \<Rightarrow> bool" where
  "listed_ok st \<longleftrightarrow> distinct (map fst (snd st)) \<and> set (fst st) = lower ` fst ` set (snd st)"

lemma add_listed_ok:
  assumes "add_listed items names found = Inr st" and "listed_ok (names, found)"
  shows "listed_ok st \<and> length (snd st) = length found + length items"
  using assms
proof (induction items names found rule: add_listed.induct)
  case (2 x xs names found)
  from "2.prems"(1) obtain name bytes where x: "li_name x = Some name" "li_size x = Some bytes"
    and n: "\<not> bad_listed name bytes" "lower name \<notin> set names"
    and r: "add_listed xs (lower name # names) (AList.update name bytes found) = Inr st"
    by (auto split: option.splits if_splits)
  have "lower name \<notin> lower ` fst ` set found" using n(2) "2.prems"(2) by (simp add: listed_ok_def)
  then have fresh: "name \<notin> fst ` set found" by blast
  have "listed_ok (lower name # names, AList.update name bytes found)"
    using "2.prems"(2) fresh by (auto simp: listed_ok_def update_fresh)
  from "2.IH" [OF refl x _ r this] n show ?case using fresh by (simp add: update_fresh)
qed auto

lemma read_page_ok:
  assumes "read_page p st = Inr st'" and "listed_ok st"
  shows "listed_ok st' \<and> int (length (snd st')) \<le> listing_limit
    \<and> (page_files p \<noteq> Some [] \<longrightarrow> length (snd st) < length (snd st'))"
proof -
  from assms(1) obtain items where i: "page_files p = Some items" "add_listed items (fst st) (snd st) = Inr st'"
    and l: "int (length (snd st')) \<le> listing_limit"
    by (auto simp: read_page_def split: if_splits option.splits sum.splits)
  from add_listed_ok [OF i(2)] assms(2) have "listed_ok st' \<and> length (snd st') = length (snd st) + length items" by simp
  with i(1) l show ?thesis by auto
qed

lemma listing_returns:
  assumes progress: "\<And>k t p t'. api k t = Page p \<Longrightarrow> page_next p = Token t' \<Longrightarrow> page_files p \<noteq> Some []"
    and "listed_ok st"
  shows "\<exists>res. list_from api k t used st = Some res"
  using assms(2)
proof (induction "nat listing_limit - length (snd st)" arbitrary: k t used st rule: less_induct)
  case less
  show ?case
  proof (cases "api k t")
    case (Page_raised e)
    then show ?thesis by (simp add: list_from.simps)
  next
    case p: (Page p)
    show ?thesis
    proof (cases "read_page p st")
      case (Inl e)
      with p show ?thesis by (simp add: list_from.simps)
    next
      case (Inr st')
      from read_page_ok [OF Inr less.prems] have ok: "listed_ok st'" "int (length (snd st')) \<le> listing_limit"
        and grow: "page_files p \<noteq> Some [] \<Longrightarrow> length (snd st) < length (snd st')" by auto
      have "\<exists>res. list_from api (k + 1) (Some t') (t' # used) st' = Some res" if "page_next p = Token t'" for t'
        using less.hyps [OF _ ok(1)] grow [OF progress [OF p that]] ok(2) by auto
      with p Inr show ?thesis by (cases "page_next p") (auto simp: list_from.simps)
    qed
  qed
qed

section \<open>Received files and their checkpoints\<close>

text \<open>The answer to a request carries all the bytes of a file with this size and digest.\<close>

definition received :: "(string \<Rightarrow> string) \<Rightarrow> fetched \<Rightarrow> file_value \<Rightarrow> bool" where
  "received sha256 f v \<longleftrightarrow> f_failure f = None \<and> size_of (concat (f_blocks f)) = fst v \<and> sha256 (concat (f_blocks f)) = snd v"

lemma read_stream_iff:
  "read_stream bytes acc bs failure = Inr b \<longleftrightarrow> failure = None \<and> b = acc @ concat bs \<and> size_of b = bytes"
  by (induction bytes acc bs failure rule: read_stream.induct) (auto simp: size_of_def split: option.split)

lemma read_stream_received: "(\<exists>b. read_stream (fst v) [] (f_blocks f) (f_failure f) = Inr b \<and> sha256 b = snd v) \<longleftrightarrow> received sha256 f v"
  by (auto simp: read_stream_iff received_def)

lemma find_update [simp]:
  assumes "\<And>c. cand_scope (f c) = cand_scope c"
  shows "find_candidate (update_candidate sc f db) sc' = map_option (if sc' = sc then f else id) (find_candidate db sc')"
proof -
  have "find (\<lambda>c. cand_scope c = sc') (map (\<lambda>c. if cand_scope c = sc then f c else c) cs)
      = map_option (if sc' = sc then f else id) (find (\<lambda>c. cand_scope c = sc') cs)" for cs
    using assms by (induction cs) auto
  then show ?thesis by (simp add: find_candidate_def update_candidate_def)
qed

lemma note_file_frame [simp]:
  "cand_scope (note_file now name v c) = cand_scope c" "cand_binding (note_file now name v c) = cand_binding c"
  "cand_expected (note_file now name v c) = cand_expected c"
  by (simp_all add: note_file_def Let_def)

lemma set_update_below: "set (AList.update k v d) \<subseteq> insert (k, v) (set d)"
  by (induction d) auto

lemma note_file_marks: "set (cand_verified (note_file now name v c)) \<subseteq> insert (name, v) (set (cand_verified c))"
  using set_update_below by (simp add: note_file_def Let_def)

lemma note_file_fresh:
  assumes "name \<notin> fst ` set (cand_verified c)"
  shows "length (cand_verified (note_file now name v c)) = Suc (length (cand_verified c))"
    and "fst ` set (cand_verified (note_file now name v c)) = insert name (fst ` set (cand_verified c))"
  using assms by (simp_all add: note_file_def Let_def update_fresh)

lemma verify_file_cases:
  assumes "verify_file sha256 sc name v f db = (r, db')"
  shows "(\<exists>e. r = Inl e) \<and> db' = db
    \<or> r = Inr () \<and> received sha256 f v \<and> db' = snd (mark_file (f_marked f) sc name v db)
      \<and> fst (mark_file (f_marked f) sc name v db) = Inr ()"
proof (cases "read_stream (fst v) [] (f_blocks f) (f_failure f)")
  case (Inl e)
  with assms show ?thesis by (auto simp: verify_file_def)
next
  case (Inr b)
  with read_stream_received [of v f sha256] have "sha256 b = snd v \<Longrightarrow> received sha256 f v" by blast
  with Inr assms show ?thesis
    by (auto simp: verify_file_def mark_file_def split: if_splits option.splits)
qed

text \<open>Every file marked in a checkpoint has been received, at the version of the checkpoint.\<close>

definition backed :: "(string \<Rightarrow> string) \<Rightarrow> (file_request \<times> fetched) set \<Rightarrow> verification_db \<Rightarrow> bool" where
  "backed sha256 S db \<longleftrightarrow>
     (\<forall>c \<in> set (candidates db). \<forall>ref version dir digest name v.
        cand_binding c = (ref, version, dir, digest) \<longrightarrow> (name, v) \<in> set (cand_verified c) \<longrightarrow>
        (\<exists>f. (request_of \<lparr>bv_ref = ref, bv_version = version, bv_dir = dir, bv_digest = digest\<rparr> name, f) \<in> S \<and> received sha256 f v))"

definition bound_to :: "bound_version \<Rightarrow> candidate \<Rightarrow> bool" where
  "bound_to w c \<longleftrightarrow> cand_binding c = (bv_ref w, bv_version w, bv_dir w, bv_digest w)"

lemma backed_mono: "backed sha256 S db \<Longrightarrow> S \<subseteq> T \<Longrightarrow> backed sha256 T db"
  unfolding backed_def by (meson subsetD)

lemma backed_mark:
  assumes "backed sha256 S db" and "store_ok db" and "find_candidate db sc = Some c" and "bound_to w c"
    and "(request_of w name, f) \<in> S" and "received sha256 f v"
  shows "backed sha256 S (snd (mark_file now sc name v db))"
proof (cases "map_of (cand_expected c) name = Some v")
  case True
  have only: "x = c" if "x \<in> set (candidates db)" "cand_scope x = sc" for x
    using find_candidate_only [OF assms(2) that(1)] assms(3) that(2) by simp
  have w: "w = \<lparr>bv_ref = bv_ref w, bv_version = bv_version w, bv_dir = bv_dir w, bv_digest = bv_digest w\<rparr>" by simp
  show ?thesis
    unfolding backed_def
  proof (intro ballI allI impI)
    fix x ref version dir digest n u
    assume x: "x \<in> set (candidates (snd (mark_file now sc name v db)))"
      and b: "cand_binding x = (ref, version, dir, digest)" and m: "(n, u) \<in> set (cand_verified x)"
    from x obtain y where y: "y \<in> set (candidates db)"
      and xy: "x = (if cand_scope y = sc then note_file now name v y else y)"
      using assms(3) True by (auto simp: mark_file_def update_candidate_def)
    show "\<exists>f. (request_of \<lparr>bv_ref = ref, bv_version = version, bv_dir = dir, bv_digest = digest\<rparr> n, f) \<in> S \<and> received sha256 f u"
    proof (cases "cand_scope y = sc \<and> (n, u) = (name, v)")
      case True
      then have "y = c" using only y by simp
      with b xy True assms(4) have "w = \<lparr>bv_ref = ref, bv_version = version, bv_dir = dir, bv_digest = digest\<rparr>"
        by (simp add: bound_to_def)
      with True assms(5,6) show ?thesis by auto
    next
      case False
      then have "(n, u) \<in> set (cand_verified y)" using m xy note_file_marks by (fastforce split: if_splits)
      moreover have "cand_binding y = (ref, version, dir, digest)" using b xy by (simp split: if_splits)
      ultimately show ?thesis using assms(1) y unfolding backed_def by blast
    qed
  qed
qed (use assms(1,3) in \<open>simp add: mark_file_def\<close>)

lemma mark_file_find:
  assumes "find_candidate db sc = Some c"
  shows "\<exists>c'. find_candidate (snd (mark_file now sc name v db)) sc = Some c'
    \<and> cand_binding c' = cand_binding c \<and> cand_expected c' = cand_expected c"
  using assms by (simp add: mark_file_def)

lemma verify_files_store:
  assumes "verify_files sha256 background sc fetch known n xs db = (r, db')" and "store_ok db"
  shows "store_ok db'"
  using assms
proof (induction xs arbitrary: n db)
  case (Cons x xs)
  obtain name v where x: "x = (name, v)" by (cases x)
  obtain r1 db1 where v: "verify_file sha256 sc name v (fetch name) db = (r1, db1)" by fastforce
  have "store_ok (snd (mark_file (f_marked (fetch name)) sc name v db))"
    by (rule check_step_ok [OF check_step.marking Cons.prems(2)])
  then have "store_ok db1" using verify_file_cases [OF v] Cons.prems(2) by auto
  with Cons v x show ?case by (auto simp: Let_def split: option.splits if_splits sum.splits)
qed simp

lemma verify_files_sound:
  assumes "verify_files sha256 background sc (\<lambda>name. fetch (request_of w name)) known n xs db = (r, db')"
    and "store_ok db" and "backed sha256 S db" and "find_candidate db sc = Some c" and "bound_to w c"
    and "range (\<lambda>rq. (rq, fetch rq)) \<subseteq> S"
  shows "store_ok db' \<and> backed sha256 S db'
    \<and> (r = Inr () \<longrightarrow> (\<forall>(name, v) \<in> set xs. map_of known name \<noteq> None \<or> received sha256 (fetch (request_of w name)) v))"
  using assms(1-5)
proof (induction xs arbitrary: n db c)
  case (Cons x xs)
  obtain name v where x: "x = (name, v)" by (cases x)
  let ?f = "fetch (request_of w name)"
  show ?case
  proof (cases "f_interrupted ?f = None \<and> map_of known name = None
      \<and> \<not> (background \<and> (file_batch_limit \<le> n \<or> f_out_of_time ?f))")
    case False
    then consider e where "f_interrupted ?f = Some e" | "f_interrupted ?f = None" "map_of known name \<noteq> None"
      | "r = Inl batch_pending" "db' = db"
      using Cons.prems(1) x by (auto simp: Let_def split: option.splits if_splits)
    then show ?thesis
    proof cases
      case 2
      then have "verify_files sha256 background sc (\<lambda>name. fetch (request_of w name)) known n xs db = (r, db')"
        using Cons.prems(1) x by simp
      from Cons.IH [OF this Cons.prems(2-5)] 2 x show ?thesis by auto
    qed (use Cons.prems x in \<open>auto simp: Let_def\<close>)
  next
    case True
    obtain r1 db1 where v: "verify_file sha256 sc name v ?f db = (r1, db1)" by fastforce
    show ?thesis
    proof (cases "r1 = Inr ()")
      case False
      with verify_file_cases [OF v] obtain e where "r1 = Inl e" "db1 = db" by auto
      with True v Cons.prems x show ?thesis by (auto simp: Let_def)
    next
      case ok: True
      from verify_file_cases [OF v] ok have rc: "received sha256 ?f v"
        and d: "db1 = snd (mark_file (f_marked ?f) sc name v db)" by auto
      have s: "store_ok db1" using d check_step_ok [OF check_step.marking Cons.prems(2)] by simp
      have "(request_of w name, ?f) \<in> S" using assms(6) by blast
      then have b: "backed sha256 S db1" unfolding d by (rule backed_mark [OF Cons.prems(3,2,4,5) _ rc])
      from mark_file_find [OF Cons.prems(4)] obtain c' where
        c': "find_candidate db1 sc = Some c'" "cand_binding c' = cand_binding c" unfolding d by blast
      have bw: "bound_to w c'" using c'(2) Cons.prems(5) by (simp add: bound_to_def)
      have run: "verify_files sha256 background sc (\<lambda>name. fetch (request_of w name)) known (n + 1) xs db1 = (r, db')"
        using Cons.prems(1) True v ok x by (simp add: Let_def)
      from Cons.IH [OF run s b c'(1) bw] rc x show ?thesis by auto
    qed
  qed
qed auto

section \<open>Samples\<close>

definition sample_loose :: dataset_tree where
  "sample_loose = \<lparr>root_link = False, payload_link = False, payload = None, entries =
     [\<lparr>entry_path = ''b.txt'', entry_name = ''b.txt'', entry_link = False, entry_file = True, entry_bytes = ''yz''\<rparr>,
      \<lparr>entry_path = ''a.txt'', entry_name = ''a.txt'', entry_link = False, entry_file = True, entry_bytes = ''x''\<rparr>,
      \<lparr>entry_path = ''dataset-metadata.json'', entry_name = ''dataset-metadata.json'', entry_link = False, entry_file = True,
       entry_bytes = ''{}''\<rparr>]\<rparr>"

definition sample_version :: bound_version where
  "sample_version = \<lparr>bv_ref = ''u/d'', bv_version = 3, bv_dir = ''dir'', bv_digest = ''s''\<rparr>"

definition sample_listing :: "string \<Rightarrow> nat \<Rightarrow> string option \<Rightarrow> listing" where
  "sample_listing target k t =
     Page \<lparr>page_error = False,
       page_files = Some [\<lparr>li_name = Some (if t = None then ''a.txt'' else ''b.txt''), li_size = Some (if t = None then 1 else 2)\<rparr>],
       page_next = (if t = None then Token ''next'' else No_token)\<rparr>"

definition sample_fetch :: "file_request \<Rightarrow> fetched" where
  "sample_fetch rq = \<lparr>f_interrupted = None, f_out_of_time = False,
     f_blocks = (if rq_file rq = ''a.txt'' then [''x''] else [''y'', ''z'']), f_failure = None, f_marked = 5\<rparr>"

definition sample_check :: check_run where
  "sample_check = \<lparr>cr_digest = Inr ''s'', cr_identity = Inr True,
     cr_download = Download_failed (Verify_response 404 None)
       (Some (404, Some (JObj [(''error'', JObj [(''message'', JStr ''No gcs url found'')])]))),
     cr_pass = \<lparr>ps_first = sample_listing, ps_loaded = 4, ps_fetch = sample_fetch, ps_last = sample_listing\<rparr>,
     cr_digest_after = Inr ''s'', cr_interrupted = None, cr_completed = 9\<rparr>"

section \<open>A check refines steps of the store\<close>

lemma find_appended:
  assumes "find_candidate db sc = None" and "cand_scope c = sc"
  shows "find_candidate (db\<lparr>candidates := candidates db @ [c]\<rparr>) sc = Some c"
proof -
  have "find P xs = None \<Longrightarrow> P c \<Longrightarrow> find P (xs @ [c]) = Some c" for P :: "candidate \<Rightarrow> bool" and xs
    by (induction xs) auto
  with assms show ?thesis by (simp add: find_candidate_def)
qed

lemma load_sound:
  assumes "load scope_of now (bv_ref w) (bv_version w) (bv_dir w) (bv_digest w) expected db = (r, db1)"
    and "store_ok db" and "backed sha256 S db" and "distinct (map fst expected)"
  shows "store_ok db1 \<and> backed sha256 S db1
    \<and> (\<forall>sc known. r = Inr (sc, known) \<longrightarrow> (\<exists>c. find_candidate db1 sc = Some c \<and> bound_to w c
         \<and> cand_expected c = encode_files expected \<and> cand_verified c = known \<and> sc = scope_of (bv_ref w) (bv_dir w)))"
proof -
  have d: "db1 = snd (load scope_of now (bv_ref w) (bv_version w) (bv_dir w) (bv_digest w) expected db)" using assms(1) by simp
  have s: "store_ok db1" unfolding d by (rule check_step_ok [OF check_step.loading [OF assms(4)] assms(2)])
  show ?thesis
  proof (cases "find_candidate db (scope_of (bv_ref w) (bv_dir w))")
    case None
    have "backed sha256 S db1" using assms(1,3) None by (auto simp: load_def Let_def backed_def new_candidate_def)
    with s show ?thesis using assms(1) None by (auto simp: load_def Let_def bound_to_def new_candidate_def find_appended)
  next
    case (Some c)
    with s assms(1,3) show ?thesis by (auto simp: load_def Let_def bound_to_def split: if_splits)
  qed
qed

lemma complete_sound:
  assumes "store_ok db" and "backed sha256 S db"
  shows "store_ok (snd (mark_complete now sc db)) \<and> backed sha256 S (snd (mark_complete now sc db))"
proof -
  have "backed sha256 S (update_candidate sc (\<lambda>c. if all_counted c then c\<lparr>finished_flag := 1, cand_updated := now\<rparr> else c) db)"
    using assms(2) by (auto simp: backed_def update_candidate_def split: if_splits)
  then show ?thesis
    using assms(2) check_step_ok [OF check_step.completing assms(1)] by (auto simp: mark_complete_def)
qed

text \<open>What one check has been answered.\<close>

definition answers :: "check_run \<Rightarrow> (file_request \<times> fetched) set" where
  "answers r = range (\<lambda>rq. (rq, ps_fetch (cr_pass r) rq))"

text \<open>The files of a version agree with the dataset directory, and each has been received at that version.\<close>

definition files_accepted ::
  "(string \<Rightarrow> string) \<Rightarrow> (string \<Rightarrow> archive) \<Rightarrow> dataset_tree \<Rightarrow> bound_version \<Rightarrow> check_run \<Rightarrow> (file_request \<times> fetched) set \<Rightarrow> bool" where
  "files_accepted sha256 unzip tree w r S \<longleftrightarrow>
     (\<exists>actual again expected.
        version_file_inventory (ps_first (cr_pass r) (target_ref w)) = Some (Inr actual)
        \<and> version_file_inventory (ps_last (cr_pass r) (target_ref w)) = Some (Inr again) \<and> same_dict again actual
        \<and> upload_content_inventory sha256 unzip tree (map fst actual) = Inr expected
        \<and> fst ` set actual = fst ` set expected
        \<and> (\<forall>(name, v) \<in> set expected. map_of actual name = Some (fst v)
             \<and> (\<exists>f. (request_of w name, f) \<in> S \<and> received sha256 f v)))"

lemma listed_files_sound:
  assumes "verify_listed_files scope_of sha256 background w p actual expected db = Some (res, db')"
    and "store_ok db" and "backed sha256 S db" and "distinct (map fst expected)"
    and "range (\<lambda>rq. (rq, ps_fetch p rq)) \<subseteq> S"
  shows "store_ok db' \<and> backed sha256 S db'
    \<and> (\<forall>sc. res = Inr sc \<longrightarrow> sc = scope_of (bv_ref w) (bv_dir w)
        \<and> (\<exists>again. version_file_inventory (ps_last p (target_ref w)) = Some (Inr again) \<and> same_dict again actual)
        \<and> (\<forall>(name, v) \<in> set expected. \<exists>f. (request_of w name, f) \<in> S \<and> received sha256 f v))"
proof -
  obtain r1 db1 where l: "load scope_of (ps_loaded p) (bv_ref w) (bv_version w) (bv_dir w) (bv_digest w) expected db = (r1, db1)"
    by fastforce
  note ls = load_sound [OF l assms(2-4)]
  show ?thesis
  proof (cases r1)
    case (Inl e)
    with assms(1) l ls show ?thesis by (auto simp: verify_listed_files_def)
  next
    case (Inr k)
    obtain sc known where k: "k = (sc, known)" by (cases k)
    from ls Inr k obtain c where c: "find_candidate db1 sc = Some c" "bound_to w c" "cand_expected c = encode_files expected"
        "cand_verified c = known" "sc = scope_of (bv_ref w) (bv_dir w)" by blast
    obtain r2 db2 where v: "verify_files sha256 background sc (\<lambda>name. ps_fetch p (request_of w name)) known 0 (encode_files expected) db1
        = (r2, db2)" by fastforce
    from ls have s1: "store_ok db1" "backed sha256 S db1" by auto
    note vs = verify_files_sound [OF v s1 c(1,2) assms(5)]
    have db': "db' = db2" using assms(1) l Inr k v by (auto simp: verify_listed_files_def split: sum.splits option.splits)
    have each: "\<exists>f. (request_of w name, f) \<in> S \<and> received sha256 f u" if "r2 = Inr ()" "(name, u) \<in> set expected" for name u
    proof (cases "map_of known name")
      case None
      then have "received sha256 (ps_fetch p (request_of w name)) u" using vs that by auto
      then show ?thesis using assms(5) by blast
    next
      case (Some u')
      have ok: "checkpoint_ok c" using find_candidateD [OF c(1)] s1(1) by (auto simp: store_ok_def list_all_iff)
      have "(name, u') \<in> set known" using Some by (rule map_of_SomeD)
      moreover from this have "(name, u') \<in> set expected" using verified_subset [OF ok] c(3,4) by auto
      then have "u' = u" using that(2) assms(4) by (metis eq_key_imp_eq_value)
      ultimately show ?thesis
        using s1(2) find_candidateD [OF c(1)] c(2,4) unfolding backed_def bound_to_def
        by (metis bound_version.surjective old.unit.exhaust)
    qed
    have ok: "r2 = Inr () \<and> sc' = sc \<and> (\<exists>again. version_file_inventory (ps_last p (target_ref w)) = Some (Inr again) \<and> same_dict again actual)"
      if "res = Inr sc'" for sc'
      using that assms(1) l Inr k v by (auto simp: verify_listed_files_def split: sum.splits option.splits if_splits)
    have "res = Inr sc' \<longrightarrow> sc' = scope_of (bv_ref w) (bv_dir w)
        \<and> (\<exists>again. version_file_inventory (ps_last p (target_ref w)) = Some (Inr again) \<and> same_dict again actual)
        \<and> (\<forall>(name, v) \<in> set expected. \<exists>f. (request_of w name, f) \<in> S \<and> received sha256 f v)" for sc'
      using ok [of sc'] each c(5) by auto
    with vs db' show ?thesis by blast
  qed
qed

lemma version_files_sound:
  assumes "verify_version_files scope_of sha256 unzip tree background w (cr_pass r) db = Some (res, db')"
    and "store_ok db" and "backed sha256 S db" and "answers r \<subseteq> S"
  shows "store_ok db' \<and> backed sha256 S db' \<and> (\<forall>sc. res = Inr sc \<longrightarrow> files_accepted sha256 unzip tree w r S)"
proof (cases "\<exists>actual expected. version_file_inventory (ps_first (cr_pass r) (target_ref w)) = Some (Inr actual)
    \<and> upload_content_inventory sha256 unzip tree (map fst actual) = Inr expected
    \<and> fst ` set actual = fst ` set expected \<and> \<not> wrong_sizes actual expected
    \<and> verify_listed_files scope_of sha256 background w (cr_pass r) actual expected db = Some (res, db')")
  case False
  with assms(1) have "db' = db \<and> (\<exists>e. res = Inl e)"
    by (auto simp: verify_version_files_def split: if_splits option.splits sum.splits)
  with assms(2,3) show ?thesis by auto
next
  case True
  then obtain actual expected where
    a: "version_file_inventory (ps_first (cr_pass r) (target_ref w)) = Some (Inr actual)"
      "upload_content_inventory sha256 unzip tree (map fst actual) = Inr expected"
      "fst ` set actual = fst ` set expected" "\<not> wrong_sizes actual expected"
      "verify_listed_files scope_of sha256 background w (cr_pass r) actual expected db = Some (res, db')" by blast
  have sizes: "\<forall>(name, v) \<in> set expected. map_of actual name = Some (fst v)"
    using a(4) by (auto simp: wrong_sizes_def list_ex_iff)
  note l = listed_files_sound [OF a(5) assms(2,3) upload_inventory_distinct [OF a(2)] assms(4) [unfolded answers_def]]
  have "files_accepted sha256 unzip tree w r S" if "res = Inr sc" for sc
    using l that a(1-3) sizes unfolding files_accepted_def by fastforce
  with l show ?thesis by blast
qed

text \<open>The archive of the version was downloaded and holds exactly the dataset directory.\<close>

definition archive_accepted :: "(string \<Rightarrow> string) \<Rightarrow> (string \<Rightarrow> archive) \<Rightarrow> dataset_tree \<Rightarrow> check_run \<Rightarrow> bool" where
  "archive_accepted sha256 unzip tree r \<longleftrightarrow>
     (\<exists>a. cr_download r = Downloaded (Some a) \<and> verify_upload_archive sha256 unzip tree a = Inr ())"

lemma content_sound:
  assumes "verify_dataset_content scope_of sha256 unzip tree archive_only background w r db = Some (res, db')"
    and "store_ok db" and "backed sha256 S db" and "answers r \<subseteq> S"
  shows "store_ok db' \<and> backed sha256 S db'
    \<and> (res = Inr () \<longrightarrow> 0 < bv_version w \<and> cr_digest r = Inr (bv_digest w) \<and> cr_digest_after r = Inr (bv_digest w)
        \<and> cr_identity r = Inr True
        \<and> (archive_accepted sha256 unzip tree r \<or> \<not> archive_only \<and> files_accepted sha256 unzip tree w r S))"
proof (cases "0 < bv_version w \<and> cr_digest r = Inr (bv_digest w) \<and> cr_identity r = Inr True")
  case False
  with assms(1) have "db' = db \<and> res \<noteq> Inr ()"
    by (auto simp: verify_dataset_content_def split: if_splits sum.splits bool.splits)
  with assms(2,3) show ?thesis by auto
next
  case True
  then obtain r1 db1 where d: "verify_download scope_of sha256 unzip tree archive_only background w r db = Some (r1, db1)"
    using assms(1) by (auto simp: verify_dataset_content_def split: option.splits)
  have d_ok: "store_ok db1 \<and> backed sha256 S db1 \<and> (\<forall>scope. r1 = Inr scope \<longrightarrow>
      archive_accepted sha256 unzip tree r \<or> \<not> archive_only \<and> files_accepted sha256 unzip tree w r S)"
  proof (cases "cr_download r")
    case (Download_failed e response)
    with d assms(2,3) show ?thesis
      by (auto simp: verify_download_def split: if_splits option.splits sum.splits
          dest!: version_files_sound [OF _ assms(2-4)])
  next
    case (Downloaded a)
    with d assms(2,3) show ?thesis
      by (cases a) (auto simp: verify_download_def archive_accepted_def split: sum.splits)
  qed
  show ?thesis
  proof (cases r1)
    case (Inl e)
    with True assms(1) d d_ok show ?thesis by (auto simp: verify_dataset_content_def)
  next
    case (Inr scope)
    with True assms(1) d have f: "finish_check w r scope db1 = (res, db')" by (auto simp: verify_dataset_content_def)
    have "store_ok db' \<and> backed sha256 S db' \<and> (res = Inr () \<longrightarrow> cr_digest_after r = Inr (bv_digest w))"
      using f d_ok complete_sound [of db1 sha256 S "cr_completed r"]
      by (auto simp: finish_check_def split: sum.splits if_splits option.splits prod.splits) (metis prod.sel(2))+
    with True d_ok Inr show ?thesis by blast
  qed
qed

section \<open>Any number of interrupted checks\<close>

text \<open>
  Checks of any datasets and versions, one after the other, each as the remote side answers it, and all that
  was received so far.
\<close>

inductive checks ::
  "(string \<Rightarrow> string \<Rightarrow> string) \<Rightarrow> (string \<Rightarrow> string) \<Rightarrow> (string \<Rightarrow> archive) \<Rightarrow> verification_db \<Rightarrow> (file_request \<times> fetched) set \<Rightarrow> bool"
  for scope_of sha256 unzip where
  empty_store: "candidates db = [] \<Longrightarrow> checks scope_of sha256 unzip db {}"
| one_check: "checks scope_of sha256 unzip db S
     \<Longrightarrow> verify_dataset_content scope_of sha256 unzip tree archive_only background w r db = Some (res, db')
     \<Longrightarrow> checks scope_of sha256 unzip db' (S \<union> answers r)"

lemma checks_backed: "checks scope_of sha256 unzip db S \<Longrightarrow> store_ok db \<and> backed sha256 S db"
proof (induction rule: checks.induct)
  case (empty_store db)
  then show ?case by (simp add: store_ok_def backed_def)
next
  case (one_check db S tree archive_only background w r res db')
  then show ?case using content_sound [OF one_check.hyps(2), of "S \<union> answers r"] backed_mono by blast
qed

text \<open>
  C4: A version is accepted only for its bytes: after any checks, interrupted anywhere and resumed from their
  checkpoints, a check that succeeds found the frozen directory unchanged before and after, and either the
  downloaded archive of the version holds exactly that directory, or the version's listing, read before and
  after, names exactly the expected files with their sizes and each file was received in full, by a request
  for this very version in this or an earlier check, with the expected size and digest.
\<close>

theorem accepted_version_was_received:
  assumes "checks scope_of sha256 unzip db S"
    and "verify_dataset_content scope_of sha256 unzip tree archive_only background w r db = Some (Inr (), db')"
  shows "cr_digest r = Inr (bv_digest w) \<and> cr_digest_after r = Inr (bv_digest w) \<and> cr_identity r = Inr True
    \<and> (archive_accepted sha256 unzip tree r
       \<or> \<not> archive_only \<and> files_accepted sha256 unzip tree w r (S \<union> answers r))"
  using content_sound [OF assms(2), of "S \<union> answers r"] checks_backed [OF assms(1)] backed_mono by blast

lemma accepted_version_was_received_witness:
  "\<exists>r w db'. verify_dataset_content (\<lambda>a d. a @ d) (\<lambda>b. b) sample_unzip sample_loose False True w r \<lparr>candidates = [], accounts = []\<rparr>
       = Some (Inr (), db')
     \<and> files_accepted (\<lambda>b. b) sample_unzip sample_loose w r (answers r)"
proof -
  have c: "checks (\<lambda>a d. a @ d) (\<lambda>b. b) sample_unzip \<lparr>candidates = [], accounts = []\<rparr> {}" by (rule checks.empty_store) simp
  have "map_option fst (verify_dataset_content (\<lambda>a d. a @ d) (\<lambda>b. b) sample_unzip sample_loose False True sample_version
      sample_check \<lparr>candidates = [], accounts = []\<rparr>) = Some (Inr ())" by code_simp
  then obtain db' where v: "verify_dataset_content (\<lambda>a d. a @ d) (\<lambda>b. b) sample_unzip sample_loose False True sample_version sample_check
      \<lparr>candidates = [], accounts = []\<rparr> = Some (Inr (), db')" by auto
  have "\<not> archive_accepted (\<lambda>b. b) sample_unzip sample_loose sample_check"
    by (simp add: archive_accepted_def sample_check_def)
  with accepted_version_was_received [OF c v] v show ?thesis by auto
qed

section \<open>Background checks finish\<close>

text \<open>The file is received in full, before the batch's time is over.\<close>

definition good_file :: "(string \<Rightarrow> string) \<Rightarrow> fetched \<Rightarrow> file_value \<Rightarrow> bool" where
  "good_file sha256 f v \<longleftrightarrow> f_interrupted f = None \<and> \<not> f_out_of_time f \<and> received sha256 f v"

definition pending_files :: "file_value dict \<Rightarrow> file_value dict \<Rightarrow> file_value dict" where
  "pending_files known xs = filter (\<lambda>(name, v). map_of known name = None) xs"

lemma pending_simps [simp]:
  "pending_files known [] = []"
  "pending_files known ((name, v) # xs) = (if map_of known name = None then [(name, v)] else []) @ pending_files known xs"
  by (simp_all add: pending_files_def)

lemma verify_file_good:
  assumes "received sha256 f v" and "find_candidate db sc = Some c" and "map_of (cand_expected c) name = Some v"
  shows "verify_file sha256 sc name v f db = (Inr (), update_candidate sc (note_file (f_marked f) name v) db)"
proof -
  from assms(1) obtain b where "read_stream (fst v) [] (f_blocks f) (f_failure f) = Inr b" "sha256 b = snd v"
    using read_stream_received [of v f sha256] by blast
  with assms(2,3) show ?thesis by (simp add: verify_file_def mark_file_def)
qed

lemma verify_files_progress:
  assumes "find_candidate db sc = Some c"
    and "\<forall>(name, v) \<in> set xs. map_of (cand_expected c) name = Some v \<and> good_file sha256 (fetch name) v"
    and "distinct (map fst xs)" and "fst ` set (pending_files known xs) \<inter> fst ` set (cand_verified c) = {}"
    and "n \<le> file_batch_limit"
  shows "\<exists>db' c'. verify_files sha256 True sc fetch known n xs db
        = (if n + length (pending_files known xs) \<le> file_batch_limit then Inr () else Inl batch_pending, db')
      \<and> find_candidate db' sc = Some c' \<and> cand_binding c' = cand_binding c \<and> cand_expected c' = cand_expected c
      \<and> length (cand_verified c') = length (cand_verified c) + min (file_batch_limit - n) (length (pending_files known xs))"
  using assms
proof (induction xs arbitrary: n db c)
  case (Cons x xs)
  obtain name v where x: "x = (name, v)" by (cases x)
  have good: "f_interrupted (fetch name) = None" "\<not> f_out_of_time (fetch name)" "received sha256 (fetch name) v"
    and e: "map_of (cand_expected c) name = Some v"
    using Cons.prems(2) x by (auto simp: good_file_def)
  consider "map_of known name \<noteq> None" | "map_of known name = None" "n = file_batch_limit"
    | "map_of known name = None" "n < file_batch_limit" using Cons.prems(5) by linarith
  then show ?case
  proof cases
    case 1
    then obtain u where "map_of known name = Some u" by blast
    with Cons.IH [OF Cons.prems(1), of n] Cons.prems x good(1) show ?thesis by (simp add: Let_def)
  next
    case 2
    with Cons.prems x good(1) show ?thesis by (simp add: Let_def)
  next
    case 3
    let ?c = "note_file (f_marked (fetch name)) name v c"
    let ?db = "update_candidate sc (note_file (f_marked (fetch name)) name v) db"
    have fresh: "name \<notin> fst ` set (cand_verified c)" using Cons.prems(4) 3(1) x by auto
    have out: "name \<notin> fst ` set xs" using Cons.prems(3) x by simp
    then have "name \<notin> fst ` set (pending_files known xs)" by (auto simp: pending_files_def)
    then have disj: "fst ` set (pending_files known xs) \<inter> fst ` set (cand_verified ?c) = {}"
      using Cons.prems(4) x 3(1) by (simp add: note_file_fresh(2) [OF fresh])
    have c1: "find_candidate ?db sc = Some ?c" using Cons.prems(1) by simp
    have xs: "\<forall>(name, v) \<in> set xs. map_of (cand_expected ?c) name = Some v \<and> good_file sha256 (fetch name) v"
      using Cons.prems(2) by simp
    have step: "verify_files sha256 True sc fetch known n (x # xs) db = verify_files sha256 True sc fetch known (n + 1) xs ?db"
      using 3 x good(1,2) verify_file_good [OF good(3) Cons.prems(1) e] by (simp add: Let_def)
    have "distinct (map fst xs)" "n + 1 \<le> file_batch_limit" using Cons.prems(3) 3(2) by simp_all
    from Cons.IH [OF c1 xs this(1) disj this(2)] obtain db' c' where
      r: "verify_files sha256 True sc fetch known (n + 1) xs ?db
          = (if n + 1 + length (pending_files known xs) \<le> file_batch_limit then Inr () else Inl batch_pending, db')"
        "find_candidate db' sc = Some c'" "cand_binding c' = cand_binding ?c" "cand_expected c' = cand_expected ?c"
        "length (cand_verified c') = length (cand_verified ?c) + min (file_batch_limit - (n + 1)) (length (pending_files known xs))"
      by blast
    have "length (cand_verified c') = length (cand_verified c)
        + min (file_batch_limit - n) (Suc (length (pending_files known xs)))"
      using r(5) 3(2) by (simp add: note_file_fresh(1) [OF fresh])
    with r(1-4) step x 3(1) show ?thesis by simp
  qed
qed auto

lemma pending_length:
  assumes "distinct (map fst expected)" and "distinct (map fst known)" and "set known \<subseteq> set expected"
  shows "length (pending_files known expected) + length known = length expected"
proof -
  have "{x \<in> set expected. \<not> (case x of (name, v) \<Rightarrow> map_of known name = None)} = set known"
  proof (intro set_eqI iffI)
    fix x
    assume "x \<in> {x \<in> set expected. \<not> (case x of (name, v) \<Rightarrow> map_of known name = None)}"
    moreover obtain name v where "x = (name, v)" by (cases x)
    ultimately obtain u where x: "x = (name, v)" "(name, v) \<in> set expected" "map_of known name = Some u" by auto
    then have "(name, u) \<in> set expected" using assms(3) map_of_SomeD by fastforce
    with x assms(1) have "u = v" by (metis eq_key_imp_eq_value)
    with x map_of_SomeD show "x \<in> set known" by fastforce
  next
    fix x
    assume "x \<in> set known"
    with assms(2,3) show "x \<in> {x \<in> set expected. \<not> (case x of (name, v) \<Rightarrow> map_of known name = None)}"
      by (cases x) auto
  qed
  then have "set (filter (\<lambda>x. \<not> (case x of (name, v) \<Rightarrow> map_of known name = None)) expected) = set known" by auto
  moreover have "distinct (filter P expected)" for P using assms(1) by (simp add: distinct_map)
  ultimately have "length (filter (\<lambda>x. \<not> (case x of (name, v) \<Rightarrow> map_of known name = None)) expected) = length known"
    using assms(2) by (metis distinct_card distinct_map)
  then show ?thesis
    using sum_length_filter_compl [of "\<lambda>(name, v). map_of known name = None" expected] by (simp add: pending_files_def)
qed

definition good_check ::
  "(string \<Rightarrow> string) \<Rightarrow> (string \<Rightarrow> archive) \<Rightarrow> dataset_tree \<Rightarrow> bound_version \<Rightarrow> file_value dict \<Rightarrow> check_run \<Rightarrow> bool" where
  "good_check sha256 unzip tree w expected r \<longleftrightarrow>
     cr_digest r = Inr (bv_digest w) \<and> cr_identity r = Inr True \<and> cr_digest_after r = Inr (bv_digest w) \<and> cr_interrupted r = None
     \<and> (\<exists>e response. cr_download r = Download_failed e response \<and> archive_url_missing response)
     \<and> (\<exists>actual again. version_file_inventory (ps_first (cr_pass r) (target_ref w)) = Some (Inr actual)
          \<and> version_file_inventory (ps_last (cr_pass r) (target_ref w)) = Some (Inr again) \<and> same_dict again actual
          \<and> upload_content_inventory sha256 unzip tree (map fst actual) = Inr expected
          \<and> set (map fst actual) = set (map fst expected) \<and> \<not> wrong_sizes actual expected)
     \<and> (\<forall>(name, v) \<in> set expected. good_file sha256 (ps_fetch (cr_pass r) (request_of w name)) v)"

text \<open>The checkpoint of the version holds \<open>m\<close> files (there is none yet when \<open>m\<close> is 0).\<close>

definition resumes :: "bound_version \<Rightarrow> file_value dict \<Rightarrow> string \<Rightarrow> verification_db \<Rightarrow> nat \<Rightarrow> bool" where
  "resumes w expected sc db m \<longleftrightarrow> store_ok db
     \<and> (m = 0 \<and> find_candidate db sc = None
        \<or> (\<exists>c. find_candidate db sc = Some c \<and> bound_to w c \<and> cand_expected c = encode_files expected
             \<and> length (cand_verified c) = m))"

lemma load_resumes:
  assumes "resumes w expected (scope_of (bv_ref w) (bv_dir w)) db m" and "distinct (map fst expected)"
  shows "\<exists>db1 c. load scope_of now (bv_ref w) (bv_version w) (bv_dir w) (bv_digest w) expected db
        = (Inr (scope_of (bv_ref w) (bv_dir w), cand_verified c), db1)
      \<and> store_ok db1 \<and> find_candidate db1 (scope_of (bv_ref w) (bv_dir w)) = Some c \<and> bound_to w c
      \<and> cand_expected c = encode_files expected \<and> length (cand_verified c) = m"
proof -
  let ?sc = "scope_of (bv_ref w) (bv_dir w)"
  obtain r db1 where l: "load scope_of now (bv_ref w) (bv_version w) (bv_dir w) (bv_digest w) expected db = (r, db1)" by fastforce
  have s: "store_ok db" using assms(1) by (simp add: resumes_def)
  have s1: "store_ok db1" using check_step_ok [OF check_step.loading [OF assms(2)] s] l by (metis snd_conv)
  show ?thesis
  proof (cases "find_candidate db ?sc")
    case None
    with assms(1) have "m = 0" by (simp add: resumes_def)
    with None l s1 show ?thesis
      by (auto simp: load_def Let_def find_appended new_candidate_def bound_to_def intro!: exI)
  next
    case (Some c)
    with assms(1) have c: "bound_to w c" "cand_expected c = encode_files expected" "length (cand_verified c) = m"
      by (auto simp: resumes_def)
    have "checkpoint_ok c" using find_candidateD [OF Some] s by (auto simp: store_ok_def list_all_iff)
    then have "checkpoint_valid expected c" using c(2) by (simp add: checkpoint_ok_def checkpoint_valid_def map_of_encode [OF assms(2)])
    with Some c l s1 show ?thesis by (auto simp: load_def Let_def bound_to_def)
  qed
qed

lemma complete_full:
  assumes "store_ok db" and "find_candidate db sc = Some c" and "length (cand_verified c) = length (cand_expected c)"
  shows "\<exists>db'. mark_complete now sc db = (Inr (), db') \<and> store_ok db'
    \<and> find_candidate db' sc = Some (c\<lparr>finished_flag := 1, cand_updated := now\<rparr>)
    \<and> verified_files c = length (cand_expected c) \<and> total_files c = length (cand_expected c)
    \<and> verified_bytes c = byte_sum (cand_expected c) \<and> total_bytes c = byte_sum (cand_expected c)"
proof -
  have cs: "c \<in> set (candidates db)" "cand_scope c = sc" and ok: "checkpoint_ok c"
    using find_candidateD [OF assms(2)] assms(1) by (auto simp: store_ok_def list_all_iff)
  have "byte_sum (cand_verified c) = byte_sum (cand_expected c)"
    unfolding byte_sum_def using full_verified [OF ok assms(3)] ok
    by (simp add: checkpoint_ok_def distinct_map sum_list_distinct_conv_sum_set)
  with ok assms(3) have n: "verified_files c = length (cand_expected c)" "total_files c = length (cand_expected c)"
      "verified_bytes c = byte_sum (cand_expected c)" "total_bytes c = byte_sum (cand_expected c)"
    by (simp_all add: checkpoint_ok_def checkpoint_valid_def)
  then have a: "all_counted c" by (simp add: all_counted_def)
  have d: "distinct (candidates db)" using assms(1) by (simp add: store_ok_def distinct_map)
  have "x = c" if "x \<in> set (candidates db)" "cand_scope x = sc" for x
    using find_candidate_only [OF assms(1) that(1)] assms(2) that(2) by simp
  then have "{x. cand_scope x = sc \<and> all_counted x} \<inter> set (candidates db) = {c}" using cs a by blast
  then have "length (filter (\<lambda>c. cand_scope c = sc \<and> all_counted c) (candidates db)) = 1"
    by (simp add: distinct_length_filter [OF d])
  with check_step_ok [OF check_step.completing assms(1), of now sc] assms(2) a n show ?thesis
    by (simp add: mark_complete_def)
qed

lemma good_check_step:
  assumes "good_check sha256 unzip tree w expected r" and "0 < bv_version w" and "length (split_on (CHR ''/'') (bv_ref w)) = 2"
    and "resumes w expected (scope_of (bv_ref w) (bv_dir w)) db m" and "m \<le> length expected"
  shows "\<exists>db'. verify_dataset_content scope_of sha256 unzip tree False True w r db
        = Some (if length expected \<le> m + file_batch_limit then Inr () else Inl batch_pending, db')
      \<and> resumes w expected (scope_of (bv_ref w) (bv_dir w)) db' (min (m + file_batch_limit) (length expected))
      \<and> (length expected \<le> m + file_batch_limit \<longrightarrow>
          snapshot scope_of (bv_ref w) (bv_version w) (bv_dir w) (bv_digest w) db'
          = Some (True, bv_version w, length expected, byte_sum expected, length expected, byte_sum expected))"
proof -
  let ?sc = "scope_of (bv_ref w) (bv_dir w)" and ?p = "cr_pass r"
  let ?fetch = "\<lambda>name. ps_fetch ?p (request_of w name)"
  from assms(1) obtain actual again where
    ls: "version_file_inventory (ps_first ?p (target_ref w)) = Some (Inr actual)"
      "version_file_inventory (ps_last ?p (target_ref w)) = Some (Inr again)" "same_dict again actual"
      "upload_content_inventory sha256 unzip tree (map fst actual) = Inr expected"
      "set (map fst actual) = set (map fst expected)" "\<not> wrong_sizes actual expected"
    unfolding good_check_def by blast
  have dist: "distinct (map fst expected)" by (rule upload_inventory_distinct [OF ls(4)])
  from load_resumes [of w expected scope_of, OF assms(4) dist, of "ps_loaded ?p"] obtain db1 c where
    l: "load scope_of (ps_loaded ?p) (bv_ref w) (bv_version w) (bv_dir w) (bv_digest w) expected db = (Inr (?sc, cand_verified c), db1)"
      "store_ok db1" "find_candidate db1 ?sc = Some c" "bound_to w c" "cand_expected c = encode_files expected"
      "length (cand_verified c) = m" by blast
  have ok: "checkpoint_ok c" using find_candidateD [OF l(3)] l(2) by (auto simp: store_ok_def list_all_iff)
  let ?todo = "pending_files (cand_verified c) (encode_files expected)"
  have todo: "length ?todo + m = length expected"
    using pending_length [OF encode_files_keys [OF dist], of "cand_verified c"] verified_subset [OF ok] ok l(5,6)
    by (simp add: checkpoint_ok_def)
  have fresh: "fst ` set ?todo \<inter> fst ` set (cand_verified c) = {}"
    by (force simp: pending_files_def map_of_eq_None_iff)
  have good: "\<forall>(name, v) \<in> set (encode_files expected). map_of (cand_expected c) name = Some v \<and> good_file sha256 (?fetch name) v"
    using assms(1) l(5) dist by (auto simp: good_check_def map_of_encode)
  from verify_files_progress [OF l(3) good encode_files_keys [OF dist] fresh, of 0] obtain db2 c2 where
    v: "verify_files sha256 True ?sc ?fetch (cand_verified c) 0 (encode_files expected) db1
        = (if length ?todo \<le> file_batch_limit then Inr () else Inl batch_pending, db2)"
      "find_candidate db2 ?sc = Some c2" "cand_binding c2 = cand_binding c" "cand_expected c2 = encode_files expected"
      "length (cand_verified c2) = m + min file_batch_limit (length ?todo)"
    using l(5,6) by auto
  have s2: "store_ok db2" by (rule verify_files_store [OF v(1) l(2)])
  have b2: "bound_to w c2" using l(4) v(3) by (simp add: bound_to_def)
  have m2: "length (cand_verified c2) = min (m + file_batch_limit) (length expected)" using v(5) todo by simp
  have r2: "resumes w expected ?sc db2 (min (m + file_batch_limit) (length expected))"
    using s2 v(2,4) b2 m2 by (simp add: resumes_def)
  have listed: "verify_version_files scope_of sha256 unzip tree True w ?p db
      = verify_listed_files scope_of sha256 True w ?p actual expected db"
    using ls assms(2,3) by (simp add: verify_version_files_def)
  have content: "verify_dataset_content scope_of sha256 unzip tree False True w r db =
      (case verify_listed_files scope_of sha256 True w ?p actual expected db of
         None \<Rightarrow> None | Some (Inl e, db') \<Rightarrow> Some (Inl e, db') | Some (Inr sc, db') \<Rightarrow> Some (finish_check w r (Some sc) db'))"
    using assms(1,2) listed
    by (auto simp: verify_dataset_content_def verify_download_def good_check_def split: option.split sum.split)
  show ?thesis
  proof (cases "length expected \<le> m + file_batch_limit")
    case False
    then have "verify_listed_files scope_of sha256 True w ?p actual expected db = Some (Inl batch_pending, db2)"
      using l(1) v(1) todo by (simp add: verify_listed_files_def)
    with False content r2 show ?thesis by simp
  next
    case True
    then have f: "verify_listed_files scope_of sha256 True w ?p actual expected db = Some (Inr ?sc, db2)"
      using l(1) v(1) todo ls(2,3) by (simp add: verify_listed_files_def)
    have full: "length (cand_verified c2) = length (cand_expected c2)" using m2 True v(4) by simp
    from complete_full [OF s2 v(2) full, of "cr_completed r"] obtain db3 where
      d: "mark_complete (cr_completed r) ?sc db2 = (Inr (), db3)" "store_ok db3"
        "find_candidate db3 ?sc = Some (c2\<lparr>finished_flag := 1, cand_updated := cr_completed r\<rparr>)"
        "verified_files c2 = length expected" "total_files c2 = length expected"
        "verified_bytes c2 = byte_sum expected" "total_bytes c2 = byte_sum expected"
      using v(4) by auto
    have "finish_check w r (Some ?sc) db2 = (Inr (), db3)" using assms(1) d(1) by (simp add: finish_check_def good_check_def)
    moreover have "resumes w expected ?sc db3 (min (m + file_batch_limit) (length expected))"
      using d(2,3) b2 v(4) m2 by (simp add: resumes_def bound_to_def)
    moreover have "snapshot scope_of (bv_ref w) (bv_version w) (bv_dir w) (bv_digest w) db3
        = Some (True, bv_version w, length expected, byte_sum expected, length expected, byte_sum expected)"
      using d(3-7) b2 by (simp add: snapshot_def bound_to_def)
    ultimately show ?thesis using True content f by simp
  qed
qed

primrec repeat_checks ::
  "(check_run \<Rightarrow> verification_db \<Rightarrow> ((verify_exc + unit) \<times> verification_db) option) \<Rightarrow> (nat \<Rightarrow> check_run) \<Rightarrow> nat
   \<Rightarrow> verification_db \<Rightarrow> verification_db option" where
  "repeat_checks check runs 0 db = Some db"
| "repeat_checks check runs (Suc k) db =
     (case repeat_checks check runs k db of None \<Rightarrow> None | Some d \<Rightarrow> map_option snd (check (runs k) d))"

text \<open>
  Background verification finishes: when the version has no archive and every file can be received,
  checks that each stop after 64 files, resumed from their checkpoints, accept a version of \<open>n\<close> files at check
  number \<open>(n - 1) div 64\<close> (counted from 0), and the version is then shown as verified with all its files and
  bytes.
\<close>

theorem background_checks_finish:
  assumes "candidates start = []" and "\<And>k. good_check sha256 unzip tree w expected (runs k)"
    and "0 < bv_version w" and "length (split_on (CHR ''/'') (bv_ref w)) = 2"
    and check: "check = verify_dataset_content scope_of sha256 unzip tree False True w"
  shows "\<exists>db db'. repeat_checks check runs ((length expected - 1) div 64) start = Some db
      \<and> check (runs ((length expected - 1) div 64)) db = Some (Inr (), db')
      \<and> snapshot scope_of (bv_ref w) (bv_version w) (bv_dir w) (bv_digest w) db'
        = Some (True, bv_version w, length expected, byte_sum expected, length expected, byte_sum expected)"
proof -
  let ?k = "(length expected - 1) div 64" and ?sc = "scope_of (bv_ref w) (bv_dir w)"
  have run: "\<exists>db. repeat_checks check runs j start = Some db \<and> resumes w expected ?sc db (64 * j)" if "j \<le> ?k" for j
    using that
  proof (induction j)
    case 0
    then show ?case using assms(1) by (simp add: resumes_def store_ok_def find_candidate_def)
  next
    case (Suc j)
    then obtain db where d: "repeat_checks check runs j start = Some db" "resumes w expected ?sc db (64 * j)" by auto
    have less: "64 * Suc j \<le> length expected" using Suc.prems by (simp add: less_eq_div_iff_mult_less_eq)
    then have "64 * j \<le> length expected" by simp
    from good_check_step [of sha256 unzip tree w expected "runs j" scope_of, OF assms(2-4) d(2) this] less d(1) show ?case
      by (auto simp: check file_batch_limit_def min_def add.commute split: if_splits)
  qed
  then obtain db where d: "repeat_checks check runs ?k start = Some db" "resumes w expected ?sc db (64 * ?k)" by blast
  have "64 * ?k \<le> length expected" "length expected \<le> 64 * ?k + 64" by linarith+
  with good_check_step [of sha256 unzip tree w expected "runs ?k" scope_of, OF assms(2-4) d(2)] d(1) show ?thesis
    by (auto simp: check file_batch_limit_def)
qed

lemma background_checks_finish_witness:
  "\<exists>db'. verify_dataset_content (\<lambda>a d. a @ d) (\<lambda>b. b) sample_unzip sample_loose False True sample_version sample_check
       \<lparr>candidates = [], accounts = []\<rparr> = Some (Inr (), db')
     \<and> snapshot (\<lambda>a d. a @ d) ''u/d'' 3 ''dir'' ''s'' db' = Some (True, 3, 2, 3, 2, 3)"
proof -
  let ?e = "[(''b.txt'', (2, ''yz'')), (''a.txt'', (1, ''x''))] :: file_value dict"
  have inv: "version_file_inventory (sample_listing t) = Some (Inr [(''a.txt'', 1), (''b.txt'', 2)])" for t
    by (simp add: version_file_inventory_def list_from.simps sample_listing_def read_page_def bad_listed_def listing_limit_def lower_def lower_char_def)
  have "good_check (\<lambda>b. b) sample_unzip sample_loose sample_version ?e sample_check"
    unfolding good_check_def
    by (auto simp: sample_check_def sample_version_def inv target_ref_def archive_url_missing_def same_dict_def wrong_sizes_def
        upload_content_inventory_def sample_loose_def size_of_def good_file_def received_def sample_fetch_def request_of_def)
  then have "\<exists>db db'. repeat_checks (verify_dataset_content (\<lambda>a d. a @ d) (\<lambda>b. b) sample_unzip sample_loose False True sample_version)
        (\<lambda>_. sample_check) ((length ?e - 1) div 64) \<lparr>candidates = [], accounts = []\<rparr> = Some db
      \<and> verify_dataset_content (\<lambda>a d. a @ d) (\<lambda>b. b) sample_unzip sample_loose False True sample_version sample_check db = Some (Inr (), db')
      \<and> snapshot (\<lambda>a d. a @ d) (bv_ref sample_version) (bv_version sample_version) (bv_dir sample_version) (bv_digest sample_version) db'
        = Some (True, bv_version sample_version, length ?e, byte_sum ?e, length ?e, byte_sum ?e)"
    by (intro background_checks_finish) (simp_all add: sample_version_def)
  then show ?thesis by (simp add: sample_version_def byte_sum_def numeral_2_eq_2)
qed

end
