(* ===== verification/Child_Process.thy ===== *)
theory Child_Process
  imports Pipeline File_Verification
begin

text \<open>
  The remote client library runs in a child process per operation (\<^verbatim>\<open>app/kaggle_sdk.py\<close>, \<^verbatim>\<open>_sdk_call\<close> and
  \<^verbatim>\<open>_communicate\<close> of \<^verbatim>\<open>app/kaggle_adapter.py\<close>, \<^verbatim>\<open>run_verification\<close> and the paced requests of
  \<^verbatim>\<open>app/dataset_verification_process.py\<close>). The child prints lines; the parent reads the result, or the failure,
  out of them. \<open>dumps\<close> and \<open>loads\<close> are the JSON library. A list of what the parent sees at each turn of its loop
  stands for the child's behaviour; \<^const>\<open>None\<close> means that the parent still waits after the last one.
\<close>

section \<open>Lines\<close>

definition newline :: string where "newline = [CHR 0x0A]"

text \<open>What \<^verbatim>\<open>print\<close> writes of each text.\<close>

definition printed :: "string list \<Rightarrow> string" where
  "printed ls = concat (map (\<lambda>l. l @ newline) ls)"

definition result_mark :: string where "result_mark = ''RELAY_SDK_RESULT=''"

definition error_mark :: string where "error_mark = ''RELAY_SDK_ERROR=''"

definition event_mark :: string where "event_mark = ''RELAY_VERIFY_EVENT=''"

section \<open>The child\<close>

datatype child_event = Says string | Enters_phase string

definition sdk_operations :: "string list" where
  "sdk_operations = [''quota'', ''upload_dataset'', ''dataset_exists'', ''_dataset_file_inventory'',
     ''probe_username_write_access'', ''identity'', ''verify_dataset_content'', ''p6_download'']"

fun category_text :: "category \<Rightarrow> string" where
  "category_text Fatal = ''fatal''"
| "category_text Publication = ''publication''"
| "category_text Transport = ''transport''"
| "category_text In_progress = ''progress''"
| "category_text Http = ''http''"
| "category_text Integrity = ''integrity''"

definition failure_json :: "string list \<Rightarrow> exc \<Rightarrow> json" where
  "failure_json known e =
     (let f = verification_error (as_verification e)
      in JObj [(''category'', JStr (category_text (fail_category f))),
           (''http_status'', case fail_http f of None \<Rightarrow> JNull | Some n \<Rightarrow> JInt n),
           (''retry_after'', case fail_retry f of None \<Rightarrow> JNull | Some r \<Rightarrow> JFloat r),
           (''detail'', JStr (redact_secrets known (exc_text e)))])"

definition event_json :: "string list \<Rightarrow> child_event \<Rightarrow> json" where
  "event_json known e =
     (case e of
        Says m \<Rightarrow> JObj [(''message'', JStr (redact_secrets known m))]
      | Enters_phase p \<Rightarrow> JObj [(''phase'', JStr p)])"

definition event_line :: "string list \<Rightarrow> (json \<Rightarrow> string) \<Rightarrow> bool \<Rightarrow> child_event \<Rightarrow> string list" where
  "event_line known dumps verifying e =
     (if verifying then [event_mark @ dumps (event_json known e)]
      else case e of Says m \<Rightarrow> [redact_secrets known m] | Enters_phase p \<Rightarrow> [])"

text \<open>The lines of the child (its errors are written to the same stream) and its exit code.\<close>

definition sdk_main ::
  "string list \<Rightarrow> (json \<Rightarrow> string) \<Rightarrow> string \<Rightarrow> child_event list \<Rightarrow> exc + json \<Rightarrow> string list \<times> int" where
  "sdk_main known dumps operation evs answer =
     (if operation \<notin> set sdk_operations
      then ([redact_secrets known ''Kaggle SDK operation failed: unsupported SDK operation''], 1)
      else let verifying = (operation = ''verify_dataset_content''); out = concat (map (event_line known dumps verifying) evs) in
        case answer of
          Inr v \<Rightarrow> (out @ [result_mark @ dumps v], 0)
        | Inl e \<Rightarrow>
            (out @ [if verifying then error_mark @ dumps (failure_json known e)
               else redact_secrets known (''Kaggle SDK operation failed: '' @ exc_text e)], 1))"

section \<open>The parent of an ordinary operation\<close>

text \<open>A look at the child, every fifth of a second: its exit code and output, or a failing check and the clock.\<close>

datatype child_look = Exited int string | Running "exc option" time

definition transport_error :: "string \<Rightarrow> exc" where
  "transport_error m = Raised Verify_transport m"

fun communicate :: "time \<Rightarrow> child_look list \<Rightarrow> (exc + int \<times> string) option" where
  "communicate deadline [] = None"
| "communicate deadline (l # ls) =
     (case l of
        Exited rc out \<Rightarrow> Some (Inr (rc, out))
      | Running (Some e) _ \<Rightarrow> Some (Inl e)
      | Running None now \<Rightarrow>
          if deadline \<le> now then Some (Inl (transport_error ''Kaggle operation exceeded its configured timeout''))
          else communicate deadline ls)"

definition command_failed :: "string list \<Rightarrow> int \<Rightarrow> string \<Rightarrow> exc" where
  "command_failed known rc out =
     runtime_error (''Kaggle command failed: '' @ int_text rc @ newline @ redact_secrets known out)"

text \<open>The last line that carries the mark holds the result.\<close>

definition read_result :: "(string \<Rightarrow> json option) \<Rightarrow> string list \<Rightarrow> exc + json" where
  "read_result loads ls =
     (case find (prefix result_mark) (rev ls) of
        None \<Rightarrow> Inl (runtime_error ''Kaggle SDK process did not return a result'')
      | Some l \<Rightarrow>
          (case loads (drop (length result_mark) l) of
             None \<Rightarrow> Inl (value_error ''JSONDecodeError'')
           | Some v \<Rightarrow> Inr v))"

definition sdk_call ::
  "string list \<Rightarrow> (string \<Rightarrow> json option) \<Rightarrow> time \<Rightarrow> child_look list \<Rightarrow> (exc + json) option" where
  "sdk_call known loads deadline ls =
     (case communicate deadline ls of
        None \<Rightarrow> None
      | Some (Inl e) \<Rightarrow> Some (Inl e)
      | Some (Inr (rc, out)) \<Rightarrow>
          Some (if rc \<noteq> 0 then Inl (command_failed known rc out) else read_result loads (splitlines out)))"

section \<open>The parent of a verification\<close>

datatype verify_phase = In_publication | In_content

record verify_run =
  vr_publication :: rat
  vr_content :: rat
  vr_phase :: verify_phase
  vr_tick :: time
  vr_result :: "string option"
  vr_failure :: "json option"
  vr_said :: "string list"

text \<open>What a turn reads within its fifth of a second: nothing, the end of the output, or a line and the clock then.\<close>

datatype turn_read = Nothing_read | Output_closed | Line_read time string

record turn =
  tn_now :: time
  tn_check :: "exc option"
  tn_read :: turn_read

definition remaining :: "verify_run \<Rightarrow> rat" where
  "remaining st = (case vr_phase st of In_publication \<Rightarrow> vr_publication st | In_content \<Rightarrow> vr_content st)"

text \<open>The time since the last reading of the clock is charged to the current phase.\<close>

definition charge :: "time \<Rightarrow> verify_run \<Rightarrow> verify_run" where
  "charge now st =
     (case vr_phase st of
        In_publication \<Rightarrow> st\<lparr>vr_publication := vr_publication st - (now - vr_tick st), vr_tick := now\<rparr>
      | In_content \<Rightarrow> st\<lparr>vr_content := vr_content st - (now - vr_tick st), vr_tick := now\<rparr>)"

definition verification_failed :: "category \<Rightarrow> string \<Rightarrow> exc" where
  "verification_failed c m = Raised (Verify_error c None None) m"

definition begin_turn :: "time option \<Rightarrow> turn \<Rightarrow> verify_run \<Rightarrow> (exc + unit) \<times> verify_run" where
  "begin_turn deadline t st =
     (if case deadline of None \<Rightarrow> False | Some d \<Rightarrow> d \<le> tn_now t
      then (Inl (verification_failed Transport ''dataset_verification_retry_exhausted: recovery deadline exceeded''), st)
      else let st = charge (tn_now t) st in
        case tn_check t of
          Some e \<Rightarrow> (Inl e, st)
        | None \<Rightarrow>
            (if 0 < remaining st then Inr ()
             else Inl (if vr_phase st = In_publication
               then verification_failed Publication ''payload_publication_timeout: Dataset publication deadline exceeded''
               else transport_error ''Dataset content verification exceeded its transfer timeout''), st))"

definition enter_phase :: "time \<Rightarrow> json option \<Rightarrow> verify_run \<Rightarrow> verify_run" where
  "enter_phase now p st =
     (if p = Some (JStr ''publication'') then (charge now st)\<lparr>vr_phase := In_publication\<rparr>
      else if p = Some (JStr ''content'') then (charge now st)\<lparr>vr_phase := In_content\<rparr> else st)"

text \<open>A phase that cannot be a key of a dictionary raises; \<open>render\<close> is \<^verbatim>\<open>str\<close>.\<close>

definition take_event :: "string list \<Rightarrow> (json \<Rightarrow> string) \<Rightarrow> time \<Rightarrow> json \<Rightarrow> verify_run \<Rightarrow> (exc + unit) \<times> verify_run" where
  "take_event known render now j st =
     (case j of
        JObj d \<Rightarrow>
          (case map_of d ''phase'' of
             Some (JArr _) \<Rightarrow> (Inl (runtime_error ''unhashable type''), st)
           | Some (JObj _) \<Rightarrow> (Inl (runtime_error ''unhashable type''), st)
           | p \<Rightarrow>
               let st = enter_phase now p st in
               (Inr (), case map_of d ''message'' of
                  Some m \<Rightarrow> if truthy (Some m) then st\<lparr>vr_said := vr_said st @ [redact_secrets known (render m)]\<rparr> else st
                | None \<Rightarrow> st))
      | _ \<Rightarrow> (Inl (runtime_error ''AttributeError''), st))"

definition take_line ::
  "string list \<Rightarrow> (string \<Rightarrow> json option) \<Rightarrow> (json \<Rightarrow> string) \<Rightarrow> time \<Rightarrow> string \<Rightarrow> verify_run \<Rightarrow> (exc + unit) \<times> verify_run" where
  "take_line known loads render now l st =
     (if prefix event_mark l
      then (case loads (drop (length event_mark) l) of
          None \<Rightarrow> (Inl (value_error ''JSONDecodeError''), st)
        | Some j \<Rightarrow> take_event known render now j st)
      else if prefix error_mark l
      then (case loads (drop (length error_mark) l) of
          None \<Rightarrow> (Inl (value_error ''JSONDecodeError''), st)
        | Some j \<Rightarrow> (Inr (), st\<lparr>vr_failure := Some j\<rparr>))
      else (Inr (), if prefix result_mark l then st\<lparr>vr_result := Some l\<rparr> else st))"

text \<open>\<^const>\<open>None\<close>: the turns are over and the child still runs; otherwise how the loop was left.\<close>

fun verify_turns ::
  "string list \<Rightarrow> (string \<Rightarrow> json option) \<Rightarrow> (json \<Rightarrow> string) \<Rightarrow> time option \<Rightarrow> turn list \<Rightarrow> verify_run
   \<Rightarrow> ((exc + unit) \<times> verify_run) option" where
  "verify_turns known loads render deadline [] st = None"
| "verify_turns known loads render deadline (t # ts) st =
     (case begin_turn deadline t st of
        (Inl e, st) \<Rightarrow> Some (Inl e, st)
      | (Inr _, st) \<Rightarrow>
          (case tn_read t of
             Nothing_read \<Rightarrow> verify_turns known loads render deadline ts st
           | Output_closed \<Rightarrow> Some (Inr (), st)
           | Line_read now l \<Rightarrow>
               (case take_line known loads render now l st of
                  (Inl e, st) \<Rightarrow> Some (Inl e, st)
                | (Inr _, st) \<Rightarrow> verify_turns known loads render deadline ts st)))"

definition category_of :: "string \<Rightarrow> category option" where
  "category_of s =
     find (\<lambda>c. category_text c = s) [Fatal, Publication, Transport, In_progress, Http, Integrity]"

definition http_of :: "json option \<Rightarrow> int option" where
  "http_of j = (case j of Some (JInt n) \<Rightarrow> Some n | _ \<Rightarrow> None)"

definition retry_of :: "json option \<Rightarrow> rat option" where
  "retry_of j = (case j of Some (JFloat r) \<Rightarrow> Some r | Some (JInt n) \<Rightarrow> Some (of_int n) | _ \<Rightarrow> None)"

text \<open>The structured failure of the child, as the exception of the parent; a missing field raises.\<close>

definition child_failure :: "json \<Rightarrow> exc" where
  "child_failure j =
     (case (map_of (dict_of (Some j)) ''detail'', map_of (dict_of (Some j)) ''category'') of
        (Some (JStr what), Some (JStr c)) \<Rightarrow>
          (case category_of c of
             None \<Rightarrow> verification_failed Fatal what
           | Some cat \<Rightarrow>
               Raised (Verify_error cat (http_of (map_of (dict_of (Some j)) ''http_status''))
                 (retry_of (map_of (dict_of (Some j)) ''retry_after''))) what)
      | _ \<Rightarrow> runtime_error ''KeyError'')"

record verify_budget =
  vb_publication :: rat
  vb_transfer :: rat
  vb_retry :: "rat option"
  vb_start :: time

definition new_run :: "verify_budget \<Rightarrow> verify_run" where
  "new_run b = \<lparr>vr_publication = vb_publication b, vr_content = vb_transfer b, vr_phase = In_publication,
     vr_tick = vb_start b, vr_result = None, vr_failure = None, vr_said = []\<rparr>"

definition retry_deadline_of :: "verify_budget \<Rightarrow> time option" where
  "retry_deadline_of b = map_option (\<lambda>r. vb_start b + r) (vb_retry b)"

text \<open>\<^const>\<open>None\<close> for the exit code: the child has closed its output and does not exit.\<close>

definition judge_exit :: "int option \<Rightarrow> verify_run \<Rightarrow> exc + string" where
  "judge_exit exit st =
     (case exit of
        None \<Rightarrow> Inl (runtime_error ''TimeoutExpired'')
      | Some rc \<Rightarrow>
          if rc \<noteq> 0
          then Inl (case vr_failure st of
              Some j \<Rightarrow> child_failure j
            | None \<Rightarrow> verification_failed Fatal (''Dataset verification process exited without structured error ('' @ int_text rc @ '')''))
          else (case vr_result st of
              None \<Rightarrow> Inl (verification_failed Fatal ''Dataset verification process did not return a result'')
            | Some l \<Rightarrow> Inr l))"

text \<open>The answer and the seconds charged to the content, counted until the clock reads \<open>ended\<close>.\<close>

definition run_verification ::
  "string list \<Rightarrow> (string \<Rightarrow> json option) \<Rightarrow> (json \<Rightarrow> string) \<Rightarrow> verify_budget \<Rightarrow> turn list \<Rightarrow> int option \<Rightarrow> time
   \<Rightarrow> ((exc + json) \<times> rat) option" where
  "run_verification known loads render b ts exit ended =
     (case verify_turns known loads render (retry_deadline_of b) ts (new_run b) of
        None \<Rightarrow> None
      | Some (r, st) \<Rightarrow>
          Some (case r of
              Inl e \<Rightarrow> Inl e
            | Inr _ \<Rightarrow> (case judge_exit exit st of Inl e \<Rightarrow> Inl e | Inr l \<Rightarrow> read_result loads [l]),
            max 0 (vb_transfer b - vr_content (charge ended st))))"

section \<open>Paced requests\<close>

text \<open>A header as Python reads it: a number, a number that is not finite, a date, or neither.\<close>

datatype header = Finite_number rat | Other_number | Date time | Unreadable

definition retry_after_seconds :: "time \<Rightarrow> header option \<Rightarrow> rat option" where
  "retry_after_seconds now h =
     (case h of
        Some (Finite_number x) \<Rightarrow> Some (max 0 x)
      | Some (Date d) \<Rightarrow> Some (max 0 (d - now))
      | _ \<Rightarrow> None)"

definition paced_host :: "string \<Rightarrow> bool" where
  "paced_host h \<longleftrightarrow> h = ''kaggle.com'' \<or> suffix ''.kaggle.com'' h"

definition bounded_timeouts :: "rat option \<times> rat option \<Rightarrow> rat \<times> rat" where
  "bounded_timeouts t =
     (case fst t of None \<Rightarrow> 15 | Some c \<Rightarrow> min 15 c, case snd t of None \<Rightarrow> 60 | Some r \<Rightarrow> min 60 r)"

text \<open>After a response: too many requests cool the account down, for a minute unless the header says otherwise.\<close>

definition note_response ::
  "time \<Rightarrow> string \<Rightarrow> string \<Rightarrow> int \<Rightarrow> header option \<Rightarrow> verification_db \<Rightarrow> verification_db" where
  "note_response now owner host code h db =
     (if paced_host host \<and> code = 429
      then cooldown now owner (case retry_after_seconds now h of None \<Rightarrow> 60 | Some r \<Rightarrow> if r = 0 then 60 else r) db
      else db)"

section \<open>The result reaches the parent\<close>

definition unbroken :: "string \<Rightarrow> bool" where
  "unbroken s \<longleftrightarrow> list_all (\<lambda>c. \<not> line_break c) s"

lemma newline_breaks: "line_break (CHR 0x0A)" "of_char (CHR 0x0A) = (10 :: nat)"
  by (simp_all add: line_break_def)

lemma lines_unbroken: "unbroken l \<Longrightarrow> lines_from acc (l @ newline) = [rev acc @ l]"
proof (induction l arbitrary: acc)
  case (Cons c l)
  then have "\<not> line_break c" "of_char c \<noteq> (13 :: nat)" by (auto simp: unbroken_def line_break_def)
  with Cons show ?case by (simp add: unbroken_def)
qed (simp add: newline_def newline_breaks)

lemma lines_from_at: "lines_from acc (xs @ newline @ ys) = lines_from acc (xs @ newline) @ lines_from [] ys"
proof (induction "length xs" arbitrary: acc xs rule: less_induct)
  case less
  show ?case
  proof (cases xs)
    case Nil
    then show ?thesis by (simp add: newline_def newline_breaks)
  next
    case (Cons c cs)
    note tail = less.hyps [of cs, simplified Cons, simplified]
    show ?thesis
    proof (cases cs)
      case Nil
      with tail Cons show ?thesis by (simp add: newline_def newline_breaks)
    next
      case more: (Cons d ds)
      then have "lines_from a (ds @ newline @ ys) = lines_from a (ds @ newline) @ lines_from [] ys" for a
        using less.hyps [of ds] Cons by simp
      with tail Cons more show ?thesis by simp
    qed
  qed
qed

lemma printed_last:
  assumes "unbroken l"
  shows "\<exists>first. splitlines (printed (ls @ [l])) = first @ [l]"
proof (cases ls rule: rev_cases)
  case Nil
  with lines_unbroken [OF assms, of "[]"] show ?thesis by (simp add: printed_def splitlines_def)
next
  case (snoc ks k)
  then have "printed (ls @ [l]) = (printed ks @ k) @ newline @ (l @ newline)" by (simp add: printed_def)
  with lines_from_at [of "[]" "printed ks @ k" "l @ newline"] lines_unbroken [OF assms, of "[]"]
  show ?thesis by (simp add: splitlines_def)
qed

lemma communicate_waits:
  assumes "list_all (\<lambda>l. \<exists>t. l = Running None t \<and> t < deadline) waits"
  shows "communicate deadline (waits @ ls) = communicate deadline ls"
  using assms by (induction waits) auto

lemma marked_unbroken: "unbroken v \<Longrightarrow> unbroken (result_mark @ v)"
proof -
  have "unbroken result_mark" by code_simp
  then show "unbroken v \<Longrightarrow> unbroken (result_mark @ v)" by (simp add: unbroken_def)
qed

text \<open>
  Whatever the child logs before it, even lines that imitate a result, the parent of a supported operation
  that succeeds reads back exactly the value the child computed, if the JSON library reads what it wrote (on one
  line) and the child exits before the deadline.
\<close>

theorem sdk_result_reaches_parent:
  assumes "sdk_main known dumps operation evs (Inr v) = (ls, rc)" and "operation \<in> set sdk_operations"
    and "loads (dumps v) = Some v" and "unbroken (dumps v)"
    and "list_all (\<lambda>l. \<exists>t. l = Running None t \<and> t < deadline) waits"
  shows "sdk_call known loads deadline (waits @ [Exited rc (printed ls)]) = Some (Inr v)"
proof -
  obtain out where ls: "ls = out @ [result_mark @ dumps v]" "rc = 0"
    using assms(1,2) by (auto simp: sdk_main_def Let_def)
  obtain first where "splitlines (printed ls) = first @ [result_mark @ dumps v]"
    using printed_last [OF marked_unbroken [OF assms(4)]] ls(1) by blast
  then have "read_result loads (splitlines (printed ls)) = Inr v"
    using assms(3) by (simp add: read_result_def)
  then show ?thesis using communicate_waits [OF assms(5), of "[Exited rc (printed ls)]"] ls(2) by (simp add: sdk_call_def)
qed

lemma sdk_result_reaches_parent_witness:
  "sdk_call [] (\<lambda>s. if s = ''true'' then Some (JBool True) else None) 10
     ([Running None 1] @ [Exited 0 (printed [''a'', ''RELAY_SDK_RESULT=true''])]) = Some (Inr (JBool True))"
proof -
  have "redact_secrets [] ''a'' = ''a''" by code_simp
  then have "sdk_main [] (\<lambda>_. ''true'') ''dataset_exists'' [Says ''a''] (Inr (JBool True))
      = ([''a'', ''RELAY_SDK_RESULT=true''], 0)"
    by (simp add: sdk_main_def sdk_operations_def event_line_def result_mark_def Let_def)
  then show ?thesis
    by (rule sdk_result_reaches_parent) (simp_all add: sdk_operations_def unbroken_def line_break_def Let_def)
qed

text \<open>
  An upload whose outcome is unknown is not recognised by the worker: the child reports every failure as
  text and exit code 1, so that the parent raises an ordinary error of the command, which the worker does not
  find worth rechecking; had the exception itself arrived, it would be.
\<close>

theorem unknown_upload_is_not_rechecked:
  "worth_rechecking (Upload_unknown ''Dataset upload outcome unknown; original candidate retained'')
   \<and> (\<exists>e. sdk_call known loads deadline
          [Exited (snd (sdk_main known dumps ''upload_dataset'' evs (Inl (Upload_unknown t))))
             (printed (fst (sdk_main known dumps ''upload_dataset'' evs (Inl (Upload_unknown t)))))] = Some (Inl e)
        \<and> \<not> worth_rechecking e
        \<and> keep_candidate w now jid e db =
            block_recheck now jid ''failure is not a transient publication or transport error''
              (retain_candidate now jid
                (''dataset_upload_outcome_unknown: original candidate retained; '' @ redact_secrets (w_known w) (exc_text e)) db))"
proof -
  have "\<not> worth_rechecking (command_failed known rc out)" for rc out
    by (simp add: worth_rechecking_def command_failed_def retryable_verification_def verification_error_def)
  moreover have "worth_rechecking (Upload_unknown ''Dataset upload outcome unknown; original candidate retained'')"
    by code_simp
  ultimately show ?thesis by (simp add: sdk_call_def sdk_main_def Let_def sdk_operations_def keep_candidate_def)
qed

section \<open>The class of a failure crosses the process\<close>

lemma category_roundtrip [simp]: "category_of (category_text c) = Some c"
  by (cases c) (simp_all add: category_of_def)

lemma numbers_roundtrip [simp]:
  "http_of (Some (case n of None \<Rightarrow> JNull | Some k \<Rightarrow> JInt k)) = n"
  "retry_of (Some (case r of None \<Rightarrow> JNull | Some x \<Rightarrow> JFloat x)) = r"
  by (simp_all add: http_of_def retry_of_def split: option.split)

lemma child_failure_class:
  "verification_error (as_verification (child_failure (failure_json known e))) = verification_error (as_verification e)"
proof -
  let ?f = "verification_error (as_verification e)"
  have "child_failure (failure_json known e)
      = Raised (Verify_error (fail_category ?f) (fail_http ?f) (fail_retry ?f)) (redact_secrets known (exc_text e))"
    by (simp add: child_failure_def failure_json_def Let_def)
  then have "verification_error (as_verification (child_failure (failure_json known e)))
      = \<lparr>fail_category = fail_category ?f, fail_http = fail_http ?f, fail_retry = fail_retry ?f\<rparr>"
    by (simp add: verification_error_def)
  then show ?thesis by simp
qed

definition prompt_turn :: "time \<Rightarrow> string \<Rightarrow> turn" where
  "prompt_turn now l = \<lparr>tn_now = now, tn_check = None, tn_read = Line_read now l\<rparr>"

text \<open>What a run keeps while the clock stands still.\<close>

definition fresh_run :: "time \<Rightarrow> verify_run \<Rightarrow> bool" where
  "fresh_run now st \<longleftrightarrow> vr_tick st = now \<and> 0 < vr_publication st \<and> 0 < vr_content st"

lemma fresh_charge: "fresh_run now st \<Longrightarrow> charge now st = st"
  by (cases st) (auto simp: fresh_run_def charge_def split: verify_phase.split)

lemma fresh_turn:
  assumes "fresh_run now st" and "deadline = None \<or> (\<exists>d. deadline = Some d \<and> now < d)"
  shows "begin_turn deadline \<lparr>tn_now = now, tn_check = None, tn_read = r\<rparr> st = (Inr (), st)"
  using assms fresh_charge [OF assms(1)]
  by (auto simp: begin_turn_def remaining_def fresh_run_def split: verify_phase.split)

lemma fresh_event:
  assumes "fresh_run now st" and "loads (dumps (event_json known e)) = Some (event_json known e)" and "l \<in> set (event_line known dumps True e)"
  shows "\<exists>st'. take_line known loads render now l st = (Inr (), st') \<and> fresh_run now st' \<and> vr_failure st' = vr_failure st"
  using assms fresh_charge [OF assms(1)]
  by (cases e)
    (auto simp: event_line_def event_json_def take_line_def take_event_def enter_phase_def fresh_run_def Let_def split: option.split)

lemma fresh_events:
  assumes "deadline = None \<or> (\<exists>d. deadline = Some d \<and> now < d)"
    and "\<forall>l \<in> set ls. \<exists>e. l \<in> set (event_line known dumps True e) \<and> loads (dumps (event_json known e)) = Some (event_json known e)"
    and "fresh_run now st"
  shows "\<exists>st'. verify_turns known loads render deadline (map (prompt_turn now) ls @ ts) st
      = verify_turns known loads render deadline ts st' \<and> fresh_run now st' \<and> vr_failure st' = vr_failure st"
  using assms(2,3)
proof (induction ls arbitrary: st)
  case (Cons l ls)
  then obtain e where e: "l \<in> set (event_line known dumps True e)" "loads (dumps (event_json known e)) = Some (event_json known e)"
    by auto
  from fresh_event [where loads = loads and dumps = dumps and known = known and e = e and l = l, OF Cons.prems(2) e(2,1)] obtain st1 where
    s: "take_line known loads render now l st = (Inr (), st1)" "fresh_run now st1" "vr_failure st1 = vr_failure st" by blast
  from Cons.IH [OF _ s(2)] Cons.prems(1) s(3) obtain st' where
    "verify_turns known loads render deadline (map (prompt_turn now) ls @ ts) st1 = verify_turns known loads render deadline ts st'"
    "fresh_run now st'" "vr_failure st' = vr_failure st" by auto
  moreover have "begin_turn deadline (prompt_turn now l) st = (Inr (), st)" "tn_read (prompt_turn now l) = Line_read now l"
    using fresh_turn [OF Cons.prems(2) assms(1)] by (simp_all add: prompt_turn_def)
  ultimately show ?case using s(1) by (intro exI [of _ st']) simp
qed auto

text \<open>
  The class of a verification's failure survives the process boundary: when the child of a verification
  fails and the parent reads all its lines in time, the parent raises an error that the classification puts in
  the same class, with the same status and the same delay, so that what is retried, and when, does not depend
  on where the verification ran.
\<close>

theorem failure_class_crosses:
  assumes "sdk_main known dumps ''verify_dataset_content'' evs (Inl e) = (ls, rc)"
    and "\<And>j. j \<in> insert (failure_json known e) (event_json known ` set evs) \<Longrightarrow> loads (dumps j) = Some j"
    and "0 < vb_publication b" and "0 < vb_transfer b" and "\<And>r. vb_retry b = Some r \<Longrightarrow> 0 < r"
  shows "\<exists>e' secs. run_verification known loads render b
        (map (prompt_turn (vb_start b)) ls @ [\<lparr>tn_now = vb_start b, tn_check = None, tn_read = Output_closed\<rparr>]) (Some rc) ended
        = Some (Inl e', secs)
    \<and> verification_error (as_verification e') = verification_error (as_verification e)"
proof -
  let ?now = "vb_start b" and ?d = "retry_deadline_of b"
  let ?closed = "\<lparr>tn_now = ?now, tn_check = None, tn_read = Output_closed\<rparr>"
  let ?last = "error_mark @ dumps (failure_json known e)"
  obtain out where ls: "ls = out @ [?last]" "rc = 1" "out = concat (map (event_line known dumps True) evs)"
    using assms(1) by (auto simp: sdk_main_def Let_def sdk_operations_def)
  have o: "\<forall>l \<in> set out. \<exists>e. l \<in> set (event_line known dumps True e) \<and> loads (dumps (event_json known e)) = Some (event_json known e)"
    using ls(3) assms(2) by auto
  have d: "?d = None \<or> (\<exists>d. ?d = Some d \<and> ?now < d)"
    using assms(5) by (cases "vb_retry b") (auto simp: retry_deadline_of_def)
  have f: "fresh_run ?now (new_run b)" using assms(3,4) by (simp add: fresh_run_def new_run_def)
  from fresh_events [OF d o f, where ts = "[prompt_turn ?now ?last, ?closed]"] obtain st where
    st: "verify_turns known loads render ?d (map (prompt_turn ?now) out @ [prompt_turn ?now ?last, ?closed]) (new_run b)
        = verify_turns known loads render ?d [prompt_turn ?now ?last, ?closed] st" "fresh_run ?now st" by blast
  let ?st = "st\<lparr>vr_failure := Some (failure_json known e)\<rparr>"
  have "fresh_run ?now ?st" using st(2) by (simp add: fresh_run_def)
  moreover have "take_line known loads render ?now ?last st = (Inr (), ?st)"
    using assms(2) by (simp add: take_line_def event_mark_def error_mark_def)
  ultimately have "verify_turns known loads render ?d [prompt_turn ?now ?last, ?closed] st = Some (Inr (), ?st)"
    using fresh_turn [OF st(2) d] fresh_turn [of ?now ?st ?d, OF _ d] by (simp add: prompt_turn_def)
  with st(1) ls(1,2) child_failure_class [of known e] show ?thesis
    by (simp add: run_verification_def judge_exit_def)
qed

definition sample_failure :: json where
  "sample_failure = failure_json [] (transport_error ''reset'')"

definition sample_dumps :: "json \<Rightarrow> string" where
  "sample_dumps j = (if j = sample_failure then ''f'' else ''e'')"

definition sample_loads :: "string \<Rightarrow> json option" where
  "sample_loads s = (if s = ''f'' then Some sample_failure else Some (event_json [] (Says ''started'')))"

definition sample_budget :: verify_budget where
  "sample_budget = \<lparr>vb_publication = 30, vb_transfer = 60, vb_retry = Some 600, vb_start = 5\<rparr>"

lemma failure_class_crosses_witness:
  "\<exists>e' secs. run_verification [] sample_loads (\<lambda>_. []) sample_budget
     (map (prompt_turn 5) (fst (sdk_main [] sample_dumps ''verify_dataset_content'' [Says ''started''] (Inl (transport_error ''reset''))))
       @ [\<lparr>tn_now = 5, tn_check = None, tn_read = Output_closed\<rparr>]) (Some 1) 9 = Some (Inl e', secs)
     \<and> verification_error (as_verification e') = \<lparr>fail_category = Transport, fail_http = None, fail_retry = None\<rparr>"
proof -
  let ?m = "sdk_main [] sample_dumps ''verify_dataset_content'' [Says ''started''] (Inl (transport_error ''reset''))"
  have m: "?m = (fst ?m, 1)" by (simp add: sdk_main_def Let_def sdk_operations_def)
  have "event_json [] (Says ''started'') \<noteq> sample_failure" by (simp add: event_json_def sample_failure_def failure_json_def Let_def)
  then have r: "sample_loads (sample_dumps j) = Some j"
    if "j \<in> insert (failure_json [] (transport_error ''reset'')) (event_json [] ` set [Says ''started''])" for j
    using that by (auto simp: sample_loads_def sample_dumps_def sample_failure_def)
  have b: "0 < vb_publication sample_budget" "0 < vb_transfer sample_budget" "\<And>r. vb_retry sample_budget = Some r \<Longrightarrow> 0 < r"
    and t: "vb_start sample_budget = 5"
    by (auto simp: sample_budget_def)
  from failure_class_crosses [OF m r b, of "\<lambda>_. []" 9] show ?thesis
    by (simp add: t transport_error_def verification_error_def)
qed

section \<open>Time\<close>

text \<open>All the time that passed was charged to one of the two phases.\<close>

definition all_charged :: "verify_budget \<Rightarrow> verify_run \<Rightarrow> bool" where
  "all_charged b st \<longleftrightarrow>
     (vb_publication b - vr_publication st) + (vb_transfer b - vr_content st) = vr_tick st - vb_start b
     \<and> vr_publication st \<le> vb_publication b \<and> vr_content st \<le> vb_transfer b"

lemma charge_all: "all_charged b st \<Longrightarrow> vr_tick st \<le> now \<Longrightarrow> all_charged b (charge now st) \<and> vr_tick (charge now st) = now"
  by (auto simp: all_charged_def charge_def split: verify_phase.split)

lemma begin_charged:
  assumes "begin_turn deadline t st = (r, st')" and "all_charged b st" and "vr_tick st \<le> tn_now t"
  shows "all_charged b st' \<and> vr_tick st' \<le> tn_now t \<and> (r = Inr () \<longrightarrow> vr_tick st' = tn_now t \<and> 0 < remaining st'
    \<and> (\<forall>d. deadline = Some d \<longrightarrow> tn_now t < d))"
  using assms charge_all [OF assms(2,3)]
  by (auto simp: begin_turn_def Let_def split: option.splits if_splits)

lemma enter_charged:
  "all_charged b st \<Longrightarrow> vr_tick st \<le> now \<Longrightarrow> all_charged b (enter_phase now p st) \<and> vr_tick (enter_phase now p st) \<le> now"
  using charge_all [of b st now] by (auto simp: enter_phase_def all_charged_def)

lemma charged_frame [simp]:
  "all_charged b (st\<lparr>vr_said := x\<rparr>) = all_charged b st" "all_charged b (st\<lparr>vr_failure := y\<rparr>) = all_charged b st"
  "all_charged b (st\<lparr>vr_result := z\<rparr>) = all_charged b st"
  by (simp_all add: all_charged_def)

lemma line_charged:
  assumes "take_line known loads render now l st = (r, st')" and "all_charged b st" and "vr_tick st \<le> now"
  shows "all_charged b st' \<and> vr_tick st' \<le> now"
  using assms enter_charged [OF assms(2,3)]
  by (auto simp: take_line_def take_event_def Let_def split: if_splits option.splits json.splits)

text \<open>The clock never goes back.\<close>

fun forward :: "time \<Rightarrow> turn list \<Rightarrow> time \<Rightarrow> bool" where
  "forward t0 [] ended \<longleftrightarrow> t0 \<le> ended"
| "forward t0 (t # ts) ended \<longleftrightarrow>
     t0 \<le> tn_now t \<and> (case tn_read t of Line_read now _ \<Rightarrow> tn_now t \<le> now \<and> forward now ts ended | _ \<Rightarrow> forward (tn_now t) ts ended)"

lemma forward_ends: "forward t0 ts ended \<Longrightarrow> t0 \<le> ended"
  by (induction ts arbitrary: t0) (fastforce split: turn_read.splits)+

lemma forward_earlier: "forward t0 ts ended \<Longrightarrow> t \<le> t0 \<Longrightarrow> forward t ts ended"
  by (cases ts) auto

lemma turns_charged:
  assumes "verify_turns known loads render deadline ts st = Some (r, st')" and "all_charged b st" and "forward (vr_tick st) ts ended"
  shows "all_charged b st' \<and> vr_tick st' \<le> ended"
  using assms
proof (induction ts arbitrary: st)
  case (Cons t ts)
  obtain r1 st1 where b1: "begin_turn deadline t st = (r1, st1)" by fastforce
  have tick: "vr_tick st \<le> tn_now t" "tn_now t \<le> ended"
    using Cons.prems(3) forward_ends by (auto split: turn_read.splits) (metis order.trans)+
  note c1 = begin_charged [OF b1 Cons.prems(2) tick(1)]
  show ?case
  proof (cases "r1 = Inr ()")
    case False
    then obtain e where "r1 = Inl e" by (cases r1) auto
    with Cons.prems(1) b1 c1 tick(2) show ?thesis by auto
  next
    case ok: True
    show ?thesis
    proof (cases "tn_read t")
      case Nothing_read
      with Cons b1 ok c1 show ?thesis by auto
    next
      case Output_closed
      with Cons.prems(1) b1 ok c1 tick(2) show ?thesis by auto
    next
      case (Line_read now l)
      obtain r2 st2 where l2: "take_line known loads render now l st1 = (r2, st2)" by fastforce
      have now: "vr_tick st1 \<le> now" "forward now ts ended" using Cons.prems(3) Line_read c1 ok by auto
      note c2 = line_charged [OF l2 conjunct1 [OF c1] now(1)]
      have "forward (vr_tick st2) ts ended" using forward_earlier [OF now(2)] c2 by blast
      with Cons.IH [of st2] Cons.prems(1) b1 ok Line_read l2 c2 forward_ends [OF now(2)] show ?thesis
        by (cases r2) auto
    qed
  qed
qed simp

text \<open>
  The seconds that a verification charges to the content are never negative and never more than the time
  it took, on a clock that does not go back: excluding them from the publication's deadline cannot move that
  deadline past the present.
\<close>

theorem content_time_within_run:
  assumes "run_verification known loads render b ts exit ended = Some (r, secs)" and "forward (vb_start b) ts ended"
  shows "0 \<le> secs \<and> secs \<le> ended - vb_start b"
proof -
  obtain r' st where t: "verify_turns known loads render (retry_deadline_of b) ts (new_run b) = Some (r', st)"
    and secs: "secs = max 0 (vb_transfer b - vr_content (charge ended st))"
    using assms(1) by (auto simp: run_verification_def split: option.splits)
  have "all_charged b (new_run b)" "vr_tick (new_run b) = vb_start b" by (simp_all add: all_charged_def new_run_def)
  with turns_charged [OF t] assms(2) have "all_charged b st" "vr_tick st \<le> ended" by auto
  from charge_all [OF this] have "all_charged b (charge ended st)" "vr_tick (charge ended st) = ended" by auto
  with secs forward_ends [OF assms(2)] show ?thesis by (auto simp: all_charged_def)
qed

lemma content_time_within_run_witness:
  "\<exists>r secs. run_verification [] sample_loads (\<lambda>_. []) sample_budget
      [\<lparr>tn_now = 8, tn_check = None, tn_read = Nothing_read\<rparr>, \<lparr>tn_now = 36, tn_check = None, tn_read = Nothing_read\<rparr>] None 37
      = Some (r, secs) \<and> secs \<le> 37 - (5::rat)"
proof -
  let ?ts = "[\<lparr>tn_now = 8, tn_check = None, tn_read = Nothing_read\<rparr>, \<lparr>tn_now = 36, tn_check = None, tn_read = Nothing_read\<rparr>]"
  obtain r secs where v: "run_verification [] sample_loads (\<lambda>_. []) sample_budget ?ts None 37 = Some (r, secs)"
    by (simp add: run_verification_def sample_budget_def new_run_def retry_deadline_of_def begin_turn_def charge_def remaining_def)
  from content_time_within_run [OF v] v show ?thesis by (auto simp: sample_budget_def)
qed

text \<open>A phase is overdrawn by at most one pause, and a turn that begins too late ends the run.\<close>

definition overdrawn_by :: "rat \<Rightarrow> verify_run \<Rightarrow> bool" where
  "overdrawn_by pause st \<longleftrightarrow> - pause \<le> vr_publication st \<and> - pause \<le> vr_content st"

definition too_late :: "verify_budget \<Rightarrow> rat \<Rightarrow> turn \<Rightarrow> bool" where
  "too_late b pause t \<longleftrightarrow> vb_start b + vb_publication b + vb_transfer b + pause < tn_now t
     \<or> (\<exists>r. vb_retry b = Some r \<and> vb_start b + r \<le> tn_now t)"

lemma begin_in_time:
  assumes "begin_turn (retry_deadline_of b) t st = (Inr (), st')" and "all_charged b st" and "vr_tick st \<le> tn_now t"
    and "overdrawn_by pause st" and "0 \<le> pause"
  shows "\<not> too_late b pause t \<and> overdrawn_by pause st' \<and> st' = charge (tn_now t) st"
proof -
  have st': "st' = charge (tn_now t) st" using assms(1) by (auto simp: begin_turn_def Let_def split: option.splits if_splits)
  from begin_charged [OF assms(1-3)] have c: "all_charged b st'" "vr_tick st' = tn_now t" "0 < remaining st'"
    and d: "\<forall>d. retry_deadline_of b = Some d \<longrightarrow> tn_now t < d" by auto
  have o: "overdrawn_by pause st'"
    using assms(4,5) c(3) unfolding st'
    by (auto simp: overdrawn_by_def charge_def remaining_def split: verify_phase.splits)
  have "- pause < vr_publication st' + vr_content st'"
    using o c(3) by (auto simp: overdrawn_by_def remaining_def split: verify_phase.splits)
  then have "\<not> vb_start b + vb_publication b + vb_transfer b + pause < tn_now t"
    using c(1,2) by (simp add: all_charged_def)
  with d o st' show ?thesis by (force simp: too_late_def retry_deadline_of_def)
qed

lemma charge_overdraws:
  assumes "overdrawn_by pause st" and "0 < remaining st" and "now \<le> vr_tick st + pause"
  shows "overdrawn_by pause (charge now st)"
  using assms by (auto simp: overdrawn_by_def charge_def remaining_def split: verify_phase.splits)

lemma line_overdraws:
  assumes "take_line known loads render now l st = (r, st')" and "overdrawn_by pause st" and "0 < remaining st"
    and "now \<le> vr_tick st + pause"
  shows "overdrawn_by pause st'"
proof -
  have e: "overdrawn_by pause (enter_phase now p st)" for p
    using charge_overdraws [OF assms(2-4)] assms(2) by (simp add: enter_phase_def overdrawn_by_def)
  have f: "overdrawn_by pause (x\<lparr>vr_said := m\<rparr>) = overdrawn_by pause x" "overdrawn_by pause (x\<lparr>vr_failure := j\<rparr>) = overdrawn_by pause x"
    "overdrawn_by pause (x\<lparr>vr_result := u\<rparr>) = overdrawn_by pause x" for x m j u
    by (simp_all add: overdrawn_by_def)
  show ?thesis
    using assms(1,2) e by (auto simp: take_line_def take_event_def Let_def f split: if_splits option.splits json.splits)
qed

lemma late_turn_ends:
  assumes "t \<in> set ts" and "too_late b pause t"
    and "\<And>t now l. t \<in> set ts \<Longrightarrow> tn_read t = Line_read now l \<Longrightarrow> now \<le> tn_now t + pause" and "0 \<le> pause"
    and "forward (vr_tick st) ts ended" and "all_charged b st" and "overdrawn_by pause st"
  shows "verify_turns known loads render (retry_deadline_of b) ts st \<noteq> None"
  using assms(1,3,5-7)
proof (induction ts arbitrary: st)
  case (Cons u ts)
  obtain r1 st1 where b1: "begin_turn (retry_deadline_of b) u st = (r1, st1)" by fastforce
  show ?case
  proof (cases "r1 = Inr () \<and> tn_read u \<noteq> Output_closed")
    case False
    with b1 show ?thesis by (cases r1) auto
  next
    case True
    then have b2: "begin_turn (retry_deadline_of b) u st = (Inr (), st1)" using b1 by simp
    have tick: "vr_tick st \<le> tn_now u" using Cons.prems(3) by simp
    note c = begin_in_time [OF b2 Cons.prems(4) tick Cons.prems(5) assms(4)] begin_charged [OF b2 Cons.prems(4) tick]
    have "t \<noteq> u" using c assms(2) by auto
    then have t: "t \<in> set ts" using Cons.prems(1) by simp
    show ?thesis
    proof (cases "tn_read u")
      case Nothing_read
      have "forward (vr_tick st1) ts ended" using Cons.prems(3) Nothing_read c by simp
      with Cons.IH [OF t _ this] Cons.prems(2) c b2 Nothing_read show ?thesis by auto
    next
      case (Line_read now l)
      obtain r2 st2 where l2: "take_line known loads render now l st1 = (r2, st2)" by fastforce
      have now: "vr_tick st1 \<le> now" "forward now ts ended" "now \<le> vr_tick st1 + pause"
        using Cons.prems(2,3) Line_read c by auto
      have lc: "all_charged b st2" "vr_tick st2 \<le> now" using line_charged [OF l2 _ now(1)] c by auto
      have "overdrawn_by pause st2" using line_overdraws [OF l2 _ _ now(3)] c by auto
      then have "verify_turns known loads render (retry_deadline_of b) ts st2 \<noteq> None"
        using Cons.IH [OF t _ forward_earlier [OF now(2) lc(2)] lc(1)] Cons.prems(2) by auto
      with b2 Line_read l2 show ?thesis by (cases r2) auto
    qed (use True in simp)
  qed
qed simp

text \<open>
  The parent of a verification does not wait for ever: with a clock that does not go back and waits of at
  most \<open>pause\<close>, it has left its loop by any turn that begins later than both phases together and one pause
  allow, or at the deadline of the retries.
\<close>

theorem verification_ends:
  assumes "t \<in> set ts" and "too_late b pause t"
    and "\<And>t now l. t \<in> set ts \<Longrightarrow> tn_read t = Line_read now l \<Longrightarrow> now \<le> tn_now t + pause" and "0 \<le> pause"
    and "forward (vb_start b) ts ended" and "0 \<le> vb_publication b" and "0 \<le> vb_transfer b"
  shows "run_verification known loads render b ts exit ended \<noteq> None"
proof -
  have "verify_turns known loads render (retry_deadline_of b) ts (new_run b) \<noteq> None"
    using assms by (intro late_turn_ends [OF assms(1-4)]) (auto simp: new_run_def all_charged_def overdrawn_by_def)
  then show ?thesis by (auto simp: run_verification_def)
qed

definition late_turn :: turn where
  "late_turn = \<lparr>tn_now = 96, tn_check = None, tn_read = Nothing_read\<rparr>"

lemma verification_ends_witness:
  "too_late sample_budget (1 / 5) late_turn
   \<and> run_verification [] sample_loads (\<lambda>_. []) sample_budget [prompt_turn 6 ''noise'', late_turn] None 97 \<noteq> None"
proof -
  let ?ts = "[prompt_turn 6 ''noise'', late_turn]"
  have l: "late_turn \<in> set ?ts" "too_late sample_budget (1 / 5) late_turn"
    by (simp_all add: too_late_def late_turn_def sample_budget_def)
  have p: "now \<le> tn_now t + 1 / 5" if "t \<in> set ?ts" "tn_read t = Line_read now x" for t now x
    using that by (auto simp: prompt_turn_def late_turn_def)
  have f: "forward (vb_start sample_budget) ?ts 97" by (simp add: sample_budget_def prompt_turn_def late_turn_def)
  have b: "0 \<le> vb_publication sample_budget" "0 \<le> vb_transfer sample_budget" by (simp_all add: sample_budget_def)
  from verification_ends [OF l p _ f b] l(2) show ?thesis by simp
qed

end
