(* ===== verification/Dataset_Wait.thy ===== *)
theory Dataset_Wait
  imports Dataset_Upload Child_Process
begin

text \<open>
  Waiting for a dataset version (\<^verbatim>\<open>wait_dataset\<close> of \<^verbatim>\<open>app/kaggle_adapter.py\<close>, with the inventories it compares). With
  a receipt that names the frozen directory, a round verifies the bytes of the version; without one, a round
  asks for the status and the list of files. A list of rounds stands for what the wait meets, with each
  reading of the clock; \<^const>\<open>None\<close> means that it still waits after the last one.
\<close>

section \<open>Rounds that verify the bytes\<close>

record wait_config =
  wc_visibility :: rat
  wc_publication :: rat
  wc_background :: bool

text \<open>
  A round: the checks at its start, the clock against the retries' deadline and the publication's, what the
  verification answers and the seconds it charges to the content; after a miss, the clock, the clock when a
  deadline is set and when the rest is computed, the jitter, and what interrupts the backoff or the sleep.
\<close>

record wait_round =
  wr_check :: "exc option"
  wr_retry_clock :: time
  wr_publication_clock :: time
  wr_verify :: "exc + unit"
  wr_content :: rat
  wr_failed_clock :: time
  wr_deadline_clock :: time
  wr_left_clock :: time
  wr_jitter :: rat
  wr_backoff :: "exc option"
  wr_sleep :: "exc option"

record wait_state =
  ws_publication_start :: time
  ws_retry_deadline :: "time option"
  ws_attempts :: nat
  ws_detail :: string

datatype 'a round_end = Ready 'a | Stops exc | Again

definition passing_codes :: "int set" where
  "passing_codes = {408, 409, 429, 500, 502, 503, 504}"

datatype miss = Still_publishing | Not_accessible | Passing | Final

definition miss_of :: "exc \<Rightarrow> miss" where
  "miss_of e =
     (let f = verification_error (as_verification e) in
      case fail_category f of
        Publication \<Rightarrow> Still_publishing
      | Transport \<Rightarrow> Passing
      | Http \<Rightarrow>
          (case fail_http f of
             Some n \<Rightarrow> if n \<in> {403, 404} then Not_accessible else if n \<in> passing_codes then Passing else Final
           | None \<Rightarrow> Final)
      | _ \<Rightarrow> Final)"

definition sleep_or :: "exc option \<Rightarrow> 'a round_end" where
  "sleep_or e = (case e of None \<Rightarrow> Again | Some x \<Rightarrow> Stops x)"

definition retry_delay :: "rat option \<Rightarrow> nat \<Rightarrow> rat \<Rightarrow> rat" where
  "retry_delay asked attempts jitter =
     max (case asked of None \<Rightarrow> 0 | Some r \<Rightarrow> r) (min 60 (5 * 2 ^ min (attempts - 1) 4) + jitter)"

definition exhausted :: "failure \<Rightarrow> string \<Rightarrow> exc" where
  "exhausted f m = Raised (Verify_error Transport (fail_http f) (fail_retry f)) m"

definition retry_transient :: "wait_config \<Rightarrow> wait_round \<Rightarrow> rat \<Rightarrow> failure \<Rightarrow> wait_state \<Rightarrow> 'a round_end \<times> wait_state" where
  "retry_transient c rd elapsed f st =
     (let deadline = (case ws_retry_deadline st of None \<Rightarrow> wr_deadline_clock rd + 600 | Some d \<Rightarrow> d);
          n = Suc (ws_attempts st);
          left = min (deadline - wr_left_clock rd) (wc_publication c - elapsed);
          delay = retry_delay (fail_retry f) n (wr_jitter rd);
          st = st\<lparr>ws_retry_deadline := Some deadline, ws_attempts := n\<rparr>
      in (if 5 < n \<or> left \<le> delay
          then Stops (exhausted f (''dataset_verification_retry_exhausted: original candidate retained; '' @ ws_detail st))
          else sleep_or (wr_backoff rd), st))"

definition after_miss :: "wait_config \<Rightarrow> wait_round \<Rightarrow> exc \<Rightarrow> string \<Rightarrow> wait_state \<Rightarrow> 'a round_end \<times> wait_state" where
  "after_miss c rd e detail_text st =
     (let elapsed = wr_failed_clock rd - ws_publication_start st; f = verification_error (as_verification e) in
      if wc_background c
      then (Stops (Raised (Verify_error (fail_category f) (fail_http f) (fail_retry f)) detail_text), st)
      else case miss_of e of
          Still_publishing \<Rightarrow>
            (if wc_publication c \<le> elapsed
             then Stops (verification_failed Publication (''payload_publication_timeout: '' @ ws_detail st))
             else sleep_or (wr_sleep rd), st)
        | Not_accessible \<Rightarrow>
            (if wc_visibility c \<le> 0 \<or> wc_visibility c < elapsed then Stops e else sleep_or (wr_sleep rd), st)
        | Passing \<Rightarrow> retry_transient c rd elapsed f st
        | Final \<Rightarrow> (Stops e, st))"

definition retries_over :: "wait_round \<Rightarrow> wait_state \<Rightarrow> bool" where
  "retries_over rd st \<longleftrightarrow> (case ws_retry_deadline st of None \<Rightarrow> False | Some d \<Rightarrow> d \<le> wr_retry_clock rd)"

definition publication_over :: "wait_config \<Rightarrow> wait_round \<Rightarrow> wait_state \<Rightarrow> bool" where
  "publication_over c rd st \<longleftrightarrow> wc_publication c \<le> wr_publication_clock rd - ws_publication_start st"

definition verified_round ::
  "string list \<Rightarrow> wait_config \<Rightarrow> wait_round \<Rightarrow> wait_state \<Rightarrow> unit round_end \<times> wait_state" where
  "verified_round known c rd st =
     (case wr_check rd of
        Some e \<Rightarrow> (Stops e, st)
      | None \<Rightarrow>
          if retries_over rd st
          then (Stops (verification_failed Transport
                  (''dataset_verification_retry_exhausted: original candidate retained; '' @ ws_detail st)), st)
          else if publication_over c rd st
          then (Stops (verification_failed Publication
                  (''payload_publication_timeout: Dataset publication deadline exceeded; '' @ ws_detail st)), st)
          else let st = st\<lparr>ws_publication_start := ws_publication_start st + wr_content rd\<rparr> in
            case wr_verify rd of
              Inr _ \<Rightarrow> (Ready (), st)
            | Inl e \<Rightarrow>
                let text = redact_secrets known (exc_text e)
                in after_miss c rd e text (st\<lparr>ws_detail := last_chars 1200 text\<rparr>))"

fun wait_verified ::
  "string list \<Rightarrow> wait_config \<Rightarrow> wait_round list \<Rightarrow> wait_state \<Rightarrow> (exc + unit) option" where
  "wait_verified known c [] st = None"
| "wait_verified known c (rd # rds) st =
     (case verified_round known c rd st of
        (Ready _, _) \<Rightarrow> Some (Inr ())
      | (Stops e, _) \<Rightarrow> Some (Inl e)
      | (Again, st') \<Rightarrow> wait_verified known c rds st')"

definition new_wait :: "time \<Rightarrow> wait_state" where
  "new_wait now = \<lparr>ws_publication_start = now, ws_retry_deadline = None, ws_attempts = 0, ws_detail = []\<rparr>"

section \<open>Rounds that ask for the status\<close>

text \<open>The list of files of a version, page by page; an entry whose size is no number is skipped.\<close>

datatype files_page = Files_failed exc | Files "(string \<times> int option) list" bool

definition forward_slashes :: "string \<Rightarrow> string" where
  "forward_slashes s = map (\<lambda>c. if c = CHR 0x5C then CHR ''/'' else c) s"

fun note_files :: "(string \<times> int option) list \<Rightarrow> int dict \<Rightarrow> int dict" where
  "note_files [] found = found"
| "note_files ((name, n) # xs) found =
     note_files xs (case n of
       None \<Rightarrow> found
     | Some k \<Rightarrow> if forward_slashes name = [] then found else AList.update (forward_slashes name) k found)"

fun dataset_file_inventory :: "files_page list \<Rightarrow> int dict \<Rightarrow> (exc + int dict) option" where
  "dataset_file_inventory [] found = None"
| "dataset_file_inventory (p # ps) found =
     (case p of
        Files_failed e \<Rightarrow> Some (Inl e)
      | Files xs next_page \<Rightarrow>
          if next_page then dataset_file_inventory ps (note_files xs found) else Some (Inr (note_files xs found)))"

record status_round =
  sr_check :: "exc option"
  sr_code :: int
  sr_output :: string
  sr_elapsed :: rat
  sr_files :: "exc + int dict"
  sr_sleep :: "exc option"

definition any_word :: "string list \<Rightarrow> string \<Rightarrow> bool" where
  "any_word ws text \<longleftrightarrow> list_ex (\<lambda>w. contains w text) ws"

definition denied_words :: "string list" where "denied_words = [''401'', ''unauthorized'']"

definition hidden_words :: "string list" where "hidden_words = [''403'', ''404'', ''forbidden'', ''not found'']"

definition grace_over :: "rat \<Rightarrow> rat \<Rightarrow> bool" where
  "grace_over visibility elapsed \<longleftrightarrow> visibility \<le> 0 \<or> visibility < elapsed"

text \<open>Whether all expected files are listed with their sizes, or why the listing stops the wait.\<close>

definition files_visible :: "string list \<Rightarrow> rat \<Rightarrow> status_round \<Rightarrow> (string \<times> int) list \<Rightarrow> exc + bool" where
  "files_visible known visibility rd expected =
     (if expected = [] then Inr True
      else case sr_files rd of
          Inl e \<Rightarrow>
            (let text = redact_secrets known (exc_text e) in
             if any_word denied_words (lower text) \<or> any_word hidden_words (lower text) \<and> grace_over visibility (sr_elapsed rd)
             then Inl (runtime_error (''Dataset file visibility check failed: '' @ text))
             else Inr (text = []))
        | Inr listed \<Rightarrow> Inr (list_all (\<lambda>(name, n). map_of listed name = Some n) expected))"

definition version_seen :: "int option \<Rightarrow> int option \<Rightarrow> bool" where
  "version_seen expected current \<longleftrightarrow> expected = None \<or> current = expected"

definition version_passed :: "int option \<Rightarrow> int option \<Rightarrow> bool" where
  "version_passed expected current \<longleftrightarrow> (case (expected, current) of (Some e, Some n) \<Rightarrow> e < n | _ \<Rightarrow> False)"

text \<open>A round that is not ready: a failure that is final, an account that may still gain access, or a pause.\<close>

definition unready_round :: "rat \<Rightarrow> status_round \<Rightarrow> string \<Rightarrow> string round_end" where
  "unready_round visibility rd output =
     (let text = lower output in
      if sr_code rd = 0 \<and> any_word [''failed'', ''error'', ''deleted''] text
      then Stops (runtime_error (''Dataset failed:'' @ newline @ output))
      else if sr_code rd \<noteq> 0 \<and> any_word denied_words text
      then Stops (runtime_error (''Dataset status failed:'' @ newline @ output))
      else if sr_code rd \<noteq> 0 \<and> any_word hidden_words text
      then (if 0 < visibility \<and> sr_elapsed rd \<le> visibility then sleep_or (sr_sleep rd)
            else Stops (runtime_error (''Dataset status failed:'' @ newline @ output)))
      else if 30 * 60 < sr_elapsed rd
      then Stops (transport_error (''Dataset wait timed out before the uploaded version became visible:'' @ newline @ output))
      else sleep_or (sr_sleep rd))"

definition status_output :: "status_round \<Rightarrow> string" where
  "status_output rd = (if strip (sr_output rd) = [] then ''returncode='' @ int_text (sr_code rd) else strip (sr_output rd))"

definition status_round_end ::
  "(string \<Rightarrow> json option) \<Rightarrow> (json \<Rightarrow> string) \<Rightarrow> string list \<Rightarrow> rat \<Rightarrow> int option \<Rightarrow> (string \<times> int) list \<Rightarrow> status_round
   \<Rightarrow> string round_end" where
  "status_round_end loads render known visibility expected files rd =
     (case sr_check rd of
        Some e \<Rightarrow> Stops e
      | None \<Rightarrow>
          let output = status_output rd; (status, current) = parse_kaggle_dataset_status loads render output in
          if sr_code rd = 0 \<and> status \<in> set ready_statuses
          then (if version_passed expected current
                then Stops (runtime_error (''Dataset advanced past uploaded version''))
                else if \<not> version_seen expected current then unready_round visibility rd output
                else case files_visible known visibility rd files of
                    Inl e \<Rightarrow> Stops e
                  | Inr True \<Rightarrow> Ready output
                  | Inr False \<Rightarrow> unready_round visibility rd output)
          else unready_round visibility rd output)"

fun wait_status ::
  "(string \<Rightarrow> json option) \<Rightarrow> (json \<Rightarrow> string) \<Rightarrow> string list \<Rightarrow> rat \<Rightarrow> int option \<Rightarrow> (string \<times> int) list
   \<Rightarrow> status_round list \<Rightarrow> (exc + string) option" where
  "wait_status loads render known visibility expected files [] = None"
| "wait_status loads render known visibility expected files (rd # rds) =
     (case status_round_end loads render known visibility expected files rd of
        Ready output \<Rightarrow> Some (Inr output)
      | Stops e \<Rightarrow> Some (Inl e)
      | Again \<Rightarrow> wait_status loads render known visibility expected files rds)"

section \<open>The wait\<close>

text \<open>\<open>base\<close> is the grace of the settings; \<open>dumps\<close> prints the document of a verified version.\<close>

definition ready_document :: "int \<Rightarrow> json" where
  "ready_document v = JObj [(''status'', JStr ''ready''), (''current_version_number'', JInt v)]"

definition wait_dataset ::
  "(string \<Rightarrow> json option) \<Rightarrow> (json \<Rightarrow> string) \<Rightarrow> (json \<Rightarrow> string) \<Rightarrow> string list \<Rightarrow> rat \<Rightarrow> rat \<Rightarrow> full_receipt option \<Rightarrow> bool
   \<Rightarrow> time \<Rightarrow> wait_round list \<Rightarrow> status_round list \<Rightarrow> (exc + string) option" where
  "wait_dataset loads render dumps known grace base r background now rds srs =
     (let visibility = max 0 grace in
      case r of
        None \<Rightarrow> wait_status loads render known visibility None [] srs
      | Some r \<Rightarrow>
          (case expected_version r of
             None \<Rightarrow> Some (Inl (runtime_error ''Dataset upload receipt is missing the expected version number''))
           | Some v \<Rightarrow>
               if receipt_dir r \<noteq> []
               then map_option (map_sum id (\<lambda>_. dumps (ready_document v)))
                 (wait_verified known
                    \<lparr>wc_visibility = visibility, wc_publication = max visibility base, wc_background = background\<rparr> rds (new_wait now))
               else wait_status loads render known visibility (Some v) (expected_files r) srs))"

text \<open>The files an upload is expected to show, in order of name.\<close>

definition archive_files :: "member list \<Rightarrow> int dict" where
  "archive_files ms =
     fold (\<lambda>m found. let name = dropWhile (\<lambda>c. c = CHR ''/'') (forward_slashes (filename m)) in
       if is_dir m \<or> name = [] then found else AList.update name (file_size m) found) ms []"

definition loose_files :: "entry list \<Rightarrow> int dict" where
  "loose_files es =
     fold (\<lambda>e found. if entry_file e \<and> entry_name e \<noteq> ''dataset-metadata.json''
       then AList.update (entry_path e) (size_of (entry_bytes e)) found else found) es []"

definition dataset_upload_inventory :: "(string \<Rightarrow> archive) \<Rightarrow> dataset_tree \<Rightarrow> exc + (string \<times> int) list" where
  "dataset_upload_inventory unzip d =
     (case payload d of
        Some b \<Rightarrow>
          (case unzip b of
             Bad_archive e \<Rightarrow> Inl (runtime_error (''invalid dataset payload.zip: '' @ e))
           | Archive ms \<Rightarrow> Inr (sort_key fst (archive_files ms)))
      | None \<Rightarrow> Inr (sort_key fst (loose_files (entries d))))"

section \<open>What ends a wait\<close>

text \<open>The misses after which a wait goes on.\<close>

definition goes_on :: "wait_round \<Rightarrow> bool" where
  "goes_on rd \<longleftrightarrow> (\<exists>e. wr_verify rd = Inl e \<and> miss_of e \<noteq> Final)"

definition passing :: "wait_round \<Rightarrow> bool" where
  "passing rd \<longleftrightarrow> (\<exists>e. wr_verify rd = Inl e \<and> miss_of e = Passing)"

lemma sleep_or_ends [simp]: "sleep_or e \<noteq> Ready x" "sleep_or e = Again \<longleftrightarrow> e = None"
  by (auto simp: sleep_or_def split: option.split)

lemma round_again:
  assumes "verified_round known c rd st = (Again, st')"
  shows "goes_on rd \<and> \<not> wc_background c \<and> \<not> publication_over c rd st
    \<and> ws_publication_start st' = ws_publication_start st + wr_content rd
    \<and> ws_attempts st' = ws_attempts st + (if passing rd then 1 else 0) \<and> (passing rd \<longrightarrow> ws_attempts st' \<le> 5)
    \<and> (\<forall>d. ws_retry_deadline st = Some d \<longrightarrow> wr_retry_clock rd < d \<and> ws_retry_deadline st' = Some d)"
proof -
  from assms obtain e where e: "wr_verify rd = Inl e" "wr_check rd = None" "\<not> retries_over rd st" "\<not> publication_over c rd st"
    and a: "after_miss c rd e (redact_secrets known (exc_text e))
      (st\<lparr>ws_publication_start := ws_publication_start st + wr_content rd, ws_detail := last_chars 1200 (redact_secrets known (exc_text e))\<rparr>)
      = (Again :: unit round_end, st')"
    by (auto simp: verified_round_def Let_def split: option.splits if_splits sum.splits)
  have d: "\<forall>d. ws_retry_deadline st = Some d \<longrightarrow> wr_retry_clock rd < d" using e(3) by (auto simp: retries_over_def)
  have b: "\<not> wc_background c" using a by (auto simp: after_miss_def Let_def)
  show ?thesis
    using a e d b
    by (cases "miss_of e")
      (auto simp: after_miss_def retry_transient_def Let_def goes_on_def passing_def split: if_splits option.splits)
qed

lemma round_ready:
  "verified_round known c rd st = (Ready u, st') \<Longrightarrow> wr_verify rd = Inr ()"
  by (auto simp: verified_round_def after_miss_def retry_transient_def Let_def split: option.splits if_splits sum.splits miss.splits)

text \<open>How a wait goes: some rounds after which it goes on, then one that ends it.\<close>

lemma wait_splits:
  assumes "wait_verified known c rds st = Some r"
  shows "\<exists>i < length rds. list_all goes_on (take i rds) \<and> (wc_background c \<longrightarrow> i = 0)
    \<and> (length (filter passing (take i rds)) + ws_attempts st \<le> 5 \<or> filter passing (take i rds) = [])
    \<and> (r = Inr () \<longrightarrow> wr_verify (rds ! i) = Inr ())"
  using assms
proof (induction rds arbitrary: st)
  case (Cons rd rds)
  obtain x st1 where v: "verified_round known c rd st = (x, st1)" by fastforce
  show ?case
  proof (cases x)
    case Again
    with v have v: "verified_round known c rd st = (Again, st1)" by simp
    note g = round_again [OF v]
    from Cons.IH [of st1] Cons.prems v obtain i where
      i: "i < length rds" "list_all goes_on (take i rds)"
        "length (filter passing (take i rds)) + ws_attempts st1 \<le> 5 \<or> filter passing (take i rds) = []"
        "r = Inr () \<longrightarrow> wr_verify (rds ! i) = Inr ()" by auto
    have "length (filter passing (take (Suc i) (rd # rds))) + ws_attempts st \<le> 5 \<or> filter passing (take (Suc i) (rd # rds)) = []"
      using i(3) g by auto
    with i(1,2,4) g show ?thesis by (intro exI [of _ "Suc i"]) simp
  next
    case (Ready u)
    with v round_ready [of known c rd st u st1] show ?thesis by (intro exI [of _ 0]) simp
  next
    case (Stops e)
    with v Cons.prems show ?thesis by (intro exI [of _ 0]) auto
  qed
qed simp

text \<open>
  C12: A wait for an uploaded version ends well only in a round whose verification succeeded, and it waited only
  through rounds whose failure was one of publication, of access, or transient: a wrong content, a refused
  identity or any other final failure is never retried, and at most five transient failures are. If each
  successful verification was a check of the version's content, then the version was accepted for its bytes.
\<close>

theorem ready_only_verified:
  assumes "wait_verified known c rds (new_wait now) = Some (Inr ())"
    and "\<And>rd. rd \<in> set rds \<Longrightarrow> wr_verify rd = Inr () \<Longrightarrow>
      \<exists>db S db'. checks scope_of sha256 unzip db S
        \<and> verify_dataset_content scope_of sha256 unzip tree False (wc_background c) w (run_of_round rd) db = Some (Inr (), db')"
  shows "\<exists>i < length rds. wr_verify (rds ! i) = Inr () \<and> list_all goes_on (take i rds)
    \<and> length (filter passing (take i rds)) \<le> 5 \<and> (wc_background c \<longrightarrow> i = 0)
    \<and> (archive_accepted sha256 unzip tree (run_of_round (rds ! i))
       \<or> (\<exists>db S. checks scope_of sha256 unzip db S
            \<and> files_accepted sha256 unzip tree w (run_of_round (rds ! i)) (S \<union> answers (run_of_round (rds ! i)))))"
proof -
  from wait_splits [OF assms(1)] obtain i where
    i: "i < length rds" "list_all goes_on (take i rds)" "wc_background c \<longrightarrow> i = 0" "wr_verify (rds ! i) = Inr ()"
    and p: "length (filter passing (take i rds)) + ws_attempts (new_wait now) \<le> 5 \<or> filter passing (take i rds) = []" by blast
  from assms(2) [OF nth_mem [OF i(1)] i(4)] obtain db S db' where
    ch: "checks scope_of sha256 unzip db S"
      "verify_dataset_content scope_of sha256 unzip tree False (wc_background c) w (run_of_round (rds ! i)) db = Some (Inr (), db')"
    by blast
  have "store_ok db" "backed sha256 (S \<union> answers (run_of_round (rds ! i))) db"
    using checks_backed [OF ch(1)] backed_mono by blast+
  with content_sound [OF ch(2)] have "archive_accepted sha256 unzip tree (run_of_round (rds ! i))
      \<or> files_accepted sha256 unzip tree w (run_of_round (rds ! i)) (S \<union> answers (run_of_round (rds ! i)))" by blast
  with i p ch(1) show ?thesis by (intro exI [of _ i]) (auto simp: new_wait_def)
qed

text \<open>
  A wait ends: it has ended by any round that begins when the publication's grace has passed, the time
  charged to the content so far not counted, and by any round that begins at the end of the retries.
\<close>

theorem wait_ends:
  assumes "i < length rds"
    and "wc_publication c \<le> wr_publication_clock (rds ! i) - (now + sum_list (map wr_content (take i rds)))"
  shows "wait_verified known c rds (new_wait now) \<noteq> None"
proof -
  have "wait_verified known c rds st \<noteq> None"
    if "i < length rds" "wc_publication c \<le> wr_publication_clock (rds ! i)
      - (ws_publication_start st + sum_list (map wr_content (take i rds)))" for i rds st
    using that
  proof (induction rds arbitrary: st i)
    case (Cons rd rds)
    obtain x st1 where v: "verified_round known c rd st = (x, st1)" by fastforce
    show ?case
    proof (cases "x = Again")
      case True
      with v have v: "verified_round known c rd st = (Again, st1)" by simp
      note g = round_again [OF v]
      have "i \<noteq> 0" using Cons.prems(2) g by (cases i) (auto simp: publication_over_def)
      then obtain k where k: "i = Suc k" by (cases i) auto
      have "wait_verified known c rds st1 \<noteq> None"
        using Cons.prems g by (intro Cons.IH [of k]) (simp_all add: k algebra_simps)
      with v show ?thesis by simp
    next
      case False
      with v show ?thesis by (cases x) auto
    qed
  qed simp
  from this [of i rds "new_wait now"] assms show ?thesis by (simp add: new_wait_def)
qed

text \<open>
  A shutdown or a cancellation that reaches a recheck while it verifies is taken for a final failure of the
  verification: the wait raises an error of its own class, so that the worker neither leaves the job to the
  restart nor cancels it, but keeps the candidate and blocks its further rechecks.
\<close>

theorem interrupted_recheck_is_blocked:
  assumes "e \<in> {Interrupted_exc m, Canceled_exc m}" and "wc_background c"
    and "wr_check rd = None" and "wr_verify rd = Inl e" and "wr_publication_clock rd < now + wc_publication c"
  shows "\<exists>e'. wait_verified known c [rd] (new_wait now) = Some (Inl e')
    \<and> (\<forall>w t jid db. keep_candidate w t jid e' db =
         block_recheck t jid ''failure is not a transient publication or transport error''
           (retain_candidate t jid
              (''dataset_upload_outcome_unknown: original candidate retained; '' @ redact_secrets (w_known w) (exc_text e')) db))
    \<and> (\<forall>w t j db. candidate_kept w e' \<longrightarrow> status (latest_job j db) = Waiting_dataset
         \<longrightarrow> fst (handle_exception w t j e' db) = Candidate_retained)
    \<and> (\<forall>w t j db. fst (handle_exception w t j e db) \<in> {Left_for_restart, Ended_canceled})"
proof -
  let ?e = "Raised (Verify_error Fatal None None) (redact_secrets known m)"
  have f: "verification_error (as_verification e) = \<lparr>fail_category = Fatal, fail_http = None, fail_retry = None\<rparr>"
    using assms(1) by (auto simp: verification_error_def)
  have "wait_verified known c [rd] (new_wait now) = Some (Inl ?e)"
    using assms f
    by (auto simp: verified_round_def new_wait_def retries_over_def publication_over_def after_miss_def Let_def)
  moreover have "\<not> worth_rechecking ?e"
    by (simp add: worth_rechecking_def retryable_verification_def verification_error_def)
  ultimately show ?thesis
    using assms(1) by (auto simp: keep_candidate_def handle_exception_def Let_def)
qed

text \<open>
  Without the bytes to verify, a wait ends well only on an output that reads as a ready status of exactly
  the expected version, in a round in which every expected file is listed with its size (or the listing failed
  without a word).
\<close>

theorem status_wait_sound:
  assumes "wait_status loads render known visibility (Some v) files srs = Some (Inr output)"
  shows "\<exists>rd \<in> set srs. output = status_output rd \<and> sr_code rd = 0
    \<and> (\<exists>s. parse_kaggle_dataset_status loads render output = (s, Some v) \<and> s \<in> set ready_statuses)
    \<and> (files = [] \<or> (case sr_files rd of
          Inr listed \<Rightarrow> \<forall>(name, n) \<in> set files. map_of listed name = Some n
        | Inl e \<Rightarrow> redact_secrets known (exc_text e) = []))"
  using assms
proof (induction srs)
  case (Cons rd srs)
  show ?case
  proof (cases "status_round_end loads render known visibility (Some v) files rd")
    case (Ready out)
    have u: "unready_round visibility rd out' \<noteq> Ready x" for out' x by (simp add: unready_round_def Let_def)
    obtain s cur where p: "parse_kaggle_dataset_status loads render (status_output rd) = (s, cur)" by fastforce
    from Ready Cons.prems have o: "out = output" by simp
    from Ready p o u have "output = status_output rd" "sr_code rd = 0" "s \<in> set ready_statuses" "cur = Some v"
        "files_visible known visibility rd files = Inr True"
      by (auto simp: status_round_end_def version_seen_def Let_def split: option.splits if_splits sum.splits bool.splits)
    with p show ?thesis
      by (auto simp: files_visible_def Let_def list_all_iff split: if_splits sum.splits)
  qed (use Cons in auto)
qed simp

section \<open>Witnesses\<close>

definition sample_round :: "time \<Rightarrow> exc + unit \<Rightarrow> wait_round" where
  "sample_round t v = \<lparr>wr_check = None, wr_retry_clock = t, wr_publication_clock = t, wr_verify = v, wr_content = 2,
     wr_failed_clock = t + 3, wr_deadline_clock = t + 3, wr_left_clock = t + 3, wr_jitter = 1, wr_backoff = None, wr_sleep = None\<rparr>"

definition sample_wait :: "bool \<Rightarrow> wait_config" where
  "sample_wait b = \<lparr>wc_visibility = 0, wc_publication = 300, wc_background = b\<rparr>"

definition sample_rounds :: "wait_round list" where
  "sample_rounds = [sample_round 10 (Inl (Raised Verify_not_ready ''listing'')), sample_round 20 (Inl (transport_error ''reset'')),
     sample_round 40 (Inr ())]"

lemma sample_wait_ready: "wait_verified [] (sample_wait False) sample_rounds (new_wait 5) = Some (Inr ())"
  by (simp add: sample_rounds_def sample_round_def sample_wait_def new_wait_def verified_round_def retries_over_def
      publication_over_def after_miss_def miss_of_def verification_error_def transport_error_def retry_transient_def
      retry_delay_def sleep_or_def Let_def)

lemma ready_only_verified_witness:
  "\<exists>i < 3. wr_verify (sample_rounds ! i) = Inr () \<and> length (filter passing (take i sample_rounds)) \<le> 5"
proof -
  have c: "checks (\<lambda>a d. a @ d) (\<lambda>b. b) sample_unzip \<lparr>candidates = [], accounts = []\<rparr> {}" by (rule checks.empty_store) simp
  have "map_option fst (verify_dataset_content (\<lambda>a d. a @ d) (\<lambda>b. b) sample_unzip sample_loose False False sample_version
      sample_check \<lparr>candidates = [], accounts = []\<rparr>) = Some (Inr ())" by code_simp
  then obtain db' where v: "verify_dataset_content (\<lambda>a d. a @ d) (\<lambda>b. b) sample_unzip sample_loose False
      (wc_background (sample_wait False)) sample_version sample_check \<lparr>candidates = [], accounts = []\<rparr> = Some (Inr (), db')"
    by (auto simp: sample_wait_def)
  have "\<exists>db S db'. checks (\<lambda>a d. a @ d) (\<lambda>b. b) sample_unzip db S \<and> verify_dataset_content (\<lambda>a d. a @ d) (\<lambda>b. b) sample_unzip
      sample_loose False (wc_background (sample_wait False)) sample_version ((\<lambda>_. sample_check) rd) db = Some (Inr (), db')" for rd :: wait_round
    using c v by blast
  moreover have "length sample_rounds = 3" by (simp add: sample_rounds_def)
  ultimately show ?thesis using ready_only_verified [OF sample_wait_ready, where run_of_round = "\<lambda>_. sample_check"] by metis
qed

lemma wait_ends_witness:
  "wait_verified [] (sample_wait False) [sample_round 10 (Inl (Raised Verify_not_ready ''listing'')),
     sample_round 400 (Inl (Raised Verify_not_ready ''listing''))] (new_wait 5) \<noteq> None"
  by (rule wait_ends [of 1]) (simp_all add: sample_round_def sample_wait_def)

lemma interrupted_recheck_is_blocked_witness:
  "\<exists>e'. wait_verified [] (sample_wait True) [sample_round 10 (Inl (Interrupted_exc ''stop''))] (new_wait 5) = Some (Inl e')
     \<and> (\<forall>w t j db. candidate_kept w e' \<longrightarrow> status (latest_job j db) = Waiting_dataset
         \<longrightarrow> fst (handle_exception w t j e' db) = Candidate_retained)"
proof -
  let ?rd = "sample_round 10 (Inl (Interrupted_exc ''stop''))"
  have "Interrupted_exc ''stop'' \<in> {Interrupted_exc ''stop'', Canceled_exc ''stop''}" "wc_background (sample_wait True)"
    "wr_check ?rd = None" "wr_verify ?rd = Inl (Interrupted_exc ''stop'')"
    "wr_publication_clock ?rd < 5 + wc_publication (sample_wait True)"
    by (simp_all add: sample_wait_def sample_round_def)
  from interrupted_recheck_is_blocked [OF this, of "[]"] show ?thesis by blast
qed

end
