(* ===== verification/Upload.thy ===== *)
theory Upload
  imports Provider_Text
begin

text \<open>
  The upload of a job's archives in chunks, its completion, deletion and retention (handlers of \<^verbatim>\<open>app/main.py\<close>,
  \<open>assemble_archive\<close> of \<^verbatim>\<open>app/archive.py\<close>). A chunk is uploaded by a stream: it is opened under the lock of the job,
  takes the parts of the body without the lock, and is stored under the lock again; other requests run in between.
  The state adds to the pool of workers the stored part files, the open streams and the counters of them. \<open>sha256\<close>
  is the hexadecimal digest of a file's bytes. The handlers cannot be interrupted while they hold a job's lock,
  except by the parties that do not take it: those are further steps.
\<close>

section \<open>State\<close>

type_synonym part_key = "string \<times> archive_type \<times> int"

text \<open>A stream: what the request declared, the row it read when it was opened, and the bytes received.\<close>

record stream =
  st_job :: job
  st_type :: archive_type
  st_index :: int
  st_size :: int
  st_sha :: string
  st_user :: principal
  st_body :: string

record upload_state =
  up_pool :: pool
  parts :: "part_key \<Rightarrow> string option"
  upload_count :: nat
  user_uploads :: "nat dict"
  active_uploads :: "nat dict"
  streams :: "stream list"

definition up_db :: "upload_state \<Rightarrow> relay_db" where
  "up_db s = pool_db (up_pool s)"

definition up_auth :: "upload_state \<Rightarrow> auth_store" where
  "up_auth s = app_auth (pool_app (up_pool s))"

definition set_up_db :: "relay_db \<Rightarrow> upload_state \<Rightarrow> upload_state" where
  "set_up_db db s = s\<lparr>up_pool := (up_pool s)\<lparr>pool_app := (pool_app (up_pool s))\<lparr>app_db := db\<rparr>\<rparr>\<rparr>"

definition enqueue :: "work \<Rightarrow> upload_state \<Rightarrow> upload_state" where
  "enqueue item s = s\<lparr>up_pool := (up_pool s)\<lparr>pool_app := (pool_app (up_pool s))
     \<lparr>work_queue := work_queue (pool_app (up_pool s)) @ [item]\<rparr>\<rparr>\<rparr>"

definition archive_bytes :: "job \<Rightarrow> archive_type \<Rightarrow> int" where
  "archive_bytes j ty = (case ty of Dataset_archive \<Rightarrow> dataset_size j | Kernel_archive \<Rightarrow> kernel_size j)"

section \<open>The deadline of an upload\<close>

text \<open>The configured number of hours is a whole number.\<close>

definition expired_message :: "settings \<Rightarrow> string" where
  "expired_message cfg = ''upload timed out: incomplete after '' @ int_text \<lfloor>receiving_timeout_hours cfg\<rfloor>
     @ '' hours from job creation; submit a new job''"

definition past_deadline :: "settings \<Rightarrow> time \<Rightarrow> job \<Rightarrow> bool" where
  "past_deadline cfg now j \<longleftrightarrow> created_at j + receiving_timeout_hours cfg * 3600 \<le> now"

definition expire_receiving_upload :: "settings \<Rightarrow> time \<Rightarrow> job \<Rightarrow> relay_db \<Rightarrow> string \<times> relay_db" where
  "expire_receiving_upload cfg now j db =
     (if status j \<noteq> Receiving \<or> \<not> past_deadline cfg now j then ([], db)
      else let (db', done) = update_job_if_status db now (job_id j) {Receiving} False None
                 [Set_status Failed, Set_error (expired_message cfg), Set_cleanup_due_at (Some now)]
           in (if done then expired_message cfg else [], db'))"

definition reject_expired_upload :: "settings \<Rightarrow> time \<Rightarrow> job \<Rightarrow> relay_db \<Rightarrow> http_error option \<times> relay_db" where
  "reject_expired_upload cfg now j db =
     (let (e, db') = expire_receiving_upload cfg now j db
      in (if e = [] then None else Some (HTTPException 409 e), db'))"

section \<open>A stream is opened\<close>

datatype upload_answer = Duplicate | Stored | Streaming stream

definition archive_text :: "archive_error \<Rightarrow> string" where
  "archive_text e = (case e of ArchiveError t \<Rightarrow> t)"

definition is_sha_text :: "string \<Rightarrow> bool" where
  "is_sha_text t \<longleftrightarrow> length t = 64 \<and> list_all (\<lambda>c. c \<in> set ''0123456789abcdefABCDEF'') t"

definition chunk_extent :: "job \<Rightarrow> archive_type \<Rightarrow> int \<Rightarrow> int" where
  "chunk_extent j ty i = min (chunk_size j) (archive_bytes j ty - i * chunk_size j)"

definition declared_error :: "job \<Rightarrow> archive_type \<Rightarrow> int \<Rightarrow> string \<Rightarrow> int \<Rightarrow> http_error option" where
  "declared_error j ty i sha sz =
     (if status j \<noteq> Receiving then Some (HTTPException 409 ''job is no longer receiving chunks'')
      else case validate_chunk_index i (archive_bytes j ty) (chunk_size j) of
          Some e \<Rightarrow> Some (HTTPException 400 (archive_text e))
        | None \<Rightarrow>
            if sz \<noteq> chunk_extent j ty i then Some (HTTPException 400 ''invalid declared chunk size'')
            else if \<not> is_sha_text sha then Some (HTTPException 400 ''invalid chunk sha256'')
            else None)"

definition open_stream :: "time \<Rightarrow> stream \<Rightarrow> upload_state \<Rightarrow> upload_state" where
  "open_stream now st s =
     set_up_db (touch_upload (up_db s) now (job_id (st_job st)))
       (s\<lparr>upload_count := upload_count s + 1,
          user_uploads := dict_incr (principal_id (st_user st)) (user_uploads s),
          active_uploads := dict_incr (job_id (st_job st)) (active_uploads s),
          streams := st # streams s\<rparr>)"

definition begin_upload ::
  "settings \<Rightarrow> int \<Rightarrow> time \<Rightarrow> principal \<Rightarrow> string \<Rightarrow> archive_type \<Rightarrow> int \<Rightarrow> string \<Rightarrow> int \<Rightarrow> upload_state
   \<Rightarrow> upload_answer reply \<times> upload_state" where
  "begin_upload cfg disk_free now p jid ty i sha sz s =
     (case get_authorized_job (up_db s) jid p (up_auth s) of
        Inl e \<Rightarrow> (Inl e, s)
      | Inr j \<Rightarrow>
          let (rejected, db) = reject_expired_upload cfg now j (up_db s); s = set_up_db db s; sha' = lower sha in
          case rejected of
            Some e \<Rightarrow> (Inl e, s)
          | None \<Rightarrow>
              (case declared_error j ty i sha sz of
                 Some e \<Rightarrow> (Inl e, s)
               | None \<Rightarrow>
                   (case get_chunk (up_db s) jid ty i of
                      Some c \<Rightarrow>
                        if chunk_sha256 c = sha' \<and> chunk_bytes c = sz \<and> parts s (jid, ty, i) \<noteq> None
                        then (Inr Duplicate, set_up_db (touch_upload (up_db s) now jid) s)
                        else (Inl (HTTPException 409 ''chunk already exists with different checksum''), s)
                    | None \<Rightarrow>
                        if max_parallel_uploads cfg \<le> upload_count s
                           \<or> max_parallel_uploads_per_user cfg \<le> dict_count (user_uploads s) (principal_id p)
                        then (Inl (HTTPException 429 ''upload slots are busy; retry this chunk''), s)
                        else (case check_free cfg disk_free sz of
                            Some e \<Rightarrow> (Inl (capacity_reply e), s)
                          | None \<Rightarrow>
                              let st = \<lparr>st_job = j, st_type = ty, st_index = i, st_size = sz, st_sha = sha',
                                        st_user = p, st_body = []\<rparr>
                              in (Inr (Streaming st), open_stream now st s)))))"

section \<open>The body of a stream\<close>

definition release_stream :: "stream \<Rightarrow> upload_state \<Rightarrow> upload_state" where
  "release_stream st s =
     s\<lparr>upload_count := upload_count s - 1,
       user_uploads := dict_decr_pop (principal_id (st_user st)) (user_uploads s),
       active_uploads := dict_decr_pop (job_id (st_job st)) (active_uploads s),
       streams := remove1 st (streams s)\<rparr>"

text \<open>\<open>space_due\<close>: a second has passed since disk space was last checked. An error ends the stream.\<close>

definition part_error ::
  "settings \<Rightarrow> int \<Rightarrow> time \<Rightarrow> bool \<Rightarrow> string \<Rightarrow> stream \<Rightarrow> upload_state \<Rightarrow> http_error option \<times> upload_state" where
  "part_error cfg disk_free now space_due part st s =
     (if past_deadline cfg now (st_job st)
      then (case reject_expired_upload cfg now (st_job st) (up_db s) of
          (Some e, db) \<Rightarrow> (Some e, set_up_db db s)
        | (None, db) \<Rightarrow> (Some (HTTPException 409 ''job upload deadline exceeded''), set_up_db db s))
      else case (if space_due then check_free cfg disk_free (int (length part)) else None) of
          Some e \<Rightarrow> (Some (capacity_reply e), s)
        | None \<Rightarrow>
            if st_size st < int (length (st_body st) + length part)
            then (Some (HTTPException 400 ''chunk larger than X-Chunk-Size''), s)
            else (None, s))"

definition receive_part ::
  "settings \<Rightarrow> int \<Rightarrow> time \<Rightarrow> bool \<Rightarrow> string \<Rightarrow> stream \<Rightarrow> upload_state \<Rightarrow> unit reply \<times> upload_state" where
  "receive_part cfg disk_free now space_due part st s =
     (case part_error cfg disk_free now space_due part st s of
        (Some e, s') \<Rightarrow> (Inl e, release_stream st s')
      | (None, s') \<Rightarrow> (Inr (), s'\<lparr>streams := st\<lparr>st_body := st_body st @ part\<rparr> # remove1 st (streams s')\<rparr>))"

section \<open>A stream is stored\<close>

definition stream_key :: "stream \<Rightarrow> part_key" where
  "stream_key st = (job_id (st_job st), st_type st, st_index st)"

definition store_part :: "(string \<Rightarrow> string) \<Rightarrow> time \<Rightarrow> stream \<Rightarrow> upload_state \<Rightarrow> upload_state" where
  "store_part sha256 now st s =
     set_up_db (add_chunk (up_db s) now (job_id (st_job st)) (st_type st) (st_index st) (int (length (st_body st))) (sha256 (st_body st)))
       (s\<lparr>parts := (parts s)(stream_key st \<mapsto> st_body st)\<rparr>)"

definition store_stream ::
  "settings \<Rightarrow> (string \<Rightarrow> string) \<Rightarrow> time \<Rightarrow> stream \<Rightarrow> upload_state \<Rightarrow> upload_answer reply \<times> upload_state" where
  "store_stream cfg sha256 now st s =
     (let sz = int (length (st_body st)); sha = sha256 (st_body st); jid = job_id (st_job st) in
      if sz \<noteq> st_size st then (Inl (HTTPException 400 ''chunk size mismatch''), s)
      else if sha \<noteq> st_sha st then (Inl (HTTPException 400 ''chunk sha256 mismatch''), s)
      else case get_authorized_job (up_db s) jid (st_user st) (up_auth s) of
          Inl e \<Rightarrow> (Inl e, s)
        | Inr j \<Rightarrow>
            let (rejected, db) = reject_expired_upload cfg now j (up_db s); s = set_up_db db s in
            case rejected of
              Some e \<Rightarrow> (Inl e, s)
            | None \<Rightarrow>
                if status j \<noteq> Receiving then (Inl (HTTPException 409 ''job is no longer receiving chunks''), s)
                else (case get_chunk (up_db s) jid (st_type st) (st_index st) of
                    Some c \<Rightarrow>
                      if chunk_sha256 c \<noteq> sha \<or> chunk_bytes c \<noteq> sz
                      then (Inl (HTTPException 409 ''chunk already exists with different checksum''), s)
                      else if parts s (stream_key st) \<noteq> None then (Inr Duplicate, s)
                      else (Inr Stored, store_part sha256 now st s)
                  | None \<Rightarrow> (Inr Stored, store_part sha256 now st s)))"

definition finish_upload ::
  "settings \<Rightarrow> (string \<Rightarrow> string) \<Rightarrow> time \<Rightarrow> stream \<Rightarrow> upload_state \<Rightarrow> upload_answer reply \<times> upload_state" where
  "finish_upload cfg sha256 now st s =
     (let (r, s') = store_stream cfg sha256 now st s in (r, release_stream st s'))"

section \<open>Completion\<close>

definition required_archives :: "bool \<Rightarrow> archive_type list" where
  "required_archives cache_hit = (if cache_hit then [Kernel_archive] else [Dataset_archive, Kernel_archive])"

definition all_parts :: "job \<Rightarrow> archive_type \<Rightarrow> upload_state \<Rightarrow> bool" where
  "all_parts j ty s =
     (case expected_chunk_count (archive_bytes j ty) (chunk_size j) of
        Inl _ \<Rightarrow> False
      | Inr n \<Rightarrow> chunk_index ` set (chunks_for (up_db s) (job_id j) ty) = {0..<n}
          \<and> list_all (\<lambda>i. parts s (job_id j, ty, i) \<noteq> None) [0..n - 1])"

definition cache_usable :: "(string \<Rightarrow> bool) \<Rightarrow> time \<Rightarrow> job \<Rightarrow> relay_db \<Rightarrow> bool \<times> relay_db" where
  "cache_usable ready now j db =
     (let (hit, db') = has_ready_dataset_cache ready now (dataset_ref j) (payload_hash j) (kaggle_key_id j) db
      in (hit \<and> \<not> awaiting_assignment j, db'))"

text \<open>The retained outcomes a client may take up again.\<close>

definition resume_monitoring :: "time \<Rightarrow> job \<Rightarrow> upload_state \<Rightarrow> upload_state" where
  "resume_monitoring now j s =
     (if job_id j \<in> set (active_ids (up_pool s)) then s
      else enqueue \<lparr>work_action = Resume_kernel (if cancel_requested_at j \<noteq> None then Some Canceled else None), work_job = job_id j\<rparr>
             (set_up_db (update_job (up_db s) now (job_id j) [Set_error []]) s))"

definition restart_values :: "time \<Rightarrow> bool \<Rightarrow> job \<Rightarrow> assignment list" where
  "restart_values now restart j =
     [Set_status Queued, Set_error [], Set_recheck_state Checking, Set_recheck_at None,
      Set_recheck_count (dataset_recheck_count j + 1),
      Set_recheck_failures (if restart then 0 else dataset_recheck_failures j),
      Set_recheck_started_at (if restart then now else first_failure now j)]"

definition resume_dataset ::
  "(job \<Rightarrow> intent_file) \<Rightarrow> time \<Rightarrow> bool \<Rightarrow> job \<Rightarrow> upload_state \<Rightarrow> unit reply \<times> upload_state" where
  "resume_dataset files now restart j s =
     (if dataset_recheck_state j \<in> {Scheduled, Checking} then (Inr (), s)
      else if dataset_recheck_state j = Blocked
      then (Inl (HTTPException 409 ''Dataset recovery requires explicit manual inspection''), s)
      else if dataset_recheck_state j = Exhausted \<and> \<not> restart
      then (Inl (HTTPException 409 ''Dataset recheck window exhausted; explicit restart_recheck=true required''), s)
      else case read_intent (files j) of
          Inl _ \<Rightarrow> (Inl (HTTPException 409 ''upload intent invalid; retained for review''), s)
        | Inr i \<Rightarrow>
            if \<not> candidate_left i then (Inl (HTTPException 409 ''original upload candidate unavailable''), s)
            else let (db, done) = update_job_if_status (up_db s) now (job_id j) {Waiting_dataset} True None (restart_values now restart j);
                     s = set_up_db db s
                 in (Inr (), if done then enqueue \<lparr>work_action = Recheck_dataset, work_job = job_id j\<rparr> s else s))"

text \<open>\<open>Ready_to_assemble\<close>: the row is in status assembling and its archives are put together next.\<close>

datatype completion = Answered | Ready_to_assemble job bool

definition start_assembly ::
  "(string \<Rightarrow> bool) \<Rightarrow> time \<Rightarrow> job \<Rightarrow> upload_state \<Rightarrow> completion reply \<times> upload_state" where
  "start_assembly ready now j s =
     (let (hit, db) = cache_usable ready now j (up_db s); s = set_up_db db s in
      if \<not> list_all (\<lambda>ty. all_parts j ty s) (required_archives hit)
      then (Inl (HTTPException 409 ''upload incomplete; resume missing chunks''), s)
      else let (db, done) = update_job_if_status (up_db s) now (job_id j) {Receiving} False None [Set_status Assembling, Set_progress 10]
           in (Inr (if done then Ready_to_assemble j hit else Answered), set_up_db db s))"

definition kernel_unknown :: string where "kernel_unknown = ''kernel_status_unknown:''"

definition complete_job ::
  "settings \<Rightarrow> (string \<Rightarrow> bool) \<Rightarrow> (job \<Rightarrow> intent_file) \<Rightarrow> time \<Rightarrow> principal \<Rightarrow> bool \<Rightarrow> string \<Rightarrow> upload_state
   \<Rightarrow> completion reply \<times> upload_state" where
  "complete_job cfg ready files now p restart jid s =
     (case get_authorized_job (up_db s) jid p (up_auth s) of
        Inl e \<Rightarrow> (Inl e, s)
      | Inr j \<Rightarrow>
          let (rejected, db) = reject_expired_upload cfg now j (up_db s); s = set_up_db db s in
          case rejected of
            Some e \<Rightarrow> (Inl e, s)
          | None \<Rightarrow>
              if status j \<in> {Waiting_kernel, Cancel_requested} \<and> prefix kernel_unknown (error j)
              then (Inr Answered, resume_monitoring now j s)
              else if status j = Waiting_dataset \<and> prefix unknown_outcome (error j)
              then (case resume_dataset files now restart j s of
                  (Inl e, s') \<Rightarrow> (Inl e, s') | (Inr (), s') \<Rightarrow> (Inr Answered, s'))
              else if status j \<noteq> Receiving then (Inr Answered, s)
              else start_assembly ready now j s)"

text \<open>
  How putting the archives together ended: it never began because the request was canceled while it waited
  for a slot, it ran out of disk space, it failed otherwise, or the inputs are in place.
\<close>

datatype assembly = Never_began | No_space string | Broken string | Assembled

definition if_assembling :: "time \<Rightarrow> job \<Rightarrow> assignment list \<Rightarrow> upload_state \<Rightarrow> bool \<times> upload_state" where
  "if_assembling now j vs s =
     (let (db, done) = update_job_if_status (up_db s) now (job_id j) {Assembling} False None vs in (done, set_up_db db s))"

text \<open>\<open>known\<close>: the registered secrets. \<^const>\<open>None\<close>: the request ended without an answer.\<close>

definition finish_assembly ::
  "string list \<Rightarrow> time \<Rightarrow> job \<Rightarrow> assembly \<Rightarrow> upload_state \<Rightarrow> unit reply option \<times> upload_state" where
  "finish_assembly known now j result s =
     (case result of
        Never_began \<Rightarrow> (None, snd (if_assembling now j [Set_status Receiving] s))
      | No_space e \<Rightarrow> (Some (Inl (HTTPException 503 e)), snd (if_assembling now j [Set_status Receiving, Set_error e] s))
      | Broken e \<Rightarrow> (Some (Inl (HTTPException 400 (redact_secrets known e))),
          snd (if_assembling now j [Set_status Failed, Set_progress 0, Set_error (redact_secrets known e)] s))
      | Assembled \<Rightarrow>
          let (queued, s) = if_assembling now j
                [Set_status Queued, Set_progress 15,
                 Set_queue_reason (if awaiting_assignment j then ''waiting for an idle authorized account with GPU quota''
                                   else ''waiting for an available worker''), Set_error []] s
          in (Some (Inr ()),
              if queued \<and> \<not> awaiting_assignment j then enqueue \<lparr>work_action = Process, work_job = job_id j\<rparr> s else s))"

section \<open>Putting an archive together\<close>

text \<open>\<open>room i\<close>: every check of the free space while part \<open>i\<close> is copied passes.\<close>

fun copy_parts :: "(int \<Rightarrow> bool) \<Rightarrow> (int \<Rightarrow> string option) \<Rightarrow> int list \<Rightarrow> string \<Rightarrow> (capacity_error + archive_error) + string" where
  "copy_parts room part [] out = Inr out"
| "copy_parts room part (i # is) out =
     (case part i of
        None \<Rightarrow> Inl (Inr (ArchiveError (''missing chunk '' @ int_text i)))
      | Some f \<Rightarrow> if room i then copy_parts room part is (out @ f) else Inl (Inl Storage_full))"

definition assemble_archive ::
  "(string \<Rightarrow> string) \<Rightarrow> (int \<Rightarrow> bool) \<Rightarrow> (int \<Rightarrow> string option) \<Rightarrow> int \<Rightarrow> int \<Rightarrow> string
   \<Rightarrow> (capacity_error + archive_error) + string" where
  "assemble_archive sha256 room part sz chunk expected =
     (case expected_chunk_count sz chunk of
        Inl e \<Rightarrow> Inl (Inr e)
      | Inr n \<Rightarrow>
          (case copy_parts room part [0..n - 1] [] of
             Inl e \<Rightarrow> Inl e
           | Inr out \<Rightarrow>
               if int (length out) \<noteq> sz
               then Inl (Inr (ArchiveError (''archive size mismatch: expected '' @ int_text sz @ '', got '' @ int_text (int (length out)))))
               else if lower (sha256 out) \<noteq> lower expected then Inl (Inr (ArchiveError ''archive sha256 mismatch''))
               else Inr out))"

section \<open>Deletion and retention\<close>

text \<open>
  Removing a job's directories may fail, then some part files may be gone already: \<open>kept\<close> lists those that
  are left. The check of \<^verbatim>\<open>delete_job_files_and_record\<close> that the directories are no links out of the storage root is
  such a failure too.
\<close>

datatype removal = Removed | Not_removed "part_key list"

definition remove_files :: "string \<Rightarrow> removal \<Rightarrow> upload_state \<Rightarrow> upload_state" where
  "remove_files jid r s =
     s\<lparr>parts := (\<lambda>k. if fst k = jid \<and> (case r of Removed \<Rightarrow> True | Not_removed kept \<Rightarrow> k \<notin> set kept) then None else parts s k)\<rparr>"

definition delete_job_files_and_record :: "removal \<Rightarrow> string \<Rightarrow> upload_state \<Rightarrow> bool \<times> upload_state" where
  "delete_job_files_and_record r jid s =
     (if r = Removed then (True, set_up_db (delete_job_record (up_db s) jid) (remove_files jid r s))
      else (False, remove_files jid r s))"

definition uploading :: "string \<Rightarrow> upload_state \<Rightarrow> bool" where
  "uploading jid s \<longleftrightarrow> map_of (active_uploads s) jid \<noteq> None"

definition delete_job :: "principal \<Rightarrow> removal \<Rightarrow> string \<Rightarrow> upload_state \<Rightarrow> unit reply \<times> upload_state" where
  "delete_job p r jid s =
     (case get_authorized_job (up_db s) jid p (up_auth s) of
        Inl e \<Rightarrow> (Inl e, s)
      | Inr j \<Rightarrow>
          if \<not> (terminal (status j) \<or> status j = Receiving)
          then (Inl (HTTPException 409 ''cancel the active job before deleting it''), s)
          else if jid \<in> set (active_ids (up_pool s)) then (Inl (HTTPException 409 ''job worker is still active''), s)
          else if uploading jid s then (Inl (HTTPException 409 ''job upload is still active''), s)
          else let (done, s) = delete_job_files_and_record r jid s
               in (if done then Inr () else Inl (HTTPException 503 ''job cleanup failed; retry deletion''), s))"

definition expired_note :: string where "expired_note = ''expired by relay retention cleanup''"

definition cleanup_values :: "time \<Rightarrow> assignment list" where
  "cleanup_values now =
     [Set_artifact_path [], Set_kaggle_output expired_note, Set_cleaned_at now, Set_cleanup_due_at None, Set_reserved_bytes 0]"

definition cleanup_expired_job :: "removal \<Rightarrow> time \<Rightarrow> string \<Rightarrow> upload_state \<Rightarrow> upload_state" where
  "cleanup_expired_job r now jid s =
     (case get_job (up_db s) jid of
        None \<Rightarrow> s
      | Some j \<Rightarrow>
          if cleaned_at j \<noteq> None then s
          else if r \<noteq> Removed then remove_files jid r s
          else set_up_db (append_log (update_job (up_db s) now jid (cleanup_values now)) now jid expired_note)
                 (remove_files jid r s))"

definition inactive :: "settings \<Rightarrow> time \<Rightarrow> job \<Rightarrow> bool" where
  "inactive cfg now j \<longleftrightarrow>
     (case upload_activity_at j of None \<Rightarrow> False | Some t \<Rightarrow> t < now - receiving_retention_hours cfg * 3600)"

text \<open>One job of the pass; \<open>stale\<close>: it was listed as a stale upload when the pass began at \<open>now\<close>.\<close>

definition cleanup_one :: "settings \<Rightarrow> removal \<Rightarrow> time \<Rightarrow> bool \<Rightarrow> string \<Rightarrow> upload_state \<Rightarrow> upload_state" where
  "cleanup_one cfg r now stale jid s =
     (case get_job (up_db s) jid of
        None \<Rightarrow> s
      | Some j \<Rightarrow>
          if cleaned_at j \<noteq> None then s
          else
            let (timed_out, db) = expire_receiving_upload cfg now j (up_db s); s = set_up_db db s in
            if uploading jid s \<or> jid \<in> set (active_ids (up_pool s)) then s
            else if stale \<and> timed_out = []
            then
              if status j \<noteq> Receiving \<or> \<not> inactive cfg now j then s
              else let (db, done) = update_job_if_status (up_db s) now jid {Receiving} False None
                         [Set_status Failed, Set_error ''upload expired after inactivity'', Set_cleanup_due_at (Some now)]
                   in (if done then cleanup_expired_job r now jid (set_up_db db s) else set_up_db db s)
            else cleanup_expired_job r now jid s)"

definition stale_uploads :: "settings \<Rightarrow> time \<Rightarrow> relay_db \<Rightarrow> string list" where
  "stale_uploads cfg now db =
     stale_receiving db (now - receiving_retention_hours cfg * 3600) (now - receiving_timeout_hours cfg * 3600)"

definition cleanup_candidates :: "settings \<Rightarrow> time \<Rightarrow> relay_db \<Rightarrow> string list" where
  "cleanup_candidates cfg now db =
     rev (remdups (rev (completed_before db (now - retention_hours cfg * 3600) @ sort (remdups (stale_uploads cfg now db)))))"

fun cleanup_all ::
  "settings \<Rightarrow> (string \<Rightarrow> removal) \<Rightarrow> time \<Rightarrow> string list \<Rightarrow> string list \<Rightarrow> upload_state \<Rightarrow> upload_state" where
  "cleanup_all cfg r now stale [] s = s"
| "cleanup_all cfg r now stale (jid # jids) s =
     cleanup_all cfg r now stale jids (cleanup_one cfg (r jid) now (jid \<in> set stale) jid s)"

definition cleanup_expired_jobs :: "settings \<Rightarrow> (string \<Rightarrow> removal) \<Rightarrow> time \<Rightarrow> upload_state \<Rightarrow> upload_state" where
  "cleanup_expired_jobs cfg r now s =
     cleanup_all cfg r now (stale_uploads cfg now (up_db s)) (cleanup_candidates cfg now (up_db s)) s"

section \<open>Steps\<close>

text \<open>
  What any other handler, worker or background task may do meanwhile: rows of jobs change in their mutable
  columns, jobs and their chunk rows may go, new jobs come under ids nothing refers to, part files may go, and
  the pool and the accounts change freely. The handlers above that are no part of an upload are such steps.
\<close>

definition same_archives :: "job \<Rightarrow> job \<Rightarrow> bool" where
  "same_archives j k \<longleftrightarrow> dataset_size j = dataset_size k \<and> kernel_size j = kernel_size k \<and> chunk_size j = chunk_size k"

definition mentioned :: "string \<Rightarrow> upload_state \<Rightarrow> bool" where
  "mentioned jid s \<longleftrightarrow> jid \<in> chunk_job ` set (chunks (up_db s)) \<union> (job_id \<circ> st_job) ` set (streams s)"

definition others :: "upload_state \<Rightarrow> upload_state \<Rightarrow> bool" where
  "others s t \<longleftrightarrow>
     streams t = streams s \<and> upload_count t = upload_count s \<and> user_uploads t = user_uploads s \<and> active_uploads t = active_uploads s
     \<and> jobs_keyed (up_db t) \<and> chunks_keyed (up_db t) \<and> set (chunks (up_db t)) \<subseteq> set (chunks (up_db s))
     \<and> parts t \<subseteq>\<^sub>m parts s
     \<and> (\<forall>k j'. get_job (up_db t) k = Some j' \<longrightarrow>
          (\<exists>j. get_job (up_db s) k = Some j \<and> same_archives j j') \<or> \<not> mentioned k s)"

text \<open>
  The relay stops and starts again: the streams are gone, what is on disk stays. It may stop between the two
  writes of a stream that is being stored: then the part file is there and its row is not.
\<close>

definition restarted :: "upload_state \<Rightarrow> upload_state" where
  "restarted s = s\<lparr>up_pool := new_pool ((pool_app (up_pool s))\<lparr>work_queue := []\<rparr>), upload_count := 0, user_uploads := [],
     active_uploads := [], streams := []\<rparr>"

inductive upload_step :: "settings \<Rightarrow> (string \<Rightarrow> string) \<Rightarrow> upload_state \<Rightarrow> upload_state \<Rightarrow> bool" for cfg sha256 where
  opens: "upload_step cfg sha256 s (snd (begin_upload cfg disk_free now p jid ty i sha sz s))"
| receives: "st \<in> set (streams s) \<Longrightarrow> upload_step cfg sha256 s (snd (receive_part cfg disk_free now space_due part st s))"
| stores: "st \<in> set (streams s) \<Longrightarrow> upload_step cfg sha256 s (snd (finish_upload cfg sha256 now st s))"
| breaks: "st \<in> set (streams s) \<Longrightarrow> upload_step cfg sha256 s (release_stream st s)"
| stops: "upload_step cfg sha256 s (restarted s)"
| stops_half_way: "st \<in> set (streams s) \<Longrightarrow> fst (store_stream cfg sha256 now st s) = Inr Stored \<Longrightarrow>
     upload_step cfg sha256 s (restarted (s\<lparr>parts := (parts s)(stream_key st \<mapsto> st_body st)\<rparr>))"
| meanwhile: "others s t \<Longrightarrow> upload_step cfg sha256 s t"

definition fits :: "job \<Rightarrow> archive_type \<Rightarrow> int \<Rightarrow> int \<Rightarrow> bool" where
  "fits j ty i sz \<longleftrightarrow> validate_chunk_index i (archive_bytes j ty) (chunk_size j) = None \<and> sz = chunk_extent j ty i"

definition counts_ok :: "settings \<Rightarrow> upload_state \<Rightarrow> bool" where
  "counts_ok cfg s \<longleftrightarrow> upload_count s = length (streams s) \<and> upload_count s \<le> max_parallel_uploads cfg
     \<and> popping.holds (user_uploads s) (streams s) (principal_id \<circ> st_user)
     \<and> popping.holds (active_uploads s) (streams s) (job_id \<circ> st_job)
     \<and> (\<forall>u. length (filter (\<lambda>st. principal_id (st_user st) = u) (streams s)) \<le> max_parallel_uploads_per_user cfg)"

definition rows_ok :: "upload_state \<Rightarrow> bool" where
  "rows_ok s \<longleftrightarrow>
     (\<forall>c j. c \<in> set (chunks (up_db s)) \<longrightarrow> get_job (up_db s) (chunk_job c) = Some j \<longrightarrow> fits j (chunk_type c) (chunk_index c) (chunk_bytes c))
     \<and> (\<forall>st j. st \<in> set (streams s) \<longrightarrow> get_job (up_db s) (job_id (st_job st)) = Some j \<longrightarrow> fits j (st_type st) (st_index st) (st_size st))"

definition chunk_key :: "chunk \<Rightarrow> part_key" where
  "chunk_key c = (chunk_job c, chunk_type c, chunk_index c)"

definition files_ok :: "(string \<Rightarrow> string) \<Rightarrow> upload_state \<Rightarrow> bool" where
  "files_ok sha256 s \<longleftrightarrow>
     (\<forall>c f. c \<in> set (chunks (up_db s)) \<longrightarrow> parts s (chunk_key c) = Some f \<longrightarrow>
        int (length f) = chunk_bytes c \<and> sha256 f = chunk_sha256 c)"

definition upload_inv :: "settings \<Rightarrow> (string \<Rightarrow> string) \<Rightarrow> upload_state \<Rightarrow> bool" where
  "upload_inv cfg sha256 s \<longleftrightarrow> counts_ok cfg s \<and> rows_ok s \<and> files_ok sha256 s \<and> jobs_keyed (up_db s) \<and> chunks_keyed (up_db s)"

subsection \<open>Frames\<close>

lemma up_simps [simp]:
  "up_db (set_up_db db s) = db" "up_auth (set_up_db db s) = up_auth s" "streams (set_up_db db s) = streams s"
  "parts (set_up_db db s) = parts s" "upload_count (set_up_db db s) = upload_count s"
  "user_uploads (set_up_db db s) = user_uploads s" "active_uploads (set_up_db db s) = active_uploads s"
  "active_ids (up_pool (set_up_db db s)) = active_ids (up_pool s)"
  "up_db (s\<lparr>parts := ps\<rparr>) = up_db s" "up_db (s\<lparr>upload_count := n\<rparr>) = up_db s"
  "up_db (s\<lparr>user_uploads := d\<rparr>) = up_db s" "up_db (s\<lparr>active_uploads := d\<rparr>) = up_db s" "up_db (s\<lparr>streams := ss\<rparr>) = up_db s"
  "up_db (release_stream st s) = up_db s" "parts (release_stream st s) = parts s"
  "up_db (enqueue w s) = up_db s" "streams (enqueue w s) = streams s" "parts (enqueue w s) = parts s"
  "upload_count (enqueue w s) = upload_count s" "user_uploads (enqueue w s) = user_uploads s"
  "active_uploads (enqueue w s) = active_uploads s"
  by (simp_all add: set_up_db_def up_db_def up_auth_def pool_db_def release_stream_def enqueue_def)

lemma set_up_twice: "set_up_db db (set_up_db db' s) = set_up_db db s"
  by (simp add: set_up_db_def)

text \<open>A database in which only mutable columns of rows, logs and caches differ.\<close>

definition db_frame :: "relay_db \<Rightarrow> relay_db \<Rightarrow> bool" where
  "db_frame db db' \<longleftrightarrow> chunks db' = chunks db \<and> jobs_keyed db' = jobs_keyed db
     \<and> (\<forall>k. map_option frozen (get_job db' k) = map_option frozen (get_job db k))"

lemma db_frame_refl [simp]: "db_frame db db"
  by (simp add: db_frame_def)

lemma db_frame_trans: "db_frame a b \<Longrightarrow> db_frame b c \<Longrightarrow> db_frame a c"
  by (simp add: db_frame_def)

lemma chunks_update [simp]:
  "chunks (fst (update_job_if_status db now jid expected nc ks vs)) = chunks db"
  "chunks (update_job db now jid vs) = chunks db" "chunks (append_log db now jid m) = chunks db"
  "chunks (touch_upload db now jid) = chunks db"
  by (simp_all add: update_job_if_status_def cas_row_def update_job_def append_log_def insert_log_def trim_job_logs_def
      touch_upload_def Let_def split: option.splits)

lemma db_frame_writes:
  "db_frame db (fst (update_job_if_status db now jid expected nc ks vs))"
  "db_frame db (update_job db now jid vs)" "db_frame db (append_log db now jid m)" "db_frame db (touch_upload db now jid)"
proof -
  show "db_frame db (fst (update_job_if_status db now jid expected nc ks vs))"
    by (simp add: db_frame_def frozen_update_if)
  show "db_frame db (update_job db now jid vs)"
    using frozen_run_update [of _ "Update_job now jid vs"] by (simp add: db_frame_def)
  show "db_frame db (append_log db now jid m)" by (simp add: db_frame_def)
  have "map_option frozen (get_job (touch_upload db now jid) k) = map_option frozen (get_job db k)" for k
    by (cases "get_job db k") (simp_all add: get_touch_upload frozen_def)
  then show "db_frame db (touch_upload db now jid)"
    by (simp add: db_frame_def) (simp add: touch_upload_def jobs_keyed_update_rows)
qed

lemma db_frame_if:
  "update_job_if_status db now jid expected nc ks vs = (db', done) \<Longrightarrow> db_frame db db'"
  by (metis db_frame_writes(1) fst_conv)

lemma db_frame_expire: "db_frame db (snd (expire_receiving_upload cfg now j db))"
  by (auto simp: expire_receiving_upload_def Let_def split: prod.splits intro: db_frame_if)

lemma db_frame_reject: "reject_expired_upload cfg now j db = (e, db') \<Longrightarrow> db_frame db db'"
  using db_frame_expire [of db cfg now j] by (auto simp: reject_expired_upload_def Let_def split: prod.splits)

lemma frozen_archives: "frozen j = frozen k \<Longrightarrow> same_archives j k"
  by (cases j; cases k) (simp add: frozen_def same_archives_def)

lemma fits_same: "same_archives j k \<Longrightarrow> fits j ty i sz = fits k ty i sz"
  by (cases ty) (simp_all add: fits_def chunk_extent_def archive_bytes_def same_archives_def)

lemma db_frame_job:
  "db_frame db db' \<Longrightarrow> get_job db' k = Some j' \<Longrightarrow> \<exists>j. get_job db k = Some j \<and> same_archives j j'"
  by (metis db_frame_def frozen_archives map_option_eq_Some)

subsection \<open>Every step keeps the invariant\<close>

lemma others_frame:
  assumes "upload_inv cfg sha256 s" and "db_frame (up_db s) db"
  shows "others s (set_up_db db s)"
  using assms db_frame_job [OF assms(2)]
  by (auto simp: others_def upload_inv_def chunks_keyed_def db_frame_def)

lemma inv_others:
  assumes "upload_inv cfg sha256 s" and "others s t"
  shows "upload_inv cfg sha256 t"
proof -
  have same: "streams t = streams s" "upload_count t = upload_count s" "user_uploads t = user_uploads s"
    "active_uploads t = active_uploads s" and sub: "set (chunks (up_db t)) \<subseteq> set (chunks (up_db s))"
    and ps: "parts t \<subseteq>\<^sub>m parts s" and keyed: "jobs_keyed (up_db t)" "chunks_keyed (up_db t)"
    using assms(2) by (simp_all add: others_def)
  have old: "\<exists>j. get_job (up_db s) k = Some j \<and> same_archives j j'" if "get_job (up_db t) k = Some j'" "mentioned k s" for k j'
    using assms(2) that by (auto simp: others_def)
  have "fits j' (chunk_type c) (chunk_index c) (chunk_bytes c)"
    if c: "c \<in> set (chunks (up_db t))" and g: "get_job (up_db t) (chunk_job c) = Some j'" for c j'
  proof -
    have "mentioned (chunk_job c) s" using c sub by (auto simp: mentioned_def)
    from old [OF g this] obtain j where "get_job (up_db s) (chunk_job c) = Some j" "same_archives j j'" by blast
    with assms(1) c sub show ?thesis by (auto simp: upload_inv_def rows_ok_def fits_same)
  qed
  moreover have "fits j' (st_type st) (st_index st) (st_size st)"
    if st: "st \<in> set (streams s)" and g: "get_job (up_db t) (job_id (st_job st)) = Some j'" for st j'
  proof -
    have "mentioned (job_id (st_job st)) s" using st by (auto simp: mentioned_def)
    from old [OF g this] obtain j where "get_job (up_db s) (job_id (st_job st)) = Some j" "same_archives j j'" by blast
    with assms(1) st show ?thesis by (auto simp: upload_inv_def rows_ok_def fits_same)
  qed
  ultimately have "rows_ok t" by (simp add: rows_ok_def same)
  moreover have "files_ok sha256 t"
    unfolding files_ok_def
  proof (intro allI impI)
    fix c f assume c: "c \<in> set (chunks (up_db t))" "parts t (chunk_key c) = Some f"
    then have "parts s (chunk_key c) = Some f" using ps unfolding map_le_def by (metis domI)
    with assms(1) c sub show "int (length f) = chunk_bytes c \<and> sha256 f = chunk_sha256 c"
      by (auto simp: upload_inv_def files_ok_def)
  qed
  moreover have "counts_ok cfg t" using assms(1) by (simp add: upload_inv_def counts_ok_def same)
  ultimately show ?thesis using keyed by (simp add: upload_inv_def)
qed

lemma inv_frame: "upload_inv cfg sha256 s \<Longrightarrow> db_frame (up_db s) db \<Longrightarrow> upload_inv cfg sha256 (set_up_db db s)"
  by (rule inv_others [OF _ others_frame])

lemma inv_release:
  assumes "upload_inv cfg sha256 s" and "st \<in> set (streams s)"
  shows "upload_inv cfg sha256 (release_stream st s)"
proof -
  have "popping.holds (user_uploads (release_stream st s)) (streams (release_stream st s)) (principal_id \<circ> st_user)"
    "popping.holds (active_uploads (release_stream st s)) (streams (release_stream st s)) (job_id \<circ> st_job)"
    using assms popping.holds_release [of "user_uploads s" "streams s" "principal_id \<circ> st_user" st]
      popping.holds_release [of "active_uploads s" "streams s" "job_id \<circ> st_job" st]
    by (simp_all add: release_stream_def upload_inv_def counts_ok_def)
  moreover have "length (filter P (remove1 st (streams s))) \<le> length (filter P (streams s))" for P
    using popping.filter_remove1_length [OF assms(2), of P] by auto
  moreover have "set (remove1 st (streams s)) \<subseteq> set (streams s)" by (rule set_remove1_subset)
  ultimately show ?thesis
    using assms
    by (auto simp: upload_inv_def counts_ok_def rows_ok_def files_ok_def release_stream_def up_db_def length_remove1
        intro: le_trans)
qed

lemma inv_body:
  assumes "upload_inv cfg sha256 s" and "st \<in> set (streams s)"
  shows "upload_inv cfg sha256 (s\<lparr>streams := st\<lparr>st_body := b\<rparr> # remove1 st (streams s)\<rparr>)"
proof -
  let ?ss = "st\<lparr>st_body := b\<rparr> # remove1 st (streams s)"
  have same: "length (filter P ?ss) = length (filter P (streams s))" if "P (st\<lparr>st_body := b\<rparr>) = P st" for P
  proof (cases "P st")
    case True
    with assms(2) have "0 < length (filter P (streams s))" by (auto simp: filter_empty_conv)
    with True that popping.filter_remove1_length [OF assms(2), of P] show ?thesis by simp
  next
    case False
    with that popping.filter_remove1_length [OF assms(2), of P] show ?thesis by simp
  qed
  have len: "length ?ss = length (streams s)"
    using same [of "\<lambda>_. True"] by simp
  have "popping.holds (user_uploads s) ?ss (principal_id \<circ> st_user)" "popping.holds (active_uploads s) ?ss (job_id \<circ> st_job)"
    using assms(1) same by (simp_all add: popping.holds_def upload_inv_def counts_ok_def del: filter.simps)
  moreover have "x \<in> set (streams s)" if "x \<in> set (remove1 st (streams s))" for x
    using that set_remove1_subset by fast
  ultimately show ?thesis
    using assms same len
    by (auto simp: upload_inv_def counts_ok_def rows_ok_def files_ok_def simp del: filter.simps)
qed

lemma inv_open:
  assumes "upload_inv cfg sha256 s" and "get_job (up_db s) (job_id (st_job st)) = Some j"
    and "fits j (st_type st) (st_index st) (st_size st)"
    and "upload_count s < max_parallel_uploads cfg"
    and "dict_count (user_uploads s) (principal_id (st_user st)) < max_parallel_uploads_per_user cfg"
  shows "upload_inv cfg sha256 (open_stream now st s)"
proof -
  let ?s = "s\<lparr>upload_count := upload_count s + 1, user_uploads := dict_incr (principal_id (st_user st)) (user_uploads s),
          active_uploads := dict_incr (job_id (st_job st)) (active_uploads s), streams := st # streams s\<rparr>"
  have db: "up_db ?s = up_db s" by (simp add: up_db_def)
  have h: "popping.holds (user_uploads s) (streams s) (principal_id \<circ> st_user)"
    "popping.holds (active_uploads s) (streams s) (job_id \<circ> st_job)"
    using assms(1) by (simp_all add: upload_inv_def counts_ok_def)
  have "length (filter (\<lambda>x. principal_id (st_user x) = principal_id (st_user st)) (streams s)) < max_parallel_uploads_per_user cfg"
    using h(1) assms(5) by (simp add: popping.holds_def)
  then have "counts_ok cfg ?s"
    using assms(1,4) popping.holds_acquire [OF h(1), of st] popping.holds_acquire [OF h(2), of st]
    by (auto simp: upload_inv_def counts_ok_def)
  moreover have "rows_ok ?s" using assms(1-3) by (auto simp: upload_inv_def rows_ok_def db)
  moreover have "files_ok sha256 ?s" using assms(1) by (auto simp: upload_inv_def files_ok_def db)
  ultimately have "upload_inv cfg sha256 ?s" using assms(1) by (simp add: upload_inv_def db)
  from inv_frame [OF this, unfolded db, OF db_frame_writes(4)] show ?thesis by (simp add: open_stream_def)
qed

lemma frozen_consume: "frozen (consume_reservation now n j) = frozen j"
  by (simp add: frozen_def consume_reservation_def)

lemma chunks_add:
  "chunks (add_chunk db now jid ty i sz sha) = filter (\<lambda>c. \<not> is_chunk jid ty i c) (chunks db)
     @ [\<lparr>chunk_job = jid, chunk_type = ty, chunk_index = i, chunk_bytes = sz, chunk_sha256 = sha, chunk_created = now\<rparr>]"
  by (simp add: add_chunk_def)

lemma keyed_add_chunk:
  assumes "jobs_keyed db" and "chunks_keyed db"
  shows "jobs_keyed (add_chunk db now jid ty i sz sha)" and "chunks_keyed (add_chunk db now jid ty i sz sha)"
proof -
  show "jobs_keyed (add_chunk db now jid ty i sz sha)"
    using assms(1) by (simp add: add_chunk_def jobs_keyed_update_rows) (simp add: jobs_keyed_def)
  show "chunks_keyed (add_chunk db now jid ty i sz sha)"
    using assms(2) by (auto simp: chunks_keyed_def chunks_add distinct_map inj_on_def is_chunk_def)
qed

lemma job_add_chunk:
  assumes "get_job (add_chunk db now jid ty i sz sha) k = Some j'"
  shows "\<exists>j. get_job db k = Some j \<and> same_archives j j'"
  using assms frozen_archives [OF frozen_consume [symmetric]]
  by (auto simp: get_add_chunk) (simp add: same_archives_def)

lemma inv_store:
  assumes "upload_inv cfg sha256 s" and "st \<in> set (streams s)" and "int (length (st_body st)) = st_size st"
  shows "upload_inv cfg sha256 (store_part sha256 now st s)"
proof -
  let ?t = "store_part sha256 now st s"
  let ?new = "\<lparr>chunk_job = job_id (st_job st), chunk_type = st_type st, chunk_index = st_index st,
    chunk_bytes = int (length (st_body st)), chunk_sha256 = sha256 (st_body st), chunk_created = now\<rparr>"
  have rows: "set (chunks (up_db ?t)) = insert ?new {c \<in> set (chunks (up_db s)). chunk_key c \<noteq> stream_key st}"
    by (auto simp: store_part_def chunks_add is_chunk_def chunk_key_def stream_key_def)
  have old: "\<exists>j. get_job (up_db s) k = Some j \<and> same_archives j j'" if "get_job (up_db ?t) k = Some j'" for k j'
    using that job_add_chunk by (auto simp: store_part_def)
  have "rows_ok ?t"
    unfolding rows_ok_def
  proof (intro conjI allI impI)
    fix c j' assume c: "c \<in> set (chunks (up_db ?t))" "get_job (up_db ?t) (chunk_job c) = Some j'"
    from old [OF c(2)] obtain j where "get_job (up_db s) (chunk_job c) = Some j" "same_archives j j'" by blast
    with c(1) rows assms show "fits j' (chunk_type c) (chunk_index c) (chunk_bytes c)"
      by (auto simp: upload_inv_def rows_ok_def fits_same)
  next
    fix x j' assume x: "x \<in> set (streams ?t)" "get_job (up_db ?t) (job_id (st_job x)) = Some j'"
    from old [OF x(2)] obtain j where "get_job (up_db s) (job_id (st_job x)) = Some j" "same_archives j j'" by blast
    with x(1) assms(1) show "fits j' (st_type x) (st_index x) (st_size x)"
      by (auto simp: upload_inv_def rows_ok_def fits_same store_part_def)
  qed
  moreover have "files_ok sha256 ?t"
    using assms(1) rows by (auto simp: upload_inv_def files_ok_def store_part_def chunk_key_def stream_key_def)
  moreover have "counts_ok cfg ?t" using assms(1) by (simp add: upload_inv_def counts_ok_def store_part_def)
  ultimately show ?thesis
    using assms(1) keyed_add_chunk by (simp add: upload_inv_def) (simp add: store_part_def)
qed

lemma validD: "validate_chunk_index i sz chunk = None \<Longrightarrow> \<exists>n. expected_chunk_count sz chunk = Inr n \<and> 0 \<le> i \<and> i < n"
  by (auto simp: validate_chunk_index_def split: sum.splits if_splits)

lemma authorized_job:
  assumes "get_authorized_job db jid p a = Inr j"
  shows "get_job db jid = Some j \<and> job_id j = jid"
proof -
  have "get_job db jid = Some j" using assms by (auto simp: get_authorized_job_def split: option.splits if_splits)
  with get_job_SomeD show ?thesis by blast
qed

lemma frame_job:
  assumes "db_frame db db'" and "get_job db k = Some j"
  shows "\<exists>j'. get_job db' k = Some j' \<and> same_archives j j'"
  using assms by (metis db_frame_def frozen_archives map_option_eq_Some)

lemma inv_touch: "upload_inv cfg sha256 s \<Longrightarrow> upload_inv cfg sha256 (set_up_db (touch_upload (up_db s) now jid) s)"
  by (rule inv_frame [OF _ db_frame_writes(4)])

lemma inv_begin:
  assumes inv: "upload_inv cfg sha256 s"
  shows "upload_inv cfg sha256 (snd (begin_upload cfg disk_free now p jid ty i sha sz s))"
proof (cases "get_authorized_job (up_db s) jid p (up_auth s)")
  case (Inl e)
  with inv show ?thesis by (simp add: begin_upload_def)
next
  case (Inr j)
  obtain e db where r: "reject_expired_upload cfg now j (up_db s) = (e, db)" by force
  have frame: "db_frame (up_db s) db" by (rule db_frame_reject [OF r])
  have inv1: "upload_inv cfg sha256 (set_up_db db s)" by (rule inv_frame [OF inv frame])
  from authorized_job [OF Inr] have j: "get_job (up_db s) jid = Some j" "job_id j = jid" by auto
  from frame_job [OF frame j(1)] obtain j' where j': "get_job db jid = Some j'" "same_archives j j'" by blast
  let ?st = "\<lparr>st_job = j, st_type = ty, st_index = i, st_size = sz, st_sha = lower sha, st_user = p, st_body = []\<rparr>"
  have "upload_inv cfg sha256 (open_stream now ?st (set_up_db db s))"
    if "declared_error j ty i sha sz = None" "upload_count s < max_parallel_uploads cfg"
      "dict_count (user_uploads s) (principal_id p) < max_parallel_uploads_per_user cfg"
  proof (rule inv_open [OF inv1, where j = j'])
    have "fits j ty i sz" using that(1) by (auto simp: declared_error_def fits_def split: if_splits option.splits)
    with j' show "fits j' (st_type ?st) (st_index ?st) (st_size ?st)" by (simp add: fits_same)
  qed (use that j j' in auto)
  with inv1 inv_touch [OF inv1, of now jid] Inr r show ?thesis
    by (auto simp: begin_upload_def Let_def not_le split: option.splits)
qed

lemma inv_receive:
  assumes inv: "upload_inv cfg sha256 s" and st: "st \<in> set (streams s)"
  shows "upload_inv cfg sha256 (snd (receive_part cfg disk_free now space_due part st s))"
proof -
  obtain e s' where p: "part_error cfg disk_free now space_due part st s = (e, s')" by force
  have s': "\<exists>db. s' = set_up_db db s \<and> db_frame (up_db s) db"
  proof (cases "past_deadline cfg now (st_job st)")
    case True
    obtain e' db where r: "reject_expired_upload cfg now (st_job st) (up_db s) = (e', db)" by force
    with True p db_frame_reject [OF r] show ?thesis by (auto simp: part_error_def split: option.splits)
  next
    case False
    have "s = set_up_db (up_db s) s" by (simp add: set_up_db_def up_db_def pool_db_def)
    with False p show ?thesis by (auto simp: part_error_def split: option.splits if_splits intro!: exI [of _ "up_db s"])
  qed
  then have "upload_inv cfg sha256 s'" "st \<in> set (streams s')" using inv_frame [OF inv] st by auto
  with p inv_release inv_body show ?thesis by (cases e) (simp_all add: receive_part_def)
qed

lemma inv_store_stream:
  assumes inv: "upload_inv cfg sha256 s" and st: "st \<in> set (streams s)"
  shows "upload_inv cfg sha256 (snd (store_stream cfg sha256 now st s)) \<and> st \<in> set (streams (snd (store_stream cfg sha256 now st s)))"
proof (cases "get_authorized_job (up_db s) (job_id (st_job st)) (st_user st) (up_auth s)")
  case (Inl e)
  with inv st show ?thesis by (simp add: store_stream_def Let_def)
next
  case (Inr j)
  obtain e db where r: "reject_expired_upload cfg now j (up_db s) = (e, db)" by force
  have inv1: "upload_inv cfg sha256 (set_up_db db s)" by (rule inv_frame [OF inv db_frame_reject [OF r]])
  have "upload_inv cfg sha256 (store_part sha256 now st (set_up_db db s))" if "int (length (st_body st)) = st_size st"
    using inv_store [OF inv1 _ that] st by simp
  moreover have "streams (store_part sha256 now st (set_up_db db s)) = streams s" by (simp add: store_part_def)
  ultimately show ?thesis
    using inv inv1 st Inr r by (auto simp: store_stream_def Let_def split: option.splits)
qed

lemma inv_restarted:
  assumes "upload_inv cfg sha256 s"
  shows "upload_inv cfg sha256 (restarted s)"
proof -
  have db: "up_db (restarted s) = up_db s" by (simp add: restarted_def up_db_def pool_db_def new_pool_def)
  show ?thesis
    using assms
    by (auto simp: upload_inv_def counts_ok_def rows_ok_def files_ok_def db)
      (simp_all add: restarted_def popping.holds_def dict_count_def)
qed

lemma stored_matches:
  assumes "fst (store_stream cfg sha256 now st s) = Inr Stored"
  shows "int (length (st_body st)) = st_size st
    \<and> (\<forall>c. get_chunk (up_db s) (job_id (st_job st)) (st_type st) (st_index st) = Some c \<longrightarrow>
         chunk_sha256 c = sha256 (st_body st) \<and> chunk_bytes c = int (length (st_body st)))"
proof (cases "get_authorized_job (up_db s) (job_id (st_job st)) (st_user st) (up_auth s)")
  case (Inr j)
  obtain e db where r: "reject_expired_upload cfg now j (up_db s) = (e, db)" by force
  have same: "get_chunk db jid ty i = get_chunk (up_db s) jid ty i" for jid ty i
    using db_frame_reject [OF r] by (simp add: db_frame_def get_chunk_def)
  from assms Inr r show ?thesis
    by (auto simp: store_stream_def Let_def same split: option.splits if_splits)
qed (use assms in \<open>simp add: store_stream_def Let_def split: if_splits\<close>)

lemma find_only: "c \<in> set xs \<Longrightarrow> (\<And>x. x \<in> set xs \<Longrightarrow> P x \<longleftrightarrow> x = c) \<Longrightarrow> find P xs = Some c"
  by (induction xs) auto

lemma get_chunk_key:
  assumes "chunks_keyed db" and "c \<in> set (chunks db)"
  shows "get_chunk db (chunk_job c) (chunk_type c) (chunk_index c) = Some c"
proof -
  have "is_chunk (chunk_job c) (chunk_type c) (chunk_index c) x \<longleftrightarrow> x = c" if "x \<in> set (chunks db)" for x
    using assms that by (auto simp: is_chunk_def chunks_keyed_def distinct_map inj_on_def)
  with assms(2) show ?thesis unfolding get_chunk_def by (rule find_only)
qed

lemma inv_half_way:
  assumes inv: "upload_inv cfg sha256 s" and stored: "fst (store_stream cfg sha256 now st s) = Inr Stored"
  shows "upload_inv cfg sha256 (s\<lparr>parts := (parts s)(stream_key st \<mapsto> st_body st)\<rparr>)"
proof -
  have "int (length (st_body st)) = chunk_bytes c \<and> sha256 (st_body st) = chunk_sha256 c"
    if c: "c \<in> set (chunks (up_db s))" "chunk_key c = stream_key st" for c
  proof -
    have "chunks_keyed (up_db s)" using inv by (simp add: upload_inv_def)
    from get_chunk_key [OF this c(1)] c(2)
    have "get_chunk (up_db s) (job_id (st_job st)) (st_type st) (st_index st) = Some c"
      by (simp add: chunk_key_def stream_key_def)
    with stored_matches [OF stored] show ?thesis by simp
  qed
  then have "files_ok sha256 (s\<lparr>parts := (parts s)(stream_key st \<mapsto> st_body st)\<rparr>)"
    using inv by (auto simp: upload_inv_def files_ok_def)
  with inv show ?thesis by (simp add: upload_inv_def counts_ok_def rows_ok_def)
qed

lemma inv_step: "upload_step cfg sha256 s t \<Longrightarrow> upload_inv cfg sha256 s \<Longrightarrow> upload_inv cfg sha256 t"
proof (induction rule: upload_step.induct)
  case (stores st s now)
  obtain r s' where f: "store_stream cfg sha256 now st s = (r, s')" by force
  from inv_store_stream [OF stores.prems stores.hyps, of now] f inv_release show ?case
    by (simp add: finish_upload_def Let_def)
qed (auto intro: inv_begin inv_receive inv_release inv_restarted inv_half_way inv_others)

definition fresh_uploads :: "upload_state \<Rightarrow> bool" where
  "fresh_uploads s \<longleftrightarrow> chunks (up_db s) = [] \<and> jobs_keyed (up_db s) \<and> streams s = [] \<and> upload_count s = 0
     \<and> user_uploads s = [] \<and> active_uploads s = []"

interpretation uploads: transition_system fresh_uploads "upload_step cfg sha256" "upload_inv cfg sha256" for cfg sha256
proof unfold_locales
  show "fresh_uploads s \<Longrightarrow> upload_inv cfg sha256 s" for s
    by (simp add: fresh_uploads_def upload_inv_def counts_ok_def rows_ok_def files_ok_def chunks_keyed_def
        popping.holds_def dict_count_def)
qed (rule inv_step)

section \<open>Properties\<close>

text \<open>
  C23: However requests, interruptions and restarts interleave, the relay counts its uploads exactly: the
  counters of streams, of streams per token and of streams per job are the numbers of open streams, and neither
  the total nor any token's share exceeds its limit.
\<close>

theorem uploads_counted:
  assumes "fresh_uploads s0" and "(upload_step cfg sha256)\<^sup>*\<^sup>* s0 s"
  shows "upload_count s = length (streams s) \<and> upload_count s \<le> max_parallel_uploads cfg
    \<and> (\<forall>u. dict_count (user_uploads s) u = length (filter (\<lambda>st. principal_id (st_user st) = u) (streams s))
         \<and> dict_count (user_uploads s) u \<le> max_parallel_uploads_per_user cfg)
    \<and> (\<forall>k. dict_count (active_uploads s) k = length (filter (\<lambda>st. job_id (st_job st) = k) (streams s)))"
  using uploads.run_inv [OF assms] by (simp add: upload_inv_def counts_ok_def popping.holds_def)

subsection \<open>All bytes of an archive\<close>

lemma db_frame_cached: "db_frame db (snd (cache_usable ready now j db))"
  by (auto simp: cache_usable_def has_ready_dataset_cache_def get_ready_dataset_cache_def upsert_dataset_cache_def
      db_frame_def jobs_keyed_def get_job_def Let_def split: option.splits prod.splits)

lemma copied:
  assumes "\<And>i. i \<in> set is \<Longrightarrow> part i = Some (f i) \<and> room i"
  shows "copy_parts room part is out = Inr (out @ concat (map f is))"
  using assms by (induction "is" arbitrary: out) simp_all

lemma bytes_of_parts:
  assumes "0 < chunk" and "0 \<le> sz" and "\<And>i. i \<in> set [0..n - 1] \<Longrightarrow> int (length (f i)) = min chunk (sz - i * chunk)"
    and "0 \<le> n" and "n = 0 \<or> (n - 1) * chunk \<le> sz"
  shows "int (length (concat (map f [0..n - 1]))) = min (n * chunk) sz"
  using assms(3-5)
proof (induction "nat n" arbitrary: n)
  case 0
  with assms(2) show ?case by (simp add: min_def)
next
  case (Suc m)
  define k where "k = n - 1"
  have k: "n = k + 1" "0 \<le> k" "m = nat k" using Suc.hyps(2) by (simp_all add: k_def)
  have l: "[0..n - 1] = [0..k - 1] @ [k]" using k by (simp add: upto_rec2)
  have le: "k * chunk \<le> sz" using Suc.prems(3) k by auto
  have "k = 0 \<or> (k - 1) * chunk \<le> sz" using le assms(1) by (smt (verit) mult_right_mono)
  moreover have "int (length (f i)) = min chunk (sz - i * chunk)" if "i \<in> set [0..k - 1]" for i
    using Suc.prems(1) that l by simp
  ultimately have "int (length (concat (map f [0..k - 1]))) = min (k * chunk) sz"
    using Suc.hyps(1) [of k] k by simp
  moreover have "int (length (f k)) = min chunk (sz - k * chunk)" using Suc.prems(1) l by simp
  ultimately show ?case
    using le k l by (simp add: algebra_simps min_def)
qed

lemma count_bounds:
  assumes "expected_chunk_count sz chunk = Inr n"
  shows "0 < chunk" and "0 \<le> sz" and "0 < n" and "(n - 1) * chunk \<le> sz" and "sz \<le> n * chunk"
proof -
  have c: "0 < chunk" "0 \<le> sz" "n = max 1 (- ((- sz) div chunk))"
    using assms by (auto simp: expected_chunk_count_def split: if_splits)
  then show "0 < chunk" "0 \<le> sz" "0 < n" by simp_all
  let ?q = "- ((- sz) div chunk)"
  have "(- sz) div chunk * chunk + (- sz) mod chunk = - sz" by (rule div_mult_mod_eq)
  moreover have "?q * chunk = - ((- sz) div chunk * chunk)" by simp
  ultimately have e: "sz = ?q * chunk - (- sz) mod chunk" by linarith
  have m: "0 \<le> (- sz) mod chunk" "(- sz) mod chunk < chunk" using c(1) by simp_all
  have q: "sz \<le> ?q * chunk" "?q * chunk - chunk < sz" using e m by linarith+
  have "?q * chunk \<le> n * chunk" by (rule mult_right_mono) (use c in auto)
  with q(1) show "sz \<le> n * chunk" by linarith
  show "(n - 1) * chunk \<le> sz"
    using q(2) c by (auto simp: max_def algebra_simps)
qed

lemma all_partsD:
  assumes "upload_inv cfg sha256 s" and "get_job (up_db s) (job_id j) = Some j'" and "same_archives j j'" and "all_parts j ty s"
    and "expected_chunk_count (archive_bytes j ty) (chunk_size j) = Inr n" and "i \<in> set [0..n - 1]"
  shows "\<exists>f c. parts s (job_id j, ty, i) = Some f \<and> get_chunk (up_db s) (job_id j) ty i = Some c
    \<and> int (length f) = chunk_extent j ty i \<and> sha256 f = chunk_sha256 c"
proof -
  have "chunk_index ` set (chunks_for (up_db s) (job_id j) ty) = {0..<n}" "list_all (\<lambda>i. parts s (job_id j, ty, i) \<noteq> None) [0..n - 1]"
    using assms(4,5) by (simp_all add: all_parts_def)
  with assms(6) have "i \<in> chunk_index ` set (chunks_for (up_db s) (job_id j) ty)" "parts s (job_id j, ty, i) \<noteq> None"
    by (simp_all add: list_all_iff)
  then obtain f c where f: "parts s (job_id j, ty, i) = Some f" "c \<in> set (chunks (up_db s))" "chunk_key c = (job_id j, ty, i)"
    by (auto simp: chunks_for_def chunk_key_def)
  then have k: "chunk_job c = job_id j" "chunk_type c = ty" "chunk_index c = i" by (simp_all add: chunk_key_def)
  from assms(1) f have "int (length f) = chunk_bytes c \<and> sha256 f = chunk_sha256 c"
    by (auto simp: upload_inv_def files_ok_def)
  moreover have "fits j' ty i (chunk_bytes c)" using assms(1,2) f(2) k by (auto simp: upload_inv_def rows_ok_def)
  then have "fits j ty i (chunk_bytes c)" using fits_same [OF assms(3)] by simp
  then have "chunk_bytes c = chunk_extent j ty i" by (simp add: fits_def)
  moreover have "get_chunk (up_db s) (job_id j) ty i = Some c"
    using get_chunk_key [of "up_db s" c] assms(1) f(2) k by (simp add: upload_inv_def)
  ultimately show ?thesis using f(1) by auto
qed

lemma all_parts_cong: "chunks (up_db t) = chunks (up_db s) \<Longrightarrow> parts t = parts s \<Longrightarrow> all_parts j ty t = all_parts j ty s"
  by (simp add: all_parts_def chunks_for_def split: sum.split)

lemma start_assembly_parts:
  assumes "start_assembly ready now j s = (Inr (Ready_to_assemble j' hit), t)"
  shows "j' = j \<and> parts t = parts s \<and> db_frame (up_db s) (up_db t)
    \<and> (\<forall>ty. ty \<in> set (required_archives hit) \<longrightarrow> all_parts j ty s)"
proof -
  obtain h db where c: "cache_usable ready now j (up_db s) = (h, db)" by force
  obtain db' ok where u: "update_job_if_status db now (job_id j) {Receiving} False None [Set_status Assembling, Set_progress 10] = (db', ok)"
    by force
  have frame: "db_frame (up_db s) db" using db_frame_cached [of "up_db s" ready now j] c by simp
  have same: "all_parts j ty (set_up_db db s) = all_parts j ty s" for ty
    using frame by (intro all_parts_cong) (simp_all add: db_frame_def)
  from assms c u have "j' = j" "h = hit" "t = set_up_db db' s" "list_all (\<lambda>ty. all_parts j ty (set_up_db db s)) (required_archives h)"
    by (auto simp: start_assembly_def Let_def set_up_twice split: if_splits)
  with same frame db_frame_if [OF u] show ?thesis by (auto simp: list_all_iff intro: db_frame_trans)
qed

lemma complete_starts:
  assumes "complete_job cfg ready files now p restart jid s = (Inr (Ready_to_assemble j hit), t)"
  shows "\<exists>s1. get_job (up_db s) jid = Some j \<and> job_id j = jid \<and> db_frame (up_db s) (up_db s1) \<and> parts s1 = parts s
    \<and> start_assembly ready now j s1 = (Inr (Ready_to_assemble j hit), t)"
proof -
  obtain j0 where a: "get_authorized_job (up_db s) jid p (up_auth s) = Inr j0"
    using assms by (auto simp: complete_job_def split: sum.splits)
  obtain e db where r: "reject_expired_upload cfg now j0 (up_db s) = (e, db)" by force
  from assms a r have st: "start_assembly ready now j0 (set_up_db db s) = (Inr (Ready_to_assemble j hit), t)"
    by (auto simp: complete_job_def Let_def split: option.splits if_splits sum.splits prod.splits unit.splits)
  with start_assembly_parts [OF st] authorized_job [OF a] db_frame_reject [OF r] show ?thesis
    by (intro exI [of _ "set_up_db db s"]) auto
qed

text \<open>
  C10: A job is assembled only from a complete upload. When completing a job starts the assembly, then in every
  state the uploads can reach - whatever streams, interruptions, crashes and restarts came before - the parts
  stored for each archive it needs add up to exactly the announced bytes, each part has the digest it was
  accepted with, and putting them together, given disk space, can fail only because the digest of the whole
  is not the announced one.
\<close>

theorem assembly_has_all_bytes:
  assumes "fresh_uploads s0" and "(upload_step cfg sha256)\<^sup>*\<^sup>* s0 s"
    and "complete_job cfg ready files now p restart jid s = (Inr (Ready_to_assemble j hit), t)"
    and "ty \<in> set (required_archives hit)" and "\<And>i. room i"
    and "expected_chunk_count (archive_bytes j ty) (chunk_size j) = Inr n"
  shows "\<exists>out. int (length out) = archive_bytes j ty
    \<and> assemble_archive sha256 room (\<lambda>i. parts t (jid, ty, i)) (archive_bytes j ty) (chunk_size j) expected
       = (if lower (sha256 out) = lower expected then Inr out else Inl (Inr (ArchiveError ''archive sha256 mismatch'')))
    \<and> (\<forall>i. 0 \<le> i \<longrightarrow> i < n \<longrightarrow> (\<exists>f c. parts t (jid, ty, i) = Some f \<and> get_chunk (up_db t) jid ty i = Some c \<and> sha256 f = chunk_sha256 c))"
proof -
  from complete_starts [OF assms(3)] obtain s1 where s1: "get_job (up_db s) jid = Some j" "job_id j = jid"
    "db_frame (up_db s) (up_db s1)" "parts s1 = parts s" "start_assembly ready now j s1 = (Inr (Ready_to_assemble j hit), t)"
    by blast
  note st = start_assembly_parts [OF s1(5)]
  have inv: "upload_inv cfg sha256 s" by (rule uploads.run_inv [OF assms(1,2)])
  have all: "all_parts j ty s"
    using st assms(4) s1(3,4) all_parts_cong [of s1 s j ty] by (simp add: db_frame_def)
  have row: "get_chunk (up_db t) jid ty i = get_chunk (up_db s) jid ty i" for i
    using st s1(3) by (simp add: get_chunk_def db_frame_def)
  define f where "f i = the (parts s (jid, ty, i))" for i
  have part: "parts t (jid, ty, i) = Some (f i) \<and> int (length (f i)) = chunk_extent j ty i
      \<and> (\<exists>c. get_chunk (up_db t) jid ty i = Some c \<and> sha256 (f i) = chunk_sha256 c)" if "i \<in> set [0..n - 1]" for i
    using all_partsD [OF inv _ _ all assms(6) that, of j] s1 st row by (auto simp: f_def same_archives_def)
  let ?out = "concat (map f [0..n - 1])"
  note n = count_bounds [OF assms(6)]
  have "int (length ?out) = min (n * chunk_size j) (archive_bytes j ty)"
    using bytes_of_parts [OF n(1,2), where f = f and n = n] part n by (simp add: chunk_extent_def)
  with n(5) have len: "int (length ?out) = archive_bytes j ty" by simp
  moreover have "copy_parts room (\<lambda>i. parts t (jid, ty, i)) [0..n - 1] [] = Inr ([] @ ?out)"
    by (rule copied) (use part assms(5) in auto)
  ultimately have "assemble_archive sha256 room (\<lambda>i. parts t (jid, ty, i)) (archive_bytes j ty) (chunk_size j) expected
       = (if lower (sha256 ?out) = lower expected then Inr ?out else Inl (Inr (ArchiveError ''archive sha256 mismatch'')))"
    by (simp add: assemble_archive_def assms(6))
  with len part show ?thesis by (intro exI [of _ ?out]) fastforce
qed

subsection \<open>The other handlers are steps in between\<close>

definition shrinks :: "upload_state \<Rightarrow> upload_state \<Rightarrow> bool" where
  "shrinks s t \<longleftrightarrow>
     streams t = streams s \<and> upload_count t = upload_count s \<and> user_uploads t = user_uploads s \<and> active_uploads t = active_uploads s
     \<and> (jobs_keyed (up_db s) \<longrightarrow> jobs_keyed (up_db t)) \<and> (chunks_keyed (up_db s) \<longrightarrow> chunks_keyed (up_db t))
     \<and> set (chunks (up_db t)) \<subseteq> set (chunks (up_db s)) \<and> parts t \<subseteq>\<^sub>m parts s
     \<and> (\<forall>k j'. get_job (up_db t) k = Some j' \<longrightarrow> (\<exists>j. get_job (up_db s) k = Some j \<and> same_archives j j'))"

lemma shrinks_refl [simp]: "shrinks s s"
  by (simp add: shrinks_def same_archives_def)

lemma shrinks_trans: "shrinks s t \<Longrightarrow> shrinks t u \<Longrightarrow> shrinks s u"
  unfolding shrinks_def same_archives_def by (auto intro: map_le_trans) metis+

lemma shrinks_others: "upload_inv cfg sha256 s \<Longrightarrow> shrinks s t \<Longrightarrow> others s t"
  by (auto simp: shrinks_def others_def upload_inv_def)

lemma shrinks_frame: "db_frame (up_db s) db \<Longrightarrow> shrinks s (set_up_db db s)"
  using db_frame_job [of "up_db s" db] by (auto simp: shrinks_def chunks_keyed_def db_frame_def)

lemma shrinks_enqueue: "shrinks s (enqueue w s)"
  by (simp add: shrinks_def same_archives_def)

lemma shrinks_remove: "shrinks s (remove_files jid r s)"
  by (auto simp: shrinks_def remove_files_def map_le_def same_archives_def up_db_def split: if_splits removal.splits)

lemma find_filter_other: "k \<noteq> jid \<Longrightarrow> find (\<lambda>x. f x = k) (filter (\<lambda>x. f x \<noteq> jid) xs) = find (\<lambda>x. f x = k) xs"
  by (induction xs) auto

lemma get_delete: "get_job (delete_job_record db jid) k = (if k = jid then None else get_job db k)"
  by (auto simp: delete_job_record_def get_job_def find_filter_other find_None_iff)

lemma remove_simps [simp]:
  "up_db (remove_files jid r s) = up_db s" "streams (remove_files jid r s) = streams s"
  "active_uploads (remove_files jid r s) = active_uploads s" "up_pool (remove_files jid r s) = up_pool s"
  "up_auth (remove_files jid r s) = up_auth s"
  by (simp_all add: remove_files_def up_db_def up_auth_def)

lemma shrinks_delete: "shrinks s (snd (delete_job_files_and_record r jid s))"
proof -
  have "shrinks s (set_up_db (delete_job_record (up_db s) jid) s)"
    by (auto simp: shrinks_def get_delete same_archives_def)
      (auto simp: delete_job_record_def jobs_keyed_def chunks_keyed_def distinct_map inj_on_def)
  moreover have "set_up_db (delete_job_record (up_db s) jid) (remove_files jid r s)
      = remove_files jid r (set_up_db (delete_job_record (up_db s) jid) s)"
    by (cases s) (simp add: set_up_db_def remove_files_def up_db_def cong del: if_weak_cong)
  ultimately show ?thesis
    using shrinks_trans [OF _ shrinks_remove] by (auto simp: delete_job_files_and_record_def shrinks_remove)
qed

lemma shrinks_cleanup_files: "shrinks s (cleanup_expired_job r now jid s)"
proof -
  let ?db = "append_log (update_job (up_db s) now jid (cleanup_values now)) now jid expired_note"
  have "db_frame (up_db s) ?db" by (rule db_frame_trans [OF db_frame_writes(2) db_frame_writes(3)])
  then have "db_frame (up_db (remove_files jid r s)) ?db" by simp
  from shrinks_trans [OF shrinks_remove shrinks_frame [OF this]] show ?thesis
    by (auto simp: cleanup_expired_job_def shrinks_remove split: option.split)
qed

lemma shrinks_cleanup: "shrinks s (cleanup_one cfg r now stale jid s)"
proof (cases "get_job (up_db s) jid")
  case (Some j)
  obtain e db where x: "expire_receiving_upload cfg now j (up_db s) = (e, db)" by force
  have s1: "shrinks s (set_up_db db s)"
    using db_frame_expire [of "up_db s" cfg now j] x by (intro shrinks_frame) simp
  let ?u = "update_job_if_status db now jid {Receiving} False None
    [Set_status Failed, Set_error ''upload expired after inactivity'', Set_cleanup_due_at (Some now)]"
  have s2: "shrinks s (set_up_db (fst ?u) s)"
    using shrinks_trans [OF s1 shrinks_frame [of "set_up_db db s" "fst ?u"]] db_frame_writes(1) by (simp add: set_up_twice)
  from Some x s1 s2 shrinks_trans [OF s1 shrinks_cleanup_files] shrinks_trans [OF s2 shrinks_cleanup_files] show ?thesis
    by (auto simp: cleanup_one_def Let_def set_up_twice case_prod_beta)
qed (simp add: cleanup_one_def)

lemma shrinks_complete: "shrinks s (snd (complete_job cfg ready files now p restart jid s))"
proof (cases "get_authorized_job (up_db s) jid p (up_auth s)")
  case (Inr j)
  obtain e db where x: "reject_expired_upload cfg now j (up_db s) = (e, db)" by force
  have s1: "shrinks s (set_up_db db s)" using db_frame_reject [OF x] by (rule shrinks_frame)
  let ?s = "set_up_db db s"
  have "shrinks ?s (resume_monitoring now j ?s)"
    using shrinks_trans [OF shrinks_frame [OF db_frame_writes(2)] shrinks_enqueue, of ?s]
    by (simp add: resume_monitoring_def)
  moreover have "shrinks ?s (snd (resume_dataset files now restart j ?s))"
    using shrinks_frame [of ?s, OF db_frame_writes(1)]
      shrinks_trans [OF shrinks_frame [of ?s, OF db_frame_writes(1)] shrinks_enqueue]
    by (auto simp: resume_dataset_def Let_def case_prod_beta split: sum.splits)
  moreover have "shrinks ?s (snd (start_assembly ready now j ?s))"
  proof -
    have c: "shrinks ?s (set_up_db (snd (cache_usable ready now j db)) ?s)"
      using db_frame_cached [of db ready now j] by (intro shrinks_frame) simp
    from shrinks_trans [OF c shrinks_frame [OF db_frame_writes(1)]] c show ?thesis
      by (auto simp: start_assembly_def Let_def case_prod_beta)
  qed
  ultimately show ?thesis
    using Inr x s1 shrinks_trans [OF s1]
    by (auto simp: complete_job_def Let_def case_prod_beta split: option.split sum.split unit.split)
qed (simp add: complete_job_def)

lemma shrinks_finish_assembly: "shrinks s (snd (finish_assembly known now j result s))"
proof -
  have "shrinks s (snd (if_assembling now j vs s))" for vs
    using shrinks_frame [of s, OF db_frame_writes(1)] by (simp add: if_assembling_def Let_def case_prod_beta)
  then show ?thesis
    using shrinks_trans [OF _ shrinks_enqueue] by (auto simp: finish_assembly_def case_prod_beta split: assembly.split)
qed

lemma shrinks_delete_job: "shrinks s (snd (delete_job p r jid s))"
  using shrinks_delete [of s r jid] by (auto simp: delete_job_def Let_def case_prod_beta split: sum.split)

subsection \<open>Deletion\<close>


subsection \<open>Retention\<close>

lemma parts_cleanup_files: "fst k \<noteq> jid \<Longrightarrow> parts (cleanup_expired_job r now jid s) k = parts s k"
  by (auto simp: cleanup_expired_job_def remove_files_def split: option.split)

lemma get_cleanup_files: "k \<noteq> jid \<Longrightarrow> get_job (up_db (cleanup_expired_job r now jid s)) k = get_job (up_db s) k"
  by (auto simp: cleanup_expired_job_def get_update_job split: option.split)

lemma pool_cleanup_files [simp]:
  "active_ids (up_pool (cleanup_expired_job r now jid s)) = active_ids (up_pool s)"
  "uploading k (cleanup_expired_job r now jid s) = uploading k s"
  by (auto simp: cleanup_expired_job_def uploading_def split: option.split)

lemma uploading_set_db [simp]: "uploading k (set_up_db db s) = uploading k s"
  by (simp add: uploading_def)

text \<open>What a job must be for its files to be removed by a pass that begins at \<open>now\<close>.\<close>

definition removable :: "settings \<Rightarrow> time \<Rightarrow> job \<Rightarrow> bool" where
  "removable cfg now j \<longleftrightarrow> cleaned_at j = None \<and>
     ((\<exists>t. completed_at j = Some t \<and> (t < now - retention_hours cfg * 3600 \<or> cleanup_due_at j \<noteq> None))
      \<or> status j = Receiving \<and> (past_deadline cfg now j \<or> inactive cfg now j))"

definition busy :: "string \<Rightarrow> upload_state \<Rightarrow> bool" where
  "busy jid s \<longleftrightarrow> uploading jid s \<or> jid \<in> set (active_ids (up_pool s))"

lemma expire_row:
  assumes "expire_receiving_upload cfg now j db = (e, db')" and "k \<noteq> job_id j"
  shows "get_job db' k = get_job db k"
  using assms by (auto simp: expire_receiving_upload_def Let_def case_prod_beta get_update_job_if_status split: if_splits)

lemma same_up_db [simp]: "set_up_db (up_db s) s = s"
  by (simp add: set_up_db_def up_db_def pool_db_def)

lemma cleanup_one_shape:
  "\<exists>d. (cleanup_one cfg r now stale jid s = set_up_db d s
        \<or> cleanup_one cfg r now stale jid s = cleanup_expired_job r now jid (set_up_db d s))
     \<and> (\<forall>k. k \<noteq> jid \<longrightarrow> get_job d k = get_job (up_db s) k)"
proof (cases "get_job (up_db s) jid")
  case (Some j)
  obtain e db where x: "expire_receiving_upload cfg now j (up_db s) = (e, db)" by force
  let ?u = "update_job_if_status db now jid {Receiving} False None
    [Set_status Failed, Set_error ''upload expired after inactivity'', Set_cleanup_due_at (Some now)]"
  have j: "job_id j = jid" using get_job_SomeD [OF Some] by simp
  then have db: "\<forall>k. k \<noteq> jid \<longrightarrow> get_job db k = get_job (up_db s) k" using expire_row [OF x] by simp
  then have u: "\<forall>k. k \<noteq> jid \<longrightarrow> get_job (fst ?u) k = get_job (up_db s) k" by (simp add: get_update_job_if_status)
  define t where "t = cleanup_one cfg r now stale jid s"
  have eq: "t = (if cleaned_at j \<noteq> None then s
      else if uploading jid s \<or> jid \<in> set (active_ids (up_pool s)) then set_up_db db s
      else if stale \<and> e = [] then
        (if status j \<noteq> Receiving \<or> \<not> inactive cfg now j then set_up_db db s
         else if snd ?u then cleanup_expired_job r now jid (set_up_db (fst ?u) s) else set_up_db (fst ?u) s)
      else cleanup_expired_job r now jid (set_up_db db s))"
    using Some x by (simp add: t_def cleanup_one_def case_prod_beta set_up_twice Let_def)
  have "t = s \<or> t = set_up_db db s \<or> t = set_up_db (fst ?u) s \<or> t = cleanup_expired_job r now jid (set_up_db db s)
      \<or> t = cleanup_expired_job r now jid (set_up_db (fst ?u) s)"
    by (cases "cleaned_at j = None"; cases "uploading jid s \<or> jid \<in> set (active_ids (up_pool s))"; cases "stale \<and> e = []";
        cases "status j \<noteq> Receiving \<or> \<not> inactive cfg now j"; cases "snd ?u") (simp_all add: eq)
  then show ?thesis
  proof (elim disjE)
    assume "t = s"
    then show ?thesis unfolding t_def [symmetric] by (intro exI [of _ "up_db s"]) simp
  next
    assume "t = set_up_db db s"
    with db show ?thesis unfolding t_def [symmetric] by (intro exI [of _ db]) simp
  next
    assume "t = set_up_db (fst ?u) s"
    with u show ?thesis unfolding t_def [symmetric] by (intro exI [of _ "fst ?u"]) simp
  next
    assume "t = cleanup_expired_job r now jid (set_up_db db s)"
    with db show ?thesis unfolding t_def [symmetric] by (intro exI [of _ db]) simp
  next
    assume "t = cleanup_expired_job r now jid (set_up_db (fst ?u) s)"
    with u show ?thesis unfolding t_def [symmetric] by (intro exI [of _ "fst ?u"]) simp
  qed
qed (simp add: cleanup_one_def exI [of _ "up_db s"])

lemma cleanup_one_frame:
  assumes "cleanup_one cfg r now stale jid s = t"
  shows "(\<forall>k. fst k \<noteq> jid \<longrightarrow> parts t k = parts s k) \<and> (\<forall>k. k \<noteq> jid \<longrightarrow> get_job (up_db t) k = get_job (up_db s) k)
    \<and> (\<forall>k. busy k t = busy k s)"
proof -
  from cleanup_one_shape [of cfg r now stale jid s] assms obtain d where
    d: "t = set_up_db d s \<or> t = cleanup_expired_job r now jid (set_up_db d s)"
    "\<forall>k. k \<noteq> jid \<longrightarrow> get_job d k = get_job (up_db s) k" by auto
  from d(1) show ?thesis
    using d(2) by (elim disjE) (simp_all add: busy_def parts_cleanup_files get_cleanup_files)
qed

lemma expired_status: "expire_receiving_upload cfg now j db = (e, db') \<Longrightarrow> e \<noteq> [] \<Longrightarrow> status j = Receiving \<and> past_deadline cfg now j"
  by (auto simp: expire_receiving_upload_def Let_def split: if_splits prod.splits)

lemma cleanup_one_touches:
  assumes "cleanup_one cfg r now stale jid s = t" and "parts t k \<noteq> parts s k" and "fst k = jid"
  shows "\<not> busy jid s \<and> (\<exists>j. get_job (up_db s) jid = Some j \<and> cleaned_at j = None
    \<and> (stale \<longrightarrow> status j = Receiving \<and> (past_deadline cfg now j \<or> inactive cfg now j)))"
proof (cases "get_job (up_db s) jid")
  case (Some j)
  obtain e db where x: "expire_receiving_upload cfg now j (up_db s) = (e, db)" by force
  from assms Some x expired_status [OF x] show ?thesis
    by (auto simp: cleanup_one_def Let_def case_prod_beta busy_def split: if_splits)
qed (use assms in \<open>simp add: cleanup_one_def\<close>)

lemma cleanup_all_touches:
  assumes "distinct jids" and "cleanup_all cfg r now stale jids s = t" and "parts t k \<noteq> parts s k"
  shows "fst k \<in> set jids \<and> \<not> busy (fst k) s \<and> (\<exists>j. get_job (up_db s) (fst k) = Some j \<and> cleaned_at j = None
    \<and> (fst k \<in> set stale \<longrightarrow> status j = Receiving \<and> (past_deadline cfg now j \<or> inactive cfg now j)))"
  using assms
proof (induction jids arbitrary: s)
  case (Cons jid jids)
  define s1 where "s1 = cleanup_one cfg (r jid) now (jid \<in> set stale) jid s"
  note frame = cleanup_one_frame [OF s1_def [symmetric]]
  show ?case
  proof (cases "parts s1 k = parts s k")
    case True
    with Cons.prems have "parts t k \<noteq> parts s1 k" "cleanup_all cfg r now stale jids s1 = t" by (simp_all add: s1_def)
    with Cons.IH [of s1] Cons.prems(1) have ih: "fst k \<in> set jids" "\<not> busy (fst k) s1"
      "\<exists>j. get_job (up_db s1) (fst k) = Some j \<and> cleaned_at j = None
        \<and> (fst k \<in> set stale \<longrightarrow> status j = Receiving \<and> (past_deadline cfg now j \<or> inactive cfg now j))" by auto
    with Cons.prems(1) have "fst k \<noteq> jid" by auto
    with ih frame show ?thesis by auto
  next
    case False
    with frame have "fst k = jid" by blast
    with cleanup_one_touches [OF s1_def [symmetric] False] show ?thesis by auto
  qed
qed simp

text \<open>
  Retention removes nothing that is in use or still wanted: a cleaning pass takes part files only from jobs
  that no stream and no worker holds, that were not cleaned before, and that ended longer ago than the
  retention period, were marked for cleaning, or never completed their upload within its deadline or activity limit.
\<close>

theorem cleanup_spares_wanted:
  assumes "cleanup_expired_jobs cfg r now s = t" and "parts t k \<noteq> parts s k" and "jobs_keyed (up_db s)"
  shows "\<exists>j. get_job (up_db s) (fst k) = Some j \<and> removable cfg now j \<and> \<not> busy (fst k) s"
proof -
  let ?jids = "cleanup_candidates cfg now (up_db s)"
  have "distinct ?jids" by (simp add: cleanup_candidates_def)
  from cleanup_all_touches [OF this assms(1) [unfolded cleanup_expired_jobs_def] assms(2)]
  obtain j where j: "fst k \<in> set ?jids" "\<not> busy (fst k) s" "get_job (up_db s) (fst k) = Some j" "cleaned_at j = None"
    "fst k \<in> set (stale_uploads cfg now (up_db s)) \<longrightarrow> status j = Receiving \<and> (past_deadline cfg now j \<or> inactive cfg now j)"
    by blast
  have one: "x = j" if "x \<in> set (jobs (up_db s))" "job_id x = fst k" for x
    using that get_job_SomeD [OF j(3)] assms(3) by (auto simp: jobs_keyed_def distinct_map inj_on_def)
  from j(1) have "fst k \<in> set (stale_uploads cfg now (up_db s))
      \<or> fst k \<in> set (completed_before (up_db s) (now - retention_hours cfg * 3600))"
    by (auto simp: cleanup_candidates_def)
  then have "removable cfg now j"
  proof
    assume "fst k \<in> set (completed_before (up_db s) (now - retention_hours cfg * 3600))"
    then show ?thesis
      using one j(4) by (auto simp: completed_before_def removable_def split: option.splits)
  qed (use j in \<open>auto simp: removable_def\<close>)
  with j show ?thesis by blast
qed

section \<open>Witnesses\<close>

text \<open>A job whose dataset is cached uploads its kernel in one chunk.\<close>

definition sample_sha :: "string \<Rightarrow> string" where
  "sample_sha t = replicate 64 (CHR ''a'')"

definition sample_owner :: principal where
  "sample_owner = snd (tokens sample_store ! 0)"

definition up_start :: upload_state where
  "up_start = \<lparr>up_pool = new_pool \<lparr>app_db = upsert_dataset_cache (sample_db [sample_job\<lparr>payload_hash := ''h''\<rparr>]) 5 ''u/d'' ''h''
        ''ready'' ''ready'' ''i'' ''acct'', app_auth = sample_store, work_queue = []\<rparr>,
     parts = (\<lambda>_. None), upload_count = 0, user_uploads = [], active_uploads = [], streams = []\<rparr>"

definition up_opened :: upload_state where
  "up_opened = snd (begin_upload sample_settings 1000 10 sample_owner ''j'' Kernel_archive 0 (sample_sha []) 4 up_start)"

definition up_received :: upload_state where
  "up_received = snd (receive_part sample_settings 1000 11 False ''abcd'' (hd (streams up_opened)) up_opened)"

definition up_stored :: upload_state where
  "up_stored = snd (finish_upload sample_settings sample_sha 12 (hd (streams up_received)) up_received)"

definition up_completed :: "completion reply \<times> upload_state" where
  "up_completed = complete_job sample_settings (\<lambda>t. t = ''ready'') (\<lambda>_. Intent_missing) 13 sample_owner False ''j'' up_stored"

lemma sample_opened: "streams up_opened \<noteq> []" "streams up_received \<noteq> []"
  by code_simp+

lemma sample_completed:
  "case fst up_completed of
     Inr (Ready_to_assemble j hit) \<Rightarrow> hit \<and> archive_bytes j Kernel_archive = 4 \<and> chunk_size j = 4
   | _ \<Rightarrow> False"
  by code_simp

lemma sample_run:
  "fresh_uploads up_start" "(upload_step sample_settings sample_sha)\<^sup>*\<^sup>* up_start up_opened"
  "(upload_step sample_settings sample_sha)\<^sup>*\<^sup>* up_start up_stored"
proof -
  show "fresh_uploads up_start"
    by (simp add: fresh_uploads_def up_start_def up_db_def pool_db_def new_pool_def jobs_keyed_def sample_db_def
        upsert_dataset_cache_def)
  have 1: "upload_step sample_settings sample_sha up_start up_opened" unfolding up_opened_def by (rule opens)
  have 2: "upload_step sample_settings sample_sha up_opened up_received"
    unfolding up_received_def by (rule receives) (simp add: sample_opened)
  have 3: "upload_step sample_settings sample_sha up_received up_stored"
    unfolding up_stored_def by (rule stores) (simp add: sample_opened)
  from 1 show "(upload_step sample_settings sample_sha)\<^sup>*\<^sup>* up_start up_opened" by simp
  from 1 2 3 show "(upload_step sample_settings sample_sha)\<^sup>*\<^sup>* up_start up_stored" by simp
qed

lemma uploads_counted_witness: "streams up_opened \<noteq> [] \<and> upload_count up_opened = length (streams up_opened)"
  using uploads_counted [OF sample_run(1,2)] sample_opened by simp

lemma assembly_has_all_bytes_witness:
  "\<exists>j t out. up_completed = (Inr (Ready_to_assemble j True), t) \<and> length out = 4
     \<and> assemble_archive sample_sha (\<lambda>_. True) (\<lambda>i. parts t (''j'', Kernel_archive, i)) 4 4 (sample_sha []) = Inr out"
proof -
  obtain a t where p: "up_completed = (a, t)" by force
  from sample_completed [unfolded p] obtain j where c: "up_completed = (Inr (Ready_to_assemble j True), t)" "archive_bytes j Kernel_archive = 4" "chunk_size j = 4"
    by (cases a) (auto simp: p split: completion.splits)
  have n: "expected_chunk_count (archive_bytes j Kernel_archive) (chunk_size j) = Inr 1" unfolding c(2,3) by code_simp
  from assembly_has_all_bytes [OF sample_run(1,3) c(1) [unfolded up_completed_def] _ _ n, of "\<lambda>_. True" "sample_sha []"]
  obtain out where "int (length out) = 4"
    "assemble_archive sample_sha (\<lambda>_. True) (\<lambda>i. parts t (''j'', Kernel_archive, i)) 4 4 (sample_sha []) = Inr out"
    by (auto simp: c required_archives_def sample_sha_def)
  with c(1) show ?thesis by (intro exI [of _ j] exI [of _ t] exI [of _ out]) simp
qed


end
