(* ===== verification/Archive_Files.thy ===== *)
theory Archive_Files
  imports Payload_Metadata Upload Payload_Contract
begin

text \<open>
  Archives on the file system of the relay (\<^verbatim>\<open>app/archive.py\<close>): packing a directory, safe extraction of what a
  client uploaded, and the step of \<^verbatim>\<open>app/main.py\<close> that puts the inputs of a job in place. A path is the list of
  its components below the root; the storage holds directories and regular files and no links, so that resolving
  a path is dropping \<^verbatim>\<open>.\<close> and climbing at \<^verbatim>\<open>..\<close>. Bytes are strings. Of the zip library, \<open>unzip\<close> lists the members
  held in the bytes of an archive and \<open>opened\<close> reads one of them; the library never reads more of a member than
  its announced size. \<open>room\<close> tells which checks of the free space pass.
\<close>

section \<open>The file system\<close>

type_synonym path = "string list"

datatype node = Dir | Regular string

type_synonym files = "(path \<times> node) list"

definition node_at :: "files \<Rightarrow> path \<Rightarrow> node option" where
  "node_at fs p = (if p = [] then Some Dir else map_of fs p)"

definition content_at :: "files \<Rightarrow> path \<Rightarrow> string option" where
  "content_at fs p = (case node_at fs p of Some (Regular c) \<Rightarrow> Some c | _ \<Rightarrow> None)"

text \<open>An \<^verbatim>\<open>ArchiveError\<close>, an \<^verbatim>\<open>OSError\<close> at a path, an exception of the zip library, or no disk space.\<close>

datatype file_error = Refused string | Os_error path | Bad_read string | No_room

fun make_dirs :: "path \<Rightarrow> path \<Rightarrow> files \<Rightarrow> file_error + files" where
  "make_dirs here [] fs = Inr fs"
| "make_dirs here (c # cs) fs =
     (case node_at fs (here @ [c]) of
        Some Dir \<Rightarrow> make_dirs (here @ [c]) cs fs
      | Some (Regular _) \<Rightarrow> Inl (Os_error (here @ [c]))
      | None \<Rightarrow> make_dirs (here @ [c]) cs (AList.update (here @ [c]) Dir fs))"

text \<open>\<^verbatim>\<open>mkdir(parents=True, exist_ok=True)\<close>.\<close>

definition mkdir_parents :: "path \<Rightarrow> files \<Rightarrow> file_error + files" where
  "mkdir_parents p fs = make_dirs [] p fs"

definition write_file :: "path \<Rightarrow> string \<Rightarrow> files \<Rightarrow> file_error + files" where
  "write_file p c fs = (if node_at fs p = Some Dir then Inl (Os_error p) else Inr (AList.update p (Regular c) fs))"

definition remove_tree :: "path \<Rightarrow> files \<Rightarrow> files" where
  "remove_tree p fs = filter (\<lambda>(q, _). \<not> prefix p q) fs"

section \<open>Where a member goes\<close>

definition unslash :: "string \<Rightarrow> string" where
  "unslash s = map (\<lambda>c. if c = CHR 0x5C then CHR ''/'' else c) s"

definition name_parts :: "string \<Rightarrow> path" where
  "name_parts s = filter (\<lambda>p. p \<noteq> [] \<and> p \<noteq> ''.'') (split_on (CHR ''/'') s)"

fun climb :: "path \<Rightarrow> path \<Rightarrow> path" where
  "climb here [] = here"
| "climb here (c # cs) = climb (if c = ''..'' then butlast here else here @ [c]) cs"

definition safe_member_target :: "path \<Rightarrow> string \<Rightarrow> file_error + path" where
  "safe_member_target dest name =
     (let n = unslash name; t = climb dest (name_parts n) in
      if prefix ''/'' n \<or> prefix ''../'' n \<or> contains ''/../'' n \<or> n \<in> {[], ''.'', ''..''} \<or> \<not> prefix dest t
      then Inl (Refused (''unsafe zip path: '' @ name)) else Inr t)"

section \<open>Extraction\<close>

text \<open>
  What the library does when a member is opened: it raises, or it hands out blocks and then ends or raises. Blocks
  are cut at the announced size, an empty block ends the copy.
\<close>

datatype opened = Cannot_open string | Blocks "string list" "string option"

fun bounded_blocks :: "int \<Rightarrow> string list \<Rightarrow> string list" where
  "bounded_blocks n [] = []"
| "bounded_blocks n (b # bs) = take (nat n) b # bounded_blocks (n - int (length b)) bs"

fun copy_file :: "(nat \<Rightarrow> int \<Rightarrow> bool) \<Rightarrow> nat \<Rightarrow> string list \<Rightarrow> string option \<Rightarrow> string \<Rightarrow> file_error option \<times> string" where
  "copy_file room k [] e out = (map_option Bad_read e, out)"
| "copy_file room k (b # bs) e out =
     (if b = [] then (None, out)
      else if room k (int (length b)) then copy_file room (Suc k) bs e (out @ b) else (Some No_room, out))"

definition link_kind :: int where "link_kind = 10"

definition safety_limit :: "int \<Rightarrow> int" where
  "safety_limit expected = max (expected * 20) (expected + 1024 * 1024 * 1024)"

text \<open>One member at its target: a directory, or a file that is opened and copied.\<close>

definition unpack_member :: "opened \<Rightarrow> (nat \<Rightarrow> int \<Rightarrow> bool) \<Rightarrow> member \<Rightarrow> path \<Rightarrow> files \<Rightarrow> file_error option \<times> files" where
  "unpack_member o1 room m t fs =
     (case mkdir_parents (if is_dir m then t else butlast t) fs of
        Inl e \<Rightarrow> (Some e, fs)
      | Inr fs1 \<Rightarrow>
          if is_dir m then (None, fs1)
          else case o1 of
              Cannot_open e \<Rightarrow> (Some (Bad_read e), fs1)
            | Blocks bs e \<Rightarrow>
                let (r, out) = copy_file room 0 (bounded_blocks (file_size m) bs) e [] in
                (case write_file t out fs1 of Inl e \<Rightarrow> (Some e, fs1) | Inr fs2 \<Rightarrow> (r, fs2)))"

fun extract_members ::
  "(member \<Rightarrow> opened) \<Rightarrow> (nat \<Rightarrow> nat \<Rightarrow> int \<Rightarrow> bool) \<Rightarrow> path \<Rightarrow> int \<Rightarrow> member list \<Rightarrow> nat \<Rightarrow> int \<Rightarrow> files
   \<Rightarrow> file_error option \<times> files" where
  "extract_members opn room dest limit [] i sofar fs = (None, fs)"
| "extract_members opn room dest limit (m # ms) i sofar fs =
     (if file_kind m = link_kind then (Some (Refused (''zip symlink is not allowed: '' @ filename m)), fs)
      else case safe_member_target dest (filename m) of
          Inl e \<Rightarrow> (Some e, fs)
        | Inr t \<Rightarrow>
            if limit < sofar + file_size m
            then (Some (Refused ''zip uncompressed size exceeds relay safety limit''), fs)
            else case unpack_member (opn m) (room i) m t fs of
                (Some e, fs1) \<Rightarrow> (Some e, fs1)
              | (None, fs1) \<Rightarrow> extract_members opn room dest limit ms (Suc i) (sofar + file_size m) fs1)"

text \<open>\<open>zipped\<close>: the archive; it is read after the destination was emptied.\<close>

definition emptied :: "path \<Rightarrow> files \<Rightarrow> file_error + files" where
  "emptied dest fs =
     (case node_at fs dest of
        None \<Rightarrow> mkdir_parents dest fs
      | Some Dir \<Rightarrow> mkdir_parents dest (remove_tree dest fs)
      | Some (Regular _) \<Rightarrow> Inl (Os_error dest))"

definition safe_extract_zip ::
  "(string \<Rightarrow> archive) \<Rightarrow> (member \<Rightarrow> opened) \<Rightarrow> (nat \<Rightarrow> nat \<Rightarrow> int \<Rightarrow> bool) \<Rightarrow> path \<Rightarrow> path \<Rightarrow> int \<Rightarrow> files
   \<Rightarrow> file_error option \<times> files" where
  "safe_extract_zip unzip opn room zipped dest expected fs =
     (case emptied dest fs of
        Inl e \<Rightarrow> (Some e, fs)
      | Inr fs1 \<Rightarrow>
          (case content_at fs1 zipped of
             None \<Rightarrow> (Some (Os_error zipped), fs1)
           | Some b \<Rightarrow>
               (case unzip b of
                  Bad_archive e \<Rightarrow> (Some (Bad_read e), fs1)
                | Archive ms \<Rightarrow> extract_members opn room dest (safety_limit expected) ms 0 0 fs1)))"

section \<open>Packing a directory\<close>

definition below :: "path \<Rightarrow> files \<Rightarrow> path list" where
  "below src fs = sort (remdups (map (drop (length src)) (filter (strict_prefix src) (map fst fs))))"

definition packed :: "string list \<Rightarrow> path \<Rightarrow> files \<Rightarrow> (path \<times> string) list" where
  "packed exclude src fs =
     List.map_filter (\<lambda>rel. if list_ex (\<lambda>p. p \<in> set exclude) rel then None
       else map_option (Pair rel) (content_at fs (src @ rel))) (below src fs)"

definition packed_members :: "string list \<Rightarrow> path \<Rightarrow> files \<Rightarrow> member list" where
  "packed_members exclude src fs = map (\<lambda>(rel, c). plain_member (join ''/'' rel) c) (packed exclude src fs)"

text \<open>
  \<open>pack\<close>: the bytes of an archive with these members. The archive lies outside the directory it packs: one
  inside would contain a partial copy of itself.
\<close>

definition zip_directory :: "(member list \<Rightarrow> string) \<Rightarrow> path \<Rightarrow> path \<Rightarrow> string list \<Rightarrow> files \<Rightarrow> file_error option \<times> files" where
  "zip_directory pack src zipped exclude fs =
     (case mkdir_parents (butlast zipped) fs of
        Inl e \<Rightarrow> (Some e, fs)
      | Inr fs1 \<Rightarrow>
          (case write_file zipped [] fs1 of
             Inl e \<Rightarrow> (Some e, fs1)
           | Inr fs2 \<Rightarrow>
               (None, AList.update zipped (Regular (pack (packed_members exclude src fs2))) fs2)))"

section \<open>Laws of the file system\<close>

text \<open>Every entry lies in a directory.\<close>

definition tree :: "files \<Rightarrow> bool" where
  "tree fs \<longleftrightarrow> list_all (\<lambda>p. p \<noteq> [] \<and> node_at fs (butlast p) = Some Dir) (map fst fs)"

lemma node_root [simp]: "node_at fs [] = Some Dir"
  by (simp add: node_at_def)

lemma node_update [simp]: "node_at (AList.update p n fs) q = (if q = p \<and> p \<noteq> [] then Some n else node_at fs q)"
  by (simp add: node_at_def update_conv')

lemma content_update:
  "content_at (AList.update p (Regular c) fs) q = (if q = p \<and> p \<noteq> [] then Some c else content_at fs q)"
  by (auto simp: content_at_def)

lemma treeD: "tree fs \<Longrightarrow> node_at fs p = Some n \<Longrightarrow> node_at fs (butlast p) = Some Dir"
  by (cases "p = []") (auto simp: tree_def node_at_def list_all_iff dest!: map_of_SomeD)

lemma tree_above:
  assumes "tree fs" and "node_at fs p = Some n" and "strict_prefix q p"
  shows "node_at fs q = Some Dir"
  using assms(2,3)
proof (induction p arbitrary: n rule: rev_induct)
  case (snoc c p)
  have "node_at fs p = Some Dir" using treeD [OF assms(1) snoc.prems(1)] by simp
  moreover have "q = p \<or> strict_prefix q p" using snoc.prems(2) by (auto simp: strict_prefix_def)
  ultimately show ?case using snoc.IH by blast
qed simp

lemma tree_below: "tree fs \<Longrightarrow> node_at fs p \<noteq> Some Dir \<Longrightarrow> strict_prefix p q \<Longrightarrow> node_at fs q = None"
  using tree_above by (metis option.exhaust)

lemma tree_update:
  assumes "tree fs" and "p \<noteq> []" and "node_at fs (butlast p) = Some Dir"
    and "n \<noteq> Dir \<Longrightarrow> node_at fs p \<noteq> Some Dir"
  shows "tree (AList.update p n fs)"
proof -
  have "q \<noteq> [] \<and> node_at (AList.update p n fs) (butlast q) = Some Dir" if q: "q \<in> insert p (fst ` set fs)" for q
  proof (cases "q = p")
    case True
    then show ?thesis using assms(2,3) by (cases p rule: rev_cases) auto
  next
    case False
    with q assms(1) have par: "q \<noteq> []" "node_at fs (butlast q) = Some Dir" by (auto simp: tree_def list_all_iff)
    then show ?thesis using assms(4) by (cases n) auto
  qed
  then show ?thesis unfolding tree_def list_all_iff set_map keys_update by blast
qed

lemma make_dirs_keeps:
  "make_dirs here cs fs = Inr fs' \<Longrightarrow> node_at fs q = Some n \<Longrightarrow> node_at fs' q = Some n"
proof (induction here cs fs rule: make_dirs.induct)
  case (2 here c cs fs)
  show ?case
  proof (cases "node_at fs (here @ [c])")
    case None
    with "2.prems" have "node_at (AList.update (here @ [c]) Dir fs) q = Some n" by auto
    with "2.IH"(1) [OF None] "2.prems" None show ?thesis by simp
  next
    case (Some m)
    with "2.prems" "2.IH"(2) show ?thesis by (cases m) auto
  qed
qed simp

lemma make_dirs_new:
  "make_dirs here cs fs = Inr fs' \<Longrightarrow> node_at fs' q = Some n \<Longrightarrow> node_at fs q = Some n \<or> n = Dir \<and> prefix q (here @ cs)"
proof (induction here cs fs rule: make_dirs.induct)
  case (2 here c cs fs)
  show ?case
  proof (cases "node_at fs (here @ [c])")
    case None
    with "2.prems" "2.IH"(1) have "node_at (AList.update (here @ [c]) Dir fs) q = Some n \<or> n = Dir \<and> prefix q (here @ c # cs)" by simp
    then show ?thesis by (auto split: if_splits)
  next
    case (Some m)
    with "2.prems" "2.IH"(2) show ?thesis by (cases m) auto
  qed
qed simp

lemma make_dirs_at: "make_dirs here cs fs = Inr fs' \<Longrightarrow> node_at fs here = Some Dir \<Longrightarrow> node_at fs' (here @ cs) = Some Dir"
  by (induction here cs fs rule: make_dirs.induct) (auto split: option.splits node.splits)

lemma make_dirs_tree: "make_dirs here cs fs = Inr fs' \<Longrightarrow> tree fs \<Longrightarrow> node_at fs here = Some Dir \<Longrightarrow> tree fs'"
  by (induction here cs fs rule: make_dirs.induct) (auto simp: tree_update split: option.splits node.splits)

lemma make_dirs_ok:
  "(\<And>q. prefix q (here @ cs) \<Longrightarrow> content_at fs q = None) \<Longrightarrow> \<exists>fs'. make_dirs here cs fs = Inr fs'"
proof (induction here cs fs rule: make_dirs.induct)
  case (2 here c cs fs)
  have no: "content_at fs (here @ [c]) = None" using "2.prems" [of "here @ [c]"] by (simp add: prefix_def)
  show ?case
  proof (cases "node_at fs (here @ [c])")
    case None
    have "content_at (AList.update (here @ [c]) Dir fs) q = None" if "prefix q ((here @ [c]) @ cs)" for q
      using "2.prems" [of q] that by (simp add: content_at_def)
    with "2.IH"(1) [OF None] None show ?thesis by simp
  next
    case (Some m)
    with no have "m = Dir" by (cases m) (auto simp: content_at_def)
    with Some "2.IH"(2) "2.prems" show ?thesis by simp
  qed
qed simp

definition node_bytes :: "node \<Rightarrow> int" where
  "node_bytes n = (case n of Dir \<Rightarrow> 0 | Regular c \<Rightarrow> int (length c))"

definition bytes_below :: "path \<Rightarrow> files \<Rightarrow> int" where
  "bytes_below d fs = sum_list (map (\<lambda>(p, n). if prefix d p then node_bytes n else 0) fs)"

lemma node_bytes_nonneg [simp]: "0 \<le> node_bytes n"
  by (cases n) (simp_all add: node_bytes_def)

lemma bytes_update: "bytes_below d (AList.update p n fs) \<le> bytes_below d fs + (if prefix d p then node_bytes n else 0)"
  by (induction fs) (auto simp: bytes_below_def)

lemma make_dirs_bytes: "make_dirs here cs fs = Inr fs' \<Longrightarrow> bytes_below d fs' \<le> bytes_below d fs"
proof (induction here cs fs rule: make_dirs.induct)
  case (2 here c cs fs)
  have "bytes_below d (AList.update (here @ [c]) Dir fs) \<le> bytes_below d fs"
    using bytes_update [of d "here @ [c]" Dir fs] by (simp add: node_bytes_def split: if_splits)
  with 2 show ?case by (auto split: option.splits node.splits)
qed simp

lemma mkdir_tree: "mkdir_parents p fs = Inr fs' \<Longrightarrow> tree fs \<Longrightarrow> tree fs'"
  using make_dirs_tree by (fastforce simp: mkdir_parents_def)

lemma mkdir_at: "mkdir_parents p fs = Inr fs' \<Longrightarrow> node_at fs' p = Some Dir"
  using make_dirs_at [of "[]" p fs fs'] by (simp add: mkdir_parents_def)

lemma mkdir_node:
  "mkdir_parents p fs = Inr fs' \<Longrightarrow> node_at fs' q = node_at fs q \<or> prefix q p \<and> node_at fs q = None \<and> node_at fs' q = Some Dir"
  using make_dirs_keeps [of "[]" p fs fs' q] make_dirs_new [of "[]" p fs fs' q]
  by (cases "node_at fs q"; cases "node_at fs' q") (auto simp: mkdir_parents_def)

lemma mkdir_content: "mkdir_parents p fs = Inr fs' \<Longrightarrow> content_at fs' q = content_at fs q"
  using mkdir_node [of p fs fs' q] by (auto simp: content_at_def)

lemma node_removed: "node_at (remove_tree d fs) q = (if q = [] then Some Dir else if prefix d q then None else node_at fs q)"
  by (induction fs) (auto simp: remove_tree_def node_at_def)

lemma tree_removed:
  assumes "tree fs"
  shows "tree (remove_tree d fs)"
proof -
  have "p \<noteq> [] \<and> node_at (remove_tree d fs) (butlast p) = Some Dir" if "p \<in> fst ` set fs" "\<not> prefix d p" for p
    using that assms prefixeq_butlast [of p] prefix_order.trans [of d "butlast p" p]
    by (auto simp: tree_def list_all_iff node_removed)
  then show ?thesis by (force simp: tree_def list_all_iff remove_tree_def)
qed

lemma bytes_none: "(\<And>p. p \<in> fst ` set fs \<Longrightarrow> \<not> prefix d p) \<Longrightarrow> bytes_below d fs = 0"
  by (induction fs) (auto simp: bytes_below_def)

section \<open>Extraction stays inside and within its limit\<close>

lemma copy_bytes:
  "int (length (snd (copy_file room k (bounded_blocks n bs) e out))) \<le> int (length out) + max 0 n"
proof (induction bs arbitrary: k n out)
  case (Cons b bs)
  show ?case
    using Cons.IH [of "Suc k" "n - int (length b)" "out @ take (nat n) b"] by auto
qed simp

text \<open>Below \<open>dest\<close> at most \<open>n\<close> more bytes, elsewhere nothing new.\<close>

definition grown :: "path \<Rightarrow> int \<Rightarrow> files \<Rightarrow> files \<Rightarrow> bool" where
  "grown dest n fs fs' \<longleftrightarrow> tree fs' \<and> node_at fs' dest = Some Dir \<and> (\<forall>p. prefix dest p \<or> node_at fs' p = node_at fs p)
     \<and> bytes_below dest fs' \<le> bytes_below dest fs + n"

lemma grown_trans: "grown d m fs fs1 \<Longrightarrow> grown d n fs1 fs2 \<Longrightarrow> grown d (m + n) fs fs2"
  unfolding grown_def by (metis (no_types, lifting) add.assoc add_mono_thms_linordered_semiring(3) order_trans)

lemma grown_mkdir:
  assumes "mkdir_parents p fs = Inr fs'" and "tree fs" and "node_at fs dest = Some Dir" and "prefix dest p \<or> prefix p dest"
  shows "grown dest 0 fs fs'"
proof -
  have "prefix dest q \<or> node_at fs' q = node_at fs q" for q
  proof (rule ccontr)
    assume no: "\<not> (prefix dest q \<or> node_at fs' q = node_at fs q)"
    with mkdir_node [OF assms(1), of q] have q: "prefix q p" "node_at fs q = None" by auto
    with assms(4) no have "strict_prefix q dest"
      using prefix_same_cases [of q p dest] prefix_order.trans [of q p dest] by (auto simp: strict_prefix_def)
    with tree_above [OF assms(2,3)] q show False by simp
  qed
  moreover have "node_at fs' dest = Some Dir" using mkdir_node [OF assms(1), of dest] assms(3) by auto
  moreover have "bytes_below dest fs' \<le> bytes_below dest fs" using assms(1) make_dirs_bytes by (auto simp: mkdir_parents_def)
  ultimately show ?thesis using mkdir_tree [OF assms(1,2)] by (auto simp: grown_def)
qed

lemma unpack_grown:
  assumes "unpack_member o1 room m t fs = (r, fs')" and "tree fs" and "node_at fs dest = Some Dir" and "prefix dest t"
  shows "grown dest (max 0 (file_size m)) fs fs'"
proof (cases "mkdir_parents (if is_dir m then t else butlast t) fs")
  case (Inl e)
  with assms show ?thesis by (simp add: unpack_member_def grown_def)
next
  case (Inr fs1)
  have "prefix dest (if is_dir m then t else butlast t) \<or> prefix (if is_dir m then t else butlast t) dest"
    using assms(4) prefixeq_butlast [of t] prefix_same_cases by auto
  note g = grown_mkdir [OF Inr assms(2,3) this]
  then have more: "grown dest n fs fs1" if "0 \<le> n" for n using that by (auto simp: grown_def)
  show ?thesis
  proof (cases "is_dir m \<or> (\<exists>e. o1 = Cannot_open e) \<or> node_at fs1 t = Some Dir")
    case True
    then have "fs' = fs1"
      using assms(1) Inr
      by (auto simp: unpack_member_def write_file_def Let_def split: opened.splits prod.splits if_splits)
    with more show ?thesis by simp
  next
    case False
    then obtain bs e where o: "o1 = Blocks bs e" "\<not> is_dir m" "node_at fs1 t \<noteq> Some Dir" by (cases o1) auto
    let ?out = "snd (copy_file room 0 (bounded_blocks (file_size m) bs) e [])"
    have fs': "fs' = AList.update t (Regular ?out) fs1"
      using assms(1) Inr o by (auto simp: unpack_member_def write_file_def Let_def split: prod.splits)
    have t: "t \<noteq> []" "t \<noteq> dest" using o(3) g by (auto simp: grown_def)
    have par: "node_at fs1 (butlast t) = Some Dir" using mkdir_at [OF Inr] o(2) by simp
    have "bytes_below dest fs' \<le> bytes_below dest fs1 + max 0 (file_size m)"
      using bytes_update [of dest t "Regular ?out" fs1] copy_bytes [of room 0 "file_size m" bs e "[]"] assms(4)
      by (simp add: fs' node_bytes_def)
    moreover have "tree fs'" using tree_update [of fs1 t "Regular ?out"] g t par o(3) by (simp add: fs' grown_def)
    ultimately have "grown dest (max 0 (file_size m)) fs1 fs'" using g t assms(4) by (auto simp: grown_def fs')
    with grown_trans [OF g] show ?thesis by simp
  qed
qed

lemma target_inside: "safe_member_target dest name = Inr t \<Longrightarrow> prefix dest t"
  by (auto simp: safe_member_target_def Let_def split: if_splits)

lemma grown_refl: "tree fs \<Longrightarrow> node_at fs dest = Some Dir \<Longrightarrow> 0 \<le> n \<Longrightarrow> grown dest n fs fs"
  by (simp add: grown_def)

text \<open>Some bytes more, and never over the limit if no announced size is negative.\<close>

lemma extract_grown:
  assumes "extract_members opn room dest limit ms i sofar fs = (r, fs')" and "tree fs" and "node_at fs dest = Some Dir"
  shows "\<exists>n. grown dest n fs fs' \<and> ((\<forall>m \<in> set ms. 0 \<le> file_size m) \<longrightarrow> sofar \<le> limit \<longrightarrow> n \<le> limit - sofar)"
  using assms
proof (induction ms arbitrary: i sofar fs)
  case Nil
  then show ?case using grown_refl [of fs dest 0] by force
next
  case (Cons m ms)
  show ?case
  proof (cases "file_kind m = link_kind \<or> limit < sofar + file_size m \<or> (\<exists>e. safe_member_target dest (filename m) = Inl e)")
    case True
    with Cons.prems(1) have "fs' = fs" by (auto split: sum.splits if_splits)
    with Cons.prems show ?thesis using grown_refl [of fs dest 0] by force
  next
    case False
    then obtain t where t: "safe_member_target dest (filename m) = Inr t" by (cases "safe_member_target dest (filename m)") auto
    obtain x fs1 where u: "unpack_member (opn m) (room i) m t fs = (x, fs1)" by fastforce
    note g = unpack_grown [OF u Cons.prems(2,3) target_inside [OF t]]
    show ?thesis
    proof (cases x)
      case None
      with False t u Cons.prems(1) have "extract_members opn room dest limit ms (Suc i) (sofar + file_size m) fs1 = (r, fs')" by simp
      from Cons.IH [OF this] g obtain n where n: "grown dest n fs1 fs'"
        "(\<forall>m \<in> set ms. 0 \<le> file_size m) \<longrightarrow> sofar + file_size m \<le> limit \<longrightarrow> n \<le> limit - (sofar + file_size m)"
        by (auto simp: grown_def)
      from grown_trans [OF g n(1)] n(2) False show ?thesis by (intro exI [of _ "max 0 (file_size m) + n"]) auto
    next
      case (Some e)
      with False t u Cons.prems(1) have "fs' = fs1" by simp
      with g False show ?thesis by (intro exI [of _ "max 0 (file_size m)"]) auto
    qed
  qed
qed

text \<open>What emptying the destination leaves.\<close>

definition cleared :: "path \<Rightarrow> files \<Rightarrow> files \<Rightarrow> bool" where
  "cleared dest fs fs1 \<longleftrightarrow> tree fs1 \<and> node_at fs1 dest = Some Dir \<and> bytes_below dest fs1 = 0
     \<and> (\<forall>p. strict_prefix dest p \<longrightarrow> node_at fs1 p = None)
     \<and> (\<forall>p. prefix dest p \<or> node_at fs1 p = node_at fs p
          \<or> strict_prefix p dest \<and> node_at fs p = None \<and> node_at fs1 p = Some Dir)"

lemma nothing_below:
  assumes "tree fs" and "node_at fs dest = None"
  shows "p \<in> fst ` set fs \<Longrightarrow> \<not> prefix dest p"
proof
  assume p: "p \<in> fst ` set fs" and "prefix dest p"
  moreover from p assms(1) have "p \<noteq> []" by (auto simp: tree_def list_all_iff)
  with p have "node_at fs p \<noteq> None" by (auto simp: node_at_def map_of_eq_None_iff)
  ultimately show False using assms tree_above [OF assms(1)] by (metis option.discI option.exhaust strict_prefixI)
qed

lemma emptied_cleared:
  assumes "emptied dest fs = Inr fs1" and "tree fs"
  shows "cleared dest fs fs1"
proof -
  define fs0 where "fs0 = (if node_at fs dest = None then fs else remove_tree dest fs)"
  have fs1: "mkdir_parents dest fs0 = Inr fs1"
    using assms(1) by (auto simp: emptied_def fs0_def split: option.splits node.splits)
  have tree: "tree fs0" using assms(2) tree_removed by (auto simp: fs0_def)
  have none: "\<not> prefix dest p" if "p \<in> fst ` set fs0" for p
    using that nothing_below [OF assms(2)] by (auto simp: fs0_def remove_tree_def split: if_splits)
  then have gone: "node_at fs0 p = None" if "strict_prefix dest p" for p
    using that by (auto simp: node_at_def map_of_eq_None_iff strict_prefix_def)
  have "node_at fs1 p = None" if "strict_prefix dest p" for p
    using mkdir_node [OF fs1, of p] gone [OF that] that by (auto simp: strict_prefix_def)
  moreover have same: "node_at fs0 p = node_at fs p" if "\<not> prefix dest p" for p
    using that by (simp add: fs0_def node_removed)
  moreover have "bytes_below dest fs1 = 0"
  proof (rule antisym)
    show "bytes_below dest fs1 \<le> 0"
      using make_dirs_bytes [of "[]" dest fs0 fs1 dest] fs1 bytes_none [of fs0 dest, OF none] by (simp add: mkdir_parents_def)
    show "0 \<le> bytes_below dest fs1" by (auto simp: bytes_below_def intro!: sum_list_nonneg)
  qed
  moreover have "prefix dest p \<or> node_at fs1 p = node_at fs p
      \<or> strict_prefix p dest \<and> node_at fs p = None \<and> node_at fs1 p = Some Dir" for p
    using mkdir_node [OF fs1, of p] same [of p] by (auto simp: strict_prefix_def)
  ultimately show ?thesis
    using mkdir_tree [OF fs1 tree] mkdir_at [OF fs1] by (simp add: cleared_def)
qed

lemma extraction_grown:
  assumes "tree fs" and "safe_extract_zip unzip opn room zipped dest expected fs = (r, fs')"
  shows "(\<exists>e. emptied dest fs = Inl e \<and> fs' = fs) \<or> (\<exists>fs1 n. cleared dest fs fs1 \<and> grown dest n fs1 fs'
    \<and> (0 \<le> expected \<longrightarrow> (\<forall>b ms. unzip b = Archive ms \<longrightarrow> (\<forall>m \<in> set ms. 0 \<le> file_size m)) \<longrightarrow> n \<le> safety_limit expected))"
proof (cases "emptied dest fs")
  case (Inr fs1)
  note c = emptied_cleared [OF Inr assms(1)]
  then have dir: "tree fs1" "node_at fs1 dest = Some Dir" by (simp_all add: cleared_def)
  show ?thesis
  proof (cases "\<exists>b ms. content_at fs1 zipped = Some b \<and> unzip b = Archive ms")
    case True
    then obtain b ms where a: "content_at fs1 zipped = Some b" "unzip b = Archive ms" by blast
    with assms(2) Inr have "extract_members opn room dest (safety_limit expected) ms 0 0 fs1 = (r, fs')"
      by (simp add: safe_extract_zip_def)
    from extract_grown [OF this dir] obtain n where "grown dest n fs1 fs'"
      "(\<forall>m \<in> set ms. 0 \<le> file_size m) \<longrightarrow> 0 \<le> safety_limit expected \<longrightarrow> n \<le> safety_limit expected" by auto
    with c a(2) show ?thesis by (intro disjI2 exI [of _ fs1] exI [of _ n]) (auto simp: safety_limit_def)
  next
    case False
    with assms(2) Inr have "fs' = fs1" by (auto simp: safe_extract_zip_def split: option.splits archive.splits)
    with c grown_refl [OF dir, of 0] show ?thesis
      by (intro disjI2 exI [of _ fs1] exI [of _ 0]) (auto simp: safety_limit_def)
  qed
qed (use assms(2) in \<open>simp add: safe_extract_zip_def\<close>)

text \<open>Below \<open>d\<close> anything, above it perhaps new directories, elsewhere nothing.\<close>

definition frames :: "path \<Rightarrow> files \<Rightarrow> files \<Rightarrow> bool" where
  "frames d fs fs' \<longleftrightarrow> tree fs' \<and> (\<forall>p. prefix d p \<or> node_at fs' p = node_at fs p
     \<or> strict_prefix p d \<and> node_at fs p = None \<and> node_at fs' p = Some Dir)"

lemma cleared_frames: "cleared d fs fs1 \<Longrightarrow> grown d n fs1 fs' \<Longrightarrow> frames d fs fs'"
  unfolding cleared_def grown_def frames_def by metis

lemma frames_refl: "tree fs \<Longrightarrow> frames d fs fs"
  by (simp add: frames_def)

lemma extraction_frames:
  assumes "tree fs" and "safe_extract_zip unzip opn room zipped dest expected fs = (r, fs')"
  shows "frames dest fs fs'"
  using extraction_grown [OF assms] cleared_frames frames_refl [OF assms(1)] by blast

lemma emptied_ok:
  assumes "tree fs" and "\<And>q. prefix q dest \<Longrightarrow> content_at fs q = None"
  shows "\<exists>fs1. emptied dest fs = Inr fs1"
proof -
  have "content_at (remove_tree dest fs) q = None" if "prefix q dest" for q
    using assms(2) [OF that] by (auto simp: content_at_def node_removed split: if_splits)
  then have "\<exists>fs1. mkdir_parents dest (remove_tree dest fs) = Inr fs1" "\<exists>fs1. mkdir_parents dest fs = Inr fs1"
    using assms(2) make_dirs_ok [of "[]" dest] by (simp_all add: mkdir_parents_def)
  moreover have "node_at fs dest \<noteq> Some (Regular c)" for c
    using assms(2) [of dest] by (auto simp: content_at_def)
  ultimately show ?thesis by (auto simp: emptied_def split: option.splits node.splits)
qed

lemma dir_above:
  assumes "tree fs" and "node_at fs dest = Some Dir" and "prefix q dest"
  shows "content_at fs q = None"
proof -
  have "node_at fs q = Some Dir" using tree_above [OF assms(1,2)] assms(2,3) by (auto simp: prefix_order.le_less)
  then show ?thesis by (simp add: content_at_def)
qed

lemma emptied_fails:
  assumes "emptied dest fs = Inl e" and "tree fs" and "content_at fs dest = None"
  shows "bytes_below dest fs = 0"
proof (cases "node_at fs dest")
  case None
  then show ?thesis using bytes_none nothing_below [OF assms(2)] by blast
next
  case (Some n)
  with assms(3) have "node_at fs dest = Some Dir" by (cases n) (auto simp: content_at_def)
  with emptied_ok [OF assms(2)] dir_above [OF assms(2)] assms(1) show ?thesis by force
qed

text \<open>
  C18: Whatever an archive holds, and however its extraction ends, nothing outside the destination changes apart
  from missing directories above it, the files stay a tree, and what lies below the destination is at most the
  safety limit of the announced size.
\<close>

theorem extraction_contained:
  assumes "tree fs" and "content_at fs dest = None" and "0 \<le> expected"
    and "\<And>b ms. unzip b = Archive ms \<Longrightarrow> \<forall>m \<in> set ms. 0 \<le> file_size m"
    and "safe_extract_zip unzip opn room zipped dest expected fs = (r, fs')"
  shows "bytes_below dest fs' \<le> safety_limit expected \<and> frames dest fs fs'"
  using extraction_grown [OF assms(1,5)]
proof
  assume "\<exists>e. emptied dest fs = Inl e \<and> fs' = fs"
  then show ?thesis using emptied_fails [OF _ assms(1,2)] assms(1,3) by (auto simp: safety_limit_def frames_def)
next
  assume "\<exists>fs1 n. cleared dest fs fs1 \<and> grown dest n fs1 fs' \<and> (0 \<le> expected
    \<longrightarrow> (\<forall>b ms. unzip b = Archive ms \<longrightarrow> (\<forall>m \<in> set ms. 0 \<le> file_size m)) \<longrightarrow> n \<le> safety_limit expected)"
  then obtain fs1 n where f: "cleared dest fs fs1" "grown dest n fs1 fs'" "n \<le> safety_limit expected"
    using assms(3,4) by blast
  then show ?thesis using cleared_frames [OF f(1,2)] by (auto simp: cleared_def grown_def)
qed

section \<open>Extraction is exact\<close>

definition read_member :: "opened \<Rightarrow> int \<Rightarrow> string" where
  "read_member o1 n =
     (case o1 of Cannot_open _ \<Rightarrow> [] | Blocks bs _ \<Rightarrow> concat (takeWhile (\<lambda>b. b \<noteq> []) (bounded_blocks n bs)))"

text \<open>The files an archive asks for, in order.\<close>

fun planned :: "(member \<Rightarrow> opened) \<Rightarrow> path \<Rightarrow> member list \<Rightarrow> (path \<times> string) list" where
  "planned opn dest [] = []"
| "planned opn dest (m # ms) =
     (case safe_member_target dest (filename m) of
        Inl _ \<Rightarrow> planned opn dest ms
      | Inr t \<Rightarrow> (if is_dir m then [] else [(t, read_member (opn m) (file_size m))]) @ planned opn dest ms)"

lemma copy_success: "copy_file room k bs e out = (None, out') \<Longrightarrow> out' = out @ concat (takeWhile (\<lambda>b. b \<noteq> []) bs)"
  by (induction room k bs e out rule: copy_file.induct) (auto split: if_splits)

lemma unpack_content:
  assumes "unpack_member o1 room m t fs = (None, fs')"
  shows "content_at fs' p = (if \<not> is_dir m \<and> p = t then Some (read_member o1 (file_size m)) else content_at fs p)"
proof -
  from assms obtain fs1 where fs1: "mkdir_parents (if is_dir m then t else butlast t) fs = Inr fs1"
    by (auto simp: unpack_member_def split: sum.splits)
  note same = mkdir_content [OF fs1, of p]
  show ?thesis
  proof (cases "is_dir m")
    case True
    with assms fs1 same show ?thesis by (simp add: unpack_member_def)
  next
    case False
    with assms fs1 obtain bs e out where o: "o1 = Blocks bs e" "copy_file room 0 (bounded_blocks (file_size m) bs) e [] = (None, out)"
      "write_file t out fs1 = Inr fs'"
      by (auto simp: unpack_member_def Let_def split: opened.splits sum.splits prod.splits)
    from o(3) have "t \<noteq> []" "fs' = AList.update t (Regular out) fs1" by (auto simp: write_file_def split: if_splits)
    with copy_success [OF o(2)] o(1) False same show ?thesis by (simp add: content_update read_member_def)
  qed
qed

lemma extract_content:
  assumes "extract_members opn room dest limit ms i sofar fs = (None, fs')"
  shows "content_at fs' p = (case map_of (rev (planned opn dest ms)) p of Some c \<Rightarrow> Some c | None \<Rightarrow> content_at fs p)"
  using assms
proof (induction ms arbitrary: i sofar fs)
  case (Cons m ms)
  from Cons.prems obtain t fs1 where t: "safe_member_target dest (filename m) = Inr t"
    "unpack_member (opn m) (room i) m t fs = (None, fs1)"
    "extract_members opn room dest limit ms (Suc i) (sofar + file_size m) fs1 = (None, fs')"
    by (auto split: if_splits sum.splits prod.splits option.splits)
  show ?case
    using Cons.IH [OF t(3)] unpack_content [OF t(2), of p] t(1) by (auto simp: map_add_def split: option.splits)
qed simp

lemma cleared_content:
  assumes "cleared dest fs fs1"
  shows "content_at fs1 p = (if prefix dest p then None else content_at fs p)"
proof (cases "prefix dest p")
  case True
  with assms have "node_at fs1 p = None \<or> node_at fs1 p = Some Dir"
    by (cases "p = dest") (auto simp: cleared_def strict_prefix_def)
  with True show ?thesis by (auto simp: content_at_def)
next
  case False
  with assms have "node_at fs1 p = node_at fs p \<or> node_at fs p = None \<and> node_at fs1 p = Some Dir"
    unfolding cleared_def by blast
  with False show ?thesis by (auto simp: content_at_def)
qed

lemma extracted_members:
  assumes "tree fs" and "\<not> prefix dest zipped" and "content_at fs zipped = Some b" and "unzip b = Archive ms"
  shows "(\<exists>e. emptied dest fs = Inl e) \<or> (\<exists>fs1. cleared dest fs fs1
    \<and> safe_extract_zip unzip opn room zipped dest expected fs = extract_members opn room dest (safety_limit expected) ms 0 0 fs1)"
proof (cases "emptied dest fs")
  case (Inr fs1)
  note c = emptied_cleared [OF Inr assms(1)]
  have "content_at fs1 zipped = Some b" using cleared_content [OF c, of zipped] assms(2,3) by simp
  with Inr assms(4) c show ?thesis by (auto simp: safe_extract_zip_def)
qed simp

text \<open>
  A successful extraction leaves below the destination exactly the files the archive lists, each at the path
  its name leads to and with the bytes of the last member that goes there.
\<close>

theorem extraction_exact:
  assumes "tree fs" and "\<not> prefix dest zipped" and "content_at fs zipped = Some b" and "unzip b = Archive ms"
    and "safe_extract_zip unzip opn room zipped dest expected fs = (None, fs')" and "prefix dest p"
  shows "content_at fs' p = map_of (rev (planned opn dest ms)) p"
proof -
  have "emptied dest fs \<noteq> Inl e" for e using assms(5) by (auto simp: safe_extract_zip_def)
  with extracted_members [where unzip = unzip and opn = opn and room = room and expected = expected, OF assms(1-4)] assms(5)
  obtain fs1 where f: "cleared dest fs fs1"
    "extract_members opn room dest (safety_limit expected) ms 0 0 fs1 = (None, fs')" by auto
  show ?thesis using extract_content [OF f(2), of p] cleared_content [OF f(1), of p] assms(6) by (simp split: option.splits)
qed

section \<open>Packing and extracting\<close>

definition plain_part :: "string \<Rightarrow> bool" where
  "plain_part p \<longleftrightarrow> p \<notin> {[], ''.'', ''..''} \<and> CHR ''/'' \<notin> set p \<and> CHR 0x5C \<notin> set p"

definition plain_path :: "path \<Rightarrow> bool" where
  "plain_path rel \<longleftrightarrow> rel \<noteq> [] \<and> list_all plain_part rel"

lemma split_on_join: "rel \<noteq> [] \<Longrightarrow> \<forall>p \<in> set rel. c \<notin> set p \<Longrightarrow> split_on c (join [c] rel) = rel"
proof (induction rel rule: induct_list012)
  case (3 x y zs)
  then show ?case using split_on_append [of c x "join [c] (y # zs)"] by simp
qed (simp_all add: split_on_plain)

lemma set_join: "set (join sep xs) \<subseteq> set sep \<union> (\<Union>x \<in> set xs. set x)"
  by (induction sep xs rule: join.induct) auto

lemma climb_plain: "''..'' \<notin> set rel \<Longrightarrow> climb dest rel = dest @ rel"
  by (induction rel arbitrary: dest) auto

lemma split_part: "split_on c (a @ c # b) = split_on c a @ split_on c b"
  by (rule split_on_app)

lemma plain_split: "plain_path rel \<Longrightarrow> split_on (CHR ''/'') (join ''/'' rel) = rel"
  using split_on_join by (auto simp: plain_path_def list_all_iff plain_part_def)

lemma plain_target:
  assumes "plain_path rel"
  shows "safe_member_target dest (join ''/'' rel) = Inr (dest @ rel)"
proof -
  let ?n = "join ''/'' rel"
  have plain: "p \<notin> {[], ''.'', ''..''}" if "p \<in> set (split_on (CHR ''/'') ?n)" for p
    using that assms by (auto simp: plain_split plain_path_def list_all_iff plain_part_def)
  have "CHR 0x5C \<notin> set ?n"
    using set_join [of "''/''" rel] assms by (auto simp: plain_path_def list_all_iff plain_part_def)
  then have u: "unslash ?n = ?n" by (auto simp: unslash_def intro: map_idI)
  have "name_parts ?n = rel"
    using assms plain by (simp add: name_parts_def plain_split filter_id_conv)
  moreover have "''..'' \<notin> set rel" using assms by (auto simp: plain_path_def list_all_iff plain_part_def)
  ultimately have t: "climb dest (name_parts ?n) = dest @ rel" by (simp add: climb_plain)
  have "\<not> prefix ''/'' ?n"
    using plain [of "[]"] split_part [of "CHR ''/''" "[]"] by (auto simp: prefix_def)
  moreover have "\<not> prefix ''../'' ?n"
    using plain [of "''..''"] split_part [of "CHR ''/''" "''..''"] by (auto simp: prefix_def)
  moreover have "\<not> contains ''/../'' ?n"
  proof
    assume "contains ''/../'' ?n"
    then obtain a b where "?n = a @ CHR ''/'' # (''..'' @ CHR ''/'' # b)" by (auto simp: contains_iff)
    then have "''..'' \<in> set (split_on (CHR ''/'') ?n)"
      by (simp only: split_part set_append) (simp add: split_on_append [of _ "''..''", simplified])
    with plain show False by blast
  qed
  moreover have "?n \<notin> {[], ''.'', ''..''}" using plain by auto
  ultimately show ?thesis by (simp add: safe_member_target_def Let_def u t)
qed

lemma plain_not_dir:
  assumes "plain_path rel"
  shows "\<not> is_dir (plain_member (join ''/'' rel) c)"
proof
  assume "is_dir (plain_member (join ''/'' rel) c)"
  then obtain a where "join ''/'' rel = a @ CHR ''/'' # []"
    by (auto simp: is_dir_def plain_member_def) (metis append_butlast_last_id)
  then have "[] \<in> set (split_on (CHR ''/'') (join ''/'' rel))" by (simp add: split_part)
  with assms show False by (auto simp: plain_split plain_path_def list_all_iff plain_part_def)
qed

text \<open>Reading a stored member gives its bytes: the documented behaviour of the library.\<close>

definition reads_back :: "(member \<Rightarrow> opened) \<Rightarrow> bool" where
  "reads_back opn \<longleftrightarrow> (\<forall>m c. member_bytes m = Some c \<longrightarrow> (\<exists>bs. opn m = Blocks bs None \<and> [] \<notin> set bs \<and> concat bs = c))"

lemma bounded_all: "int (length (concat bs)) \<le> n \<Longrightarrow> bounded_blocks n bs = bs"
  by (induction bs arbitrary: n) auto

lemma copy_all: "(\<And>k n. room k n) \<Longrightarrow> fst (copy_file room k bs None out) = None"
  by (induction room k bs "None :: string option" out rule: copy_file.induct) auto

lemma read_stored:
  assumes "reads_back opn"
  shows "read_member (opn (plain_member n c)) (file_size (plain_member n c)) = c"
proof -
  from assms obtain bs where bs: "opn (plain_member n c) = Blocks bs None" "[] \<notin> set bs" "concat bs = c"
    unfolding reads_back_def by (metis member.select_convs(6) plain_member_def)
  then have "takeWhile (\<lambda>b. b \<noteq> []) bs = bs" by (auto simp: takeWhile_eq_all_conv simp del: not_None_eq)
  moreover have "bounded_blocks (file_size (plain_member n c)) bs = bs"
    using bs by (intro bounded_all) (simp add: plain_member_def size_of_def)
  ultimately show ?thesis using bs by (simp only: read_member_def opened.case)
qed

text \<open>\<open>shape\<close>: below \<open>dest\<close> there is nothing but what \<open>kind\<close> has at the same place.\<close>

definition shape :: "(path \<Rightarrow> node option) \<Rightarrow> path \<Rightarrow> files \<Rightarrow> bool" where
  "shape kind dest fs \<longleftrightarrow> tree fs \<and> node_at fs dest = Some Dir
     \<and> (\<forall>q n. q \<noteq> [] \<longrightarrow> node_at fs (dest @ q) = Some n \<longrightarrow> (\<exists>m. kind q = Some m \<and> (m = Dir \<longleftrightarrow> n = Dir)))"

lemma unpack_stored:
  assumes "shape kind dest fs" and "plain_path rel" and "kind rel = Some (Regular c)"
    and "\<And>q. q \<noteq> [] \<Longrightarrow> strict_prefix q rel \<Longrightarrow> kind q = Some Dir" and "reads_back opn" and "\<And>k n. room k n"
  shows "\<exists>fs'. unpack_member (opn (plain_member (join ''/'' rel) c)) room (plain_member (join ''/'' rel) c) (dest @ rel) fs = (None, fs')
    \<and> shape kind dest fs'"
proof -
  let ?m = "plain_member (join ''/'' rel) c"
  have rel: "rel \<noteq> []" using assms(2) by (simp add: plain_path_def)
  then have up: "butlast (dest @ rel) = dest @ butlast rel" by (simp add: butlast_append)
  have inner: "kind q = Some Dir" if "q \<noteq> []" "prefix q (butlast rel)" for q
    using assms(4) [OF that(1)] that rel strict_prefixI' [of q "last rel # []"] by (metis append_butlast_last_id prefix_order.le_less_trans prefix_order.less_le strict_prefixI' )
  have "content_at fs q = None" if q: "prefix q (dest @ butlast rel)" for q
  proof (cases "prefix q dest")
    case True
    then show ?thesis using dir_above [of fs dest q] assms(1) by (simp add: shape_def)
  next
    case False
    with q obtain q' where q': "q = dest @ q'" "q' \<noteq> []" "prefix q' (butlast rel)" by (auto simp: prefix_append)
    then show ?thesis using assms(1) inner [of q'] by (auto simp: shape_def content_at_def split: option.splits node.splits)
  qed
  then obtain fs1 where fs1: "mkdir_parents (dest @ butlast rel) fs = Inr fs1"
    using make_dirs_ok [of "[]" "dest @ butlast rel" fs] by (auto simp: mkdir_parents_def)
  have shape1: "shape kind dest fs1"
    unfolding shape_def
  proof (intro conjI allI impI)
    show "tree fs1" using mkdir_tree [OF fs1] assms(1) by (simp add: shape_def)
    show "node_at fs1 dest = Some Dir" using mkdir_node [OF fs1, of dest] assms(1) by (auto simp: shape_def)
    show "\<exists>m. kind q = Some m \<and> (m = Dir \<longleftrightarrow> n = Dir)" if "q \<noteq> []" "node_at fs1 (dest @ q) = Some n" for q n
      using mkdir_node [OF fs1, of "dest @ q"] that assms(1) inner [of q] by (auto simp: shape_def)
  qed
  have nondir: "node_at fs1 (dest @ rel) \<noteq> Some Dir" using shape1 rel assms(3) by (auto simp: shape_def)
  obtain bs where bs: "opn ?m = Blocks bs None"
    using assms(5) unfolding reads_back_def by (metis member.select_convs(6) plain_member_def)
  obtain out where out: "copy_file room 0 (bounded_blocks (file_size ?m) bs) None [] = (None, out)"
    using copy_all [of room 0 "bounded_blocks (file_size ?m) bs" "[]"] assms(6) by (metis prod.collapse)
  let ?fs = "AList.update (dest @ rel) (Regular out) fs1"
  have "unpack_member (opn ?m) room ?m (dest @ rel) fs = (None, ?fs)"
    using fs1 bs out nondir plain_not_dir [OF assms(2)] up by (simp add: unpack_member_def write_file_def Let_def)
  moreover have "shape kind dest ?fs"
    using shape1 tree_update [of fs1 "dest @ rel" "Regular out"] mkdir_at [OF fs1] nondir rel up assms(3)
    by (auto simp: shape_def)
  ultimately show ?thesis by blast
qed

lemma extract_stored:
  assumes "shape kind dest fs" and "reads_back opn" and "\<And>i k n. room i k n"
    and "\<forall>(rel, c) \<in> set items. plain_path rel \<and> kind rel = Some (Regular c)
      \<and> (\<forall>q. q \<noteq> [] \<longrightarrow> strict_prefix q rel \<longrightarrow> kind q = Some Dir)"
    and "sofar + sum_list (map (int \<circ> length \<circ> snd) items) \<le> limit"
  shows "\<exists>fs'. extract_members opn room dest limit (map (\<lambda>(rel, c). plain_member (join ''/'' rel) c) items) i sofar fs = (None, fs')"
  using assms
proof (induction items arbitrary: i sofar fs)
  case (Cons x items)
  obtain rel c where x: "x = (rel, c)" by fastforce
  let ?m = "plain_member (join ''/'' rel) c"
  have size: "file_size ?m = int (length c)" "filename ?m = join ''/'' rel" "file_kind ?m \<noteq> link_kind"
    by (simp_all add: plain_member_def size_of_def file_kind_def link_kind_def)
  from Cons.prems(4) x have item: "plain_path rel" "kind rel = Some (Regular c)"
    "\<And>q. q \<noteq> [] \<Longrightarrow> strict_prefix q rel \<Longrightarrow> kind q = Some Dir" by auto
  from unpack_stored [OF Cons.prems(1) item Cons.prems(2), of "room i"] Cons.prems(3) obtain fs1 where
    u: "unpack_member (opn ?m) (room i) ?m (dest @ rel) fs = (None, fs1)" "shape kind dest fs1" by blast
  have "0 \<le> sum_list (map (int \<circ> length \<circ> snd) items)" by (rule sum_list_nonneg) auto
  moreover have "sofar + (int (length c) + sum_list (map (int \<circ> length \<circ> snd) items)) \<le> limit" using Cons.prems(5) x by (simp add: comp_def)
  ultimately have fit: "\<not> limit < sofar + file_size ?m"
    "(sofar + file_size ?m) + sum_list (map (int \<circ> length \<circ> snd) items) \<le> limit"
    unfolding size(1) by linarith+
  from Cons.IH [OF u(2) Cons.prems(2,3) _ fit(2), of "Suc i"] Cons.prems(4) obtain fs' where
    "extract_members opn room dest limit (map (\<lambda>(rel, c). plain_member (join ''/'' rel) c) items) (Suc i) (sofar + file_size ?m) fs1 = (None, fs')"
    by auto
  with x size fit u(1) plain_target [OF item(1)] show ?case by simp
qed simp

lemma planned_stored:
  assumes "reads_back opn" and "\<forall>(rel, c) \<in> set items. plain_path rel"
  shows "planned opn dest (map (\<lambda>(rel, c). plain_member (join ''/'' rel) c) items) = map (\<lambda>(rel, c). (dest @ rel, c)) items"
  using assms(2)
proof (induction items)
  case (Cons x items)
  then show ?case
    using plain_target [of "fst x" dest] plain_not_dir [of "fst x" "snd x"] read_stored [OF assms(1), of "join ''/'' (fst x)" "snd x"]
    by (cases x) (simp add: plain_member_def)
qed simp

lemma packed_iff:
  "(rel, c) \<in> set (packed exclude src fs) \<longleftrightarrow>
    rel \<noteq> [] \<and> content_at fs (src @ rel) = Some c \<and> (\<forall>p \<in> set rel. p \<notin> set exclude)"
proof -
  have "rel \<in> set (below src fs)" if "content_at fs (src @ rel) = Some c" "rel \<noteq> []"
  proof -
    from that have "src @ rel \<in> fst ` set fs"
      by (auto simp: content_at_def node_at_def map_of_eq_None_iff split: option.splits if_splits dest: map_of_SomeD)
        (metis fst_conv image_eqI map_of_SomeD)
    with that show ?thesis by (force simp: below_def strict_prefix_def)
  qed
  moreover have "rel \<noteq> []" if "rel \<in> set (below src fs)"
    using that by (auto simp: below_def strict_prefix_def prefix_def)
  ultimately show ?thesis
    by (auto simp: packed_def List.map_filter_def list_ex_iff split: if_splits) (force simp: image_iff)
qed

lemma packed_distinct: "distinct (map fst (packed exclude src fs))"
proof -
  have "distinct (map fst (List.map_filter (\<lambda>rel. if P rel then None else map_option (Pair rel) (f rel)) xs))"
    if "distinct xs" for P and f :: "path \<Rightarrow> string option" and xs :: "path list"
    using that by (induction xs) (auto simp: List.map_filter_simps map_filter_def split: option.splits)
  then have "distinct (map fst (List.map_filter (\<lambda>rel. if list_ex (\<lambda>p. p \<in> set exclude) rel then None
      else map_option (Pair rel) (content_at fs (src @ rel))) (below src fs)))" by (simp add: below_def)
  then show ?thesis by (simp only: packed_def)
qed

lemma packed_kind:
  assumes "tree fs" and "(rel, c) \<in> set (packed exclude src fs)"
  shows "node_at fs (src @ rel) = Some (Regular c) \<and> (\<forall>q. q \<noteq> [] \<longrightarrow> strict_prefix q rel \<longrightarrow> node_at fs (src @ q) = Some Dir)"
proof -
  from assms(2) have n: "node_at fs (src @ rel) = Some (Regular c)"
    by (auto simp: packed_iff content_at_def split: option.splits node.splits)
  moreover have "strict_prefix (src @ q) (src @ rel)" if "strict_prefix q rel" for q using that by (simp add: strict_prefix_def)
  ultimately show ?thesis using tree_above [OF assms(1) n] by blast
qed

lemma map_of_packed:
  "rel \<noteq> [] \<Longrightarrow> map_of (packed exclude src fs) rel
     = (if list_ex (\<lambda>p. p \<in> set exclude) rel then None else content_at fs (src @ rel))"
proof -
  assume rel: "rel \<noteq> []"
  have "map_of (packed exclude src fs) rel = Some c \<longleftrightarrow> (rel, c) \<in> set (packed exclude src fs)" for c
    by (rule map_of_eq_Some_iff [OF packed_distinct])
  then have eq: "map_of (packed exclude src fs) rel = Some c
      \<longleftrightarrow> (if list_ex (\<lambda>p. p \<in> set exclude) rel then None else content_at fs (src @ rel)) = Some c" for c
    using rel by (auto simp: packed_iff list_ex_iff)
  show ?thesis using eq by (metis option.exhaust)
qed

lemma map_of_moved: "map_of (map (\<lambda>(rel, c). (dest @ rel, c)) items) (dest @ rel) = map_of items rel"
  by (induction items) auto

lemma map_of_rev_items:
  assumes "distinct (map fst items)"
  shows "map_of (rev (map (\<lambda>(rel, c). (dest @ rel, c)) items)) = map_of (map (\<lambda>(rel, c). (dest @ rel, c)) items)"
proof -
  have "distinct (map fst (map (\<lambda>(rel, c). (dest @ rel, c)) items))"
    using assms by (induction items) (auto simp: image_iff)
  then show ?thesis by (subst map_of_inject_set) (simp_all add: rev_map [symmetric])
qed

lemma packed_same:
  assumes "\<And>rel. rel \<noteq> [] \<Longrightarrow> content_at fs' (src @ rel) = content_at fs (src @ rel)"
    and "\<And>rel. rel \<in> set (below src fs') \<longleftrightarrow> rel \<in> set (below src fs)"
  shows "packed exclude src fs' = packed exclude src fs"
proof -
  have eq: "below src fs' = below src fs"
  proof (rule sorted_distinct_set_unique)
    show "set (below src fs') = set (below src fs)" using assms(2) by blast
  qed (simp_all add: below_def)
  have ne: "rel \<noteq> []" if "rel \<in> set (below src fs)" for rel
    using that by (auto simp: below_def strict_prefix_def prefix_def)
  have cong: "List.map_filter f xs = List.map_filter g xs" if "\<And>x. x \<in> set xs \<Longrightarrow> f x = g x"
    for f g :: "path \<Rightarrow> (path \<times> string) option" and xs
  proof -
    have "filter (\<lambda>x. f x \<noteq> None) xs = filter (\<lambda>x. g x \<noteq> None) xs" by (rule filter_cong) (simp_all only: that)
    moreover have "map (the \<circ> f) (filter (\<lambda>x. g x \<noteq> None) xs) = map (the \<circ> g) (filter (\<lambda>x. g x \<noteq> None) xs)"
      by (rule map_cong) (simp_all add: that)
    ultimately show ?thesis by (simp only: List.map_filter_def)
  qed
  show ?thesis
    unfolding packed_def eq
  proof (rule cong)
    fix rel assume "rel \<in> set (below src fs)"
    then have "content_at fs' (src @ rel) = content_at fs (src @ rel)" by (intro assms(1) ne)
    then show "(if list_ex (\<lambda>p. p \<in> set exclude) rel then None else map_option (Pair rel) (content_at fs' (src @ rel)))
        = (if list_ex (\<lambda>p. p \<in> set exclude) rel then None else map_option (Pair rel) (content_at fs (src @ rel)))"
      by (simp only:)
  qed
qed


lemma below_iff: "tree fs \<Longrightarrow> rel \<in> set (below src fs) \<longleftrightarrow> rel \<noteq> [] \<and> node_at fs (src @ rel) \<noteq> None"
proof -
  assume t: "tree fs"
  have "rel \<in> set (below src fs) \<longleftrightarrow> rel \<noteq> [] \<and> src @ rel \<in> fst ` set fs"
  proof
    assume "rel \<in> set (below src fs)"
    then obtain p where "rel = drop (length src) p" "p \<in> fst ` set fs" "strict_prefix src p" by (auto simp: below_def)
    then show "rel \<noteq> [] \<and> src @ rel \<in> fst ` set fs" by (auto simp: strict_prefix_def prefix_def image_iff) (metis fst_conv)
  next
    assume r: "rel \<noteq> [] \<and> src @ rel \<in> fst ` set fs"
    then have "strict_prefix src (src @ rel)" by (simp add: strict_prefix_def)
    with r show "rel \<in> set (below src fs)"
      by (auto simp: below_def intro!: image_eqI [where x = "src @ rel"])
  qed
  then show ?thesis by (simp add: node_at_def map_of_eq_None_iff del: not_None_eq)
qed

lemma zip_directory_result:
  assumes "zip_directory pack src zipped exclude fs = (None, fs1)" and "tree fs" and "\<not> prefix src zipped"
  shows "tree fs1 \<and> content_at fs1 zipped = Some (pack (packed_members exclude src fs))"
proof -
  from assms(1) obtain fsa where a: "mkdir_parents (butlast zipped) fs = Inr fsa"
    by (auto simp: zip_directory_def split: sum.splits)
  from assms(1) a have zipped: "zipped \<noteq> []" "node_at fsa zipped \<noteq> Some Dir"
    by (auto simp: zip_directory_def write_file_def split: if_splits)
  let ?fsb = "AList.update zipped (Regular []) fsa"
  have fs1: "fs1 = AList.update zipped (Regular (pack (packed_members exclude src ?fsb))) ?fsb"
    using assms(1) a zipped by (simp add: zip_directory_def write_file_def)
  have tb: "tree ?fsb" by (rule tree_update) (use mkdir_tree [OF a assms(2)] mkdir_at [OF a] zipped in auto)
  have "tree fs1" unfolding fs1 by (rule tree_update) (use tb mkdir_at [OF a] zipped in \<open>auto dest: arg_cong [where f = length]\<close>)
  have out: "node_at ?fsb (src @ rel) = node_at fs (src @ rel)" for rel
  proof -
    have "\<not> prefix (src @ rel) (butlast zipped)" "src @ rel \<noteq> zipped"
      using assms(3) prefixeq_butlast [of zipped] by (auto dest: append_prefixD prefix_order.trans)
    then show ?thesis using mkdir_node [OF a, of "src @ rel"] by auto
  qed
  have "packed exclude src ?fsb = packed exclude src fs"
    by (rule packed_same) (simp_all only: below_iff [OF tb] below_iff [OF assms(2)] out content_at_def)
  with fs1 zipped \<open>tree fs1\<close> show ?thesis by (simp add: content_update packed_members_def)
qed


text \<open>
  A directory that is packed and extracted again, anywhere outside the archive and within the safety limit, has
  the same files with the same bytes, apart from those that were excluded.
\<close>

theorem directory_round_trip:
  assumes "tree fs" and "\<forall>(rel, c) \<in> set (packed exclude src fs). plain_path rel"
    and "unzip (pack (packed_members exclude src fs)) = Archive (packed_members exclude src fs)" and "reads_back opn" and "\<And>i k n. room i k n"
    and "zip_directory pack src zipped exclude fs = (None, fs1)" and "\<not> prefix src zipped" and "\<not> prefix dest zipped"
    and "\<And>q. prefix q dest \<Longrightarrow> content_at fs1 q = None"
    and "sum_list (map (int \<circ> length \<circ> snd) (packed exclude src fs)) \<le> safety_limit expected"
  shows "\<exists>fs2. safe_extract_zip unzip opn room zipped dest expected fs1 = (None, fs2)
    \<and> (\<forall>rel. rel \<noteq> [] \<longrightarrow> content_at fs2 (dest @ rel)
          = (if list_ex (\<lambda>p. p \<in> set exclude) rel then None else content_at fs (src @ rel)))"
proof -
  let ?items = "packed exclude src fs" and ?kind = "\<lambda>q. node_at fs (src @ q)"
  from zip_directory_result [OF assms(6,1,7)] have z: "tree fs1"
    "content_at fs1 zipped = Some (pack (packed_members exclude src fs))" by simp_all
  from emptied_ok [OF z(1) assms(9)] obtain fs0 where fs0: "emptied dest fs1 = Inr fs0" by blast
  note c = emptied_cleared [OF fs0 z(1)]
  have items: "\<forall>(rel, c) \<in> set ?items. plain_path rel \<and> ?kind rel = Some (Regular c)
      \<and> (\<forall>q. q \<noteq> [] \<longrightarrow> strict_prefix q rel \<longrightarrow> ?kind q = Some Dir)"
    using assms(2) packed_kind [OF assms(1)] by fast
  have "shape ?kind dest fs0" using c by (auto simp: cleared_def shape_def strict_prefix_def)
  from extract_stored [where room = room and sofar = 0 and i = 0, OF this assms(4,5) items] assms(10) obtain fs2 where
    e: "extract_members opn room dest (safety_limit expected) (map (\<lambda>(rel, c). plain_member (join ''/'' rel) c) ?items) 0 0 fs0
      = (None, fs2)" by auto
  have ok: "safe_extract_zip unzip opn room zipped dest expected fs1 = (None, fs2)"
    using fs0 cleared_content [OF c, of zipped] z(2) assms(3,8) e by (simp add: safe_extract_zip_def packed_members_def)
  have "content_at fs2 (dest @ rel) = map_of (map (\<lambda>(rel, c). (dest @ rel, c)) ?items) (dest @ rel)" for rel
    using extract_content [OF e, of "dest @ rel"] cleared_content [OF c, of "dest @ rel"] planned_stored [OF assms(4), of ?items dest]
      assms(2) map_of_rev_items [of ?items dest] packed_distinct by (auto split: option.splits)
  then have "content_at fs2 (dest @ rel) = map_of ?items rel" for rel by (simp add: map_of_moved)
  with ok show ?thesis using map_of_packed by auto
qed

section \<open>Witnesses\<close>

definition sample_opened :: "member \<Rightarrow> opened" where
  "sample_opened m = (case member_bytes m of None \<Rightarrow> Cannot_open ''bad member'' | Some c \<Rightarrow> Blocks (if c = [] then [] else [c]) None)"

definition sample_files :: files where
  "sample_files = [([''s''], Dir), ([''s'', ''b''], Dir), ([''s'', ''b'', ''c''], Regular ''yz''), ([''s'', ''a''], Regular ''x''),
     ([''s'', ''tmp''], Regular ''t''), ([''up.zip''], Regular ''zip'')]"

definition sample_members :: "member list" where
  "sample_members = [plain_member ''k/'' [], plain_member ''k/f'' ''old'', plain_member (''k'' @ [CHR 0x5C] @ ''f'') ''new'']"

definition sample_zip :: "string \<Rightarrow> archive" where
  "sample_zip b = (if b = ''zip'' then Archive sample_members
     else if b = ''packed'' then Archive (packed_members [''tmp''] [''s''] sample_files) else Bad_archive ''no zip'')"

abbreviation enough_room :: "nat \<Rightarrow> nat \<Rightarrow> int \<Rightarrow> bool" where
  "enough_room i k n \<equiv> True"

lemma sample_reads_back: "reads_back sample_opened"
  by (auto simp: reads_back_def sample_opened_def)

lemma sample_extracts:
  "map_prod id (\<lambda>fs. (content_at fs [''d'', ''k'', ''f''], bytes_below [''d''] fs))
     (safe_extract_zip sample_zip sample_opened enough_room [''up.zip''] [''d''] 1 sample_files) = (None, Some ''new'', 3)"
  by code_simp

lemma extraction_contained_witness:
  "bytes_below [''d''] (snd (safe_extract_zip sample_zip sample_opened enough_room [''up.zip''] [''d''] 1 sample_files)) \<le> safety_limit 1
   \<and> frames [''d''] sample_files (snd (safe_extract_zip sample_zip sample_opened enough_room [''up.zip''] [''d''] 1 sample_files))"
proof (rule extraction_contained [where unzip = sample_zip])
  show "tree sample_files" "content_at sample_files [''d''] = None" by code_simp+
  show "safe_extract_zip sample_zip sample_opened enough_room [''up.zip''] [''d''] 1 sample_files
      = (fst (safe_extract_zip sample_zip sample_opened enough_room [''up.zip''] [''d''] 1 sample_files),
         snd (safe_extract_zip sample_zip sample_opened enough_room [''up.zip''] [''d''] 1 sample_files))" by simp
  show "\<And>b ms. sample_zip b = Archive ms \<Longrightarrow> \<forall>m \<in> set ms. 0 \<le> file_size m"
    by (auto simp: sample_zip_def sample_members_def packed_members_def plain_member_def size_of_def split: if_splits)
qed simp_all

lemma extraction_exact_witness:
  "map_of (rev (planned sample_opened [''d''] sample_members)) [''d'', ''k'', ''f''] = Some ''new''"
proof -
  obtain fs where e: "safe_extract_zip sample_zip sample_opened enough_room [''up.zip''] [''d''] 1 sample_files = (None, fs)"
    "content_at fs [''d'', ''k'', ''f''] = Some ''new''"
    using sample_extracts by (cases "safe_extract_zip sample_zip sample_opened enough_room [''up.zip''] [''d''] 1 sample_files") auto
  have "tree sample_files" "content_at sample_files [''up.zip''] = Some ''zip''" by code_simp+
  from extraction_exact [OF this(1) _ this(2) _ e(1), of sample_members "[''d'', ''k'', ''f'']"] e(2)
  show ?thesis by (simp add: sample_zip_def)
qed

lemma directory_round_trip_witness:
  "\<exists>fs1 fs2. zip_directory (\<lambda>_. ''packed'') [''s''] [''o'', ''z''] [''tmp''] sample_files = (None, fs1)
     \<and> safe_extract_zip sample_zip sample_opened enough_room [''o'', ''z''] [''d''] 1 fs1 = (None, fs2)
     \<and> content_at fs2 [''d'', ''b'', ''c''] = Some ''yz'' \<and> content_at fs2 [''d'', ''tmp''] = None"
proof -
  let ?z = "zip_directory (\<lambda>_. ''packed'') [''s''] [''o'', ''z''] [''tmp''] sample_files"
  have z: "fst ?z = None" "list_all (\<lambda>q. content_at (snd ?z) q = None) [[], [''d'']]" by code_simp+
  have p: "prefix q [''d''] \<Longrightarrow> q = [] \<or> q = [''d'']" for q by (cases q) auto
  have "\<exists>fs2. safe_extract_zip sample_zip sample_opened enough_room [''o'', ''z''] [''d''] 1 (snd ?z) = (None, fs2)
      \<and> (\<forall>rel. rel \<noteq> [] \<longrightarrow> content_at fs2 ([''d''] @ rel)
            = (if list_ex (\<lambda>p. p \<in> set [''tmp'']) rel then None else content_at sample_files ([''s''] @ rel)))"
  proof (rule directory_round_trip [OF _ _ _ sample_reads_back])
    show "tree sample_files" by code_simp
    show "\<forall>(rel, c) \<in> set (packed [''tmp''] [''s''] sample_files). plain_path rel" by code_simp
    show "sample_zip ((\<lambda>_. ''packed'') (packed_members [''tmp''] [''s''] sample_files))
        = Archive (packed_members [''tmp''] [''s''] sample_files)" by (simp add: sample_zip_def)
    show "?z = (None, snd ?z)" using z(1) by (metis prod.collapse)
    show "content_at (snd ?z) q = None" if "prefix q [''d'']" for q using z(2) p [OF that] by auto
    show "sum_list (map (int \<circ> length \<circ> snd) (packed [''tmp''] [''s''] sample_files)) \<le> safety_limit 1" by code_simp
  qed simp_all
  then obtain fs2 where f: "safe_extract_zip sample_zip sample_opened enough_room [''o'', ''z''] [''d''] 1 (snd ?z) = (None, fs2)"
    "\<And>rel. rel \<noteq> [] \<Longrightarrow> content_at fs2 ([''d''] @ rel)
        = (if list_ex (\<lambda>p. p \<in> set [''tmp'']) rel then None else content_at sample_files ([''s''] @ rel))" by blast
  have "content_at sample_files [''s'', ''b'', ''c''] = Some ''yz''" by code_simp
  then show ?thesis
    using f(1) f(2) [of "[''b'', ''c'']"] f(2) [of "[''tmp'']"] z(1)
    by (intro exI [of _ "snd ?z"] exI [of _ fs2]) (auto simp: prod_eq_iff)
qed

end
