(* ===== verification/Job_Inputs.thy ===== *)
theory Job_Inputs
  imports Archive_Files
begin

text \<open>
  The inputs of a job (\<^verbatim>\<open>assemble_and_validate_job\<close> of \<^verbatim>\<open>app/main.py\<close>): its archives are put together from the
  stored parts, unpacked under the storage budget, and the metadata they hold is checked, all on the file system
  of \<^verbatim>\<open>Archive_Files\<close>. \<open>Upload\<close> leaves the outcome of this step open (\<open>assembly\<close>) and says what becomes of the job
  after it. A step may fail, and what it did until then stays.
\<close>

section \<open>The world of the step\<close>

text \<open>
  \<open>free_at\<close>: the free space found by the \<open>n\<close>-th question of the budget. \<open>copy_room\<close>, \<open>unpack_room\<close>: which checks
  pass between the blocks of a copy. \<open>block_size\<close> is the size of a block of a copy (\<^verbatim>\<open>1024 * 1024\<close>). \<open>decode\<close>
  and \<open>encode\<close> are the JSON of a metadata file.
\<close>

record disk =
  storage :: path
  limits :: settings
  clock :: time
  free_at :: "nat \<Rightarrow> int"
  copy_room :: "archive_type \<Rightarrow> nat \<Rightarrow> nat \<Rightarrow> int \<Rightarrow> bool"
  unpack_room :: "archive_type \<Rightarrow> nat \<Rightarrow> nat \<Rightarrow> int \<Rightarrow> bool"
  block_size :: nat
  unzips :: "string \<Rightarrow> archive"
  opens :: "member \<Rightarrow> opened"
  digest :: "string \<Rightarrow> string"
  decode :: "string \<Rightarrow> doc"
  encode :: "json dict \<Rightarrow> string"
  renders :: "json \<Rightarrow> string"
  cache_ready :: "string \<Rightarrow> bool"

type_synonym step = "relay_db \<times> files \<Rightarrow> file_error option \<times> relay_db \<times> files"

fun run_steps :: "step list \<Rightarrow> step" where
  "run_steps [] s = (None, s)"
| "run_steps (f # fs) s = (case f s of (Some e, t) \<Rightarrow> (Some e, t) | (None, t) \<Rightarrow> run_steps fs t)"

definition kind_name :: "archive_type \<Rightarrow> string" where
  "kind_name ty = (case ty of Dataset_archive \<Rightarrow> ''dataset'' | Kernel_archive \<Rightarrow> ''kernel'')"

definition job_dir :: "disk \<Rightarrow> job \<Rightarrow> path" where
  "job_dir w j = storage w @ [''jobs'', job_id j]"

definition part_file :: "disk \<Rightarrow> job \<Rightarrow> archive_type \<Rightarrow> int \<Rightarrow> path" where
  "part_file w j ty i = job_dir w j @ [''chunks'', kind_name ty, int_text i @ ''.part'']"

definition archive_file :: "disk \<Rightarrow> job \<Rightarrow> archive_type \<Rightarrow> path" where
  "archive_file w j ty = job_dir w j @ [''archives'', kind_name ty @ ''.zip'']"

definition extracted :: "disk \<Rightarrow> job \<Rightarrow> archive_type \<Rightarrow> path" where
  "extracted w j ty = job_dir w j @ [''extracted'', kind_name ty]"

definition announced_digest :: "job \<Rightarrow> archive_type \<Rightarrow> string" where
  "announced_digest j ty = (case ty of Dataset_archive \<Rightarrow> dataset_archive_sha256 j | Kernel_archive \<Rightarrow> kernel_archive_sha256 j)"

section \<open>Putting an archive together\<close>

fun blocks :: "nat \<Rightarrow> string \<Rightarrow> string list" where
  "blocks n [] = []"
| "blocks 0 (c # s) = [c # s]"
| "blocks (Suc n) (c # s) = (c # take n s) # blocks (Suc n) (drop n s)"

fun copy_part_files ::
  "(nat \<Rightarrow> nat \<Rightarrow> int \<Rightarrow> bool) \<Rightarrow> nat \<Rightarrow> (int \<Rightarrow> string option) \<Rightarrow> int list \<Rightarrow> string \<Rightarrow> file_error option \<times> string" where
  "copy_part_files room n part [] out = (None, out)"
| "copy_part_files room n part (i # is) out =
     (case part i of
        None \<Rightarrow> (Some (Refused (''missing chunk '' @ int_text i)), out)
      | Some f \<Rightarrow>
          (case copy_file (room (nat i)) 0 (blocks n f) None out of
             (Some e, out') \<Rightarrow> (Some e, out')
           | (None, out') \<Rightarrow> copy_part_files room n part is out'))"

definition check_archive :: "disk \<Rightarrow> job \<Rightarrow> archive_type \<Rightarrow> string \<Rightarrow> file_error option" where
  "check_archive w j ty out =
     (if int (length out) \<noteq> archive_bytes j ty
      then Some (Refused (''archive size mismatch: expected '' @ int_text (archive_bytes j ty) @ '', got '' @ int_text (int (length out))))
      else if lower (digest w out) \<noteq> lower (announced_digest j ty) then Some (Refused ''archive sha256 mismatch'')
      else None)"

text \<open>The archive file is opened first, and what was copied until an error stays in it.\<close>

definition assemble_step :: "disk \<Rightarrow> job \<Rightarrow> archive_type \<Rightarrow> step" where
  "assemble_step w j ty s =
     (case s of (db, fs) \<Rightarrow>
        let target = archive_file w j ty in
        case expected_chunk_count (archive_bytes j ty) (chunk_size j) of
          Inl e \<Rightarrow> (Some (Refused (archive_text e)), s)
        | Inr n \<Rightarrow>
            (case mkdir_parents (butlast target) fs of
               Inl e \<Rightarrow> (Some e, s)
             | Inr fs1 \<Rightarrow>
                 (case write_file target [] fs1 of
                    Inl e \<Rightarrow> (Some e, db, fs1)
                  | Inr fs2 \<Rightarrow>
                      (case copy_part_files (copy_room w ty) (block_size w) (\<lambda>i. content_at fs2 (part_file w j ty i)) [0..n - 1] [] of
                         (e, out) \<Rightarrow> (if e \<noteq> None then e else check_archive w j ty out, db, AList.update target (Regular out) fs2)))))"

section \<open>The storage budget\<close>

definition reserve_step :: "disk \<Rightarrow> job \<Rightarrow> nat \<Rightarrow> int \<Rightarrow> step" where
  "reserve_step w j k n s =
     (case reserve (limits w) (fst s) (free_at w k) (clock w) (job_id j) n of
        Inl _ \<Rightarrow> (Some No_room, s) | Inr db \<Rightarrow> (None, db, snd s))"

definition consume_step :: "job \<Rightarrow> int \<Rightarrow> step" where
  "consume_step j n s = (None, consume_bytes (fst s) (job_id j) n, snd s)"

definition rounded_size :: "member \<Rightarrow> int" where
  "rounded_size m = ((file_size m + 4095) div 4096 + 1) * 4096"

fun unpacked_size :: "disk \<Rightarrow> job \<Rightarrow> files \<Rightarrow> archive_type list \<Rightarrow> file_error + int" where
  "unpacked_size w j fs [] = Inr 0"
| "unpacked_size w j fs (ty # tys) =
     (case content_at fs (archive_file w j ty) of
        None \<Rightarrow> Inl (Os_error (archive_file w j ty))
      | Some b \<Rightarrow>
          (case unzips w b of
             Bad_archive e \<Rightarrow> Inl (Bad_read e)
           | Archive ms \<Rightarrow>
               (case unpacked_size w j fs tys of
                  Inl e \<Rightarrow> Inl e | Inr n \<Rightarrow> Inr (sum_list (map rounded_size ms) + n))))"

definition extract_step :: "disk \<Rightarrow> job \<Rightarrow> nat \<Rightarrow> archive_type \<Rightarrow> step" where
  "extract_step w j k ty s =
     (if check_free (limits w) (free_at w k) 0 \<noteq> None then (Some No_room, s)
      else case safe_extract_zip (unzips w) (opens w) (unpack_room w ty) (archive_file w j ty) (extracted w j ty)
                  (archive_bytes j ty) (snd s) of
          (e, fs) \<Rightarrow> (e, fst s, fs))"

definition unpack_step :: "disk \<Rightarrow> job \<Rightarrow> archive_type list \<Rightarrow> step" where
  "unpack_step w j tys s =
     (case unpacked_size w j (snd s) tys of
        Inl e \<Rightarrow> (Some e, s)
      | Inr n \<Rightarrow>
          run_steps ([reserve_step w j 1 n] @ map (\<lambda>(k, ty). extract_step w j k ty) (enumerate 2 tys) @ [consume_step j n]) s)"

section \<open>The checks of the metadata\<close>

text \<open>
  \<^verbatim>\<open>root / relative\<close> and the file it opens: an absolute name starts at the root of the file system, and every
  component but the last must be a directory.
\<close>

fun walk :: "files \<Rightarrow> path \<Rightarrow> path \<Rightarrow> path option" where
  "walk fs here [] = Some here"
| "walk fs here (c # cs) =
     (if node_at fs here \<noteq> Some Dir then None else walk fs (if c = ''..'' then butlast here else here @ [c]) cs)"

definition joined :: "files \<Rightarrow> path \<Rightarrow> string \<Rightarrow> path option" where
  "joined fs base s = walk fs (if prefix ''/'' s then [] else base) (name_parts s)"

definition is_file :: "files \<Rightarrow> path \<Rightarrow> string \<Rightarrow> bool" where
  "is_file fs base s = (case joined fs base s of None \<Rightarrow> False | Some p \<Rightarrow> content_at fs p \<noteq> None)"

definition payload_at :: "disk \<Rightarrow> files \<Rightarrow> path \<Rightarrow> payload_dir" where
  "payload_at w fs d =
     \<lparr>docs = List.map_filter (\<lambda>n. map_option (\<lambda>c. (n, decode w c)) (content_at fs (d @ [n]))) [dataset_file, kernel_file],
      other_file = is_file fs d\<rparr>"

text \<open>A metadata file that the checks rewrote.\<close>

definition save_doc :: "disk \<Rightarrow> path \<Rightarrow> string \<Rightarrow> payload_dir \<Rightarrow> files \<Rightarrow> files" where
  "save_doc w d name new fs =
     (case map_of (docs new) name of
        Some (Decoded (JObj m)) \<Rightarrow>
          if map_of (docs (payload_at w fs d)) name = Some (Decoded (JObj m)) then fs
          else AList.update (d @ [name]) (Regular (encode w m)) fs
      | _ \<Rightarrow> fs)"

definition validate_step :: "disk \<Rightarrow> job \<Rightarrow> string \<Rightarrow> bool \<Rightarrow> step" where
  "validate_step w j user hit s =
     (case s of (db, fs) \<Rightarrow>
        let dd = extracted w j Dataset_archive; kd = extracted w j Kernel_archive in
        if hit then
          (case validate_kernel_payload (renders w) (kernel_ref j) user (dataset_ref j) (payload_at w fs kd) of
             (r, k) \<Rightarrow> (case r of Inl e \<Rightarrow> Some (Refused e) | Inr _ \<Rightarrow> None, db, save_doc w kd kernel_file k fs))
        else
          (case validate_payloads (renders w) (dataset_ref j) (kernel_ref j) user (payload_at w fs dd, payload_at w fs kd) of
             (r, d, k) \<Rightarrow> (case r of Inl e \<Rightarrow> Some (Refused e) | Inr _ \<Rightarrow> None,
                            db, save_doc w kd kernel_file k (save_doc w dd dataset_file d fs))))"

section \<open>The whole step\<close>

definition submitter :: "auth_store \<Rightarrow> job \<Rightarrow> string + string" where
  "submitter auth j =
     (if awaiting_assignment j then Inr []
      else case credentials_for auth (kaggle_key_id j) of
          Inl e \<Rightarrow> Inl (sel_detail e) | Inr None \<Rightarrow> Inr [] | Inr (Some c) \<Rightarrow> Inr (username c))"

text \<open>The dataset is not put together when the account has it already.\<close>

definition input_steps :: "disk \<Rightarrow> job \<Rightarrow> string \<Rightarrow> bool \<Rightarrow> step list" where
  "input_steps w j user hit =
     [reserve_step w j 0 ((kernel_size j + (if hit then 0 else dataset_size j)) * 2)]
     @ (if hit then [] else [assemble_step w j Dataset_archive, consume_step j (dataset_size j)])
     @ [assemble_step w j Kernel_archive,
        unpack_step w j (if hit then [Kernel_archive] else [Kernel_archive, Dataset_archive]),
        validate_step w j user hit]"

definition assemble_and_validate_job :: "disk \<Rightarrow> auth_store \<Rightarrow> job \<Rightarrow> step" where
  "assemble_and_validate_job w auth j s =
     (case submitter auth j of
        Inl e \<Rightarrow> (Some (Refused e), s)
      | Inr user \<Rightarrow>
          (case has_ready_dataset_cache (cache_ready w) (clock w) (dataset_ref j) (payload_hash j) (kaggle_key_id j) (fst s) of
             (hit, db) \<Rightarrow> run_steps (input_steps w j user (hit \<and> \<not> awaiting_assignment j)) (db, snd s)))"

text \<open>How \<open>Upload\<close> sees it; \<open>os_text\<close>: the text of an \<^verbatim>\<open>OSError\<close>.\<close>

definition assembly_of :: "(path \<Rightarrow> string) \<Rightarrow> file_error option \<Rightarrow> assembly" where
  "assembly_of os_text r =
     (case r of
        None \<Rightarrow> Assembled
      | Some No_room \<Rightarrow> No_space ''relay storage is full or below its reserved free-space limit; retry later''
      | Some (Refused e) \<Rightarrow> Broken e
      | Some (Bad_read e) \<Rightarrow> Broken e
      | Some (Os_error p) \<Rightarrow> Broken (os_text p))"

section \<open>What a step leaves alone\<close>

lemma frames_trans: "frames d fs fs1 \<Longrightarrow> frames d fs1 fs2 \<Longrightarrow> frames d fs fs2"
  unfolding frames_def by metis

lemma frames_widen:
  assumes "frames e fs fs'" and "prefix d e"
  shows "frames d fs fs'"
proof -
  have "prefix d p \<or> strict_prefix p d" if "strict_prefix p e" for p
    using that assms(2) prefix_same_cases [of p e d] by (auto simp: strict_prefix_def)
  then show ?thesis using assms prefix_order.trans [OF assms(2)] unfolding frames_def by metis
qed

lemma mkdir_frames:
  assumes "mkdir_parents q fs = Inr fs'" and "tree fs" and "prefix d q"
  shows "frames d fs fs'"
proof -
  have "prefix d p \<or> strict_prefix p d" if "prefix p q" for p
    using that assms(3) prefix_same_cases [of p q d] by (auto simp: strict_prefix_def)
  then show ?thesis using mkdir_node [OF assms(1)] mkdir_tree [OF assms(1,2)] unfolding frames_def by metis
qed

lemma write_frames:
  assumes "tree fs" and "prefix d p" and "p \<noteq> []" and "node_at fs (butlast p) = Some Dir" and "node_at fs p \<noteq> Some Dir"
  shows "frames d fs (AList.update p (Regular c) fs)"
  using assms tree_update [OF assms(1,3,4)] by (auto simp: frames_def)

definition stays_in :: "path \<Rightarrow> step \<Rightarrow> bool" where
  "stays_in d f \<longleftrightarrow> (\<forall>db fs. tree fs \<longrightarrow> frames d fs (snd (snd (f (db, fs)))))"

lemma withinD: "stays_in d f \<Longrightarrow> tree fs \<Longrightarrow> f (db, fs) = (r, db', fs') \<Longrightarrow> frames d fs fs'"
  unfolding stays_in_def by (metis snd_conv)

lemma within_steps: "(\<And>f. f \<in> set fs \<Longrightarrow> stays_in d f) \<Longrightarrow> stays_in d (run_steps fs)"
proof (induction fs)
  case Nil
  then show ?case by (simp add: stays_in_def frames_refl)
next
  case (Cons f fs)
  show ?case
    unfolding stays_in_def
  proof (intro allI impI)
    fix db x assume t: "tree x"
    obtain e db1 x1 where f: "f (db, x) = (e, db1, x1)" by (metis prod_cases3)
    with Cons.prems t have one: "frames d x x1" using withinD by fastforce
    show "frames d x (snd (snd (run_steps (f # fs) (db, x))))"
    proof (cases e)
      case None
      have "stays_in d (run_steps fs)" using Cons by simp
      then have "frames d x1 (snd (snd (run_steps fs (db1, x1))))" using one by (simp add: stays_in_def frames_def)
      with frames_trans [OF one] f None show ?thesis by simp
    qed (use one f in simp)
  qed
qed

lemma quiet_within: "(\<And>s. snd (snd (f s)) = snd s) \<Longrightarrow> stays_in d f"
  by (simp add: stays_in_def frames_refl)

lemma steps_quiet [simp]: "snd (snd (reserve_step w j k n s)) = snd s" "snd (snd (consume_step j n s)) = snd s"
  by (simp_all add: reserve_step_def consume_step_def split: sum.splits)

lemma assemble_cases:
  assumes "assemble_step w j ty (db, fs) = (r, db', fs')" and "tree fs"
  shows "db' = db \<and> (fs' = fs \<or> (\<exists>fs1. mkdir_parents (butlast (archive_file w j ty)) fs = Inr fs1
    \<and> (fs' = fs1 \<or> node_at fs1 (archive_file w j ty) \<noteq> Some Dir
        \<and> (\<exists>out. fs' = AList.update (archive_file w j ty) (Regular out) (AList.update (archive_file w j ty) (Regular []) fs1)
             \<and> (r = None \<longrightarrow> check_archive w j ty out = None)))))"
  using assms(1)
  by (auto simp: assemble_step_def Let_def write_file_def split: sum.splits prod.splits if_splits option.splits)

lemma archive_file_simps [simp]: "archive_file w j ty \<noteq> []" "prefix (job_dir w j) (archive_file w j ty)"
  "prefix (job_dir w j) (butlast (archive_file w j ty))"
  by (simp_all add: archive_file_def butlast_append)

lemma assemble_within: "stays_in (job_dir w j) (assemble_step w j ty)"
  unfolding stays_in_def
proof (intro allI impI)
  fix db fs assume t: "tree fs"
  obtain r db' fs' where s: "assemble_step w j ty (db, fs) = (r, db', fs')" by (metis prod_cases3)
  let ?a = "archive_file w j ty"
  have "frames (job_dir w j) fs fs'"
  proof (cases "fs' = fs")
    case False
    with assemble_cases [OF s t] obtain fs1 where f: "mkdir_parents (butlast ?a) fs = Inr fs1"
      "fs' = fs1 \<or> node_at fs1 ?a \<noteq> Some Dir \<and> (\<exists>out. fs' = AList.update ?a (Regular out) (AList.update ?a (Regular []) fs1))" by blast
    note one = mkdir_frames [OF f(1) t archive_file_simps(3)]
    then have t1: "tree fs1" by (simp add: frames_def)
    have ne: "butlast ?a \<noteq> ?a" by (simp add: archive_file_def butlast_append)
    from f(2) show ?thesis
    proof (elim disjE conjE exE)
      fix out assume nd: "node_at fs1 ?a \<noteq> Some Dir"
        and fs': "fs' = AList.update ?a (Regular out) (AList.update ?a (Regular []) fs1)"
      have "frames (job_dir w j) fs1 (AList.update ?a (Regular []) fs1)"
        by (rule write_frames) (use t1 nd mkdir_at [OF f(1)] in simp_all)
      moreover from this have "frames (job_dir w j) (AList.update ?a (Regular []) fs1) fs'"
        unfolding fs' by (intro write_frames) (use nd ne mkdir_at [OF f(1)] in \<open>simp_all add: frames_def\<close>)
      ultimately show ?thesis using one frames_trans by blast
    qed (use one in simp)
  qed (simp add: frames_refl t)
  with s show "frames (job_dir w j) fs (snd (snd (assemble_step w j ty (db, fs))))" by simp
qed

lemma extract_frames:
  assumes "tree (snd s)"
  shows "frames (extracted w j ty) (snd s) (snd (snd (extract_step w j k ty s)))"
  using assms frames_refl extraction_frames [OF assms, of "unzips w" "opens w" "unpack_room w ty" "archive_file w j ty"]
  by (auto simp: extract_step_def split: prod.splits)

lemma extracted_inside [simp]: "prefix (job_dir w j) (extracted w j ty)"
  by (simp add: extracted_def)

lemma unpack_frames_aux:
  "stays_in (job_dir w j) (run_steps ([reserve_step w j 1 n] @ map (\<lambda>(k, ty). extract_step w j k ty) (enumerate 2 tys) @ [consume_step j n]))"
proof (rule within_steps)
  fix f assume "f \<in> set ([reserve_step w j 1 n] @ map (\<lambda>(k, ty). extract_step w j k ty) (enumerate 2 tys) @ [consume_step j n])"
  then consider "f = reserve_step w j 1 n" | "f = consume_step j n" | k ty where "f = extract_step w j k ty" by auto
  then show "stays_in (job_dir w j) f"
  proof cases
    case 3
    then show ?thesis unfolding stays_in_def using extract_frames frames_widen [OF _ extracted_inside] by (metis snd_conv)
  qed (simp_all add: quiet_within)
qed

lemma unpack_within: "stays_in (job_dir w j) (unpack_step w j tys)"
  unfolding stays_in_def
proof (intro allI impI)
  fix db fs assume "tree fs"
  then show "frames (job_dir w j) fs (snd (snd (unpack_step w j tys (db, fs))))"
    using unpack_frames_aux [of w j _ tys] by (simp add: unpack_step_def frames_refl stays_in_def split: sum.splits)
qed

lemma map_of_docs_at:
  "map_of (docs (payload_at w fs d)) n
     = (if n \<in> {dataset_file, kernel_file} then map_option (decode w) (content_at fs (d @ [n])) else None)"
  by (auto simp: payload_at_def List.map_filter_simps split: option.splits)

lemma save_frames:
  assumes "tree fs" and "prefix e d" and "map_of (docs new) name \<noteq> None \<Longrightarrow> content_at fs (d @ [name]) \<noteq> None"
  shows "frames e fs (save_doc w d name new fs)"
proof (cases "map_of (docs new) name = None")
  case True
  then show ?thesis using assms(1) by (simp add: save_doc_def frames_refl)
next
  case False
  then have f: "node_at fs (d @ [name]) \<noteq> Some Dir" "node_at fs (d @ [name]) \<noteq> None"
    using assms(3) by (auto simp: content_at_def split: option.splits node.splits)
  then have "node_at fs d = Some Dir" using treeD [OF assms(1), of "d @ [name]"] by auto
  then have "frames e fs (AList.update (d @ [name]) (Regular c) fs)" for c
    by (intro write_frames) (use assms f in auto)
  with assms(1) show ?thesis by (auto simp: save_doc_def frames_refl split: option.splits doc.splits json.splits)
qed

lemma prepared_docs:
  "prepare_metadata_ref render name expected dref d = (r, d') \<Longrightarrow> map_of (docs d') x \<noteq> None \<longleftrightarrow> map_of (docs d) x \<noteq> None"
  by (auto simp: prepare_metadata_ref_def Let_def write_metadata_json_def read_metadata_json_def update_conv'
      split: sum.splits option.splits doc.splits json.splits if_splits)

lemma checked_docs:
  "check_metadata render name expected dref user d = (r, d') \<Longrightarrow> map_of (docs d') x \<noteq> None \<longleftrightarrow> map_of (docs d) x \<noteq> None"
  using prepared_docs by (fastforce simp: check_metadata_def split: sum.splits prod.splits)

lemma kernel_docs:
  "validate_kernel_payload render kref user dref d = (r, d') \<Longrightarrow> map_of (docs d') x \<noteq> None \<longleftrightarrow> map_of (docs d) x \<noteq> None"
  using checked_docs by (fastforce simp: validate_kernel_payload_def split: sum.splits prod.splits)

lemma payloads_docs:
  "validate_payloads render dref kref user (d, k) = (r, d', k')
    \<Longrightarrow> (map_of (docs d') x \<noteq> None \<longleftrightarrow> map_of (docs d) x \<noteq> None) \<and> (map_of (docs k') x \<noteq> None \<longleftrightarrow> map_of (docs k) x \<noteq> None)"
  using checked_docs [of render dataset_file dref "[]" user d] kernel_docs [of render kref user dref k]
  by (fastforce simp: validate_payloads_def split: sum.splits prod.splits)

lemma content_saved:
  "p \<noteq> d @ [name] \<Longrightarrow> content_at (save_doc w d name new fs) p = content_at fs p"
  by (auto simp: save_doc_def content_update split: option.splits doc.splits json.splits)

lemma validate_stays_in: "stays_in (job_dir w j) (validate_step w j user hit)"
  unfolding stays_in_def
proof (intro allI impI)
  fix db fs assume t: "tree fs"
  let ?dd = "extracted w j Dataset_archive" and ?kd = "extracted w j Kernel_archive"
  have other: "?kd @ [n] \<noteq> ?dd @ [m]" for n m by (simp add: extracted_def kind_name_def)
  have kernel: "frames (job_dir w j) fs (save_doc w ?kd kernel_file k fs)"
    if "validate_kernel_payload (renders w) (kernel_ref j) user (dataset_ref j) (payload_at w fs ?kd) = (r, k)" for r k
    using kernel_docs [OF that, of kernel_file] by (intro save_frames [OF t]) (auto simp: map_of_docs_at)
  have both: "frames (job_dir w j) fs (save_doc w ?kd kernel_file k (save_doc w ?dd dataset_file d fs))"
    if v: "validate_payloads (renders w) (dataset_ref j) (kernel_ref j) user (payload_at w fs ?dd, payload_at w fs ?kd) = (r, d, k)"
    for r d k
  proof -
    have d: "map_of (docs d) dataset_file \<noteq> None \<Longrightarrow> content_at fs (?dd @ [dataset_file]) \<noteq> None"
      using payloads_docs [OF v, of dataset_file] by (simp add: map_of_docs_at)
    have k: "map_of (docs k) kernel_file \<noteq> None \<Longrightarrow> content_at fs (?kd @ [kernel_file]) \<noteq> None"
      using payloads_docs [OF v, of kernel_file] by (simp add: map_of_docs_at)
    have one: "frames (job_dir w j) fs (save_doc w ?dd dataset_file d fs)" by (rule save_frames [OF t _ d]) simp_all
    then have "frames (job_dir w j) (save_doc w ?dd dataset_file d fs) (save_doc w ?kd kernel_file k (save_doc w ?dd dataset_file d fs))"
      by (intro save_frames) (use k other in \<open>simp_all add: frames_def content_saved\<close>)
    with one show ?thesis by (rule frames_trans)
  qed
  show "frames (job_dir w j) fs (snd (snd (validate_step w j user hit (db, fs))))"
    using kernel both by (auto simp: validate_step_def Let_def split: prod.splits)
qed

lemma inputs_stay_in: "stays_in (job_dir w j) (run_steps (input_steps w j user hit))"
  by (rule within_steps)
    (auto simp: input_steps_def quiet_within assemble_within unpack_within validate_stays_in split: if_splits)

section \<open>What a successful step establishes\<close>

definition holds_archive :: "disk \<Rightarrow> job \<Rightarrow> files \<Rightarrow> archive_type \<Rightarrow> bool" where
  "holds_archive w j fs ty \<longleftrightarrow> (\<exists>a. content_at fs (archive_file w j ty) = Some a \<and> int (length a) = archive_bytes j ty
     \<and> lower (digest w a) = lower (announced_digest j ty))"

definition leaves_file :: "path \<Rightarrow> step \<Rightarrow> bool" where
  "leaves_file p f \<longleftrightarrow> (\<forall>db fs c. tree fs \<longrightarrow> content_at fs p = Some c \<longrightarrow> content_at (snd (snd (f (db, fs)))) p = Some c)"

lemma run_success: "run_steps (f # fs) s = (None, t) \<longleftrightarrow> (\<exists>u. f s = (None, u) \<and> run_steps fs u = (None, t))"
  by (auto split: prod.splits option.splits)

lemma run_append:
  "run_steps (fs @ gs) s = (case run_steps fs s of (Some e, t) \<Rightarrow> (Some e, t) | (None, t) \<Rightarrow> run_steps gs t)"
  by (induction fs arbitrary: s) (auto split: prod.splits option.splits)

lemma quiet_leaves: "(\<And>s. snd (snd (f s)) = snd s) \<Longrightarrow> leaves_file p f"
  by (simp add: leaves_file_def)

lemma leaves_steps: "(\<And>f. f \<in> set fs \<Longrightarrow> leaves_file p f \<and> stays_in d f) \<Longrightarrow> leaves_file p (run_steps fs)"
proof (induction fs)
  case Nil
  then show ?case by (simp add: leaves_file_def)
next
  case (Cons f fs)
  show ?case
    unfolding leaves_file_def
  proof (intro allI impI)
    fix db x c assume t: "tree x" "content_at x p = Some c"
    obtain e db1 x1 where f: "f (db, x) = (e, db1, x1)" by (metis prod_cases3)
    have one: "content_at x1 p = Some c" using Cons.prems [of f] t f unfolding leaves_file_def by (metis list.set_intros(1) snd_conv)
    have "stays_in d f" using Cons.prems by simp
    from withinD [OF this t(1), of db e db1 x1] f have "tree x1" by (simp add: frames_def)
    with Cons one have "content_at (snd (snd (run_steps fs (db1, x1)))) p = Some c" by (simp add: leaves_file_def)
    with one f show "content_at (snd (snd (run_steps (f # fs) (db, x)))) p = Some c" by (simp split: option.splits)
  qed
qed

lemma archive_file_inj [simp]: "archive_file w j ty = archive_file w j ty' \<longleftrightarrow> ty = ty'"
  by (cases ty; cases ty') (simp_all add: archive_file_def kind_name_def)

lemma assemble_leaves: "ty \<noteq> ty' \<Longrightarrow> leaves_file (archive_file w j ty) (assemble_step w j ty')"
  unfolding leaves_file_def
proof (intro allI impI)
  fix db fs c assume ne: "ty \<noteq> ty'" and t: "tree fs" and c: "content_at fs (archive_file w j ty) = Some c"
  obtain r db' fs' where s: "assemble_step w j ty' (db, fs) = (r, db', fs')" by (metis prod_cases3)
  from assemble_cases [OF s t] have "content_at fs' (archive_file w j ty) = Some c"
    using c ne mkdir_content by (auto simp: content_update)
  with s show "content_at (snd (snd (assemble_step w j ty' (db, fs)))) (archive_file w j ty) = Some c" by simp
qed

lemma assembled: "assemble_step w j ty (db, fs) = (None, db', fs') \<Longrightarrow> holds_archive w j fs' ty"
  by (auto simp: assemble_step_def Let_def write_file_def check_archive_def holds_archive_def content_update
      split: sum.splits prod.splits if_splits)

lemma archive_not_extracted: "\<not> prefix (extracted w j ty) (archive_file w j ty')"
  "\<not> strict_prefix (archive_file w j ty') (extracted w j ty)"
  by (auto simp: extracted_def archive_file_def strict_prefix_def)

lemma extract_leaves: "leaves_file (archive_file w j ty) (extract_step w j k ty')"
  unfolding leaves_file_def
proof (intro allI impI)
  fix db fs c assume "tree fs" and c: "content_at fs (archive_file w j ty) = Some c"
  then have "frames (extracted w j ty') fs (snd (snd (extract_step w j k ty' (db, fs))))" using extract_frames [of "(db, fs)"] by simp
  then have "node_at (snd (snd (extract_step w j k ty' (db, fs)))) (archive_file w j ty) = node_at fs (archive_file w j ty)"
    using archive_not_extracted unfolding frames_def by blast
  with c show "content_at (snd (snd (extract_step w j k ty' (db, fs)))) (archive_file w j ty) = Some c" by (simp add: content_at_def)
qed

lemma extract_stays: "stays_in (job_dir w j) (extract_step w j k ty)"
  unfolding stays_in_def using extract_frames frames_widen [OF _ extracted_inside] by (metis snd_conv)

lemma unpack_leaves: "leaves_file (archive_file w j ty) (unpack_step w j tys)"
proof -
  have "leaves_file (archive_file w j ty)
      (run_steps ([reserve_step w j 1 n] @ map (\<lambda>(k, ty). extract_step w j k ty) (enumerate 2 tys) @ [consume_step j n]))" for n
    by (rule leaves_steps [where d = "job_dir w j"]) (auto simp: extract_leaves extract_stays quiet_leaves quiet_within)
  then show ?thesis by (auto simp: leaves_file_def unpack_step_def split: sum.splits)
qed

lemma validate_leaves: "leaves_file (archive_file w j ty) (validate_step w j user hit)"
proof -
  have "archive_file w j ty \<noteq> extracted w j ty' @ [n]" for ty' n by (simp add: extracted_def archive_file_def)
  then show ?thesis by (auto simp: leaves_file_def validate_step_def Let_def content_saved split: prod.splits)
qed

text \<open>The reservation that is left.\<close>

lemma extracts_keep_rows: "run_steps (map (\<lambda>(k, ty). extract_step w j k ty) ks) s = (r, t) \<Longrightarrow> fst t = fst s"
  by (induction ks arbitrary: s) (auto simp: extract_step_def split: prod.splits option.splits if_splits)

definition released :: "relay_db \<Rightarrow> string \<Rightarrow> bool" where
  "released db jid \<longleftrightarrow> (\<forall>j. get_job db jid = Some j \<longrightarrow> reserved_bytes j = 0)"

lemma released_rows: "released (consume_bytes (update_job db now jid [Set_reserved_bytes n]) jid n) jid"
proof -
  have k: "keeps_key (\<lambda>j. j\<lparr>reserved_bytes := max 0 (reserved_bytes j - n)\<rparr>)" by (simp add: keeps_key_def)
  have v: "reserved_bytes (apply_values (prepare_values now [Set_reserved_bytes n]) j) = n" for j
    by (simp add: prepare_values_def)
  have "reserved_bytes j = 0" if "get_job (consume_bytes (update_job db now jid [Set_reserved_bytes n]) jid n) jid = Some j" for j
  proof -
    from that obtain i where i: "get_job (update_job db now jid [Set_reserved_bytes n]) jid = Some i"
      and j: "j = (if job_id i = jid then i\<lparr>reserved_bytes := max 0 (reserved_bytes i - n)\<rparr> else i)"
      unfolding consume_bytes_def get_update_rows [OF k] by blast
    from i have "job_id i = jid" by (rule get_job_SomeD [THEN conjunct2])
    moreover from i have "reserved_bytes i = n" by (auto simp: get_update_job v)
    ultimately show ?thesis by (simp add: j)
  qed
  then show ?thesis by (simp add: released_def)
qed

lemma unpack_releases:
  assumes "unpack_step w j tys s = (None, t)"
  shows "released (fst t) (job_id j)"
proof -
  from assms obtain n where
    r: "run_steps ([reserve_step w j 1 n] @ map (\<lambda>(k, ty). extract_step w j k ty) (enumerate 2 tys) @ [consume_step j n]) s = (None, t)"
    by (auto simp: unpack_step_def split: sum.splits)
  then obtain u where u: "reserve_step w j 1 n s = (None, u)"
    and r: "run_steps (map (\<lambda>(k, ty). extract_step w j k ty) (enumerate 2 tys) @ [consume_step j n]) u = (None, t)"
    unfolding append_Cons append_Nil run_success by blast
  obtain e v where v: "run_steps (map (\<lambda>(k, ty). extract_step w j k ty) (enumerate 2 tys)) u = (e, v)" by (rule prod.exhaust)
  with r have t: "t = snd (consume_step j n v)" unfolding run_append by (cases e) (simp_all add: consume_step_def)
  have "fst u = update_job (fst s) (clock w) (job_id j) [Set_reserved_bytes n]"
    using u by (auto simp: reserve_step_def reserve_def split: sum.splits option.splits)
  then have "fst t = consume_bytes (update_job (fst s) (clock w) (job_id j) [Set_reserved_bytes n]) (job_id j) n"
    using extracts_keep_rows [OF v] t by (simp add: consume_step_def)
  then show ?thesis
    by (simp add: released_rows)
qed

text \<open>The metadata that is left: the file holds a document that names the reference, owned by the user.\<close>

definition names_in_file :: "disk \<Rightarrow> files \<Rightarrow> path \<Rightarrow> string \<Rightarrow> string \<Rightarrow> string \<Rightarrow> bool" where
  "names_in_file w fs d name ref user \<longleftrightarrow> (\<exists>c m. content_at fs (d @ [name]) = Some c
     \<and> (c = encode w m \<or> decode w c = Decoded (JObj m)) \<and> metadata_id (renders w) m = ref
     \<and> (strip user \<noteq> [] \<longrightarrow> lower (ref_owner ref) = lower (strip user)))"

lemma saved_names:
  assumes "names_ref (renders w) name ref user new" and "name \<in> {dataset_file, kernel_file}"
    and "map_of (docs new) name \<noteq> None \<Longrightarrow> map_of (docs (payload_at w fs d)) name \<noteq> None"
  shows "names_in_file w (save_doc w d name new fs) d name ref user"
proof -
  from assms(1) obtain m where m: "map_of (docs new) name = Some (Decoded (JObj m))" "metadata_id (renders w) m = ref"
    "strip user \<noteq> [] \<longrightarrow> lower (ref_owner ref) = lower (strip user)"
    by (auto simp: names_ref_def read_metadata_json_def split: option.splits doc.splits json.splits)
  from assms(3) m(1) assms(2) obtain c where c: "content_at fs (d @ [name]) = Some c" by (auto simp: map_of_docs_at)
  show ?thesis
  proof (cases "map_of (docs (payload_at w fs d)) name = Some (Decoded (JObj m))")
    case True
    with c assms(2) have "decode w c = Decoded (JObj m)" by (simp add: map_of_docs_at)
    with True m c show ?thesis by (auto simp: names_in_file_def save_doc_def)
  next
    case False
    with m show ?thesis unfolding names_in_file_def by (intro exI [of _ "encode w m"] exI [of _ m]) (simp add: save_doc_def content_update)
  qed
qed

lemma validated:
  assumes "validate_step w j user hit s = (None, t)" and "dataset_ref j \<noteq> []" and "kernel_ref j \<noteq> []"
  shows "fst t = fst s \<and> names_in_file w (snd t) (extracted w j Kernel_archive) kernel_file (kernel_ref j) user
    \<and> (hit \<or> names_in_file w (snd t) (extracted w j Dataset_archive) dataset_file (dataset_ref j) user)"
proof -
  let ?fs = "snd s" and ?dd = "extracted w j Dataset_archive" and ?kd = "extracted w j Kernel_archive"
  have other: "?kd @ [n] \<noteq> ?dd @ [m]" "?dd @ [m] \<noteq> ?kd @ [n]" for n m by (simp_all add: extracted_def kind_name_def)
  show ?thesis
  proof (cases hit)
    case True
    with assms(1) obtain code k where v: "validate_kernel_payload (renders w) (kernel_ref j) user (dataset_ref j) (payload_at w ?fs ?kd) = (Inr code, k)"
      and t: "t = (fst s, save_doc w ?kd kernel_file k ?fs)"
      by (auto simp: validate_step_def Let_def split: prod.splits sum.splits)
    have "names_in_file w (snd t) ?kd kernel_file (kernel_ref j) user"
      unfolding t snd_conv by (rule saved_names [OF kernel_checked(1) [OF v assms(3)]]) (use kernel_docs [OF v] in simp_all)
    with True t show ?thesis by simp
  next
    case False
    with assms(1) obtain code d k where
      v: "validate_payloads (renders w) (dataset_ref j) (kernel_ref j) user (payload_at w ?fs ?dd, payload_at w ?fs ?kd) = (Inr code, d, k)"
      and t: "t = (fst s, save_doc w ?kd kernel_file k (save_doc w ?dd dataset_file d ?fs))"
      by (auto simp: validate_step_def Let_def split: prod.splits sum.splits)
    from v obtain m where c: "check_metadata (renders w) dataset_file (dataset_ref j) [] user (payload_at w ?fs ?dd) = (Inr m, d)"
      and kv: "validate_kernel_payload (renders w) (kernel_ref j) user (dataset_ref j) (payload_at w ?fs ?kd) = (Inr code, k)"
      by (auto simp: validate_payloads_def split: sum.splits prod.splits)
    have "names_in_file w (save_doc w ?dd dataset_file d ?fs) ?dd dataset_file (dataset_ref j) user"
      by (rule saved_names [OF checked(1) [OF c assms(2)]]) (use checked_docs [OF c] in simp_all)
    then have "names_in_file w (snd t) ?dd dataset_file (dataset_ref j) user"
      by (simp add: t names_in_file_def content_saved other)
    moreover have "names_in_file w (snd t) ?kd kernel_file (kernel_ref j) user"
      unfolding t snd_conv
      by (rule saved_names [OF kernel_checked(1) [OF kv assms(3)]])
        (use kernel_docs [OF kv, of kernel_file] in \<open>simp_all add: map_of_docs_at content_saved other\<close>)
    ultimately show ?thesis using t by simp
  qed
qed

lemma last_steps:
  assumes "run_steps [assemble_step w j Kernel_archive, unpack_step w j tys, validate_step w j user hit] (db, fs) = (None, t)"
    and "tree fs" and "dataset_ref j \<noteq> []" and "kernel_ref j \<noteq> []"
  shows "holds_archive w j (snd t) Kernel_archive \<and> released (fst t) (job_id j)
    \<and> (holds_archive w j fs Dataset_archive \<longrightarrow> holds_archive w j (snd t) Dataset_archive)
    \<and> names_in_file w (snd t) (extracted w j Kernel_archive) kernel_file (kernel_ref j) user
    \<and> (hit \<or> names_in_file w (snd t) (extracted w j Dataset_archive) dataset_file (dataset_ref j) user)"
proof -
  from assms(1) obtain db1 fs1 u where a: "assemble_step w j Kernel_archive (db, fs) = (None, db1, fs1)"
    and b: "unpack_step w j tys (db1, fs1) = (None, u)" and c: "validate_step w j user hit u = (None, t)"
    by (auto simp: run_success simp del: run_steps.simps(2))
  have "tree fs1" using withinD [OF assemble_within assms(2) a] by (simp add: frames_def)
  moreover have "tree (snd u)" using withinD [OF unpack_within \<open>tree fs1\<close>, of w j tys db1 None "fst u" "snd u"] b by (simp add: frames_def)
  ultimately have later: "content_at fs1 (archive_file w j ty) = Some x \<Longrightarrow> content_at (snd t) (archive_file w j ty) = Some x" for ty x
    using unpack_leaves [of w j ty tys] validate_leaves [of w j ty user hit] b c unfolding leaves_file_def
    by (metis prod.collapse snd_conv)
  then have keep: "holds_archive w j fs1 ty \<Longrightarrow> holds_archive w j (snd t) ty" for ty unfolding holds_archive_def by blast
  have "content_at fs (archive_file w j Dataset_archive) = Some x \<Longrightarrow> content_at fs1 (archive_file w j Dataset_archive) = Some x" for x
    using assemble_leaves [of Dataset_archive Kernel_archive w j] a assms(2) unfolding leaves_file_def
    by (metis archive_type.distinct(1) snd_conv)
  then have "holds_archive w j fs Dataset_archive \<Longrightarrow> holds_archive w j fs1 Dataset_archive" unfolding holds_archive_def by blast
  with keep assembled [OF a] unpack_releases [OF b] validated [OF c assms(3,4)] show ?thesis by simp
qed

definition inputs_ok :: "disk \<Rightarrow> job \<Rightarrow> string \<Rightarrow> bool \<Rightarrow> files \<Rightarrow> bool" where
  "inputs_ok w j user hit fs \<longleftrightarrow> (\<forall>ty \<in> set (required_archives hit). holds_archive w j fs ty)
     \<and> names_in_file w fs (extracted w j Kernel_archive) kernel_file (kernel_ref j) user
     \<and> (hit \<or> names_in_file w fs (extracted w j Dataset_archive) dataset_file (dataset_ref j) user)"

lemma input_steps_ok:
  assumes "run_steps (input_steps w j user hit) (db, fs) = (None, t)" and "tree fs"
    and "dataset_ref j \<noteq> []" and "kernel_ref j \<noteq> []"
  shows "inputs_ok w j user hit (snd t) \<and> released (fst t) (job_id j)"
proof -
  from assms(1) obtain db1 where
    r: "run_steps ((if hit then [] else [assemble_step w j Dataset_archive, consume_step j (dataset_size j)])
     @ [assemble_step w j Kernel_archive,
        unpack_step w j (if hit then [Kernel_archive] else [Kernel_archive, Dataset_archive]),
        validate_step w j user hit]) (db1, fs) = (None, t)"
    unfolding input_steps_def append_Cons append_Nil run_success
    by (metis prod.collapse snd_conv steps_quiet(1))
  show ?thesis
  proof (cases hit)
    case True
    with r have "run_steps [assemble_step w j Kernel_archive, unpack_step w j [Kernel_archive], validate_step w j user hit] (db1, fs) = (None, t)"
      by (simp only: if_True append_Nil append_Cons)
    from last_steps [OF this assms(2-4)] True show ?thesis by (simp add: inputs_ok_def required_archives_def)
  next
    case False
    let ?last = "[assemble_step w j Kernel_archive, unpack_step w j [Kernel_archive, Dataset_archive], validate_step w j user hit]"
    from r False have "run_steps (assemble_step w j Dataset_archive # consume_step j (dataset_size j) # ?last) (db1, fs) = (None, t)"
      by (simp only: if_False append_Nil append_Cons)
    then obtain db2 fs2 where a: "assemble_step w j Dataset_archive (db1, fs) = (None, db2, fs2)"
      and "run_steps (consume_step j (dataset_size j) # ?last) (db2, fs2) = (None, t)"
      unfolding run_success [of "assemble_step w j Dataset_archive"] by auto
    then obtain db3 where b: "run_steps ?last (db3, fs2) = (None, t)"
      unfolding run_success [of "consume_step j (dataset_size j)"] by (auto simp: consume_step_def simp del: run_steps.simps(2))
    have "tree fs2" using withinD [OF assemble_within assms(2) a] by (simp add: frames_def)
    with last_steps [OF b this assms(3,4)] assembled [OF a] False show ?thesis
      by (auto simp: inputs_ok_def required_archives_def)
  qed
qed


section \<open>Where the script may lie\<close>

lemma walk_plain:
  assumes "tree fs" and "node_at fs (here @ cs) = Some n" and "''..'' \<notin> set cs"
  shows "walk fs here cs = Some (here @ cs)"
  using assms(2,3)
proof (induction cs arbitrary: here)
  case (Cons c cs)
  have "node_at fs here = Some Dir" using tree_above [OF assms(1) Cons.prems(1), of here] by (simp add: strict_prefix_def)
  with Cons show ?case by auto
qed simp

lemma absolute_name:
  assumes "tree fs" and "plain_path p" and "content_at fs p \<noteq> None"
  shows "is_file fs base (''/'' @ join ''/'' p)"
proof -
  from assms(3) obtain n where n: "node_at fs p = Some n" by (auto simp: content_at_def split: option.splits)
  have plain: "q \<notin> {[], ''.'', ''..''}" if "q \<in> set p" for q
    using that assms(2) by (auto simp: plain_path_def list_all_iff plain_part_def)
  have "name_parts (''/'' @ join ''/'' p) = filter (\<lambda>q. q \<noteq> [] \<and> q \<noteq> ''.'') p"
    using split_on_append [of "CHR ''/''" "[]" "join ''/'' p"] plain_split [OF assms(2)] by (simp add: name_parts_def)
  also have "\<dots> = p" using plain by (auto simp: filter_id_conv)
  finally have "joined fs base (''/'' @ join ''/'' p) = walk fs [] p" by (simp add: joined_def)
  also have "\<dots> = Some p" using walk_plain [OF assms(1), of "[]" p] n plain by auto
  finally show ?thesis using assms(3) by (simp add: is_file_def)
qed

lemma checked_other:
  "check_metadata render name expected dref user d = (r, d') \<Longrightarrow> other_file d' = other_file d"
  by (auto simp: check_metadata_def prepare_metadata_ref_def write_metadata_json_def Let_def split: sum.splits prod.splits if_splits)

text \<open>
  The check of a kernel accepts as its script any regular file the relay can read, named by its absolute path,
  wherever it lies: the script need not be in the directory of the kernel.
\<close>

theorem script_outside_accepted:
  assumes "tree fs" and "plain_path p" and "content_at fs p \<noteq> None"
    and "check_metadata (renders w) kernel_file (kernel_ref j) (dataset_ref j) user (payload_at w fs (extracted w j Kernel_archive)) = (Inr m, d)"
    and "map_of m ''code_file'' = Some (JStr (''/'' @ join ''/'' p))"
  shows "validate_kernel_payload (renders w) (kernel_ref j) user (dataset_ref j) (payload_at w fs (extracted w j Kernel_archive))
    = (Inr (''/'' @ join ''/'' p), d)"
proof -
  have "code_file_of (renders w) m = ''/'' @ join ''/'' p" using assms(5) by (simp add: code_file_of_def str_or_empty_def)
  moreover have "other_file d (''/'' @ join ''/'' p)"
    using checked_other [OF assms(4)] absolute_name [OF assms(1-3)] by (simp add: payload_at_def)
  ultimately show ?thesis using assms(4) by (simp add: validate_kernel_payload_def require_file_def)
qed

section \<open>The archives are those of an upload\<close>

lemma concat_blocks [simp]: "concat (blocks n s) = s" "[] \<notin> set (blocks n s)"
  by (induction n s rule: blocks.induct) auto

lemma copy_blocks:
  "[] \<notin> set bs \<Longrightarrow> fst (copy_file room k bs None out) = fst (copy_file room k bs None [])
     \<and> fst (copy_file room k bs None out) \<in> {None, Some No_room}
     \<and> (fst (copy_file room k bs None out) = None \<longrightarrow> snd (copy_file room k bs None out) = out @ concat bs)"
proof (induction bs arbitrary: k out)
  case (Cons b bs)
  then have b: "b \<noteq> []" "[] \<notin> set bs" by auto
  show ?case
  proof (cases "room k (int (length b))")
    case True
    with b have e: "copy_file room k (b # bs) None o1 = copy_file room (Suc k) bs None (o1 @ b)" for o1 by simp
    from Cons.IH [OF b(2), of "Suc k" "out @ b"] Cons.IH [OF b(2), of "Suc k" b] show ?thesis
      unfolding e append_Nil concat.simps append_assoc by (intro conjI) (metis, blast, blast)
  next
    case False
    with b show ?thesis by simp
  qed
qed simp

text \<open>Every check between the blocks of part \<open>i\<close> passes.\<close>

definition part_fits :: "disk \<Rightarrow> archive_type \<Rightarrow> (int \<Rightarrow> string option) \<Rightarrow> int \<Rightarrow> bool" where
  "part_fits w ty part i \<longleftrightarrow> fst (copy_file (copy_room w ty (nat i)) 0 (blocks (block_size w) (the (part i))) None []) = None"

definition as_file_error :: "capacity_error + archive_error \<Rightarrow> file_error" where
  "as_file_error e = (case e of Inl _ \<Rightarrow> No_room | Inr a \<Rightarrow> Refused (archive_text a))"

lemma copied_parts:
  "case copy_parts (part_fits w ty part) part is out of
     Inl e \<Rightarrow> fst (copy_part_files (copy_room w ty) (block_size w) part is out) = Some (as_file_error e)
   | Inr out' \<Rightarrow> copy_part_files (copy_room w ty) (block_size w) part is out = (None, out')"
proof (induction "is" arbitrary: out)
  case (Cons i "is")
  show ?case
  proof (cases "part i")
    case None
    then show ?thesis by (simp add: as_file_error_def archive_text_def)
  next
    case (Some f)
    let ?c = "copy_file (copy_room w ty (nat i)) 0 (blocks (block_size w) f) None"
    from copy_blocks [of "blocks (block_size w) f" "copy_room w ty (nat i)" 0 out]
    have c: "fst (?c out) = fst (?c [])" "fst (?c out) \<in> {None, Some No_room}" "fst (?c out) = None \<Longrightarrow> ?c out = (None, out @ f)"
      by (auto simp: prod_eq_iff)
    show ?thesis
    proof (cases "part_fits w ty part i")
      case True
      with Some c have "?c out = (None, out @ f)" by (simp add: part_fits_def)
      with Some have "copy_part_files (copy_room w ty) (block_size w) part (i # is) out
          = copy_part_files (copy_room w ty) (block_size w) part is (out @ f)"
        and "copy_parts (part_fits w ty part) part (i # is) out = copy_parts (part_fits w ty part) part is (out @ f)"
        using True by simp_all
      with Cons.IH [of "out @ f"] show ?thesis by (simp only:)
    next
      case False
      with Some c have "fst (?c out) = Some No_room" by (auto simp: part_fits_def)
      then have "fst (copy_part_files (copy_room w ty) (block_size w) part (i # is) out) = Some No_room"
        using Some by (cases "?c out") simp
      with False Some show ?thesis by (simp add: as_file_error_def)
    qed
  qed
qed simp

text \<open>
  Putting an archive together on the disk is what the uploads promise of it: where the directory and the archive
  file can be written, it succeeds or fails exactly as the abstract assembly of the stored parts does, and a
  success leaves those bytes in the archive file.
\<close>

theorem disk_assembly_refines:
  assumes "mkdir_parents (butlast (archive_file w j ty)) fs = Inr fs1" and "node_at fs1 (archive_file w j ty) \<noteq> Some Dir"
    and "assemble_step w j ty (db, fs) = (r, db', fs')" and "part = (\<lambda>i. content_at fs (part_file w j ty i))"
  shows "case assemble_archive (digest w) (part_fits w ty part) part (archive_bytes j ty) (chunk_size j) (announced_digest j ty) of
      Inl e \<Rightarrow> r = Some (as_file_error e)
    | Inr out \<Rightarrow> r = None \<and> content_at fs' (archive_file w j ty) = Some out"
proof -
  let ?a = "archive_file w j ty"
  have "part_file w j ty i \<noteq> ?a" for i by (simp add: part_file_def archive_file_def)
  then have part: "(\<lambda>i. content_at (AList.update ?a (Regular []) fs1) (part_file w j ty i)) = part"
    using mkdir_content [OF assms(1)] assms(4) by (auto simp: content_update)
  show ?thesis
  proof (cases "expected_chunk_count (archive_bytes j ty) (chunk_size j)")
    case (Inl e)
    with assms(3) show ?thesis by (auto simp: assemble_archive_def assemble_step_def Let_def as_file_error_def)
  next
    case (Inr n)
    obtain e out where c: "copy_part_files (copy_room w ty) (block_size w) part [0..n - 1] [] = (e, out)" by (rule prod.exhaust)
    from assms(1-3) Inr part c have r: "r = (if e \<noteq> None then e else check_archive w j ty out)"
      "content_at fs' ?a = Some out"
      by (auto simp: assemble_step_def Let_def write_file_def content_update)
    show ?thesis
      using copied_parts [of w ty part "[0..n - 1]" "[]"] c r Inr
      by (auto simp: assemble_archive_def check_archive_def as_file_error_def archive_text_def split: sum.splits)
  qed
qed

section \<open>Witnesses\<close>

definition sample_kernel_doc :: "string \<Rightarrow> doc" where
  "sample_kernel_doc code = Decoded (JObj [(''id'', JStr ''u/k''), (''code_file'', JStr code)])"

text \<open>Archives named by their bytes; \<open>XZ\<close> names a script of another job.\<close>

definition sample_disk :: disk where
  "sample_disk = \<lparr>storage = [''data''], limits = sample_settings, clock = 5, free_at = (\<lambda>_. 1000000),
     copy_room = (\<lambda>_ _ _ _. True), unpack_room = (\<lambda>_ _ _ _. True), block_size = 1,
     unzips = (\<lambda>b. if b = ''KZ'' then Archive [plain_member kernel_file ''K'', plain_member ''run.py'' ''y'']
       else if b = ''DZ'' then Archive [plain_member dataset_file ''D''] else Bad_archive ''File is not a zip file''),
     opens = sample_opened, digest = (\<lambda>b. b),
     decode = (\<lambda>c. if c = ''K'' then sample_kernel_doc ''run.py''
       else if c = ''X'' then sample_kernel_doc ''/data/jobs/other/secret''
       else if c = ''D'' then Decoded (JObj [(''id'', JStr ''u/d'')]) else Not_json),
     encode = (\<lambda>_. ''J''), renders = no_text, cache_ready = (\<lambda>_. False)\<rparr>"

definition sample_inputs :: job where
  "sample_inputs = sample_job\<lparr>kaggle_key_id := [], dataset_size := 2, kernel_size := 2, chunk_size := 2,
     dataset_archive_sha256 := ''dz'', kernel_archive_sha256 := ''KZ''\<rparr>"

definition sample_parts :: files where
  "sample_parts = [([''data''], Dir), ([''data'', ''jobs''], Dir), ([''data'', ''jobs'', ''j''], Dir),
     ([''data'', ''jobs'', ''j'', ''chunks''], Dir), ([''data'', ''jobs'', ''j'', ''chunks'', ''kernel''], Dir),
     ([''data'', ''jobs'', ''j'', ''chunks'', ''kernel'', ''0.part''], Regular ''KZ''),
     ([''data'', ''jobs'', ''j'', ''chunks'', ''dataset''], Dir),
     ([''data'', ''jobs'', ''j'', ''chunks'', ''dataset'', ''0.part''], Regular ''DZ'')]"

lemma sample_assembles: "fst (assemble_and_validate_job sample_disk sample_store sample_inputs (sample_db [sample_inputs], sample_parts)) = None"
  by code_simp


definition sample_extracted :: files where
  "sample_extracted = [([''data''], Dir), ([''data'', ''jobs''], Dir), ([''data'', ''jobs'', ''j''], Dir),
     ([''data'', ''jobs'', ''other''], Dir), ([''data'', ''jobs'', ''other'', ''secret''], Regular ''s''),
     ([''data'', ''jobs'', ''j'', ''extracted''], Dir), ([''data'', ''jobs'', ''j'', ''extracted'', ''kernel''], Dir),
     ([''data'', ''jobs'', ''j'', ''extracted'', ''kernel'', kernel_file], Regular ''X'')]"

lemma script_outside_accepted_witness:
  "fst (validate_kernel_payload no_text ''u/k'' [] ''u/d''
       (payload_at sample_disk sample_extracted (extracted sample_disk sample_inputs Kernel_archive))) = Inr ''/data/jobs/other/secret''
   \<and> \<not> prefix (extracted sample_disk sample_inputs Kernel_archive) [''data'', ''jobs'', ''other'', ''secret'']"
proof -
  let ?p = "[''data'', ''jobs'', ''other'', ''secret'']"
  let ?c = "check_metadata (renders sample_disk) kernel_file (kernel_ref sample_inputs) (dataset_ref sample_inputs) []
      (payload_at sample_disk sample_extracted (extracted sample_disk sample_inputs Kernel_archive))"
  have "map_sum id (\<lambda>m. map_of m ''code_file'') (fst ?c) = Inr (Some (JStr (''/'' @ join ''/'' ?p)))" by code_simp
  then obtain m d where c: "?c = (Inr m, d)" "map_of m ''code_file'' = Some (JStr (''/'' @ join ''/'' ?p))"
    by (cases ?c; cases "fst ?c") auto
  have "tree sample_extracted" "plain_path ?p" by code_simp+
  moreover have "content_at sample_extracted ?p \<noteq> None" by code_simp
  ultimately show ?thesis
    using script_outside_accepted [OF _ _ _ c] by (simp add: sample_inputs_def sample_disk_def extracted_def job_dir_def)
qed

lemma disk_assembly_refines_witness:
  "assemble_archive (digest sample_disk) (part_fits sample_disk Kernel_archive (\<lambda>i. content_at sample_parts (part_file sample_disk sample_inputs Kernel_archive i)))
     (\<lambda>i. content_at sample_parts (part_file sample_disk sample_inputs Kernel_archive i)) 2 2 ''KZ'' = Inr ''KZ''
   \<and> fst (assemble_step sample_disk sample_inputs Kernel_archive (sample_db [], sample_parts)) = None"
proof -
  let ?part = "\<lambda>i. content_at sample_parts (part_file sample_disk sample_inputs Kernel_archive i)"
  let ?m = "mkdir_parents (butlast (archive_file sample_disk sample_inputs Kernel_archive)) sample_parts"
  have "map_sum id (\<lambda>fs. node_at fs (archive_file sample_disk sample_inputs Kernel_archive)) ?m = Inr None" by code_simp
  then obtain fs1 where m: "?m = Inr fs1" "node_at fs1 (archive_file sample_disk sample_inputs Kernel_archive) = None" by (cases ?m) auto
  obtain r db fs where s: "assemble_step sample_disk sample_inputs Kernel_archive (sample_db [], sample_parts) = (r, db, fs)"
    by (metis prod_cases3)
  have a: "assemble_archive (digest sample_disk) (part_fits sample_disk Kernel_archive ?part) ?part 2 2 ''KZ'' = Inr ''KZ''" by code_simp
  have "archive_bytes sample_inputs Kernel_archive = 2" "chunk_size sample_inputs = 2"
    "announced_digest sample_inputs Kernel_archive = ''KZ''"
    by (simp_all add: sample_inputs_def archive_bytes_def announced_digest_def)
  with disk_assembly_refines [OF m(1) _ s refl] m(2) a s show ?thesis by simp
qed
end
