(* ===== verification/Ui_Session.thy ===== *)
theory Ui_Session
  imports Access Progress
begin

text \<open>
  Sessions of the browser interface (\<^verbatim>\<open>app/ui_auth.py\<close> and the login and session handlers of \<^verbatim>\<open>app/main.py\<close>): a
  cookie carries a signed document that names a principal and an end; the store decides on every request what
  the principal may do. Bytes are strings. The keyed digest \<open>hmac\<close>, SHA-256 and the JSON of the document are
  parameters. A request that ends in an exception has no result.
\<close>

section \<open>Base64\<close>

definition b64_digit :: "int \<Rightarrow> char" where
  "b64_digit n = (if n < 26 then char_of (n + 65) else if n < 52 then char_of (n + 71)
     else if n < 62 then char_of (n - 4) else if n = 62 then CHR ''-'' else CHR ''_'')"

text \<open>The alphabet of the decoder also has the two characters that \<^verbatim>\<open>urlsafe_b64decode\<close> translates.\<close>

definition b64_value :: "char \<Rightarrow> int option" where
  "b64_value c =
     (let n = of_char c :: int in
      if 65 \<le> n \<and> n \<le> 90 then Some (n - 65) else if 97 \<le> n \<and> n \<le> 122 then Some (n - 71)
      else if 48 \<le> n \<and> n \<le> 57 then Some (n + 4) else if n = 43 \<or> n = 45 then Some 62
      else if n = 47 \<or> n = 95 then Some 63 else None)"

text \<open>\<^verbatim>\<open>_b64_encode\<close>: without the padding.\<close>

fun b64_encode :: "string \<Rightarrow> string" where
  "b64_encode [] = []"
| "b64_encode [a] = (let x = of_char a :: int in [b64_digit (x div 4), b64_digit (x mod 4 * 16)])"
| "b64_encode [a, b] =
     (let x = of_char a :: int; y = of_char b in
      [b64_digit (x div 4), b64_digit (x mod 4 * 16 + y div 16), b64_digit (y mod 16 * 4)])"
| "b64_encode (a # b # c # s) =
     (let x = of_char a :: int; y = of_char b; z = of_char c in
      [b64_digit (x div 4), b64_digit (x mod 4 * 16 + y div 16), b64_digit (y mod 16 * 4 + z div 64), b64_digit (z mod 64)]
      @ b64_encode s)"

text \<open>
  The decoder of the library, which skips other characters: the place in a group of four, the bits left over, the
  padding seen in the group, and the bytes so far.
\<close>

fun a2b :: "string \<Rightarrow> nat \<Rightarrow> int \<Rightarrow> nat \<Rightarrow> string \<Rightarrow> string option" where
  "a2b [] pos left pads out = (if pos = 0 then Some out else None)"
| "a2b (c # cs) pos left pads out =
     (if c = CHR ''=''
      then (if 2 \<le> pos then (if 4 \<le> pos + Suc pads then Some out else a2b cs pos left (Suc pads) out)
            else a2b cs pos left pads out)
      else case b64_value c of
          None \<Rightarrow> a2b cs pos left pads out
        | Some v \<Rightarrow>
            if pos = 0 then a2b cs 1 v 0 out
            else if pos = 1 then a2b cs 2 (v mod 16) 0 (out @ [char_of (left * 4 + v div 16)])
            else if pos = 2 then a2b cs 3 (v mod 4) 0 (out @ [char_of (left * 16 + v div 4)])
            else a2b cs 0 0 0 (out @ [char_of (left * 64 + v)]))"

definition b64_decode :: "string \<Rightarrow> string option" where
  "b64_decode s =
     (if is_ascii s then a2b (s @ replicate ((4 - length s mod 4) mod 4) (CHR ''='')) 0 0 0 [] else None)"

section \<open>Settings of the sessions\<close>

text \<open>The environment variables, and what the sessions use of the settings.\<close>

record ui_env =
  env_max_age :: string
  env_secure :: string
  env_secret :: string
  ui_admin_token :: string
  ui_api_token :: string
  ui_origin :: string

definition default_max_age :: int where "default_max_age = 12 * 60 * 60"

definition ui_session_max_age_seconds :: "ui_env \<Rightarrow> int" where
  "ui_session_max_age_seconds e =
     (let raw = strip (env_max_age e) in
      if raw = [] then default_max_age
      else case py_int (JStr raw) of None \<Rightarrow> default_max_age | Some n \<Rightarrow> max 300 (min n (30 * 24 * 60 * 60)))"

definition ui_cookie_secure :: "ui_env \<Rightarrow> bool" where
  "ui_cookie_secure e =
     (let v = lower (strip (env_secure e)) in
      if v \<noteq> [] then v \<notin> {''0'', ''false'', ''no'', ''off''} else prefix ''https://'' (lower (ui_origin e)))"

text \<open>\<^const>\<open>None\<close>: no token is configured anywhere.\<close>

definition configured_secret :: "ui_env \<Rightarrow> auth_store \<Rightarrow> string" where
  "configured_secret e st =
     (if strip (env_secret e) \<noteq> [] then strip (env_secret e)
      else if strip (ui_admin_token e) \<noteq> [] then strip (ui_admin_token e)
      else if strip (ui_api_token e) \<noteq> [] then strip (ui_api_token e)
      else compatibility_admin_token st)"

definition session_secret :: "(string \<Rightarrow> string) \<Rightarrow> ui_env \<Rightarrow> auth_store \<Rightarrow> string option" where
  "session_secret sha256_digest e st =
     (let values = filter (\<lambda>t. t \<noteq> []) (map fst (tokens st)) in
      if configured_secret e st \<noteq> [] then Some (configured_secret e st)
      else if values \<noteq> [] then Some (sha256_digest (join [CHR 0x00] (sort values)))
      else None)"

section \<open>Cookies\<close>

text \<open>What the code relies on: digests, the JSON of the document and its reader, and \<^verbatim>\<open>str\<close> of a JSON value.\<close>

record ui_lib =
  lib_sha256 :: "string \<Rightarrow> string"
  lib_hmac :: "string \<Rightarrow> string \<Rightarrow> string"
  lib_dumps :: "json \<Rightarrow> string"
  lib_loads :: "string \<Rightarrow> json option"
  lib_str :: "json \<Rightarrow> string"

definition sign :: "ui_lib \<Rightarrow> ui_env \<Rightarrow> auth_store \<Rightarrow> string \<Rightarrow> string option" where
  "sign l e st payload =
     (case session_secret (lib_sha256 l) e st of
        None \<Rightarrow> None
      | Some k \<Rightarrow> if is_ascii payload then Some (b64_encode (lib_hmac l k payload)) else None)"

definition session_payload :: "string \<Rightarrow> int \<Rightarrow> int \<Rightarrow> json" where
  "session_payload pid now max_age =
     JObj [(''principal_id'', JStr pid), (''issued_at'', JInt now), (''expires_at'', JInt (now + max_age))]"

text \<open>\<open>max_age\<close>: 0 for the configured age.\<close>

definition create_ui_session_cookie :: "ui_lib \<Rightarrow> ui_env \<Rightarrow> auth_store \<Rightarrow> principal \<Rightarrow> int \<Rightarrow> time \<Rightarrow> string option" where
  "create_ui_session_cookie l e st p max_age now =
     (let age = (if max_age = 0 then ui_session_max_age_seconds e else max_age);
          payload = b64_encode (lib_dumps l (session_payload (principal_id p) \<lfloor>now\<rfloor> age))
      in map_option (\<lambda>s. payload @ ''.'' @ s) (sign l e st payload))"

fun principal_in :: "(string \<times> principal) list \<Rightarrow> string \<Rightarrow> principal option option" where
  "principal_in [] pid = Some None"
| "principal_in ((_, p) # ts) pid =
     (case compare_digest (principal_id p) pid of
        None \<Rightarrow> None | Some True \<Rightarrow> Some (Some p) | Some False \<Rightarrow> principal_in ts pid)"

definition principal_by_id :: "auth_store \<Rightarrow> string \<Rightarrow> principal option option" where
  "principal_by_id st pid = (if strip pid = [] then Some None else principal_in (tokens st) (strip pid))"

definition rsplit_dot :: "string \<Rightarrow> string \<times> string" where
  "rsplit_dot s =
     (rev (tl (dropWhile (\<lambda>c. c \<noteq> CHR ''.'') (rev s))), rev (takeWhile (\<lambda>c. c \<noteq> CHR ''.'') (rev s)))"

definition read_payload :: "ui_lib \<Rightarrow> auth_store \<Rightarrow> time \<Rightarrow> json \<Rightarrow> principal option option" where
  "read_payload l st now doc =
     (case doc of
        JObj d \<Rightarrow>
          let value = (\<lambda>k default. case map_of d k of None \<Rightarrow> default | Some v \<Rightarrow> v) in
          (case (py_int (value ''issued_at'' (JInt 0)), py_int (value ''expires_at'' (JInt 0))) of
             (Some issued, Some expires) \<Rightarrow>
               if issued \<le> 0 \<or> expires \<le> \<lfloor>now\<rfloor> then Some None
               else principal_by_id st (case value ''principal_id'' (JStr []) of JStr s \<Rightarrow> s | v \<Rightarrow> lib_str l v)
           | _ \<Rightarrow> Some None)
      | _ \<Rightarrow> None)"

text \<open>\<^const>\<open>None\<close>: an exception that nothing catches. A number that is not finite is not told from one that is no number.\<close>

definition authenticate_ui_session :: "ui_lib \<Rightarrow> ui_env \<Rightarrow> string \<Rightarrow> time \<Rightarrow> auth_store \<Rightarrow> principal option option" where
  "authenticate_ui_session l e cookie now st =
     (if CHR ''.'' \<notin> set cookie then Some None
      else case rsplit_dot cookie of (payload, signature) \<Rightarrow>
        (case sign l e st payload of
           None \<Rightarrow> None
         | Some expected \<Rightarrow>
             (case compare_digest signature expected of
                None \<Rightarrow> None
              | Some False \<Rightarrow> Some None
              | Some True \<Rightarrow>
                  (case Option.bind (b64_decode payload) (lib_loads l) of
                     None \<Rightarrow> Some None
                   | Some doc \<Rightarrow> read_payload l st now doc))))"

section \<open>Logging in\<close>

record login_answer =
  lo_principal :: string
  lo_allowed :: "string list"
  lo_can_view :: bool
  lo_cookie :: string
  lo_max_age :: int
  lo_secure :: bool

definition ui_login :: "ui_lib \<Rightarrow> ui_env \<Rightarrow> time \<Rightarrow> request \<Rightarrow> string \<Rightarrow> access_state \<Rightarrow> login_answer reply \<times> access_state" where
  "ui_login l e now r token st =
     (let key = auth_limit_key ''ui-login'' r in
      if \<not> same_origin r then (Inl (HTTPException 403 ''same-origin request required''), st)
      else let (lim1, out) = reject_if_auth_blocked now key (auth_limiter st); st1 = st\<lparr>auth_limiter := lim1\<rparr> in
      if out then (Inl blocked, st1)
      else case authenticate_token (store st) (strip token) of
          Raised_type_error \<Rightarrow> (Inl internal_error, st1)
        | Returned None \<Rightarrow>
            let (lim2, n) = record_failure now key lim1
            in (Inl (if n \<noteq> 0 then blocked else HTTPException 401 ''invalid token''), st\<lparr>auth_limiter := lim2\<rparr>)
        | Returned (Some p) \<Rightarrow>
            let st2 = st\<lparr>auth_limiter := clear_failures key lim1, secrets := register_secret (configured_secret e (store st)) (secrets st)\<rparr>; age = ui_session_max_age_seconds e in
            (case create_ui_session_cookie l e (store st) p age now of
               None \<Rightarrow> (Inl internal_error, st2)
             | Some c \<Rightarrow>
                 (Inr \<lparr>lo_principal = principal_id p,
                    lo_allowed = (if can_view_keys p then public_allowed_key_ids (store st) p else []),
                    lo_can_view = can_view_keys p, lo_cookie = c, lo_max_age = age, lo_secure = ui_cookie_secure e\<rparr>, st2)))"

text \<open>
  A request with a cookie, as the handlers of \<open>Access\<close> see it; a session that raises has no principal there. The
  secret of the signatures is registered for redaction at the login. A logout deletes the cookie in the browser and keeps nothing on the relay.
\<close>

definition with_cookie :: "ui_lib \<Rightarrow> ui_env \<Rightarrow> string \<Rightarrow> time \<Rightarrow> request \<Rightarrow> request" where
  "with_cookie l e cookie now r =
     r\<lparr>authorization := [], session := \<lambda>st. case authenticate_ui_session l e cookie now st of Some (Some p) \<Rightarrow> Some p | _ \<Rightarrow> None\<rparr>"

section \<open>Base64 round trip\<close>

lemma b64_digits:
  "list_all (\<lambda>n. b64_value (b64_digit n) = Some n \<and> b64_digit n \<noteq> CHR ''='' \<and> b64_digit n \<noteq> CHR ''.'' \<and> is_ascii [b64_digit n]) [0..63]"
  by code_simp

lemma b64_digit_facts:
  assumes "0 \<le> n" and "n < 64"
  shows "b64_value (b64_digit n) = Some n" and "b64_digit n \<noteq> CHR ''=''" and "b64_digit n \<noteq> CHR ''.''" and "is_ascii [b64_digit n]"
  using b64_digits assms by (auto simp: list_all_iff)

lemma a2b_digit:
  assumes "0 \<le> n" and "n < 64"
  shows "a2b (b64_digit n # cs) pos left pads out =
     (if pos = 0 then a2b cs 1 n 0 out
      else if pos = 1 then a2b cs 2 (n mod 16) 0 (out @ [char_of (left * 4 + n div 16)])
      else if pos = 2 then a2b cs 3 (n mod 4) 0 (out @ [char_of (left * 16 + n div 4)])
      else a2b cs 0 0 0 (out @ [char_of (left * 64 + n)]))"
  using b64_digit_facts [OF assms] by simp

lemma byte_range: "0 \<le> (of_char c :: int)" "(of_char c :: int) < 256"
  using of_char_mod_256 [of c, where 'a = int] pos_mod_bound [of 256 "of_char c :: int"] pos_mod_sign [of 256 "of_char c :: int"] by simp_all

lemma a2b_pad:
  "a2b (CHR ''='' # cs) pos left pads out =
     (if 2 \<le> pos then (if 4 \<le> pos + Suc pads then Some out else a2b cs pos left (Suc pads) out) else a2b cs pos left pads out)"
  by simp

lemma byte_bits:
  assumes "0 \<le> x" and "x < (256 :: int)"
  shows "0 \<le> x div 4" "x div 4 < 64" "0 \<le> x mod 4" "x mod 4 < 4" "0 \<le> x div 16" "x div 16 < 16" "0 \<le> x mod 16" "x mod 16 < 16"
    "0 \<le> x div 64" "x div 64 < 4" "0 \<le> x mod 64" "x mod 64 < 64"
  using assms by presburger+

lemma joined_bits:
  fixes u v m :: int
  assumes "0 \<le> v" and "v < m"
  shows "(u * m + v) div m = u" "(u * m + v) mod m = v"
  using assms by (simp_all add: div_pos_pos_trivial)

lemma two_pads: "replicate 2 c = [c, c]"
  by (simp add: numeral_2_eq_2)

lemma encode_length: "(4 - length (b64_encode (a # b # c # s)) mod 4) mod 4 = (4 - length (b64_encode s) mod 4) mod (4::nat)"
  by (simp add: Let_def)

text \<open>A group of digits is read as the bytes its bits make up.\<close>

lemma a2b_two:
  assumes "0 \<le> n" and "n < 64" and "0 \<le> m" and "m < 64"
  shows "a2b (b64_digit n # b64_digit m # cs) 0 left pads out = a2b cs 2 (m mod 16) 0 (out @ [char_of (n * 4 + m div 16)])"
  unfolding a2b_digit [OF assms(1,2)] a2b_digit [OF assms(3,4)] by simp

lemma a2b_third:
  assumes "0 \<le> n" and "n < 64"
  shows "a2b (b64_digit n # cs) 2 left pads out = a2b cs 3 (n mod 4) 0 (out @ [char_of (left * 16 + n div 4)])"
  unfolding a2b_digit [OF assms] by simp

lemma a2b_fourth:
  assumes "0 \<le> n" and "n < 64"
  shows "a2b (b64_digit n # cs) 3 left pads out = a2b cs 0 0 0 (out @ [char_of (left * 64 + n)])"
  unfolding a2b_digit [OF assms] by simp

lemma a2b_ends: "a2b ''=='' 2 left 0 out = Some out" "a2b ''='' 3 left 0 out = Some out"
  by simp_all

lemma a2b_encode:
  "a2b (b64_encode s @ replicate ((4 - length (b64_encode s) mod 4) mod 4) (CHR ''='')) 0 left pads out = Some (out @ s)"
proof (induction s arbitrary: left pads out rule: b64_encode.induct)
  case (2 a)
  define x where "x = (of_char a :: int)"
  have x: "0 \<le> x" "x < 256" "char_of x = a" using byte_range [of a] by (simp_all add: x_def)
  have r: "0 \<le> x div 4" "x div 4 < 64" "0 \<le> x mod 4 * 16" "x mod 4 * 16 < 64" using byte_bits [OF x(1,2)] by linarith+
  have e: "x div 4 * 4 + x mod 4 * 16 div 16 = x" by simp
  have "b64_encode [a] @ replicate ((4 - length (b64_encode [a]) mod 4) mod 4) (CHR ''='')
      = b64_digit (x div 4) # b64_digit (x mod 4 * 16) # ''==''" by (simp add: Let_def x_def two_pads)
  then show ?case by (simp only: a2b_two [OF r] e x(3) a2b_ends)
next
  case (3 a b)
  define x where "x = (of_char a :: int)"
  define y where "y = (of_char b :: int)"
  have x: "0 \<le> x" "x < 256" "char_of x = a" "0 \<le> y" "y < 256" "char_of y = b"
    using byte_range [of a] byte_range [of b] by (simp_all add: x_def y_def)
  note bx = byte_bits [OF x(1,2)] and bb = byte_bits [OF x(4,5)]
  have r: "0 \<le> x div 4" "x div 4 < 64" "0 \<le> x mod 4 * 16 + y div 16" "x mod 4 * 16 + y div 16 < 64"
    and r3: "0 \<le> y mod 16 * 4" "y mod 16 * 4 < 64"
    using bx bb by linarith+
  have e: "x div 4 * 4 + (x mod 4 * 16 + y div 16) div 16 = x" "(x mod 4 * 16 + y div 16) mod 16 * 16 + y mod 16 * 4 div 4 = y"
    by (simp_all only: joined_bits [OF bb(5,6)] div_mult_mod_eq) simp
  have "b64_encode [a, b] @ replicate ((4 - length (b64_encode [a, b]) mod 4) mod 4) (CHR ''='')
      = b64_digit (x div 4) # b64_digit (x mod 4 * 16 + y div 16) # b64_digit (y mod 16 * 4) # ''=''"
    by (simp add: Let_def x_def y_def)
  then show ?case by (simp only: a2b_two [OF r] a2b_third [OF r3] e x(3,6) a2b_ends) simp
next
  case (4 a b c s)
  define x where "x = (of_char a :: int)"
  define y where "y = (of_char b :: int)"
  define z where "z = (of_char c :: int)"
  have x: "0 \<le> x" "x < 256" "char_of x = a" "0 \<le> y" "y < 256" "char_of y = b" "0 \<le> z" "z < 256" "char_of z = c"
    using byte_range [of a] byte_range [of b] byte_range [of c] by (simp_all add: x_def y_def z_def)
  note bx = byte_bits [OF x(1,2)] and bb = byte_bits [OF x(4,5)] and bz = byte_bits [OF x(7,8)]
  have r: "0 \<le> x div 4" "x div 4 < 64" "0 \<le> x mod 4 * 16 + y div 16" "x mod 4 * 16 + y div 16 < 64"
    and r3: "0 \<le> y mod 16 * 4 + z div 64" "y mod 16 * 4 + z div 64 < 64" and r4: "0 \<le> z mod 64" "z mod 64 < 64"
    using bx bb bz by linarith+
  have e: "x div 4 * 4 + (x mod 4 * 16 + y div 16) div 16 = x"
    "(x mod 4 * 16 + y div 16) mod 16 * 16 + (y mod 16 * 4 + z div 64) div 4 = y"
    "(y mod 16 * 4 + z div 64) mod 4 * 64 + z mod 64 = z"
    by (simp_all only: joined_bits [OF bb(5,6)] joined_bits [OF bz(9,10)] div_mult_mod_eq)
  let ?pad = "replicate ((4 - length (b64_encode s) mod 4) mod 4) (CHR ''='')"
  have "b64_encode (a # b # c # s) @ replicate ((4 - length (b64_encode (a # b # c # s)) mod 4) mod 4) (CHR ''='')
      = b64_digit (x div 4) # b64_digit (x mod 4 * 16 + y div 16) # b64_digit (y mod 16 * 4 + z div 64) # b64_digit (z mod 64)
        # b64_encode s @ ?pad"
    unfolding encode_length by (simp add: Let_def x_def y_def z_def)
  then show ?case
    by (simp only: a2b_two [OF r] a2b_third [OF r3] a2b_fourth [OF r4] e x(3,6,9) "4.IH" [OF refl refl refl]) simp
qed simp

definition digit_char :: "char \<Rightarrow> bool" where
  "digit_char c \<longleftrightarrow> c \<noteq> CHR ''.'' \<and> is_ascii [c]"

lemma digit_char: "0 \<le> n \<Longrightarrow> n < 64 \<Longrightarrow> digit_char (b64_digit n)"
  using b64_digit_facts by (simp add: digit_char_def)

lemma encode_chars: "list_all digit_char (b64_encode s)"
proof (induction s rule: b64_encode.induct)
  case (2 a)
  define x where "x = (of_char a :: int)"
  have x: "0 \<le> x" "x < 256" using byte_range [of a] by (simp_all add: x_def)
  have r: "0 \<le> x div 4" "x div 4 < 64" "0 \<le> x mod 4 * 16" "x mod 4 * 16 < 64" using byte_bits [OF x] by linarith+
  show ?case by (simp add: Let_def x_def [symmetric] digit_char [OF r(1,2)] digit_char [OF r(3,4)])
next
  case (3 a b)
  define x where "x = (of_char a :: int)"
  define y where "y = (of_char b :: int)"
  have x: "0 \<le> x" "x < 256" "0 \<le> y" "y < 256" using byte_range [of a] byte_range [of b] by (simp_all add: x_def y_def)
  have r: "0 \<le> x div 4" "x div 4 < 64" "0 \<le> x mod 4 * 16 + y div 16" "x mod 4 * 16 + y div 16 < 64"
    "0 \<le> y mod 16 * 4" "y mod 16 * 4 < 64"
    using byte_bits [OF x(1,2)] byte_bits [OF x(3,4)] by linarith+
  show ?case
    by (simp add: Let_def x_def [symmetric] y_def [symmetric] digit_char [OF r(1,2)] digit_char [OF r(3,4)] digit_char [OF r(5,6)])
next
  case (4 a b c s)
  define x where "x = (of_char a :: int)"
  define y where "y = (of_char b :: int)"
  define z where "z = (of_char c :: int)"
  have x: "0 \<le> x" "x < 256" "0 \<le> y" "y < 256" "0 \<le> z" "z < 256"
    using byte_range [of a] byte_range [of b] byte_range [of c] by (simp_all add: x_def y_def z_def)
  have r: "0 \<le> x div 4" "x div 4 < 64" "0 \<le> x mod 4 * 16 + y div 16" "x mod 4 * 16 + y div 16 < 64"
    "0 \<le> y mod 16 * 4 + z div 64" "y mod 16 * 4 + z div 64 < 64" "0 \<le> z mod 64" "z mod 64 < 64"
    using byte_bits [OF x(1,2)] byte_bits [OF x(3,4)] byte_bits [OF x(5,6)] by linarith+
  show ?case using "4.IH" [of x y z]
    by (simp add: Let_def x_def [symmetric] y_def [symmetric] z_def [symmetric] digit_char [OF r(1,2)] digit_char [OF r(3,4)]
        digit_char [OF r(5,6)] digit_char [OF r(7,8)])
qed simp

lemma encode_ascii: "is_ascii (b64_encode s)"
  using encode_chars [of s] by (auto simp: is_ascii_def list_all_iff digit_char_def)

lemma encode_no_dot: "CHR ''.'' \<notin> set (b64_encode s)"
  using encode_chars [of s] by (auto simp: list_all_iff digit_char_def)

lemma b64_round_trip: "b64_decode (b64_encode s) = Some s"
  using a2b_encode [of s] by (simp add: b64_decode_def encode_ascii)

section \<open>Reading a cookie\<close>

lemma rsplit_dot_join: "CHR ''.'' \<notin> set b \<Longrightarrow> rsplit_dot (a @ ''.'' @ b) = (a, b)"
proof -
  assume b: "CHR ''.'' \<notin> set b"
  then have "takeWhile (\<lambda>c. c \<noteq> CHR ''.'') (rev b @ CHR ''.'' # rev a) = rev b"
    "dropWhile (\<lambda>c. c \<noteq> CHR ''.'') (rev b @ CHR ''.'' # rev a) = CHR ''.'' # rev a"
    by (auto simp: takeWhile_append dropWhile_append)
  then show ?thesis by (simp add: rsplit_dot_def)
qed

lemma rsplit_dot_parts:
  assumes "CHR ''.'' \<in> set s" and "rsplit_dot s = (a, b)"
  shows "s = a @ ''.'' @ b"
proof -
  have "rev s = takeWhile (\<lambda>c. c \<noteq> CHR ''.'') (rev s) @ dropWhile (\<lambda>c. c \<noteq> CHR ''.'') (rev s)" by simp
  moreover have "dropWhile (\<lambda>c. c \<noteq> CHR ''.'') (rev s) \<noteq> []" using assms(1) by (auto simp: dropWhile_eq_Nil_conv)
  moreover from this have "hd (dropWhile (\<lambda>c. c \<noteq> CHR ''.'') (rev s)) = CHR ''.''"
    using hd_dropWhile [of "\<lambda>c. c \<noteq> CHR ''.''" "rev s"] by simp
  ultimately have "rev s = rev b @ CHR ''.'' # rev a"
    using assms(2) by (metis fst_conv list.collapse rev_rev_ident rsplit_dot_def snd_conv)
  then have "rev (rev s) = rev (rev b @ CHR ''.'' # rev a)" by (simp only:)
  then show ?thesis by simp
qed

lemma principal_in_ascii:
  assumes "is_ascii pid" and "\<forall>(t, p) \<in> set ts. is_ascii (principal_id p)"
  shows "principal_in ts pid = Some (map_option snd (find (\<lambda>t. principal_id (snd t) = pid) ts))"
  using assms(2) by (induction ts) (auto simp: compare_digest_def assms(1))

lemma principal_in_member: "principal_in ts pid = Some (Some p) \<Longrightarrow> p \<in> snd ` set ts \<and> principal_id p = pid"
  by (induction ts pid rule: principal_in.induct) (auto simp: compare_digest_def split: option.splits bool.splits if_splits)

lemma session_age: "0 < ui_session_max_age_seconds e"
  by (auto simp: ui_session_max_age_seconds_def default_max_age_def Let_def split: option.splits)

definition ascii_ids :: "auth_store \<Rightarrow> bool" where
  "ascii_ids st \<longleftrightarrow> (\<forall>(t, p) \<in> set (tokens st). is_ascii (principal_id p))"

text \<open>The JSON library reads back the document of a session.\<close>

definition reads_payload :: "ui_lib \<Rightarrow> string \<Rightarrow> int \<Rightarrow> int \<Rightarrow> bool" where
  "reads_payload l pid issued age \<longleftrightarrow>
     lib_loads l (lib_dumps l (session_payload pid issued age)) = Some (session_payload pid issued age)"

lemma read_own_payload:
  assumes "0 < issued"
  shows "read_payload l st now (session_payload pid issued age)
    = (if issued + age \<le> \<lfloor>now\<rfloor> then Some None else principal_by_id st pid)"
  using assms by (simp add: read_payload_def session_payload_def py_int_def)

lemma cookie_read:
  assumes "create_ui_session_cookie l e st p age now = Some cookie" and "age \<noteq> 0" and "0 < \<lfloor>now\<rfloor>"
    and "reads_payload l (principal_id p) \<lfloor>now\<rfloor> age"
    and "session_secret (lib_sha256 l) e st' = session_secret (lib_sha256 l) e st"
  shows "authenticate_ui_session l e cookie later st'
    = (if \<lfloor>now\<rfloor> + age \<le> \<lfloor>later\<rfloor> then Some None else principal_by_id st' (principal_id p))"
proof -
  let ?p = "b64_encode (lib_dumps l (session_payload (principal_id p) \<lfloor>now\<rfloor> age))"
  from assms(1,2) obtain k where k: "session_secret (lib_sha256 l) e st = Some k"
    and c: "cookie = ?p @ ''.'' @ b64_encode (lib_hmac l k ?p)"
    by (auto simp: create_ui_session_cookie_def sign_def encode_ascii Let_def split: option.splits)
  have "rsplit_dot cookie = (?p, b64_encode (lib_hmac l k ?p))" unfolding c by (rule rsplit_dot_join) (rule encode_no_dot)
  moreover have "sign l e st' ?p = Some (b64_encode (lib_hmac l k ?p))"
    using assms(5) k by (simp add: sign_def encode_ascii)
  moreover have "CHR ''.'' \<in> set cookie" by (simp add: c)
  ultimately show ?thesis
    using assms(4) by (simp add: authenticate_ui_session_def compare_digest_def encode_ascii b64_round_trip reads_payload_def
        read_own_payload [OF assms(3)])
qed

text \<open>
  C25: A session cookie stands for whoever has its principal's id in the store of the moment, until its age has
  passed and not longer: nobody if the id is gone, and with the rights the id has then.
\<close>

theorem session_round_trip:
  assumes "create_ui_session_cookie l e st p age now = Some cookie" and "age \<noteq> 0" and "0 < \<lfloor>now\<rfloor>"
    and "reads_payload l (principal_id p) \<lfloor>now\<rfloor> age"
    and "session_secret (lib_sha256 l) e st' = session_secret (lib_sha256 l) e st"
    and "ascii_ids st'" and "is_ascii (principal_id p)" and "strip (principal_id p) = principal_id p" and "principal_id p \<noteq> []"
  shows "authenticate_ui_session l e cookie later st'
    = Some (if \<lfloor>now\<rfloor> + age \<le> \<lfloor>later\<rfloor> then None
            else map_option snd (find (\<lambda>t. principal_id (snd t) = principal_id p) (tokens st')))"
  using cookie_read [OF assms(1-5)] assms(6-9) principal_in_ascii by (simp add: principal_by_id_def ascii_ids_def)


text \<open>
  A principal whose id is not ASCII ends the sessions of everyone listed after it: as soon as a session has
  to look past it, the request fails with an exception, whatever the session is.
\<close>

theorem non_ascii_id_breaks_sessions:
  assumes "tokens st = xs @ (t, q) # ys" and "\<not> is_ascii (principal_id q)" and "strip pid \<noteq> []"
    and "\<forall>(t, p) \<in> set xs. principal_id p \<noteq> strip pid"
  shows "principal_by_id st pid = None"
proof -
  have "principal_in (xs @ (t, q) # ys) (strip pid) = None"
    using assms(4) by (induction xs) (auto simp: compare_digest_def assms(2))
  with assms(1,3) show ?thesis by (simp add: principal_by_id_def)
qed

section \<open>From the login to the requests\<close>

lemma login_parts:
  assumes "ui_login l e now r tok st = (Inr a, st')"
  shows "\<exists>p. authenticate_token (store st) (strip tok) = Returned (Some p) \<and> lo_principal a = principal_id p
    \<and> lo_max_age a = ui_session_max_age_seconds e \<and> store st' = store st
    \<and> create_ui_session_cookie l e (store st) p (lo_max_age a) now = Some (lo_cookie a)"
  using assms
  by (auto simp: ui_login_def Let_def split: if_splits prod.splits outcome.splits option.splits)

lemma find_principal:
  assumes "distinct (map (principal_id \<circ> snd) ts)" and "(t, p) \<in> set ts"
  shows "map_option snd (find (\<lambda>t. principal_id (snd t) = principal_id p) ts) = Some p"
  using assms by (induction ts) (auto simp: image_iff)

lemma authenticated_in: "authenticate_in ts token = Returned (Some p) \<Longrightarrow> \<exists>t. (t, p) \<in> set ts"
  by (induction ts token rule: authenticate_in.induct) (auto split: option.splits bool.splits)

text \<open>
  Who has logged in with a token is that token's principal in every later request with the cookie, until the
  session ends and as long as the configuration stays; a request that changes something must come from the page
  itself.
\<close>

theorem login_opens_session:
  assumes "ui_login l e now r tok st = (Inr a, st')" and "wf_store (store st)" and "ascii_ids (store st)" and "1 \<le> now"
    and "reads_payload l (lo_principal a) \<lfloor>now\<rfloor> (lo_max_age a)" and "\<lfloor>later\<rfloor> < \<lfloor>now\<rfloor> + lo_max_age a"
    and "unsafe_method r' \<Longrightarrow> same_origin r'"
  shows "\<exists>p. authenticate_token (store st) (strip tok) = Returned (Some p)
    \<and> require_auth later (with_cookie l e (lo_cookie a) later r') st' = (Inr p, st')"
proof -
  from login_parts [OF assms(1)] obtain p where p: "authenticate_token (store st) (strip tok) = Returned (Some p)"
    "lo_principal a = principal_id p" "lo_max_age a = ui_session_max_age_seconds e" "store st' = store st"
    "create_ui_session_cookie l e (store st) p (lo_max_age a) now = Some (lo_cookie a)" by blast
  from p(1) obtain t where t: "(t, p) \<in> set (tokens (store st))"
    using authenticated_in by (fastforce simp: authenticate_token_def split: if_splits)
  with assms(2,3) have ids: "principal_id p \<noteq> []" "strip (principal_id p) = principal_id p" "is_ascii (principal_id p)"
    by (auto simp: wf_store_def ascii_ids_def)
  have "lo_max_age a \<noteq> 0" "0 < \<lfloor>now\<rfloor>" using session_age [of e] p(3) assms(4) by linarith+
  from cookie_read [OF p(5) this, of "store st"] assms(5,6) p(2)
  have "authenticate_ui_session l e (lo_cookie a) later (store st) = principal_by_id (store st) (principal_id p)" by simp
  also have "\<dots> = Some (Some p)"
    using principal_in_ascii [OF ids(3)] find_principal [OF _ t] ids assms(2,3) by (simp add: principal_by_id_def ascii_ids_def wf_store_def)
  finally show ?thesis
    using p(1,4) assms(7) by (auto simp: require_auth_def with_cookie_def bearer_token_def)
qed

section \<open>Witnesses\<close>

definition sample_ui_env :: ui_env where
  "sample_ui_env = \<lparr>env_max_age = ''600'', env_secure = [], env_secret = [], ui_admin_token = [], ui_api_token = [],
     ui_origin = ''https://relay''\<rparr>"

definition sample_lib :: ui_lib where
  "sample_lib = \<lparr>lib_sha256 = (\<lambda>s. s), lib_hmac = (\<lambda>k s. k @ s), lib_dumps = (\<lambda>_. ''P''),
     lib_loads = (\<lambda>s. if s = ''P'' then Some (session_payload ''alice'' 100 600) else None), lib_str = (\<lambda>_. [])\<rparr>"

definition sample_cookie :: string where
  "sample_cookie = the (create_ui_session_cookie sample_lib sample_ui_env sample_store (snd (hd (tokens sample_store))) 600 100)"

lemma sample_cookie_made:
  "create_ui_session_cookie sample_lib sample_ui_env sample_store (snd (hd (tokens sample_store))) 600 100 = Some sample_cookie"
  by code_simp

lemma session_round_trip_witness:
  "authenticate_ui_session sample_lib sample_ui_env sample_cookie 699 sample_store = Some (Some (snd (hd (tokens sample_store))))
   \<and> authenticate_ui_session sample_lib sample_ui_env sample_cookie 700 sample_store = Some None"
proof -
  have f: "ascii_ids sample_store" "reads_payload sample_lib (principal_id (snd (hd (tokens sample_store)))) \<lfloor>100 :: rat\<rfloor> 600"
    "is_ascii (principal_id (snd (hd (tokens sample_store))))"
    "strip (principal_id (snd (hd (tokens sample_store)))) = principal_id (snd (hd (tokens sample_store)))"
    "principal_id (snd (hd (tokens sample_store))) \<noteq> []"
    "map_option snd (find (\<lambda>t. principal_id (snd t) = principal_id (snd (hd (tokens sample_store)))) (tokens sample_store))
      = Some (snd (hd (tokens sample_store)))" by code_simp+
  have z: "(600 :: int) \<noteq> 0" "0 < \<lfloor>100 :: rat\<rfloor>" by simp_all
  note r = session_round_trip [OF sample_cookie_made z f(2) refl f(1,3,4,5)]
  show ?thesis using r [of 699] r [of 700] by (simp add: f(6))
qed


definition renamed_store :: auth_store where
  "renamed_store = sample_store\<lparr>tokens := [(''tok'', (snd (hd (tokens sample_store)))\<lparr>principal_id := [CHR 0xC3, CHR 0xA9]\<rparr>),
     (''kot'', snd (last (tokens sample_store)))]\<rparr>"

lemma non_ascii_id_breaks_sessions_witness: "principal_by_id renamed_store ''bob'' = None"
proof (rule non_ascii_id_breaks_sessions)
  show "tokens renamed_store = [] @ (''tok'', (snd (hd (tokens sample_store)))\<lparr>principal_id := [CHR 0xC3, CHR 0xA9]\<rparr>)
      # [(''kot'', snd (last (tokens sample_store)))]" by (simp add: renamed_store_def)
  show "\<not> is_ascii (principal_id ((snd (hd (tokens sample_store)))\<lparr>principal_id := [CHR 0xC3, CHR 0xA9]\<rparr>))" by code_simp
  show "strip ''bob'' \<noteq> []" by code_simp
qed simp

lemma login_opens_session_witness:
  "\<exists>a st' p. ui_login sample_lib sample_ui_env 100 sample_request '' tok '' sample_access = (Inr a, st')
     \<and> require_auth 699 (with_cookie sample_lib sample_ui_env (lo_cookie a) 699 sample_request) st' = (Inr p, st')"
proof -
  let ?r = "ui_login sample_lib sample_ui_env 100 sample_request '' tok '' sample_access"
  have "map_sum id (\<lambda>a. (lo_principal a, lo_max_age a)) (fst ?r) = Inr (''alice'', 600)" by code_simp
  then obtain a st' where a: "?r = (Inr a, st')" "lo_principal a = ''alice''" "lo_max_age a = 600"
    by (cases ?r; cases "fst ?r") auto
  have f: "ascii_ids (store sample_access)" "reads_payload sample_lib ''alice'' \<lfloor>100 :: rat\<rfloor> 600" by code_simp+
  have "store sample_access = sample_store" by code_simp
  then have "wf_store (store sample_access)" using loaded_config_sound_aux [OF sample_config_loads] by simp
  from login_opens_session [OF a(1) this f(1), of 699 sample_request] f(2) a show ?thesis
    by (auto simp: sample_request_def)
qed
end
