(* ===== verification/Service_Loop.thy ===== *)
theory Service_Loop
  imports Pipeline Worker_Queue Ui_Session
begin

text \<open>
  The loops of the service around the threads (\<^verbatim>\<open>app/main.py\<close>): how a task waits for a thread while it may be
  cancelled, what a worker makes of the way its action ended, how the parts of an upload are awaited, and the
  pages. The action of a thread is that of \<^verbatim>\<open>Pipeline\<close> and \<^verbatim>\<open>Worker_Task\<close>; an interruption is the exception
  that the remote client raises once the service shuts down.
\<close>

section \<open>Waiting for a thread\<close>

text \<open>\<^verbatim>\<open>run_thread_to_completion\<close>: cancellations are remembered, the thread is never abandoned.\<close>

datatype await_event = Cancel_request | Thread_done

text \<open>Whether the task was cancelled while it waited; \<^const>\<open>None\<close> when it is still waiting.\<close>

fun await_thread :: "bool \<Rightarrow> await_event list \<Rightarrow> bool option" where
  "await_thread was_cancelled [] = None"
| "await_thread was_cancelled (Cancel_request # es) = await_thread True es"
| "await_thread was_cancelled (Thread_done # es) = Some was_cancelled"

lemma await_thread_iff:
  "await_thread b es = Some c \<longleftrightarrow> Thread_done \<in> set es \<and> c = (b \<or> takeWhile (\<lambda>e. e \<noteq> Thread_done) es \<noteq> [])"
  by (induction b es rule: await_thread.induct) auto

section \<open>An item of the queue\<close>

text \<open>The other actions catch what is raised in them.\<close>

definition run_action :: "world \<Rightarrow> auth_store option \<Rightarrow> work \<Rightarrow> run \<Rightarrow> (exc + unit) \<times> run" where
  "run_action w auth item s =
     (case work_action item of
        Resume_kernel f \<Rightarrow> resume_kernel_job w auth (work_job item) f s
      | Recheck_dataset \<Rightarrow> (Inr (), snd (recheck_dataset_job w auth (work_job item) s))
      | Process \<Rightarrow> (Inr (), snd (process_job w auth (work_job item) False s)))"

definition worker_error_of :: "exc \<Rightarrow> worker_error" where
  "worker_error_of e = (case e of Status_unavailable t \<Rightarrow> Kernel_status_unavailable t | _ \<Rightarrow> Other_error (exc_text e))"

definition mark_raised :: "world \<Rightarrow> string \<Rightarrow> exc \<Rightarrow> run \<Rightarrow> run" where
  "mark_raised w jid e s =
     s\<lparr>run_db := mark_worker_exception (w_dumps w) (w_known w) (w_at w (moment s)) jid (worker_error_of e) (run_db s)\<rparr>"

datatype item_end = Item_done | Item_cancelled | Item_raised exc

text \<open>\<^verbatim>\<open>run_worker_item\<close>.\<close>

definition run_worker_item :: "world \<Rightarrow> auth_store option \<Rightarrow> work \<Rightarrow> await_event list \<Rightarrow> run \<Rightarrow> (item_end \<times> run) option" where
  "run_worker_item w auth item es s =
     (case run_action w auth item s of (r, s') \<Rightarrow>
        map_option (\<lambda>was_cancelled.
          case r of
            Inr _ \<Rightarrow> (if was_cancelled then Item_cancelled else Item_done, s')
          | Inl e \<Rightarrow>
              if \<not> was_cancelled then (Item_raised e, s')
              else (Item_cancelled, case e of Interrupted_exc _ \<Rightarrow> s' | _ \<Rightarrow> mark_raised w (work_job item) e s'))
          (await_thread False es))"

text \<open>The handler of \<^verbatim>\<open>worker_loop\<close> around it; \<^const>\<open>False\<close> says that the worker ends.\<close>

definition work_on :: "world \<Rightarrow> auth_store option \<Rightarrow> work \<Rightarrow> await_event list \<Rightarrow> run \<Rightarrow> (bool \<times> run) option" where
  "work_on w auth item es s =
     map_option (\<lambda>(e, s'). case e of
         Item_done \<Rightarrow> (True, s')
       | Item_cancelled \<Rightarrow> (False, s')
       | Item_raised x \<Rightarrow> (True, mark_raised w (work_job item) x s'))
       (run_worker_item w auth item es s)"

section \<open>The body of an upload\<close>

text \<open>The parts with the time until each of them; the first that is late ends the body.\<close>

fun upload_body :: "rat \<Rightarrow> (rat \<times> 'a) list \<Rightarrow> 'a list \<times> http_error option" where
  "upload_body patience [] = ([], None)"
| "upload_body patience ((wait, p) # ps) =
     (if patience \<le> wait then ([], Some (HTTPException 408 ''upload body timed out; retry this chunk''))
      else apfst ((#) p) (upload_body patience ps))"

lemma upload_body_result:
  "upload_body patience ps = (map snd (takeWhile (\<lambda>p. fst p < patience) ps),
     if \<forall>p \<in> set ps. fst p < patience then None else Some (HTTPException 408 ''upload body timed out; retry this chunk''))"
  by (induction patience ps rule: upload_body.induct) auto

section \<open>Pages\<close>

datatype page_answer = Redirect_to string int | Page_file string

definition ui_response :: "ui_lib \<Rightarrow> ui_env \<Rightarrow> string \<Rightarrow> time \<Rightarrow> auth_store \<Rightarrow> page_answer reply" where
  "ui_response l e cookie now st =
     (case authenticate_ui_session l e cookie now st of
        None \<Rightarrow> Inl internal_error
      | Some None \<Rightarrow> Inr (Redirect_to ''/login'' 303)
      | Some (Some _) \<Rightarrow> Inr (Page_file ''index.html''))"

section \<open>A shutdown and a resumed run\<close>

lemma mark_other_result:
  assumes "get_job db jid = Some j" and "\<not> terminal (status j)"
  shows "\<exists>r. get_job (mark_worker_exception dumps known now jid (Other_error m) db) jid = Some r \<and> status r = finalize_status Failed j"
proof -
  let ?m = "redact_secrets known m"
  let ?db = "append_log db now jid (''worker action failed: '' @ ?m)"
  obtain db' st where f: "finalize_job dumps ?db now jid Failed [Set_progress 0, Set_error ?m] = Inr (db', st)"
    using finalize_ok_iff [of dumps ?db now jid Failed "[Set_progress 0, Set_error ?m]"]
    by (auto simp: terminal_def)
  have "mark_worker_exception dumps known now jid (Other_error m) db = db'"
    using assms f by (simp add: mark_worker_exception_def Let_def)
  with get_finalize [OF f, of jid] assms show ?thesis by (simp add: finalized_def)
qed

text \<open>
  C40: An interruption by the shutdown leaves a resumed run alone only when the worker has been cancelled by then:
  its job keeps its row and is resumed after the restart. But the shutdown first tells the threads to stop and cancels
  the workers later, after the scheduler has ended. A thread that follows a resumed run and stops in between raises
  into a worker that was not cancelled, which records the job as failed (or canceled), though its run goes on remotely
  and a restart would have resumed it.
\<close>

theorem interrupted_resume_ends_failed:
  assumes "work_action item = Resume_kernel f"
    and "resume_kernel_job w auth (work_job item) f s = (Inl (Interrupted_exc m), s')"
    and "get_job (run_db s') (work_job item) = Some j" and "\<not> terminal (status j)"
  shows "work_on w auth item [Cancel_request, Thread_done] s = Some (False, s')
    \<and> (\<exists>s'' r. work_on w auth item [Thread_done] s = Some (True, s'') \<and> get_job (run_db s'') (work_job item) = Some r
        \<and> status r = finalize_status Failed j \<and> terminal (status r))"
proof -
  have a: "run_action w auth item s = (Inl (Interrupted_exc m), s')" using assms(1,2) by (simp add: run_action_def)
  from mark_other_result [OF assms(3,4)] obtain r where r:
    "get_job (mark_worker_exception (w_dumps w) (w_known w) (w_at w (moment s')) (work_job item) (Other_error m) (run_db s')) (work_job item) = Some r"
    "status r = finalize_status Failed j" by blast
  have "terminal (status r)" using r(2) by (simp add: finalize_status_def terminal_def)
  with a r show ?thesis by (simp add: work_on_def run_worker_item_def mark_raised_def worker_error_of_def)
qed

text \<open>A run that was resumed, and the shutdown reaches the thread that watches it.\<close>

definition stopping_world :: world where
  "stopping_world = ready_world\<lparr>w_watched := Inl (Interrupted_exc ''stop'')\<rparr>"

definition watching_run :: run where
  "watching_run = queued_run\<lparr>run_db := sample_db [sample_job\<lparr>status := Waiting_kernel\<rparr>]\<rparr>"

definition resumed_item :: work where
  "resumed_item = \<lparr>work_action = Resume_kernel None, work_job = ''j''\<rparr>"

lemma resumed_interrupted:
  "apsnd (\<lambda>s. map_option status (get_job (run_db s) ''j'')) (resume_kernel_job stopping_world None ''j'' None watching_run)
     = (Inl (Interrupted_exc ''stop''), Some Waiting_kernel)"
  by code_simp

lemma interrupted_resume_ends_failed_witness:
  "\<exists>s r. work_on stopping_world None resumed_item [Thread_done] watching_run = Some (True, s)
     \<and> get_job (run_db s) ''j'' = Some r \<and> terminal (status r)"
proof -
  obtain s' where s: "resume_kernel_job stopping_world None ''j'' None watching_run = (Inl (Interrupted_exc ''stop''), s')"
    "map_option status (get_job (run_db s') ''j'') = Some Waiting_kernel"
    using resumed_interrupted by (cases "resume_kernel_job stopping_world None ''j'' None watching_run") auto
  then obtain j where j: "get_job (run_db s') ''j'' = Some j" "status j = Waiting_kernel" by auto
  have "work_action resumed_item = Resume_kernel None" "work_job resumed_item = ''j''" by (simp_all add: resumed_item_def)
  with interrupted_resume_ends_failed [of resumed_item None stopping_world None watching_run "''stop''" s' j] s(1) j
  show ?thesis by auto
qed

end
