(* ===== verification/Quota_Cache.thy ===== *)
theory Quota_Cache
  imports Submission_Lock
begin

text \<open>
  The cache of quota lookups (\<^verbatim>\<open>app/quota_cache.py\<close>). A request for a key shares a lookup of that key that
  is still running, or one that succeeded and was started within the time to live; otherwise it starts a
  new one. The body of \<^verbatim>\<open>submit\<close> runs under a lock, so it is one step; a lookup ends in a step of its own,
  by an answer or by an exception. A future is its place in the list of those made, with what is asked for
  and, once it is done, its result.
\<close>

section \<open>State and operation\<close>

record ('k, 'r) future =
  asked_key :: 'k
  started_at :: time
  result :: "(string + 'r) option"

record ('k, 'r) quota_cache =
  ttl_seconds :: time
  lookups :: "('k \<times> time \<times> nat) list"
  futures :: "('k, 'r) future list"

definition new_quota_cache :: "time \<Rightarrow> ('k, 'r) quota_cache" where
  "new_quota_cache ttl = \<lparr>ttl_seconds = ttl, lookups = [], futures = []\<rparr>"

definition is_done :: "('k, 'r) quota_cache \<Rightarrow> nat \<Rightarrow> bool" where
  "is_done c i \<longleftrightarrow> result (futures c ! i) \<noteq> None"

definition succeeded :: "('k, 'r) quota_cache \<Rightarrow> nat \<Rightarrow> bool" where
  "succeeded c i \<longleftrightarrow> (case result (futures c ! i) of Some (Inr _) \<Rightarrow> True | _ \<Rightarrow> False)"

definition shared :: "('k, 'r) quota_cache \<Rightarrow> time \<Rightarrow> time \<times> nat \<Rightarrow> bool" where
  "shared c now e \<longleftrightarrow> \<not> is_done c (snd e) \<or> now - fst e < ttl_seconds c \<and> succeeded c (snd e)"

definition kept_lookups :: "('k, 'r) quota_cache \<Rightarrow> time \<Rightarrow> ('k \<times> time \<times> nat) list" where
  "kept_lookups c now =
     filter (\<lambda>(k, started, i). \<not> is_done c i \<or> now - started < ttl_seconds c) (lookups c)"

definition start_lookup :: "'k \<Rightarrow> time \<Rightarrow> ('k, 'r) quota_cache \<Rightarrow> ('k, 'r) quota_cache \<times> nat" where
  "start_lookup k now c =
     (let i = length (futures c)
      in (c\<lparr>lookups := AList.update k (now, i) (kept_lookups c now),
            futures := futures c @ [\<lparr>asked_key = k, started_at = now, result = None\<rparr>]\<rparr>, i))"

definition submit :: "'k \<Rightarrow> time \<Rightarrow> ('k, 'r) quota_cache \<Rightarrow> ('k, 'r) quota_cache \<times> nat" where
  "submit k now c =
     (case map_of (lookups c) k of
        Some e \<Rightarrow> if shared c now e then (c, snd e) else start_lookup k now c
      | None \<Rightarrow> start_lookup k now c)"

text \<open>The executor finishes a lookup.\<close>

definition finish_lookup :: "nat \<Rightarrow> string + 'r \<Rightarrow> ('k, 'r) quota_cache \<Rightarrow> ('k, 'r) quota_cache" where
  "finish_lookup i r c = c\<lparr>futures := (futures c)[i := (futures c ! i)\<lparr>result := Some r\<rparr>]\<rparr>"

section \<open>Steps\<close>

text \<open>The state with the monotonic clock.\<close>

inductive cache_step :: "time \<times> ('k, 'r) quota_cache \<Rightarrow> time \<times> ('k, 'r) quota_cache \<Rightarrow> bool" where
  Submit: "now \<le> now' \<Longrightarrow> cache_step (now, c) (now', fst (submit k now' c))"
| Finish: "now \<le> now' \<Longrightarrow> i < length (futures c) \<Longrightarrow> \<not> is_done c i \<Longrightarrow>
    cache_step (now, c) (now', finish_lookup i r c)"

inductive_cases cache_stepE: "cache_step s t"

text \<open>
  Every entry is the lookup it claims to be; every unfinished lookup is the entry of its key; and no entry
  was started later than now.
\<close>

definition cache_inv :: "time \<times> ('k, 'r) quota_cache \<Rightarrow> bool" where
  "cache_inv s \<longleftrightarrow>
     (let c = snd s in
      distinct (map fst (lookups c))
      \<and> (\<forall>(k, started, i) \<in> set (lookups c). i < length (futures c) \<and> asked_key (futures c ! i) = k
           \<and> started_at (futures c ! i) = started \<and> started \<le> fst s)
      \<and> (\<forall>i < length (futures c). \<not> is_done c i \<longrightarrow>
           map_of (lookups c) (asked_key (futures c ! i)) = Some (started_at (futures c ! i), i)))"

lemma cache_invI:
  assumes "distinct (map fst (lookups c))"
    and "\<And>k started i. (k, started, i) \<in> set (lookups c) \<Longrightarrow> i < length (futures c) \<and> asked_key (futures c ! i) = k
      \<and> started_at (futures c ! i) = started \<and> started \<le> now"
    and "\<And>i. i < length (futures c) \<Longrightarrow> \<not> is_done c i \<Longrightarrow>
      map_of (lookups c) (asked_key (futures c ! i)) = Some (started_at (futures c ! i), i)"
  shows "cache_inv (now, c)"
  using assms by (fastforce simp: cache_inv_def)

lemma cache_invD:
  assumes "cache_inv (now, c)"
  shows "distinct (map fst (lookups c))"
    and "map_of (lookups c) k = Some (started, i) \<Longrightarrow> i < length (futures c) \<and> asked_key (futures c ! i) = k
      \<and> started_at (futures c ! i) = started \<and> started \<le> now"
    and "i < length (futures c) \<Longrightarrow> \<not> is_done c i \<Longrightarrow>
      map_of (lookups c) (asked_key (futures c ! i)) = Some (started_at (futures c ! i), i)"
  using assms by (auto simp: cache_inv_def dest!: map_of_SomeD)

lemma submit_cases:
  obtains (Shared) e where "map_of (lookups c) k = Some e" and "shared c now e" and "submit k now c = (c, snd e)"
  | (New) "submit k now c = start_lookup k now c" and "\<And>e. map_of (lookups c) k = Some e \<Longrightarrow> \<not> shared c now e"
  by (cases "map_of (lookups c) k") (auto simp: submit_def split: if_splits)

lemma kept_pending:
  assumes "cache_inv (now, c)" and "i < length (futures c)" and "\<not> is_done c i"
  shows "map_of (kept_lookups c now') (asked_key (futures c ! i)) = Some (started_at (futures c ! i), i)"
proof (rule map_of_is_SomeI)
  show "distinct (map fst (kept_lookups c now'))"
    unfolding kept_lookups_def by (intro distinct_map_filter cache_invD(1) [OF assms(1)])
  show "(asked_key (futures c ! i), started_at (futures c ! i), i) \<in> set (kept_lookups c now')"
    using map_of_SomeD [OF cache_invD(3) [OF assms]] assms(3) by (simp add: kept_lookups_def)
qed

lemma cache_inv_start:
  assumes inv: "cache_inv (now, c)" and "now \<le> now'"
    and stale: "\<And>e. map_of (lookups c) k = Some e \<Longrightarrow> \<not> shared c now' e"
  shows "cache_inv (now', fst (start_lookup k now' c))"
proof -
  let ?n = "length (futures c)" and ?kept = "kept_lookups c now'"
  let ?fs = "futures c @ [\<lparr>asked_key = k, started_at = now', result = None\<rparr>]"
  define d where "d = fst (start_lookup k now' c)"
  have d: "lookups d = AList.update k (now', ?n) ?kept" "futures d = ?fs"
    by (simp_all add: d_def start_lookup_def Let_def)
  have dn: "is_done d i \<longleftrightarrow> is_done c i" if "i < ?n" for i
    using that by (simp add: is_done_def d nth_append)
  have kept: "distinct (map fst ?kept)"
    unfolding kept_lookups_def by (intro distinct_map_filter cache_invD(1) [OF inv])
  have "cache_inv (now', d)"
  proof (rule cache_invI)
    show dist: "distinct (map fst (lookups d))" unfolding d by (rule distinct_update [OF kept])
    show "i < length (futures d) \<and> asked_key (futures d ! i) = x \<and> started_at (futures d ! i) = started \<and> started \<le> now'"
      if "(x, started, i) \<in> set (lookups d)" for x started i
    proof (cases "x = k")
      case True
      then show ?thesis using map_of_is_SomeI [OF dist that] by (auto simp: d update_conv' nth_append)
    next
      case False
      then have "map_of ?kept x = Some (started, i)" using map_of_is_SomeI [OF dist that] by (simp add: d update_conv')
      then have "(x, started, i) \<in> set (lookups c)" by (auto dest!: map_of_SomeD simp: kept_lookups_def)
      from cache_invD(2) [OF inv map_of_is_SomeI [OF cache_invD(1) [OF inv] this]] assms(2) show ?thesis
        by (auto simp: d nth_append)
    qed
    show "map_of (lookups d) (asked_key (futures d ! i)) = Some (started_at (futures d ! i), i)"
      if "i < length (futures d)" and "\<not> is_done d i" for i
    proof (cases "i = ?n")
      case True
      then show ?thesis by (simp add: d update_conv')
    next
      case False
      then have i: "i < ?n" "\<not> is_done c i" using that dn by (auto simp: d)
      have "asked_key (futures c ! i) \<noteq> k"
        using cache_invD(3) [OF inv i] stale i(2) by (auto simp: shared_def)
      then show ?thesis using kept_pending [OF inv i] i(1) by (simp add: d update_conv' nth_append)
    qed
  qed
  then show ?thesis by (simp add: d_def)
qed

lemma cache_inv_finish:
  assumes inv: "cache_inv (now, c)" and "now \<le> now'" and "i < length (futures c)"
  shows "cache_inv (now', finish_lookup i r c)"
proof (rule cache_invI)
  let ?d = "finish_lookup i r c"
  have len: "length (futures ?d) = length (futures c)" by (simp add: finish_lookup_def)
  have fs: "asked_key (futures ?d ! j) = asked_key (futures c ! j)" "started_at (futures ?d ! j) = started_at (futures c ! j)"
    if "j < length (futures c)" for j
    using that by (cases "j = i"; simp add: finish_lookup_def)+
  have same: "lookups ?d = lookups c" by (simp add: finish_lookup_def)
  show "distinct (map fst (lookups ?d))" using cache_invD(1) [OF inv] by (simp add: same)
  show "j < length (futures ?d) \<and> asked_key (futures ?d ! j) = k \<and> started_at (futures ?d ! j) = started \<and> started \<le> now'"
    if "(k, started, j) \<in> set (lookups ?d)" for k started j
    using that cache_invD(2) [OF inv map_of_is_SomeI [OF cache_invD(1) [OF inv]], of k started j] fs [of j] len assms(2)
    by (auto simp: same)
  show "map_of (lookups ?d) (asked_key (futures ?d ! j)) = Some (started_at (futures ?d ! j), j)"
    if "j < length (futures ?d)" and "\<not> is_done ?d j" for j
  proof -
    have j: "j < length (futures c)" using that(1) by (simp add: finish_lookup_def)
    moreover have "\<not> is_done c j" using that(2) j by (cases "j = i") (auto simp: is_done_def finish_lookup_def)
    ultimately show ?thesis using cache_invD(3) [OF inv j] fs by (simp add: same)
  qed
qed

lemma cache_inv_step:
  fixes s t :: "time \<times> ('k, 'r) quota_cache"
  assumes "cache_step s t" and inv: "cache_inv s"
  shows "cache_inv t"
  using assms(1)
proof (rule cache_stepE)
  fix now now' :: time and c :: "('k, 'r) quota_cache" and k
  assume s: "s = (now, c)" "t = (now', fst (submit k now' c))" "now \<le> now'" 
  from s inv have i: "cache_inv (now, c)" by simp
  show "cache_inv t"
  proof (cases rule: submit_cases [of c k now'])
    case (Shared e)
    have "cache_inv (now', c)"
      using i s(3) by (fastforce intro!: cache_invI simp: cache_inv_def)
    with Shared s show ?thesis by simp
  next
    case New
    with cache_inv_start [OF i s(3), of k] s show ?thesis by simp
  qed
next
  fix now now' :: time and c :: "('k, 'r) quota_cache" and i and r :: "string + 'r"
  assume s: "s = (now, c)" "t = (now', finish_lookup i r c)" "now \<le> now'" "i < length (futures c)"
  with inv cache_inv_finish [of now c now' i r] show "cache_inv t" by simp
qed

interpretation quota_lookups: transition_system
  "\<lambda>s :: time \<times> ('k, 'r) quota_cache. \<exists>now ttl. s = (now, new_quota_cache ttl)" cache_step cache_inv
proof unfold_locales
  fix s :: "time \<times> ('k, 'r) quota_cache"
  assume "\<exists>now ttl. s = (now, new_quota_cache ttl)"
  then show "cache_inv s" by (auto simp: cache_inv_def new_quota_cache_def)
qed (rule cache_inv_step)

section \<open>Properties\<close>

text \<open>
  C32: However requests and answers interleave, no account is asked twice at a time: two lookups of one key
  are never both unfinished. And what a request is given is a lookup of its key that is still running, or
  one that succeeded and was started less than the time to live before; a failure is never given again.
\<close>

theorem one_lookup_per_account:
  assumes "cache_step\<^sup>*\<^sup>* (start, new_quota_cache ttl) (now, c)" and "now \<le> now'" and "submit k now' c = (d, i)"
  shows "(\<forall>j < length (futures c). \<forall>j' < length (futures c). \<not> is_done c j \<longrightarrow> \<not> is_done c j' \<longrightarrow>
            asked_key (futures c ! j) = asked_key (futures c ! j') \<longrightarrow> j = j')
    \<and> i < length (futures d) \<and> asked_key (futures d ! i) = k
    \<and> (\<not> is_done d i \<or> succeeded d i \<and> now' - started_at (futures d ! i) < ttl_seconds d)"
proof -
  have inv: "cache_inv (now, c)" by (rule quota_lookups.run_inv [OF _ assms(1)]) blast
  have alone: "j = j'" if "j < length (futures c)" "j' < length (futures c)" "\<not> is_done c j" "\<not> is_done c j'"
    "asked_key (futures c ! j) = asked_key (futures c ! j')" for j j'
    using cache_invD(3) [OF inv that(1,3)] cache_invD(3) [OF inv that(2,4)] that(5)
    by (metis (no_types) option.inject prod.inject)
  have "i < length (futures d) \<and> asked_key (futures d ! i) = k
      \<and> (\<not> is_done d i \<or> succeeded d i \<and> now' - started_at (futures d ! i) < ttl_seconds d)"
  proof (cases rule: submit_cases [of c k now'])
    case (Shared e)
    then have "map_of (lookups c) k = Some (fst e, i)" "shared c now' (fst e, i)" "d = c" using assms(3) by auto
    then show ?thesis using cache_invD(2) [OF inv, of k "fst e" i] by (auto simp: shared_def)
  next
    case New
    then show ?thesis using assms(3) by (auto simp: start_lookup_def Let_def is_done_def)
  qed
  with alone show ?thesis by blast
qed

definition one_failed :: "(string, int) quota_cache" where
  "one_failed = finish_lookup 0 (Inl ''timeout'') (fst (submit ''a'' 1 (new_quota_cache 30)))"

lemma one_failed_reached: "cache_step\<^sup>*\<^sup>* (0, new_quota_cache 30) (2, one_failed)"
proof -
  have "cache_step (0, new_quota_cache 30) (1 :: time, fst (submit ''a'' 1 (new_quota_cache 30)))"
    by (rule Submit) simp
  moreover have "cache_step (1 :: time, fst (submit ''a'' 1 (new_quota_cache 30))) (2, one_failed)"
    unfolding one_failed_def
    by (rule Finish) (simp_all add: submit_def start_lookup_def new_quota_cache_def kept_lookups_def is_done_def)
  ultimately show ?thesis by (metis (no_types) r_into_rtranclp rtranclp.rtrancl_into_rtrancl)
qed

lemma one_lookup_per_account_witness:
  "\<exists>d. submit ''a'' 3 one_failed = (d, 1) \<and> asked_key (futures d ! 1) = ''a'' \<and> \<not> is_done d 1"
proof -
  have s: "submit ''a'' 3 one_failed = (fst (submit ''a'' 3 one_failed), 1)"
    by (simp add: one_failed_def submit_def start_lookup_def new_quota_cache_def kept_lookups_def is_done_def
        finish_lookup_def shared_def succeeded_def)
  have n: "\<not> is_done (fst (submit ''a'' 3 one_failed)) 1"
    by (simp add: one_failed_def submit_def start_lookup_def new_quota_cache_def kept_lookups_def is_done_def
        finish_lookup_def shared_def succeeded_def)
  have "2 \<le> (3 :: time)" by simp
  from one_lookup_per_account [OF one_failed_reached this s] s n show ?thesis by blast
qed

end
