(* ===== verification/Account_Status.thy ===== *)
theory Account_Status
  imports Dataset_Upload Scheduler Quota_Cache
begin

text \<open>
  The calls that ask about an account (\<^verbatim>\<open>KaggleAdapter\<close> of \<^verbatim>\<open>app/kaggle_adapter.py\<close> and the account handlers of
  \<^verbatim>\<open>app/main.py\<close>): the environment a call is made with, the state of an account, its quota, the probe of its
  write access, and the two lookups that share the quota cache. An environment is an association list; what
  the remote side and the client library answer are parameters. A quota is in hours, as a rational number.
\<close>

section \<open>The environment of a call\<close>

type_synonym env = "string dict"

definition kaggle_env_keys :: "string list" where
  "kaggle_env_keys = [''KAGGLE_USERNAME'', ''KAGGLE_KEY'', ''KAGGLE_API_TOKEN'', ''KAGGLE_CONFIG_DIR'']"

definition env_or_empty :: "env \<Rightarrow> string \<Rightarrow> string" where
  "env_or_empty e name = (case map_of e name of None \<Rightarrow> [] | Some v \<Rightarrow> v)"

definition call_env :: "credentials option \<Rightarrow> env \<Rightarrow> env" where
  "call_env cred process =
     (let e = setdefault ''PYTHONUTF8'' ''1'' (setdefault ''PYTHONIOENCODING'' ''utf-8'' process) in
      case cred of
        Some c \<Rightarrow> apply_to_env c e
      | None \<Rightarrow>
          let tok = strip (env_or_empty e ''KAGGLE_API_TOKEN'')
          in if tok \<noteq> [] then AList.update ''KAGGLE_API_TOKEN'' tok e else e)"

text \<open>The environment of a child: \<open>dir\<close> is the empty directory made for it.\<close>

definition command_env :: "credentials option \<Rightarrow> env \<Rightarrow> string \<Rightarrow> env" where
  "command_env cred process dir =
     (let e = call_env cred process in
      case cred of
        Some c \<Rightarrow> if config_dir c = [] then AList.update ''KAGGLE_CONFIG_DIR'' dir e else e
      | None \<Rightarrow> e)"

text \<open>
  A command: \<open>interrupt\<close> and \<open>no_space\<close> are the exceptions of the two checks before it; its credentials become
  secrets before it starts.
\<close>

definition run_command ::
  "credentials option \<Rightarrow> env \<Rightarrow> exc option \<Rightarrow> exc option \<Rightarrow> string \<Rightarrow> (env \<Rightarrow> exc + 'a) \<Rightarrow> string list
   \<Rightarrow> (exc + 'a) \<times> string list" where
  "run_command cred process interrupt no_space dir communicate known =
     (case interrupt of
        Some e \<Rightarrow> (Inl e, known)
      | None \<Rightarrow>
          (case no_space of
             Some e \<Rightarrow> (Inl e, known)
           | None \<Rightarrow>
               let e = call_env cred process
               in (communicate (command_env cred process dir),
                   register_secret (env_or_empty e ''KAGGLE_API_TOKEN'') (register_secret (env_or_empty e ''KAGGLE_KEY'') known))))"

text \<open>
  A call of the library in the process itself. The body may change the environment and may raise; what it
  leaves in the account's variables is undone in any case.
\<close>

definition entered_env :: "credentials \<Rightarrow> env \<Rightarrow> env" where
  "entered_env c process =
     (let e = apply_to_env c process in
      fold (\<lambda>name p. case map_of e name of None \<Rightarrow> p | Some v \<Rightarrow> AList.update name v p) kaggle_env_keys
        (fold AList.delete kaggle_env_keys process))"

definition put_back :: "env \<Rightarrow> env \<Rightarrow> env" where
  "put_back previous after =
     fold (\<lambda>name p. let q = AList.delete name p in
         case map_of previous name of None \<Rightarrow> q | Some v \<Rightarrow> AList.update name v q) kaggle_env_keys after"

definition temporary_kaggle_env ::
  "credentials option \<Rightarrow> (env \<Rightarrow> (exc + 'a) \<times> env) \<Rightarrow> env \<Rightarrow> (exc + 'a) \<times> env" where
  "temporary_kaggle_env cred body process =
     (case cred of
        None \<Rightarrow> body process
      | Some c \<Rightarrow> (case body (entered_env c process) of (r, after) \<Rightarrow> (r, put_back process after)))"

section \<open>The account\<close>

text \<open>The stored login of a configuration directory: absent, caught when it cannot be read, not caught, or read.\<close>

datatype stored_login = No_login | Login_unreadable | Login_raises exc | Login json

record account_view =
  av_version :: string
  av_username :: string
  av_authenticated :: bool
  av_output :: string

record account_answers =
  aa_version :: "exc + string"
  aa_login :: "string option \<Rightarrow> stored_login"
  aa_mine :: "exc + (int \<times> string)"

definition stored_username :: "(json \<Rightarrow> string) \<Rightarrow> stored_login \<Rightarrow> exc + string" where
  "stored_username show login =
     (case login of
        No_login \<Rightarrow> Inr []
      | Login_unreadable \<Rightarrow> Inr []
      | Login_raises e \<Rightarrow> Inl e
      | Login (JObj d) \<Rightarrow> Inr (get_str show d ''username'')
      | Login _ \<Rightarrow> Inl (runtime_error ''object has no attribute get''))"

text \<open>\<open>aa_login\<close> is asked about the directory the environment names, or the home directory's own.\<close>

definition account :: "(json \<Rightarrow> string) \<Rightarrow> credentials option \<Rightarrow> env \<Rightarrow> account_answers \<Rightarrow> exc + account_view" where
  "account show cred process a =
     (case aa_version a of
        Inl e \<Rightarrow> Inl e
      | Inr version \<Rightarrow>
          let e = call_env cred process; own = strip (env_or_empty e ''KAGGLE_USERNAME'') in
          (case (if own = [] then stored_username show (aa_login a (map_of e ''KAGGLE_CONFIG_DIR'')) else Inr own) of
             Inl x \<Rightarrow> Inl x
           | Inr name \<Rightarrow>
               (case aa_mine a of
                  Inl x \<Rightarrow> Inl x
                | Inr (code, out) \<Rightarrow>
                    Inr \<lparr>av_version = strip version, av_username = name, av_authenticated = (code = 0),
                      av_output = last_chars 2000 out\<rparr>)))"

section \<open>The quota\<close>

text \<open>Durations are in microseconds.\<close>

record usage =
  time_used :: int
  time_allowed :: int

record quota_response =
  gpu_quota :: "usage option"
  tpu_quota :: "usage option"
  quota_refresh_time :: "string option"

text \<open>The library exits, raises or answers.\<close>

datatype 'a api_answer = Exits string | Fails exc | Answers 'a

record accelerator_hours = accelerator +
  used_hours :: rat
  total_hours :: rat

record quota_view =
  qv_available :: bool
  qv_refresh_at :: string
  qv_accelerators :: "accelerator_hours list"
  qv_error :: string

definition hours :: "int \<Rightarrow> rat" where
  "hours us = of_int us / 3600000000"

definition round4 :: "rat \<Rightarrow> rat" where
  "round4 x = of_int (round_half_even (10000 * x)) / 10000"

definition resource_hours :: "string \<Rightarrow> usage option \<Rightarrow> accelerator_hours list" where
  "resource_hours name u =
     (case u of
        None \<Rightarrow> []
      | Some q \<Rightarrow> [\<lparr>acc_resource = name, acc_remaining = round4 (max 0 (hours (time_allowed q) - hours (time_used q))),
          used_hours = round4 (hours (time_used q)), total_hours = round4 (hours (time_allowed q))\<rparr>])"

definition quota_of :: "quota_response api_answer \<Rightarrow> exc + quota_view" where
  "quota_of a =
     (case a of
        Exits t \<Rightarrow> Inl (runtime_error (''Kaggle quota authentication failed: '' @ t))
      | Fails e \<Rightarrow> Inl e
      | Answers r \<Rightarrow>
          Inr \<lparr>qv_available = True,
            qv_refresh_at = (case quota_refresh_time r of None \<Rightarrow> [] | Some t \<Rightarrow> t),
            qv_accelerators = resource_hours ''GPU'' (gpu_quota r) @ resource_hours ''TPU'' (tpu_quota r),
            qv_error = []\<rparr>)"

definition quota_unavailable :: "string list \<Rightarrow> string \<Rightarrow> quota_view" where
  "quota_unavailable known err =
     \<lparr>qv_available = False, qv_refresh_at = [], qv_accelerators = [],
      qv_error = last_chars 2000 (redact_secrets known err)\<rparr>"

section \<open>The two lookups of the quota cache\<close>

text \<open>
  Both are stored under the same key, so either may be handed to either caller. A result without an
  \<^verbatim>\<open>identity_error\<close> has the empty text there; it is only read when the identity is not verified.
\<close>

definition with_identity :: "quota_view \<Rightarrow> bool \<Rightarrow> string \<Rightarrow> quota" where
  "with_identity v verified err =
     \<lparr>quota_available = qv_available v, accelerators = map accelerator.truncate (qv_accelerators v),
      quota.identity_verified = verified, quota.identity_error = err\<rparr>"

definition unusable :: "string \<Rightarrow> quota" where
  "unusable err = \<lparr>quota_available = False, accelerators = [], quota.identity_verified = False,
     quota.identity_error = err\<rparr>"

text \<open>\<open>ident\<close> and \<open>q\<close> are what the child processes answer, or the exception of asking them.\<close>

definition scheduling_status :: "string list \<Rightarrow> exc + identity \<Rightarrow> exc + quota_view \<Rightarrow> exc + quota" where
  "scheduling_status known ident q =
     (case ident of
        Inl e \<Rightarrow> Inr (unusable (''identity_lookup_failed: '' @ last_chars 300 (redact_secrets known (exc_text e))))
      | Inr i \<Rightarrow>
          if \<not> identity.identity_verified i then Inr (unusable (identity.identity_error i))
          else map_sum id (\<lambda>v. with_identity v (identity.identity_verified i) (identity.identity_error i)) q)"

definition verified_quota :: "exc + identity \<Rightarrow> exc + quota_view \<Rightarrow> exc + quota" where
  "verified_quota ident q =
     (case ident of
        Inl e \<Rightarrow> Inl e
      | Inr i \<Rightarrow>
          if \<not> identity.identity_verified i then Inl (rejected_identity (identity.identity_error i))
          else map_sum id (\<lambda>v. with_identity v True []) q)"

text \<open>What admission sees of a lookup, and what the scheduler does.\<close>

definition seen_by_admission :: "exc + quota \<Rightarrow> string + quota" where
  "seen_by_admission r = map_sum exc_text id r"

definition seen_by_scheduler :: "exc + quota \<Rightarrow> quota option" where
  "seen_by_scheduler r = (case r of Inl _ \<Rightarrow> None | Inr q \<Rightarrow> Some q)"

section \<open>The probe of write access\<close>

record probe_view =
  pv_ok :: bool
  pv_username :: string
  pv_dataset :: string
  pv_created :: bool
  pv_cleanup_ok :: bool
  pv_cleanup_error :: string
  pv_error :: string

text \<open>
  \<open>pa_files\<close> is an exception while the files of the probe are written, \<open>pa_create\<close> the answer to the creation
  with the error it names, \<open>pa_delete\<close> the command that deletes it, \<open>pa_leave\<close> an exception while the
  directory is removed.
\<close>

record probe_answers =
  pa_hex :: string
  pa_files :: "exc option"
  pa_create :: "string api_answer"
  pa_delete :: "exc + (int \<times> string)"
  pa_leave :: "exc option"

datatype probe_effect = Creates string | Deletes string

definition probe_result :: "string \<Rightarrow> string \<Rightarrow> bool \<Rightarrow> bool \<Rightarrow> bool \<Rightarrow> string \<Rightarrow> string \<Rightarrow> probe_view" where
  "probe_result uname ref ok created cleaned cleanup_error err =
     \<lparr>pv_ok = ok, pv_username = uname, pv_dataset = ref, pv_created = created, pv_cleanup_ok = cleaned,
      pv_cleanup_error = cleanup_error, pv_error = err\<rparr>"

definition probe_text :: "string list \<Rightarrow> exc \<Rightarrow> string" where
  "probe_text known e = last_chars 2000 (redact_secrets known (exc_text e))"

definition clean_up :: "string list \<Rightarrow> exc + (int \<times> string) \<Rightarrow> bool \<times> string" where
  "clean_up known d =
     (case d of
        Inl e \<Rightarrow> (False, probe_text known e)
      | Inr (code, out) \<Rightarrow>
          if code = 0 then (True, [])
          else (False, probe_text known
            (runtime_error (if strip out \<noteq> [] then strip out else ''returncode='' @ int_text code))))"

definition probe_username_write_access ::
  "string list \<Rightarrow> credentials option \<Rightarrow> env \<Rightarrow> probe_answers \<Rightarrow> probe_effect list \<times> probe_view" where
  "probe_username_write_access known cred process a =
     (let uname = strip (env_or_empty (call_env cred process) ''KAGGLE_USERNAME'');
          ref = uname @ ''/relay-probe-'' @ take 12 (pa_hex a);
          failed = probe_result uname ref False in
      if uname = []
      then ([], probe_result [] [] False False False [] ''kaggle username is required for write probe'')
      else case pa_files a of
        Some e \<Rightarrow> ([], failed False False [] (probe_text known e))
      | None \<Rightarrow>
          (case pa_create a of
             Exits t \<Rightarrow> ([Creates ref], failed False False [] (''Kaggle probe authentication failed: '' @ t))
           | Fails e \<Rightarrow> ([Creates ref], failed False False [] (probe_text known e))
           | Answers err \<Rightarrow>
               if strip err \<noteq> []
               then ([Creates ref],
                 (case pa_leave a of
                    Some e \<Rightarrow> failed False False [] (probe_text known e)
                  | None \<Rightarrow> failed False False [] (redact_secrets known (strip err))))
               else case clean_up known (pa_delete a) of (cleaned, cerr) \<Rightarrow>
                 ([Creates ref, Deletes ref],
                  (case pa_leave a of
                     Some e \<Rightarrow> failed True cleaned cerr (probe_text known e)
                   | None \<Rightarrow> probe_result uname ref True True cleaned cerr
                       (if cleaned then [] else ''probe dataset was created but cleanup failed'')))))"

section \<open>The handlers\<close>

text \<open>
  The environment of the relay, what its commands and its stored logins answer for an account, and what the
  child processes answer for it or the exception of asking them.
\<close>

record remote_side =
  rs_show :: "json \<Rightarrow> string"
  rs_env :: env
  rs_account :: "credentials option \<Rightarrow> account_answers"
  rs_quota :: "credentials option \<Rightarrow> exc + quota_view"
  rs_probe :: "credentials option \<Rightarrow> exc + probe_view"

text \<open>The names of the allowed accounts, up to the first account that is not known.\<close>

fun named_keys :: "auth_store \<Rightarrow> string list \<Rightarrow> selection_error + string list" where
  "named_keys s [] = Inr []"
| "named_keys s (k # ks) =
     (case credentials_for s k of
        Inl e \<Rightarrow> Inl e
      | Inr c \<Rightarrow> map_sum id (\<lambda>r. if (case c of None \<Rightarrow> True | Some c \<Rightarrow> username c = []) then r else k # r) (named_keys s ks))"

definition status_key ::
  "string list \<Rightarrow> quota_lookup \<Rightarrow> auth_store \<Rightarrow> principal \<Rightarrow> string \<Rightarrow> selection_error + string" where
  "status_key known lookup s p requested =
     (let allowed = public_allowed_key_ids s p in
      if strip requested = [] \<and> \<not> store_legacy s \<and> 1 < length allowed
      then (case named_keys s allowed of
              Inl e \<Rightarrow> Inl e
            | Inr named \<Rightarrow>
                let choices = (if named \<noteq> [] then named else allowed)
                in Inr (case max_candidate (key_quotas.candidates (quota_key_candidates known lookup choices)) of
                          Some best \<Rightarrow> snd best | None \<Rightarrow> hd choices))
      else resolve_kaggle_key_id s p requested)"

text \<open>An exception of the adapter is not caught: it is the inner \<^const>\<open>Inl\<close>.\<close>

definition kaggle_account_status ::
  "string list \<Rightarrow> quota_lookup \<Rightarrow> remote_side \<Rightarrow> auth_store \<Rightarrow> principal \<Rightarrow> string
   \<Rightarrow> (exc + string \<times> account_view \<times> quota_view) reply" where
  "kaggle_account_status known lookup far s p requested =
     (case selection_reply (status_key known lookup s p requested) of
        Inl e \<Rightarrow> Inl e
      | Inr k \<Rightarrow>
          (case selection_reply (credentials_for s k) of
             Inl e \<Rightarrow> Inl e
           | Inr c \<Rightarrow>
               (case account (rs_show far) c (rs_env far) (rs_account far c) of
                  Inl e \<Rightarrow> Inr (Inl e)
                | Inr a \<Rightarrow> Inr (Inr (k, a,
                    if av_authenticated a
                    then (case rs_quota far c of Inl e \<Rightarrow> quota_unavailable known (exc_text e) | Inr q \<Rightarrow> q)
                    else quota_unavailable known ''kaggle authentication failed'')))))"

definition kaggle_account_probe ::
  "remote_side \<Rightarrow> auth_store \<Rightarrow> principal \<Rightarrow> string \<Rightarrow> (exc + string \<times> probe_view) reply" where
  "kaggle_account_probe far s p requested =
     (case selection_reply (resolve_kaggle_key_id s p requested) of
        Inl e \<Rightarrow> Inl e
      | Inr k \<Rightarrow>
          (case selection_reply (credentials_for s k) of
             Inl e \<Rightarrow> Inl e
           | Inr c \<Rightarrow> Inr (map_sum id (Pair k) (rs_probe far c))))"

definition kaggle_account ::
  "string list \<Rightarrow> quota_lookup \<Rightarrow> remote_side \<Rightarrow> auth_store \<Rightarrow> principal \<Rightarrow> string
   \<Rightarrow> (exc + string \<times> account_view \<times> quota_view) reply" where
  "kaggle_account known lookup far s p requested =
     (case (if strip requested \<noteq> [] then require_key_view p else None) of
        Some e \<Rightarrow> Inl e
      | None \<Rightarrow> kaggle_account_status known lookup far s p requested)"

definition kaggle_account_write_probe ::
  "remote_side \<Rightarrow> auth_store \<Rightarrow> principal \<Rightarrow> string \<Rightarrow> (exc + string \<times> probe_view) reply" where
  "kaggle_account_write_probe far s p requested =
     (case require_key_view p of Some e \<Rightarrow> Inl e | None \<Rightarrow> kaggle_account_probe far s p requested)"

text \<open>The list stops at the first account that cannot be shown.\<close>

fun status_list ::
  "(string \<Rightarrow> (exc + 'a) reply) \<Rightarrow> string list \<Rightarrow> (exc + 'a list) reply" where
  "status_list f [] = Inr (Inr [])"
| "status_list f (k # ks) =
     (case f k of
        Inl e \<Rightarrow> Inl e
      | Inr (Inl e) \<Rightarrow> Inr (Inl e)
      | Inr (Inr x) \<Rightarrow> map_sum id (map_sum id ((#) x)) (status_list f ks))"

definition kaggle_accounts ::
  "string list \<Rightarrow> quota_lookup \<Rightarrow> remote_side \<Rightarrow> auth_store \<Rightarrow> principal
   \<Rightarrow> (exc + (string \<times> account_view \<times> quota_view) list) reply" where
  "kaggle_accounts known lookup far s p =
     (case require_key_view p of
        Some e \<Rightarrow> Inl e
      | None \<Rightarrow> status_list (kaggle_account_status known lookup far s p) (public_allowed_key_ids s p))"

section \<open>The variables of an account\<close>

text \<open>What the credentials alone say of a variable.\<close>

definition own_variable :: "credentials \<Rightarrow> string \<Rightarrow> string option" where
  "own_variable c name =
     (let v = (if name = ''KAGGLE_USERNAME'' then username c else if name = ''KAGGLE_KEY'' then key_value c
               else if name = ''KAGGLE_API_TOKEN'' then api_token c else config_dir c)
      in if v = [] then None else Some v)"

lemma map_of_delete: "map_of (AList.delete x d) y = (if y = x then None else map_of d y)"
  by (simp add: delete_conv')

lemma map_of_apply_to_env:
  "map_of (apply_to_env c e) n = (if n \<in> set kaggle_env_keys then own_variable c n else map_of e n)"
proof -
  have put: "map_of (if v = [] then e else AList.update x v e) n = (if n = x \<and> v \<noteq> [] then Some v else map_of e n)"
    for x v n :: string and e
    by (simp add: update_conv')
  show ?thesis
    apply (simp only: apply_to_env_def kaggle_env_keys_def own_variable_def Let_def put fold.simps map_of_delete comp_apply id_apply)
    apply (cases "n = ''KAGGLE_USERNAME''", simp)
    apply (cases "n = ''KAGGLE_KEY''", simp)
    apply (cases "n = ''KAGGLE_API_TOKEN''", simp)
    apply (cases "n = ''KAGGLE_CONFIG_DIR''", simp_all)
    done
qed

lemma map_of_entered:
  "map_of (entered_env c process) n = (if n \<in> set kaggle_env_keys then own_variable c n else map_of process n)"
proof -
  have step: "map_of (case v of None \<Rightarrow> p | Some w \<Rightarrow> AList.update x w p) n
      = (if n = x \<and> v \<noteq> None then v else map_of p n)" for x n :: string and v :: "string option" and p
    by (auto simp: update_conv' split: option.splits)
  show ?thesis
    by (simp add: entered_env_def kaggle_env_keys_def step map_of_delete map_of_apply_to_env Let_def)
qed

lemma map_of_put_back:
  "map_of (put_back previous after) n = (if n \<in> set kaggle_env_keys then map_of previous n else map_of after n)"
proof -
  have step: "map_of (case v of None \<Rightarrow> AList.delete x p | Some w \<Rightarrow> AList.update x w (AList.delete x p)) n
      = (if n = x then v else map_of p n)" for x n :: string and v :: "string option" and p
    by (auto simp: update_conv' map_of_delete split: option.splits)
  show ?thesis by (simp add: put_back_def kaggle_env_keys_def step Let_def)
qed

lemma map_of_call_env:
  "n \<in> set kaggle_env_keys \<Longrightarrow> map_of (call_env (Some c) process) n = own_variable c n"
  by (simp add: call_env_def map_of_apply_to_env Let_def)

lemma map_of_command_env:
  "n \<in> set kaggle_env_keys \<Longrightarrow> map_of (command_env (Some c) process dir) n
     = (if n = ''KAGGLE_CONFIG_DIR'' \<and> config_dir c = [] then Some dir else own_variable c n)"
  by (simp add: command_env_def map_of_call_env update_conv' Let_def)

section \<open>Properties\<close>

text \<open>
  C31: A call for an account cannot use the login of another one. The account variables a command is started
  with are those of the account's credentials, whatever the environment of the relay holds, and a directory
  of stored logins is always named: the account's own or the empty one made for the call. A call inside the
  process sees exactly the account's variables, and however it ends and whatever it does to the
  environment, afterwards every account variable is what it was before and every other one what the call
  left.
\<close>

theorem account_environment_isolated:
  "map_of (command_env (Some c) process dir) ''KAGGLE_CONFIG_DIR'' = Some (if config_dir c = [] then dir else config_dir c)
   \<and> map (map_of (command_env (Some c) process dir)) [''KAGGLE_USERNAME'', ''KAGGLE_KEY'', ''KAGGLE_API_TOKEN'']
     = map (own_variable c) [''KAGGLE_USERNAME'', ''KAGGLE_KEY'', ''KAGGLE_API_TOKEN'']
   \<and> map_of (entered_env c process) = (\<lambda>n. if n \<in> set kaggle_env_keys then own_variable c n else map_of process n)
   \<and> fst (temporary_kaggle_env (Some c) body process) = fst (body (entered_env c process))
   \<and> map_of (snd (temporary_kaggle_env (Some c) body process))
     = (\<lambda>n. if n \<in> set kaggle_env_keys then map_of process n else map_of (snd (body (entered_env c process))) n)"
proof -
  have dir: "map_of (command_env (Some c) process dir) ''KAGGLE_CONFIG_DIR'' = Some (if config_dir c = [] then dir else config_dir c)"
    by (simp add: map_of_command_env kaggle_env_keys_def own_variable_def)
  have vars: "map (map_of (command_env (Some c) process dir)) [''KAGGLE_USERNAME'', ''KAGGLE_KEY'', ''KAGGLE_API_TOKEN'']
     = map (own_variable c) [''KAGGLE_USERNAME'', ''KAGGLE_KEY'', ''KAGGLE_API_TOKEN'']"
    by (simp add: map_of_command_env kaggle_env_keys_def)
  have "temporary_kaggle_env (Some c) body process
      = (fst (body (entered_env c process)), put_back process (snd (body (entered_env c process))))"
    by (simp add: temporary_kaggle_env_def case_prod_beta)
  with dir vars show ?thesis by (simp add: fun_eq_iff map_of_entered map_of_put_back)
qed

lemma classify_seen:
  shows "key_quotas.candidates (classify_key secs (\<lambda>_. seen_by_admission (scheduling_status known ident q)) k r)
     = key_quotas.candidates (classify_key secs (\<lambda>_. seen_by_admission (verified_quota ident q)) k r)" (is "?a1 = ?b1")
    and "exhausted (classify_key secs (\<lambda>_. seen_by_admission (scheduling_status known ident q)) k r)
     = exhausted (classify_key secs (\<lambda>_. seen_by_admission (verified_quota ident q)) k r)" (is "?a2 = ?b2")
    and "usable cfg db s (\<lambda>_. seen_by_scheduler (scheduling_status known ident q)) a
     = usable cfg db s (\<lambda>_. seen_by_scheduler (verified_quota ident q)) a" (is "?a3 = ?b3")
proof -
  have hours: "quota_remaining_hours (with_identity v True x) r = quota_remaining_hours (with_identity v True []) r"
    "gpu_hours (with_identity v True x) = gpu_hours (with_identity v True [])"
    "quota_available (with_identity v True x) = quota_available (with_identity v True [])"
    "quota.identity_verified (with_identity v True x)" for v x r
    by (simp_all add: with_identity_def quota_remaining_hours_def gpu_hours_def split: option.splits)
  have "?a1 = ?b1 \<and> ?a2 = ?b2 \<and> ?a3 = ?b3"
  proof (cases ident)
    case (Inl e)
    then show ?thesis
      by (simp add: classify_key_def seen_by_admission_def scheduling_status_def verified_quota_def unusable_def
          usable_def seen_by_scheduler_def)
  next
    case (Inr i)
    show ?thesis
    proof (cases "identity.identity_verified i")
      case True
      with Inr show ?thesis
        by (cases q) (simp_all add: classify_key_def seen_by_admission_def scheduling_status_def verified_quota_def
            usable_def seen_by_scheduler_def hours(4) hours(1-3) [of _ "identity.identity_error i"])
    next
      case False
      with Inr show ?thesis
        by (simp add: classify_key_def seen_by_admission_def scheduling_status_def verified_quota_def unusable_def
            usable_def seen_by_scheduler_def)
    qed
  qed
  then show "?a1 = ?b1" "?a2 = ?b2" "?a3 = ?b3" by blast+
qed

definition reports_gpu :: "exc + quota \<Rightarrow> bool" where
  "reports_gpu r \<longleftrightarrow>
     (case r of Inl _ \<Rightarrow> True | Inr q \<Rightarrow> find (same_resource ''GPU'') (accelerators q) \<noteq> None)"

lemma candidate_usable:
  assumes "reports_gpu r" and "idle cfg db s (snd a)"
  shows "usable cfg db s (\<lambda>_. seen_by_scheduler r) a
    \<longleftrightarrow> key_quotas.candidates (classify_key secs (\<lambda>_. seen_by_admission r) k no_quotas) \<noteq> []"
  using assms
  by (cases r) (auto simp: reports_gpu_def usable_def seen_by_scheduler_def seen_by_admission_def classify_key_def
      no_quotas_def quota_remaining_hours_def gpu_hours_def split: option.splits)

text \<open>
  The two lookups of the quota cache may be exchanged: with the same answers of the remote side, the one
  the scheduler starts and the one admission starts lead admission to the same candidates and the same
  exhausted accounts, and the scheduler to the same usable accounts, failures included. Where the answer
  reports GPU hours, an idle account is usable for the scheduler exactly if it is a candidate for admission.
\<close>

theorem shared_lookup_same_verdict:
  assumes "reports_gpu (verified_quota ident q)" and "idle cfg db s (snd a)"
  shows "key_quotas.candidates (classify_key secs (\<lambda>_. seen_by_admission (scheduling_status known ident q)) k r)
       = key_quotas.candidates (classify_key secs (\<lambda>_. seen_by_admission (verified_quota ident q)) k r)
     \<and> exhausted (classify_key secs (\<lambda>_. seen_by_admission (scheduling_status known ident q)) k r)
       = exhausted (classify_key secs (\<lambda>_. seen_by_admission (verified_quota ident q)) k r)
     \<and> usable cfg db s (\<lambda>_. seen_by_scheduler (scheduling_status known ident q)) a
       = usable cfg db s (\<lambda>_. seen_by_scheduler (verified_quota ident q)) a
     \<and> usable cfg db s (\<lambda>_. seen_by_scheduler (verified_quota ident q)) a
       = (key_quotas.candidates (classify_key secs (\<lambda>_. seen_by_admission (verified_quota ident q)) k no_quotas) \<noteq> [])"
  by (intro conjI classify_seen candidate_usable [OF assms])

definition sample_quota :: quota_view where
  "sample_quota = \<lparr>qv_available = True, qv_refresh_at = [],
     qv_accelerators = resource_hours ''GPU'' (Some \<lparr>time_used = 0, time_allowed = 108000000000\<rparr>), qv_error = []\<rparr>"

definition sample_identity :: identity where
  "sample_identity = \<lparr>identity_verified = True, auth_method = ''access_token'',
     identity_source = ''token_introspection'', identity_error = []\<rparr>"

lemma shared_lookup_same_verdict_witness:
  "usable sample_settings (app_db waiting_state) sample_store
       (\<lambda>_. seen_by_scheduler (scheduling_status [] (Inr sample_identity) (Inr sample_quota))) (''acct'', ''u'')
   = (key_quotas.candidates (classify_key [] (\<lambda>_. seen_by_admission (verified_quota (Inr sample_identity) (Inr sample_quota)))
        ''acct'' no_quotas) \<noteq> [])"
proof -
  have g: "reports_gpu (verified_quota (Inr sample_identity) (Inr sample_quota))"
    by (simp add: reports_gpu_def verified_quota_def sample_identity_def sample_quota_def with_identity_def
        resource_hours_def accelerator.defs same_resource_def lower_def lower_char_def)
  have "idle sample_settings (app_db waiting_state) sample_store ''u''" by code_simp
  then have i: "idle sample_settings (app_db waiting_state) sample_store (snd (''acct'', ''u''))" by simp
  from shared_lookup_same_verdict [OF g i] show ?thesis by simp
qed

text \<open>
  The state shown for an account that has a token only names the user of the login stored in the home
  directory of the relay, whoever that is: the call is made with an empty directory of stored logins, but
  the name is looked up without it.
\<close>

lemma token_account_named_after_home_login:
  assumes "username c = []" and "config_dir c = []" and "aa_version a = Inr v" and "aa_mine a = Inr (0, out)"
    and "aa_login a None = Login (JObj d)"
  shows "\<exists>w. account show (Some c) process a = Inr w \<and> av_authenticated w \<and> av_username w = get_str show d ''username''"
proof -
  have "map_of (call_env (Some c) process) ''KAGGLE_USERNAME'' = None" "map_of (call_env (Some c) process) ''KAGGLE_CONFIG_DIR'' = None"
    using assms(1,2) by (simp_all add: map_of_call_env kaggle_env_keys_def own_variable_def)
  then show ?thesis using assms(3-5)
    by (simp add: account_def env_or_empty_def strip_def stored_username_def Let_def)
qed

definition home_login :: account_answers where
  "home_login = \<lparr>aa_version = Inr ''Kaggle API 1.7'',
     aa_login = (\<lambda>d. if d = None then Login (JObj [(''username'', JStr ''owner'')]) else No_login),
     aa_mine = Inr (0, [])\<rparr>"

definition token_only :: credentials where
  "token_only = \<lparr>cred_id = ''t'', username = [], key_value = [], api_token = ''KGAT_1'', config_dir = [],
     enabled = True, disabled_reason = []\<rparr>"

lemma token_account_named_after_home_login_witness:
  "\<exists>w. account (\<lambda>_. []) (Some token_only) [] home_login = Inr w \<and> av_username w = ''owner''"
proof -
  have "username token_only = []" "config_dir token_only = []" by (simp_all add: token_only_def)
  moreover have "aa_version home_login = Inr ''Kaggle API 1.7''" "aa_mine home_login = Inr (0, [])"
    "aa_login home_login None = Login (JObj [(''username'', JStr ''owner'')])" by (simp_all add: home_login_def)
  ultimately obtain w where "account (\<lambda>_. []) (Some token_only) [] home_login = Inr w"
    "av_username w = get_str (\<lambda>_. []) [(''username'', JStr ''owner'')] ''username''"
    using token_account_named_after_home_login by blast
  moreover have "get_str (\<lambda>_. []) [(''username'', JStr ''owner'')] ''username'' = ''owner''" by code_simp
  ultimately show ?thesis by simp
qed

lemma account_known:
  assumes "status_key known lookup s p requested = Inr k" and "\<not> store_legacy s" and "\<not> legacy p"
  shows "map_of (kaggle_keys s) k \<noteq> None \<and> key_enabled s k \<and> allows_key p k"
proof (cases "strip requested = [] \<and> 1 < length (public_allowed_key_ids s p)")
  case True
  have sub: "set named \<subseteq> set ks" if "named_keys s ks = Inr named" for named ks
    using that
  proof (induction ks arbitrary: named)
    case (Cons k ks)
    then show ?case by (fastforce split: sum.splits option.splits if_splits simp: map_sum_def)
  qed simp
  obtain named where n: "named_keys s (public_allowed_key_ids s p) = Inr named"
    using True assms by (auto simp: status_key_def Let_def split: sum.splits)
  define choices where "choices = (if named \<noteq> [] then named else public_allowed_key_ids s p)"
  let ?cs = "key_quotas.candidates (quota_key_candidates known lookup choices)"
  have k: "k = (case max_candidate ?cs of Some best \<Rightarrow> snd best | None \<Rightarrow> hd choices)"
    using True assms n unfolding choices_def by (simp add: status_key_def Let_def)
  have "choices \<noteq> []" using True by (auto simp: choices_def)
  moreover have "b \<in> set cs" if "max_candidate cs = Some b" for b and cs :: "(rat \<times> string) list"
  proof (cases cs)
    case (Cons c cs')
    have "foldl max c cs' \<in> set (c # cs')" by (induction cs' arbitrary: c) (auto simp: max_def)
    with that Cons show ?thesis by simp
  qed (use that in simp)
  ultimately have "k \<in> set choices"
    using quota_candidates_from [of known lookup choices] unfolding k
    by (cases "max_candidate ?cs") (auto simp: image_subset_iff)
  with sub [OF n] have "k \<in> set (allowed_key_ids s p False)"
    by (auto simp: choices_def public_allowed_key_ids_def split: if_splits)
  from enabled_allowed [OF assms(2,3) this] key_enabled_known show ?thesis by blast
next
  case False
  then have "resolve_kaggle_key_id s p requested = Inr k" using assms by (auto simp: status_key_def Let_def)
  then show ?thesis
    using resolved_account_granted [of s p requested k] assms(2,3) by blast
qed

lemma shown_key:
  "kaggle_account_status known lookup far s p requested = Inr (Inr (k, v)) \<Longrightarrow>
     status_key known lookup s p requested = Inr k"
  by (auto simp: kaggle_account_status_def selection_reply_def split: sum.splits selection_error.splits)

lemma requested_status_key:
  "strip requested \<noteq> [] \<Longrightarrow> \<not> store_legacy s \<Longrightarrow> status_key known lookup s p requested = Inr k \<Longrightarrow> k = strip requested"
  by (auto simp: status_key_def resolve_kaggle_key_id_def Let_def split: if_splits)

lemma status_list_keys:
  assumes "status_list f ks = Inr (Inr xs)" and "\<And>k x. k \<in> set ks \<Longrightarrow> f k = Inr (Inr x) \<Longrightarrow> fst x = k"
  shows "map fst xs = ks"
  using assms
proof (induction ks arbitrary: xs)
  case (Cons k ks)
  from Cons.prems(1) obtain x ys where x: "f k = Inr (Inr x)" "xs = x # ys" "status_list f ks = Inr (Inr ys)"
    by (auto split: sum.splits simp: map_sum_def)
  with Cons.IH [OF x(3)] Cons.prems(2) show ?case by auto
qed simp

text \<open>
  Asking about accounts stays within the grant: a state is only ever shown, and a probe only ever made, for a
  configured, enabled account the caller may use; a named account and the list of all accounts need the
  permission to see accounts, and the list has exactly the caller's accounts.
\<close>

theorem accounts_within_grant:
  assumes "\<not> store_legacy s" and "\<not> legacy p" and "wf_keys (kaggle_keys s)"
  shows "(kaggle_account known lookup far s p requested = Inr (Inr (k, v)) \<longrightarrow>
      key_enabled s k \<and> allows_key p k \<and> (strip requested \<noteq> [] \<longrightarrow> can_view_keys p \<and> k = strip requested))
    \<and> (kaggle_account_write_probe far s p requested = Inr (Inr (k, w)) \<longrightarrow>
      key_enabled s k \<and> allows_key p k \<and> can_view_keys p)
    \<and> (kaggle_accounts known lookup far s p = Inr (Inr xs) \<longrightarrow>
      can_view_keys p \<and> map fst xs = public_allowed_key_ids s p)"
proof (intro conjI impI)
  assume "kaggle_account known lookup far s p requested = Inr (Inr (k, v))"
  then have v: "strip requested \<noteq> [] \<Longrightarrow> can_view_keys p"
    and "kaggle_account_status known lookup far s p requested = Inr (Inr (k, v))"
    by (auto simp: kaggle_account_def require_key_view_def split: if_splits option.splits)
  from shown_key [OF this(2)] account_known [OF _ assms(1,2)] requested_status_key [OF _ assms(1)] v
  show "key_enabled s k" "allows_key p k" "strip requested \<noteq> [] \<Longrightarrow> can_view_keys p"
    "strip requested \<noteq> [] \<Longrightarrow> k = strip requested" by blast+
next
  assume "kaggle_account_write_probe far s p requested = Inr (Inr (k, w))"
  then have v: "can_view_keys p" and "resolve_kaggle_key_id s p requested = Inr k"
    by (auto simp: kaggle_account_write_probe_def kaggle_account_probe_def selection_reply_def require_key_view_def map_sum_def
        split: if_splits sum.splits selection_error.splits)
  from resolved_account_granted [OF this(2) assms(1,2)] v show "key_enabled s k" "allows_key p k" "can_view_keys p" by blast+
next
  assume a: "kaggle_accounts known lookup far s p = Inr (Inr xs)"
  then show "can_view_keys p" by (auto simp: kaggle_accounts_def require_key_view_def split: if_splits)
  from a have l: "status_list (kaggle_account_status known lookup far s p) (public_allowed_key_ids s p) = Inr (Inr xs)"
    by (auto simp: kaggle_accounts_def split: option.splits)
  show "map fst xs = public_allowed_key_ids s p"
  proof (rule status_list_keys [OF l])
    fix k x
    assume k: "k \<in> set (public_allowed_key_ids s p)" and x: "kaggle_account_status known lookup far s p k = Inr (Inr x)"
    have "strip k = k" "k \<noteq> []"
      using k assms(1,3) by (auto simp: public_allowed_key_ids_def set_allowed_key_ids wf_keys_def)
    with requested_status_key [OF _ assms(1), of k known lookup p "fst x"] shown_key [of known lookup far s p k "fst x" "snd x"] x
    show "fst x = k" by simp
  qed
qed

text \<open>
  The probe of an account asks for one private dataset of the account's own user at most, under a name made
  for it, and deletes no other; whenever the remote side acknowledges the dataset its deletion is asked for,
  and the answer says so: it is positive only for an acknowledged dataset, and without an error only if the
  deletion succeeded.
\<close>

theorem probe_cleans_up:
  assumes "probe_username_write_access known cred process a = (es, v)"
  shows "es \<in> {[], [Creates (pv_dataset v)], [Creates (pv_dataset v), Deletes (pv_dataset v)]}
    \<and> (pv_created v \<longleftrightarrow> Deletes (pv_dataset v) \<in> set es)
    \<and> (pv_ok v \<longrightarrow> pv_created v) \<and> (pv_cleanup_ok v \<longrightarrow> pv_created v \<and> (\<exists>out. pa_delete a = Inr (0, out)))
    \<and> (pv_ok v \<and> pv_error v = [] \<longrightarrow> pv_cleanup_ok v)
    \<and> (es \<noteq> [] \<longrightarrow> pv_dataset v = strip (env_or_empty (call_env cred process) ''KAGGLE_USERNAME'')
         @ ''/relay-probe-'' @ take 12 (pa_hex a))"
proof -
  define u where "u = strip (env_or_empty (call_env cred process) ''KAGGLE_USERNAME'')"
  define ref where "ref = u @ ''/relay-probe-'' @ take 12 (pa_hex a)"
  have c: "fst (clean_up known d) \<Longrightarrow> \<exists>out. d = Inr (0, out)" for d
    by (auto simp: clean_up_def split: sum.splits if_splits)
  note r = assms [unfolded probe_username_write_access_def Let_def, folded u_def, folded ref_def]
  have "es \<in> {[], [Creates (pv_dataset v)], [Creates (pv_dataset v), Deletes (pv_dataset v)]}
    \<and> (pv_created v \<longleftrightarrow> Deletes (pv_dataset v) \<in> set es)
    \<and> (pv_ok v \<longrightarrow> pv_created v) \<and> (pv_cleanup_ok v \<longrightarrow> pv_created v \<and> (\<exists>out. pa_delete a = Inr (0, out)))
    \<and> (pv_ok v \<and> pv_error v = [] \<longrightarrow> pv_cleanup_ok v) \<and> (es \<noteq> [] \<longrightarrow> pv_dataset v = ref)"
  proof (cases "u = [] \<or> pa_files a \<noteq> None \<or> (\<forall>err. pa_create a \<noteq> Answers err \<or> strip err \<noteq> [])")
    case True
    with r show ?thesis by (auto simp: probe_result_def split: option.splits api_answer.splits if_splits)
  next
    case False
    then obtain err where e: "u \<noteq> []" "pa_files a = None" "pa_create a = Answers err" "strip err = []" by auto
    obtain cleaned cerr where d: "clean_up known (pa_delete a) = (cleaned, cerr)" by (cases "clean_up known (pa_delete a)")
    from c [of "pa_delete a"] r e d show ?thesis by (auto simp: probe_result_def split: option.splits if_splits)
  qed
  then show ?thesis unfolding ref_def u_def .
qed

end
