(* ===== verification/Config.thy ===== *)
theory Config
  imports Payload_Metadata Auth_Config
begin

text \<open>
  The settings of the relay (\<^verbatim>\<open>app/config.py\<close>): numbers read from the environment, trusted proxies, the public
  origin, and the checks of a settings object. The environment is a dictionary of texts; digits are ASCII.
  \<open>ip_norm\<close> and \<open>urlsplit\<close> are the parsers of addresses and of URLs as in \<^verbatim>\<open>Security\<close>, \<open>expand\<close> expands the home
  directory of a path. A number is an integer here, so that the checks of its Python type always pass.
\<close>

section \<open>Reading numbers\<close>

datatype settings_error = Runtime string | Value string

text \<open>\<^verbatim>\<open>int\<close> of a text: surrounding space, a sign, digits with single underscores between them, not too many.\<close>

definition digit_groups :: "string \<Rightarrow> int option" where
  "digit_groups s =
     (let gs = split_on (CHR ''_'') s in
      if list_all (\<lambda>g. g \<noteq> [] \<and> list_all is_digit g) gs \<and> length (concat gs) \<le> 4300
      then Some (digits_value (concat gs)) else None)"

definition python_int :: "string \<Rightarrow> int option" where
  "python_int s =
     (case strip s of
        [] \<Rightarrow> None
      | c # cs \<Rightarrow> if c = CHR ''-'' then map_option uminus (digit_groups cs)
          else if c = CHR ''+'' then digit_groups cs else digit_groups (c # cs))"

definition env_get :: "string dict \<Rightarrow> string \<Rightarrow> string \<Rightarrow> string" where
  "env_get env name preset = (case map_of env name of None \<Rightarrow> preset | Some v \<Rightarrow> v)"

definition read_positive_int :: "string dict \<Rightarrow> string \<Rightarrow> int \<Rightarrow> settings_error + int" where
  "read_positive_int env name preset =
     (case python_int (env_get env name (int_text preset)) of
        None \<Rightarrow> Inl (Runtime (name @ '' must be a positive integer''))
      | Some n \<Rightarrow> if n < 1 then Inl (Runtime (name @ '' must be a positive integer'')) else Inr n)"

definition read_int :: "string dict \<Rightarrow> string \<Rightarrow> int \<Rightarrow> settings_error + int" where
  "read_int env name preset =
     (case map_of env name of
        None \<Rightarrow> Inr preset
      | Some v \<Rightarrow> (case python_int v of None \<Rightarrow> Inl (Value (''invalid literal for int(): '' @ v)) | Some n \<Rightarrow> Inr n))"

fun read_proxies :: "(string \<Rightarrow> string option) \<Rightarrow> string list \<Rightarrow> settings_error + string list" where
  "read_proxies ip_norm [] = Inr []"
| "read_proxies ip_norm (v # vs) =
     (if strip v = [] then read_proxies ip_norm vs
      else case ip_norm (strip v) of
        None \<Rightarrow> Inl (Runtime (''RELAY_TRUSTED_PROXY_IPS contains an invalid IP: '' @ strip v))
      | Some p \<Rightarrow> map_sum id ((#) p) (read_proxies ip_norm vs))"

definition read_trusted_proxy_ips :: "(string \<Rightarrow> string option) \<Rightarrow> string dict \<Rightarrow> settings_error + string set" where
  "read_trusted_proxy_ips ip_norm env =
     map_sum id set (read_proxies ip_norm (split_on (CHR '','') (env_get env ''RELAY_TRUSTED_PROXY_IPS'' [])))"

section \<open>The public origin\<close>

definition strip_slashes :: "string \<Rightarrow> string" where
  "strip_slashes s = rev (dropWhile (\<lambda>c. c = CHR ''/'') (rev s))"

definition bad_origin :: settings_error where
  "bad_origin = Value ''public_origin must be an absolute HTTP(S) origin''"

definition normalize_public_origin :: "(string \<Rightarrow> split_url option) \<Rightarrow> string \<Rightarrow> settings_error + string" where
  "normalize_public_origin urlsplit v =
     (let origin = strip_slashes (strip v) in
      if origin = [] then Inr []
      else case urlsplit origin of
        None \<Rightarrow> Inl bad_origin
      | Some u \<Rightarrow>
          if lower (url_scheme u) \<notin> {''http'', ''https''} \<or> url_hostname u = [] \<or> url_username u \<noteq> [] \<or> url_password u \<noteq> []
             \<or> url_path u \<noteq> [] \<or> url_query u \<noteq> [] \<or> url_fragment u \<noteq> []
          then Inl bad_origin else Inr origin)"

section \<open>Settings\<close>

record relay_settings =
  api_token :: string
  storage_dir :: string
  chunk_size :: int
  retention_hours :: int
  dataset_poll_seconds :: int
  dataset_status_permission_grace_seconds :: int
  kernel_poll_seconds :: int
  kernel_max_wait_seconds :: int
  worker_count :: int
  assembly_workers :: int
  account_concurrency :: int
  command_timeout_seconds :: int
  transfer_timeout_seconds :: int
  receiving_retention_hours :: int
  receiving_timeout_hours :: int
  max_logs_per_job :: int
  max_active_jobs :: int
  max_active_jobs_per_user :: int
  max_archive_bytes :: int
  min_free_bytes :: int
  max_parallel_uploads :: int
  max_parallel_uploads_per_user :: int
  upload_idle_seconds :: int
  auth_failure_limit :: int
  auth_failure_window_seconds :: int
  auth_lockout_seconds :: int
  public_origin :: string
  trusted_proxy_ips :: "string set"
  kaggle_cmd :: string
  auth_config_path :: "string option"
  admin_token :: string

text \<open>The fields that must be positive, in the order they are checked.\<close>

definition positive_fields :: "relay_settings \<Rightarrow> int dict" where
  "positive_fields s =
     [(''worker_count'', worker_count s), (''assembly_workers'', assembly_workers s),
      (''account_concurrency'', account_concurrency s), (''command_timeout_seconds'', command_timeout_seconds s),
      (''transfer_timeout_seconds'', transfer_timeout_seconds s),
      (''receiving_retention_hours'', receiving_retention_hours s),
      (''receiving_timeout_hours'', receiving_timeout_hours s), (''max_logs_per_job'', max_logs_per_job s),
      (''max_active_jobs'', max_active_jobs s), (''max_active_jobs_per_user'', max_active_jobs_per_user s),
      (''max_archive_bytes'', max_archive_bytes s), (''max_parallel_uploads'', max_parallel_uploads s),
      (''max_parallel_uploads_per_user'', max_parallel_uploads_per_user s),
      (''upload_idle_seconds'', upload_idle_seconds s), (''auth_failure_limit'', auth_failure_limit s),
      (''auth_failure_window_seconds'', auth_failure_window_seconds s),
      (''auth_lockout_seconds'', auth_lockout_seconds s)]"

definition check_settings :: "(string \<Rightarrow> split_url option) \<Rightarrow> relay_settings \<Rightarrow> settings_error + relay_settings" where
  "check_settings urlsplit s =
     (case find (\<lambda>(_, n). n < 1) (positive_fields s) of
        Some (name, _) \<Rightarrow> Inl (Value (name @ '' must be a positive integer''))
      | None \<Rightarrow>
          if min_free_bytes s < 0 then Inl (Value ''min_free_bytes must be a non-negative integer'')
          else let adm = strip (admin_token s) in
            if adm \<noteq> [] \<and> auth_config_path s = None then Inl (Value ''admin_token requires auth_config_path'')
            else if adm \<noteq> [] \<and> length adm < min_admin_token_length
            then Inl (Value ''admin_token must be at least 8 characters'')
            else map_sum id (\<lambda>origin. s\<lparr>admin_token := adm, public_origin := origin\<rparr>)
                   (normalize_public_origin urlsplit (public_origin s)))"

section \<open>Settings from the environment\<close>

text \<open>The variables with numbers in the order they are read: whether they must be positive, and their defaults.\<close>

definition number_variables :: "(string \<times> bool \<times> int) list" where
  "number_variables =
     [(''RELAY_CHUNK_SIZE'', False, 64 * 1024 * 1024), (''RELAY_RETENTION_HOURS'', True, 168),
      (''RELAY_DATASET_POLL_SECONDS'', False, 20), (''RELAY_DATASET_STATUS_PERMISSION_GRACE_SECONDS'', False, 300),
      (''RELAY_KERNEL_POLL_SECONDS'', False, 60), (''RELAY_KERNEL_MAX_WAIT_SECONDS'', False, 12 * 60 * 60),
      (''RELAY_WORKER_COUNT'', True, 10), (''RELAY_ASSEMBLY_WORKERS'', True, 2),
      (''RELAY_ACCOUNT_CONCURRENCY'', True, 1), (''RELAY_COMMAND_TIMEOUT_SECONDS'', True, 300),
      (''RELAY_TRANSFER_TIMEOUT_SECONDS'', True, 7200), (''RELAY_RECEIVING_RETENTION_HOURS'', True, 168),
      (''RELAY_RECEIVING_TIMEOUT_HOURS'', True, 3), (''RELAY_MAX_LOGS_PER_JOB'', True, 2000),
      (''RELAY_MAX_ACTIVE_JOBS'', True, 40), (''RELAY_MAX_ACTIVE_JOBS_PER_USER'', True, 4),
      (''RELAY_MAX_ARCHIVE_BYTES'', True, 8 * 1024 ^ 3), (''RELAY_MIN_FREE_BYTES'', False, 5 * 1024 ^ 3),
      (''RELAY_MAX_PARALLEL_UPLOADS'', True, 40), (''RELAY_MAX_PARALLEL_UPLOADS_PER_USER'', True, 8),
      (''RELAY_UPLOAD_IDLE_SECONDS'', True, 60), (''RELAY_AUTH_FAILURE_LIMIT'', True, 10),
      (''RELAY_AUTH_FAILURE_WINDOW_SECONDS'', True, 60), (''RELAY_AUTH_LOCKOUT_SECONDS'', True, 300)]"

fun read_numbers :: "string dict \<Rightarrow> (string \<times> bool \<times> int) list \<Rightarrow> settings_error + int dict" where
  "read_numbers env [] = Inr []"
| "read_numbers env ((name, positive, preset) # vs) =
     (case (if positive then read_positive_int env name preset else read_int env name preset) of
        Inl e \<Rightarrow> Inl e
      | Inr n \<Rightarrow> map_sum id ((#) (name, n)) (read_numbers env vs))"

definition number :: "int dict \<Rightarrow> string \<Rightarrow> int" where
  "number ns name = the (map_of ns name)"

definition settings_of :: "string \<Rightarrow> string \<Rightarrow> string \<Rightarrow> int dict \<Rightarrow> string set \<Rightarrow> string dict \<Rightarrow> (string \<Rightarrow> string) \<Rightarrow> relay_settings" where
  "settings_of tok conf adm ns proxies env expand =
     \<lparr>api_token = tok, storage_dir = expand (env_get env ''RELAY_STORAGE_DIR'' ''/data''),
      chunk_size = number ns ''RELAY_CHUNK_SIZE'', retention_hours = number ns ''RELAY_RETENTION_HOURS'',
      dataset_poll_seconds = number ns ''RELAY_DATASET_POLL_SECONDS'',
      dataset_status_permission_grace_seconds = number ns ''RELAY_DATASET_STATUS_PERMISSION_GRACE_SECONDS'',
      kernel_poll_seconds = number ns ''RELAY_KERNEL_POLL_SECONDS'',
      kernel_max_wait_seconds = number ns ''RELAY_KERNEL_MAX_WAIT_SECONDS'',
      worker_count = number ns ''RELAY_WORKER_COUNT'', assembly_workers = number ns ''RELAY_ASSEMBLY_WORKERS'',
      account_concurrency = number ns ''RELAY_ACCOUNT_CONCURRENCY'',
      command_timeout_seconds = number ns ''RELAY_COMMAND_TIMEOUT_SECONDS'',
      transfer_timeout_seconds = number ns ''RELAY_TRANSFER_TIMEOUT_SECONDS'',
      receiving_retention_hours = number ns ''RELAY_RECEIVING_RETENTION_HOURS'',
      receiving_timeout_hours = number ns ''RELAY_RECEIVING_TIMEOUT_HOURS'',
      max_logs_per_job = number ns ''RELAY_MAX_LOGS_PER_JOB'', max_active_jobs = number ns ''RELAY_MAX_ACTIVE_JOBS'',
      max_active_jobs_per_user = number ns ''RELAY_MAX_ACTIVE_JOBS_PER_USER'',
      max_archive_bytes = number ns ''RELAY_MAX_ARCHIVE_BYTES'', min_free_bytes = number ns ''RELAY_MIN_FREE_BYTES'',
      max_parallel_uploads = number ns ''RELAY_MAX_PARALLEL_UPLOADS'',
      max_parallel_uploads_per_user = number ns ''RELAY_MAX_PARALLEL_UPLOADS_PER_USER'',
      upload_idle_seconds = number ns ''RELAY_UPLOAD_IDLE_SECONDS'',
      auth_failure_limit = number ns ''RELAY_AUTH_FAILURE_LIMIT'',
      auth_failure_window_seconds = number ns ''RELAY_AUTH_FAILURE_WINDOW_SECONDS'',
      auth_lockout_seconds = number ns ''RELAY_AUTH_LOCKOUT_SECONDS'',
      public_origin = env_get env ''RELAY_PUBLIC_ORIGIN'' [], trusted_proxy_ips = proxies,
      kaggle_cmd = env_get env ''KAGGLE_CMD'' ''kaggle'',
      auth_config_path = (if conf = [] then None else Some (expand conf)), admin_token = adm\<rparr>"

definition from_env ::
  "(string \<Rightarrow> string option) \<Rightarrow> (string \<Rightarrow> split_url option) \<Rightarrow> (string \<Rightarrow> string) \<Rightarrow> string dict
   \<Rightarrow> settings_error + relay_settings" where
  "from_env ip_norm urlsplit expand env =
     (let tok = strip (env_get env ''RELAY_API_TOKEN'' []); conf = strip (env_get env ''RELAY_AUTH_CONFIG'' []);
          adm = strip (env_get env ''RELAY_ADMIN_TOKEN'' []) in
      if adm \<noteq> [] \<and> conf = [] then Inl (Runtime ''RELAY_ADMIN_TOKEN requires RELAY_AUTH_CONFIG'')
      else if adm \<noteq> [] \<and> length adm < min_admin_token_length
      then Inl (Runtime ''RELAY_ADMIN_TOKEN must be at least 8 characters'')
      else if tok = [] \<and> conf = [] then Inl (Runtime ''RELAY_API_TOKEN or RELAY_AUTH_CONFIG is required'')
      else case read_numbers env number_variables of
        Inl e \<Rightarrow> Inl e
      | Inr ns \<Rightarrow>
          (case read_trusted_proxy_ips ip_norm env of
             Inl e \<Rightarrow> Inl e
           | Inr proxies \<Rightarrow> check_settings urlsplit (settings_of tok conf adm ns proxies env expand)))"

section \<open>Properties\<close>

definition bare_origin :: "(string \<Rightarrow> split_url option) \<Rightarrow> string \<Rightarrow> bool" where
  "bare_origin urlsplit origin \<longleftrightarrow>
     (\<exists>u. urlsplit origin = Some u \<and> lower (url_scheme u) \<in> {''http'', ''https''} \<and> url_hostname u \<noteq> []
        \<and> url_username u = [] \<and> url_password u = [] \<and> url_path u = [] \<and> url_query u = [] \<and> url_fragment u = [])"

definition sound_settings :: "(string \<Rightarrow> split_url option) \<Rightarrow> relay_settings \<Rightarrow> bool" where
  "sound_settings urlsplit s \<longleftrightarrow>
     list_all (\<lambda>(_, n). 1 \<le> n) (positive_fields s) \<and> 0 \<le> min_free_bytes s
     \<and> (admin_token s = [] \<or> auth_config_path s \<noteq> None \<and> min_admin_token_length \<le> length (admin_token s))
     \<and> (public_origin s = [] \<or> bare_origin urlsplit (public_origin s))"

lemma normalized_origin:
  "normalize_public_origin urlsplit v = Inr origin \<Longrightarrow> origin = [] \<or> bare_origin urlsplit origin"
  by (auto simp: normalize_public_origin_def bare_origin_def Let_def split: if_splits option.splits)

lemma check_settingsD:
  assumes "check_settings urlsplit s = Inr t"
  shows "sound_settings urlsplit t \<and> (\<exists>adm origin. t = s\<lparr>admin_token := adm, public_origin := origin\<rparr>)"
proof -
  from assms have none: "find (\<lambda>(_, n). n < 1) (positive_fields s) = None"
    and free: "\<not> min_free_bytes s < 0"
    by (auto simp: check_settings_def split: option.splits if_splits)
  define adm where "adm = strip (admin_token s)"
  from assms none free have adm: "adm = [] \<or> auth_config_path s \<noteq> None \<and> min_admin_token_length \<le> length adm"
    and "\<exists>origin. normalize_public_origin urlsplit (public_origin s) = Inr origin
      \<and> t = s\<lparr>admin_token := adm, public_origin := origin\<rparr>"
    by (auto simp: check_settings_def adm_def Let_def map_sum_def split: if_splits sum.splits)
  then obtain origin where o: "normalize_public_origin urlsplit (public_origin s) = Inr origin"
    "t = s\<lparr>admin_token := adm, public_origin := origin\<rparr>" by blast
  have "positive_fields t = positive_fields s" by (simp add: o(2) positive_fields_def)
  moreover have "list_all (\<lambda>(_, n). 1 \<le> n) (positive_fields s)"
    using none by (auto simp: find_None_iff list_all_iff not_less)
  ultimately have "sound_settings urlsplit t"
    using adm free normalized_origin [OF o(1)] by (simp add: sound_settings_def o(2))
  with o(2) show ?thesis by blast
qed

lemma read_numbers_positive:
  "read_numbers env vs = Inr ns \<Longrightarrow> (name, True, d) \<in> set vs \<Longrightarrow> distinct (map fst vs) \<Longrightarrow>
     \<exists>n. map_of ns name = Some n \<and> 1 \<le> n"
proof (induction env vs arbitrary: ns rule: read_numbers.induct)
  case (2 env x positive preset vs)
  from "2.prems"(1) obtain n ms where n: "(if positive then read_positive_int env x preset else read_int env x preset) = Inr n"
    "read_numbers env vs = Inr ms" "ns = (x, n) # ms"
    by (auto simp: map_sum_def split: sum.splits)
  show ?case
  proof (cases "name = x")
    case True
    then have "positive" using "2.prems"(2,3) by force
    then have "1 \<le> n" using n(1) by (auto simp: read_positive_int_def split: option.splits if_splits)
    with True n(3) show ?thesis by simp
  next
    case False
    then have "(name, True, d) \<in> set vs" using "2.prems"(2) by auto
    from "2.IH" [OF n(1) n(2) this] "2.prems"(3) n(3) False show ?thesis by auto
  qed
qed simp

text \<open>Numbers are taken as they are written: the decimal text of a number reads back as the number.\<close>

lemma digits_value_snoc: "digits_value (s @ [c]) = 10 * digits_value s + (of_char c - 48)"
  by (simp add: digits_value_def)

lemma digit_facts: "d < 10 \<Longrightarrow> is_digit (char_of (48 + d :: nat)) \<and> (of_char (char_of (48 + d :: nat) :: char) :: int) = 48 + int d"
proof -
  assume "d < 10"
  then have "is_digit (char_of (48 + d :: nat))" by (simp add: is_digit_def)
  moreover have "(of_char (char_of (48 + d :: nat) :: char) :: int) = int (of_char (char_of (48 + d :: nat) :: char))"
    by (rule of_nat_of_char [symmetric])
  moreover have "(of_char (char_of (48 + d :: nat) :: char) :: nat) = (48 + d) mod 256" by (rule of_char_of)
  ultimately show ?thesis using \<open>d < 10\<close> by auto
qed

lemma nat_text_read: "digits_value (nat_text n) = int n \<and> list_all is_digit (nat_text n) \<and> nat_text n \<noteq> []"
proof (induction n rule: nat_text.induct)
  case (1 n)
  have t: "nat_text n = (if n < 10 then [] else nat_text (n div 10)) @ [char_of (48 + n mod 10)]" by (rule nat_text.simps)
  have d: "is_digit (char_of (48 + n mod 10))" "(of_char (char_of (48 + n mod 10) :: char) :: int) = 48 + int (n mod 10)"
    using digit_facts [of "n mod 10"] by simp_all
  have v: "digits_value (if n < 10 then [] else nat_text (n div 10)) = int (n div 10)"
    using 1 by (simp add: digits_value_def)
  have "digits_value (nat_text n) = 10 * int (n div 10) + int (n mod 10)"
    unfolding t digits_value_snoc v d(2) by simp
  moreover have "list_all is_digit (nat_text n)" unfolding t using 1 d(1) by (cases "n < 10") simp_all
  moreover have "nat_text n \<noteq> []" unfolding t by simp
  ultimately show ?case by (metis mult_div_mod_eq of_nat_add of_nat_mult of_nat_numeral)
qed

theorem numbers_as_written:
  assumes "1 \<le> n" and "length (int_text n) \<le> 4300" and "map_of env name = Some (int_text n)"
  shows "read_positive_int env name preset = Inr n"
proof -
  let ?t = "nat_text (nat n)"
  have t: "int_text n = ?t" "strip (int_text n) = int_text n" using assms(1) version_text [of n] by (simp_all add: int_text_def)
  have d: "digits_value ?t = n" "list_all is_digit ?t" "?t \<noteq> []" using nat_text_read [of "nat n"] assms(1) by simp_all
  have no: "CHR ''_'' \<notin> set ?t" "hd ?t \<noteq> CHR ''-''" "hd ?t \<noteq> CHR ''+''"
  proof -
    have "\<not> is_digit (CHR ''_'')" "\<not> is_digit (CHR ''-'')" "\<not> is_digit (CHR ''+'')" by code_simp+
    moreover have "is_digit (hd ?t)" using d(2,3) by (simp add: list_all_iff)
    ultimately show "CHR ''_'' \<notin> set ?t" "hd ?t \<noteq> CHR ''-''" "hd ?t \<noteq> CHR ''+''"
      using d(2) by (metis list_all_iff)+
  qed
  have "split_on (CHR ''_'') ?t = [?t]" using no(1) by (rule split_on_plain)
  then have "digit_groups ?t = Some n" using d assms(2) t(1) by (simp add: digit_groups_def Let_def)
  then have "python_int (int_text n) = Some n"
    using d(3) no(2,3) t by (cases ?t) (auto simp: python_int_def)
  then show ?thesis using assms by (simp add: read_positive_int_def env_get_def)
qed

lemma nat_text_length: "n < 10 ^ k \<Longrightarrow> 0 < k \<Longrightarrow> length (nat_text n) \<le> k"
proof (induction k arbitrary: n)
  case (Suc k)
  show ?case
  proof (cases "n < 10")
    case True
    then show ?thesis by (simp add: nat_text.simps [of n])
  next
    case False
    then have "0 < k" using Suc.prems(1) by (cases k) auto
    moreover have "n div 10 < 10 ^ k" using Suc.prems(1) by (simp add: less_mult_imp_div_less mult.commute)
    ultimately show ?thesis using Suc.IH [of "n div 10"] False by (subst nat_text.simps) simp
  qed
qed simp

lemma preset_read:
  assumes "map_of env name = None" and "1 \<le> preset" and "preset < 10 ^ 12"
  shows "read_positive_int env name preset = Inr preset"
proof -
  have "nat preset < 10 ^ 12" using assms(3) by (simp add: nat_less_iff)
  then have "length (int_text preset) \<le> 4300"
    using nat_text_length [of "nat preset" 12] assms(2) by (simp add: int_text_def)
  then have "read_positive_int [(name, int_text preset)] name preset = Inr preset"
    by (intro numbers_as_written) (use assms(2) in simp_all)
  then show ?thesis using assms(1) by (simp add: read_positive_int_def env_get_def)
qed

lemma presets_read:
  "list_all (\<lambda>(x, positive, d). map_of env x = None \<and> 1 \<le> d \<and> d < 10 ^ 12) vs \<Longrightarrow>
     read_numbers env vs = Inr (map (\<lambda>(x, positive, d). (x, d)) vs)"
  by (induction vs) (auto simp: preset_read read_int_def)

text \<open>
  Settings read from the environment are sound: every limit, count and timeout that the relay relies on is
  positive (the retention included) and the free space to keep is not negative, an administrator's token has
  eight characters at least and comes with an access configuration, some access is configured, and a public
  origin is a bare scheme, host and port.
\<close>

theorem settings_are_sound:
  assumes "from_env ip_norm urlsplit expand env = Inr s"
  shows "sound_settings urlsplit s \<and> 1 \<le> retention_hours s \<and> (api_token s \<noteq> [] \<or> auth_config_path s \<noteq> None)"
proof -
  let ?tok = "strip (env_get env ''RELAY_API_TOKEN'' [])" and ?conf = "strip (env_get env ''RELAY_AUTH_CONFIG'' [])"
  let ?adm = "strip (env_get env ''RELAY_ADMIN_TOKEN'' [])"
  from assms obtain ns proxies where r: "read_numbers env number_variables = Inr ns" "?tok \<noteq> [] \<or> ?conf \<noteq> []"
    "check_settings urlsplit (settings_of ?tok ?conf ?adm ns proxies env expand) = Inr s"
    by (auto simp: from_env_def Let_def split: if_splits sum.splits)
  from check_settingsD [OF r(3)] obtain adm origin where s: "sound_settings urlsplit s"
    "s = (settings_of ?tok ?conf ?adm ns proxies env expand)\<lparr>admin_token := adm, public_origin := origin\<rparr>" by blast
  have "(''RELAY_RETENTION_HOURS'', True, 168) \<in> set number_variables" by (simp add: number_variables_def)
  moreover have "distinct (map fst number_variables)" by code_simp
  ultimately obtain n where n: "map_of ns ''RELAY_RETENTION_HOURS'' = Some n" "1 \<le> n"
    using read_numbers_positive [OF r(1)] by blast
  have "retention_hours s = n" using n(1) by (simp add: s(2) settings_of_def number_def)
  moreover have "api_token s \<noteq> [] \<or> auth_config_path s \<noteq> None" using r(2) by (simp add: s(2) settings_of_def)
  ultimately show ?thesis using s(1) n(2) by simp
qed

text \<open>
  An origin whose host has dots only passes the checks, but has no key: any request whose own origin has none
  either, such as the origin \<^verbatim>\<open>null\<close> of a sandboxed page, then counts as one of the same origin.
\<close>

lemma dots_origin_admits_null:
  assumes "urlsplit ''https://.'' = Some \<lparr>url_scheme = ''https'', url_hostname = ''.'', url_port = None, url_username = [],
      url_password = [], url_path = [], url_query = [], url_fragment = []\<rparr>"
    and "urlsplit ''null'' = Some \<lparr>url_scheme = [], url_hostname = [], url_port = None, url_username = [],
      url_password = [], url_path = ''null'', url_query = [], url_fragment = []\<rparr>"
  shows "normalize_public_origin urlsplit ''https://.'' = Inr ''https://.''
    \<and> is_same_origin_request urlsplit ''null'' url ''https://.''"
proof -
  have "strip_slashes (strip ''https://.'') = ''https://.''" "strip ''null'' = ''null''" "strip ''https://.'' = ''https://.''"
    "lower ''https'' = ''https''" "strip_dots (lower ''.'') = []" "lower [] = []"
    by code_simp+
  then show ?thesis
    using assms by (simp add: normalize_public_origin_def is_same_origin_request_def origin_key_def Let_def)
qed

end
