(* ===== verification/Command_Line.thy ===== *)
theory Command_Line
  imports Account_Status Child_Process Config
begin

text \<open>
  The command line of the remote service (\<^verbatim>\<open>KaggleAdapter._run\<close>, \<^verbatim>\<open>_communicate\<close> and \<^verbatim>\<open>_stop_process\<close> of
  \<^verbatim>\<open>app/kaggle_adapter.py\<close>) and the calls that use it: what a command is started with, how it is watched and
  stopped, what of its output is written to the log and what is returned. How the process behaves is a parameter:
  whether it starts, what the looks at it find, and how it ends when it is asked to. The shape of the log is a list
  of entries. Regular expressions for the names of files are handed to the command as they are and are a parameter.
\<close>

section \<open>Stopping a process\<close>

datatype signal = Terminate_process | Terminate_group | Kill_process | Kill_group

text \<open>Its whole output; it ends within the five seconds that it is given, or not before it is killed.\<close>

datatype ending = Ends_in_time string | Has_to_be_killed string

text \<open>A group is signalled even if its leader has ended: descendants may keep the output open.\<close>

definition stop_process :: "bool \<Rightarrow> bool \<Rightarrow> ending \<Rightarrow> signal list \<times> string" where
  "stop_process in_group alive e =
     (let first = (if in_group then [Terminate_group] else if alive then [Terminate_process] else []) in
      case e of
        Ends_in_time out \<Rightarrow> (first, out)
      | Has_to_be_killed out \<Rightarrow> (first @ [if in_group then Kill_group else Kill_process], out))"

section \<open>A child\<close>

record child =
  ch_start :: "exc option"
  ch_looks :: "child_look list"
  ch_alive :: bool
  ch_end :: ending

definition log_entry :: "string \<Rightarrow> string list" where
  "log_entry out = (if out = [] then [] else [last_chars 4000 out])"

definition without_result :: "string \<Rightarrow> string" where
  "without_result out = join newline (filter (\<lambda>l. \<not> prefix result_mark l) (splitlines out))"

record finished_child =
  fc_code :: int
  fc_output :: string

text \<open>
  \<open>given\<close> says that the child gets its request on its input: it is then a child of the relay itself, and its output
  is returned as it is. \<^const>\<open>None\<close>: the child is still watched after all these looks.
\<close>

definition run_child ::
  "string list \<Rightarrow> bool \<Rightarrow> bool \<Rightarrow> bool \<Rightarrow> time \<Rightarrow> child \<Rightarrow> ((exc + finished_child) \<times> string list \<times> signal list) option" where
  "run_child known given check in_group deadline c =
     (case ch_start c of
        Some e \<Rightarrow> Some (Inl e, [], [])
      | None \<Rightarrow>
          (case communicate deadline (ch_looks c) of
             None \<Rightarrow> None
           | Some (Inl e) \<Rightarrow>
               (case stop_process in_group (ch_alive c) (ch_end c) of
                  (sent, out) \<Rightarrow> Some (Inl e, log_entry (redact_secrets known out), sent))
           | Some (Inr (code, out)) \<Rightarrow>
               let output = redact_secrets known out in
               Some (if check \<and> code \<noteq> 0 then Inl (command_failed known code out)
                     else Inr \<lparr>fc_code = code, fc_output = (if given then out else output)\<rparr>,
                   log_entry (without_result output), [])))"

section \<open>A command\<close>

definition is_transfer :: "string list \<Rightarrow> bool" where
  "is_transfer args \<longleftrightarrow>
     (case args of a # b # _ \<Rightarrow> a = ''kernels'' \<and> b \<in> {''push'', ''output''} | _ \<Rightarrow> False)"

text \<open>The secrets of the process after those of the account are among them.\<close>

definition registered :: "credentials option \<Rightarrow> env \<Rightarrow> string list \<Rightarrow> string list" where
  "registered cred process known =
     (let e = call_env cred process
      in register_secret (env_or_empty e ''KAGGLE_API_TOKEN'') (register_secret (env_or_empty e ''KAGGLE_KEY'') known))"

record adapter =
  ad_settings :: relay_settings
  ad_credentials :: "credentials option"
  ad_process_env :: env
  ad_known :: "string list"
  ad_in_child :: bool
  ad_posix :: bool

record moment_view =
  mv_now :: time
  mv_interrupt :: "exc option"
  mv_no_space :: "exc option"
  mv_config_dir :: string
  mv_child :: "env \<Rightarrow> string list \<Rightarrow> child"

definition run_args :: "adapter \<Rightarrow> moment_view \<Rightarrow> string list \<Rightarrow> bool \<Rightarrow> (exc + finished_child) option \<times> string list" where
  "run_args a m args check =
     (let cmd = kaggle_cmd (ad_settings a) # args; shown = ''[CMD] '' @ redact_secrets (ad_known a) (join '' '' cmd);
          limit = (if is_transfer args then transfer_timeout_seconds (ad_settings a) else command_timeout_seconds (ad_settings a));
          known = registered (ad_credentials a) (ad_process_env a) (ad_known a) in
      case fst (run_command (ad_credentials a) (ad_process_env a) (mv_interrupt m) (if is_transfer args then mv_no_space m else None)
          (mv_config_dir m)
          (\<lambda>e. Inr (run_child known False check (ad_posix a \<and> \<not> ad_in_child a) (mv_now m + of_int limit) (mv_child m e cmd)))
          (ad_known a)) of
        Inl e \<Rightarrow> (Some (Inl e), [shown])
      | Inr None \<Rightarrow> (None, [shown])
      | Inr (Some (r, lines_out, _)) \<Rightarrow> (Some r, shown # lines_out))"

section \<open>Calls\<close>

text \<open>The text of a call's result.\<close>

definition output_of :: "(exc + finished_child) option \<times> string list \<Rightarrow> (exc + string) option \<times> string list" where
  "output_of = apfst (map_option (map_sum id fc_output))"

definition push_kernel_call :: "adapter \<Rightarrow> moment_view \<Rightarrow> string \<Rightarrow> (exc + string) option \<times> string list" where
  "push_kernel_call a m dir = output_of (run_args a m [''kernels'', ''push'', ''-p'', dir] True)"

definition dataset_status_call :: "adapter \<Rightarrow> moment_view \<Rightarrow> string \<Rightarrow> (exc + string) option \<times> string list" where
  "dataset_status_call a m ref =
     apfst (map_option (\<lambda>r. case r of
         Inl e \<Rightarrow> Inl e
       | Inr f \<Rightarrow>
           let text = strip (fc_output f); out = (if text \<noteq> [] then text else ''returncode='' @ int_text (fc_code f)) in
           if fc_code f \<noteq> 0 then Inl (runtime_error (''Dataset status failed:'' @ newline @ out)) else Inr out))
       (run_args a m [''datasets'', ''status'', ref] False)"

text \<open>The directory is emptied before; a command that fails is no exception, its text is returned.\<close>

definition download_output ::
  "string dict \<Rightarrow> adapter \<Rightarrow> moment_view \<Rightarrow> string \<Rightarrow> string \<Rightarrow> string \<Rightarrow> (exc + string) option \<times> string list" where
  "download_output patterns a m ref dir contract =
     (case map_of patterns contract of
        None \<Rightarrow> (Some (Inl (runtime_error (''unknown artifact contract: '' @ contract))), [])
      | Some pat \<Rightarrow>
          output_of (run_args a m [''kernels'', ''output'', ref, ''-p'', dir, ''--force'', ''--file-pattern'', pat] False))"

text \<open>The owner that is asked about when none is given.\<close>

definition configured_owner :: "adapter \<Rightarrow> string \<Rightarrow> string" where
  "configured_owner a given =
     (if given \<noteq> [] then given
      else case ad_credentials a of
        Some c \<Rightarrow> username c
      | None \<Rightarrow> env_or_empty (call_env None (ad_process_env a)) ''KAGGLE_USERNAME'')"

text \<open>In the process itself; \<open>login\<close> signs in with the environment of the account and gives the claims.\<close>

definition identity_call :: "adapter \<Rightarrow> (env \<Rightarrow> exc + principal_claims) \<Rightarrow> string \<Rightarrow> (exc + identity) \<times> env" where
  "identity_call a login given =
     temporary_kaggle_env (ad_credentials a)
       (\<lambda>e. (case login e of Inl x \<Rightarrow> Inl x | Inr c \<Rightarrow> authenticated_identity c (configured_owner a given), e))
       (ad_process_env a)"

text \<open>What the library answers about a dataset; only a refusal with status 404 means that there is none.\<close>

datatype status_answer = Known_dataset | Refused_with "int option" exc

definition dataset_exists :: "adapter \<Rightarrow> (env \<Rightarrow> status_answer) \<Rightarrow> (exc + bool) \<times> env" where
  "dataset_exists a ask =
     temporary_kaggle_env (ad_credentials a)
       (\<lambda>e. (case ask e of
            Known_dataset \<Rightarrow> Inr True
          | Refused_with code x \<Rightarrow> if code = Some 404 then Inr False else Inl x, e))
       (ad_process_env a)"

section \<open>What leaves a command\<close>

lemma redacted_gone:
  assumes "s \<in> set ws" and "s \<noteq> []" and "CHR ''*'' \<notin> set s"
  shows "\<not> contains s (redact_secrets ws text)"
proof -
  have "\<not> contains s (fold replace_all (sort_key (\<lambda>s. - int (length s)) ws) text)"
    using assms by (intro fold_replace_gone) simp_all
  then show ?thesis using contains_fold_sub [OF assms(3,2)] by (auto simp: redact_secrets_def)
qed

lemma contains_last_chars: "contains s (last_chars n t) \<Longrightarrow> contains s t"
  unfolding last_chars_def by (rule contains_drop)

lemma contains_set: "contains s t \<Longrightarrow> set s \<subseteq> set t"
  unfolding contains_iff by auto

text \<open>A secret without line breaks that is in the lines of a text is in one of them.\<close>

lemma contains_across:
  assumes "contains s (a @ c # b)" and "c \<notin> set s"
  shows "contains s a \<or> contains s b"
  using assms
proof (induction a)
  case Nil
  then show ?case by (cases s) auto
next
  case (Cons x a)
  have "prefix s (x # a)" if p: "prefix s (x # a @ c # b)"
  proof -
    from p obtain r where r: "x # a @ c # b = s @ r" by (auto simp: prefix_def)
    have "length s \<le> length (x # a)"
    proof (rule ccontr)
      assume "\<not> length s \<le> length (x # a)"
      then have "(x # a @ c # b) ! length (x # a) = s ! length (x # a)" using r by (simp add: nth_append)
      moreover have "(x # a @ c # b) ! length (x # a) = c" by (simp add: nth_append)
      ultimately have "c \<in> set s" using \<open>\<not> length s \<le> length (x # a)\<close> by (metis not_le nth_mem)
      with assms(2) show False by blast
    qed
    then show ?thesis using p by (metis append_Cons prefix_length_prefix prefix_def)
  qed
  with Cons show ?case by auto
qed

lemma contains_join:
  "contains s (join newline ls) \<Longrightarrow> CHR 0x0A \<notin> set s \<Longrightarrow> s \<noteq> [] \<Longrightarrow> \<exists>l \<in> set ls. contains s l"
proof (induction ls rule: induct_list012)
  case (3 x y zs)
  then show ?case using contains_across [of s x "CHR 0x0A" "join newline (y # zs)"] by (auto simp: newline_def)
qed auto

lemma lines_from_contains:
  "l \<in> set (lines_from acc t) \<Longrightarrow> contains s l \<Longrightarrow> contains s (rev acc @ t)"
proof (induction acc t rule: lines_from.induct)
  case (2 acc c cs)
  consider "l = rev acc" | "l \<in> set (lines_from [] (tl cs))" "cs \<noteq> []" "of_char c = (13::nat)" "of_char (hd cs) = (10::nat)"
    | "l \<in> set (lines_from [] cs)" "line_break c" "\<not> (of_char c = (13::nat) \<and> cs \<noteq> [] \<and> of_char (hd cs) = (10::nat))"
    | "l \<in> set (lines_from (c # acc) cs)" "\<not> line_break c" "\<not> (of_char c = (13::nat) \<and> cs \<noteq> [] \<and> of_char (hd cs) = (10::nat))"
    using 2(4) by (auto split: if_splits)
  then show ?case
  proof cases
    case 1
    with 2(5) show ?thesis by (simp add: contains_appendI)
  next
    case 2
    with "2.IH"(1) "2.prems"(2) have "contains s (tl cs)" by simp
    then show ?thesis using contains_appendI(2) [of s "tl cs" "rev acc @ [c, hd cs]"] 2(2) by simp
  next
    case 3
    with "2.IH"(2) "2.prems"(2) have "contains s cs" by simp
    then show ?thesis using contains_appendI(2) [of s cs "rev acc @ [c]"] by simp
  next
    case 4
    with "2.IH"(3) "2.prems"(2) show ?thesis by simp
  qed
qed (auto split: if_splits)

lemma contains_without_result:
  assumes "contains s (without_result t)" and "CHR 0x0A \<notin> set s" and "s \<noteq> []"
  shows "contains s t"
proof -
  from assms obtain l where "l \<in> set (splitlines t)" "contains s l"
    unfolding without_result_def using contains_join by fastforce
  with lines_from_contains [of l "[]" t s] show ?thesis by (simp add: splitlines_def)
qed

lemma registered_account:
  assumes "name \<in> {''KAGGLE_KEY'', ''KAGGLE_API_TOKEN''}" and "s = strip (env_or_empty (call_env cred process) name)" and "s \<noteq> []"
  shows "s \<in> set (registered cred process known)"
  using assms by (auto simp: registered_def register_secret_def Let_def)

lemma registered_before: "set known \<subseteq> set (registered cred process known)"
  by (auto simp: registered_def register_secret_def Let_def)

text \<open>
  C35: A command of an account never passes on the credentials it runs with. Its first entry of the log shows the
  command line, without any secret the relay had registered before; neither the entries that come from its output nor
  the output it returns contain the key or the token of the account, or any other secret of the relay, however the
  command ended, whichever account it is for and whatever it printed (secrets have no line breaks and, as the mask
  consists of them, no stars).
\<close>

theorem commands_leak_no_secret:
  assumes "run_args a m args check = (r, logged_lines)"
    and "s \<in> set (ad_known a) \<or> (\<exists>name \<in> {''KAGGLE_KEY'', ''KAGGLE_API_TOKEN''}.
      s = strip (env_or_empty (call_env (ad_credentials a) (ad_process_env a)) name))"
    and "s \<noteq> []" and "CHR ''*'' \<notin> set s" and "CHR 0x0A \<notin> set s"
  shows "\<exists>line lines_out. logged_lines = (''[CMD] '' @ line) # lines_out
    \<and> (s \<in> set (ad_known a) \<longrightarrow> \<not> contains s line)
    \<and> (\<forall>e \<in> set lines_out. \<not> contains s e \<and> length e \<le> 4000)
    \<and> (\<forall>f. r = Some (Inr f) \<longrightarrow> \<not> contains s (fc_output f) \<and> (check \<longrightarrow> fc_code f = 0))"
proof -
  let ?known = "registered (ad_credentials a) (ad_process_env a) (ad_known a)"
  let ?line = "redact_secrets (ad_known a) (join '' '' (kaggle_cmd (ad_settings a) # args))"
  have "s \<in> set ?known" using assms(2,3) registered_account registered_before by blast
  then have gone: "\<not> contains s (redact_secrets ?known t)" for t using assms(3,4) by (rule redacted_gone)
  have line: "\<not> contains s ?line" if "s \<in> set (ad_known a)" using that assms(3,4) by (rule redacted_gone)
  have entry: "\<not> contains s e \<and> length e \<le> 4000" if "e \<in> set (log_entry t)" "\<not> contains s t" for e t
    using that contains_last_chars length_last_chars by (auto simp: log_entry_def split: if_splits)
  have shown: "\<not> contains s (without_result (redact_secrets ?known t))" for t
    using gone contains_without_result [OF _ assms(5,3)] by blast
  obtain lines_out where e: "logged_lines = (''[CMD] '' @ ?line) # lines_out"
    using assms(1) by (auto simp: run_args_def Let_def split: sum.splits option.splits prod.splits)
  have "(\<forall>e \<in> set lines_out. \<not> contains s e \<and> length e \<le> 4000)
    \<and> (\<forall>f. r = Some (Inr f) \<longrightarrow> \<not> contains s (fc_output f) \<and> (check \<longrightarrow> fc_code f = 0))"
  proof (cases "lines_out = [] \<and> (\<forall>f. r \<noteq> Some (Inr f))")
    case False
    with assms(1) e obtain c sent deadline in_group where
      c: "run_child ?known False check in_group deadline c = Some (the r, lines_out, sent)" "r \<noteq> None"
      by (auto simp: run_args_def run_command_def Let_def split: option.splits sum.splits if_splits)
    then show ?thesis
      unfolding run_child_def Let_def
      using entry [OF _ gone] entry [OF _ shown] gone
      by (auto split: option.splits sum.splits prod.splits if_splits)
  qed simp
  with e line show ?thesis by blast
qed

text \<open>A command is not watched beyond its deadline.\<close>

lemma watched_until_deadline:
  "\<exists>l \<in> set ls. case l of Exited _ _ \<Rightarrow> True | Running e now \<Rightarrow> e \<noteq> None \<or> deadline \<le> now \<Longrightarrow> communicate deadline ls \<noteq> None"
proof (induction ls)
  case (Cons l ls)
  then show ?case by (cases l) (auto split: option.splits)
qed simp

section \<open>An example\<close>

definition plain_settings :: relay_settings where
  "plain_settings = \<lparr>api_token = [], storage_dir = [], chunk_size = 60, retention_hours = 60, dataset_poll_seconds = 60,
     dataset_status_permission_grace_seconds = 60, kernel_poll_seconds = 60, kernel_max_wait_seconds = 60,
     worker_count = 60, assembly_workers = 60, account_concurrency = 60, command_timeout_seconds = 60,
     transfer_timeout_seconds = 60, receiving_retention_hours = 60, receiving_timeout_hours = 60, max_logs_per_job
     = 60, max_active_jobs = 60, max_active_jobs_per_user = 60, max_archive_bytes = 60, min_free_bytes = 60,
     max_parallel_uploads = 60, max_parallel_uploads_per_user = 60, upload_idle_seconds = 60, auth_failure_limit =
     60, auth_failure_window_seconds = 60, auth_lockout_seconds = 60, public_origin = [], trusted_proxy_ips = {},
     kaggle_cmd = ''kaggle'', auth_config_path = None, admin_token = []\<rparr>"

definition sample_adapter :: adapter where
  "sample_adapter = \<lparr>ad_settings = plain_settings, ad_credentials = None,
     ad_process_env = [(''KAGGLE_KEY'', ''hunter2'')], ad_known = [], ad_in_child = False, ad_posix = True\<rparr>"

definition sample_moment :: moment_view where
  "sample_moment = \<lparr>mv_now = 0, mv_interrupt = None, mv_no_space = None, mv_config_dir = ''c'',
     mv_child = (\<lambda>_ _. \<lparr>ch_start = None, ch_looks = [Running None 1, Exited 0 ''key hunter2 ok''], ch_alive = False, ch_end = Ends_in_time []\<rparr>)\<rparr>"

definition sample_command :: "(exc + finished_child) option \<times> string list" where
  "sample_command = run_args sample_adapter sample_moment [''config'', ''view''] True"

lemma sample_command:
  "\<exists>known shown out. sample_command = (Some (Inr \<lparr>fc_code = 0, fc_output = redact_secrets known ''key hunter2 ok''\<rparr>), shown # out)"
  by (simp add: sample_command_def run_args_def run_command_def run_child_def sample_moment_def sample_adapter_def plain_settings_def
      is_transfer_def Let_def) blast

lemma commands_leak_no_secret_witness:
  "\<exists>f. fst sample_command = Some (Inr f) \<and> \<not> contains ''hunter2'' (fc_output f) \<and> list_all (\<lambda>e. \<not> contains ''hunter2'' e) (tl (snd sample_command))"
proof -
  have own: "''hunter2'' = strip (env_or_empty (call_env (ad_credentials sample_adapter) (ad_process_env sample_adapter)) ''KAGGLE_KEY'')"
    by code_simp
  have plain: "''hunter2'' \<noteq> []" "CHR ''*'' \<notin> set ''hunter2''" "CHR 0x0A \<notin> set ''hunter2''" by simp_all
  from sample_command obtain known shown out where r: "run_args sample_adapter sample_moment [''config'', ''view''] True
      = (Some (Inr \<lparr>fc_code = 0, fc_output = redact_secrets known ''key hunter2 ok''\<rparr>), shown # out)"
    unfolding sample_command_def by blast
  from own have "\<exists>name \<in> {''KAGGLE_KEY'', ''KAGGLE_API_TOKEN''}. ''hunter2''
      = strip (env_or_empty (call_env (ad_credentials sample_adapter) (ad_process_env sample_adapter)) name)"
    by blast
  from commands_leak_no_secret [OF r disjI2 [OF this] plain] r show ?thesis
    by (auto simp: sample_command_def list_all_iff)
qed

end
