(* ===== verification/Cache_Schema.thy ===== *)
theory Cache_Schema
  imports Store_Queries
begin

text \<open>
  The tables of cached datasets and of last jobs in an older database (\<^verbatim>\<open>RelayDb._ensure_column\<close> and
  \<^verbatim>\<open>_ensure_cache_key_dimension\<close> of \<^verbatim>\<open>app/database.py\<close>): they had no account in their key. A table is what the
  schema says of it, its columns and the columns of its primary key in order, and its rows in the order of their
  row ids, which is the order in which SQLite reads a table that it reads as a whole. A row carries its stored
  account apart, \<^const>\<open>None\<close> for \<^verbatim>\<open>NULL\<close> and when there is no such column. The statements run in the transaction that
  the updates before them opened.
\<close>

section \<open>Columns\<close>

record ('r) cache_table =
  ct_columns :: "string set"
  ct_primary :: "string list"
  ct_rows :: "(string option \<times> 'r) list"

text \<open>A table whose rows are maps of columns to values.\<close>

type_synonym 'v plain_table = "string set \<times> (string \<rightharpoonup> 'v) list"

definition ensure_column :: "string \<Rightarrow> 'v \<Rightarrow> 'v plain_table \<Rightarrow> 'v plain_table" where
  "ensure_column name preset t =
     (case t of (columns, rows) \<Rightarrow> if name \<in> columns then t else (insert name columns, map (\<lambda>r. r(name \<mapsto> preset)) rows))"

lemma ensure_column_keeps: "name \<in> fst t \<Longrightarrow> ensure_column name preset t = t"
  by (cases t) (simp add: ensure_column_def)

lemma ensure_column_twice: "ensure_column name preset (ensure_column name other t) = ensure_column name other t"
  by (cases t) (simp add: ensure_column_def)

section \<open>The account in the key\<close>

definition wanted_primary :: "string list" where
  "wanted_primary = [''kaggle_key_id'', ''dataset_ref'', ''payload_hash'']"

definition has_key_dimension :: "('r) cache_table \<Rightarrow> bool" where
  "has_key_dimension t \<longleftrightarrow> ''kaggle_key_id'' \<in> ct_columns t \<and> ct_primary t = wanted_primary"

text \<open>\<^verbatim>\<open>INSERT OR REPLACE\<close>: a row with the same key goes, the new one is last.\<close>

definition insert_or_replace :: "('r \<Rightarrow> 'k) \<Rightarrow> 'r \<Rightarrow> 'r list \<Rightarrow> 'r list" where
  "insert_or_replace key r rows = filter (\<lambda>q. key q \<noteq> key r) rows @ [r]"

definition account_of :: "bool \<Rightarrow> string option \<Rightarrow> string" where
  "account_of has_column k = (if has_column then (case k of None \<Rightarrow> [] | Some v \<Rightarrow> v) else [])"

definition copied_rows :: "(string \<Rightarrow> 'r \<Rightarrow> 'r) \<Rightarrow> ('r) cache_table \<Rightarrow> 'r list" where
  "copied_rows set_account t = map (\<lambda>(k, r). set_account (account_of (''kaggle_key_id'' \<in> ct_columns t) k) r) (ct_rows t)"

definition ensure_key_dimension ::
  "string set \<Rightarrow> (string \<Rightarrow> 'r \<Rightarrow> 'r) \<Rightarrow> ('r \<Rightarrow> string \<times> 'k) \<Rightarrow> ('r) cache_table \<Rightarrow> ('r) cache_table" where
  "ensure_key_dimension columns set_account key t =
     (if has_key_dimension t then t
      else \<lparr>ct_columns = columns, ct_primary = wanted_primary,
        ct_rows = map (\<lambda>r. (Some (fst (key r)), r)) (fold (insert_or_replace key) (copied_rows set_account t) [])\<rparr>)"

definition dataset_cache_columns :: "string set" where
  "dataset_cache_columns = {''kaggle_key_id'', ''dataset_ref'', ''payload_hash'', ''status'', ''dataset_status'', ''source_job_id'',
     ''created_at'', ''updated_at''}"

definition last_job_columns :: "string set" where
  "last_job_columns = {''kaggle_key_id'', ''dataset_ref'', ''payload_hash'', ''dataset_status'', ''job_id'', ''created_at'', ''updated_at''}"

definition ensure_dataset_cache :: "(cache_row) cache_table \<Rightarrow> (cache_row) cache_table" where
  "ensure_dataset_cache = ensure_key_dimension dataset_cache_columns (\<lambda>k r. r\<lparr>cache_key := k\<rparr>) cache_key_of"

definition ensure_last_jobs :: "(last_row) cache_table \<Rightarrow> (last_row) cache_table" where
  "ensure_last_jobs = ensure_key_dimension last_job_columns (\<lambda>k r. r\<lparr>last_key := k\<rparr>) last_key_of"

section \<open>Lemmas\<close>

lemma find_in_append: "find P (xs @ ys) = (case find P xs of None \<Rightarrow> find P ys | Some x \<Rightarrow> Some x)"
  by (induction xs) auto

lemma find_replaced:
  "find (\<lambda>r. key r = k) (insert_or_replace key r rows) = (if key r = k then Some r else find (\<lambda>r. key r = k) rows)"
  by (induction rows) (auto simp: insert_or_replace_def find_in_append)

lemma find_fold_replace:
  "find (\<lambda>r. key r = k) (fold (insert_or_replace key) rs rows)
     = (case find (\<lambda>r. key r = k) (rev rs) of None \<Rightarrow> find (\<lambda>r. key r = k) rows | Some r \<Rightarrow> Some r)"
proof (induction rs arbitrary: rows)
  case (Cons r rs)
  then show ?case by (auto simp: find_replaced find_in_append split: option.splits)
qed simp

lemma distinct_fold_replace: "distinct (map key rows) \<Longrightarrow> distinct (map key (fold (insert_or_replace key) rs rows))"
proof (induction rs arbitrary: rows)
  case (Cons r rs)
  have "distinct (map key (insert_or_replace key r rows))"
    using Cons.prems by (auto simp: insert_or_replace_def distinct_map_filter)
  with Cons.IH show ?case by simp
qed simp

lemma has_migrated: "''kaggle_key_id'' \<in> columns \<Longrightarrow> has_key_dimension (ensure_key_dimension columns set_account key t)"
  by (simp add: ensure_key_dimension_def has_key_dimension_def)

lemma migrated_keeps: "has_key_dimension t \<Longrightarrow> ensure_key_dimension columns set_account key t = t"
  by (simp add: ensure_key_dimension_def)

text \<open>
  Whatever the older table was: afterwards its key has the account, no two rows agree on it, and the row that is
  found under a key is the one with that key which was last in the older table, an account that was \<^verbatim>\<open>NULL\<close> or missing
  counting as the empty one. A second start changes nothing.
\<close>

lemma key_dimension_migrated:
  assumes "\<not> has_key_dimension t" and "''kaggle_key_id'' \<in> columns"
  shows "has_key_dimension (ensure_key_dimension columns set_account key t)
    \<and> distinct (map (key \<circ> snd) (ct_rows (ensure_key_dimension columns set_account key t)))
    \<and> find (\<lambda>r. key r = k) (map snd (ct_rows (ensure_key_dimension columns set_account key t)))
        = find (\<lambda>r. key r = k) (rev (copied_rows set_account t))
    \<and> ensure_key_dimension columns set_account key (ensure_key_dimension columns set_account key t)
        = ensure_key_dimension columns set_account key t"
proof -
  let ?rows = "fold (insert_or_replace key) (copied_rows set_account t) []"
  have m: "ensure_key_dimension columns set_account key t
      = \<lparr>ct_columns = columns, ct_primary = wanted_primary, ct_rows = map (\<lambda>r. (Some (fst (key r)), r)) ?rows\<rparr>"
    using assms(1) by (simp add: ensure_key_dimension_def)
  note h = has_migrated [OF assms(2), of set_account key t]
  have "distinct (map key ?rows)" by (rule distinct_fold_replace) simp
  moreover have "find (\<lambda>r. key r = k) ?rows = find (\<lambda>r. key r = k) (rev (copied_rows set_account t))"
    by (simp add: find_fold_replace split: option.splits)
  ultimately show ?thesis using h migrated_keeps [OF h] by (simp add: m comp_def)
qed

lemma cache_migrated:
  "has_key_dimension (ensure_dataset_cache t) \<and> has_key_dimension (ensure_last_jobs u)
   \<and> ensure_dataset_cache (ensure_dataset_cache t) = ensure_dataset_cache t
   \<and> ensure_last_jobs (ensure_last_jobs u) = ensure_last_jobs u"
  by (simp add: ensure_dataset_cache_def ensure_last_jobs_def has_migrated migrated_keeps dataset_cache_columns_def last_job_columns_def)

end
