(* ===== verification/Job_View.thy ===== *)
theory Job_View
  imports Job_Inputs Dataset_Upload Ui_Session
begin

text \<open>
  What a client sees of its jobs (\<^verbatim>\<open>app/main.py\<close>): the state of the downloads, of the verification and of the job as
  a whole, the downloads themselves, the progress callbacks and the requests about one job. What is found on the
  disk is a parameter, looked at once per request; columns of a job that a response copies are left out of it.
  The handlers that take the lock of a job are given the tables before and after they got it.
\<close>

section \<open>Downloads\<close>

text \<open>A path: nothing there, no access, no regular file, or a file of a size.\<close>

datatype file_look = Absent | No_access | Not_regular | Plain_file int

text \<open>Hashing a file: it has gone, it cannot be read, or its digest.\<close>

datatype file_hash = File_gone | File_unreadable | File_digest string

record disk_view =
  look_artifact :: "string \<Rightarrow> file_look"
  receipt_beside :: "string \<Rightarrow> json dict option"
  look_dataset :: "string \<Rightarrow> file_look"
  hash_dataset :: "string \<Rightarrow> file_hash"
  dataset_place :: "string \<Rightarrow> string"
  intent_at :: "string \<Rightarrow> string \<Rightarrow> intent_file"
  checkpoints :: "string + verification_db option"
  scope_name :: "string \<Rightarrow> string \<Rightarrow> string"

record download_view =
  dv_can :: bool
  dv_size :: "int option"
  dv_filename :: string
  dv_reason :: string
  dv_code :: string
  dv_expires :: "time option"
  dv_receipt :: "json dict option"

definition no_download :: "job \<Rightarrow> string \<Rightarrow> string \<Rightarrow> download_view" where
  "no_download j reason code =
     \<lparr>dv_can = False, dv_size = None, dv_filename = job_id j @ ''-artifacts.zip'', dv_reason = reason, dv_code = code,
      dv_expires = None, dv_receipt = None\<rparr>"

definition equals_int :: "json option \<Rightarrow> int \<Rightarrow> bool" where
  "equals_int v n \<longleftrightarrow>
     (case v of
        Some (JInt i) \<Rightarrow> i = n | Some (JFloat x) \<Rightarrow> x = of_int n | Some (JBool b) \<Rightarrow> of_bool b = n | _ \<Rightarrow> False)"

definition identity_of_job :: "job \<Rightarrow> string dict" where
  "identity_of_job j =
     [(''dataset_id'', dataset_id j), (''identity_sha256'', identity_sha256 j), (''run_id'', run_id j),
      (''run_identity_sha256'', run_identity_sha256 j)]"

text \<open>
  \<^const>\<open>None\<close> when the identity of the receipt is no object. A receipt without one names nothing, so it differs
  from the columns of the row, which are never null.
\<close>

definition receipt_binds :: "job \<Rightarrow> int \<Rightarrow> json dict \<Rightarrow> bool option" where
  "receipt_binds j n r =
     (if map_of r ''job_id'' \<noteq> Some (JStr (job_id j)) \<or> \<not> equals_int (map_of r ''archive_size'') n then Some False
      else case map_of r ''identity'' of
        None \<Rightarrow> Some False
      | Some (JObj d) \<Rightarrow> Some (list_all (\<lambda>(k, v). map_of d k = Some (JStr v)) (identity_of_job j))
      | Some _ \<Rightarrow> None)"

definition bound_contracts :: "string list" where
  "bound_contracts = [''patchcore_dinov2_251_onnx_v1'', ''patchcore_dinov2_251_onnx_v2'']"

definition with_receipt :: "disk_view \<Rightarrow> job \<Rightarrow> int \<Rightarrow> download_view \<Rightarrow> download_view reply" where
  "with_receipt w j n v =
     (let refused = v\<lparr>dv_can := False, dv_code := ''receipt_invalid'',
            dv_reason := ''verified P6 result receipt missing or invalid''\<rparr> in
      if artifact_contract j \<notin> set bound_contracts then Inr v
      else case receipt_beside w (artifact_path j) of
        None \<Rightarrow> Inr refused
      | Some r \<Rightarrow>
          (case receipt_binds j n r of
             None \<Rightarrow> Inl internal_error
           | Some ok \<Rightarrow> Inr (if ok then v\<lparr>dv_receipt := Some r\<rparr> else refused)))"

definition artifact_download_metadata :: "disk_view \<Rightarrow> int \<Rightarrow> job \<Rightarrow> download_view reply" where
  "artifact_download_metadata w keep_hours j =
     (if status j \<notin> {Complete, Canceled} then Inr (no_download j ''job is not complete'' ''not_ready'')
      else if artifact_path j = []
      then Inr (if kaggle_output j = expired_note then no_download j expired_note ''expired''
                else no_download j ''artifact path is missing'' ''missing'')
      else case look_artifact w (artifact_path j) of
        Absent \<Rightarrow> Inr (no_download j ''artifact file is missing'' ''missing'')
      | No_access \<Rightarrow> Inr (no_download j ''artifact file is inaccessible'' ''inaccessible'')
      | Not_regular \<Rightarrow> Inr (no_download j ''artifact path is not a file'' ''missing'')
      | Plain_file n \<Rightarrow>
          map_sum id (\<lambda>v. v\<lparr>dv_expires := map_option (\<lambda>t. t + of_int keep_hours * 3600) (completed_at j)\<rparr>)
            (with_receipt w j n ((no_download j [] [])\<lparr>dv_can := True, dv_size := Some n\<rparr>)))"

text \<open>The empty code says that the dataset can be downloaded.\<close>

definition dataset_download_metadata :: "disk_view \<Rightarrow> job \<Rightarrow> string" where
  "dataset_download_metadata w j =
     (if cleaned_at j \<noteq> None then ''expired''
      else if status j \<in> {Receiving, Assembling} then ''not_ready''
      else case look_dataset w (job_id j) of
        Plain_file n \<Rightarrow> if n \<noteq> dataset_size j then ''invalid'' else []
      | No_access \<Rightarrow> ''inaccessible''
      | _ \<Rightarrow> ''missing'')"

definition unavailable_status :: "string \<Rightarrow> int" where
  "unavailable_status code =
     (if code = ''expired'' then 410 else if code = ''missing'' then 404 else if code = ''inaccessible'' then 503 else 409)"

definition dataset_unavailable :: "string \<Rightarrow> int \<Rightarrow> http_error" where
  "dataset_unavailable code n = HTTPException n (''dataset archive unavailable: '' @ code)"

text \<open>A file that is sent: its path as the job names it, its name for the client.\<close>

record served =
  sent_path :: string
  sent_name :: string

definition dataset_archive_path :: "string \<Rightarrow> string" where
  "dataset_archive_path jid = jid @ ''/archives/dataset.zip''"

definition check_digest :: "file_hash \<Rightarrow> job \<Rightarrow> unit reply" where
  "check_digest h j =
     (case h of
        File_gone \<Rightarrow> Inl (dataset_unavailable ''missing'' 404)
      | File_unreadable \<Rightarrow> Inl (dataset_unavailable ''inaccessible'' 503)
      | File_digest d \<Rightarrow>
          (case compare_digest d (dataset_archive_sha256 j) of
             None \<Rightarrow> Inl internal_error
           | Some ok \<Rightarrow> if ok then Inr () else Inl (dataset_unavailable ''invalid'' 409)))"

definition download_dataset :: "disk_view \<Rightarrow> relay_db \<Rightarrow> relay_db \<Rightarrow> auth_store \<Rightarrow> principal \<Rightarrow> string \<Rightarrow> served reply" where
  "download_dataset w before locked s p jid =
     (case get_authorized_job before jid p s of
        Inl e \<Rightarrow> Inl e
      | Inr _ \<Rightarrow>
          (case get_authorized_job locked jid p s of
             Inl e \<Rightarrow> Inl e
           | Inr j \<Rightarrow>
               let code = dataset_download_metadata w j in
               if code \<noteq> [] then Inl (dataset_unavailable code (unavailable_status code))
               else map_sum id (\<lambda>_. \<lparr>sent_path = dataset_archive_path jid, sent_name = jid @ ''-dataset.zip''\<rparr>)
                      (check_digest (hash_dataset w jid) j)))"

definition download_artifacts :: "disk_view \<Rightarrow> int \<Rightarrow> relay_db \<Rightarrow> auth_store \<Rightarrow> principal \<Rightarrow> string \<Rightarrow> served reply" where
  "download_artifacts w keep_hours locked s p jid =
     (case get_authorized_job locked jid p s of
        Inl e \<Rightarrow> Inl e
      | Inr j \<Rightarrow>
          (case artifact_download_metadata w keep_hours j of
             Inl e \<Rightarrow> Inl e
           | Inr v \<Rightarrow>
               if dv_can v then Inr \<lparr>sent_path = artifact_path j, sent_name = dv_filename v\<rparr>
               else Inl (HTTPException (if status j \<in> {Complete, Canceled} \<and> artifact_path j \<noteq> [] then 404 else 409)
                 (dv_reason v))))"

section \<open>The response about a job\<close>

definition checkpoint_fields :: "(bool \<times> int \<times> nat \<times> int \<times> nat \<times> int) option \<Rightarrow> json dict" where
  "checkpoint_fields c =
     (case c of
        None \<Rightarrow> []
      | Some (finished, version, files, bytes, vfiles, vbytes) \<Rightarrow>
          [(''state'', JStr (if finished then ''verified'' else ''checking_files'')), (''version_number'', JInt version),
           (''total_files'', JInt (int files)), (''total_bytes'', JInt bytes),
           (''verified_files'', JInt (int vfiles)), (''verified_bytes'', JInt vbytes)])"

definition verified_progress :: "int \<Rightarrow> json dict \<Rightarrow> json dict" where
  "verified_progress v shown =
     AList.update ''version_number'' (JInt v) (AList.update ''state'' (JStr ''verified'')
       (if map_of shown ''state'' = Some (JStr ''verified'') then shown else []))"

text \<open>The state of the upload and of its verification; empty where the response keeps its defaults.\<close>

definition dataset_verification_metadata :: "disk_view \<Rightarrow> (string \<Rightarrow> bool) \<Rightarrow> job \<Rightarrow> string \<times> json dict" where
  "dataset_verification_metadata w ready j =
     (let place = dataset_place w (job_id j); lost = ([], [(''state'', JStr ''checkpoint_unavailable'')]) in
      case read_intent (intent_at w place (dataset_ref j)) of
        Inl _ \<Rightarrow> lost
      | Inr None \<Rightarrow> ([], [])
      | Inr (Some d) \<Rightarrow>
          if map_of d ''dataset_ref'' \<noteq> Some (JStr (dataset_ref j)) \<or> map_of d ''dataset_dir'' \<noteq> Some (JStr place)
          then ([], [])
          else case checkpoints w of
            Inl _ \<Rightarrow> lost
          | Inr db \<Rightarrow>
              let v = intent_version d;
                  shown = checkpoint_fields (Option.bind db
                    (snapshot (scope_name w) (dataset_ref j) v place (str_field d ''content_sha256'')))
              in (intent_state d, if ready (dataset_status j) then verified_progress v shown else shown))"

record response_limits =
  shown_keep_hours :: int
  receiving_retention_hours :: int
  receiving_timeout_hours :: int
  parallel_uploads_per_user :: int

record job_response =
  rp_job :: string
  rp_status :: job_status
  rp_stop_details :: "json dict"
  rp_accounts :: "string dict"
  rp_callback_enabled :: bool
  rp_cancel_requested :: bool
  rp_upload_expires_at :: "time option"
  rp_download :: download_view
  rp_dataset_code :: string
  rp_cache_hit :: bool
  rp_upload_required :: bool
  rp_input_received :: bool
  rp_upload_state :: string
  rp_verification :: "json dict"
  rp_parallel_uploads :: int
  rp_chunks :: "int list \<times> int list"
  rp_logs :: "string list"

definition nonzero_or :: "time option \<Rightarrow> time \<Rightarrow> time" where
  "nonzero_or t d = (case t of None \<Rightarrow> d | Some x \<Rightarrow> if x = 0 then d else x)"

definition upload_expires_at :: "response_limits \<Rightarrow> job \<Rightarrow> time option" where
  "upload_expires_at rl j =
     (if status j = Receiving
      then Some (min (nonzero_or (upload_activity_at j) (created_at j) + of_int (receiving_retention_hours rl) * 3600)
                     (created_at j + of_int (receiving_timeout_hours rl) * 3600))
      else None)"

definition input_received :: "job_status \<Rightarrow> bool" where
  "input_received st \<longleftrightarrow> st \<in> {Queued, Uploading_dataset, Waiting_dataset, Pushing_kernel, Waiting_kernel,
     Cancel_requested, Downloading_output, Complete}"

record view_world =
  vw_disk :: disk_view
  vw_limits :: response_limits
  vw_ready :: "string \<Rightarrow> bool"
  vw_loads :: "string \<Rightarrow> json option"
  vw_dumps :: "json \<Rightarrow> string"
  vw_sha256 :: "string \<Rightarrow> string"

text \<open>Asking for the cache of ready versions can fill it.\<close>

definition job_to_response :: "view_world \<Rightarrow> time \<Rightarrow> relay_db \<Rightarrow> job \<Rightarrow> job_response reply \<times> relay_db" where
  "job_to_response w now db j =
     (case has_ready_dataset_cache (vw_ready w) now (dataset_ref j) (payload_hash j) (kaggle_key_id j) db of
        (cached, db') \<Rightarrow>
          (map_sum id (\<lambda>v.
             let hit = cached \<and> \<not> awaiting_assignment j;
                 (upload_state, verification) = dataset_verification_metadata (vw_disk w) (vw_ready w) j
             in \<lparr>rp_job = job_id j, rp_status = status j,
                  rp_stop_details = response_details (vw_loads w) (vw_dumps w) j, rp_accounts = eligible_accounts j,
                  rp_callback_enabled = (callback_token_sha256 j \<noteq> []),
                  rp_cancel_requested = (nonzero_or (cancel_requested_at j) 0 \<noteq> 0),
                  rp_upload_expires_at = upload_expires_at (vw_limits w) j, rp_download = v,
                  rp_dataset_code = dataset_download_metadata (vw_disk w) j, rp_cache_hit = hit,
                  rp_upload_required = (\<not> hit), rp_input_received = input_received (status j),
                  rp_upload_state = upload_state, rp_verification = verification,
                  rp_parallel_uploads = parallel_uploads_per_user (vw_limits w),
                  rp_chunks = accepted_chunks db' (job_id j), rp_logs = recent_logs db' (job_id j) 30\<rparr>)
             (artifact_download_metadata (vw_disk w) (shown_keep_hours (vw_limits w)) j), db'))"

definition job_response_for :: "view_world \<Rightarrow> time \<Rightarrow> string \<Rightarrow> relay_db \<Rightarrow> job_response reply \<times> relay_db" where
  "job_response_for w now jid db =
     (case get_job db jid of None \<Rightarrow> (Inl job_not_found, db) | Some j \<Rightarrow> job_to_response w now db j)"

section \<open>Requests about one job\<close>

definition get_job_handler ::
  "view_world \<Rightarrow> time \<Rightarrow> auth_store \<Rightarrow> principal \<Rightarrow> string \<Rightarrow> relay_db \<Rightarrow> job_response reply \<times> relay_db" where
  "get_job_handler w now s p jid db =
     (case get_authorized_job db jid p s of Inl e \<Rightarrow> (Inl e, db) | Inr _ \<Rightarrow> job_response_for w now jid db)"

text \<open>\<open>locked\<close>: the tables once the lock of the job is held.\<close>

definition cancel_job_handler ::
  "view_world \<Rightarrow> (nat \<Rightarrow> relay_db \<Rightarrow> relay_db) \<Rightarrow> time \<Rightarrow> auth_store \<Rightarrow> principal \<Rightarrow> string \<Rightarrow> relay_db
   \<Rightarrow> job_response reply \<times> relay_db" where
  "cancel_job_handler w env now s p jid locked =
     (case get_authorized_job locked jid p s of
        Inl e \<Rightarrow> (Inl e, locked)
      | Inr j \<Rightarrow>
          (case request_job_cancel env now j locked of
             (Inl e, db) \<Rightarrow> (Inl e, db)
           | (Inr _, db) \<Rightarrow> job_response_for w now jid db))"

definition job_summary :: "auth_store \<Rightarrow> principal \<Rightarrow> relay_db \<Rightarrow> nat dict" where
  "job_summary s p db =
     (let keys = (if allow_all_keys p then None else Some (set (allowed_key_ids s p False)));
          own = (if store_legacy s \<or> allow_all_keys p then None else Some (principal_id p));
          counts = job_status_counts db keys own;
          count = (\<lambda>st. case map_of counts st of None \<Rightarrow> 0 | Some n \<Rightarrow> n)
      in [(''total'', sum_list (map snd counts)),
          (''in_progress'', sum_list (map count (filter (\<lambda>st. st \<in> active_statuses - {Queued}) all_statuses)))]
         @ map (\<lambda>st. (status_name st, count st)) [Queued, Failed, Complete, Canceled])"

section \<open>Progress callbacks\<close>

record callback_world = view_world +
  cw_dumps_sorted :: "json \<Rightarrow> string"
  cw_known :: "string list"
  cw_env :: "nat \<Rightarrow> relay_db \<Rightarrow> relay_db"

text \<open>What follows once it is known whether the sender may report about the job.\<close>

definition callback_refused :: "time \<Rightarrow> string \<Rightarrow> access_state \<Rightarrow> access_state" where
  "callback_refused now key st = st\<lparr>auth_limiter := fst (record_failure now key (auth_limiter st))\<rparr>"

definition callback_accepted ::
  "callback_world \<Rightarrow> time \<Rightarrow> string \<Rightarrow> job \<Rightarrow> json dict \<Rightarrow> access_state \<Rightarrow> relay_db
   \<Rightarrow> job_response reply \<times> access_state \<times> relay_db" where
  "callback_accepted w now key j report st db =
     (let st = st\<lparr>auth_limiter := clear_failures key (auth_limiter st)\<rparr> in
      case apply_progress_callback (vw_loads w) (vw_dumps w) (cw_dumps_sorted w) (cw_known w) (cw_env w) now j report db of
        (Inl e, db) \<Rightarrow> (Inl e, st, db)
      | (Inr _, db) \<Rightarrow> (case job_response_for (view_world.truncate w) now (job_id j) db of (r, db) \<Rightarrow> (r, st, db)))"

definition update_job_progress ::
  "callback_world \<Rightarrow> time \<Rightarrow> request \<Rightarrow> string \<Rightarrow> json dict \<Rightarrow> access_state \<Rightarrow> relay_db
   \<Rightarrow> job_response reply \<times> access_state \<times> relay_db" where
  "update_job_progress w now r jid report st db =
     (let key = auth_limit_key ''callback'' r; (l, out) = reject_if_auth_blocked now key (auth_limiter st);
          st = st\<lparr>auth_limiter := l\<rparr> in
      if out then (Inl blocked, st, db)
      else case get_job db jid of
        None \<Rightarrow> (Inl job_not_found, st, db)
      | Some j \<Rightarrow>
          (case authorize_job_callback (vw_sha256 w) j (authorization r) (store st) of
             Raised_type_error \<Rightarrow> (Inl internal_error, st, db)
           | Returned False \<Rightarrow> (Inl unauthorized, callback_refused now key st, db)
           | Returned True \<Rightarrow> callback_accepted w now key j report st db))"

text \<open>The first candidate the sender may report about; an exception ends the search.\<close>

fun first_authorized :: "(string \<Rightarrow> string) \<Rightarrow> string \<Rightarrow> auth_store \<Rightarrow> job list \<Rightarrow> job option outcome" where
  "first_authorized sha256 auth s [] = Returned None"
| "first_authorized sha256 auth s (j # js) =
     (case authorize_job_callback sha256 j auth s of
        Raised_type_error \<Rightarrow> Raised_type_error
      | Returned True \<Rightarrow> Returned (Some j)
      | Returned False \<Rightarrow> first_authorized sha256 auth s js)"

definition callback_candidates :: "auth_store \<Rightarrow> principal option \<Rightarrow> string \<Rightarrow> relay_db \<Rightarrow> job list" where
  "callback_candidates s p ref db =
     (let keys = (case p of None \<Rightarrow> None
            | Some p \<Rightarrow> if allow_all_keys p then None else Some (set (allowed_key_ids s p False)));
          own = (case p of None \<Rightarrow> None
            | Some p \<Rightarrow> if store_legacy s \<or> allow_all_keys p then None else Some (principal_id p))
      in get_jobs_by_kernel_ref db ref keys own False 50 True)"

text \<open>\<open>ref\<close> is the text of the report's \<^verbatim>\<open>kernel_ref\<close>, empty when there is none.\<close>

definition update_job_progress_by_kernel ::
  "callback_world \<Rightarrow> time \<Rightarrow> request \<Rightarrow> string \<Rightarrow> json dict \<Rightarrow> access_state \<Rightarrow> relay_db
   \<Rightarrow> job_response reply \<times> access_state \<times> relay_db" where
  "update_job_progress_by_kernel w now r ref report st db =
     (let key = auth_limit_key ''callback'' r; (l, out) = reject_if_auth_blocked now key (auth_limiter st);
          st = st\<lparr>auth_limiter := l\<rparr> in
      if out then (Inl blocked, st, db)
      else if strip ref = [] then (Inl (HTTPException 400 ''kernel_ref is required''), st, db)
      else case authenticate_authorization (store st) (authorization r) of
        Raised_type_error \<Rightarrow> (Inl internal_error, st, db)
      | Returned p \<Rightarrow>
          let cs = callback_candidates (store st) p (strip ref) db in
          if cs = [] then (Inl job_not_found, st, db)
          else case first_authorized (vw_sha256 w) (authorization r) (store st) cs of
            Raised_type_error \<Rightarrow> (Inl internal_error, st, db)
          | Returned None \<Rightarrow> (Inl unauthorized, callback_refused now key st, db)
          | Returned (Some j) \<Rightarrow> callback_accepted w now key j report st db)"

section \<open>Pages of a session\<close>

record session_view =
  sv_principal :: string
  sv_keys :: "string list"
  sv_can_view :: bool
  sv_can_manage :: bool

definition session_summary :: "auth_store \<Rightarrow> principal \<Rightarrow> session_view" where
  "session_summary s p =
     \<lparr>sv_principal = principal_id p, sv_keys = (if can_view_keys p then public_allowed_key_ids s p else []),
      sv_can_view = can_view_keys p, sv_can_manage = (management_admin p \<and> \<not> store_legacy s)\<rparr>"

section \<open>Properties\<close>

lemma downloads_checked_dataset:
  assumes "download_dataset w before locked s p jid = Inr f"
  shows "\<exists>j. get_job locked jid = Some j \<and> can_access_job j p s \<and> status j \<notin> {Receiving, Assembling} \<and> cleaned_at j = None
    \<and> look_dataset w (job_id j) = Plain_file (dataset_size j) \<and> hash_dataset w jid = File_digest (dataset_archive_sha256 j)"
proof -
  from assms obtain j where j: "get_authorized_job locked jid p s = Inr j" "dataset_download_metadata w j = []"
    "check_digest (hash_dataset w jid) j = Inr ()"
    by (auto simp: download_dataset_def Let_def map_sum_def split: sum.splits if_splits)
  then show ?thesis
    by (intro exI [of _ j])
      (auto simp: get_authorized_job_def dataset_download_metadata_def check_digest_def compare_digest_def
        split: option.splits if_splits file_look.splits file_hash.splits)
qed

text \<open>
  C30: A client that is sent the dataset of a job may access the job, the job is past its upload and not cleaned
  up, and the file that is sent has the announced size and, digit by digit, the announced digest; a client that
  is sent the artifacts may access the job, which is complete or canceled and whose artifact is a regular file,
  and for a contract with receipts its receipt names the job, the size of the file and the frozen identity.
\<close>

theorem downloads_are_checked:
  "(download_dataset w before locked s p jid = Inr f \<longrightarrow>
      (\<exists>j. get_job locked jid = Some j \<and> can_access_job j p s \<and> status j \<notin> {Receiving, Assembling} \<and> cleaned_at j = None
        \<and> look_dataset w (job_id j) = Plain_file (dataset_size j)
        \<and> hash_dataset w jid = File_digest (dataset_archive_sha256 j)))
    \<and> (download_artifacts w keep_hours locked s p jid = Inr g \<longrightarrow>
      (\<exists>j n. get_job locked jid = Some j \<and> can_access_job j p s \<and> status j \<in> {Complete, Canceled}
        \<and> sent_path g = artifact_path j \<and> look_artifact w (artifact_path j) = Plain_file n
        \<and> (artifact_contract j \<in> set bound_contracts \<longrightarrow>
             (\<exists>r. receipt_beside w (artifact_path j) = Some r \<and> receipt_binds j n r = Some True))))"
proof (intro conjI impI)
  assume "download_dataset w before locked s p jid = Inr f"
  then show "\<exists>j. get_job locked jid = Some j \<and> can_access_job j p s \<and> status j \<notin> {Receiving, Assembling} \<and> cleaned_at j = None
        \<and> look_dataset w (job_id j) = Plain_file (dataset_size j)
        \<and> hash_dataset w jid = File_digest (dataset_archive_sha256 j)"
    by (rule downloads_checked_dataset)
next
  assume d: "download_artifacts w keep_hours locked s p jid = Inr g"
  then obtain j v where j: "get_authorized_job locked jid p s = Inr j"
    "artifact_download_metadata w keep_hours j = Inr v" "dv_can v" "sent_path g = artifact_path j"
    by (auto simp: download_artifacts_def split: sum.splits if_splits)
  from j(2,3) obtain n u where n: "status j \<in> {Complete, Canceled}" "look_artifact w (artifact_path j) = Plain_file n"
    "with_receipt w j n ((no_download j [] [])\<lparr>dv_can := True, dv_size := Some n\<rparr>) = Inr u" "dv_can u"
    by (auto simp: artifact_download_metadata_def no_download_def map_sum_def
        split: if_splits file_look.splits sum.splits)
  then have "artifact_contract j \<in> set bound_contracts \<longrightarrow>
      (\<exists>r. receipt_beside w (artifact_path j) = Some r \<and> receipt_binds j n r = Some True)"
    by (auto simp: with_receipt_def Let_def split: if_splits option.splits)
  with j n show "\<exists>j n. get_job locked jid = Some j \<and> can_access_job j p s \<and> status j \<in> {Complete, Canceled}
        \<and> sent_path g = artifact_path j \<and> look_artifact w (artifact_path j) = Plain_file n
        \<and> (artifact_contract j \<in> set bound_contracts \<longrightarrow>
             (\<exists>r. receipt_beside w (artifact_path j) = Some r \<and> receipt_binds j n r = Some True))"
    by (intro exI [of _ j] exI [of _ n]) (auto simp: get_authorized_job_def split: option.splits if_splits)
qed

text \<open>
  Assembly compares the digest of an archive without regard to case, the download with regard to it. So a
  dataset that was announced with capital digits in its digest is accepted and used, but can never be
  downloaded again: the digest of its file is spelled in small letters.
\<close>

theorem capital_digest_blocks_download:
  assumes "lower (digest d out) = digest d out" and "int (length out) = dataset_size j"
    and "lower (dataset_archive_sha256 j) = digest d out" and "dataset_archive_sha256 j \<noteq> digest d out"
    and "get_job locked jid = Some j" and "hash_dataset w jid = File_digest (digest d out)"
  shows "check_archive d j Dataset_archive out = None \<and> (\<forall>f. download_dataset w before locked s p jid \<noteq> Inr f)"
proof (intro conjI allI)
  show "check_archive d j Dataset_archive out = None"
    using assms(1-3) by (simp add: check_archive_def archive_bytes_def announced_digest_def)
  show "download_dataset w before locked s p jid \<noteq> Inr f" for f
  proof
    assume "download_dataset w before locked s p jid = Inr f"
    with assms(5,6) have "digest d out = dataset_archive_sha256 j" using downloads_checked_dataset by fastforce
    with assms(4) show False by simp
  qed
qed

definition whole_job :: job where
  "whole_job = sample_job\<lparr>status := Complete, dataset_archive_sha256 := ''ab'', dataset_size := 1,
     kaggle_key_id := ''acct'', artifact_path := ''a.zip''\<rparr>"

definition whole_view :: disk_view where
  "whole_view = \<lparr>look_artifact = (\<lambda>_. Plain_file 7), receipt_beside = (\<lambda>_. None), look_dataset = (\<lambda>_. Plain_file 1),
     hash_dataset = (\<lambda>_. File_digest ''ab''), dataset_place = (\<lambda>j. j), intent_at = (\<lambda>_ _. Intent_missing),
     checkpoints = Inr None, scope_name = (\<lambda>a _. a)\<rparr>"

lemma whole_downloads:
  "map_sum id sent_name (download_dataset whole_view (sample_db [whole_job]) (sample_db [whole_job]) sample_store
      (snd (tokens sample_store ! 0)) (job_id whole_job)) = Inr (job_id whole_job @ ''-dataset.zip'')"
  "map_sum id sent_path (download_artifacts whole_view 168 (sample_db [whole_job]) sample_store
      (snd (tokens sample_store ! 0)) (job_id whole_job)) = Inr ''a.zip''"
  by code_simp+

lemma downloads_are_checked_witness:
  "\<exists>j n. get_job (sample_db [whole_job]) (job_id whole_job) = Some j \<and> look_dataset whole_view (job_id j) = Plain_file (dataset_size j)
     \<and> look_artifact whole_view (artifact_path j) = Plain_file n"
proof -
  obtain f where f: "download_dataset whole_view (sample_db [whole_job]) (sample_db [whole_job]) sample_store
      (snd (tokens sample_store ! 0)) (job_id whole_job) = Inr f"
    using whole_downloads(1) by (auto simp: map_sum_def split: sum.splits)
  obtain g where g: "download_artifacts whole_view 168 (sample_db [whole_job]) sample_store
      (snd (tokens sample_store ! 0)) (job_id whole_job) = Inr g"
    using whole_downloads(2) by (auto simp: map_sum_def split: sum.splits)
  note c = downloads_are_checked [of whole_view "sample_db [whole_job]" "sample_db [whole_job]" sample_store
      "snd (tokens sample_store ! 0)" "job_id whole_job" f 168 g]
  from c [THEN conjunct1] f obtain j where "get_job (sample_db [whole_job]) (job_id whole_job) = Some j"
    "look_dataset whole_view (job_id j) = Plain_file (dataset_size j)" by blast
  moreover from c [THEN conjunct2] g obtain n where "\<exists>k. get_job (sample_db [whole_job]) (job_id whole_job) = Some k
    \<and> look_artifact whole_view (artifact_path k) = Plain_file n" by blast
  ultimately show ?thesis by auto
qed

definition capital_job :: job where
  "capital_job = sample_job\<lparr>status := Queued, dataset_archive_sha256 := ''AB'', dataset_size := 1\<rparr>"

definition capital_view :: disk_view where
  "capital_view = \<lparr>look_artifact = (\<lambda>_. Absent), receipt_beside = (\<lambda>_. None), look_dataset = (\<lambda>_. Plain_file 1),
     hash_dataset = (\<lambda>_. File_digest ''ab''), dataset_place = (\<lambda>j. j), intent_at = (\<lambda>_ _. Intent_missing),
     checkpoints = Inr None, scope_name = (\<lambda>a _. a)\<rparr>"

lemma capital_digest_blocks_download_witness:
  "\<forall>s p f. download_dataset capital_view (sample_db [capital_job]) (sample_db [capital_job]) s p (job_id capital_job) \<noteq> Inr f"
proof -
  let ?d = "sample_disk\<lparr>digest := (\<lambda>_. ''ab'')\<rparr>"
  have low: "lower ''ab'' = ''ab''" "lower ''AB'' = ''ab''" by code_simp+
  have "lower (digest ?d ''x'') = digest ?d ''x''" "int (length ''x'') = dataset_size capital_job"
    "lower (dataset_archive_sha256 capital_job) = digest ?d ''x''" "dataset_archive_sha256 capital_job \<noteq> digest ?d ''x''"
    "get_job (sample_db [capital_job]) (job_id capital_job) = Some capital_job"
    "hash_dataset capital_view (job_id capital_job) = File_digest (digest ?d ''x'')"
    by (simp_all add: capital_job_def capital_view_def low get_job_def sample_db_def)
  from capital_digest_blocks_download [OF this] show ?thesis by blast
qed

definition may_report :: "callback_world \<Rightarrow> request \<Rightarrow> auth_store \<Rightarrow> job \<Rightarrow> bool" where
  "may_report w r s j \<longleftrightarrow> authorize_job_callback (vw_sha256 w) j (authorization r) s = Returned True"

definition reported :: "callback_world \<Rightarrow> time \<Rightarrow> job \<Rightarrow> json dict \<Rightarrow> relay_db \<Rightarrow> relay_db" where
  "reported w now j d db =
     (case apply_progress_callback (vw_loads w) (vw_dumps w) (cw_dumps_sorted w) (cw_known w) (cw_env w) now j d db of
        (Inl _, db') \<Rightarrow> db'
      | (Inr _, db') \<Rightarrow> snd (job_response_for (view_world.truncate w) now (job_id j) db'))"

lemma callback_accepted_db: "snd (snd (callback_accepted w now key j d st db)) = reported w now j d db"
  by (auto simp: callback_accepted_def reported_def Let_def split: prod.splits sum.splits)

lemma first_authorizedD:
  "first_authorized f auth s js = Returned (Some j) \<Longrightarrow> j \<in> set js \<and> authorize_job_callback f j auth s = Returned True"
  by (induction js) (auto split: outcome.splits bool.splits)

text \<open>
  A progress callback takes effect only for the job it is about: whenever it changes the tables or the
  answer is a job, the sender had a token with access to a job or its callback token, and the tables change by
  nothing but that job's callback and by asking for its cached version.
\<close>

theorem callbacks_only_from_authorized:
  "(snd (snd (update_job_progress w now r jid d st db)) = db
      \<or> (\<exists>j. get_job db jid = Some j \<and> may_report w r (store st) j
            \<and> snd (snd (update_job_progress w now r jid d st db)) = reported w now j d db))
    \<and> (snd (snd (update_job_progress_by_kernel w now r ref d st db)) = db
      \<or> (\<exists>j. j \<in> set (jobs db) \<and> (kernel_ref j = strip ref \<or> scheduling_mode j = Dynamic \<and> callback_kernel_ref j = strip ref)
            \<and> may_report w r (store st) j
            \<and> snd (snd (update_job_progress_by_kernel w now r ref d st db)) = reported w now j d db))"
proof
  show "snd (snd (update_job_progress w now r jid d st db)) = db
      \<or> (\<exists>j. get_job db jid = Some j \<and> may_report w r (store st) j
            \<and> snd (snd (update_job_progress w now r jid d st db)) = reported w now j d db)"
    by (simp add: update_job_progress_def Let_def callback_accepted_db may_report_def
        split: prod.splits option.splits outcome.splits bool.splits)
next
  let ?key = "auth_limit_key ''callback'' r"
  obtain l out where l: "reject_if_auth_blocked now ?key (auth_limiter st) = (l, out)" by (rule prod.exhaust)
  show "snd (snd (update_job_progress_by_kernel w now r ref d st db)) = db
      \<or> (\<exists>j. j \<in> set (jobs db) \<and> (kernel_ref j = strip ref \<or> scheduling_mode j = Dynamic \<and> callback_kernel_ref j = strip ref)
            \<and> may_report w r (store st) j
            \<and> snd (snd (update_job_progress_by_kernel w now r ref d st db)) = reported w now j d db)"
  proof (cases "\<exists>p j. \<not> out \<and> strip ref \<noteq> []
      \<and> authenticate_authorization (store st) (authorization r) = Returned p
      \<and> first_authorized (vw_sha256 w) (authorization r) (store st) (callback_candidates (store st) p (strip ref) db)
        = Returned (Some j)")
    case True
    then obtain p j where p: "\<not> out" "strip ref \<noteq> []"
      "authenticate_authorization (store st) (authorization r) = Returned p"
      "first_authorized (vw_sha256 w) (authorization r) (store st) (callback_candidates (store st) p (strip ref) db)
        = Returned (Some j)" by blast
    have j: "j \<in> set (callback_candidates (store st) p (strip ref) db)" "may_report w r (store st) j"
      using first_authorizedD [OF p(4)] by (auto simp: may_report_def)
    have c: "j \<in> set (jobs db)" "kernel_ref j = strip ref \<or> scheduling_mode j = Dynamic \<and> callback_kernel_ref j = strip ref"
      using j(1) by (auto simp: callback_candidates_def get_jobs_by_kernel_ref_def Let_def dest!: in_set_takeD)
    have "callback_candidates (store st) p (strip ref) db \<noteq> []" using j(1) by auto
    then have "snd (snd (update_job_progress_by_kernel w now r ref d st db)) = reported w now j d db"
      using p l by (simp add: update_job_progress_by_kernel_def Let_def callback_accepted_db)
    with j c show ?thesis by blast
  next
    case False
    then show ?thesis using l
      by (auto simp: update_job_progress_by_kernel_def Let_def split: outcome.splits option.splits)
  qed
qed

end
