(* ===== verification/Result_Package.thy ===== *)
theory Result_Package
  imports Job_View
begin

text \<open>
  The result of a run under the contracts \<^verbatim>\<open>patchcore_dinov2_251_onnx_v1\<close> and \<^verbatim>\<open>v2\<close>
  (\<^verbatim>\<open>app/dinov2_251_artifacts.py\<close>): what the worker checks in the directory it downloaded, the archive it packs
  from it, and the receipt. A directory is asked for relative names and answers a link on the way, no regular
  file, or the bytes of the file. It may change between the checks and the packing, so these see one each.
  \<open>decode\<close> is the JSON parser (\<^const>\<open>None\<close> when it raises \<^verbatim>\<open>ValueError\<close>, also for \<^verbatim>\<open>NaN\<close> and \<^verbatim>\<open>Infinity\<close>), which
  keeps repeated keys; \<open>canonical\<close> is \<^verbatim>\<open>json.dumps\<close> with sorted keys. A value of an unexpected type that makes
  Python raise \<^verbatim>\<open>KeyError\<close>, \<^verbatim>\<open>TypeError\<close> or \<^verbatim>\<open>AttributeError\<close> is \<open>Crashed\<close>.
\<close>

section \<open>Checks\<close>

datatype package_error = Invalid string | Crashed | No_space_left

type_synonym 'a checked = "package_error + 'a"

named_theorems accepted_iff \<open>when a chain of checks is passed\<close>

definition bnd :: "'a checked \<Rightarrow> ('a \<Rightarrow> 'b checked) \<Rightarrow> 'b checked" where
  "bnd m f = (case m of Inl e \<Rightarrow> Inl e | Inr x \<Rightarrow> f x)"

definition unless :: "bool \<Rightarrow> string \<Rightarrow> unit checked" where
  "unless bad e = (if bad then Inl (Invalid e) else Inr ())"

definition or_crash :: "'a option \<Rightarrow> 'a checked" where
  "or_crash v = (case v of None \<Rightarrow> Inl Crashed | Some x \<Rightarrow> Inr x)"

fun each :: "('a \<Rightarrow> 'b checked) \<Rightarrow> 'a list \<Rightarrow> 'b list checked" where
  "each f [] = Inr []"
| "each f (x # xs) = bnd (f x) (\<lambda>y. bnd (each f xs) (\<lambda>ys. Inr (y # ys)))"

lemma bnd_iff [accepted_iff]: "bnd m f = Inr y \<longleftrightarrow> (\<exists>x. m = Inr x \<and> f x = Inr y)"
  by (auto simp: bnd_def split: sum.splits)

lemma unless_iff [accepted_iff]: "unless bad e = Inr u \<longleftrightarrow> \<not> bad"
  by (simp add: unless_def)

lemma or_crash_iff [accepted_iff]: "or_crash v = Inr x \<longleftrightarrow> v = Some x"
  by (auto simp: or_crash_def split: option.splits)

lemma bnd_simps [simp]: "bnd (Inr x) f = f x" "bnd (Inl e) f = Inl e"
  by (simp_all add: bnd_def)

lemma each_iff [accepted_iff]: "each f xs = Inr ys \<longleftrightarrow> list_all2 (\<lambda>x y. f x = Inr y) xs ys"
  by (induction xs arbitrary: ys) (auto simp: bnd_iff list_all2_Cons1)

section \<open>JSON values\<close>

definition object_of :: "json \<Rightarrow> json dict option" where
  "object_of j = (case j of JObj d \<Rightarrow> Some d | _ \<Rightarrow> None)"

definition list_of :: "json \<Rightarrow> json list option" where
  "list_of j = (case j of JArr xs \<Rightarrow> Some xs | _ \<Rightarrow> None)"

definition text_in :: "json \<Rightarrow> string option" where
  "text_in j = (case j of JStr s \<Rightarrow> Some s | _ \<Rightarrow> None)"

definition member_of :: "json dict \<Rightarrow> string \<Rightarrow> json checked" where
  "member_of d k = or_crash (map_of d k)"

text \<open>A value that is put in a set or looked up in a dictionary: lists and objects have no hash.\<close>

definition hashable :: "json option \<Rightarrow> json option checked" where
  "hashable v = (case v of Some (JArr _) \<Rightarrow> Inl Crashed | Some (JObj _) \<Rightarrow> Inl Crashed | _ \<Rightarrow> Inr v)"

lemma hashable_iff [accepted_iff]: "hashable v = Inr w \<longleftrightarrow> w = v \<and> (\<forall>xs d. v \<noteq> Some (JArr xs) \<and> v \<noteq> Some (JObj d))"
  by (auto simp: hashable_def split: option.splits json.splits)

text \<open>\<^verbatim>\<open>d.get(k, {}).get(l)\<close>.\<close>

definition nested :: "json dict \<Rightarrow> string \<Rightarrow> string \<Rightarrow> json option checked" where
  "nested d k l =
     (case map_of d k of None \<Rightarrow> Inr None | Some j \<Rightarrow> bnd (or_crash (object_of j)) (\<lambda>e. Inr (map_of e l)))"

text \<open>Equality of Python values: numbers by value, dictionaries whatever their order.\<close>

fun normal :: "json \<Rightarrow> json" where
  "normal (JInt i) = JFloat (of_int i)"
| "normal (JBool b) = JFloat (of_bool b)"
| "normal (JArr xs) = JArr (map normal xs)"
| "normal (JObj d) = JObj (sort_key fst (map (\<lambda>(k, v). (k, normal v)) d))"
| "normal j = j"

definition same_value :: "json \<Rightarrow> json \<Rightarrow> bool" where
  "same_value a b \<longleftrightarrow> normal a = normal b"

fun keys_unique :: "json \<Rightarrow> bool" where
  "keys_unique (JArr xs) \<longleftrightarrow> list_all keys_unique xs"
| "keys_unique (JObj d) \<longleftrightarrow> distinct (map fst d) \<and> list_all (\<lambda>(k, v). keys_unique v) d"
| "keys_unique j \<longleftrightarrow> True"

section \<open>Files\<close>

datatype found = Linked | Not_a_file | Bytes string

record result_lib =
  lib_sha256 :: "string \<Rightarrow> string"
  lib_decode :: "string \<Rightarrow> json option"
  lib_canonical :: "json \<Rightarrow> string"
  lib_zip :: "(string \<times> string) list \<Rightarrow> string"

definition safe_part :: "string \<Rightarrow> bool" where
  "safe_part p \<longleftrightarrow> p \<notin> {[], ''.'', ''..''} \<and> last p \<notin> {CHR '' '', CHR ''.''}"

definition plain_file :: "(string \<Rightarrow> found) \<Rightarrow> json \<Rightarrow> string checked" where
  "plain_file dir name =
     (case text_in name of
        None \<Rightarrow> Inl (Invalid ''unsafe P6 relative path'')
      | Some n \<Rightarrow>
          if n = [] \<or> CHR '':'' \<in> set n \<or> CHR 0x5C \<in> set n \<or> \<not> list_all safe_part (split_on (CHR ''/'') n)
          then Inl (Invalid ''unsafe P6 relative path'')
          else case dir n of
            Linked \<Rightarrow> Inl (Invalid ''P6 links/reparse points forbidden'')
          | Not_a_file \<Rightarrow> Inl (Invalid (''missing P6 regular file: '' @ n))
          | Bytes b \<Rightarrow> Inr b)"

definition read_json :: "result_lib \<Rightarrow> string \<Rightarrow> json dict checked" where
  "read_json lib b =
     (if 16 * 1024 ^ 2 < int (length b) then Inl (Invalid ''P6 JSON budget exceeded'')
      else case lib_decode lib b of
        None \<Rightarrow> Inl (Invalid ''invalid JSON'')
      | Some j \<Rightarrow>
          if \<not> keys_unique j then Inl (Invalid ''duplicate P6 JSON key'')
          else case object_of j of None \<Rightarrow> Inl (Invalid ''P6 JSON object required'') | Some d \<Rightarrow> Inr d)"

definition read_file :: "result_lib \<Rightarrow> (string \<Rightarrow> found) \<Rightarrow> string \<Rightarrow> json dict checked" where
  "read_file lib dir name = bnd (plain_file dir (JStr name)) (read_json lib)"

section \<open>The inventory\<close>

record file_row =
  row_path :: string
  row_size :: int
  row_sha256 :: string

definition hex_char :: "char \<Rightarrow> bool" where
  "hex_char c \<longleftrightarrow> c \<in> set ''0123456789abcdef''"

definition hex64 :: "string \<Rightarrow> bool" where
  "hex64 s \<longleftrightarrow> length s = 64 \<and> list_all hex_char s"

definition row_fields :: "json \<Rightarrow> (json \<times> int \<times> string) option" where
  "row_fields j =
     (case j of
        JObj d \<Rightarrow>
          (case (map_of d ''path'', map_of d ''size'', map_of d ''sha256'') of
             (Some p, Some (JInt n), Some (JStr h)) \<Rightarrow>
               if set (map fst d) = {''path'', ''size'', ''sha256''} \<and> 1 \<le> n \<and> hex64 h then Some (p, n, h) else None
           | _ \<Rightarrow> None)
      | _ \<Rightarrow> None)"

fun check_rows ::
  "result_lib \<Rightarrow> (string \<Rightarrow> found) \<Rightarrow> int \<Rightarrow> string set \<Rightarrow> int \<Rightarrow> json list \<Rightarrow> file_row list checked" where
  "check_rows lib dir max_bytes seen total_size [] = Inr []"
| "check_rows lib dir max_bytes seen total_size (r # rs) =
     (case row_fields r of
        None \<Rightarrow> Inl (Invalid ''invalid P6 file entry'')
      | Some (p, n, h) \<Rightarrow>
          bnd (plain_file dir p) (\<lambda>b.
            let name = the (text_in p) in
            if lower name \<in> seen then Inl (Invalid ''duplicate P6 file'')
            else if max_bytes < total_size + n \<or> int (length b) \<noteq> n \<or> lib_sha256 lib b \<noteq> h
            then Inl (Invalid ''P6 file budget/content mismatch'')
            else bnd (check_rows lib dir max_bytes (insert (lower name) seen) (total_size + n) rs)
              (\<lambda>rows. Inr (\<lparr>row_path = name, row_size = n, row_sha256 = h\<rparr> # rows))))"

definition result_inventory :: "result_lib \<Rightarrow> (string \<Rightarrow> found) \<Rightarrow> json \<Rightarrow> int \<Rightarrow> file_row list checked" where
  "result_inventory lib dir rows max_bytes =
     (case list_of rows of
        None \<Rightarrow> Inl (Invalid ''P6 file count budget exceeded'')
      | Some rs \<Rightarrow>
          if rs = [] \<or> 100000 < int (length rs) then Inl (Invalid ''P6 file count budget exceeded'')
          else check_rows lib dir max_bytes {} 0 rs)"

definition row_json :: "file_row \<Rightarrow> json" where
  "row_json r = JObj [(''path'', JStr (row_path r)), (''size'', JInt (row_size r)), (''sha256'', JStr (row_sha256 r))]"

definition find_row :: "string \<Rightarrow> file_row list \<Rightarrow> file_row option" where
  "find_row name rows = find (\<lambda>r. row_path r = name) rows"

text \<open>\<^verbatim>\<open>rows.get(folder + row["path"]) != {**row, "path": folder + row["path"]}\<close>, with the name on success.\<close>

definition bound_row :: "string \<Rightarrow> string \<Rightarrow> file_row list \<Rightarrow> json \<Rightarrow> string checked" where
  "bound_row msg folder rows j =
     bnd (or_crash (object_of j)) (\<lambda>d.
     bnd (member_of d ''path'') (\<lambda>p.
     bnd (or_crash (text_in p)) (\<lambda>name.
       case find_row (folder @ name) rows of
         None \<Rightarrow> Inl (Invalid msg)
       | Some r \<Rightarrow>
           if same_value (row_json r) (JObj (AList.update ''path'' (JStr (folder @ name)) d))
           then Inr (folder @ name) else Inl (Invalid msg))))"

section \<open>The validation of a result\<close>

definition manifest_name :: string where
  "manifest_name = ''result_manifest.json''"

definition identity_fields_p6 :: "string list" where
  "identity_fields_p6 = [''dataset_id'', ''identity_sha256'', ''run_id'', ''run_identity_sha256'']"

definition training_files :: "string list" where
  "training_files = [''training/model.ckpt'', ''training/threshold.json'', ''training/metrics.json'', ''training/runtime_result.json'']"

definition deployment_files :: "string list" where
  "deployment_files = [''deployment/deployment.json'', ''deployment/model.onnx'', ''deployment/threshold.json'',
     ''deployment/verification_report.json'', ''deployment/runtime_requirements.txt'', ''deployment/README_deployment.md'']"

text \<open>The contract of a result, the format of its deployment and of its task.\<close>

definition result_formats :: "(string \<times> string \<times> string \<times> string) list" where
  "result_formats =
     [(''dino_cloud_result_p6_v1'', ''patchcore_dinov2_251_onnx_v1'', ''dino_onnx_deployment_p6_v1'', ''dino_cloud_task_p6_v1''),
      (''dino_cloud_result_p6_v2'', ''patchcore_dinov2_251_onnx_v2'', ''dino_onnx_deployment_p6_v2'', ''dino_cloud_task_p6_v2'')]"

definition second_contract :: string where
  "second_contract = ''patchcore_dinov2_251_onnx_v2''"

definition is_text :: "json option \<Rightarrow> string \<Rightarrow> bool" where
  "is_text v s \<longleftrightarrow> v = Some (JStr s)"

definition word_char :: "char \<Rightarrow> bool" where
  "word_char c \<longleftrightarrow> is_alnum c \<or> c = CHR ''_'' \<or> c = CHR ''-''"

text \<open>A name \<^verbatim>\<open>[a-zA-Z0-9_-]+\<close> followed by one of some endings.\<close>

definition word_with :: "string list \<Rightarrow> string \<Rightarrow> bool" where
  "word_with ends s \<longleftrightarrow> (let w = takeWhile word_char s in w \<noteq> [] \<and> drop (length w) s \<in> set ends)"

definition below_folder :: "string \<Rightarrow> string \<Rightarrow> string option" where
  "below_folder folder s =
     (if prefix folder s \<and> drop (length folder) s \<noteq> [] \<and> drop (length folder) s ! 0 \<in> {CHR ''/'', CHR 0x5C}
      then Some (drop (Suc (length folder)) s) else None)"

definition in_folder :: "string \<Rightarrow> (string \<Rightarrow> bool) \<Rightarrow> string \<Rightarrow> bool" where
  "in_folder folder ok s \<longleftrightarrow> (case below_folder folder s of None \<Rightarrow> False | Some t \<Rightarrow> ok t)"

text \<open>\<^verbatim>\<open>model\.onnx(?:\.data(?:\.[0-9]+)?)?\<close>.\<close>

definition model_name :: "string \<Rightarrow> bool" where
  "model_name s \<longleftrightarrow> s \<in> {''model.onnx'', ''model.onnx.data''}
     \<or> prefix ''model.onnx.data.'' s \<and> (let t = drop 16 s in t \<noteq> [] \<and> list_all is_digit t)"

text \<open>The download pattern, behind \<^verbatim>\<open>p6_result/\<close>.\<close>

definition download_allowed :: "string \<Rightarrow> bool" where
  "download_allowed s \<longleftrightarrow>
     s = manifest_name
     \<or> in_folder ''training'' (\<lambda>t. t \<in> {''model.ckpt'', ''threshold.json'', ''metrics.json'', ''runtime_result.json''}) s
     \<or> in_folder ''reports'' (word_with [''.json'']) s
     \<or> in_folder ''validation'' (\<lambda>t. t = ''reference.json'' \<or> in_folder ''reference'' (word_with [''.npz'', ''.npy'']) t) s
     \<or> in_folder ''deployment'' (\<lambda>t. t \<in> {''deployment.json'', ''training_candidate_threshold.json'', ''threshold.json'',
          ''verification_report.json'', ''runtime_requirements.txt'', ''README_deployment.md''} \<or> model_name t) s"

definition report_name :: "string \<Rightarrow> bool" where
  "report_name s \<longleftrightarrow> prefix ''reports/'' s \<and> word_with [''.json''] (drop 8 s)"

definition versions_of :: "json dict \<Rightarrow> string option \<Rightarrow> (string \<times> string \<times> string) checked" where
  "versions_of d expected_contract =
     bnd (hashable (map_of d ''format'')) (\<lambda>f.
       case find (\<lambda>v. is_text f (fst v)) result_formats of
         None \<Rightarrow> Inl (Invalid ''unsupported P6 result contract'')
       | Some (_, contract, deployment, task) \<Rightarrow>
           bnd (unless (\<not> is_text (map_of d ''artifact_contract'') contract
                 \<or> (expected_contract \<noteq> None \<and> expected_contract \<noteq> Some contract)
                 \<or> \<not> is_text (map_of d ''training_status'') ''PASS'' \<or> \<not> is_text (map_of d ''windows_status'') ''PENDING'')
               ''unsupported P6 result contract'') (\<lambda>_. Inr (contract, deployment, task)))"

text \<open>Whether the identity under a key is the expected one, and that is complete.\<close>

definition bears_identity :: "string \<Rightarrow> json dict \<Rightarrow> string \<Rightarrow> string dict \<Rightarrow> unit checked" where
  "bears_identity msg d key expected =
     bnd (each (\<lambda>k.
       bnd (unless (map_of expected k \<in> {None, Some []}) msg) (\<lambda>_.
       bnd (nested d key k) (\<lambda>v. unless (v \<noteq> map_option JStr (map_of expected k)) msg)))
         identity_fields_p6) (\<lambda>_. Inr ())"

definition check_identity :: "json dict \<Rightarrow> string dict option \<Rightarrow> string dict checked" where
  "check_identity d expected =
     (case expected of
        None \<Rightarrow> Inl (Invalid ''P6 frozen identity mismatch'')
      | Some i \<Rightarrow> bnd (bears_identity ''P6 frozen identity mismatch'' d ''identity'' i) (\<lambda>_. Inr i))"

definition training_paths :: "json dict \<Rightarrow> json list checked" where
  "training_paths d =
     (case map_of d ''files'' of
        None \<Rightarrow> Inr []
      | Some j \<Rightarrow> or_crash (list_of j))"

definition check_training :: "result_lib \<Rightarrow> (string \<Rightarrow> found) \<Rightarrow> string dict \<Rightarrow> file_row list \<Rightarrow> unit checked" where
  "check_training lib dir i rows =
     bnd (read_file lib dir ''training/runtime_result.json'') (\<lambda>d.
     bnd (unless (\<not> is_text (map_of d ''format'') ''vision_workshop_dinov2_251_training_stage_v1''
            \<or> \<not> is_text (map_of d ''training_status'') ''completed'') ''invalid P6 training stage'') (\<lambda>_.
     bnd (bears_identity ''P6 training identity mismatch'' d ''run_identity'' i) (\<lambda>_.
     bnd (training_paths d) (\<lambda>fs.
     bnd (each (\<lambda>f. bnd (or_crash (object_of f)) (\<lambda>e. hashable (map_of e ''path''))) fs) (\<lambda>names.
     bnd (unless (set names \<noteq> (\<lambda>n. Some (JStr n)) ` {''model.ckpt'', ''threshold.json'', ''metrics.json''})
            ''P6 training subpackage incomplete'') (\<lambda>_.
     bnd (each (bound_row ''P6 training subpackage inventory mismatch'' ''training/'' rows) fs) (\<lambda>_. Inr ())))))))"

text \<open>\<^verbatim>\<open>type(v) in (float, int) and math.isfinite(v)\<close>; an integer that rounds out of the range of a float raises.\<close>

definition finite_number :: "json option \<Rightarrow> bool checked" where
  "finite_number v =
     (case v of
        Some (JInt i) \<Rightarrow> if \<bar>i\<bar> < 2 ^ 1024 - 2 ^ 970 then Inr True else Inl Crashed
      | Some (JFloat _) \<Rightarrow> Inr True
      | _ \<Rightarrow> Inr False)"

definition check_threshold :: "result_lib \<Rightarrow> (string \<Rightarrow> found) \<Rightarrow> file_row list \<Rightarrow> unit checked" where
  "check_threshold lib dir rows =
     bnd (read_file lib dir ''training/threshold.json'') (\<lambda>d.
     bnd (finite_number (map_of d ''threshold'')) (\<lambda>ok.
     bnd (unless (\<not> ok) ''P6 training threshold binding mismatch'') (\<lambda>_.
     bnd (or_crash (find_row ''training/model.ckpt'' rows)) (\<lambda>m.
     unless (\<not> is_text (map_of d ''model_sha256'') (row_sha256 m)
         \<or> \<not> is_text (map_of d ''score_kind'') ''patchcore_dinov2_l2_nnmax_raw_v1''
         \<or> \<not> is_text (map_of d ''decision_rule'') ''score_gte_threshold''
         \<or> \<not> is_text (map_of d ''calibration_owner'') ''training'') ''P6 training threshold binding mismatch''))))"

definition check_calibration :: "result_lib \<Rightarrow> (string \<Rightarrow> found) \<Rightarrow> string \<Rightarrow> json dict \<Rightarrow> json dict \<Rightarrow> unit checked" where
  "check_calibration lib dir task d graph =
     bnd (read_file lib dir ''deployment/threshold.json'') (\<lambda>c.
     bnd (unless (\<not> is_text (map_of c ''format'') ''dino_onnx_rgb_calibration_p6_v2''
           \<or> \<not> is_text (map_of d ''deployment_calibration_state'') ''FROZEN''
           \<or> \<not> is_text (map_of c ''task_sha256'') task) ''P6 v2 deployment calibration binding mismatch'') (\<lambda>_.
     bnd (member_of graph ''files'') (\<lambda>files.
     bnd (unless (\<not> (case map_of c ''graph_files'' of None \<Rightarrow> False | Some g \<Rightarrow> same_value g files))
            ''P6 v2 deployment calibration binding mismatch'') (\<lambda>_.
     bnd (nested c ''environment'' ''scope'') (\<lambda>env_scope.
     bnd (unless (\<not> is_text env_scope ''linux_cloud'') ''P6 v2 deployment calibration binding mismatch'') (\<lambda>_.
     bnd (member_of d ''threshold'') (\<lambda>t.
     unless (\<not> (case map_of c ''threshold'' of None \<Rightarrow> False | Some u \<Rightarrow> same_value u t))
       ''P6 v2 deployment calibration binding mismatch'')))))))"

definition json_rows :: "json dict \<Rightarrow> string \<Rightarrow> json list checked" where
  "json_rows d k = bnd (member_of d k) (\<lambda>j. or_crash (list_of j))"

text \<open>The files a deployment names; \<^verbatim>\<open>support_files\<close> is looked up before the calibration is read.\<close>

definition deployment_rows :: "json dict \<Rightarrow> json dict \<Rightarrow> json list checked" where
  "deployment_rows d graph =
     bnd (json_rows graph ''files'') (\<lambda>files.
     bnd (member_of d ''threshold_file'') (\<lambda>t.
     bnd (member_of d ''verification_report'') (\<lambda>v.
     bnd (json_rows d ''support_files'') (\<lambda>support.
     Inr (files @ [t, v] @ support)))))"

definition reference_names :: "bool \<Rightarrow> file_row list \<Rightarrow> json list \<Rightarrow> string list checked" where
  "reference_names second rows items =
     bnd (each (\<lambda>item. bnd (or_crash (object_of item)) (\<lambda>e.
         each (\<lambda>k. bnd (member_of e k) (bound_row ''P6 validation reference file mismatch'' ''validation/'' rows))
           (if second then [''reference'', ''deployment_reference''] else [''reference'']))) items)
       (\<lambda>ns. Inr (concat ns))"

definition check_reference ::
  "result_lib \<Rightarrow> (string \<Rightarrow> found) \<Rightarrow> bool \<Rightarrow> json dict \<Rightarrow> file_row list \<Rightarrow> string list checked" where
  "check_reference lib dir second d rows =
     bnd (read_file lib dir ''validation/reference.json'') (\<lambda>ref.
     bnd (member_of ref ''graph'') (\<lambda>g. bnd (member_of d ''graph'') (\<lambda>graph.
     bnd (unless (\<not> same_value g graph) ''P6 training reference differs from deployment'') (\<lambda>_.
     bnd (member_of ref ''threshold'') (\<lambda>t. bnd (member_of d ''threshold'') (\<lambda>u.
     bnd (unless (\<not> same_value t u) ''P6 training reference differs from deployment'') (\<lambda>_.
     bnd (if second
          then bnd (member_of d ''threshold_file'') (\<lambda>f. bnd (or_crash (object_of f)) (\<lambda>e. bnd (member_of e ''sha256'') (\<lambda>h.
            unless (map_of ref ''deployment_calibration_sha256'' \<noteq> Some h) ''P6 v2 deployment reference calibration mismatch'')))
          else Inr ()) (\<lambda>_.
     bnd (json_rows ref ''items'') (\<lambda>items.
     bnd (reference_names second rows items) (\<lambda>names.
     Inr (''validation/reference.json'' # names)))))))))))"

text \<open>The names a passed deployment allows, and the digest of its manifest.\<close>

definition check_deployment ::
  "result_lib \<Rightarrow> (string \<Rightarrow> found) \<Rightarrow> string \<times> string \<times> string \<Rightarrow> string \<Rightarrow> file_row list \<Rightarrow> (string list \<times> string) checked" where
  "check_deployment lib dir versions task rows =
     (case versions of (contract, deployment_format, task_format) \<Rightarrow>
     bnd (unless (\<not> set deployment_files \<subseteq> row_path ` set rows) ''P6 deployment incomplete'') (\<lambda>_.
     bnd (read_file lib dir ''deployment/deployment.json'') (\<lambda>d.
     bnd (unless (\<not> is_text (map_of d ''format'') deployment_format) ''P6 deployment source/qualification mismatch'') (\<lambda>_.
     bnd (nested d ''task_contract'' ''format'') (\<lambda>f.
     bnd (unless (\<not> is_text f task_format \<or> \<not> is_text (map_of d ''task_sha256'') task
            \<or> lib_sha256 lib (lib_canonical lib (case map_of d ''task_contract'' of None \<Rightarrow> JNull | Some j \<Rightarrow> j)) \<noteq> task
            \<or> \<not> is_text (map_of d ''cloud_qualification'') ''PASS'' \<or> \<not> is_text (map_of d ''windows_qualification'') ''PENDING'')
          ''P6 deployment source/qualification mismatch'') (\<lambda>_.
     bnd (member_of d ''graph'') (\<lambda>g. bnd (or_crash (object_of g)) (\<lambda>graph.
     bnd (deployment_rows d graph) (\<lambda>declared.
     bnd (if contract = second_contract
          then bnd (member_of d ''training_candidate_file'') (\<lambda>c. bnd (check_calibration lib dir task d graph) (\<lambda>_. Inr [c]))
          else Inr []) (\<lambda>more_rows.
     bnd (each (bound_row ''P6 deployment file binding mismatch'' ''deployment/'' rows) (declared @ more_rows)) (\<lambda>names.
     bnd (or_crash (find_row ''deployment/deployment.json'' rows)) (\<lambda>m.
     bnd (check_reference lib dir (contract = second_contract) d rows) (\<lambda>refs.
     Inr (''deployment/deployment.json'' # names @ refs, row_sha256 m))))))))))))))"

definition onnx_states :: "string list" where
  "onnx_states = [''PASS'', ''FAIL'', ''TIMEOUT'', ''CANCELED'', ''NOT_RUN'']"

definition onnx_state :: "json dict \<Rightarrow> string checked" where
  "onnx_state d =
     bnd (hashable (map_of d ''onnx_status'')) (\<lambda>v.
       case find (is_text v) onnx_states of None \<Rightarrow> Inl (Invalid ''invalid P6 format status'') | Some s \<Rightarrow> Inr s)"

definition result_receipt ::
  "string \<Rightarrow> string dict \<Rightarrow> string \<Rightarrow> string \<Rightarrow> string \<Rightarrow> string \<Rightarrow> string \<Rightarrow> json dict" where
  "result_receipt contract i task manifest file_set deployment state =
     [(''format'', JStr (if contract = second_contract then ''dino_p6_verified_receipt_v2'' else ''dino_p6_verified_receipt_v1'')),
      (''identity'', JObj (map (\<lambda>k. (k, JStr (the (map_of i k)))) identity_fields_p6)),
      (''task_sha256'', JStr task), (''result_manifest_sha256'', JStr manifest), (''file_set_sha256'', JStr file_set),
      (''deployment_manifest_sha256'', JStr deployment), (''training_status'', JStr ''PASS''),
      (''onnx_status'', JStr state), (''windows_status'', JStr ''PENDING'')]"

definition validate_result ::
  "result_lib \<Rightarrow> (string \<Rightarrow> found) \<Rightarrow> string dict option \<Rightarrow> string \<Rightarrow> int \<Rightarrow> string option \<Rightarrow> json dict checked" where
  "validate_result lib dir expected task max_bytes expected_contract =
     bnd (read_file lib dir manifest_name) (\<lambda>d.
     bnd (versions_of d expected_contract) (\<lambda>versions.
     bnd (unless (\<not> hex64 task) ''trusted frozen task digest required'') (\<lambda>_.
     bnd (unless (\<not> is_text (map_of d ''task_sha256'') task) ''P6 task mismatch'') (\<lambda>_.
     bnd (check_identity d expected) (\<lambda>i.
     bnd (member_of d ''files'') (\<lambda>files.
     bnd (result_inventory lib dir files max_bytes) (\<lambda>rows.
     bnd (unless (\<not> is_text (map_of d ''file_set_sha256'') (lib_sha256 lib (lib_canonical lib files))
            \<or> \<not> set training_files \<subseteq> row_path ` set rows) ''P6 training inventory incomplete'') (\<lambda>_.
     bnd (check_training lib dir i rows) (\<lambda>_.
     bnd (check_threshold lib dir rows) (\<lambda>_.
     bnd (onnx_state d) (\<lambda>state.
     bnd (unless (\<not> list_ex (\<lambda>r. prefix ''reports/'' (row_path r)) rows) ''P6 stage report required'') (\<lambda>_.
     bnd (if state = ''PASS'' then check_deployment lib dir versions task rows else Inr ([], [])) (\<lambda>(names, deployment).
     bnd (unless (row_path ` set rows \<noteq> set training_files \<union> {n \<in> row_path ` set rows. report_name n} \<union> set names
            \<or> \<not> list_all (\<lambda>r. download_allowed (row_path r)) rows) ''P6 undeclared/disallowed file'') (\<lambda>_.
     bnd (plain_file dir (JStr manifest_name)) (\<lambda>m.
     Inr (result_receipt (fst versions) i task (lib_sha256 lib m) (lib_sha256 lib (lib_canonical lib files)) deployment state))))))))))))))))"

section \<open>Packing\<close>

text \<open>
  A file is copied until it turns out longer than its row says; what was copied must have the size and the
  digest of the row. \<open>enough\<close> is the check of the free space for a file.
\<close>

definition copy_row :: "result_lib \<Rightarrow> (string \<Rightarrow> found) \<Rightarrow> (int \<Rightarrow> bool) \<Rightarrow> json \<times> int \<times> string \<Rightarrow> (string \<times> string) checked" where
  "copy_row lib dir enough r =
     (case r of (p, n, h) \<Rightarrow>
        if \<not> enough n then Inl No_space_left
        else bnd (plain_file dir p) (\<lambda>b.
          if n < int (length b) then Inl (Invalid ''P6 source grew during packaging'')
          else if int (length b) \<noteq> n \<or> lib_sha256 lib b \<noteq> h then Inl (Invalid ''P6 source changed during packaging'')
          else Inr (''p6_result/'' @ the (text_in p), b)))"

definition row_to_copy :: "json \<Rightarrow> (json \<times> int \<times> string) checked" where
  "row_to_copy j =
     bnd (or_crash (object_of j)) (\<lambda>d. bnd (member_of d ''path'') (\<lambda>p. bnd (member_of d ''size'') (\<lambda>n. bnd (member_of d ''sha256'') (\<lambda>h.
       case (n, h) of (JInt n, JStr h) \<Rightarrow> Inr (p, n, h) | _ \<Rightarrow> Inl Crashed))))"

text \<open>
  \<open>later\<close> is the directory while it is packed; the list of files is read again, the manifest comes last. A manifest
  replaced meanwhile by a link is refused at once rather than when it is copied; rows whose size is no integer or
  whose digest is no text, which only a replaced manifest has, count as a crash.
\<close>

definition members_to_pack ::
  "result_lib \<Rightarrow> (string \<Rightarrow> found) \<Rightarrow> (int \<Rightarrow> bool) \<Rightarrow> string \<Rightarrow> (string \<times> string) list checked" where
  "members_to_pack lib later enough manifest_digest =
     bnd (read_file lib later manifest_name) (\<lambda>d.
     bnd (json_rows d ''files'') (\<lambda>files.
     bnd (plain_file later (JStr manifest_name)) (\<lambda>m.
     each (\<lambda>j. bnd (row_to_copy j) (copy_row lib later enough))
       (files @ [JObj [(''path'', JStr manifest_name), (''sha256'', JStr manifest_digest), (''size'', JInt (int (length m)))]]))))"

text \<open>The result and what is then at the destination; the archive replaces it as a whole.\<close>

definition package_result ::
  "result_lib \<Rightarrow> (string \<Rightarrow> found) \<Rightarrow> (string \<Rightarrow> found) \<Rightarrow> (int \<Rightarrow> bool) \<Rightarrow> string dict option \<Rightarrow> string \<Rightarrow> string option
   \<Rightarrow> string option \<Rightarrow> json dict checked \<times> string option" where
  "package_result lib dir later enough expected task expected_contract old =
     (case bnd (validate_result lib dir expected task (8 * 1024 ^ 3) expected_contract) (\<lambda>receipt.
            bnd (members_to_pack lib later enough (str_field receipt ''result_manifest_sha256'')) (\<lambda>ms. Inr (receipt, lib_zip lib ms))) of
        Inl e \<Rightarrow> (Inl e, old)
      | Inr (receipt, z) \<Rightarrow>
          (Inr (receipt @ [(''archive_sha256'', JStr (lib_sha256 lib z)), (''archive_size'', JInt (int (length z)))]), Some z))"

section \<open>The worker's part\<close>

text \<open>The frozen task of a job, its digest, and the receipt the worker completes (\<^verbatim>\<open>finish_kernel_job\<close>).\<close>

definition frozen_task_digest :: "result_lib \<Rightarrow> job \<Rightarrow> string \<Rightarrow> string checked" where
  "frozen_task_digest lib j file =
     bnd (read_json lib file) (\<lambda>d.
     bnd (each (\<lambda>(k, v). bnd (nested d ''identity'' k) (\<lambda>u.
         unless (u \<noteq> Some (JStr v)) ''P6 frozen submission identity mismatch'')) (identity_of_job j)) (\<lambda>_.
     bnd (unless (\<not> is_text (map_of d ''format'')
            (if artifact_contract j = second_contract then ''dino_cloud_task_p6_v2'' else ''dino_cloud_task_p6_v1''))
          ''P6 task/artifact version mismatch'') (\<lambda>_.
     Inr (lib_sha256 lib (lib_canonical lib (JObj d))))))"

definition completed_receipt :: "job \<Rightarrow> json dict \<Rightarrow> json dict \<Rightarrow> json dict checked" where
  "completed_receipt j observed receipt =
     bnd (each (\<lambda>k. bnd (member_of observed k) (\<lambda>v. Inr (k, v)))
        [''kernel_version'', ''source_sha256'', ''dataset_sources'', ''observed_dataset_sources'', ''dataset_binding_method''])
       (\<lambda>more_fields. Inr (dict_update receipt
          ([(''job_id'', JStr (job_id j)), (''kernel_ref'', JStr (kernel_ref j)), (''dataset_ref'', JStr (dataset_ref j))] @ more_fields)))"

text \<open>What is written beside the archive, and the archive.\<close>

definition deliver_result ::
  "result_lib \<Rightarrow> (string \<Rightarrow> found) \<Rightarrow> (string \<Rightarrow> found) \<Rightarrow> (int \<Rightarrow> bool) \<Rightarrow> job \<Rightarrow> string \<Rightarrow> json dict
   \<Rightarrow> (json dict \<times> string) checked" where
  "deliver_result lib dir later enough j task_file observed =
     bnd (frozen_task_digest lib j task_file) (\<lambda>task.
     case package_result lib dir later enough (Some (identity_of_job j)) task (Some (artifact_contract j)) None of
       (Inl e, _) \<Rightarrow> Inl e
     | (Inr receipt, z) \<Rightarrow> bnd (completed_receipt j observed receipt) (\<lambda>r. Inr (r, case z of None \<Rightarrow> [] | Some b \<Rightarrow> b)))"

section \<open>What a passed validation says\<close>

lemma plain_fileD:
  "plain_file dir p = Inr b \<Longrightarrow> \<exists>n. p = JStr n \<and> dir n = Bytes b \<and> list_all safe_part (split_on (CHR ''/'') n)"
  by (cases p) (auto simp: plain_file_def text_in_def split: if_splits found.splits)

lemma row_fieldsD:
  "row_fields j = Some (p, n, h) \<Longrightarrow> row_to_copy j = Inr (p, n, h) \<and> 1 \<le> n \<and> hex64 h"
  by (auto simp: row_fields_def row_to_copy_def object_of_def member_of_def or_crash_def
      split: json.splits option.splits if_splits)

lemma check_rowsD:
  assumes "check_rows lib dir max_bytes seen t rs = Inr rows" and "t \<le> max_bytes"
  shows "list_all2 (\<lambda>j r. row_to_copy j = Inr (JStr (row_path r), row_size r, row_sha256 r)) rs rows
    \<and> distinct (map (\<lambda>r. lower (row_path r)) rows) \<and> (\<lambda>r. lower (row_path r)) ` set rows \<inter> seen = {}
    \<and> t + sum_list (map row_size rows) \<le> max_bytes
    \<and> list_all (\<lambda>r. 1 \<le> row_size r \<and> hex64 (row_sha256 r)) rows"
  using assms
proof (induction rs arbitrary: seen t rows)
  case (Cons j rs)
  from Cons.prems obtain p n h b rest where r: "row_fields j = Some (p, n, h)" "plain_file dir p = Inr b"
    "lower (the (text_in p)) \<notin> seen" "t + n \<le> max_bytes"
    "check_rows lib dir max_bytes (insert (lower (the (text_in p))) seen) (t + n) rs = Inr rest"
    "rows = \<lparr>row_path = the (text_in p), row_size = n, row_sha256 = h\<rparr> # rest"
    by (auto simp: bnd_iff Let_def not_less split: option.splits if_splits)
  obtain name where p: "p = JStr name" using plain_fileD [OF r(2)] by blast
  from Cons.IH [OF r(5,4)] row_fieldsD [OF r(1)] r(3,6) p show ?case
    by (auto simp: text_in_def)
qed simp

lemma inventoryD:
  assumes "result_inventory lib dir files max_bytes = Inr rows" and "0 \<le> max_bytes"
  obtains rs where "files = JArr rs"
    and "list_all2 (\<lambda>j r. row_to_copy j = Inr (JStr (row_path r), row_size r, row_sha256 r)) rs rows"
    and "distinct (map (\<lambda>r. lower (row_path r)) rows)" and "sum_list (map row_size rows) \<le> max_bytes"
    and "list_all (\<lambda>r. 1 \<le> row_size r \<and> hex64 (row_sha256 r)) rows" and "int (length rows) \<le> 100000"
proof -
  from assms(1) obtain rs where rs: "files = JArr rs" "int (length rs) \<le> 100000" "check_rows lib dir max_bytes {} 0 rs = Inr rows"
    by (auto simp: result_inventory_def list_of_def not_less split: option.splits json.splits if_splits)
  from check_rowsD [OF rs(3) assms(2)] rs(1,2) that [of rs] show thesis by (auto dest: list_all2_lengthD)
qed

lemma validateD:
  assumes "validate_result lib dir expected task max_bytes expected_contract = Inr receipt"
  obtains d contract df tf i files rows names m st where
    "read_file lib dir manifest_name = Inr d" and "versions_of d expected_contract = Inr (contract, df, tf)" and "hex64 task"
    and "check_identity d expected = Inr i" and "map_of d ''files'' = Some files"
    and "result_inventory lib dir files max_bytes = Inr rows" and "onnx_state d = Inr st"
    and "row_path ` set rows = set training_files \<union> {n \<in> row_path ` set rows. report_name n} \<union> set names"
    and "list_all (\<lambda>r. download_allowed (row_path r)) rows"
    and "plain_file dir (JStr manifest_name) = Inr m"
    and "str_field receipt ''result_manifest_sha256'' = lib_sha256 lib m"
    and "map_of receipt ''identity'' = Some (JObj (map (\<lambda>k. (k, JStr (the (map_of i k)))) identity_fields_p6))"
    and "map_of receipt ''task_sha256'' = Some (JStr task)" and "map_of receipt ''onnx_status'' = Some (JStr st)"
    and "map fst receipt = [''format'', ''identity'', ''task_sha256'', ''result_manifest_sha256'', ''file_set_sha256'',
      ''deployment_manifest_sha256'', ''training_status'', ''onnx_status'', ''windows_status'']"
proof -
  from assms obtain d v i files rows st names dep m where r: "read_file lib dir manifest_name = Inr d"
    "versions_of d expected_contract = Inr v" "hex64 task" "check_identity d expected = Inr i"
    "map_of d ''files'' = Some files" "result_inventory lib dir files max_bytes = Inr rows" "onnx_state d = Inr st"
    "row_path ` set rows = set training_files \<union> {n \<in> row_path ` set rows. report_name n} \<union> set names"
    "list_all (\<lambda>r. download_allowed (row_path r)) rows" "plain_file dir (JStr manifest_name) = Inr m"
    "receipt = result_receipt (fst v) i task (lib_sha256 lib m) (lib_sha256 lib (lib_canonical lib files)) dep st"
    unfolding validate_result_def bnd_iff unless_iff member_of_def or_crash_iff case_prod_beta by auto
  obtain contract df tf where v: "v = (contract, df, tf)" by (cases v)
  show thesis
    by (rule that [OF r(1) r(2) [unfolded v] r(3-8) r(9) r(10)])
      (use r(11) in \<open>auto simp: result_receipt_def str_field_def\<close>)
qed

definition receipt_keys :: "string list" where
  "receipt_keys = [''format'', ''identity'', ''task_sha256'', ''result_manifest_sha256'', ''file_set_sha256'',
     ''deployment_manifest_sha256'', ''training_status'', ''onnx_status'', ''windows_status'']"

lemma validated_receipt:
  assumes "validate_result lib dir expected task max_bytes expected_contract = Inr receipt"
  shows "\<exists>d contract df tf i. versions_of d expected_contract = Inr (contract, df, tf) \<and> check_identity d expected = Inr i
    \<and> map_of receipt ''identity'' = Some (JObj (map (\<lambda>k. (k, JStr (the (map_of i k)))) identity_fields_p6))
    \<and> map fst receipt = receipt_keys"
  unfolding receipt_keys_def by (rule validateD [OF assms]) (intro exI conjI, assumption+)

lemma copy_rowD:
  "copy_row lib dir enough (p, n, h) = Inr (name, b) \<Longrightarrow>
     \<exists>q. p = JStr q \<and> name = ''p6_result/'' @ q \<and> dir q = Bytes b \<and> int (length b) = n \<and> lib_sha256 lib b = h"
  by (auto simp: copy_row_def bnd_iff text_in_def dest!: plain_fileD split: if_splits)

section \<open>Properties\<close>

text \<open>What an archive member is for a row of the inventory.\<close>

definition packs :: "result_lib \<Rightarrow> file_row \<Rightarrow> string \<times> string \<Rightarrow> bool" where
  "packs lib r m \<longleftrightarrow> fst m = ''p6_result/'' @ row_path r \<and> int (length (snd m)) = row_size r
     \<and> lib_sha256 lib (snd m) = row_sha256 r"

lemma packed_rows:
  assumes "each (\<lambda>j. bnd (row_to_copy j) (copy_row lib later enough)) rs = Inr ms"
    and "list_all2 (\<lambda>j r. row_to_copy j = Inr (JStr (row_path r), row_size r, row_sha256 r)) rs rows"
  shows "list_all2 (packs lib) rows ms"
  using assms
proof (induction rs arbitrary: rows ms)
  case (Cons j rs)
  then obtain r rest where r: "rows = r # rest" "row_to_copy j = Inr (JStr (row_path r), row_size r, row_sha256 r)"
    "list_all2 (\<lambda>j r. row_to_copy j = Inr (JStr (row_path r), row_size r, row_sha256 r)) rs rest"
    by (auto simp: list_all2_Cons1)
  with Cons.prems(1) obtain m ms' where m: "copy_row lib later enough (JStr (row_path r), row_size r, row_sha256 r) = Inr m"
    "each (\<lambda>j. bnd (row_to_copy j) (copy_row lib later enough)) rs = Inr ms'" "ms = m # ms'"
    by (auto simp: bnd_iff)
  have "packs lib r m" using copy_rowD [of lib later enough _ _ _ "fst m" "snd m"] m(1) by (auto simp: packs_def)
  with Cons.IH [OF m(2) r(3)] r(1) m(3) show ?case by simp
qed simp

lemma each_append_Inr:
  "each f (xs @ [x]) = Inr zs \<longleftrightarrow> (\<exists>ys y. each f xs = Inr ys \<and> f x = Inr y \<and> zs = ys @ [y])"
  by (induction xs arbitrary: zs) (auto simp: bnd_iff)

definition manifest_row :: "string \<Rightarrow> string \<Rightarrow> json" where
  "manifest_row h m =
     JObj [(''path'', JStr manifest_name), (''sha256'', JStr h), (''size'', JInt (int (length m)))]"

lemma manifest_packed:
  assumes "bnd (row_to_copy (manifest_row h m)) (copy_row lib later enough) = Inr y"
    and "plain_file later (JStr manifest_name) = Inr m"
  shows "y = (''p6_result/'' @ manifest_name, m)"
proof -
  have "row_to_copy (manifest_row h m) = Inr (JStr manifest_name, int (length m), h)"
    by (simp add: row_to_copy_def manifest_row_def object_of_def member_of_def or_crash_def)
  with assms show ?thesis by (simp add: copy_row_def text_in_def split: if_splits)
qed

lemma packed_sizes: "list_all2 (packs lib) rows ms \<Longrightarrow> (\<Sum>m \<leftarrow> ms. int (length (snd m))) = sum_list (map row_size rows)"
  by (induction rows ms rule: list_all2_induct) (auto simp: packs_def)

text \<open>
  C26: An archive that is delivered holds what was validated, whatever happens to the other downloaded files while it is
  packed, provided the manifest itself does not change between validation and packing: its members are exactly the
  entries of the manifest's list of files, in this order and each once, under an allowed name and with the size and
  digest the entry declares, and after them the manifest, whose digest the receipt names; together they stay within
  eight GiB and the size of a manifest. Any failure leaves the destination as it was.
\<close>

theorem archive_holds_validated_result:
  assumes "package_result lib dir later enough expected task expected_contract old = (r, z)"
    and "later manifest_name = dir manifest_name"
  shows "(case r of
      Inl _ \<Rightarrow> z = old
    | Inr receipt \<Rightarrow> (\<exists>d rs rows ms m. read_file lib dir manifest_name = Inr d \<and> map_of d ''files'' = Some (JArr rs)
        \<and> list_all2 (\<lambda>j r. row_to_copy j = Inr (JStr (row_path r), row_size r, row_sha256 r)) rs rows
        \<and> result_inventory lib dir (JArr rs) (8 * 1024 ^ 3) = Inr rows
        \<and> z = Some (lib_zip lib (ms @ [(''p6_result/'' @ manifest_name, m)])) \<and> list_all2 (packs lib) rows ms
        \<and> dir manifest_name = Bytes m \<and> str_field receipt ''result_manifest_sha256'' = lib_sha256 lib m
        \<and> list_all (\<lambda>r. download_allowed (row_path r)) rows \<and> distinct (map (\<lambda>r. lower (row_path r)) rows)
        \<and> (\<Sum>m \<leftarrow> ms. int (length (snd m))) + int (length m) \<le> 8 * 1024 ^ 3 + 16 * 1024 ^ 2))"
proof (cases r)
  case (Inl e)
  with assms(1) show ?thesis by (auto simp: package_result_def split: sum.splits prod.splits)
next
  case (Inr receipt)
  let ?eight = "8 * 1024 ^ 3 :: int"
  from assms(1) Inr obtain base ms where v: "validate_result lib dir expected task ?eight expected_contract = Inr base"
    "members_to_pack lib later enough (str_field base ''result_manifest_sha256'') = Inr ms" "z = Some (lib_zip lib ms)"
    "receipt = base @ [(''archive_sha256'', JStr (lib_sha256 lib (lib_zip lib ms))), (''archive_size'', JInt (int (length (lib_zip lib ms))))]"
    by (auto simp: package_result_def bnd_def split: sum.splits prod.splits)
  from v(1) obtain d files rows m where d: "read_file lib dir manifest_name = Inr d" "map_of d ''files'' = Some files"
    "result_inventory lib dir files ?eight = Inr rows" "list_all (\<lambda>r. download_allowed (row_path r)) rows"
    "plain_file dir (JStr manifest_name) = Inr m" "str_field base ''result_manifest_sha256'' = lib_sha256 lib m"
    by (rule validateD) fast
  obtain rs where rs: "files = JArr rs"
    "list_all2 (\<lambda>j r. row_to_copy j = Inr (JStr (row_path r), row_size r, row_sha256 r)) rs rows"
    "distinct (map (\<lambda>r. lower (row_path r)) rows)" "sum_list (map row_size rows) \<le> ?eight"
    using inventoryD [OF d(3)] by auto
  have same: "plain_file later (JStr manifest_name) = plain_file dir (JStr manifest_name)"
    using assms(2) by (simp add: plain_file_def text_in_def)
  then have "read_file lib later manifest_name = Inr d" using d(1) by (simp add: read_file_def)
  moreover have files: "json_rows d ''files'' = Inr rs"
    by (simp add: json_rows_def member_of_def or_crash_def list_of_def d(2) rs(1))
  ultimately have e: "each (\<lambda>j. bnd (row_to_copy j) (copy_row lib later enough)) (rs @ [manifest_row (lib_sha256 lib m) m]) = Inr ms"
    using v(2) unfolding members_to_pack_def by (simp only: files same d(5,6) bnd_simps manifest_row_def)
  then obtain packed y where packed: "each (\<lambda>j. bnd (row_to_copy j) (copy_row lib later enough)) rs = Inr packed"
    "bnd (row_to_copy (manifest_row (lib_sha256 lib m) m)) (copy_row lib later enough) = Inr y" "ms = packed @ [y]"
    by (auto simp: each_append_Inr)
  have y: "y = (''p6_result/'' @ manifest_name, m)"
    by (rule manifest_packed [OF packed(2)]) (simp add: same d(5))
  have l: "list_all2 (packs lib) rows packed" by (rule packed_rows [OF packed(1) rs(2)])
  have m: "dir manifest_name = Bytes m" using plain_fileD [OF d(5)] by auto
  have "int (length m) \<le> 16 * 1024 ^ 2"
    using d(1,5) by (auto simp: read_file_def read_json_def bnd_iff split: if_splits)
  then have b: "(\<Sum>m \<leftarrow> packed. int (length (snd m))) + int (length m) \<le> ?eight + 16 * 1024 ^ 2"
    using packed_sizes [OF l] rs(4) by simp
  have f: "str_field receipt ''result_manifest_sha256'' = lib_sha256 lib m"
  proof -
    from validated_receipt [OF v(1)] have "''result_manifest_sha256'' \<in> set (map fst base)" by (auto simp: receipt_keys_def)
    then obtain j where "map_of base ''result_manifest_sha256'' = Some j"
      by (cases "map_of base ''result_manifest_sha256''") (auto simp: map_of_eq_None_iff)
    then have "str_field receipt ''result_manifest_sha256'' = str_field base ''result_manifest_sha256''"
      using v(4) by (simp add: str_field_def map_add_def)
    with d(6) show ?thesis by simp
  qed
  have z: "z = Some (lib_zip lib (packed @ [(''p6_result/'' @ manifest_name, m)]))" by (simp only: v(3) packed(3) y)
  show ?thesis unfolding Inr sum.case by (intro exI conjI) (rule d(1), rule d(2) [unfolded rs(1)], rule rs(2), rule d(3) [unfolded rs(1)], rule z, rule l, rule m, rule f, rule d(4), rule rs(3), rule b)
qed


section \<open>From the worker to the download\<close>

lemma frozen_identity:
  assumes "frozen j' = frozen j"
  shows "identity_of_job j' = identity_of_job j" "artifact_contract j' = artifact_contract j" "job_id j' = job_id j"
proof -
  have "f (frozen j') = f (frozen j)" for f :: "job \<Rightarrow> string" by (simp add: assms)
  from this [of dataset_id] this [of identity_sha256] this [of run_id] this [of run_identity_sha256]
    this [of artifact_contract] this [of job_id]
  show "identity_of_job j' = identity_of_job j" "artifact_contract j' = artifact_contract j" "job_id j' = job_id j"
    by (simp_all add: frozen_def identity_of_job_def)
qed

lemma versions_contract: "versions_of d (Some c) = Inr (contract, f, t) \<Longrightarrow> c = contract \<and> c \<in> set bound_contracts"
  by (auto simp: versions_of_def bnd_iff unless_iff result_formats_def bound_contracts_def split: option.splits if_splits)

text \<open>The members of the receipt that the download compares.\<close>

lemma delivered_receipt:
  assumes "deliver_result lib dir later enough j task_file observed = Inr (r, z)"
  shows "artifact_contract j \<in> set bound_contracts" and "map_of r ''job_id'' = Some (JStr (job_id j))"
    and "map_of r ''archive_size'' = Some (JInt (int (length z)))"
    and "map_of r ''archive_sha256'' = Some (JStr (lib_sha256 lib z))"
    and "map_of r ''identity'' = Some (JObj (map (\<lambda>k. (k, JStr (the (map_of (identity_of_job j) k)))) identity_fields_p6))"
proof -
  from assms obtain task receipt base ms where t: "completed_receipt j observed receipt = Inr r"
    "validate_result lib dir (Some (identity_of_job j)) task (8 * 1024 ^ 3) (Some (artifact_contract j)) = Inr base"
    "z = lib_zip lib ms"
    "receipt = base @ [(''archive_sha256'', JStr (lib_sha256 lib z)), (''archive_size'', JInt (int (length z)))]"
    by (auto simp: deliver_result_def package_result_def bnd_iff bnd_def split: sum.splits prod.splits option.splits)
  obtain d contract df tf i where v: "versions_of d (Some (artifact_contract j)) = Inr (contract, df, tf)"
    "check_identity d (Some (identity_of_job j)) = Inr i"
    "map_of base ''identity'' = Some (JObj (map (\<lambda>k. (k, JStr (the (map_of i k)))) identity_fields_p6))"
    "map fst base = receipt_keys"
    using validated_receipt [OF t(2)] by blast
  have i: "i = identity_of_job j" using v(2) by (auto simp: check_identity_def bnd_iff)
  have absent: "map_of base k = None" if "k \<in> {''archive_sha256'', ''archive_size''}" for k
    using that v(4) by (auto simp: receipt_keys_def map_of_eq_None_iff simp flip: set_map)
  from t(1) obtain a b c e f where "r = dict_update receipt [(''job_id'', JStr (job_id j)), (''kernel_ref'', JStr (kernel_ref j)),
      (''dataset_ref'', JStr (dataset_ref j)), (''kernel_version'', a), (''source_sha256'', b), (''dataset_sources'', c),
      (''observed_dataset_sources'', e), (''dataset_binding_method'', f)]"
    unfolding completed_receipt_def by (auto simp: bnd_iff each_iff list_all2_Cons1)
  with t(4) absent v(3) i show "map_of r ''job_id'' = Some (JStr (job_id j))"
    "map_of r ''archive_size'' = Some (JInt (int (length z)))" "map_of r ''archive_sha256'' = Some (JStr (lib_sha256 lib z))"
    "map_of r ''identity'' = Some (JObj (map (\<lambda>k. (k, JStr (the (map_of (identity_of_job j) k)))) identity_fields_p6))"
    by (simp_all add: map_of_dict_update map_add_def)
  show "artifact_contract j \<in> set bound_contracts" using versions_contract [OF v(1)] by blast
qed

text \<open>
  C33: What a worker delivers can be fetched: the receipt it writes beside the archive is one that the download
  accepts, for this job and this archive. So as soon as the job has ended and its row names the archive, and as
  long as both files stay, the archive is offered with its receipt, whatever else was written to the row.
\<close>

theorem delivered_result_downloads:
  assumes "deliver_result lib dir later enough j task_file observed = Inr (r, z)"
    and "frozen j' = frozen j" and "status j' \<in> {Complete, Canceled}" and "artifact_path j' \<noteq> []"
    and "look_artifact w (artifact_path j') = Plain_file (int (length z))"
    and "receipt_beside w (artifact_path j') = Some r"
  shows "\<exists>v. artifact_download_metadata w keep_hours j' = Inr v \<and> dv_can v \<and> dv_receipt v = Some r
    \<and> dv_size v = Some (int (length z)) \<and> map_of r ''archive_sha256'' = Some (JStr (lib_sha256 lib z))"
proof -
  note same = frozen_identity [OF assms(2)] and d = delivered_receipt [OF assms(1)]
  have "receipt_binds j' (int (length z)) r = Some True"
    using d(2,3,5) by (simp add: receipt_binds_def equals_int_def same(3) same(1) [unfolded identity_of_job_def]
        identity_of_job_def identity_fields_p6_def)
  with assms(3-6) d(1,4) show ?thesis
    by (simp add: artifact_download_metadata_def with_receipt_def no_download_def same map_sum_def Let_def)
qed

section \<open>An example\<close>

definition sample_result_lib :: result_lib where
  "sample_result_lib =
     (let identity = JObj [(''dataset_id'', JStr ''d''), (''identity_sha256'', JStr ''i''), (''run_id'', JStr ''r''),
            (''run_identity_sha256'', JStr ''s'')];
          sha = (\<lambda>b. take 64 (b @ replicate 64 (CHR ''0'')));
          row = (\<lambda>p b. JObj [(''path'', JStr p), (''size'', JInt 1), (''sha256'', JStr (sha b))]);
          stage = [row ''model.ckpt'' ''b'', row ''threshold.json'' ''c'', row ''metrics.json'' ''d''];
          files = JArr [row ''training/model.ckpt'' ''b'', row ''training/threshold.json'' ''c'',
            row ''training/metrics.json'' ''d'', row ''training/runtime_result.json'' ''e'', row ''reports/run.json'' ''f''];
          docs = [(''a'', JObj [(''format'', JStr ''dino_cloud_result_p6_v1''),
                (''artifact_contract'', JStr ''patchcore_dinov2_251_onnx_v1''), (''training_status'', JStr ''PASS''),
                (''windows_status'', JStr ''PENDING''), (''task_sha256'', JStr (sha ''1'')), (''identity'', identity),
                (''files'', files), (''file_set_sha256'', JStr (sha ''1'')), (''onnx_status'', JStr ''FAIL'')]),
            (''e'', JObj [(''format'', JStr ''vision_workshop_dinov2_251_training_stage_v1''),
                (''training_status'', JStr ''completed''), (''run_identity'', identity), (''files'', JArr stage)]),
            (''c'', JObj [(''threshold'', JFloat (1 / 2)), (''model_sha256'', JStr (sha ''b'')),
                (''score_kind'', JStr ''patchcore_dinov2_l2_nnmax_raw_v1''), (''decision_rule'', JStr ''score_gte_threshold''),
                (''calibration_owner'', JStr ''training'')]),
            (''7'', JObj [(''format'', JStr ''dino_cloud_task_p6_v1''), (''identity'', identity)])]
      in \<lparr>lib_sha256 = sha, lib_decode = map_of docs, lib_canonical = (\<lambda>_. ''1''), lib_zip = (\<lambda>ms. concat (map snd ms))\<rparr>)"

definition sample_result :: "string \<Rightarrow> found" where
  "sample_result name =
     (case map_of [(manifest_name, ''a''), (''training/model.ckpt'', ''b''), (''training/threshold.json'', ''c''),
          (''training/metrics.json'', ''d''), (''training/runtime_result.json'', ''e''), (''reports/run.json'', ''f'')] name of
        None \<Rightarrow> Not_a_file | Some b \<Rightarrow> Bytes b)"

definition trained_job :: job where
  "trained_job = sample_job\<lparr>dataset_id := ''d'', identity_sha256 := ''i'', run_id := ''r'', run_identity_sha256 := ''s'',
     artifact_contract := ''patchcore_dinov2_251_onnx_v1'', status := Complete, artifact_path := ''a.zip''\<rparr>"

definition sample_observed :: "json dict" where
  "sample_observed = map (\<lambda>k. (k, JNull))
     [''kernel_version'', ''source_sha256'', ''dataset_sources'', ''observed_dataset_sources'', ''dataset_binding_method'']"

definition sample_delivered :: "(json dict \<times> string) checked" where
  "sample_delivered = deliver_result sample_result_lib sample_result sample_result (\<lambda>_. True) trained_job ''7'' sample_observed"

lemma map_sum_Inr: "map_sum id snd v = Inr b \<longleftrightarrow> (\<exists>a. v = Inr (a, b))"
  by (cases v) auto

lemma sample_delivers: "map_sum id snd sample_delivered = Inr ''bcdefa''"
  by code_simp

text \<open>The result that was delivered is one that was packed.\<close>

lemma archive_holds_validated_result_witness:
  "\<exists>task receipt rows ms m. package_result sample_result_lib sample_result sample_result (\<lambda>_. True) (Some (identity_of_job trained_job))
       task (Some (artifact_contract trained_job)) None
       = (Inr receipt, Some (lib_zip sample_result_lib (ms @ [(''p6_result/'' @ manifest_name, m)])))
     \<and> lib_zip sample_result_lib (ms @ [(''p6_result/'' @ manifest_name, m)]) = ''bcdefa'' \<and> list_all2 (packs sample_result_lib) rows ms"
proof -
  obtain r where "sample_delivered = Inr (r, ''bcdefa'')"
    using sample_delivers by (auto simp: map_sum_Inr)
  then obtain task where t: "(case package_result sample_result_lib sample_result sample_result (\<lambda>_. True)
      (Some (identity_of_job trained_job)) task (Some (artifact_contract trained_job)) None of
        (Inl e, _) \<Rightarrow> Inl e
      | (Inr receipt, z) \<Rightarrow> bnd (completed_receipt trained_job sample_observed receipt)
          (\<lambda>r. Inr (r, case z of None \<Rightarrow> [] | Some b \<Rightarrow> b))) = Inr (r, ''bcdefa'')"
    unfolding sample_delivered_def deliver_result_def bnd_iff by blast
  obtain v z where p0: "package_result sample_result_lib sample_result sample_result (\<lambda>_. True)
      (Some (identity_of_job trained_job)) task (Some (artifact_contract trained_job)) None = (v, z)" by fastforce
  with t obtain receipt where p: "package_result sample_result_lib sample_result sample_result (\<lambda>_. True)
      (Some (identity_of_job trained_job)) task (Some (artifact_contract trained_job)) None = (Inr receipt, z)"
    "(case z of None \<Rightarrow> [] | Some b \<Rightarrow> b) = ''bcdefa''"
    by (cases v) (auto simp: bnd_iff)
  from archive_holds_validated_result [OF p(1) refl] obtain d rs rows ms m where
    z: "z = Some (lib_zip sample_result_lib (ms @ [(''p6_result/'' @ manifest_name, m)]))" "list_all2 (packs sample_result_lib) rows ms"
    by auto
  with p(2) have "lib_zip sample_result_lib (ms @ [(''p6_result/'' @ manifest_name, m)]) = ''bcdefa''" by simp
  with p(1) [unfolded z(1)] z(2) show ?thesis by blast
qed

lemma delivered_result_downloads_witness:
  "\<exists>r w v. sample_delivered = Inr (r, ''bcdefa'') \<and> artifact_download_metadata w 168 trained_job = Inr v
     \<and> dv_can v \<and> dv_receipt v = Some r"
proof -
  obtain r where r: "sample_delivered = Inr (r, ''bcdefa'')"
    using sample_delivers by (auto simp: map_sum_Inr)
  define w where "w = whole_view\<lparr>look_artifact := \<lambda>_. Plain_file 6, receipt_beside := \<lambda>_. Some r\<rparr>"
  have t: "status trained_job \<in> {Complete, Canceled}" "artifact_path trained_job \<noteq> []" by (simp_all add: trained_job_def)
  have w: "look_artifact w (artifact_path trained_job) = Plain_file (int (length ''bcdefa''))"
    "receipt_beside w (artifact_path trained_job) = Some r" by (simp_all add: w_def)
  from delivered_result_downloads [OF r [unfolded sample_delivered_def] refl t w, of 168] r show ?thesis by blast
qed

end
