(* ===== verification/Kernel_Output.thy ===== *)
theory Kernel_Output
  imports Result_Package Pipeline
begin

text \<open>
  The download of a result from exactly the version of the run that was submitted
  (\<^verbatim>\<open>app/dinov2_kaggle_output.py\<close> and the download calls of \<^verbatim>\<open>app/kaggle_adapter.py\<close>). What the remote side says
  of a kernel and lists as its output is a parameter, and so are the bytes behind an address; the directory is a
  list of names with their bytes, without links. The pattern of allowed names is that of \<^verbatim>\<open>Result_Package\<close>.
\<close>

section \<open>The version of a run\<close>

record kernel_meta =
  km_ref :: string
  km_version :: "int option"
  km_source :: string
  km_datasets :: "json"

text \<open>\<^verbatim>\<open>[^/]+/[^/]+/[1-9][0-9]*\<close>.\<close>

definition frozen_source :: "string \<Rightarrow> bool" where
  "frozen_source s \<longleftrightarrow>
     (case split_on (CHR ''/'') s of
        [a, b, v] \<Rightarrow> a \<noteq> [] \<and> b \<noteq> [] \<and> v \<noteq> [] \<and> list_all is_digit v \<and> hd v \<noteq> CHR ''0''
      | _ \<Rightarrow> False)"

definition without_version :: "string \<Rightarrow> string" where
  "without_version s = join ''/'' (butlast (split_on (CHR ''/'') s))"

definition same_source :: "json \<Rightarrow> json \<Rightarrow> bool" where
  "same_source seen kept \<longleftrightarrow>
     (case kept of
        JStr f \<Rightarrow> frozen_source f \<and> (seen = JStr f \<or> seen = JStr (without_version f))
      | _ \<Rightarrow> False)"

definition dataset_binding :: "json \<Rightarrow> json \<Rightarrow> bool" where
  "dataset_binding actual expected \<longleftrightarrow>
     (case (actual, expected) of
        (JArr as, JArr es) \<Rightarrow> length as = length es \<and> es \<noteq> [] \<and> list_all2 same_source as es
      | _ \<Rightarrow> False)"

record observation =
  ob_ref :: string
  ob_version :: int
  ob_source_sha256 :: string
  ob_datasets :: json
  ob_seen_datasets :: json

definition split_ref :: "string \<Rightarrow> bool" where
  "split_ref ref \<longleftrightarrow> length (split_on (CHR ''/'') ref) = 2"

definition bad_kernel :: "string \<Rightarrow> exc" where
  "bad_kernel t = value_error t"

definition observe_kernel ::
  "(string \<Rightarrow> string) \<Rightarrow> exc + kernel_meta \<Rightarrow> string \<Rightarrow> string \<Rightarrow> json \<Rightarrow> int \<Rightarrow> exc + observation" where
  "observe_kernel sha answer ref code datasets version =
     (if \<not> split_ref ref then Inl (bad_kernel ''cannot unpack the kernel reference'')
      else if version < 1 then Inl (bad_kernel ''explicit original Kernel version required'')
      else case answer of
        Inl e \<Rightarrow> Inl e
      | Inr m \<Rightarrow>
          (case km_version m of
             None \<Rightarrow> Inl (bad_kernel ''exact Kernel version metadata unavailable/mismatched'')
           | Some v \<Rightarrow>
               if v < 1 \<or> v \<noteq> version then Inl (bad_kernel ''exact Kernel version metadata unavailable/mismatched'')
               else if km_ref m \<noteq> ref \<or> km_source m \<noteq> code \<or> \<not> dataset_binding (km_datasets m) datasets
               then Inl (bad_kernel ''authenticated Kernel source/Dataset binding mismatch'')
               else Inr \<lparr>ob_ref = ref, ob_version = v, ob_source_sha256 = sha code, ob_datasets = datasets,
                 ob_seen_datasets = km_datasets m\<rparr>))"

definition verify_observation :: "(string \<Rightarrow> string) \<Rightarrow> exc + kernel_meta \<Rightarrow> observation \<Rightarrow> exc option" where
  "verify_observation sha answer ob =
     (if \<not> split_ref (ob_ref ob) then Some (bad_kernel ''cannot unpack the kernel reference'')
      else case answer of
        Inl e \<Rightarrow> Some e
      | Inr m \<Rightarrow>
          if km_ref m \<noteq> ob_ref ob \<or> km_version m \<noteq> Some (ob_version ob) \<or> sha (km_source m) \<noteq> ob_source_sha256 ob
             \<or> \<not> dataset_binding (km_datasets m) (ob_datasets ob) \<or> \<not> same_value (km_datasets m) (ob_seen_datasets ob)
          then Some (bad_kernel ''original Kernel version/source advanced or changed; refusing latest output'') else None)"

section \<open>The files of a version\<close>

record remote_file =
  rf_name :: string
  rf_url :: "string option"

text \<open>A page of the list of files, with the token of the next page.\<close>

record output_page =
  op_files :: "remote_file list"
  op_next :: "string option"

text \<open>What an address delivers: blocks, and an exception instead of the end.\<close>

datatype delivery = Refused_url exc | Delivers "string list" "exc option"

record download_state =
  ds_seen :: "string set"
  ds_count :: nat
  ds_total :: int
  ds_written :: "(string \<times> string) list"

definition output_allowed :: "string \<Rightarrow> bool" where
  "output_allowed name \<longleftrightarrow> (case below_folder ''p6_result'' name of None \<Rightarrow> False | Some t \<Rightarrow> download_allowed t)"

definition unsafe_output :: "string \<Rightarrow> bool" where
  "unsafe_output name \<longleftrightarrow> CHR 0x5C \<in> set name \<or> CHR '':'' \<in> set name \<or> \<not> list_all safe_part (split_on (CHR ''/'') name)"

fun take_blocks :: "int \<Rightarrow> int \<Rightarrow> string list \<Rightarrow> exc option \<Rightarrow> exc + int \<times> string" where
  "take_blocks max_bytes t [] ending = (case ending of None \<Rightarrow> Inr (t, []) | Some e \<Rightarrow> Inl e)"
| "take_blocks max_bytes t (b # bs) ending =
     (if max_bytes < t + int (length b) then Inl (bad_kernel ''exact-version output budget exceeded'')
      else map_sum id (\<lambda>(u, c). (u, b @ c)) (take_blocks max_bytes (t + int (length b)) bs ending))"

definition fetch_output :: "(string \<Rightarrow> delivery) \<Rightarrow> int \<Rightarrow> remote_file \<Rightarrow> download_state \<Rightarrow> exc + download_state" where
  "fetch_output bytes_at max_bytes f st =
     (let name = rf_name f in
      if \<not> output_allowed name then Inr st
      else if lower name \<in> ds_seen st \<or> unsafe_output name then Inl (bad_kernel ''unsafe exact-version output path'')
      else if 100000 < int (ds_count st) + 1 then Inl (bad_kernel ''output file count budget exceeded'')
      else case rf_url f of
        None \<Rightarrow> Inl (bad_kernel ''authenticated output requires HTTPS'')
      | Some url \<Rightarrow>
          if \<not> prefix ''https://'' url then Inl (bad_kernel ''authenticated output requires HTTPS'')
          else if name \<in> fst ` set (ds_written st) then Inl (bad_kernel ''file exists'')
          else case bytes_at url of
            Refused_url e \<Rightarrow> Inl e
          | Delivers bs ending \<Rightarrow>
              map_sum id (\<lambda>(t, c). \<lparr>ds_seen = insert (lower name) (ds_seen st), ds_count = ds_count st + 1, ds_total = t,
                  ds_written = ds_written st @ [(name, c)]\<rparr>) (take_blocks max_bytes (ds_total st) bs ending))"

fun fetch_outputs :: "(string \<Rightarrow> delivery) \<Rightarrow> int \<Rightarrow> remote_file list \<Rightarrow> download_state \<Rightarrow> exc + download_state" where
  "fetch_outputs bytes_at max_bytes [] st = Inr st"
| "fetch_outputs bytes_at max_bytes (f # fs) st =
     (case fetch_output bytes_at max_bytes f st of Inl e \<Rightarrow> Inl e | Inr st' \<Rightarrow> fetch_outputs bytes_at max_bytes fs st')"

text \<open>
  The answers of the remote side are counted; the loop has fuel, and \<^const>\<open>None\<close> says that it is still asking. A
  page repeats the question with the token of the page before, which has to be a new one.
\<close>

fun list_pages ::
  "nat \<Rightarrow> (nat \<Rightarrow> exc + output_page) \<Rightarrow> (string \<Rightarrow> delivery) \<Rightarrow> int \<Rightarrow> nat \<Rightarrow> string set \<Rightarrow> download_state
   \<Rightarrow> (exc + download_state) option" where
  "list_pages 0 answers bytes_at max_bytes k tokens_seen st = None"
| "list_pages (Suc fuel) answers bytes_at max_bytes k tokens_seen st =
     (case answers k of
        Inl e \<Rightarrow> Some (Inl e)
      | Inr p \<Rightarrow>
          (case fetch_outputs bytes_at max_bytes (op_files p) st of
             Inl e \<Rightarrow> Some (Inl e)
           | Inr st' \<Rightarrow>
               let t = (case op_next p of None \<Rightarrow> [] | Some t \<Rightarrow> t) in
               if t = [] then Some (Inr st')
               else if t \<in> tokens_seen then Some (Inl (bad_kernel ''output pagination loop''))
               else list_pages fuel answers bytes_at max_bytes (Suc k) (insert t tokens_seen) st'))"

definition no_files :: download_state where
  "no_files = \<lparr>ds_seen = {}, ds_count = 0, ds_total = 0, ds_written = []\<rparr>"

definition download_version ::
  "nat \<Rightarrow> (string \<Rightarrow> string) \<Rightarrow> exc + kernel_meta \<Rightarrow> exc + kernel_meta \<Rightarrow> (nat \<Rightarrow> exc + output_page) \<Rightarrow> (string \<Rightarrow> delivery)
   \<Rightarrow> int \<Rightarrow> observation \<Rightarrow> (exc + download_state) option" where
  "download_version fuel sha before after answers bytes_at max_bytes ob =
     (case verify_observation sha before ob of
        Some e \<Rightarrow> Some (Inl e)
      | None \<Rightarrow>
          map_option (\<lambda>res. case res of
              Inl e \<Rightarrow> Inl e
            | Inr st \<Rightarrow>
                if ds_seen st = {} then Inl (bad_kernel ''no matching exact-version output'')
                else case verify_observation sha after ob of Some e \<Rightarrow> Inl e | None \<Rightarrow> Inr st)
            (list_pages fuel answers bytes_at max_bytes 0 {} no_files))"

section \<open>The download of a job's result\<close>

text \<open>\<^verbatim>\<open>p6_download\<close>: the frozen files of the submission, the observation kept from an earlier attempt, and the remote side.\<close>

record p6_world =
  pw_files :: "string \<Rightarrow> found"
  pw_saved :: "string option"
  pw_utf8 :: "string \<Rightarrow> bool"
  pw_login :: "exc option"
  pw_observed :: "exc + kernel_meta"
  pw_before :: "exc + kernel_meta"
  pw_after :: "exc + kernel_meta"
  pw_pages :: "nat \<Rightarrow> exc + output_page"
  pw_deliver :: "string \<Rightarrow> delivery"

definition as_exc :: "package_error \<Rightarrow> exc" where
  "as_exc e =
     (case e of
        Invalid t \<Rightarrow> value_error t
      | Crashed \<Rightarrow> Raised (Verify_other False ''unexpected value'') ''unexpected value''
      | No_space_left \<Rightarrow> Raised (Verify_other False ''no space left'') ''no space left'')"

text \<open>Reading a text file turns the line ends of other systems into newlines.\<close>

fun universal_newlines :: "string \<Rightarrow> string" where
  "universal_newlines [] = []"
| "universal_newlines [c] = [if c = CHR 0x0D then CHR 0x0A else c]"
| "universal_newlines (c # d # s) =
     (if c = CHR 0x0D \<and> d = CHR 0x0A then CHR 0x0A # universal_newlines s
      else (if c = CHR 0x0D then CHR 0x0A else c) # universal_newlines (d # s))"

definition observation_json :: "observation \<Rightarrow> json dict" where
  "observation_json ob =
     [(''kernel_ref'', JStr (ob_ref ob)), (''kernel_version'', JInt (ob_version ob)),
      (''source_sha256'', JStr (ob_source_sha256 ob)), (''dataset_sources'', ob_datasets ob),
      (''observed_dataset_sources'', ob_seen_datasets ob),
      (''dataset_binding_method'', JStr ''frozen_submission_and_verified_runtime_content'')]"

definition frozen_submission :: "result_lib \<Rightarrow> p6_world \<Rightarrow> (json dict \<times> json dict \<times> string \<times> json dict option) checked" where
  "frozen_submission lib w =
     bnd (read_file lib (pw_files w) ''p6_task.json'') (\<lambda>task.
     bnd (read_file lib (pw_files w) ''kernel-metadata.json'') (\<lambda>metadata.
     bnd (plain_file (pw_files w) (JStr ''train.py'')) (\<lambda>code.
     bnd (unless (\<not> pw_utf8 w code) ''codec error'') (\<lambda>_.
     bnd (case pw_saved w of None \<Rightarrow> Inr None | Some b \<Rightarrow> map_sum id Some (read_json lib b)) (\<lambda>saved.
     Inr (task, metadata, universal_newlines code, saved))))))"

text \<open>The version of the kept observation (the first version without one) and the data sources of the submission.\<close>

definition expected_run :: "json dict \<Rightarrow> json dict option \<Rightarrow> (json \<times> int) checked" where
  "expected_run metadata saved =
     bnd (member_of metadata ''dataset_sources'') (\<lambda>sources.
     bnd (case saved of None \<Rightarrow> Inr (JInt 1) | Some s \<Rightarrow> if s = [] then Inr (JInt 1) else member_of s ''kernel_version'') (\<lambda>v.
     case v of JInt n \<Rightarrow> Inr (sources, n) | _ \<Rightarrow> Inl (Invalid ''explicit original Kernel version required'')))"

definition disk_budget :: "json dict \<Rightarrow> int checked" where
  "disk_budget task =
     bnd (member_of task ''budget'') (\<lambda>b. bnd (or_crash (object_of b)) (\<lambda>dict. bnd (member_of dict ''disk_bytes'') (\<lambda>n.
       case n of JInt i \<Rightarrow> Inr i | _ \<Rightarrow> Inl Crashed)))"

definition downloaded_json :: "observation \<Rightarrow> download_state \<Rightarrow> json dict" where
  "downloaded_json ob st =
     observation_json ob @ [(''downloaded_bytes'', JInt (ds_total st)), (''downloaded_files'', JInt (int (ds_count st)))]"

text \<open>The result with the files, and the observation that is written before anything is downloaded.\<close>

definition p6_download ::
  "nat \<Rightarrow> result_lib \<Rightarrow> p6_world \<Rightarrow> string \<Rightarrow> (exc + json dict \<times> (string \<times> string) list) option \<times> json dict option" where
  "p6_download fuel lib w ref =
     (case frozen_submission lib w of
        Inl e \<Rightarrow> (Some (Inl (as_exc e)), None)
      | Inr (task, metadata, code, saved) \<Rightarrow>
          (case pw_login w of
             Some e \<Rightarrow> (Some (Inl e), None)
           | None \<Rightarrow>
               (case expected_run metadata saved of
                  Inl e \<Rightarrow> (Some (Inl (as_exc e)), None)
                | Inr (sources, version) \<Rightarrow>
                    (case observe_kernel (lib_sha256 lib) (pw_observed w) ref code sources version of
                       Inl e \<Rightarrow> (Some (Inl e), None)
                     | Inr ob \<Rightarrow>
                         if \<not> (case saved of None \<Rightarrow> True | Some s \<Rightarrow> same_value (JObj s) (JObj (observation_json ob)))
                         then (Some (Inl (value_error ''P6 original Kernel candidate changed'')), None)
                         else (case disk_budget task of
                             Inl e \<Rightarrow> Some (Inl (as_exc e))
                           | Inr limit \<Rightarrow>
                               map_option (map_sum id (\<lambda>st. (downloaded_json ob st, ds_written st)))
                                 (download_version fuel (lib_sha256 lib) (pw_before w) (pw_after w) (pw_pages w) (pw_deliver w)
                                    limit ob), Some (observation_json ob))))))"

section \<open>Lemmas\<close>

lemma map_result_Inr: "map_sum id f v = Inr b \<longleftrightarrow> (\<exists>a. v = Inr a \<and> b = f a)"
  by (cases v) auto

text \<open>The state of a download after any number of pages.\<close>

definition download_inv :: "int \<Rightarrow> download_state \<Rightarrow> bool" where
  "download_inv max_bytes st \<longleftrightarrow>
     ds_seen st = (\<lambda>f. lower (fst f)) ` set (ds_written st) \<and> ds_count st = length (ds_written st)
     \<and> distinct (map (\<lambda>f. lower (fst f)) (ds_written st)) \<and> int (ds_count st) \<le> 100000
     \<and> ds_total st = (\<Sum>f \<leftarrow> ds_written st. int (length (snd f))) \<and> ds_total st \<le> max 0 max_bytes
     \<and> list_all (\<lambda>f. output_allowed (fst f) \<and> \<not> unsafe_output (fst f)) (ds_written st)"

lemma take_blocks_total:
  "take_blocks max_bytes t bs ending = Inr (u, c) \<Longrightarrow> u = t + int (length c) \<and> (t \<le> max 0 max_bytes \<longrightarrow> u \<le> max 0 max_bytes)"
proof (induction bs arbitrary: t u c)
  case (Cons b bs)
  from Cons.prems obtain c' where c: "\<not> max_bytes < t + int (length b)" "c = b @ c'"
    "take_blocks max_bytes (t + int (length b)) bs ending = Inr (u, c')"
    by (cases "take_blocks max_bytes (t + int (length b)) bs ending") (auto split: if_splits)
  from Cons.IH [OF c(3)] c(1,2) show ?case by auto
qed (auto split: option.splits)

lemma inv_fetch:
  assumes "fetch_output bytes_at max_bytes f st = Inr st'" and "download_inv max_bytes st"
  shows "download_inv max_bytes st'"
proof (cases "output_allowed (rf_name f)")
  case False
  with assms show ?thesis by (simp add: fetch_output_def Let_def)
next
  case True
  with assms(1) obtain url bs ending t c where r: "lower (rf_name f) \<notin> ds_seen st" "\<not> unsafe_output (rf_name f)"
    "int (ds_count st) + 1 \<le> 100000" "take_blocks max_bytes (ds_total st) bs ending = Inr (t, c)"
    "st' = \<lparr>ds_seen = insert (lower (rf_name f)) (ds_seen st), ds_count = ds_count st + 1, ds_total = t,
      ds_written = ds_written st @ [(rf_name f, c)]\<rparr>"
    unfolding fetch_output_def Let_def map_sum_def
    by (auto split: if_splits option.splits delivery.splits sum.splits)
  from take_blocks_total [OF r(4)] r assms(2) True show ?thesis by (auto simp: download_inv_def)
qed

lemma inv_fetches:
  "fetch_outputs bytes_at max_bytes fs st = Inr st' \<Longrightarrow> download_inv max_bytes st \<Longrightarrow> download_inv max_bytes st'"
  by (induction fs arbitrary: st) (auto split: sum.splits dest: inv_fetch)

lemma inv_pages:
  "list_pages fuel answers bytes_at max_bytes k ts st = Some (Inr st') \<Longrightarrow> download_inv max_bytes st \<Longrightarrow> download_inv max_bytes st'"
proof (induction fuel arbitrary: k ts st)
  case (Suc fuel)
  from Suc.prems(1) obtain p st2 where p: "answers k = Inr p" "fetch_outputs bytes_at max_bytes (op_files p) st = Inr st2"
    by (auto split: sum.splits)
  from p(2) Suc.prems(2) have "download_inv max_bytes st2" by (rule inv_fetches)
  with Suc p show ?case by (auto simp: Let_def split: if_splits)
qed simp

text \<open>A remote side that knows finitely many tokens cannot keep the download asking.\<close>

lemma pages_end:
  assumes "finite T" and "\<And>k p t. answers k = Inr p \<Longrightarrow> op_next p = Some t \<Longrightarrow> t \<in> T"
    and "card (T - ts) < fuel"
  shows "list_pages fuel answers bytes_at max_bytes k ts st \<noteq> None"
  using assms(3)
proof (induction fuel arbitrary: k ts st)
  case (Suc fuel)
  have "list_pages fuel answers bytes_at max_bytes (Suc k) (insert t ts) st' \<noteq> None"
    if "answers k = Inr p" "op_next p = Some t" "t \<notin> ts" for p t st'
  proof (rule Suc.IH)
    have "T - insert t ts \<subset> T - ts" using assms(2) [OF that(1,2)] that(3) by blast
    from psubset_card_mono [OF _ this] assms(1) Suc.prems show "card (T - insert t ts) < fuel" by simp
  qed
  then show ?case by (auto simp: Let_def split: sum.splits option.splits)
qed simp

lemma expected_runD:
  assumes "expected_run metadata saved = Inr (sources, version)"
  shows "map_of metadata ''dataset_sources'' = Some sources"
    and "case saved of None \<Rightarrow> version = 1
      | Some s \<Rightarrow> if s = [] then version = 1 else map_of s ''kernel_version'' = Some (JInt version)"
proof -
  obtain x v where v: "member_of metadata ''dataset_sources'' = Inr x"
    "(case saved of None \<Rightarrow> Inr (JInt 1) | Some s \<Rightarrow> if s = [] then Inr (JInt 1) else member_of s ''kernel_version'') = Inr v"
    "(case v of JInt n \<Rightarrow> Inr (x, n) | _ \<Rightarrow> Inl (Invalid ''explicit original Kernel version required'')) = Inr (sources, version)"
    using assms unfolding expected_run_def bnd_iff by blast
  from v(3) have "x = sources" "v = JInt version" by (cases v; simp)+
  with v(1,2) show "map_of metadata ''dataset_sources'' = Some sources"
    "case saved of None \<Rightarrow> version = 1
      | Some s \<Rightarrow> if s = [] then version = 1 else map_of s ''kernel_version'' = Some (JInt version)"
    by (auto simp: member_of_def or_crash_def split: option.splits if_splits)
qed

text \<open>What the remote side said when the run was observed.\<close>

definition observed_run :: "exc + kernel_meta \<Rightarrow> string \<Rightarrow> observation \<Rightarrow> bool" where
  "observed_run answer code ob \<longleftrightarrow>
     (\<exists>m. answer = Inr m \<and> km_ref m = ob_ref ob \<and> km_version m = Some (ob_version ob) \<and> km_source m = code
        \<and> dataset_binding (km_datasets m) (ob_datasets ob) \<and> km_datasets m = ob_seen_datasets ob)"

definition still_frozen :: "(string \<Rightarrow> string) \<Rightarrow> observation \<Rightarrow> exc + kernel_meta \<Rightarrow> bool" where
  "still_frozen sha ob answer \<longleftrightarrow>
     (\<exists>m. answer = Inr m \<and> km_ref m = ob_ref ob \<and> km_version m = Some (ob_version ob)
        \<and> sha (km_source m) = ob_source_sha256 ob \<and> same_value (km_datasets m) (ob_seen_datasets ob))"

lemma observedD:
  assumes "observe_kernel sha answer ref code sources version = Inr ob"
  shows "observed_run answer code ob" and "ob_ref ob = ref" and "ob_version ob = version"
    and "ob_source_sha256 ob = sha code" and "ob_datasets ob = sources"
  using assms by (auto simp: observe_kernel_def observed_run_def split: if_splits sum.splits option.splits)

lemma verified_frozen: "verify_observation sha answer ob = None \<Longrightarrow> still_frozen sha ob answer"
  by (auto simp: verify_observation_def still_frozen_def split: if_splits sum.splits)

section \<open>Properties\<close>

text \<open>
  C27: A result is downloaded within its bounds and from the submitted version only: the first version of the kernel,
  or the one an earlier attempt wrote down. The remote side must name this version, the submitted source and data
  sources bound to those of the submission before the observation is written down; before and after the download it
  names the same version, source and data sources again; an observation kept from an earlier attempt is the same one. The files have allowed, safe names that differ even
  without regard to case, there are between one and a hundred thousand, their bytes stay within the disk budget of
  the frozen task (a negative budget admits empty files), and the numbers reported are those of the files.
\<close>

theorem download_within_bounds:
  assumes "p6_download fuel lib w ref = (Some (Inr (r, files)), written)"
  shows "\<exists>task metadata code saved limit ob.
      frozen_submission lib w = Inr (task, metadata, code, saved) \<and> disk_budget task = Inr limit
      \<and> (case saved of None \<Rightarrow> ob_version ob = 1
         | Some s \<Rightarrow> if s = [] then ob_version ob = 1 else map_of s ''kernel_version'' = Some (JInt (ob_version ob)))
      \<and> map_of metadata ''dataset_sources'' = Some (ob_datasets ob)
      \<and> observed_run (pw_observed w) code ob
      \<and> written = Some (observation_json ob) \<and> ob_ref ob = ref \<and> ob_source_sha256 ob = lib_sha256 lib code
      \<and> still_frozen (lib_sha256 lib) ob (pw_before w) \<and> still_frozen (lib_sha256 lib) ob (pw_after w)
      \<and> (saved = None \<or> same_value (JObj (the saved)) (JObj (observation_json ob)))
      \<and> distinct (map (\<lambda>f. lower (fst f)) files) \<and> 1 \<le> length files \<and> int (length files) \<le> 100000
      \<and> list_all (\<lambda>f. output_allowed (fst f) \<and> \<not> unsafe_output (fst f)) files
      \<and> (\<Sum>f \<leftarrow> files. int (length (snd f))) \<le> max 0 limit
      \<and> r = observation_json ob @ [(''downloaded_bytes'', JInt (\<Sum>f \<leftarrow> files. int (length (snd f)))),
          (''downloaded_files'', JInt (int (length files)))]"
proof -
  from assms obtain task metadata code saved sources version ob limit st where p:
    "frozen_submission lib w = Inr (task, metadata, code, saved)"
    "observe_kernel (lib_sha256 lib) (pw_observed w) ref code sources version = Inr ob" "expected_run metadata saved = Inr (sources, version)"
    "saved = None \<or> same_value (JObj (the saved)) (JObj (observation_json ob))" "disk_budget task = Inr limit"
    "download_version fuel (lib_sha256 lib) (pw_before w) (pw_after w) (pw_pages w) (pw_deliver w) limit ob = Some (Inr st)"
    "r = downloaded_json ob st" "files = ds_written st" "written = Some (observation_json ob)"
    by (auto simp: p6_download_def map_result_Inr split: sum.splits option.splits if_splits)
  from p(6) have "list_pages fuel (pw_pages w) (pw_deliver w) limit 0 {} no_files \<noteq> None"
    "\<And>e. list_pages fuel (pw_pages w) (pw_deliver w) limit 0 {} no_files \<noteq> Some (Inl e)"
    by (auto simp: download_version_def split: option.splits)
  then obtain st' where "list_pages fuel (pw_pages w) (pw_deliver w) limit 0 {} no_files = Some (Inr st')"
    by (metis not_None_eq sumE)
  with p(6) have d: "verify_observation (lib_sha256 lib) (pw_before w) ob = None"
    "list_pages fuel (pw_pages w) (pw_deliver w) limit 0 {} no_files = Some (Inr st)" "ds_seen st \<noteq> {}"
    "verify_observation (lib_sha256 lib) (pw_after w) ob = None"
    by (auto simp: download_version_def split: option.splits sum.splits if_splits)
  have "download_inv limit no_files" by (simp add: download_inv_def no_files_def)
  with inv_pages [OF d(2)] have i: "download_inv limit st" .
  with d(3) i have "1 \<le> length (ds_written st)" by (cases "ds_written st") (auto simp: download_inv_def)
  note o = observedD [OF p(2)]
  note e = expected_runD [OF p(3), folded o(3) o(5)]
  from i p o e verified_frozen [OF d(1)] verified_frozen [OF d(4)] \<open>1 \<le> length (ds_written st)\<close> show ?thesis
    by (intro exI [of _ task] exI [of _ metadata] exI [of _ code] exI [of _ saved] exI [of _ limit] exI [of _ ob])
      (simp add: download_inv_def downloaded_json_def)
qed

section \<open>An example\<close>

definition sample_p6 :: p6_world where
  "sample_p6 =
     (let m = Inr \<lparr>km_ref = ''u/k'', km_version = Some 1, km_source = ''x'', km_datasets = JArr [JStr ''u/d'']\<rparr> in
      \<lparr>pw_files = (\<lambda>n. case map_of [(''p6_task.json'', ''t''), (''kernel-metadata.json'', ''m''), (''train.py'', ''x'')] n of
           None \<Rightarrow> Not_a_file | Some b \<Rightarrow> Bytes b),
       pw_saved = None, pw_utf8 = (\<lambda>_. True), pw_login = None, pw_observed = m, pw_before = m, pw_after = m,
       pw_pages = (\<lambda>k. if k = 0 then Inr \<lparr>op_files = [\<lparr>rf_name = ''p6_result/result_manifest.json'', rf_url = Some ''https://a''\<rparr>,
             \<lparr>rf_name = ''notes.txt'', rf_url = None\<rparr>], op_next = Some ''n''\<rparr>
           else Inr \<lparr>op_files = [\<lparr>rf_name = ''p6_result/reports/run.json'', rf_url = Some ''https://b''\<rparr>], op_next = None\<rparr>),
       pw_deliver = (\<lambda>u. Delivers [u, ''!''] None)\<rparr>)"

definition sample_p6_lib :: result_lib where
  "sample_p6_lib = \<lparr>lib_sha256 = id, lib_decode = map_of
      [(''t'', JObj [(''budget'', JObj [(''disk_bytes'', JInt 20)])]), (''m'', JObj [(''dataset_sources'', JArr [JStr ''u/d/1''])])],
     lib_canonical = (\<lambda>_. []), lib_zip = (\<lambda>_. [])\<rparr>"

lemma sample_p6_download:
  "map_option (map_sum id snd) (fst (p6_download 2 sample_p6_lib sample_p6 ''u/k''))
     = Some (Inr [(''p6_result/result_manifest.json'', ''https://a!''), (''p6_result/reports/run.json'', ''https://b!'')])"
  by code_simp

lemma download_within_bounds_witness:
  "\<exists>r written ob. p6_download 2 sample_p6_lib sample_p6 ''u/k''
       = (Some (Inr (r, [(''p6_result/result_manifest.json'', ''https://a!''), (''p6_result/reports/run.json'', ''https://b!'')])), written)
     \<and> written = Some (observation_json ob) \<and> still_frozen id ob (pw_after sample_p6)"
proof -
  obtain r written where p: "p6_download 2 sample_p6_lib sample_p6 ''u/k''
      = (Some (Inr (r, [(''p6_result/result_manifest.json'', ''https://a!''), (''p6_result/reports/run.json'', ''https://b!'')])), written)"
    using sample_p6_download by (cases "p6_download 2 sample_p6_lib sample_p6 ''u/k''") (auto simp: map_result_Inr)
  have "lib_sha256 sample_p6_lib = id" by (simp add: sample_p6_lib_def)
  with download_within_bounds [OF p] p show ?thesis by auto
qed

end
