(* ===== verification/Artifact_Package.thy ===== *)
theory Artifact_Package
  imports Result_Package
begin

text \<open>
  The other archives of results: the third contract for DINO models (\<^verbatim>\<open>app/dinov2_artifacts.py\<close>), the optional
  ONNX package of a PatchCore run (\<^verbatim>\<open>app/cnn_onnx_artifacts.py\<close>) and \<^verbatim>\<open>package_artifacts\<close> of
  \<^verbatim>\<open>app/kaggle_adapter.py\<close>, which chooses between them. Files are read as in \<^verbatim>\<open>Result_Package\<close>; \<open>loads\<close> is
  \<^verbatim>\<open>json.loads\<close> with repeated keys kept for the first section and merged for the second. It reads numbers that are
  not finite as \<^const>\<open>JNonFinite\<close>.
\<close>

section \<open>DINO models, third contract\<close>

definition dino_manifest :: string where
  "dino_manifest = ''training_artifacts.json''"

text \<open>In the order of the alphabet.\<close>

definition dino_files :: "string list" where
  "dino_files = [''anomaly_metrics.json'', ''com_dinov2_small.pt'', ''environment.json'', ''metrics.json'', ''model.ckpt'',
     ''native_candidate.json'', ''pt_export.json'', ''pt_verification.json'', ''resolved_spec.json'', ''runtime.json'',
     ''runtime_result.json'', ''source_artifacts.json'', ''threshold.json'']"

definition dino_plain :: "(string \<Rightarrow> found) \<Rightarrow> string \<Rightarrow> string checked" where
  "dino_plain dir name =
     (case dir name of
        Bytes b \<Rightarrow> Inr b
      | _ \<Rightarrow> Inl (Invalid (''DINO required regular root file missing or unsafe: '' @ name)))"

definition dino_document :: "(string \<Rightarrow> json option) \<Rightarrow> string \<Rightarrow> json checked" where
  "dino_document loads raw =
     (case loads raw of
        None \<Rightarrow> Inl (Invalid ''invalid DINO transport manifest'')
      | Some j \<Rightarrow> if keys_unique j then Inr j else Inl (Invalid ''invalid DINO transport manifest''))"

definition dino_fixed :: "(string \<times> string) list" where
  "dino_fixed =
     [(''artifact_format'', ''vision_workshop_dinov2_artifacts_v3''), (''backend'', ''patchcore''), (''task'', ''anomaly''),
      (''implementation'', ''anomalib''), (''anomalib_version'', ''2.2.0''), (''training_status'', ''completed''),
      (''export_status'', ''PASS''), (''pt_model_path'', ''com_dinov2_small.pt''), (''pt_export_path'', ''pt_export.json''),
      (''verification_path'', ''pt_verification.json''), (''source_artifact_manifest_path'', ''source_artifacts.json'')]"

definition dino_header :: "json \<Rightarrow> json dict checked" where
  "dino_header j =
     (case j of
        JObj d \<Rightarrow>
          if map_of d ''schema_version'' = Some (JInt 3) \<and> list_all (\<lambda>(k, v). is_text (map_of d k) v) dino_fixed
          then Inr d else Inl (Invalid ''DINO manifest format/status mismatch'')
      | _ \<Rightarrow> Inl (Invalid ''DINO manifest format/status mismatch''))"

definition dino_identity :: "json dict \<Rightarrow> string dict option \<Rightarrow> unit checked" where
  "dino_identity d expected =
     (case expected of
        None \<Rightarrow> Inl (Invalid ''DINO transport requires frozen job identity'')
      | Some i \<Rightarrow>
          bnd (each (\<lambda>k. unless (case map_of i k of None \<Rightarrow> True | Some v \<Rightarrow> strip v = [] \<or> \<not> is_text (map_of d k) v)
            (''DINO frozen job identity mismatch: '' @ k)) identity_fields_p6) (\<lambda>_. Inr ()))"

definition dino_row :: "json \<Rightarrow> file_row checked" where
  "dino_row j =
     (case row_fields j of
        Some (JStr p, n, h) \<Rightarrow>
          if p \<in> set dino_files then Inr \<lparr>row_path = p, row_size = n, row_sha256 = h\<rparr>
          else Inl (Invalid ''invalid DINO artifact inventory entry'')
      | _ \<Rightarrow> Inl (Invalid ''invalid DINO artifact inventory entry''))"

text \<open>Sorting by path is stable, as Python's.\<close>

definition dino_rows :: "(string \<Rightarrow> string) \<Rightarrow> (json \<Rightarrow> string) \<Rightarrow> json dict \<Rightarrow> file_row list checked" where
  "dino_rows sha canonical d =
     (case map_of d ''artifacts'' of
        Some (JArr rs) \<Rightarrow>
          bnd (unless (length rs \<noteq> length dino_files) ''DINO artifact inventory incomplete'') (\<lambda>_.
          bnd (each dino_row rs) (\<lambda>rows.
          bnd (unless (set (map row_path rows) \<noteq> set dino_files \<or> rows \<noteq> sort_key row_path rows)
                 ''DINO artifact inventory duplicate or unsorted'') (\<lambda>_.
          bnd (unless (\<not> is_text (map_of d ''artifact_set_sha256'') (sha (canonical (JArr rs))))
                 ''DINO artifact inventory hash mismatch'') (\<lambda>_. Inr rows))))
      | _ \<Rightarrow> Inl (Invalid ''DINO artifact inventory incomplete''))"

text \<open>\<open>plain_root\<close>: the directory is one, and no link leads to it.\<close>

definition read_transport_manifest ::
  "result_lib \<Rightarrow> (string \<Rightarrow> json option) \<Rightarrow> bool \<Rightarrow> (string \<Rightarrow> found) \<Rightarrow> string dict option \<Rightarrow> (string \<times> file_row list) checked" where
  "read_transport_manifest lib loads plain_root dir expected =
     bnd (unless (\<not> plain_root) ''unsafe DINO output directory'') (\<lambda>_.
     bnd (dino_plain dir dino_manifest) (\<lambda>raw.
     bnd (unless (1024 * 1024 < int (length raw)) ''DINO manifest exceeds 1 MiB'') (\<lambda>_.
     bnd (dino_document loads raw) (\<lambda>j.
     bnd (dino_header j) (\<lambda>d.
     bnd (dino_identity d expected) (\<lambda>_.
     bnd (dino_rows (lib_sha256 lib) (lib_canonical lib) d) (\<lambda>rows.
     bnd (each (\<lambda>r. bnd (dino_plain dir (row_path r)) (\<lambda>b.
         unless (int (length b) \<noteq> row_size r) (''DINO artifact size mismatch: '' @ row_path r))) rows) (\<lambda>_.
     Inr (raw, rows)))))))))"

definition dino_copy :: "result_lib \<Rightarrow> (string \<Rightarrow> found) \<Rightarrow> (int \<Rightarrow> bool) \<Rightarrow> file_row \<Rightarrow> (string \<times> string) checked" where
  "dino_copy lib dir enough r =
     (if \<not> enough (row_size r) then Inl No_space_left
      else bnd (dino_plain dir (row_path r)) (\<lambda>b.
        if row_size r < int (length b) then Inl (Invalid (''DINO artifact grew during packaging: '' @ row_path r))
        else if int (length b) \<noteq> row_size r \<or> lib_sha256 lib b \<noteq> row_sha256 r
        then Inl (Invalid (''DINO artifact hash/size mismatch: '' @ row_path r))
        else Inr (''artifacts/'' @ row_path r, b)))"

text \<open>The manifest that was read first is packed last, from memory.\<close>

definition dino_members ::
  "result_lib \<Rightarrow> (string \<Rightarrow> json option) \<Rightarrow> bool \<Rightarrow> (string \<Rightarrow> found) \<Rightarrow> (string \<Rightarrow> found) \<Rightarrow> (int \<Rightarrow> bool)
   \<Rightarrow> string dict option \<Rightarrow> (string \<times> string) list checked" where
  "dino_members lib loads plain_root dir later enough expected =
     bnd (read_transport_manifest lib loads plain_root dir expected) (\<lambda>(raw, rows).
     bnd (each (dino_copy lib later enough) rows) (\<lambda>ms.
     if \<not> enough (int (length raw)) then Inl No_space_left
     else Inr (ms @ [(''artifacts/'' @ dino_manifest, raw)])))"

text \<open>The result and what is then at the destination.\<close>

definition package_dino ::
  "result_lib \<Rightarrow> (string \<Rightarrow> json option) \<Rightarrow> bool \<Rightarrow> (string \<Rightarrow> found) \<Rightarrow> (string \<Rightarrow> found) \<Rightarrow> (int \<Rightarrow> bool)
   \<Rightarrow> string dict option \<Rightarrow> string option \<Rightarrow> unit checked \<times> string option" where
  "package_dino lib loads plain_root dir later enough expected old =
     (case dino_members lib loads plain_root dir later enough expected of
        Inl e \<Rightarrow> (Inl e, old) | Inr ms \<Rightarrow> (Inr (), Some (lib_zip lib ms)))"

section \<open>The ONNX package of a PatchCore run\<close>

text \<open>Names are relative to the directory of the output.\<close>

definition cnn_bytes :: "(string \<Rightarrow> found) \<Rightarrow> string \<Rightarrow> string checked" where
  "cnn_bytes dir name =
     (case dir name of
        Linked \<Rightarrow> Inl (Invalid ''unsafe_path'')
      | Not_a_file \<Rightarrow> Inl (Invalid (''No such file: '' @ name))
      | Bytes b \<Rightarrow> Inr b)"

definition cnn_read :: "(string \<Rightarrow> json option) \<Rightarrow> (string \<Rightarrow> found) \<Rightarrow> string \<Rightarrow> json dict checked" where
  "cnn_read loads dir name =
     bnd (cnn_bytes dir name) (\<lambda>b.
     case loads b of None \<Rightarrow> Inl (Invalid ''invalid JSON'') | Some j \<Rightarrow> or_crash (object_of j))"

record cnn_source =
  cs_hashes :: "string dict"
  cs_params :: json
  cs_identity :: "json dict"
  cs_threshold :: json

definition source_paths :: "(string \<times> string) list" where
  "source_paths = [(''model'', ''model.ckpt''), (''bundle_model'', ''model.ckpt''), (''manifest'', ''training_artifacts.json''),
     (''threshold'', ''threshold.json''), (''environment'', ''environment.json'')]"

definition cnn_parameters :: "string list" where
  "cnn_parameters = [''backbone'', ''layers'', ''coreset_sampling_ratio'', ''num_neighbors'', ''pre_trained'', ''image_size'']"

text \<open>\<^verbatim>\<open>key in params\<close>, whatever the parameters are.\<close>

definition json_contains :: "json \<Rightarrow> string \<Rightarrow> bool checked" where
  "json_contains j k =
     (case j of
        JObj d \<Rightarrow> Inr (map_of d k \<noteq> None)
      | JArr xs \<Rightarrow> Inr (JStr k \<in> set xs)
      | JStr s \<Rightarrow> Inr (contains k s)
      | _ \<Rightarrow> Inl Crashed)"

fun all_contained :: "json \<Rightarrow> string list \<Rightarrow> bool checked" where
  "all_contained j [] = Inr True"
| "all_contained j (k # ks) = bnd (json_contains j k) (\<lambda>b. if b then all_contained j ks else Inr False)"

definition mismatch :: "bool \<Rightarrow> unit checked" where
  "mismatch b = unless b ''identity_mismatch''"

text \<open>Two of the digests are of the same file here, as the model is the one beside its manifest.\<close>

definition check_source_files :: "result_lib \<Rightarrow> (string \<Rightarrow> found) \<Rightarrow> json dict \<Rightarrow> unit checked" where
  "check_source_files lib dir manifest =
     bnd (member_of manifest ''artifacts'') (\<lambda>a. bnd (or_crash (list_of a)) (\<lambda>xs.
     bnd (each (\<lambda>x. bnd (or_crash (object_of x)) (\<lambda>e. bnd (member_of e ''path'') (\<lambda>p. bnd (hashable (Some p)) (\<lambda>_. Inr (p, e))))) xs) (\<lambda>es.
     bnd (each (\<lambda>name.
         bnd (or_crash (map_of (rev es) (JStr name))) (\<lambda>e.
         bnd (member_of e ''sha256'') (\<lambda>h. bnd (cnn_bytes dir name) (\<lambda>b.
         bnd (unless (h \<noteq> JStr (lib_sha256 lib b)) ''source_changed'') (\<lambda>_.
         bnd (member_of e ''size'') (\<lambda>n.
         unless (\<not> equals_int (Some n) (int (length b))) ''source_changed''))))))
       [''model.ckpt'', ''threshold.json'', ''environment.json'']) (\<lambda>_. Inr ()))))"

definition source_from_run :: "result_lib \<Rightarrow> (string \<Rightarrow> json option) \<Rightarrow> (string \<Rightarrow> found) \<Rightarrow> cnn_source checked" where
  "source_from_run lib loads dir =
     bnd (cnn_read loads dir ''training_artifacts.json'') (\<lambda>manifest.
     bnd (each (\<lambda>(k, p). bnd (cnn_bytes dir p) (\<lambda>b. Inr (k, lib_sha256 lib b))) source_paths) (\<lambda>hashes.
     bnd (cnn_read loads dir ''threshold.json'') (\<lambda>threshold.
     bnd (cnn_read loads dir ''environment.json'') (\<lambda>environment.
     let params = (case map_of manifest ''patchcore_params'' of None \<Rightarrow> JObj [] | Some p \<Rightarrow> p);
         model = the (map_of hashes ''model'') in
     bnd (mismatch (\<not> is_text (map_of manifest ''implementation'') ''anomalib'' \<or> \<not> is_text (map_of manifest ''anomalib_version'') ''2.5.1'')) (\<lambda>_.
     bnd (nested environment ''packages'' ''anomalib'') (\<lambda>v.
     bnd (mismatch (\<not> is_text v ''2.5.1'' \<or> \<not> is_text (map_of threshold ''model_sha256'') model
           \<or> \<not> is_text (map_of threshold ''score_kind'') ''patchcore_anomalib_raw_image_score''
           \<or> \<not> is_text (map_of threshold ''decision_rule'') ''score_gte_threshold'')) (\<lambda>_.
     bnd (all_contained params cnn_parameters) (\<lambda>all.
     bnd (mismatch (\<not> all)) (\<lambda>_.
     bnd (check_source_files lib dir manifest) (\<lambda>_.
     bnd (finite_number (map_of threshold ''threshold'')) (\<lambda>ok.
     bnd (unless (\<not> ok) ''uncalibrated'') (\<lambda>_.
     Inr \<lparr>cs_hashes = hashes, cs_params = params,
       cs_identity = concat (map (\<lambda>k. case map_of manifest k of Some v \<Rightarrow> if truthy (Some v) then [(k, v)] else [] | None \<Rightarrow> []) identity_fields_p6),
       cs_threshold = the (map_of threshold ''threshold'')\<rparr>))))))))))))"

definition source_binding :: "cnn_source \<Rightarrow> json" where
  "source_binding s =
     JObj [(''hashes'', JObj (map (\<lambda>(k, v). (k, JStr v)) (cs_hashes s))), (''params'', cs_params s),
       (''identity'', JObj (cs_identity s)), (''threshold'', cs_threshold s)]"

text \<open>\<open>names\<close> lists every file of the output in the order of \<^verbatim>\<open>sorted(root.rglob("*"))\<close>.\<close>

definition last_name :: "string \<Rightarrow> string" where
  "last_name s = last (split_on (CHR ''/'') s)"

definition package_listing :: "result_lib \<Rightarrow> (string \<Rightarrow> found) \<Rightarrow> string list \<Rightarrow> string \<Rightarrow> file_row list checked" where
  "package_listing lib dir names folder =
     each (\<lambda>n. bnd (cnn_bytes dir n) (\<lambda>b.
         Inr \<lparr>row_path = drop (length folder) n, row_size = int (length b), row_sha256 = lib_sha256 lib b\<rparr>))
       (filter (\<lambda>n. prefix folder n \<and> last_name n \<noteq> ''deployment.json'') names)"

definition flat_name :: "string \<Rightarrow> bool" where
  "flat_name s \<longleftrightarrow> s \<noteq> [] \<and> list_all (\<lambda>c. word_char c \<or> c = CHR ''.'') s"

fun check_package_rows ::
  "result_lib \<Rightarrow> (string \<Rightarrow> found) \<Rightarrow> string \<Rightarrow> string set \<Rightarrow> json list \<Rightarrow> string set checked" where
  "check_package_rows lib dir folder seen [] = Inr seen"
| "check_package_rows lib dir folder seen (r # rs) =
     bnd (or_crash (object_of r)) (\<lambda>d.
     bnd (or_crash (text_in (case map_of d ''path'' of None \<Rightarrow> JStr [] | Some p \<Rightarrow> p))) (\<lambda>name.
     bnd (unless (\<not> flat_name name \<or> name \<in> {''.'', ''..'', ''deployment.json''} \<or> lower name \<in> seen) ''onnx_unsafe_file'') (\<lambda>_.
     bnd (cnn_bytes dir (folder @ name)) (\<lambda>b.
     bnd (member_of d ''size'') (\<lambda>n.
     bnd (unless (\<not> equals_int (Some n) (int (length b))) ''onnx_content_changed'') (\<lambda>_.
     bnd (member_of d ''sha256'') (\<lambda>h.
     bnd (unless (h \<noteq> JStr (lib_sha256 lib b)) ''onnx_content_changed'') (\<lambda>_.
     check_package_rows lib dir folder (insert (lower name) seen) rs))))))))"

definition sample_passes :: "json \<Rightarrow> bool checked" where
  "sample_passes s =
     bnd (or_crash (object_of s)) (\<lambda>d.
     bnd (each (\<lambda>k. nested d k ''status'') [''preprocessing'', ''onnx_parity'', ''ckpt_compatibility'']) (\<lambda>vs.
     Inr (list_all (\<lambda>v. is_text v ''PASS'') vs)))"

fun samples_pass :: "json list \<Rightarrow> unit checked" where
  "samples_pass [] = Inr ()"
| "samples_pass (s # ss) = bnd (sample_passes s) (\<lambda>ok. if ok then samples_pass ss else Inl (Invalid ''onnx_false_success''))"

definition check_samples :: "json dict \<Rightarrow> unit checked" where
  "check_samples report =
     (if \<not> truthy (map_of report ''samples'') then Inl (Invalid ''onnx_false_success'')
      else bnd (or_crash (list_of (the (map_of report ''samples'')))) samples_pass)"

definition package_names :: "string set" where
  "package_names = {''model.onnx'', ''predict.py'', ''preprocess.py'', ''verification.json'', ''threshold.json''}"

definition validate_package ::
  "result_lib \<Rightarrow> (string \<Rightarrow> json option) \<Rightarrow> (string \<Rightarrow> found) \<Rightarrow> string list \<Rightarrow> string \<Rightarrow> cnn_source option \<Rightarrow> bool
   \<Rightarrow> json dict checked" where
  "validate_package lib loads dir names folder src require_pass =
     bnd (cnn_read loads dir (folder @ ''deployment.json'')) (\<lambda>d.
     bnd (unless (\<not> is_text (map_of d ''schema'') ''cnn_onnx_v1''
            \<or> \<not> is_text (map_of d ''profile'') ''cnn_fp32_features_fp64_full_l2_cpu_basic_v1'') ''onnx_not_verified'') (\<lambda>_.
     bnd (hashable (map_of d ''status'')) (\<lambda>st.
     bnd (unless (\<not> list_ex (is_text st) [''PASS'', ''PENDING'', ''FAIL''] \<or> (require_pass \<and> \<not> is_text st ''PASS''))
            ''onnx_not_verified'') (\<lambda>_.
     bnd (unless (case src of None \<Rightarrow> False
              | Some s \<Rightarrow> \<not> (case map_of d ''source'' of None \<Rightarrow> False | Some j \<Rightarrow> same_value j (source_binding s)))
            ''onnx_source_mismatch'') (\<lambda>_.
     bnd (case map_of d ''files'' of
            Some (JArr rs) \<Rightarrow> if rs = [] \<or> 32 < length rs then Inl (Invalid ''onnx_inventory_invalid'') else Inr rs
          | _ \<Rightarrow> Inl (Invalid ''onnx_inventory_invalid'')) (\<lambda>rs.
     bnd (check_package_rows lib dir folder {} rs) (\<lambda>seen.
     bnd (unless (\<not> package_names \<subseteq> seen) ''onnx_inventory_missing'') (\<lambda>_.
     bnd (package_listing lib dir names folder) (\<lambda>listing.
     bnd (unless (\<not> same_value (JArr (map row_json listing)) (JArr rs)) ''onnx_inventory_mismatch'') (\<lambda>_.
     bnd (cnn_read loads dir (folder @ ''verification.json'')) (\<lambda>report.
     bnd (cnn_read loads dir (folder @ ''threshold.json'')) (\<lambda>threshold.
     bnd (unless (map_of report ''status'' \<noteq> st) ''onnx_report_mismatch'') (\<lambda>_.
     bnd (member_of d ''source'') (\<lambda>s. bnd (or_crash (object_of s)) (\<lambda>so. bnd (member_of so ''threshold'') (\<lambda>t.
     bnd (unless (\<not> (case map_of threshold ''threshold'' of None \<Rightarrow> False | Some u \<Rightarrow> same_value u t)
            \<or> \<not> is_text (map_of threshold ''decision_rule'') ''score_gte_threshold'') ''onnx_report_mismatch'') (\<lambda>_.
     bnd (if is_text st ''PASS'' then check_samples report else Inr ()) (\<lambda>_.
     Inr d))))))))))))))))))"

section \<open>Packing the output of a job\<close>

definition small_hex :: "char \<Rightarrow> bool" where
  "small_hex c \<longleftrightarrow> c \<in> set ''abcdef0123456789''"

definition package_folder_name :: "string \<Rightarrow> bool" where
  "package_folder_name s \<longleftrightarrow> prefix ''package-'' s \<and> length (drop 8 s) = 32 \<and> list_all small_hex (drop 8 s)"

text \<open>The checks of an ONNX result in \<^verbatim>\<open>cnn_onnx\<close>; its status, and the package that was checked.\<close>

definition check_onnx_result ::
  "result_lib \<Rightarrow> (string \<Rightarrow> json option) \<Rightarrow> (string \<Rightarrow> found) \<Rightarrow> string list \<Rightarrow> string dict option
   \<Rightarrow> (json option \<times> (string \<times> json dict) option) checked" where
  "check_onnx_result lib loads dir names expected =
     bnd (source_from_run lib loads dir) (\<lambda>src.
     bnd (unless (\<not> list_all (\<lambda>(k, v). is_text (map_of (cs_identity src) k) v) (case expected of None \<Rightarrow> [] | Some i \<Rightarrow> i))
            ''onnx_identity_mismatch'') (\<lambda>_.
     bnd (cnn_read loads dir ''cnn_onnx/result.json'') (\<lambda>report.
     bnd (hashable (map_of report ''status'')) (\<lambda>st.
     bnd (unless (\<not> list_ex (is_text st) [''PASS'', ''FAIL'', ''CANCELLED'', ''PENDING'']) ''onnx_status_invalid'') (\<lambda>_.
     if \<not> truthy (map_of report ''package'')
     then (if is_text st ''PASS'' then Inl (Invalid ''onnx_package_missing'') else Inr (st, None))
     else
       bnd (or_crash (text_in (the (map_of report ''package'')))) (\<lambda>name.
       bnd (unless (\<not> package_folder_name name) ''onnx_package_path_invalid'') (\<lambda>_.
       bnd (validate_package lib loads dir names (''cnn_onnx/'' @ name @ ''/'') (Some src) False) (\<lambda>d.
       bnd (unless (map_of d ''status'' \<noteq> st) ''onnx_status_mismatch'') (\<lambda>_.
       Inr (st, Some (name, d)))))))))))"

definition required_artifact_files :: "(string \<times> string list) list" where
  "required_artifact_files =
     [(''yolo'', [''best.pt'']),
      (''patchcore'', [''model.ckpt'', ''threshold.json'', ''anomaly_metrics.json'', ''environment.json'', ''training_artifacts.json''])]"

definition require_files :: "(string \<Rightarrow> found) \<Rightarrow> string list \<Rightarrow> unit checked" where
  "require_files whole ns =
     bnd (each (\<lambda>n. unless (whole n = Not_a_file) (''required file missing: '' @ n)) ns) (\<lambda>_. Inr ())"

text \<open>
  The files are written straight into the archive at the destination: without space for one of them it keeps those
  before. \<open>whole\<close> follows links, as the archive does.
\<close>

fun zip_all :: "(string \<Rightarrow> string) \<Rightarrow> (int \<Rightarrow> bool) \<Rightarrow> string list \<Rightarrow> (string \<times> string) list \<times> bool" where
  "zip_all whole enough [] = ([], True)"
| "zip_all whole enough (n # ns) =
     (if \<not> enough (int (length (whole n))) then ([], False)
      else apfst ((#) (n, whole n)) (zip_all whole enough ns))"

definition plain_package ::
  "result_lib \<Rightarrow> (string \<Rightarrow> json option) \<Rightarrow> (string \<Rightarrow> found) \<Rightarrow> (string \<Rightarrow> string) \<Rightarrow> string list \<Rightarrow> (int \<Rightarrow> bool)
   \<Rightarrow> string dict option \<Rightarrow> string \<Rightarrow> string option \<Rightarrow> unit checked \<times> string option" where
  "plain_package lib loads dir whole names enough expected contract old =
     (case map_of required_artifact_files contract of
        None \<Rightarrow> (Inl (Invalid (''unknown artifact contract: '' @ contract)), old)
      | Some required \<Rightarrow>
          (case bnd (require_files dir required) (\<lambda>_.
               if contract = ''patchcore'' \<and> dir ''cnn_onnx/result.json'' \<noteq> Not_a_file
               then bnd (check_onnx_result lib loads dir names expected) (\<lambda>_. Inr ()) else Inr ()) of
             Inl e \<Rightarrow> (Inl e, old)
           | Inr _ \<Rightarrow>
               (case zip_all whole enough names of
                  (ms, ok) \<Rightarrow> (if ok then Inr () else Inl No_space_left, Some (lib_zip lib ms)))))"

text \<open>The part of a directory below a folder.\<close>

definition inside_folder :: "string \<Rightarrow> (string \<Rightarrow> found) \<Rightarrow> string \<Rightarrow> found" where
  "inside_folder folder dir n = dir (folder @ n)"

record packing =
  pk_dir :: "string \<Rightarrow> found"
  pk_later :: "string \<Rightarrow> found"
  pk_bytes :: "string \<Rightarrow> string"
  pk_names :: "string list"
  pk_enough :: "int \<Rightarrow> bool"
  pk_dino_root :: bool
  pk_raw_loads :: "string \<Rightarrow> json option"
  pk_loads :: "string \<Rightarrow> json option"

definition package_artifacts ::
  "result_lib \<Rightarrow> packing \<Rightarrow> string \<Rightarrow> string dict option \<Rightarrow> string \<Rightarrow> string option \<Rightarrow> json dict option checked \<times> string option" where
  "package_artifacts lib p contract expected task old =
     (if contract \<in> set bound_contracts
      then (case package_result lib (inside_folder ''p6_result/'' (pk_dir p)) (inside_folder ''p6_result/'' (pk_later p))
              (pk_enough p) expected task (Some contract) old of
            (r, z) \<Rightarrow> (map_sum id Some r, z))
      else if contract = ''patchcore_dinov2_v3''
      then (case package_dino lib (pk_raw_loads p) (pk_dino_root p) (inside_folder ''artifacts/'' (pk_dir p))
              (inside_folder ''artifacts/'' (pk_later p)) (pk_enough p) expected old of
            (r, z) \<Rightarrow> (map_sum id (\<lambda>_. None) r, z))
      else (case plain_package lib (pk_loads p) (pk_dir p) (pk_bytes p) (pk_names p) (pk_enough p) expected contract old of
            (r, z) \<Rightarrow> (map_sum id (\<lambda>_. None) r, z)))"

section \<open>Lemmas\<close>

lemma dino_rowD:
  "dino_row j = Inr r \<Longrightarrow> row_path r \<in> set dino_files \<and> 1 \<le> row_size r \<and> hex64 (row_sha256 r)"
  by (auto simp: dino_row_def split: option.splits prod.splits json.splits if_splits dest: row_fieldsD)

text \<open>Thirteen rows that name the thirteen files and are sorted are the rows of these files, in order.\<close>

lemma dino_files_sorted: "sorted dino_files \<and> distinct dino_files \<and> length dino_files = 13"
  by code_simp

lemma dino_names:
  assumes "length rows = length dino_files" and "set (map row_path rows) = set dino_files" and "rows = sort_key row_path rows"
  shows "map row_path rows = dino_files"
proof (rule sorted_distinct_set_unique)
  show "sorted (map row_path rows)" by (subst assms(3)) simp
  show "distinct (map row_path rows)"
    using assms(1,2) dino_files_sorted by (metis card_distinct distinct_card length_map)
qed (use assms(2) dino_files_sorted in simp_all)

lemma dino_rowsD:
  assumes "dino_rows sha canonical d = Inr rows"
  shows "map row_path rows = dino_files \<and> (\<exists>rs. map_of d ''artifacts'' = Some (JArr rs) \<and> list_all2 (\<lambda>j r. dino_row j = Inr r) rs rows
    \<and> map_of d ''artifact_set_sha256'' = Some (JStr (sha (canonical (JArr rs)))))"
proof -
  from assms obtain rs where r: "map_of d ''artifacts'' = Some (JArr rs)" "length rs = length dino_files"
    "list_all2 (\<lambda>j r. dino_row j = Inr r) rs rows" "set (map row_path rows) = set dino_files" "rows = sort_key row_path rows"
    "is_text (map_of d ''artifact_set_sha256'') (sha (canonical (JArr rs)))"
    unfolding dino_rows_def by (auto simp: bnd_iff unless_iff each_iff split: option.splits json.splits)
  then have "length rows = length dino_files" by (simp add: list_all2_lengthD)
  from dino_names [OF this r(4,5)] r show ?thesis by (auto simp: is_text_def)
qed

lemma dino_copied:
  "each (dino_copy lib dir enough) rows = Inr ms \<Longrightarrow>
     list_all2 (\<lambda>r m. fst m = ''artifacts/'' @ row_path r \<and> int (length (snd m)) = row_size r \<and> lib_sha256 lib (snd m) = row_sha256 r) rows ms"
  unfolding each_iff
  by (erule list_all2_mono) (auto simp: dino_copy_def bnd_iff split: if_splits)

section \<open>Properties\<close>

text \<open>
  C28: The archive of a DINO model of the third contract is complete and frozen: it holds the thirteen files of the
  contract in order and then the manifest, where every file has the size and the digest that the manifest which was
  checked declares, and the manifest names the identity of the job. That holds whatever happens to the directory
  while the archive is packed; without success the destination stays as it was.
\<close>

theorem dino_archive_frozen:
  "case package_dino lib loads plain_root dir later enough expected old of
     (Inl _, z) \<Rightarrow> z = old
   | (Inr _, z) \<Rightarrow> \<exists>raw d rs rows ms i. dir dino_manifest = Bytes raw \<and> loads raw = Some (JObj d) \<and> expected = Some i
       \<and> list_all (\<lambda>k. \<exists>v. map_of i k = Some v \<and> strip v \<noteq> [] \<and> map_of d k = Some (JStr v)) identity_fields_p6
       \<and> map_of d ''artifacts'' = Some (JArr rs) \<and> list_all2 (\<lambda>j r. dino_row j = Inr r) rs rows \<and> map row_path rows = dino_files
       \<and> map_of d ''artifact_set_sha256'' = Some (JStr (lib_sha256 lib (lib_canonical lib (JArr rs))))
       \<and> list_all2 (\<lambda>r m. fst m = ''artifacts/'' @ row_path r \<and> int (length (snd m)) = row_size r
           \<and> lib_sha256 lib (snd m) = row_sha256 r) rows ms
       \<and> z = Some (lib_zip lib (ms @ [(''artifacts/'' @ dino_manifest, raw)]))"
proof (cases "dino_members lib loads plain_root dir later enough expected")
  case (Inl e)
  then show ?thesis by (simp add: package_dino_def)
next
  case (Inr all)
  then obtain raw rows ms where t: "read_transport_manifest lib loads plain_root dir expected = Inr (raw, rows)"
    "each (dino_copy lib later enough) rows = Inr ms" "all = ms @ [(''artifacts/'' @ dino_manifest, raw)]"
    by (auto simp: dino_members_def bnd_iff split: if_splits)
  from t(1) obtain j d where m: "dino_plain dir dino_manifest = Inr raw" "dino_document loads raw = Inr j"
    "dino_header j = Inr d" "dino_identity d expected = Inr ()" "dino_rows (lib_sha256 lib) (lib_canonical lib) d = Inr rows"
    unfolding read_transport_manifest_def bnd_iff unless_iff by auto
  have raw: "dir dino_manifest = Bytes raw" using m(1) by (simp add: dino_plain_def split: found.splits)
  have d: "loads raw = Some (JObj d)" using m(2,3)
    by (auto simp: dino_document_def dino_header_def split: option.splits json.splits if_splits)
  from m(4) obtain i where i: "expected = Some i"
    "list_all (\<lambda>k. \<exists>v. map_of i k = Some v \<and> strip v \<noteq> [] \<and> map_of d k = Some (JStr v)) identity_fields_p6"
    by (auto simp: dino_identity_def bnd_iff each_iff list_all2_conv_all_nth list_all_length unless_iff is_text_def
        split: option.splits)
  from dino_rowsD [OF m(5)] obtain rs where rs: "map row_path rows = dino_files" "map_of d ''artifacts'' = Some (JArr rs)"
    "list_all2 (\<lambda>j r. dino_row j = Inr r) rs rows"
    "map_of d ''artifact_set_sha256'' = Some (JStr (lib_sha256 lib (lib_canonical lib (JArr rs))))" by blast
  have "package_dino lib loads plain_root dir later enough expected old
      = (Inr (), Some (lib_zip lib (ms @ [(''artifacts/'' @ dino_manifest, raw)])))"
    by (simp only: package_dino_def Inr sum.case t(3))
  then show ?thesis unfolding prod.case sum.case
    by (simp only: prod.case sum.case) (intro exI conjI, rule raw, rule d, rule i(1), rule i(2), rule rs(2), rule rs(3), rule rs(1),
      rule rs(4), rule dino_copied [OF t(2)], rule refl)
qed

text \<open>
  When a PatchCore result is packed that comes with an ONNX result claiming success, the package it names was
  found complete: its document claims success too and is bound to the digests, the parameters, the identity and the
  threshold of the model in this output, its files are exactly those listed, it has its five parts, and every sample
  of its report passed its three comparisons.
\<close>

theorem claimed_onnx_success_is_checked:
  assumes "plain_package lib loads dir whole names enough expected ''patchcore'' old = (Inr (), z)"
    and "dir ''cnn_onnx/result.json'' = Bytes b" and "loads b = Some (JObj r)" and "map_of r ''status'' = Some (JStr ''PASS'')"
  shows "\<exists>src name d rs listing report samples. source_from_run lib loads dir = Inr src
    \<and> map_of r ''package'' = Some (JStr name) \<and> package_folder_name name
    \<and> cnn_read loads dir (''cnn_onnx/'' @ name @ ''/deployment.json'') = Inr d \<and> map_of d ''status'' = Some (JStr ''PASS'')
    \<and> (\<exists>j. map_of d ''source'' = Some j \<and> same_value j (source_binding src))
    \<and> map_of d ''files'' = Some (JArr rs) \<and> length rs \<le> 32
    \<and> package_listing lib dir names (''cnn_onnx/'' @ name @ ''/'') = Inr listing
    \<and> same_value (JArr (map row_json listing)) (JArr rs)
    \<and> cnn_read loads dir (''cnn_onnx/'' @ name @ ''/verification.json'') = Inr report
    \<and> map_of report ''samples'' = Some (JArr samples) \<and> samples \<noteq> [] \<and> list_all (\<lambda>s. sample_passes s = Inr True) samples"
proof -
  have passes: "list_all (\<lambda>s. sample_passes s = Inr True) ss" if "samples_pass ss = Inr ()" for ss
    using that by (induction ss) (auto simp: bnd_iff split: if_splits)
  from assms(1,2) obtain st pk where o: "check_onnx_result lib loads dir names expected = Inr (st, pk)"
    by (auto simp: plain_package_def required_artifact_files_def bnd_iff split: sum.splits prod.splits if_splits)
  have r: "cnn_read loads dir ''cnn_onnx/result.json'' = Inr r"
    using assms(2,3) by (simp add: cnn_read_def cnn_bytes_def object_of_def or_crash_def)
  from o assms(4) r obtain src name d where n: "source_from_run lib loads dir = Inr src" "truthy (map_of r ''package'')"
    "text_in (the (map_of r ''package'')) = Some name" "package_folder_name name"
    "validate_package lib loads dir names (''cnn_onnx/'' @ name @ ''/'') (Some src) False = Inr d"
    "map_of d ''status'' = Some (JStr ''PASS'')"
    unfolding check_onnx_result_def by (auto simp: bnd_iff unless_iff or_crash_iff hashable_iff is_text_def split: if_splits)
  have name: "map_of r ''package'' = Some (JStr name)" using n(2,3)
    by (cases "map_of r ''package''") (auto simp: text_in_def split: json.splits)
  from n(5,6) obtain j rs listing report where v: "cnn_read loads dir (''cnn_onnx/'' @ name @ ''/deployment.json'') = Inr d"
    "map_of d ''source'' = Some j" "same_value j (source_binding src)" "map_of d ''files'' = Some (JArr rs)" "length rs \<le> 32"
    "package_listing lib dir names (''cnn_onnx/'' @ name @ ''/'') = Inr listing"
    "same_value (JArr (map row_json listing)) (JArr rs)"
    "cnn_read loads dir (''cnn_onnx/'' @ name @ ''/verification.json'') = Inr report" "check_samples report = Inr ()"
    unfolding validate_package_def
    by (auto simp: bnd_iff unless_iff hashable_iff member_of_def or_crash_iff is_text_def split: option.splits json.splits if_splits)
  from v(9) obtain ss where "map_of report ''samples'' = Some (JArr ss)" "ss \<noteq> []" "samples_pass ss = Inr ()"
    by (cases "map_of report ''samples''") (auto simp: check_samples_def bnd_iff or_crash_iff list_of_def split: json.splits if_splits)
  with n(1,4,6) name v(1-8) passes show ?thesis by blast
qed


text \<open>
  A file with the name of the document is left out of the comparison in every folder, so an undeclared one below the
  package passes and gets into the archive.
\<close>

lemma nested_document_unseen:
  assumes "last_name n = ''deployment.json''"
  shows "package_listing lib dir (xs @ n # ys) folder = package_listing lib dir (xs @ ys) folder"
  by (simp add: package_listing_def assms)

end
