(* ===== verification/Run_Guards.thy ===== *)
theory Run_Guards
  imports Result_Package
begin

text \<open>
  Checks of a submission before it runs, and the guards the relay adds to it, which run beside the training:
  the request for a device (\<^verbatim>\<open>app/dinov2_training_policy.py\<close>), the lowered threshold and the entry of the worker
  (\<^verbatim>\<open>app/dino_threshold_guard.py\<close>), the reading of images (\<^verbatim>\<open>app/dino_image_guard.py\<close>) and the number of GPUs
  (\<^verbatim>\<open>app/yolo_gpu_guard.py\<close>). Numbers of the threshold are floats: rational numbers with the rounding of an
  operation as a parameter, \<^const>\<open>None\<close> for one that is not finite. What the training libraries find in images and
  datasets is a parameter.
\<close>

section \<open>The device of a training\<close>

definition gpu_policy :: "json dict" where
  "gpu_policy = [(''profile'', JStr ''dino_cuda_features_cpu_coreset_v1''), (''device'', JStr ''cuda''), (''coreset_device'', JStr ''cpu''),
     (''precision'', JStr ''fp32''), (''torch_index'', JStr ''cu126''), (''batch'', JInt 1), (''workers'', JInt 0)]"

definition host_gpu_policy :: "json dict" where
  "host_gpu_policy = dict_update gpu_policy [(''profile'', JStr ''dino_cuda_host_torch210_cu128_cpu_coreset_v2''),
     (''torch_index'', JStr ''host_cu128''), (''environment'', JStr ''verified_host_overlay_v1'')]"

definition gpu_enabled_flag :: "json option \<Rightarrow> json option" where
  "gpu_enabled_flag v = (case v of Some (JStr s) \<Rightarrow> if s \<in> {''true'', ''false''} then Some (JBool (s = ''true'')) else v | _ \<Rightarrow> v)"

definition validate_training_request :: "result_lib \<Rightarrow> (string \<Rightarrow> found) \<Rightarrow> string \<Rightarrow> unit checked" where
  "validate_training_request lib dir contract =
     (if contract \<notin> set bound_contracts then Inr ()
      else bnd (read_file lib dir ''p6_task.json'') (\<lambda>task.
        bnd (read_file lib dir ''kernel-metadata.json'') (\<lambda>metadata.
        let enabled = gpu_enabled_flag (map_of metadata ''enable_gpu''); profile = map_of task ''training_execution'' in
        bnd (if profile \<noteq> None \<and> profile \<noteq> Some JNull
          then bnd (unless (contract \<noteq> second_contract \<or> \<not> is_text (map_of task ''format'') ''dino_cloud_task_p6_v2''
                \<or> \<not> list_ex (\<lambda>q. same_value (the profile) (JObj q)) [gpu_policy, host_gpu_policy])
               ''unsupported DINO training execution policy'') (\<lambda>_.
             unless (enabled \<noteq> Some (JBool True)) ''DINO CUDA task requires bound Kernel enable_gpu=true'')
          else unless (enabled \<noteq> Some (JBool False)) ''DINO CPU task must retain Kernel enable_gpu=false'') (\<lambda>_.
        bnd (nested task ''execution'' ''device'') (\<lambda>v.
        unless (\<not> is_text v ''cpu'') ''DINO deployment execution must remain CPU'')))))"

section \<open>The lowered threshold\<close>

record threshold_policy =
  original_threshold :: rat
  effective_threshold :: rat
  requested_margin :: "rat option"
  applied_margin :: "rat option"
  lower_calibration_score :: "rat option"

definition no_finite_scores :: string where
  "no_finite_scores = ''DINO gateway threshold policy requires finite calibration scores''"

definition no_lower_margin :: string where
  "no_lower_margin = ''DINO threshold has no representable lower margin preserving calibration labels''"

definition labels_change :: string where
  "labels_change = ''DINO gateway threshold policy would change calibration labels''"

definition margin_of :: "(rat \<Rightarrow> rat option) \<Rightarrow> rat \<Rightarrow> rat option" where
  "margin_of rnd t =
     Option.bind (rnd (1 / 100000)) (\<lambda>a. Option.bind (rnd (1 / 10000)) (\<lambda>b. Option.bind (rnd (b * \<bar>t\<bar>)) (\<lambda>m.
     Option.bind (rnd (a + m)) (\<lambda>s. rnd (2 * s)))))"

definition lower_bound_of :: "rat \<Rightarrow> rat list \<Rightarrow> rat option" where
  "lower_bound_of t scores =
     (let below = filter (\<lambda>s. s < t) scores in if below = [] then None else Some (Max (set below)))"

definition middle_of :: "(rat \<Rightarrow> rat option) \<Rightarrow> rat \<Rightarrow> rat \<Rightarrow> rat option" where
  "middle_of rnd l t = Option.bind (rnd (l / 2)) (\<lambda>a. Option.bind (rnd (t / 2)) (\<lambda>b. rnd (a + b)))"

text \<open>Without a finite difference it is minus infinity, and the larger of the two is the middle.\<close>

definition effective_of :: "(rat \<Rightarrow> rat option) \<Rightarrow> rat \<Rightarrow> rat option \<Rightarrow> rat option" where
  "effective_of rnd t low =
     (let e = Option.bind (margin_of rnd t) (\<lambda>m. rnd (t - m)) in
      case low of
        None \<Rightarrow> e
      | Some l \<Rightarrow> map_option (\<lambda>m. case e of None \<Rightarrow> m | Some x \<Rightarrow> max x m) (middle_of rnd l t))"

definition lower_threshold :: "(rat \<Rightarrow> rat option) \<Rightarrow> rat option \<Rightarrow> rat option list \<Rightarrow> string + threshold_policy" where
  "lower_threshold rnd threshold scores =
     (case (threshold, those scores) of
        (Some t, Some ss) \<Rightarrow>
          if ss = [] then Inl no_finite_scores
          else let low = lower_bound_of t ss in
            (case effective_of rnd t low of
               None \<Rightarrow> Inl no_lower_margin
             | Some e \<Rightarrow>
                 if \<not> e < t \<or> (case low of None \<Rightarrow> False | Some l \<Rightarrow> \<not> l < e) then Inl no_lower_margin
                 else if list_ex (\<lambda>s. (t \<le> s) \<noteq> (e \<le> s)) ss then Inl labels_change
                 else Inr \<lparr>original_threshold = t, effective_threshold = e, requested_margin = margin_of rnd t,
                   applied_margin = rnd (t - e), lower_calibration_score = low\<rparr>)
      | _ \<Rightarrow> Inl no_finite_scores)"

section \<open>The entry of the worker\<close>

definition guarded_command :: "bool \<Rightarrow> string \<Rightarrow> string list \<Rightarrow> string + string list" where
  "guarded_command known_runtime worker_source command =
     (if \<not> known_runtime then Inr command
      else if take 5 (drop 1 command) \<noteq> [''-I'', ''-X'', ''utf8'', ''-m'', ''patchcore_dino_runtime.remote_training'']
      then Inl ''DINO threshold policy requires the isolated cloud worker entrypoint''
      else Inr ([hd command, ''-I'', ''-X'', ''utf8'', ''-c'', worker_source] @ drop 6 command))"

section \<open>Images\<close>

text \<open>
  What the first decoding does: it raises, finds no image of eight bits, one of four channels (opaque or not), or
  another, for which the original function decides (\<^const>\<open>Some\<close> of the text of its error).
\<close>

datatype pixels = Raises | Not_decodable | Not_eight_bits | Four_channels bool | Other_channels "string option"

datatype image_reading = As_original | As_rgb

text \<open>\<open>color\<close>: the decoding in color finds an image.\<close>

definition decode_rgb :: "string \<Rightarrow> int \<Rightarrow> string \<Rightarrow> string option \<Rightarrow> pixels \<Rightarrow> bool \<Rightarrow> string set \<Rightarrow> string + image_reading \<times> string set" where
  "decode_rgb name bytes dig expected p color converted =
     (if 128 * 1024 * 1024 < bytes then Inl (''image exceeds encoded byte budget: '' @ name)
      else if expected \<noteq> None \<and> expected \<noteq> Some dig then Inl (''frozen image SHA-256 mismatch: '' @ name)
      else case p of
        Raises \<Rightarrow> Inl (''image decoding failed: '' @ name)
      | Not_decodable \<Rightarrow> Inl (''image must decode to 8-bit pixels: '' @ name)
      | Not_eight_bits \<Rightarrow> Inl (''image must decode to 8-bit pixels: '' @ name)
      | Four_channels opaque \<Rightarrow>
          if \<not> opaque then Inl (''transparent or semitransparent RGBA is unsupported: '' @ name)
          else if \<not> color then Inl (''RGB decoding failed: '' @ name)
          else Inr (As_rgb, insert dig converted)
      | Other_channels None \<Rightarrow> Inr (As_original, converted)
      | Other_channels (Some e) \<Rightarrow> Inl (e @ '': '' @ name))"

section \<open>The number of GPUs\<close>

datatype device_arg = No_device | Text_device string | Number_device int | List_device "string list"

definition split_devices :: "string \<Rightarrow> string list" where
  "split_devices s = filter (\<lambda>d. d \<noteq> []) (map strip (split_on (CHR '','') s))"

text \<open>\<^const>\<open>None\<close>: training starts as it was asked for.\<close>

definition requested_devices :: "device_arg \<Rightarrow> string list option" where
  "requested_devices d =
     (case d of
        No_device \<Rightarrow> None
      | Text_device s \<Rightarrow> if lower (strip s) \<in> {''cpu'', ''mps'', [], ''auto''} then None else Some (split_devices s)
      | Number_device n \<Rightarrow> Some (split_devices (int_text n))
      | List_device ds \<Rightarrow> Some ds)"

definition counted_tasks :: "string set" where
  "counted_tasks = {''detect'', ''segment'', ''pose'', ''obb''}"

text \<open>The device of the training, given the samples that each split has.\<close>

definition relay_yolo_train :: "device_arg \<Rightarrow> string \<Rightarrow> nat \<Rightarrow> nat \<Rightarrow> device_arg" where
  "relay_yolo_train d task train_count val_count =
     (case requested_devices d of
        None \<Rightarrow> d
      | Some ds \<Rightarrow>
          if length ds < 2 \<or> task \<notin> counted_tasks then d
          else if min train_count val_count < length ds then Text_device (hd ds) else d)"

section \<open>Lemmas\<close>

lemma those_Some: "those xs = Some ys \<longleftrightarrow> xs = map Some ys"
  by (induction xs arbitrary: ys) (auto split: option.splits)

lemma lower_bound_facts:
  "lower_bound_of t ss = Some l \<Longrightarrow> l \<in> set ss \<and> l < t \<and> (\<forall>s \<in> set ss. s < t \<longrightarrow> s \<le> l)"
  "lower_bound_of t ss = None \<Longrightarrow> \<forall>s \<in> set ss. t \<le> s"
proof -
  assume l: "lower_bound_of t ss = Some l"
  then have "filter (\<lambda>s. s < t) ss \<noteq> []" "l = Max (set (filter (\<lambda>s. s < t) ss))"
    by (auto simp: lower_bound_of_def Let_def split: if_splits)
  then have "l \<in> set (filter (\<lambda>s. s < t) ss)" "\<forall>s \<in> set (filter (\<lambda>s. s < t) ss). s \<le> l"
    by (metis List.finite_set Max_in set_empty, simp)
  then show "l \<in> set ss \<and> l < t \<and> (\<forall>s \<in> set ss. s < t \<longrightarrow> s \<le> l)" by auto
next
  assume "lower_bound_of t ss = None"
  then show "\<forall>s \<in> set ss. t \<le> s"
    by (auto simp: lower_bound_of_def Let_def filter_empty_conv not_less split: if_splits)
qed

lemma labels_kept:
  assumes "e < t" and "case lower_bound_of t ss of None \<Rightarrow> True | Some l \<Rightarrow> l < e" and "s \<in> set ss"
  shows "t \<le> s \<longleftrightarrow> e \<le> s"
proof
  assume "e \<le> s"
  show "t \<le> s"
  proof (cases "lower_bound_of t ss")
    case None
    with lower_bound_facts(2) assms(3) show ?thesis by blast
  next
    case (Some l)
    with lower_bound_facts(1) [OF Some] assms(2,3) \<open>e \<le> s\<close> show ?thesis by (auto simp: not_le [symmetric])
  qed
qed (use assms(1) in simp)

lemma exact_effective:
  "effective_of Some t low = Some (case low of None \<Rightarrow> t - 2 * (1 / 100000 + 1 / 10000 * \<bar>t\<bar>)
     | Some l \<Rightarrow> max (t - 2 * (1 / 100000 + 1 / 10000 * \<bar>t\<bar>)) (l / 2 + t / 2))"
  by (simp add: effective_of_def margin_of_def middle_of_def Let_def split: option.splits)

text \<open>Once the threshold and all scores are finite.\<close>

lemma lowered:
  assumes "ss \<noteq> []"
  shows "lower_threshold rnd (Some t) (map Some ss) =
     (case effective_of rnd t (lower_bound_of t ss) of
        None \<Rightarrow> Inl no_lower_margin
      | Some e \<Rightarrow>
          if \<not> e < t \<or> (case lower_bound_of t ss of None \<Rightarrow> False | Some l \<Rightarrow> \<not> l < e) then Inl no_lower_margin
          else Inr \<lparr>original_threshold = t, effective_threshold = e, requested_margin = margin_of rnd t,
            applied_margin = rnd (t - e), lower_calibration_score = lower_bound_of t ss\<rparr>)"
proof -
  have th: "those (map Some ss) = Some ss" by (simp only: those_Some)
  have k: "\<not> list_ex (\<lambda>s. (t \<le> s) \<noteq> (e \<le> s)) ss"
    if "\<not> (\<not> e < t \<or> (case lower_bound_of t ss of None \<Rightarrow> False | Some l \<Rightarrow> \<not> l < e))" for e
    using labels_kept [of e t ss] that by (auto simp: list_ex_iff split: option.splits)
  show ?thesis
    using k assms unfolding lower_threshold_def th prod.case option.case Let_def
    by (cases "effective_of rnd t (lower_bound_of t ss)") auto
qed

lemma not_lowered: "threshold = None \<or> None \<in> set scores \<or> scores = [] \<Longrightarrow> lower_threshold rnd threshold scores = Inl no_finite_scores"
proof -
  assume a: "threshold = None \<or> None \<in> set scores \<or> scores = []"
  have "those scores = None" if "None \<in> set scores" using that by (cases "those scores") (auto simp: those_Some)
  with a show ?thesis by (cases threshold; cases "those scores") (auto simp: lower_threshold_def)
qed

section \<open>Properties\<close>

text \<open>
  C38: The lowered threshold is below the original and labels every calibration score as before, whatever the
  rounding. The last check of the code can never fail. With exact numbers the policy fails only for scores that are
  missing or not finite, so every refusal of finite scores is one of rounding; and the threshold is then lowered by
  the requested margin or to the middle of the gap below it, whichever is less.
\<close>

theorem threshold_lowered_safely:
  "lower_threshold rnd threshold scores \<noteq> Inl labels_change
   \<and> (case lower_threshold rnd threshold scores of
        Inl _ \<Rightarrow> True
      | Inr p \<Rightarrow> threshold = Some (original_threshold p) \<and> effective_threshold p < original_threshold p
          \<and> list_all (\<lambda>s. \<exists>x. s = Some x \<and> (original_threshold p \<le> x) = (effective_threshold p \<le> x)) scores)
   \<and> (\<exists>e. lower_threshold Some (Some t) (map Some (x # xs)) = Inr e
        \<and> t - effective_threshold e = min (2 * (1 / 100000 + 1 / 10000 * \<bar>t\<bar>))
            (case lower_bound_of t (x # xs) of None \<Rightarrow> 2 * (1 / 100000 + 1 / 10000 * \<bar>t\<bar>) | Some l \<Rightarrow> (t - l) / 2))"
proof (intro conjI)
  have d: "labels_change \<noteq> no_finite_scores" "labels_change \<noteq> no_lower_margin" by code_simp+
  have "lower_threshold rnd threshold scores \<noteq> Inl labels_change \<and> (case lower_threshold rnd threshold scores of
        Inl _ \<Rightarrow> True
      | Inr p \<Rightarrow> threshold = Some (original_threshold p) \<and> effective_threshold p < original_threshold p
          \<and> list_all (\<lambda>s. \<exists>x. s = Some x \<and> (original_threshold p \<le> x) = (effective_threshold p \<le> x)) scores)"
  proof (cases "threshold = None \<or> None \<in> set scores \<or> scores = []")
    case True
    with d not_lowered show ?thesis by simp
  next
    case False
    then obtain u ss where u: "threshold = Some u" "scores = map Some ss" "ss \<noteq> []"
      by (metis (no_types) ex_map_conv not_None_eq map_is_Nil_conv)
    from d show ?thesis unfolding u(1,2) lowered [OF u(3)]
      using labels_kept [of _ u ss] by (auto simp: list_all_iff split: option.splits)
  qed
  then show "lower_threshold rnd threshold scores \<noteq> Inl labels_change"
    "case lower_threshold rnd threshold scores of
        Inl _ \<Rightarrow> True
      | Inr p \<Rightarrow> threshold = Some (original_threshold p) \<and> effective_threshold p < original_threshold p
          \<and> list_all (\<lambda>s. \<exists>x. s = Some x \<and> (original_threshold p \<le> x) = (effective_threshold p \<le> x)) scores"
    by blast+
next
  let ?m = "2 * (1 / 100000 + 1 / 10000 * \<bar>t\<bar>)" and ?l = "lower_bound_of t (x # xs)"
  have m: "0 < ?m" by (simp add: add_pos_nonneg)
  define e where "e = (case ?l of None \<Rightarrow> t - ?m | Some l \<Rightarrow> max (t - ?m) (l / 2 + t / 2))"
  have below: "l < t" if "?l = Some l" for l
    using lower_bound_facts(1) [of t "x # xs"] that by simp
  have e: "e < t" "\<not> (case ?l of None \<Rightarrow> False | Some l \<Rightarrow> \<not> l < e)"
  proof -
    have half: "l < l / 2 + t / 2 \<and> l / 2 + t / 2 < t" if "?l = Some l" for l
      using below [OF that] by simp
    show "e < t" "\<not> (case ?l of None \<Rightarrow> False | Some l \<Rightarrow> \<not> l < e)"
      using m half by (auto simp only: e_def less_max_iff_disj max_less_iff_conj split: option.splits)
  qed
  have r: "effective_of Some t ?l = Some e" by (simp only: exact_effective e_def)
  have A: "lower_threshold Some (Some t) (map Some (x # xs)) = Inr \<lparr>original_threshold = t, effective_threshold = e,
      requested_margin = margin_of Some t, applied_margin = Some (t - e), lower_calibration_score = ?l\<rparr>"
    using e by (subst lowered) (simp_all add: r)
  have B: "t - e = min ?m (case ?l of None \<Rightarrow> ?m | Some l \<Rightarrow> (t - l) / 2)"
    by (auto simp: e_def min_def max_def field_simps split: option.splits)
  show "\<exists>e. lower_threshold Some (Some t) (map Some (x # xs)) = Inr e
      \<and> t - effective_threshold e = min ?m (case ?l of None \<Rightarrow> ?m | Some l \<Rightarrow> (t - l) / 2)"
    by (intro exI conjI) (rule A, simp only: threshold_policy.simps B)
qed

text \<open>A training that keeps its request for several GPUs has a sample for each of them in both splits.\<close>

lemma gpus_have_samples:
  assumes "requested_devices d = Some ds" and "2 \<le> length ds" and "task \<in> counted_tasks"
  shows "relay_yolo_train d task m n = (if length ds \<le> m \<and> length ds \<le> n then d else Text_device (hd ds))"
  using assms by (auto simp: relay_yolo_train_def)

end
