(* ===== verification/Script_Policy.thy ===== *)
theory Script_Policy
  imports Child_Process Payload_Metadata
begin

text \<open>
  The policies that edit the script of a submission before it is sent: the guard of the number of GPUs of a YOLO
  training (\<^verbatim>\<open>app/gpu_policy.py\<close>) and the calibration overlay of a DINO training
  (\<^verbatim>\<open>app/dino_threshold_policy.py\<close>). A script is its syntax tree: expressions and statements with the shapes the
  policies look at, any other one with its children. Python's parser and printer are parameters, and so are the
  texts of the guards, which stand in files of their own. A retry submits the edited script again, so a policy
  applied twice must leave what it left the first time.
\<close>

section \<open>Scripts\<close>

text \<open>Of a call: the function, the arguments, and the keyword arguments (no name for \<^verbatim>\<open>**\<close>).\<close>

datatype expr =
    Name string
  | Attribute expr string
  | Text string
  | Call expr "expr list" "(string option \<times> expr) list"
  | Other_expr string "expr list"

text \<open>\<open>Import_from\<close> has the module, the level and the names with their aliases; other statements have blocks.\<close>

datatype stmt =
    Expr_stmt expr
  | Assign "expr list" expr
  | Import_from "string option" nat "(string \<times> string option) list"
  | Other_stmt string "expr list" "stmt list list"

datatype 'a parsing = Syntax_error | Other_error | Parsed 'a

record python =
  py_parse :: "string \<Rightarrow> stmt list parsing"
  py_unparse :: "stmt list \<Rightarrow> string"
  py_compile :: "string \<Rightarrow> unit parsing"
  py_repr :: "string \<Rightarrow> string"

text \<open>The trees of the guards are parsed when the module is loaded.\<close>

definition parsed_guard :: "python \<Rightarrow> string \<Rightarrow> stmt list" where
  "parsed_guard py t = (case py_parse py t of Parsed b \<Rightarrow> b | _ \<Rightarrow> [])"

text \<open>A guard goes after the documentation and the imports from \<^verbatim>\<open>__future__\<close>.\<close>

definition is_future :: "stmt \<Rightarrow> bool" where
  "is_future s = (case s of Import_from m _ _ \<Rightarrow> m = Some ''__future__'' | _ \<Rightarrow> False)"

definition insertion_point :: "stmt list \<Rightarrow> nat" where
  "insertion_point body =
     (let d = (case body of Expr_stmt (Text _) # _ \<Rightarrow> 1 | _ \<Rightarrow> 0) in d + length (takeWhile is_future (drop d body)))"

definition insert_guard :: "stmt list \<Rightarrow> stmt list \<Rightarrow> stmt list" where
  "insert_guard guard body = take (insertion_point body) body @ guard @ drop (insertion_point body) body"

definition without_guard :: "stmt list \<Rightarrow> stmt list \<Rightarrow> stmt list" where
  "without_guard guard body = filter (\<lambda>n. n \<notin> set guard) body"

section \<open>The guard of a YOLO training\<close>

definition device_helper :: string where
  "device_helper = ''_relay_yolo_train''"

definition is_train :: "expr \<Rightarrow> bool" where
  "is_train f = (case f of Attribute _ a \<Rightarrow> a = ''train'' | _ \<Rightarrow> False)"

definition has_data :: "(string option \<times> 'a) list \<Rightarrow> bool" where
  "has_data ks = list_ex (\<lambda>(k, _). k = Some ''data'') ks"

definition guarded_call :: "expr \<Rightarrow> expr list \<Rightarrow> (string option \<times> expr) list \<Rightarrow> expr" where
  "guarded_call f es ks = (if is_train f \<and> has_data ks then Call (Name device_helper) (f # es) ks else Call f es ks)"

primrec guard_expr :: "expr \<Rightarrow> expr" where
  "guard_expr (Name x) = Name x"
| "guard_expr (Attribute e a) = Attribute (guard_expr e) a"
| "guard_expr (Text s) = Text s"
| "guard_expr (Call f es ks) = guarded_call (guard_expr f) (map guard_expr es) (map (map_prod id guard_expr) ks)"
| "guard_expr (Other_expr k es) = Other_expr k (map guard_expr es)"

primrec guard_stmt :: "stmt \<Rightarrow> stmt" where
  "guard_stmt (Expr_stmt e) = Expr_stmt (guard_expr e)"
| "guard_stmt (Assign ts e) = Assign (map guard_expr ts) (guard_expr e)"
| "guard_stmt (Import_from m l ns) = Import_from m l ns"
| "guard_stmt (Other_stmt k es bs) = Other_stmt k (map guard_expr es) (map (map guard_stmt) bs)"

definition rewrite_tree :: "stmt list \<Rightarrow> bool \<Rightarrow> stmt list \<Rightarrow> stmt list" where
  "rewrite_tree guard whole body =
     (if whole then insert_guard guard (map guard_stmt (without_guard guard body)) else map guard_stmt body)"

definition rewrite_python :: "python \<Rightarrow> stmt list \<Rightarrow> bool \<Rightarrow> string \<Rightarrow> string parsing" where
  "rewrite_python py guard whole script =
     (case py_parse py script of
        Syntax_error \<Rightarrow> Syntax_error
      | Other_error \<Rightarrow> Other_error
      | Parsed body \<Rightarrow> Parsed (py_unparse py (rewrite_tree guard whole body) @ newline))"

subsection \<open>Notebooks\<close>

text \<open>\<^verbatim>\<open>splitlines(keepends=True)\<close>.\<close>

fun lines_kept :: "string \<Rightarrow> string \<Rightarrow> string list" where
  "lines_kept acc [] = (if acc = [] then [] else [rev acc])"
| "lines_kept acc (c # cs) =
     (if of_char c = (13::nat) \<and> cs \<noteq> [] \<and> of_char (hd cs) = (10::nat) then (rev acc @ [c, hd cs]) # lines_kept [] (tl cs)
      else if line_break c then (rev acc @ [c]) # lines_kept [] cs
      else lines_kept (c # acc) cs)"

definition source_lines :: "string \<Rightarrow> json" where
  "source_lines s = JArr (map JStr (lines_kept [] s))"

text \<open>\<^verbatim>\<open>"".join\<close> of a value: the texts of a list, or the keys of an object.\<close>

definition joined_source :: "json \<Rightarrow> string option" where
  "joined_source v =
     (case v of
        JStr s \<Rightarrow> Some s
      | JArr xs \<Rightarrow> map_option concat (those (map (\<lambda>x. case x of JStr s \<Rightarrow> Some s | _ \<Rightarrow> None) xs))
      | JObj d \<Rightarrow> Some (concat (map fst d))
      | _ \<Rightarrow> None)"

definition policy_cell_id :: string where
  "policy_cell_id = ''relay-small-dataset-gpu-policy''"

definition policy_cell :: "string \<Rightarrow> json dict" where
  "policy_cell guard_text = [(''cell_type'', JStr ''code''), (''id'', JStr policy_cell_id), (''metadata'', JObj []),
     (''execution_count'', JNull), (''outputs'', JArr []), (''source'', source_lines guard_text)]"

definition own_cell :: "json dict \<Rightarrow> bool" where
  "own_cell c \<longleftrightarrow> map_of c ''id'' = Some (JStr policy_cell_id)"

text \<open>A cell whose text is no Python stays as it is; other errors end the rewriting.\<close>

definition rewrite_cell :: "python \<Rightarrow> json dict \<Rightarrow> json dict option" where
  "rewrite_cell py c =
     (if map_of c ''cell_type'' \<noteq> Some (JStr ''code'') then Some c
      else case joined_source (case map_of c ''source'' of None \<Rightarrow> JArr [] | Some v \<Rightarrow> v) of
          None \<Rightarrow> None
        | Some s \<Rightarrow>
            (case rewrite_python py [] False s of
               Syntax_error \<Rightarrow> Some c
             | Other_error \<Rightarrow> None
             | Parsed u \<Rightarrow> Some (AList.update ''source'' (source_lines u) c)))"

definition rewrite_cells :: "python \<Rightarrow> string \<Rightarrow> json dict list \<Rightarrow> json dict list option" where
  "rewrite_cells py guard_text cs =
     map_option (\<lambda>ds. policy_cell guard_text # ds) (those (map (rewrite_cell py) (filter (\<lambda>c. \<not> own_cell c) cs)))"

text \<open>\<open>None\<close> where the code raises.\<close>

definition rewrite_notebook :: "python \<Rightarrow> string \<Rightarrow> json \<Rightarrow> json option" where
  "rewrite_notebook py guard_text nb =
     (case nb of
        JObj d \<Rightarrow>
          (case map_of d ''cells'' of
             Some (JArr cs) \<Rightarrow>
               Option.bind (those (map (\<lambda>c. case c of JObj e \<Rightarrow> Some e | _ \<Rightarrow> None) cs)) (\<lambda>es.
                 map_option (\<lambda>fs. JObj (AList.update ''cells'' (JArr (map JObj fs)) d)) (rewrite_cells py guard_text es))
           | _ \<Rightarrow> None)
      | _ \<Rightarrow> None)"

subsection \<open>The edit of a submission\<close>

text \<open>
  The file that the metadata names: \<open>sf_text\<close> reads it in an encoding, \<^const>\<open>None\<close> for an undecodable one. That the
  reading of a regular file fails (an \<^verbatim>\<open>OSError\<close>, which the policies do not handle) is not modelled.
\<close>

record script_file =
  sf_inside :: bool
  sf_link :: bool
  sf_regular :: bool
  sf_suffix :: string
  sf_text :: "string \<Rightarrow> string option"

record script_env =
  se_python :: python
  se_render :: "json \<Rightarrow> string"
  se_loads :: "string \<Rightarrow> json option"
  se_dumps :: "json \<Rightarrow> string"
  se_sha256 :: "string \<Rightarrow> string"

definition plain_script :: "script_file \<Rightarrow> bool" where
  "plain_script f \<longleftrightarrow> sf_inside f \<and> \<not> sf_link f \<and> sf_regular f"

definition gpu_requested :: "(json \<Rightarrow> string) \<Rightarrow> json dict \<Rightarrow> bool" where
  "gpu_requested render m \<longleftrightarrow>
     lower (strip (case map_of m ''enable_gpu'' of None \<Rightarrow> ''False'' | Some (JStr s) \<Rightarrow> s | Some v \<Rightarrow> render v)) \<in> {''true'', ''1''}"

definition gpu_not_inside :: string where
  "gpu_not_inside = ''GPU policy requires a code_file inside the kernel directory''"

definition gpu_not_prepared :: string where
  "gpu_not_prepared = ''GPU policy could not prepare the YOLO entrypoint''"

text \<open>Errors of the preparation, of whatever kind, become one: an \<^verbatim>\<open>ArchiveError\<close> is a \<^verbatim>\<open>ValueError\<close> too.\<close>

definition prepare_yolo :: "script_env \<Rightarrow> string \<Rightarrow> script_file \<Rightarrow> string option" where
  "prepare_yolo se guard_text f =
     (let py = se_python se in
      if lower (sf_suffix f) = ''.py'' then
        Option.bind (sf_text f ''utf-8-sig'') (\<lambda>s.
          case rewrite_python py (parsed_guard py guard_text) True s of Parsed u \<Rightarrow> Some u | _ \<Rightarrow> None)
      else if lower (sf_suffix f) = ''.ipynb'' then
        Option.bind (sf_text f ''utf-8'') (\<lambda>s. Option.bind (se_loads se s) (\<lambda>nb.
          map_option (\<lambda>nb'. se_dumps se nb' @ newline) (rewrite_notebook py guard_text nb)))
      else None)"

definition gpu_policy_message :: string where
  "gpu_policy_message = ''Gateway GPU policy: check valid train/val sample counts before YOLO training; '' @
     ''use one GPU only when a split has fewer samples than requested GPUs.''"

text \<open>The message for the log and the new text of the script; \<^const>\<open>None\<close> when nothing is edited.\<close>

definition apply_yolo_gpu_policy ::
  "script_env \<Rightarrow> string \<Rightarrow> json dict \<Rightarrow> (string \<Rightarrow> script_file) \<Rightarrow> string \<Rightarrow> string + (string \<times> string) option" where
  "apply_yolo_gpu_policy se guard_text metadata file_at contract =
     (if contract \<noteq> ''yolo'' \<or> \<not> gpu_requested (se_render se) metadata then Inr None
      else
        let f = file_at (code_file_of (se_render se) metadata) in
        if \<not> plain_script f then Inl gpu_not_inside
        else case prepare_yolo se guard_text f of
            None \<Rightarrow> Inl gpu_not_prepared
          | Some u \<Rightarrow> Inr (Some (gpu_policy_message, u)))"

section \<open>The overlay of a DINO training\<close>

definition worker_source_name :: string where
  "worker_source_name = ''_RELAY_DINO_WORKER_SOURCE''"

definition wrapper_name :: string where
  "wrapper_name = ''_relay_dino_wrap_run''"

definition bootstrap_module :: string where
  "bootstrap_module = ''patchcore_dino_runtime.kaggle_bootstrap''"

definition legacy_sha256 :: string where
  "legacy_sha256 = ''832a35b6f46b1eb5c55ab5fcaa9fd72d5fcd5878846453532c85a262afbb287d''"

definition sha_line :: "python \<Rightarrow> string \<Rightarrow> string" where
  "sha_line py sha = ''_RELAY_DINO_POLICY_SHA256 = '' @ py_repr py sha @ newline"

definition source_line :: "python \<Rightarrow> string \<Rightarrow> string" where
  "source_line py worker = worker_source_name @ '' = '' @ py_repr py worker @ newline"

definition worker_footer :: string where
  "worker_footer = newline @ ''raise SystemExit(_relay_dino_worker_main())'' @ newline"

text \<open>The texts that the two guards give: of the policy, of the worker, and what is put into the script.\<close>

definition dino_guard :: "script_env \<Rightarrow> string \<Rightarrow> string \<Rightarrow> string" where
  "dino_guard se image_guard threshold_guard =
     ''_RELAY_DINO_IMAGE_POLICY_SHA256 = '' @ py_repr (se_python se) (se_sha256 se image_guard) @ newline
     @ image_guard @ newline @ threshold_guard"

definition dino_worker :: "script_env \<Rightarrow> string \<Rightarrow> string" where
  "dino_worker se guard = sha_line (se_python se) (se_sha256 se guard) @ guard @ worker_footer"

definition dino_prefix :: "script_env \<Rightarrow> string \<Rightarrow> string" where
  "dino_prefix se guard =
     sha_line (se_python se) (se_sha256 se guard) @ source_line (se_python se) (dino_worker se guard) @ guard"

text \<open>The worker that an older overlay of this statement holds.\<close>

definition legacy_worker :: "python \<Rightarrow> stmt \<Rightarrow> string option" where
  "legacy_worker py s =
     (case s of
        Assign [Name x] (Text worker) \<Rightarrow>
          if x = worker_source_name \<and> prefix (sha_line py legacy_sha256) worker \<and> suffix worker_footer worker
          then Some worker else None
      | _ \<Rightarrow> None)"

definition legacy_guard :: "python \<Rightarrow> string \<Rightarrow> string" where
  "legacy_guard py worker =
     drop (length (sha_line py legacy_sha256)) (take (length worker - length worker_footer) worker)"

fun first_legacy :: "python \<Rightarrow> nat \<Rightarrow> stmt list \<Rightarrow> (nat \<times> string) option" where
  "first_legacy py i [] = None"
| "first_legacy py i (s # body) =
     (case legacy_worker py s of Some w \<Rightarrow> Some (i, w) | None \<Rightarrow> first_legacy py (Suc i) body)"

text \<open>\<^const>\<open>None\<close>: it raises.\<close>

definition remove_legacy_prefix :: "script_env \<Rightarrow> stmt list \<Rightarrow> stmt list option" where
  "remove_legacy_prefix se body =
     (let py = se_python se in
      case first_legacy py 0 body of
        None \<Rightarrow> Some body
      | Some (index, worker) \<Rightarrow>
          if se_sha256 se (legacy_guard py worker) \<noteq> legacy_sha256 then None
          else case py_parse py (sha_line py legacy_sha256 @ source_line py worker @ legacy_guard py worker) of
              Parsed guard \<Rightarrow>
                if index = 0 \<or> take (length guard) (drop (index - 1) body) \<noteq> guard then None
                else Some (take (index - 1) body @ drop (index - 1 + length guard) body)
            | _ \<Rightarrow> None)"

definition wrapper :: "string \<Rightarrow> stmt" where
  "wrapper x = Assign [Name x] (Call (Name wrapper_name) [Name x] [])"

definition is_wrapper :: "stmt \<Rightarrow> bool" where
  "is_wrapper s = (case s of Assign [Name x] (Call (Name f) [Name y] []) \<Rightarrow> f = wrapper_name \<and> y = x | _ \<Rightarrow> False)"

text \<open>The local names under which an import makes the entry known; an empty alias does not exist.\<close>

definition entry_names :: "stmt \<Rightarrow> string list" where
  "entry_names s =
     (case s of
        Import_from m l ns \<Rightarrow>
          if l \<noteq> 0 \<or> m \<noteq> Some bootstrap_module then []
          else map (\<lambda>(n, a). case a of None \<Rightarrow> n | Some b \<Rightarrow> b) (filter (\<lambda>(n, _). n = ''run'') ns)
      | _ \<Rightarrow> [])"

text \<open>The statements that take the place of one, and the number of entries found.\<close>

primrec wrap_stmt :: "stmt \<Rightarrow> stmt list" where
  "wrap_stmt (Expr_stmt e) = [Expr_stmt e]"
| "wrap_stmt (Assign ts e) = (if is_wrapper (Assign ts e) then [] else [Assign ts e])"
| "wrap_stmt (Import_from m l ns) = Import_from m l ns # map wrapper (entry_names (Import_from m l ns))"
| "wrap_stmt (Other_stmt k es bs) = [Other_stmt k es (map concat (map (map wrap_stmt) bs))]"

primrec count_entries :: "stmt \<Rightarrow> nat" where
  "count_entries (Expr_stmt e) = 0"
| "count_entries (Assign ts e) = 0"
| "count_entries (Import_from m l ns) = length (entry_names (Import_from m l ns))"
| "count_entries (Other_stmt k es bs) = sum_list (map sum_list (map (map count_entries) bs))"

definition dino_not_python :: string where
  "dino_not_python = ''DINO threshold policy requires a Python code_file inside the kernel directory''"

definition dino_not_prepared :: string where
  "dino_not_prepared = ''DINO threshold policy could not prepare the submission''"

definition prepare_dino :: "script_env \<Rightarrow> string \<Rightarrow> script_file \<Rightarrow> string option" where
  "prepare_dino se guard f =
     (let py = se_python se; prefix_tree = parsed_guard py (dino_prefix se guard) in
      Option.bind (sf_text f ''utf-8-sig'') (\<lambda>s.
      case py_parse py s of
        Parsed body \<Rightarrow>
          Option.bind (remove_legacy_prefix se body) (\<lambda>b.
          let own = without_guard prefix_tree b; wrapped = concat (map wrap_stmt own) in
          if sum_list (map count_entries own) = 0 then None
          else
            let updated = py_unparse py (insert_guard prefix_tree wrapped) @ newline in
            (case py_compile py updated of Parsed _ \<Rightarrow> Some updated | _ \<Rightarrow> None))
      | _ \<Rightarrow> None))"

definition dino_policy_message :: "script_env \<Rightarrow> string \<Rightarrow> string \<Rightarrow> string" where
  "dino_policy_message se image_guard guard =
     ''Gateway DINO F1 threshold policy: lower by twice the native score tolerance, '' @
     ''bounded by the calibration score gap; record policy in threshold/metrics/PT receipts. '' @
     ''Opaque RGBA image policy: verify original bytes and read fully opaque inputs as RGB. '' @
     ''policy_sha256='' @ se_sha256 se guard @ '' image_policy_sha256='' @ se_sha256 se image_guard"

definition apply_dino_threshold_policy ::
  "script_env \<Rightarrow> string \<Rightarrow> string \<Rightarrow> json dict \<Rightarrow> (string \<Rightarrow> script_file) \<Rightarrow> string \<Rightarrow> string + (string \<times> string) option" where
  "apply_dino_threshold_policy se image_guard threshold_guard metadata file_at contract =
     (if contract \<noteq> ''patchcore_dinov2_v3'' then Inr None
      else
        let f = file_at (code_file_of (se_render se) metadata); guard = dino_guard se image_guard threshold_guard in
        if \<not> plain_script f \<or> lower (sf_suffix f) \<noteq> ''.py'' then Inl dino_not_python
        else case prepare_dino se guard f of
            None \<Rightarrow> Inl dino_not_prepared
          | Some u \<Rightarrow> Inr (Some (dino_policy_message se image_guard guard, u)))"

section \<open>Lemmas\<close>

text \<open>A script in which every training call with data goes through the guard, and one that never names the guard.\<close>

primrec guarded :: "expr \<Rightarrow> bool" where
  "guarded (Name x) \<longleftrightarrow> True"
| "guarded (Attribute e a) \<longleftrightarrow> guarded e"
| "guarded (Text s) \<longleftrightarrow> True"
| "guarded (Call f es ks) \<longleftrightarrow> \<not> (is_train f \<and> has_data ks) \<and> guarded f \<and> list_all id (map guarded es)
     \<and> list_all snd (map (map_prod id guarded) ks)"
| "guarded (Other_expr k es) \<longleftrightarrow> list_all id (map guarded es)"

primrec guarded_stmt :: "stmt \<Rightarrow> bool" where
  "guarded_stmt (Expr_stmt e) \<longleftrightarrow> guarded e"
| "guarded_stmt (Assign ts e) \<longleftrightarrow> list_all guarded ts \<and> guarded e"
| "guarded_stmt (Import_from m l ns) \<longleftrightarrow> True"
| "guarded_stmt (Other_stmt k es bs) \<longleftrightarrow> list_all guarded es \<and> list_all id (map (list_all id) (map (map guarded_stmt) bs))"

primrec helper_free :: "expr \<Rightarrow> bool" where
  "helper_free (Name x) \<longleftrightarrow> x \<noteq> device_helper"
| "helper_free (Attribute e a) \<longleftrightarrow> helper_free e"
| "helper_free (Text s) \<longleftrightarrow> True"
| "helper_free (Call f es ks) \<longleftrightarrow> helper_free f \<and> list_all id (map helper_free es)
     \<and> list_all snd (map (map_prod id helper_free) ks)"
| "helper_free (Other_expr k es) \<longleftrightarrow> list_all id (map helper_free es)"

primrec helper_free_stmt :: "stmt \<Rightarrow> bool" where
  "helper_free_stmt (Expr_stmt e) \<longleftrightarrow> helper_free e"
| "helper_free_stmt (Assign ts e) \<longleftrightarrow> list_all helper_free ts \<and> helper_free e"
| "helper_free_stmt (Import_from m l ns) \<longleftrightarrow> True"
| "helper_free_stmt (Other_stmt k es bs) \<longleftrightarrow> list_all helper_free es
     \<and> list_all id (map (list_all id) (map (map helper_free_stmt) bs))"

text \<open>A tree without its guards: each guarded call is the call it was made of.\<close>

definition unguarded_call :: "expr \<Rightarrow> expr list \<Rightarrow> (string option \<times> expr) list \<Rightarrow> expr" where
  "unguarded_call f es ks =
     (case es of
        g # rest \<Rightarrow> if f = Name device_helper \<and> is_train g \<and> has_data ks then Call g rest ks else Call f es ks
      | [] \<Rightarrow> Call f es ks)"

primrec unguard_expr :: "expr \<Rightarrow> expr" where
  "unguard_expr (Name x) = Name x"
| "unguard_expr (Attribute e a) = Attribute (unguard_expr e) a"
| "unguard_expr (Text s) = Text s"
| "unguard_expr (Call f es ks) = unguarded_call (unguard_expr f) (map unguard_expr es) (map (map_prod id unguard_expr) ks)"
| "unguard_expr (Other_expr k es) = Other_expr k (map unguard_expr es)"

primrec unguard_stmt :: "stmt \<Rightarrow> stmt" where
  "unguard_stmt (Expr_stmt e) = Expr_stmt (unguard_expr e)"
| "unguard_stmt (Assign ts e) = Assign (map unguard_expr ts) (unguard_expr e)"
| "unguard_stmt (Import_from m l ns) = Import_from m l ns"
| "unguard_stmt (Other_stmt k es bs) = Other_stmt k (map unguard_expr es) (map (map unguard_stmt) bs)"

text \<open>
  What an edit may do to the statements: every training call with data goes through the guard, and without the
  guards they are the statements before the edit.
\<close>

definition only_guarded :: "stmt list \<Rightarrow> stmt list \<Rightarrow> bool" where
  "only_guarded before after \<longleftrightarrow> list_all guarded_stmt after \<and> map unguard_stmt after = map unguard_stmt before"

lemma is_train_guard [simp]: "is_train (guard_expr f) = is_train f"
  by (cases f) (simp_all add: is_train_def guarded_call_def)

lemma has_data_map [simp]: "has_data (map (map_prod id g) ks) = has_data ks"
  by (induction ks) (auto simp: has_data_def)

lemma is_train_unguard [simp]: "is_train (unguard_expr f) = is_train f"
  by (cases f) (simp_all add: is_train_def unguarded_call_def split: list.split)

lemma unguard_guard: "unguard_expr (guard_expr e) = unguard_expr e"
proof (induction e)
  case (Call f es ks)
  have es: "map unguard_expr (map guard_expr es) = map unguard_expr es" using Call.IH(2) by simp
  have ks: "map (map_prod id unguard_expr) (map (map_prod id guard_expr) ks) = map (map_prod id unguard_expr) ks"
    using Call.IH(3) by (auto simp: snds.simps)
  have name: "unguarded_call (unguard_expr f) xs ys = Call (unguard_expr f) xs ys" if "is_train f" for xs ys
    using that by (cases f) (auto simp: unguarded_call_def is_train_def split: list.split)
  show ?case
  proof (cases "is_train f \<and> has_data ks")
    case True
    then have "unguard_expr (guard_expr (Call f es ks))
        = unguarded_call (Name device_helper) (unguard_expr (guard_expr f) # map unguard_expr (map guard_expr es))
            (map (map_prod id unguard_expr) (map (map_prod id guard_expr) ks))"
      by (simp add: guarded_call_def)
    also have "\<dots> = Call (unguard_expr f) (map unguard_expr es) (map (map_prod id unguard_expr) ks)"
      using True unfolding es ks Call.IH(1) by (simp add: unguarded_call_def)
    finally show ?thesis using True by (simp add: name)
  next
    case False
    then have "unguard_expr (guard_expr (Call f es ks))
        = unguarded_call (unguard_expr (guard_expr f)) (map unguard_expr (map guard_expr es))
            (map (map_prod id unguard_expr) (map (map_prod id guard_expr) ks))"
      by (auto simp: guarded_call_def)
    then show ?thesis unfolding es ks Call.IH(1) by simp
  qed
qed simp_all

lemma unguard_guard_stmt: "unguard_stmt (guard_stmt s) = unguard_stmt s"
  by (induction s) (simp_all add: unguard_guard)

lemma guarded_guard: "guarded (guard_expr e)"
proof (induction e)
  case (Call f es ks)
  then show ?case
    by (auto simp: guarded_call_def is_train_def list_all_iff)
qed (auto simp: list_all_iff)

lemma guard_guarded: "guarded e \<Longrightarrow> guard_expr e = e"
proof (induction e)
  case (Call f es ks)
  have "map guard_expr es = es" using Call by (auto simp: list_all_iff intro: map_idI)
  moreover have "map (map_prod id guard_expr) ks = ks" using Call by (intro map_idI) (force simp: list_all_iff)
  ultimately show ?case using Call by (auto simp: guarded_call_def)
qed (auto simp: list_all_iff intro: map_idI)

lemma guard_helper_free: "helper_free (guard_expr e) \<Longrightarrow> guard_expr e = e"
proof (induction e)
  case (Call f es ks)
  have c: "guard_expr (Call f es ks) = Call (guard_expr f) (map guard_expr es) (map (map_prod id guard_expr) ks)"
    using Call.prems by (auto simp: guarded_call_def)
  with Call.prems have h: "helper_free (guard_expr f)" "\<forall>x \<in> set es. helper_free (guard_expr x)"
    "\<forall>(k, x) \<in> set ks. helper_free (guard_expr x)" by (auto simp: list_all_iff)
  have "map guard_expr es = es" using Call.IH h by (auto intro: map_idI)
  moreover have "map (map_prod id guard_expr) ks = ks" using Call.IH h by (intro map_idI) force
  ultimately show ?case using Call.IH(1) h(1) c by simp
qed (auto simp: list_all_iff intro: map_idI)

lemma guarded_guard_stmt: "guarded_stmt (guard_stmt s)"
  by (induction s) (auto simp: guarded_guard list_all_iff)

lemma guard_only: "only_guarded b (map guard_stmt b)"
  by (simp add: only_guarded_def guarded_guard_stmt unguard_guard_stmt list_all_iff)

lemma guard_guarded_stmt: "guarded_stmt s \<Longrightarrow> guard_stmt s = s"
  by (induction s) (auto simp: guard_guarded list_all_iff intro!: map_idI)

lemma guard_helper_free_stmt: "helper_free_stmt (guard_stmt s) \<Longrightarrow> guard_stmt s = s"
  by (induction s) (auto simp: list_all_iff intro!: map_idI intro: guard_helper_free)

lemma without_inserted: "list_all (\<lambda>n. n \<notin> set guard) body \<Longrightarrow> without_guard guard (insert_guard guard body) = body"
proof -
  assume a: "list_all (\<lambda>n. n \<notin> set guard) body"
  have "filter (\<lambda>n. n \<notin> set guard) (take k body) = take k body" "filter (\<lambda>n. n \<notin> set guard) (drop k body) = drop k body" for k
    using a by (auto simp: filter_id_conv list_all_iff dest: in_set_takeD in_set_dropD)
  then show ?thesis by (simp add: without_guard_def insert_guard_def)
qed

lemma edited_apart:
  assumes "list_all helper_free_stmt guard"
  shows "list_all (\<lambda>n. n \<notin> set guard) (map guard_stmt (without_guard guard body))"
proof (unfold list_all_iff, intro ballI notI)
  fix n assume n: "n \<in> set (map guard_stmt (without_guard guard body))" "n \<in> set guard"
  then obtain m where m: "m \<notin> set guard" "n = guard_stmt m" by (auto simp: without_guard_def)
  with n(2) assms have "helper_free_stmt (guard_stmt m)" by (auto simp: list_all_iff)
  with guard_helper_free_stmt m n(2) show False by metis
qed

lemma rewrite_tree_again:
  assumes "whole \<longrightarrow> list_all helper_free_stmt guard"
  shows "rewrite_tree guard whole (rewrite_tree guard whole body) = rewrite_tree guard whole body"
proof -
  have twice: "map guard_stmt (map guard_stmt xs) = map guard_stmt xs" for xs
    by (simp add: guard_guarded_stmt [OF guarded_guard_stmt])
  show ?thesis
  proof (cases whole)
    case True
    let ?x = "map guard_stmt (without_guard guard body)"
    have "list_all (\<lambda>n. n \<notin> set guard) ?x" using assms True by (intro edited_apart) simp
    with True twice show ?thesis by (simp only: rewrite_tree_def if_True without_inserted)
  qed (simp add: rewrite_tree_def twice del: map_map)
qed

lemma concat_lines_kept: "concat (lines_kept acc s) = rev acc @ s"
  by (induction acc s rule: lines_kept.induct) (auto simp: neq_Nil_conv)

lemma joined_lines [simp]: "joined_source (source_lines s) = Some s"
proof -
  have "those (map (\<lambda>x. case x of JStr s \<Rightarrow> Some s | _ \<Rightarrow> None) (map JStr xs)) = Some xs" for xs
    by (induction xs) simp_all
  from this [of "lines_kept [] s"] show ?thesis by (simp add: joined_source_def source_lines_def concat_lines_kept del: map_map)
qed

text \<open>What is printed of an edited script is read back.\<close>

definition prints_back :: "python \<Rightarrow> (stmt list \<Rightarrow> stmt list) \<Rightarrow> bool" where
  "prints_back py edit \<longleftrightarrow>
     (\<forall>s t. py_parse py s = Parsed t \<longrightarrow> py_parse py (py_unparse py (edit t) @ newline) = Parsed (edit t))"

lemma rewrite_python_again:
  assumes "rewrite_python py guard whole s = Parsed u" and "prints_back py (rewrite_tree guard whole)"
    and "whole \<longrightarrow> list_all helper_free_stmt guard"
  shows "rewrite_python py guard whole u = Parsed u"
    and "\<exists>t. py_parse py s = Parsed t \<and> py_parse py u = Parsed (rewrite_tree guard whole t)"
proof -
  from assms(1) obtain t where t: "py_parse py s = Parsed t" "u = py_unparse py (rewrite_tree guard whole t) @ newline"
    by (auto simp: rewrite_python_def split: parsing.splits)
  with assms(2) have r: "py_parse py u = Parsed (rewrite_tree guard whole t)" by (simp add: prints_back_def)
  with t(2) rewrite_tree_again [OF assms(3)] show "rewrite_python py guard whole u = Parsed u"
    by (simp add: rewrite_python_def)
  from t(1) r show "\<exists>t. py_parse py s = Parsed t \<and> py_parse py u = Parsed (rewrite_tree guard whole t)" by blast
qed

lemma those_again:
  assumes "those (map g xs) = Some ys" and "\<And>x y. x \<in> set xs \<Longrightarrow> g x = Some y \<Longrightarrow> g y = Some y \<and> \<not> q y"
  shows "those (map g (filter (\<lambda>y. \<not> q y) ys)) = Some ys"
  using assms
proof (induction xs arbitrary: ys)
  case (Cons x xs)
  from Cons.prems(1) obtain y zs where y: "g x = Some y" "those (map g xs) = Some zs" "ys = y # zs"
    by (auto split: option.splits)
  from Cons.prems(2) [of x y] y have "g y = Some y" "\<not> q y" by auto
  moreover have "those (map g (filter (\<lambda>y. \<not> q y) zs)) = Some zs"
    using Cons.prems(2) by (intro Cons.IH [OF y(2)]) auto
  ultimately show ?case using y(3) by simp
qed simp

lemma rewrite_cell_again:
  assumes "rewrite_cell py c = Some d" and "\<not> own_cell c" and "prints_back py (rewrite_tree [] False)"
  shows "rewrite_cell py d = Some d \<and> \<not> own_cell d"
proof (cases "d = c")
  case False
  with assms(1) obtain s u where r: "map_of c ''cell_type'' = Some (JStr ''code'')"
    "rewrite_python py [] False s = Parsed u" "d = AList.update ''source'' (source_lines u) c"
    by (auto simp: rewrite_cell_def split: if_splits option.splits parsing.splits)
  have m: "map_of d ''cell_type'' = Some (JStr ''code'')" "map_of d ''id'' = map_of c ''id''"
    "map_of d ''source'' = Some (source_lines u)"
    using r(1) by (simp_all add: r(3) update_conv')
  have "AList.update ''source'' (source_lines u) d = d" by (simp add: r(3))
  with m rewrite_python_again(1) [OF r(2) assms(3)] assms(2) show ?thesis by (simp add: rewrite_cell_def own_cell_def)
qed (use assms in simp)

lemma rewrite_cells_again:
  assumes "rewrite_cells py guard_text cs = Some ds" and "prints_back py (rewrite_tree [] False)"
  shows "rewrite_cells py guard_text ds = Some ds"
proof -
  from assms(1) obtain es where e: "those (map (rewrite_cell py) (filter (\<lambda>c. \<not> own_cell c) cs)) = Some es"
    "ds = policy_cell guard_text # es" by (auto simp: rewrite_cells_def)
  have "own_cell (policy_cell guard_text)" by (simp add: own_cell_def policy_cell_def)
  moreover have "those (map (rewrite_cell py) (filter (\<lambda>c. \<not> own_cell c) es)) = Some es"
    by (rule those_again [OF e(1)], rule rewrite_cell_again [OF _ _ assms(2)]) auto
  ultimately show ?thesis by (simp add: rewrite_cells_def e(2))
qed

lemma those_objects: "those (map (\<lambda>c. case c of JObj e \<Rightarrow> Some e | _ \<Rightarrow> None) (map JObj fs)) = Some fs"
  by (induction fs) simp_all

lemma rewrite_notebookD:
  assumes "rewrite_notebook py guard_text nb = Some nb'"
  obtains d cs es fs where "nb = JObj d" "map_of d ''cells'' = Some (JArr cs)"
    "those (map (\<lambda>c. case c of JObj e \<Rightarrow> Some e | _ \<Rightarrow> None) cs) = Some es" "rewrite_cells py guard_text es = Some fs"
    "nb' = JObj (AList.update ''cells'' (JArr (map JObj fs)) d)"
proof (cases nb)
  case (JObj d)
  show thesis
  proof (cases "map_of d ''cells''")
    case (Some v)
    show thesis
    proof (cases v)
      case (JArr cs)
      with JObj Some assms that show thesis by (auto simp: rewrite_notebook_def bind_eq_Some_conv)
    qed (use JObj Some assms in \<open>simp_all add: rewrite_notebook_def\<close>)
  qed (use JObj assms in \<open>simp add: rewrite_notebook_def\<close>)
qed (use assms in \<open>simp_all add: rewrite_notebook_def\<close>)

lemma those_objectsD: "those (map (\<lambda>c. case c of JObj e \<Rightarrow> Some e | _ \<Rightarrow> None) cs) = Some es \<Longrightarrow> cs = map JObj es"
  by (induction cs arbitrary: es) (auto split: json.splits option.splits)

lemma rewrite_notebook_again:
  assumes "rewrite_notebook py guard_text nb = Some nb'" and "prints_back py (rewrite_tree [] False)"
  shows "rewrite_notebook py guard_text nb' = Some nb'"
proof (rule rewrite_notebookD [OF assms(1)])
  fix d cs es fs
  assume r: "rewrite_cells py guard_text es = Some fs" "nb' = JObj (AList.update ''cells'' (JArr (map JObj fs)) d)"
  have "map_of (AList.update ''cells'' (JArr (map JObj fs)) d) ''cells'' = Some (JArr (map JObj fs))"
    by (simp add: update_conv')
  with rewrite_cells_again [OF r(1) assms(2)] those_objects show ?thesis
    by (simp add: rewrite_notebook_def r(2) del: map_map)
qed

text \<open>
  What the edit of a notebook does to a cell: of a code cell whose text is Python it guards the training calls, any
  other one, with a magic command for example, it leaves as it is.
\<close>

definition cell_text :: "json dict \<Rightarrow> string option" where
  "cell_text c = (if map_of c ''cell_type'' = Some (JStr ''code'')
     then joined_source (case map_of c ''source'' of None \<Rightarrow> JArr [] | Some v \<Rightarrow> v) else None)"

definition edited_cell :: "python \<Rightarrow> json dict \<Rightarrow> json dict \<Rightarrow> bool" where
  "edited_cell py c c' \<longleftrightarrow> \<not> own_cell c' \<and>
     (case Option.bind (cell_text c) (\<lambda>s. case py_parse py s of Parsed t \<Rightarrow> Some t | _ \<Rightarrow> None) of
        None \<Rightarrow> c' = c
      | Some t \<Rightarrow> (\<exists>v t'. c' = AList.update ''source'' (source_lines v) c \<and> py_parse py v = Parsed t' \<and> only_guarded t t'))"

definition edited_notebook :: "python \<Rightarrow> string \<Rightarrow> json \<Rightarrow> json \<Rightarrow> bool" where
  "edited_notebook py guard_text nb nb' \<longleftrightarrow>
     (\<exists>d es fs. nb = JObj d \<and> map_of d ''cells'' = Some (JArr (map JObj es))
        \<and> nb' = JObj (AList.update ''cells'' (JArr (map JObj (policy_cell guard_text # fs))) d)
        \<and> list_all2 (edited_cell py) (filter (\<lambda>c. \<not> own_cell c) es) fs)"

lemma rewritten_cell:
  assumes "rewrite_cell py c = Some d" and "\<not> own_cell c" and "prints_back py (rewrite_tree [] False)"
  shows "edited_cell py c d"
proof -
  have own: "\<not> own_cell d" using rewrite_cell_again [OF assms] by blast
  show ?thesis
  proof (cases "Option.bind (cell_text c) (\<lambda>s. case py_parse py s of Parsed t \<Rightarrow> Some t | _ \<Rightarrow> None)")
    case None
    with assms(1) have "d = c"
      by (auto simp: rewrite_cell_def rewrite_python_def cell_text_def split: if_splits option.splits parsing.splits)
    with None own show ?thesis by (simp add: edited_cell_def)
  next
    case (Some t)
    then obtain s where "cell_text c = Some s" "(case py_parse py s of Parsed t \<Rightarrow> Some t | _ \<Rightarrow> None) = Some t"
      by (auto simp: bind_eq_Some_conv)
    then have s: "cell_text c = Some s" "py_parse py s = Parsed t" by (cases "py_parse py s"; simp)+
    let ?v = "py_unparse py (map guard_stmt t) @ newline"
    have "d = AList.update ''source'' (source_lines ?v) c"
      using assms(1) s by (auto simp: rewrite_cell_def rewrite_python_def rewrite_tree_def cell_text_def split: if_splits)
    moreover have "py_parse py ?v = Parsed (map guard_stmt t)"
      using assms(3) s(2) by (simp add: prints_back_def rewrite_tree_def)
    ultimately show ?thesis using Some own guard_only by (auto simp: edited_cell_def)
  qed
qed

lemma those_list_all2: "those (map g xs) = Some ys \<longleftrightarrow> list_all2 (\<lambda>x y. g x = Some y) xs ys"
  by (induction xs arbitrary: ys) (auto simp: list_all2_Cons1 split: option.splits)

lemma rewritten_notebook:
  assumes "rewrite_notebook py guard_text nb = Some nb'" and "prints_back py (rewrite_tree [] False)"
  shows "edited_notebook py guard_text nb nb'"
proof (rule rewrite_notebookD [OF assms(1)])
  fix d cs es fs
  assume r: "nb = JObj d" "map_of d ''cells'' = Some (JArr cs)"
    "those (map (\<lambda>c. case c of JObj e \<Rightarrow> Some e | _ \<Rightarrow> None) cs) = Some es" "rewrite_cells py guard_text es = Some fs"
    "nb' = JObj (AList.update ''cells'' (JArr (map JObj fs)) d)"
  from r(4) obtain gs where g: "list_all2 (\<lambda>c c'. rewrite_cell py c = Some c') (filter (\<lambda>c. \<not> own_cell c) es) gs"
    "fs = policy_cell guard_text # gs" by (auto simp: rewrite_cells_def those_list_all2)
  have "list_all2 (edited_cell py) (filter (\<lambda>c. \<not> own_cell c) es) gs"
    by (rule list.rel_mono_strong [OF g(1)]) (auto intro: rewritten_cell assms(2))
  with r(1,2,5) g(2) those_objectsD [OF r(3)] show ?thesis by (auto simp: edited_notebook_def)
qed

lemma wrapped_wrapper [simp]: "wrap_stmt (wrapper x) = []" "count_entries (wrapper x) = 0" "legacy_worker py (wrapper x) = None"
  by (simp_all add: wrapper_def is_wrapper_def legacy_worker_def)

lemma concat_wrapped: "\<forall>s \<in> set b. concat (map wrap_stmt (wrap_stmt s)) = wrap_stmt s \<Longrightarrow>
    concat (map wrap_stmt (concat (map wrap_stmt b))) = concat (map wrap_stmt b)"
  by (induction b) simp_all

lemma wrap_again: "concat (map wrap_stmt (wrap_stmt s)) = wrap_stmt s"
proof (induction s)
  case (Other_stmt k es bs)
  then have "map (concat \<circ> map wrap_stmt) (map (concat \<circ> map wrap_stmt) bs) = map (concat \<circ> map wrap_stmt) bs"
    using concat_wrapped by (simp add: comp_def)
  then show ?case by (simp add: comp_def)
qed (simp_all add: comp_def)

lemma sum_wrapped: "\<forall>s \<in> set b. sum_list (map count_entries (wrap_stmt s)) = count_entries s \<Longrightarrow>
    sum_list (map count_entries (concat (map wrap_stmt b))) = sum_list (map count_entries b)"
  by (induction b) simp_all

lemma entries_wrapped: "sum_list (map count_entries (wrap_stmt s)) = count_entries s"
proof (induction s)
  case (Other_stmt k es bs)
  have "sum_list (map count_entries (concat (map wrap_stmt b))) = sum_list (map count_entries b)" if "b \<in> set bs" for b
    using Other_stmt that by (intro sum_wrapped) blast
  then show ?case by (auto simp: comp_def intro!: arg_cong [of _ _ sum_list])
qed (simp_all add: comp_def)

lemma wrap_list_again:
  "concat (map wrap_stmt (concat (map wrap_stmt b))) = concat (map wrap_stmt b)"
  "sum_list (map count_entries (concat (map wrap_stmt b))) = sum_list (map count_entries b)"
  using concat_wrapped wrap_again sum_wrapped entries_wrapped by blast+

lemma legacy_wrapped: "legacy_worker py s = None \<Longrightarrow> list_all (\<lambda>n. legacy_worker py n = None) (wrap_stmt s)"
proof (induction s)
  case (Other_stmt k es bs)
  show ?case by (simp add: legacy_worker_def)
qed (auto simp: list_all_iff)

lemma no_first_legacy: "first_legacy py i body = None \<longleftrightarrow> list_all (\<lambda>n. legacy_worker py n = None) body"
  by (induction body arbitrary: i) (auto split: option.splits)

lemma inserted_list_all: "list_all P guard \<Longrightarrow> list_all P body \<Longrightarrow> list_all P (insert_guard guard body)"
  by (auto simp: insert_guard_def list_all_iff dest: in_set_takeD in_set_dropD)

section \<open>Properties\<close>

text \<open>The submission after the edit: the script that the metadata names has the new text.\<close>

definition with_script :: "script_env \<Rightarrow> json dict \<Rightarrow> string \<Rightarrow> (string \<Rightarrow> script_file) \<Rightarrow> string \<Rightarrow> script_file" where
  "with_script se m u file_at =
     (let name = code_file_of (se_render se) m in file_at(name := (file_at name)\<lparr>sf_text := \<lambda>_. Some u\<rparr>))"

text \<open>
  C39: The edit of a YOLO training changes nothing but what it is for, and survives a retry: applied to the submission
  it has edited, the policy gives the same text and message again, for scripts and for notebooks. In an edited script
  the guard stands once; outside it every training call with data goes through the guard with its own arguments, and
  everything else is as it was. A notebook begins with the cell of the guard, which it has once; of the other cells
  those that are Python code are edited like a script, and the others, so also code cells with magic commands, stay as
  they are. The guard does not call itself, what is printed of a script is read back, and so is a notebook.
\<close>

theorem gpu_policy_survives_retry:
  assumes "apply_yolo_gpu_policy se g m file_at c = Inr (Some (msg, u))"
    and "list_all helper_free_stmt (parsed_guard (se_python se) g)"
    and "prints_back (se_python se) (rewrite_tree (parsed_guard (se_python se) g) True)"
    and "prints_back (se_python se) (rewrite_tree [] False)"
    and "\<And>s nb nb'. se_loads se s = Some nb \<Longrightarrow> rewrite_notebook (se_python se) g nb = Some nb'
      \<Longrightarrow> se_loads se (se_dumps se nb' @ newline) = Some nb'"
  shows "apply_yolo_gpu_policy se g m (with_script se m u file_at) c = Inr (Some (msg, u))
    \<and> (let f = file_at (code_file_of (se_render se) m) in
        if lower (sf_suffix f) = ''.py''
        then (\<exists>s t body. sf_text f ''utf-8-sig'' = Some s \<and> py_parse (se_python se) s = Parsed t
          \<and> py_parse (se_python se) u = Parsed (insert_guard (parsed_guard (se_python se) g) body)
          \<and> only_guarded (without_guard (parsed_guard (se_python se) g) t) body
          \<and> list_all (\<lambda>n. n \<notin> set (parsed_guard (se_python se) g)) body)
        else (\<exists>s nb nb'. sf_text f ''utf-8'' = Some s \<and> se_loads se s = Some nb \<and> se_loads se u = Some nb'
          \<and> edited_notebook (se_python se) g nb nb'))"
proof -
  let ?py = "se_python se" and ?f = "file_at (code_file_of (se_render se) m)"
  let ?P = "parsed_guard ?py g" and ?f' = "?f\<lparr>sf_text := \<lambda>_. Some u\<rparr>"
  from assms(1) have a: "c = ''yolo''" "gpu_requested (se_render se) m" "plain_script ?f" "prepare_yolo se g ?f = Some u"
    "msg = gpu_policy_message"
    by (auto simp: apply_yolo_gpu_policy_def Let_def split: if_splits option.splits)
  have again: "prepare_yolo se g ?f' = Some u \<Longrightarrow> apply_yolo_gpu_policy se g m (with_script se m u file_at) c = Inr (Some (msg, u))"
    using a by (simp add: apply_yolo_gpu_policy_def with_script_def plain_script_def Let_def)
  show ?thesis
  proof (cases "lower (sf_suffix ?f) = ''.py''")
    case True
    obtain s where s: "sf_text ?f ''utf-8-sig'' = Some s" "rewrite_python ?py ?P True s = Parsed u"
    proof -
      from a(4) True obtain s where "sf_text ?f ''utf-8-sig'' = Some s"
        "(case rewrite_python ?py ?P True s of Parsed v \<Rightarrow> Some v | _ \<Rightarrow> None) = Some u"
        by (auto simp: prepare_yolo_def Let_def bind_eq_Some_conv)
      with that show thesis by (cases "rewrite_python ?py ?P True s") auto
    qed
    note r = rewrite_python_again [OF s(2) assms(3) impI [OF assms(2)]]
    from r(2) obtain t where t: "py_parse ?py s = Parsed t" "py_parse ?py u = Parsed (rewrite_tree ?P True t)" by blast
    have "list_all (\<lambda>n. n \<notin> set ?P) (map guard_stmt (without_guard ?P t))" by (rule edited_apart [OF assms(2)])
    moreover have "prepare_yolo se g ?f' = Some u" using r(1) True by (simp add: prepare_yolo_def Let_def)
    ultimately show ?thesis
      using again s(1) t guard_only [of "without_guard ?P t"] True by (auto simp: Let_def rewrite_tree_def)
  next
    case False
    with a(4) obtain s nb nb' where n: "lower (sf_suffix ?f) = ''.ipynb''" "sf_text ?f ''utf-8'' = Some s"
      "se_loads se s = Some nb" "rewrite_notebook ?py g nb = Some nb'" "u = se_dumps se nb' @ newline"
      by (auto simp: prepare_yolo_def Let_def bind_eq_Some_conv split: if_splits)
    note read = assms(5) [OF n(3,4)]
    from read rewrite_notebook_again [OF n(4) assms(4)] n(1,5) have "prepare_yolo se g ?f' = Some u"
      by (simp add: prepare_yolo_def)
    with again False n(2,3,5) read rewritten_notebook [OF n(4) assms(4)] show ?thesis
      by (auto simp: Let_def)
  qed
qed

text \<open>What the overlay makes of a tree, where it does not raise.\<close>

definition overlaid :: "script_env \<Rightarrow> stmt list \<Rightarrow> stmt list \<Rightarrow> stmt list" where
  "overlaid se guard body =
     (case remove_legacy_prefix se body of
        None \<Rightarrow> body
      | Some b \<Rightarrow> insert_guard guard (concat (map wrap_stmt (without_guard guard b))))"

text \<open>
  The overlay of a DINO training survives a retry, also when the first submission replaced the overlay of an
  older version: applied to the submission it has edited, the policy gives the same text again. The guard then
  stands once, and every import of the entry is followed by its wrapper exactly once. The guard holds no older
  overlay, nor does the script once one is removed; no statement of the script is one of the guard; what is
  printed of a script is read back.
\<close>

theorem dino_policy_survives_retry:
  assumes "apply_dino_threshold_policy se ig tg m file_at c = Inr (Some (msg, u))"
    and "parsed_guard (se_python se) (dino_prefix se (dino_guard se ig tg)) = guard"
    and "list_all (\<lambda>n. legacy_worker (se_python se) n = None) guard"
    and "prints_back (se_python se) (overlaid se guard)"
    and "sf_text (file_at (code_file_of (se_render se) m)) ''utf-8-sig'' = Some s" "py_parse (se_python se) s = Parsed body"
    and "remove_legacy_prefix se body = Some b" "list_all (\<lambda>n. legacy_worker (se_python se) n = None) b"
    and "list_all (\<lambda>n. n \<notin> set guard) (concat (map wrap_stmt (without_guard guard b)))"
  shows "apply_dino_threshold_policy se ig tg m (with_script se m u file_at) c = Inr (Some (msg, u))
    \<and> (\<exists>x. py_parse (se_python se) u = Parsed (insert_guard guard x) \<and> concat (map wrap_stmt x) = x
        \<and> list_all (\<lambda>n. n \<notin> set guard) x \<and> sum_list (map count_entries x) \<noteq> 0)"
proof -
  let ?py = "se_python se" and ?f = "file_at (code_file_of (se_render se) m)" and ?g = "dino_guard se ig tg"
  let ?x = "concat (map wrap_stmt (without_guard guard b))"
  from assms(1) have a: "c = ''patchcore_dinov2_v3''" "plain_script ?f" "lower (sf_suffix ?f) = ''.py''"
    "prepare_dino se ?g ?f = Some u" "msg = dino_policy_message se ig ?g"
    by (auto simp: apply_dino_threshold_policy_def Let_def split: if_splits option.splits)
  from a(4) assms(2,5-7) have p: "sum_list (map count_entries (without_guard guard b)) \<noteq> 0"
    "u = py_unparse ?py (insert_guard guard ?x) @ newline" "\<exists>v. py_compile ?py u = Parsed v"
    by (auto simp: prepare_dino_def Let_def split: if_splits parsing.splits)
  have o: "overlaid se guard body = insert_guard guard ?x" using assms(7) by (simp add: overlaid_def)
  have read: "py_parse ?py u = Parsed (insert_guard guard ?x)"
    using assms(4,6) o p(2) unfolding prints_back_def by metis
  have entries: "sum_list (map count_entries ?x) \<noteq> 0" using p(1) wrap_list_again(2) by metis
  have "list_all (\<lambda>n. legacy_worker ?py n = None) ?x"
    using assms(8) legacy_wrapped by (fastforce simp: list_all_iff without_guard_def)
  then have "first_legacy ?py 0 (insert_guard guard ?x) = None"
    using inserted_list_all [OF assms(3)] by (simp only: no_first_legacy)
  then have "remove_legacy_prefix se (insert_guard guard ?x) = Some (insert_guard guard ?x)"
    by (simp add: remove_legacy_prefix_def)
  with read entries p(2,3) assms(2) without_inserted [OF assms(9)] wrap_list_again(1)
  have "prepare_dino se ?g (?f\<lparr>sf_text := \<lambda>_. Some u\<rparr>) = Some u"
    by (auto simp: prepare_dino_def Let_def)
  with a have "apply_dino_threshold_policy se ig tg m (with_script se m u file_at) c = Inr (Some (msg, u))"
    by (simp add: apply_dino_threshold_policy_def with_script_def plain_script_def Let_def)
  with read entries assms(9) wrap_list_again(1) show ?thesis by blast
qed

section \<open>Witnesses\<close>

definition sample_guard :: "stmt list" where
  "sample_guard = [Other_stmt ''def'' [] [[Expr_stmt (Call (Name ''print'') [] [])]]]"

definition sample_training :: "stmt list" where
  "sample_training = [Expr_stmt (Text ''doc''), Expr_stmt (Call (Attribute (Name ''model'') ''train'') [] [(Some ''data'', Text ''d'')])]"

definition sample_python :: "stmt list \<Rightarrow> stmt list \<Rightarrow> stmt list \<Rightarrow> python" where
  "sample_python t0 t1 t2 = \<lparr>
     py_parse = (\<lambda>s. Parsed (if s = ''a'' then t0 else if s = ''b'' @ newline then t1 else if s = ''c'' @ newline then t2 else sample_guard)),
     py_unparse = (\<lambda>t. if t = t1 then ''b'' else if t = t2 then ''c'' else ''g''),
     py_compile = (\<lambda>_. Parsed ()), py_repr = (\<lambda>s. s)\<rparr>"

definition sample_script_env :: "python \<Rightarrow> script_env" where
  "sample_script_env py = \<lparr>se_python = py, se_render = (\<lambda>_. []), se_loads = (\<lambda>_. None), se_dumps = (\<lambda>_. []), se_sha256 = (\<lambda>_. ''0'')\<rparr>"

definition sample_script :: "string \<Rightarrow> script_file" where
  "sample_script _ = \<lparr>sf_inside = True, sf_link = False, sf_regular = True, sf_suffix = ''.py'', sf_text = (\<lambda>_. Some ''a'')\<rparr>"

lemma sample_reads:
  assumes "t1 \<noteq> sample_guard" "t2 \<noteq> sample_guard" and "edit ` {t0, t1, t2, sample_guard} \<subseteq> {t1, t2, sample_guard}"
  shows "prints_back (sample_python t0 t1 t2) edit"
proof -
  have r: "py_parse (sample_python t0 t1 t2) (py_unparse (sample_python t0 t1 t2) t @ newline) = Parsed t"
    if "t \<in> {t1, t2, sample_guard}" for t
    using that assms(1,2) by (auto simp: sample_python_def newline_def)
  have m: "t \<in> {t0, t1, t2, sample_guard}" if "py_parse (sample_python t0 t1 t2) s = Parsed t" for s t
    using that by (auto simp: sample_python_def split: if_splits)
  show ?thesis
    unfolding prints_back_def using r [OF subsetD [OF assms(3) imageI [OF m]]] by simp
qed

definition sample_yolo :: script_env where
  "sample_yolo = sample_script_env (sample_python sample_training (rewrite_tree sample_guard True sample_training)
     (rewrite_tree [] False sample_training))"

lemma gpu_policy_survives_retry_witness:
  "\<exists>u. apply_yolo_gpu_policy sample_yolo ''g'' [(''enable_gpu'', JStr ''True'')]
      (with_script sample_yolo [(''enable_gpu'', JStr ''True'')] u sample_script) ''yolo'' = Inr (Some (gpu_policy_message, u))"
proof -
  let ?t0 = sample_training let ?t1 = "rewrite_tree sample_guard True ?t0" and ?t2 = "rewrite_tree [] False ?t0"
  have g: "parsed_guard (se_python sample_yolo) ''g'' = sample_guard" by code_simp
  have f: "list_all helper_free_stmt sample_guard" by code_simp
  have d: "?t1 \<noteq> sample_guard" "?t2 \<noteq> sample_guard" by code_simp+
  have e: "rewrite_tree sample_guard True ` {?t0, ?t1, ?t2, sample_guard} \<subseteq> {?t1, ?t2, sample_guard}"
    "rewrite_tree [] False ` {?t0, ?t1, ?t2, sample_guard} \<subseteq> {?t1, ?t2, sample_guard}"
    by code_simp+
  have p: "se_python sample_yolo = sample_python ?t0 ?t1 ?t2" "se_loads sample_yolo = (\<lambda>_. None)"
    by (simp_all add: sample_yolo_def sample_script_env_def)
  have a: "apply_yolo_gpu_policy sample_yolo ''g'' [(''enable_gpu'', JStr ''True'')] sample_script ''yolo''
      = Inr (Some (gpu_policy_message, ''b'' @ newline))" by code_simp
  from gpu_policy_survives_retry [OF a, unfolded g, OF f] sample_reads [OF d e(1)] sample_reads [OF d e(2)] p
  show ?thesis by auto
qed

definition sample_bootstrap :: "stmt list" where
  "sample_bootstrap = [Import_from (Some bootstrap_module) 0 [(''run'', None)]]"

definition sample_dino :: script_env where
  "sample_dino = sample_script_env (sample_python sample_bootstrap
     (insert_guard sample_guard (concat (map wrap_stmt sample_bootstrap))) (concat (map wrap_stmt sample_bootstrap)))"

lemma dino_policy_survives_retry_witness:
  "\<exists>msg u. apply_dino_threshold_policy sample_dino ''i'' ''t'' [] (with_script sample_dino [] u sample_script) ''patchcore_dinov2_v3''
     = Inr (Some (msg, u))"
proof -
  let ?t0 = sample_bootstrap let ?t2 = "concat (map wrap_stmt ?t0)" let ?t1 = "insert_guard sample_guard ?t2"
  let ?g = "dino_guard sample_dino ''i'' ''t''"
  have a: "apply_dino_threshold_policy sample_dino ''i'' ''t'' [] sample_script ''patchcore_dinov2_v3''
      = Inr (Some (dino_policy_message sample_dino ''i'' ?g, ''b'' @ newline))" by code_simp
  have g: "parsed_guard (se_python sample_dino) (dino_prefix sample_dino ?g) = sample_guard" by code_simp
  have l: "list_all (\<lambda>n. legacy_worker (se_python sample_dino) n = None) sample_guard" by code_simp
  have d: "?t1 \<noteq> sample_guard" "?t2 \<noteq> sample_guard" by code_simp+
  have e: "overlaid sample_dino sample_guard ` {?t0, ?t1, ?t2, sample_guard} \<subseteq> {?t1, ?t2, sample_guard}" by code_simp
  have p: "se_python sample_dino = sample_python ?t0 ?t1 ?t2" by (simp add: sample_dino_def sample_script_env_def)
  have s: "sf_text (sample_script (code_file_of (se_render sample_dino) [])) ''utf-8-sig'' = Some ''a''"
    "py_parse (se_python sample_dino) ''a'' = Parsed ?t0" "remove_legacy_prefix sample_dino ?t0 = Some ?t0"
    "list_all (\<lambda>n. legacy_worker (se_python sample_dino) n = None) ?t0"
    "list_all (\<lambda>n. n \<notin> set sample_guard) (concat (map wrap_stmt (without_guard sample_guard ?t0)))"
    by code_simp+
  from dino_policy_survives_retry [OF a g l _ s] sample_reads [OF d e] p show ?thesis by auto
qed

end
