(* ===== verification/Spec2Isabelle.thy ===== *)
theory Spec2Isabelle
  imports Submission_Lock Dataset_Wait Job_Inputs Service_Loop Command_Line Cache_Schema Kernel_Output Artifact_Package Run_Guards Script_Policy
begin

text \<open>
  The relay accepts training jobs from clients over HTTP, stores them in SQLite, runs them on Kaggle accounts
  through a pool of workers and keeps what they report. The theories follow \<^verbatim>\<open>src/app\<close>; every definition is
  executable unless it says otherwise.

  Parts, from the bottom up:

  \<^item> \<^verbatim>\<open>Relay_Prelude\<close>: Python strings, dictionaries as association lists (in insertion order), JSON values, and
    two interfaces as locales: \<open>transition_system\<close> (a start, a step and an invariant every step keeps) and
    \<open>slot_table\<close> (counters of what is in use per key). Every locale is interpreted on the model's own
    definitions, in the theory of the component that provides them.
  \<^item> \<^verbatim>\<open>Job_Store\<close>, \<^verbatim>\<open>Store_Queries\<close> (\<^verbatim>\<open>database.py\<close>): the tables as lists of records; \<open>update_job\<close>,
    \<open>update_job_if_status\<close> (the guarded write all racing writers use), \<open>finalize_job\<close>, migration; listings,
    chunks and reservations, bounded logs, the dataset cache, merging of stop evidence.
  \<^item> \<^verbatim>\<open>Security\<close> (\<^verbatim>\<open>security.py\<close>): redaction of secrets, the limiter of failed authentications, the source of a
    request, the same-origin check.
  \<^item> \<^verbatim>\<open>Auth_Config\<close> (\<^verbatim>\<open>auth_config.py\<close>) and \<^verbatim>\<open>Access\<close> (handlers of \<^verbatim>\<open>main.py\<close>): loading a configuration, who a
    token is, which accounts it may use, who may open a job, and the administrator's edits of the file.
  \<^item> \<^verbatim>\<open>Admission\<close> (\<^verbatim>\<open>main.py\<close>, \<^verbatim>\<open>capacity.py\<close>, \<^verbatim>\<open>archive.py\<close>, \<^verbatim>\<open>schemas.py\<close>, \<^verbatim>\<open>worker.py\<close>): creation of a job.
  \<^item> \<^verbatim>\<open>Scheduler\<close> (\<^verbatim>\<open>scheduler.py\<close>): binding of dynamic jobs to accounts.
  \<^item> \<^verbatim>\<open>Stop_Reason\<close> (\<^verbatim>\<open>stop_reason.py\<close>): what is reported of the end of a remote run.
  \<^item> \<^verbatim>\<open>Progress\<close> (\<^verbatim>\<open>startup_progress.py\<close>, \<^verbatim>\<open>main.py\<close>): reports of a run and their order.
  \<^item> \<^verbatim>\<open>Job_Lifecycle\<close> (\<^verbatim>\<open>main.py\<close>, \<^verbatim>\<open>worker.py\<close>): the writers that race on a running job. Each handler is a loop
    of reads and guarded writes; between them the parameter \<open>env\<close> stands for any other writer. The loops try at
    most five times, as the code does, so they are structural recursions on a bound. One write of \<^verbatim>\<open>worker.py\<close> has no
    guard: \<open>write_step\<close> is the system without it, \<open>any_write\<close> the whole one, with the jobs that write has touched.
  \<^item> \<^verbatim>\<open>Worker_Queue\<close> (\<^verbatim>\<open>worker_loop\<close> of \<^verbatim>\<open>main.py\<close>): the pool of workers as the relation \<open>pool_step\<close>.
  \<^item> \<^verbatim>\<open>Recovery\<close> (\<^verbatim>\<open>main.py\<close>, \<^verbatim>\<open>upload_intent.py\<close>): what a restart does with every unfinished job, and the error it
    ends with when the account of a job it must ask about is gone.
  \<^item> \<^verbatim>\<open>Verification_State\<close> (\<^verbatim>\<open>dataset_verification_state.py\<close>): checkpoints of a verification and the pacing of
    remote requests across processes. \<^verbatim>\<open>Dataset_Recheck\<close> (\<^verbatim>\<open>dataset_recovery.py\<close>): rechecks of a retained
    version, which hand work to the pool.

  \<^item> \<^verbatim>\<open>Provider_Text\<close> (\<^verbatim>\<open>kaggle_adapter.py\<close>, \<^verbatim>\<open>worker.py\<close>): the texts of the remote command line, the reports found in a
    log, and which ready version may be reused. \<^verbatim>\<open>Kernel_Wait\<close>: watching a run; a round of the loop is what the
    clock and the command line said in it, and the loop ends within a number of rounds that its deadline gives.
  \<^item> \<^verbatim>\<open>Upload\<close> (\<^verbatim>\<open>main.py\<close>, \<^verbatim>\<open>archive.py\<close>): streams of parts and their counters, completion, assembly, deletion and
    retention, as the relation \<open>upload_step\<close>, in which a stream, a crash or a restart may come between any two steps.
  \<^item> \<^verbatim>\<open>Payload_Metadata\<close>, \<^verbatim>\<open>Submission_Lock\<close>, \<^verbatim>\<open>Worker_Task\<close>, \<^verbatim>\<open>Pipeline\<close> (\<^verbatim>\<open>worker.py\<close>): the metadata files of a
    submission; the shared locks as the relation \<open>lock_step\<close>; and the action of a worker, from the checks to the
    packed result, as a task that threads the run and may raise. \<open>kept_relation\<close> is the interface of relations
    that a task keeps when each of its steps does; it is interpreted for the rows, the remote calls and the files.

  \<^item> \<^verbatim>\<open>Payload_Contract\<close> (\<^verbatim>\<open>payload_contract.py\<close>): which members of an archive are accepted and what the relay
    expects to find of a payload. \<^verbatim>\<open>File_Verification\<close> (\<^verbatim>\<open>dataset_file_verification.py\<close>,
    \<^verbatim>\<open>dataset_verification_process.py\<close>): the paged listing of a version, the download and digest of each file, a
    pass that stops after a batch and resumes from its checkpoints. \<^verbatim>\<open>Dataset_Upload\<close> (\<^verbatim>\<open>kaggle_adapter.py\<close>,
    \<^verbatim>\<open>upload_intent.py\<close>): the upload of a version and the intent written before it.
  \<^item> \<^verbatim>\<open>Child_Process\<close> (\<^verbatim>\<open>kaggle_adapter.py\<close>, \<^verbatim>\<open>kaggle_sdk.py\<close>, \<^verbatim>\<open>dataset_verification_process.py\<close>): what the
    client's child processes print and what the parent makes of it. \<^verbatim>\<open>Dataset_Wait\<close>: the loop that waits until a
    version is ready and verified.

  \<^item> \<^verbatim>\<open>Archive_Files\<close> (\<^verbatim>\<open>archive.py\<close>): a file system of directories and regular files, safe extraction of an archive
    and packing of a directory. \<^verbatim>\<open>Job_Inputs\<close> (\<^verbatim>\<open>main.py\<close>): the inputs of a job put together, unpacked under the storage
    budget and checked on that file system; it refines the assembly that \<^verbatim>\<open>Upload\<close> works with.
  \<^item> \<^verbatim>\<open>Ui_Session\<close> (\<^verbatim>\<open>ui_auth.py\<close>, \<^verbatim>\<open>main.py\<close>): the signed cookie of the browser interface, with its base64 text, and
    the login that makes it.

  \<^item> \<^verbatim>\<open>Quota_Cache\<close> (\<^verbatim>\<open>quota_cache.py\<close>) and \<^verbatim>\<open>Account_Status\<close> (\<^verbatim>\<open>kaggle_adapter.py\<close>, \<^verbatim>\<open>main.py\<close>): the shared lookups
    of accounts as a relation of steps, the environment of a call, the state and the quota of an account, the probe
    of its write access. \<^verbatim>\<open>Command_Line\<close> (\<^verbatim>\<open>kaggle_adapter.py\<close>): how a command is started, watched, stopped and logged.
  \<^item> \<^verbatim>\<open>Config\<close> (\<^verbatim>\<open>config.py\<close>): the settings read from the environment. \<^verbatim>\<open>Job_View\<close> (\<^verbatim>\<open>main.py\<close>): what a job shows, the
    downloads and the callbacks. \<^verbatim>\<open>Cache_Schema\<close> (\<^verbatim>\<open>database.py\<close>): older cache tables get the account in their key.
  \<^item> \<^verbatim>\<open>Result_Package\<close> (\<^verbatim>\<open>dinov2_251_artifacts.py\<close>, \<^verbatim>\<open>worker.py\<close>): the validation of a result, its archive and its
    receipt, which \<^verbatim>\<open>Job_View\<close> compares again. \<^verbatim>\<open>Kernel_Output\<close> (\<^verbatim>\<open>dinov2_kaggle_output.py\<close>): the download of exactly
    the submitted version; its loop over pages has fuel, and more fuel than the remote side has tokens is enough
    (\<open>pages_end\<close>). \<^verbatim>\<open>Artifact_Package\<close> (\<^verbatim>\<open>dinov2_artifacts.py\<close>, \<^verbatim>\<open>cnn_onnx_artifacts.py\<close>, \<^verbatim>\<open>kaggle_adapter.py\<close>): the
    archives of the other contracts. \<^verbatim>\<open>Run_Guards\<close> (\<^verbatim>\<open>dinov2_training_policy.py\<close>, \<^verbatim>\<open>dino_threshold_guard.py\<close>,
    \<^verbatim>\<open>dino_image_guard.py\<close>, \<^verbatim>\<open>yolo_gpu_guard.py\<close>): the request for a training device and the decisions of the guards
    that run beside a training; the rounding of floats is a parameter. \<^verbatim>\<open>Script_Policy\<close> (\<^verbatim>\<open>gpu_policy.py\<close>,
    \<^verbatim>\<open>dino_threshold_policy.py\<close>): the edits of a submitted script that put these guards in place, over its syntax
    tree; Python's parser and printer are parameters (\<^verbatim>\<open>Pipeline\<close> takes the outcome as one).
  \<^item> \<^verbatim>\<open>Service_Loop\<close> (\<^verbatim>\<open>main.py\<close>): a task that waits for a thread while it may be cancelled, and what a worker makes of
    the end of its action, which closes the circle from \<^verbatim>\<open>Pipeline\<close> to \<^verbatim>\<open>Worker_Queue\<close>.

  The state the parts share is \<open>app_state\<close>: the database, the authentication store and the queue of work.
  A time is a rational number of seconds and a parameter of every operation that reads the clock. What is not
  under \<^verbatim>\<open>src/\<close> or depends on the world is a parameter too: SHA-256, the rendering of JSON and of times, free
  disk space, answers of the remote provider, the contents of files.

  What the groups of lemmas show: laws of the tables and what every write keeps (\<open>keyed\<close>, \<open>get\<close> lemmas);
  functional behaviour of each handler on every branch; invariants over all interleavings (cancellation is
  never lost, slots are counted, secrets stay out of what is stored); refinement of the handlers into the
  writes of \<open>any_write\<close>; liveness of the queue (parked items wake, a restart that returns forgets no job) and the
  end of rechecks.

  A task is followed in three ways: which remote calls it makes in which order, what it makes of the rows, and
  which files it hands on; together they say what an action may do under any answers and any rivals.

  Not modelled: the routes, the middleware and the start of the application, the statements that create the tables,
  static pages, the scripts beside the service, and the functions that exchange those of the training packages for
  the guards while a training runs, which rest on these packages. Of \<^verbatim>\<open>cnn_onnx_artifacts.py\<close> the part that only
  the training client calls is left out. Failures of SQLite and of the file system are modelled only where the code
  handles them.
\<close>

end
